(* ===== verification/Prelude.thy ===== *)
theory Prelude
  imports Main "HOL-Library.Word" "HOL-Library.Monad_Syntax"
begin

text \<open>
  The vocabulary every component theory shares: machine types, C memory objects with an
  explicit fault, and the generic lemmas on lists and words the component proofs rest on.

  \<^item> A byte is an \<open>8 word\<close>. A \<open>uint16_t\<close>, \<open>uint32_t\<close> or \<open>size_t\<close> length or offset is a
    \<open>nat\<close>, and every narrowing the C code writes as a cast is written here as
    \<open>u8n\<close>, \<open>u16n\<close> or \<open>u32n\<close> (reduction modulo the width).
  \<^item> A C pointer to bytes is a \<open>cptr\<close>: \<open>None\<close> is the null pointer, \<open>Some bs\<close> points at
    an object whose accessible bytes are \<open>bs\<close>. The length or capacity argument that C
    passes beside a pointer stays a separate argument, so a caller may state a length the
    object does not have.
  \<^item> An access outside the object (undefined behaviour in C) is the value \<open>None\<close> of the
    outer option type: every function that touches memory returns \<open>'a option\<close>, and a
    result \<open>Some r\<close> says that no byte outside the objects was read or written.
\<close>

unbundle bit_operations_syntax

type_synonym u8 = "8 word"
type_synonym bytes = "u8 list"
type_synonym cptr = "bytes option"

text \<open>Offsets are sums with numerals; keep \<open>p + 2\<close> as it is written.\<close>

declare add_2_eq_Suc [simp del] add_2_eq_Suc' [simp del]

text \<open>Keep \<open>0 < length xs\<close> arithmetic, so that a bound on the length discharges it.\<close>

declare length_greater_0_conv [simp del]

named_theorems mem_simps \<open>rewrite rules for in-range memory accesses\<close>

subsection \<open>Machine integers\<close>

definition u8n :: "nat \<Rightarrow> nat" where
  "u8n n = n mod 256"

definition u16n :: "nat \<Rightarrow> nat" where
  "u16n n = n mod 65536"

definition u32n :: "nat \<Rightarrow> nat" where
  "u32n n = n mod 4294967296"

text \<open>\<open>size_t\<close> has 32 bits on both supported boards (Cortex-M4 and Cortex-M33).\<close>

abbreviation SIZE_MAX :: nat where
  "SIZE_MAX \<equiv> 4294967295"

abbreviation UINT16_MAX :: nat where
  "UINT16_MAX \<equiv> 65535"

text \<open>A \<open>nat\<close> that holds a byte value, as the byte C stores for it.\<close>

definition byte :: "nat \<Rightarrow> u8" where
  "byte n = word_of_nat n"

lemma u8n_id [simp]: "n < 256 \<Longrightarrow> u8n n = n"
  by (simp add: u8n_def)

lemma u16n_id [simp]: "n < 65536 \<Longrightarrow> u16n n = n"
  by (simp add: u16n_def)

lemma u32n_id [simp]: "n < 4294967296 \<Longrightarrow> u32n n = n"
  by (simp add: u32n_def)

lemma u8n_bound [simp]: "u8n n < 256"
  by (simp add: u8n_def)

lemma u16n_bound [simp]: "u16n n < 65536"
  by (simp add: u16n_def)

lemma u32n_bound [simp]: "u32n n < 4294967296"
  by (simp add: u32n_def)

lemma u16n_le: "u16n n \<le> n"
  by (simp add: u16n_def)

lemma unat_u8_bound [simp]: "unat (b :: u8) < 256"
  using unsigned_less [of b] by simp

lemma unat_u8_le [simp]: "unat (b :: u8) \<le> 255"
  using unat_u8_bound [of b] by linarith

lemma unat_u8_less_u16 [simp]: "unat (b :: u8) < 65536"
  using unat_u8_bound [of b] by linarith

lemma unat_byte [simp]: "unat (byte n) = n mod 256"
  by (simp add: byte_def unat_of_nat)

lemma byte_unat [simp]: "byte (unat b) = b"
  by (simp add: byte_def)

lemma byte_eq_iff: "byte m = byte n \<longleftrightarrow> m mod 256 = n mod 256"
  by (metis byte_unat unat_byte)

lemma byte_0 [simp]: "byte 0 = 0"
  by (simp add: byte_def)

lemma byte_1 [simp]: "byte 1 = 1" "byte (Suc 0) = 1"
  by (simp_all add: byte_def)

lemma byte_numeral [simp]: "byte (numeral k) = numeral k"
  by (simp add: byte_def)

lemma byte_eq_numeral_iff: "n < 256 \<Longrightarrow> (byte n = numeral k) = (n = numeral k mod 256)"
  by (metis byte_numeral byte_eq_iff mod_less)

subsection \<open>Multi-byte integers\<close>

text \<open>The shifts and ors by which the code assembles integers from bytes.\<close>

definition be16 :: "u8 \<Rightarrow> u8 \<Rightarrow> nat" where
  "be16 msb lsb = unat (push_bit 8 (ucast msb :: 16 word) OR ucast lsb)"

definition be32 :: "u8 \<Rightarrow> u8 \<Rightarrow> u8 \<Rightarrow> u8 \<Rightarrow> nat" where
  "be32 b3 b2 b1 b0 = unat (push_bit 24 (ucast b3 :: 32 word) OR push_bit 16 (ucast b2) OR
     push_bit 8 (ucast b1) OR ucast b0)"

lemma or_disjoint_nat: "b < 2 ^ k \<Longrightarrow> (push_bit k a OR b :: nat) = a * 2 ^ k + b"
proof -
  assume b: "b < 2 ^ k"
  have "\<not> bit (push_bit k a) n \<or> \<not> bit b n" for n
  proof (cases "k \<le> n")
    case True
    then have "b < 2 ^ n" using b by (meson le_less_trans linorder_not_le power_strict_increasing_iff
      one_less_numeral_iff semiring_norm(76) order_less_le_trans power_increasing_iff)
    then have "\<not> bit b n" by (simp add: bit_nat_def)
    then show ?thesis by simp
  next
    case False
    then show ?thesis by (simp add: bit_push_bit_iff)
  qed
  then have "push_bit k a + b = push_bit k a OR b" by (rule disjunctive_add)
  then show ?thesis by (simp add: push_bit_eq_mult)
qed

lemma unat_ucast_u8:
  "LENGTH('a :: len) \<ge> 8 \<Longrightarrow> unat (ucast (b :: u8) :: 'a word) = unat b"
  by (simp add: unsigned_ucast_eq take_bit_nat_eq_self
      less_le_trans [OF unat_u8_bound power_increasing [of 8 "LENGTH('a)" 2, simplified]])

lemma unat_push_ucast_u8:
  assumes "k + 8 \<le> LENGTH('a :: len)"
  shows "unat (push_bit k (ucast (b :: u8)) :: 'a word) = push_bit k (unat b)"
proof -
  have "push_bit k (unat b) < 2 ^ k * 2 ^ 8"
    using unat_u8_bound [of b] by (simp add: push_bit_eq_mult del: unat_u8_bound)
  also have "\<dots> \<le> 2 ^ LENGTH('a)"
    using assms by (metis power_add power_increasing one_le_numeral)
  finally show ?thesis
    using assms by (simp add: unsigned_push_bit_eq unat_ucast_u8 take_bit_nat_eq_self)
qed

lemma be16_eq: "be16 msb lsb = unat msb * 256 + unat lsb"
proof -
  have "be16 msb lsb = push_bit 8 (unat msb) OR unat lsb"
    unfolding be16_def unsigned_or_eq
    by (subst unat_push_ucast_u8) (simp_all add: unat_ucast_u8)
  then show ?thesis using or_disjoint_nat [of "unat lsb" 8 "unat msb"] by simp
qed

lemma be16_bound [simp]: "be16 msb lsb < 65536"
  unfolding be16_eq using unat_u8_bound [of msb] unat_u8_bound [of lsb] by linarith

lemma be16_bytes: "n < 65536 \<Longrightarrow> be16 (byte (n div 256)) (byte n) = n"
  by (simp add: be16_eq)

lemma be16_eq_iff: "be16 msb lsb = n \<longleftrightarrow> n < 65536 \<and> unat msb = n div 256 \<and> unat lsb = n mod 256"
proof
  assume "be16 msb lsb = n"
  moreover have "(unat msb * 256 + unat lsb) div 256 = unat msb" "(unat msb * 256 + unat lsb) mod 256 = unat lsb"
    by simp_all
  ultimately show "n < 65536 \<and> unat msb = n div 256 \<and> unat lsb = n mod 256"
    using be16_bound [of msb lsb] by (simp add: be16_eq)
qed (simp add: be16_eq)

lemma be16_ge_iff: "k * 256 \<le> be16 msb lsb \<longleftrightarrow> k \<le> unat msb"
proof
  assume "k * 256 \<le> be16 msb lsb"
  then show "k \<le> unat msb" unfolding be16_eq using unat_u8_bound [of lsb] by linarith
next
  assume "k \<le> unat msb"
  then show "k * 256 \<le> be16 msb lsb" unfolding be16_eq using unat_u8_bound [of lsb] by linarith
qed

lemma be32_eq:
  "be32 b3 b2 b1 b0 = unat b3 * 16777216 + unat b2 * 65536 + unat b1 * 256 + unat b0"
proof -
  note bounds = unat_u8_bound [of b0] unat_u8_bound [of b1] unat_u8_bound [of b2]
  have b: "unat b0 < 2 ^ 8" by simp
  have "unat b1 * 256 + unat b0 < 65536" using bounds by linarith
  then have c: "unat b1 * 2 ^ 8 + unat b0 < 2 ^ 16" by simp
  have "unat b2 * 65536 + (unat b1 * 256 + unat b0) < 16777216" using bounds by linarith
  then have d: "unat b2 * 2 ^ 16 + (unat b1 * 2 ^ 8 + unat b0) < 2 ^ 24" by simp
  have "be32 b3 b2 b1 b0 =
      push_bit 24 (unat b3) OR (push_bit 16 (unat b2) OR (push_bit 8 (unat b1) OR unat b0))"
    unfolding be32_def unsigned_or_eq or.assoc
    by (subst unat_push_ucast_u8, simp)+ (simp add: unat_ucast_u8)
  also have "\<dots> = unat b3 * 2 ^ 24 + (unat b2 * 2 ^ 16 + (unat b1 * 2 ^ 8 + unat b0))"
    by (simp only: or_disjoint_nat [OF b] or_disjoint_nat [OF c] or_disjoint_nat [OF d])
  finally show ?thesis by simp
qed

lemma be32_bound [simp]: "be32 b3 b2 b1 b0 < 4294967296"
  unfolding be32_eq
  using unat_u8_bound [of b0] unat_u8_bound [of b1] unat_u8_bound [of b2] unat_u8_bound [of b3]
  by linarith

lemma nat_and_255 [simp]: "(n :: nat) AND 255 = n mod 256"
  using take_bit_eq_mask [of 8 n] by (simp add: take_bit_eq_mod mask_eq_exp_minus_1)

lemma nat_and_FF00: "n < 65536 \<Longrightarrow> (n :: nat) AND 0xFF00 = n div 256 * 256"
proof -
  assume n: "n < 65536"
  have "n AND push_bit 8 255 = push_bit 8 (drop_bit 8 n AND 255)"
    by (rule bit_eqI) (simp only: bit_and_iff bit_push_bit_iff_nat bit_drop_bit_eq o_def, auto)
  moreover have "push_bit 8 255 = (0xFF00 :: nat)" by (simp add: push_bit_eq_mult)
  moreover have "n div 256 < 256" using n by (simp add: div_less_iff_less_mult)
  ultimately show ?thesis by (simp add: push_bit_eq_mult drop_bit_eq_div)
qed

lemma be16_and_FF00 [simp]: "be16 msb lsb AND 0xFF00 = unat msb * 256"
proof -
  have "(unat msb * 256 + unat lsb) div 256 = unat msb" using unat_u8_bound [of lsb] by simp
  then show ?thesis using nat_and_FF00 [OF be16_bound [of msb lsb]] by (simp add: be16_eq)
qed

lemma byte_mod_256 [simp]: "byte (n mod 256) = byte n"
  by (simp add: byte_eq_iff)

subsection \<open>Objects in memory\<close>

definition rd :: "cptr \<Rightarrow> nat \<Rightarrow> u8 option" where
  "rd p i = (case p of None \<Rightarrow> None
     | Some bs \<Rightarrow> if i < length bs then Some (bs ! i) else None)"

definition wr :: "cptr \<Rightarrow> nat \<Rightarrow> u8 \<Rightarrow> cptr option" where
  "wr p i b = (case p of None \<Rightarrow> None
     | Some bs \<Rightarrow> if i < length bs then Some (Some (bs[i := b])) else None)"

text \<open>Overwriting a run of a list, the effect of a copy.\<close>

definition patch :: "'a list \<Rightarrow> nat \<Rightarrow> 'a list \<Rightarrow> 'a list" where
  "patch xs off ys = take off xs @ ys @ drop (off + length ys) xs"

text \<open>\<open>memmove (dst + off, src, n)\<close>: the bytes of \<open>src\<close> are read before any is written.\<close>

definition mem_move :: "cptr \<Rightarrow> nat \<Rightarrow> cptr \<Rightarrow> nat \<Rightarrow> cptr option" where
  "mem_move dst off src n = (case (dst, src) of
       (Some d, Some s) \<Rightarrow>
         (if n \<le> length s \<and> off + n \<le> length d then Some (Some (patch d off (take n s)))
          else None)
     | _ \<Rightarrow> None)"

definition mem_fill :: "cptr \<Rightarrow> nat \<Rightarrow> cptr option" where
  "mem_fill p n = (case p of None \<Rightarrow> None
     | Some bs \<Rightarrow> if n \<le> length bs then Some (Some (patch bs 0 (replicate n 0))) else None)"

text \<open>\<open>p + k\<close>: a pointer into the same object, \<open>k\<close> bytes further.\<close>

definition ptr_add :: "cptr \<Rightarrow> nat \<Rightarrow> cptr" where
  "ptr_add p k = map_option (drop k) p"

lemma rd_Some [simp, mem_simps]: "i < length bs \<Longrightarrow> rd (Some bs) i = Some (bs ! i)"
  by (simp add: rd_def)

lemma rd_fault [simp]: "length bs \<le> i \<Longrightarrow> rd (Some bs) i = None"
  by (simp add: rd_def)

lemma rd_null [simp]: "rd None i = None"
  by (simp add: rd_def)

lemma rd_eq_Some_iff: "rd p i = Some b \<longleftrightarrow> (\<exists>bs. p = Some bs \<and> i < length bs \<and> bs ! i = b)"
  by (auto simp: rd_def split: option.splits if_splits)

lemma wr_Some [simp, mem_simps]: "i < length bs \<Longrightarrow> wr (Some bs) i b = Some (Some (bs[i := b]))"
  by (simp add: wr_def)

lemma wr_null [simp]: "wr None i b = None"
  by (simp add: wr_def)

lemma wr_eq_Some_iff:
  "wr p i b = Some q \<longleftrightarrow> (\<exists>bs. p = Some bs \<and> i < length bs \<and> q = Some (bs[i := b]))"
  by (auto simp: wr_def split: option.splits if_splits)

lemma mem_move_Some [simp, mem_simps]:
  "n \<le> length s \<Longrightarrow> off + n \<le> length d \<Longrightarrow>
    mem_move (Some d) off (Some s) n = Some (Some (patch d off (take n s)))"
  by (simp add: mem_move_def)

lemma mem_fill_Some [simp, mem_simps]:
  "n \<le> length bs \<Longrightarrow> mem_fill (Some bs) n = Some (Some (patch bs 0 (replicate n 0)))"
  by (simp add: mem_fill_def)

lemma ptr_add_Some [simp]: "ptr_add (Some bs) k = Some (drop k bs)"
  by (simp add: ptr_add_def)

lemma ptr_add_None [simp]: "ptr_add None k = None"
  by (simp add: ptr_add_def)

lemma ptr_add_null_iff [simp]: "ptr_add p k = None \<longleftrightarrow> p = None"
  by (simp add: ptr_add_def)

subsection \<open>Patching lists\<close>

lemma length_patch [simp]: "off + length ys \<le> length xs \<Longrightarrow> length (patch xs off ys) = length xs"
  by (simp add: patch_def)

lemma nth_patch:
  assumes "off + length ys \<le> length xs" and "i < length xs"
  shows "patch xs off ys ! i =
    (if off \<le> i \<and> i < off + length ys then ys ! (i - off) else xs ! i)"
  using assms by (auto simp: patch_def nth_append min_def)

lemma patch_Nil [simp]: "off \<le> length xs \<Longrightarrow> patch xs off [] = xs"
  by (simp add: patch_def)

lemma patch_all [simp]: "length ys = length xs \<Longrightarrow> patch xs 0 ys = ys"
  by (simp add: patch_def)

lemma patch_single: "i < length xs \<Longrightarrow> patch xs i [b] = xs[i := b]"
  by (simp add: patch_def upd_conv_take_nth_drop)

lemma take_patch:
  assumes "off + length ys \<le> length xs"
  shows "take (off + length ys) (patch xs off ys) = take off xs @ ys"
proof -
  have "length (take off xs) = off" using assms by simp
  then show ?thesis by (simp add: patch_def)
qed

lemma take_patch_before:
  "n \<le> off \<Longrightarrow> off \<le> length xs \<Longrightarrow> take n (patch xs off ys) = take n xs"
  by (simp add: patch_def min_def)

text \<open>
  Writing a buffer piece by piece: a run written right behind an earlier one extends it. With
  \<open>patch_single\<close> for single bytes, an encoder's whole output is one \<open>patch\<close> from the front.
\<close>

lemma patch_patch:
  assumes "off + length ys + length zs \<le> length xs" and "k = off + length ys"
  shows "patch (patch xs off ys) k zs = patch xs off (ys @ zs)"
  using assms by (simp add: patch_def ac_simps)

lemma patch_update:
  assumes "off + length ys < length xs" and "k = off + length ys"
  shows "(patch xs off ys)[k := b] = patch xs off (ys @ [b])"
  using patch_patch [of off ys "[b]" xs k] assms by (simp add: patch_single)

lemma drop_patch_front: "length ys = n \<Longrightarrow> drop n (patch xs 0 ys) = drop n xs"
  by (auto simp: patch_def)

lemma take_patch_front: "length ys \<le> length xs \<Longrightarrow> take (length ys) (patch xs 0 ys) = ys"
  using take_patch [of 0 ys xs] by simp

lemma take_Suc_update:
  "i < length xs \<Longrightarrow> take (Suc i) (xs[i := b]) = take i xs @ [b]"
  by (simp add: take_Suc_conv_app_nth)

text \<open>
  A writer that fills a buffer from the front keeps the statement
  \<open>take p out = prefix\<close>. The three lemmas move it over one stored byte and one copied run.
\<close>

lemma take_update_snoc:
  "take p out = pre \<Longrightarrow> p < length out \<Longrightarrow> take (Suc p) (out[p := b]) = pre @ [b]"
  by (simp add: take_Suc_update)

lemma take_patch_snoc:
  "take p out = pre \<Longrightarrow> p + length ys \<le> length out \<Longrightarrow>
    take (p + length ys) (patch out p ys) = pre @ ys"
  by (simp add: take_patch)

lemma take_update_at:
  "take p out = pre \<Longrightarrow> p < length out \<Longrightarrow> q = p + 1 \<Longrightarrow> take q (out[p := b]) = pre @ [b]"
  by (simp add: take_Suc_update)

lemma take_patch_at:
  "take p out = pre \<Longrightarrow> p + length ys \<le> length out \<Longrightarrow> q = p + length ys \<Longrightarrow>
    take q (patch out p ys) = pre @ ys"
  by (simp add: take_patch)

lemma list_update_Cons_numeral [simp]:
  "(x # xs)[numeral k := b] = x # xs[pred_numeral k := b]"
  by (simp add: numeral_eq_Suc)

lemma take_update2: "2 \<le> length out \<Longrightarrow> take 2 (out[0 := a, 1 := b]) = [a, b]"
  by (cases out; cases "tl out") (auto simp: numeral_2_eq_2)

lemma take_update3:
  assumes "3 \<le> length out"
  shows "take 3 (out[0 := a, 1 := b, 2 := c]) = [a, b, c]"
  using take_update_at [OF take_update2 [of out a b], of 3 c] assms by simp

lemma take_update4:
  assumes "4 \<le> length out"
  shows "take 4 (out[0 := a, 1 := b, 2 := c, 3 := d]) = [a, b, c, d]"
  using take_update_at [OF take_update3 [of out a b c], of 4 d] assms by simp

lemma nth_prefix: "take n out = pre \<Longrightarrow> i < n \<Longrightarrow> n \<le> length out \<Longrightarrow> out ! i = pre ! i"
  by (metis nth_take)

text \<open>\<open>buf[p++] = a; buf[p++] = b; ...\<close>: unchecked stores of consecutive bytes.\<close>

fun wr_list :: "cptr \<Rightarrow> nat \<Rightarrow> bytes \<Rightarrow> cptr option" where
  "wr_list p off [] = Some p"
| "wr_list p off (b # bs) = do {
     p \<leftarrow> wr p off b;
     wr_list p (off + 1) bs
   }"

declare wr_list.simps [simp del]

lemma wr_list_Some:
  "off + length ys \<le> length bs \<Longrightarrow> wr_list (Some bs) off ys = Some (Some (patch bs off ys))"
proof (induction ys arbitrary: off bs)
  case Nil
  then show ?case by (simp add: wr_list.simps)
next
  case (Cons y ys)
  then have "wr_list (Some (bs[off := y])) (off + 1) ys = Some (Some (patch (bs[off := y]) (off + 1) ys))"
    by simp
  moreover have "patch (bs[off := y]) (off + 1) ys = patch bs off (y # ys)"
    using Cons.prems by (simp add: patch_def take_Suc_update)
  ultimately show ?case using Cons.prems by (simp add: wr_list.simps)
qed

subsection \<open>Valid (pointer, length) pairs\<close>

text \<open>\<open>valid p n\<close>: the pointer is not null and the first \<open>n\<close> bytes of its object exist.\<close>

definition valid :: "cptr \<Rightarrow> nat \<Rightarrow> bool" where
  "valid p n \<longleftrightarrow> (\<exists>bs. p = Some bs \<and> n \<le> length bs)"

lemma valid_Some [simp]: "valid (Some bs) n \<longleftrightarrow> n \<le> length bs"
  by (simp add: valid_def)

lemma valid_None [simp]: "\<not> valid None n"
  by (simp add: valid_def)

lemma validE [elim?]:
  assumes "valid p n" obtains bs where "p = Some bs" and "n \<le> length bs"
  using assms by (auto simp: valid_def)

lemma ex_bool [simp]: "Ex Not" "\<exists>b. b"
  by auto

end
