(* ===== verification/MemUtil.thy ===== *)
theory MemUtil
  imports Prelude
begin

text \<open>
  The bounded memory primitives of \<^verbatim>\<open>nero_nfc_mem_util.h\<close>, which every parser and encoder
  of the firmware goes through: checked size arithmetic, spans, bounded copies, single-byte
  loads and stores, bounded strings, clearing. The locale \<open>cell_memory\<close> states what the
  encoders rely on (a store is read back, other cells keep their value); it is interpreted
  on the raw accesses and on the bounded ones.
\<close>

section \<open>Checked arithmetic\<close>

definition nero_nfc_try_add_size :: "nat \<Rightarrow> nat \<Rightarrow> nat option" where
  "nero_nfc_try_add_size a b = (if a + b > SIZE_MAX then None else Some (a + b))"

definition nero_nfc_try_sub_size :: "nat \<Rightarrow> nat \<Rightarrow> nat option" where
  "nero_nfc_try_sub_size a b = (if b > a then None else Some (a - b))"

definition nero_nfc_try_add_u16 :: "nat \<Rightarrow> nat \<Rightarrow> nat option" where
  "nero_nfc_try_add_u16 a b = (if a + b > UINT16_MAX then None else Some (a + b))"

definition nero_nfc_span_ok :: "nat \<Rightarrow> nat \<Rightarrow> nat \<Rightarrow> bool" where
  "nero_nfc_span_ok off n cap =
     (case nero_nfc_try_add_size off n of None \<Rightarrow> False | Some e \<Rightarrow> e \<le> cap)"

lemma try_add_size_Some [simp]: "a + b \<le> SIZE_MAX \<Longrightarrow> nero_nfc_try_add_size a b = Some (a + b)"
  by (simp add: nero_nfc_try_add_size_def)

lemma try_add_size_eq_Some_iff:
  "nero_nfc_try_add_size a b = Some s \<longleftrightarrow> a + b \<le> SIZE_MAX \<and> s = a + b"
  by (auto simp: nero_nfc_try_add_size_def)

lemma try_add_u16_eq_Some_iff:
  "nero_nfc_try_add_u16 a b = Some s \<longleftrightarrow> a + b \<le> UINT16_MAX \<and> s = a + b"
  by (auto simp: nero_nfc_try_add_u16_def)

lemma try_add_u16_eq_None_iff: "nero_nfc_try_add_u16 a b = None \<longleftrightarrow> UINT16_MAX < a + b"
  by (simp add: nero_nfc_try_add_u16_def)

lemma span_ok_iff [simp]:
  "cap \<le> SIZE_MAX \<Longrightarrow> nero_nfc_span_ok off n cap \<longleftrightarrow> off + n \<le> cap"
  by (auto simp: nero_nfc_span_ok_def nero_nfc_try_add_size_def)

lemma span_ok_bound: "nero_nfc_span_ok off n cap \<Longrightarrow> off + n \<le> cap"
  by (auto simp: nero_nfc_span_ok_def nero_nfc_try_add_size_def split: if_splits)

section \<open>Copies, loads and stores\<close>

definition nero_nfc_copy_bytes ::
    "cptr \<Rightarrow> nat \<Rightarrow> nat \<Rightarrow> cptr \<Rightarrow> nat \<Rightarrow> (bool \<times> cptr) option" where
  "nero_nfc_copy_bytes dst dst_cap dst_off src src_len =
     (if dst = None \<or> (src = None \<and> src_len \<noteq> 0) then Some (False, dst)
      else if \<not> nero_nfc_span_ok dst_off src_len dst_cap then Some (False, dst)
      else if src_len = 0 then Some (True, dst)
      else do {
        d \<leftarrow> mem_move dst dst_off src src_len;
        Some (True, d)
      })"

definition nero_nfc_move_bytes ::
    "cptr \<Rightarrow> nat \<Rightarrow> nat \<Rightarrow> cptr \<Rightarrow> nat \<Rightarrow> (bool \<times> cptr) option" where
  "nero_nfc_move_bytes dst dst_cap dst_off src src_len =
     (if dst = None \<or> (src = None \<and> src_len \<noteq> 0) then Some (False, dst)
      else if \<not> nero_nfc_span_ok dst_off src_len dst_cap then Some (False, dst)
      else if src_len = 0 then Some (True, dst)
      else do {
        d \<leftarrow> mem_move dst dst_off src src_len;
        Some (True, d)
      })"

definition nero_nfc_copy_from ::
    "cptr \<Rightarrow> nat \<Rightarrow> nat \<Rightarrow> cptr \<Rightarrow> nat \<Rightarrow> nat \<Rightarrow> nat \<Rightarrow> (bool \<times> cptr) option" where
  "nero_nfc_copy_from dst dst_cap dst_off src src_cap src_off len =
     (if dst = None \<or> (src = None \<and> len \<noteq> 0) then Some (False, dst)
      else if \<not> nero_nfc_span_ok src_off len src_cap then Some (False, dst)
      else if len = 0 then Some (True, dst)
      else nero_nfc_copy_bytes dst dst_cap dst_off (ptr_add src src_off) len)"

text \<open>The one-byte local \<open>*out\<close> of the loads is the object \<open>[0]\<close>.\<close>

definition nero_nfc_load_u8 :: "cptr \<Rightarrow> nat \<Rightarrow> nat \<Rightarrow> (bool \<times> u8) option" where
  "nero_nfc_load_u8 base cap off = do {
     (ok, out) \<leftarrow> nero_nfc_copy_from (Some [0]) 1 0 base cap off 1;
     v \<leftarrow> rd out 0;
     Some (ok, v)
   }"

definition nero_nfc_store_u8 :: "cptr \<Rightarrow> nat \<Rightarrow> nat \<Rightarrow> u8 \<Rightarrow> (bool \<times> cptr) option" where
  "nero_nfc_store_u8 base cap off value = nero_nfc_copy_bytes base cap off (Some [value]) 1"

definition nero_nfc_u8_at :: "cptr \<Rightarrow> nat \<Rightarrow> nat \<Rightarrow> u8 option" where
  "nero_nfc_u8_at base cap off = do {
     (ok, value) \<leftarrow> nero_nfc_load_u8 base cap off;
     Some (if \<not> ok then 0 else value)
   }"

lemma copy_bytes_ok [simp, mem_simps]:
  assumes "off + n \<le> cap" and "cap \<le> length d" and "cap \<le> SIZE_MAX" and "n \<le> length s"
  shows "nero_nfc_copy_bytes (Some d) cap off (Some s) n = Some (True, Some (patch d off (take n s)))"
  using assms by (auto simp: nero_nfc_copy_bytes_def)

lemma copy_bytes_too_long [simp]:
  "\<not> off + n \<le> cap \<Longrightarrow> nero_nfc_copy_bytes d cap off s n = Some (False, d)"
  by (auto simp: nero_nfc_copy_bytes_def dest: span_ok_bound)

lemma copy_bytes_null [simp]: "nero_nfc_copy_bytes None cap off s n = Some (False, None)"
  by (simp add: nero_nfc_copy_bytes_def)

lemma copy_bytes_total:
  assumes "cap \<le> length d" and "n \<le> length s"
  obtains ok d' where "nero_nfc_copy_bytes (Some d) cap off (Some s) n = Some (ok, Some d')"
    and "length d' = length d" and "ok \<longleftrightarrow> nero_nfc_span_ok off n cap"
proof (cases "nero_nfc_span_ok off n cap")
  case True
  then have "off + n \<le> length d" using assms(1) span_ok_bound by fastforce
  with True assms(2) show ?thesis
    by (cases "n = 0") (auto simp: nero_nfc_copy_bytes_def intro: that)
next
  case False
  then show ?thesis by (auto simp: nero_nfc_copy_bytes_def intro: that)
qed

lemma move_bytes_eq_copy_bytes: "nero_nfc_move_bytes = nero_nfc_copy_bytes"
  by (intro ext) (simp add: nero_nfc_move_bytes_def nero_nfc_copy_bytes_def)

lemma copy_from_ok [simp, mem_simps]:
  assumes "soff + n \<le> scap" and "scap \<le> length s" and "scap \<le> SIZE_MAX"
    and "doff + n \<le> dcap" and "dcap \<le> length d" and "dcap \<le> SIZE_MAX"
  shows "nero_nfc_copy_from (Some d) dcap doff (Some s) scap soff n =
    Some (True, Some (patch d doff (take n (drop soff s))))"
  using assms by (auto simp: nero_nfc_copy_from_def)

lemma copy_from_too_long [simp]:
  "\<not> soff + n \<le> scap \<Longrightarrow> nero_nfc_copy_from d dcap doff s scap soff n = Some (False, d)"
  by (auto simp: nero_nfc_copy_from_def dest: span_ok_bound)

lemma load_u8_in [simp, mem_simps]:
  assumes "off < cap" and "cap \<le> length bs" and "cap \<le> SIZE_MAX"
  shows "nero_nfc_load_u8 (Some bs) cap off = Some (True, bs ! off)"
  using assms by (simp add: nero_nfc_load_u8_def take_Suc hd_drop_conv_nth)

lemma load_u8_out [simp]: "cap \<le> off \<Longrightarrow> nero_nfc_load_u8 p cap off = Some (False, 0)"
  by (simp add: nero_nfc_load_u8_def)

lemma load_u8_null [simp]: "nero_nfc_load_u8 None cap off = Some (False, 0)"
  by (simp add: nero_nfc_load_u8_def nero_nfc_copy_from_def)

lemma u8_at_in [simp, mem_simps]:
  "off < cap \<Longrightarrow> cap \<le> length bs \<Longrightarrow> cap \<le> SIZE_MAX \<Longrightarrow>
    nero_nfc_u8_at (Some bs) cap off = Some (bs ! off)"
  by (simp add: nero_nfc_u8_at_def)

lemma u8_at_out [simp]: "cap \<le> off \<Longrightarrow> nero_nfc_u8_at p cap off = Some 0"
  by (simp add: nero_nfc_u8_at_def)

lemma u8_at_null [simp]: "nero_nfc_u8_at None cap off = Some 0"
  by (simp add: nero_nfc_u8_at_def)

lemma store_u8_in [simp, mem_simps]:
  "off < cap \<Longrightarrow> cap \<le> length bs \<Longrightarrow> cap \<le> SIZE_MAX \<Longrightarrow>
    nero_nfc_store_u8 (Some bs) cap off v = Some (True, Some (bs[off := v]))"
  by (simp add: nero_nfc_store_u8_def patch_single)

lemma store_u8_out [simp]: "cap \<le> off \<Longrightarrow> nero_nfc_store_u8 p cap off v = Some (False, p)"
  by (simp add: nero_nfc_store_u8_def)

text \<open>
  The encoders store a frame field by field, each store guarded and returning \<open>false\<close> at
  once on failure: the stores happen in the order of the list, up to the first that fails.
\<close>

fun store_seq :: "cptr \<Rightarrow> nat \<Rightarrow> (nat \<times> u8) list \<Rightarrow> (bool \<times> cptr) option" where
  "store_seq p cap [] = Some (True, p)"
| "store_seq p cap ((off, v) # fs) = do {
     (ok, p) \<leftarrow> nero_nfc_store_u8 p cap off v;
     if \<not> ok then Some (False, p) else store_seq p cap fs
   }"

lemma store_seq_updates:
  "\<forall>f \<in> set fs. fst f < cap \<Longrightarrow> cap \<le> length bs \<Longrightarrow> cap \<le> SIZE_MAX \<Longrightarrow>
    store_seq (Some bs) cap fs = Some (True, Some (fold (\<lambda>(i, v) xs. xs[i := v]) fs bs))"
proof (induction fs arbitrary: bs)
  case Nil
  then show ?case by simp
next
  case (Cons f fs)
  then show ?case by (cases f) simp
qed

lemma fold_updates_prefix:
  "off + length ys \<le> length bs \<Longrightarrow>
    fold (\<lambda>(i, v) xs. xs[i := v]) (enumerate off ys) bs = patch bs off ys"
proof (induction ys arbitrary: off bs)
  case Nil
  then show ?case by simp
next
  case (Cons y ys)
  then have "fold (\<lambda>(i, v) xs. xs[i := v]) (enumerate (Suc off) ys) (bs[off := y]) =
      patch (bs[off := y]) (Suc off) ys" by simp
  moreover have "patch (bs[off := y]) (Suc off) ys = patch bs off (y # ys)"
    using Cons.prems by (simp add: patch_def take_Suc_update)
  ultimately show ?case by simp
qed

lemma store_seq_prefix:
  assumes "off + length ys \<le> cap" and "cap \<le> length bs" and "cap \<le> SIZE_MAX"
    and "fs = enumerate off ys"
  shows "store_seq (Some bs) cap fs = Some (True, Some (patch bs off ys))"
proof -
  have "\<forall>f \<in> set fs. fst f < cap"
    using assms(1,4) by (auto simp: in_set_enumerate_eq)
  with assms show ?thesis by (simp add: store_seq_updates fold_updates_prefix)
qed

text \<open>\<open>memcmp (p, q, n) == 0\<close>.\<close>

definition mem_eq :: "cptr \<Rightarrow> cptr \<Rightarrow> nat \<Rightarrow> bool option" where
  "mem_eq p q n = (case (p, q) of
       (Some a, Some b) \<Rightarrow> if n \<le> length a \<and> n \<le> length b then Some (take n a = take n b) else None
     | _ \<Rightarrow> None)"

lemma mem_eq_Some [simp]:
  "n \<le> length a \<Longrightarrow> n \<le> length b \<Longrightarrow> mem_eq (Some a) (Some b) n = Some (take n a = take n b)"
  by (simp add: mem_eq_def)

section \<open>Strings and clearing\<close>

function bounded_strlen_loop :: "cptr \<Rightarrow> nat \<Rightarrow> nat \<Rightarrow> nat option option" where
  "bounded_strlen_loop s cap n =
     (if n < cap then do {
        c \<leftarrow> rd s n;
        if c = 0 then Some (Some n) else bounded_strlen_loop s cap (n + 1)
      } else Some None)"
  by pat_completeness auto
termination
  by (relation "measure (\<lambda>(s, cap, n). cap - n)") auto

declare bounded_strlen_loop.simps [simp del]

definition nero_nfc_bounded_strlen :: "cptr \<Rightarrow> nat \<Rightarrow> nat option option" where
  "nero_nfc_bounded_strlen s cap =
     (if s = None then Some None else bounded_strlen_loop s cap 0)"

definition nero_nfc_copy_cstr :: "cptr \<Rightarrow> nat \<Rightarrow> cptr \<Rightarrow> (bool \<times> cptr) option" where
  "nero_nfc_copy_cstr dst dst_cap src =
     (if dst = None \<or> dst_cap = 0 then Some (False, dst)
      else if src = None then do { d \<leftarrow> wr dst 0 0; Some (True, d) }
      else do {
        r \<leftarrow> nero_nfc_bounded_strlen src dst_cap;
        case r of
          None \<Rightarrow> do { d \<leftarrow> wr dst 0 0; Some (False, d) }
        | Some n \<Rightarrow>
            (case nero_nfc_try_add_size n 1 of
               None \<Rightarrow> do { d \<leftarrow> wr dst 0 0; Some (False, d) }
             | Some len \<Rightarrow>
                 if len > dst_cap then do { d \<leftarrow> wr dst 0 0; Some (False, d) }
                 else if len \<le> 1 then do { d \<leftarrow> wr dst 0 0; Some (True, d) }
                 else do {
                   (ok, d) \<leftarrow> nero_nfc_move_bytes dst dst_cap 0 src (len - 1);
                   if \<not> ok then do { d \<leftarrow> wr d 0 0; Some (False, d) }
                   else if \<not> nero_nfc_span_ok (len - 1) 1 dst_cap
                   then do { d \<leftarrow> wr d 0 0; Some (False, d) }
                   else do { d \<leftarrow> wr d (len - 1) 0; Some (True, d) }
                 })
      })"

definition nero_nfc_zero_bytes :: "cptr \<Rightarrow> nat \<Rightarrow> cptr option" where
  "nero_nfc_zero_bytes p len = (if p = None \<or> len = 0 then Some p else mem_fill p len)"

fun secure_clear_loop :: "cptr \<Rightarrow> nat \<Rightarrow> nat \<Rightarrow> cptr option" where
  "secure_clear_loop p i 0 = Some p"
| "secure_clear_loop p i (Suc len) = do {
     p' \<leftarrow> wr p i 0;
     secure_clear_loop p' (i + 1) len
   }"

definition nero_nfc_secure_clear :: "cptr \<Rightarrow> nat \<Rightarrow> cptr option" where
  "nero_nfc_secure_clear p len = (if p = None \<or> len = 0 then Some p else secure_clear_loop p 0 len)"

text \<open>The length of a C string: the bytes before the first zero byte.\<close>

abbreviation cstr :: "bytes \<Rightarrow> bytes" where
  "cstr bs \<equiv> takeWhile (\<lambda>b. b \<noteq> 0) bs"

lemma bounded_strlen_loop_eq:
  assumes "cap \<le> length bs" and "n \<le> cap" and "0 \<notin> set (take n bs)"
  shows "bounded_strlen_loop (Some bs) cap n =
    Some (if length (cstr bs) < cap then Some (length (cstr bs)) else None)"
  using assms
proof (induction "Some bs" cap n rule: bounded_strlen_loop.induct)
  case (1 cap n)
  have "cstr (take n bs @ drop n bs) = take n bs @ cstr (drop n bs)"
    by (rule takeWhile_append2) (use "1.prems"(3) in auto)
  then have eq: "cstr bs = take n bs @ cstr (drop n bs)" by simp
  have len: "length (cstr bs) = n + length (cstr (drop n bs))"
    using arg_cong [OF eq, of length] "1.prems"(1,2) by simp
  show ?case
  proof (cases "n < cap")
    case True
    then have n: "n < length bs" using "1.prems" by simp
    show ?thesis
    proof (cases "bs ! n = 0")
      case z: True
      then have "cstr (drop n bs) = []"
        using n by (simp add: Cons_nth_drop_Suc [symmetric])
      with len have "length (cstr bs) = n" by simp
      with True n z show ?thesis by (simp add: bounded_strlen_loop.simps [of "Some bs" cap n])
    next
      case nz: False
      have "0 \<notin> set (take (n + 1) bs)"
        using nz "1.prems"(3) n by (simp add: take_Suc_conv_app_nth)
      then have "bounded_strlen_loop (Some bs) cap (n + 1) =
          Some (if length (cstr bs) < cap then Some (length (cstr bs)) else None)"
        using "1.hyps" [OF True _ nz] True n "1.prems"(1) by simp
      then show ?thesis
        using True n nz by (simp add: bounded_strlen_loop.simps [of "Some bs" cap n])
    qed
  next
    case False
    with "1.prems" have "n = cap" by simp
    with len show ?thesis by (simp add: bounded_strlen_loop.simps [of "Some bs" cap cap])
  qed
qed

lemma bounded_strlen_eq:
  "cap \<le> length bs \<Longrightarrow> nero_nfc_bounded_strlen (Some bs) cap =
    Some (if length (cstr bs) < cap then Some (length (cstr bs)) else None)"
  by (simp add: nero_nfc_bounded_strlen_def bounded_strlen_loop_eq)

text \<open>A string that ends inside the bound is measured without reading past its end.\<close>

lemma bounded_strlen_loop_terminated:
  assumes "0 \<notin> set xs" and "length xs < cap" and "n \<le> length xs"
  shows "bounded_strlen_loop (Some (xs @ 0 # rest)) cap n = Some (Some (length xs))"
  using assms(3)
proof (induction "length xs - n" arbitrary: n)
  case 0
  then have "n = length xs" by simp
  then show ?case using assms(2)
    by (simp add: bounded_strlen_loop.simps [of "Some (xs @ 0 # rest)" cap "length xs"])
next
  case (Suc k)
  then have n: "n < length xs" by simp
  then have "(xs @ 0 # rest) ! n \<noteq> 0" using assms(1) by (metis nth_append nth_mem)
  moreover have "bounded_strlen_loop (Some (xs @ 0 # rest)) cap (n + 1) = Some (Some (length xs))"
    using Suc n by simp
  ultimately show ?case
    using n assms(2) by (subst bounded_strlen_loop.simps) simp
qed

lemma bounded_strlen_terminated:
  "0 \<notin> set xs \<Longrightarrow> length xs < cap \<Longrightarrow>
    nero_nfc_bounded_strlen (Some (xs @ 0 # rest)) cap = Some (Some (length xs))"
  by (simp add: nero_nfc_bounded_strlen_def bounded_strlen_loop_terminated)

lemma secure_clear_loop_eq:
  "i + len \<le> length bs \<Longrightarrow>
    secure_clear_loop (Some bs) i len = Some (Some (patch bs i (replicate len 0)))"
proof (induction len arbitrary: i bs)
  case 0
  then show ?case by simp
next
  case (Suc len)
  then have "secure_clear_loop (Some (bs[i := 0])) (i + 1) len =
      Some (Some (patch (bs[i := 0]) (i + 1) (replicate len 0)))" by simp
  moreover have "patch (bs[i := 0]) (i + 1) (replicate len 0) = patch bs i (replicate (Suc len) 0)"
    using Suc.prems by (simp add: patch_def take_Suc_update)
  ultimately show ?case using Suc.prems by simp
qed

lemma secure_clear_eq_zero_bytes:
  "len \<le> length bs \<Longrightarrow> nero_nfc_secure_clear (Some bs) len = nero_nfc_zero_bytes (Some bs) len"
  by (simp add: nero_nfc_secure_clear_def nero_nfc_zero_bytes_def secure_clear_loop_eq)

section \<open>The memory interface of the encoders\<close>

text \<open>
  What a frame encoder needs of the memory it writes: a stored cell is read back, every
  other cell keeps its value, and storing does not change which cells exist.
\<close>

locale cell_memory =
  fixes load :: "'m \<Rightarrow> nat \<Rightarrow> 'b option"
    and store :: "'m \<Rightarrow> nat \<Rightarrow> 'b \<Rightarrow> 'm option"
  assumes load_store_same: "store m i b = Some m' \<Longrightarrow> load m' i = Some b"
    and load_store_other: "store m i b = Some m' \<Longrightarrow> j \<noteq> i \<Longrightarrow> load m' j = load m j"
    and store_defined: "load m i \<noteq> None \<Longrightarrow> store m i b \<noteq> None"
begin

fun store_all :: "'m \<Rightarrow> (nat \<times> 'b) list \<Rightarrow> 'm option" where
  "store_all m [] = Some m"
| "store_all m ((i, b) # fs) = Option.bind (store m i b) (\<lambda>m'. store_all m' fs)"

lemma store_all_other:
  "store_all m fs = Some m' \<Longrightarrow> j \<notin> fst ` set fs \<Longrightarrow> load m' j = load m j"
proof (induction fs arbitrary: m)
  case Nil
  then show ?case by simp
next
  case (Cons f fs)
  obtain i b where f: "f = (i, b)" by fastforce
  with Cons.prems obtain m1 where "store m i b = Some m1" and "store_all m1 fs = Some m'"
    by (auto split: bind_splits)
  with Cons f show ?case by (auto simp: load_store_other)
qed

lemma store_all_load:
  "store_all m fs = Some m' \<Longrightarrow> distinct (map fst fs) \<Longrightarrow> (i, b) \<in> set fs \<Longrightarrow>
    load m' i = Some b"
proof (induction fs arbitrary: m)
  case Nil
  then show ?case by simp
next
  case (Cons f fs)
  obtain k c where f: "f = (k, c)" by fastforce
  with Cons.prems obtain m1 where m1: "store m k c = Some m1" and rest: "store_all m1 fs = Some m'"
    by (auto split: bind_splits)
  show ?case
  proof (cases "(i, b) \<in> set fs")
    case True
    with Cons.IH rest Cons.prems(2) show ?thesis by simp
  next
    case False
    then have "i = k" "b = c" using Cons.prems(3) f by auto
    moreover have "k \<notin> fst ` set fs" using Cons.prems(2) f by (simp add: image_iff)
    ultimately show ?thesis using store_all_other [OF rest] load_store_same [OF m1] by simp
  qed
qed

lemma store_all_defined:
  "\<forall>i \<in> fst ` set fs. load m i \<noteq> None \<Longrightarrow> \<exists>m'. store_all m fs = Some m'"
proof (induction fs arbitrary: m)
  case Nil
  then show ?case by simp
next
  case (Cons f fs)
  obtain k c where f: "f = (k, c)" by fastforce
  with Cons.prems store_defined obtain m1 where m1: "store m k c = Some m1" by fastforce
  have "load m1 i \<noteq> None" if "i \<in> fst ` set fs" for i
    using that Cons.prems load_store_same [OF m1] load_store_other [OF m1, of i]
    by (cases "i = k") auto
  with Cons.IH obtain m' where "store_all m1 fs = Some m'" by blast
  with f m1 show ?case by auto
qed

end

interpretation raw_mem: cell_memory rd wr
proof
  show "rd m' i = Some b" if "wr m i b = Some m'" for m m' :: cptr and i b
    using that by (auto simp: wr_eq_Some_iff)
  show "rd m' j = rd m j" if "wr m i b = Some m'" and "j \<noteq> i" for m m' :: cptr and i j b
    using that by (auto simp: wr_eq_Some_iff rd_def)
  show "wr m i b \<noteq> None" if "rd m i \<noteq> None" for m :: cptr and i b
    using that by (auto simp: wr_def rd_def split: option.splits if_splits)
qed

text \<open>
  The same contract for the bounded accesses: a buffer with its capacity, where a refused
  access is \<open>None\<close>.
\<close>

definition bounded_load :: "bytes \<times> nat \<Rightarrow> nat \<Rightarrow> u8 option" where
  "bounded_load m i = (case nero_nfc_load_u8 (Some (fst m)) (snd m) i of
     Some (True, v) \<Rightarrow> Some v | _ \<Rightarrow> None)"

definition bounded_store :: "bytes \<times> nat \<Rightarrow> nat \<Rightarrow> u8 \<Rightarrow> (bytes \<times> nat) option" where
  "bounded_store m i b = (case nero_nfc_store_u8 (Some (fst m)) (snd m) i b of
     Some (True, Some bs) \<Rightarrow> Some (bs, snd m) | _ \<Rightarrow> None)"

lemma bounded_load_eq:
  "bounded_load (bs, cap) i =
    (if i < cap \<and> i < length bs \<and> i < SIZE_MAX then Some (bs ! i) else None)"
proof -
  have "nero_nfc_load_u8 (Some bs) cap i =
     (if i < cap \<and> i < SIZE_MAX then if i < length bs then Some (True, bs ! i) else None
      else Some (False, 0))"
    by (auto simp: nero_nfc_load_u8_def nero_nfc_copy_from_def nero_nfc_copy_bytes_def
        nero_nfc_span_ok_def nero_nfc_try_add_size_def mem_move_def take_Suc hd_drop_conv_nth)
  then show ?thesis by (simp add: bounded_load_def)
qed

lemma bounded_store_eq:
  "bounded_store (bs, cap) i b =
    (if i < cap \<and> i < length bs \<and> i < SIZE_MAX then Some (bs[i := b], cap) else None)"
proof -
  have "nero_nfc_store_u8 (Some bs) cap i b =
     (if i < cap \<and> i < SIZE_MAX then if i < length bs then Some (True, Some (bs[i := b])) else None
      else Some (False, Some bs))"
    by (auto simp: nero_nfc_store_u8_def nero_nfc_copy_bytes_def
        nero_nfc_span_ok_def nero_nfc_try_add_size_def mem_move_def patch_single)
  then show ?thesis by (simp add: bounded_store_def)
qed

interpretation bounded_mem: cell_memory bounded_load bounded_store
proof
  show "bounded_load m' i = Some b" if "bounded_store m i b = Some m'" for m m' i b
    using that by (cases m) (auto simp: bounded_store_eq bounded_load_eq split: if_splits)
  show "bounded_load m' j = bounded_load m j"
    if "bounded_store m i b = Some m'" and "j \<noteq> i" for m m' i j b
    using that by (cases m) (auto simp: bounded_store_eq bounded_load_eq split: if_splits)
  show "bounded_store m i b \<noteq> None" if "bounded_load m i \<noteq> None" for m i b
    using that by (cases m) (auto simp: bounded_store_eq bounded_load_eq split: if_splits)
qed

end
