(* ===== verification/CcidFrame.thy ===== *)
theory CcidFrame
  imports MemUtil
begin

text \<open>
  The USB CCID bulk frame of \<^verbatim>\<open>nfc_ccid_frame.c\<close>: the ten-byte header, its little-endian
  length field, validation of a received frame, and the two response header encoders.
  The locale \<open>length_field\<close> is the contract between the encoders that store a 32-bit field
  and the parsers that load it.
\<close>

section \<open>Little-endian 32-bit fields\<close>

text \<open>A pointer argument \<open>&buf[off]\<close> of a store is the pair of \<open>buf\<close> and \<open>off\<close>.\<close>

definition nfc_ccid_u32_load_le :: "cptr \<Rightarrow> nat option" where
  "nfc_ccid_u32_load_le src =
     (if src = None then Some 0
      else do {
        b0 \<leftarrow> rd src 0;
        b1 \<leftarrow> rd src 1;
        b2 \<leftarrow> rd src 2;
        b3 \<leftarrow> rd src 3;
        Some (be32 b3 b2 b1 b0)
      })"

definition nfc_ccid_u32_store_le :: "cptr \<Rightarrow> nat \<Rightarrow> nat \<Rightarrow> cptr option" where
  "nfc_ccid_u32_store_le dst off value =
     (if dst = None then Some None
      else do {
        dst \<leftarrow> wr dst off (byte (value AND 0xFF));
        dst \<leftarrow> wr dst (off + 1) (byte (drop_bit 8 value AND 0xFF));
        dst \<leftarrow> wr dst (off + 2) (byte (drop_bit 16 value AND 0xFF));
        wr dst (off + 3) (byte (drop_bit 24 value AND 0xFF))
      })"

definition le32_bytes :: "nat \<Rightarrow> bytes" where
  "le32_bytes v = [byte v, byte (v div 256), byte (v div 65536), byte (v div 16777216)]"

lemma length_le32_bytes [simp]: "length (le32_bytes v) = 4"
  by (simp add: le32_bytes_def)

lemma be32_le32_bytes:
  assumes "v < 4294967296"
  shows "be32 (byte (v div 16777216)) (byte (v div 65536)) (byte (v div 256)) (byte v) = v"
proof -
  have d: "v div 65536 = v div 256 div 256" "v div 16777216 = v div 256 div 256 div 256"
    by (simp_all add: div_mult2_eq [symmetric])
  have top: "v div 256 div 256 div 256 < 256" using assms by (simp add: div_mult2_eq [symmetric] div_less_iff_less_mult)
  then show ?thesis
    using div_mult_mod_eq [of v 256] div_mult_mod_eq [of "v div 256" 256]
      div_mult_mod_eq [of "v div 256 div 256" 256]
    unfolding be32_eq unat_byte d mod_less [OF top] by linarith
qed

lemma load_le_Some:
  "4 \<le> length bs \<Longrightarrow> nfc_ccid_u32_load_le (Some bs) = Some (be32 (bs ! 3) (bs ! 2) (bs ! 1) (bs ! 0))"
  by (simp add: nfc_ccid_u32_load_le_def)

lemma load_le_drop:
  "off + 4 \<le> length bs \<Longrightarrow> nfc_ccid_u32_load_le (ptr_add (Some bs) off) =
    Some (be32 (bs ! (off + 3)) (bs ! (off + 2)) (bs ! (off + 1)) (bs ! off))"
  by (simp add: load_le_Some del: One_nat_def)

lemma store_le_Some:
  assumes "off + 4 \<le> length bs"
  shows "nfc_ccid_u32_store_le (Some bs) off v = Some (Some (patch bs off (le32_bytes v)))"
proof -
  have "patch bs off (le32_bytes v) =
      bs[off := byte v, off + 1 := byte (v div 256), off + 2 := byte (v div 65536),
         off + 3 := byte (v div 16777216)]"
    using assms by (intro nth_equalityI)
      (auto simp: nth_patch nth_list_update le32_bytes_def nth_Cons' simp del: One_nat_def)
  with assms show ?thesis
    by (simp add: nfc_ccid_u32_store_le_def drop_bit_eq_div del: One_nat_def)
qed

text \<open>
  The contract of a length field: what is stored is loaded again, whatever else the buffer
  holds, and bytes outside the field are kept.
\<close>

locale length_field =
  fixes load :: "bytes \<Rightarrow> nat \<Rightarrow> nat option"
    and store :: "bytes \<Rightarrow> nat \<Rightarrow> nat \<Rightarrow> bytes option"
  assumes store_ok: "off + 4 \<le> length m \<Longrightarrow> off + 4 \<le> SIZE_MAX \<Longrightarrow> \<exists>m'. store m off v = Some m'"
    and load_store: "store m off v = Some m' \<Longrightarrow> v < 4294967296 \<Longrightarrow> load m' off = Some v"
    and store_frame: "store m off v = Some m' \<Longrightarrow>
      length m' = length m \<and> (\<forall>j < length m. j < off \<or> off + 4 \<le> j \<longrightarrow> m' ! j = m ! j)"
    and load_local: "length m' = length m \<Longrightarrow> \<forall>j < length m. off \<le> j \<and> j < off + 4 \<longrightarrow> m' ! j = m ! j \<Longrightarrow>
      load m' off = load m off"
begin

lemma load_after_updates:
  assumes "store m off v = Some m'" and "v < 4294967296"
    and "length m'' = length m'" and "\<forall>j < length m'. off \<le> j \<and> j < off + 4 \<longrightarrow> m'' ! j = m' ! j"
  shows "load m'' off = Some v"
  using load_local [OF assms(3,4)] load_store [OF assms(1,2)] by simp

lemma load_two_fields:
  assumes s1: "store m a v = Some m1" and s2: "store m1 b w = Some m2"
    and "a + 4 \<le> b \<or> b + 4 \<le> a" and "v < 4294967296" and "w < 4294967296"
  shows "load m2 a = Some v \<and> load m2 b = Some w"
proof -
  have "load m2 a = Some v"
    by (rule load_after_updates [OF s1 assms(4)]) (use store_frame [OF s2] assms(3) in auto)
  then show ?thesis using load_store [OF s2 assms(5)] by simp
qed

end

definition field_load :: "bytes \<Rightarrow> nat \<Rightarrow> nat option" where
  "field_load m off = nfc_ccid_u32_load_le (ptr_add (Some m) off)"

definition field_store :: "bytes \<Rightarrow> nat \<Rightarrow> nat \<Rightarrow> bytes option" where
  "field_store m off v = Option.bind (nfc_ccid_u32_store_le (Some m) off v) id"

lemma field_load_eq:
  "field_load m off =
    (if off + 4 \<le> length m then Some (be32 (m ! (off + 3)) (m ! (off + 2)) (m ! (off + 1)) (m ! off))
     else None)"
proof (cases "off + 4 \<le> length m")
  case True
  then show ?thesis by (simp only: field_load_def load_le_drop if_True)
next
  case False
  then show ?thesis
    by (auto simp: field_load_def nfc_ccid_u32_load_le_def rd_def split: bind_splits)
qed

lemma field_store_eq:
  "field_store m off v =
    (if off + 4 \<le> length m then Some (patch m off (le32_bytes v)) else None)"
proof (cases "off + 4 \<le> length m")
  case True
  then show ?thesis by (simp add: field_store_def store_le_Some)
next
  case False
  then show ?thesis
    by (auto simp: field_store_def nfc_ccid_u32_store_le_def wr_def split: bind_splits if_splits)
qed

lemma field_load_patch:
  assumes "off + 4 \<le> length m" and "v < 4294967296"
  shows "field_load (patch m off (le32_bytes v)) off = Some v"
  using assms be32_le32_bytes [of v]
  by (simp add: field_load_eq nth_patch le32_bytes_def nth_Cons' del: One_nat_def)

interpretation ccid_len: length_field field_load field_store
proof
  show "\<exists>m'. field_store m off v = Some m'" if "off + 4 \<le> length m" for m off v
    using that by (simp add: field_store_eq)
  show "field_load m' off = Some v" if "field_store m off v = Some m'" and "v < 4294967296"
    for m m' off v
    using that by (auto simp: field_store_eq field_load_patch split: if_splits)
  show "length m' = length m \<and> (\<forall>j < length m. j < off \<or> off + 4 \<le> j \<longrightarrow> m' ! j = m ! j)"
    if "field_store m off v = Some m'" for m m' off v
    using that by (auto simp: field_store_eq nth_patch split: if_splits)
  show "field_load m' off = field_load m off"
    if "length m' = length m" and "\<forall>j < length m. off \<le> j \<and> j < off + 4 \<longrightarrow> m' ! j = m ! j"
    for m m' off
    using that by (simp add: field_load_eq)
qed

section \<open>Frames\<close>

text \<open>Header length 10, payload limit 2050, work buffer 2060 (the maximum message length).\<close>

abbreviation NFC_CCID_MAX_XFR_PAYLOAD :: nat where "NFC_CCID_MAX_XFR_PAYLOAD \<equiv> 2050"
abbreviation NFC_CCID_WORK_BUF_SIZE :: nat where "NFC_CCID_WORK_BUF_SIZE \<equiv> 2060"

definition nfc_ccid_bulk_frame_validate :: "cptr \<Rightarrow> nat \<Rightarrow> (bool \<times> nat) option" where
  "nfc_ccid_bulk_frame_validate frame nbytes =
     (if frame = None \<or> nbytes < 10 then Some (False, 0)
      else do {
        datalen \<leftarrow> nfc_ccid_u32_load_le (ptr_add frame 1);
        if datalen > NFC_CCID_MAX_XFR_PAYLOAD then Some (False, 0)
        else case nero_nfc_try_add_size 10 datalen of
               None \<Rightarrow> Some (False, 0)
             | Some frame_len \<Rightarrow>
                 if frame_len \<noteq> nbytes then Some (False, 0) else Some (True, datalen)
      })"

definition nfc_ccid_xfr_frame_requests_response_continuation :: "cptr \<Rightarrow> nat \<Rightarrow> bool option" where
  "nfc_ccid_xfr_frame_requests_response_continuation frame frame_len = do {
     (ok, data_len) \<leftarrow> nfc_ccid_bulk_frame_validate frame frame_len;
     if \<not> ok then Some False
     else do {
       m \<leftarrow> rd frame 0;
       p2 \<leftarrow> rd frame 8;
       p3 \<leftarrow> rd frame 9;
       Some (m = 0x6F \<and> data_len = 0 \<and> p2 = 0x10 \<and> p3 = 0)
     }
   }"

definition nfc_ccid_control_abort_request_matches ::
    "u8 \<Rightarrow> u8 \<Rightarrow> nat \<Rightarrow> nat \<Rightarrow> nat \<Rightarrow> nat \<Rightarrow> bool \<times> u8 \<times> u8" where
  "nfc_ccid_control_abort_request_matches bm_request_type b_request w_value w_index w_length
       interface_number =
     (if bm_request_type \<noteq> 0x21 \<or> b_request \<noteq> 0x01 \<or> w_index \<noteq> interface_number \<or> w_length \<noteq> 0
      then (False, 0, 0)
      else (True, byte (w_value AND 0xFF), byte (drop_bit 8 w_value AND 0xFF)))"

definition nfc_ccid_control_abort_request_matches_slot ::
    "u8 \<Rightarrow> u8 \<Rightarrow> nat \<Rightarrow> nat \<Rightarrow> nat \<Rightarrow> nat \<Rightarrow> u8 \<Rightarrow> bool \<times> u8 \<times> u8" where
  "nfc_ccid_control_abort_request_matches_slot bm_request_type b_request w_value w_index w_length
       interface_number max_slot_index =
     (case nfc_ccid_control_abort_request_matches bm_request_type b_request w_value w_index
             w_length interface_number of
        (ok, slot, seq) \<Rightarrow>
          if \<not> ok \<or> slot > max_slot_index then (False, 0, 0) else (True, slot, seq))"

definition nfc_ccid_encode_slot_status ::
    "cptr \<Rightarrow> u8 \<Rightarrow> u8 \<Rightarrow> u8 \<Rightarrow> u8 \<Rightarrow> cptr option" where
  "nfc_ccid_encode_slot_status buf10 msg_type seq icc_level err_code =
     (if buf10 = None then Some None
      else do {
        b \<leftarrow> wr buf10 0 msg_type;
        b \<leftarrow> nfc_ccid_u32_store_le b 1 0;
        b \<leftarrow> wr b 5 0;
        b \<leftarrow> wr b 6 seq;
        b \<leftarrow> wr b 7 icc_level;
        b \<leftarrow> wr b 8 err_code;
        wr b 9 0
      })"

definition nfc_ccid_encode_data_block_header ::
    "cptr \<Rightarrow> u8 \<Rightarrow> u8 \<Rightarrow> nat \<Rightarrow> u8 \<Rightarrow> u8 \<Rightarrow> cptr option" where
  "nfc_ccid_encode_data_block_header buf10 msg_type seq data_bytes icc_level chain =
     (if buf10 = None then Some None
      else do {
        b \<leftarrow> wr buf10 0 msg_type;
        b \<leftarrow> nfc_ccid_u32_store_le b 1 data_bytes;
        b \<leftarrow> wr b 5 0;
        b \<leftarrow> wr b 6 seq;
        b \<leftarrow> wr b 7 icc_level;
        b \<leftarrow> wr b 8 0;
        wr b 9 chain
      })"

text \<open>A header as the list of its ten bytes, and the frame it starts.\<close>

definition ccid_header :: "u8 \<Rightarrow> nat \<Rightarrow> u8 \<Rightarrow> u8 \<Rightarrow> u8 \<Rightarrow> u8 \<Rightarrow> u8 \<Rightarrow> bytes" where
  "ccid_header msg data_len slot seq p1 p2 p3 = msg # le32_bytes data_len @ [slot, seq, p1, p2, p3]"

lemma length_ccid_header [simp]: "length (ccid_header m n s q p1 p2 p3) = 10"
  by (simp add: ccid_header_def)

lemma ten_cells:
  assumes "10 \<le> length bs"
  obtains a b c d e f g h i j where "bs = a # b # c # d # e # f # g # h # i # j # drop 10 bs"
  using assms by (auto simp: Suc_le_length_iff numeral_eq_Suc)

lemma encode_header_Some:
  assumes "10 \<le> length bs"
  shows "nfc_ccid_encode_data_block_header (Some bs) m q n lvl ch =
      Some (Some (ccid_header m n 0 q lvl 0 ch @ drop 10 bs))"
    and "nfc_ccid_encode_slot_status (Some bs) m q lvl err =
      Some (Some (ccid_header m 0 0 q lvl err 0 @ drop 10 bs))"
proof -
  obtain a b c d e f g h i j where bs: "bs = a # b # c # d # e # f # g # h # i # j # drop 10 bs"
    using assms by (rule ten_cells)
  define rest where "rest = drop 10 bs"
  have bs': "bs = a # b # c # d # e # f # g # h # i # j # rest" using bs rest_def by simp
  show "nfc_ccid_encode_data_block_header (Some bs) m q n lvl ch =
      Some (Some (ccid_header m n 0 q lvl 0 ch @ drop 10 bs))"
    unfolding bs'
    by (simp add: nfc_ccid_encode_data_block_header_def store_le_Some patch_def le32_bytes_def
        ccid_header_def)
  show "nfc_ccid_encode_slot_status (Some bs) m q lvl err =
      Some (Some (ccid_header m 0 0 q lvl err 0 @ drop 10 bs))"
    unfolding bs'
    by (simp add: nfc_ccid_encode_slot_status_def store_le_Some patch_def le32_bytes_def
        ccid_header_def)
qed

lemma ccid_header_nth [simp]:
  "ccid_header m n s q p1 p2 p3 ! 0 = m"
  "ccid_header m n s q p1 p2 p3 ! 5 = s"
  "ccid_header m n s q p1 p2 p3 ! 6 = q"
  "ccid_header m n s q p1 p2 p3 ! 7 = p1"
  "ccid_header m n s q p1 p2 p3 ! 8 = p2"
  "ccid_header m n s q p1 p2 p3 ! 9 = p3"
  by (simp_all add: ccid_header_def le32_bytes_def)

text \<open>The length field of a frame.\<close>

definition frame_data_len :: "bytes \<Rightarrow> nat" where
  "frame_data_len f = be32 (f ! 4) (f ! 3) (f ! 2) (f ! 1)"

lemma frame_data_len_header:
  "n < 4294967296 \<Longrightarrow> frame_data_len (ccid_header m n s q p1 p2 p3 @ xs) = n"
  using be32_le32_bytes [of n] by (simp add: frame_data_len_def ccid_header_def le32_bytes_def)

lemma frame_data_len_take: "5 \<le> n \<Longrightarrow> frame_data_len (take n f) = frame_data_len f"
  by (simp add: frame_data_len_def)

lemma frame_validate_eq:
  assumes "nbytes \<le> length f" and "nbytes \<le> UINT16_MAX"
  shows "nfc_ccid_bulk_frame_validate (Some f) nbytes =
    Some (if 10 \<le> nbytes \<and> frame_data_len f \<le> 2050 \<and> nbytes = 10 + frame_data_len f
          then (True, frame_data_len f) else (False, 0))"
proof (cases "10 \<le> nbytes")
  case True
  then have "nfc_ccid_u32_load_le (ptr_add (Some f) 1) = Some (frame_data_len f)"
    using assms load_le_drop [of 1 f]
    by (simp add: frame_data_len_def del: One_nat_def ptr_add_Some)
  then show ?thesis using True assms
    by (auto simp: nfc_ccid_bulk_frame_validate_def nero_nfc_try_add_size_def simp del: ptr_add_Some)
next
  case False
  then show ?thesis by (simp add: nfc_ccid_bulk_frame_validate_def)
qed

end
