(* ===== verification/RxAssembly.thy ===== *)
theory RxAssembly
  imports CcidFrame
begin

text \<open>
  Reassembly of USB bulk-OUT packets into CCID frames, \<^verbatim>\<open>ccid_usb_rx_assembly.c\<close>. A frame
  longer than one endpoint packet arrives in several packets; the assembler accumulates them,
  reads the length from the header once ten bytes are there, and reports a frame as ready,
  as incomplete, or as dropped. Malformed input with a full header is also reported ready, so
  that the dispatcher can answer it with an error. The record models
  \<^verbatim>\<open>ccid_usb_rx_assembly_t\<close>, whose data array has 2060 bytes.
\<close>

datatype rx_feed_result = RX_MORE | RX_READY | RX_DROPPED

record rx_assembly =
  rx_data :: bytes
  rx_len :: nat
  rx_expected :: nat
  discarding_malformed :: bool

definition ccid_usb_rx_assembly_reset :: "rx_assembly \<Rightarrow> rx_assembly" where
  "ccid_usb_rx_assembly_reset st =
     st\<lparr>rx_len := 0, rx_expected := 0, discarding_malformed := False\<rparr>"

definition malformed_result :: "rx_assembly \<Rightarrow> nat \<Rightarrow> nat \<Rightarrow> rx_feed_result \<times> rx_assembly" where
  "malformed_result st packet_len endpoint_size =
     (if rx_len st < 10 then (RX_DROPPED, ccid_usb_rx_assembly_reset st)
      else if packet_len < endpoint_size then (RX_READY, st)
      else (RX_MORE, st\<lparr>discarding_malformed := True\<rparr>))"

text \<open>
  The end of the routine, once the length is known or not yet needed, and the step before it
  that reads the length from the header. The casts to \<open>uint16_t\<close> keep the value: both
  lengths are at most 2060.
\<close>

definition feed_decide :: "rx_assembly \<Rightarrow> nat \<Rightarrow> nat \<Rightarrow> rx_feed_result \<times> rx_assembly" where
  "feed_decide st packet_len endpoint_size =
     (if rx_expected st \<noteq> 0 \<and> rx_len st > rx_expected st
      then malformed_result st packet_len endpoint_size
      else if rx_expected st \<noteq> 0 \<and> rx_len st = rx_expected st then (RX_READY, st)
      else if packet_len < endpoint_size then malformed_result st packet_len endpoint_size
      else (RX_MORE, st))"

definition feed_header :: "rx_assembly \<Rightarrow> nat \<Rightarrow> nat \<Rightarrow> (rx_feed_result \<times> rx_assembly) option" where
  "feed_header st packet_len endpoint_size =
     (if rx_expected st = 0 \<and> rx_len st \<ge> 10 then do {
        payload_len \<leftarrow> nfc_ccid_u32_load_le (ptr_add (Some (rx_data st)) 1);
        Some (if payload_len > NFC_CCID_MAX_XFR_PAYLOAD
              then malformed_result st packet_len endpoint_size
              else case nero_nfc_try_add_size 10 payload_len of
                     None \<Rightarrow> malformed_result st packet_len endpoint_size
                   | Some frame_len \<Rightarrow>
                       if frame_len > 2060 then malformed_result st packet_len endpoint_size
                       else feed_decide (st\<lparr>rx_expected := frame_len\<rparr>) packet_len endpoint_size)
      } else Some (feed_decide st packet_len endpoint_size))"

definition ccid_usb_rx_assembly_feed ::
    "rx_assembly \<Rightarrow> cptr \<Rightarrow> nat \<Rightarrow> nat \<Rightarrow> (rx_feed_result \<times> rx_assembly) option" where
  "ccid_usb_rx_assembly_feed st packet packet_len endpoint_size =
     (if endpoint_size = 0 \<or> packet_len > endpoint_size \<or> (packet = None \<and> packet_len \<noteq> 0)
      then Some (RX_DROPPED, ccid_usb_rx_assembly_reset st)
      else if discarding_malformed st then Some (malformed_result st packet_len endpoint_size)
      else if packet_len = 0 then Some (malformed_result st packet_len endpoint_size)
      else case nero_nfc_try_add_size (rx_len st) packet_len of
             None \<Rightarrow> Some (malformed_result st packet_len endpoint_size)
           | Some assembled_len \<Rightarrow>
               if assembled_len > 2060 then Some (malformed_result st packet_len endpoint_size)
               else do {
                 (ok, d) \<leftarrow> nero_nfc_copy_bytes (Some (rx_data st)) 2060 (rx_len st) packet packet_len;
                 d \<leftarrow> d;
                 if \<not> ok
                 then Some (malformed_result (st\<lparr>rx_data := d\<rparr>) packet_len endpoint_size)
                 else feed_header (st\<lparr>rx_data := d, rx_len := assembled_len\<rparr>) packet_len
                        endpoint_size
               })"

text \<open>A whole run: packets in the order they arrive, each in a buffer of its own.\<close>

fun feed_all :: "rx_assembly \<Rightarrow> nat \<Rightarrow> bytes list \<Rightarrow> (rx_feed_result list \<times> rx_assembly) option" where
  "feed_all st endpoint_size [] = Some ([], st)"
| "feed_all st endpoint_size (p # ps) = do {
     (r, st) \<leftarrow> ccid_usb_rx_assembly_feed st (Some p) (length p) endpoint_size;
     (rs, st) \<leftarrow> feed_all st endpoint_size ps;
     Some (r # rs, st)
   }"

definition rx_initial :: rx_assembly where
  "rx_initial = \<lparr>rx_data = replicate 2060 0, rx_len = 0, rx_expected = 0,
                 discarding_malformed = False\<rparr>"

section \<open>What the assembler knows between packets\<close>

text \<open>\<open>framed d n\<close>: the first \<open>n\<close> bytes of \<open>d\<close> are one frame, as the validator decides it.\<close>

definition framed :: "bytes \<Rightarrow> nat \<Rightarrow> bool" where
  "framed d n \<longleftrightarrow> 10 \<le> n \<and> frame_data_len d \<le> 2050 \<and> n = 10 + frame_data_len d"

lemma validate_framed:
  "n \<le> length d \<Longrightarrow> n \<le> UINT16_MAX \<Longrightarrow>
    nfc_ccid_bulk_frame_validate (Some d) n =
      Some (framed d n, if framed d n then frame_data_len d else 0)"
  by (auto simp: frame_validate_eq framed_def)

text \<open>
  \<open>rx_inv h st\<close>: between packets, after the bytes \<open>h\<close> since the last reset, the state holds
  exactly them, short of the frame they start, or it discards a frame it knows is malformed.
\<close>

definition rx_inv :: "bytes \<Rightarrow> rx_assembly \<Rightarrow> bool" where
  "rx_inv h st \<longleftrightarrow> length (rx_data st) = 2060 \<and> rx_len st \<le> 2060 \<and>
     (if discarding_malformed st
      then 10 \<le> rx_len st \<and> \<not> framed (rx_data st) (rx_len st)
      else take (rx_len st) (rx_data st) = h \<and>
           rx_expected st = (if rx_len st < 10 then 0 else 10 + frame_data_len (rx_data st)) \<and>
           (10 \<le> rx_len st \<longrightarrow>
              frame_data_len (rx_data st) \<le> 2050 \<and> rx_len st < 10 + frame_data_len (rx_data st)))"

lemma rx_inv_reset [simp]: "length (rx_data st) = 2060 \<Longrightarrow> rx_inv [] (ccid_usb_rx_assembly_reset st)"
  by (simp add: rx_inv_def ccid_usb_rx_assembly_reset_def)

lemma rx_inv_initial [simp]: "rx_inv [] rx_initial"
  by (simp add: rx_inv_def rx_initial_def)

text \<open>What one packet does: the verdict, and what the state then holds.\<close>

definition feed_ok :: "bytes \<Rightarrow> rx_feed_result \<Rightarrow> rx_assembly \<Rightarrow> bool" where
  "feed_ok h r st \<longleftrightarrow> (case r of
       RX_MORE \<Rightarrow> rx_inv h st
     | RX_DROPPED \<Rightarrow> rx_inv [] st
     | RX_READY \<Rightarrow> length (rx_data st) = 2060 \<and> 10 \<le> rx_len st \<and> rx_len st \<le> 2060 \<and>
         (framed (rx_data st) (rx_len st) \<longrightarrow> take (rx_len st) (rx_data st) = h))"

lemma feed_ok_malformed:
  assumes "length (rx_data st) = 2060" and "rx_len st \<le> 2060"
    and "\<not> framed (rx_data st) (rx_len st)"
  shows "case malformed_result st plen ep of (r, st') \<Rightarrow> feed_ok h r st'"
  using assms rx_inv_reset [of st]
  by (auto simp: malformed_result_def feed_ok_def rx_inv_def)

lemma feed_ok_decide:
  assumes "length (rx_data st) = 2060" and "rx_len st \<le> 2060" and "\<not> discarding_malformed st"
    and "take (rx_len st) (rx_data st) = h"
    and "rx_expected st = (if rx_len st < 10 then 0 else 10 + frame_data_len (rx_data st))"
    and "10 \<le> rx_len st \<longrightarrow> frame_data_len (rx_data st) \<le> 2050"
  shows "case feed_decide st plen ep of (r, st') \<Rightarrow> feed_ok h r st'"
proof -
  have "rx_len st < 10 \<or> rx_expected st \<noteq> 0" by (simp add: assms(5))
  then consider (over) "rx_expected st \<noteq> 0" "rx_len st > rx_expected st"
    | (full) "rx_expected st \<noteq> 0" "rx_len st = rx_expected st"
    | (short) "rx_len st < 10 \<or> rx_len st < rx_expected st"
    using less_linear by blast
  then show ?thesis
  proof cases
    case over
    then have "\<not> framed (rx_data st) (rx_len st)"
      using assms(5) by (metis framed_def less_irrefl not_le)
    from feed_ok_malformed [OF assms(1,2) this] over show ?thesis by (simp add: feed_decide_def)
  next
    case full
    then have "10 \<le> rx_len st" using assms(5) by (metis not_le)
    with full have "feed_decide st plen ep = (RX_READY, st)" by (simp add: feed_decide_def)
    with \<open>10 \<le> rx_len st\<close> show ?thesis using assms(1,2,4) by (simp add: feed_ok_def)
  next
    case short
    then have nf: "\<not> framed (rx_data st) (rx_len st)"
      using assms(5) by (metis framed_def less_irrefl not_le)
    have lt: "10 \<le> rx_len st \<longrightarrow> rx_len st < 10 + frame_data_len (rx_data st)"
      using short assms(5) by (metis not_le)
    with assms have inv: "rx_inv h st" by (simp add: rx_inv_def)
    have "\<not> (rx_expected st \<noteq> 0 \<and> rx_len st \<ge> rx_expected st)"
      using short assms(5) by (metis not_le)
    then have "feed_decide st plen ep = (if plen < ep then malformed_result st plen ep else (RX_MORE, st))"
      by (auto simp: feed_decide_def)
    then show ?thesis using feed_ok_malformed [OF assms(1,2) nf] inv by (simp add: feed_ok_def)
  qed
qed

lemma load_len_data:
  "5 \<le> length d \<Longrightarrow> nfc_ccid_u32_load_le (Some (drop (Suc 0) d)) = Some (frame_data_len d)"
  using load_le_drop [of 1 d] by (simp add: frame_data_len_def numeral_2_eq_2 [symmetric])

lemma feed_header_eq:
  assumes "length (rx_data st) = 2060"
  shows "feed_header st plen ep =
    Some (if rx_expected st = 0 \<and> rx_len st \<ge> 10
          then if frame_data_len (rx_data st) > 2050 then malformed_result st plen ep
               else feed_decide (st\<lparr>rx_expected := 10 + frame_data_len (rx_data st)\<rparr>) plen ep
          else feed_decide st plen ep)"
  using assms by (auto simp: feed_header_def load_len_data)

text \<open>A packet that fits is appended; the rest of the routine looks at the grown state.\<close>

lemma feed_append:
  assumes "length (rx_data st) = 2060" and "\<not> discarding_malformed st"
    and "p \<noteq> []" and "length p \<le> ep" and "rx_len st + length p \<le> 2060"
  shows "ccid_usb_rx_assembly_feed st (Some p) (length p) ep =
    feed_header (st\<lparr>rx_data := patch (rx_data st) (rx_len st) p,
                     rx_len := rx_len st + length p\<rparr>) (length p) ep"
proof -
  have "0 < length p" using assms(3) by (simp add: length_greater_0_conv)
  then have "p \<noteq> [] \<and> 0 < ep" using assms(3,4) by linarith
  then show ?thesis using assms by (simp add: ccid_usb_rx_assembly_feed_def)
qed

lemma feed_overflow:
  assumes "\<not> discarding_malformed st" and "p \<noteq> []" and "length p \<le> ep" and "\<not> rx_len st + length p \<le> 2060"
  shows "ccid_usb_rx_assembly_feed st (Some p) (length p) ep =
    Some (malformed_result st (length p) ep)"
proof -
  have "0 < length p" using assms(2) by (simp add: length_greater_0_conv)
  then have "p \<noteq> [] \<and> 0 < ep" using assms(2,3) by linarith
  then show ?thesis
    using assms by (auto simp: ccid_usb_rx_assembly_feed_def nero_nfc_try_add_size_def)
qed

lemma frame_data_len_prefix:
  assumes "take n d = take n d'" and "5 \<le> n"
  shows "frame_data_len d = frame_data_len d'"
  using assms by (metis frame_data_len_take)


lemma rx_inv_not_framed: "rx_inv h st \<Longrightarrow> \<not> framed (rx_data st) (rx_len st)"
  by (auto simp: rx_inv_def framed_def split: if_splits)

text \<open>The state a packet is appended to, and what \<open>rx_inv\<close> says of it.\<close>

lemma rx_inv_append:
  assumes inv: "rx_inv h st" and d: "\<not> discarding_malformed st" and fit: "rx_len st + length p \<le> 2060"
  defines "st' \<equiv> st\<lparr>rx_data := patch (rx_data st) (rx_len st) p, rx_len := rx_len st + length p\<rparr>"
  shows "length (rx_data st') = 2060 \<and> take (rx_len st') (rx_data st') = h @ p \<and>
    (10 \<le> rx_len st \<longrightarrow> rx_expected st = 10 + frame_data_len (rx_data st') \<and>
        frame_data_len (rx_data st') \<le> 2050) \<and>
    (rx_len st < 10 \<longrightarrow> rx_expected st = 0)"
proof -
  have len: "length (rx_data st) = 2060" and t: "take (rx_len st) (rx_data st) = h"
    and e: "rx_expected st = (if rx_len st < 10 then 0 else 10 + frame_data_len (rx_data st))"
    and small: "10 \<le> rx_len st \<longrightarrow> frame_data_len (rx_data st) \<le> 2050"
    using inv d unfolding rx_inv_def by (simp_all split: if_splits)
  have t': "take (rx_len st) (patch (rx_data st) (rx_len st) p) = take (rx_len st) (rx_data st)"
    by (rule take_patch_before) (use len fit in simp_all)
  have "10 \<le> rx_len st \<longrightarrow>
      frame_data_len (patch (rx_data st) (rx_len st) p) = frame_data_len (rx_data st)"
    using frame_data_len_prefix [OF t'] by simp
  then show ?thesis
    using len fit e small take_patch_snoc [OF t, of p] by (simp add: st'_def)
qed

lemma feed_step:
  assumes inv: "rx_inv h st" and ep: "0 < ep" "length p \<le> ep"
  obtains r st' where "ccid_usb_rx_assembly_feed st (Some p) (length p) ep = Some (r, st')"
    and "feed_ok (h @ p) r st'"
proof -
  have len: "length (rx_data st) = 2060" "rx_len st \<le> 2060" using inv by (simp_all add: rx_inv_def)
  have bad: "case malformed_result st (length p) ep of (r, st') \<Rightarrow> feed_ok (h @ p) r st'"
    by (rule feed_ok_malformed [OF len rx_inv_not_framed [OF inv]])
  consider (malformed) "discarding_malformed st \<or> p = []"
    | (overflow) "\<not> discarding_malformed st" "p \<noteq> []" "\<not> rx_len st + length p \<le> 2060"
    | (fits) "\<not> discarding_malformed st" "p \<noteq> []" "rx_len st + length p \<le> 2060" by blast
  then show thesis
  proof cases
    case malformed
    with ep have "ccid_usb_rx_assembly_feed st (Some p) (length p) ep =
        Some (malformed_result st (length p) ep)"
      by (auto simp: ccid_usb_rx_assembly_feed_def)
    with bad that show thesis by (cases "malformed_result st (length p) ep") simp
  next
    case overflow
    with bad that feed_overflow [OF overflow(1,2) ep(2) overflow(3)] show thesis
      by (cases "malformed_result st (length p) ep") simp
  next
    case fits
    define st1 where "st1 = st\<lparr>rx_data := patch (rx_data st) (rx_len st) p,
                               rx_len := rx_len st + length p\<rparr>"
    note app = rx_inv_append [OF inv fits(1,3), folded st1_def]
    have st1: "length (rx_data st1) = 2060" "rx_len st1 \<le> 2060" "\<not> discarding_malformed st1"
      "take (rx_len st1) (rx_data st1) = h @ p" "rx_len st1 = rx_len st + length p"
      "rx_expected st1 = rx_expected st"
      using app fits by (simp_all add: st1_def)
    have eq: "ccid_usb_rx_assembly_feed st (Some p) (length p) ep = feed_header st1 (length p) ep"
      using feed_append [OF len(1) fits(1,2) ep(2) fits(3)] by (simp add: st1_def)
    show thesis
    proof (cases "rx_expected st1 = 0 \<and> rx_len st1 \<ge> 10")
      case True
      define st2 where "st2 = st1\<lparr>rx_expected := 10 + frame_data_len (rx_data st1)\<rparr>"
      have st2: "rx_data st2 = rx_data st1" "rx_len st2 = rx_len st1"
        "discarding_malformed st2 = discarding_malformed st1"
        "rx_expected st2 = 10 + frame_data_len (rx_data st1)" by (simp_all add: st2_def)
      show thesis
      proof (cases "frame_data_len (rx_data st1) > 2050")
        case big: True
        then have "\<not> framed (rx_data st1) (rx_len st1)" by (simp add: framed_def)
        with feed_ok_malformed [OF st1(1,2) this, where plen = "length p" and ep = ep and h = "h @ p"] True big eq that st1(1)
        show thesis
          by (cases "malformed_result st1 (length p) ep") (simp add: feed_header_eq)
      next
        case False
        have "case feed_decide st2 (length p) ep of (r, st') \<Rightarrow> feed_ok (h @ p) r st'"
          by (rule feed_ok_decide) (use False True st1 st2 in simp_all)
        with False True eq that st1(1) show thesis
          by (cases "feed_decide st2 (length p) ep") (simp add: feed_header_eq st2_def)
      qed
    next
      case False
      have "case feed_decide st1 (length p) ep of (r, st') \<Rightarrow> feed_ok (h @ p) r st'"
      proof (rule feed_ok_decide)
        show "rx_expected st1 = (if rx_len st1 < 10 then 0 else 10 + frame_data_len (rx_data st1))"
          using False app st1(5,6) by (cases "rx_len st < 10") auto
        show "10 \<le> rx_len st1 \<longrightarrow> frame_data_len (rx_data st1) \<le> 2050"
          using False app st1(5,6) by (cases "rx_len st < 10") auto
      qed (use st1 in simp_all)
      moreover have "ccid_usb_rx_assembly_feed st (Some p) (length p) ep =
          Some (feed_decide st1 (length p) ep)"
        using False eq st1(1) by (simp only: feed_header_eq if_False)
      ultimately show thesis using that by (cases "feed_decide st1 (length p) ep") simp
    qed
  qed
qed


section \<open>Whole runs\<close>

text \<open>Packets of one run, as long as the assembler asks for more.\<close>

lemma feed_all_more:
  assumes "rx_inv h st" and "0 < ep" and "\<forall>p \<in> set ps. length p \<le> ep"
    and "feed_all st ep ps = Some (rs, st')" and "set rs \<subseteq> {RX_MORE}"
  shows "rx_inv (h @ concat ps) st'"
  using assms
proof (induction ps arbitrary: h st rs)
  case Nil
  then show ?case by simp
next
  case (Cons p ps)
  obtain r st1 where step: "ccid_usb_rx_assembly_feed st (Some p) (length p) ep = Some (r, st1)"
      and ok: "feed_ok (h @ p) r st1"
    using feed_step [OF Cons.prems(1,2), of p] Cons.prems(3) by (metis list.set_intros(1))
  from Cons.prems(4) step obtain rs1 where rest: "feed_all st1 ep ps = Some (rs1, st')"
      and rs: "rs = r # rs1"
    by (auto split: bind_splits)
  with ok Cons.prems(5) have "rx_inv (h @ p) st1" by (simp add: feed_ok_def)
  from Cons.IH [OF this Cons.prems(2) _ rest] Cons.prems(3,5) rs show ?case by simp
qed

lemma feed_all_append:
  "feed_all st ep (ps @ qs) = do {
     (rs, st1) \<leftarrow> feed_all st ep ps;
     (rs', st2) \<leftarrow> feed_all st1 ep qs;
     Some (rs @ rs', st2)
   }"
  by (induction ps arbitrary: st) (auto split: bind_splits prod.splits)


text \<open>The packets of a well-formed frame: each is asked for, the last completes it.\<close>

lemma feed_frame_step:
  assumes inv: "rx_inv h st" "\<not> discarding_malformed st"
    and f: "f = h @ p @ r" "framed f (length f)"
    and p: "p \<noteq> []" "length p \<le> ep" "r \<noteq> [] \<Longrightarrow> length p = ep"
  obtains st' where "ccid_usb_rx_assembly_feed st (Some p) (length p) ep =
      Some (if r = [] then RX_READY else RX_MORE, st')"
    and "\<not> discarding_malformed st'" and "r \<noteq> [] \<Longrightarrow> rx_inv (h @ p) st'"
    and "r = [] \<Longrightarrow> rx_len st' = length f \<and> take (length f) (rx_data st') = f"
    and "length (rx_data st') = 2060"
proof -
  have len: "length (rx_data st) = 2060" "rx_len st = length h"
    using inv by (auto simp: rx_inv_def split: if_splits)
  have lf: "length f = 10 + frame_data_len f" "length f \<le> 2060" using f(2) by (auto simp: framed_def)
  then have fit: "rx_len st + length p \<le> 2060" using len(2) f(1) by simp
  define st1 where "st1 = st\<lparr>rx_data := patch (rx_data st) (rx_len st) p,
                             rx_len := rx_len st + length p\<rparr>"
  note app = rx_inv_append [OF inv fit, folded st1_def]
  have st1: "length (rx_data st1) = 2060" "\<not> discarding_malformed st1"
    "rx_len st1 = length (h @ p)" "rx_expected st1 = rx_expected st"
    using app inv(2) len(2) by (simp_all add: st1_def)
  then have t1: "take (length (h @ p)) (rx_data st1) = h @ p" using app by simp
  have eq: "ccid_usb_rx_assembly_feed st (Some p) (length p) ep = feed_header st1 (length p) ep"
    using feed_append [OF len(1) inv(2) p(1,2) fit] by (simp add: st1_def)
  have fdl: "frame_data_len (rx_data st1) = frame_data_len f" if "10 \<le> length (h @ p)"
  proof (rule frame_data_len_prefix)
    show "take (length (h @ p)) (rx_data st1) = take (length (h @ p)) f" using t1 f(1) by simp
  qed (use that in simp)
  define st2 where "st2 = (if 10 \<le> length (h @ p) then st1\<lparr>rx_expected := length f\<rparr> else st1)"
  have "feed_header st1 (length p) ep = Some (feed_decide st2 (length p) ep)"
  proof (cases "rx_expected st1 = 0 \<and> rx_len st1 \<ge> 10")
    case True
    then show ?thesis using fdl lf st1(1,3) by (simp add: feed_header_eq st2_def)
  next
    case False
    have "st2 = st1"
    proof (cases "10 \<le> length (h @ p)")
      case True
      then have "rx_expected st1 = length f" using False fdl lf st1(3,4) app len(2)
        by (cases "10 \<le> length h") auto
      then show ?thesis by (simp add: st2_def)
    qed (simp add: st2_def)
    with False show ?thesis using st1(1) by (simp only: feed_header_eq if_False)
  qed
  moreover have "feed_decide st2 (length p) ep = (if r = [] then RX_READY else RX_MORE, st2)"
  proof (cases "r = []")
    case True
    with f(1) have "length (h @ p) = length f" by simp
    then have "rx_expected st2 = length f \<and> rx_len st2 = length f" and "length f \<noteq> 0"
      using lf(1) st1(3) by (simp_all add: st2_def)
    with True show ?thesis by (simp add: feed_decide_def)
  next
    case False
    then have lt: "length (h @ p) < length f" using f(1) by (simp add: length_greater_0_conv)
    have "rx_expected st2 = (if 10 \<le> length (h @ p) then length f else 0)"
    proof (cases "10 \<le> length (h @ p)")
      case no: False
      then have "rx_len st < 10" using len(2) by simp
      with app have "rx_expected st = 0" by blast
      with no st1(4) show ?thesis by (simp only: st2_def if_False)
    qed (simp add: st2_def)
    moreover have "rx_len st2 = length (h @ p)" using st1(3) by (simp add: st2_def)
    ultimately show ?thesis using lt False p(3) by (simp only: feed_decide_def) auto
  qed
  moreover have "rx_inv (h @ p) st2" if "r \<noteq> []"
  proof -
    have "length (h @ p) < length f" using that f(1) by (simp add: length_greater_0_conv)
    then show ?thesis
      using st1 t1 fdl lf app len(2) by (auto simp: rx_inv_def st2_def)
  qed
  moreover have "rx_len st2 = length f \<and> take (length f) (rx_data st2) = f" if "r = []"
    using that f(1) t1 st1(3) by (simp add: st2_def)
  ultimately show thesis using eq st1 that [of st2] by (simp add: st2_def)
qed


text \<open>How a host sends a frame: full packets, then the rest.\<close>

function packets :: "nat \<Rightarrow> bytes \<Rightarrow> bytes list" where
  "packets ep f = (if ep = 0 \<or> length f \<le> ep then [f] else take ep f # packets ep (drop ep f))"
  by pat_completeness auto
termination
  by (relation "measure (\<lambda>(ep, f). length f)") auto

declare packets.simps [simp del]

lemma feed_all_packets:
  assumes "rx_inv h st" and "\<not> discarding_malformed st" and "0 < ep" and "g \<noteq> []"
    and "f = h @ g" and "framed f (length f)"
  shows "\<exists>st'. feed_all st ep (packets ep g) =
      Some (replicate (length (packets ep g) - 1) RX_MORE @ [RX_READY], st') \<and>
    rx_len st' = length f \<and> take (length f) (rx_data st') = f \<and> length (rx_data st') = 2060"
  using assms
proof (induction ep g arbitrary: h st rule: packets.induct)
  case (1 ep g)
  show ?case
  proof (cases "length g \<le> ep")
    case True
    obtain st' where "ccid_usb_rx_assembly_feed st (Some g) (length g) ep = Some (RX_READY, st')"
        and "rx_len st' = length f \<and> take (length f) (rx_data st') = f" "length (rx_data st') = 2060"
      using feed_frame_step [OF "1.prems"(1,2), of f g "[]" ep] "1.prems"(4-6) True by auto
    then show ?thesis using True by (simp add: packets.simps [of ep g])
  next
    case False
    define p where "p = take ep g"
    define r where "r = drop ep g"
    have pr: "g = p @ r" "p \<noteq> []" "length p = ep" "r \<noteq> []"
      using False "1.prems"(3,4) by (simp_all add: p_def r_def)
    then have f': "f = h @ p @ r" using "1.prems"(5) by simp
    obtain st1 where step: "ccid_usb_rx_assembly_feed st (Some p) (length p) ep = Some (RX_MORE, st1)"
        and st1: "\<not> discarding_malformed st1" "rx_inv (h @ p) st1"
      using feed_frame_step [OF "1.prems"(1,2) f' "1.prems"(6) pr(2), of ep] pr(3,4) by auto
    have "\<not> (ep = 0 \<or> length g \<le> ep)" using False "1.prems"(3) by simp
    from "1.IH" [OF this, folded r_def, OF st1(2,1) "1.prems"(3) pr(4) _ "1.prems"(6)] f'
    obtain st' where rest: "feed_all st1 ep (packets ep r) =
        Some (replicate (length (packets ep r) - 1) RX_MORE @ [RX_READY], st')"
      and st': "rx_len st' = length f" "take (length f) (rx_data st') = f" "length (rx_data st') = 2060"
      by auto
    have "packets ep g = p # packets ep r"
      using \<open>\<not> (ep = 0 \<or> length g \<le> ep)\<close> by (simp add: packets.simps [of ep g] p_def r_def)
    moreover have "length (packets ep r) \<noteq> 0" by (subst packets.simps) simp
    ultimately show ?thesis
      using step rest st' by (cases "length (packets ep r)") simp_all
  qed
qed

text \<open>
  C13: a well-formed frame, sent in endpoint-size packets to a freshly reset assembler, is
  reported ready with its last packet and not before, and is then held byte for byte, so that
  it passes the frame validator.
\<close>

theorem frame_reassembled:
  assumes "framed f (length f)" and "0 < ep" and "length (rx_data st) = 2060"
  shows "\<exists>st'. feed_all (ccid_usb_rx_assembly_reset st) ep (packets ep f) =
      Some (replicate (length (packets ep f) - 1) RX_MORE @ [RX_READY], st') \<and>
    take (rx_len st') (rx_data st') = f \<and>
    nfc_ccid_bulk_frame_validate (Some (rx_data st')) (rx_len st') = Some (True, frame_data_len f)"
proof -
  have f: "f \<noteq> []" "10 \<le> length f" "length f \<le> 2060" using assms(1) by (auto simp: framed_def)
  have "rx_inv [] (ccid_usb_rx_assembly_reset st)" using assms(3) by simp
  then obtain st' where run: "feed_all (ccid_usb_rx_assembly_reset st) ep (packets ep f) =
        Some (replicate (length (packets ep f) - 1) RX_MORE @ [RX_READY], st')"
      and st': "rx_len st' = length f" "take (length f) (rx_data st') = f" "length (rx_data st') = 2060"
    using feed_all_packets [of "[]" "ccid_usb_rx_assembly_reset st" ep f f] assms f
    by (auto simp: ccid_usb_rx_assembly_reset_def)
  have "frame_data_len (rx_data st') = frame_data_len f"
    by (rule frame_data_len_prefix [of "length f"]) (use st' f in simp_all)
  then have "nfc_ccid_bulk_frame_validate (Some (rx_data st')) (rx_len st') = Some (True, frame_data_len f)"
    using validate_framed [of "rx_len st'" "rx_data st'"] st' f assms(1) by (simp add: framed_def)
  with run st' show ?thesis by auto
qed

theorem frame_reassembled_witness:
  "framed (0x6F # 2 # replicate 10 (0 :: u8)) 12 \<and>
   (\<exists>st'. feed_all (ccid_usb_rx_assembly_reset rx_initial) 4 (packets 4 (0x6F # 2 # replicate 10 0)) =
      Some ([RX_MORE, RX_MORE, RX_READY], st') \<and>
    take (rx_len st') (rx_data st') = 0x6F # 2 # replicate 10 0)"
proof -
  have f: "framed (0x6F # 2 # replicate 10 (0 :: u8)) (length (0x6F # 2 # replicate 10 (0 :: u8)))"
    by (simp add: framed_def frame_data_len_def be32_eq)
  have "length (packets 4 (0x6F # 2 # replicate 10 (0 :: u8))) = 3"
    by (simp add: packets.simps eval_nat_numeral)
  with frame_reassembled [OF f, of 4 rx_initial] f show ?thesis
    by (auto simp: rx_initial_def numeral_2_eq_2)
qed

text \<open>
  C14: whatever packets the host sends after a reset, if the last one makes the assembler
  report ready and the frame then passes the validator, the frame is exactly the bytes of all
  these packets in order: malformed, truncated or oversized input is never delivered as a
  valid frame, and every access stays inside the buffer.
\<close>

theorem validated_frame_faithful:
  assumes "length (rx_data st) = 2060" and "0 < ep" and "\<forall>p \<in> set (ps @ [q]). length p \<le> ep"
    and "feed_all (ccid_usb_rx_assembly_reset st) ep ps = Some (replicate n RX_MORE, st1)"
  shows "\<exists>r st2. ccid_usb_rx_assembly_feed st1 (Some q) (length q) ep = Some (r, st2) \<and>
    rx_len st2 \<le> 2060 \<and> length (rx_data st2) = 2060 \<and>
    (r = RX_READY \<longrightarrow> (\<exists>ok n. nfc_ccid_bulk_frame_validate (Some (rx_data st2)) (rx_len st2) = Some (ok, n) \<and>
       10 \<le> rx_len st2 \<and> (ok \<longrightarrow> take (rx_len st2) (rx_data st2) = concat (ps @ [q]))))"
proof -
  have "rx_inv ([] @ concat ps) st1"
    by (rule feed_all_more [OF rx_inv_reset [OF assms(1)] assms(2) _ assms(4)]) (use assms(3) in auto)
  then obtain r st2 where step: "ccid_usb_rx_assembly_feed st1 (Some q) (length q) ep = Some (r, st2)"
      and ok: "feed_ok (concat ps @ q) r st2"
    using feed_step [of _ st1 ep q] assms(2,3) by (metis append_Nil in_set_conv_decomp)
  have "rx_len st2 \<le> 2060 \<and> length (rx_data st2) = 2060"
    using ok by (cases r) (simp_all add: feed_ok_def rx_inv_def)
  moreover from this have "nfc_ccid_bulk_frame_validate (Some (rx_data st2)) (rx_len st2) =
      Some (framed (rx_data st2) (rx_len st2),
        if framed (rx_data st2) (rx_len st2) then frame_data_len (rx_data st2) else 0)"
    by (intro validate_framed) simp_all
  ultimately show ?thesis using step ok by (cases r) (simp_all add: feed_ok_def)
qed

theorem validated_frame_faithful_witness:
  "\<exists>st1 st2 r. feed_all (ccid_usb_rx_assembly_reset rx_initial) 8 [replicate 8 (1 :: u8)] = Some ([RX_MORE], st1) \<and>
     ccid_usb_rx_assembly_feed st1 (Some [1, 2, 3]) 3 8 = Some (r, st2) \<and> rx_len st2 \<le> 2060"
proof -
  define st1 where "st1 = (ccid_usb_rx_assembly_reset rx_initial)\<lparr>
    rx_data := patch (replicate 2060 0) 0 (replicate 8 (1 :: u8)), rx_len := 8\<rparr>"
  have run: "feed_all (ccid_usb_rx_assembly_reset rx_initial) 8 [replicate 8 (1 :: u8)] =
      Some (replicate 1 RX_MORE, st1)"
    by (simp add: st1_def ccid_usb_rx_assembly_feed_def ccid_usb_rx_assembly_reset_def rx_initial_def
        feed_header_def feed_decide_def)
  have "length (rx_data rx_initial) = 2060" by (simp add: rx_initial_def)
  moreover have "\<forall>p \<in> set ([replicate 8 (1 :: u8)] @ [[1, 2, 3]]). length p \<le> 8" by simp
  ultimately obtain r st2 where
    "ccid_usb_rx_assembly_feed st1 (Some [1, 2, 3]) (length [1, 2, 3 :: u8]) 8 = Some (r, st2)"
    and "rx_len st2 \<le> 2060"
    using validated_frame_faithful [OF _ _ _ run, of "[1, 2, 3]"] by auto
  moreover have "length [1, 2, 3 :: u8] = 3" by simp
  ultimately show ?thesis using run by (metis One_nat_def replicate_0 replicate_Suc)
qed

end
