(* ===== verification/UsbPort.thy ===== *)
theory UsbPort
  imports RxAssembly "HOL-Library.Sublist"
begin

text \<open>
  The CCID class driver on TinyUSB, \<^verbatim>\<open>ccid_usb_tinyusb.c\<close>: arming the bulk-OUT endpoint,
  queueing a reassembled frame for the main loop, peek and release, abort requests from the
  control pipe, and the transmission of a response in endpoint packets with a final
  zero-length packet. The device stack is a parameter: \<open>usb_bus\<close> holds its answers, the
  \<open>n\<close>-th call of each function getting the \<open>n\<close>-th answer, and \<open>bus_log\<close> records what the
  driver asked of it and which callbacks it received. While a transmission waits, the driver
  services the stack (\<open>ccid_usb_service_wait\<close>, \<^verbatim>\<open>tud_task\<close>), and the stack calls the
  driver back: bus resets, the opening of endpoints, control requests and completed transfers
  happen inside the send loops as well. Debug text on the serial port is not modelled.
\<close>

text \<open>The callbacks of the stack: \<open>Endpoints_Opened\<close> holds the interface number and the addresses of
  the interrupt-IN, the bulk-IN and the bulk-OUT endpoint.\<close>

datatype usb_callback =
    Bus_Reset
  | Endpoints_Opened u8 u8 u8 u8
  | Bulk_Out_Done bytes nat bool
  | Other_Done u8 nat bool
  | Control_Request bool bool u8 u8 nat nat nat bool

record usb_bus =
  bus_claim :: "nat \<Rightarrow> bool"
  bus_xfer :: "nat \<Rightarrow> bool"
  bus_busy :: "nat \<Rightarrow> bool"
  bus_millis :: "nat \<Rightarrow> 32 word"
  bus_task :: "nat \<Rightarrow> usb_callback list"

text \<open>\<open>Transfer ep None\<close> queues a buffer to be received into, \<open>Transfer ep (Some p)\<close> the bytes \<open>p\<close>.\<close>

datatype usb_event = Claimed u8 | Released u8 | Transfer u8 "bytes option" | Callback usb_callback

record usb_port =
  ep_bulk_out_buf :: bytes
  bulk_in_work :: bytes
  ep_bulk_out :: u8
  ep_bulk_in :: u8
  ep_interrupt :: u8
  interface_number :: u8
  rx_store_len :: nat
  rx_pending :: bool
  rx_asm :: rx_assembly
  bulk_out_busy :: bool
  abort_request_pending :: bool
  abort_request_slot :: u8
  abort_request_seq :: u8
  dbg_open_state :: u8
  dbg_xfer_out :: u8
  dbg_arm_out_fail :: u8
  dbg_queue_ok :: u8
  dbg_poll_recv :: u8
  dbg_send_ok :: u8
  dbg_send_fail :: u8
  dbg_last_seq :: u8
  claim_n :: nat
  xfer_n :: nat
  busy_n :: nat
  millis_n :: nat
  task_n :: nat
  bus_log :: "usb_event list"

abbreviation NERO_CCID_BULK_EPSIZE :: nat where "NERO_CCID_BULK_EPSIZE \<equiv> 64"

section \<open>The device stack\<close>

definition usbd_edpt_claim :: "usb_bus \<Rightarrow> usb_port \<Rightarrow> u8 \<Rightarrow> bool \<times> usb_port" where
  "usbd_edpt_claim bus st ep =
     (let ok = bus_claim bus (claim_n st) in
      (ok, st\<lparr>claim_n := claim_n st + 1,
              bus_log := bus_log st @ (if ok then [Claimed ep] else [])\<rparr>))"

definition ccid_edpt_xfer :: "usb_bus \<Rightarrow> usb_port \<Rightarrow> u8 \<Rightarrow> bytes option \<Rightarrow> bool \<times> usb_port" where
  "ccid_edpt_xfer bus st ep payload =
     (let ok = bus_xfer bus (xfer_n st) in
      (ok, st\<lparr>xfer_n := xfer_n st + 1,
              bus_log := bus_log st @ (if ok then [Transfer ep payload] else [])\<rparr>))"

definition usbd_edpt_release :: "usb_port \<Rightarrow> u8 \<Rightarrow> usb_port" where
  "usbd_edpt_release st ep = st\<lparr>bus_log := bus_log st @ [Released ep]\<rparr>"

definition usbd_edpt_busy :: "usb_bus \<Rightarrow> usb_port \<Rightarrow> bool \<times> usb_port" where
  "usbd_edpt_busy bus st = (bus_busy bus (busy_n st), st\<lparr>busy_n := busy_n st + 1\<rparr>)"

definition reader_hal_millis :: "usb_bus \<Rightarrow> usb_port \<Rightarrow> 32 word \<times> usb_port" where
  "reader_hal_millis bus st = (bus_millis bus (millis_n st), st\<lparr>millis_n := millis_n st + 1\<rparr>)"

text \<open>\<open>(int32_t)(now - deadline) > 0\<close>, in 32-bit arithmetic.\<close>

definition expired :: "32 word \<Rightarrow> 32 word \<Rightarrow> bool" where
  "expired now deadline \<longleftrightarrow> 0 < sint (now - deadline)"

section \<open>Receiving\<close>

definition queue_rx :: "usb_port \<Rightarrow> nat \<Rightarrow> (bool \<times> usb_port) option" where
  "queue_rx st xferred_bytes =
     (if xferred_bytes = 0 \<or> xferred_bytes > 2060 \<or> rx_pending st then Some (False, st)
      else let st = st\<lparr>rx_store_len := xferred_bytes, rx_pending := True,
                       dbg_queue_ok := dbg_queue_ok st + 1\<rparr> in
        if xferred_bytes > 6 then do {
          q \<leftarrow> rd (Some (rx_data (rx_asm st))) 6;
          Some (True, st\<lparr>dbg_last_seq := q\<rparr>)
        } else Some (True, st))"

definition reset_rx_assembly :: "usb_port \<Rightarrow> usb_port" where
  "reset_rx_assembly st = st\<lparr>rx_asm := ccid_usb_rx_assembly_reset (rx_asm st)\<rparr>"

definition queue_rx_packet :: "usb_port \<Rightarrow> nat \<Rightarrow> (bool \<times> usb_port) option" where
  "queue_rx_packet st xferred_bytes =
     (if xferred_bytes > UINT16_MAX then Some (False, reset_rx_assembly st)
      else do {
        (result, a) \<leftarrow> ccid_usb_rx_assembly_feed (rx_asm st) (Some (ep_bulk_out_buf st))
                         xferred_bytes NERO_CCID_BULK_EPSIZE;
        let st = st\<lparr>rx_asm := a\<rparr>;
        if result = RX_READY then do {
          (ok, st) \<leftarrow> queue_rx st (rx_len (rx_asm st));
          Some (if ok then (True, st) else (False, reset_rx_assembly st))
        } else Some (False, st)
      })"

definition arm_bulk_out :: "usb_bus \<Rightarrow> usb_port \<Rightarrow> usb_port" where
  "arm_bulk_out bus st =
     (if ep_bulk_out st = 0 \<or> bulk_out_busy st \<or> rx_pending st then st
      else let (claimed, st) = usbd_edpt_claim bus st (ep_bulk_out st);
               (queued, st) = (if claimed then ccid_edpt_xfer bus st (ep_bulk_out st) None
                               else (False, st));
               st = (if \<not> queued \<and> claimed then usbd_edpt_release st (ep_bulk_out st) else st)
           in if queued then st\<lparr>bulk_out_busy := True\<rparr>
              else st\<lparr>dbg_arm_out_fail := dbg_arm_out_fail st + 1\<rparr>)"

definition nero_ccidd_reset :: "usb_port \<Rightarrow> usb_port" where
  "nero_ccidd_reset st = (reset_rx_assembly (st\<lparr>rx_store_len := 0, rx_pending := False\<rparr>))
     \<lparr>ep_bulk_out := 0, ep_bulk_in := 0, ep_interrupt := 0, bulk_out_busy := False,
      dbg_open_state := 0, dbg_xfer_out := 0, dbg_arm_out_fail := 0, dbg_queue_ok := 0,
      dbg_poll_recv := 0, dbg_send_ok := 0, dbg_send_fail := 0, dbg_last_seq := 0\<rparr>"

text \<open>The end of \<open>nero_ccidd_open\<close>, once the descriptor walk has found the three endpoints.\<close>

definition nero_ccidd_open_finish :: "usb_bus \<Rightarrow> usb_port \<Rightarrow> bool \<times> usb_port" where
  "nero_ccidd_open_finish bus st =
     (if ep_bulk_out st = 0 \<or> ep_bulk_in st = 0 \<or> ep_interrupt st = 0 then (False, st)
      else let st = st\<lparr>dbg_open_state := 2\<rparr>;
               st = st\<lparr>bulk_out_busy := False\<rparr>;
               st = arm_bulk_out bus st
           in (True, st\<lparr>dbg_open_state := 3\<rparr>))"

text \<open>
  A control request. \<open>context_ready\<close> is \<open>ccid_usb_context_ready ()\<close>, \<open>status_ok\<close> what the
  stack's status call answers.
\<close>

definition nero_ccidd_control_xfer_cb ::
    "bool \<Rightarrow> usb_port \<Rightarrow> bool \<Rightarrow> u8 \<Rightarrow> u8 \<Rightarrow> nat \<Rightarrow> nat \<Rightarrow> nat \<Rightarrow> bool \<Rightarrow> bool \<times> usb_port" where
  "nero_ccidd_control_xfer_cb context_ready st setup_stage bm_request_type b_request w_value w_index
       w_length status_ok =
     (if \<not> context_ready then (False, st)
      else if \<not> setup_stage then (True, st)
      else case nfc_ccid_control_abort_request_matches_slot bm_request_type b_request w_value
                  w_index w_length (unat (interface_number st)) 0 of
             (True, slot, seq) \<Rightarrow>
               (status_ok, st\<lparr>abort_request_slot := slot, abort_request_seq := seq,
                              abort_request_pending := True\<rparr>)
           | (False, _, _) \<Rightarrow> (False, st))"

definition nero_ccidd_xfer_cb ::
    "usb_bus \<Rightarrow> usb_port \<Rightarrow> u8 \<Rightarrow> bool \<Rightarrow> nat \<Rightarrow> (bool \<times> usb_port) option" where
  "nero_ccidd_xfer_cb bus st ep_addr success xferred_bytes =
     (if ep_addr = ep_bulk_out st then do {
        st \<leftarrow> (if success then map_option snd (queue_rx_packet st xferred_bytes) else Some st);
        let st = st\<lparr>bulk_out_busy := False\<rparr>;
        let st = st\<lparr>dbg_xfer_out := dbg_xfer_out st + 1\<rparr>;
        Some (True, arm_bulk_out bus st)
      } else Some (ep_addr = ep_interrupt st, st))"

text \<open>\<open>reader_hal_ccid_peek\<close> yields the frame buffer and its length.\<close>

definition reader_hal_ccid_peek ::
    "usb_bus \<Rightarrow> usb_port \<Rightarrow> (bool \<times> cptr \<times> nat \<times> usb_port) option" where
  "reader_hal_ccid_peek bus st =
     (let st = (if \<not> rx_pending st \<and> ep_bulk_out st \<noteq> 0 \<and> \<not> bulk_out_busy st
                then arm_bulk_out bus st else st)
      in if \<not> rx_pending st then Some (False, None, 0, st)
      else let st = st\<lparr>dbg_poll_recv := dbg_poll_recv st + 1\<rparr> in
        if rx_store_len st > 6 then do {
          q \<leftarrow> rd (Some (rx_data (rx_asm st))) 6;
          Some (True, Some (rx_data (rx_asm st)), rx_store_len st, st\<lparr>dbg_last_seq := q\<rparr>)
        } else Some (True, Some (rx_data (rx_asm st)), rx_store_len st, st))"

definition reader_hal_ccid_release :: "usb_bus \<Rightarrow> usb_port \<Rightarrow> usb_port" where
  "reader_hal_ccid_release bus st =
     (if \<not> rx_pending st then st
      else let st = st\<lparr>rx_pending := False\<rparr>;
               st = reset_rx_assembly st
           in if ep_bulk_out st \<noteq> 0 \<and> \<not> bulk_out_busy st then arm_bulk_out bus st else st)"

definition reader_hal_ccid_abort_request_pending :: "usb_port \<Rightarrow> bool \<times> u8 \<times> u8" where
  "reader_hal_ccid_abort_request_pending st =
     (if \<not> abort_request_pending st then (False, 0, 0)
      else (True, abort_request_slot st, abort_request_seq st))"

definition reader_hal_ccid_clear_abort_request :: "usb_port \<Rightarrow> u8 \<Rightarrow> u8 \<Rightarrow> usb_port" where
  "reader_hal_ccid_clear_abort_request st slot seq =
     (if abort_request_pending st \<and> abort_request_slot st = slot \<and> abort_request_seq st = seq
      then st\<lparr>abort_request_pending := False\<rparr> else st)"

section \<open>Servicing the stack while waiting\<close>

text \<open>
  What \<^verbatim>\<open>tud_task\<close> does to the driver. The stack makes a callback only where it can: a bulk-OUT
  transfer completes only while one is queued (the hardware may leave any bytes in the 64-byte
  endpoint buffer), and endpoints are opened only when they are closed, since a new
  configuration resets the driver first. A callback that is not possible is not made.
\<close>

fun callback_possible :: "usb_callback \<Rightarrow> usb_port \<Rightarrow> bool" where
  "callback_possible Bus_Reset st = True"
| "callback_possible (Endpoints_Opened ifn ek ei eo) st = (ep_bulk_out st = 0)"
| "callback_possible (Bulk_Out_Done data n success) st = (bulk_out_busy st \<and> length data = 64 \<and> n \<le> 64)"
| "callback_possible (Other_Done ep n success) st = (ep \<noteq> ep_bulk_out st)"
| "callback_possible (Control_Request ready setup rt rq v i l ok) st = True"

fun driver_callback :: "usb_bus \<Rightarrow> usb_callback \<Rightarrow> usb_port \<Rightarrow> usb_port option" where
  "driver_callback bus Bus_Reset st = Some (nero_ccidd_reset st)"
| "driver_callback bus (Endpoints_Opened ifn ek ei eo) st =
     Some (snd (nero_ccidd_open_finish bus (st\<lparr>ep_bulk_out := eo, ep_bulk_in := ei,
       ep_interrupt := ek, interface_number := ifn\<rparr>)))"
| "driver_callback bus (Bulk_Out_Done data n success) st =
     map_option snd (nero_ccidd_xfer_cb bus (st\<lparr>ep_bulk_out_buf := data\<rparr>) (ep_bulk_out st) success n)"
| "driver_callback bus (Other_Done ep n success) st =
     map_option snd (nero_ccidd_xfer_cb bus st ep success n)"
| "driver_callback bus (Control_Request ready setup rt rq v i l ok) st =
     Some (snd (nero_ccidd_control_xfer_cb ready st setup rt rq v i l ok))"

fun run_callbacks :: "usb_bus \<Rightarrow> usb_callback list \<Rightarrow> usb_port \<Rightarrow> usb_port option" where
  "run_callbacks bus [] st = Some st"
| "run_callbacks bus (c # cs) st =
     (if callback_possible c st
      then driver_callback bus c (st\<lparr>bus_log := bus_log st @ [Callback c]\<rparr>) \<bind> run_callbacks bus cs
      else run_callbacks bus cs st)"

definition ccid_usb_service_wait :: "usb_bus \<Rightarrow> usb_port \<Rightarrow> usb_port option" where
  "ccid_usb_service_wait bus st =
     run_callbacks bus (bus_task bus (task_n st)) (st\<lparr>task_n := task_n st + 1\<rparr>)"

section \<open>Sending\<close>

definition ccid_usb_bulk_in_needs_zlp :: "nat \<Rightarrow> nat \<Rightarrow> bool" where
  "ccid_usb_bulk_in_needs_zlp message_len endpoint_size \<longleftrightarrow>
     message_len \<noteq> 0 \<and> endpoint_size \<noteq> 0 \<and> message_len mod endpoint_size = 0"

text \<open>
  The claim loop: \<open>w\<close> is the value after \<open>--w\<close>, so the loop of the source starts at
  64000 - 1. The first component is \<open>xfer_ok\<close>; \<open>Inl\<close> is the early return.
\<close>

fun send_claim_loop ::
    "usb_bus \<Rightarrow> cptr \<Rightarrow> nat \<Rightarrow> 32 word \<Rightarrow> nat \<Rightarrow> usb_port \<Rightarrow> ((unit + bool) \<times> usb_port) option" where
  "send_claim_loop bus src chunk deadline 0 st = Some (Inr False, st)"
| "send_claim_loop bus src chunk deadline (Suc w) st =
     (let (now, st) = reader_hal_millis bus st in
      if expired now deadline
      then Some (Inl (), st\<lparr>dbg_send_fail := dbg_send_fail st + 1\<rparr>)
      else let (claimed, st) = usbd_edpt_claim bus st (ep_bulk_in st) in
        if claimed then do {
          (ok, work) \<leftarrow> nero_nfc_copy_bytes (Some (bulk_in_work st)) 64 0 src chunk;
          work \<leftarrow> work;
          let st = st\<lparr>bulk_in_work := work\<rparr>;
          if \<not> ok
          then (let st = usbd_edpt_release st (ep_bulk_in st)
                in Some (Inl (), st\<lparr>dbg_send_fail := dbg_send_fail st + 1\<rparr>))
          else (let (sent, st) = ccid_edpt_xfer bus st (ep_bulk_in st) (Some (take chunk (bulk_in_work st)))
                in if sent then Some (Inr True, st)
                   else ccid_usb_service_wait bus (usbd_edpt_release st (ep_bulk_in st))
                          \<bind> send_claim_loop bus src chunk deadline w)
        } else ccid_usb_service_wait bus st \<bind> send_claim_loop bus src chunk deadline w)"

text \<open>The wait for completion ends when the endpoint is idle or the deadline has passed.\<close>

partial_function (option) send_busy_loop ::
    "usb_bus \<Rightarrow> 32 word \<Rightarrow> usb_port \<Rightarrow> (bool \<times> usb_port) option" where
  "send_busy_loop bus deadline st =
     (case usbd_edpt_busy bus st of (busy, st) \<Rightarrow>
        if \<not> busy then Some (True, st)
        else ccid_usb_service_wait bus st \<bind> (\<lambda>st. case reader_hal_millis bus st of (now, st) \<Rightarrow>
          if expired now deadline
          then Some (False, st\<lparr>dbg_send_fail := dbg_send_fail st + 1\<rparr>)
          else send_busy_loop bus deadline st))"

definition ccid_send_one_chunk ::
    "usb_bus \<Rightarrow> cptr \<Rightarrow> nat \<Rightarrow> 32 word \<Rightarrow> usb_port \<Rightarrow> (bool \<times> usb_port) option" where
  "ccid_send_one_chunk bus src chunk deadline st = do {
     (r, st) \<leftarrow> send_claim_loop bus src chunk deadline 63999 st;
     case r of
       Inl _ \<Rightarrow> Some (False, st)
     | Inr xfer_ok \<Rightarrow>
         if \<not> xfer_ok then Some (False, st\<lparr>dbg_send_fail := dbg_send_fail st + 1\<rparr>)
         else send_busy_loop bus deadline st
   }"

function send_chunks ::
    "usb_bus \<Rightarrow> cptr \<Rightarrow> nat \<Rightarrow> 32 word \<Rightarrow> nat \<Rightarrow> usb_port \<Rightarrow> (bool \<times> usb_port) option" where
  "send_chunks bus buf len deadline off st =
     (if off < len then
        (let (now, st) = reader_hal_millis bus st in
         if expired now deadline
         then Some (False, st\<lparr>dbg_send_fail := dbg_send_fail st + 1\<rparr>)
         else let chunk = (if len - off \<le> NERO_CCID_BULK_EPSIZE then len - off
                           else NERO_CCID_BULK_EPSIZE) in do {
           (ok, st) \<leftarrow> ccid_send_one_chunk bus (ptr_add buf off) chunk deadline st;
           if \<not> ok then Some (False, st) else send_chunks bus buf len deadline (off + chunk) st
         })
      else Some (True, st))"
  by pat_completeness auto
termination
  by (relation "measure (\<lambda>(bus, buf, len, deadline, off, st). len - off)") auto

declare send_chunks.simps [simp del]

definition reader_hal_ccid_send ::
    "usb_bus \<Rightarrow> cptr \<Rightarrow> nat \<Rightarrow> 32 word \<Rightarrow> usb_port \<Rightarrow> (bool \<times> usb_port) option" where
  "reader_hal_ccid_send bus buf len deadline_ms st =
     (if buf = None \<or> len = 0 \<or> ep_bulk_in st = 0
      then Some (False, st\<lparr>dbg_send_fail := dbg_send_fail st + 1\<rparr>)
      else let deadline_ms = (if deadline_ms < 5000 then deadline_ms else 5000);
               (now, st) = reader_hal_millis bus st;
               deadline = now + deadline_ms
           in do {
        (ok, st) \<leftarrow> send_chunks bus buf len deadline 0 st;
        if \<not> ok then Some (False, st)
        else if ccid_usb_bulk_in_needs_zlp len NERO_CCID_BULK_EPSIZE then do {
          (ok, st) \<leftarrow> ccid_send_one_chunk bus buf 0 deadline st;
          Some (if \<not> ok then (False, st) else (True, st\<lparr>dbg_send_ok := dbg_send_ok st + 1\<rparr>))
        } else Some (True, st\<lparr>dbg_send_ok := dbg_send_ok st + 1\<rparr>)
      })"


section \<open>The driver as a state machine\<close>

definition usb_boot :: usb_port where
  "usb_boot = \<lparr>ep_bulk_out_buf = replicate 64 0, bulk_in_work = replicate 64 0, ep_bulk_out = 0,
     ep_bulk_in = 0, ep_interrupt = 0, interface_number = 0, rx_store_len = 0, rx_pending = False,
     rx_asm = rx_initial, bulk_out_busy = False, abort_request_pending = False,
     abort_request_slot = 0, abort_request_seq = 0, dbg_open_state = 0, dbg_xfer_out = 0,
     dbg_arm_out_fail = 0, dbg_queue_ok = 0, dbg_poll_recv = 0, dbg_send_ok = 0,
     dbg_send_fail = 0, dbg_last_seq = 0, claim_n = 0, xfer_n = 0, busy_n = 0, millis_n = 0,
     task_n = 0, bus_log = []\<rparr>"

text \<open>Claims that are neither released nor used for a transfer.\<close>

fun held :: "usb_event \<Rightarrow> int" where
  "held (Claimed ep) = 1"
| "held (Released ep) = -1"
| "held (Transfer ep p) = -1"
| "held (Callback c) = 0"

definition usb_ok :: "usb_port \<Rightarrow> bool" where
  "usb_ok st \<longleftrightarrow> length (rx_data (rx_asm st)) = 2060 \<and> length (ep_bulk_out_buf st) = 64 \<and>
     length (bulk_in_work st) = 64 \<and> sum_list (map held (bus_log st)) = 0 \<and>
     (if rx_pending st
      then \<not> bulk_out_busy st \<and> 10 \<le> rx_store_len st \<and> rx_store_len st \<le> 2060 \<and>
           rx_store_len st = rx_len (rx_asm st)
      else \<exists>h. rx_inv h (rx_asm st))"

lemma usb_ok_boot: "usb_ok usb_boot"
  using rx_inv_initial by (auto simp: usb_ok_def usb_boot_def rx_initial_def)

text \<open>\<open>same_rx st st'\<close>: nothing of the receive side but the armed flag differs.\<close>

definition same_rx :: "usb_port \<Rightarrow> usb_port \<Rightarrow> bool" where
  "same_rx st st' \<longleftrightarrow> rx_asm st' = rx_asm st \<and> rx_pending st' = rx_pending st \<and>
     rx_store_len st' = rx_store_len st \<and> ep_bulk_out_buf st' = ep_bulk_out_buf st \<and>
     length (bulk_in_work st') = length (bulk_in_work st) \<and>
     sum_list (map held (bus_log st')) = sum_list (map held (bus_log st)) \<and>
     (rx_pending st \<longrightarrow> bulk_out_busy st' = bulk_out_busy st)"

lemma usb_ok_same_rx: "usb_ok st \<Longrightarrow> same_rx st st' \<Longrightarrow> usb_ok st'"
  by (cases "rx_pending st") (simp_all add: usb_ok_def same_rx_def)

lemma usb_ok_open_state [simp]: "usb_ok (st\<lparr>dbg_open_state := x\<rparr>) = usb_ok st"
  by (simp add: usb_ok_def)

lemma same_rx_arm: "same_rx st (arm_bulk_out bus st)"
  by (simp add: same_rx_def arm_bulk_out_def usbd_edpt_claim_def ccid_edpt_xfer_def
      usbd_edpt_release_def Let_def split: prod.splits)

lemma usb_ok_arm [simp]: "usb_ok st \<Longrightarrow> usb_ok (arm_bulk_out bus st)"
  by (rule usb_ok_same_rx [OF _ same_rx_arm])

subsection \<open>Receiving keeps the invariant\<close>

lemma usb_ok_reset_asm: "usb_ok st \<Longrightarrow> \<not> rx_pending st \<Longrightarrow> usb_ok (reset_rx_assembly st)"
  using rx_inv_reset [of "rx_asm st"]
  by (auto simp: usb_ok_def reset_rx_assembly_def ccid_usb_rx_assembly_reset_def)


text \<open>
  One received packet, when a reception is armed: the handler does not fault, and the
  invariant holds again.
\<close>

lemma queue_rx_packet_ok:
  assumes ok: "usb_ok st" and np: "\<not> rx_pending st" and n: "n \<le> 64"
  obtains b st' where "queue_rx_packet st n = Some (b, st')"
    and "usb_ok (st'\<lparr>bulk_out_busy := False\<rparr>)" and "ep_bulk_out st' = ep_bulk_out st"
proof -
  obtain h where inv: "rx_inv h (rx_asm st)" using ok np by (auto simp: usb_ok_def)
  have buf: "length (ep_bulk_out_buf st) = 64" using ok by (simp add: usb_ok_def)
  define p where "p = take n (ep_bulk_out_buf st)"
  have lp: "length p = n" "length p \<le> 64" using n buf by (simp_all add: p_def)
  have same: "ccid_usb_rx_assembly_feed (rx_asm st) (Some (ep_bulk_out_buf st)) n 64 =
      ccid_usb_rx_assembly_feed (rx_asm st) (Some p) (length p) 64"
    using n buf by (auto simp: ccid_usb_rx_assembly_feed_def nero_nfc_copy_bytes_def mem_move_def
        p_def lp(1) split: option.splits)
  obtain r a where feed: "ccid_usb_rx_assembly_feed (rx_asm st) (Some p) (length p) 64 = Some (r, a)"
      and a: "feed_ok (h @ p) r a"
    using feed_step [OF inv _ lp(2)] by auto
  have base: "length (ep_bulk_out_buf st) = 64" "length (bulk_in_work st) = 64"
    "sum_list (map held (bus_log st)) = 0" using ok by (simp_all add: usb_ok_def)
  show thesis
  proof (cases "r = RX_READY")
    case True
    then have a: "length (rx_data a) = 2060" "10 \<le> rx_len a" "rx_len a \<le> 2060"
      using a by (simp_all add: feed_ok_def)
    define st' where "st' = st\<lparr>rx_asm := a, rx_store_len := rx_len a, rx_pending := True,
        dbg_queue_ok := dbg_queue_ok st + 1, dbg_last_seq := rx_data a ! 6\<rparr>"
    have "queue_rx_packet st n = Some (True, st')"
      using True feed same n a np
      by (simp add: queue_rx_packet_def queue_rx_def st'_def Let_def split: prod.splits)
    moreover have "usb_ok (st'\<lparr>bulk_out_busy := False\<rparr>)"
      using base a by (simp add: usb_ok_def st'_def)
    ultimately show thesis using that by (simp add: st'_def)
  next
    case False
    then have q: "queue_rx_packet st n = Some (False, st\<lparr>rx_asm := a\<rparr>)"
      using feed same n by (simp add: queue_rx_packet_def Let_def)
    have "\<exists>h. rx_inv h a" using a False by (cases r) (auto simp: feed_ok_def)
    then have "usb_ok (st\<lparr>rx_asm := a, bulk_out_busy := False\<rparr>)"
      using base np by (auto simp: usb_ok_def rx_inv_def)
    with that [OF q] show thesis by simp
  qed
qed

lemma xfer_cb_ok:
  assumes ok: "usb_ok st" and busy: "bulk_out_busy st" and "length data = 64" and "n \<le> 64"
  obtains b st' where "nero_ccidd_xfer_cb bus (st\<lparr>ep_bulk_out_buf := data\<rparr>) (ep_bulk_out st) success n =
      Some (b, st')"
    and "usb_ok st'"
proof -
  define st1 where "st1 = st\<lparr>ep_bulk_out_buf := data\<rparr>"
  have np: "\<not> rx_pending st" using ok busy by (auto simp: usb_ok_def)
  then have ok1: "usb_ok st1" "\<not> rx_pending st1" using ok assms(3) by (simp_all add: usb_ok_def st1_def)
  obtain st2 where st2: "(if success then map_option snd (queue_rx_packet st1 n) else Some st1) = Some st2"
      and ok2: "usb_ok (st2\<lparr>bulk_out_busy := False\<rparr>)" and "ep_bulk_out st2 = ep_bulk_out st1"
  proof (cases success)
    case True
    then show thesis using that queue_rx_packet_ok [OF ok1 assms(4)] by (metis option.simps(9) snd_conv)
  next
    case False
    have "usb_ok (st1\<lparr>bulk_out_busy := False\<rparr>)" using ok1 by (simp add: usb_ok_def)
    with False that show thesis by simp
  qed
  have eo: "ep_bulk_out st1 = ep_bulk_out st" by (simp add: st1_def)
  define st3 where "st3 = st2\<lparr>bulk_out_busy := False, dbg_xfer_out := dbg_xfer_out st2 + 1\<rparr>"
  have "usb_ok st3" using ok2 by (simp add: usb_ok_def st3_def split: if_splits)
  moreover have "nero_ccidd_xfer_cb bus st1 (ep_bulk_out st) success n = Some (True, arm_bulk_out bus st3)"
    using st2 eo by (cases success) (auto simp: nero_ccidd_xfer_cb_def st3_def Let_def)
  ultimately show thesis using that by (simp add: st1_def)
qed

lemma reset_ok: "usb_ok st \<Longrightarrow> usb_ok (nero_ccidd_reset st)"
  using rx_inv_reset [of "rx_asm st"]
  by (auto simp: usb_ok_def nero_ccidd_reset_def reset_rx_assembly_def ccid_usb_rx_assembly_reset_def)

lemma open_ok:
  assumes "usb_ok st"
  shows "usb_ok (snd (nero_ccidd_open_finish bus (st\<lparr>ep_bulk_out := eo, ep_bulk_in := ei,
      ep_interrupt := ek, interface_number := ifn\<rparr>)))"
proof -
  define st1 where "st1 = st\<lparr>ep_bulk_out := eo, ep_bulk_in := ei, ep_interrupt := ek,
       interface_number := ifn\<rparr>"
  have ok1: "usb_ok st1" by (rule usb_ok_same_rx [OF assms]) (simp add: same_rx_def st1_def)
  then have "usb_ok (arm_bulk_out bus (st1\<lparr>dbg_open_state := 2, bulk_out_busy := False\<rparr>))"
    by (intro usb_ok_arm; cases "rx_pending st1") (simp_all add: usb_ok_def)
  with ok1 show ?thesis unfolding st1_def [symmetric]
    by (auto simp: nero_ccidd_open_finish_def Let_def)
qed

lemma control_same_rx: "same_rx st (snd (nero_ccidd_control_xfer_cb ready st stg rt rq v i l sok))"
  by (auto simp: nero_ccidd_control_xfer_cb_def same_rx_def split: prod.splits bool.splits)

subsection \<open>What a transmission does\<close>

text \<open>The data handed to IN endpoints.\<close>

fun payloads :: "usb_event list \<Rightarrow> bytes list" where
  "payloads [] = []"
| "payloads (Transfer ep (Some p) # es) = p # payloads es"
| "payloads (e # es) = payloads es"

text \<open>The bulk-IN address after a callback and after a stretch of events.\<close>

fun endpoint_after :: "usb_event \<Rightarrow> u8 \<Rightarrow> u8" where
  "endpoint_after (Callback Bus_Reset) ep = 0"
| "endpoint_after (Callback (Endpoints_Opened ifn ek ei eo)) ep = ei"
| "endpoint_after _ ep = ep"

text \<open>Every transmission goes to the endpoint that is the bulk-IN endpoint at that moment.\<close>

fun on_endpoint :: "u8 \<Rightarrow> usb_event list \<Rightarrow> bool" where
  "on_endpoint ep [] = True"
| "on_endpoint ep (Transfer e (Some p) # es) = (e = ep \<and> on_endpoint ep es)"
| "on_endpoint ep (e # es) = on_endpoint (endpoint_after e ep) es"

lemma payloads_append [simp]: "payloads (xs @ ys) = payloads xs @ payloads ys"
  by (induction xs rule: payloads.induct) simp_all

lemma on_endpoint_append [simp]:
  "on_endpoint ep (xs @ ys) = (on_endpoint ep xs \<and> on_endpoint (fold endpoint_after xs ep) ys)"
  by (induction ep xs rule: on_endpoint.induct) simp_all

text \<open>Events of the driver's own making that transmit nothing.\<close>

definition silent :: "usb_event list \<Rightarrow> bool" where
  "silent es \<longleftrightarrow> (\<forall>e \<in> set es. case e of Callback c \<Rightarrow> False | Transfer ep p \<Rightarrow> p = None | _ \<Rightarrow> True)"

lemma silentD:
  "silent es \<Longrightarrow> payloads es = [] \<and> on_endpoint ep es \<and> fold endpoint_after es ep = ep \<and> Callback c \<notin> set es"
  by (induction ep es rule: on_endpoint.induct) (auto simp: silent_def)

text \<open>
  A stretch of sending that hands over \<open>ds\<close>: the invariant holds, every transmission went to
  the bulk-IN endpoint of its moment, and unless the bus was reset a queued frame is untouched.
\<close>

definition sends :: "usb_port \<Rightarrow> bytes list \<Rightarrow> usb_port \<Rightarrow> bool" where
  "sends st ds st' \<longleftrightarrow> usb_ok st' \<and> (\<exists>es. bus_log st' = bus_log st @ es \<and> payloads es = ds \<and>
     on_endpoint (ep_bulk_in st) es \<and> ep_bulk_in st' = fold endpoint_after es (ep_bulk_in st) \<and>
     (Callback Bus_Reset \<notin> set es \<and> rx_pending st \<longrightarrow>
        rx_pending st' \<and> rx_asm st' = rx_asm st \<and> rx_store_len st' = rx_store_len st))"

lemma sendsI:
  assumes "usb_ok st'" and "bus_log st' = bus_log st @ es" and "payloads es = ds"
    and "on_endpoint (ep_bulk_in st) es" and "ep_bulk_in st' = fold endpoint_after es (ep_bulk_in st)"
    and "Callback Bus_Reset \<notin> set es \<Longrightarrow> rx_pending st \<Longrightarrow>
      rx_pending st' \<and> rx_asm st' = rx_asm st \<and> rx_store_len st' = rx_store_len st"
  shows "sends st ds st'"
  unfolding sends_def using assms by blast

lemma sends_refl: "usb_ok st \<Longrightarrow> sends st [] st"
  by (rule sendsI [where es = "[]"]) simp_all

lemma sends_ok: "sends st ds st' \<Longrightarrow> usb_ok st'"
  by (simp add: sends_def)

lemma sends_trans:
  assumes "sends st ds st'" and "sends st' es st''"
  shows "sends st (ds @ es) st''"
proof -
  obtain xs where x: "bus_log st' = bus_log st @ xs" "payloads xs = ds" "on_endpoint (ep_bulk_in st) xs"
      "ep_bulk_in st' = fold endpoint_after xs (ep_bulk_in st)"
      "Callback Bus_Reset \<notin> set xs \<and> rx_pending st \<longrightarrow>
        rx_pending st' \<and> rx_asm st' = rx_asm st \<and> rx_store_len st' = rx_store_len st"
    using assms(1) unfolding sends_def by blast
  obtain ys where y: "bus_log st'' = bus_log st' @ ys" "payloads ys = es" "on_endpoint (ep_bulk_in st') ys"
      "ep_bulk_in st'' = fold endpoint_after ys (ep_bulk_in st')" "usb_ok st''"
      "Callback Bus_Reset \<notin> set ys \<and> rx_pending st' \<longrightarrow>
        rx_pending st'' \<and> rx_asm st'' = rx_asm st' \<and> rx_store_len st'' = rx_store_len st'"
    using assms(2) unfolding sends_def by blast
  from x y show ?thesis by (intro sendsI [where es = "xs @ ys"]) simp_all
qed

lemma sends_trans0: "sends st [] st' \<Longrightarrow> sends st' es st'' \<Longrightarrow> sends st es st''"
  using sends_trans [of st "[]"] by simp

lemma usb_ok_counters [simp]:
  "usb_ok (st\<lparr>dbg_send_fail := x\<rparr>) = usb_ok st" "usb_ok (st\<lparr>dbg_send_ok := x\<rparr>) = usb_ok st"
  "usb_ok (st\<lparr>busy_n := n\<rparr>) = usb_ok st" "usb_ok (st\<lparr>millis_n := n\<rparr>) = usb_ok st"
  "usb_ok (st\<lparr>task_n := n\<rparr>) = usb_ok st" "usb_ok (st\<lparr>claim_n := n\<rparr>) = usb_ok st"
  unfolding usb_ok_def by simp_all

lemma sends_fields [simp]:
  "sends st ds (st'\<lparr>dbg_send_fail := x\<rparr>) = sends st ds st'"
  "sends st ds (st'\<lparr>dbg_send_ok := x\<rparr>) = sends st ds st'"
  "sends st ds (st'\<lparr>busy_n := n\<rparr>) = sends st ds st'"
  "sends st ds (st'\<lparr>millis_n := n\<rparr>) = sends st ds st'"
  "sends st ds (st'\<lparr>task_n := n\<rparr>) = sends st ds st'"
  "sends st ds (st'\<lparr>claim_n := n\<rparr>) = sends st ds st'"
  by (simp_all add: sends_def)

lemma sends_work: "sends st ds st' \<Longrightarrow> length (bulk_in_work st') = 64"
  by (simp add: sends_def usb_ok_def)

lemma sends_millis: "usb_ok st \<Longrightarrow> sends st [] (snd (reader_hal_millis bus st))"
  by (simp add: reader_hal_millis_def sends_refl)

text \<open>Callbacks transmit nothing and do not read the clock.\<close>

lemma arm_silent:
  "\<exists>es. bus_log (arm_bulk_out bus st) = bus_log st @ es \<and> silent es"
  "ep_bulk_in (arm_bulk_out bus st) = ep_bulk_in st" "millis_n (arm_bulk_out bus st) = millis_n st"
  by (auto simp: arm_bulk_out_def usbd_edpt_claim_def ccid_edpt_xfer_def usbd_edpt_release_def Let_def silent_def)

lemma queue_rx_packet_fields:
  "queue_rx_packet st n = Some (b, st') \<Longrightarrow>
    bus_log st' = bus_log st \<and> ep_bulk_in st' = ep_bulk_in st \<and> millis_n st' = millis_n st"
  by (auto simp: queue_rx_packet_def queue_rx_def reset_rx_assembly_def Let_def
      split: if_splits bind_splits)

lemma xfer_cb_silent:
  assumes "nero_ccidd_xfer_cb bus st ep success n = Some (b, st')"
  shows "(\<exists>es. bus_log st' = bus_log st @ es \<and> silent es) \<and> ep_bulk_in st' = ep_bulk_in st \<and>
    millis_n st' = millis_n st"
proof (cases "ep = ep_bulk_out st")
  case True
  then obtain st1 where st1: "(if success then map_option snd (queue_rx_packet st n) else Some st) = Some st1"
      and st': "st' = arm_bulk_out bus (st1\<lparr>bulk_out_busy := False, dbg_xfer_out := dbg_xfer_out st1 + 1\<rparr>)"
    using assms by (auto simp: nero_ccidd_xfer_cb_def Let_def split: bind_splits)
  then have "bus_log st1 = bus_log st \<and> ep_bulk_in st1 = ep_bulk_in st \<and> millis_n st1 = millis_n st"
    by (cases success) (auto dest: queue_rx_packet_fields)
  with arm_silent [of bus "st1\<lparr>bulk_out_busy := False, dbg_xfer_out := dbg_xfer_out st1 + 1\<rparr>"] st'
  show ?thesis by simp
next
  case False
  with assms have "st' = st" by (simp add: nero_ccidd_xfer_cb_def)
  then show ?thesis by (simp add: silent_def)
qed

lemma open_silent:
  fixes bus st ei eo ek ifn
  defines "st' \<equiv> snd (nero_ccidd_open_finish bus (st\<lparr>ep_bulk_out := eo, ep_bulk_in := ei,
      ep_interrupt := ek, interface_number := ifn\<rparr>))"
  shows "(\<exists>es. bus_log st' = bus_log st @ es \<and> silent es) \<and> ep_bulk_in st' = ei \<and> millis_n st' = millis_n st"
    and "rx_pending st' = rx_pending st" and "rx_asm st' = rx_asm st" and "rx_store_len st' = rx_store_len st"
proof -
  define st1 where "st1 = st\<lparr>ep_bulk_out := eo, ep_bulk_in := ei, ep_interrupt := ek,
      interface_number := ifn, dbg_open_state := 2, bulk_out_busy := False\<rparr>"
  have f: "bus_log st1 = bus_log st" "ep_bulk_in st1 = ei" "millis_n st1 = millis_n st"
      "rx_pending st1 = rx_pending st" "rx_asm st1 = rx_asm st" "rx_store_len st1 = rx_store_len st"
    by (simp_all add: st1_def)
  show "(\<exists>es. bus_log st' = bus_log st @ es \<and> silent es) \<and> ep_bulk_in st' = ei \<and> millis_n st' = millis_n st"
    using arm_silent [of bus st1, unfolded f] unfolding st1_def
    by (simp add: st'_def nero_ccidd_open_finish_def Let_def) (simp add: silent_def)
  show "rx_pending st' = rx_pending st" "rx_asm st' = rx_asm st" "rx_store_len st' = rx_store_len st"
    using same_rx_arm [of st1 bus, unfolded same_rx_def f] unfolding st1_def
    by (simp_all add: st'_def nero_ccidd_open_finish_def Let_def)
qed

lemma callback_sends:
  assumes "usb_ok st" and "callback_possible c st"
  shows "\<exists>st'. driver_callback bus c (st\<lparr>bus_log := bus_log st @ [Callback c]\<rparr>) = Some st' \<and>
    sends st [] st' \<and> millis_n st' = millis_n st"
proof -
  define st1 where "st1 = st\<lparr>bus_log := bus_log st @ [Callback c]\<rparr>"
  have st1: "bus_log st1 = bus_log st @ [Callback c]" "ep_bulk_in st1 = ep_bulk_in st" "millis_n st1 = millis_n st"
      "rx_pending st1 = rx_pending st" "rx_asm st1 = rx_asm st" "rx_store_len st1 = rx_store_len st"
      "ep_bulk_out st1 = ep_bulk_out st" "bulk_out_busy st1 = bulk_out_busy st"
    by (simp_all add: st1_def)
  have ok1: "usb_ok st1" unfolding st1_def
    by (rule usb_ok_same_rx [OF assms(1)]) (simp add: same_rx_def)
  have intro: "sends st [] st'" if "usb_ok st'" "bus_log st' = bus_log st1 @ es" "silent es"
      "ep_bulk_in st' = endpoint_after (Callback c) (ep_bulk_in st)"
      "c \<noteq> Bus_Reset \<Longrightarrow> rx_pending st \<Longrightarrow>
        rx_pending st' \<and> rx_asm st' = rx_asm st \<and> rx_store_len st' = rx_store_len st" for st' es
    using that silentD [OF that(3)] st1(1) by (intro sendsI [where es = "Callback c # es"]) simp_all
  show ?thesis unfolding st1_def [symmetric]
  proof (cases c)
    case Bus_Reset
    have f: "bus_log (nero_ccidd_reset st1) = bus_log st1 @ []" "silent []" "ep_bulk_in (nero_ccidd_reset st1) = 0"
        "millis_n (nero_ccidd_reset st1) = millis_n st1"
      by (simp_all add: nero_ccidd_reset_def reset_rx_assembly_def silent_def)
    show "\<exists>st'. driver_callback bus c st1 = Some st' \<and> sends st [] st' \<and> millis_n st' = millis_n st"
      using intro [OF reset_ok [OF ok1] f(1,2)] f(3,4) st1(3) Bus_Reset by simp
  next
    case (Endpoints_Opened ifn ek ei eo)
    define st2 where "st2 = snd (nero_ccidd_open_finish bus (st1\<lparr>ep_bulk_out := eo, ep_bulk_in := ei,
      ep_interrupt := ek, interface_number := ifn\<rparr>))"
    note f = open_silent [where bus = bus and st = st1 and eo = eo and ei = ei and ek = ek and ifn = ifn, folded st2_def]
    obtain es where "bus_log st2 = bus_log st1 @ es" "silent es" using f(1) by blast
    from intro [OF open_ok [OF ok1, where bus = bus and eo = eo and ei = ei and ek = ek and ifn = ifn, folded st2_def] this] f st1
    show "\<exists>st'. driver_callback bus c st1 = Some st' \<and> sends st [] st' \<and> millis_n st' = millis_n st"
      by (simp add: Endpoints_Opened st2_def [symmetric])
  next
    case (Bulk_Out_Done data n success)
    then have p: "bulk_out_busy st1" "length data = 64" "n \<le> 64" using assms(2) st1 by simp_all
    have np: "\<not> rx_pending st" using assms(1) p(1) st1 by (auto simp: usb_ok_def)
    obtain b st2 where cb: "nero_ccidd_xfer_cb bus (st1\<lparr>ep_bulk_out_buf := data\<rparr>) (ep_bulk_out st1) success n = Some (b, st2)"
        and ok2: "usb_ok st2"
      using xfer_cb_ok [OF ok1 p] by blast
    from xfer_cb_silent [OF cb] obtain es where f: "bus_log st2 = bus_log st1 @ es" "silent es"
        "ep_bulk_in st2 = ep_bulk_in st1" "millis_n st2 = millis_n st1" by auto
    show "\<exists>st'. driver_callback bus c st1 = Some st' \<and> sends st [] st' \<and> millis_n st' = millis_n st"
      using intro [OF ok2 f(1,2)] f(3,4) cb np st1 Bulk_Out_Done by simp
  next
    case (Other_Done ep n success)
    then have cb: "nero_ccidd_xfer_cb bus st1 ep success n = Some (ep = ep_interrupt st1, st1)"
      using assms(2) st1 by (simp add: nero_ccidd_xfer_cb_def)
    have f: "bus_log st1 = bus_log st1 @ []" "silent []" by (simp_all add: silent_def)
    show "\<exists>st'. driver_callback bus c st1 = Some st' \<and> sends st [] st' \<and> millis_n st' = millis_n st"
      using intro [OF ok1 f] cb st1 Other_Done by simp
  next
    case (Control_Request ready stg rt rq v i l sok)
    define st2 where "st2 = snd (nero_ccidd_control_xfer_cb ready st1 stg rt rq v i l sok)"
    have ok2: "usb_ok st2" unfolding st2_def by (rule usb_ok_same_rx [OF ok1 control_same_rx])
    have f: "bus_log st2 = bus_log st1 @ []" "silent []" "ep_bulk_in st2 = ep_bulk_in st1" "millis_n st2 = millis_n st1"
        "rx_pending st2 = rx_pending st1" "rx_asm st2 = rx_asm st1" "rx_store_len st2 = rx_store_len st1"
      by (auto simp: st2_def nero_ccidd_control_xfer_cb_def silent_def split: prod.splits bool.splits)
    show "\<exists>st'. driver_callback bus c st1 = Some st' \<and> sends st [] st' \<and> millis_n st' = millis_n st"
      using intro [OF ok2 f(1,2)] f st1 by (simp add: Control_Request st2_def [symmetric])
  qed
qed

lemma run_callbacks_sends:
  "usb_ok st \<Longrightarrow> \<exists>st'. run_callbacks bus cs st = Some st' \<and> sends st [] st' \<and> millis_n st' = millis_n st"
proof (induction cs arbitrary: st)
  case Nil
  then show ?case by (simp add: sends_refl)
next
  case (Cons c cs)
  show ?case
  proof (cases "callback_possible c st")
    case True
    then obtain st1 where st1: "driver_callback bus c (st\<lparr>bus_log := bus_log st @ [Callback c]\<rparr>) = Some st1"
        "sends st [] st1" "millis_n st1 = millis_n st"
      using callback_sends [OF Cons.prems] by blast
    obtain st2 where "run_callbacks bus cs st1 = Some st2" "sends st1 [] st2" "millis_n st2 = millis_n st1"
      using Cons.IH [OF sends_ok [OF st1(2)]] by blast
    with st1 True sends_trans0 [OF st1(2)] show ?thesis by simp
  next
    case False
    then show ?thesis using Cons by simp
  qed
qed

lemma service_wait_sends:
  assumes "usb_ok st"
  shows "\<exists>st'. ccid_usb_service_wait bus st = Some st' \<and> sends st [] st' \<and> millis_n st' = millis_n st"
proof -
  define st1 where "st1 = st\<lparr>task_n := task_n st + 1\<rparr>"
  have ok1: "usb_ok st1" and s1: "sends st [] st1" and m1: "millis_n st1 = millis_n st"
    using assms by (simp_all add: st1_def sends_refl)
  obtain st2 where "run_callbacks bus (bus_task bus (task_n st)) st1 = Some st2" "sends st1 [] st2"
      "millis_n st2 = millis_n st1"
    using run_callbacks_sends [OF ok1] by blast
  with sends_trans0 [OF s1] m1 show ?thesis
    unfolding ccid_usb_service_wait_def st1_def [symmetric] by simp
qed

lemma send_claim_loop_sends:
  assumes "chunk \<le> length s" and "chunk \<le> 64" and "usb_ok st"
  shows "\<exists>r st'. send_claim_loop bus (Some s) chunk deadline w st = Some (r, st') \<and>
    sends st (if r = Inr True then [take chunk s] else []) st'"
  using assms(3)
proof (induction w arbitrary: st)
  case 0
  then show ?case by (simp add: sends_refl)
next
  case (Suc w)
  define st2 where "st2 = st\<lparr>millis_n := millis_n st + 1, claim_n := claim_n st + 1\<rparr>"
  define st3 where "st3 = st2\<lparr>bulk_in_work := patch (bulk_in_work st) 0 (take chunk s),
      bus_log := bus_log st @ [Claimed (ep_bulk_in st)], xfer_n := xfer_n st + 1\<rparr>"
  define st4 where "st4 = st3\<lparr>bus_log := bus_log st3 @ [Released (ep_bulk_in st)]\<rparr>"
  define st5 where "st5 = st3\<lparr>bus_log := bus_log st3 @ [Transfer (ep_bulk_in st) (Some (take chunk s))]\<rparr>"
  have work: "length (bulk_in_work st) = 64" using Suc.prems by (simp add: usb_ok_def)
  have t: "take chunk (bulk_in_work st3) = take chunk s"
    using take_patch_snoc [of 0 "bulk_in_work st" "[]" "take chunk s"] work assms
    by (simp add: st3_def)
  have s2: "sends st [] st2" using Suc.prems by (simp add: st2_def sends_refl)
  have ok: "usb_ok st4" "usb_ok st5"
    by (rule usb_ok_same_rx [OF Suc.prems],
        use work assms in \<open>simp add: same_rx_def st2_def st3_def st4_def st5_def\<close>)+
  have s4: "sends st [] st4"
    by (rule sendsI [where es = "[Claimed (ep_bulk_in st), Released (ep_bulk_in st)]"])
      (use ok in \<open>simp_all add: st2_def st3_def st4_def\<close>)
  have s5: "sends st [take chunk s] st5"
    by (rule sendsI [where es = "[Claimed (ep_bulk_in st), Transfer (ep_bulk_in st) (Some (take chunk s))]"])
      (use ok in \<open>simp_all add: st2_def st3_def st5_def\<close>)
  have onwards: "\<exists>r st'. ccid_usb_service_wait bus x \<bind> send_claim_loop bus (Some s) chunk deadline w = Some (r, st') \<and>
      sends st (if r = Inr True then [take chunk s] else []) st'" if x: "sends st [] x" for x
  proof -
    obtain y where y: "ccid_usb_service_wait bus x = Some y" "sends x [] y"
      using service_wait_sends [OF sends_ok [OF x]] by blast
    obtain r z where z: "send_claim_loop bus (Some s) chunk deadline w y = Some (r, z)"
        "sends y (if r = Inr True then [take chunk s] else []) z"
      using Suc.IH [OF sends_ok [OF y(2)]] by blast
    from y(1) z(1) sends_trans0 [OF x sends_trans0 [OF y(2) z(2)]] show ?thesis by simp
  qed
  consider (expired) "expired (bus_millis bus (millis_n st)) deadline"
    | (unclaimed) "\<not> expired (bus_millis bus (millis_n st)) deadline" "\<not> bus_claim bus (claim_n st)"
    | (refused) "\<not> expired (bus_millis bus (millis_n st)) deadline" "bus_claim bus (claim_n st)"
        "\<not> bus_xfer bus (xfer_n st)"
    | (sent) "\<not> expired (bus_millis bus (millis_n st)) deadline" "bus_claim bus (claim_n st)"
        "bus_xfer bus (xfer_n st)" by blast
  then show ?case
  proof cases
    case expired
    then show ?thesis using Suc.prems by (simp add: reader_hal_millis_def sends_refl)
  next
    case unclaimed
    then have "send_claim_loop bus (Some s) chunk deadline (Suc w) st =
        ccid_usb_service_wait bus st2 \<bind> send_claim_loop bus (Some s) chunk deadline w"
      by (simp add: reader_hal_millis_def usbd_edpt_claim_def st2_def)
    with onwards [OF s2] show ?thesis by simp
  next
    case refused
    then have "send_claim_loop bus (Some s) chunk deadline (Suc w) st =
        ccid_usb_service_wait bus st4 \<bind> send_claim_loop bus (Some s) chunk deadline w"
      using work assms
      by (simp add: reader_hal_millis_def usbd_edpt_claim_def ccid_edpt_xfer_def usbd_edpt_release_def
          Let_def st2_def st3_def st4_def)
    with onwards [OF s4] show ?thesis by simp
  next
    case sent
    then have "send_claim_loop bus (Some s) chunk deadline (Suc w) st = Some (Inr True, st5)"
      using work assms t
      by (simp add: reader_hal_millis_def usbd_edpt_claim_def ccid_edpt_xfer_def Let_def
          st2_def st3_def st5_def)
    with s5 show ?thesis by simp
  qed
qed

text \<open>A clock that passes every deadline, sooner or later.\<close>

definition clock_runs :: "usb_bus \<Rightarrow> bool" where
  "clock_runs bus \<longleftrightarrow> (\<forall>n d. \<exists>m \<ge> n. expired (bus_millis bus m) d)"

lemma send_busy_loop_unfold:
  assumes "ccid_usb_service_wait bus (st\<lparr>busy_n := busy_n st + 1\<rparr>) = Some x"
  shows "send_busy_loop bus deadline st =
    (if \<not> bus_busy bus (busy_n st) then Some (True, st\<lparr>busy_n := busy_n st + 1\<rparr>)
     else if expired (bus_millis bus (millis_n x)) deadline
     then Some (False, x\<lparr>millis_n := millis_n x + 1, dbg_send_fail := dbg_send_fail x + 1\<rparr>)
     else send_busy_loop bus deadline (x\<lparr>millis_n := millis_n x + 1\<rparr>))"
  using assms by (subst send_busy_loop.simps) (simp add: usbd_edpt_busy_def reader_hal_millis_def)

lemma send_busy_loop_sends:
  assumes "clock_runs bus" and "usb_ok st"
  shows "\<exists>b st'. send_busy_loop bus deadline st = Some (b, st') \<and> sends st [] st'"
proof -
  obtain m where m: "m \<ge> millis_n st" "expired (bus_millis bus m) deadline"
    using assms(1) by (auto simp: clock_runs_def)
  then obtain k where "m = millis_n st + k" using le_Suc_ex by blast
  with m(2) assms(2) show ?thesis
  proof (induction k arbitrary: st)
    case (0 st)
    have s1: "sends st [] (st\<lparr>busy_n := busy_n st + 1\<rparr>)" using 0(2) by (simp add: sends_refl)
    obtain x where x: "ccid_usb_service_wait bus (st\<lparr>busy_n := busy_n st + 1\<rparr>) = Some x"
        "sends (st\<lparr>busy_n := busy_n st + 1\<rparr>) [] x" "millis_n x = millis_n st"
      using service_wait_sends [OF sends_ok [OF s1]] by auto
    show ?case
      unfolding send_busy_loop_unfold [OF x(1)] using 0 x(3) s1 sends_trans0 [OF s1 x(2)] by auto
  next
    case (Suc k st)
    have s1: "sends st [] (st\<lparr>busy_n := busy_n st + 1\<rparr>)" using Suc.prems(2) by (simp add: sends_refl)
    obtain x where x: "ccid_usb_service_wait bus (st\<lparr>busy_n := busy_n st + 1\<rparr>) = Some x"
        "sends (st\<lparr>busy_n := busy_n st + 1\<rparr>) [] x" "millis_n x = millis_n st"
      using service_wait_sends [OF sends_ok [OF s1]] by auto
    define y where "y = x\<lparr>millis_n := millis_n x + 1\<rparr>"
    have sy: "sends st [] y" using sends_trans0 [OF s1 x(2)] by (simp add: y_def)
    have "m = millis_n y + k" using Suc.prems(3) x(3) by (simp add: y_def)
    from Suc.IH [OF Suc.prems(1) sends_ok [OF sy] this]
    obtain b z where z: "send_busy_loop bus deadline y = Some (b, z)" "sends y [] z" by blast
    from z(1) show ?case
      unfolding send_busy_loop_unfold [OF x(1)] y_def [symmetric]
      using s1 sy sends_trans0 [OF sy z(2)] sends_trans0 [OF s1 x(2)] by auto
  qed
qed

lemma send_one_chunk_sends:
  assumes "clock_runs bus" and "chunk \<le> length s" and "chunk \<le> 64" and "usb_ok st"
  shows "\<exists>b ds st'. ccid_send_one_chunk bus (Some s) chunk deadline st = Some (b, st') \<and>
    sends st ds st' \<and> (ds = [take chunk s] \<or> \<not> b \<and> ds = [])"
proof -
  obtain r st1 where loop: "send_claim_loop bus (Some s) chunk deadline 63999 st = Some (r, st1)"
      and s1: "sends st (if r = Inr True then [take chunk s] else []) st1"
    using send_claim_loop_sends [OF assms(2-4)] by blast
  obtain b st2 where busy: "send_busy_loop bus deadline st1 = Some (b, st2)" and s2: "sends st1 [] st2"
    using send_busy_loop_sends [OF assms(1) sends_ok [OF s1]] by blast
  show ?thesis
  proof (cases "r = Inr True")
    case True
    then show ?thesis using loop busy sends_trans [OF s1 s2] by (auto simp: ccid_send_one_chunk_def)
  next
    case False
    then show ?thesis using loop s1
      by (cases r) (auto simp: ccid_send_one_chunk_def)
  qed
qed

lemma send_chunks_step:
  assumes "off < len"
  defines "chunk \<equiv> (if len - off \<le> 64 then len - off else 64)"
  shows "send_chunks bus buf len deadline off st =
    (let st1 = snd (reader_hal_millis bus st) in
     if expired (fst (reader_hal_millis bus st)) deadline
     then Some (False, st1\<lparr>dbg_send_fail := dbg_send_fail st1 + 1\<rparr>)
     else Option.bind (ccid_send_one_chunk bus (ptr_add buf off) chunk deadline st1)
       (\<lambda>(ok, st2). if \<not> ok then Some (False, st2)
                    else send_chunks bus buf len deadline (off + chunk) st2))"
  unfolding chunk_def by (subst send_chunks.simps) (simp only: assms(1) if_True Let_def split_beta)

lemma send_chunks_sends:
  assumes "clock_runs bus" and "len \<le> length bs" and "usb_ok st" and "off < len"
  shows "\<exists>b ds st'. send_chunks bus (Some bs) len deadline off st = Some (b, st') \<and> sends st ds st' \<and>
    prefix ds (packets 64 (drop off (take len bs))) \<and> (b \<longrightarrow> ds = packets 64 (drop off (take len bs)))"
  using assms(3,4)
proof (induction "len - off" arbitrary: off st rule: less_induct)
  case less
  define f where "f = drop off (take len bs)"
  define chunk where "chunk = (if len - off \<le> 64 then len - off else 64)"
  define st1 where "st1 = snd (reader_hal_millis bus st)"
  have lf: "length f = len - off" using assms(2) by (simp add: f_def)
  have pk: "packets 64 f = take chunk f # (if len - off \<le> 64 then [] else packets 64 (drop (off + chunk) (take len bs)))"
    by (subst packets.simps) (use lf in \<open>simp add: chunk_def f_def add.commute\<close>)
  have st1: "sends st [] st1" unfolding st1_def by (rule sends_millis [OF less.prems(1)])
  note w1 = sends_ok [OF st1]
  have tk: "take chunk (drop off bs) = take chunk f" by (auto simp: f_def chunk_def take_drop min_def)
  show ?case
  proof (cases "expired (fst (reader_hal_millis bus st)) deadline")
    case True
    then have "send_chunks bus (Some bs) len deadline off st =
        Some (False, st1\<lparr>dbg_send_fail := dbg_send_fail st1 + 1\<rparr>)"
      using less.prems(2) by (simp only: send_chunks_step Let_def if_True st1_def)
    moreover have "sends st [] (st1\<lparr>dbg_send_fail := dbg_send_fail st1 + 1\<rparr>)" using st1 by simp
    ultimately show ?thesis using Nil_prefix by blast
  next
    case False
    obtain b ds st2 where step: "ccid_send_one_chunk bus (Some (drop off bs)) chunk deadline st1 = Some (b, st2)"
        and s2: "sends st1 ds st2" and ds: "ds = [take chunk f] \<or> \<not> b \<and> ds = []"
    proof -
      have "chunk \<le> length (drop off bs)" "chunk \<le> 64"
        using assms(2) less.prems(2) by (auto simp: chunk_def)
      from send_one_chunk_sends [OF assms(1) this w1, of deadline] that tk show thesis by metis
    qed
    have unfold: "send_chunks bus (Some bs) len deadline off st =
        (if \<not> b then Some (False, st2) else send_chunks bus (Some bs) len deadline (off + chunk) st2)"
      using less.prems(2) False step
      by (simp only: send_chunks_step Let_def if_False st1_def [symmetric] chunk_def [symmetric]
          ptr_add_Some bind.bind_lunit prod.case simp_thms)
    have s12: "sends st ds st2" by (rule sends_trans0 [OF st1 s2])
    show ?thesis
    proof (cases "b \<and> \<not> len - off \<le> 64")
      case True
      then have lt: "len - (off + chunk) < len - off" "off + chunk < len" by (auto simp: chunk_def)
      from less.hyps [OF lt(1) sends_ok [OF s12] lt(2)] obtain b' es st3
        where "send_chunks bus (Some bs) len deadline (off + chunk) st2 = Some (b', st3)"
          and "sends st2 es st3" and "prefix es (packets 64 (drop (off + chunk) (take len bs)))"
          and "b' \<longrightarrow> es = packets 64 (drop (off + chunk) (take len bs))" by blast
      with True unfold ds pk sends_trans [OF s12] show ?thesis
        by (intro exI [of _ b'] exI [of _ "take chunk f # es"] exI [of _ st3])
          (auto simp: f_def [symmetric])
    next
      case False
      have "send_chunks bus (Some bs) len deadline (off + chunk) st2 = Some (True, st2)" if "len - off \<le> 64"
        using that less.prems(2) by (simp add: send_chunks.simps chunk_def)
      with False unfold have "send_chunks bus (Some bs) len deadline off st = Some (b, st2)"
        by (cases b) simp_all
      moreover have "prefix ds (packets 64 f)" using ds pk by auto
      moreover have "b \<longrightarrow> ds = packets 64 f" using False ds pk by auto
      ultimately show ?thesis using s12 unfolding f_def by blast
    qed
  qed
qed

text \<open>What a whole transmission puts on the bus.\<close>

definition usb_packets :: "bytes \<Rightarrow> bytes list" where
  "usb_packets f = packets 64 f @ (if length f mod 64 = 0 then [[]] else [])"

lemma send_sends:
  assumes "clock_runs bus" and "len \<le> length bs" and "usb_ok st"
  shows "\<exists>b ds st'. reader_hal_ccid_send bus (Some bs) len deadline_ms st = Some (b, st') \<and>
    sends st ds st' \<and> prefix ds (usb_packets (take len bs)) \<and>
    (b \<longrightarrow> 0 < len \<and> ds = usb_packets (take len bs))"
proof (cases "len = 0 \<or> ep_bulk_in st = 0")
  case True
  then have "reader_hal_ccid_send bus (Some bs) len deadline_ms st =
      Some (False, st\<lparr>dbg_send_fail := dbg_send_fail st + 1\<rparr>)"
    by (simp only: reader_hal_ccid_send_def) simp
  moreover have "sends st [] (st\<lparr>dbg_send_fail := dbg_send_fail st + 1\<rparr>)" using assms(3) by (simp add: sends_refl)
  ultimately show ?thesis using Nil_prefix by blast
next
  case False
  define st1 where "st1 = snd (reader_hal_millis bus st)"
  define dl where "dl = fst (reader_hal_millis bus st) + (if deadline_ms < 5000 then deadline_ms else 5000)"
  have s1: "sends st [] st1" unfolding st1_def by (rule sends_millis [OF assms(3)])
  note w1 = sends_ok [OF s1]
  obtain b ds st2 where loop: "send_chunks bus (Some bs) len dl 0 st1 = Some (b, st2)"
      and s2: "sends st1 ds st2" and ds: "prefix ds (packets 64 (take len bs))"
      "b \<longrightarrow> ds = packets 64 (take len bs)"
    using send_chunks_sends [OF assms(1,2) w1, of 0 dl] False by auto
  note s12 = sends_trans0 [OF s1 s2]
  obtain c es st3 where zlp: "ccid_send_one_chunk bus (Some bs) 0 dl st2 = Some (c, st3)"
      and s3: "sends st2 es st3" "es = [take 0 bs] \<or> \<not> c \<and> es = []"
    using send_one_chunk_sends [OF assms(1), of 0 bs st2 dl] sends_ok [OF s12] by auto
  have send: "reader_hal_ccid_send bus (Some bs) len deadline_ms st =
      (if \<not> b then Some (False, st2)
       else if len mod 64 = 0 then Some (if \<not> c then (False, st3)
               else (True, st3\<lparr>dbg_send_ok := dbg_send_ok st3 + 1\<rparr>))
       else Some (True, st2\<lparr>dbg_send_ok := dbg_send_ok st2 + 1\<rparr>))"
    using False loop zlp
    by (cases "reader_hal_millis bus st")
      (simp add: reader_hal_ccid_send_def ccid_usb_bulk_in_needs_zlp_def st1_def dl_def Let_def)
  have lt: "length (take len bs) = len" using assms(2) by simp
  consider (fail) "\<not> b" | (plain) "b" "len mod 64 \<noteq> 0" | (zlp) "b" "len mod 64 = 0" by blast
  then show ?thesis
  proof cases
    case fail
    then have "reader_hal_ccid_send bus (Some bs) len deadline_ms st = Some (False, st2)"
      using send by simp
    moreover have "prefix ds (usb_packets (take len bs))"
      using ds(1) by (simp add: usb_packets_def prefix_append)
    ultimately show ?thesis using s12 by blast
  next
    case plain
    then have "reader_hal_ccid_send bus (Some bs) len deadline_ms st =
        Some (True, st2\<lparr>dbg_send_ok := dbg_send_ok st2 + 1\<rparr>)" using send by simp
    moreover have "sends st ds (st2\<lparr>dbg_send_ok := dbg_send_ok st2 + 1\<rparr>)" using s12 by simp
    moreover have "ds = usb_packets (take len bs)"
      using plain ds(2) lt by (simp add: usb_packets_def)
    ultimately show ?thesis using False prefix_order.refl by (metis neq0_conv)
  next
    case z: zlp
    have d: "ds = packets 64 (take len bs)" using z ds(2) by simp
    have all: "usb_packets (take len bs) = ds @ [[]]" using z d lt by (simp add: usb_packets_def)
    show ?thesis
    proof (cases c)
      case True
      then have "reader_hal_ccid_send bus (Some bs) len deadline_ms st =
          Some (True, st3\<lparr>dbg_send_ok := dbg_send_ok st3 + 1\<rparr>)" using send z by simp
      moreover have "sends st (usb_packets (take len bs)) (st3\<lparr>dbg_send_ok := dbg_send_ok st3 + 1\<rparr>)"
        using sends_trans [OF s12 s3(1)] s3(2) True all by simp
      ultimately show ?thesis using False prefix_order.refl by (metis neq0_conv)
    next
      case False
      then have "reader_hal_ccid_send bus (Some bs) len deadline_ms st = Some (False, st3)"
        using send z by simp
      moreover have "prefix (ds @ es) (usb_packets (take len bs))" using s3(2) all by auto
      ultimately show ?thesis using sends_trans [OF s12 s3(1)] by blast
    qed
  qed
qed



subsection \<open>Steps\<close>

text \<open>
  The steps the stack and the main loop take. A packet completes only while a reception is
  armed; the hardware may leave any bytes in the 64-byte endpoint buffer. The endpoints are
  opened only when they are closed, since the stack resets the driver first.
\<close>

inductive usb_step :: "usb_bus \<Rightarrow> usb_port \<Rightarrow> usb_port \<Rightarrow> bool" for bus where
  bus_reset: "usb_step bus st (nero_ccidd_reset st)"
| open_endpoints: "ep_bulk_out st = 0 \<Longrightarrow>
    nero_ccidd_open_finish bus (st\<lparr>ep_bulk_out := eo, ep_bulk_in := ei, ep_interrupt := ek,
       interface_number := ifn\<rparr>) = (b, st') \<Longrightarrow> usb_step bus st st'"
| packet_done: "bulk_out_busy st \<Longrightarrow> length data = 64 \<Longrightarrow> n \<le> 64 \<Longrightarrow>
    nero_ccidd_xfer_cb bus (st\<lparr>ep_bulk_out_buf := data\<rparr>) (ep_bulk_out st) success n = Some (b, st') \<Longrightarrow>
    usb_step bus st st'"
| peek: "reader_hal_ccid_peek bus st = Some (b, p, n, st') \<Longrightarrow> usb_step bus st st'"
| release: "usb_step bus st (reader_hal_ccid_release bus st)"
| control: "nero_ccidd_control_xfer_cb ready st stg rt rq v i l ok = (b, st') \<Longrightarrow> usb_step bus st st'"
| send: "valid buf len \<Longrightarrow> reader_hal_ccid_send bus buf len dl st = Some (b, st') \<Longrightarrow> usb_step bus st st'"
| clear_abort: "usb_step bus st (reader_hal_ccid_clear_abort_request st slot seq)"

lemma peek_ok:
  assumes "usb_ok st"
  obtains b p n st' where "reader_hal_ccid_peek bus st = Some (b, p, n, st')" and "usb_ok st'"
    and "b \<longleftrightarrow> rx_pending st" and "rx_pending st' = rx_pending st" and "rx_asm st' = rx_asm st"
    and "b \<Longrightarrow> p = Some (rx_data (rx_asm st)) \<and> n = rx_store_len st"
proof (cases "rx_pending st")
  case True
  define st' where "st' = st\<lparr>dbg_poll_recv := dbg_poll_recv st + 1, dbg_last_seq := rx_data (rx_asm st) ! 6\<rparr>"
  have "reader_hal_ccid_peek bus st = Some (True, Some (rx_data (rx_asm st)), rx_store_len st, st')"
    using True assms by (simp add: reader_hal_ccid_peek_def usb_ok_def st'_def Let_def)
  moreover have "usb_ok st'" using assms True by (simp add: usb_ok_def st'_def)
  ultimately show thesis using that True by (simp add: st'_def)
next
  case False
  define st' where "st' = (if ep_bulk_out st \<noteq> 0 \<and> \<not> bulk_out_busy st then arm_bulk_out bus st else st)"
  have same: "same_rx st st'" using same_rx_arm [of st bus] by (auto simp: st'_def same_rx_def)
  then have "reader_hal_ccid_peek bus st = Some (False, None, 0, st')"
    using False by (simp add: reader_hal_ccid_peek_def st'_def same_rx_def)
  with same assms usb_ok_same_rx [OF assms same] False that show thesis by (simp add: same_rx_def)
qed

lemma usb_step_ok:
  assumes "usb_step bus st st'" and ok: "usb_ok st" and "clock_runs bus"
  shows "usb_ok st'"
  using assms(1)
proof cases
  case bus_reset
  then show ?thesis using reset_ok [OF ok] by simp
next
  case (open_endpoints ifn ek ei eo b)
  then show ?thesis
    using open_ok [OF ok, where bus = bus and eo = eo and ei = ei and ek = ek and ifn = ifn] by simp
next
  case (packet_done data n success b)
  then show ?thesis using xfer_cb_ok [OF ok packet_done(1-3), of bus success] by auto
next
  case (peek b p n)
  then show ?thesis using peek_ok [OF ok, of bus] by auto
next
  case release
  show ?thesis
  proof (cases "rx_pending st")
    case True
    have "usb_ok (reset_rx_assembly (st\<lparr>rx_pending := False\<rparr>))"
      using ok rx_inv_reset [of "rx_asm st"]
      by (auto simp: usb_ok_def reset_rx_assembly_def ccid_usb_rx_assembly_reset_def split: if_splits)
    with True release show ?thesis by (simp add: reader_hal_ccid_release_def Let_def)
  next
    case False
    with ok release show ?thesis by (simp add: reader_hal_ccid_release_def)
  qed
next
  case (control ready stg rt rq v i l sok b)
  then show ?thesis
    using usb_ok_same_rx [OF ok control_same_rx, of ready stg rt rq v i l sok] by simp
next
  case (send buf len dl b)
  obtain bs where "buf = Some bs" "len \<le> length bs" using send(1) by (rule validE)
  with send_sends [OF assms(3) _ ok, of len bs dl] send(2) show ?thesis by (auto simp: sends_def)
next
  case (clear_abort slot seq)
  then have "same_rx st st'" by (simp add: reader_hal_ccid_clear_abort_request_def same_rx_def)
  then show ?thesis by (rule usb_ok_same_rx [OF ok])
qed

lemma usb_reachable_ok: "(usb_step bus)\<^sup>*\<^sup>* usb_boot st \<Longrightarrow> clock_runs bus \<Longrightarrow> usb_ok st"
  by (induction rule: rtranclp_induct) (auto intro: usb_ok_boot usb_step_ok)


text \<open>A device stack that always accepts, with a clock that ticks on every reading.\<close>

definition ticking_bus :: usb_bus where
  "ticking_bus = \<lparr>bus_claim = \<lambda>_. True, bus_xfer = \<lambda>_. True, bus_busy = \<lambda>_. False,
                  bus_millis = word_of_nat, bus_task = \<lambda>_. []\<rparr>"

lemma clock_runs_ticking: "clock_runs ticking_bus"
  unfolding clock_runs_def
proof (intro allI)
  fix n :: nat and d :: "32 word"
  define m where "m = unat (d + 1) + 2 ^ 32 * n"
  have "(2 :: 32 word) ^ 32 = 0" by simp
  then have "(word_of_nat m :: 32 word) = d + 1"
    by (simp only: m_def of_nat_add of_nat_mult of_nat_power of_nat_numeral of_nat_unat ucast_id
        mult_zero_left add_0_right)
  then have "expired (bus_millis ticking_bus m) d" by (simp add: expired_def ticking_bus_def)
  moreover have "n \<le> m" by (simp add: m_def)
  ultimately show "\<exists>m \<ge> n. expired (bus_millis ticking_bus m) d" by blast
qed

text \<open>
  C34: in every state the driver reaches, whatever packets, control requests and bus resets
  arrive, the packet handler runs without a memory fault, a queued frame has at least a full
  header and at most 2060 bytes while no reception is armed, and every endpoint claim has been
  released or used.
\<close>

theorem usb_port_safe:
  assumes "(usb_step bus)\<^sup>*\<^sup>* usb_boot st" and "clock_runs bus"
  shows "(bulk_out_busy st \<and> length data = 64 \<and> n \<le> 64 \<longrightarrow>
      nero_ccidd_xfer_cb bus (st\<lparr>ep_bulk_out_buf := data\<rparr>) (ep_bulk_out st) success n \<noteq> None) \<and>
    (rx_pending st \<longrightarrow> \<not> bulk_out_busy st \<and> 10 \<le> rx_store_len st \<and> rx_store_len st \<le> 2060 \<and>
      rx_store_len st = rx_len (rx_asm st)) \<and>
    sum_list (map held (bus_log st)) = 0"
proof -
  have ok: "usb_ok st" using assms by (rule usb_reachable_ok)
  have "bulk_out_busy st \<and> length data = 64 \<and> n \<le> 64 \<longrightarrow>
      nero_ccidd_xfer_cb bus (st\<lparr>ep_bulk_out_buf := data\<rparr>) (ep_bulk_out st) success n \<noteq> None"
    using xfer_cb_ok [OF ok, of data n bus success] by (metis option.discI)
  moreover have "rx_pending st \<longrightarrow> \<not> bulk_out_busy st \<and> 10 \<le> rx_store_len st \<and>
      rx_store_len st \<le> 2060 \<and> rx_store_len st = rx_len (rx_asm st)"
    using ok by (cases "rx_pending st") (simp_all add: usb_ok_def)
  moreover have "sum_list (map held (bus_log st)) = 0" using ok by (simp add: usb_ok_def)
  ultimately show ?thesis by blast
qed

theorem usb_port_safe_witness:
  "let st = snd (nero_ccidd_open_finish ticking_bus
       (usb_boot\<lparr>ep_bulk_out := 2, ep_bulk_in := 0x82, ep_interrupt := 0x81, interface_number := 0\<rparr>))
   in bulk_out_busy st \<and>
      nero_ccidd_xfer_cb ticking_bus (st\<lparr>ep_bulk_out_buf := replicate 64 0x65\<rparr>) (ep_bulk_out st) True 10 \<noteq> None"
proof -
  define st where "st = snd (nero_ccidd_open_finish ticking_bus
      (usb_boot\<lparr>ep_bulk_out := 2, ep_bulk_in := 0x82, ep_interrupt := 0x81, interface_number := 0\<rparr>))"
  have "usb_step ticking_bus usb_boot st"
    by (rule usb_step.open_endpoints [where eo = 2 and ei = "0x82" and ek = "0x81" and ifn = 0 and b = True])
      (simp_all add: st_def usb_boot_def nero_ccidd_open_finish_def Let_def)
  then have reach: "(usb_step ticking_bus)\<^sup>*\<^sup>* usb_boot st" by blast
  have busy: "bulk_out_busy st"
    by (simp add: st_def nero_ccidd_open_finish_def arm_bulk_out_def usbd_edpt_claim_def
        ccid_edpt_xfer_def usb_boot_def ticking_bus_def)
  from usb_port_safe [OF reach clock_runs_ticking, of "replicate 64 0x65" 10 True] busy
  show ?thesis by (simp add: Let_def st_def)
qed

text \<open>
  A queued frame is stable: no step of the driver changes its bytes or its length while it
  stays queued, so that what the main loop peeks is what was received. The exception is a
  transmission during which the bus is reset: the reset drops the frame, and another may have
  been queued when the transmission returns.
\<close>

theorem pending_frame_stable:
  assumes "(usb_step bus)\<^sup>*\<^sup>* usb_boot st" and "clock_runs bus"
    and "usb_step bus st st'" and "rx_pending st" and "rx_pending st'"
    and "Callback Bus_Reset \<notin> set (drop (length (bus_log st)) (bus_log st'))"
  shows "rx_data (rx_asm st') = rx_data (rx_asm st) \<and> rx_store_len st' = rx_store_len st"
proof -
  have ok: "usb_ok st" using assms(1,2) by (rule usb_reachable_ok)
  from assms(3) show ?thesis
  proof cases
    case bus_reset
    then show ?thesis using assms(5) by (simp add: nero_ccidd_reset_def reset_rx_assembly_def)
  next
    case (open_endpoints ifn ek ei eo b)
    define st1 where "st1 = st\<lparr>ep_bulk_out := eo, ep_bulk_in := ei, ep_interrupt := ek,
       interface_number := ifn\<rparr>"
    have st1: "rx_asm st1 = rx_asm st" "rx_store_len st1 = rx_store_len st" by (simp_all add: st1_def)
    have "nero_ccidd_open_finish bus st1 = (b, st')" using open_endpoints(2) by (simp only: st1_def)
    then show ?thesis
      using st1 same_rx_arm [of "st1\<lparr>dbg_open_state := 2, bulk_out_busy := False\<rparr>" bus]
      by (auto simp: nero_ccidd_open_finish_def Let_def same_rx_def split: if_splits)
  next
    case (packet_done data n success b)
    then show ?thesis using ok assms(4) by (simp add: usb_ok_def)
  next
    case (peek b p n)
    then show ?thesis using assms(4)
      by (auto simp: reader_hal_ccid_peek_def Let_def split: if_splits bind_splits)
  next
    case release
    then show ?thesis using assms(4,5) same_rx_arm [of "reset_rx_assembly (st\<lparr>rx_pending := False\<rparr>)" bus]
      by (auto simp: reader_hal_ccid_release_def Let_def same_rx_def reset_rx_assembly_def split: if_splits)
  next
    case (control ready stg rt rq v i l sok b)
    then show ?thesis
      by (auto simp: nero_ccidd_control_xfer_cb_def split: if_splits prod.splits bool.splits)
  next
    case (send buf len dl b)
    obtain bs where "buf = Some bs" "len \<le> length bs" using send(1) by (rule validE)
    with send_sends [OF assms(2) _ ok, of len bs dl] send(2) assms(4,6) show ?thesis
      by (auto simp: sends_def)
  next
    case (clear_abort slot seq)
    then show ?thesis by (simp add: reader_hal_ccid_clear_abort_request_def)
  qed
qed

theorem pending_frame_stable_witness:
  "\<exists>st st'. (usb_step ticking_bus)\<^sup>*\<^sup>* usb_boot st \<and> rx_pending st \<and> usb_step ticking_bus st st' \<and>
     rx_data (rx_asm st') = rx_data (rx_asm st) \<and> rx_store_len st' = 10"
proof -
  define st1 where "st1 = snd (nero_ccidd_open_finish ticking_bus
      (usb_boot\<lparr>ep_bulk_out := 2, ep_bulk_in := 0x82, ep_interrupt := 0x81, interface_number := 0\<rparr>))"
  define data where "data = (0x65 :: u8) # replicate 63 0"
  have "usb_step ticking_bus usb_boot st1"
    by (rule usb_step.open_endpoints [where eo = 2 and ei = "0x82" and ek = "0x81" and ifn = 0 and b = True])
      (simp_all add: st1_def usb_boot_def nero_ccidd_open_finish_def Let_def)
  then have reach1: "(usb_step ticking_bus)\<^sup>*\<^sup>* usb_boot st1" by blast
  have st1: "bulk_out_busy st1" "rx_asm st1 = rx_initial" "\<not> rx_pending st1" "ep_bulk_out st1 = 2"
    by (simp_all add: st1_def nero_ccidd_open_finish_def arm_bulk_out_def usbd_edpt_claim_def
        ccid_edpt_xfer_def usb_boot_def ticking_bus_def)
  have d: "length data = 64" by (simp add: data_def)
  have "(10 :: nat) \<le> 64" by simp
  from xfer_cb_ok [OF usb_reachable_ok [OF reach1 clock_runs_ticking] st1(1) d this, of ticking_bus True]
  obtain b st2 where cb: "nero_ccidd_xfer_cb ticking_bus (st1\<lparr>ep_bulk_out_buf := data\<rparr>) (ep_bulk_out st1) True 10 =
      Some (b, st2)" by blast
  have "usb_step ticking_bus st1 st2"
    by (rule usb_step.packet_done [OF st1(1) d _ cb]) simp
  with reach1 have reach2: "(usb_step ticking_bus)\<^sup>*\<^sup>* usb_boot st2" by simp
  define a where "a = rx_initial\<lparr>rx_data := patch (replicate 2060 0) 0 (take 10 data), rx_len := 10,
      rx_expected := 10\<rparr>"
  have p: "take 10 data = 0x65 # replicate 9 0" by (simp add: data_def eval_nat_numeral)
  have f: "frame_data_len (patch (replicate 2060 0) 0 (take 10 data)) = 0"
    by (simp add: frame_data_len_def nth_patch p be32_eq)
  have "ccid_usb_rx_assembly_feed rx_initial (Some data) 10 64 = Some (RX_READY, a)"
    using f d
    by (simp add: ccid_usb_rx_assembly_feed_def feed_header_eq feed_decide_def a_def rx_initial_def)
  with cb st1 have pend: "rx_pending st2" "rx_store_len st2 = 10"
    by (auto simp: nero_ccidd_xfer_cb_def queue_rx_packet_def queue_rx_def a_def rx_initial_def
        arm_bulk_out_def Let_def)
  define st3 where "st3 = reader_hal_ccid_clear_abort_request st2 0 0"
  have step: "usb_step ticking_bus st2 st3" unfolding st3_def by (rule usb_step.clear_abort)
  have "rx_pending st3" using pend by (simp add: st3_def reader_hal_ccid_clear_abort_request_def)
  moreover have "Callback Bus_Reset \<notin> set (drop (length (bus_log st2)) (bus_log st3))"
    by (simp add: st3_def reader_hal_ccid_clear_abort_request_def)
  ultimately have "rx_data (rx_asm st3) = rx_data (rx_asm st2) \<and> rx_store_len st3 = rx_store_len st2"
    by (rule pending_frame_stable [OF reach2 clock_runs_ticking step pend(1)])
  with reach2 pend step show ?thesis by auto
qed

text \<open>Callbacks that change the bulk-IN address.\<close>

fun readdresses :: "usb_event \<Rightarrow> bool" where
  "readdresses (Callback Bus_Reset) = True"
| "readdresses (Callback (Endpoints_Opened ifn ek ei eo)) = True"
| "readdresses e = False"

lemma on_endpoint_fixed:
  "on_endpoint ep es \<Longrightarrow> \<forall>e \<in> set es. \<not> readdresses e \<Longrightarrow> Transfer ep' (Some p) \<in> set es \<Longrightarrow> ep' = ep"
proof (induction es arbitrary: ep)
  case (Cons e es)
  have "on_endpoint ep es \<and> (e = Transfer ep' (Some p) \<longrightarrow> ep' = ep)"
  proof (cases e)
    case (Transfer x b)
    then show ?thesis using Cons.prems(1) by (cases b) simp_all
  next
    case (Callback c)
    then show ?thesis using Cons.prems(1,2) by (cases c) simp_all
  qed (use Cons.prems(1) in simp_all)
  then show ?case using Cons by auto
qed simp

text \<open>
  C35: whatever callbacks the stack makes while the driver waits, sending does not fault and
  always returns when the clock runs. The packets it hands to the stack are, in order, a
  prefix of the message cut into 64-byte packets, and all of them, with a final empty packet
  exactly when the message is a multiple of 64 bytes long, if it reports success. Each goes to
  the endpoint that is the bulk-IN endpoint at that moment: all to the one the transmission
  started on, unless a callback reset the bus or opened endpoints in the meantime.
\<close>

theorem send_packets:
  assumes "(usb_step bus)\<^sup>*\<^sup>* usb_boot st" and "clock_runs bus" and "len \<le> length bs"
  shows "\<exists>ok st' es. reader_hal_ccid_send bus (Some bs) len deadline_ms st = Some (ok, st') \<and>
    bus_log st' = bus_log st @ es \<and> prefix (payloads es) (usb_packets (take len bs)) \<and>
    (ok \<longrightarrow> 0 < len \<and> payloads es = usb_packets (take len bs)) \<and>
    on_endpoint (ep_bulk_in st) es \<and>
    ((\<forall>e \<in> set es. \<not> readdresses e) \<longrightarrow> (\<forall>ep p. Transfer ep (Some p) \<in> set es \<longrightarrow> ep = ep_bulk_in st))"
proof -
  obtain ok st' es where "reader_hal_ccid_send bus (Some bs) len deadline_ms st = Some (ok, st')"
      "bus_log st' = bus_log st @ es" "prefix (payloads es) (usb_packets (take len bs))"
      "ok \<longrightarrow> 0 < len \<and> payloads es = usb_packets (take len bs)" "on_endpoint (ep_bulk_in st) es"
    using send_sends [OF assms(2,3) usb_reachable_ok [OF assms(1,2)], of deadline_ms]
    unfolding sends_def by blast
  with on_endpoint_fixed show ?thesis by blast
qed

text \<open>
  A stack that resets the bus while the driver waits for the first packet to leave. The driver
  does not notice: it hands the rest of the message to address 0, the control endpoint, and
  reports success.
\<close>

definition resetting_bus :: usb_bus where
  "resetting_bus = ticking_bus\<lparr>bus_busy := (\<lambda>n. n = 0), bus_task := (\<lambda>n. if n = 0 then [Bus_Reset] else [])\<rparr>"

lemma clock_runs_resetting: "clock_runs resetting_bus"
  using clock_runs_ticking by (simp add: clock_runs_def resetting_bus_def)

definition opened_port :: usb_port where
  "opened_port = snd (nero_ccidd_open_finish resetting_bus
     (usb_boot\<lparr>ep_bulk_out := 2, ep_bulk_in := 0x82, ep_interrupt := 0x81, interface_number := 0\<rparr>))"

lemma opened_reachable: "(usb_step resetting_bus)\<^sup>*\<^sup>* usb_boot opened_port"
proof -
  have "usb_step resetting_bus usb_boot opened_port"
    by (rule usb_step.open_endpoints [where eo = 2 and ei = "0x82" and ek = "0x81" and ifn = 0 and b = True])
      (simp_all add: opened_port_def usb_boot_def nero_ccidd_open_finish_def Let_def)
  then show ?thesis by blast
qed

lemma claim_loop_sent:
  assumes "\<not> expired (bus_millis bus (millis_n st)) deadline" and "bus_claim bus (claim_n st)"
    and "bus_xfer bus (xfer_n st)" and "0 < w" and "chunk \<le> length s" and "chunk \<le> 64"
    and "length (bulk_in_work st) = 64"
  shows "send_claim_loop bus (Some s) chunk deadline w st =
    Some (Inr True, st\<lparr>millis_n := millis_n st + 1, claim_n := claim_n st + 1, xfer_n := xfer_n st + 1,
      bulk_in_work := patch (bulk_in_work st) 0 (take chunk s),
      bus_log := bus_log st @ [Claimed (ep_bulk_in st), Transfer (ep_bulk_in st) (Some (take chunk s))]\<rparr>)"
proof -
  have t: "take chunk (patch (bulk_in_work st) 0 (take chunk s)) = take chunk s"
    using take_patch_snoc [of 0 "bulk_in_work st" "[]" "take chunk s"] assms by simp
  obtain v where "w = Suc v" using assms(4) gr0_implies_Suc by blast
  then show ?thesis
    using assms t by (simp add: reader_hal_millis_def usbd_edpt_claim_def ccid_edpt_xfer_def Let_def)
qed

lemma resetting_fields [simp]:
  "bus_claim resetting_bus n" "bus_xfer resetting_bus n" "bus_busy resetting_bus n \<longleftrightarrow> n = 0"
  "bus_millis resetting_bus n = word_of_nat n" "bus_task resetting_bus n = (if n = 0 then [Bus_Reset] else [])"
  by (simp_all add: resetting_bus_def ticking_bus_def)

lemma opened_fields [simp]:
  "ep_bulk_in opened_port = 0x82" "length (bulk_in_work opened_port) = 64" "claim_n opened_port = 1"
  "xfer_n opened_port = 1" "busy_n opened_port = 0" "millis_n opened_port = 0" "task_n opened_port = 0"
  "bus_log opened_port = [Claimed 2, Transfer 2 None]"
  by (simp_all add: opened_port_def nero_ccidd_open_finish_def arm_bulk_out_def usbd_edpt_claim_def
      ccid_edpt_xfer_def usb_boot_def Let_def)

lemma early:
  "\<not> expired 1 3000" "\<not> expired 2 3000" "\<not> expired 3 3000" "\<not> expired 4 3000"
  by (simp_all add: expired_def)

lemma reset_mid_send:
  "\<exists>st'. reader_hal_ccid_send resetting_bus (Some (replicate 64 7)) 64 3000 opened_port = Some (True, st') \<and>
     bus_log st' = bus_log opened_port @ [Claimed 0x82, Transfer 0x82 (Some (replicate 64 7)),
       Callback Bus_Reset, Claimed 0, Transfer 0 (Some [])]"
proof -
  let ?m = "Some (replicate 64 (7 :: u8))"
  define st1 where "st1 = opened_port\<lparr>millis_n := 2\<rparr>"
  define st2 where "st2 = st1\<lparr>millis_n := 3, claim_n := 2, xfer_n := 2, bulk_in_work := replicate 64 7,
      bus_log := bus_log opened_port @ [Claimed 0x82, Transfer 0x82 ?m]\<rparr>"
  define st3 where "st3 = (nero_ccidd_reset (st2\<lparr>busy_n := 1, task_n := 1,
      bus_log := bus_log st2 @ [Callback Bus_Reset]\<rparr>))\<lparr>millis_n := 4, busy_n := 2\<rparr>"
  define st4 where "st4 = st3\<lparr>millis_n := 5, claim_n := 3, xfer_n := 3,
      bus_log := bus_log st3 @ [Claimed 0, Transfer 0 (Some [])]\<rparr>"
  have claim1: "send_claim_loop resetting_bus ?m 64 3000 63999 st1 = Some (Inr True, st2)"
    by (subst claim_loop_sent) (simp_all add: st1_def st2_def early patch_def)
  have fields3: "ep_bulk_in st3 = 0" "bulk_in_work st3 = replicate 64 7" "claim_n st3 = 2" "xfer_n st3 = 2"
      "millis_n st3 = 4" "busy_n st3 = 2" "task_n st3 = 1"
    by (simp_all add: st3_def nero_ccidd_reset_def reset_rx_assembly_def st2_def st1_def)
  have wait: "ccid_usb_service_wait resetting_bus (st2\<lparr>busy_n := busy_n st2 + 1\<rparr>) = Some
      (nero_ccidd_reset (st2\<lparr>busy_n := 1, task_n := 1, bus_log := bus_log st2 @ [Callback Bus_Reset]\<rparr>))"
    by (simp add: ccid_usb_service_wait_def st2_def st1_def)
  have m3: "millis_n (nero_ccidd_reset x) = millis_n x" "busy_n (nero_ccidd_reset x) = busy_n x" for x
    by (simp_all add: nero_ccidd_reset_def reset_rx_assembly_def)
  have idle: "send_busy_loop resetting_bus 3000 x = Some (True, x\<lparr>busy_n := busy_n x + 1\<rparr>)"
    if "busy_n x \<noteq> 0" for x
    using that by (subst send_busy_loop.simps) (simp add: usbd_edpt_busy_def)
  have busy1: "send_busy_loop resetting_bus 3000 st2 = Some (True, st3)"
    unfolding send_busy_loop_unfold [OF wait] m3
    by (subst idle) (simp_all add: m3 st2_def st1_def st3_def early)
  have claim2: "send_claim_loop resetting_bus ?m 0 3000 63999 st3 = Some (Inr True, st4)"
    by (subst claim_loop_sent) (simp_all add: fields3 st4_def early patch_def)
  have busy2: "send_busy_loop resetting_bus 3000 st4 = Some (True, st4\<lparr>busy_n := 3\<rparr>)"
    by (subst idle) (simp_all add: st4_def fields3)
  have chunks: "send_chunks resetting_bus ?m 64 3000 0 (opened_port\<lparr>millis_n := 1\<rparr>) = Some (True, st3)"
    using claim1 busy1 early
    by (simp add: send_chunks.simps reader_hal_millis_def ccid_send_one_chunk_def st1_def numeral_2_eq_2)
  have "reader_hal_ccid_send resetting_bus ?m 64 3000 opened_port =
      Some (True, st4\<lparr>busy_n := 3, dbg_send_ok := dbg_send_ok st4 + 1\<rparr>)"
    using chunks claim2 busy2
    by (simp add: reader_hal_ccid_send_def reader_hal_millis_def ccid_send_one_chunk_def
        ccid_usb_bulk_in_needs_zlp_def)
  moreover have "bus_log st4 = bus_log opened_port @ [Claimed 0x82, Transfer 0x82 ?m,
       Callback Bus_Reset, Claimed 0, Transfer 0 (Some [])]"
    by (simp add: st4_def st3_def st2_def nero_ccidd_reset_def reset_rx_assembly_def)
  ultimately show ?thesis by simp
qed

theorem send_packets_witness:
  "\<exists>st' es. reader_hal_ccid_send resetting_bus (Some (replicate 64 7)) 64 3000 opened_port = Some (True, st') \<and>
     bus_log st' = bus_log opened_port @ es \<and> payloads es = usb_packets (replicate 64 7) \<and>
     Transfer 0 (Some []) \<in> set es \<and> on_endpoint 0x82 es"
proof -
  have "(64 :: nat) \<le> length (replicate 64 (7 :: u8))" by simp
  from send_packets [OF opened_reachable clock_runs_resetting this, of 3000] reset_mid_send
  show ?thesis by auto
qed

end
