(* ===== verification/Iso7816.thy ===== *)
theory Iso7816
  imports MemUtil
begin

text \<open>
  The ISO 7816-4 command and response helpers of \<^verbatim>\<open>nfc_pcsc_contactless.h\<close>: building and
  recognising short APDUs, the Type 4 capability container, the PC/SC storage-card ATR, and
  status words. Every store and load is bounded by the capacity the caller passes.
\<close>

datatype tag_kind = TAG_KIND_NONE | TAG_KIND_TYPE2 | TAG_KIND_TYPE4 | TAG_KIND_TYPE5

definition NFC_PCSC_NDEF_APP_AID :: bytes where
  "NFC_PCSC_NDEF_APP_AID = [0xD2, 0x76, 0x00, 0x00, 0x85, 0x01, 0x01]"

definition NFC_PCSC_NDEF_APP_AID_V0 :: bytes where
  "NFC_PCSC_NDEF_APP_AID_V0 = [0xD2, 0x76, 0x00, 0x00, 0x85, 0x01, 0x00]"

definition nfc_pcsc_protocol_for_tag :: "tag_kind \<Rightarrow> u8" where
  "nfc_pcsc_protocol_for_tag tag_kind = 0x01"

definition nfc_pcsc_type4_max_message_size :: "nat \<Rightarrow> bool \<times> nat" where
  "nfc_pcsc_type4_max_message_size max_ndef_file_size =
     (if max_ndef_file_size < 2 then (False, 0) else (True, max_ndef_file_size - 2))"

definition nfc_pcsc_type4_message_size_to_file_size :: "nat \<Rightarrow> bool \<times> nat" where
  "nfc_pcsc_type4_message_size_to_file_size max_message_size =
     (case nero_nfc_try_add_u16 max_message_size 2 of None \<Rightarrow> (False, 0) | Some n \<Rightarrow> (True, n))"

section \<open>Storage-card ATR\<close>

definition nfc_pcsc_storage_card_code_for_tag :: "tag_kind \<Rightarrow> bool \<times> u8 \<times> u8 \<times> u8" where
  "nfc_pcsc_storage_card_code_for_tag tag_kind = (case tag_kind of
       TAG_KIND_TYPE2 \<Rightarrow> (True, 0x03, 0x00, 0x03)
     | TAG_KIND_TYPE5 \<Rightarrow> (True, 0x0B, 0x00, 0x12)
     | _ \<Rightarrow> (False, 0, 0, 0))"

text \<open>The check byte: the exclusive or of bytes \<open>i\<close> to \<open>i + n - 1\<close>.\<close>

fun tck_loop :: "cptr \<Rightarrow> nat \<Rightarrow> nat \<Rightarrow> nat \<Rightarrow> u8 \<Rightarrow> u8 option" where
  "tck_loop dst cap i 0 tck = Some tck"
| "tck_loop dst cap i (Suc n) tck = do {
     b \<leftarrow> nero_nfc_u8_at dst cap i;
     tck_loop dst cap (i + 1) n (tck XOR b)
   }"

definition nfc_pcsc_copy_storage_card_atr ::
    "tag_kind \<Rightarrow> cptr \<Rightarrow> nat \<Rightarrow> (bool \<times> cptr \<times> nat) option" where
  "nfc_pcsc_copy_storage_card_atr tag_kind dst dst_cap =
     (case nfc_pcsc_storage_card_code_for_tag tag_kind of (known, standard, card_hi, card_lo) \<Rightarrow>
      if dst = None \<or> dst_cap < 20 \<or> \<not> known then Some (False, dst, 0)
      else do {
        let template = [0x80, 0x4F, 0x0C, 0xA0, 0x00, 0x00, 0x03, 0x06, 0, 0, 0, 0, 0, 0, 0];
        (ok, history) \<leftarrow> nero_nfc_copy_bytes (Some (replicate 15 0)) 15 0 (Some template) 15;
        if \<not> ok then Some (False, dst, 0) else do {
        history \<leftarrow> wr history 8 standard;
        history \<leftarrow> wr history 9 card_hi;
        history \<leftarrow> wr history 10 card_lo;
        (ok, dst) \<leftarrow> nero_nfc_copy_bytes dst dst_cap 0 (Some [0x3B, 0x8F, 0x80, 0x01]) 4;
        if \<not> ok then Some (False, dst, 0) else do {
        let pos = 4;
        (ok, dst) \<leftarrow> nero_nfc_copy_bytes dst dst_cap pos history 15;
        if \<not> ok then Some (False, dst, 0) else do {
        let pos = pos + 15;
        tck \<leftarrow> tck_loop dst dst_cap 1 (pos - 1) 0;
        (ok, dst) \<leftarrow> nero_nfc_store_u8 dst dst_cap pos tck;
        if \<not> ok then Some (False, dst, 0) else Some (True, dst, pos + 1)
      }}}})"

section \<open>Application selection\<close>

definition nfc_pcsc_aid_matches :: "cptr \<Rightarrow> nat \<Rightarrow> cptr \<Rightarrow> nat \<Rightarrow> bool option" where
  "nfc_pcsc_aid_matches aid aid_len expect expect_len =
     (if aid \<noteq> None \<and> expect \<noteq> None \<and> aid_len = expect_len then mem_eq aid expect expect_len
      else Some False)"

definition nfc_pcsc_is_ndef_aid :: "cptr \<Rightarrow> nat \<Rightarrow> bool option" where
  "nfc_pcsc_is_ndef_aid aid aid_len = do {
     m \<leftarrow> nfc_pcsc_aid_matches aid aid_len (Some NFC_PCSC_NDEF_APP_AID) 7;
     if m then Some True
     else nfc_pcsc_aid_matches aid aid_len (Some NFC_PCSC_NDEF_APP_AID_V0) 7
   }"

record select_variant =
  sv_aid :: cptr
  sv_aid_len :: nat
  sv_p2 :: u8
  sv_add_le_00 :: bool

definition no_variant :: select_variant where
  "no_variant = \<lparr>sv_aid = None, sv_aid_len = 0, sv_p2 = 0, sv_add_le_00 = False\<rparr>"

definition nfc_pcsc_ndef_app_select_variant :: "nat \<Rightarrow> bool \<times> select_variant" where
  "nfc_pcsc_ndef_app_select_variant index =
     (let variants = [(NFC_PCSC_NDEF_APP_AID, 0x00, True), (NFC_PCSC_NDEF_APP_AID, 0x00, False),
                      (NFC_PCSC_NDEF_APP_AID, 0x0C, True), (NFC_PCSC_NDEF_APP_AID, 0x0C, False),
                      (NFC_PCSC_NDEF_APP_AID_V0, 0x00, True), (NFC_PCSC_NDEF_APP_AID_V0, 0x00, False),
                      (NFC_PCSC_NDEF_APP_AID_V0, 0x0C, True), (NFC_PCSC_NDEF_APP_AID_V0, 0x0C, False)]
      in if index \<ge> 8 then (False, no_variant)
         else case variants ! index of (aid, p2, le) \<Rightarrow>
           (True, \<lparr>sv_aid = Some aid, sv_aid_len = 7, sv_p2 = p2, sv_add_le_00 = le\<rparr>))"

definition nfc_pcsc_build_select_aid_apdu ::
    "cptr \<Rightarrow> nat \<Rightarrow> u8 \<Rightarrow> bool \<Rightarrow> cptr \<Rightarrow> nat \<Rightarrow> (bool \<times> cptr \<times> nat) option" where
  "nfc_pcsc_build_select_aid_apdu aid aid_len p2 add_le_00 apdu apdu_cap =
     (if aid = None \<or> apdu = None \<or> aid_len = 0 \<or> aid_len > 16 then Some (False, apdu, 0)
      else case Option.bind (nero_nfc_try_add_u16 5 aid_len)
                  (\<lambda>len. if add_le_00 then nero_nfc_try_add_u16 len 1 else Some len) of
        None \<Rightarrow> Some (False, apdu, 0)
      | Some len \<Rightarrow>
          if len > apdu_cap then Some (False, apdu, 0)
          else do {
            (ok, apdu) \<leftarrow> store_seq apdu apdu_cap
              [(0, 0x00), (1, 0xA4), (2, 0x04), (3, p2), (4, byte aid_len)];
            if \<not> ok then Some (False, apdu, 0) else do {
            (ok, apdu) \<leftarrow> nero_nfc_copy_bytes apdu apdu_cap 5 aid aid_len;
            if \<not> ok then Some (False, apdu, 0) else do {
            (ok, apdu) \<leftarrow> (if add_le_00 then nero_nfc_store_u8 apdu apdu_cap (5 + aid_len) 0x00
                           else Some (True, apdu));
            if \<not> ok then Some (False, apdu, 0) else Some (True, apdu, len)
          }}})"

section \<open>Type 4 file commands\<close>

definition nfc_pcsc_build_t4_select_file_apdu ::
    "nat \<Rightarrow> cptr \<Rightarrow> nat \<Rightarrow> (bool \<times> cptr \<times> nat) option" where
  "nfc_pcsc_build_t4_select_file_apdu file_id apdu apdu_cap =
     (if apdu = None \<or> apdu_cap < 7 then Some (False, apdu, 0)
      else do {
        (ok, apdu) \<leftarrow> store_seq apdu apdu_cap
          [(0, 0x00), (1, 0xA4), (2, 0x00), (3, 0x0C), (4, 2),
           (5, byte (drop_bit 8 file_id)), (6, byte (file_id AND 0xFF))];
        Some (if \<not> ok then (False, apdu, 0) else (True, apdu, 7))
      })"

definition nfc_pcsc_build_t4_read_binary_apdu ::
    "nat \<Rightarrow> u8 \<Rightarrow> cptr \<Rightarrow> nat \<Rightarrow> (bool \<times> cptr \<times> nat) option" where
  "nfc_pcsc_build_t4_read_binary_apdu offset le apdu apdu_cap =
     (if apdu = None \<or> apdu_cap < 5 then Some (False, apdu, 0)
      else do {
        (ok, apdu) \<leftarrow> store_seq apdu apdu_cap
          [(0, 0x00), (1, 0xB0), (2, byte (drop_bit 8 offset)), (3, byte (offset AND 0xFF)), (4, le)];
        Some (if \<not> ok then (False, apdu, 0) else (True, apdu, 5))
      })"

definition nfc_pcsc_build_type4_cc_file ::
    "nat \<Rightarrow> bool \<Rightarrow> bool \<Rightarrow> cptr \<Rightarrow> nat \<Rightarrow> (bool \<times> cptr \<times> nat) option" where
  "nfc_pcsc_build_type4_cc_file max_ndef_file_size read_access_open write_access_open dst dst_cap =
     (if dst = None \<or> dst_cap < 15 then Some (False, dst, 0)
      else do {
        (ok, dst) \<leftarrow> store_seq dst dst_cap
          [(0, 0x00), (1, 15), (2, 0x20),
           (3, byte (drop_bit 8 (0x003B :: nat))), (4, byte (0x003B AND 0xFF :: nat)),
           (5, byte (drop_bit 8 (0x0034 :: nat))), (6, byte (0x0034 AND 0xFF :: nat)),
           (7, 0x04), (8, 0x06), (9, 0xE1), (10, 0x04),
           (11, byte (drop_bit 8 max_ndef_file_size)), (12, byte (max_ndef_file_size AND 0xFF)),
           (13, if read_access_open then 0x00 else 0xFF),
           (14, if write_access_open then 0x00 else 0xFF)];
        Some (if \<not> ok then (False, dst, 0) else (True, dst, 15))
      })"

section \<open>Command parsing\<close>

definition nfc_iso7816_apdu_min_len :: "nat \<Rightarrow> nat \<Rightarrow> bool" where
  "nfc_iso7816_apdu_min_len apdu_len need \<longleftrightarrow> apdu_len \<ge> need"

definition nfc_iso7816_apdu_lc :: "cptr \<Rightarrow> nat \<Rightarrow> (bool \<times> u8) option" where
  "nfc_iso7816_apdu_lc apdu apdu_len =
     (if apdu = None \<or> \<not> nero_nfc_span_ok 4 1 apdu_len then Some (False, 0)
      else do {
        lc \<leftarrow> nero_nfc_u8_at apdu apdu_len 4;
        Some (True, lc)
      })"

definition nfc_iso7816_apdu_lc_body_ok :: "nat \<Rightarrow> u8 \<Rightarrow> bool" where
  "nfc_iso7816_apdu_lc_body_ok apdu_len lc =
     (case nero_nfc_try_add_u16 5 (unat lc) of None \<Rightarrow> False | Some need \<Rightarrow> apdu_len = need)"

definition nfc_iso7816_apdu_lc_body_with_le_ok :: "nat \<Rightarrow> u8 \<Rightarrow> bool" where
  "nfc_iso7816_apdu_lc_body_with_le_ok apdu_len lc =
     (case nero_nfc_try_add_u16 6 (unat lc) of None \<Rightarrow> False | Some need \<Rightarrow> apdu_len = need)"

definition nfc_iso7816_apdu_data_ptr :: "cptr \<Rightarrow> nat \<Rightarrow> u8 \<Rightarrow> cptr" where
  "nfc_iso7816_apdu_data_ptr apdu apdu_len lc =
     (if apdu = None \<or> \<not> nero_nfc_span_ok 5 (unat lc) apdu_len then None else ptr_add apdu 5)"

definition nfc_iso7816_apdu_read_binary :: "cptr \<Rightarrow> nat \<Rightarrow> (bool \<times> nat \<times> u8) option" where
  "nfc_iso7816_apdu_read_binary apdu apdu_len =
     (if apdu = None \<or> apdu_len \<noteq> 5 then Some (False, 0, 0)
      else do {
        p1 \<leftarrow> nero_nfc_u8_at apdu apdu_len 2;
        p2 \<leftarrow> nero_nfc_u8_at apdu apdu_len 3;
        le \<leftarrow> nero_nfc_u8_at apdu apdu_len 4;
        Some (True, be16 p1 p2, le)
      })"

definition nfc_iso7816_apdu_update_binary :: "cptr \<Rightarrow> nat \<Rightarrow> (bool \<times> nat \<times> u8 \<times> cptr) option" where
  "nfc_iso7816_apdu_update_binary apdu apdu_len =
     (if apdu = None then Some (False, 0, 0, None)
      else do {
        (ok, lc) \<leftarrow> nfc_iso7816_apdu_lc apdu apdu_len;
        if \<not> ok then Some (False, 0, 0, None)
        else case nero_nfc_try_add_u16 5 (unat lc) of
               None \<Rightarrow> Some (False, 0, 0, None)
             | Some need \<Rightarrow>
                 if apdu_len \<noteq> need \<or> lc = 0 then Some (False, 0, 0, None)
                 else do {
                   p1 \<leftarrow> nero_nfc_u8_at apdu apdu_len 2;
                   p2 \<leftarrow> nero_nfc_u8_at apdu apdu_len 3;
                   Some (True, be16 p1 p2, lc, ptr_add apdu 5)
                 }
      })"

section \<open>Status words\<close>

text \<open>The response length is a C \<open>int\<close>, negative for a failed exchange.\<close>

definition nfc_iso7816_response_sw :: "cptr \<Rightarrow> int \<Rightarrow> (bool \<times> u8 \<times> u8) option" where
  "nfc_iso7816_response_sw resp rlen =
     (if resp = None \<or> rlen < 2 then Some (False, 0, 0)
      else do {
        sw1 \<leftarrow> nero_nfc_u8_at resp (nat rlen) (nat (rlen - 2));
        sw2 \<leftarrow> nero_nfc_u8_at resp (nat rlen) (nat (rlen - 1));
        Some (True, sw1, sw2)
      })"

definition nfc_iso7816_response_wrong_length :: "cptr \<Rightarrow> int \<Rightarrow> (bool \<times> u8) option" where
  "nfc_iso7816_response_wrong_length resp rlen = do {
     (ok, sw1, sw2) \<leftarrow> nfc_iso7816_response_sw resp rlen;
     Some (if \<not> ok \<or> sw1 \<noteq> 0x6C then (False, 0) else (True, sw2))
   }"

definition nfc_iso7816_response_more_data :: "cptr \<Rightarrow> int \<Rightarrow> (bool \<times> u8) option" where
  "nfc_iso7816_response_more_data resp rlen = do {
     (ok, sw1, sw2) \<leftarrow> nfc_iso7816_response_sw resp rlen;
     Some (if \<not> ok \<or> sw1 \<noteq> 0x61 then (False, 0) else (True, sw2))
   }"

definition nfc_iso7816_append_sw ::
    "cptr \<Rightarrow> nat \<Rightarrow> nat \<Rightarrow> u8 \<Rightarrow> u8 \<Rightarrow> (bool \<times> cptr \<times> nat) option" where
  "nfc_iso7816_append_sw dst dst_cap data_len sw1 sw2 =
     (case nero_nfc_try_add_size data_len 2 of
        None \<Rightarrow> Some (False, dst, 0)
      | Some response_len \<Rightarrow>
          if dst = None \<or> response_len > dst_cap \<or> \<not> nero_nfc_span_ok data_len 2 dst_cap
          then Some (False, dst, 0)
          else do {
            (ok, dst) \<leftarrow> store_seq dst dst_cap [(data_len, sw1), (data_len + 1, sw2)];
            Some (if \<not> ok then (False, dst, 0) else (True, dst, u16n response_len))
          })"

definition nfc_iso7816_response_sw_ok :: "cptr \<Rightarrow> int \<Rightarrow> bool option" where
  "nfc_iso7816_response_sw_ok resp rlen = do {
     (ok, sw1, sw2) \<leftarrow> nfc_iso7816_response_sw resp rlen;
     Some (ok \<and> sw1 = 0x90 \<and> sw2 = 0x00)
   }"

section \<open>What the helpers do\<close>

lemma try_add_u16_u8 [simp]: "n \<le> 6 \<Longrightarrow> nero_nfc_try_add_u16 n (unat (lc :: u8)) = Some (n + unat lc)"
  using unat_u8_bound [of lc] by (simp add: nero_nfc_try_add_u16_def del: unat_u8_bound)

lemma lc_body_ok_iff [simp]: "nfc_iso7816_apdu_lc_body_ok n lc \<longleftrightarrow> n = 5 + unat lc"
  by (simp add: nfc_iso7816_apdu_lc_body_ok_def)

lemma lc_body_with_le_ok_iff [simp]: "nfc_iso7816_apdu_lc_body_with_le_ok n lc \<longleftrightarrow> n = 6 + unat lc"
  by (simp add: nfc_iso7816_apdu_lc_body_with_le_ok_def)

lemma apdu_min_len_iff [simp]: "nfc_iso7816_apdu_min_len n k \<longleftrightarrow> k \<le> n"
  by (simp add: nfc_iso7816_apdu_min_len_def)

lemma apdu_lc_eq [simp]:
  "n \<le> length bs \<Longrightarrow> n \<le> UINT16_MAX \<Longrightarrow>
    nfc_iso7816_apdu_lc (Some bs) n = Some (if 5 \<le> n then (True, bs ! 4) else (False, 0))"
  by (auto simp: nfc_iso7816_apdu_lc_def)

lemma apdu_data_ptr_eq [simp]:
  "n \<le> UINT16_MAX \<Longrightarrow>
    nfc_iso7816_apdu_data_ptr (Some bs) n lc = (if 5 + unat lc \<le> n then Some (drop 5 bs) else None)"
  by (simp add: nfc_iso7816_apdu_data_ptr_def)

lemma response_sw_eq:
  assumes "n \<le> length bs" and "n \<le> UINT16_MAX"
  shows "nfc_iso7816_response_sw (Some bs) (int n) =
    Some (if 2 \<le> n then (True, bs ! (n - 2), bs ! (n - 1)) else (False, 0, 0))"
proof -
  have "nat (int n - 2) = n - 2" "nat (int n - 1) = n - 1" by linarith+
  then show ?thesis using assms by (simp add: nfc_iso7816_response_sw_def)
qed

lemma append_sw_eq:
  assumes "cap \<le> length bs" and "cap \<le> UINT16_MAX"
  shows "nfc_iso7816_append_sw (Some bs) cap n sw1 sw2 =
    Some (if n + 2 \<le> cap then (True, Some (patch bs n [sw1, sw2]), n + 2) else (False, Some bs, 0))"
proof (cases "n + 2 \<le> cap")
  case True
  have "store_seq (Some bs) cap [(n, sw1), (n + 1, sw2)] = Some (True, Some (patch bs n [sw1, sw2]))"
    by (rule store_seq_prefix) (use True assms in simp_all)
  with True assms show ?thesis by (simp add: nfc_iso7816_append_sw_def del: store_seq.simps)
next
  case False
  then show ?thesis by (auto simp: nfc_iso7816_append_sw_def nero_nfc_try_add_size_def)
qed

lemma select_aid_apdu_eq:
  assumes "cap \<le> length bs" and "cap \<le> UINT16_MAX" and "n \<le> length aid" and "0 < n" and "n \<le> 16"
  shows "nfc_pcsc_build_select_aid_apdu (Some aid) n p2 le (Some bs) cap =
    Some (if n + 5 + of_bool le \<le> cap
          then (True, Some (patch bs 0 ([0x00, 0xA4, 0x04, p2, byte n] @ take n aid @ (if le then [0] else []))),
                n + 5 + of_bool le)
          else (False, Some bs, 0))"
proof -
  have add: "nero_nfc_try_add_u16 5 n = Some (n + 5)" "nero_nfc_try_add_u16 (n + 5) 1 = Some (n + 6)"
    using assms(5) by (simp_all add: nero_nfc_try_add_u16_def)
  show ?thesis
  proof (cases "n + 5 + of_bool le \<le> cap")
    case True
    define hd5 where "hd5 = [0x00, 0xA4, 0x04, p2, byte n]"
    have st: "store_seq (Some bs) cap [(0, 0x00), (1, 0xA4), (2, 0x04), (3, p2), (4, byte n)] =
        Some (True, Some (patch bs 0 hd5))"
      unfolding hd5_def by (rule store_seq_prefix) (use True assms in simp_all)
    have h: "length hd5 = 5" by (simp add: hd5_def)
    have q: "patch (patch bs 0 hd5) 5 (take n aid) = patch bs 0 (hd5 @ take n aid)"
      by (rule patch_patch) (use True assms h in simp_all)
    have fin: "(patch bs 0 (hd5 @ take n aid))[5 + n := 0] = patch bs 0 (hd5 @ take n aid @ [0])" if le
    proof -
      have k: "5 + n = 0 + length (hd5 @ take n aid)" using h assms(3) by simp
      have lt: "0 + length (hd5 @ take n aid) < length bs" using that True assms(1) h by simp
      show ?thesis using patch_update [OF lt k, of 0] by (simp only: append_assoc)
    qed
    have "nfc_pcsc_build_select_aid_apdu (Some aid) n p2 le (Some bs) cap =
        Some (True, Some (patch bs 0 (hd5 @ take n aid @ (if le then [0] else []))),
          n + 5 + of_bool le)"
    proof (cases le)
      case t: True
      have "5 + n < cap" using t True by simp
      then show ?thesis
        using t True assms h st fin [OF t] q
        by (simp add: nfc_pcsc_build_select_aid_apdu_def add del: store_seq.simps One_nat_def)
    next
      case False
      then show ?thesis
        using True assms h st q
        by (simp add: nfc_pcsc_build_select_aid_apdu_def add del: store_seq.simps One_nat_def)
    qed
    with True show ?thesis by (simp add: hd5_def)
  next
    case False
    then show ?thesis using assms by (cases le) (simp_all add: nfc_pcsc_build_select_aid_apdu_def add del: One_nat_def)
  qed
qed


lemma read_binary_apdu_eq:
  assumes "5 \<le> cap" and "cap \<le> length bs" and "cap \<le> UINT16_MAX"
  shows "nfc_pcsc_build_t4_read_binary_apdu offset le (Some bs) cap =
    Some (True, Some (patch bs 0 [0x00, 0xB0, byte (offset div 256), byte offset, le]), 5)"
proof -
  have "store_seq (Some bs) cap
      [(0, 0x00), (1, 0xB0), (2, byte (offset div 256)), (3, byte offset), (4, le)] =
      Some (True, Some (patch bs 0 [0x00, 0xB0, byte (offset div 256), byte offset, le]))"
    by (rule store_seq_prefix) (use assms in simp_all)
  then show ?thesis using assms
    by (simp add: nfc_pcsc_build_t4_read_binary_apdu_def drop_bit_eq_div del: store_seq.simps One_nat_def)
qed

lemma select_file_apdu_eq:
  assumes "7 \<le> cap" and "cap \<le> length bs" and "cap \<le> UINT16_MAX"
  shows "nfc_pcsc_build_t4_select_file_apdu file_id (Some bs) cap =
    Some (True, Some (patch bs 0 [0x00, 0xA4, 0x00, 0x0C, 2, byte (file_id div 256), byte file_id]), 7)"
proof -
  have "store_seq (Some bs) cap
      [(0, 0x00), (1, 0xA4), (2, 0x00), (3, 0x0C), (4, 2), (5, byte (file_id div 256)), (6, byte file_id)] =
      Some (True, Some (patch bs 0 [0x00, 0xA4, 0x00, 0x0C, 2, byte (file_id div 256), byte file_id]))"
    by (rule store_seq_prefix) (use assms in simp_all)
  then show ?thesis using assms
    by (simp add: nfc_pcsc_build_t4_select_file_apdu_def drop_bit_eq_div del: store_seq.simps One_nat_def)
qed

lemma tck_loop_eq:
  "i + n \<le> cap \<Longrightarrow> cap \<le> length bs \<Longrightarrow> cap \<le> UINT16_MAX \<Longrightarrow>
    tck_loop (Some bs) cap i n acc = Some (foldl (XOR) acc (take n (drop i bs)))"
  by (induction n arbitrary: i acc) (simp_all add: take_Suc hd_drop_conv_nth drop_Suc [symmetric] tl_drop)

text \<open>The ATR as a list: prefix, historical bytes, check byte.\<close>

definition storage_atr :: "u8 \<Rightarrow> u8 \<Rightarrow> u8 \<Rightarrow> bytes" where
  "storage_atr standard card_hi card_lo =
     (let body = [0x3B, 0x8F, 0x80, 0x01, 0x80, 0x4F, 0x0C, 0xA0, 0x00, 0x00, 0x03, 0x06,
                  standard, card_hi, card_lo, 0, 0, 0, 0]
      in body @ [foldl (XOR) 0 (tl body)])"

lemma copy_storage_card_atr_eq:
  assumes "20 \<le> cap" and "cap \<le> length bs" and "cap \<le> UINT16_MAX"
    and "nfc_pcsc_storage_card_code_for_tag tag_kind = (True, st, hi, lo)"
  shows "nfc_pcsc_copy_storage_card_atr tag_kind (Some bs) cap =
    Some (True, Some (patch bs 0 (storage_atr st hi lo)), 20)"
proof -
  define pre where "pre = [0x3B, 0x8F, 0x80, 0x01 :: u8]"
  define hist where "hist = [0x80, 0x4F, 0x0C, 0xA0, 0x00, 0x00, 0x03, 0x06, st, hi, lo, 0, 0, 0, 0]"
  have l: "length pre = 4" "length hist = 15" by (simp_all add: pre_def hist_def)
  have q: "patch (patch bs 0 pre) 4 hist = patch bs 0 (pre @ hist)"
    by (rule patch_patch) (use l assms in simp_all)
  define atr where "atr = patch bs 0 (pre @ hist)"
  have la: "length atr = length bs" using l assms by (simp add: atr_def)
  have "take 19 atr = pre @ hist"
    using take_patch_front [of "pre @ hist" bs] l assms by (simp add: atr_def)
  then have t18: "take 18 (drop 1 atr) = tl (pre @ hist)"
    using tl_take [of 19 atr] by (simp add: drop_Suc)
  have "tck_loop (Some atr) cap 1 18 0 = Some (foldl (XOR) 0 (take 18 (drop 1 atr)))"
    by (rule tck_loop_eq) (use assms la in simp_all)
  then have tck: "tck_loop (Some atr) cap 1 18 0 = Some (foldl (XOR) 0 (tl (pre @ hist)))"
    by (simp only: t18)
  have upd: "atr[19 := b] = patch bs 0 (pre @ hist @ [b])" for b
  proof -
    have k: "19 = 0 + length (pre @ hist)" using l by simp
    have lt: "0 + length (pre @ hist) < length bs" using l assms by simp
    show ?thesis using patch_update [OF lt k, of b] by (simp only: atr_def append_assoc)
  qed
  have "storage_atr st hi lo = pre @ hist @ [foldl (XOR) 0 (tl (pre @ hist))]"
    by (simp add: storage_atr_def pre_def hist_def Let_def)
  moreover have "nfc_pcsc_copy_storage_card_atr tag_kind (Some bs) cap =
      Some (True, Some (atr[19 := foldl (XOR) 0 (tl (pre @ hist))]), 20)"
    using assms l q tck [unfolded One_nat_def] la
    by (simp add: nfc_pcsc_copy_storage_card_atr_def pre_def [symmetric] hist_def [symmetric]
        atr_def [symmetric])
  ultimately show ?thesis by (simp add: upd)
qed


text \<open>
  a READ BINARY command built for any file offset and expected length is parsed back to
  the same offset and length, and only its own five bytes are written.
\<close>

theorem read_binary_roundtrip:
  assumes "offset < 65536" and "5 \<le> cap" and "cap \<le> length bs" and "cap \<le> UINT16_MAX"
  shows "\<exists>apdu. nfc_pcsc_build_t4_read_binary_apdu offset le (Some bs) cap = Some (True, Some apdu, 5) \<and>
    length apdu = length bs \<and> drop 5 apdu = drop 5 bs \<and>
    nfc_iso7816_apdu_read_binary (Some apdu) 5 = Some (True, offset, le)"
proof -
  have "nfc_iso7816_apdu_read_binary (Some (patch bs 0 [0x00, 0xB0, byte (offset div 256), byte offset, le])) 5 =
      Some (True, offset, le)"
    using assms be16_bytes [OF assms(1)] by (simp add: nfc_iso7816_apdu_read_binary_def nth_patch)
  moreover have "drop 5 (patch bs 0 [0x00, 0xB0, byte (offset div 256), byte offset, le]) = drop 5 bs"
    by (simp add: drop_patch_front)
  ultimately show ?thesis using assms by (simp add: read_binary_apdu_eq)
qed

theorem read_binary_roundtrip_witness:
  "\<exists>apdu. nfc_pcsc_build_t4_read_binary_apdu 0x1234 16 (Some (replicate 8 0)) 8 = Some (True, Some apdu, 5) \<and>
    nfc_iso7816_apdu_read_binary (Some apdu) 5 = Some (True, 0x1234, 16)"
  using read_binary_roundtrip [of "0x1234" 8 "replicate 8 0" 16] by auto

text \<open>
  the storage-card ATR is produced exactly for the tag kinds that have one and a buffer of
  at least 20 bytes; it has 20 bytes, states 15 historical bytes, and its check byte makes the
  exclusive or of all bytes after the first zero.
\<close>

theorem storage_atr_checksum:
  assumes "cap \<le> length bs" and "cap \<le> UINT16_MAX"
  shows "\<exists>ok dst n. nfc_pcsc_copy_storage_card_atr tag_kind (Some bs) cap = Some (ok, Some dst, n) \<and>
    (ok \<longleftrightarrow> 20 \<le> cap \<and> tag_kind \<in> {TAG_KIND_TYPE2, TAG_KIND_TYPE5}) \<and>
    (ok \<longrightarrow> n = 20 \<and> drop 20 dst = drop 20 bs \<and> dst ! 0 = 0x3B \<and> dst ! 1 AND 0x0F = 15 \<and>
       foldl (XOR) 0 (tl (take 20 dst)) = 0) \<and>
    (\<not> ok \<longrightarrow> n = 0 \<and> dst = bs)"
proof (cases "20 \<le> cap \<and> tag_kind \<in> {TAG_KIND_TYPE2, TAG_KIND_TYPE5}")
  case True
  then obtain st hi lo where code: "nfc_pcsc_storage_card_code_for_tag tag_kind = (True, st, hi, lo)"
    by (auto simp: nfc_pcsc_storage_card_code_for_tag_def)
  have len: "length (storage_atr st hi lo) = 20" by (simp add: storage_atr_def)
  have dst: "take 20 (patch bs 0 (storage_atr st hi lo)) = storage_atr st hi lo"
    "drop 20 (patch bs 0 (storage_atr st hi lo)) = drop 20 bs"
    using True assms len take_patch_front [of "storage_atr st hi lo" bs] by (simp_all add: patch_def)
  have nth: "patch bs 0 (storage_atr st hi lo) ! 0 = 0x3B" "patch bs 0 (storage_atr st hi lo) ! 1 = 0x8F"
    using True assms len by (simp_all add: nth_patch) (simp_all add: storage_atr_def)
  have sum: "foldl (XOR) 0 (tl (storage_atr st hi lo)) = 0" by (simp add: storage_atr_def Let_def)
  show ?thesis
    using True assms nth sum dst copy_storage_card_atr_eq [OF _ assms code] by auto
next
  case False
  then have "nfc_pcsc_copy_storage_card_atr tag_kind (Some bs) cap = Some (False, Some bs, 0)"
    by (auto simp: nfc_pcsc_copy_storage_card_atr_def nfc_pcsc_storage_card_code_for_tag_def
        split: tag_kind.splits)
  with False show ?thesis by auto
qed

theorem storage_atr_checksum_witness:
  "\<exists>dst n. nfc_pcsc_copy_storage_card_atr TAG_KIND_TYPE5 (Some (replicate 32 0)) 32 = Some (True, Some dst, n) \<and>
    foldl (XOR) 0 (tl (take 20 dst)) = 0"
  using storage_atr_checksum [of 32 "replicate 32 0" TAG_KIND_TYPE5] by auto

end
