(* ===== verification/CtapCodec.thy ===== *)
theory CtapCodec
  imports Iso7816 CcidFrame
begin

text \<open>
  The CTAP-over-NFC codec of \<^verbatim>\<open>nfc_ctap_codec.c\<close>: the authenticatorGetAssertion encoder,
  the NFCCTAP command APDUs in short and extended form, recognition of FIDO selection and of
  the NFCCTAP commands, classification and dissection of token responses. Lengths and offsets
  are bounded by the \<open>uint16_t\<close> capacity the caller passes, so the casts of the source keep
  their value.
\<close>

section \<open>The getAssertion request\<close>

definition K_NFC_CTAP_PK_CRED_TYPE_KEY :: bytes where
  "K_NFC_CTAP_PK_CRED_TYPE_KEY = [0x64, 0x74, 0x79, 0x70, 0x65]"

definition K_NFC_CTAP_PK_CRED_TYPE_PUBLIC_KEY :: bytes where
  "K_NFC_CTAP_PK_CRED_TYPE_PUBLIC_KEY =
     [0x6A, 0x70, 0x75, 0x62, 0x6C, 0x69, 0x63, 0x2D, 0x6B, 0x65, 0x79]"

definition K_NFC_CTAP_OPTIONS_UP :: bytes where
  "K_NFC_CTAP_OPTIONS_UP = [0x62, 0x75, 0x70, 0xF5]"

definition K_NFC_CTAP_OPTIONS_UV :: bytes where
  "K_NFC_CTAP_OPTIONS_UV = [0x62, 0x75, 0x76, 0xF4]"

definition emit_pk_cred_descriptor ::
    "cptr \<Rightarrow> nat \<Rightarrow> cptr \<Rightarrow> nat \<Rightarrow> nat \<Rightarrow> (bool \<times> cptr \<times> nat) option" where
  "emit_pk_cred_descriptor cred_id cred_len buf buf_max p_io =
     (if cred_len = 0 \<or> cred_id = None \<or> buf = None then Some (False, buf, p_io)
      else let p = p_io;
               id_hdr_len = (if cred_len \<le> 23 then 1 else if cred_len \<le> 255 then 2 else 3)
      in case Option.bind (nero_nfc_try_add_size p 50)
                (\<lambda>required. Option.bind (nero_nfc_try_add_size required id_hdr_len)
                  (\<lambda>required. nero_nfc_try_add_size required cred_len)) of
        None \<Rightarrow> Some (False, buf, p_io)
      | Some required \<Rightarrow>
          if required > buf_max then Some (False, buf, p_io)
          else do {
            buf \<leftarrow> wr_list buf p [0xA2];
            let p = p + 1;
            (ok, buf) \<leftarrow> nero_nfc_copy_bytes buf buf_max p (Some K_NFC_CTAP_PK_CRED_TYPE_KEY) 5;
            if \<not> ok then Some (False, buf, p_io) else do {
            let p = p + 5;
            (ok, buf) \<leftarrow> nero_nfc_copy_bytes buf buf_max p
                           (Some K_NFC_CTAP_PK_CRED_TYPE_PUBLIC_KEY) 11;
            if \<not> ok then Some (False, buf, p_io) else do {
            let p = p + 11;
            let hdr = (if cred_len \<le> 23 then [byte (0x40 + cred_len)]
                       else if cred_len \<le> 255 then [0x58, byte cred_len]
                       else [0x59, byte (drop_bit 8 cred_len AND 0xFF), byte (cred_len AND 0xFF)]);
            buf \<leftarrow> wr_list buf p hdr;
            let p = p + length hdr;
            (ok, buf) \<leftarrow> nero_nfc_copy_bytes buf buf_max p cred_id cred_len;
            if \<not> ok then Some (False, buf, p_io) else Some (True, buf, p + cred_len)
          }}})"

definition nfc_ctap_encode_get_assertion ::
    "cptr \<Rightarrow> cptr \<Rightarrow> cptr \<Rightarrow> nat \<Rightarrow> cptr \<Rightarrow> nat \<Rightarrow> (bool \<times> cptr \<times> nat) option" where
  "nfc_ctap_encode_get_assertion client_hash32 rp_id allow_cred allow_cred_len out out_max =
     (if client_hash32 = None \<or> rp_id = None \<or> out = None then Some (False, out, 0)
      else let has_allow = (allow_cred \<noteq> None \<and> allow_cred_len > 0) in do {
        len \<leftarrow> nero_nfc_bounded_strlen rp_id (253 + 1);
        case len of None \<Rightarrow> Some (False, out, 0)
        | Some rplen \<Rightarrow>
        if rplen = 0 \<or> rplen > 253 then Some (False, out, 0)
        else let base = 1 + 1 + (if rplen \<le> 23 then 1 else 2) + rplen + 3 + 32 + 2 + 8;
                 id_hdr_len = (if allow_cred_len \<le> 23 then 1 else if allow_cred_len \<le> 255 then 2 else 3)
        in case (if has_allow then nero_nfc_try_add_size base (2 + 20 + id_hdr_len + allow_cred_len)
                 else Some base) of
          None \<Rightarrow> Some (False, out, 0)
        | Some required \<Rightarrow>
        if required > out_max then Some (False, out, 0)
        else do {
          let hdr = [if has_allow then 0xA4 else 0xA3, 0x01] @
                    (if rplen \<le> 23 then [byte (0x60 + rplen)] else [0x78, byte rplen]);
          out \<leftarrow> wr_list out 0 hdr;
          let p = length hdr;
          (ok, out) \<leftarrow> nero_nfc_copy_bytes out out_max p rp_id rplen;
          if \<not> ok then Some (False, out, 0) else do {
          let p = p + rplen;
          out \<leftarrow> wr_list out p [0x02, 0x58, 32];
          let p = p + 3;
          (ok, out) \<leftarrow> nero_nfc_copy_bytes out out_max p client_hash32 32;
          if \<not> ok then Some (False, out, 0) else do {
          let p = p + 32;
          (ok, out, p) \<leftarrow> (if has_allow then do {
              out \<leftarrow> wr_list out p [0x03, 0x81];
              emit_pk_cred_descriptor allow_cred allow_cred_len out out_max (p + 2)
            } else Some (True, out, p));
          if \<not> ok then Some (False, out, 0) else do {
          out \<leftarrow> wr_list out p [0x05, 0xA2];
          let p = p + 2;
          (ok, out) \<leftarrow> nero_nfc_copy_bytes out out_max p (Some K_NFC_CTAP_OPTIONS_UP) 4;
          if \<not> ok then Some (False, out, 0) else do {
          let p = p + 4;
          (ok, out) \<leftarrow> nero_nfc_copy_bytes out out_max p (Some K_NFC_CTAP_OPTIONS_UV) 4;
          if \<not> ok then Some (False, out, 0) else Some (True, out, p + 4)
        }}}}}})"

section \<open>NFCCTAP command APDUs\<close>

definition nfc_ctap_pack_cbor_apdu ::
    "u8 \<Rightarrow> cptr \<Rightarrow> nat \<Rightarrow> bool \<Rightarrow> cptr \<Rightarrow> nat \<Rightarrow> (bool \<times> cptr \<times> nat) option" where
  "nfc_ctap_pack_cbor_apdu ctap_cmd cbor cbor_len force_extended apdu apdu_cap =
     (if (cbor = None \<and> cbor_len \<noteq> 0) \<or> apdu = None then Some (False, apdu, 0)
      else if cbor_len > UINT16_MAX - 1 then Some (False, apdu, 0)
      else let payload_len = cbor_len + 1;
               short = (\<not> force_extended \<and> payload_len \<le> 255)
      in case nero_nfc_try_add_size payload_len (if short then 6 else 9) of
        None \<Rightarrow> Some (False, apdu, 0)
      | Some required_len \<Rightarrow>
        if required_len > apdu_cap then Some (False, apdu, 0)
        else do {
          apdu \<leftarrow> wr_list apdu 0 [0x80, 0x10, 0x80, 0x00];
          if short then do {
            apdu \<leftarrow> wr_list apdu 4 [byte payload_len, ctap_cmd];
            (ok, apdu) \<leftarrow> nero_nfc_copy_bytes apdu apdu_cap 6 cbor cbor_len;
            if \<not> ok then Some (False, apdu, 0) else do {
              apdu \<leftarrow> wr apdu (6 + cbor_len) 0x00;
              Some (True, apdu, u16n (6 + cbor_len + 1))
            }
          } else do {
            apdu \<leftarrow> wr_list apdu 4 [0x00, byte (drop_bit 8 payload_len AND 0xFF),
                                 byte (payload_len AND 0xFF), ctap_cmd];
            (ok, apdu) \<leftarrow> nero_nfc_copy_bytes apdu apdu_cap 8 cbor cbor_len;
            if \<not> ok then Some (False, apdu, 0) else do {
              apdu \<leftarrow> wr apdu (8 + cbor_len) 0x00;
              apdu \<leftarrow> wr apdu (8 + cbor_len + 1) 0x00;
              Some (True, apdu, u16n (8 + cbor_len + 2))
            }
          }
        })"

section \<open>Selecting the FIDO application\<close>

definition NFC_CTAP_FIDO_AID :: bytes where
  "NFC_CTAP_FIDO_AID = [0xA0, 0x00, 0x00, 0x06, 0x47, 0x2F, 0x00, 0x01]"

definition nfc_ctap_fido_app_select_variant :: "nat \<Rightarrow> bool \<times> select_variant" where
  "nfc_ctap_fido_app_select_variant index =
     (let variants = [(0x00, False), (0x00, True), (0x0C, False), (0x0C, True)]
      in if index \<ge> 4 then (False, no_variant)
         else case variants ! index of (p2, le) \<Rightarrow>
           (True, \<lparr>sv_aid = Some NFC_CTAP_FIDO_AID, sv_aid_len = 8, sv_p2 = p2, sv_add_le_00 = le\<rparr>))"

function variant_match_loop :: "u8 \<Rightarrow> bool \<Rightarrow> nat \<Rightarrow> bool \<times> select_variant" where
  "variant_match_loop p2 add_le_00 i =
     (if i < 4 then
        (case nfc_ctap_fido_app_select_variant i of (ok, variant) \<Rightarrow>
           if \<not> ok then (False, no_variant)
           else if sv_p2 variant = p2 \<and> sv_add_le_00 variant = add_le_00 then (True, variant)
           else variant_match_loop p2 add_le_00 (i + 1))
      else (False, no_variant))"
  by pat_completeness auto
termination
  by (relation "measure (\<lambda>(p2, le, i). 4 - i)") auto

declare variant_match_loop.simps [simp del]

definition nfc_ctap_fido_app_select_variant_match :: "u8 \<Rightarrow> bool \<Rightarrow> bool \<times> select_variant" where
  "nfc_ctap_fido_app_select_variant_match p2 add_le_00 = variant_match_loop p2 add_le_00 0"

definition nfc_ctap_pack_select_fido_apdu :: "bool \<Rightarrow> cptr \<Rightarrow> nat \<Rightarrow> (bool \<times> cptr \<times> nat) option" where
  "nfc_ctap_pack_select_fido_apdu add_le_00 apdu apdu_cap =
     (if apdu = None then Some (False, apdu, 0)
      else case nfc_ctap_fido_app_select_variant_match 0x00 add_le_00 of (ok, variant) \<Rightarrow>
        if \<not> ok then Some (False, apdu, 0)
        else nfc_pcsc_build_select_aid_apdu (Some NFC_CTAP_FIDO_AID) 8 (sv_p2 variant)
               (sv_add_le_00 variant) apdu apdu_cap)"

datatype select_prep = PREP_NONE | PREP_RECOVER | PREP_SETTLE
datatype select_log = LOG_NONE | LOG_REOPEN | LOG_LAST_CHANCE

record webauthn_select_step =
  ws_variant_index :: nat
  ws_prep :: select_prep
  ws_log_before_prep :: select_log

definition nfc_ctap_fido_webauthn_select_step :: "nat \<Rightarrow> bool \<times> webauthn_select_step" where
  "nfc_ctap_fido_webauthn_select_step step =
     (let steps = [(1, PREP_NONE, LOG_NONE), (1, PREP_RECOVER, LOG_REOPEN),
                   (0, PREP_SETTLE, LOG_NONE), (1, PREP_RECOVER, LOG_LAST_CHANCE)]
      in if step \<ge> 4
         then (False, \<lparr>ws_variant_index = 0, ws_prep = PREP_NONE, ws_log_before_prep = LOG_NONE\<rparr>)
         else case steps ! step of (v, p, l) \<Rightarrow>
           (True, \<lparr>ws_variant_index = v, ws_prep = p, ws_log_before_prep = l\<rparr>))"

definition nfc_ctap_apdu_is_select_fido_aid :: "cptr \<Rightarrow> nat \<Rightarrow> (bool \<times> bool) option" where
  "nfc_ctap_apdu_is_select_fido_aid apdu apdu_len =
     (if apdu = None \<or> \<not> nfc_iso7816_apdu_min_len apdu_len 5 then Some (False, False)
      else do {
        cla \<leftarrow> rd apdu 0;
        ins \<leftarrow> rd apdu 1;
        p1 \<leftarrow> rd apdu 2;
        p2 \<leftarrow> rd apdu 3;
        if cla \<noteq> 0x00 \<or> ins \<noteq> 0xA4 \<or> p1 \<noteq> 0x04 \<or>
           \<not> fst (nfc_ctap_fido_app_select_variant_match p2 False)
        then Some (False, False)
        else do {
          (ok, lc) \<leftarrow> nfc_iso7816_apdu_lc apdu apdu_len;
          if \<not> ok \<or> lc \<noteq> 8 then Some (False, False)
          else if \<not> nfc_iso7816_apdu_lc_body_ok apdu_len lc \<and>
                  \<not> nfc_iso7816_apdu_lc_body_with_le_ok apdu_len lc then Some (False, False)
          else let aid = nfc_iso7816_apdu_data_ptr apdu apdu_len lc in
            if aid = None then Some (False, False)
            else do {
              same \<leftarrow> mem_eq aid (Some NFC_CTAP_FIDO_AID) 8;
              if \<not> same then Some (False, False)
              else if nfc_iso7816_apdu_lc_body_with_le_ok apdu_len lc then
                (if \<not> nero_nfc_span_ok (5 + unat lc) 1 apdu_len then Some (False, False)
                 else do {
                   le \<leftarrow> rd apdu (5 + unat lc);
                   if le \<noteq> 0x00 then Some (False, False)
                   else if \<not> fst (nfc_ctap_fido_app_select_variant_match p2 True)
                   then Some (False, False)
                   else Some (True, True)
                 })
              else Some (True, False)
            }
        }
      })"

section \<open>Recognising NFCCTAP commands\<close>

definition nfc_ctap_apdu_command :: "cptr \<Rightarrow> nat \<Rightarrow> (bool \<times> u8) option" where
  "nfc_ctap_apdu_command apdu apdu_len =
     (if apdu = None \<or> \<not> nfc_iso7816_apdu_min_len apdu_len 5 then Some (False, 0)
      else do {
        cla \<leftarrow> rd apdu 0;
        ins \<leftarrow> rd apdu 1;
        p1 \<leftarrow> rd apdu 2;
        p2 \<leftarrow> rd apdu 3;
        if cla \<noteq> 0x80 \<or> ins \<noteq> 0x10 \<or> p1 AND 0x7F \<noteq> 0x00 \<or> p2 \<noteq> 0x00 then Some (False, 0)
        else do {
          l \<leftarrow> rd apdu 4;
          if l \<noteq> 0x00 then do {
            (ok, lc8) \<leftarrow> nfc_iso7816_apdu_lc apdu apdu_len;
            if \<not> ok then Some (False, 0)
            else if \<not> nfc_iso7816_apdu_lc_body_ok apdu_len lc8 \<and>
                    \<not> nfc_iso7816_apdu_lc_body_with_le_ok apdu_len lc8 then Some (False, 0)
            else let payload = nfc_iso7816_apdu_data_ptr apdu apdu_len lc8 in
              if payload = None then Some (False, 0)
              else do { c \<leftarrow> rd payload 0; Some (True, c) }
          }
          else if apdu_len < 8 then Some (False, 0)
          else do {
            msb \<leftarrow> rd apdu 5;
            lsb \<leftarrow> rd apdu 6;
            let lc = be16 msb lsb;
            case Option.bind (nero_nfc_try_add_size 7 lc)
                   (\<lambda>no_le. map_option (Pair no_le) (nero_nfc_try_add_size no_le 2)) of
              None \<Rightarrow> Some (False, 0)
            | Some (no_le, with_le) \<Rightarrow>
                if lc = 0 \<or> (apdu_len \<noteq> no_le \<and> apdu_len \<noteq> with_le) then Some (False, 0)
                else do { c \<leftarrow> rd apdu 7; Some (True, c) }
          }
        }
      })"

definition nfc_ctap_response_more_data :: "cptr \<Rightarrow> int \<Rightarrow> bool option" where
  "nfc_ctap_response_more_data resp rlen = do {
     (ok, sw1, sw2) \<leftarrow> nfc_iso7816_response_sw resp rlen;
     Some (ok \<and> sw1 = 0x91 \<and> sw2 = 0x00)
   }"

definition nfc_ctap_apdu_is_getresponse :: "cptr \<Rightarrow> nat \<Rightarrow> bool option" where
  "nfc_ctap_apdu_is_getresponse apdu apdu_len =
     (if apdu = None \<or> apdu_len < 4 then Some False
      else do {
        cla \<leftarrow> rd apdu 0;
        ins \<leftarrow> rd apdu 1;
        p1 \<leftarrow> rd apdu 2;
        p2 \<leftarrow> rd apdu 3;
        Some (cla = 0x80 \<and> ins = 0x11 \<and> p2 = 0x00 \<and> (p1 = 0x00 \<or> p1 = 0x11))
      })"

definition nfc_ctap_apdu_is_control_end :: "cptr \<Rightarrow> nat \<Rightarrow> bool option" where
  "nfc_ctap_apdu_is_control_end apdu apdu_len =
     (if apdu = None \<or> apdu_len < 4 then Some False
      else do {
        cla \<leftarrow> rd apdu 0;
        ins \<leftarrow> rd apdu 1;
        p1 \<leftarrow> rd apdu 2;
        p2 \<leftarrow> rd apdu 3;
        if cla \<noteq> 0x80 \<or> ins \<noteq> 0x12 \<or> p1 \<noteq> 0x01 \<or> p2 \<noteq> 0x00 then Some False
        else if apdu_len = 4 then Some True
        else if apdu_len = 5 then do { le \<leftarrow> rd apdu 4; Some (le = 0x00) }
        else Some False
      })"

definition nfc_ctap_apdu_needs_ccid_time_extension :: "cptr \<Rightarrow> nat \<Rightarrow> bool option" where
  "nfc_ctap_apdu_needs_ccid_time_extension apdu apdu_len = do {
     (sel, _) \<leftarrow> nfc_ctap_apdu_is_select_fido_aid apdu apdu_len;
     if sel then Some True
     else do {
       get \<leftarrow> nfc_ctap_apdu_is_getresponse apdu apdu_len;
       if get then Some True
       else do {
         (ok, ctap_cmd) \<leftarrow> nfc_ctap_apdu_command apdu apdu_len;
         Some (ok \<and> (ctap_cmd = 0x01 \<or> ctap_cmd = 0x02 \<or> ctap_cmd = 0x06))
       }
     }
   }"

definition nfc_ccid_xfr_payload_needs_time_extension :: "cptr \<Rightarrow> nat \<Rightarrow> bool option" where
  "nfc_ccid_xfr_payload_needs_time_extension payload payload_len =
     (if payload = None then Some False
      else if payload_len \<ge> 64 then Some True
      else nfc_ctap_apdu_needs_ccid_time_extension payload payload_len)"

section \<open>Token responses\<close>

datatype relay_disposition = RELAY_PASSTHROUGH | RELAY_FAIL_CLOSED

definition nfc_ctap_relay_response_disposition :: "cptr \<Rightarrow> nat \<Rightarrow> relay_disposition option" where
  "nfc_ctap_relay_response_disposition raw raw_len =
     (if raw = None \<or> raw_len < 2 then Some RELAY_FAIL_CLOSED
      else do {
        msb \<leftarrow> rd raw (raw_len - 2);
        lsb \<leftarrow> rd raw (raw_len - 1);
        let sw = be16 msb lsb;
        if sw = 0x9000 then Some RELAY_PASSTHROUGH
        else if sw AND 0xFF00 = 0x6100 \<or> sw AND 0xFF00 = 0x9100 then Some RELAY_PASSTHROUGH
        else if sw \<ge> 0x6200 \<and> sw \<le> 0x6FFF then
          (if raw_len \<ge> 3 then do {
             st \<leftarrow> rd raw 0;
             Some (if st = 0x00 then RELAY_FAIL_CLOSED else RELAY_PASSTHROUGH)
           } else Some RELAY_PASSTHROUGH)
        else Some RELAY_FAIL_CLOSED
      })"

text \<open>The caller may pass no output buffer and ask for the length only.\<close>

definition nfc_ctap_dissect_response ::
    "cptr \<Rightarrow> nat \<Rightarrow> cptr \<Rightarrow> nat \<Rightarrow> (bool \<times> cptr \<times> nat) option" where
  "nfc_ctap_dissect_response raw raw_len inner_out inner_cap =
     (if raw = None \<or> raw_len < 2 then Some (False, inner_out, 0)
      else do {
        msb \<leftarrow> rd raw (raw_len - 2);
        lsb \<leftarrow> rd raw (raw_len - 1);
        if be16 msb lsb \<noteq> 0x9000 then Some (False, inner_out, 0)
        else if raw_len < 3 then Some (False, inner_out, 0)
        else do {
          st \<leftarrow> rd raw 0;
          if st \<noteq> 0x00 then Some (False, inner_out, 0)
          else let n = raw_len - 3 in
            if inner_out \<noteq> None then
              (if n > inner_cap then Some (False, inner_out, 0)
               else do {
                 (ok, inner_out) \<leftarrow> (if n > 0
                    then nero_nfc_copy_bytes inner_out inner_cap 0 (ptr_add raw 1) n
                    else Some (True, inner_out));
                 Some (if \<not> ok then (False, inner_out, 0) else (True, inner_out, n))
               })
            else Some (True, inner_out, n)
        }
      })"


section \<open>What the command encoder writes\<close>

definition cbor_apdu :: "u8 \<Rightarrow> bytes \<Rightarrow> bool \<Rightarrow> bytes" where
  "cbor_apdu ctap_cmd cbor force_extended =
     (let n = length cbor + 1 in
      if \<not> force_extended \<and> n \<le> 255
      then [0x80, 0x10, 0x80, 0x00, byte n, ctap_cmd] @ cbor @ [0x00]
      else [0x80, 0x10, 0x80, 0x00, 0x00, byte (n div 256), byte n, ctap_cmd] @ cbor @ [0x00, 0x00])"

lemma length_cbor_apdu:
  "length (cbor_apdu c cbor fe) = length cbor + (if \<not> fe \<and> length cbor + 1 \<le> 255 then 7 else 10)"
  by (simp add: cbor_apdu_def Let_def)

lemma pack_cbor_apdu_short:
  assumes "cap \<le> length bs" and "cap \<le> UINT16_MAX" and "n \<le> length cs" and "\<not> fe \<and> n + 1 \<le> 255"
  shows "nfc_ctap_pack_cbor_apdu cmd (Some cs) n fe (Some bs) cap =
    Some (if n + 7 \<le> cap then (True, Some (patch bs 0 (cbor_apdu cmd (take n cs) fe)), n + 7)
          else (False, Some bs, 0))"
proof (cases "n + 7 \<le> cap")
  case True
  define h4 where "h4 = [0x80, 0x10, 0x80, 0x00 :: u8]"
  define h6 where "h6 = h4 @ [byte (n + 1), cmd]"
  have l: "length h4 = 4" "length h6 = 6" by (simp_all add: h4_def h6_def)
  have room: "n + 7 \<le> length bs" using True assms(1) by simp
  have w4: "wr_list (Some bs) 0 h4 = Some (Some (patch bs 0 h4))"
    by (rule wr_list_Some) (use room l in simp)
  have w6: "wr_list (Some (patch bs 0 h4)) 4 [byte (n + 1), cmd] = Some (Some (patch bs 0 h6))"
    unfolding h6_def by (subst wr_list_Some; (subst patch_patch)?) (use room l in simp_all)
  have c: "patch (patch bs 0 h6) 6 (take n cs) = patch bs 0 (h6 @ take n cs)"
    by (rule patch_patch) (use room l assms(3) in simp_all)
  have e: "(patch bs 0 (h6 @ take n cs))[6 + n := 0] = patch bs 0 ((h6 @ take n cs) @ [0])"
    by (rule patch_update) (use room l assms(3) in simp_all)
  have "nfc_ctap_pack_cbor_apdu cmd (Some cs) n fe (Some bs) cap =
      Some (True, Some (patch bs 0 ((h6 @ take n cs) @ [0])), n + 7)"
    using True room w4 w6 c e l assms
    by (simp add: nfc_ctap_pack_cbor_apdu_def h4_def [symmetric] Let_def add.commute [of 6 n]
        del: One_nat_def)
  moreover have "cbor_apdu cmd (take n cs) fe = (h6 @ take n cs) @ [0]"
    using assms(3,4) by (simp add: cbor_apdu_def h6_def h4_def)
  ultimately show ?thesis using True by simp
next
  case False
  then show ?thesis using assms by (simp add: nfc_ctap_pack_cbor_apdu_def Let_def)
qed

lemma pack_cbor_apdu_extended:
  assumes "cap \<le> length bs" and "cap \<le> UINT16_MAX" and "n \<le> length cs" and "n \<le> UINT16_MAX"
    and "\<not> (\<not> fe \<and> n + 1 \<le> 255)"
  shows "nfc_ctap_pack_cbor_apdu cmd (Some cs) n fe (Some bs) cap =
    Some (if n + 10 \<le> cap then (True, Some (patch bs 0 (cbor_apdu cmd (take n cs) fe)), n + 10)
          else (False, Some bs, 0))"
proof (cases "n + 10 \<le> cap")
  case True
  define h4 where "h4 = [0x80, 0x10, 0x80, 0x00 :: u8]"
  define h8 where "h8 = h4 @ [0x00, byte ((n + 1) div 256), byte (n + 1), cmd]"
  have l: "length h4 = 4" "length h8 = 8" by (simp_all add: h4_def h8_def)
  have room: "n + 10 \<le> length bs" using True assms(1) by simp
  have w4: "wr_list (Some bs) 0 h4 = Some (Some (patch bs 0 h4))"
    by (rule wr_list_Some) (use room l in simp)
  have w8: "wr_list (Some (patch bs 0 h4)) 4 [0x00, byte ((n + 1) div 256), byte (n + 1), cmd] =
      Some (Some (patch bs 0 h8))"
    unfolding h8_def by (subst wr_list_Some; (subst patch_patch)?) (use room l in simp_all)
  have c: "patch (patch bs 0 h8) 8 (take n cs) = patch bs 0 (h8 @ take n cs)"
    by (rule patch_patch) (use room l assms(3) in simp_all)
  have e1: "(patch bs 0 (h8 @ take n cs))[8 + n := 0] = patch bs 0 ((h8 @ take n cs) @ [0])"
    by (rule patch_update) (use room l assms(3) in simp_all)
  have e2: "(patch bs 0 ((h8 @ take n cs) @ [0]))[8 + n + 1 := 0] =
      patch bs 0 (((h8 @ take n cs) @ [0]) @ [0])"
    by (rule patch_update) (use room l assms(3) in simp_all)
  have "nfc_ctap_pack_cbor_apdu cmd (Some cs) n fe (Some bs) cap =
      Some (True, Some (patch bs 0 (((h8 @ take n cs) @ [0]) @ [0])), n + 10)"
    using True room w4 w8 c e1 e2 l assms
    by (auto simp: nfc_ctap_pack_cbor_apdu_def h4_def [symmetric] Let_def drop_bit_eq_div
        simp del: One_nat_def)
  moreover have "cbor_apdu cmd (take n cs) fe = ((h8 @ take n cs) @ [0]) @ [0]"
    using assms(3,5) by (auto simp: cbor_apdu_def h8_def h4_def Let_def)
  ultimately show ?thesis using True by simp
next
  case False
  then show ?thesis using assms by (auto simp: nfc_ctap_pack_cbor_apdu_def Let_def nero_nfc_try_add_size_def)
qed

lemma pack_cbor_apdu_eq:
  assumes "cap \<le> length bs" and "cap \<le> UINT16_MAX" and "n \<le> length cs" and "n \<le> UINT16_MAX"
  shows "nfc_ctap_pack_cbor_apdu cmd (Some cs) n fe (Some bs) cap =
    Some (if length (cbor_apdu cmd (take n cs) fe) \<le> cap
          then (True, Some (patch bs 0 (cbor_apdu cmd (take n cs) fe)), length (cbor_apdu cmd (take n cs) fe))
          else (False, Some bs, 0))"
proof (cases "\<not> fe \<and> n + 1 \<le> 255")
  case True
  with pack_cbor_apdu_short [OF assms(1-3), of fe cmd] assms(3) show ?thesis
    by (simp add: length_cbor_apdu)
next
  case False
  with pack_cbor_apdu_extended [OF assms, of fe cmd] assms(3) show ?thesis
    by (auto simp: length_cbor_apdu)
qed


lemma apdu_command_cbor_apdu:
  assumes "length cbor \<le> 65534"
  shows "nfc_ctap_apdu_command (Some (cbor_apdu cmd cbor fe @ rest)) (length (cbor_apdu cmd cbor fe)) =
    Some (True, cmd)"
proof (cases "\<not> fe \<and> length cbor + 1 \<le> 255")
  case True
  then have b: "unat (byte (length cbor + 1)) = length cbor + 1" by simp
  then have nz: "byte (length cbor + 1) \<noteq> 0" by (metis add_is_0 one_neq_zero unsigned_0)
  from True show ?thesis using b nz
    by (simp add: nfc_ctap_apdu_command_def cbor_apdu_def Let_def)
next
  case False
  have n: "length cbor + 1 < 65536" using assms by simp
  from False have e: "cbor_apdu cmd cbor fe =
      [0x80, 0x10, 0x80, 0x00, 0x00, byte ((length cbor + 1) div 256), byte (length cbor + 1), cmd] @
      cbor @ [0x00, 0x00]"
    by (auto simp: cbor_apdu_def Let_def)
  show ?thesis unfolding e using be16_bytes [OF n] n
    by (simp add: nfc_ctap_apdu_command_def Let_def)
qed

text \<open>
  a CTAP command packed into a buffer is recognised as that command, in short and in
  extended form; packing succeeds exactly when the encoded APDU fits the buffer, and then
  changes only its first bytes.
\<close>

theorem pack_command_roundtrip:
  assumes "cap \<le> length bs" and "cap \<le> UINT16_MAX" and "length cbor \<le> UINT16_MAX"
  shows "\<exists>ok out n. nfc_ctap_pack_cbor_apdu cmd (Some cbor) (length cbor) fe (Some bs) cap =
      Some (ok, Some out, n) \<and>
    (ok \<longleftrightarrow> length (cbor_apdu cmd cbor fe) \<le> cap) \<and>
    (ok \<longrightarrow> take n out = cbor_apdu cmd cbor fe \<and> drop n out = drop n bs \<and>
       nfc_ctap_apdu_command (Some out) n = Some (True, cmd)) \<and>
    (\<not> ok \<longrightarrow> out = bs \<and> n = 0)"
proof (cases "length (cbor_apdu cmd cbor fe) \<le> cap")
  case True
  define x where "x = cbor_apdu cmd cbor fe"
  have lx: "length x \<le> length bs" using True assms(1) by (simp add: x_def)
  have "length cbor \<le> 65534" using True assms(2) by (simp add: length_cbor_apdu split: if_splits)
  moreover have "patch bs 0 x = x @ drop (length x) bs" by (simp add: patch_def)
  ultimately have "nfc_ctap_apdu_command (Some (patch bs 0 x)) (length x) = Some (True, cmd)"
    using apdu_command_cbor_apdu [of cbor cmd fe] by (simp add: x_def)
  moreover have "nfc_ctap_pack_cbor_apdu cmd (Some cbor) (length cbor) fe (Some bs) cap =
      Some (True, Some (patch bs 0 x), length x)"
    using pack_cbor_apdu_eq [of cap bs "length cbor" cbor cmd fe] assms True by (simp add: x_def)
  ultimately show ?thesis
    using True lx drop_patch_front [of x "length x" bs] take_patch_front [of x bs]
    by (auto simp: x_def)
next
  case False
  then show ?thesis
    using pack_cbor_apdu_eq [of cap bs "length cbor" cbor cmd fe] assms by auto
qed

theorem pack_command_roundtrip_witness:
  "\<exists>out. nfc_ctap_pack_cbor_apdu 0x04 (Some [1, 2]) 2 False (Some (replicate 16 0)) 16 =
      Some (True, Some out, 9) \<and> nfc_ctap_apdu_command (Some out) 9 = Some (True, 0x04)"
proof -
  have "length (cbor_apdu 0x04 [1, 2] False) = 9" by (simp add: length_cbor_apdu)
  with pack_command_roundtrip [of 16 "replicate 16 0" "[1, 2]" "0x04" False] show ?thesis
    by (auto simp: pack_cbor_apdu_eq)
qed

section \<open>Selection\<close>

lemma variant_match_eq:
  "nfc_ctap_fido_app_select_variant_match p2 le =
    (if p2 = 0x00 \<or> p2 = 0x0C
     then (True, \<lparr>sv_aid = Some NFC_CTAP_FIDO_AID, sv_aid_len = 8, sv_p2 = p2, sv_add_le_00 = le\<rparr>)
     else (False, no_variant))"
proof -
  note step = variant_match_loop.simps [of p2 le]
  define v where "v q l = \<lparr>sv_aid = Some NFC_CTAP_FIDO_AID, sv_aid_len = 8, sv_p2 = q, sv_add_le_00 = l\<rparr>" for q l
  have var: "nfc_ctap_fido_app_select_variant 0 = (True, v 0x00 False)"
    "nfc_ctap_fido_app_select_variant 1 = (True, v 0x00 True)"
    "nfc_ctap_fido_app_select_variant 2 = (True, v 0x0C False)"
    "nfc_ctap_fido_app_select_variant 3 = (True, v 0x0C True)"
    by (simp_all add: nfc_ctap_fido_app_select_variant_def v_def)
  have l4: "variant_match_loop p2 le 4 = (False, no_variant)" by (subst step) simp
  have l3: "variant_match_loop p2 le 3 =
      (if p2 = 0x0C \<and> le then (True, v 0x0C True) else (False, no_variant))"
    by (subst step) (auto simp: var l4 v_def)
  have l2: "variant_match_loop p2 le 2 =
      (if p2 = 0x0C \<and> \<not> le then (True, v 0x0C False) else variant_match_loop p2 le 3)"
    by (subst step) (auto simp: var v_def)
  have l1: "variant_match_loop p2 le 1 =
      (if p2 = 0x00 \<and> le then (True, v 0x00 True) else variant_match_loop p2 le 2)"
    by (subst step) (auto simp: var v_def numeral_2_eq_2 simp del: One_nat_def)
  have l0: "variant_match_loop p2 le 0 =
      (if p2 = 0x00 \<and> \<not> le then (True, v 0x00 False) else variant_match_loop p2 le 1)"
    by (subst step) (auto simp: var v_def)
  show ?thesis
    unfolding nfc_ctap_fido_app_select_variant_match_def l0 l1 l2 l3 v_def by auto
qed

definition select_fido_apdu :: "u8 \<Rightarrow> bool \<Rightarrow> bytes" where
  "select_fido_apdu p2 le = [0x00, 0xA4, 0x04, p2, 0x08] @ NFC_CTAP_FIDO_AID @ (if le then [0] else [])"

lemma length_select_fido_apdu [simp]: "length (select_fido_apdu p2 le) = 13 + of_bool le"
  by (simp add: select_fido_apdu_def NFC_CTAP_FIDO_AID_def)

lemma thirteen_cells:
  assumes "13 \<le> length bs"
  obtains a b c d e f g h i j k l m r where
    "bs = a # b # c # d # e # f # g # h # i # j # k # l # m # r"
  using assms by (auto simp: Suc_le_length_iff numeral_eq_Suc)

text \<open>The recogniser accepts exactly the four encodings of the selection command.\<close>

lemma is_select_fido_iff:
  assumes "n \<le> length bs" and "n \<le> UINT16_MAX"
  shows "nfc_ctap_apdu_is_select_fido_aid (Some bs) n =
    Some (if \<exists>p2 \<in> {0x00, 0x0C}. take n bs = select_fido_apdu p2 False then (True, False)
          else if \<exists>p2 \<in> {0x00, 0x0C}. take n bs = select_fido_apdu p2 True then (True, True)
          else (False, False))"
proof (cases "n = 13 \<or> n = 14")
  case False
  have no: "take n bs \<noteq> select_fido_apdu p2 le" for p2 le
  proof
    assume "take n bs = select_fido_apdu p2 le"
    then have "length (take n bs) = 13 + of_bool le" by (simp only: length_select_fido_apdu)
    with False assms(1) show False by (cases le) simp_all
  qed
  have "nfc_ctap_apdu_is_select_fido_aid (Some bs) n = Some (False, False)"
  proof (cases "5 \<le> n \<and> bs ! 4 = 8")
    case True
    then show ?thesis using assms False
      by (simp add: nfc_ctap_apdu_is_select_fido_aid_def Let_def)
  next
    case no8: False
    then show ?thesis using assms
      by (auto simp: nfc_ctap_apdu_is_select_fido_aid_def Let_def)
  qed
  then show ?thesis by (simp add: no)
next
  case True
  then have "13 \<le> length bs" using assms(1) by auto
  then obtain a b c d e f g h i j k l m r where
      bs: "bs = a # b # c # d # e # f # g # h # i # j # k # l # m # r"
    by (rule thirteen_cells)
  show ?thesis
  proof (cases "n = 13")
    case n: True
    show ?thesis unfolding bs n
      by (simp add: nfc_ctap_apdu_is_select_fido_aid_def select_fido_apdu_def NFC_CTAP_FIDO_AID_def
          variant_match_eq Let_def)
  next
    case False
    with True have n: "n = 14" by simp
    then obtain x r' where r: "r = x # r'" using assms(1) bs by (cases r) auto
    show ?thesis unfolding bs n r
      by (simp add: nfc_ctap_apdu_is_select_fido_aid_def select_fido_apdu_def NFC_CTAP_FIDO_AID_def
          variant_match_eq Let_def)
  qed
qed


lemma pack_select_fido_eq:
  assumes "cap \<le> length bs" and "cap \<le> UINT16_MAX"
  shows "nfc_ctap_pack_select_fido_apdu le (Some bs) cap =
    Some (if 13 + of_bool le \<le> cap
          then (True, Some (patch bs 0 (select_fido_apdu 0x00 le)), 13 + of_bool le)
          else (False, Some bs, 0))"
proof -
  have "take 8 NFC_CTAP_FIDO_AID = NFC_CTAP_FIDO_AID" by (simp add: NFC_CTAP_FIDO_AID_def)
  moreover have "8 \<le> length NFC_CTAP_FIDO_AID" by (simp add: NFC_CTAP_FIDO_AID_def)
  ultimately show ?thesis
    using select_aid_apdu_eq [OF assms, of 8 NFC_CTAP_FIDO_AID "0x00" le]
    by (simp add: nfc_ctap_pack_select_fido_apdu_def variant_match_eq select_fido_apdu_def)
qed

text \<open>
  the recogniser of FIDO application selection accepts exactly the four encodings of the
  command (P2 00 or 0C, with and without a zero Le), tells which has Le, and accepts what the
  packer builds.
\<close>

theorem select_fido_exact:
  assumes "n \<le> length bs" and "n \<le> UINT16_MAX"
  shows "\<exists>sel le. nfc_ctap_apdu_is_select_fido_aid (Some bs) n = Some (sel, le) \<and>
    (sel \<longleftrightarrow> (\<exists>p2 \<in> {0x00, 0x0C}. take n bs = select_fido_apdu p2 le)) \<and>
    (n \<ge> 14 \<longrightarrow> (\<exists>out k. nfc_ctap_pack_select_fido_apdu b (Some bs) n = Some (True, Some out, k) \<and>
       nfc_ctap_apdu_is_select_fido_aid (Some out) k = Some (True, b)))"
proof -
  have inj: "select_fido_apdu p2 False \<noteq> select_fido_apdu q2 True" for p2 q2
    using length_select_fido_apdu [of p2 False] length_select_fido_apdu [of q2 True]
    by (metis add_left_cancel of_bool_eq(1,2) zero_neq_one)
  have "\<exists>out k. nfc_ctap_pack_select_fido_apdu b (Some bs) n = Some (True, Some out, k) \<and>
       nfc_ctap_apdu_is_select_fido_aid (Some out) k = Some (True, b)" if n: "n \<ge> 14"
  proof -
    define x where "x = select_fido_apdu 0x00 b"
    define out where "out = patch bs 0 x"
    have lx: "length x = 13 + of_bool b" by (simp add: x_def)
    have fits: "13 + of_bool b \<le> n" using n by (cases b) simp_all
    then have "length x \<le> length bs" using lx assms(1) by simp
    then have t: "take (13 + of_bool b) out = x" and lo: "length out = length bs"
      using take_patch_front [of x bs] lx by (simp_all add: out_def)
    have "nfc_ctap_apdu_is_select_fido_aid (Some out) (13 + of_bool b) = Some (True, b)"
      using is_select_fido_iff [of "13 + of_bool b" out] t lo fits assms inj
      by (cases b) (auto simp: x_def dest: sym)
    moreover have "nfc_ctap_pack_select_fido_apdu b (Some bs) n = Some (True, Some out, 13 + of_bool b)"
      using pack_select_fido_eq [OF assms, of b] fits by (simp add: out_def x_def)
    ultimately show ?thesis by blast
  qed
  then show ?thesis using is_select_fido_iff [OF assms] inj by auto
qed

theorem select_fido_exact_witness:
  "\<exists>out k. nfc_ctap_pack_select_fido_apdu True (Some (replicate 20 0)) 20 = Some (True, Some out, k) \<and>
     nfc_ctap_apdu_is_select_fido_aid (Some out) k = Some (True, True)"
  using select_fido_exact [of 20 "replicate 20 0" True] by simp

section \<open>Relaying responses\<close>

text \<open>
  the relay passes a token response on exactly when it ends in one of the defined status
  words, and never one that pairs a CTAP success byte with an error status; anything else, an
  empty or truncated response included, is refused.
\<close>

theorem relay_disposition_exact:
  assumes "n \<le> length raw"
  shows "\<exists>d. nfc_ctap_relay_response_disposition (Some raw) n = Some d \<and>
    (d = RELAY_PASSTHROUGH \<longleftrightarrow> 2 \<le> n \<and>
       (let sw1 = unat (raw ! (n - 2)); sw2 = unat (raw ! (n - 1)) in
        (sw1 = 0x90 \<and> sw2 = 0) \<or> sw1 = 0x61 \<or> sw1 = 0x91 \<or>
        (0x62 \<le> sw1 \<and> sw1 \<le> 0x6F \<and> (n = 2 \<or> raw ! 0 \<noteq> 0))))"
proof (cases "2 \<le> n")
  case False
  then show ?thesis by (simp add: nfc_ctap_relay_response_disposition_def)
next
  case True
  define a where "a = raw ! (n - 2)"
  define b where "b = raw ! (n - 1)"
  have rd: "rd (Some raw) (n - 2) = Some a" "rd (Some raw) (n - 1) = Some b" "rd (Some raw) 0 = Some (raw ! 0)"
    using True assms by (simp_all add: a_def b_def)
  have eqs: "be16 a b = 0x9000 \<longleftrightarrow> unat a = 0x90 \<and> unat b = 0"
    "unat a * 256 = 0x6100 \<longleftrightarrow> unat a = 0x61" "unat a * 256 = 0x9100 \<longleftrightarrow> unat a = 0x91"
    "be16 a b \<ge> 0x6200 \<longleftrightarrow> 0x62 \<le> unat a" "be16 a b \<le> 0x6FFF \<longleftrightarrow> unat a \<le> 0x6F"
    using be16_ge_iff [of "0x62" a b] be16_ge_iff [of "0x70" a b] by (simp_all add: be16_eq_iff, linarith)
  have "nfc_ctap_relay_response_disposition (Some raw) n =
      Some (if unat a = 0x90 \<and> unat b = 0 \<or> unat a = 0x61 \<or> unat a = 0x91 then RELAY_PASSTHROUGH
            else if 0x62 \<le> unat a \<and> unat a \<le> 0x6F
            then (if 3 \<le> n \<and> raw ! 0 = 0 then RELAY_FAIL_CLOSED else RELAY_PASSTHROUGH)
            else RELAY_FAIL_CLOSED)"
    using True by (simp add: nfc_ctap_relay_response_disposition_def rd eqs Let_def del: One_nat_def)
  moreover have "n = 2 \<longleftrightarrow> \<not> 3 \<le> n" using True by linarith
  ultimately show ?thesis
    using True by (auto simp: Let_def a_def [symmetric] b_def [symmetric] simp del: One_nat_def)
qed

theorem relay_disposition_exact_witness:
  "nfc_ctap_relay_response_disposition (Some [0x00, 0xA1, 0x69, 0x85]) 4 = Some RELAY_FAIL_CLOSED \<and>
   nfc_ctap_relay_response_disposition (Some [0x2E, 0x69, 0x85]) 3 = Some RELAY_PASSTHROUGH"
proof -
  obtain d e where d: "nfc_ctap_relay_response_disposition (Some [0x00, 0xA1, 0x69, 0x85]) 4 = Some d"
      "d \<noteq> RELAY_PASSTHROUGH"
      and e: "nfc_ctap_relay_response_disposition (Some [0x2E, 0x69, 0x85]) 3 = Some e" "e = RELAY_PASSTHROUGH"
    using relay_disposition_exact [of 4 "[0x00, 0xA1, 0x69, 0x85]"]
      relay_disposition_exact [of 3 "[0x2E, 0x69, 0x85]"] by (auto simp: Let_def)
  moreover from d(2) have "d = RELAY_FAIL_CLOSED" by (cases d) simp_all
  ultimately show ?thesis by simp
qed

text \<open>
  dissecting a response yields the CBOR body of exactly the successful ones: a zero status
  byte, the body, and the status word 9000; the body is copied only into a buffer that holds it.
\<close>

theorem dissect_response_exact:
  assumes "n \<le> length raw" and "n \<le> UINT16_MAX" and "cap \<le> length bs"
  shows "\<exists>ok out k. nfc_ctap_dissect_response (Some raw) n (Some bs) cap = Some (ok, Some out, k) \<and>
    (ok \<longleftrightarrow> (\<exists>body. take n raw = 0x00 # body @ [0x90, 0x00] \<and> length body \<le> cap)) \<and>
    (ok \<longrightarrow> take n raw = 0x00 # take k out @ [0x90, 0x00] \<and> drop k out = drop k bs) \<and>
    (\<not> ok \<longrightarrow> out = bs \<and> k = 0)"
proof -
  have shape: "take n raw = 0x00 # body @ [0x90, 0x00] \<longleftrightarrow>
      3 \<le> n \<and> raw ! 0 = 0x00 \<and> raw ! (n - 2) = 0x90 \<and> raw ! (n - 1) = 0x00 \<and> body = take (n - 3) (drop 1 raw)"
    for body
  proof
    assume t: "take n raw = 0x00 # body @ [0x90, 0x00]"
    have "length (take n raw) = n" using assms(1) by simp
    moreover have "length (0x00 # body @ [0x90, 0x00 :: u8]) = length body + 3" by simp
    ultimately have l: "n = length body + 3" using t by metis
    have "raw ! i = (0x00 # body @ [0x90, 0x00]) ! i" if "i < n" for i
      using t that by (metis nth_take)
    from this [of 0] this [of "n - 2"] this [of "n - 1"] l
    have "raw ! 0 = 0x00 \<and> raw ! (n - 2) = 0x90 \<and> raw ! (n - 1) = 0x00"
      by (simp add: nth_append)
    moreover have "take (n - 3) (drop 1 raw) = body"
    proof -
      have "take (n - 3) (drop 1 raw) = take (n - 3) (drop 1 (take n raw))"
        using l by (simp add: take_drop min_def)
      also have "\<dots> = body" unfolding t using l by simp
      finally show ?thesis .
    qed
    ultimately show "3 \<le> n \<and> raw ! 0 = 0x00 \<and> raw ! (n - 2) = 0x90 \<and> raw ! (n - 1) = 0x00 \<and>
        body = take (n - 3) (drop 1 raw)" using l by simp
  next
    assume a: "3 \<le> n \<and> raw ! 0 = 0x00 \<and> raw ! (n - 2) = 0x90 \<and> raw ! (n - 1) = 0x00 \<and>
        body = take (n - 3) (drop 1 raw)"
    show "take n raw = 0x00 # body @ [0x90, 0x00]"
    proof (rule nth_equalityI)
      show "length (take n raw) = length (0x00 # body @ [0x90, 0x00])" using a assms(1) by auto
      fix i assume "i < length (take n raw)"
      then have i: "i < n" by simp
      consider "i = 0" | "1 \<le> i" "i < n - 2" | "i = n - 2" | "i = n - 1" using i by linarith
      then show "take n raw ! i = (0x00 # body @ [0x90, 0x00]) ! i"
        using a i assms(1) by cases (auto simp: nth_append nth_Cons' simp del: One_nat_def)
    qed
  qed
  define body where "body = take (n - 3) (drop 1 raw)"
  have lb: "3 \<le> n \<Longrightarrow> length body = n - 3" using assms(1) by (simp add: body_def)
  have good: "(\<exists>b. take n raw = 0x00 # b @ [0x90, 0x00] \<and> length b \<le> cap) \<longleftrightarrow>
      3 \<le> n \<and> raw ! 0 = 0x00 \<and> raw ! (n - 2) = 0x90 \<and> raw ! (n - 1) = 0x00 \<and> n - 3 \<le> cap"
    by (simp only: shape body_def [symmetric]) (use lb in auto)
  show ?thesis
  proof (cases "3 \<le> n \<and> raw ! 0 = 0x00 \<and> raw ! (n - 2) = 0x90 \<and> raw ! (n - 1) = 0x00 \<and> n - 3 \<le> cap")
    case True
    have sw: "be16 0x90 0x00 = 0x9000" by (simp add: be16_eq)
    have "nfc_ctap_dissect_response (Some raw) n (Some bs) cap = Some (True, Some (patch bs 0 body), n - 3)"
    proof (cases "n = 3")
      case n3: True
      then show ?thesis using True assms sw
        by (simp add: nfc_ctap_dissect_response_def body_def Let_def)
    next
      case False
      have cp: "nero_nfc_copy_bytes (Some bs) cap 0 (ptr_add (Some raw) 1) (n - 3) =
          Some (True, Some (patch bs 0 body))"
        using True assms False
        by (simp add: nero_nfc_copy_bytes_def nero_nfc_span_ok_def nero_nfc_try_add_size_def body_def)
      have "rd (Some raw) (n - 2) = Some 0x90" "rd (Some raw) (n - 1) = Some 0x00" "rd (Some raw) 0 = Some 0x00"
        using True assms(1) by auto
      then show ?thesis using True sw False cp
        by (simp add: nfc_ctap_dissect_response_def Let_def del: One_nat_def ptr_add_Some)
    qed
    moreover have "take (n - 3) (patch bs 0 body) = body" "drop (n - 3) (patch bs 0 body) = drop (n - 3) bs"
      using True assms(3) lb take_patch_front [of body bs] drop_patch_front [of body "n - 3" bs] by simp_all
    ultimately show ?thesis using True good shape [of body] by (auto simp: body_def)
  next
    case False
    have sw: "be16 a b = 0x9000 \<longleftrightarrow> a = 0x90 \<and> b = 0x00" for a b
    proof -
      have "be16 a b = 0x9000 \<longleftrightarrow> unat a = 0x90 \<and> unat b = 0"
        by (simp add: be16_eq_iff)
      also have "\<dots> \<longleftrightarrow> a = 0x90 \<and> b = 0x00" by (simp add: word_unat_eq_iff)
      finally show ?thesis .
    qed
    have "nfc_ctap_dissect_response (Some raw) n (Some bs) cap = Some (False, Some bs, 0)"
    proof (cases "n < 2")
      case False
      then have "rd (Some raw) (n - 2) = Some (raw ! (n - 2))" "rd (Some raw) (n - 1) = Some (raw ! (n - 1))"
        "rd (Some raw) 0 = Some (raw ! 0)" using assms(1) by simp_all
      then show ?thesis using False \<open>\<not> (3 \<le> n \<and> _)\<close>
        by (auto simp: nfc_ctap_dissect_response_def sw Let_def)
    qed (simp add: nfc_ctap_dissect_response_def)
    with False good show ?thesis by blast
  qed
qed

theorem dissect_response_exact_witness:
  "\<exists>ok out k. nfc_ctap_dissect_response (Some [0x00, 0xA0, 0x90, 0x00]) 4 (Some (replicate 8 0)) 8 =
     Some (ok, Some out, k) \<and> (ok \<longrightarrow> take 4 [0x00, 0xA0, 0x90, 0x00] = 0x00 # take k out @ [0x90, 0x00])"
  using dissect_response_exact [of 4 "[0x00, 0xA0, 0x90, 0x00]" 8 "replicate 8 0"] by auto


section \<open>What the getAssertion encoder writes\<close>

definition cbor_bytes_hdr :: "nat \<Rightarrow> bytes" where
  "cbor_bytes_hdr n = (if n \<le> 23 then [byte (0x40 + n)]
     else if n \<le> 255 then [0x58, byte n] else [0x59, byte (n div 256), byte n])"

definition cbor_text_hdr :: "nat \<Rightarrow> bytes" where
  "cbor_text_hdr n = (if n \<le> 23 then [byte (0x60 + n)] else [0x78, byte n])"

definition cred_descriptor :: "bytes \<Rightarrow> bytes" where
  "cred_descriptor cred = [0xA2] @ K_NFC_CTAP_PK_CRED_TYPE_KEY @ K_NFC_CTAP_PK_CRED_TYPE_PUBLIC_KEY @
     cbor_bytes_hdr (length cred) @ cred"

definition get_assertion_bytes :: "bytes \<Rightarrow> bytes \<Rightarrow> bytes option \<Rightarrow> bytes" where
  "get_assertion_bytes rp hash allow =
     [if allow = None then 0xA3 else 0xA4, 0x01] @ cbor_text_hdr (length rp) @ rp @
     [0x02, 0x58, 32] @ hash @
     (case allow of None \<Rightarrow> [] | Some cred \<Rightarrow> [0x03, 0x81] @ cred_descriptor cred) @
     [0x05, 0xA2] @ K_NFC_CTAP_OPTIONS_UP @ K_NFC_CTAP_OPTIONS_UV"

lemma length_constants [simp]:
  "length K_NFC_CTAP_PK_CRED_TYPE_KEY = 5" "length K_NFC_CTAP_PK_CRED_TYPE_PUBLIC_KEY = 11"
  "length K_NFC_CTAP_OPTIONS_UP = 4" "length K_NFC_CTAP_OPTIONS_UV = 4"
  by (simp_all add: K_NFC_CTAP_PK_CRED_TYPE_KEY_def K_NFC_CTAP_PK_CRED_TYPE_PUBLIC_KEY_def
      K_NFC_CTAP_OPTIONS_UP_def K_NFC_CTAP_OPTIONS_UV_def)

lemma take_constants [simp]:
  "take 5 K_NFC_CTAP_PK_CRED_TYPE_KEY = K_NFC_CTAP_PK_CRED_TYPE_KEY"
  "take 11 K_NFC_CTAP_PK_CRED_TYPE_PUBLIC_KEY = K_NFC_CTAP_PK_CRED_TYPE_PUBLIC_KEY"
  "take 4 K_NFC_CTAP_OPTIONS_UP = K_NFC_CTAP_OPTIONS_UP"
  "take 4 K_NFC_CTAP_OPTIONS_UV = K_NFC_CTAP_OPTIONS_UV"
  by simp_all

text \<open>
  One append of an encoder, in the two forms the code uses. \<open>pre\<close> is what has been written
  from offset \<open>off\<close> on.
\<close>

lemma append_run:
  "off + length pre + length ys \<le> length bs \<Longrightarrow> k = off + length pre \<Longrightarrow>
    wr_list (Some (patch bs off pre)) k ys = Some (Some (patch bs off (pre @ ys)))"
  by (simp add: wr_list_Some patch_patch)

lemma append_copy:
  "off + length pre + n \<le> cap \<Longrightarrow> cap \<le> length bs \<Longrightarrow> cap \<le> SIZE_MAX \<Longrightarrow> n \<le> length s \<Longrightarrow>
    k = off + length pre \<Longrightarrow>
    nero_nfc_copy_bytes (Some (patch bs off pre)) cap k (Some s) n =
      Some (True, Some (patch bs off (pre @ take n s)))"
  by (simp add: patch_patch)

lemma emit_descriptor_eq:
  assumes "m \<le> length bs" and "m \<le> UINT16_MAX" and "n \<le> length cs" and "0 < n"
  shows "emit_pk_cred_descriptor (Some cs) n (Some bs) m p =
    (if p + 50 + length (cbor_bytes_hdr n) + n \<le> m
     then Some (True, Some (patch bs p (cred_descriptor (take n cs))),
                p + length (cred_descriptor (take n cs)))
     else Some (False, Some bs, p))"
proof -
  define h where "h = length (cbor_bytes_hdr n)"
  have h: "(if n \<le> 23 then 1 else if n \<le> 255 then 2 else 3) = h" by (simp add: h_def cbor_bytes_hdr_def)
  have hdr: "(if n \<le> 23 then [byte (0x40 + n)] else if n \<le> 255 then [0x58, byte n]
      else [0x59, byte (drop_bit 8 n AND 0xFF), byte (n AND 0xFF)]) = cbor_bytes_hdr n"
    by (simp add: cbor_bytes_hdr_def drop_bit_eq_div)
  show ?thesis
  proof (cases "p + 50 + h + n \<le> m")
    case True
    define a where "a = [0xA2 :: u8]"
    define b where "b = a @ K_NFC_CTAP_PK_CRED_TYPE_KEY"
    define c where "c = b @ K_NFC_CTAP_PK_CRED_TYPE_PUBLIC_KEY"
    define d where "d = c @ cbor_bytes_hdr n"
    define e where "e = d @ take n cs"
    have len: "length a = 1" "length b = 6" "length c = 17" "length d = 17 + h" "length e = 17 + h + n"
      using assms(3) by (simp_all add: a_def b_def c_def d_def e_def h_def)
    have room: "p + 17 + h + n \<le> length bs" using True assms(1) by linarith
    have a: "wr_list (Some bs) p [0xA2] = Some (Some (patch bs p a))"
      unfolding a_def by (rule wr_list_Some) (use room in simp)
    have b: "nero_nfc_copy_bytes (Some (patch bs p a)) m (p + 1) (Some K_NFC_CTAP_PK_CRED_TYPE_KEY) 5 =
        Some (True, Some (patch bs p b))"
      unfolding b_def by (subst append_copy) (use True assms len in simp_all)
    have c: "nero_nfc_copy_bytes (Some (patch bs p b)) m (p + 1 + 5)
        (Some K_NFC_CTAP_PK_CRED_TYPE_PUBLIC_KEY) 11 = Some (True, Some (patch bs p c))"
      unfolding c_def by (subst append_copy) (use True assms len in simp_all)
    have d: "wr_list (Some (patch bs p c)) (p + 1 + 5 + 11) (cbor_bytes_hdr n) = Some (Some (patch bs p d))"
      unfolding d_def by (rule append_run) (use room len h_def in simp_all)
    have e: "nero_nfc_copy_bytes (Some (patch bs p d)) m (p + 1 + 5 + 11 + h) (Some cs) n =
        Some (True, Some (patch bs p e))"
      unfolding e_def by (subst append_copy) (use True assms len in simp_all)
    have req: "Option.bind (nero_nfc_try_add_size p 50) (\<lambda>required. Option.bind (nero_nfc_try_add_size required h)
        (\<lambda>required. nero_nfc_try_add_size required n)) = Some (p + 50 + h + n)"
      using True assms(2) by (simp add: nero_nfc_try_add_size_def)
    have "emit_pk_cred_descriptor (Some cs) n (Some bs) m p =
        Some (True, Some (patch bs p e), p + 1 + 5 + 11 + h + n)"
      unfolding emit_pk_cred_descriptor_def Let_def h hdr req option.case
      using True assms(4)
      by (simp only: a b c d e h_def [symmetric] bind.bind_lunit prod.case simp_thms if_False if_True
          option.distinct not_less neq0_conv [symmetric]) simp
    moreover have "cred_descriptor (take n cs) = e"
      using assms(3) by (simp add: cred_descriptor_def a_def b_def c_def d_def e_def min_def)
    ultimately show ?thesis using True len by (simp add: h_def)
  next
    case False
    then show ?thesis using assms(2,4)
      unfolding emit_pk_cred_descriptor_def Let_def h
      by (auto simp: nero_nfc_try_add_size_def h_def)
  qed
qed


text \<open>
  The whole encoder. \<open>has\<close> says whether a credential is given; the capacity test of the
  descriptor asks for more room than the descriptor takes.
\<close>

definition get_assertion_room :: "nat \<Rightarrow> nat option \<Rightarrow> nat" where
  "get_assertion_room rplen cred = (case cred of
       None \<Rightarrow> 47 + length (cbor_text_hdr rplen) + rplen
     | Some n \<Rightarrow> 89 + length (cbor_text_hdr rplen) + rplen + length (cbor_bytes_hdr n) + n)"

lemma encode_get_assertion_eq:
  assumes m: "m \<le> length bs" "m \<le> UINT16_MAX" and hs: "32 \<le> length hs"
    and rp: "0 \<notin> set rp" "0 < length rp" "length rp \<le> 253"
    and cr: "case cred of None \<Rightarrow> crp = None \<or> crn = 0
             | Some c \<Rightarrow> \<exists>cs. crp = Some cs \<and> crn = length c \<and> 0 < crn \<and> crn \<le> length cs \<and> c = take crn cs"
    and crn: "crn \<le> UINT16_MAX"
  defines "g \<equiv> get_assertion_bytes rp (take 32 hs) cred"
  shows "\<exists>ok out n. nfc_ctap_encode_get_assertion (Some hs) (Some (rp @ 0 # rest)) crp crn (Some bs) m =
      Some (ok, Some out, n) \<and> length out = length bs \<and>
    (ok \<longleftrightarrow> get_assertion_room (length rp) (map_option length cred) \<le> m) \<and>
    (ok \<longrightarrow> out = patch bs 0 g \<and> n = length g) \<and> (\<not> ok \<longrightarrow> n = 0)"
proof -
  define has where "has \<longleftrightarrow> crp \<noteq> None \<and> crn > 0"
  define L where "L = length rp"
  define t where "t = length (cbor_text_hdr L)"
  define ih where "ih = length (cbor_bytes_hdr crn)"
  have th: "(if L \<le> 23 then 1 else 2) = t" "(if L \<le> 23 then [byte (0x60 + L)] else [0x78, byte L]) = cbor_text_hdr L"
    by (simp_all add: t_def cbor_text_hdr_def)
  have ih: "(if crn \<le> 23 then 1 else if crn \<le> 255 then 2 else 3) = ih" by (simp add: ih_def cbor_bytes_hdr_def)
  have small: "t \<le> 2" "ih \<le> 3" "L \<le> 253" "0 < L" using rp by (simp_all add: t_def ih_def cbor_text_hdr_def cbor_bytes_hdr_def L_def)
  have slen: "nero_nfc_bounded_strlen (Some (rp @ 0 # rest)) (253 + 1) = Some (Some L)"
    unfolding L_def by (rule bounded_strlen_terminated) (use rp in simp_all)
  define base where "base = 1 + 1 + t + L + 3 + 32 + 2 + 8"
  define req where "req = (if has then base + (2 + 20 + ih + crn) else base)"
  have reqs: "(if has then nero_nfc_try_add_size base (2 + 20 + ih + crn) else Some base) = Some req"
    using small crn by (simp add: req_def base_def nero_nfc_try_add_size_def)
  define a where "a = [if has then 0xA4 else 0xA3, 0x01 :: u8] @ cbor_text_hdr L"
  define b where "b = a @ rp"
  define c where "c = b @ [0x02, 0x58, 32]"
  define d where "d = c @ take 32 hs"
  have len: "length a = 2 + t" "length b = 2 + t + L" "length c = 2 + t + L + 3" "length d = 2 + t + L + 3 + 32"
    using hs by (simp_all add: a_def b_def c_def d_def t_def L_def)
  have case_has: "has \<longleftrightarrow> cred \<noteq> None" using cr by (auto simp: has_def split: option.splits)
  have room: "get_assertion_room L (map_option length cred) =
      (if has then 89 + t + L + ih + crn else 47 + t + L)"
    using cr case_has
    by (auto simp: get_assertion_room_def t_def ih_def split: option.splits)
  define tail where "tail = (\<lambda>(ok, out, p). if \<not> ok then Some (False, out, 0) else do {
          out \<leftarrow> wr_list out p [0x05, 0xA2];
          (ok, out) \<leftarrow> nero_nfc_copy_bytes out m (p + 2) (Some K_NFC_CTAP_OPTIONS_UP) 4;
          if \<not> ok then Some (False, out, 0) else do {
          (ok, out) \<leftarrow> nero_nfc_copy_bytes out m (p + 2 + 4) (Some K_NFC_CTAP_OPTIONS_UV) 4;
          if \<not> ok then Some (False, out, 0) else Some (True, out, p + 2 + 4 + 4 :: nat)
        }})"
  have tail_ok: "tail (True, Some (patch bs 0 x), length x) = Some (True, Some (patch bs 0
      (x @ [0x05, 0xA2] @ K_NFC_CTAP_OPTIONS_UP @ K_NFC_CTAP_OPTIONS_UV)), length x + 10)"
    if "length x + 10 \<le> m" for x
  proof -
    define y where "y = x @ [0x05, 0xA2]"
    define z where "z = y @ K_NFC_CTAP_OPTIONS_UP"
    define w where "w = z @ K_NFC_CTAP_OPTIONS_UV"
    have "wr_list (Some (patch bs 0 x)) (length x) [0x05, 0xA2] = Some (Some (patch bs 0 y))"
      unfolding y_def by (rule append_run) (use that m in simp_all)
    moreover have "nero_nfc_copy_bytes (Some (patch bs 0 y)) m (length x + 2) (Some K_NFC_CTAP_OPTIONS_UP) 4 =
        Some (True, Some (patch bs 0 z))"
      unfolding z_def by (subst append_copy) (use that m in \<open>simp_all add: y_def\<close>)
    moreover have "nero_nfc_copy_bytes (Some (patch bs 0 z)) m (length x + 2 + 4) (Some K_NFC_CTAP_OPTIONS_UV) 4 =
        Some (True, Some (patch bs 0 w))"
      unfolding w_def by (subst append_copy) (use that m in \<open>simp_all add: y_def z_def\<close>)
    ultimately show ?thesis
      unfolding tail_def prod.case
      by (simp only: bind.bind_lunit prod.case simp_thms if_False) (simp add: y_def z_def w_def)
  qed
  have enc: "nfc_ctap_encode_get_assertion (Some hs) (Some (rp @ 0 # rest)) crp crn (Some bs) m =
      (if req > m then Some (False, Some bs, 0)
       else Option.bind (if has then Option.bind (wr_list (Some (patch bs 0 d)) (length d) [0x03, 0x81])
                 (\<lambda>out. emit_pk_cred_descriptor crp crn out m (length d + 2))
               else Some (True, Some (patch bs 0 d), length d)) tail)"
  proof (cases "req \<le> m")
    case True
    have base: "base \<le> m" "base \<le> length bs" "base = 47 + t + L"
      using True m by (auto simp: req_def base_def split: if_splits)
    have a: "wr_list (Some bs) 0 a = Some (Some (patch bs 0 a))"
      by (rule wr_list_Some) (use base len in simp)
    have b: "nero_nfc_copy_bytes (Some (patch bs 0 a)) m (length a) (Some (rp @ 0 # rest)) L =
        Some (True, Some (patch bs 0 b))"
      unfolding b_def by (subst append_copy) (use base m len L_def in simp_all)
    have c: "wr_list (Some (patch bs 0 b)) (length a + L) [0x02, 0x58, 32] = Some (Some (patch bs 0 c))"
      unfolding c_def by (rule append_run) (use base len in simp_all)
    have d: "nero_nfc_copy_bytes (Some (patch bs 0 c)) m (length a + L + 3) (Some hs) 32 =
        Some (True, Some (patch bs 0 d))"
      unfolding d_def by (subst append_copy) (use base m len hs in simp_all)
    have ld: "length a + L + 3 + 32 = length d" using len by simp
    show ?thesis
      unfolding nfc_ctap_encode_get_assertion_def has_def [symmetric] tail_def
      using True small
      by (simp only: Let_def slen bind.bind_lunit prod.case option.case th ih base_def [symmetric] reqs
          a_def [symmetric] a b c d ld simp_thms if_False if_True option.distinct not_less
          neq0_conv [symmetric]) simp
  next
    case False
    then show ?thesis
      unfolding nfc_ctap_encode_get_assertion_def has_def [symmetric]
      using small
      by (simp only: Let_def slen bind.bind_lunit prod.case option.case th ih base_def [symmetric] reqs
          simp_thms if_False if_True option.distinct not_less neq0_conv [symmetric]) simp
  qed
  show ?thesis
  proof (cases cred)
    case None
    then have nh: "\<not> has" using case_has by simp
    then have r: "req = 47 + t + L" by (simp add: req_def base_def)
    have g: "g = d @ [0x05, 0xA2] @ K_NFC_CTAP_OPTIONS_UP @ K_NFC_CTAP_OPTIONS_UV"
      using None nh by (simp add: g_def get_assertion_bytes_def d_def c_def b_def a_def L_def)
    have lg: "length g = length d + 10" by (simp add: g)
    show ?thesis
    proof (cases "req \<le> m")
      case True
      then have "length d + 10 \<le> m" using len r by simp
      note tok = tail_ok [OF this]
      have "nfc_ctap_encode_get_assertion (Some hs) (Some (rp @ 0 # rest)) crp crn (Some bs) m =
          Some (True, Some (patch bs 0 g), length g)"
        unfolding enc g lg using True nh tok by simp
      moreover have "length (patch bs 0 g) = length bs"
        using \<open>length d + 10 \<le> m\<close> m lg by simp
      moreover have "get_assertion_room (length rp) (map_option length cred) \<le> m"
        using room nh True r by (simp add: L_def)
      ultimately show ?thesis by blast
    next
      case False
      then have "nfc_ctap_encode_get_assertion (Some hs) (Some (rp @ 0 # rest)) crp crn (Some bs) m =
          Some (False, Some bs, 0)" unfolding enc by simp
      moreover have "\<not> get_assertion_room (length rp) (map_option length cred) \<le> m"
        using room nh False r by (simp add: L_def)
      ultimately show ?thesis by blast
    qed
  next
    case (Some cd)
    then have h: has using case_has by simp
    obtain cs where cs: "crp = Some cs" "crn = length cd" "0 < crn" "crn \<le> length cs" "cd = take crn cs"
      using cr Some by auto
    define e where "e = d @ [0x03, 0x81]"
    define x where "x = e @ cred_descriptor cd"
    have g: "g = x @ [0x05, 0xA2] @ K_NFC_CTAP_OPTIONS_UP @ K_NFC_CTAP_OPTIONS_UV"
      using Some h by (simp add: g_def get_assertion_bytes_def x_def e_def d_def c_def b_def a_def L_def)
    have r: "req = 69 + t + L + ih + crn" using h by (simp add: req_def base_def)
    have le: "length e = length d + 2" by (simp add: e_def)
    have lx: "length x = length e + 17 + ih + crn"
      using cs(2) by (simp add: x_def cred_descriptor_def ih_def)
    show ?thesis
    proof (cases "req \<le> m")
      case False
      then have "nfc_ctap_encode_get_assertion (Some hs) (Some (rp @ 0 # rest)) crp crn (Some bs) m =
          Some (False, Some bs, 0)" unfolding enc by simp
      moreover have "\<not> get_assertion_room (length rp) (map_option length cred) \<le> m"
        using room h False r by (simp add: L_def)
      ultimately show ?thesis by blast
    next
      case True
      have le_m: "length e \<le> length bs" using True r len le m by simp
      have w: "wr_list (Some (patch bs 0 d)) (length d) [0x03, 0x81] = Some (Some (patch bs 0 e))"
        unfolding e_def by (rule append_run) (use True r len m in simp_all)
      have lb: "length (patch bs 0 e) = length bs" using le_m by simp
      have em: "emit_pk_cred_descriptor crp crn (Some (patch bs 0 e)) m (length d + 2) =
          (if length d + 2 + 50 + ih + crn \<le> m
           then Some (True, Some (patch (patch bs 0 e) (length d + 2) (cred_descriptor cd)), length x)
           else Some (False, Some (patch bs 0 e), length d + 2))"
      proof -
        have cd: "take crn cs = cd" using cs(5) by simp
        have "m \<le> length (patch bs 0 e)" using m lb by simp
        from emit_descriptor_eq [OF this m(2) cs(4,3), of "length d + 2"] show ?thesis
          unfolding cs(1) cd ih_def x_def by (simp add: le)
      qed
      show ?thesis
      proof (cases "89 + t + L + ih + crn \<le> m")
        case fits: True
        then have "length x + 10 \<le> m" using lx le len by simp
        note tok = tail_ok [OF this]
        have "patch (patch bs 0 e) (length d + 2) (cred_descriptor cd) = patch bs 0 x"
          unfolding x_def by (rule patch_patch) (use \<open>length x + 10 \<le> m\<close> m le in \<open>simp_all add: x_def\<close>)
        then have e: "emit_pk_cred_descriptor crp crn (Some (patch bs 0 e)) m (length d + 2) =
            Some (True, Some (patch bs 0 x), length x)" using em fits len by simp
        have lg: "length g = length x + 10" by (simp add: g)
        have "nfc_ctap_encode_get_assertion (Some hs) (Some (rp @ 0 # rest)) crp crn (Some bs) m =
            Some (True, Some (patch bs 0 g), length g)"
          unfolding enc g lg using True h tok w e by simp
        moreover have "length (patch bs 0 g) = length bs"
          using \<open>length x + 10 \<le> m\<close> m lg by simp
        moreover have "get_assertion_room (length rp) (map_option length cred) \<le> m"
          using room h fits by (simp add: L_def)
        ultimately show ?thesis by blast
      next
        case no: False
        then have e: "emit_pk_cred_descriptor crp crn (Some (patch bs 0 e)) m (length d + 2) =
            Some (False, Some (patch bs 0 e), length d + 2)" using em len by simp
        have "nfc_ctap_encode_get_assertion (Some hs) (Some (rp @ 0 # rest)) crp crn (Some bs) m =
            Some (False, Some (patch bs 0 e), 0)"
          unfolding enc using True h w e by (simp add: tail_def)
        moreover have "\<not> get_assertion_room (length rp) (map_option length cred) \<le> m"
          using room h no by (simp add: L_def)
        ultimately show ?thesis using lb by blast
      qed
    qed
  qed
qed

end
