(* ===== verification/Cbor.thy ===== *)
theory Cbor
  imports CtapCodec
begin

text \<open>
  The CBOR reader of \<^verbatim>\<open>reader_cbor.c\<close>. The cursor of type \<^verbatim>\<open>cbor_reader_t\<close> is threaded
  through the functions. C leaves the order of the calls of \<open>cbor_next\<close> inside one expression
  open; they are taken from left to right, as the code means them. On failure the value a head
  read delivers is not looked at by any caller and is given as 0.

  Nesting is bounded by the code: \<open>cbor_skip_depth\<close> is recursive in the number of levels
  left. A loop over a container of unknown length gets as fuel the length of the buffer, since
  every iteration consumes a byte; running out of it would be the value \<open>None\<close>, and the
  theorems show it does not happen.
\<close>

abbreviation (input) NERO_NFC_CBOR_MAX_NEST_DEPTH :: nat where "NERO_NFC_CBOR_MAX_NEST_DEPTH \<equiv> 32"

record cbor_reader =
  cb_data :: cptr
  cb_len :: nat
  cb_pos :: nat

section \<open>Reading\<close>

definition cbor_has_remaining :: "cbor_reader \<Rightarrow> nat \<Rightarrow> bool" where
  "cbor_has_remaining c count \<longleftrightarrow> cb_pos c \<le> cb_len c \<and> cb_len c - cb_pos c \<ge> count"

definition cbor_at_end :: "cbor_reader \<Rightarrow> bool" where
  "cbor_at_end c \<longleftrightarrow> cb_pos c \<ge> cb_len c"

definition cbor_next :: "cbor_reader \<Rightarrow> (u8 \<times> cbor_reader) option" where
  "cbor_next c =
     (if cb_data c = None then Some (0, c)
      else if cb_pos c < cb_len c then do {
        b \<leftarrow> rd (cb_data c) (cb_pos c);
        Some (b, c\<lparr>cb_pos := u16n (cb_pos c + 1)\<rparr>)
      } else Some (0, c))"

definition cbor_read_head :: "cbor_reader \<Rightarrow> (bool \<times> u8 \<times> nat \<times> cbor_reader) option" where
  "cbor_read_head c =
     (if cb_data c = None \<or> cb_pos c \<ge> cb_len c then Some (False, 0, 0, c)
      else do {
        let start = cb_pos c;
        (ib, c) \<leftarrow> cbor_next c;
        let major = drop_bit 5 ib;
        let ai = ib AND 0x1F;
        if ai < 24 then Some (True, major, unat ai, c)
        else if ai = 24 then
          (if \<not> cbor_has_remaining c 1 then Some (False, 0, 0, c\<lparr>cb_pos := start\<rparr>)
           else do {
             (b, c) \<leftarrow> cbor_next c;
             Some (True, major, unat b, c)
           })
        else if ai = 25 then
          (if \<not> cbor_has_remaining c 2 then Some (False, 0, 0, c\<lparr>cb_pos := start\<rparr>)
           else do {
             (b1, c) \<leftarrow> cbor_next c;
             (b0, c) \<leftarrow> cbor_next c;
             Some (True, major, be16 b1 b0, c)
           })
        else if ai = 26 then
          (if \<not> cbor_has_remaining c 4 then Some (False, 0, 0, c\<lparr>cb_pos := start\<rparr>)
           else do {
             (b3, c) \<leftarrow> cbor_next c;
             (b2, c) \<leftarrow> cbor_next c;
             (b1, c) \<leftarrow> cbor_next c;
             (b0, c) \<leftarrow> cbor_next c;
             Some (True, major, be32 b3 b2 b1 b0, c)
           })
        else Some (False, 0, 0, c\<lparr>cb_pos := start\<rparr>)
      })"

definition cbor_read_uint :: "cbor_reader \<Rightarrow> (bool \<times> nat \<times> cbor_reader) option" where
  "cbor_read_uint c = do {
     let start = cb_pos c;
     (ok, major, val, c) \<leftarrow> cbor_read_head c;
     Some (if \<not> ok then (False, 0, c)
           else if major \<noteq> 0 then (False, 0, c\<lparr>cb_pos := start\<rparr>)
           else (True, val, c))
   }"

text \<open>The copy loops, from index \<open>i\<close> for \<open>n\<close> bytes.\<close>

fun store_next_loop :: "cptr \<Rightarrow> nat \<Rightarrow> nat \<Rightarrow> nat \<Rightarrow> cbor_reader \<Rightarrow> (bool \<times> cptr \<times> cbor_reader) option" where
  "store_next_loop buffer buffer_len i 0 c = Some (True, buffer, c)"
| "store_next_loop buffer buffer_len i (Suc n) c = do {
     (b, c) \<leftarrow> cbor_next c;
     (ok, buffer) \<leftarrow> nero_nfc_store_u8 buffer buffer_len i b;
     if \<not> ok then Some (False, buffer, c) else store_next_loop buffer buffer_len (i + 1) n c
   }"

definition cbor_read_text :: "cbor_reader \<Rightarrow> cptr \<Rightarrow> nat \<Rightarrow> (bool \<times> cptr \<times> cbor_reader) option" where
  "cbor_read_text c buffer buffer_len = do {
     let start = cb_pos c;
     (ok, major, str_len, c) \<leftarrow> cbor_read_head c;
     if \<not> ok then Some (False, buffer, c)
     else if major \<noteq> 3 then Some (False, buffer, c\<lparr>cb_pos := start\<rparr>)
     else if buffer = None \<or> buffer_len = 0 \<or> \<not> cbor_has_remaining c str_len \<or> str_len \<ge> buffer_len
     then Some (False, buffer, c\<lparr>cb_pos := start\<rparr>)
     else do {
       (ok, buffer, c) \<leftarrow> store_next_loop buffer buffer_len 0 str_len c;
       if \<not> ok then Some (False, buffer, c\<lparr>cb_pos := start\<rparr>)
       else do {
         (ok, buffer) \<leftarrow> nero_nfc_store_u8 buffer buffer_len str_len 0;
         Some (if \<not> ok then (False, buffer, c\<lparr>cb_pos := start\<rparr>) else (True, buffer, c))
       }
     }
   }"

definition cbor_read_bytes ::
    "cbor_reader \<Rightarrow> cptr \<Rightarrow> nat \<Rightarrow> (bool \<times> cptr \<times> nat \<times> cbor_reader) option" where
  "cbor_read_bytes c buffer buffer_len = do {
     let start = cb_pos c;
     (ok, major, byte_len, c) \<leftarrow> cbor_read_head c;
     if \<not> ok then Some (False, buffer, 0, c)
     else if major \<noteq> 2 then Some (False, buffer, 0, c\<lparr>cb_pos := start\<rparr>)
     else if \<not> cbor_has_remaining c byte_len \<or> (buffer = None \<and> buffer_len > 0) \<or>
             (buffer = None \<and> byte_len > 0) \<or> byte_len > UINT16_MAX \<or>
             (buffer \<noteq> None \<and> byte_len > buffer_len)
     then Some (False, buffer, 0, c\<lparr>cb_pos := start\<rparr>)
     else do {
       (ok, buffer, c) \<leftarrow> store_next_loop buffer buffer_len 0 byte_len c;
       Some (if \<not> ok then (False, buffer, byte_len, c\<lparr>cb_pos := start\<rparr>)
             else (True, buffer, byte_len, c))
     }
   }"

fun chunk_copy_loop :: "cptr \<Rightarrow> nat \<Rightarrow> nat \<Rightarrow> cbor_reader \<Rightarrow> (cptr \<times> cbor_reader) option" where
  "chunk_copy_loop buffer off 0 c = Some (buffer, c)"
| "chunk_copy_loop buffer off (Suc n) c = do {
     (ch, c) \<leftarrow> cbor_next c;
     buffer \<leftarrow> (if buffer \<noteq> None then wr buffer off ch else Some buffer);
     chunk_copy_loop buffer (off + 1) n c
   }"

fun indefinite_loop ::
    "nat \<Rightarrow> cptr \<Rightarrow> nat \<Rightarrow> nat \<Rightarrow> cbor_reader \<Rightarrow> (bool \<times> cptr \<times> nat \<times> cbor_reader) option" where
  "indefinite_loop 0 buffer buffer_len tot c = None"
| "indefinite_loop (Suc fuel) buffer buffer_len tot c =
     (if cb_pos c < cb_len c then do {
        b \<leftarrow> rd (cb_data c) (cb_pos c);
        if b = 0xFF then
          (let c = c\<lparr>cb_pos := u16n (cb_pos c + 1)\<rparr> in
           if buffer \<noteq> None \<and> tot > buffer_len then Some (False, buffer, 0, c)
           else Some (True, buffer, u16n tot, c))
        else do {
          (ok, chunk_major, chunk_len, c) \<leftarrow> cbor_read_head c;
          if \<not> ok \<or> chunk_major \<noteq> 2 \<or> \<not> cbor_has_remaining c chunk_len \<or>
             UINT16_MAX - tot < chunk_len
          then Some (False, buffer, 0, c)
          else if buffer \<noteq> None \<and> tot + chunk_len > buffer_len then Some (False, buffer, 0, c)
          else do {
            (buffer, c) \<leftarrow> chunk_copy_loop buffer tot chunk_len c;
            indefinite_loop fuel buffer buffer_len (tot + chunk_len) c
          }
        }
      } else Some (False, buffer, 0, c))"

definition cbor_read_bytes_indefinite ::
    "cbor_reader \<Rightarrow> cptr \<Rightarrow> nat \<Rightarrow> (bool \<times> cptr \<times> nat \<times> cbor_reader) option" where
  "cbor_read_bytes_indefinite c buffer buffer_len =
     (if cb_data c = None \<or> (buffer = None \<and> buffer_len > 0) \<or> \<not> cbor_has_remaining c 1
      then Some (False, buffer, 0, c)
      else do {
        b \<leftarrow> rd (cb_data c) (cb_pos c);
        if b \<noteq> 0x5F then Some (False, buffer, 0, c)
        else indefinite_loop (cb_len c) buffer buffer_len 0 (c\<lparr>cb_pos := u16n (cb_pos c + 1)\<rparr>)
      })"

definition cbor_read_bytes_flexible ::
    "cbor_reader \<Rightarrow> cptr \<Rightarrow> nat \<Rightarrow> (bool \<times> cptr \<times> nat \<times> cbor_reader) option" where
  "cbor_read_bytes_flexible c buffer buffer_len = do {
     (ok, buffer, out_len, c) \<leftarrow> cbor_read_bytes c buffer buffer_len;
     if ok then Some (True, buffer, out_len, c)
     else cbor_read_bytes_indefinite c buffer buffer_len
   }"

definition cbor_read_bytes_maybe_tagged ::
    "cbor_reader \<Rightarrow> cptr \<Rightarrow> nat \<Rightarrow> (bool \<times> cptr \<times> nat \<times> cbor_reader) option" where
  "cbor_read_bytes_maybe_tagged c buffer buffer_len = do {
     (ok, buffer, out_len, c) \<leftarrow> cbor_read_bytes_flexible c buffer buffer_len;
     if ok then Some (True, buffer, out_len, c)
     else do {
       (ok, major, _, probe) \<leftarrow> cbor_read_head c;
       if \<not> ok \<or> major \<noteq> 6 then Some (False, buffer, 0, c)
       else cbor_read_bytes_flexible probe buffer buffer_len
     }
   }"

definition cbor_read_legacy_signature_tail ::
    "cbor_reader \<Rightarrow> cptr \<Rightarrow> nat \<Rightarrow> (bool \<times> cptr \<times> nat \<times> cbor_reader) option" where
  "cbor_read_legacy_signature_tail c buffer buffer_len = do {
     (ok, alias_key, probe) \<leftarrow> cbor_read_uint c;
     if \<not> ok \<or> alias_key \<noteq> 3 then Some (False, buffer, 0, c)
     else do {
       (ok, buffer, out_len, probe) \<leftarrow> cbor_read_bytes_maybe_tagged probe buffer buffer_len;
       Some (if \<not> ok then (False, buffer, 0, c) else (True, buffer, out_len, probe))
     }
   }"

section \<open>Skipping\<close>

text \<open>The loops over chunks, over an unknown number of items, and over a known number.\<close>

fun skip_chunks :: "nat \<Rightarrow> u8 \<Rightarrow> cbor_reader \<Rightarrow> (bool \<times> cbor_reader) option" where
  "skip_chunks 0 chunk_major c = None"
| "skip_chunks (Suc fuel) chunk_major c =
     (if cb_pos c < cb_len c then do {
        b \<leftarrow> rd (cb_data c) (cb_pos c);
        if b = 0xFF then Some (True, c\<lparr>cb_pos := u16n (cb_pos c + 1)\<rparr>)
        else do {
          (ok, major, chunk_len, c) \<leftarrow> cbor_read_head c;
          if \<not> ok \<or> major \<noteq> chunk_major \<or> \<not> cbor_has_remaining c chunk_len then Some (False, c)
          else skip_chunks fuel chunk_major (c\<lparr>cb_pos := u16n (cb_pos c + chunk_len)\<rparr>)
        }
      } else Some (False, c))"

fun skip_until_break ::
    "nat \<Rightarrow> (cbor_reader \<Rightarrow> (bool \<times> cbor_reader) option) \<Rightarrow> cbor_reader \<Rightarrow> (bool \<times> cbor_reader) option" where
  "skip_until_break 0 skip c = None"
| "skip_until_break (Suc fuel) skip c =
     (if cb_pos c < cb_len c then do {
        b \<leftarrow> rd (cb_data c) (cb_pos c);
        if b = 0xFF then Some (True, c\<lparr>cb_pos := u16n (cb_pos c + 1)\<rparr>)
        else do {
          (ok, c) \<leftarrow> skip c;
          if \<not> ok then Some (False, c) else skip_until_break fuel skip c
        }
      } else Some (False, c))"

fun skip_count ::
    "nat \<Rightarrow> (cbor_reader \<Rightarrow> (bool \<times> cbor_reader) option) \<Rightarrow> cbor_reader \<Rightarrow> (bool \<times> cbor_reader) option" where
  "skip_count 0 skip c = Some (True, c)"
| "skip_count (Suc n) skip c = do {
     (ok, c) \<leftarrow> skip c;
     if \<not> ok then Some (False, c) else skip_count n skip c
   }"

text \<open>The two skips of a map entry.\<close>

definition skip_pair ::
    "(cbor_reader \<Rightarrow> (bool \<times> cbor_reader) option) \<Rightarrow> cbor_reader \<Rightarrow> (bool \<times> cbor_reader) option" where
  "skip_pair skip c = do {
     (ok, c) \<leftarrow> skip c;
     if \<not> ok then Some (False, c) else skip c
   }"

fun cbor_skip_depth :: "nat \<Rightarrow> cbor_reader \<Rightarrow> (bool \<times> cbor_reader) option" where
  "cbor_skip_depth 0 c = Some (False, c)"
| "cbor_skip_depth (Suc levels) c =
     (if cb_data c = None then Some (False, c)
      else if cb_pos c \<ge> cb_len c then Some (False, c)
      else do {
        ib \<leftarrow> rd (cb_data c) (cb_pos c);
        if ib AND 0x1F = 0x1F then
          (let c = c\<lparr>cb_pos := u16n (cb_pos c + 1)\<rparr>; m = drop_bit 5 ib in
           if m = 2 \<or> m = 3 then skip_chunks (cb_len c) m c
           else if m = 4 then skip_until_break (cb_len c) (cbor_skip_depth levels) c
           else if m = 5 then skip_until_break (cb_len c) (skip_pair (cbor_skip_depth levels)) c
           else Some (False, c))
        else do {
          (ok, major, val, c) \<leftarrow> cbor_read_head c;
          if \<not> ok then Some (False, c)
          else if major = 0 \<or> major = 1 \<or> major = 7 then Some (True, c)
          else if major = 2 \<or> major = 3 then
            (let remaining = (if cb_len c \<ge> cb_pos c then cb_len c - cb_pos c else 0) in
             if val > remaining then Some (False, c)
             else let c = c\<lparr>cb_pos := u16n (cb_pos c + val)\<rparr> in Some (cb_pos c \<le> cb_len c, c))
          else if major = 4 then skip_count val (cbor_skip_depth levels) c
          else if major = 5 then skip_count val (skip_pair (cbor_skip_depth levels)) c
          else if major = 6 then cbor_skip_depth levels c
          else Some (False, c)
        }
      })"

definition cbor_skip :: "cbor_reader \<Rightarrow> (bool \<times> cbor_reader) option" where
  "cbor_skip c = cbor_skip_depth (NERO_NFC_CBOR_MAX_NEST_DEPTH + 1) c"


section \<open>Where the cursor stands\<close>

text \<open>\<open>ahead c x\<close>: the bytes \<open>x\<close> come next, inside the buffer. \<open>adv c n\<close>: \<open>n\<close> bytes on.\<close>

definition ahead :: "cbor_reader \<Rightarrow> bytes \<Rightarrow> bool" where
  "ahead c x \<longleftrightarrow> (\<exists>bs. cb_data c = Some bs \<and> cb_len c \<le> length bs \<and> cb_len c \<le> UINT16_MAX \<and>
     cb_pos c + length x \<le> cb_len c \<and> take (length x) (drop (cb_pos c) bs) = x)"

definition adv :: "cbor_reader \<Rightarrow> nat \<Rightarrow> cbor_reader" where
  "adv c n = c\<lparr>cb_pos := cb_pos c + n\<rparr>"

lemma adv_fields [simp]:
  "cb_data (adv c n) = cb_data c" "cb_len (adv c n) = cb_len c" "cb_pos (adv c n) = cb_pos c + n"
  by (simp_all add: adv_def)

lemma adv_0 [simp]: "adv c 0 = c"
  by (simp add: adv_def)

lemma adv_adv [simp]: "adv (adv c m) n = adv c (m + n)"
  by (simp add: adv_def add.assoc)

lemma adv_eq_iff [simp]: "adv c m = adv c n \<longleftrightarrow> m = n"
  by (metis adv_fields(3) add_left_cancel)

lemma ahead_append: "ahead c (x @ y) \<longleftrightarrow> ahead c x \<and> ahead (adv c (length x)) y"
proof -
  have "take (length x + length y) zs = x @ y \<longleftrightarrow>
      take (length x) zs = x \<and> take (length y) (drop (length x) zs) = y"
    if "length x + length y \<le> length zs" for zs
    using that by (simp add: take_add append_eq_append_conv)
  then show ?thesis by (auto simp: ahead_def add.assoc add.commute)
qed

lemma ahead_Cons: "ahead c (b # x) \<longleftrightarrow> ahead c [b] \<and> ahead (adv c 1) x"
  using ahead_append [of c "[b]" x] by simp

lemma ahead_here: "ahead c x \<Longrightarrow> ahead c []"
  using ahead_append [of c "[]" x] by simp

lemma ahead_after: "ahead c x \<Longrightarrow> ahead (adv c (length x)) []"
  using ahead_append [of c x "[]"] by simp

lemma ahead_drop: "ahead c x \<Longrightarrow> i \<le> length x \<Longrightarrow> ahead (adv c i) (drop i x)"
  using ahead_append [of c "take i x" "drop i x"] by simp

lemma ahead_next:
  assumes "ahead c (b # x)"
  shows "cb_pos c < cb_len c" "rd (cb_data c) (cb_pos c) = Some b" "cb_data c \<noteq> None"
    "cbor_next c = Some (b, adv c 1)"
    "c\<lparr>cb_pos := u16n (cb_pos c + 1)\<rparr> = adv c 1"
proof -
  obtain bs where d: "cb_data c = Some bs" "cb_len c \<le> length bs" "cb_len c \<le> UINT16_MAX"
      "cb_pos c + Suc (length x) \<le> cb_len c" "take (Suc (length x)) (drop (cb_pos c) bs) = b # x"
    using assms by (auto simp: ahead_def)
  from d(2,4) have p: "cb_pos c < length bs" by simp
  have "bs ! cb_pos c = b" using d(5) p by (simp add: take_Suc hd_drop_conv_nth)
  with d p show "cb_pos c < cb_len c" "rd (cb_data c) (cb_pos c) = Some b" "cb_data c \<noteq> None"
    by simp_all
  with d show "cbor_next c = Some (b, adv c 1)" "c\<lparr>cb_pos := u16n (cb_pos c + 1)\<rparr> = adv c 1"
    by (simp_all add: cbor_next_def adv_def)
qed

lemma ahead_byte:
  assumes "ahead c []" and "cb_pos c < cb_len c"
  obtains b where "ahead c [b]"
proof -
  obtain bs where d: "cb_data c = Some bs" "cb_len c \<le> length bs" "cb_len c \<le> UINT16_MAX"
    using assms(1) by (auto simp: ahead_def)
  have "take 1 (drop (cb_pos c) bs) = [bs ! cb_pos c]"
    using assms(2) d(2) by (simp add: take_Suc hd_drop_conv_nth)
  then have "ahead c [bs ! cb_pos c]" using d assms(2) by (auto simp: ahead_def)
  then show thesis by (rule that)
qed

lemma ahead_take:
  assumes "ahead c []" and "cbor_has_remaining c n"
  obtains x where "length x = n" and "ahead c x"
proof -
  obtain bs where d: "cb_data c = Some bs" "cb_len c \<le> length bs" "cb_len c \<le> UINT16_MAX"
    using assms(1) by (auto simp: ahead_def)
  define x where "x = take n (drop (cb_pos c) bs)"
  have "cb_pos c + n \<le> cb_len c" using assms(2) by (auto simp: cbor_has_remaining_def)
  then have "length x = n" "ahead c x" using d by (auto simp: x_def ahead_def)
  then show thesis by (rule that)
qed

lemma ahead_unique: "ahead c x \<Longrightarrow> ahead c y \<Longrightarrow> length x \<le> length y \<Longrightarrow> x = take (length x) y"
  by (auto simp: ahead_def) (metis min.absorb1 take_take)

lemma ahead_remaining: "ahead c x \<Longrightarrow> n \<le> length x \<Longrightarrow> cbor_has_remaining c n"
  by (auto simp: ahead_def cbor_has_remaining_def)

lemma adv_u16:
  "ahead c [] \<Longrightarrow> cbor_has_remaining c n \<Longrightarrow> c\<lparr>cb_pos := u16n (cb_pos c + n)\<rparr> = adv c n"
  by (auto simp: ahead_def cbor_has_remaining_def adv_def)

section \<open>Heads\<close>

text \<open>The encodings of a head the reader knows: major type and argument.\<close>

fun cbor_head :: "bytes \<Rightarrow> u8 \<Rightarrow> nat \<Rightarrow> bool" where
  "cbor_head [b] m v \<longleftrightarrow> m = drop_bit 5 b \<and> b AND 0x1F < 24 \<and> v = unat (b AND 0x1F)"
| "cbor_head [b, x] m v \<longleftrightarrow> m = drop_bit 5 b \<and> b AND 0x1F = 24 \<and> v = unat x"
| "cbor_head [b, x, y] m v \<longleftrightarrow> m = drop_bit 5 b \<and> b AND 0x1F = 25 \<and> v = be16 x y"
| "cbor_head [b, x, y, z, w] m v \<longleftrightarrow> m = drop_bit 5 b \<and> b AND 0x1F = 26 \<and> v = be32 x y z w"
| "cbor_head h m v \<longleftrightarrow> False"

lemma cbor_head_not_Nil: "cbor_head h m v \<Longrightarrow> h \<noteq> []"
  by (cases h) simp_all

lemma read_head_complete:
  assumes "cbor_head h m v" and "ahead c h"
  shows "cbor_read_head c = Some (True, m, v, adv c (length h))"
  using assms
proof (cases "(h, m, v)" rule: cbor_head.cases)
  case (1 b m v)
  then have "ahead c (b # [])" using assms(2) by simp
  note a = ahead_next [OF this]
  show ?thesis using 1 assms(1) a by (simp add: cbor_read_head_def Let_def)
next
  case (2 b x m v)
  then have s: "ahead c (b # [x])" "ahead (adv c 1) [x]"
    using assms(2) ahead_drop [OF assms(2), of 1] by simp_all
  note a = ahead_next [OF s(1)] ahead_next [OF s(2)] ahead_remaining [OF s(2)]
  show ?thesis using 2 assms(1) a by (simp add: cbor_read_head_def Let_def del: One_nat_def)
next
  case (3 b x y m v)
  then have s: "ahead c (b # [x, y])" "ahead (adv c 1) [x, y]" "ahead (adv c 2) [y]"
    using assms(2) ahead_drop [OF assms(2), of 1] ahead_drop [OF assms(2), of 2] by simp_all
  note a = ahead_next [OF s(1)] ahead_next [OF s(2)] ahead_next [OF s(3)] ahead_remaining [OF s(2)]
  show ?thesis using 3 assms(1) a by (simp add: cbor_read_head_def Let_def del: One_nat_def)
next
  case (4 b x y z w m v)
  then have s: "ahead c (b # [x, y, z, w])" "ahead (adv c 1) [x, y, z, w]" "ahead (adv c 2) [y, z, w]"
      "ahead (adv c 3) [z, w]" "ahead (adv c 4) [w]"
    using assms(2) ahead_drop [OF assms(2), of 1] ahead_drop [OF assms(2), of 2]
      ahead_drop [OF assms(2), of 3] ahead_drop [OF assms(2), of 4] by simp_all
  note a = ahead_next [OF s(1)] ahead_next [OF s(2)] ahead_next [OF s(3)] ahead_next [OF s(4)]
    ahead_next [OF s(5)] ahead_remaining [OF s(2)]
  show ?thesis using 4 assms(1) a by (simp add: cbor_read_head_def Let_def del: One_nat_def)
qed (auto)


lemma adv_back [simp]: "(adv c n)\<lparr>cb_pos := cb_pos c\<rparr> = c"
  by (simp add: adv_def)

text \<open>Either a head comes next and is read, or the cursor stays.\<close>

lemma read_head_cases:
  assumes "ahead c []"
  obtains h m v where "cbor_head h m v" and "ahead c h" and "cbor_read_head c = Some (True, m, v, adv c (length h))"
  | "cbor_read_head c = Some (False, 0, 0, c)" and "\<nexists>h m v. cbor_head h m v \<and> ahead c h"
proof (cases "cb_pos c < cb_len c")
  case False
  then have "cbor_read_head c = Some (False, 0, 0, c)" by (simp add: cbor_read_head_def)
  moreover from this have "\<nexists>h m v. cbor_head h m v \<and> ahead c h" using read_head_complete by fastforce
  ultimately show thesis using that by blast
next
  case True
  then obtain b where b: "ahead c [b]" using ahead_byte [OF assms] by blast
  note a = ahead_next [OF b]
  have here: "ahead (adv c 1) []" using ahead_after [OF b] by simp
  define ai where "ai = b AND 0x1F"
  define k where "k = (if ai < 24 then 0 else if ai = 24 then 1 else if ai = 25 then 2 else 4 :: nat)"
  have ai_cases: "ai < 24 \<or> ai = 24 \<or> ai = 25 \<or> ai = 26 \<or> \<not> ai \<le> 26"
    unfolding word_less_nat_alt word_le_nat_alt word_unat_eq_iff by simp linarith
  show thesis
  proof (cases "ai \<le> 26 \<and> cbor_has_remaining (adv c 1) k")
    case True
    then obtain x where x: "length x = k" "ahead (adv c 1) x" using ahead_take [OF here] by blast
    have "\<exists>m v. cbor_head (b # x) m v"
    proof -
      have lists: "length x = 0 \<Longrightarrow> x = []" "length x = 1 \<Longrightarrow> \<exists>p. x = [p]"
        "length x = 2 \<Longrightarrow> \<exists>p q. x = [p, q]" "length x = 4 \<Longrightarrow> \<exists>p q r s. x = [p, q, r, s]"
        by (auto simp: length_Suc_conv numeral_eq_Suc)
      consider (a) "ai < 24" "length x = 0" | (b) "ai = 24" "length x = 1" | (c) "ai = 25" "length x = 2"
        | (d) "ai = 26" "length x = 4"
        using ai_cases True x(1) by (auto simp: k_def split: if_splits)
      then show ?thesis
      proof cases
        case a
        then show ?thesis using lists(1) by (simp add: ai_def)
      next
        case b
        then show ?thesis using lists(2) by (auto simp: ai_def)
      next
        case c
        then show ?thesis using lists(3) by (auto simp: ai_def)
      next
        case d
        then show ?thesis using lists(4) by (auto simp: ai_def)
      qed
    qed
    then obtain m v where hd: "cbor_head (b # x) m v" by blast
    have "ahead c (b # x)" using b x(2) ahead_Cons by blast
    with hd that(1) show thesis using read_head_complete by blast
  next
    case False
    have "cbor_read_head c = Some (False, 0, 0, c)"
    proof (cases "ai \<le> 26")
      case le: True
      then have "\<not> cbor_has_remaining (adv c 1) k" and "ai = 24 \<or> ai = 25 \<or> ai = 26"
        using False ai_cases here by (auto simp: k_def ahead_def cbor_has_remaining_def)
      then show ?thesis using a
        by (auto simp: cbor_read_head_def ai_def [symmetric] k_def Let_def)
    next
      case gt: False
      then have "\<not> ai < 24" "ai \<noteq> 24" "ai \<noteq> 25" "ai \<noteq> 26"
        by (auto simp: word_less_nat_alt word_le_nat_alt)
      then show ?thesis using a by (simp add: cbor_read_head_def ai_def [symmetric] Let_def)
    qed
    moreover from this have "\<nexists>h m v. cbor_head h m v \<and> ahead c h" using read_head_complete by fastforce
    ultimately show thesis using that by blast
  qed
qed

lemma head_unique:
  assumes "cbor_head h m v" "ahead c h" "cbor_head h' m' v'" "ahead c h'"
  shows "h' = h \<and> m' = m \<and> v' = v"
proof -
  have "length h' = length h" "m' = m" "v' = v"
    using read_head_complete [OF assms(1,2)] read_head_complete [OF assms(3,4)] by auto
  then show ?thesis using ahead_unique [OF assms(4,2)] by simp
qed

lemma head_not_open: "cbor_head (b # h) m v \<Longrightarrow> b AND 0x1F \<noteq> 0x1F"
  by (cases "(b # h, m, v)" rule: cbor_head.cases) auto

section \<open>Data items\<close>

text \<open>
  The grammar of CBOR data items (RFC 8949) up to a nesting depth. \<open>reps P n x\<close>: \<open>x\<close> is \<open>n\<close>
  strings of \<open>P\<close> one after the other. \<open>item_body P m v\<close>: what follows a head of major type
  \<open>m\<close> with argument \<open>v\<close>, the nested items being those of \<open>P\<close>; \<open>open_body P m\<close>: what follows
  the initial byte of a string or container of indefinite length.
\<close>

fun reps :: "(bytes \<Rightarrow> bool) \<Rightarrow> nat \<Rightarrow> bytes \<Rightarrow> bool" where
  "reps P 0 x \<longleftrightarrow> x = []"
| "reps P (Suc n) x \<longleftrightarrow> (\<exists>a b. x = a @ b \<and> P a \<and> reps P n b)"

definition two :: "(bytes \<Rightarrow> bool) \<Rightarrow> bytes \<Rightarrow> bool" where
  "two P x \<longleftrightarrow> (\<exists>a b. x = a @ b \<and> P a \<and> P b)"

definition closed_run :: "(bytes \<Rightarrow> bool) \<Rightarrow> bytes \<Rightarrow> bool" where
  "closed_run P x \<longleftrightarrow> (\<exists>n y. x = y @ [0xFF] \<and> reps P n y)"

definition chunk :: "u8 \<Rightarrow> bytes \<Rightarrow> bool" where
  "chunk m x \<longleftrightarrow> (\<exists>h v y. cbor_head h m v \<and> x = h @ y \<and> length y = v)"

definition item_body :: "(bytes \<Rightarrow> bool) \<Rightarrow> u8 \<Rightarrow> nat \<Rightarrow> bytes \<Rightarrow> bool" where
  "item_body P m v y \<longleftrightarrow>
     (if m = 0 \<or> m = 1 \<or> m = 7 then y = []
      else if m = 2 \<or> m = 3 then length y = v
      else if m = 4 then reps P v y
      else if m = 5 then reps (two P) v y
      else if m = 6 then P y
      else False)"

definition open_body :: "(bytes \<Rightarrow> bool) \<Rightarrow> u8 \<Rightarrow> bytes \<Rightarrow> bool" where
  "open_body P m y \<longleftrightarrow>
     (if m = 2 \<or> m = 3 then closed_run (chunk m) y
      else if m = 4 then closed_run P y
      else if m = 5 then closed_run (two P) y
      else False)"

fun data_item :: "nat \<Rightarrow> bytes \<Rightarrow> bool" where
  "data_item 0 x \<longleftrightarrow> False"
| "data_item (Suc levels) x \<longleftrightarrow>
     (\<exists>h m v y. cbor_head h m v \<and> x = h @ y \<and> item_body (data_item levels) m v y) \<or>
     (\<exists>b y. b AND 0x1F = 0x1F \<and> x = b # y \<and> open_body (data_item levels) (drop_bit 5 b) y)"

text \<open>\<open>starts P\<close>: the strings of \<open>P\<close> are not empty and do not begin with the break byte.\<close>

definition starts :: "(bytes \<Rightarrow> bool) \<Rightarrow> bool" where
  "starts P \<longleftrightarrow> (\<forall>x. P x \<longrightarrow> x \<noteq> [] \<and> hd x \<noteq> 0xFF)"

lemma starts_head:
  assumes "cbor_head h m v" shows "h \<noteq> []" "hd h \<noteq> 0xFF"
proof -
  obtain b t where h: "h = b # t" using cbor_head_not_Nil [OF assms] by (cases h) auto
  have "(0xFF :: u8) AND 0x1F = 0x1F" by simp
  then have "b \<noteq> 0xFF" using head_not_open [of b t m v] assms h by metis
  then show "h \<noteq> []" "hd h \<noteq> 0xFF" using h by simp_all
qed

lemma starts_chunk [simp]: "starts (chunk m)"
  unfolding starts_def chunk_def using starts_head by (auto simp: hd_append)

lemma starts_two [simp]: "starts P \<Longrightarrow> starts (two P)"
  by (auto simp: starts_def two_def hd_append)

lemma starts_data_item [simp]: "starts (data_item levels)"
proof (cases levels)
  case (Suc l)
  have "drop_bit 5 (0xFF :: u8) = 7" by simp
  then have "\<not> open_body P (drop_bit 5 0xFF) y" for P y by (simp add: open_body_def)
  moreover have "cbor_head h m v \<Longrightarrow> h @ y \<noteq> [] \<and> hd (h @ y) \<noteq> 0xFF" for h m v y
    using starts_head [of h m v] by simp
  ultimately show ?thesis unfolding starts_def Suc data_item.simps by auto
qed (simp add: starts_def)

section \<open>Skipping recognises\<close>

text \<open>
  \<open>skips P f c\<close>: at \<open>c\<close> the function \<open>f\<close> decides whether a string of \<open>P\<close> comes next; if one
  does, it is the only one, and the cursor moves exactly behind it.
\<close>

definition skips :: "(bytes \<Rightarrow> bool) \<Rightarrow> (cbor_reader \<Rightarrow> (bool \<times> cbor_reader) option) \<Rightarrow> cbor_reader \<Rightarrow> bool" where
  "skips P f c \<longleftrightarrow>
     (\<exists>x. P x \<and> ahead c x \<and> (\<forall>y. P y \<longrightarrow> ahead c y \<longrightarrow> y = x) \<and> f c = Some (True, adv c (length x))) \<or>
     (\<exists>c'. f c = Some (False, c') \<and> (\<forall>y. P y \<longrightarrow> \<not> ahead c y))"

lemma skipsE:
  assumes "skips P f c"
  obtains x where "P x" "ahead c x" "\<And>y. P y \<Longrightarrow> ahead c y \<Longrightarrow> y = x" "f c = Some (True, adv c (length x))"
  | c' where "f c = Some (False, c')" "\<And>y. P y \<Longrightarrow> \<not> ahead c y"
  using assms unfolding skips_def by blast

lemma skips_yes:
  "P x \<Longrightarrow> ahead c x \<Longrightarrow> (\<And>y. P y \<Longrightarrow> ahead c y \<Longrightarrow> y = x) \<Longrightarrow> f c = Some (True, adv c (length x)) \<Longrightarrow>
    skips P f c"
  unfolding skips_def by blast

lemma skips_no: "f c = Some (False, c') \<Longrightarrow> (\<And>y. P y \<Longrightarrow> \<not> ahead c y) \<Longrightarrow> skips P f c"
  unfolding skips_def by blast

lemma skips_cong: "skips P f c \<Longrightarrow> f c = g c \<Longrightarrow> skips P g c"
  unfolding skips_def by simp

text \<open>Two strings one behind the other.\<close>

lemma skips_seq:
  assumes "skips P f c" and "\<And>c'. ahead c' [] \<Longrightarrow> skips Q g c'"
  shows "skips (\<lambda>x. \<exists>a b. x = a @ b \<and> P a \<and> Q b)
    (\<lambda>c. do { (ok, c) \<leftarrow> f c; if \<not> ok then Some (False, c) else g c }) c"
    (is "skips ?R ?h c")
proof (cases rule: skipsE [OF assms(1)])
  case f: (1 x)
  have first: "\<exists>b. y = x @ b \<and> Q b \<and> ahead (adv c (length x)) b" if R: "?R y" and y: "ahead c y" for y
  proof -
    from R obtain a b where ab: "y = a @ b" "P a" "Q b" by blast
    then have s: "ahead c a" "ahead (adv c (length a)) b" using y by (simp_all add: ahead_append)
    have "a = x" by (rule f(3) [OF ab(2) s(1)])
    then show ?thesis using ab s by blast
  qed
  have "skips Q g (adv c (length x))" by (rule assms(2)) (rule ahead_after [OF f(2)])
  then show ?thesis
  proof (cases rule: skipsE)
    case g: (1 y)
    show ?thesis
    proof (rule skips_yes [of _ "x @ y"])
      show "?R (x @ y)" using f(1) g(1) by blast
      show "ahead c (x @ y)" using f(2) g(2) by (simp add: ahead_append)
      show "?h c = Some (True, adv c (length (x @ y)))" using f(4) g(4) by simp
      show "z = x @ y" if "?R z" "ahead c z" for z using first [OF that] g(3) by blast
    qed
  next
    case g: (2 c')
    show ?thesis
    proof (rule skips_no)
      show "?h c = Some (False, c')" using f(4) g(1) by simp
      show "\<not> ahead c z" if "?R z" for z using first [OF that] g(2) by blast
    qed
  qed
next
  case f: (2 c')
  show ?thesis
  proof (rule skips_no)
    show "?h c = Some (False, c')" using f(1) by simp
    show "\<not> ahead c z" if "?R z" for z using that f(2) by (auto simp: ahead_append)
  qed
qed

lemma skips_two:
  assumes "\<And>c. ahead c [] \<Longrightarrow> skips P f c" and "ahead c []"
  shows "skips (two P) (skip_pair f) c"
proof -
  have "two P = (\<lambda>x. \<exists>a b. x = a @ b \<and> P a \<and> P b)"
    "skip_pair f = (\<lambda>c. do { (ok, c) \<leftarrow> f c; if \<not> ok then Some (False, c) else f c })"
    by (simp_all add: two_def fun_eq_iff skip_pair_def)
  then show ?thesis using skips_seq [OF assms(1) [OF assms(2)] assms(1)] by simp
qed

lemma skips_count:
  assumes "\<And>c. ahead c [] \<Longrightarrow> skips P f c" and "ahead c []"
  shows "skips (reps P n) (skip_count n f) c"
  using assms(2)
proof (induction n arbitrary: c)
  case 0
  then show ?case by (intro skips_yes [of _ "[]"]) simp_all
next
  case (Suc n)
  have "reps P (Suc n) = (\<lambda>x. \<exists>a b. x = a @ b \<and> P a \<and> reps P n b)"
    "skip_count (Suc n) f = (\<lambda>c. do { (ok, c) \<leftarrow> f c; if \<not> ok then Some (False, c) else skip_count n f c })"
    by (simp_all add: fun_eq_iff)
  then show ?case using skips_seq [OF assms(1) [OF Suc.prems] Suc.IH] by simp
qed

lemma ahead_bound: "ahead c x \<Longrightarrow> cb_pos c + length x \<le> cb_len c"
  by (auto simp: ahead_def)

lemma ahead_at_end: "\<not> cb_pos c < cb_len c \<Longrightarrow> ahead c x \<Longrightarrow> x = []"
  using ahead_bound [of c x] by (metis length_0_conv le_add1 not_less le_trans add_leD1 le_antisym add_cancel_right_right nat_add_left_cancel_le le_zero_eq)

text \<open>A run of strings up to the break byte; \<open>step\<close> is what an iteration does.\<close>

lemma closed_run_unfold:
  "closed_run P x \<longleftrightarrow> x = [0xFF] \<or> (\<exists>a b. x = a @ b \<and> P a \<and> closed_run P b)"
proof
  assume "closed_run P x"
  then obtain n y where x: "x = y @ [0xFF]" "reps P n y" by (auto simp: closed_run_def)
  show "x = [0xFF] \<or> (\<exists>a b. x = a @ b \<and> P a \<and> closed_run P b)"
  proof (cases n)
    case (Suc k)
    then obtain a b where "y = a @ b" "P a" "reps P k b" using x by auto
    then show ?thesis using x(1) by (auto simp: closed_run_def)
  qed (use x in simp)
next
  assume "x = [0xFF] \<or> (\<exists>a b. x = a @ b \<and> P a \<and> closed_run P b)"
  then show "closed_run P x"
  proof
    assume "x = [0xFF]"
    then have "x = [] @ [0xFF] \<and> reps P 0 []" by simp
    then show ?thesis unfolding closed_run_def by blast
  next
    assume "\<exists>a b. x = a @ b \<and> P a \<and> closed_run P b"
    then obtain a n y where "x = (a @ y) @ [0xFF]" "P a" "reps P n y" by (auto simp: closed_run_def)
    then have "x = (a @ y) @ [0xFF] \<and> reps P (Suc n) (a @ y)" by auto
    then show ?thesis unfolding closed_run_def by blast
  qed
qed

lemma skips_run_step:
  assumes f: "\<And>c. ahead c [] \<Longrightarrow> skips P f c" and P: "starts P" and c: "ahead c []"
    and more: "\<And>c'. ahead c' [] \<Longrightarrow> cb_len c' = cb_len c \<Longrightarrow> cb_pos c < cb_pos c' \<Longrightarrow>
      skips (closed_run P) g c'"
    and loop: "\<And>b. ahead c [b] \<Longrightarrow> h c = (if b = 0xFF then Some (True, adv c 1)
      else do { (ok, c) \<leftarrow> f c; if \<not> ok then Some (False, c) else g c })"
    and ended: "\<not> cb_pos c < cb_len c \<Longrightarrow> h c = Some (False, c)"
  shows "skips (closed_run P) h c"
proof (cases "cb_pos c < cb_len c")
  case False
  then have "closed_run P y \<Longrightarrow> \<not> ahead c y" for y
    using ahead_at_end [OF False, of y] by (auto simp: closed_run_def)
  then show ?thesis using ended [OF False] skips_no by blast
next
  case True
  then obtain b where b: "ahead c [b]" using ahead_byte [OF c] by blast
  have hdb: "y \<noteq> [] \<Longrightarrow> ahead c y \<Longrightarrow> hd y = b" for y
    using ahead_unique [OF b, of y] by (cases y) auto
  have split: "closed_run P y \<Longrightarrow> ahead c y \<Longrightarrow>
      y = [0xFF] \<and> b = 0xFF \<or> b \<noteq> 0xFF \<and> (\<exists>p q. y = p @ q \<and> P p \<and> closed_run P q)" for y
  proof -
    assume y: "closed_run P y" "ahead c y"
    from y(1) consider "y = [0xFF]" | p q where "y = p @ q" "P p" "closed_run P q"
      unfolding closed_run_unfold [of P y] by blast
    then show ?thesis
    proof cases
      case 1
      then show ?thesis using hdb [of y] y(2) by simp
    next
      case (2 p q)
      then have "hd y \<noteq> 0xFF" "y \<noteq> []" using P by (auto simp: starts_def hd_append)
      then show ?thesis using 2 hdb y(2) by auto
    qed
  qed
  show ?thesis
  proof (cases "b = 0xFF")
    case True
    show ?thesis
    proof (rule skips_yes [of _ "[0xFF]"])
      show "closed_run P [0xFF]" by (subst closed_run_unfold) (rule disjI1, rule refl)
      show "ahead c [0xFF]" using b True by simp
      show "h c = Some (True, adv c (length [0xFF :: u8]))" using loop [OF b] True by simp
      show "y = [0xFF]" if "closed_run P y" "ahead c y" for y using split [OF that] True by simp
    qed
  next
    case False
    note h = loop [OF b, unfolded if_not_P [OF False]]
    show ?thesis
    proof (cases rule: skipsE [OF f [OF c]])
      case x: (1 x)
      have first: "\<exists>q. z = x @ q \<and> closed_run P q \<and> ahead (adv c (length x)) q"
        if "closed_run P z" "ahead c z" for z
      proof -
        from split [OF that] False obtain p q where z: "z = p @ q" "P p" "closed_run P q" by blast
        then have "ahead c p" "ahead (adv c (length p)) q" using that(2) by (simp_all add: ahead_append)
        moreover from this x(3) [OF z(2)] have "p = x" by simp
        ultimately show ?thesis using z by blast
      qed
      have hg: "h c = g (adv c (length x))" unfolding h x(4) by simp
      have "x \<noteq> []" using P x(1) by (auto simp: starts_def)
      then have "skips (closed_run P) g (adv c (length x))"
        using more [of "adv c (length x)"] ahead_after [OF x(2)] by (simp add: length_greater_0_conv)
      then show ?thesis
      proof (cases rule: skipsE)
        case y: (1 y)
        show ?thesis
        proof (rule skips_yes [of _ "x @ y"])
          show "closed_run P (x @ y)"
            by (subst closed_run_unfold, rule disjI2) (use x(1) y(1) in blast)
          show "ahead c (x @ y)" using x(2) y(2) by (simp add: ahead_append)
          show "h c = Some (True, adv c (length (x @ y)))" unfolding hg y(4) by simp
          show "z = x @ y" if "closed_run P z" "ahead c z" for z using first [OF that] y(3) by blast
        qed
      next
        case y: (2 c')
        show ?thesis
        proof (rule skips_no)
          show "h c = Some (False, c')" unfolding hg by (rule y(1))
          show "\<not> ahead c z" if "closed_run P z" for z using first [OF that] y(2) by blast
        qed
      qed
    next
      case x: (2 c')
      show ?thesis
      proof (rule skips_no)
        show "h c = Some (False, c')" unfolding h x(1) by simp
        show "\<not> ahead c z" if "closed_run P z" for z
        proof
          assume z: "ahead c z"
          from split [OF that z] False obtain p q where "z = p @ q" "P p" by blast
          then show False using z x(2) by (auto simp: ahead_append)
        qed
      qed
    qed
  qed
qed

lemma skips_until_break:
  assumes "\<And>c. ahead c [] \<Longrightarrow> skips P f c" and "starts P" and "ahead c []"
    and "cb_len c - cb_pos c < fuel"
  shows "skips (closed_run P) (skip_until_break fuel f) c"
  using assms(3,4)
proof (induction fuel arbitrary: c)
  case (Suc fuel)
  show ?case
  proof (rule skips_run_step [OF assms(1,2) Suc.prems(1), where g = "skip_until_break fuel f"])
    show "skips (closed_run P) (skip_until_break fuel f) c'"
      if "ahead c' []" "cb_len c' = cb_len c" "cb_pos c < cb_pos c'" for c'
      using Suc.IH [OF that(1)] Suc.prems(2) that by (auto simp: ahead_def)
    show "skip_until_break (Suc fuel) f c = (if b = 0xFF then Some (True, adv c 1)
        else do { (ok, c) \<leftarrow> f c; if \<not> ok then Some (False, c) else skip_until_break fuel f c })"
      if "ahead c [b]" for b
      using ahead_next [OF that] by simp
    show "skip_until_break (Suc fuel) f c = Some (False, c)" if "\<not> cb_pos c < cb_len c" using that by simp
  qed
qed simp

text \<open>One chunk of a string of indefinite length, as an iteration of the loop reads it.\<close>

lemma skips_chunk:
  assumes c: "ahead c []"
  shows "skips (chunk m) (\<lambda>c. do {
      (ok, major, n, c) \<leftarrow> cbor_read_head c;
      if \<not> ok \<or> major \<noteq> m \<or> \<not> cbor_has_remaining c n then Some (False, c)
      else Some (True, c\<lparr>cb_pos := u16n (cb_pos c + n)\<rparr>) }) c"
    (is "skips _ ?f c")
proof (cases rule: read_head_cases [OF c])
  case (1 h m' v)
  have only: "m' = m \<and> (\<exists>z. y = h @ z \<and> length z = v \<and> ahead (adv c (length h)) z)"
    if "chunk m y" "ahead c y" for y
  proof -
    from that(1) obtain h' v' z where y: "cbor_head h' m v'" "y = h' @ z" "length z = v'"
      by (auto simp: chunk_def)
    then have "ahead c h'" "ahead (adv c (length h')) z" using that(2) by (simp_all add: ahead_append)
    moreover from this head_unique [OF 1(1,2) y(1)] have "h' = h" "m = m'" "v' = v" by simp_all
    ultimately show ?thesis using y by blast
  qed
  note here = ahead_after [OF 1(2)]
  show ?thesis
  proof (cases "m' = m \<and> cbor_has_remaining (adv c (length h)) v")
    case True
    then obtain z where z: "length z = v" "ahead (adv c (length h)) z" using ahead_take [OF here] by blast
    show ?thesis
    proof (rule skips_yes [of _ "h @ z"])
      show "chunk m (h @ z)" using 1(1) z(1) True by (auto simp: chunk_def)
      show "ahead c (h @ z)" using 1(2) z(2) by (simp add: ahead_append)
      have "(adv c (length h))\<lparr>cb_pos := u16n (cb_pos (adv c (length h)) + v)\<rparr> = adv c (length h + v)"
        using adv_u16 [OF here] True by simp
      then show "?f c = Some (True, adv c (length (h @ z)))" using 1(3) True z(1) by simp
      fix y assume "chunk m y" "ahead c y"
      then obtain w where w: "y = h @ w" "length w = v" "ahead (adv c (length h)) w" using only by blast
      then have "w = z" using ahead_unique [OF w(3) z(2)] z(1) by simp
      with w(1) show "y = h @ z" by simp
    qed
  next
    case False
    show ?thesis
    proof (rule skips_no)
      show "?f c = Some (False, adv c (length h))" using 1(3) False by auto
      show "\<not> ahead c y" if "chunk m y" for y
        using only [OF that] False ahead_remaining [of "adv c (length h)"] by blast
    qed
  qed
next
  case 2
  show ?thesis
  proof (rule skips_no)
    show "?f c = Some (False, c)" using 2(1) by simp
    show "\<not> ahead c y" if "chunk m y" for y
    proof
      assume "ahead c y"
      with that obtain h v z where "cbor_head h m v" "ahead c h" by (auto simp: chunk_def ahead_append)
      with 2(2) show False by blast
    qed
  qed
qed

lemma skips_chunks:
  assumes "ahead c []" and "cb_len c - cb_pos c < fuel"
  shows "skips (closed_run (chunk m)) (skip_chunks fuel m) c"
  using assms
proof (induction fuel arbitrary: c)
  case (Suc fuel)
  show ?case
  proof (rule skips_run_step [OF skips_chunk starts_chunk Suc.prems(1), where g = "skip_chunks fuel m"])
    show "skips (closed_run (chunk m)) (skip_chunks fuel m) c'"
      if "ahead c' []" "cb_len c' = cb_len c" "cb_pos c < cb_pos c'" for c'
      using Suc.IH [OF that(1)] Suc.prems(2) ahead_bound [OF that(1)] that by simp
    show "skip_chunks (Suc fuel) m c = Some (False, c)" if "\<not> cb_pos c < cb_len c" using that by simp
    show "skip_chunks (Suc fuel) m c = (if b = 0xFF then Some (True, adv c 1)
        else do {
          (ok, c) \<leftarrow> do {
            (ok, major, n, c) \<leftarrow> cbor_read_head c;
            if \<not> ok \<or> major \<noteq> m \<or> \<not> cbor_has_remaining c n then Some (False, c)
            else Some (True, c\<lparr>cb_pos := u16n (cb_pos c + n)\<rparr>) };
          if \<not> ok then Some (False, c) else skip_chunks fuel m c })"
      if "ahead c [b]" for b
      using ahead_next [OF that] by (cases "cbor_read_head c") (auto simp: Let_def)
  qed
qed simp

text \<open>What follows a head, and what follows the initial byte of an open item.\<close>

lemma skips_body:
  assumes f: "\<And>c. ahead c [] \<Longrightarrow> skips P f c" and c: "ahead c []"
  shows "skips (item_body P m v) (\<lambda>c.
     if m = 0 \<or> m = 1 \<or> m = 7 then Some (True, c)
     else if m = 2 \<or> m = 3 then
       (let remaining = (if cb_len c \<ge> cb_pos c then cb_len c - cb_pos c else 0) in
        if v > remaining then Some (False, c)
        else let c = c\<lparr>cb_pos := u16n (cb_pos c + v)\<rparr> in Some (cb_pos c \<le> cb_len c, c))
     else if m = 4 then skip_count v f c
     else if m = 5 then skip_count v (skip_pair f) c
     else if m = 6 then f c
     else Some (False, c)) c"
    (is "skips _ ?g c")
proof -
  have le: "cb_pos c \<le> cb_len c" using ahead_bound [OF c] by simp
  consider (scalar) "m = 0 \<or> m = 1 \<or> m = 7" | (str) "m = 2 \<or> m = 3" | (arr) "m = 4" | (map) "m = 5"
    | (tag) "m = 6" | (none) "m \<notin> {0, 1, 2, 3, 4, 5, 6, 7}" by blast
  then show ?thesis
  proof cases
    case scalar
    then have "item_body P m v = (\<lambda>y. y = [])" by (auto simp: item_body_def fun_eq_iff)
    moreover have "?g c = Some (True, c)" using scalar by simp
    ultimately show ?thesis using c by (intro skips_yes [of _ "[]"]) simp_all
  next
    case str
    then have body: "item_body P m v = (\<lambda>y. length y = v)" by (auto simp: item_body_def fun_eq_iff)
    have g: "?g c = (if v > cb_len c - cb_pos c then Some (False, c)
        else Some (cb_pos (c\<lparr>cb_pos := u16n (cb_pos c + v)\<rparr>) \<le> cb_len c, c\<lparr>cb_pos := u16n (cb_pos c + v)\<rparr>))"
      using str le by (auto simp: Let_def)
    show ?thesis
    proof (cases "v > cb_len c - cb_pos c")
      case True
      show ?thesis
        unfolding body by (rule skips_no) (use g True ahead_bound in \<open>auto dest: ahead_bound\<close>)
    next
      case False
      then have r: "cbor_has_remaining c v" using le by (simp add: cbor_has_remaining_def)
      obtain x where x: "length x = v" "ahead c x" using ahead_take [OF c r] by blast
      have "(if v > cb_len c - cb_pos c then Some (False, c)
        else Some (cb_pos (c\<lparr>cb_pos := u16n (cb_pos c + v)\<rparr>) \<le> cb_len c, c\<lparr>cb_pos := u16n (cb_pos c + v)\<rparr>)) =
          Some (True, adv c v)"
        unfolding adv_u16 [OF c r] using False le by simp
      with g have yes: "?g c = Some (True, adv c v)" by (rule trans)
      show ?thesis
        unfolding body
      proof (rule skips_yes [of _ x, rotated 3])
        show "y = x" if "length y = v" "ahead c y" for y
          using ahead_unique [OF that(2) x(2)] that(1) x(1) by simp
        show "?g c = Some (True, adv c (length x))" using yes x(1) by (simp only:)
      qed (use x in simp_all)
    qed
  next
    case arr
    then have "item_body P m v = reps P v" by (auto simp: item_body_def fun_eq_iff)
    moreover have "skip_count v f c = ?g c" using arr by simp
    ultimately show ?thesis using skips_cong [OF skips_count [OF f c]] by simp
  next
    case map
    then have "item_body P m v = reps (two P) v" by (auto simp: item_body_def fun_eq_iff)
    moreover have "skip_count v (skip_pair f) c = ?g c" using map by simp
    ultimately show ?thesis using skips_cong [OF skips_count [OF skips_two [OF f] c]] by simp
  next
    case tag
    then have "item_body P m v = P" by (auto simp: item_body_def fun_eq_iff)
    moreover have "f c = ?g c" using tag by simp
    ultimately show ?thesis using skips_cong [OF f [OF c]] by simp
  next
    case none
    then have "?g c = Some (False, c)" by simp
    moreover have "\<not> item_body P m v y" for y using none by (simp add: item_body_def)
    ultimately show ?thesis by (intro skips_no) blast+
  qed
qed

lemma skips_open_body:
  assumes f: "\<And>c. ahead c [] \<Longrightarrow> skips P f c" and P: "starts P" and c: "ahead c []" and pos: "0 < cb_pos c"
  shows "skips (open_body P m) (\<lambda>c.
     if m = 2 \<or> m = 3 then skip_chunks (cb_len c) m c
     else if m = 4 then skip_until_break (cb_len c) f c
     else if m = 5 then skip_until_break (cb_len c) (skip_pair f) c
     else Some (False, c)) c"
    (is "skips _ ?g c")
proof -
  have fuel: "cb_len c - cb_pos c < cb_len c" using ahead_bound [OF c] pos by simp
  consider (str) "m = 2 \<or> m = 3" | (arr) "m = 4" | (map) "m = 5" | (none) "m \<notin> {2, 3, 4, 5}" by blast
  then show ?thesis
  proof cases
    case str
    then have "open_body P m = closed_run (chunk m)" by (auto simp: open_body_def fun_eq_iff)
    moreover have "skip_chunks (cb_len c) m c = ?g c" using str by simp
    ultimately show ?thesis using skips_cong [OF skips_chunks [OF c fuel]] by simp
  next
    case arr
    then have "open_body P m = closed_run P" by (auto simp: open_body_def fun_eq_iff)
    moreover have "skip_until_break (cb_len c) f c = ?g c" using arr by simp
    ultimately show ?thesis using skips_cong [OF skips_until_break [OF f P c fuel]] by simp
  next
    case map
    then have "open_body P m = closed_run (two P)" by (auto simp: open_body_def fun_eq_iff)
    moreover have "skip_until_break (cb_len c) (skip_pair f) c = ?g c" using map by simp
    ultimately show ?thesis
      using skips_cong [OF skips_until_break [OF skips_two [OF f] starts_two [OF P] c fuel]] by simp
  next
    case none
    then have "?g c = Some (False, c)" by simp
    moreover have "\<not> open_body P m y" for y using none by (simp add: open_body_def)
    ultimately show ?thesis by (intro skips_no) blast+
  qed
qed

section \<open>The skip function recognises data items\<close>

lemma skips_data_item:
  "ahead c [] \<Longrightarrow> skips (data_item levels) (cbor_skip_depth levels) c"
proof (induction levels arbitrary: c)
  case 0
  then show ?case by (intro skips_no [of _ _ c]) simp_all
next
  case (Suc levels)
  note c = Suc.prems
  obtain bs where d: "cb_data c = Some bs" using c by (auto simp: ahead_def)
  show ?case
  proof (cases "cb_pos c < cb_len c")
    case False
    then have "data_item (Suc levels) y \<Longrightarrow> \<not> ahead c y" for y
      using ahead_at_end [OF False, of y] starts_data_item [of "Suc levels"] by (auto simp: starts_def)
    then show ?thesis using False d by (intro skips_no [of _ _ c]) simp_all
  next
    case True
    then obtain b where b: "ahead c [b]" using ahead_byte [OF c] by blast
    note a = ahead_next [OF b]
    have first: "\<exists>t. y = b # t" if "y \<noteq> []" "ahead c y" for y
      using ahead_unique [OF b that(2)] that(1) by (cases y) auto
    show ?thesis
    proof (cases "b AND 0x1F = 0x1F")
      case opn: True
      have is_open: "\<exists>z. y = b # z \<and> ahead (adv c 1) z \<and> open_body (data_item levels) (drop_bit 5 b) z"
        if y: "data_item (Suc levels) y" "ahead c y" for y
        using y(1) unfolding data_item.simps
      proof (elim disjE exE conjE)
        fix h m v z assume h: "cbor_head h m v" "y = h @ z"
        then obtain t where "h = b # t" using first [of h] starts_head(1) [OF h(1)] y(2) by (auto simp: ahead_append)
        then show ?thesis using head_not_open h(1) opn by blast
      next
        fix b' z assume z: "y = b' # z" "open_body (data_item levels) (drop_bit 5 b') z"
        then have "b' = b" using first y(2) by blast
        then show ?thesis using z y(2) ahead_Cons by blast
      qed
      have "skips (open_body (data_item levels) (drop_bit 5 b)) (\<lambda>c.
         if drop_bit 5 b = 2 \<or> drop_bit 5 b = 3 then skip_chunks (cb_len c) (drop_bit 5 b) c
         else if drop_bit 5 b = 4 then skip_until_break (cb_len c) (cbor_skip_depth levels) c
         else if drop_bit 5 b = 5 then skip_until_break (cb_len c) (skip_pair (cbor_skip_depth levels)) c
         else Some (False, c)) (adv c 1)"
        (is "skips _ ?g _")
        using ahead_after [OF b] by (intro skips_open_body Suc.IH starts_data_item) simp_all
      moreover have step: "cbor_skip_depth (Suc levels) c = ?g (adv c 1)"
        unfolding cbor_skip_depth.simps a(2) a(5) bind.bind_lunit Let_def using d True opn by simp
      ultimately show ?thesis
      proof (cases rule: skipsE)
        case (1 x)
        show ?thesis
        proof (rule skips_yes)
          show "data_item (Suc levels) (b # x)" using 1(1) opn by auto
          show "ahead c (b # x)" using 1(2) b ahead_Cons by blast
          show "cbor_skip_depth (Suc levels) c = Some (True, adv c (length (b # x)))"
            unfolding step using 1(4) by simp
          show "y = b # x" if "data_item (Suc levels) y" "ahead c y" for y
            using is_open [OF that] 1(3) by blast
        qed
      next
        case (2 c')
        show ?thesis
        proof (rule skips_no)
          show "cbor_skip_depth (Suc levels) c = Some (False, c')" unfolding step by (rule 2(1))
          show "\<not> ahead c y" if "data_item (Suc levels) y" for y using is_open [OF that] 2(2) by blast
        qed
      qed
    next
      case closed: False
      have is_closed: "\<exists>h m v z. cbor_head h m v \<and> y = h @ z \<and> ahead c h \<and> ahead (adv c (length h)) z \<and>
          item_body (data_item levels) m v z"
        if y: "data_item (Suc levels) y" "ahead c y" for y
        using y(1) unfolding data_item.simps
      proof (elim disjE exE conjE)
        fix h m v z assume "cbor_head h m v" "y = h @ z" "item_body (data_item levels) m v z"
        moreover from this have "ahead c h" "ahead (adv c (length h)) z"
          using y(2) by (simp_all add: ahead_append)
        ultimately show ?thesis by blast
      next
        fix b' z assume z: "b' AND 0x1F = 0x1F" "y = b' # z"
        then have "b' = b" using first y(2) by blast
        then show ?thesis using z(1) closed by blast
      qed
      show ?thesis
      proof (cases rule: read_head_cases [OF c])
        case (1 h m v)
        have "skips (item_body (data_item levels) m v) (\<lambda>c.
           if m = 0 \<or> m = 1 \<or> m = 7 then Some (True, c)
           else if m = 2 \<or> m = 3 then
             (let remaining = (if cb_len c \<ge> cb_pos c then cb_len c - cb_pos c else 0) in
              if v > remaining then Some (False, c)
              else let c = c\<lparr>cb_pos := u16n (cb_pos c + v)\<rparr> in Some (cb_pos c \<le> cb_len c, c))
           else if m = 4 then skip_count v (cbor_skip_depth levels) c
           else if m = 5 then skip_count v (skip_pair (cbor_skip_depth levels)) c
           else if m = 6 then cbor_skip_depth levels c
           else Some (False, c)) (adv c (length h))"
          (is "skips _ ?g _")
          by (intro skips_body Suc.IH ahead_after [OF 1(2)])
        moreover have step: "cbor_skip_depth (Suc levels) c = ?g (adv c (length h))"
          unfolding cbor_skip_depth.simps a(2) 1(3) bind.bind_lunit prod.case using d True closed by simp
        ultimately show ?thesis
        proof (cases rule: skipsE)
          case body: (1 x)
          show ?thesis
          proof (rule skips_yes)
            show "data_item (Suc levels) (h @ x)" using 1(1) body(1) by auto
            show "ahead c (h @ x)" using 1(2) body(2) by (simp add: ahead_append)
            show "cbor_skip_depth (Suc levels) c = Some (True, adv c (length (h @ x)))"
              unfolding step using body(4) by simp
            show "y = h @ x" if "data_item (Suc levels) y" "ahead c y" for y
              using is_closed [OF that] head_unique [OF 1(1,2)] body(3) by blast
          qed
        next
          case body: (2 c')
          show ?thesis
          proof (rule skips_no)
            show "cbor_skip_depth (Suc levels) c = Some (False, c')" unfolding step by (rule body(1))
            show "\<not> ahead c y" if "data_item (Suc levels) y" for y
              using is_closed [OF that] head_unique [OF 1(1,2)] body(2) by blast
          qed
        qed
      next
        case 2
        show ?thesis
        proof (rule skips_no)
          show "cbor_skip_depth (Suc levels) c = Some (False, c)"
            unfolding cbor_skip_depth.simps a(2) 2(1) bind.bind_lunit prod.case using d True closed by simp
          show "\<not> ahead c y" if "data_item (Suc levels) y" for y using is_closed [OF that] 2(2) by blast
        qed
      qed
    qed
  qed
qed
end
