(* ===== verification/CborItems.thy ===== *)
theory CborItems
  imports Cbor
begin

text \<open>
  What the CBOR reader accepts, stated on the grammar of data items: the skip function
  recognises exactly the items of at most 33 levels, the byte string reader exactly the byte
  strings that fit, and the getAssertion request of \<^verbatim>\<open>nfc_ctap_codec.c\<close> is such an item as long
  as it names no credential.
\<close>

section \<open>Skipping\<close>

text \<open> C38: From any cursor inside its buffer, \<open>cbor_skip\<close> returns without reading outside
  the buffer, whatever the bytes. It succeeds exactly when a data item of at most 33 levels
  comes next (heads of 1, 2, 3 or 5 bytes, strings and containers of known and of indefinite
  length, tags), and then leaves the cursor exactly behind that item. \<close>

theorem cbor_skip_exact:
  assumes "cb_data c = Some bs" and "cb_len c \<le> length bs" and "cb_len c \<le> UINT16_MAX"
    and "cb_pos c \<le> cb_len c"
  shows "\<exists>ok c'. cbor_skip c = Some (ok, c') \<and>
    (ok \<longleftrightarrow> (\<exists>x. data_item 33 x \<and> ahead c x)) \<and>
    (\<forall>x. data_item 33 x \<longrightarrow> ahead c x \<longrightarrow> c' = c\<lparr>cb_pos := cb_pos c + length x\<rparr>)"
proof -
  have "ahead c []" using assms by (auto simp: ahead_def)
  then have "skips (data_item 33) (cbor_skip_depth 33) c" by (rule skips_data_item)
  moreover have "cbor_skip c = cbor_skip_depth 33 c" by (simp add: cbor_skip_def)
  ultimately have "skips (data_item 33) cbor_skip c" using skips_cong [of "data_item 33" _ c cbor_skip] by simp
  then show ?thesis
  proof (cases rule: skipsE)
    case (1 x)
    then show ?thesis unfolding adv_def [symmetric]
      by (intro exI [of _ True] exI [of _ "adv c (length x)"]) blast
  next
    case (2 c')
    then show ?thesis by blast
  qed
qed

theorem cbor_skip_exact_witness:
  "\<exists>ok c'. cbor_skip \<lparr>cb_data = Some [0x9F, 0x01, 0x41, 0x07, 0xFF, 0x00], cb_len = 6, cb_pos = 0\<rparr> = Some (ok, c') \<and>
    (ok \<longleftrightarrow> (\<exists>x. data_item 33 x \<and>
      ahead \<lparr>cb_data = Some [0x9F, 0x01, 0x41, 0x07, 0xFF, 0x00], cb_len = 6, cb_pos = 0\<rparr> x))"
  using cbor_skip_exact [of "\<lparr>cb_data = Some [0x9F, 0x01, 0x41, 0x07, 0xFF, 0x00], cb_len = 6, cb_pos = 0\<rparr>"
      "[0x9F, 0x01, 0x41, 0x07, 0xFF, 0x00]"] by auto

section \<open>Byte strings\<close>

text \<open>\<open>chunk_run x s\<close>: the chunks and the break byte of a string of indefinite length with
  content \<open>s\<close>; \<open>byte_string x s\<close>: the encoding \<open>x\<close> of a byte string with content \<open>s\<close>.\<close>

inductive chunk_run :: "bytes \<Rightarrow> bytes \<Rightarrow> bool" where
  stop: "chunk_run [0xFF] []"
| more: "cbor_head h 2 v \<Longrightarrow> length s = v \<Longrightarrow> chunk_run y t \<Longrightarrow> chunk_run (h @ s @ y) (s @ t)"

definition byte_string :: "bytes \<Rightarrow> bytes \<Rightarrow> bool" where
  "byte_string x s \<longleftrightarrow> (\<exists>h v. cbor_head h 2 v \<and> length s = v \<and> x = h @ s) \<or>
     (\<exists>y. x = 0x5F # y \<and> chunk_run y s)"

lemma store_next_ok:
  "ahead c y \<Longrightarrow> i + length y \<le> cap \<Longrightarrow> cap \<le> length buf \<Longrightarrow> cap \<le> SIZE_MAX \<Longrightarrow>
    store_next_loop (Some buf) cap i (length y) c = Some (True, Some (patch buf i y), adv c (length y))"
proof (induction y arbitrary: c i buf)
  case (Cons b y)
  have a: "ahead c (b # y)" "ahead (adv c 1) y" using Cons.prems(1) ahead_Cons by blast+
  have "patch (buf[i := b]) (i + 1) y = patch buf i (b # y)"
    using patch_patch [of i "[b]" y buf "i + 1"] Cons.prems by (simp add: patch_single)
  then show ?case
    using Cons.IH [OF a(2), of "i + 1" "buf[i := b]"] Cons.prems ahead_next [OF a(1)] by simp
qed simp

lemma chunk_copy_ok:
  "ahead c y \<Longrightarrow> i + length y \<le> length buf \<Longrightarrow>
    chunk_copy_loop (Some buf) i (length y) c = Some (Some (patch buf i y), adv c (length y))"
proof (induction y arbitrary: c i buf)
  case (Cons b y)
  have a: "ahead c (b # y)" "ahead (adv c 1) y" using Cons.prems(1) ahead_Cons by blast+
  have "patch (buf[i := b]) (i + 1) y = patch buf i (b # y)"
    using patch_patch [of i "[b]" y buf "i + 1"] Cons.prems by (simp add: patch_single)
  then show ?case
    using Cons.IH [OF a(2), of "i + 1" "buf[i := b]"] Cons.prems ahead_next [OF a(1)] by simp
qed simp

lemma chunk_run_first:
  assumes "chunk_run x s" and "ahead c x" and "ahead c [b]"
  shows "(b = 0xFF \<and> x = [0xFF] \<and> s = []) \<or> (b \<noteq> 0xFF \<and> (\<exists>h v t y u. cbor_head h 2 v \<and> length t = v \<and>
     chunk_run y u \<and> x = h @ t @ y \<and> s = t @ u))"
  using assms(1)
proof cases
  case stop
  then show ?thesis using ahead_unique [OF assms(3,2)] by simp
next
  case (more h v t y u)
  have "ahead c h" using assms(2) more(1) by (simp add: ahead_append)
  then have "b = hd h" using ahead_unique [OF assms(3), of h] starts_head(1) [OF more(3)] by (cases h) auto
  then have "b \<noteq> 0xFF" using starts_head(2) [OF more(3)] by (simp only: not_False_eq_True)
  moreover have "\<exists>h v t y u. cbor_head h 2 v \<and> length t = v \<and> chunk_run y u \<and> x = h @ t @ y \<and> s = t @ u"
    by (intro exI conjI) (rule more)+
  ultimately show ?thesis by (intro disjI2 conjI)
qed

text \<open>The reading loop of a string of indefinite length, for a buffer that \<open>tot\<close> bytes fill.\<close>

definition reads :: "(bytes \<Rightarrow> bytes \<Rightarrow> bool) \<Rightarrow> bytes \<Rightarrow> nat \<Rightarrow> nat \<Rightarrow> cbor_reader \<Rightarrow>
    (bool \<times> cptr \<times> nat \<times> cbor_reader) option \<Rightarrow> bool" where
  "reads P buf L tot c r \<longleftrightarrow>
     (\<exists>x s. P x s \<and> ahead c x \<and> tot + length s \<le> L \<and>
        (\<forall>y t. P y t \<longrightarrow> ahead c y \<longrightarrow> y = x \<and> t = s) \<and>
        r = Some (True, Some (patch buf tot s), tot + length s, adv c (length x))) \<or>
     (\<exists>buf' c'. r = Some (False, Some buf', 0, c') \<and> length buf' = length buf \<and>
        (\<forall>x s. P x s \<longrightarrow> ahead c x \<longrightarrow> L < tot + length s))"

lemma reads_yes:
  "P x s \<Longrightarrow> ahead c x \<Longrightarrow> tot + length s \<le> L \<Longrightarrow> (\<And>y t. P y t \<Longrightarrow> ahead c y \<Longrightarrow> y = x \<and> t = s) \<Longrightarrow>
    r = Some (True, Some (patch buf tot s), tot + length s, adv c (length x)) \<Longrightarrow> reads P buf L tot c r"
  unfolding reads_def by blast

lemma reads_no:
  "r = Some (False, Some buf', 0, c') \<Longrightarrow> length buf' = length buf \<Longrightarrow>
    (\<And>x s. P x s \<Longrightarrow> ahead c x \<Longrightarrow> L < tot + length s) \<Longrightarrow> reads P buf L tot c r"
  unfolding reads_def by blast

lemma readsE:
  assumes "reads P buf L tot c r"
  obtains x s where "P x s" "ahead c x" "tot + length s \<le> L" "\<And>y t. P y t \<Longrightarrow> ahead c y \<Longrightarrow> y = x \<and> t = s"
      "r = Some (True, Some (patch buf tot s), tot + length s, adv c (length x))"
  | buf' c' where "r = Some (False, Some buf', 0, c')" "length buf' = length buf"
      "\<And>x s. P x s \<Longrightarrow> ahead c x \<Longrightarrow> L < tot + length s"
  using assms unfolding reads_def by blast

lemma indefinite_loop_reads:
  assumes "ahead c []" and "cb_len c - cb_pos c < fuel" and "tot \<le> L" and "L \<le> length buf" and "L \<le> UINT16_MAX"
  shows "reads chunk_run buf L tot c (indefinite_loop fuel (Some buf) L tot c)"
  using assms(1-4)
proof (induction fuel arbitrary: c tot buf)
  case (Suc fuel)
  note c = Suc.prems(1)
  show ?case
  proof (cases "cb_pos c < cb_len c")
    case False
    have "x = []" if "ahead c x" for x by (rule ahead_at_end [OF False that])
    moreover have "\<not> chunk_run [] s" for s by (auto elim: chunk_run.cases dest: cbor_head_not_Nil)
    ultimately show ?thesis using False by (intro reads_no [of _ buf c]) auto
  next
    case True
    then obtain b where b: "ahead c [b]" using ahead_byte [OF c] by blast
    note a = ahead_next [OF b]
    show ?thesis
    proof (cases "b = 0xFF")
      case brk: True
      show ?thesis
      proof (rule reads_yes)
        show "chunk_run [0xFF] []" by (rule chunk_run.stop)
        show "ahead c [0xFF]" using b brk by simp
        show "indefinite_loop (Suc fuel) (Some buf) L tot c =
            Some (True, Some (patch buf tot []), tot + length [], adv c (length [0xFF :: u8]))"
          unfolding indefinite_loop.simps a(2) a(5) Let_def using True brk Suc.prems assms(5) by simp
        show "y = [0xFF] \<and> t = []" if "chunk_run y t" "ahead c y" for y t
          using chunk_run_first [OF that b] brk by blast
      qed (use Suc.prems in simp)
    next
      case chk: False
      note loop = indefinite_loop.simps(2) [of fuel "Some buf" L tot c, unfolded a(2) bind.bind_lunit if_not_P [OF chk]]
      have first: "\<exists>h v t y u. cbor_head h 2 v \<and> length t = v \<and> chunk_run y u \<and> x = h @ t @ y \<and> s = t @ u \<and>
          ahead c h \<and> ahead (adv c (length h)) t \<and> ahead (adv c (length h + length t)) y"
        if x: "chunk_run x s" "ahead c x" for x s
      proof -
        obtain h v t y u where "cbor_head h 2 v" "length t = v" "chunk_run y u" "x = h @ t @ y" "s = t @ u"
          using chunk_run_first [OF x b] chk by blast
        moreover from this have "ahead c h" "ahead (adv c (length h)) t" "ahead (adv c (length h + length t)) y"
          using x(2) by (simp_all add: ahead_append)
        ultimately show ?thesis by blast
      qed
      show ?thesis
      proof (cases rule: read_head_cases [OF c])
        case (1 h m v)
        note here = ahead_after [OF 1(2)]
        show ?thesis
        proof (cases "m = 2 \<and> cbor_has_remaining (adv c (length h)) v \<and> tot + v \<le> L")
          case ok: True
          then obtain t where t: "length t = v" "ahead (adv c (length h)) t" using ahead_take [OF here] by blast
          define d where "d = adv c (length h + v)"
          define buf2 where "buf2 = patch buf tot t"
          have copy: "chunk_copy_loop (Some buf) tot v (adv c (length h)) = Some (Some buf2, d)"
            using chunk_copy_ok [OF t(2), of tot buf] ok Suc.prems t(1) by (simp add: d_def buf2_def)
          have fits: "\<not> UINT16_MAX - tot < v" using ok assms(5) by auto
          have step: "indefinite_loop (Suc fuel) (Some buf) L tot c = indefinite_loop fuel (Some buf2) L (tot + v) d"
            unfolding loop 1(3) using True ok copy fits by simp
          have lenb: "length buf2 = length buf" using ok Suc.prems t(1) by (simp add: buf2_def)
          have hpos: "0 < length h" using starts_head(1) [OF 1(1)] by (simp add: length_greater_0_conv)
          have d: "ahead d []" using ahead_after [OF t(2)] t(1) by (simp add: d_def)
          have "cb_len d - cb_pos d < fuel"
            using Suc.prems(2) hpos ahead_bound [OF d] by (simp add: d_def)
          then have IH: "reads chunk_run buf2 L (tot + v) d (indefinite_loop fuel (Some buf2) L (tot + v) d)"
            using Suc.IH [OF d] ok Suc.prems lenb by simp
          have rest: "\<exists>y u. chunk_run y u \<and> x = h @ t @ y \<and> s = t @ u \<and> ahead d y"
            if x: "chunk_run x s" "ahead c x" for x s
          proof -
            obtain h' v' t' y u where f: "cbor_head h' 2 v'" "length t' = v'" "chunk_run y u" "x = h' @ t' @ y"
                "s = t' @ u" "ahead c h'" "ahead (adv c (length h')) t'" "ahead (adv c (length h' + length t')) y"
              using first [OF x] by blast
            have e: "h' = h" "v' = v" using head_unique [OF 1(1,2) f(1,6)] by simp_all
            have "t' = t" using ahead_unique [of "adv c (length h)" t' t] f(2,7) t e by simp
            then show ?thesis using f e t(1) by (auto simp: d_def)
          qed
          from IH show ?thesis
          proof (cases rule: readsE)
            case y: (1 y u)
            show ?thesis
            proof (rule reads_yes)
              show "chunk_run (h @ t @ y) (t @ u)" using 1(1) ok t(1) y(1) chunk_run.more by blast
              show "ahead c (h @ t @ y)" using 1(2) t y(2) by (simp add: ahead_append d_def)
              show "tot + length (t @ u) \<le> L" using y(3) t(1) by simp
              have "patch buf2 (tot + v) u = patch buf tot (t @ u)"
                unfolding buf2_def by (rule patch_patch) (use y(3) t(1) Suc.prems in simp_all)
              then show "indefinite_loop (Suc fuel) (Some buf) L tot c =
                  Some (True, Some (patch buf tot (t @ u)), tot + length (t @ u), adv c (length (h @ t @ y)))"
                unfolding step y(5) using t(1) by (simp add: d_def)
              show "z = h @ t @ y \<and> w = t @ u" if "chunk_run z w" "ahead c z" for z w
                using rest [OF that] y(4) by blast
            qed
          next
            case n: (2 buf' c')
            show ?thesis
            proof (rule reads_no)
              show "indefinite_loop (Suc fuel) (Some buf) L tot c = Some (False, Some buf', 0, c')"
                unfolding step by (rule n(1))
              show "length buf' = length buf" using n(2) lenb by simp
              show "L < tot + length s" if x: "chunk_run x s" "ahead c x" for x s
              proof -
                obtain y u where "chunk_run y u" "s = t @ u" "ahead d y" using rest [OF x] by blast
                then show ?thesis using n(3) [of y u] t(1) by simp
              qed
            qed
          qed
        next
          case bad: False
          show ?thesis
          proof (rule reads_no)
            show "indefinite_loop (Suc fuel) (Some buf) L tot c = Some (False, Some buf, 0, adv c (length h))"
              unfolding loop 1(3) using True bad by auto
            show "L < tot + length s" if x: "chunk_run x s" "ahead c x" for x s
            proof -
              obtain h' v' t' y u where f: "cbor_head h' 2 v'" "length t' = v'" "s = t' @ u" "ahead c h'"
                  "ahead (adv c (length h')) t'"
                using first [OF x] by blast
              have e: "h' = h" "m = 2" "v' = v" using head_unique [OF 1(1,2) f(1,4)] by simp_all
              have "cbor_has_remaining (adv c (length h)) v"
                using ahead_remaining [OF f(5), of v] e f(2) by simp
              then have "L < tot + v" using bad e(2) by simp
              then show ?thesis using f(2,3) e by simp
            qed
          qed simp
        qed
      next
        case 2
        show ?thesis
        proof (rule reads_no)
          show "indefinite_loop (Suc fuel) (Some buf) L tot c = Some (False, Some buf, 0, c)"
            unfolding loop 2(1) using True by simp
          show "L < tot + length s" if "chunk_run x s" "ahead c x" for x s
            using first [OF that] 2(2) by blast
        qed simp
      qed
    qed
  qed
qed simp


lemma read_bytes_reads:
  assumes c: "ahead c []" and L: "L \<le> length buf" "L \<le> UINT16_MAX"
  shows "(\<exists>h v s. cbor_head h 2 v \<and> length s = v \<and> ahead c (h @ s) \<and> v \<le> L \<and>
      cbor_read_bytes c (Some buf) L = Some (True, Some (patch buf 0 s), v, adv c (length (h @ s)))) \<or>
    cbor_read_bytes c (Some buf) L = Some (False, Some buf, 0, c) \<and>
      (\<forall>h v s. cbor_head h 2 v \<longrightarrow> length s = v \<longrightarrow> ahead c (h @ s) \<longrightarrow> L < v)"
proof (cases rule: read_head_cases [OF c])
  case (1 h m v)
  note here = ahead_after [OF 1(2)]
  show ?thesis
  proof (cases "m = 2 \<and> cbor_has_remaining (adv c (length h)) v \<and> v \<le> L")
    case True
    then obtain s where s: "length s = v" "ahead (adv c (length h)) s" using ahead_take [OF here] by blast
    have "store_next_loop (Some buf) L 0 v (adv c (length h)) =
        Some (True, Some (patch buf 0 s), adv c (length h + v))"
      using store_next_ok [OF s(2), of 0 L buf] True L s(1) by simp
    then have "cbor_read_bytes c (Some buf) L = Some (True, Some (patch buf 0 s), v, adv c (length (h @ s)))"
      unfolding cbor_read_bytes_def 1(3) Let_def using True L s(1) by simp
    moreover have "ahead c (h @ s)" using 1(2) s by (simp add: ahead_append)
    ultimately show ?thesis using 1(1) True s(1) by blast
  next
    case False
    have "cbor_read_bytes c (Some buf) L = Some (False, Some buf, 0, c)"
      unfolding cbor_read_bytes_def 1(3) Let_def using False by auto
    moreover have "L < v'" if h: "cbor_head h' 2 v'" "length s = v'" "ahead c (h' @ s)" for h' v' s
    proof -
      have "ahead c h'" "ahead (adv c (length h')) s" using h(3) by (simp_all add: ahead_append)
      moreover from this head_unique [OF 1(1,2) h(1)] have e: "h' = h" "m = 2" "v' = v" by simp_all
      ultimately have "cbor_has_remaining (adv c (length h)) v"
        using ahead_remaining [of "adv c (length h)" s v] h(2) by simp
      then show ?thesis using False e by auto
    qed
    ultimately show ?thesis by blast
  qed
next
  case 2
  have "cbor_read_bytes c (Some buf) L = Some (False, Some buf, 0, c)"
    unfolding cbor_read_bytes_def 2(1) Let_def by simp
  moreover have "\<not> (cbor_head h 2 v \<and> ahead c (h @ s))" for h v s
    using 2(2) ahead_append [of c h s] by blast
  ultimately show ?thesis by blast
qed

lemma not_head_5F: "\<not> cbor_head (0x5F # h) m v"
  using head_not_open [of "0x5F" h m v] by auto

lemma read_bytes_flexible_reads:
  assumes c: "ahead c []" and L: "L \<le> length buf" "L \<le> UINT16_MAX"
  shows "reads byte_string buf L 0 c (cbor_read_bytes_flexible c (Some buf) L)"
  using read_bytes_reads [OF assms]
proof (elim disjE exE conjE)
  fix h v s
  assume h: "cbor_head h 2 v" "length s = v" "ahead c (h @ s)" "v \<le> L"
    and r: "cbor_read_bytes c (Some buf) L = Some (True, Some (patch buf 0 s), v, adv c (length (h @ s)))"
  show ?thesis
  proof (rule reads_yes)
    show "byte_string (h @ s) s" using h(1,2) by (auto simp: byte_string_def)
    show "ahead c (h @ s)" by (rule h(3))
    show "0 + length s \<le> L" using h(2,4) by simp
    show "cbor_read_bytes_flexible c (Some buf) L =
        Some (True, Some (patch buf 0 s), 0 + length s, adv c (length (h @ s)))"
      unfolding cbor_read_bytes_flexible_def r using h(2) by simp
    show "y = h @ s \<and> t = s" if y: "byte_string y t" "ahead c y" for y t
    proof -
      have ah: "ahead c h" "ahead (adv c (length h)) s" using h(3) by (simp_all add: ahead_append)
      from y(1) consider h' v' where "cbor_head h' 2 v'" "length t = v'" "y = h' @ t" | z where "y = 0x5F # z"
        unfolding byte_string_def by blast
      then show ?thesis
      proof cases
        case (1 h' v')
        then have a: "ahead c h'" "ahead (adv c (length h')) t" using y(2) by (simp_all add: ahead_append)
        then have "h' = h" "v' = v" using head_unique [OF h(1) ah(1) 1(1)] by simp_all
        moreover from this have "t = s" using ahead_unique [of "adv c (length h)" t s] a ah 1(2) h(2) by simp
        ultimately show ?thesis using 1(3) by simp
      next
        case (2 z)
        obtain b k where "h = b # k" using starts_head(1) [OF h(1)] by (cases h) auto
        moreover have "ahead c [0x5F]" using y(2) 2 ahead_Cons by blast
        ultimately have "h = 0x5F # k" using ahead_unique [of c "[0x5F]" h] ah(1) by simp
        then show ?thesis using h(1) not_head_5F by blast
      qed
    qed
  qed
next
  assume r: "cbor_read_bytes c (Some buf) L = Some (False, Some buf, 0, c)"
    and n: "\<forall>h v s. cbor_head h 2 v \<longrightarrow> length s = v \<longrightarrow> ahead c (h @ s) \<longrightarrow> L < v"
  have flex: "cbor_read_bytes_flexible c (Some buf) L = cbor_read_bytes_indefinite c (Some buf) L"
    unfolding cbor_read_bytes_flexible_def r by simp
  obtain bs where d: "cb_data c = Some bs" using c by (auto simp: ahead_def)
  show ?thesis
  proof (cases "ahead c [0x5F]")
    case True
    note a = ahead_next [OF True]
    have ind: "cbor_read_bytes_indefinite c (Some buf) L = indefinite_loop (cb_len c) (Some buf) L 0 (adv c 1)"
      unfolding cbor_read_bytes_indefinite_def a(2) a(5) using d ahead_remaining [OF True, of 1] by simp
    have here: "ahead (adv c 1) []" using ahead_after [OF True] by simp
    have "reads chunk_run buf L 0 (adv c 1) (indefinite_loop (cb_len c) (Some buf) L 0 (adv c 1))"
      by (rule indefinite_loop_reads) (use here a(1) L in simp_all)
    moreover have opn: "\<exists>z. y = 0x5F # z \<and> chunk_run z t \<and> ahead (adv c 1) z"
      if y: "byte_string y t" "ahead c y" for y t
    proof -
      have "\<not> (cbor_head h 2 v \<and> y = h @ t)" for h v
      proof
        assume h: "cbor_head h 2 v \<and> y = h @ t"
        then obtain b k where "h = b # k" using starts_head(1) [of h] by (cases h) auto
        moreover have "ahead c h" using h y(2) by (simp add: ahead_append)
        ultimately have "h = 0x5F # k" using ahead_unique [OF True, of h] by simp
        then show False using h not_head_5F by blast
      qed
      then obtain z where "y = 0x5F # z" "chunk_run z t" using y(1) unfolding byte_string_def by blast
      then show ?thesis using y(2) ahead_Cons by blast
    qed
    ultimately show ?thesis
    proof (cases rule: readsE)
      case (1 x s)
      show ?thesis
      proof (rule reads_yes)
        show "byte_string (0x5F # x) s" using 1(1) by (simp add: byte_string_def)
        show "ahead c (0x5F # x)" using True 1(2) ahead_Cons by blast
        show "0 + length s \<le> L" by (rule 1(3))
        show "cbor_read_bytes_flexible c (Some buf) L =
            Some (True, Some (patch buf 0 s), 0 + length s, adv c (length (0x5F # x)))"
          unfolding flex ind 1(5) by simp
        show "y = 0x5F # x \<and> t = s" if "byte_string y t" "ahead c y" for y t
          using opn [OF that] 1(4) by blast
      qed
    next
      case (2 buf' c')
      show ?thesis
      proof (rule reads_no)
        show "cbor_read_bytes_flexible c (Some buf) L = Some (False, Some buf', 0, c')"
          unfolding flex ind by (rule 2(1))
        show "length buf' = length buf" by (rule 2(2))
        show "L < 0 + length t" if "byte_string y t" "ahead c y" for y t
          using opn [OF that] 2(3) by blast
      qed
    qed
  next
    case False
    have "cbor_read_bytes_indefinite c (Some buf) L = Some (False, Some buf, 0, c)"
    proof (cases "cb_pos c < cb_len c")
      case True
      then obtain b where b: "ahead c [b]" using ahead_byte [OF c] by blast
      then have "b \<noteq> 0x5F" using False by blast
      then show ?thesis
        unfolding cbor_read_bytes_indefinite_def ahead_next(2) [OF b] using d by simp
    next
      case False
      then show ?thesis by (simp add: cbor_read_bytes_indefinite_def cbor_has_remaining_def)
    qed
    moreover have "L < length t" if y: "byte_string y t" "ahead c y" for y t
    proof -
      have "y \<noteq> 0x5F # z" for z using y(2) False ahead_Cons by blast
      then show ?thesis using y n unfolding byte_string_def by blast
    qed
    ultimately show ?thesis by (intro reads_no [of _ buf c]) (simp_all add: flex)
  qed
qed

text \<open> From any cursor inside its buffer, \<open>cbor_read_bytes_flexible\<close> returns without an
  access outside its objects. If a byte string, definite or in chunks, comes next whose
  content fits the destination, the content is delivered there, the rest of the destination
  stays, and the cursor moves behind the string; in every other case it reports failure. \<close>

theorem byte_string_read_exact:
  assumes "cb_data c = Some bs" and "cb_len c \<le> length bs" and "cb_len c \<le> UINT16_MAX"
    and "cb_pos c \<le> cb_len c" and "L \<le> length buf" and "L \<le> UINT16_MAX"
  shows "(\<exists>x s. byte_string x s \<and> ahead c x \<and> length s \<le> L \<and>
       cbor_read_bytes_flexible c (Some buf) L =
         Some (True, Some (s @ drop (length s) buf), length s, c\<lparr>cb_pos := cb_pos c + length x\<rparr>)) \<or>
     (\<exists>buf' c'. cbor_read_bytes_flexible c (Some buf) L = Some (False, Some buf', 0, c') \<and>
        length buf' = length buf) \<and> (\<forall>x s. byte_string x s \<longrightarrow> ahead c x \<longrightarrow> L < length s)"
proof -
  have c: "ahead c []" using assms by (auto simp: ahead_def)
  have patch: "patch buf 0 s = s @ drop (length s) buf" for s by (simp add: patch_def)
  show ?thesis
    using read_bytes_flexible_reads [OF c assms(5,6)] unfolding reads_def patch adv_def add_0 by blast
qed

theorem byte_string_read_exact_witness:
  "(\<exists>x s. byte_string x s \<and> ahead \<lparr>cb_data = Some [0x5F, 0x41, 0x07, 0x41, 0x08, 0xFF], cb_len = 6, cb_pos = 0\<rparr> x \<and>
       length s \<le> 4 \<and>
       cbor_read_bytes_flexible \<lparr>cb_data = Some [0x5F, 0x41, 0x07, 0x41, 0x08, 0xFF], cb_len = 6, cb_pos = 0\<rparr>
           (Some (replicate 4 0)) 4 =
         Some (True, Some (s @ drop (length s) (replicate 4 0)), length s,
           \<lparr>cb_data = Some [0x5F, 0x41, 0x07, 0x41, 0x08, 0xFF], cb_len = 6, cb_pos = length x\<rparr>)) \<or>
     (\<forall>x s. byte_string x s \<longrightarrow>
       ahead \<lparr>cb_data = Some [0x5F, 0x41, 0x07, 0x41, 0x08, 0xFF], cb_len = 6, cb_pos = 0\<rparr> x \<longrightarrow> 4 < length s)"
  using byte_string_read_exact [of "\<lparr>cb_data = Some [0x5F, 0x41, 0x07, 0x41, 0x08, 0xFF], cb_len = 6, cb_pos = 0\<rparr>"
      "[0x5F, 0x41, 0x07, 0x41, 0x08, 0xFF]" 4 "replicate 4 0"]
  by simp blast


section \<open>The getAssertion request as CBOR\<close>

lemma initial_byte:
  assumes "n < 32" and "m < 8"
  shows "drop_bit 5 (byte (m * 32 + n)) = byte m" and "byte (m * 32 + n) AND 0x1F = byte n"
proof -
  have k: "unat (byte (m * 32 + n)) = m * 32 + n" using assms by simp
  have "unat (drop_bit 5 (byte (m * 32 + n))) = m"
    unfolding unat_drop_bit_eq k using assms by (simp add: drop_bit_eq_div)
  then show "drop_bit 5 (byte (m * 32 + n)) = byte m" by (metis byte_unat)
  have "(m * 32 + n) AND 31 = n"
    using take_bit_eq_mask [of 5 "m * 32 + n"] assms by (simp add: take_bit_eq_mod mask_eq_exp_minus_1)
  then have "unat (byte (m * 32 + n) AND 0x1F) = n" unfolding unsigned_and_eq k by simp
  then show "byte (m * 32 + n) AND 0x1F = byte n" by (metis byte_unat)
qed

lemma head_inline:
  assumes "n < 24" and "m < 8" shows "cbor_head [byte (m * 32 + n)] (byte m) n"
  using initial_byte [of n m] assms by (simp add: word_less_nat_alt)

lemma head_bytes: "n \<le> UINT16_MAX \<Longrightarrow> cbor_head (cbor_bytes_hdr n) 2 n"
  using head_inline [of n 2] by (auto simp: cbor_bytes_hdr_def be16_bytes)

lemma head_text: "n \<le> 255 \<Longrightarrow> cbor_head (cbor_text_hdr n) 3 n"
  using head_inline [of n 3] by (auto simp: cbor_text_hdr_def)

lemma head_small: "n < 24 \<Longrightarrow> cbor_head [byte n] 0 n" "n < 24 \<Longrightarrow> cbor_head [byte (0x80 + n)] 4 n"
    "n < 24 \<Longrightarrow> cbor_head [byte (0xA0 + n)] 5 n"
  using head_inline [of n 0] head_inline [of n 4] head_inline [of n 5] by simp_all

lemma item_closed:
  "cbor_head h m v \<Longrightarrow> item_body (data_item levels) m v y \<Longrightarrow> data_item (Suc levels) (h @ y)"
  by auto

lemma item_uint: "n < 24 \<Longrightarrow> data_item (Suc levels) [byte n]"
  using item_closed [OF head_small(1), of n levels "[]"] by (simp add: item_body_def)

lemma item_bytes: "length s \<le> UINT16_MAX \<Longrightarrow> data_item (Suc levels) (cbor_bytes_hdr (length s) @ s)"
  by (rule item_closed [OF head_bytes]) (simp_all add: item_body_def)

lemma item_text: "length s \<le> 255 \<Longrightarrow> data_item (Suc levels) (cbor_text_hdr (length s) @ s)"
  by (rule item_closed [OF head_text]) (simp_all add: item_body_def)

lemma item_array:
  "n < 24 \<Longrightarrow> reps (data_item levels) n y \<Longrightarrow> data_item (Suc levels) (byte (0x80 + n) # y)"
  using item_closed [OF head_small(2), of n levels y] by (simp add: item_body_def)

lemma item_map:
  "n < 24 \<Longrightarrow> reps (two (data_item levels)) n y \<Longrightarrow> data_item (Suc levels) (byte (0xA0 + n) # y)"
  using item_closed [OF head_small(3), of n levels y] by (simp add: item_body_def)

lemma repsI: "P a \<Longrightarrow> reps P n b \<Longrightarrow> reps P (Suc n) (a @ b)"
  by auto

lemma twoI: "P a \<Longrightarrow> P b \<Longrightarrow> two P (a @ b)"
  by (auto simp: two_def)

lemma item_true: "data_item (Suc levels) [0xF5]" "data_item (Suc levels) [0xF4]"
proof -
  have "cbor_head [0xF5] 7 21" "cbor_head [0xF4] 7 20" by simp_all
  then show "data_item (Suc levels) [0xF5]" "data_item (Suc levels) [0xF4]"
    using item_closed [of "[0xF5]" 7 21 levels "[]"] item_closed [of "[0xF4]" 7 20 levels "[]"]
    by (simp_all add: item_body_def)
qed

lemma item_short_text: "length s < 24 \<Longrightarrow> b = byte (0x60 + length s) \<Longrightarrow> data_item (Suc levels) (b # s)"
  using item_text [of s levels] by (simp add: cbor_text_hdr_def)

text \<open>The four members of the request, and the descriptor with what follows it.\<close>

lemma options_item: "data_item (Suc (Suc levels)) (0xA2 # K_NFC_CTAP_OPTIONS_UP @ K_NFC_CTAP_OPTIONS_UV)"
proof -
  have "two (data_item (Suc levels)) ([0x62, 0x75, 0x70] @ [0xF5])"
    by (intro twoI item_true item_short_text) simp_all
  moreover have "two (data_item (Suc levels)) ([0x62, 0x75, 0x76] @ [0xF4])"
    by (intro twoI item_true item_short_text) simp_all
  ultimately have "reps (two (data_item (Suc levels))) (Suc (Suc 0))
      (([0x62, 0x75, 0x70] @ [0xF5]) @ ([0x62, 0x75, 0x76] @ [0xF4]) @ [])"
    by (intro repsI) simp_all
  then have "reps (two (data_item (Suc levels))) 2 (K_NFC_CTAP_OPTIONS_UP @ K_NFC_CTAP_OPTIONS_UV)"
    by (simp add: K_NFC_CTAP_OPTIONS_UP_def K_NFC_CTAP_OPTIONS_UV_def numeral_2_eq_2 del: reps.simps)
  then show ?thesis using item_map [of 2 "Suc levels" "K_NFC_CTAP_OPTIONS_UP @ K_NFC_CTAP_OPTIONS_UV"] by simp
qed

lemma descriptor_item:
  assumes "length cred \<le> UINT16_MAX" and "n < 24"
  shows "data_item (Suc (Suc levels)) (cred_descriptor cred @ [byte n])"
proof -
  have key: "data_item (Suc levels) K_NFC_CTAP_PK_CRED_TYPE_KEY"
    unfolding K_NFC_CTAP_PK_CRED_TYPE_KEY_def by (rule item_short_text) simp_all
  have val: "data_item (Suc levels) K_NFC_CTAP_PK_CRED_TYPE_PUBLIC_KEY"
    unfolding K_NFC_CTAP_PK_CRED_TYPE_PUBLIC_KEY_def by (rule item_short_text) simp_all
  have "reps (two (data_item (Suc levels))) (Suc (Suc 0))
      ((K_NFC_CTAP_PK_CRED_TYPE_KEY @ K_NFC_CTAP_PK_CRED_TYPE_PUBLIC_KEY) @
       ((cbor_bytes_hdr (length cred) @ cred) @ [byte n]) @ [])"
    by (intro repsI twoI key val item_bytes item_uint assms) simp
  then have "data_item (Suc (Suc levels)) (byte (0xA0 + Suc (Suc 0)) #
      ((K_NFC_CTAP_PK_CRED_TYPE_KEY @ K_NFC_CTAP_PK_CRED_TYPE_PUBLIC_KEY) @
       ((cbor_bytes_hdr (length cred) @ cred) @ [byte n]) @ []))"
    by (intro item_map) simp_all
  then show ?thesis by (simp add: cred_descriptor_def del: data_item.simps)
qed

lemma first_members:
  assumes "length rp \<le> 255" and "length hash = 32"
  shows "two (data_item (Suc levels)) (0x01 # cbor_text_hdr (length rp) @ rp)"
    "two (data_item (Suc levels)) (0x02 # [0x58, 32] @ hash)"
  using twoI [OF item_uint [of 1 levels] item_text [OF assms(1), of levels]]
    twoI [OF item_uint [of 2 levels] item_bytes [of hash levels]] assms(2)
  by (simp_all add: cbor_bytes_hdr_def del: data_item.simps)

lemma request_item:
  assumes "length rp \<le> 255" and "length hash = 32"
  shows "data_item (Suc (Suc (Suc levels))) (get_assertion_bytes rp hash None)"
proof -
  have "two (data_item (Suc (Suc levels))) ([0x05] @ (0xA2 # K_NFC_CTAP_OPTIONS_UP @ K_NFC_CTAP_OPTIONS_UV))"
    using twoI [OF item_uint [of 5 "Suc levels"] options_item [of levels]] by (simp del: data_item.simps)
  then have "reps (two (data_item (Suc (Suc levels)))) (Suc (Suc (Suc 0)))
      ((0x01 # cbor_text_hdr (length rp) @ rp) @ (0x02 # [0x58, 32] @ hash) @
       ([0x05] @ (0xA2 # K_NFC_CTAP_OPTIONS_UP @ K_NFC_CTAP_OPTIONS_UV)) @ [])"
    by (intro repsI first_members [OF assms]) simp_all
  then have "data_item (Suc (Suc (Suc levels))) (byte (0xA0 + Suc (Suc (Suc 0))) #
      ((0x01 # cbor_text_hdr (length rp) @ rp) @ (0x02 # [0x58, 32] @ hash) @
       ([0x05] @ (0xA2 # K_NFC_CTAP_OPTIONS_UP @ K_NFC_CTAP_OPTIONS_UV)) @ []))"
    by (intro item_map) simp_all
  then show ?thesis by (simp add: get_assertion_bytes_def del: data_item.simps)
qed


text \<open>Skipping over items that are known to be ahead.\<close>

lemma skip_item:
  assumes "data_item levels x" and "ahead c x"
  shows "cbor_skip_depth levels c = Some (True, adv c (length x))"
  using skips_data_item [OF ahead_here [OF assms(2)], of levels]
proof (cases rule: skipsE)
  case (1 y)
  then show ?thesis using assms by simp
qed (use assms in blast)

lemma skip_pair_item:
  assumes "two (data_item levels) x" and "ahead c x"
  shows "skip_pair (cbor_skip_depth levels) c = Some (True, adv c (length x))"
proof -
  have "skips (two (data_item levels)) (skip_pair (cbor_skip_depth levels)) c"
    using ahead_here [OF assms(2)] by (intro skips_two skips_data_item)
  then show ?thesis
  proof (cases rule: skipsE)
    case (1 y)
    then show ?thesis using assms by simp
  qed (use assms in blast)
qed

lemma skip_pair_cut:
  assumes "data_item (Suc levels) x" and "ahead c x" and "cb_pos c + length x = cb_len c"
  shows "\<exists>c'. skip_pair (cbor_skip_depth (Suc levels)) c = Some (False, c')"
  unfolding skip_pair_def skip_item [OF assms(1,2)] using assms(3) by simp

lemma skip_count_pairs:
  assumes "two (data_item levels) x" and "ahead c x"
  shows "skip_count (Suc n) (skip_pair (cbor_skip_depth levels)) c =
    skip_count n (skip_pair (cbor_skip_depth levels)) (adv c (length x))"
  using skip_pair_item [OF assms] by simp

text \<open> Without a credential, the request \<open>nfc_ctap_encode_get_assertion\<close> writes is one
  CBOR data item: it succeeds exactly when the buffer has the room, and \<open>cbor_skip\<close> then reads
  it to its exact end. \<close>

theorem get_assertion_is_cbor:
  assumes "m \<le> length out" and "m \<le> UINT16_MAX" and "32 \<le> length hash"
    and "0 \<notin> set rp" and "0 < length rp" and "length rp \<le> 253"
  shows "\<exists>ok out' n. nfc_ctap_encode_get_assertion (Some hash) (Some (rp @ [0])) None 0 (Some out) m =
      Some (ok, Some out', n) \<and>
    (ok \<longleftrightarrow> 47 + length (cbor_text_hdr (length rp)) + length rp \<le> m) \<and>
    (ok \<longrightarrow> take n out' = get_assertion_bytes rp (take 32 hash) None \<and> n \<le> m \<and>
       cbor_skip \<lparr>cb_data = Some out', cb_len = n, cb_pos = 0\<rparr> =
         Some (True, \<lparr>cb_data = Some out', cb_len = n, cb_pos = n\<rparr>))"
proof -
  define g where "g = get_assertion_bytes rp (take 32 hash) None"
  obtain ok out' n where enc: "nfc_ctap_encode_get_assertion (Some hash) (Some (rp @ [0])) None 0 (Some out) m =
      Some (ok, Some out', n)" "ok \<longleftrightarrow> get_assertion_room (length rp) None \<le> m"
      "ok \<longrightarrow> out' = patch out 0 g \<and> n = length g"
    using encode_get_assertion_eq [where m = m and bs = out and hs = hash and rp = rp and cred = None and crp = None
      and crn = 0 and rest = "[]"] assms by (auto simp: g_def)
  have room: "get_assertion_room (length rp) None = length g"
    using assms(3) by (simp add: get_assertion_room_def g_def get_assertion_bytes_def)
  have "cbor_skip \<lparr>cb_data = Some out', cb_len = n, cb_pos = 0\<rparr> =
      Some (True, \<lparr>cb_data = Some out', cb_len = n, cb_pos = n\<rparr>)" if ok
  proof -
    have g: "out' = patch out 0 g" "n = length g" "n \<le> m" using enc(2,3) that room by simp_all
    have "length g \<le> length out" using g assms(1) by simp
    then have "take n out' = g" unfolding g by (rule take_patch_front)
    then have "ahead \<lparr>cb_data = Some out', cb_len = n, cb_pos = 0\<rparr> g"
      using g assms(1,2) by (simp add: ahead_def)
    moreover have "data_item (Suc (Suc (Suc 30))) g"
      unfolding g_def by (rule request_item) (use assms in simp_all)
    ultimately have "cbor_skip_depth (Suc (Suc (Suc 30))) \<lparr>cb_data = Some out', cb_len = n, cb_pos = 0\<rparr> =
        Some (True, adv \<lparr>cb_data = Some out', cb_len = n, cb_pos = 0\<rparr> (length g))"
      by (intro skip_item)
    moreover have "cbor_skip c = cbor_skip_depth (Suc (Suc (Suc 30))) c" for c
      by (simp add: cbor_skip_def eval_nat_numeral del: cbor_skip_depth.simps)
    ultimately show ?thesis by (simp add: adv_def g(2) del: cbor_skip_depth.simps)
  qed
  moreover have "take n out' = g \<and> n \<le> m" if ok
  proof -
    have "length g \<le> length out" using enc(2,3) that room assms(1) by simp
    then show ?thesis using enc(2,3) that room take_patch_front [of g out] by simp
  qed
  ultimately show ?thesis
    using enc(1,2) by (auto simp: g_def get_assertion_room_def)
qed

theorem get_assertion_is_cbor_witness:
  "\<exists>ok out' n. nfc_ctap_encode_get_assertion (Some (replicate 32 7)) (Some ([0x61, 0x2E, 0x62] @ [0])) None 0
      (Some (replicate 64 0)) 64 = Some (ok, Some out', n) \<and> ok \<and> n \<le> 64 \<and>
    cbor_skip \<lparr>cb_data = Some out', cb_len = n, cb_pos = 0\<rparr> =
      Some (True, \<lparr>cb_data = Some out', cb_len = n, cb_pos = n\<rparr>)"
  using get_assertion_is_cbor [of 64 "replicate 64 0" "replicate 32 7" "[0x61, 0x2E, 0x62]"]
  by (auto simp: cbor_text_hdr_def)

text \<open> C39: With a credential, no request the encoder writes is a CBOR data item. The
  descriptor is announced as a map of two members but lacks the key \<open>id\<close>, so the members slip
  by one, the last one has no value, and \<open>cbor_skip\<close> of the same firmware rejects the
  request, whatever the relying party, hash and credential. \<close>

theorem get_assertion_with_credential_malformed:
  assumes "m \<le> length out" and "m \<le> UINT16_MAX" and "32 \<le> length hash"
    and "0 \<notin> set rp" and "0 < length rp" and "length rp \<le> 253"
    and "0 < length cred" and "length cred \<le> UINT16_MAX"
  shows "\<exists>ok out' n. nfc_ctap_encode_get_assertion (Some hash) (Some (rp @ [0])) (Some cred) (length cred)
      (Some out) m = Some (ok, Some out', n) \<and>
    (ok \<longleftrightarrow> get_assertion_room (length rp) (Some (length cred)) \<le> m) \<and>
    (ok \<longrightarrow> take n out' = get_assertion_bytes rp (take 32 hash) (Some cred) \<and>
      (\<exists>c'. cbor_skip \<lparr>cb_data = Some out', cb_len = n, cb_pos = 0\<rparr> = Some (False, c')))"
proof -
  define g where "g = get_assertion_bytes rp (take 32 hash) (Some cred)"
  obtain ok out' n where enc: "nfc_ctap_encode_get_assertion (Some hash) (Some (rp @ [0])) (Some cred) (length cred)
      (Some out) m = Some (ok, Some out', n)" "ok \<longleftrightarrow> get_assertion_room (length rp) (Some (length cred)) \<le> m"
      "ok \<longrightarrow> out' = patch out 0 g \<and> n = length g"
    using encode_get_assertion_eq [where m = m and bs = out and hs = hash and rp = rp and cred = "Some cred"
      and crp = "Some cred" and crn = "length cred" and rest = "[]"] assms
    by (auto simp: g_def)
  have room: "length g \<le> get_assertion_room (length rp) (Some (length cred))"
    using assms(3) by (simp add: get_assertion_room_def g_def get_assertion_bytes_def cred_descriptor_def)
  have bad: "take n out' = g \<and>
      (\<exists>c'. cbor_skip \<lparr>cb_data = Some out', cb_len = n, cb_pos = 0\<rparr> = Some (False, c'))" if ok
  proof -
    have g: "out' = patch out 0 g" "n = length g" "n \<le> m" using enc(2,3) that room by simp_all
    define c where "c = \<lparr>cb_data = Some out', cb_len = n, cb_pos = 0\<rparr>"
    define h where "h = take 32 hash"
    define a where "a = 0x01 # cbor_text_hdr (length rp) @ rp"
    define b where "b = 0x02 # [0x58, 32] @ h"
    define d where "d = 0x03 # 0x81 # cred_descriptor cred @ [0x05]"
    define e where "e = 0xA2 # K_NFC_CTAP_OPTIONS_UP @ K_NFC_CTAP_OPTIONS_UV"
    have split: "g = [0xA4] @ a @ b @ d @ e"
      by (simp add: g_def get_assertion_bytes_def a_def b_def d_def e_def h_def)
    have "length g \<le> length out" using g assms(1) by simp
    then have t: "take n out' = g" unfolding g by (rule take_patch_front)
    have "ahead c g" using t g assms(1,2) by (simp add: ahead_def c_def)
    then have at: "ahead c [0xA4]" "ahead (adv c 1) a" "ahead (adv c (1 + length a)) b"
        "ahead (adv c (1 + length a + length b)) d" "ahead (adv c (1 + length a + length b + length d)) e"
      unfolding split ahead_append by (simp_all add: add.assoc)
    have hl: "length h = 32" using assms(3) by (simp add: h_def)
    have A: "two (data_item (Suc 31)) a" "two (data_item (Suc 31)) b"
      using first_members [of rp h 31] assms(6) hl unfolding a_def b_def by simp_all
    have arr: "data_item (Suc 31) (byte (0x80 + Suc 0) # cred_descriptor cred @ [byte 5])"
      using item_array [of "Suc 0" 31] descriptor_item [OF assms(8), of 5 29]
        repsI [of "data_item 31" "cred_descriptor cred @ [byte 5]" 0 "[]"]
      by (simp add: numeral_eq_Suc del: data_item.simps)
    have D: "two (data_item (Suc 31)) d"
      using twoI [OF item_uint [of 3 31] arr] by (simp add: d_def del: data_item.simps)
    have E: "data_item (Suc 31) e" using options_item [of 30] by (simp add: e_def numeral_eq_Suc del: data_item.simps)
    have last: "\<exists>c'. skip_pair (cbor_skip_depth (Suc 31)) (adv c (1 + length a + length b + length d)) = Some (False, c')"
      by (rule skip_pair_cut [OF E at(5)]) (simp add: c_def g(2) split)
    have body: "\<exists>c'. skip_count 4 (skip_pair (cbor_skip_depth (Suc 31))) (adv c 1) = Some (False, c')"
    proof -
      obtain c' where "skip_pair (cbor_skip_depth (Suc 31)) (adv c (1 + length a + length b + length d)) =
          Some (False, c')" using last by blast
      then have "skip_count (Suc 0) (skip_pair (cbor_skip_depth (Suc 31)))
          (adv c (1 + length a + length b + length d)) = Some (False, c')"
        unfolding skip_count.simps by (simp only: bind.bind_lunit prod.case simp_thms if_True)
      then have "skip_count (Suc (Suc (Suc (Suc 0)))) (skip_pair (cbor_skip_depth (Suc 31))) (adv c 1) =
          Some (False, c')"
        using skip_count_pairs [OF A(1) at(2), of "Suc (Suc (Suc 0))"]
          skip_count_pairs [OF A(2) at(3), of "Suc (Suc 0)"] skip_count_pairs [OF D at(4), of "Suc 0"]
        by (simp only: adv_adv)
      moreover have "4 = Suc (Suc (Suc (Suc 0)))" by simp
      ultimately show ?thesis by metis
    qed
    have data: "cb_data c = Some out'" by (simp add: c_def)
    have hd: "cbor_read_head c = Some (True, 5, 4, adv c 1)"
      using read_head_complete [OF head_small(3) [of 4], of c] at(1) by simp
    have "cbor_skip_depth (Suc (Suc 31)) c = skip_count 4 (skip_pair (cbor_skip_depth (Suc 31))) (adv c 1)"
      unfolding cbor_skip_depth.simps(2) [of "Suc 31"] ahead_next(2) [OF at(1)] hd bind.bind_lunit prod.case
      using ahead_next(1) [OF at(1)] data by (simp del: cbor_skip_depth.simps skip_count.simps)
    moreover have "cbor_skip c = cbor_skip_depth (Suc (Suc 31)) c"
      by (simp add: cbor_skip_def eval_nat_numeral del: cbor_skip_depth.simps)
    ultimately have "\<exists>c'. cbor_skip c = Some (False, c')" using body by simp
    then show ?thesis using t unfolding c_def by blast
  qed
  show ?thesis using enc(1,2) bad unfolding g_def by blast
qed

theorem get_assertion_with_credential_malformed_witness:
  "\<exists>ok out' n c'. nfc_ctap_encode_get_assertion (Some (replicate 32 7)) (Some ([0x61, 0x2E, 0x62] @ [0]))
      (Some (replicate 16 9)) 16 (Some (replicate 200 0)) 200 = Some (ok, Some out', n) \<and> ok \<and>
    cbor_skip \<lparr>cb_data = Some out', cb_len = n, cb_pos = 0\<rparr> = Some (False, c')"
  using get_assertion_with_credential_malformed [of 200 "replicate 200 0" "replicate 32 7" "[0x61, 0x2E, 0x62]"
      "replicate 16 9"]
  by (auto simp: get_assertion_room_def cbor_text_hdr_def cbor_bytes_hdr_def)

end
