(* ===== verification/CcidProtocol.thy ===== *)
theory CcidProtocol
  imports CcidFrame
begin

text \<open>
  The CCID message codec of \<^verbatim>\<open>reader_ccid_protocol.h\<close> and \<^verbatim>\<open>reader_ccid_bulk_codec.h\<close>:
  parameter blocks, the checks of command headers, and the encoders of failure responses.
  Local arrays the code leaves uninitialised start as zeros; every byte that is read from
  them is written first.
\<close>

section \<open>Guarded stores\<close>

text \<open>\<open>if (!f) return false; g\<close> for two writers of the same buffer.\<close>

definition ok_then ::
    "(bool \<times> cptr) option \<Rightarrow> (cptr \<Rightarrow> (bool \<times> cptr) option) \<Rightarrow> (bool \<times> cptr) option" where
  "ok_then f g = do {
     (ok, p) \<leftarrow> f;
     if \<not> ok then Some (False, p) else g p
   }"

lemma ok_then_True [simp]: "ok_then (Some (True, p)) g = g p"
  by (simp add: ok_then_def)

definition reader_ccid_store_u32_le :: "cptr \<Rightarrow> nat \<Rightarrow> nat \<Rightarrow> nat \<Rightarrow> (bool \<times> cptr) option" where
  "reader_ccid_store_u32_le dst dst_cap dst_off value = do {
     encoded \<leftarrow> nfc_ccid_u32_store_le (Some (replicate 4 0)) 0 value;
     nero_nfc_copy_bytes dst dst_cap dst_off encoded 4
   }"

definition reader_ccid_load_u32_le :: "cptr \<Rightarrow> nat \<Rightarrow> nat \<Rightarrow> (bool \<times> nat) option" where
  "reader_ccid_load_u32_le src src_cap src_off = do {
     (ok, encoded) \<leftarrow> nero_nfc_copy_from (Some (replicate 4 0)) 4 0 src src_cap src_off 4;
     if \<not> ok then Some (False, 0)
     else do {
       value \<leftarrow> nfc_ccid_u32_load_le encoded;
       Some (True, value)
     }
   }"

section \<open>Parameter blocks\<close>

definition reader_ccid_build_t0_params :: "cptr \<Rightarrow> nat \<Rightarrow> (nat \<times> cptr) option" where
  "reader_ccid_build_t0_params param cap =
     (if cap < 5 \<or> param = None then Some (0, param)
      else do {
        (ok, param) \<leftarrow> store_seq param cap [(0, 0x11), (1, 0), (2, 0), (3, 0x0A), (4, 0)];
        Some (if ok then 5 else 0, param)
      })"

definition reader_ccid_build_t1_params :: "cptr \<Rightarrow> nat \<Rightarrow> (nat \<times> cptr) option" where
  "reader_ccid_build_t1_params param cap =
     (if cap < 7 \<or> param = None then Some (0, param)
      else do {
        (ok, param) \<leftarrow> store_seq param cap
          [(0, 0x11), (1, 0), (2, 0), (3, 0x4D), (4, 0), (5, 0xFE), (6, 0)];
        Some (if ok then 7 else 0, param)
      })"

definition reader_ccid_encode_params_response ::
    "cptr \<Rightarrow> nat \<Rightarrow> u8 \<Rightarrow> u8 \<Rightarrow> u8 \<Rightarrow> u8 \<Rightarrow> u8 \<Rightarrow> u8 \<Rightarrow> (bool \<times> cptr) option" where
  "reader_ccid_encode_params_response buf buf_cap rdr_pc_parameters seq8 icclvl err_code
       protocol_num protocol_t1 = do {
     (parm_len, param) \<leftarrow> (if protocol_num = protocol_t1
        then reader_ccid_build_t1_params (Some (replicate 8 0)) 8
        else reader_ccid_build_t0_params (Some (replicate 8 0)) 8);
     case (if buf = None then None else nero_nfc_try_add_size 10 parm_len) of
       None \<Rightarrow> Some (False, buf)
     | Some response_len \<Rightarrow>
         if response_len > buf_cap then Some (False, buf)
         else ok_then (nero_nfc_store_u8 buf buf_cap 0 rdr_pc_parameters) (\<lambda>buf.
              ok_then (reader_ccid_store_u32_le buf buf_cap 1 parm_len) (\<lambda>buf.
              ok_then (store_seq buf buf_cap [(5, 0), (6, seq8), (7, icclvl), (8, err_code), (9, protocol_num)])
                (\<lambda>buf. if parm_len \<noteq> 0 then nero_nfc_copy_bytes buf buf_cap 10 param parm_len
                       else Some (True, buf))))
   }"

section \<open>Checks of command headers\<close>

definition reader_ccid_param_error_for_request :: "cptr \<Rightarrow> nat \<Rightarrow> u8 \<Rightarrow> u8 \<Rightarrow> u8 option" where
  "reader_ccid_param_error_for_request frame nbytes set_params_msg protocol_t1 =
     (if frame = None \<or> nbytes < 10 then Some 0
      else do {
        m \<leftarrow> nero_nfc_u8_at frame nbytes 0;
        if m \<noteq> set_params_msg then Some 0
        else do {
          (ok, data_len) \<leftarrow> reader_ccid_load_u32_le frame nbytes 1;
          if \<not> ok \<or> data_len \<noteq> 7 then Some 0x01
          else do {
            p1 \<leftarrow> rd frame 7;
            if p1 \<noteq> protocol_t1 then Some 0x07
            else do {
              p2 \<leftarrow> rd frame 8;
              if p2 \<noteq> 0 then Some 0x08
              else do {
                p3 \<leftarrow> rd frame 9;
                Some (if p3 \<noteq> 0 then 0x09 else 0)
              }
            }
          }
        }
      })"

definition reader_ccid_param_icc_level ::
    "cptr \<Rightarrow> nat \<Rightarrow> u8 \<Rightarrow> u8 \<Rightarrow> u8 \<Rightarrow> u8 \<Rightarrow> u8 option" where
  "reader_ccid_param_icc_level frame nbytes current_status command_fail_bit set_params_msg protocol_t1 =
     (if frame = None then Some (command_fail_bit OR current_status)
      else do {
        err \<leftarrow> reader_ccid_param_error_for_request frame nbytes set_params_msg protocol_t1;
        Some (if err \<noteq> 0 then command_fail_bit OR current_status else current_status)
      })"

definition reader_ccid_xfr_level_error :: "nat \<Rightarrow> nat \<Rightarrow> u8 \<Rightarrow> u8 \<Rightarrow> u8" where
  "reader_ccid_xfr_level_error level_param data_len bad_length_error bad_level_error =
     (if level_param = 0x10 then (if data_len = 0 then 0 else bad_length_error)
      else if level_param = 0 \<or> level_param = 1 \<or> level_param = 3 \<or> level_param = 2 then 0
      else bad_level_error)"

definition reader_ccid_power_select_error :: "u8 \<Rightarrow> u8 \<Rightarrow> u8" where
  "reader_ccid_power_select_error power_select unsupported_error =
     (if power_select \<le> 3 then 0 else unsupported_error)"

text \<open>Default clock 13560 kHz, default data rate 106000 bit/s.\<close>

definition reader_ccid_encode_data_rate_clock_response ::
    "cptr \<Rightarrow> nat \<Rightarrow> u8 \<Rightarrow> u8 \<Rightarrow> u8 \<Rightarrow> u8 \<Rightarrow> (bool \<times> cptr) option" where
  "reader_ccid_encode_data_rate_clock_response buf18 buf_cap rdr_msg_type seq8 icc_level err_code =
     (if buf18 = None \<or> buf_cap < 10 + 8 then Some (False, buf18)
      else ok_then (nero_nfc_store_u8 buf18 buf_cap 0 rdr_msg_type) (\<lambda>buf18.
           ok_then (reader_ccid_store_u32_le buf18 buf_cap 1 8) (\<lambda>buf18.
           ok_then (store_seq buf18 buf_cap [(5, 0), (6, seq8), (7, icc_level), (8, err_code)]) (\<lambda>buf18.
           ok_then (nero_nfc_store_u8 buf18 buf_cap 9 0) (\<lambda>buf18.
           ok_then (reader_ccid_store_u32_le buf18 buf_cap 10 13560) (\<lambda>buf18.
             reader_ccid_store_u32_le buf18 buf_cap 14 106000))))))"

section \<open>Classification of commands\<close>

definition reader_ccid_response_msg_for_bulk_command :: "u8 \<Rightarrow> u8" where
  "reader_ccid_response_msg_for_bulk_command msg_type =
     (if msg_type = 0x62 \<or> msg_type = 0x6F \<or> msg_type = 0x69 then 0x80
      else if msg_type = 0x6C \<or> msg_type = 0x6D \<or> msg_type = 0x61 then 0x82
      else if msg_type = 0x6B then 0x83
      else if msg_type = 0x73 then 0x84
      else 0x81)"

definition reader_ccid_bulk_command_requires_zero_length :: "u8 \<Rightarrow> bool" where
  "reader_ccid_bulk_command_requires_zero_length msg_type \<longleftrightarrow>
     msg_type = 0x65 \<or> msg_type = 0x62 \<or> msg_type = 0x63 \<or> msg_type = 0x6C \<or> msg_type = 0x6D \<or>
     msg_type = 0x72 \<or> msg_type = 0x6E \<or> msg_type = 0x6A \<or> msg_type = 0x71"

definition reader_ccid_bulk_command_requires_rfu_zero :: "u8 \<Rightarrow> bool" where
  "reader_ccid_bulk_command_requires_rfu_zero msg_type \<longleftrightarrow>
     msg_type = 0x65 \<or> msg_type = 0x63 \<or> msg_type = 0x6C \<or> msg_type = 0x6D \<or> msg_type = 0x72"

definition reader_ccid_bulk_xfr_level_parameter :: "cptr \<Rightarrow> nat \<Rightarrow> nat option" where
  "reader_ccid_bulk_xfr_level_parameter frame frame_len =
     (if frame = None then Some 0
      else if \<not> nero_nfc_span_ok 8 2 frame_len then Some 0
      else do {
        p2 \<leftarrow> nero_nfc_u8_at frame frame_len 8;
        p3 \<leftarrow> nero_nfc_u8_at frame frame_len 9;
        Some (be16 p3 p2)
      })"

section \<open>Failure responses\<close>

text \<open>The result is the length of the response and the buffer it was written to.\<close>

definition reader_ccid_encode_command_failed_response ::
    "cptr \<Rightarrow> nat \<Rightarrow> u8 \<Rightarrow> u8 \<Rightarrow> u8 \<Rightarrow> u8 \<Rightarrow> (nat \<times> cptr) option" where
  "reader_ccid_encode_command_failed_response work work_cap msg_type seq8 icclvl err_code =
     (if work = None then Some (0, work)
      else let rsp_msg = reader_ccid_response_msg_for_bulk_command msg_type;
               failed_icclvl = 0x40 OR icclvl
      in if rsp_msg = 0x84 then do {
           (_, work) \<leftarrow> reader_ccid_encode_data_rate_clock_response work work_cap rsp_msg seq8
                          failed_icclvl err_code;
           Some (18, work)
         }
         else if rsp_msg = 0x80 \<or> rsp_msg = 0x83 then do {
           work \<leftarrow> nfc_ccid_encode_data_block_header work rsp_msg seq8 0 failed_icclvl 0;
           (_, work) \<leftarrow> nero_nfc_store_u8 work work_cap 8 err_code;
           Some (10, work)
         }
         else do {
           work \<leftarrow> nfc_ccid_encode_slot_status work rsp_msg seq8 failed_icclvl err_code;
           Some (10, work)
         })"

definition reader_ccid_encode_slot_absent_response ::
    "cptr \<Rightarrow> nat \<Rightarrow> u8 \<Rightarrow> u8 \<Rightarrow> u8 \<Rightarrow> u8 \<Rightarrow> (nat \<times> cptr) option" where
  "reader_ccid_encode_slot_absent_response work work_cap msg_type slot8 seq8 slot_missing_error =
     (if work = None then Some (0, work)
      else if work_cap < 10 then Some (0, work)
      else let rsp_msg = reader_ccid_response_msg_for_bulk_command msg_type; icclvl = 0x40 OR 0x02
      in if rsp_msg = 0x84 then do {
           (_, work) \<leftarrow> reader_ccid_encode_data_rate_clock_response work work_cap rsp_msg seq8
                          icclvl slot_missing_error;
           (_, work) \<leftarrow> nero_nfc_store_u8 work work_cap 5 slot8;
           Some (18, work)
         }
         else do {
           work \<leftarrow> nfc_ccid_encode_slot_status work rsp_msg seq8 icclvl slot_missing_error;
           (_, work) \<leftarrow> nero_nfc_store_u8 work work_cap 5 slot8;
           Some (10, work)
         })"

section \<open>What the encoders write\<close>

lemma store_u32_ok [simp]:
  assumes "off + 4 \<le> cap" and "cap \<le> length bs" and "cap \<le> SIZE_MAX"
  shows "reader_ccid_store_u32_le (Some bs) cap off v = Some (True, Some (patch bs off (le32_bytes v)))"
proof -
  have "patch (replicate 4 0) 0 (le32_bytes v) = le32_bytes v" by simp
  then show ?thesis using assms by (simp add: reader_ccid_store_u32_le_def store_le_Some)
qed

text \<open>The header stores of the encoders, in the order in which they happen.\<close>

lemma header_stores:
  assumes "10 \<le> length bs"
  shows "(patch (bs[0 := m]) 1 (le32_bytes n))[5 := s, 6 := q, 7 := p1, 8 := p2, 9 := p3] =
    patch bs 0 (ccid_header m n s q p1 p2 p3)"
proof -
  obtain a b c d e f g h i j where bs: "bs = a # b # c # d # e # f # g # h # i # j # drop 10 bs"
    using assms by (rule ten_cells)
  define rest where "rest = drop 10 bs"
  have bs': "bs = a # b # c # d # e # f # g # h # i # j # rest" using bs rest_def by simp
  show ?thesis unfolding bs' by (simp add: patch_def le32_bytes_def ccid_header_def)
qed

lemma header_store_all:
  assumes "10 \<le> cap" and "cap \<le> length bs" and "cap \<le> SIZE_MAX"
  shows "ok_then (nero_nfc_store_u8 (Some bs) cap 0 m) (\<lambda>b.
     ok_then (reader_ccid_store_u32_le b cap 1 n) (\<lambda>b.
     ok_then (store_seq b cap [(5, s), (6, q), (7, p1), (8, p2), (9, p3)]) f)) =
    f (Some (patch bs 0 (ccid_header m n s q p1 p2 p3)))"
  using assms by (simp add: store_seq_updates header_stores del: One_nat_def)

definition params_block :: "u8 \<Rightarrow> bytes" where
  "params_block protocol =
     (if protocol = 0x01 then [0x11, 0, 0, 0x4D, 0, 0xFE, 0] else [0x11, 0, 0, 0x0A, 0])"

lemma encode_params_eq:
  assumes "17 \<le> cap" and "cap \<le> length bs" and "cap \<le> SIZE_MAX"
  shows "reader_ccid_encode_params_response (Some bs) cap m q lvl err proto 0x01 =
    Some (True, Some (patch bs 0 (ccid_header m (length (params_block proto)) 0 q lvl err proto @
      params_block proto)))"
proof -
  have st: "store_seq (Some (replicate 8 0)) 8 fs = Some (True, Some (ys @ replicate (8 - length ys) 0))"
    if "fs = enumerate 0 ys" "length ys \<le> 8" for fs ys
    using store_seq_prefix [of 0 ys 8 "replicate 8 0" fs] that by (simp add: patch_def)
  have s1: "store_seq (Some (replicate 8 0)) 8 [(0, 0x11), (1, 0), (2, 0), (3, 0x4D), (4, 0), (5, 0xFE), (6, 0)] =
      Some (True, Some ([0x11, 0, 0, 0x4D, 0, 0xFE, 0] @ [0]))"
    by (subst st [of _ "[0x11, 0, 0, 0x4D, 0, 0xFE, 0]"]) (simp_all add: eval_nat_numeral)
  have s0: "store_seq (Some (replicate 8 0)) 8 [(0, 0x11), (1, 0), (2, 0), (3, 0x0A), (4, 0)] =
      Some (True, Some ([0x11, 0, 0, 0x0A, 0] @ [0, 0, 0]))"
    by (subst st [of _ "[0x11, 0, 0, 0x0A, 0]"]) (simp_all add: eval_nat_numeral)
  have t1: "reader_ccid_build_t1_params (Some (replicate 8 0)) 8 =
      Some (7, Some ([0x11, 0, 0, 0x4D, 0, 0xFE, 0] @ [0]))"
    unfolding reader_ccid_build_t1_params_def s1 by simp
  have t0: "reader_ccid_build_t0_params (Some (replicate 8 0)) 8 =
      Some (5, Some ([0x11, 0, 0, 0x0A, 0] @ [0, 0, 0]))"
    unfolding reader_ccid_build_t0_params_def s0 by simp
  have l: "10 \<le> length bs" "10 + 7 \<le> length bs" using assms by simp_all
  note h = header_stores [OF l(1), of m _ 0 q lvl err]
  have len: "length (params_block proto) = (if proto = 0x01 then 7 else 5)"
    by (simp add: params_block_def)
  show ?thesis
    unfolding reader_ccid_encode_params_response_def t1 t0 len
    using assms l
    by (cases "proto = 0x01")
      (simp_all add: h store_seq_updates patch_patch nero_nfc_try_add_size_def params_block_def del: One_nat_def)
qed

definition rate_clock_block :: bytes where
  "rate_clock_block = le32_bytes 13560 @ le32_bytes 106000"

lemma encode_rate_clock_eq:
  assumes "18 \<le> cap" and "cap \<le> length bs" and "cap \<le> SIZE_MAX"
  shows "reader_ccid_encode_data_rate_clock_response (Some bs) cap m q lvl err =
    Some (True, Some (patch bs 0 (ccid_header m 8 0 q lvl err 0 @ rate_clock_block)))"
proof -
  have b: "(patch (bs[0 := m]) 1 (le32_bytes 8))[5 := 0, 6 := q, 7 := lvl, 8 := err, 9 := 0] =
      patch bs 0 (ccid_header m 8 0 q lvl err 0)"
    by (rule header_stores) (use assms in simp)
  have l: "10 + 4 + 4 \<le> length bs" using assms by simp
  show ?thesis
    unfolding reader_ccid_encode_data_rate_clock_response_def rate_clock_block_def
    using assms l by (simp add: store_seq_updates b patch_patch del: One_nat_def)
qed

text \<open>The failure response to a command, as a frame.\<close>

definition failed_response :: "u8 \<Rightarrow> u8 \<Rightarrow> u8 \<Rightarrow> u8 \<Rightarrow> bytes" where
  "failed_response msg seq lvl err =
     (if reader_ccid_response_msg_for_bulk_command msg = 0x84
      then ccid_header 0x84 8 0 seq (0x40 OR lvl) err 0 @ rate_clock_block
      else ccid_header (reader_ccid_response_msg_for_bulk_command msg) 0 0 seq (0x40 OR lvl) err 0)"

definition absent_response :: "u8 \<Rightarrow> u8 \<Rightarrow> u8 \<Rightarrow> u8 \<Rightarrow> bytes" where
  "absent_response msg slot seq err =
     (if reader_ccid_response_msg_for_bulk_command msg = 0x84
      then ccid_header 0x84 8 slot seq 0x42 err 0 @ rate_clock_block
      else ccid_header (reader_ccid_response_msg_for_bulk_command msg) 0 slot seq 0x42 err 0)"

lemma length_rate_clock_block [simp]: "length rate_clock_block = 8"
  by (simp add: rate_clock_block_def)

lemma length_responses:
  "length (failed_response msg seq lvl err) =
    (if reader_ccid_response_msg_for_bulk_command msg = 0x84 then 18 else 10)"
  "length (absent_response msg slot seq err) =
    (if reader_ccid_response_msg_for_bulk_command msg = 0x84 then 18 else 10)"
  by (simp_all add: failed_response_def absent_response_def)

lemma append_drop_patch: "length x = n \<Longrightarrow> x @ drop n bs = patch bs 0 x"
  by (simp add: patch_def)

lemma patch_header_update:
  assumes "i < length x" and "length x \<le> length bs"
  shows "(patch bs 0 x)[i := v] = patch bs 0 (x[i := v])"
  using assms by (simp add: patch_def list_update_append)

lemma header_updates:
  "(ccid_header m n s q p1 p2 p3)[8 := e] = ccid_header m n s q p1 e p3"
  "(ccid_header m n s q p1 p2 p3)[5 := t] = ccid_header m n t q p1 p2 p3"
  "(ccid_header m n s q p1 p2 p3 @ xs)[5 := t] = ccid_header m n t q p1 p2 p3 @ xs"
  by (simp_all add: ccid_header_def le32_bytes_def)

lemma encode_failed_eq:
  assumes "18 \<le> cap" and "cap \<le> length bs" and "cap \<le> SIZE_MAX"
  shows "reader_ccid_encode_command_failed_response (Some bs) cap msg q lvl err =
    Some (length (failed_response msg q lvl err), Some (patch bs 0 (failed_response msg q lvl err)))"
proof -
  have l: "10 \<le> length bs" "8 < cap" using assms by simp_all
  note h = encode_header_Some [OF l(1)]
  have d: "ccid_header m n 0 q p1 e p3 @ drop 10 bs = patch bs 0 (ccid_header m n 0 q p1 e p3)" for m n p1 e p3
    by (rule append_drop_patch) simp
  consider (rate) "reader_ccid_response_msg_for_bulk_command msg = 0x84"
    | (data) "reader_ccid_response_msg_for_bulk_command msg \<in> {0x80, 0x83}"
    | (other) "reader_ccid_response_msg_for_bulk_command msg \<notin> {0x80, 0x83, 0x84}" by blast
  then show ?thesis
  proof cases
    case rate
    then show ?thesis
      by (simp add: reader_ccid_encode_command_failed_response_def failed_response_def
          encode_rate_clock_eq [OF assms])
  next
    case data
    then have "reader_ccid_response_msg_for_bulk_command msg \<noteq> 0x84" by auto
    then show ?thesis using data assms l
      by (simp add: reader_ccid_encode_command_failed_response_def failed_response_def h d Let_def
          patch_header_update header_updates)
  next
    case other
    then show ?thesis
      by (simp add: reader_ccid_encode_command_failed_response_def failed_response_def h d Let_def)
  qed
qed

lemma encode_absent_eq:
  assumes "18 \<le> cap" and "cap \<le> length bs" and "cap \<le> SIZE_MAX"
  shows "reader_ccid_encode_slot_absent_response (Some bs) cap msg slot q err =
    Some (length (absent_response msg slot q err), Some (patch bs 0 (absent_response msg slot q err)))"
proof -
  have l: "10 \<le> length bs" "5 < cap" "\<not> cap < 10" using assms by simp_all
  note h = encode_header_Some [OF l(1)]
  have d: "ccid_header m n 0 q p1 e p3 @ drop 10 bs = patch bs 0 (ccid_header m n 0 q p1 e p3)" for m n p1 e p3
    by (rule append_drop_patch) simp
  show ?thesis
    using assms l
    by (cases "reader_ccid_response_msg_for_bulk_command msg = 0x84")
      (simp_all add: reader_ccid_encode_slot_absent_response_def absent_response_def h d Let_def
        encode_rate_clock_eq [OF assms] patch_header_update header_updates)
qed

end
