(* ===== verification/CcidXfr.thy ===== *)
theory CcidXfr
  imports CcidProtocol Iso7816
begin

text \<open>
  The reader's CCID context and the operations of \<^verbatim>\<open>reader_ccid_xfr.c\<close>: replies, response
  and command chaining, session teardown and card removal.

  The state is the context of \<^verbatim>\<open>reader_ccid_context.h\<close> together with what the operations
  see of the rest of the firmware: \<open>cc_inbox\<close> is the frame queued by the USB driver,
  \<open>cc_sent\<close> lists every message handed to the bulk-IN
  endpoint, newest last, \<open>cc_send_ok\<close> says which of these sends succeed, \<open>cc_abort\<close> is the
  pending abort request of the USB driver, \<open>cc_now\<close> the millisecond clock, \<open>cc_owner\<close> the
  session owner, \<open>cc_slot_events\<close> the slot changes notified, \<open>cc_time_extension\<close> whether the
  time extension callback is registered, and \<open>cc_card\<close>, of any type, the state of the card
  side. The record \<open>card_services\<close> holds the card-side operations the handlers call.
  The buffer argument \<open>work\<close> of the C functions is always the response buffer of the context.
\<close>

datatype session_owner = NFC_SESSION_OWNER_NONE | NFC_SESSION_OWNER_CCID

record 'w ccid =
  cc_sess :: bool
  cc_card_present :: bool
  cc_iso_session_open :: bool
  cc_type4_security_key_app :: bool
  cc_remove_deferred :: bool
  cc_remove_defer_until_ms :: "32 word"
  cc_tag_kind :: tag_kind
  cc_protocol_num :: u8
  cc_apdu_rsp :: bytes
  cc_time_extension_seq :: u8
  cc_frame :: bytes
  cc_rsp :: bytes
  cc_chain_buf :: bytes
  cc_chain_len :: nat
  cc_chain_off :: nat
  cc_chain_active :: bool
  cc_cmd_chain_buf :: bytes
  cc_cmd_chain_len :: nat
  cc_cmd_chain_active :: bool
  cc_inbox :: "bytes option"
  cc_sent :: "bytes list"
  cc_send_ok :: "nat \<Rightarrow> bool"
  cc_abort :: "(u8 \<times> u8) option"
  cc_now :: "32 word"
  cc_owner :: session_owner
  cc_slot_events :: "bool list"
  cc_time_extension :: bool
  cc_card :: 'w

record 'w card_services =
  svc_release_iso :: "'w \<Rightarrow> 'w"
  svc_open_iso :: "'w \<Rightarrow> bool \<times> 'w"
  svc_copy_atr :: "'w \<Rightarrow> cptr \<Rightarrow> nat \<Rightarrow> (bool \<times> cptr \<times> nat \<times> 'w) option"
  svc_prepare_tag :: "tag_kind \<Rightarrow> 'w \<Rightarrow> bool \<times> 'w"
  svc_dispatch :: "cptr \<Rightarrow> nat \<Rightarrow> cptr \<Rightarrow> nat \<Rightarrow> 'w ccid \<Rightarrow> (nat \<times> cptr \<times> 'w ccid) option"

text \<open>Sizes: response frame 520, chain buffers and APDU response 2050, received frame 2060.\<close>

abbreviation (input) NFC_CCID_RSP_DATA_CAP :: nat where "NFC_CCID_RSP_DATA_CAP \<equiv> 510"

definition ccid_sizes :: "'w ccid \<Rightarrow> bool" where
  "ccid_sizes s \<longleftrightarrow> length (cc_rsp s) = 520 \<and> length (cc_chain_buf s) = 2050 \<and>
     length (cc_cmd_chain_buf s) = 2050 \<and> length (cc_apdu_rsp s) = 2050 \<and> length (cc_frame s) = 2060"

definition reader_ccid_context_reset :: "'w ccid \<Rightarrow> 'w ccid" where
  "reader_ccid_context_reset s = s\<lparr>
     cc_sess := False, cc_card_present := False, cc_iso_session_open := False,
     cc_type4_security_key_app := False, cc_remove_deferred := False,
     cc_remove_defer_until_ms := 0, cc_tag_kind := TAG_KIND_NONE, cc_protocol_num := 0x01,
     cc_apdu_rsp := replicate 2050 0, cc_time_extension_seq := 0, cc_frame := replicate 2060 0,
     cc_rsp := replicate 520 0, cc_chain_buf := replicate 2050 0, cc_chain_len := 0,
     cc_chain_off := 0, cc_chain_active := False, cc_cmd_chain_buf := replicate 2050 0,
     cc_cmd_chain_len := 0, cc_cmd_chain_active := False\<rparr>"

section \<open>Sending\<close>

text \<open>\<open>reader_hal_ccid_send\<close>, as the handlers see it.\<close>

definition hal_send :: "bytes \<Rightarrow> nat \<Rightarrow> 'w ccid \<Rightarrow> (bool \<times> 'w ccid) option" where
  "hal_send buf n s =
     (if n \<le> length buf
      then Some (cc_send_ok s (length (cc_sent s)), s\<lparr>cc_sent := cc_sent s @ [take n buf]\<rparr>)
      else None)"

text \<open>Run a writer on the response buffer; send its first bytes.\<close>

definition with_work :: "(cptr \<Rightarrow> cptr option) \<Rightarrow> 'w ccid \<Rightarrow> 'w ccid option" where
  "with_work f s = do {
     work \<leftarrow> f (Some (cc_rsp s));
     bs \<leftarrow> work;
     Some (s\<lparr>cc_rsp := bs\<rparr>)
   }"

definition send_work :: "nat \<Rightarrow> 'w ccid \<Rightarrow> 'w ccid option" where
  "send_work n s = do {
     (_, s) \<leftarrow> hal_send (cc_rsp s) n s;
     Some s
   }"

definition reader_ccid_deadline_elapsed :: "32 word \<Rightarrow> 'w ccid \<Rightarrow> bool" where
  "reader_ccid_deadline_elapsed deadline_ms s \<longleftrightarrow> sint (cc_now s - deadline_ms) \<ge> 0"

definition reader_ccid_reply_slot_stat :: "u8 \<Rightarrow> u8 \<Rightarrow> u8 \<Rightarrow> 'w ccid \<Rightarrow> 'w ccid option" where
  "reader_ccid_reply_slot_stat seq8 icclvl err_code =
     with_work (\<lambda>w. nfc_ccid_encode_slot_status w 0x81 seq8 icclvl err_code)"

definition reader_ccid_reply_data_block_error :: "u8 \<Rightarrow> u8 \<Rightarrow> u8 \<Rightarrow> 'w ccid \<Rightarrow> 'w ccid option" where
  "reader_ccid_reply_data_block_error seq8 icclvl err_code =
     with_work (\<lambda>w. nfc_ccid_encode_slot_status w 0x80 seq8 icclvl err_code)"

definition reply_data_preface :: "u8 \<Rightarrow> nat \<Rightarrow> u8 \<Rightarrow> 'w ccid \<Rightarrow> 'w ccid option" where
  "reply_data_preface seq8 databytes chain =
     with_work (\<lambda>w. nfc_ccid_encode_data_block_header w 0x80 seq8 databytes 0x00 chain)"

definition reply_data_time_extension :: "cptr \<Rightarrow> nat \<Rightarrow> u8 \<Rightarrow> cptr option" where
  "reply_data_time_extension buf10 buf_cap seq8 =
     (if buf_cap < 10 then Some buf10
      else do {
        buf10 \<leftarrow> nfc_ccid_encode_data_block_header buf10 0x80 seq8 0 (0x80 OR 0x00) 0;
        (_, buf10) \<leftarrow> nero_nfc_store_u8 buf10 buf_cap 8 0x0A;
        Some buf10
      })"

definition send_ccid_time_extension :: "'w ccid \<Rightarrow> 'w ccid option" where
  "send_ccid_time_extension s = do {
     buf \<leftarrow> reply_data_time_extension (Some (replicate 10 0)) 10 (cc_time_extension_seq s);
     bs \<leftarrow> buf;
     (_, s) \<leftarrow> hal_send bs 10 s;
     Some s
   }"

definition begin_ccid_time_extension :: "u8 \<Rightarrow> bool \<Rightarrow> 'w ccid \<Rightarrow> 'w ccid option" where
  "begin_ccid_time_extension seq8 send_initial s =
     (let s = s\<lparr>cc_time_extension_seq := seq8, cc_time_extension := True\<rparr> in
      if send_initial then send_ccid_time_extension s else Some s)"

definition reader_ccid_end_time_extension :: "'w ccid \<Rightarrow> 'w ccid" where
  "reader_ccid_end_time_extension s = s\<lparr>cc_time_extension := False\<rparr>"

section \<open>Chains\<close>

definition reader_ccid_clear_xfr_response_chain :: "'w ccid \<Rightarrow> 'w ccid" where
  "reader_ccid_clear_xfr_response_chain s =
     s\<lparr>cc_chain_active := False, cc_chain_len := 0, cc_chain_off := 0\<rparr>"

definition reader_ccid_clear_xfr_command_chain :: "'w ccid \<Rightarrow> 'w ccid" where
  "reader_ccid_clear_xfr_command_chain s = s\<lparr>cc_cmd_chain_active := False, cc_cmd_chain_len := 0\<rparr>"

definition reader_ccid_append_xfr_command_chain ::
    "cptr \<Rightarrow> nat \<Rightarrow> bool \<Rightarrow> 'w ccid \<Rightarrow> (bool \<times> 'w ccid) option" where
  "reader_ccid_append_xfr_command_chain data len begin_chain s =
     (if data = None \<or> len = 0 then Some (False, s)
      else if \<not> begin_chain \<and> \<not> cc_cmd_chain_active s then Some (False, s)
      else let s = (if begin_chain then reader_ccid_clear_xfr_command_chain s else s) in
        case nero_nfc_try_add_size (cc_cmd_chain_len s) len of
          None \<Rightarrow> Some (False, reader_ccid_clear_xfr_command_chain s)
        | Some next_len \<Rightarrow>
            if next_len > 2050 then Some (False, reader_ccid_clear_xfr_command_chain s)
            else do {
              (ok, buf) \<leftarrow> nero_nfc_copy_bytes (Some (cc_cmd_chain_buf s)) 2050 (cc_cmd_chain_len s) data len;
              bs \<leftarrow> buf;
              let s = s\<lparr>cc_cmd_chain_buf := bs\<rparr>;
              if \<not> ok then Some (False, reader_ccid_clear_xfr_command_chain s)
              else Some (True, s\<lparr>cc_cmd_chain_len := u16n next_len, cc_cmd_chain_active := True\<rparr>)
            })"

definition reader_ccid_send_xfr_command_continue :: "u8 \<Rightarrow> 'w ccid \<Rightarrow> 'w ccid option" where
  "reader_ccid_send_xfr_command_continue seq s = do {
     s \<leftarrow> reply_data_preface seq 0 0x10 s;
     send_work 10 s
   }"

definition reader_ccid_current_icc_level :: "'w ccid \<Rightarrow> u8" where
  "reader_ccid_current_icc_level s =
     (if \<not> cc_card_present s then 0x02 else if cc_sess s then 0x00 else 0x01)"

definition reader_ccid_reply_param_status :: "'w ccid \<Rightarrow> u8" where
  "reader_ccid_reply_param_status s =
     (if \<not> cc_card_present s then 0x02 else if cc_sess s then 0x00 else 0x01)"

definition reader_ccid_reply_command_not_supported :: "u8 \<Rightarrow> u8 \<Rightarrow> 'w ccid \<Rightarrow> 'w ccid option" where
  "reader_ccid_reply_command_not_supported msg_type seq8 s =
     with_work (\<lambda>w. nfc_ccid_encode_slot_status w msg_type seq8
       (0x40 OR reader_ccid_current_icc_level s) 0) s"

definition reader_ccid_send_xfr_chain_chunk :: "u8 \<Rightarrow> 'w ccid \<Rightarrow> 'w ccid option" where
  "reader_ccid_send_xfr_chain_chunk seq s =
     (if \<not> cc_chain_active s \<or> cc_chain_off s \<ge> cc_chain_len s
      then Some (reader_ccid_clear_xfr_response_chain s)
      else let remaining = cc_chain_len s - cc_chain_off s;
               chunk = (if remaining > NFC_CCID_RSP_DATA_CAP then NFC_CCID_RSP_DATA_CAP else remaining);
               chain = (if cc_chain_off s = 0 then 0x01
                        else if u16n (cc_chain_off s + chunk) \<ge> cc_chain_len s then 0x02 else 0x03)
      in do {
        (ok, work) \<leftarrow> nero_nfc_copy_bytes (Some (cc_rsp s)) 520 10
                        (ptr_add (Some (cc_chain_buf s)) (cc_chain_off s)) chunk;
        bs \<leftarrow> work;
        let s = s\<lparr>cc_rsp := bs\<rparr>;
        if \<not> ok then Some (reader_ccid_clear_xfr_response_chain s)
        else do {
          s \<leftarrow> reply_data_preface seq chunk chain s;
          (ok, s) \<leftarrow> hal_send (cc_rsp s) (10 + chunk) s;
          if \<not> ok then Some (reader_ccid_clear_xfr_response_chain s)
          else
            let s = s\<lparr>cc_chain_off := u16n (cc_chain_off s + chunk)\<rparr> in
            Some (if cc_chain_off s \<ge> cc_chain_len s then reader_ccid_clear_xfr_response_chain s else s)
        }
      })"

text \<open>The answer 6F 00 when a copy does not succeed.\<close>

definition send_copy_failure :: "u8 \<Rightarrow> 'w ccid \<Rightarrow> 'w ccid option" where
  "send_copy_failure seq s = do {
     (ok, work) \<leftarrow> nero_nfc_copy_bytes (Some (cc_rsp s)) 520 10 (Some [0x6F, 0x00]) 2;
     bs \<leftarrow> work;
     let s = s\<lparr>cc_rsp := bs\<rparr>;
     if \<not> ok then Some s
     else do {
       s \<leftarrow> reply_data_preface seq 2 0x00 s;
       send_work 12 s
     }
   }"

definition reader_ccid_send_xfr_data_response :: "u8 \<Rightarrow> cptr \<Rightarrow> nat \<Rightarrow> 'w ccid \<Rightarrow> 'w ccid option" where
  "reader_ccid_send_xfr_data_response seq data len s =
     (if data = None \<and> len \<noteq> 0 then Some s
      else let s = reader_ccid_clear_xfr_response_chain s in
      if len \<le> NFC_CCID_RSP_DATA_CAP then do {
        (ok, work) \<leftarrow> (if len \<noteq> 0 then nero_nfc_copy_bytes (Some (cc_rsp s)) 520 10 data len
                       else Some (True, Some (cc_rsp s)));
        bs \<leftarrow> work;
        let s = s\<lparr>cc_rsp := bs\<rparr>;
        if \<not> ok then send_copy_failure seq s
        else do {
          s \<leftarrow> reply_data_preface seq len 0x00 s;
          send_work (10 + len) s
        }
      }
      else if len > 2050 then send_copy_failure seq s
      else do {
        (ok, buf) \<leftarrow> nero_nfc_copy_bytes (Some (cc_chain_buf s)) 2050 0 data len;
        bs \<leftarrow> buf;
        let s = s\<lparr>cc_chain_buf := bs\<rparr>;
        if \<not> ok then send_copy_failure seq s
        else reader_ccid_send_xfr_chain_chunk seq
               (s\<lparr>cc_chain_len := len, cc_chain_off := 0, cc_chain_active := True\<rparr>)
      })"

section \<open>Session and card\<close>

definition reader_ccid_teardown_session :: "'w card_services \<Rightarrow> 'w ccid \<Rightarrow> 'w ccid" where
  "reader_ccid_teardown_session svc s =
     (let s = reader_ccid_clear_xfr_response_chain s;
          s = reader_ccid_clear_xfr_command_chain s;
          s = s\<lparr>cc_time_extension := False, cc_type4_security_key_app := False\<rparr>;
          s = (if cc_iso_session_open s
               then s\<lparr>cc_card := svc_release_iso svc (cc_card s), cc_iso_session_open := False\<rparr> else s);
          s = s\<lparr>cc_sess := False\<rparr>
      in if cc_owner s = NFC_SESSION_OWNER_CCID then s\<lparr>cc_owner := NFC_SESSION_OWNER_NONE\<rparr> else s)"

definition reader_ccid_complete_card_removal :: "'w card_services \<Rightarrow> 'w ccid \<Rightarrow> 'w ccid" where
  "reader_ccid_complete_card_removal svc s =
     (let was_present = cc_card_present s;
          s = s\<lparr>cc_card_present := False, cc_remove_deferred := False, cc_remove_defer_until_ms := 0,
                cc_tag_kind := TAG_KIND_NONE, cc_type4_security_key_app := False\<rparr>;
          s = reader_ccid_teardown_session svc s
      in if was_present then s\<lparr>cc_slot_events := cc_slot_events s @ [False]\<rparr> else s)"

end
