(* ===== verification/CcidBulk.thy ===== *)
theory CcidBulk
  imports CcidXfr CtapCodec
begin

text \<open>
  The CCID command dispatcher \<open>reader_ccid_handle_bulk\<close> of \<^verbatim>\<open>reader_ccid_bulk.c\<close> and the
  card events and the poll of \<^verbatim>\<open>reader_ccid.c\<close>. The switch of the dispatcher is one
  definition per case; a \<open>break\<close> or an early return is the end of a branch.
\<close>

definition reader_ccid_note_host_session_activity :: "'w ccid \<Rightarrow> 'w ccid" where
  "reader_ccid_note_host_session_activity s =
     (if \<not> cc_sess s then s
      else s\<lparr>cc_remove_deferred := False, cc_remove_defer_until_ms := cc_now s + 250\<rparr>)"

definition reader_ccid_abort_requested :: "'w ccid \<Rightarrow> bool" where
  "reader_ccid_abort_requested s \<longleftrightarrow> (case cc_abort s of None \<Rightarrow> False | Some (slot, _) \<Rightarrow> slot = 0)"

definition storage_xfr_needs_time_extension :: "cptr \<Rightarrow> nat \<Rightarrow> 'w ccid \<Rightarrow> bool option" where
  "storage_xfr_needs_time_extension apdu apdu_len s =
     (if (cc_tag_kind s \<noteq> TAG_KIND_TYPE2 \<and> cc_tag_kind s \<noteq> TAG_KIND_TYPE5) \<or> apdu = None \<or>
         \<not> nero_nfc_span_ok 0 2 apdu_len
      then Some False
      else do {
        cla \<leftarrow> nero_nfc_u8_at apdu apdu_len 0;
        ins \<leftarrow> nero_nfc_u8_at apdu apdu_len 1;
        Some (cla = 0xFF \<and> (ins = 0xB0 \<or> ins = 0xD6))
      })"

text \<open>Encode a failure response and send it.\<close>

definition send_failed :: "u8 \<Rightarrow> u8 \<Rightarrow> u8 \<Rightarrow> u8 \<Rightarrow> 'w ccid \<Rightarrow> 'w ccid option" where
  "send_failed msg seq icclvl err s = do {
     (rsp_len, work) \<leftarrow> reader_ccid_encode_command_failed_response (Some (cc_rsp s)) 520 msg seq icclvl err;
     bs \<leftarrow> work;
     send_work rsp_len (s\<lparr>cc_rsp := bs\<rparr>)
   }"

section \<open>The cases of the switch\<close>

definition bulk_slot_status :: "u8 \<Rightarrow> 'w ccid \<Rightarrow> 'w ccid option" where
  "bulk_slot_status seq s = do {
     s \<leftarrow> reader_ccid_reply_slot_stat seq (reader_ccid_current_icc_level s) 0 s;
     send_work 10 s
   }"

definition bulk_icc_off :: "'w card_services \<Rightarrow> u8 \<Rightarrow> 'w ccid \<Rightarrow> 'w ccid option" where
  "bulk_icc_off svc seq s = do {
     let s = reader_ccid_teardown_session svc s;
     let s = s\<lparr>cc_protocol_num := 0x01\<rparr>;
     s \<leftarrow> reader_ccid_reply_slot_stat seq (if cc_card_present s then 0x01 else 0x02) 0 s;
     send_work 10 s
   }"

text \<open>A DataBlock reply without data that reports an error.\<close>

definition send_power_error :: "u8 \<Rightarrow> u8 \<Rightarrow> u8 \<Rightarrow> 'w ccid \<Rightarrow> 'w ccid option" where
  "send_power_error seq icclvl err s = do {
     s \<leftarrow> reader_ccid_reply_data_block_error seq icclvl err s;
     send_work 10 s
   }"

definition icc_on_reply :: "u8 \<Rightarrow> nat \<Rightarrow> 'w ccid \<Rightarrow> 'w ccid option" where
  "icc_on_reply seq atr_len s = do {
     s \<leftarrow> reply_data_preface seq atr_len 0 s;
     s \<leftarrow> send_work (10 + atr_len) s;
     let s = s\<lparr>cc_sess := True, cc_owner := NFC_SESSION_OWNER_CCID\<rparr>;
     Some (reader_ccid_note_host_session_activity s)
   }"

text \<open>Run a copy of an ATR to offset 10 of the response buffer.\<close>

definition atr_to_work ::
    "(cptr \<Rightarrow> nat \<Rightarrow> (bool \<times> cptr \<times> nat) option) \<Rightarrow> 'w ccid \<Rightarrow> (bool \<times> nat \<times> 'w ccid) option" where
  "atr_to_work copy s = do {
     (ok, dst, atr_len) \<leftarrow> copy (ptr_add (Some (cc_rsp s)) 10) (520 - 10);
     tail \<leftarrow> dst;
     Some (ok, atr_len, s\<lparr>cc_rsp := take 10 (cc_rsp s) @ tail\<rparr>)
   }"

definition bulk_icc_on :: "'w card_services \<Rightarrow> cptr \<Rightarrow> u8 \<Rightarrow> 'w ccid \<Rightarrow> 'w ccid option" where
  "bulk_icc_on svc frame seq s = do {
     p1 \<leftarrow> rd frame 7;
     let power_err = reader_ccid_power_select_error p1 0x07;
     if power_err \<noteq> 0 then send_power_error seq (0x40 OR 0x01) power_err s
     else do {
       let s = reader_ccid_teardown_session svc s;
       if \<not> cc_card_present s \<or> cc_tag_kind s = TAG_KIND_NONE
       then send_power_error seq (0x40 OR 0x02) 0xFE s
       else if cc_tag_kind s = TAG_KIND_TYPE4 then do {
         s \<leftarrow> begin_ccid_time_extension seq False s;
         let s = s\<lparr>cc_protocol_num := 0x01\<rparr>;
         let (opened, card) = svc_open_iso svc (cc_card s);
         let s = s\<lparr>cc_card := card\<rparr>;
         (ok, atr_len, s) \<leftarrow> (if \<not> opened then Some (False, 0, s) else do {
             (ok, dst, atr_len, card) \<leftarrow> svc_copy_atr svc (cc_card s) (ptr_add (Some (cc_rsp s)) 10) (520 - 10);
             tail \<leftarrow> dst;
             Some (ok, atr_len, s\<lparr>cc_rsp := take 10 (cc_rsp s) @ tail, cc_card := card\<rparr>)
           });
         if \<not> ok then do {
           let s = reader_ccid_teardown_session svc s;
           s \<leftarrow> send_power_error seq (0x40 OR 0x01) 0xFE s;
           Some (reader_ccid_end_time_extension s)
         }
         else do {
           let s = s\<lparr>cc_iso_session_open := True, cc_type4_security_key_app := False\<rparr>;
           icc_on_reply seq atr_len (reader_ccid_end_time_extension s)
         }
       }
       else do {
         let s = s\<lparr>cc_protocol_num := nfc_pcsc_protocol_for_tag (cc_tag_kind s)\<rparr>;
         let (prepared, card) = svc_prepare_tag svc (cc_tag_kind s) (cc_card s);
         let s = s\<lparr>cc_card := card\<rparr>;
         if \<not> prepared then send_power_error seq (0x40 OR 0x01) 0xFE (reader_ccid_teardown_session svc s)
         else do {
           (ok, atr_len, s) \<leftarrow> atr_to_work (nfc_pcsc_copy_storage_card_atr (cc_tag_kind s)) s;
           if \<not> ok then send_power_error seq (0x40 OR 0x02) 0xFE s
           else icc_on_reply seq atr_len s
         }
       }
     }
   }"

definition bulk_params :: "cptr \<Rightarrow> nat \<Rightarrow> u8 \<Rightarrow> 'w ccid \<Rightarrow> 'w ccid option" where
  "bulk_params frame nbytes seq s = do {
     m \<leftarrow> rd frame 0;
     err \<leftarrow> reader_ccid_param_error_for_request frame nbytes 0x61 0x01;
     icclvl \<leftarrow> reader_ccid_param_icc_level frame nbytes (reader_ccid_reply_param_status s) 0x40 0x61 0x01;
     let (err, icclvl, protocol_num, s) =
       (if \<not> cc_card_present s then (0xFE, 0x40 OR 0x02, cc_protocol_num s, s)
        else if m = 0x6D then (err, icclvl, 0x01, s\<lparr>cc_protocol_num := 0x01\<rparr>)
        else (err, icclvl, cc_protocol_num s, s));
     p1 \<leftarrow> rd frame 7;
     let (protocol_num, s) =
       (if cc_card_present s \<and> m = 0x61 \<and> err = 0 \<and> nero_nfc_span_ok 7 1 nbytes
        then (p1, s\<lparr>cc_protocol_num := p1\<rparr>) else (protocol_num, s));
     s \<leftarrow> with_work (\<lambda>w. map_option snd
            (reader_ccid_encode_params_response w 520 0x82 seq icclvl err protocol_num 0x01)) s;
     let parm_len = (if protocol_num = 0x01 then 7 else 5);
     s \<leftarrow> send_work (10 + parm_len) s;
     Some (reader_ccid_note_host_session_activity s)
   }"

definition bulk_abort :: "cptr \<Rightarrow> nat \<Rightarrow> u8 \<Rightarrow> 'w ccid \<Rightarrow> 'w ccid option" where
  "bulk_abort frame nbytes seq s = do {
     let icclvl = reader_ccid_current_icc_level s;
     let s = reader_ccid_clear_xfr_response_chain s;
     let s = reader_ccid_clear_xfr_command_chain s;
     let s = s\<lparr>cc_time_extension := False\<rparr>;
     if \<not> nero_nfc_span_ok 5 1 nbytes then do {
       s \<leftarrow> reader_ccid_reply_command_not_supported 0x81 seq s;
       send_work 10 s
     }
     else do {
       slot \<leftarrow> rd frame 5;
       let s = (if cc_abort s = Some (slot, seq) then s\<lparr>cc_abort := None\<rparr> else s);
       s \<leftarrow> reader_ccid_reply_slot_stat seq icclvl 0 s;
       send_work 10 s
     }
   }"

definition bulk_not_supported :: "u8 \<Rightarrow> u8 \<Rightarrow> 'w ccid \<Rightarrow> 'w ccid option" where
  "bulk_not_supported msg_type seq s = do {
     s \<leftarrow> reader_ccid_reply_command_not_supported msg_type seq s;
     send_work 10 s
   }"

definition bulk_rate_clock :: "nat \<Rightarrow> u8 \<Rightarrow> 'w ccid \<Rightarrow> 'w ccid option" where
  "bulk_rate_clock datalen seq s = do {
     let icclvl = reader_ccid_current_icc_level s;
     let (icclvl, err) = (if datalen \<noteq> 8 then (0x40 OR icclvl, 0x01) else (icclvl, 0));
     s \<leftarrow> with_work (\<lambda>w. map_option snd
            (reader_ccid_encode_data_rate_clock_response w 520 0x84 seq icclvl err)) s;
     send_work 18 s
   }"


text \<open>After the card exchange: the command chain, the abort check and the answer.\<close>

definition bulk_xfr_answer ::
    "cptr \<Rightarrow> u8 \<Rightarrow> nat \<Rightarrow> bool \<Rightarrow> cptr \<Rightarrow> nat \<Rightarrow> 'w ccid \<Rightarrow> 'w ccid option" where
  "bulk_xfr_answer frame seq level_param bind_time_extension rsp_data rlen s = do {
     let s = (if level_param = 2 then reader_ccid_clear_xfr_command_chain s else s);
     slot \<leftarrow> rd frame 5;
     m \<leftarrow> rd frame 0;
     if cc_abort s = Some (slot, seq) then do {
       (rsp_len, work) \<leftarrow> reader_ccid_encode_command_failed_response (Some (cc_rsp s)) 520 m seq
                           (reader_ccid_current_icc_level s) 0xFF;
       bs \<leftarrow> work;
       let s = reader_ccid_end_time_extension (s\<lparr>cc_rsp := bs\<rparr>);
       send_work rsp_len (reader_ccid_clear_xfr_response_chain s)
     }
     else do {
       s \<leftarrow> reader_ccid_send_xfr_data_response seq rsp_data rlen s;
       Some (if bind_time_extension then reader_ccid_end_time_extension s else s)
     }
   }"

text \<open>
  The end of an XfrBlock command, once the whole APDU is there: the time extension, the card
  exchange, the abort check and the answer. The response goes to the APDU response buffer for
  a Type 4 tag and to the payload of the response frame otherwise.
\<close>

definition bulk_xfr_exchange ::
    "'w card_services \<Rightarrow> cptr \<Rightarrow> u8 \<Rightarrow> nat \<Rightarrow> cptr \<Rightarrow> nat \<Rightarrow> 'w ccid \<Rightarrow> 'w ccid option" where
  "bulk_xfr_exchange svc frame seq level_param apdu_data apdu_len s = do {
     let type4 = (cc_tag_kind s = TAG_KIND_TYPE4);
     ctap_wait \<leftarrow> (if type4 then nfc_ctap_apdu_needs_ccid_time_extension apdu_data apdu_len else Some False);
     storage_wait \<leftarrow> (if ctap_wait then Some False else storage_xfr_needs_time_extension apdu_data apdu_len s);
     let send_initial_time_extension = (ctap_wait \<or> storage_wait);
     let bind_time_extension = (type4 \<or> send_initial_time_extension);
     s \<leftarrow> (if bind_time_extension then begin_ccid_time_extension seq send_initial_time_extension s else Some s);
     (rlen, rsp_data, s) \<leftarrow> (if type4 then do {
         (rlen, rsp, s) \<leftarrow> svc_dispatch svc apdu_data apdu_len (Some (cc_apdu_rsp s)) 2050 s;
         bs \<leftarrow> rsp;
         Some (rlen, Some bs, s\<lparr>cc_apdu_rsp := bs\<rparr>)
       } else do {
         (rlen, rsp, s) \<leftarrow> svc_dispatch svc apdu_data apdu_len (ptr_add (Some (cc_rsp s)) 10) (520 - 10) s;
         bs \<leftarrow> rsp;
         Some (rlen, Some bs, s\<lparr>cc_rsp := take 10 (cc_rsp s) @ bs\<rparr>)
       });
     bulk_xfr_answer frame seq level_param bind_time_extension rsp_data rlen s
   }"

definition bulk_xfr ::
    "'w card_services \<Rightarrow> cptr \<Rightarrow> nat \<Rightarrow> u8 \<Rightarrow> nat \<Rightarrow> 'w ccid \<Rightarrow> 'w ccid option" where
  "bulk_xfr svc frame nbytes seq pay_bytes s = do {
     level_param \<leftarrow> reader_ccid_bulk_xfr_level_parameter frame nbytes;
     m \<leftarrow> rd frame 0;
     if \<not> cc_sess s then send_failed m seq 0x02 0xFE s
     else if level_param = 0 then
       (if cc_cmd_chain_active s
        then send_failed m seq (reader_ccid_current_icc_level s) 0x08 (reader_ccid_clear_xfr_command_chain s)
        else bulk_xfr_exchange svc frame seq level_param (ptr_add frame 10) (u16n pay_bytes) s)
     else do {
       (ok, s) \<leftarrow> reader_ccid_append_xfr_command_chain (ptr_add frame 10) (u16n pay_bytes) (level_param = 1) s;
       if \<not> ok then send_failed m seq (reader_ccid_current_icc_level s) 0x01 s
       else if level_param = 1 \<or> level_param = 3 then reader_ccid_send_xfr_command_continue seq s
       else bulk_xfr_exchange svc frame seq level_param (Some (cc_cmd_chain_buf s)) (cc_cmd_chain_len s) s
     }
   }"

definition bulk_switch ::
    "'w card_services \<Rightarrow> cptr \<Rightarrow> nat \<Rightarrow> u8 \<Rightarrow> nat \<Rightarrow> 'w ccid \<Rightarrow> 'w ccid option" where
  "bulk_switch svc frame nbytes seq datalen s = do {
     m \<leftarrow> rd frame 0;
     if m = 0x65 then bulk_slot_status seq s
     else if m = 0x63 then bulk_icc_off svc seq s
     else if m = 0x62 then bulk_icc_on svc frame seq s
     else if m = 0x6C \<or> m = 0x6D \<or> m = 0x61 then bulk_params frame nbytes seq s
     else if m = 0x72 then bulk_abort frame nbytes seq s
     else if m = 0x6E \<or> m = 0x6A \<or> m = 0x71 then bulk_not_supported 0x81 seq s
     else if m = 0x69 then bulk_not_supported 0x80 seq s
     else if m = 0x6B then send_failed m seq (reader_ccid_current_icc_level s) 0 s
     else if m = 0x73 then bulk_rate_clock datalen seq s
     else if m = 0x6F then bulk_xfr svc frame nbytes seq datalen s
     else bulk_not_supported 0x81 seq s
   }"

section \<open>The dispatcher\<close>

text \<open>
  The checks before the switch, in the order of the code: length, slot, commands without
  data, reserved bytes, the level parameter of XfrBlock, the parameters of power-on and of
  the data rate command.
\<close>

definition bulk_header_error :: "cptr \<Rightarrow> nat \<Rightarrow> nat \<Rightarrow> u8 option option" where
  "bulk_header_error frame nbytes datalen = do {
     m \<leftarrow> rd frame 0;
     p1 \<leftarrow> rd frame 7;
     p2 \<leftarrow> rd frame 8;
     p3 \<leftarrow> nero_nfc_u8_at frame nbytes 9;
     level_param \<leftarrow> reader_ccid_bulk_xfr_level_parameter frame nbytes;
     let xfr_err = reader_ccid_xfr_level_error level_param datalen 0x01 0x08;
     Some (
       if reader_ccid_bulk_command_requires_zero_length m \<and> datalen \<noteq> 0 then Some 0x01
       else if reader_ccid_bulk_command_requires_rfu_zero m \<and> (p1 \<noteq> 0 \<or> p2 \<noteq> 0 \<or> p3 \<noteq> 0) then Some 0x07
       else if m = 0x6F \<and> xfr_err \<noteq> 0 then Some xfr_err
       else if m = 0x62 \<and> (p2 \<noteq> 0 \<or> p3 \<noteq> 0) then Some 0x08
       else if m = 0x73 \<and> (p1 \<noteq> 0 \<or> p2 \<noteq> 0 \<or> p3 \<noteq> 0)
       then Some (if nero_nfc_span_ok 7 1 nbytes \<and> p1 \<noteq> 0 then 0x07
                  else if nero_nfc_span_ok 8 1 nbytes \<and> p2 \<noteq> 0 then 0x08 else 0x09)
       else None)
   }"

definition reader_ccid_handle_bulk ::
    "'w card_services \<Rightarrow> cptr \<Rightarrow> nat \<Rightarrow> 'w ccid \<Rightarrow> 'w ccid option" where
  "reader_ccid_handle_bulk svc frame nbytes s = do {
     s \<leftarrow> with_work (\<lambda>w. nero_nfc_zero_bytes w 520) s;
     (valid, datalen) \<leftarrow> nfc_ccid_bulk_frame_validate frame nbytes;
     if \<not> valid then
       (if frame \<noteq> None \<and> nero_nfc_span_ok 0 10 nbytes then do {
          m \<leftarrow> rd frame 0;
          seq \<leftarrow> rd frame 6;
          send_failed m seq (reader_ccid_current_icc_level s) 0x01 s
        } else Some s)
     else do {
       seq \<leftarrow> nero_nfc_u8_at frame nbytes 6;
       m \<leftarrow> rd frame 0;
       slot \<leftarrow> rd frame 5;
       if slot \<noteq> 0 then do {
         (rsp_len, work) \<leftarrow> reader_ccid_encode_slot_absent_response (Some (cc_rsp s)) 520 m slot seq 0x05;
         bs \<leftarrow> work;
         send_work rsp_len (s\<lparr>cc_rsp := bs\<rparr>)
       }
       else do {
         header_error \<leftarrow> bulk_header_error frame nbytes datalen;
         case header_error of
           Some err \<Rightarrow> send_failed m seq (reader_ccid_current_icc_level s) err s
         | None \<Rightarrow> do {
             continuation \<leftarrow> nfc_ccid_xfr_frame_requests_response_continuation frame nbytes;
             if continuation then
               (if cc_chain_active s then reader_ccid_send_xfr_chain_chunk seq s
                else send_failed m seq (reader_ccid_current_icc_level s) 0x08 s)
             else do {
               let s = (if cc_chain_active s then reader_ccid_clear_xfr_response_chain s else s);
               let s = (if m \<noteq> 0x6F \<and> cc_cmd_chain_active s then reader_ccid_clear_xfr_command_chain s else s);
               if (case cc_abort s of None \<Rightarrow> False
                   | Some (abort_slot, abort_seq) \<Rightarrow>
                       nero_nfc_span_ok 5 1 nbytes \<and> slot = abort_slot \<and> (m \<noteq> 0x72 \<or> seq \<noteq> abort_seq))
               then send_failed m seq (reader_ccid_current_icc_level s) 0xFF s
               else bulk_switch svc frame nbytes seq datalen s
             }
           }
       }
     }
   }"

section \<open>Card events and the poll\<close>

definition reader_ccid_poll :: "'w card_services \<Rightarrow> 'w ccid \<Rightarrow> 'w ccid option" where
  "reader_ccid_poll svc s =
     (let s = (if cc_remove_deferred s \<and>
                 (\<not> cc_sess s \<or> reader_ccid_deadline_elapsed (cc_remove_defer_until_ms s) s)
               then reader_ccid_complete_card_removal svc s else s)
      in case cc_inbox s of None \<Rightarrow> Some s
      | Some pkt \<Rightarrow>
          let copy_len = (if length pkt < 2060 then length pkt else 2060) in do {
            (ok, frame) \<leftarrow> (if copy_len \<noteq> 0 then nero_nfc_copy_bytes (Some (cc_frame s)) 2060 0 (Some pkt) copy_len
                            else Some (True, Some (cc_frame s)));
            bs \<leftarrow> frame;
            let s = s\<lparr>cc_frame := bs, cc_inbox := None\<rparr>;
            if \<not> ok then Some s
            else reader_ccid_handle_bulk svc (Some (cc_frame s)) copy_len s
          })"

definition reader_ccid_on_tag_detected :: "'w card_services \<Rightarrow> tag_kind \<Rightarrow> 'w ccid \<Rightarrow> 'w ccid" where
  "reader_ccid_on_tag_detected svc tag_kind s =
     (let s = (if cc_remove_deferred s then reader_ccid_complete_card_removal svc s else s);
          s = reader_ccid_clear_xfr_response_chain s;
          s = s\<lparr>cc_remove_deferred := False, cc_tag_kind := tag_kind, cc_type4_security_key_app := False,
                cc_protocol_num := nfc_pcsc_protocol_for_tag tag_kind\<rparr>
      in if cc_card_present s then s
         else s\<lparr>cc_card_present := True, cc_slot_events := cc_slot_events s @ [True]\<rparr>)"

definition reader_ccid_on_tag_removed_from_field :: "'w card_services \<Rightarrow> 'w ccid \<Rightarrow> 'w ccid" where
  "reader_ccid_on_tag_removed_from_field svc s =
     (if \<not> cc_card_present s then s
      else if cc_sess s then reader_ccid_complete_card_removal svc s
      else if \<not> reader_ccid_deadline_elapsed (cc_remove_defer_until_ms s) s then s\<lparr>cc_remove_deferred := True\<rparr>
      else reader_ccid_complete_card_removal svc s)"

definition reader_ccid_fido_session_active :: "'w ccid \<Rightarrow> bool" where
  "reader_ccid_fido_session_active s \<longleftrightarrow> cc_sess s \<and> cc_iso_session_open s \<and> cc_type4_security_key_app s"

definition reader_ccid_removal_probe_due :: "32 word \<Rightarrow> 'w ccid \<Rightarrow> bool" where
  "reader_ccid_removal_probe_due now_ms s \<longleftrightarrow> sint (now_ms - cc_remove_defer_until_ms s) \<ge> 0"

end
