(* ===== verification/CcidReader.thy ===== *)
theory CcidReader
  imports CcidBulk
begin

text \<open>
  What the CCID dispatcher promises command by command: the replies and response chunks, the
  invariant of the context, one answer per command, and the power-on sequence.
\<close>

section \<open>What the card side promises\<close>

definition time_extension_frame :: "u8 \<Rightarrow> bytes" where
  "time_extension_frame seq = ccid_header 0x80 0 0 seq 0x80 0x0A 0"

text \<open>What a card exchange may change of the context while it runs.\<close>

definition exchange_effect :: "'w ccid \<Rightarrow> 'w ccid \<Rightarrow> bool" where
  "exchange_effect s s' \<longleftrightarrow> (\<exists>app deferred until n inbox abort now card.
     s' = s\<lparr>cc_type4_security_key_app := app, cc_remove_deferred := deferred,
            cc_remove_defer_until_ms := until, cc_inbox := inbox,
            cc_sent := cc_sent s @ replicate n (time_extension_frame (cc_time_extension_seq s)),
            cc_abort := abort, cc_now := now, cc_card := card\<rparr> \<and>
     (cc_sess s \<or> app = cc_type4_security_key_app s) \<and> (deferred \<longrightarrow> cc_remove_deferred s) \<and>
     (n > 0 \<longrightarrow> cc_time_extension s))"

text \<open>
  The documented behaviour of the card operations: they stay inside the buffer they are
  given and report a length inside it.
\<close>

definition services_ok :: "'w card_services \<Rightarrow> bool" where
  "services_ok svc \<longleftrightarrow>
     (\<forall>card d cap. cap \<le> length d \<longrightarrow> (\<exists>ok d' n card'.
        svc_copy_atr svc card (Some d) cap = Some (ok, Some d', n, card') \<and> length d' = length d \<and>
        n \<le> cap)) \<and>
     (\<forall>a n d cap s. n \<le> length a \<longrightarrow> cap \<le> length d \<longrightarrow> (\<exists>rlen d' s'.
        svc_dispatch svc (Some a) n (Some d) cap s = Some (rlen, Some d', s') \<and> length d' = length d \<and>
        rlen \<le> cap \<and> exchange_effect s s'))"

lemma services_ok_atr:
  assumes "services_ok svc" and "cap \<le> length d"
  obtains ok d' n card' where "svc_copy_atr svc w (Some d) cap = Some (ok, Some d', n, card')"
    and "length d' = length d" and "n \<le> cap"
  using assms unfolding services_ok_def by blast

lemma services_ok_dispatch:
  assumes "services_ok svc" and "n \<le> length a" and "cap \<le> length d"
  obtains rlen d' s' where "svc_dispatch svc (Some a) n (Some d) cap s = Some (rlen, Some d', s')"
    and "length d' = length d" and "rlen \<le> cap" and "exchange_effect s s'"
  using assms unfolding services_ok_def by blast

section \<open>Replies\<close>

text \<open>\<open>reply r\<close>: the response \<open>r\<close> is put at the front of the response buffer and sent.\<close>

definition reply :: "bytes \<Rightarrow> 'w ccid \<Rightarrow> 'w ccid" where
  "reply r s = s\<lparr>cc_rsp := patch (cc_rsp s) 0 r, cc_sent := cc_sent s @ [r]\<rparr>"

lemma reply_fields [simp]:
  "cc_sess (reply r s) = cc_sess s" "cc_card_present (reply r s) = cc_card_present s"
  "cc_iso_session_open (reply r s) = cc_iso_session_open s"
  "cc_type4_security_key_app (reply r s) = cc_type4_security_key_app s"
  "cc_remove_deferred (reply r s) = cc_remove_deferred s"
  "cc_remove_defer_until_ms (reply r s) = cc_remove_defer_until_ms s"
  "cc_tag_kind (reply r s) = cc_tag_kind s" "cc_protocol_num (reply r s) = cc_protocol_num s"
  "cc_apdu_rsp (reply r s) = cc_apdu_rsp s" "cc_time_extension_seq (reply r s) = cc_time_extension_seq s"
  "cc_frame (reply r s) = cc_frame s" "cc_chain_buf (reply r s) = cc_chain_buf s"
  "cc_chain_len (reply r s) = cc_chain_len s" "cc_chain_off (reply r s) = cc_chain_off s"
  "cc_chain_active (reply r s) = cc_chain_active s" "cc_cmd_chain_buf (reply r s) = cc_cmd_chain_buf s"
  "cc_cmd_chain_len (reply r s) = cc_cmd_chain_len s"
  "cc_cmd_chain_active (reply r s) = cc_cmd_chain_active s" "cc_inbox (reply r s) = cc_inbox s"
  "cc_send_ok (reply r s) = cc_send_ok s" "cc_abort (reply r s) = cc_abort s"
  "cc_now (reply r s) = cc_now s" "cc_owner (reply r s) = cc_owner s"
  "cc_slot_events (reply r s) = cc_slot_events s" "cc_time_extension (reply r s) = cc_time_extension s"
  "cc_card (reply r s) = cc_card s" "cc_rsp (reply r s) = patch (cc_rsp s) 0 r"
  "cc_sent (reply r s) = cc_sent s @ [r]"
  by (simp_all add: reply_def)

lemma send_patched:
  "bs = cc_rsp s \<Longrightarrow> length r \<le> length (cc_rsp s) \<Longrightarrow> n = length r \<Longrightarrow>
    send_work n (s\<lparr>cc_rsp := patch bs 0 r\<rparr>) = Some (reply r s)"
  by (simp add: send_work_def hal_send_def reply_def take_patch_front)

lemma send_failed_eq:
  assumes "length (cc_rsp s) = 520"
  shows "send_failed m q lvl err s = Some (reply (failed_response m q lvl err) s)"
  using assms by (simp add: send_failed_def encode_failed_eq send_patched length_responses)

lemma with_work_header:
  assumes "length (cc_rsp s) = 520"
  shows "with_work (\<lambda>w. nfc_ccid_encode_slot_status w m q lvl err) s =
      Some (s\<lparr>cc_rsp := patch (cc_rsp s) 0 (ccid_header m 0 0 q lvl err 0)\<rparr>)"
    and "with_work (\<lambda>w. nfc_ccid_encode_data_block_header w m q n lvl ch) s =
      Some (s\<lparr>cc_rsp := patch (cc_rsp s) 0 (ccid_header m n 0 q lvl 0 ch)\<rparr>)"
  using assms by (simp_all add: with_work_def encode_header_Some append_drop_patch)

lemma bulk_slot_status_eq:
  "length (cc_rsp s) = 520 \<Longrightarrow> bulk_slot_status q s =
    Some (reply (ccid_header 0x81 0 0 q (reader_ccid_current_icc_level s) 0 0) s)"
  by (simp add: bulk_slot_status_def reader_ccid_reply_slot_stat_def with_work_header send_patched)

lemma bulk_not_supported_eq:
  "length (cc_rsp s) = 520 \<Longrightarrow> bulk_not_supported m q s =
    Some (reply (ccid_header m 0 0 q (0x40 OR reader_ccid_current_icc_level s) 0 0) s)"
  by (simp add: bulk_not_supported_def reader_ccid_reply_command_not_supported_def with_work_header send_patched)

lemma send_power_error_eq:
  "length (cc_rsp s) = 520 \<Longrightarrow> send_power_error q lvl err s = Some (reply (ccid_header 0x80 0 0 q lvl err 0) s)"
  by (simp add: send_power_error_def reader_ccid_reply_data_block_error_def with_work_header send_patched)

lemma send_continue_eq:
  "length (cc_rsp s) = 520 \<Longrightarrow> reader_ccid_send_xfr_command_continue q s =
    Some (reply (ccid_header 0x80 0 0 q 0 0 0x10) s)"
  by (simp add: reader_ccid_send_xfr_command_continue_def reply_data_preface_def with_work_header send_patched)

lemma bulk_rate_clock_eq:
  assumes "length (cc_rsp s) = 520"
  shows "bulk_rate_clock n q s = Some (reply (ccid_header 0x84 8 0 q
    (if n \<noteq> 8 then 0x40 OR reader_ccid_current_icc_level s else reader_ccid_current_icc_level s)
    (if n \<noteq> 8 then 0x01 else 0) 0 @ rate_clock_block) s)"
  using assms by (simp add: bulk_rate_clock_def with_work_def encode_rate_clock_eq send_patched)

lemma time_extension_eq:
  "send_ccid_time_extension s = Some (s\<lparr>cc_sent := cc_sent s @ [time_extension_frame (cc_time_extension_seq s)]\<rparr>)"
proof -
  have "reply_data_time_extension (Some (replicate 10 0)) 10 q = Some (Some (time_extension_frame q))" for q
    by (simp add: reply_data_time_extension_def encode_header_Some time_extension_frame_def
        header_updates)
  then show ?thesis by (simp add: send_ccid_time_extension_def hal_send_def time_extension_frame_def)
qed

text \<open>A data block: header and payload behind it.\<close>

definition data_block :: "u8 \<Rightarrow> u8 \<Rightarrow> bytes \<Rightarrow> bytes" where
  "data_block q chain d = ccid_header 0x80 (length d) 0 q 0 0 chain @ d"

lemma length_data_block [simp]: "length (data_block q chain d) = 10 + length d"
  by (simp add: data_block_def)

lemma header_over_payload:
  assumes "10 + length d \<le> length bs" and "length h = 10"
  shows "patch (patch bs 10 d) 0 h = patch bs 0 (h @ d)"
  using assms by (simp add: patch_def)

lemma send_data_eq:
  assumes "length (cc_rsp s) = 520" and "length d \<le> 510" and "n = length d"
  shows "(do { s \<leftarrow> reply_data_preface q n ch (s\<lparr>cc_rsp := patch (cc_rsp s) 10 d\<rparr>); send_work (10 + n) s }) =
    Some (reply (data_block q ch d) s)"
proof -
  have "with_work (\<lambda>w. nfc_ccid_encode_data_block_header w 0x80 q n 0 ch) (s\<lparr>cc_rsp := patch (cc_rsp s) 10 d\<rparr>) =
      Some (s\<lparr>cc_rsp := patch (cc_rsp s) 0 (data_block q ch d)\<rparr>)"
    using assms by (simp add: with_work_header header_over_payload data_block_def)
  then show ?thesis using assms by (simp add: reply_data_preface_def send_patched)
qed


section \<open>Response chunks\<close>

text \<open>The rest of the response that is being chained out, and its next chunk.\<close>

definition chain_rest :: "'w ccid \<Rightarrow> bytes" where
  "chain_rest s = drop (cc_chain_off s) (take (cc_chain_len s) (cc_chain_buf s))"

definition chain_level :: "'w ccid \<Rightarrow> u8" where
  "chain_level s = (if cc_chain_off s = 0 then 0x01 else if length (chain_rest s) \<le> 510 then 0x02 else 0x03)"

definition chain_ok :: "'w ccid \<Rightarrow> bool" where
  "chain_ok s \<longleftrightarrow> cc_chain_len s \<le> 2050 \<and> (cc_chain_active s \<longrightarrow> cc_chain_off s < cc_chain_len s)"

lemma send_chunk_eq:
  fixes q :: u8
  assumes "ccid_sizes s" and "cc_chain_active s" and "cc_chain_off s < cc_chain_len s" and "cc_chain_len s \<le> 2050"
  defines "d \<equiv> take 510 (chain_rest s)"
  defines "t \<equiv> reply (data_block q (chain_level s) d) s"
  shows "reader_ccid_send_xfr_chain_chunk q s = Some
    (if cc_send_ok s (length (cc_sent s)) \<and> 510 < length (chain_rest s)
     then t\<lparr>cc_chain_off := cc_chain_off s + 510\<rparr> else reader_ccid_clear_xfr_response_chain t)"
proof -
  have sz: "length (cc_rsp s) = 520" "length (cc_chain_buf s) = 2050" using assms(1) by (simp_all add: ccid_sizes_def)
  define k where "k = (if cc_chain_len s - cc_chain_off s > 510 then 510 else cc_chain_len s - cc_chain_off s)"
  have rest: "length (chain_rest s) = cc_chain_len s - cc_chain_off s"
    using sz(2) assms(4) by (simp add: chain_rest_def)
  have k: "k = length d" "k \<le> 510" "cc_chain_off s + k \<le> cc_chain_len s"
    using rest assms(3) by (auto simp: k_def d_def)
  have d: "take k (drop (cc_chain_off s) (cc_chain_buf s)) = d"
    using assms(3) by (auto simp: k_def d_def chain_rest_def drop_take min_def)
  have lvl: "(if cc_chain_off s = 0 then 0x01
      else if u16n (cc_chain_off s + k) \<ge> cc_chain_len s then 0x02 else 0x03) = chain_level s"
    using k assms(3,4) rest by (auto simp: chain_level_def k_def)
  have copy: "nero_nfc_copy_bytes (Some (cc_rsp s)) 520 10
      (ptr_add (Some (cc_chain_buf s)) (cc_chain_off s)) k = Some (True, Some (patch (cc_rsp s) 10 d))"
    using sz k assms(4) d by simp
  have send: "(do { s \<leftarrow> reply_data_preface q k (chain_level s) (s\<lparr>cc_rsp := patch (cc_rsp s) 10 d\<rparr>);
      hal_send (cc_rsp s) (10 + k) s }) = Some (cc_send_ok s (length (cc_sent s)), t)"
  proof -
    have "length d \<le> 510" using k by simp
    then have "10 + length d \<le> length (cc_rsp s)" using sz by simp
    then have "take (10 + length d) (patch (cc_rsp s) 0 (data_block q (chain_level s) d)) =
        data_block q (chain_level s) d"
      using take_patch_front [of "data_block q (chain_level s) d" "cc_rsp s"] by simp
    then show ?thesis
      using sz k by (simp add: reply_data_preface_def with_work_header header_over_payload
          data_block_def [symmetric] hal_send_def t_def reply_def)
  qed
  obtain s1 where s1: "reply_data_preface q k (chain_level s) (s\<lparr>cc_rsp := patch (cc_rsp s) 10 d\<rparr>) = Some s1"
      "hal_send (cc_rsp s1) (10 + k) s1 = Some (cc_send_ok s (length (cc_sent s)), t)"
    using send by (auto split: bind_splits)
  have off: "u16n (cc_chain_off s + k) = cc_chain_off s + k" using k(3) assms(4) by simp
  have ge: "cc_chain_off s + k \<ge> cc_chain_len s \<longleftrightarrow> \<not> 510 < length (chain_rest s)"
    using rest assms(3) by (auto simp: k_def)
  have fld: "cc_chain_off t = cc_chain_off s" "cc_chain_len t = cc_chain_len s" by (simp_all add: t_def)
  have k510: "510 < length (chain_rest s) \<Longrightarrow> k = 510" using rest by (simp add: k_def)
  have cl: "reader_ccid_clear_xfr_response_chain (t\<lparr>cc_chain_off := x\<rparr>) = reader_ccid_clear_xfr_response_chain t" for x
    by (simp add: reader_ccid_clear_xfr_response_chain_def)
  have "reader_ccid_send_xfr_chain_chunk q s = do {
      s \<leftarrow> reply_data_preface q k (chain_level s) (s\<lparr>cc_rsp := patch (cc_rsp s) 10 d\<rparr>);
      (ok, s) \<leftarrow> hal_send (cc_rsp s) (10 + k) s;
      if \<not> ok then Some (reader_ccid_clear_xfr_response_chain s)
      else let s = s\<lparr>cc_chain_off := u16n (cc_chain_off s + k)\<rparr> in
           Some (if cc_chain_off s \<ge> cc_chain_len s then reader_ccid_clear_xfr_response_chain s else s) }"
    unfolding reader_ccid_send_xfr_chain_chunk_def Let_def k_def [symmetric] lvl copy
    using assms(2,3) by simp
  then show ?thesis
    unfolding s1(1) bind.bind_lunit s1(2) prod.case Let_def fld off cl
    using ge k510 fld by simp
qed

lemma data_response_short:
  assumes "length (cc_rsp s) = 520" and "n \<le> 510" and "n \<le> length d"
  shows "reader_ccid_send_xfr_data_response q (Some d) n s =
    Some (reply (data_block q 0 (take n d)) (reader_ccid_clear_xfr_response_chain s))"
proof -
  define c where "c = reader_ccid_clear_xfr_response_chain s"
  have sz: "length (cc_rsp c) = 520" using assms(1) by (simp add: c_def reader_ccid_clear_xfr_response_chain_def)
  have n: "length (take n d) \<le> 510" "n = length (take n d)" using assms(2,3) by simp_all
  have copy: "(if n \<noteq> 0 then nero_nfc_copy_bytes (Some (cc_rsp c)) 520 10 (Some d) n
      else Some (True, Some (cc_rsp c))) = Some (True, Some (patch (cc_rsp c) 10 (take n d)))"
    using assms sz by simp
  show ?thesis
    unfolding reader_ccid_send_xfr_data_response_def Let_def c_def [symmetric] copy
    using assms(2) send_data_eq [OF sz n, of q 0] by simp
qed

lemma data_response_long:
  assumes "ccid_sizes s" and "510 < n" and "n \<le> 2050" and "n \<le> length d"
  shows "reader_ccid_send_xfr_data_response q (Some d) n s =
    reader_ccid_send_xfr_chain_chunk q (s\<lparr>cc_chain_buf := patch (cc_chain_buf s) 0 (take n d),
      cc_chain_len := n, cc_chain_off := 0, cc_chain_active := True\<rparr>)"
  using assms
  by (simp add: reader_ccid_send_xfr_data_response_def reader_ccid_clear_xfr_response_chain_def ccid_sizes_def Let_def)


section \<open>The invariant of the context\<close>

definition ccid_core :: "'w ccid \<Rightarrow> bool" where
  "ccid_core s \<longleftrightarrow> ccid_sizes s \<and> chain_ok s \<and> cc_cmd_chain_len s \<le> 2050 \<and>
     (cc_sess s \<longrightarrow> cc_card_present s) \<and> (cc_iso_session_open s \<longrightarrow> cc_sess s) \<and>
     (cc_type4_security_key_app s \<longrightarrow> cc_sess s) \<and>
     (cc_owner s = NFC_SESSION_OWNER_CCID \<longleftrightarrow> cc_sess s) \<and>
     (cc_chain_active s \<longrightarrow> cc_sess s) \<and> (cc_cmd_chain_active s \<longrightarrow> cc_sess s) \<and>
     (cc_remove_deferred s \<longrightarrow> cc_card_present s \<and> \<not> cc_sess s)"

definition ccid_inv :: "'w ccid \<Rightarrow> bool" where
  "ccid_inv s \<longleftrightarrow> ccid_core s \<and> \<not> cc_time_extension s"

lemma core_sizes: "ccid_core s \<Longrightarrow> ccid_sizes s" "ccid_core s \<Longrightarrow> length (cc_rsp s) = 520"
  by (simp_all add: ccid_core_def ccid_sizes_def)

lemma core_reply [simp]: "ccid_core s \<Longrightarrow> length r \<le> 520 \<Longrightarrow> ccid_core (reply r s)"
  by (simp add: ccid_core_def ccid_sizes_def chain_ok_def)

lemma core_clear_chains [simp]:
  "ccid_core s \<Longrightarrow> ccid_core (reader_ccid_clear_xfr_response_chain s)"
  "ccid_core s \<Longrightarrow> ccid_core (reader_ccid_clear_xfr_command_chain s)"
  by (simp_all add: ccid_core_def ccid_sizes_def chain_ok_def reader_ccid_clear_xfr_response_chain_def
      reader_ccid_clear_xfr_command_chain_def)

lemma core_updates [simp]:
  "ccid_core (s\<lparr>cc_protocol_num := x\<rparr>) = ccid_core s"
  "ccid_core (s\<lparr>cc_time_extension := b\<rparr>) = ccid_core s"
  "ccid_core (s\<lparr>cc_time_extension_seq := x\<rparr>) = ccid_core s"
  "ccid_core (s\<lparr>cc_card := w\<rparr>) = ccid_core s"
  "ccid_core (s\<lparr>cc_abort := a\<rparr>) = ccid_core s"
  "ccid_core (s\<lparr>cc_sent := x2\<rparr>) = ccid_core s"
  "ccid_core (s\<lparr>cc_tag_kind := k\<rparr>) = ccid_core s"
  "ccid_core (s\<lparr>cc_slot_events := e\<rparr>) = ccid_core s"
  "ccid_core (s\<lparr>cc_remove_defer_until_ms := t\<rparr>) = ccid_core s"
  "ccid_core (s\<lparr>cc_inbox := i\<rparr>) = ccid_core s"
  "ccid_core (s\<lparr>cc_now := t\<rparr>) = ccid_core s"
  by (simp_all add: ccid_core_def ccid_sizes_def chain_ok_def)

lemma core_buffers [simp]:
  "length bs = 520 \<Longrightarrow> ccid_core s \<Longrightarrow> ccid_core (s\<lparr>cc_rsp := bs\<rparr>)"
  "length bs = 2050 \<Longrightarrow> ccid_core s \<Longrightarrow> ccid_core (s\<lparr>cc_apdu_rsp := bs\<rparr>)"
  "length bs = 2060 \<Longrightarrow> ccid_core s \<Longrightarrow> ccid_core (s\<lparr>cc_frame := bs\<rparr>)"
  by (simp_all add: ccid_core_def ccid_sizes_def chain_ok_def)

text \<open>Tearing the session down reaches the same context from wherever it starts.\<close>

lemma teardown_fields [simp]:
  shows "\<not> cc_sess (reader_ccid_teardown_session svc s)" "\<not> cc_iso_session_open (reader_ccid_teardown_session svc s)" "\<not> cc_type4_security_key_app (reader_ccid_teardown_session svc s)" "\<not> cc_chain_active (reader_ccid_teardown_session svc s)"
    "\<not> cc_cmd_chain_active (reader_ccid_teardown_session svc s)" "\<not> cc_time_extension (reader_ccid_teardown_session svc s)" "cc_owner (reader_ccid_teardown_session svc s) = NFC_SESSION_OWNER_NONE"
    "cc_card_present (reader_ccid_teardown_session svc s) = cc_card_present s" "cc_tag_kind (reader_ccid_teardown_session svc s) = cc_tag_kind s" "cc_sent (reader_ccid_teardown_session svc s) = cc_sent s"
    "cc_rsp (reader_ccid_teardown_session svc s) = cc_rsp s" "cc_abort (reader_ccid_teardown_session svc s) = cc_abort s" "cc_send_ok (reader_ccid_teardown_session svc s) = cc_send_ok s"
    "cc_slot_events (reader_ccid_teardown_session svc s) = cc_slot_events s" "cc_remove_deferred (reader_ccid_teardown_session svc s) = cc_remove_deferred s"
    "cc_inbox (reader_ccid_teardown_session svc s) = cc_inbox s" "cc_frame (reader_ccid_teardown_session svc s) = cc_frame s" "cc_now (reader_ccid_teardown_session svc s) = cc_now s"
    "cc_protocol_num (reader_ccid_teardown_session svc s) = cc_protocol_num s"
  by (auto simp: reader_ccid_teardown_session_def Let_def reader_ccid_clear_xfr_response_chain_def
      reader_ccid_clear_xfr_command_chain_def) (cases "cc_owner s"; simp)+

lemma core_teardown [simp]: "ccid_core s \<Longrightarrow> ccid_core (reader_ccid_teardown_session svc s)"
proof -
  assume "ccid_core s"
  then have "ccid_sizes (reader_ccid_teardown_session svc s)" "chain_ok (reader_ccid_teardown_session svc s)"
      "cc_cmd_chain_len (reader_ccid_teardown_session svc s) \<le> 2050"
      "cc_remove_deferred s \<longrightarrow> cc_card_present s"
    by (simp_all add: ccid_core_def ccid_sizes_def chain_ok_def reader_ccid_teardown_session_def Let_def
        reader_ccid_clear_xfr_response_chain_def reader_ccid_clear_xfr_command_chain_def)
  then show ?thesis by (simp add: ccid_core_def)
qed

lemma core_sizes_only:
  "ccid_core s \<Longrightarrow> ccid_sizes s" by (simp add: ccid_core_def)

section \<open>Every command is answered once\<close>

text \<open>A well-formed answer: message type, slot and sequence number, and its length field.\<close>

definition good_response :: "u8 \<Rightarrow> u8 \<Rightarrow> u8 \<Rightarrow> bytes \<Rightarrow> bool" where
  "good_response m slot q r \<longleftrightarrow> 10 \<le> length r \<and> length r \<le> 520 \<and> length r = 10 + frame_data_len r \<and>
     r ! 0 = reader_ccid_response_msg_for_bulk_command m \<and> r ! 5 = slot \<and> r ! 6 = q"

definition answered :: "u8 \<Rightarrow> u8 \<Rightarrow> u8 \<Rightarrow> 'w ccid \<Rightarrow> 'w ccid \<Rightarrow> bool" where
  "answered m slot q s s' \<longleftrightarrow> (\<exists>n r. cc_sent s' = cc_sent s @ replicate n (time_extension_frame q) @ [r] \<and>
     good_response m slot q r)"

lemma good_header:
  "length d = n \<Longrightarrow> n \<le> 510 \<Longrightarrow> good_response m slot q (ccid_header t n slot q p1 p2 p3 @ d) \<longleftrightarrow>
    t = reader_ccid_response_msg_for_bulk_command m"
  by (auto simp: good_response_def frame_data_len_header nth_append)

lemma good_short_header:
  "good_response m slot q (ccid_header t 0 slot q p1 p2 p3) \<longleftrightarrow> t = reader_ccid_response_msg_for_bulk_command m"
  using good_header [of "[]" 0] by simp

lemma good_failed [simp]: "good_response m 0 q (failed_response m q lvl err)"
  by (simp add: failed_response_def good_header good_short_header)

lemma good_absent [simp]: "good_response m slot q (absent_response m slot q err)"
  by (simp add: absent_response_def good_header good_short_header)

lemma good_data_block [simp]:
  "length d \<le> 510 \<Longrightarrow> good_response m 0 q (data_block q ch d) \<longleftrightarrow>
    reader_ccid_response_msg_for_bulk_command m = 0x80"
  unfolding data_block_def by (subst good_header) auto

lemma answered_reply: "good_response m slot q r \<Longrightarrow> answered m slot q s (reply r s)"
  unfolding answered_def by (rule exI [of _ 0]) simp

lemma answered_from:
  "answered m slot q s s' \<Longrightarrow> cc_sent s0 = cc_sent s \<Longrightarrow> cc_sent s1 = cc_sent s' \<Longrightarrow> answered m slot q s0 s1"
  unfolding answered_def by simp

lemma length_failed_le: "length (failed_response m q lvl err) \<le> 520" "length (absent_response m t q err) \<le> 520"
  by (simp_all add: length_responses)

lemma apdu_command_total:
  assumes "n \<le> length a" and "n \<le> UINT16_MAX"
  shows "\<exists>r. nfc_ctap_apdu_command (Some a) n = Some r"
proof -
  show ?thesis
  proof (cases "5 \<le> n")
    case True
    then have len: "5 \<le> length a" using assms(1) by simp
    have rds: "rd (Some a) 0 = Some (a ! 0)" "rd (Some a) 1 = Some (a ! 1)" "rd (Some a) 2 = Some (a ! 2)"
      "rd (Some a) 3 = Some (a ! 3)" "rd (Some a) 4 = Some (a ! 4)"
      using len by simp_all
    show ?thesis
    proof (cases "a ! 4 = 0")
      case False
      then have "unat (a ! 4) \<noteq> 0" by (metis unsigned_0 word_unat_eq_iff)
      then show ?thesis
        unfolding nfc_ctap_apdu_command_def rds using True assms False
        by (auto simp: Let_def)
    next
      case ext: True
      show ?thesis
      proof (cases "n < 8")
        case False
        then have "rd (Some a) 5 = Some (a ! 5)" "rd (Some a) 6 = Some (a ! 6)" "rd (Some a) 7 = Some (a ! 7)"
          using assms by simp_all
        then show ?thesis
          unfolding nfc_ctap_apdu_command_def rds using True ext False
          by (auto simp: Let_def split: option.split)
      next
        case True
        then show ?thesis
          unfolding nfc_ctap_apdu_command_def rds using \<open>5 \<le> n\<close> ext by auto
      qed
    qed
  next
    case False
    then show ?thesis by (auto simp: nfc_ctap_apdu_command_def)
  qed
qed

lemma needs_time_extension_total:
  assumes "n \<le> length a" and "n \<le> UINT16_MAX"
  shows "\<exists>b. nfc_ctap_apdu_needs_ccid_time_extension (Some a) n = Some b"
proof -
  obtain c where "nfc_ctap_apdu_command (Some a) n = Some c" using apdu_command_total [OF assms] by blast
  moreover obtain g where "nfc_ctap_apdu_is_getresponse (Some a) n = Some g"
    using assms by (cases "n < 4") (auto simp: nfc_ctap_apdu_is_getresponse_def)
  ultimately show ?thesis
    using is_select_fido_iff [of n a] assms
    by (cases c) (auto simp: nfc_ctap_apdu_needs_ccid_time_extension_def)
qed


text \<open>What a command keeps: the card, and the session unless it is a power command.\<close>

definition slot_kept :: "u8 \<Rightarrow> 'w ccid \<Rightarrow> 'w ccid \<Rightarrow> bool" where
  "slot_kept m s s' \<longleftrightarrow> cc_card_present s' = cc_card_present s \<and> cc_slot_events s' = cc_slot_events s \<and>
     cc_tag_kind s' = cc_tag_kind s \<and> (m \<in> {0x62, 0x63} \<or> cc_sess s' = cc_sess s)"

lemma slot_kept_refl [simp]: "slot_kept m s s"
  by (simp add: slot_kept_def)

lemma slot_kept_trans: "slot_kept m s t \<Longrightarrow> slot_kept m t u \<Longrightarrow> slot_kept m s u"
  by (auto simp: slot_kept_def)

lemma slot_kept_same:
  "cc_card_present t = cc_card_present s \<Longrightarrow> cc_slot_events t = cc_slot_events s \<Longrightarrow>
   cc_tag_kind t = cc_tag_kind s \<Longrightarrow> cc_sess t = cc_sess s \<Longrightarrow> slot_kept m s t"
  by (simp add: slot_kept_def)

definition handled :: "u8 \<Rightarrow> u8 \<Rightarrow> 'w ccid \<Rightarrow> 'w ccid option \<Rightarrow> bool" where
  "handled m q s r \<longleftrightarrow> (\<exists>s'. r = Some s' \<and> ccid_inv s' \<and> answered m 0 q s s' \<and> slot_kept m s s')"

text \<open>A single reply to a state that differs from \<open>s\<close> in nothing the answer depends on.\<close>

lemma handled_reply:
  assumes "ccid_core t" and "\<not> cc_time_extension t" and "cc_sent t = cc_sent s" and "slot_kept m s t"
    and "good_response m 0 q r" and "x = Some (reply r t)"
  shows "handled m q s x"
proof -
  have "answered m 0 q s (reply r t)"
    by (rule answered_from [OF answered_reply [OF assms(5), of t]]) (simp_all add: assms(3))
  moreover have "length r \<le> 520" using assms(5) by (simp add: good_response_def)
  moreover have "slot_kept m s (reply r t)" using assms(4) unfolding slot_kept_def reply_fields .
  ultimately show ?thesis using assms by (simp add: handled_def ccid_inv_def)
qed

lemma handled_failed:
  assumes "ccid_core t" and "\<not> cc_time_extension t" and "cc_sent t = cc_sent s" and "slot_kept m s t"
  shows "handled m q s (send_failed m q lvl err t)"
  by (rule handled_reply [OF assms good_failed]) (rule send_failed_eq [OF core_sizes(2) [OF assms(1)]])

lemma handled_note:
  assumes "handled m q s x"
  shows "handled m q s (map_option reader_ccid_note_host_session_activity x)"
proof -
  obtain t where t: "x = Some t" "ccid_inv t" "answered m 0 q s t" "slot_kept m s t"
    using assms by (auto simp: handled_def)
  have "ccid_inv (reader_ccid_note_host_session_activity t)"
    using t(2) by (auto simp: ccid_inv_def ccid_core_def ccid_sizes_def chain_ok_def
        reader_ccid_note_host_session_activity_def)
  moreover have "answered m 0 q s (reader_ccid_note_host_session_activity t)"
    by (rule answered_from [OF t(3)]) (simp_all add: reader_ccid_note_host_session_activity_def)
  moreover have "slot_kept m s (reader_ccid_note_host_session_activity t)"
    using t(4) by (auto simp: slot_kept_def reader_ccid_note_host_session_activity_def)
  ultimately show ?thesis using t(1) by (simp add: handled_def)
qed

lemma handled_slot_status: "ccid_inv s \<Longrightarrow> handled 0x65 q s (bulk_slot_status q s)"
  by (rule handled_reply [of s])
    (auto simp: ccid_inv_def good_short_header reader_ccid_response_msg_for_bulk_command_def
      bulk_slot_status_eq core_sizes)

lemma handled_not_supported:
  "ccid_inv s \<Longrightarrow> t = reader_ccid_response_msg_for_bulk_command m \<Longrightarrow> handled m q s (bulk_not_supported t q s)"
  by (rule handled_reply [of s])
    (auto simp: ccid_inv_def good_short_header bulk_not_supported_eq core_sizes)

lemma handled_rate_clock: "ccid_inv s \<Longrightarrow> handled 0x73 q s (bulk_rate_clock n q s)"
  by (rule handled_reply [of s])
    (auto simp: ccid_inv_def good_header reader_ccid_response_msg_for_bulk_command_def
      bulk_rate_clock_eq core_sizes)

lemma bulk_icc_off_eq:
  assumes "length (cc_rsp s) = 520"
  shows "bulk_icc_off svc q s = Some (reply (ccid_header 0x81 0 0 q (if cc_card_present s then 0x01 else 0x02) 0 0)
    ((reader_ccid_teardown_session svc s)\<lparr>cc_protocol_num := 0x01\<rparr>))"
  using assms
  by (simp add: bulk_icc_off_def reader_ccid_reply_slot_stat_def Let_def with_work_header send_patched)

lemma handled_icc_off: "ccid_inv s \<Longrightarrow> handled 0x63 q s (bulk_icc_off svc q s)"
  by (rule handled_reply [of "(reader_ccid_teardown_session svc s)\<lparr>cc_protocol_num := 0x01\<rparr>"])
    (auto simp: ccid_inv_def good_short_header reader_ccid_response_msg_for_bulk_command_def
      bulk_icc_off_eq core_sizes slot_kept_def)

lemma bulk_abort_eq:
  assumes "length (cc_rsp s) = 520" and "6 \<le> nbytes" and "nbytes \<le> length f" and "nbytes \<le> 2060"
  shows "bulk_abort (Some f) nbytes q s =
    Some (reply (ccid_header 0x81 0 0 q (reader_ccid_current_icc_level s) 0 0)
      ((reader_ccid_clear_xfr_command_chain (reader_ccid_clear_xfr_response_chain s))\<lparr>
         cc_time_extension := False,
         cc_abort := (if cc_abort s = Some (f ! 5, q) then None else cc_abort s)\<rparr>))"
  using assms
  by (auto simp: bulk_abort_def reader_ccid_reply_slot_stat_def Let_def with_work_header send_patched
      reader_ccid_clear_xfr_command_chain_def reader_ccid_clear_xfr_response_chain_def)

lemma handled_abort:
  assumes "ccid_inv s" and "6 \<le> nbytes" and "nbytes \<le> length f" and "nbytes \<le> 2060"
  shows "handled 0x72 q s (bulk_abort (Some f) nbytes q s)"
proof (rule handled_reply)
  have s: "length (cc_rsp s) = 520" "ccid_core s" using assms(1) by (simp_all add: ccid_inv_def core_sizes)
  show "bulk_abort (Some f) nbytes q s =
    Some (reply (ccid_header 0x81 0 0 q (reader_ccid_current_icc_level s) 0 0)
      ((reader_ccid_clear_xfr_command_chain (reader_ccid_clear_xfr_response_chain s))\<lparr>
         cc_time_extension := False,
         cc_abort := (if cc_abort s = Some (f ! 5, q) then None else cc_abort s)\<rparr>))"
    by (rule bulk_abort_eq [OF s(1) assms(2-4)])
  show "good_response 0x72 0 q (ccid_header 0x81 0 0 q (reader_ccid_current_icc_level s) 0 0)"
    by (simp add: good_short_header reader_ccid_response_msg_for_bulk_command_def)
  show "ccid_core ((reader_ccid_clear_xfr_command_chain (reader_ccid_clear_xfr_response_chain s))\<lparr>
         cc_time_extension := False,
         cc_abort := (if cc_abort s = Some (f ! 5, q) then None else cc_abort s)\<rparr>)"
    using s(2) by simp
qed (simp_all add: reader_ccid_clear_xfr_command_chain_def reader_ccid_clear_xfr_response_chain_def slot_kept_def)

text \<open>The parameter commands: the protocol number afterwards, the error and the status.\<close>

definition params_reply :: "bytes \<Rightarrow> nat \<Rightarrow> 'w ccid \<Rightarrow> u8 \<times> u8 \<times> u8" where
  "params_reply f nbytes s =
     (let err = (if f ! 0 \<noteq> 0x61 then 0 else if frame_data_len f \<noteq> 7 then 0x01
                 else if f ! 7 \<noteq> 0x01 then 0x07 else if f ! 8 \<noteq> 0 then 0x08
                 else if f ! 9 \<noteq> 0 then 0x09 else 0);
          lvl = reader_ccid_current_icc_level s
      in if \<not> cc_card_present s then (0xFE, 0x42, cc_protocol_num s)
         else (err, if err \<noteq> 0 then 0x40 OR lvl else lvl,
               if f ! 0 = 0x6D then 0x01 else if f ! 0 = 0x61 \<and> err = 0 then f ! 7 else cc_protocol_num s))"

lemma load_u32_eq:
  assumes "10 \<le> n" and "n \<le> length f" and "n \<le> 2060"
  shows "reader_ccid_load_u32_le (Some f) n 1 = Some (True, frame_data_len f)"
proof -
  have "nero_nfc_copy_from (Some (replicate 4 0)) 4 0 (Some f) n 1 4 =
      Some (True, Some (take 4 (drop 1 f)))"
    using assms by (simp add: patch_def)
  moreover have "nfc_ccid_u32_load_le (Some (take 4 (drop 1 f))) = Some (frame_data_len f)"
    using assms load_le_Some [of "take 4 (drop 1 f)"] by (simp add: frame_data_len_def eval_nat_numeral)
  ultimately show ?thesis by (simp add: reader_ccid_load_u32_le_def)
qed

lemma param_error_eq:
  assumes "10 \<le> n" and "n \<le> length f" and "n \<le> 2060"
  shows "reader_ccid_param_error_for_request (Some f) n 0x61 0x01 = Some
    (if f ! 0 \<noteq> 0x61 then 0 else if frame_data_len f \<noteq> 7 then 0x01
     else if f ! 7 \<noteq> 0x01 then 0x07 else if f ! 8 \<noteq> 0 then 0x08 else if f ! 9 \<noteq> 0 then 0x09 else 0)"
  using assms by (simp add: reader_ccid_param_error_for_request_def load_u32_eq del: One_nat_def)

lemma bulk_params_eq:
  assumes "length (cc_rsp s) = 520" and "10 \<le> n" and "n \<le> length f" and "n \<le> 2060"
    and p: "params_reply f n s = (err, lvl, proto)"
  shows "bulk_params (Some f) n q s = Some (reader_ccid_note_host_session_activity
    (reply (ccid_header 0x82 (length (params_block proto)) 0 q lvl err proto @ params_block proto)
      (s\<lparr>cc_protocol_num := proto\<rparr>)))"
proof -
  define e where "e = (if f ! 0 \<noteq> 0x61 then 0 else if frame_data_len f \<noteq> 7 then 0x01
     else if f ! 7 \<noteq> 0x01 then 0x07 else if f ! 8 \<noteq> 0 then 0x08 else if f ! 9 \<noteq> 0 then 0x09 else (0 :: u8))"
  have st: "reader_ccid_reply_param_status s = reader_ccid_current_icc_level s"
    by (simp add: reader_ccid_reply_param_status_def reader_ccid_current_icc_level_def)
  have pe: "reader_ccid_param_error_for_request (Some f) n 0x61 0x01 = Some e"
    unfolding e_def by (rule param_error_eq [OF assms(2-4)])
  have il: "reader_ccid_param_icc_level (Some f) n (reader_ccid_current_icc_level s) 0x40 0x61 0x01 =
      Some (if e \<noteq> 0 then 0x40 OR reader_ccid_current_icc_level s else reader_ccid_current_icc_level s)"
    by (simp add: reader_ccid_param_icc_level_def pe)
  have enc: "with_work (\<lambda>w. map_option snd (reader_ccid_encode_params_response w 520 0x82 q l er pr 0x01)) t =
      Some (t\<lparr>cc_rsp := patch (cc_rsp t) 0 (ccid_header 0x82 (length (params_block pr)) 0 q l er pr @ params_block pr)\<rparr>)"
    if "length (cc_rsp t) = 520" for t l er pr
    using that by (simp add: with_work_def encode_params_eq)
  have len: "length (params_block pr) = (if pr = 0x01 then 7 else 5)" for pr by (simp add: params_block_def)
  have rds: "rd (Some f) 0 = Some (f ! 0)" "rd (Some f) 7 = Some (f ! 7)" using assms(2,3) by simp_all
  have noop: "s\<lparr>cc_protocol_num := cc_protocol_num s\<rparr> = s" by simp
  have span: "nero_nfc_span_ok 7 1 n" using assms(2,4) by simp
  have cases: "(err, lvl, proto) = (if \<not> cc_card_present s then (0xFE, 0x42, cc_protocol_num s)
         else (e, if e \<noteq> 0 then 0x40 OR reader_ccid_current_icc_level s else reader_ccid_current_icc_level s,
               if f ! 0 = 0x6D then 0x01 else if f ! 0 = 0x61 \<and> e = 0 then f ! 7 else cc_protocol_num s))"
    using p unfolding params_reply_def Let_def e_def [symmetric] by simp
  show ?thesis
    unfolding bulk_params_def rds st pe il bind.bind_lunit Let_def
    using cases assms(1) span
    by (cases "cc_card_present s"; cases "f ! 0 = 0x6D"; cases "f ! 0 = 0x61 \<and> e = 0")
      (simp_all add: enc send_patched len noop split: if_splits)
qed

lemma handled_params:
  assumes "ccid_inv s" and "10 \<le> n" and "n \<le> length f" and "n \<le> 2060"
    and "f ! 0 \<in> {0x61, 0x6C, 0x6D}"
  shows "handled (f ! 0) q s (bulk_params (Some f) n q s)"
proof -
  obtain err lvl proto where p: "params_reply f n s = (err, lvl, proto)" by (cases "params_reply f n s")
  have s: "length (cc_rsp s) = 520" "ccid_core s" "\<not> cc_time_extension s"
    using assms(1) by (simp_all add: ccid_inv_def core_sizes)
  have len: "length (params_block proto) \<le> 510" by (simp add: params_block_def)
  have "good_response (f ! 0) 0 q (ccid_header 0x82 (length (params_block proto)) 0 q lvl err proto @ params_block proto)"
    using assms(5) len by (auto simp: good_header reader_ccid_response_msg_for_bulk_command_def)
  then have "handled (f ! 0) q s (Some (reply (ccid_header 0x82 (length (params_block proto)) 0 q lvl err proto @
      params_block proto) (s\<lparr>cc_protocol_num := proto\<rparr>)))"
    by (intro handled_reply [OF _ _ _ _ _ refl]) (use s in \<open>simp_all add: slot_kept_def\<close>)
  then show ?thesis
    using handled_note bulk_params_eq [OF s(1) assms(2-4) p] by fastforce
qed


section \<open>Power-on\<close>

lemma icc_on_reply_eq:
  assumes "length (cc_rsp t) = 520" and "n \<le> 510"
  shows "icc_on_reply q n t = Some (reader_ccid_note_host_session_activity
    ((reply (data_block q 0 (take n (drop 10 (cc_rsp t)))) t)\<lparr>cc_sess := True, cc_owner := NFC_SESSION_OWNER_CCID\<rparr>))"
proof -
  define r where "r = data_block q 0 (take n (drop 10 (cc_rsp t)))"
  have len: "length (take n (drop 10 (cc_rsp t))) = n" using assms by simp
  have "patch (cc_rsp t) 0 (ccid_header 0x80 n 0 q 0 0 0) = patch (cc_rsp t) 0 r"
    using assms len by (simp add: r_def data_block_def patch_def drop_take) (metis append_take_drop_id drop_drop add.commute)
  moreover have "length r = 10 + n" using len by (simp add: r_def)
  ultimately show ?thesis
    unfolding r_def [symmetric] using assms
    by (simp add: icc_on_reply_def reply_data_preface_def with_work_header send_patched)
qed

lemma handled_icc_on_reply:
  assumes "ccid_core t" and "\<not> cc_time_extension t" and "cc_card_present t" and "cc_sent t = cc_sent s"
    and "n \<le> 510" and "slot_kept 0x62 s t"
  shows "handled 0x62 q s (icc_on_reply q n t)"
proof -
  define r where "r = data_block q 0 (take n (drop 10 (cc_rsp t)))"
  define u where "u = reader_ccid_note_host_session_activity
    ((reply r t)\<lparr>cc_sess := True, cc_owner := NFC_SESSION_OWNER_CCID\<rparr>)"
  have len: "length r \<le> 520" "good_response 0x62 0 q r"
    using assms(5) by (simp_all add: r_def reader_ccid_response_msg_for_bulk_command_def)
  have "icc_on_reply q n t = Some u"
    unfolding u_def r_def by (rule icc_on_reply_eq [OF core_sizes(2) [OF assms(1)] assms(5)])
  moreover have "ccid_inv u"
    using core_reply [OF assms(1) len(1)] assms(2,3)
    by (auto simp: u_def ccid_inv_def ccid_core_def ccid_sizes_def chain_ok_def
        reader_ccid_note_host_session_activity_def)
  moreover have "answered 0x62 0 q s u"
    by (rule answered_from [OF answered_reply [OF len(2), of t]])
      (simp_all add: u_def assms(4) reader_ccid_note_host_session_activity_def)
  moreover have "slot_kept 0x62 s u"
    using assms(6) by (simp add: u_def slot_kept_def reader_ccid_note_host_session_activity_def)
  ultimately show ?thesis by (simp add: handled_def)
qed

lemma handled_power_error:
  assumes "ccid_core t" and "\<not> cc_time_extension t" and "cc_sent t = cc_sent s" and "slot_kept 0x62 s t"
  shows "handled 0x62 q s (send_power_error q lvl err t)"
  by (rule handled_reply [OF assms, where r = "ccid_header 0x80 0 0 q lvl err 0"])
    (simp_all add: good_short_header reader_ccid_response_msg_for_bulk_command_def
      send_power_error_eq [OF core_sizes(2) [OF assms(1)]])

lemma storage_atr_copied:
  assumes "kind = TAG_KIND_TYPE2 \<or> kind = TAG_KIND_TYPE5" and "length bs = 520"
  shows "\<exists>tail. nfc_pcsc_copy_storage_card_atr kind (ptr_add (Some bs) 10) 510 = Some (True, Some tail, 20) \<and>
    length tail = 510"
proof -
  obtain st hi lo where "nfc_pcsc_storage_card_code_for_tag kind = (True, st, hi, lo)"
    using assms(1) by (auto simp: nfc_pcsc_storage_card_code_for_tag_def)
  then have "nfc_pcsc_copy_storage_card_atr kind (Some (drop 10 bs)) 510 =
      Some (True, Some (patch (drop 10 bs) 0 (storage_atr st hi lo)), 20)"
    using copy_storage_card_atr_eq [of 510 "drop 10 bs" kind st hi lo] assms(2) by simp
  moreover have "length (storage_atr st hi lo) = 20" by (simp add: storage_atr_def)
  ultimately show ?thesis using assms(2) by simp
qed

lemma handled_icc_on:
  assumes "ccid_inv s" and svc: "services_ok svc" and "10 \<le> length f"
  shows "handled 0x62 q s (bulk_icc_on svc (Some f) q s)"
proof -
  have s: "ccid_core s" "\<not> cc_time_extension s" using assms(1) by (simp_all add: ccid_inv_def)
  define t where "t = reader_ccid_teardown_session svc s"
  have t: "ccid_core t" "\<not> cc_time_extension t" "cc_sent t = cc_sent s" "slot_kept 0x62 s t" "length (cc_rsp t) = 520"
    using s core_sizes(2) [of t] by (simp_all add: t_def slot_kept_def)
  have f7: "rd (Some f) 7 = Some (f ! 7)" using assms(3) by simp
  note def = bulk_icc_on_def [of svc "Some f" q s, unfolded f7 bind.bind_lunit Let_def t_def [symmetric]]
  consider (power) "reader_ccid_power_select_error (f ! 7) 0x07 \<noteq> 0"
    | (absent) "reader_ccid_power_select_error (f ! 7) 0x07 = 0" "\<not> cc_card_present t \<or> cc_tag_kind t = TAG_KIND_NONE"
    | (type4) "reader_ccid_power_select_error (f ! 7) 0x07 = 0" "cc_card_present t" "cc_tag_kind t = TAG_KIND_TYPE4"
    | (storage) "reader_ccid_power_select_error (f ! 7) 0x07 = 0" "cc_card_present t"
        "cc_tag_kind t = TAG_KIND_TYPE2 \<or> cc_tag_kind t = TAG_KIND_TYPE5"
    by (cases "cc_tag_kind t") auto
  then show ?thesis
  proof cases
    case power
    then show ?thesis unfolding def using handled_power_error [OF s refl slot_kept_refl] by simp
  next
    case absent
    then show ?thesis unfolding def using handled_power_error [OF t(1-4)] by auto
  next
    case type4
    obtain opened card where op: "svc_open_iso svc (cc_card t) = (opened, card)" by fastforce
    define u where "u = t\<lparr>cc_time_extension_seq := q, cc_time_extension := True, cc_protocol_num := 0x01, cc_card := card\<rparr>"
    have u: "ccid_core u" "cc_sent u = cc_sent s" "length (cc_rsp u) = 520" "cc_card_present u" "slot_kept 0x62 s u"
      using t type4 core_sizes(2) [of u] by (simp_all add: u_def slot_kept_def)
    have fail: "handled 0x62 q s (do {
        s \<leftarrow> send_power_error q (0x40 OR 0x01) 0xFE (reader_ccid_teardown_session svc v);
        Some (reader_ccid_end_time_extension s) })"
      if "ccid_core v" "cc_sent v = cc_sent s" "slot_kept 0x62 s v" for v
    proof -
      have "handled 0x62 q s (send_power_error q (0x40 OR 0x01) 0xFE (reader_ccid_teardown_session svc v))"
        by (rule handled_power_error) (use that in \<open>simp_all add: slot_kept_def\<close>)
      then show ?thesis
        by (auto simp: handled_def ccid_inv_def reader_ccid_end_time_extension_def answered_def slot_kept_def)
    qed
    have bte: "begin_ccid_time_extension q False t = Some (t\<lparr>cc_time_extension_seq := q, cc_time_extension := True\<rparr>)"
      by (simp add: begin_ccid_time_extension_def)
    note def4 = def [unfolded bte bind.bind_lunit]
    show ?thesis
    proof (cases opened)
      case False
      then show ?thesis unfolding def4 using type4 op fail [OF u(1,2,5)]
        by (simp add: u_def)
    next
      case True
      have l510: "510 \<le> length (drop 10 (cc_rsp u))" using u(3) by simp
      obtain ok d' n card' where atr: "svc_copy_atr svc card (Some (drop 10 (cc_rsp u))) 510 = Some (ok, Some d', n, card')"
          "length d' = length (drop 10 (cc_rsp u))" "n \<le> 510"
        by (rule services_ok_atr [OF svc l510])
      define v where "v = u\<lparr>cc_rsp := take 10 (cc_rsp u) @ d', cc_card := card'\<rparr>"
      have v: "ccid_core v" "cc_sent v = cc_sent s" "cc_card_present v" "slot_kept 0x62 s v"
        using u atr(2) by (simp_all add: v_def slot_kept_def)
      show ?thesis
      proof (cases ok)
        case no: False
        then show ?thesis unfolding def4 using type4 op True atr(1) fail [OF v(1,2,4)]
          by (simp add: u_def v_def)
      next
        case yes: True
        define w where "w = reader_ccid_end_time_extension (v\<lparr>cc_iso_session_open := True, cc_type4_security_key_app := False\<rparr>)"
        have open_sess: "icc_on_reply q n w = icc_on_reply q n w" ..
        have w: "length (cc_rsp w) = 520" "cc_sent w = cc_sent s"
          using v core_sizes(2) [OF v(1)] by (simp_all add: w_def reader_ccid_end_time_extension_def)
        define r where "r = data_block q 0 (take n (drop 10 (cc_rsp w)))"
        define x where "x = reader_ccid_note_host_session_activity
          ((reply r w)\<lparr>cc_sess := True, cc_owner := NFC_SESSION_OWNER_CCID\<rparr>)"
        have len: "length r \<le> 520" "good_response 0x62 0 q r"
          using atr(3) by (simp_all add: r_def reader_ccid_response_msg_for_bulk_command_def)
        have "icc_on_reply q n w = Some x"
          unfolding x_def r_def by (rule icc_on_reply_eq [OF w(1) atr(3)])
        moreover have "ccid_inv x"
          using core_reply [OF v(1) len(1)] v(3)
          by (auto simp: x_def w_def ccid_inv_def ccid_core_def ccid_sizes_def chain_ok_def
              reader_ccid_note_host_session_activity_def reader_ccid_end_time_extension_def)
        moreover have "answered 0x62 0 q s x"
          by (rule answered_from [OF answered_reply [OF len(2), of w]])
            (simp_all add: x_def w(2) reader_ccid_note_host_session_activity_def)
        moreover have "slot_kept 0x62 s x"
          using v(4) by (simp add: x_def w_def slot_kept_def reader_ccid_note_host_session_activity_def
              reader_ccid_end_time_extension_def)
        ultimately have "handled 0x62 q s (icc_on_reply q n w)" by (simp add: handled_def)
        then show ?thesis unfolding def4 using type4 op True atr(1) yes
          by (simp add: u_def v_def w_def)
      qed
    qed
  next
    case storage
    obtain prepared card where pr: "svc_prepare_tag svc (cc_tag_kind t) (cc_card t) = (prepared, card)" by fastforce
    define u where "u = t\<lparr>cc_protocol_num := nfc_pcsc_protocol_for_tag (cc_tag_kind t), cc_card := card\<rparr>"
    have u: "ccid_core u" "\<not> cc_time_extension u" "cc_sent u = cc_sent s" "length (cc_rsp u) = 520" "cc_card_present u"
        "slot_kept 0x62 s u"
      using t storage core_sizes(2) [of u] by (simp_all add: u_def slot_kept_def)
    obtain tail where atr: "nfc_pcsc_copy_storage_card_atr (cc_tag_kind t) (ptr_add (Some (cc_rsp u)) 10) 510 =
        Some (True, Some tail, 20)" "length tail = 510"
      using storage_atr_copied [OF storage(3) u(4)] by blast
    define v where "v = u\<lparr>cc_rsp := take 10 (cc_rsp u) @ tail\<rparr>"
    have v: "ccid_core v" "\<not> cc_time_extension v" "cc_sent v = cc_sent s" "cc_card_present v" "slot_kept 0x62 s v"
      using u atr(2) by (simp_all add: v_def slot_kept_def)
    have to_work: "atr_to_work (nfc_pcsc_copy_storage_card_atr (cc_tag_kind t)) u = Some (True, 20, v)"
      using atr by (simp add: atr_to_work_def v_def del: ptr_add_Some)
    have kind: "cc_tag_kind t \<noteq> TAG_KIND_NONE" "cc_tag_kind t \<noteq> TAG_KIND_TYPE4" using storage(3) by auto
    have "handled 0x62 q s (send_power_error q (0x40 OR 0x01) 0xFE (reader_ccid_teardown_session svc u))"
      by (rule handled_power_error) (use u in \<open>simp_all add: slot_kept_def\<close>)
    moreover have "handled 0x62 q s (icc_on_reply q 20 v)"
      by (rule handled_icc_on_reply) (use v in simp_all)
    ultimately show ?thesis
      unfolding def using storage(1,2) kind pr to_work
      by (cases prepared) (simp_all add: u_def)
  qed
qed

end
