(* ===== verification/CcidDispatch.thy ===== *)
theory CcidDispatch
  imports CcidReader
begin

text \<open>
  XfrBlock in the CCID dispatcher: the exchange with the card, the chain of command blocks, and with
  them the dispatcher on any message.
\<close>

section \<open>The card exchange\<close>

lemma effect_fields:
  assumes "exchange_effect s s'"
  shows "cc_sess s' = cc_sess s" "cc_card_present s' = cc_card_present s" "cc_rsp s' = cc_rsp s"
    "cc_tag_kind s' = cc_tag_kind s" "cc_chain_active s' = cc_chain_active s"
    "cc_time_extension s' = cc_time_extension s" "cc_send_ok s' = cc_send_ok s"
    "cc_cmd_chain_active s' = cc_cmd_chain_active s" "cc_iso_session_open s' = cc_iso_session_open s"
    "cc_owner s' = cc_owner s" "cc_slot_events s' = cc_slot_events s"
    "\<exists>n. cc_sent s' = cc_sent s @ replicate n (time_extension_frame (cc_time_extension_seq s)) \<and>
      (n > 0 \<longrightarrow> cc_time_extension s)"
  using assms by (auto simp: exchange_effect_def)

lemma effect_frame:
  assumes "exchange_effect s s'"
  shows "ccid_sizes s' = ccid_sizes s" "chain_ok s' = chain_ok s" "cc_cmd_chain_len s' = cc_cmd_chain_len s"
    "cc_cmd_chain_buf s' = cc_cmd_chain_buf s" "cc_remove_deferred s' \<longrightarrow> cc_remove_deferred s"
    "cc_type4_security_key_app s' \<longrightarrow> cc_sess s \<or> cc_type4_security_key_app s"
  using assms by (auto simp: exchange_effect_def ccid_sizes_def chain_ok_def)

lemma effect_core:
  assumes "exchange_effect s s'" and "ccid_core s"
  shows "ccid_core s'"
  using assms(2) effect_frame [OF assms(1)] effect_fields(1-11) [OF assms(1)]
  unfolding ccid_core_def by auto

lemma core_chain_off:
  "ccid_core s \<Longrightarrow> k < cc_chain_len s \<Longrightarrow> ccid_core (s\<lparr>cc_chain_off := k\<rparr>)"
  by (simp add: ccid_core_def ccid_sizes_def chain_ok_def)

text \<open>How an answer to XfrBlock leaves the context.\<close>

lemma data_response_handled:
  assumes s: "ccid_core s" "cc_sess s" and n: "n \<le> 2050" "n \<le> length d"
  shows "\<exists>s'. reader_ccid_send_xfr_data_response q (Some d) n s = Some s' \<and> ccid_core s' \<and>
    answered 0x6F 0 q s s' \<and> cc_time_extension s' = cc_time_extension s \<and> slot_kept 0x6F s s'"
proof (cases "n \<le> 510")
  case True
  define t where "t = reader_ccid_clear_xfr_response_chain s"
  have r: "good_response 0x6F 0 q (data_block q 0 (take n d))"
    using True n by (simp add: reader_ccid_response_msg_for_bulk_command_def)
  have "length (data_block q 0 (take n d)) \<le> 520" using True by simp
  then have "ccid_core (reply (data_block q 0 (take n d)) t)" using s by (simp add: t_def)
  moreover have "answered 0x6F 0 q s (reply (data_block q 0 (take n d)) t)"
    by (rule answered_from [OF answered_reply [OF r, of t]])
      (simp_all add: t_def reader_ccid_clear_xfr_response_chain_def)
  moreover have "cc_time_extension t = cc_time_extension s" by (simp add: t_def reader_ccid_clear_xfr_response_chain_def)
  moreover have "slot_kept 0x6F s (reply (data_block q 0 (take n d)) t)"
    by (rule slot_kept_same) (simp_all add: t_def reader_ccid_clear_xfr_response_chain_def)
  ultimately show ?thesis
    using data_response_short [OF core_sizes(2) [OF s(1)] True n(2)] by (simp add: t_def)
next
  case False
  define t where "t = s\<lparr>cc_chain_buf := patch (cc_chain_buf s) 0 (take n d), cc_chain_len := n,
    cc_chain_off := 0, cc_chain_active := True\<rparr>"
  have t: "ccid_core t" using s n False
    by (auto simp: t_def ccid_core_def ccid_sizes_def chain_ok_def)
  define r where "r = data_block q (chain_level t) (take 510 (chain_rest t))"
  have r: "good_response 0x6F 0 q r" "length r \<le> 520"
    by (simp_all add: r_def reader_ccid_response_msg_for_bulk_command_def)
  have rest: "length (chain_rest t) = n" using core_sizes_only [OF t] n by (simp add: chain_rest_def t_def ccid_sizes_def)
  define u where "u = (if cc_send_ok t (length (cc_sent t)) \<and> 510 < length (chain_rest t)
     then (reply r t)\<lparr>cc_chain_off := cc_chain_off t + 510\<rparr>
     else reader_ccid_clear_xfr_response_chain (reply r t))"
  have "reader_ccid_send_xfr_chain_chunk q t = Some u"
    unfolding u_def r_def
    by (rule send_chunk_eq [OF core_sizes_only [OF t]]) (use n False in \<open>simp_all add: t_def\<close>)
  moreover have "reader_ccid_send_xfr_data_response q (Some d) n s = reader_ccid_send_xfr_chain_chunk q t"
    unfolding t_def by (rule data_response_long [OF core_sizes_only [OF s(1)]]) (use n False in simp_all)
  moreover have "ccid_core u"
    using core_reply [OF t r(2)] core_chain_off [OF core_reply [OF t r(2)]] rest
    by (simp add: u_def t_def)
  moreover have "answered 0x6F 0 q s u"
    by (rule answered_from [OF answered_reply [OF r(1), of t]])
      (simp_all add: u_def t_def reader_ccid_clear_xfr_response_chain_def)
  moreover have "cc_time_extension u = cc_time_extension s"
    by (simp add: u_def t_def reader_ccid_clear_xfr_response_chain_def)
  moreover have "slot_kept 0x6F s u"
    by (rule slot_kept_same) (simp_all add: u_def t_def reader_ccid_clear_xfr_response_chain_def)
  ultimately show ?thesis by simp
qed

lemma answered_extend:
  assumes "answered m slot q t s'" and "cc_sent t = cc_sent s @ replicate k (time_extension_frame q)"
  shows "answered m slot q s s'"
proof -
  obtain n r where "cc_sent s' = cc_sent t @ replicate n (time_extension_frame q) @ [r]"
      "good_response m slot q r" using assms(1) by (auto simp: answered_def)
  then have "cc_sent s' = cc_sent s @ replicate (k + n) (time_extension_frame q) @ [r]"
    using assms(2) by (simp add: replicate_add)
  then show ?thesis using \<open>good_response m slot q r\<close> unfolding answered_def by blast
qed

text \<open>What is known of the context when the card has answered.\<close>

definition exchanged :: "u8 \<Rightarrow> bool \<Rightarrow> 'w ccid \<Rightarrow> 'w ccid \<Rightarrow> bool" where
  "exchanged q bound s t \<longleftrightarrow> slot_kept 0x6F s t \<and> ccid_core t \<and> cc_sess t \<and> cc_time_extension t = bound \<and>
     (\<exists>k. cc_sent t = cc_sent s @ replicate k (time_extension_frame q))"

lemma storage_wait_total:
  "n \<le> length a \<Longrightarrow> n \<le> UINT16_MAX \<Longrightarrow> \<exists>b. storage_xfr_needs_time_extension (Some a) n s = Some b"
  by (auto simp: storage_xfr_needs_time_extension_def)

lemma begin_time_extension_eq:
  "begin_ccid_time_extension q initial s = Some (s\<lparr>cc_time_extension_seq := q, cc_time_extension := True,
     cc_sent := cc_sent s @ replicate (of_bool initial) (time_extension_frame q)\<rparr>)"
  by (simp add: begin_ccid_time_extension_def time_extension_eq Let_def)

lemma exchange_ends:
  fixes level :: nat
  assumes t: "exchanged q bound s t" and n: "n \<le> 2050" "n \<le> length d" and f: "10 \<le> length f" "f ! 0 = 0x6F"
  shows "handled 0x6F q s (bulk_xfr_answer (Some f) q level bound (Some d) n t)"
proof -
  define u where "u = (if level = 2 then reader_ccid_clear_xfr_command_chain t else t)"
  obtain k where k: "cc_sent t = cc_sent s @ replicate k (time_extension_frame q)"
    using t by (auto simp: exchanged_def)
  have keep: "slot_kept 0x6F s u"
    using t by (cases "level = 2") (simp_all add: exchanged_def u_def slot_kept_def reader_ccid_clear_xfr_command_chain_def)
  have u: "ccid_core u" "cc_sess u" "cc_time_extension u = bound"
      "cc_sent u = cc_sent s @ replicate k (time_extension_frame q)" "length (cc_rsp u) = 520"
    using t k core_sizes(2) [of t]
    by (cases "level = 2"; simp add: exchanged_def u_def; simp add: reader_ccid_clear_xfr_command_chain_def)+
  have rds: "rd (Some f) 5 = Some (f ! 5)" "rd (Some f) 0 = Some 0x6F" using f by simp_all
  note def = bulk_xfr_answer_def [of "Some f" q level bound "Some d" n t,
      folded u_def, unfolded Let_def rds bind.bind_lunit]
  show ?thesis
  proof (cases "cc_abort u = Some (f ! 5, q)")
    case True
    define v where "v = (reader_ccid_clear_xfr_response_chain u)\<lparr>cc_time_extension := False\<rparr>"
    define r where "r = failed_response 0x6F q (reader_ccid_current_icc_level u) 0xFF"
    have clr: "reader_ccid_clear_xfr_response_chain (reader_ccid_end_time_extension (u\<lparr>cc_rsp := x\<rparr>)) = v\<lparr>cc_rsp := x\<rparr>" for x
      by (simp add: v_def reader_ccid_clear_xfr_response_chain_def reader_ccid_end_time_extension_def)
    have enc: "reader_ccid_encode_command_failed_response (Some (cc_rsp u)) 520 0x6F q
        (reader_ccid_current_icc_level u) 0xFF = Some (length r, Some (patch (cc_rsp u) 0 r))"
      unfolding r_def by (rule encode_failed_eq) (simp_all add: u(5))
    have v: "cc_rsp u = cc_rsp v" "length (cc_rsp v) = 520"
      using u(5) by (simp_all add: v_def reader_ccid_clear_xfr_response_chain_def)
    have len: "length r \<le> 520" by (simp add: r_def length_failed_le)
    have "bulk_xfr_answer (Some f) q level bound (Some d) n t =
        send_work (length r) (v\<lparr>cc_rsp := patch (cc_rsp u) 0 r\<rparr>)"
      unfolding def if_P [OF True]
      by (simp only: enc bind.bind_lunit prod.case clr)
    then have "bulk_xfr_answer (Some f) q level bound (Some d) n t = Some (reply r v)"
      using send_patched [OF v(1), of r "length r"] v(2) len by simp
    moreover have "ccid_core (reply r v)" using u(1) len by (simp add: v_def)
    moreover have "answered 0x6F 0 q s (reply r v)"
    proof (rule answered_extend)
      show "answered 0x6F 0 q v (reply r v)" by (rule answered_reply) (simp add: r_def)
      show "cc_sent v = cc_sent s @ replicate k (time_extension_frame q)"
        using u(4) by (simp add: v_def reader_ccid_clear_xfr_response_chain_def)
    qed
    moreover have "slot_kept 0x6F s (reply r v)"
      using keep by (simp add: v_def slot_kept_def reader_ccid_clear_xfr_response_chain_def)
    ultimately show ?thesis by (simp add: handled_def ccid_inv_def v_def)
  next
    case False
    obtain s' where r: "reader_ccid_send_xfr_data_response q (Some d) n u = Some s'" "ccid_core s'"
        "answered 0x6F 0 q u s'" "cc_time_extension s' = bound" "slot_kept 0x6F u s'"
      using data_response_handled [OF u(1,2) n] u(3) by blast
    define v where "v = (if bound then reader_ccid_end_time_extension s' else s')"
    have "bulk_xfr_answer (Some f) q level bound (Some d) n t = Some v"
      unfolding def if_not_P [OF False] r(1) v_def bind.bind_lunit ..
    moreover have "ccid_core v" "\<not> cc_time_extension v" "cc_sent v = cc_sent s'"
      using r by (simp_all add: v_def reader_ccid_end_time_extension_def)
    moreover have "answered 0x6F 0 q s s'" by (rule answered_extend [OF r(3) u(4)])
    moreover have "slot_kept 0x6F u v"
      using r(5) by (simp add: v_def slot_kept_def reader_ccid_end_time_extension_def)
    ultimately show ?thesis using slot_kept_trans [OF keep] answered_from [of _ _ _ s s' s v] by (simp add: handled_def ccid_inv_def)
  qed
qed

lemma handled_exchange:
  assumes s: "ccid_inv s" "cc_sess s" and svc: "services_ok svc"
    and a: "n \<le> length a" "n \<le> UINT16_MAX" and f: "10 \<le> length f" "f ! 0 = 0x6F"
  shows "handled 0x6F q s (bulk_xfr_exchange svc (Some f) q level_param (Some a) n s)"
proof -
  define type4 where "type4 = (cc_tag_kind s = TAG_KIND_TYPE4)"
  obtain w where w: "(if type4 then nfc_ctap_apdu_needs_ccid_time_extension (Some a) n else Some False) = Some w"
    using needs_time_extension_total [OF a] by (cases type4) auto
  obtain x where x: "(if w then Some False else storage_xfr_needs_time_extension (Some a) n s) = Some x"
    using storage_wait_total [OF a] by (cases w) auto
  define bound where "bound = (type4 \<or> w \<or> x)"
  define s1 where "s1 = (if bound then s\<lparr>cc_time_extension_seq := q, cc_time_extension := True,
     cc_sent := cc_sent s @ replicate (of_bool (w \<or> x)) (time_extension_frame q)\<rparr> else s)"
  have b: "(if bound then begin_ccid_time_extension q (w \<or> x) s else Some s) = Some s1"
    by (simp add: s1_def begin_time_extension_eq)
  have s1: "ccid_core s1" "cc_sess s1" "cc_time_extension s1 = bound" "bound \<longrightarrow> cc_time_extension_seq s1 = q"
      "cc_sent s1 = cc_sent s @ replicate (if bound then of_bool (w \<or> x) else 0) (time_extension_frame q)"
    using s by (simp_all add: s1_def ccid_inv_def)
  have eff: "exchanged q bound s t" if t: "exchange_effect s1 t" for t
  proof -
    obtain k where "cc_sent t = cc_sent s1 @ replicate k (time_extension_frame (cc_time_extension_seq s1))"
        "k > 0 \<longrightarrow> bound" using effect_fields(12) [OF t] s1(3) by auto
    then have "\<exists>k. cc_sent t = cc_sent s @ replicate k (time_extension_frame q)"
      using s1(4,5) by (cases "k > 0") (auto simp: replicate_add [symmetric])
    moreover have "slot_kept 0x6F s t"
      using effect_fields(1,2,4,11) [OF t] by (simp add: slot_kept_def s1_def)
    ultimately show ?thesis
      using effect_core [OF t s1(1)] effect_fields(1,6) [OF t] s1(2,3) by (simp add: exchanged_def)
  qed
  have buf: "exchanged q bound s (t\<lparr>cc_apdu_rsp := y\<rparr>)" if "exchanged q bound s t" "length y = 2050" for t y
    using that by (auto simp: exchanged_def slot_kept_def)
  have buf2: "exchanged q bound s (t\<lparr>cc_rsp := y\<rparr>)" if "exchanged q bound s t" "length y = 520" for t y
    using that by (auto simp: exchanged_def slot_kept_def)
  note def = bulk_xfr_exchange_def [of svc "Some f" q level_param "Some a" n s,
      folded type4_def, unfolded Let_def, unfolded w bind.bind_lunit, unfolded x bind.bind_lunit,
      folded bound_def, unfolded b bind.bind_lunit]
  show ?thesis
  proof (cases type4)
    case True
    have len: "2050 \<le> length (cc_apdu_rsp s1)" using core_sizes_only [OF s1(1)] by (simp add: ccid_sizes_def)
    obtain rlen d t where d: "svc_dispatch svc (Some a) n (Some (cc_apdu_rsp s1)) 2050 s1 = Some (rlen, Some d, t)"
        "length d = length (cc_apdu_rsp s1)" "rlen \<le> 2050" "exchange_effect s1 t"
      by (rule services_ok_dispatch [OF svc a(1) len])
    have l: "length d = 2050" using core_sizes_only [OF s1(1)] d(2) by (simp add: ccid_sizes_def)
    have "handled 0x6F q s (bulk_xfr_answer (Some f) q level_param bound (Some d) rlen (t\<lparr>cc_apdu_rsp := d\<rparr>))"
      by (rule exchange_ends [OF buf [OF eff [OF d(4)] l] d(3) _ f]) (use d(3) l in simp)
    then show ?thesis unfolding def if_P [OF True] d(1) bind.bind_lunit prod.case .
  next
    case False
    have len: "520 - 10 \<le> length (drop 10 (cc_rsp s1))" using core_sizes(2) [OF s1(1)] by simp
    obtain rlen d t where d: "svc_dispatch svc (Some a) n (Some (drop 10 (cc_rsp s1))) (520 - 10) s1 = Some (rlen, Some d, t)"
        "length d = length (drop 10 (cc_rsp s1))" "rlen \<le> 520 - 10" "exchange_effect s1 t"
      by (rule services_ok_dispatch [OF svc a(1) len])
    have l: "length d = 510" "length (take 10 (cc_rsp t) @ d) = 520"
      using core_sizes(2) [OF s1(1)] core_sizes(2) [OF effect_core [OF d(4) s1(1)]] d(2) by simp_all
    have "handled 0x6F q s (bulk_xfr_answer (Some f) q level_param bound (Some d) rlen
        (t\<lparr>cc_rsp := take 10 (cc_rsp t) @ d\<rparr>))"
      by (rule exchange_ends [OF buf2 [OF eff [OF d(4)] l(2)] _ _ f]) (use d(3) l(1) in simp_all)
    then show ?thesis
      unfolding def if_not_P [OF False] ptr_add_Some d(1) bind.bind_lunit prod.case .
  qed
qed

section \<open>The command chain\<close>

text \<open>What a chained command block leaves: the block is appended, or the chain is given up.\<close>

definition chain_appended :: "bytes \<Rightarrow> bool \<Rightarrow> 'w ccid \<Rightarrow> bool \<times> 'w ccid" where
  "chain_appended p begin_chain s =
     (let base = (if begin_chain then 0 else cc_cmd_chain_len s) in
      if p = [] \<or> \<not> begin_chain \<and> \<not> cc_cmd_chain_active s then (False, s)
      else if base + length p > 2050
      then (False, reader_ccid_clear_xfr_command_chain s)
      else (True, s\<lparr>cc_cmd_chain_buf := patch (cc_cmd_chain_buf s) base p,
                    cc_cmd_chain_len := base + length p, cc_cmd_chain_active := True\<rparr>))"

lemma append_command_chain_eq:
  assumes s: "ccid_core s" and p: "length p \<le> 2050" "p = take n d" "n \<le> length d"
  shows "reader_ccid_append_xfr_command_chain (Some d) n b s = Some (chain_appended p b s)"
proof -
  have n: "length p = n" using p by simp
  have pe: "p = [] \<longleftrightarrow> n = 0" using n by auto
  have sz: "length (cc_cmd_chain_buf s) = 2050" "cc_cmd_chain_len s \<le> 2050"
    using s by (simp_all add: ccid_core_def ccid_sizes_def)
  show ?thesis
  proof (cases "n = 0 \<or> \<not> b \<and> \<not> cc_cmd_chain_active s")
    case True
    then show ?thesis
      by (auto simp: reader_ccid_append_xfr_command_chain_def chain_appended_def pe Let_def)
  next
    case False
    define t where "t = (if b then reader_ccid_clear_xfr_command_chain s else s)"
    define base where "base = (if b then 0 else cc_cmd_chain_len s)"
    have t: "cc_cmd_chain_len t = base" "cc_cmd_chain_buf t = cc_cmd_chain_buf s" "base \<le> 2050"
        "reader_ccid_clear_xfr_command_chain t = reader_ccid_clear_xfr_command_chain s"
        "t\<lparr>cc_cmd_chain_buf := x, cc_cmd_chain_len := y, cc_cmd_chain_active := z\<rparr> =
         s\<lparr>cc_cmd_chain_buf := x, cc_cmd_chain_len := y, cc_cmd_chain_active := z\<rparr>" for x y z
      using sz by (simp_all add: t_def base_def reader_ccid_clear_xfr_command_chain_def)
    have add: "nero_nfc_try_add_size base n = Some (base + n)"
      using t(3) p(1) n by (simp add: nero_nfc_try_add_size_def)
    have eq: "reader_ccid_append_xfr_command_chain (Some d) n b s =
      (if base + n > 2050 then Some (False, reader_ccid_clear_xfr_command_chain t)
       else do {
          (ok, buf) \<leftarrow> nero_nfc_copy_bytes (Some (cc_cmd_chain_buf t)) 2050 (cc_cmd_chain_len t) (Some d) n;
          bs \<leftarrow> buf;
          let s = t\<lparr>cc_cmd_chain_buf := bs\<rparr>;
          if \<not> ok then Some (False, reader_ccid_clear_xfr_command_chain s)
          else Some (True, s\<lparr>cc_cmd_chain_len := u16n (base + n), cc_cmd_chain_active := True\<rparr>)
        })"
      unfolding reader_ccid_append_xfr_command_chain_def Let_def t_def [symmetric] t(1) add option.case
      using False by auto
    show ?thesis
    proof (cases "base + n > 2050")
      case True
      then show ?thesis using False unfolding eq chain_appended_def Let_def base_def [symmetric] pe n t(4) by auto
    next
      case fits: False
      have copy: "nero_nfc_copy_bytes (Some (cc_cmd_chain_buf t)) 2050 base (Some d) n =
          Some (True, Some (patch (cc_cmd_chain_buf s) base p))"
        using fits sz p by (simp add: t(2))
      have u: "u16n (base + n) = base + n" using fits by simp
      show ?thesis using False fits
        unfolding eq t(1) copy chain_appended_def Let_def base_def [symmetric] pe n u
        by (simp add: t(5))
    qed
  qed
qed

lemma chain_appended_core:
  assumes "ccid_core s" and "cc_sess s" and "chain_appended p b s = (ok, t)"
  shows "ccid_core t" "cc_time_extension t = cc_time_extension s" "cc_sent t = cc_sent s" "cc_sess t"
    "cc_tag_kind t = cc_tag_kind s" "slot_kept m s t"
proof -
  have sz: "length (cc_cmd_chain_buf s) = 2050" using assms(1) by (simp add: ccid_core_def ccid_sizes_def)
  define base where "base = (if b then 0 else cc_cmd_chain_len s)"
  define u where "u = s\<lparr>cc_cmd_chain_buf := patch (cc_cmd_chain_buf s) base p,
        cc_cmd_chain_len := base + length p, cc_cmd_chain_active := True\<rparr>"
  have cs: "t = s \<or> t = reader_ccid_clear_xfr_command_chain s \<or> base + length p \<le> 2050 \<and> t = u"
    using assms(3) unfolding chain_appended_def Let_def base_def [symmetric] u_def [symmetric]
    by (cases "p = []"; cases "b"; cases "cc_cmd_chain_active s"; cases "base + length p > 2050";
        simp)
  have "ccid_core u" if "base + length p \<le> 2050"
    using assms(1,2) that sz by (simp add: u_def ccid_core_def ccid_sizes_def chain_ok_def)
  then show "ccid_core t" using cs assms(1) by (metis core_clear_chains(2))
  define k where "k v = (cc_time_extension v, cc_sent v, cc_sess v, cc_tag_kind v, cc_card_present v, cc_slot_events v)"
    for v :: "'a ccid"
  have "k (reader_ccid_clear_xfr_command_chain s) = k s"
    by (simp add: k_def reader_ccid_clear_xfr_command_chain_def)
  moreover have "k u = k s" by (simp add: k_def u_def)
  ultimately have "k t = k s" using cs by (elim disjE conjE) (simp_all only:)
  then show "cc_time_extension t = cc_time_extension s" "cc_sent t = cc_sent s" "cc_sess t"
      "cc_tag_kind t = cc_tag_kind s" "slot_kept m s t"
    using assms(2) by (simp_all add: k_def slot_kept_def)
qed

section \<open>The dispatcher\<close>

lemma handled_continue:
  assumes "ccid_inv s"
  shows "handled 0x6F q s (reader_ccid_send_xfr_command_continue q s)"
  by (rule handled_reply [where t = s and r = "ccid_header 0x80 0 0 q 0 0 0x10"])
    (use assms core_sizes(2) [of s] in \<open>auto simp: ccid_inv_def good_short_header send_continue_eq
      reader_ccid_response_msg_for_bulk_command_def\<close>)

lemma handled_from:
  "handled m q t x \<Longrightarrow> cc_sent t = cc_sent s \<Longrightarrow> slot_kept m s t \<Longrightarrow> handled m q s x"
  unfolding handled_def using answered_from [OF _ _ refl] slot_kept_trans by fastforce

lemma level_parameter_eq:
  assumes "10 \<le> n" and "n \<le> length f" and "n \<le> 2060"
  shows "reader_ccid_bulk_xfr_level_parameter (Some f) n = Some (be16 (f ! 9) (f ! 8))"
  using assms by (simp add: reader_ccid_bulk_xfr_level_parameter_def)

lemma handled_xfr:
  assumes s: "ccid_inv s" and svc: "services_ok svc"
    and f: "n = 10 + frame_data_len f" "n \<le> length f" "n \<le> 2060" "f ! 0 = 0x6F"
  shows "handled 0x6F q s (bulk_xfr svc (Some f) n q (frame_data_len f) s)"
proof -
  define lvl where "lvl = be16 (f ! 9) (f ! 8)"
  have core: "ccid_core s" "\<not> cc_time_extension s" using s by (simp_all add: ccid_inv_def)
  have len: "frame_data_len f \<le> 2050" "10 \<le> n" "10 \<le> length f" using f by simp_all
  have pl: "u16n (frame_data_len f) = frame_data_len f" using len by simp
  have lv: "reader_ccid_bulk_xfr_level_parameter (Some f) n = Some lvl"
    unfolding lvl_def by (rule level_parameter_eq) (use f len in simp_all)
  have rd0: "rd (Some f) 0 = Some 0x6F" using f len by simp
  define p where "p = take (frame_data_len f) (drop 10 f)"
  have p: "length p \<le> 2050" "frame_data_len f \<le> length (drop 10 f)" using f len by (simp_all add: p_def)
  note def = bulk_xfr_def [of svc "Some f" n q "frame_data_len f" s, unfolded lv rd0 pl bind.bind_lunit ptr_add_Some]
  consider (nosess) "\<not> cc_sess s" | (single) "cc_sess s" "lvl = 0" | (chained) "cc_sess s" "lvl \<noteq> 0" by blast
  then show ?thesis
  proof cases
    case nosess
    then show ?thesis unfolding def using handled_failed [OF core refl slot_kept_refl] by simp
  next
    case single
    have "handled 0x6F q s (send_failed 0x6F q (reader_ccid_current_icc_level s) 0x08
        (reader_ccid_clear_xfr_command_chain s))"
      by (rule handled_failed) (use core in \<open>simp_all add: reader_ccid_clear_xfr_command_chain_def slot_kept_def\<close>,
        simp add: reader_ccid_clear_xfr_command_chain_def [symmetric])
    moreover have "handled 0x6F q s (bulk_xfr_exchange svc (Some f) q lvl (Some (drop 10 f)) (frame_data_len f) s)"
      by (rule handled_exchange [OF s single(1) svc p(2) _ len(3) f(4)]) (use len in simp)
    ultimately show ?thesis unfolding def using single by simp
  next
    case chained
    obtain ok t where a: "chain_appended p (lvl = 1) s = (ok, t)" by fastforce
    note t = chain_appended_core [OF core(1) chained(1) a]
    have app: "reader_ccid_append_xfr_command_chain (Some (drop 10 f)) (frame_data_len f) (lvl = 1) s = Some (ok, t)"
      using append_command_chain_eq [OF core(1) p(1) p_def p(2)] a by simp
    have inv: "ccid_inv t" using t(1,2) core(2) by (simp add: ccid_inv_def)
    have buf: "cc_cmd_chain_len t \<le> length (cc_cmd_chain_buf t)" "cc_cmd_chain_len t \<le> UINT16_MAX"
      using t(1) by (simp_all add: ccid_core_def ccid_sizes_def)
    have "handled 0x6F q s (send_failed 0x6F q (reader_ccid_current_icc_level t) 0x01 t)"
      by (rule handled_failed) (use t core in simp_all)
    moreover have "handled 0x6F q s (reader_ccid_send_xfr_command_continue q t)"
      by (rule handled_from [OF handled_continue [OF inv] t(3) t(6)])
    moreover have "handled 0x6F q s (bulk_xfr_exchange svc (Some f) q lvl (Some (cc_cmd_chain_buf t)) (cc_cmd_chain_len t) t)"
      by (rule handled_from [OF handled_exchange [OF inv t(4) svc buf len(3) f(4)] t(3) t(6)])
    ultimately show ?thesis unfolding def app bind.bind_lunit prod.case using chained by simp
  qed
qed

lemma handled_switch:
  assumes s: "ccid_inv s" and svc: "services_ok svc"
    and f: "n = 10 + frame_data_len f" "n \<le> length f" "n \<le> 2060"
  shows "handled (f ! 0) q s (bulk_switch svc (Some f) n q (frame_data_len f) s)"
proof -
  define m where "m = f ! 0"
  have len: "10 \<le> n" "10 \<le> length f" "6 \<le> n" using f by simp_all
  have rd0: "rd (Some f) 0 = Some m" using len by (simp add: m_def)
  have core: "ccid_core s" "\<not> cc_time_extension s" using s by (simp_all add: ccid_inv_def)
  have a: "m = 0x65 \<Longrightarrow> handled m q s (bulk_slot_status q s)" using handled_slot_status [OF s] by simp
  have b: "m = 0x63 \<Longrightarrow> handled m q s (bulk_icc_off svc q s)" using handled_icc_off [OF s] by simp
  have c: "m = 0x62 \<Longrightarrow> handled m q s (bulk_icc_on svc (Some f) q s)" using handled_icc_on [OF s svc len(2)] by simp
  have d: "m = 0x6C \<or> m = 0x6D \<or> m = 0x61 \<Longrightarrow> handled m q s (bulk_params (Some f) n q s)"
    using handled_params [OF s len(1) f(2,3)] by (auto simp: m_def)
  have e: "m = 0x72 \<Longrightarrow> handled m q s (bulk_abort (Some f) n q s)"
    using handled_abort [OF s len(3) f(2,3)] by simp
  have g: "reader_ccid_response_msg_for_bulk_command m = 0x81 \<Longrightarrow> handled m q s (bulk_not_supported 0x81 q s)"
    using handled_not_supported [OF s, of "0x81" m] by simp
  have h: "m = 0x69 \<Longrightarrow> handled m q s (bulk_not_supported 0x80 q s)"
    using handled_not_supported [OF s, of "0x80" m] by (simp add: reader_ccid_response_msg_for_bulk_command_def)
  have i: "handled m q s (send_failed m q (reader_ccid_current_icc_level s) 0 s)"
    by (rule handled_failed [OF core refl slot_kept_refl])
  have j: "m = 0x73 \<Longrightarrow> handled m q s (bulk_rate_clock (frame_data_len f) q s)"
    using handled_rate_clock [OF s] by simp
  have k: "m = 0x6F \<Longrightarrow> handled m q s (bulk_xfr svc (Some f) n q (frame_data_len f) s)"
    using handled_xfr [OF s svc f] by (simp add: m_def)
  have g1: "m = 0x6E \<or> m = 0x6A \<or> m = 0x71 \<Longrightarrow> handled m q s (bulk_not_supported 0x81 q s)"
    by (rule g) (auto simp: reader_ccid_response_msg_for_bulk_command_def)
  have g2: "handled m q s (bulk_not_supported 0x81 q s)"
    if "m \<noteq> 0x62" "m \<noteq> 0x6F" "m \<noteq> 0x69" "\<not> (m = 0x6C \<or> m = 0x6D \<or> m = 0x61)" "m \<noteq> 0x6B" "m \<noteq> 0x73"
    by (rule g) (use that in \<open>simp add: reader_ccid_response_msg_for_bulk_command_def\<close>)
  show ?thesis
    unfolding bulk_switch_def rd0 bind.bind_lunit m_def [symmetric]
    using a b c d e g1 g2 h i j k by (simp only: split: if_split) blast
qed

end
