(* ===== verification/CcidService.thy ===== *)
theory CcidService
  imports CcidDispatch
begin

text \<open>
  The contract of the reader's CCID service: every message is answered once, what the answer
  says of the slot, chaining in both directions, abort, and the reader under any sequence of
  polls, card events and USB events.
\<close>

section \<open>Every message is answered\<close>

lemma frame_data_len_bare [simp]:
  "n < 4294967296 \<Longrightarrow> frame_data_len (ccid_header m n s q p1 p2 p3) = n"
  using frame_data_len_header [of n m s q p1 p2 p3 "[]"] by simp

text \<open>The slot an answer names: the one of the message, unless its length is wrong.\<close>

definition answer_slot :: "bytes \<Rightarrow> u8" where
  "answer_slot f = (if length f = 10 + frame_data_len f then f ! 5 else 0)"

lemma cleared_work:
  assumes "ccid_inv s"
  obtains t where "with_work (\<lambda>w. nero_nfc_zero_bytes w 520) s = Some t" and "t = s\<lparr>cc_rsp := replicate 520 0\<rparr>"
    and "ccid_inv t"
proof -
  have s: "length (cc_rsp s) = 520" "ccid_core s" "\<not> cc_time_extension s"
    using assms core_sizes(2) [of s] by (simp_all add: ccid_inv_def)
  have "with_work (\<lambda>w. nero_nfc_zero_bytes w 520) s = Some (s\<lparr>cc_rsp := replicate 520 0\<rparr>)"
    using s(1) by (simp add: with_work_def nero_nfc_zero_bytes_def)
  moreover have "ccid_inv (s\<lparr>cc_rsp := replicate 520 0\<rparr>)" using s by (simp add: ccid_inv_def)
  ultimately show ?thesis using that by blast
qed

text \<open>The checks before the switch, as one function of the frame.\<close>

definition header_error :: "bytes \<Rightarrow> u8 option" where
  "header_error f = (let m = f ! 0; n = frame_data_len f; lvl = be16 (f ! 9) (f ! 8);
       xfr_err = reader_ccid_xfr_level_error lvl n 0x01 0x08 in
     if reader_ccid_bulk_command_requires_zero_length m \<and> n \<noteq> 0 then Some 0x01
     else if reader_ccid_bulk_command_requires_rfu_zero m \<and> (f ! 7 \<noteq> 0 \<or> f ! 8 \<noteq> 0 \<or> f ! 9 \<noteq> 0) then Some 0x07
     else if m = 0x6F \<and> xfr_err \<noteq> 0 then Some xfr_err
     else if m = 0x62 \<and> (f ! 8 \<noteq> 0 \<or> f ! 9 \<noteq> 0) then Some 0x08
     else if m = 0x73 \<and> (f ! 7 \<noteq> 0 \<or> f ! 8 \<noteq> 0 \<or> f ! 9 \<noteq> 0)
     then Some (if f ! 7 \<noteq> 0 then 0x07 else if f ! 8 \<noteq> 0 then 0x08 else 0x09)
     else None)"

lemma header_error_eq:
  assumes "10 \<le> n" and "n \<le> length f" and "n \<le> 2060"
  shows "bulk_header_error (Some f) n (frame_data_len f) = Some (header_error f)"
proof -
  have rds: "rd (Some f) 0 = Some (f ! 0)" "rd (Some f) 7 = Some (f ! 7)" "rd (Some f) 8 = Some (f ! 8)"
      "nero_nfc_u8_at (Some f) n 9 = Some (f ! 9)"
    using assms by simp_all
  have sp: "nero_nfc_span_ok 7 1 n = True" "nero_nfc_span_ok 8 1 n = True" using assms by simp_all
  show ?thesis
    unfolding bulk_header_error_def rds bind.bind_lunit level_parameter_eq [OF assms] Let_def header_error_def
    unfolding sp by (simp only: HOL.simp_thms)
qed

definition wants_continuation :: "bytes \<Rightarrow> bool" where
  "wants_continuation f \<longleftrightarrow> f ! 0 = 0x6F \<and> frame_data_len f = 0 \<and> f ! 8 = 0x10 \<and> f ! 9 = 0"

lemma continuation_eq:
  assumes "n = 10 + frame_data_len f" and "n \<le> length f" and "n \<le> 2060"
  shows "nfc_ccid_xfr_frame_requests_response_continuation (Some f) n = Some (wants_continuation f)"
proof -
  have v: "nfc_ccid_bulk_frame_validate (Some f) n = Some (True, frame_data_len f)"
    using assms by (subst frame_validate_eq) simp_all
  have rds: "rd (Some f) 0 = Some (f ! 0)" "rd (Some f) 8 = Some (f ! 8)" "rd (Some f) 9 = Some (f ! 9)"
    using assms by simp_all
  show ?thesis
    unfolding nfc_ccid_xfr_frame_requests_response_continuation_def v rds wants_continuation_def by simp
qed

text \<open>An abort the host has announced on the control pipe and not yet completed with this command.\<close>

definition abort_blocks :: "bytes \<Rightarrow> 'w ccid \<Rightarrow> bool" where
  "abort_blocks f s \<longleftrightarrow> (case cc_abort s of None \<Rightarrow> False
     | Some (slot, q) \<Rightarrow> f ! 5 = slot \<and> (f ! 0 \<noteq> 0x72 \<or> f ! 6 \<noteq> q))"

text \<open>The chains a command ends before it runs.\<close>

definition chains_ended :: "bytes \<Rightarrow> 'w ccid \<Rightarrow> 'w ccid" where
  "chains_ended f s =
     (let s = (if cc_chain_active s then reader_ccid_clear_xfr_response_chain s else s)
      in if f ! 0 \<noteq> 0x6F \<and> cc_cmd_chain_active s then reader_ccid_clear_xfr_command_chain s else s)"

lemma handle_bulk_eq:
  fixes f :: bytes and s :: "'w ccid"
  assumes s: "ccid_inv s" and f: "n \<le> length f" "n \<le> 2060"
  defines "t \<equiv> s\<lparr>cc_rsp := replicate 520 0\<rparr>"
  defines "fail \<equiv> \<lambda>err u. send_failed (f ! 0) (f ! 6) (reader_ccid_current_icc_level u) err (u :: 'w ccid)"
  shows "reader_ccid_handle_bulk svc (Some f) n s =
    (if n < 10 then Some t
     else if n \<noteq> 10 + frame_data_len f then fail 0x01 t
     else if f ! 5 \<noteq> 0 then Some (reply (absent_response (f ! 0) (f ! 5) (f ! 6) 0x05) t)
     else case header_error f of Some err \<Rightarrow> fail err t
     | None \<Rightarrow>
         if wants_continuation f
         then (if cc_chain_active t then reader_ccid_send_xfr_chain_chunk (f ! 6) t else fail 0x08 t)
         else if abort_blocks f t then fail 0xFF (chains_ended f t)
         else bulk_switch svc (Some f) n (f ! 6) (frame_data_len f) (chains_ended f t))"
proof -
  have w: "with_work (\<lambda>w. nero_nfc_zero_bytes w 520) s = Some t"
    using cleared_work [OF s] unfolding t_def by metis
  have v: "nfc_ccid_bulk_frame_validate (Some f) n = Some (if 10 \<le> n \<and> n = 10 + frame_data_len f
      then (True, frame_data_len f) else (False, 0))"
    using frame_validate_eq [OF f(1)] f(2) by auto
  note def = reader_ccid_handle_bulk_def [of svc "Some f" n s, unfolded w v bind.bind_lunit]
  consider (short) "n < 10" | (bad) "10 \<le> n" "n \<noteq> 10 + frame_data_len f" | (ok) "10 \<le> n" "n = 10 + frame_data_len f"
    by linarith
  then show ?thesis
  proof cases
    case short
    then show ?thesis unfolding def by simp
  next
    case bad
    have "rd (Some f) 0 = Some (f ! 0)" "rd (Some f) 6 = Some (f ! 6)" "nero_nfc_span_ok 0 10 n"
      using bad f by simp_all
    then show ?thesis unfolding def fail_def using bad by simp
  next
    case ok
    have rds: "rd (Some f) 0 = Some (f ! 0)" "rd (Some f) 5 = Some (f ! 5)"
        "nero_nfc_u8_at (Some f) n 6 = Some (f ! 6)" "nero_nfc_span_ok 5 1 n = True"
      using ok f by simp_all
    have tlen: "length (cc_rsp t) = 520" by (simp add: t_def)
    have absent: "(do {
         (rsp_len, work) \<leftarrow> reader_ccid_encode_slot_absent_response (Some (cc_rsp t)) 520 (f ! 0) (f ! 5) (f ! 6) 0x05;
         bs \<leftarrow> work;
         send_work rsp_len (t\<lparr>cc_rsp := bs\<rparr>) }) = Some (reply (absent_response (f ! 0) (f ! 5) (f ! 6) 0x05) t)"
      using tlen length_failed_le(2) [of "f ! 0" "f ! 5" "f ! 6" "0x05"] by (simp add: encode_absent_eq send_patched)
    have ab: "(case cc_abort u of None \<Rightarrow> False
        | Some (abort_slot, abort_seq) \<Rightarrow> True \<and> f ! 5 = abort_slot \<and> (f ! 0 \<noteq> 0x72 \<or> f ! 6 \<noteq> abort_seq)) =
        abort_blocks f u" for u :: "'w ccid"
      by (simp add: abort_blocks_def split: option.split)
    have ended: "abort_blocks f (chains_ended f t) = abort_blocks f t"
      by (simp add: abort_blocks_def chains_ended_def reader_ccid_clear_xfr_response_chain_def
          reader_ccid_clear_xfr_command_chain_def Let_def)
    have cond: "(10 \<le> n \<and> n = 10 + frame_data_len f) = True" "(n < 10) = False" "(n \<noteq> 10 + frame_data_len f) = False"
      using ok by simp_all
    show ?thesis
      unfolding def cond if_True if_False prod.case rds bind.bind_lunit absent header_error_eq [OF ok(1) f]
        continuation_eq [OF ok(2) f] ab Let_def fail_def
      unfolding chains_ended_def [unfolded Let_def, symmetric] ended
      by (simp only: HOL.simp_thms if_False if_True)
  qed
qed

lemma handled_chunk:
  assumes s: "ccid_inv s" "cc_chain_active s"
  shows "handled 0x6F q s (reader_ccid_send_xfr_chain_chunk q s)"
proof -
  have core: "ccid_core s" "\<not> cc_time_extension s" using s by (simp_all add: ccid_inv_def)
  have ch: "cc_chain_off s < cc_chain_len s" "cc_chain_len s \<le> 2050"
    using core s(2) by (simp_all add: ccid_core_def chain_ok_def)
  define r where "r = data_block q (chain_level s) (take 510 (chain_rest s))"
  define u where "u = (if cc_send_ok s (length (cc_sent s)) \<and> 510 < length (chain_rest s)
     then (reply r s)\<lparr>cc_chain_off := cc_chain_off s + 510\<rparr> else reader_ccid_clear_xfr_response_chain (reply r s))"
  have rest: "length (chain_rest s) = cc_chain_len s - cc_chain_off s"
    using core_sizes_only [OF core(1)] ch by (simp add: chain_rest_def ccid_sizes_def)
  have r: "good_response 0x6F 0 q r" "length r \<le> 520"
    by (simp_all add: r_def reader_ccid_response_msg_for_bulk_command_def)
  have "reader_ccid_send_xfr_chain_chunk q s = Some u"
    unfolding u_def r_def by (rule send_chunk_eq [OF core_sizes_only [OF core(1)] s(2) ch])
  moreover have "ccid_core u"
    using core_reply [OF core(1) r(2)] core_chain_off [OF core_reply [OF core(1) r(2)], of "cc_chain_off s + 510"] rest
    unfolding u_def by (auto simp: less_diff_conv add.commute)
  moreover have "\<not> cc_time_extension u" "cc_sent u = cc_sent s @ [r]" "slot_kept 0x6F s u"
    using core(2) by (simp_all add: u_def reader_ccid_clear_xfr_response_chain_def slot_kept_def)
  ultimately show ?thesis
    using answered_from [OF answered_reply [OF r(1), of s], of s u] by (simp add: handled_def ccid_inv_def)
qed

lemma chains_ended_inv:
  assumes "ccid_inv s"
  shows "ccid_inv (chains_ended f s)" "cc_sent (chains_ended f s) = cc_sent s"
    "slot_kept m s (chains_ended f s)"
  using assms
  by (auto simp: ccid_inv_def chains_ended_def Let_def)
    (simp_all add: reader_ccid_clear_xfr_response_chain_def reader_ccid_clear_xfr_command_chain_def slot_kept_def)

text \<open>The command a message is, if it is executed: 0 for one that is refused or continues a chain.\<close>

definition effective_command :: "bytes \<Rightarrow> 'w ccid \<Rightarrow> u8" where
  "effective_command f s =
     (if 10 \<le> length f \<and> length f = 10 + frame_data_len f \<and> f ! 5 = 0 \<and> header_error f = None \<and>
         \<not> wants_continuation f \<and> \<not> abort_blocks f s \<and> (f ! 0 = 0x62 \<longrightarrow> f ! 7 \<le> 3)
      then f ! 0 else 0)"

lemma handled_kept:
  "handled m q s x \<Longrightarrow> m \<noteq> 0x62 \<Longrightarrow> m \<noteq> 0x63 \<Longrightarrow>
    \<exists>s'. x = Some s' \<and> ccid_inv s' \<and> answered m 0 q s s' \<and> slot_kept 0 s s'"
  by (auto simp: handled_def slot_kept_def)

lemma failed_kept:
  assumes "ccid_inv t" and "cc_sent t = cc_sent s" and "slot_kept 0 s t"
  shows "\<exists>s'. send_failed m q l e t = Some s' \<and> ccid_inv s' \<and> answered m 0 q s s' \<and> slot_kept 0 s s'"
proof -
  have core: "ccid_core t" "\<not> cc_time_extension t" using assms(1) by (simp_all add: ccid_inv_def)
  define s' where "s' = reply (failed_response m q l e) t"
  have "send_failed m q l e t = Some s'"
    unfolding s'_def by (rule send_failed_eq [OF core_sizes(2) [OF core(1)]])
  moreover have "ccid_inv s'" using core length_failed_le by (simp add: s'_def ccid_inv_def)
  moreover have "answered m 0 q s s'"
    unfolding s'_def by (rule answered_from [OF answered_reply [OF good_failed]]) (simp_all add: assms(2))
  moreover have "slot_kept 0 s s'" using assms(3) unfolding s'_def slot_kept_def reply_fields .
  ultimately show ?thesis by blast
qed

text \<open>The switch, with what it does to the slot.\<close>

lemma switch_runs:
  assumes s: "ccid_inv s" and svc: "services_ok svc"
    and f: "n = 10 + frame_data_len f" "n \<le> length f" "n \<le> 2060"
  shows "\<exists>s'. bulk_switch svc (Some f) n q (frame_data_len f) s = Some s' \<and> ccid_inv s' \<and>
    answered (f ! 0) 0 q s s' \<and> slot_kept (if f ! 0 = 0x62 \<and> \<not> f ! 7 \<le> 3 then 0 else f ! 0) s s' \<and>
    (f ! 0 = 0x63 \<longrightarrow> \<not> cc_sess s')"
proof -
  have h: "handled (f ! 0) q s (bulk_switch svc (Some f) n q (frame_data_len f) s)"
    by (rule handled_switch [OF s svc f])
  have rds: "rd (Some f) 0 = Some (f ! 0)" "rd (Some f) 7 = Some (f ! 7)" using f by simp_all
  have core: "ccid_core s" "\<not> cc_time_extension s" "length (cc_rsp s) = 520"
    using s core_sizes(2) [of s] by (simp_all add: ccid_inv_def)
  consider "f ! 0 = 0x63" | "f ! 0 = 0x62" "\<not> f ! 7 \<le> 3" | "f ! 0 \<noteq> 0x63" "f ! 0 = 0x62 \<longrightarrow> f ! 7 \<le> 3" by blast
  then show ?thesis
  proof cases
    case 1
    have "bulk_switch svc (Some f) n q (frame_data_len f) s = bulk_icc_off svc q s"
      unfolding bulk_switch_def rds using 1 by simp
    then show ?thesis using h 1 bulk_icc_off_eq [OF core(3), of svc q] by (auto simp: handled_def)
  next
    case 2
    have "bulk_switch svc (Some f) n q (frame_data_len f) s = send_power_error q (0x40 OR 0x01) 0x07 s"
      unfolding bulk_switch_def rds using 2
      by (simp add: bulk_icc_on_def rds reader_ccid_power_select_error_def)
    also have "\<dots> = Some (reply (ccid_header 0x80 0 0 q (0x40 OR 0x01) 0x07 0) s)"
      by (rule send_power_error_eq [OF core(3)])
    finally have "bulk_switch svc (Some f) n q (frame_data_len f) s =
      Some (reply (ccid_header 0x80 0 0 q (0x40 OR 0x01) 0x07 0) s)" .
    then show ?thesis using h 2 by (auto simp: handled_def slot_kept_def)
  next
    case 3
    then show ?thesis using h by (auto simp: handled_def)
  qed
qed

lemma handle_bulk_runs:
  assumes "ccid_inv s" and "services_ok svc" and "n \<le> length f" and "n \<le> 2060"
  shows "\<exists>s'. reader_ccid_handle_bulk svc (Some f) n s = Some s' \<and> ccid_inv s' \<and>
    (if n < 10 then cc_sent s' = cc_sent s else answered (f ! 0) (answer_slot (take n f)) (f ! 6) s s') \<and>
    slot_kept (effective_command (take n f) s) s s' \<and>
    (effective_command (take n f) s = 0x63 \<longrightarrow> \<not> cc_sess s')"
proof -
  define t where "t = s\<lparr>cc_rsp := replicate 520 0\<rparr>"
  have t: "ccid_inv t" "cc_sent t = cc_sent s" "slot_kept m s t" "abort_blocks f t = abort_blocks f s" for m
    using assms(1) by (simp_all add: t_def ccid_inv_def slot_kept_def abort_blocks_def)
  define u where "u = chains_ended f t"
  have u: "ccid_inv u" "cc_sent u = cc_sent s" "slot_kept m s u" for m
    using chains_ended_inv [OF t(1)] t(2) slot_kept_trans [OF t(3)] by (simp_all add: u_def)
  note eq = handle_bulk_eq [OF assms(1,3,4), of svc, folded t_def, folded u_def]
  have slot: "answer_slot (take n f) = (if n = 10 + frame_data_len f then f ! 5 else 0)" if "10 \<le> n"
    using that assms(3) by (simp add: answer_slot_def frame_data_len_take)
  have fields: "take n f ! 0 = f ! 0" "take n f ! 5 = f ! 5" "take n f ! 6 = f ! 6" "take n f ! 7 = f ! 7"
      "take n f ! 8 = f ! 8" "take n f ! 9 = f ! 9" "frame_data_len (take n f) = frame_data_len f"
      "length (take n f) = n"
    if "10 \<le> n" using that assms(3) by (simp_all add: frame_data_len_take)
  have cmd: "effective_command (take n f) s =
     (if n = 10 + frame_data_len f \<and> f ! 5 = 0 \<and> header_error f = None \<and>
         \<not> wants_continuation f \<and> \<not> abort_blocks f s \<and> (f ! 0 = 0x62 \<longrightarrow> f ! 7 \<le> 3)
      then f ! 0 else 0)" if "10 \<le> n"
    unfolding effective_command_def header_error_def wants_continuation_def abort_blocks_def fields [OF that]
    using that by simp
  have fail: "\<exists>s'. send_failed (f ! 0) (f ! 6) l e v = Some s' \<and> ccid_inv s' \<and>
      answered (f ! 0) 0 (f ! 6) s s' \<and> slot_kept 0 s s'" if "v = t \<or> v = u" for l e v
    using that failed_kept [OF t(1,2,3)] failed_kept [OF u(1,2,3)] by blast
  consider (short) "n < 10" | (bad) "10 \<le> n" "n \<noteq> 10 + frame_data_len f"
    | (absent) "10 \<le> n" "n = 10 + frame_data_len f" "f ! 5 \<noteq> 0"
    | (refused) "10 \<le> n" "n = 10 + frame_data_len f" "f ! 5 = 0"
        "header_error f \<noteq> None \<or> wants_continuation f \<or> abort_blocks f s"
    | (ok) "10 \<le> n" "n = 10 + frame_data_len f" "f ! 5 = 0"
        "header_error f = None" "\<not> wants_continuation f" "\<not> abort_blocks f s" by linarith
  then show ?thesis
  proof cases
    case short
    then have "effective_command (take n f) s = 0" by (simp add: effective_command_def)
    then show ?thesis unfolding eq using t(1,2) t(3) [of 0] short by simp
  next
    case bad
    then have "effective_command (take n f) s = 0" using cmd by simp
    then show ?thesis unfolding eq using fail [of t] slot bad by simp
  next
    case absent
    define r where "r = absent_response (f ! 0) (f ! 5) (f ! 6) 0x05"
    have "ccid_inv (reply r t)" using t(1) length_failed_le by (simp add: ccid_inv_def r_def)
    moreover have "answered (f ! 0) (f ! 5) (f ! 6) s (reply r t)"
      unfolding r_def by (rule answered_from [OF answered_reply [OF good_absent]]) (simp_all add: t(2))
    moreover have "slot_kept 0 s (reply r t)" using t(3) [of 0] by (simp add: slot_kept_def)
    moreover have "effective_command (take n f) s = 0" using cmd absent by simp
    ultimately show ?thesis unfolding eq r_def using absent slot by simp
  next
    case refused
    have "\<exists>s'. reader_ccid_send_xfr_chain_chunk (f ! 6) t = Some s' \<and> ccid_inv s' \<and>
        answered (f ! 0) 0 (f ! 6) s s' \<and> slot_kept 0 s s'"
      if "wants_continuation f" "cc_chain_active t"
    proof -
      have "f ! 0 = 0x6F" using that(1) by (simp add: wants_continuation_def)
      then show ?thesis
        using handled_kept [OF handled_from [OF handled_chunk [OF t(1) that(2)] t(2,3)]] by simp
    qed
    moreover have "effective_command (take n f) s = 0" using cmd refused by auto
    ultimately show ?thesis unfolding eq using refused fail slot t(4)
      by (cases "header_error f") (auto simp del: slot_kept_refl)
  next
    case ok
    have "\<exists>s'. bulk_switch svc (Some f) n (f ! 6) (frame_data_len f) u = Some s' \<and> ccid_inv s' \<and>
       answered (f ! 0) 0 (f ! 6) u s' \<and> slot_kept (effective_command (take n f) s) u s' \<and>
       (f ! 0 = 0x63 \<longrightarrow> \<not> cc_sess s')"
      using switch_runs [OF u(1) assms(2) ok(2) assms(3,4), of "f ! 6"] cmd ok by auto
    then obtain s' where r: "bulk_switch svc (Some f) n (f ! 6) (frame_data_len f) u = Some s'" "ccid_inv s'"
       "answered (f ! 0) 0 (f ! 6) s s'" "slot_kept (effective_command (take n f) s) s s'"
       "f ! 0 = 0x63 \<longrightarrow> \<not> cc_sess s'"
      using answered_from [OF _ u(2) [symmetric] refl] slot_kept_trans [OF u(3)] by blast
    have "reader_ccid_handle_bulk svc (Some f) n s = Some s'" unfolding eq using ok t(4) r(1) by simp
    then show ?thesis using r cmd ok slot by auto
  qed
qed

text \<open>
  C1: the reader answers every message. Whatever the host sends, in every state of the
  invariant and whatever the card does inside its contract: handling a received message
  faults nowhere and keeps the invariant; a message shorter than a header is dropped; any
  other gets exactly one answer, preceded at most by time-extension requests with its
  sequence number. The answer is a well-formed CCID message of at most 520 bytes, of the
  response type that belongs to the command, with the sequence number of the command.
\<close>

theorem handle_bulk_answers:
  assumes "ccid_inv s" and "services_ok svc" and "n \<le> length f" and "n \<le> 2060"
  shows "\<exists>s'. reader_ccid_handle_bulk svc (Some f) n s = Some s' \<and> ccid_inv s' \<and>
    (if n < 10 then cc_sent s' = cc_sent s
     else answered (f ! 0) (answer_slot (take n f)) (f ! 6) s s')"
  using handle_bulk_runs [OF assms] by blast

text \<open>A concrete card side: it selects any tag and answers every APDU with 90 00.\<close>

definition sample_services :: "unit card_services" where
  "sample_services = \<lparr>svc_release_iso = (\<lambda>_. ()), svc_open_iso = (\<lambda>_. (True, ())),
     svc_copy_atr = (\<lambda>_ d cap. Some (True, map_option (\<lambda>bs. patch bs 0 (take cap (take (length bs) [0x3B, 0x80]))) d,
       min cap 2, ())),
     svc_prepare_tag = (\<lambda>_ _. (True, ())),
     svc_dispatch = (\<lambda>_ _ d cap s. Some (min cap 2,
       map_option (\<lambda>bs. patch bs 0 (take cap (take (length bs) [0x90, 0x00]))) d, s))\<rparr>"

lemma effect_refl: "exchange_effect s s"
  unfolding exchange_effect_def
  by (rule exI [of _ "cc_type4_security_key_app s"], rule exI [of _ "cc_remove_deferred s"],
      rule exI [of _ "cc_remove_defer_until_ms s"], rule exI [of _ 0], rule exI [of _ "cc_inbox s"],
      rule exI [of _ "cc_abort s"], rule exI [of _ "cc_now s"], rule exI [of _ "cc_card s"]) simp

lemma sample_services_ok: "services_ok sample_services"
  unfolding services_ok_def sample_services_def
  by (auto simp: effect_refl)

definition boot_state :: "(nat \<Rightarrow> bool) \<Rightarrow> 'w \<Rightarrow> 'w ccid" where
  "boot_state ok w = reader_ccid_context_reset \<lparr>
     cc_sess = False, cc_card_present = False, cc_iso_session_open = False,
     cc_type4_security_key_app = False, cc_remove_deferred = False, cc_remove_defer_until_ms = 0,
     cc_tag_kind = TAG_KIND_NONE, cc_protocol_num = 0, cc_apdu_rsp = [], cc_time_extension_seq = 0,
     cc_frame = [], cc_rsp = [], cc_chain_buf = [], cc_chain_len = 0, cc_chain_off = 0,
     cc_chain_active = False, cc_cmd_chain_buf = [], cc_cmd_chain_len = 0, cc_cmd_chain_active = False,
     cc_inbox = None, cc_sent = [], cc_send_ok = ok, cc_abort = None, cc_now = 0,
     cc_owner = NFC_SESSION_OWNER_NONE, cc_slot_events = [], cc_time_extension = False, cc_card = w\<rparr>"

lemma boot_inv: "ccid_inv (boot_state ok w)"
  by (simp add: boot_state_def reader_ccid_context_reset_def ccid_inv_def ccid_core_def ccid_sizes_def chain_ok_def)

theorem handle_bulk_answers_witness:
  "\<exists>s'. reader_ccid_handle_bulk sample_services (Some (ccid_header 0x62 0 0 9 0 0 0)) 10 (boot_state (\<lambda>_. True) ()) = Some s' \<and>
     ccid_inv s' \<and> answered 0x62 0 9 (boot_state (\<lambda>_. True) ()) s'"
  using handle_bulk_answers [OF boot_inv sample_services_ok, of 10 "ccid_header 0x62 0 0 9 0 0 0" "\<lambda>_. True" "()"]
  by (simp add: answer_slot_def)

section \<open>Card events, the poll, and any sequence of them\<close>

lemma removal_fields:
  fixes s :: "'w ccid" and svc :: "'w card_services"
  defines "r \<equiv> reader_ccid_complete_card_removal svc s"
  shows "\<not> cc_sess r" "\<not> cc_card_present r" "\<not> cc_remove_deferred r" "\<not> cc_iso_session_open r"
    "\<not> cc_type4_security_key_app r" "\<not> cc_chain_active r" "\<not> cc_cmd_chain_active r" "\<not> cc_time_extension r"
    "cc_owner r = NFC_SESSION_OWNER_NONE" "cc_tag_kind r = TAG_KIND_NONE" "cc_inbox r = cc_inbox s"
    "cc_abort r = cc_abort s" "cc_sent r = cc_sent s"
    "cc_slot_events r = cc_slot_events s @ (if cc_card_present s then [False] else [])"
  by (simp_all add: r_def reader_ccid_complete_card_removal_def Let_def)

lemma removal_inv:
  assumes "ccid_inv s"
  shows "ccid_inv (reader_ccid_complete_card_removal svc s)"
proof -
  define r where "r = reader_ccid_complete_card_removal svc s"
  have "ccid_sizes r" "chain_ok r" "cc_cmd_chain_len r \<le> 2050"
    using assms
    by (simp_all add: r_def ccid_inv_def ccid_core_def ccid_sizes_def chain_ok_def reader_ccid_complete_card_removal_def
        reader_ccid_teardown_session_def Let_def reader_ccid_clear_xfr_response_chain_def
        reader_ccid_clear_xfr_command_chain_def)
  then show ?thesis
    using removal_fields [of svc s] by (simp add: r_def [symmetric] ccid_inv_def ccid_core_def)
qed

datatype ccid_event =
  Poll
| Card_detected tag_kind
| Card_removed
| Frame_arrives bytes
| Abort_requested u8 u8
| Clock "32 word"

text \<open>
  One event. A frame arrives only when the last one has been taken: the driver keeps
  reception off until then.
\<close>

fun event_step :: "'w card_services \<Rightarrow> ccid_event \<Rightarrow> 'w ccid \<Rightarrow> 'w ccid option" where
  "event_step svc Poll s = reader_ccid_poll svc s"
| "event_step svc (Card_detected k) s = Some (reader_ccid_on_tag_detected svc k s)"
| "event_step svc Card_removed s = Some (reader_ccid_on_tag_removed_from_field svc s)"
| "event_step svc (Frame_arrives p) s = Some (if cc_inbox s = None then s\<lparr>cc_inbox := Some p\<rparr> else s)"
| "event_step svc (Abort_requested slot q) s = Some (s\<lparr>cc_abort := Some (slot, q)\<rparr>)"
| "event_step svc (Clock t) s = Some (s\<lparr>cc_now := t\<rparr>)"

fun event_run :: "'w card_services \<Rightarrow> ccid_event list \<Rightarrow> 'w ccid \<Rightarrow> 'w ccid option" where
  "event_run svc [] s = Some s"
| "event_run svc (e # es) s = event_step svc e s \<bind> event_run svc es"

text \<open>The slot as the host knows it, and what may happen to it.\<close>

datatype slot_state = Slot_absent | Slot_inactive | Slot_active

datatype slot_cause = Insert | Remove | Power_on | Power_off | Other

definition slot_of :: "'w ccid \<Rightarrow> slot_state" where
  "slot_of s = (if \<not> cc_card_present s then Slot_absent else if cc_sess s then Slot_active else Slot_inactive)"

fun slot_spec :: "slot_cause \<Rightarrow> slot_state \<Rightarrow> slot_state set" where
  "slot_spec Insert x = {if x = Slot_absent then Slot_inactive else x}"
| "slot_spec Remove x = {Slot_absent}"
| "slot_spec Power_on x = (if x = Slot_absent then {Slot_absent} else {Slot_inactive, Slot_active})"
| "slot_spec Power_off x = {if x = Slot_absent then Slot_absent else Slot_inactive}"
| "slot_spec Other x = {x}"

fun slot_run :: "slot_cause list \<Rightarrow> slot_state \<Rightarrow> slot_state set" where
  "slot_run [] x = {x}"
| "slot_run (c # cs) x = (\<Union>y \<in> slot_spec c x. slot_run cs y)"

text \<open>The insertions and removals the host is told of.\<close>

fun slot_notices :: "slot_cause list \<Rightarrow> bool \<Rightarrow> bool list" where
  "slot_notices [] present = []"
| "slot_notices (c # cs) present =
     (if c = Insert \<and> \<not> present then True # slot_notices cs True
      else if c = Remove \<and> present then False # slot_notices cs False
      else slot_notices cs present)"

definition command_cause :: "u8 \<Rightarrow> slot_cause" where
  "command_cause m = (if m = 0x62 then Power_on else if m = 0x63 then Power_off else Other)"

lemma command_cause_neq [simp]: "command_cause m \<noteq> Insert" "command_cause m \<noteq> Remove"
  by (simp_all add: command_cause_def)

text \<open>What each event means for the slot.\<close>

fun event_causes :: "ccid_event \<Rightarrow> 'w ccid \<Rightarrow> slot_cause list" where
  "event_causes Poll s = (if cc_remove_deferred s then [Remove] else []) @
     (case cc_inbox s of None \<Rightarrow> []
      | Some p \<Rightarrow> [command_cause (effective_command (take 2060 p) s)])"
| "event_causes (Card_detected k) s = (if cc_remove_deferred s then [Remove] else []) @ [Insert]"
| "event_causes Card_removed s =
     (if cc_card_present s \<and> (cc_sess s \<or> reader_ccid_deadline_elapsed (cc_remove_defer_until_ms s) s)
      then [Remove] else [])"
| "event_causes _ s = []"

lemma slot_of_removal [simp]: "slot_of (reader_ccid_complete_card_removal svc s) = Slot_absent"
  by (simp add: slot_of_def removal_fields)

lemma slot_of_absent: "ccid_inv s \<Longrightarrow> slot_of s = Slot_absent \<longleftrightarrow> \<not> cc_card_present s"
  by (simp add: slot_of_def)

lemma slot_of_command:
  assumes "ccid_inv s'" and "slot_kept m s s'" and "m = 0x63 \<longrightarrow> \<not> cc_sess s'"
  shows "slot_of s' \<in> slot_spec (command_cause m) (slot_of s)"
  using assms by (auto simp: slot_of_def slot_kept_def command_cause_def ccid_inv_def ccid_core_def)

text \<open>The poll: a pending removal first, then the received frame.\<close>

definition after_removal :: "'w card_services \<Rightarrow> 'w ccid \<Rightarrow> 'w ccid" where
  "after_removal svc s = (if cc_remove_deferred s then reader_ccid_complete_card_removal svc s else s)"

lemma after_removal_inv:
  assumes "ccid_inv s"
  shows "ccid_inv (after_removal svc s)" "cc_inbox (after_removal svc s) = cc_inbox s"
    "cc_abort (after_removal svc s) = cc_abort s" "cc_sent (after_removal svc s) = cc_sent s"
    "\<not> cc_remove_deferred (after_removal svc s)"
    "slot_of (after_removal svc s) = (if cc_remove_deferred s then Slot_absent else slot_of s)"
    "cc_slot_events (after_removal svc s) = cc_slot_events s @ (if cc_remove_deferred s then [False] else [])"
    "cc_card_present (after_removal svc s) = (cc_card_present s \<and> \<not> cc_remove_deferred s)"
  using assms removal_inv [OF assms]
  by (auto simp: after_removal_def removal_fields ccid_inv_def ccid_core_def)

lemma poll_eq:
  assumes "ccid_inv s"
  shows "reader_ccid_poll svc s = (let s = after_removal svc s in case cc_inbox s of None \<Rightarrow> Some s
     | Some p \<Rightarrow> reader_ccid_handle_bulk svc (Some (patch (cc_frame s) 0 (take 2060 p))) (length (take 2060 p))
                   (s\<lparr>cc_frame := patch (cc_frame s) 0 (take 2060 p), cc_inbox := None\<rparr>))"
proof -
  have t: "(if cc_remove_deferred s \<and> (\<not> cc_sess s \<or> reader_ccid_deadline_elapsed (cc_remove_defer_until_ms s) s)
      then reader_ccid_complete_card_removal svc s else s) = after_removal svc s"
    using assms by (auto simp: after_removal_def ccid_inv_def ccid_core_def)
  define t where "t = after_removal svc s"
  have fr: "length (cc_frame t) = 2060"
    using after_removal_inv(1) [OF assms, of svc] by (simp add: t_def ccid_inv_def ccid_core_def ccid_sizes_def)
  have len: "(if length p < 2060 then length p else 2060) = length (take 2060 p)" for p :: bytes
    by simp
  have copy: "(if length (take 2060 p) \<noteq> 0
      then nero_nfc_copy_bytes (Some (cc_frame t)) 2060 0 (Some p) (length (take 2060 p))
      else Some (True, Some (cc_frame t))) = Some (True, Some (patch (cc_frame t) 0 (take 2060 p)))" for p
  proof (cases "p = []")
    case True
    then show ?thesis by simp
  next
    case False
    have "nero_nfc_copy_bytes (Some (cc_frame t)) 2060 0 (Some p) (length (take 2060 p)) =
        Some (True, Some (patch (cc_frame t) 0 (take (length (take 2060 p)) p)))"
      by (rule copy_bytes_ok) (use fr in simp_all)
    then show ?thesis using False by (simp add: min_def)
  qed
  show ?thesis
    unfolding reader_ccid_poll_def t t_def [symmetric] Let_def len copy
    by (cases "cc_inbox t") simp_all
qed

lemma detected_runs:
  assumes "ccid_inv s"
  shows "ccid_inv (reader_ccid_on_tag_detected svc k s)"
    "slot_of (reader_ccid_on_tag_detected svc k s) \<in> slot_run (event_causes (Card_detected k) s) (slot_of s)"
    "cc_slot_events (reader_ccid_on_tag_detected svc k s) =
      cc_slot_events s @ slot_notices (event_causes (Card_detected k) s) (cc_card_present s)"
proof -
  define t where "t = (after_removal svc s)\<lparr>cc_chain_active := False, cc_chain_len := 0, cc_chain_off := 0,
    cc_remove_deferred := False, cc_tag_kind := k, cc_type4_security_key_app := False,
    cc_protocol_num := nfc_pcsc_protocol_for_tag k\<rparr>"
  note r = after_removal_inv [OF assms, of svc]
  have d: "reader_ccid_on_tag_detected svc k s = (if cc_card_present t then t
      else t\<lparr>cc_card_present := True, cc_slot_events := cc_slot_events t @ [True]\<rparr>)"
    by (simp add: reader_ccid_on_tag_detected_def after_removal_def t_def Let_def
        reader_ccid_clear_xfr_response_chain_def)
  have inv: "ccid_inv t"
    using r(1) by (simp add: t_def ccid_inv_def ccid_core_def ccid_sizes_def chain_ok_def)
  have same: "slot_of t = slot_of (after_removal svc s)" by (simp add: t_def slot_of_def)
  have t: "cc_card_present t = (cc_card_present s \<and> \<not> cc_remove_deferred s)"
      "cc_slot_events t = cc_slot_events s @ (if cc_remove_deferred s then [False] else [])"
      "slot_of t = (if cc_remove_deferred s then Slot_absent else slot_of s)"
    using r same by (simp_all add: t_def)
  have sess: "cc_sess t \<longrightarrow> cc_card_present t" using inv by (simp add: ccid_inv_def ccid_core_def)
  have pend: "cc_remove_deferred s \<longrightarrow> cc_card_present s" using assms by (simp add: ccid_inv_def ccid_core_def)
  show "ccid_inv (reader_ccid_on_tag_detected svc k s)"
    unfolding d using inv by (simp add: ccid_inv_def ccid_core_def ccid_sizes_def chain_ok_def)
  show "slot_of (reader_ccid_on_tag_detected svc k s) \<in> slot_run (event_causes (Card_detected k) s) (slot_of s)"
    unfolding d using t(3) sess by (auto simp: slot_of_def split: if_splits)
  show "cc_slot_events (reader_ccid_on_tag_detected svc k s) =
      cc_slot_events s @ slot_notices (event_causes (Card_detected k) s) (cc_card_present s)"
    unfolding d using t(1,2) pend by simp
qed

lemma removed_runs:
  assumes "ccid_inv s"
  shows "ccid_inv (reader_ccid_on_tag_removed_from_field svc s)"
    "slot_of (reader_ccid_on_tag_removed_from_field svc s) \<in> slot_run (event_causes Card_removed s) (slot_of s)"
    "cc_slot_events (reader_ccid_on_tag_removed_from_field svc s) =
      cc_slot_events s @ slot_notices (event_causes Card_removed s) (cc_card_present s)"
proof -
  define deferred where "deferred \<longleftrightarrow> cc_card_present s \<and> \<not> cc_sess s \<and>
    \<not> reader_ccid_deadline_elapsed (cc_remove_defer_until_ms s) s"
  have d: "reader_ccid_on_tag_removed_from_field svc s = (if \<not> cc_card_present s then s
      else if deferred then s\<lparr>cc_remove_deferred := True\<rparr> else reader_ccid_complete_card_removal svc s)"
    by (simp add: reader_ccid_on_tag_removed_from_field_def deferred_def)
  have c: "event_causes Card_removed s = (if cc_card_present s \<and> \<not> deferred then [Remove] else [])"
    by (auto simp: deferred_def)
  have "ccid_inv (s\<lparr>cc_remove_deferred := True\<rparr>)" if deferred
    using assms that by (simp add: deferred_def ccid_inv_def ccid_core_def ccid_sizes_def chain_ok_def)
  then show "ccid_inv (reader_ccid_on_tag_removed_from_field svc s)"
    unfolding d using assms removal_inv [OF assms] by simp
  show "slot_of (reader_ccid_on_tag_removed_from_field svc s) \<in> slot_run (event_causes Card_removed s) (slot_of s)"
    unfolding c d by (simp add: slot_of_def removal_fields)
  show "cc_slot_events (reader_ccid_on_tag_removed_from_field svc s) =
      cc_slot_events s @ slot_notices (event_causes Card_removed s) (cc_card_present s)"
    unfolding c d by (simp add: removal_fields)
qed

lemma poll_runs:
  assumes "ccid_inv s" and "services_ok svc"
  shows "\<exists>s'. reader_ccid_poll svc s = Some s' \<and> ccid_inv s' \<and>
    slot_of s' \<in> slot_run (event_causes Poll s) (slot_of s) \<and>
    cc_slot_events s' = cc_slot_events s @ slot_notices (event_causes Poll s) (cc_card_present s)"
proof -
  define t where "t = after_removal svc s"
  note t = after_removal_inv [OF assms(1), of svc, folded t_def]
  have pend: "cc_remove_deferred s \<longrightarrow> cc_card_present s" using assms(1) by (simp add: ccid_inv_def ccid_core_def)
  show ?thesis
  proof (cases "cc_inbox s")
    case None
    then have "reader_ccid_poll svc s = Some t" using poll_eq [OF assms(1)] t(2) by (simp add: t_def Let_def)
    then show ?thesis using t(1,6,7) None pend by (auto simp: t(6))
  next
    case (Some p)
    define f where "f = patch (cc_frame t) 0 (take 2060 p)"
    define n where "n = length (take 2060 p)"
    define u where "u = t\<lparr>cc_frame := f, cc_inbox := None\<rparr>"
    have fr: "length (cc_frame t) = 2060" using t(1) by (simp add: ccid_inv_def ccid_core_def ccid_sizes_def)
    have n: "n \<le> 2060" by (simp add: n_def)
    have f: "length f = 2060" "n \<le> 2060" "n \<le> length f" "take n f = take 2060 p"
      using fr n take_patch_front [of "take 2060 p" "cc_frame t"] by (simp_all add: f_def n_def)
    have u: "ccid_inv u" "slot_of u = slot_of t" "cc_slot_events u = cc_slot_events t" "cc_abort u = cc_abort s"
        "cc_card_present u = cc_card_present t"
      using t(1,3) f(1) by (simp_all add: u_def ccid_inv_def slot_of_def)
    have c: "effective_command (take n f) u = effective_command (take 2060 p) s"
      by (simp add: f(4) effective_command_def abort_blocks_def u(4))
    have eq: "reader_ccid_poll svc s = reader_ccid_handle_bulk svc (Some f) n u"
      using poll_eq [OF assms(1), of svc] t(2) Some by (simp add: t_def [symmetric] Let_def f_def n_def u_def del: length_take)
    obtain s' where s': "reader_ccid_handle_bulk svc (Some f) n u = Some s'" "ccid_inv s'"
        "slot_kept (effective_command (take 2060 p) s) u s'"
        "effective_command (take 2060 p) s = 0x63 \<longrightarrow> \<not> cc_sess s'"
      using handle_bulk_runs [OF u(1) assms(2) f(3,2)] c by auto
    have "slot_of s' \<in> slot_spec (command_cause (effective_command (take 2060 p) s)) (slot_of u)"
      by (rule slot_of_command [OF s'(2-4)])
    then have "slot_of s' \<in> slot_run (event_causes Poll s) (slot_of s)"
      using Some u(2) t(6) by (cases "cc_remove_deferred s") simp_all
    moreover have "cc_slot_events s' = cc_slot_events s @ slot_notices (event_causes Poll s) (cc_card_present s)"
      using s'(3) u(3) t(7) Some pend by (simp add: slot_kept_def command_cause_def)
    ultimately show ?thesis using eq s'(1,2) by auto
  qed
qed

lemma event_runs:
  assumes "ccid_inv s" and "services_ok svc"
  shows "\<exists>s'. event_step svc e s = Some s' \<and> ccid_inv s' \<and>
    slot_of s' \<in> slot_run (event_causes e s) (slot_of s) \<and>
    cc_slot_events s' = cc_slot_events s @ slot_notices (event_causes e s) (cc_card_present s)"
proof (cases e)
  case Poll
  then show ?thesis using poll_runs [OF assms] by simp
next
  case (Card_detected k)
  then show ?thesis using detected_runs [OF assms(1), of svc k] by simp
next
  case Card_removed
  then show ?thesis using removed_runs [OF assms(1), of svc] by simp
qed (use assms(1) in \<open>simp_all add: ccid_inv_def slot_of_def\<close>)

text \<open>
  C3: the slot state refines the slot automaton of the CCID interface. Every event of the
  reader, in every state of the invariant, has an outcome, and takes the slot along the
  transitions its causes allow: a card is inserted and removed only by the card events, a
  session opens only on an accepted power-on of a present card and closes only on a power
  command or with the removal of the card. The host is notified of exactly the insertions
  and removals that take place.
\<close>

theorem slot_refines:
  assumes "ccid_inv s" and "services_ok svc"
  shows "\<exists>s'. event_step svc e s = Some s' \<and>
    slot_of s' \<in> slot_run (event_causes e s) (slot_of s) \<and>
    cc_slot_events s' = cc_slot_events s @ slot_notices (event_causes e s) (cc_card_present s)"
  using event_runs [OF assms] by blast

theorem slot_refines_witness:
  "\<exists>s'. event_step sample_services (Card_detected TAG_KIND_TYPE4) (boot_state (\<lambda>_. True) ()) = Some s' \<and>
     slot_of s' = Slot_inactive \<and> cc_slot_events s' = [True]"
proof -
  have "\<not> cc_card_present (boot_state (\<lambda>_. True) ())" "\<not> cc_remove_deferred (boot_state (\<lambda>_. True) ())"
      "cc_slot_events (boot_state (\<lambda>_. True) ()) = []"
    by (simp_all add: boot_state_def reader_ccid_context_reset_def)
  then show ?thesis
    using slot_refines [OF boot_inv sample_services_ok, of "Card_detected TAG_KIND_TYPE4" "\<lambda>_. True" "()"]
    by (auto simp: slot_of_def)
qed

text \<open>Insertions and removals alternate, and the last one tells whether a card is present.\<close>

definition notices_ok :: "'w ccid \<Rightarrow> bool" where
  "notices_ok s \<longleftrightarrow> cc_slot_events s = map even [0..<length (cc_slot_events s)] \<and>
     cc_card_present s = odd (length (cc_slot_events s))"

lemma notices_extend:
  "xs = map even [0..<length xs] \<Longrightarrow> p = odd (length xs) \<Longrightarrow> ys = slot_notices cs p \<Longrightarrow>
    xs @ ys = map even [0..<length (xs @ ys)]"
proof (induction cs arbitrary: xs ys p)
  case Nil
  then show ?case by simp
next
  case (Cons c cs)
  have ext: "(xs @ [b]) = map even [0..<length (xs @ [b])]" if "b = even (length xs)" for b
  proof -
    have "map even [0..<length (xs @ [b])] = map even [0..<length xs] @ [b]" using that by simp
    then show ?thesis using Cons.prems(1) by argo
  qed
  consider "c = Insert" "\<not> p" "ys = True # slot_notices cs True" | "c = Remove" "p" "ys = False # slot_notices cs False"
    | "ys = slot_notices cs p"
    using Cons.prems(3) by (auto split: if_splits)
  then show ?case
  proof cases
    case 1
    then show ?thesis
      using Cons.IH [OF ext [of True], of True "slot_notices cs True"] Cons.prems(2) by simp
  next
    case 2
    then show ?thesis
      using Cons.IH [OF ext [of False], of False "slot_notices cs False"] Cons.prems(2) by simp
  next
    case 3
    then show ?thesis using Cons.IH [OF Cons.prems(1,2)] by simp
  qed
qed

lemma slot_run_parity:
  "y \<in> slot_run cs x \<Longrightarrow>
    (y \<noteq> Slot_absent) = (odd (length (slot_notices cs (x \<noteq> Slot_absent))) \<noteq> (x \<noteq> Slot_absent))"
proof (induction cs arbitrary: x)
  case Nil
  then show ?case by simp
next
  case (Cons c cs)
  then obtain z where z: "z \<in> slot_spec c x" "y \<in> slot_run cs z" by auto
  then show ?case using Cons.IH [OF z(2)] by (cases c; cases x; auto)
qed

lemma event_notices:
  assumes "ccid_inv s" and "services_ok svc" and "notices_ok s" and "event_step svc e s = Some s'"
  shows "notices_ok s'"
proof -
  have r: "ccid_inv s'" "slot_of s' \<in> slot_run (event_causes e s) (slot_of s)"
      "cc_slot_events s' = cc_slot_events s @ slot_notices (event_causes e s) (cc_card_present s)"
    using event_runs [OF assms(1,2), of e] assms(4) by auto
  have p: "(slot_of u \<noteq> Slot_absent) = cc_card_present u" for u :: "'a ccid" by (simp add: slot_of_def)
  have n: "cc_slot_events s = map even [0..<length (cc_slot_events s)]" "cc_card_present s = odd (length (cc_slot_events s))"
    using assms(3) unfolding notices_ok_def by blast+
  have "cc_slot_events s' = map even [0..<length (cc_slot_events s')]"
    unfolding r(3) by (rule notices_extend [OF n refl])
  moreover have "cc_card_present s' = odd (length (cc_slot_events s'))"
    using slot_run_parity [OF r(2)] n(2) unfolding p r(3) length_append by auto
  ultimately show ?thesis unfolding notices_ok_def by blast
qed

text \<open>
  C2: the reader serves any history. From power-up, after any sequence of card detections and
  removals, received messages of any content, abort requests and clock readings, with any
  sends failing, no operation faults; the context satisfies the invariant (sizes, chain
  bounds, a session only with a card present, a pending removal only without a session, the
  session owner in step with the session); and the slot changes the host was told of
  alternate and end with the state of the card.
\<close>

theorem ccid_run_safe:
  assumes "services_ok svc"
  shows "\<exists>s. event_run svc es (boot_state ok w) = Some s \<and> ccid_inv s \<and> notices_ok s"
proof -
  have run: "ccid_inv t \<and> notices_ok t \<Longrightarrow> \<exists>s. event_run svc es t = Some s \<and> ccid_inv s \<and> notices_ok s" for t :: "'a ccid"
  proof (induction es arbitrary: t)
    case Nil
    then show ?case by simp
  next
    case (Cons e es)
    obtain u where u: "event_step svc e t = Some u" "ccid_inv u"
      using event_runs [OF conjunct1 [OF Cons.prems] assms, of e] by blast
    have "notices_ok u" using event_notices [OF _ assms _ u(1)] Cons.prems by blast
    then show ?case using Cons.IH [of u] u by simp
  qed
  have "cc_slot_events (boot_state ok w) = []" "\<not> cc_card_present (boot_state ok w)"
    by (simp_all add: boot_state_def reader_ccid_context_reset_def)
  then have "notices_ok (boot_state ok w)" unfolding notices_ok_def by simp
  then show ?thesis by (intro run conjI boot_inv)
qed

theorem ccid_run_safe_witness:
  "\<exists>s. event_run sample_services [Card_detected TAG_KIND_TYPE4, Frame_arrives (ccid_header 0x62 0 0 7 0 0 0), Poll,
      Card_removed] (boot_state (\<lambda>_. True) ()) = Some s \<and> ccid_inv s \<and> notices_ok s"
  using ccid_run_safe [OF sample_services_ok] .

text \<open>
  C7: a removal is never held back. The code defers a removal that happens shortly after host
  activity, to let a card that comes back keep its place; but the deferral is only taken
  without a session, and without a session the poll completes it at once: in every state of
  the invariant, the first poll after a deferred removal reports the card removed, whatever
  the deadline and the clock say.
\<close>

theorem deferral_never_waits:
  assumes "ccid_inv s" and "services_ok svc" and "cc_card_present s"
    and "event_run svc [Card_removed, Clock t, Poll] s = Some s'"
  shows "\<not> cc_card_present s' \<and> cc_slot_events s' = cc_slot_events s @ [False]"
proof -
  define r where "r = reader_ccid_on_tag_removed_from_field svc s"
  have r: "ccid_inv r" using removed_runs(1) [OF assms(1)] by (simp add: r_def)
  define u where "u = r\<lparr>cc_now := t\<rparr>"
  have u: "ccid_inv u" "cc_card_present u = cc_card_present r" "cc_slot_events u = cc_slot_events r"
      "cc_remove_deferred u = cc_remove_deferred r" "slot_of u = slot_of r"
    using r by (simp_all add: u_def ccid_inv_def slot_of_def)
  have "event_run svc [Poll] u = Some s'" using assms(4) by (simp add: r_def u_def)
  then have step: "event_step svc Poll u = Some s'" by (cases "event_step svc Poll u") simp_all
  note p = event_runs [OF u(1) assms(2), of Poll, unfolded step]
  have two: "cc_remove_deferred r \<and> cc_card_present r \<and> cc_slot_events r = cc_slot_events s \<or>
      \<not> cc_remove_deferred r \<and> \<not> cc_card_present r \<and> cc_slot_events r = cc_slot_events s @ [False]"
    using assms(3) by (auto simp: r_def reader_ccid_on_tag_removed_from_field_def removal_fields)
  have absent: "x \<in> slot_spec (command_cause m) Slot_absent \<Longrightarrow> x = Slot_absent" for x m
    by (auto simp: command_cause_def split: if_splits)
  have "slot_of s' = Slot_absent"
    using p two by (cases "cc_inbox u") (auto simp: u slot_of_def dest: absent split: if_splits)
  moreover have "cc_slot_events s' = cc_slot_events s @ [False]"
    using p two u by (cases "cc_inbox u") (auto simp: command_cause_def)
  ultimately show ?thesis by (simp add: slot_of_def split: if_splits)
qed

text \<open>A removal at 0 ms with the deadline at 250 ms: deferred, and completed by the poll at 1 ms.\<close>

theorem deferral_never_waits_witness:
  "\<exists>s s'. ccid_inv s \<and> cc_remove_deferred (reader_ccid_on_tag_removed_from_field sample_services s) \<and>
     event_run sample_services [Card_removed, Clock 1, Poll] s = Some s' \<and> \<not> cc_card_present s'"
proof -
  define s where "s = (reader_ccid_on_tag_detected sample_services TAG_KIND_TYPE2
    (boot_state (\<lambda>_. True) ()))\<lparr>cc_remove_defer_until_ms := 250\<rparr>"
  have inv: "ccid_inv s"
    using detected_runs(1) [OF boot_inv] by (simp add: s_def ccid_inv_def)
  have b: "\<not> cc_remove_deferred (boot_state (\<lambda>_. True) ())" "\<not> cc_card_present (boot_state (\<lambda>_. True) ())"
      "\<not> cc_sess (boot_state (\<lambda>_. True) ())" "cc_now (boot_state (\<lambda>_. True) ()) = 0"
    by (simp_all add: boot_state_def reader_ccid_context_reset_def)
  have p: "cc_card_present s" "\<not> cc_sess s" "cc_now s = 0" "cc_remove_defer_until_ms s = 250"
    using b by (simp_all add: s_def reader_ccid_on_tag_detected_def Let_def reader_ccid_clear_xfr_response_chain_def)
  obtain s' where run: "event_run sample_services [Card_removed, Clock 1, Poll] s = Some s'"
  proof -
    define u where "u = (reader_ccid_on_tag_removed_from_field sample_services s)\<lparr>cc_now := 1\<rparr>"
    have "ccid_inv u" using removed_runs(1) [OF inv] by (simp add: u_def ccid_inv_def)
    then obtain s' where "reader_ccid_poll sample_services u = Some s'"
      using event_runs [OF _ sample_services_ok, of u Poll] by auto
    then show ?thesis by (intro that [of s']) (simp add: u_def)
  qed
  have "cc_remove_deferred (reader_ccid_on_tag_removed_from_field sample_services s)"
    using p by (simp add: reader_ccid_on_tag_removed_from_field_def reader_ccid_deadline_elapsed_def)
  moreover have "\<not> cc_card_present s'"
    using deferral_never_waits [OF inv sample_services_ok p(1) run] by blast
  ultimately show ?thesis using inv run by blast
qed

end
