(* ===== verification/CcidChains.thy ===== *)
theory CcidChains
  imports CcidService
begin

text \<open>
  Chaining and abort. Long responses leave the reader in data blocks the host asks for one by
  one; long commands arrive in several blocks; and a pending abort stops every command but
  the ABORT that ends it.
\<close>

section \<open>Abort\<close>

lemma level_chains_ended [simp]:
  "reader_ccid_current_icc_level (chains_ended f s) = reader_ccid_current_icc_level s"
  by (simp add: chains_ended_def Let_def reader_ccid_current_icc_level_def reader_ccid_clear_xfr_response_chain_def
      reader_ccid_clear_xfr_command_chain_def)

lemma chains_ended_fields [simp]:
  "cc_abort (chains_ended f s) = cc_abort s" "cc_card (chains_ended f s) = cc_card s"
  "cc_sess (chains_ended f s) = cc_sess s" "cc_sent (chains_ended f s) = cc_sent s"
  "cc_card_present (chains_ended f s) = cc_card_present s" "cc_rsp (chains_ended f s) = cc_rsp s"
  by (simp_all add: chains_ended_def Let_def reader_ccid_clear_xfr_response_chain_def
      reader_ccid_clear_xfr_command_chain_def)

text \<open>The one message that ends an announced abort: a well-formed ABORT command with its sequence number.\<close>

definition ends_abort :: "u8 \<Rightarrow> bytes \<Rightarrow> bool" where
  "ends_abort q f \<longleftrightarrow> 10 \<le> length f \<and> length f = 10 + frame_data_len f \<and> f ! 5 = 0 \<and> header_error f = None \<and>
     f ! 0 = 0x72 \<and> f ! 6 = q"

text \<open>
  What any other message is answered with. A malformed one gets the error of its header, and a
  request for the next block of a response that is being delivered is served.
\<close>

definition answer_while_aborting :: "bytes \<Rightarrow> 'w ccid \<Rightarrow> bytes list" where
  "answer_while_aborting f s =
     (let failed = (\<lambda>err. failed_response (f ! 0) (f ! 6) (reader_ccid_current_icc_level s) err) in
      if length f < 10 then []
      else if length f \<noteq> 10 + frame_data_len f then [failed 0x01]
      else if f ! 5 \<noteq> 0 then [absent_response (f ! 0) (f ! 5) (f ! 6) 0x05]
      else case header_error f of
        Some err \<Rightarrow> [failed err]
      | None \<Rightarrow>
          if \<not> wants_continuation f then [failed 0xFF]
          else if cc_chain_active s then [data_block (f ! 6) (chain_level s) (take 510 (chain_rest s))]
          else [failed 0x08])"

lemma chunk_kept:
  assumes "ccid_inv s" and "cc_chain_active s"
  shows "\<exists>s'. reader_ccid_send_xfr_chain_chunk q s = Some s' \<and> cc_sess s' = cc_sess s \<and> cc_card s' = cc_card s \<and>
    cc_abort s' = cc_abort s \<and> cc_sent s' = cc_sent s @ [data_block q (chain_level s) (take 510 (chain_rest s))]"
proof -
  have core: "ccid_core s" using assms(1) by (simp add: ccid_inv_def)
  have ch: "cc_chain_off s < cc_chain_len s" "cc_chain_len s \<le> 2050"
    using core assms(2) by (simp_all add: ccid_core_def chain_ok_def)
  show ?thesis
    unfolding send_chunk_eq [OF core_sizes_only [OF core] assms(2) ch, of q]
    by (simp add: reader_ccid_clear_xfr_response_chain_def)
qed

text \<open>
  C6: while the host has announced an abort on the control pipe, the reader executes no
  command. Whatever message arrives, card and session stay as they are, and the announcement
  stands until the ABORT command with the announced sequence number: that one is answered with
  the slot status, and both chains and the time extension are over. Every other well-formed
  command fails with the abort error, with one exception: the request for the next block of a
  chained response is looked at before the abort and is still served (or refused as out of
  place). Malformed messages get the errors they get without an abort, and fragments of less
  than a header no answer.
\<close>

theorem abort_handshake:
  fixes s :: "'w ccid"
  assumes "ccid_inv s" and "cc_abort s = Some (0, q)" and "length f \<le> 2060"
  shows "\<exists>s'. reader_ccid_handle_bulk svc (Some f) (length f) s = Some s' \<and> cc_sess s' = cc_sess s \<and>
    cc_card s' = cc_card s \<and>
    (if ends_abort q f
     then cc_abort s' = None \<and> \<not> cc_chain_active s' \<and> \<not> cc_cmd_chain_active s' \<and> \<not> cc_time_extension s' \<and>
       cc_sent s' = cc_sent s @ [ccid_header 0x81 0 0 q (reader_ccid_current_icc_level s) 0 0]
     else cc_abort s' = Some (0, q) \<and> cc_sent s' = cc_sent s @ answer_while_aborting f s)"
proof -
  define t where "t = s\<lparr>cc_rsp := replicate 520 0\<rparr>"
  define u where "u = chains_ended f t"
  have t: "ccid_inv t" "cc_abort t = Some (0, q)" "cc_sess t = cc_sess s" "cc_card t = cc_card s" "cc_sent t = cc_sent s"
      "reader_ccid_current_icc_level t = reader_ccid_current_icc_level s" "cc_chain_active t = cc_chain_active s"
      "chain_level t = chain_level s" "chain_rest t = chain_rest s"
    using assms(1,2) by (simp_all add: t_def ccid_inv_def reader_ccid_current_icc_level_def chain_level_def chain_rest_def)
  have u: "ccid_inv u" "cc_abort u = Some (0, q)" "cc_sess u = cc_sess s" "cc_card u = cc_card s" "cc_sent u = cc_sent s"
      "reader_ccid_current_icc_level u = reader_ccid_current_icc_level s"
    using t chains_ended_inv(1) [OF t(1), of f] by (simp_all add: u_def)
  have len: "length (cc_rsp t) = 520" "length (cc_rsp u) = 520"
    using core_sizes(2) [of t] core_sizes(2) [of u] t(1) u(1) by (simp_all add: ccid_inv_def)
  note eq = handle_bulk_eq [OF assms(1) le_refl assms(3), of svc, folded t_def, folded u_def]
  define failed where "failed = (\<lambda>err (x :: 'w ccid). failed_response (f ! 0) (f ! 6) (reader_ccid_current_icc_level x) err)"
  note sf = send_failed_eq [OF len(1)] send_failed_eq [OF len(2)]
  have refused: ?thesis if e: "reader_ccid_handle_bulk svc (Some f) (length f) s = Some s'" "cc_sess s' = cc_sess s"
      "cc_card s' = cc_card s" "cc_abort s' = Some (0, q)" "cc_sent s' = cc_sent s @ answer_while_aborting f s"
      and n: "\<not> ends_abort q f" for s'
    using e n by simp
  consider (short) "length f < 10" | (len) "10 \<le> length f" "length f \<noteq> 10 + frame_data_len f"
    | (slot) "10 \<le> length f" "length f = 10 + frame_data_len f" "f ! 5 \<noteq> 0"
    | (header) e where "10 \<le> length f" "length f = 10 + frame_data_len f" "f ! 5 = 0" "header_error f = Some e"
    | (next_block) "10 \<le> length f" "length f = 10 + frame_data_len f" "f ! 5 = 0" "header_error f = None" "wants_continuation f"
    | (command) "10 \<le> length f" "length f = 10 + frame_data_len f" "f ! 5 = 0" "header_error f = None" "\<not> wants_continuation f"
    using linorder_not_less [of "length f" 10] by (cases "header_error f") blast+
  then show ?thesis
  proof cases
    case short
    then have run: "reader_ccid_handle_bulk svc (Some f) (length f) s = Some t" unfolding eq by simp
    from this show ?thesis using short by (intro refused [of t]) (simp_all add: t answer_while_aborting_def ends_abort_def)
  next
    case len: len
    then have run: "reader_ccid_handle_bulk svc (Some f) (length f) s = Some (reply (failed 0x01 t) t)"
      unfolding eq by (simp add: sf failed_def)
    show ?thesis using len
      by (intro refused [OF run]) (simp_all add: t failed_def answer_while_aborting_def ends_abort_def)
  next
    case slot
    then have run: "reader_ccid_handle_bulk svc (Some f) (length f) s =
        Some (reply (absent_response (f ! 0) (f ! 5) (f ! 6) 0x05) t)"
      unfolding eq by simp
    show ?thesis using slot
      by (intro refused [OF run])
        (simp_all add: t answer_while_aborting_def ends_abort_def)
  next
    case (header e)
    then have run: "reader_ccid_handle_bulk svc (Some f) (length f) s = Some (reply (failed e t) t)"
      unfolding eq by (simp add: sf failed_def)
    show ?thesis using header
      by (intro refused [OF run]) (simp_all add: t failed_def answer_while_aborting_def ends_abort_def)
  next
    case next_block
    then have n: "\<not> ends_abort q f" by (simp add: ends_abort_def wants_continuation_def)
    show ?thesis
    proof (cases "cc_chain_active s")
      case True
      obtain v where v: "reader_ccid_send_xfr_chain_chunk (f ! 6) t = Some v" "cc_sess v = cc_sess t" "cc_card v = cc_card t"
          "cc_abort v = cc_abort t" "cc_sent v = cc_sent t @ [data_block (f ! 6) (chain_level t) (take 510 (chain_rest t))]"
        using chunk_kept [OF t(1)] True t(7) by blast
      have run: "reader_ccid_handle_bulk svc (Some f) (length f) s = Some v"
        unfolding eq using next_block True t(7) v(1) by simp
      show ?thesis using next_block True n
        by (intro refused [OF run]) (simp_all add: t v(2-) answer_while_aborting_def)
    next
      case False
      have run: "reader_ccid_handle_bulk svc (Some f) (length f) s = Some (reply (failed 0x08 t) t)"
        unfolding eq using next_block False t(7) by (simp add: sf failed_def)
      show ?thesis using next_block False n
        by (intro refused [OF run]) (simp_all add: t failed_def answer_while_aborting_def)
    qed
  next
    case command
    have blocks: "abort_blocks f t \<longleftrightarrow> \<not> (f ! 0 = 0x72 \<and> f ! 6 = q)"
      using t(2) command(3) by (auto simp: abort_blocks_def)
    have ten: "\<not> length f < 10" using command(1) by simp
    show ?thesis
    proof (cases "f ! 0 = 0x72 \<and> f ! 6 = q")
      case False
      have run: "reader_ccid_handle_bulk svc (Some f) (length f) s = Some (reply (failed 0xFF u) u)"
        unfolding eq using command blocks False by (simp add: sf failed_def)
      show ?thesis using command False
        by (intro refused [OF run]) (auto simp: u failed_def answer_while_aborting_def ends_abort_def)
    next
      case True
      have rd0: "rd (Some f) 0 = Some 0x72" using ten True by simp
      have six: "6 \<le> length f" using ten by simp
      have e: "ends_abort q f" using command True by (simp add: ends_abort_def)
      have "bulk_switch svc (Some f) (length f) q (frame_data_len f) u = bulk_abort (Some f) (length f) q u"
        unfolding bulk_switch_def rd0 by simp
      then have run: "reader_ccid_handle_bulk svc (Some f) (length f) s = bulk_abort (Some f) (length f) q u"
        unfolding eq using command blocks ten True by simp
      then show ?thesis
        using bulk_abort_eq [OF len(2) six le_refl assms(3), of q] u command(3) e
        by (simp add: reader_ccid_clear_xfr_command_chain_def reader_ccid_clear_xfr_response_chain_def)
    qed
  qed
qed

lemma boot_abort_inv: "ccid_inv (s\<lparr>cc_abort := a\<rparr>) = ccid_inv s"
  by (simp add: ccid_inv_def)

theorem abort_handshake_witness:
  "(\<exists>s'. reader_ccid_handle_bulk sample_services (Some (ccid_header 0x72 0 0 4 0 0 0)) 10
      ((boot_state (\<lambda>_. True) ())\<lparr>cc_abort := Some (0, 4)\<rparr>) = Some s' \<and> cc_abort s' = None) \<and>
   (\<exists>s'. reader_ccid_handle_bulk sample_services (Some (ccid_header 0x72 0 0 5 0 0 0)) 10
      ((boot_state (\<lambda>_. True) ())\<lparr>cc_abort := Some (0, 4)\<rparr>) = Some s' \<and> cc_abort s' = Some (0, 4))"
proof -
  have h: "header_error (ccid_header 0x72 0 0 x 0 0 0) = None" for x
    by (simp add: header_error_def reader_ccid_bulk_command_requires_zero_length_def
        reader_ccid_bulk_command_requires_rfu_zero_def)
  have e: "ends_abort 4 (ccid_header 0x72 0 0 4 0 0 0)" "\<not> ends_abort 4 (ccid_header 0x72 0 0 5 0 0 0)"
    by (simp_all add: ends_abort_def h)
  have i: "ccid_inv ((boot_state (\<lambda>_. True) ())\<lparr>cc_abort := Some (0, 4)\<rparr>)" unfolding boot_abort_inv by (rule boot_inv)
  have l: "length (ccid_header 0x72 0 0 x 0 0 0) \<le> 2060" "length (ccid_header 0x72 0 0 x 0 0 0) = 10" for x by simp_all
  show ?thesis
    using abort_handshake [OF i _ l(1), of 4 sample_services 4, unfolded l(2)]
      abort_handshake [OF i _ l(1), of 4 sample_services 5, unfolded l(2)] e by auto
qed

section \<open>Long responses\<close>

text \<open>The host asks for the next block with an empty XfrBlock command of level 0x0010.\<close>

definition continue_frame :: "u8 \<times> u8 \<Rightarrow> bytes" where
  "continue_frame qb = ccid_header 0x6F 0 0 (fst qb) (snd qb) 0x10 0"

fun continue_run :: "'w card_services \<Rightarrow> (u8 \<times> u8) list \<Rightarrow> 'w ccid \<Rightarrow> 'w ccid option" where
  "continue_run svc [] s = Some s"
| "continue_run svc (qb # qbs) s =
     reader_ccid_handle_bulk svc (Some (continue_frame qb)) 10 s \<bind> continue_run svc qbs"

text \<open>The blocks that carry the bytes \<open>d\<close>, given the sequence numbers of the requests.\<close>

fun rest_blocks :: "u8 list \<Rightarrow> bytes \<Rightarrow> bytes list" where
  "rest_blocks [] d = []"
| "rest_blocks (q # qs) d = data_block q (if length d \<le> 510 then 0x02 else 0x03) (take 510 d) # rest_blocks qs (drop 510 d)"

definition chained_blocks :: "u8 \<Rightarrow> u8 list \<Rightarrow> bytes \<Rightarrow> bytes list" where
  "chained_blocks q qs d = data_block q 0x01 (take 510 d) # rest_blocks qs (drop 510 d)"

lemma continue_fields [simp]:
  "continue_frame qb ! 0 = 0x6F" "continue_frame qb ! 5 = 0" "continue_frame qb ! 6 = fst qb"
  "length (continue_frame qb) = 10" "frame_data_len (continue_frame qb) = 0"
  "header_error (continue_frame qb) = None" "wants_continuation (continue_frame qb)"
  by (simp_all add: continue_frame_def header_error_def wants_continuation_def be16_eq
      reader_ccid_bulk_command_requires_zero_length_def reader_ccid_bulk_command_requires_rfu_zero_def
      reader_ccid_xfr_level_error_def)

lemma more_blocks: "510 < n \<Longrightarrow> (n - 1) div 510 = Suc ((n - 511) div 510)" for n :: nat
  using le_div_geq [of 510 "n - 1"] by simp

text \<open>A context that still has the bytes \<open>d\<close> to deliver, and whose sends succeed.\<close>

definition delivering :: "bytes \<Rightarrow> 'w ccid \<Rightarrow> bool" where
  "delivering d s \<longleftrightarrow> ccid_inv s \<and> cc_chain_active s \<and> cc_chain_off s \<noteq> 0 \<and> chain_rest s = d \<and> (\<forall>i. cc_send_ok s i)"

lemma chunk_step:
  assumes "ccid_inv s" and "cc_chain_active s" and "\<forall>i. cc_send_ok s i"
  shows "\<exists>s'. reader_ccid_send_xfr_chain_chunk q s = Some s' \<and>
    cc_sent s' = cc_sent s @ [data_block q (chain_level s) (take 510 (chain_rest s))] \<and>
    (if 510 < length (chain_rest s) then delivering (drop 510 (chain_rest s)) s'
     else ccid_inv s' \<and> \<not> cc_chain_active s')"
proof -
  have core: "ccid_core s" "\<not> cc_time_extension s" using assms(1) by (simp_all add: ccid_inv_def)
  have ch: "cc_chain_off s < cc_chain_len s" "cc_chain_len s \<le> 2050"
    using core assms(2) by (simp_all add: ccid_core_def chain_ok_def)
  define r where "r = data_block q (chain_level s) (take 510 (chain_rest s))"
  define t where "t = reply r s"
  have rlen: "length r \<le> 520" by (simp add: r_def)
  have rest: "length (chain_rest s) = cc_chain_len s - cc_chain_off s"
    using core_sizes_only [OF core(1)] ch by (simp add: chain_rest_def ccid_sizes_def)
  have inv: "ccid_inv t" using core core_reply [OF core(1) rlen] by (simp add: t_def ccid_inv_def)
  have eq: "reader_ccid_send_xfr_chain_chunk q s = Some
    (if 510 < length (chain_rest s) then t\<lparr>cc_chain_off := cc_chain_off s + 510\<rparr>
     else reader_ccid_clear_xfr_response_chain t)"
    using send_chunk_eq [OF core_sizes_only [OF core(1)] assms(2) ch, of q] assms(3)
    by (simp add: t_def r_def)
  have sent: "cc_sent t = cc_sent s @ [r]" by (simp add: t_def)
  show ?thesis
  proof (cases "510 < length (chain_rest s)")
    case True
    define u where "u = t\<lparr>cc_chain_off := cc_chain_off s + 510\<rparr>"
    have fits: "cc_chain_off s + 510 < cc_chain_len t" using True rest by (simp add: t_def)
    have "ccid_inv u" unfolding u_def ccid_inv_def
      using inv core_chain_off [OF _ fits] by (simp add: ccid_inv_def)
    moreover have "chain_rest u = drop 510 (chain_rest s)" by (simp add: u_def t_def chain_rest_def add.commute)
    ultimately have "delivering (drop 510 (chain_rest s)) u"
      using assms(2,3) by (simp add: delivering_def u_def t_def)
    then show ?thesis unfolding eq using True sent by (simp add: u_def r_def)
  next
    case False
    have "ccid_inv (reader_ccid_clear_xfr_response_chain t)"
      using inv by (simp add: ccid_inv_def) (simp add: reader_ccid_clear_xfr_response_chain_def)
    then show ?thesis unfolding eq using False sent
      by (simp add: r_def) (simp add: reader_ccid_clear_xfr_response_chain_def)
  qed
qed

lemma continue_step:
  assumes "delivering d s"
  shows "\<exists>s'. reader_ccid_handle_bulk svc (Some (continue_frame qb)) 10 s = Some s' \<and>
    cc_sent s' = cc_sent s @ [data_block (fst qb) (if length d \<le> 510 then 0x02 else 0x03) (take 510 d)] \<and>
    (if 510 < length d then delivering (drop 510 d) s' else ccid_inv s' \<and> \<not> cc_chain_active s')"
proof -
  define t where "t = s\<lparr>cc_rsp := replicate 520 0\<rparr>"
  have s: "ccid_inv s" "cc_chain_active s" "cc_chain_off s \<noteq> 0" "chain_rest s = d" "\<forall>i. cc_send_ok s i"
    using assms by (simp_all add: delivering_def)
  have t: "ccid_inv t" "cc_chain_active t" "\<forall>i. cc_send_ok t i" "chain_rest t = d" "cc_sent t = cc_sent s"
      "chain_level t = (if length d \<le> 510 then 0x02 else 0x03)"
    using s by (simp_all add: t_def ccid_inv_def chain_rest_def chain_level_def)
  have "reader_ccid_handle_bulk svc (Some (continue_frame qb)) 10 s = reader_ccid_send_xfr_chain_chunk (fst qb) t"
    using t(2) by (subst handle_bulk_eq [OF s(1)]) (simp_all add: t_def)
  then show ?thesis using chunk_step [OF t(1-3), of "fst qb", unfolded t(4-6)] by simp
qed

lemma continue_run_delivers:
  assumes "delivering d s" and "length qbs = Suc ((length d - 1) div 510)" and "d \<noteq> []"
  shows "\<exists>s'. continue_run svc qbs s = Some s' \<and> ccid_inv s' \<and> \<not> cc_chain_active s' \<and>
    cc_sent s' = cc_sent s @ rest_blocks (map fst qbs) d"
  using assms
proof (induction qbs arbitrary: d s)
  case Nil
  then show ?case by simp
next
  case (Cons qb qbs)
  obtain s1 where s1: "reader_ccid_handle_bulk svc (Some (continue_frame qb)) 10 s = Some s1"
      "cc_sent s1 = cc_sent s @ [data_block (fst qb) (if length d \<le> 510 then 0x02 else 0x03) (take 510 d)]"
      "if 510 < length d then delivering (drop 510 d) s1 else ccid_inv s1 \<and> \<not> cc_chain_active s1"
    using continue_step [OF Cons.prems(1), of svc qb] by blast
  show ?case
  proof (cases "510 < length d")
    case True
    have "(length d - 1) div 510 = Suc ((length d - 511) div 510)"
      using more_blocks [of "length d"] True by simp
    then have n: "length qbs = Suc ((length (drop 510 d) - 1) div 510)" "drop 510 d \<noteq> []"
      using Cons.prems(2) True by simp_all
    have "delivering (drop 510 d) s1" using s1(3) True by simp
    then show ?thesis using Cons.IH [OF _ n] s1(1,2) True by force
  next
    case False
    then have "length qbs = 0" using Cons.prems(2,3) by simp
    then show ?thesis using s1 False by simp
  qed
qed

lemma rest_blocks_props:
  assumes "length qs = Suc ((length d - 1) div 510)" and "d \<noteq> []"
  shows "concat (map (drop 10) (rest_blocks qs d)) = d"
    and "map (\<lambda>b. b ! 9) (rest_blocks qs d) = replicate (length qs - 1) 0x03 @ [0x02]"
    and "map (\<lambda>b. b ! 6) (rest_blocks qs d) = qs"
    and "\<forall>b \<in> set (rest_blocks qs d). length b \<le> 520"
proof -
  have "concat (map (drop 10) (rest_blocks qs d)) = d \<and>
    map (\<lambda>b. b ! 9) (rest_blocks qs d) = replicate (length qs - 1) 0x03 @ [0x02] \<and>
    map (\<lambda>b. b ! 6) (rest_blocks qs d) = qs \<and> (\<forall>b \<in> set (rest_blocks qs d). length b \<le> 520)"
    using assms
  proof (induction qs arbitrary: d)
    case Nil
    then show ?case by simp
  next
    case (Cons q qs)
    have f: "data_block q c x ! 9 = c" "data_block q c x ! 6 = q" "drop 10 (data_block q c x) = x" for c x
      by (simp_all add: data_block_def nth_append)
    show ?case
    proof (cases "510 < length d")
      case True
      have "(length d - 1) div 510 = Suc ((length d - 511) div 510)"
        using more_blocks [of "length d"] True by simp
      then have n: "length qs = Suc ((length (drop 510 d) - 1) div 510)" "drop 510 d \<noteq> []"
        using Cons.prems(1) True by simp_all
      obtain k where k: "length qs = Suc k" using n(1) by blast
      show ?thesis using Cons.IH [OF n] True by (simp add: f k)
    next
      case False
      then have "qs = []" using Cons.prems by simp
      then show ?thesis using False by (simp add: f)
    qed
  qed
  then show "concat (map (drop 10) (rest_blocks qs d)) = d"
    "map (\<lambda>b. b ! 9) (rest_blocks qs d) = replicate (length qs - 1) 0x03 @ [0x02]"
    "map (\<lambda>b. b ! 6) (rest_blocks qs d) = qs" "\<forall>b \<in> set (rest_blocks qs d). length b \<le> 520" by blast+
qed

text \<open>
  C4: a long response reaches the host whole. A response of 511 to 2050 bytes is answered
  with a first data block; each further block goes out when the host asks for it, and when
  the host has asked often enough (once per further 510 bytes) the payloads of the blocks,
  in order, are the response; the blocks are marked begin, middle, ..., middle, end, each
  carries the sequence number of its request and at most 510 bytes, and the chain is over.
\<close>

theorem response_chain_delivers:
  assumes "ccid_inv s" and "cc_sess s" and "\<forall>i. cc_send_ok s i"
    and "510 < length d" and "length d \<le> 2050" and "length qbs = (length d - 1) div 510"
  shows "\<exists>s1 s2 bs. reader_ccid_send_xfr_data_response q (Some d) (length d) s = Some s1 \<and>
    continue_run svc qbs s1 = Some s2 \<and> cc_sent s2 = cc_sent s @ bs \<and> \<not> cc_chain_active s2 \<and>
    concat (map (drop 10) bs) = d \<and>
    map (\<lambda>b. b ! 9) bs = 0x01 # replicate (length qbs - 1) 0x03 @ [0x02] \<and>
    map (\<lambda>b. b ! 6) bs = q # map fst qbs \<and> (\<forall>b \<in> set bs. length b \<le> 520)"
proof -
  define t where "t = s\<lparr>cc_chain_buf := patch (cc_chain_buf s) 0 d, cc_chain_len := length d,
    cc_chain_off := 0, cc_chain_active := True\<rparr>"
  have core: "ccid_core s" "\<not> cc_time_extension s" using assms(1) by (simp_all add: ccid_inv_def)
  have sz: "length (cc_chain_buf s) = 2050" using core(1) by (simp add: ccid_core_def ccid_sizes_def)
  have t: "ccid_inv t" "cc_chain_active t" "\<forall>i. cc_send_ok t i" "cc_sent t = cc_sent s"
    using assms core sz by (auto simp: t_def ccid_inv_def ccid_core_def ccid_sizes_def chain_ok_def)
  have rest: "chain_rest t = d" "chain_level t = 0x01"
    using sz assms(5) by (simp_all add: chain_rest_def chain_level_def t_def take_patch_front)
  have "reader_ccid_send_xfr_data_response q (Some d) (length d) s = reader_ccid_send_xfr_chain_chunk q t"
    unfolding t_def using data_response_long [OF core_sizes_only [OF core(1)] assms(4,5) le_refl] by simp
  then obtain s1 where s1: "reader_ccid_send_xfr_data_response q (Some d) (length d) s = Some s1"
      "cc_sent s1 = cc_sent s @ [data_block q 0x01 (take 510 d)]" "delivering (drop 510 d) s1"
    using chunk_step [OF t(1-3), of q] assms(4) rest t(4) by auto
  have "(length d - 1) div 510 = Suc ((length d - 511) div 510)"
    using more_blocks [of "length d"] assms(4) by simp
  then have n: "length qbs = Suc ((length (drop 510 d) - 1) div 510)" "drop 510 d \<noteq> []"
    using assms(4,6) by simp_all
  obtain s2 where s2: "continue_run svc qbs s1 = Some s2" "\<not> cc_chain_active s2"
      "cc_sent s2 = cc_sent s1 @ rest_blocks (map fst qbs) (drop 510 d)"
    using continue_run_delivers [OF s1(3) n, of svc] by blast
  have len: "length (map fst qbs) = Suc ((length (drop 510 d) - 1) div 510)" using n(1) by simp
  note p = rest_blocks_props [OF len n(2)]
  define bs where "bs = chained_blocks q (map fst qbs) (d)"
  have b1: "cc_sent s2 = cc_sent s @ bs" using s2(3) s1(2) by (simp add: bs_def chained_blocks_def)
  have b2: "concat (map (drop 10) bs) = d"
    using p(1) by (simp add: bs_def chained_blocks_def data_block_def)
  have b3: "map (\<lambda>b. b ! 9) bs = 0x01 # replicate (length qbs - 1) 0x03 @ [0x02]"
    using p(2) by (simp add: bs_def chained_blocks_def data_block_def nth_append)
  have b4: "map (\<lambda>b. b ! 6) bs = q # map fst qbs"
    using p(3) by (simp add: bs_def chained_blocks_def data_block_def nth_append)
  have b5: "\<forall>b \<in> set bs. length b \<le> 520" using p(4) by (simp add: bs_def chained_blocks_def)
  show ?thesis using s1(1) s2(1,2) b1 b2 b3 b4 b5
    by (intro exI [of _ s1] exI [of _ s2] exI [of _ bs] conjI)
qed

text \<open>A Type 4 card with an open session.\<close>

definition active_state :: "unit ccid" where
  "active_state = (boot_state (\<lambda>_. True) ())\<lparr>cc_card_present := True, cc_sess := True,
     cc_owner := NFC_SESSION_OWNER_CCID, cc_tag_kind := TAG_KIND_TYPE4\<rparr>"

lemma active_state_fields:
  "ccid_inv active_state" "cc_sess active_state" "\<forall>i. cc_send_ok active_state i" "cc_abort active_state = None"
  by (simp_all add: active_state_def boot_state_def reader_ccid_context_reset_def ccid_inv_def ccid_core_def
      ccid_sizes_def chain_ok_def)

theorem response_chain_delivers_witness:
  "\<exists>s1 s2 bs. reader_ccid_send_xfr_data_response 9 (Some (replicate 600 7)) 600 active_state = Some s1 \<and>
     continue_run sample_services [(10, 0)] s1 = Some s2 \<and> cc_sent s2 = cc_sent active_state @ bs \<and>
     concat (map (drop 10) bs) = replicate 600 7"
  using response_chain_delivers [OF active_state_fields(1-3), of "replicate 600 7" "[(10, 0)]" 9 sample_services]
  by (simp only: length_replicate) fastforce

section \<open>Long commands\<close>

definition xfr_frame :: "u8 \<Rightarrow> u8 \<Rightarrow> u8 \<Rightarrow> bytes \<Rightarrow> bytes" where
  "xfr_frame q bwi lvl p = ccid_header 0x6F (length p) 0 q bwi lvl 0 @ p"

text \<open>The parts of a command before its last one: a begin block and middle blocks.\<close>

fun parts_run :: "'w card_services \<Rightarrow> u8 \<Rightarrow> (u8 \<times> bytes) list \<Rightarrow> 'w ccid \<Rightarrow> 'w ccid option" where
  "parts_run svc lvl [] s = Some s"
| "parts_run svc lvl ((q, p) # ps) s =
     reader_ccid_handle_bulk svc (Some (xfr_frame q 0 lvl p)) (10 + length p) s \<bind> parts_run svc 3 ps"

text \<open>The reader has collected the bytes \<open>a\<close> of a command.\<close>

definition collected :: "bytes \<Rightarrow> 'w ccid \<Rightarrow> bool" where
  "collected a s \<longleftrightarrow> ccid_inv s \<and> cc_sess s \<and> cc_abort s = None \<and> cc_cmd_chain_active s \<and>
     cc_cmd_chain_len s = length a \<and> take (length a) (cc_cmd_chain_buf s) = a"

lemma xfr_frame_props:
  assumes "length p \<le> 2050"
  shows "length (xfr_frame q b l p) = 10 + length p" "frame_data_len (xfr_frame q b l p) = length p"
    "xfr_frame q b l p ! 0 = 0x6F" "xfr_frame q b l p ! 5 = 0" "xfr_frame q b l p ! 6 = q"
    "be16 (xfr_frame q b l p ! 9) (xfr_frame q b l p ! 8) = unat l" "drop 10 (xfr_frame q b l p) = p"
  using assms by (simp_all add: xfr_frame_def frame_data_len_header nth_append be16_eq)

lemma part_dispatch:
  fixes q b l :: u8 and p :: bytes and s :: "'w ccid"
  assumes s: "ccid_inv s" "cc_sess s" "cc_abort s = None" and l: "l \<in> {1, 2, 3}" and p: "length p \<le> 2050"
  defines "f \<equiv> xfr_frame q b l p"
  defines "u \<equiv> (s\<lparr>cc_rsp := replicate 520 0, cc_chain_active := False,
    cc_chain_len := if cc_chain_active s then 0 else cc_chain_len s,
    cc_chain_off := if cc_chain_active s then 0 else cc_chain_off s\<rparr>)"
  shows "reader_ccid_handle_bulk svc (Some f) (10 + length p) s = bulk_xfr svc (Some f) (10 + length p) q (length p) u"
    and "ccid_inv u"
proof -
  define t where "t = s\<lparr>cc_rsp := replicate 520 0\<rparr>"
  note fp = xfr_frame_props [OF p, of q b l, folded f_def]
  have lv: "unat l \<in> {1, 2, 3}" using l by auto
  have u: "chains_ended f t = u"
    using fp(3) by (cases "cc_chain_active s")
      (simp_all add: chains_ended_def t_def u_def reader_ccid_clear_xfr_response_chain_def Let_def)
  have h: "header_error f = None"
    unfolding header_error_def fp(3,6) Let_def using lv
    by (auto simp: reader_ccid_bulk_command_requires_zero_length_def reader_ccid_bulk_command_requires_rfu_zero_def
        reader_ccid_xfr_level_error_def)
  have c: "\<not> wants_continuation f"
  proof
    assume "wants_continuation f"
    then have "f ! 8 = 0x10" "f ! 9 = 0" by (simp_all add: wants_continuation_def)
    then have "unat l = 16" using fp(6) by (simp add: be16_eq)
    then show False using lv by auto
  qed
  have a: "\<not> abort_blocks f t" using s(3) by (simp add: abort_blocks_def t_def)
  have rd0: "rd (Some f) 0 = Some 0x6F" using fp(1,3) by simp
  have "reader_ccid_handle_bulk svc (Some f) (10 + length p) s = bulk_switch svc (Some f) (10 + length p) q (length p) u"
    using handle_bulk_eq [OF s(1), of "10 + length p" f svc, folded t_def] fp p h c a
    by (simp add: u)
  then show "reader_ccid_handle_bulk svc (Some f) (10 + length p) s = bulk_xfr svc (Some f) (10 + length p) q (length p) u"
    unfolding bulk_switch_def rd0 by simp
  have "ccid_inv t" using s(1) by (simp add: t_def ccid_inv_def)
  then show "ccid_inv u" using chains_ended_inv(1) [of t f] u by simp
qed

text \<open>What a part does to the collected bytes.\<close>

lemma part_appended:
  fixes s :: "'w ccid"
  assumes s: "ccid_inv s" "cc_sess s" "cc_abort s = None" and "p \<noteq> []"
    and a: "begin_chain \<and> a = [] \<or> \<not> begin_chain \<and> collected a s" and fits: "length a + length p \<le> 2050"
  obtains t where "chain_appended p begin_chain s = (True, t)" and "collected (a @ p) t" and "cc_sent t = cc_sent s"
    and "cc_card_present t = cc_card_present s"
proof -
  have core: "ccid_core s" "\<not> cc_time_extension s" using s(1) by (simp_all add: ccid_inv_def)
  have sz: "length (cc_cmd_chain_buf s) = 2050" using core by (simp add: ccid_core_def ccid_sizes_def)
  define t where "t = s\<lparr>cc_cmd_chain_buf := patch (cc_cmd_chain_buf s) (length a) p,
     cc_cmd_chain_len := length a + length p, cc_cmd_chain_active := True\<rparr>"
  have base: "(if begin_chain then 0 else cc_cmd_chain_len s) = length a" "begin_chain \<or> cc_cmd_chain_active s"
    using a by (auto simp: collected_def)
  have eq: "chain_appended p begin_chain s = (True, t)"
    unfolding chain_appended_def Let_def base(1) t_def using base(2) fits assms(4) by auto
  have pre: "take (length a) (cc_cmd_chain_buf s) = a" using a by (auto simp: collected_def)
  have "take (length a + length p) (patch (cc_cmd_chain_buf s) (length a) p) = a @ p"
    using pre fits sz by (simp add: patch_def)
  moreover have "ccid_inv t" using chain_appended_core(1,2) [OF core(1) s(2) eq] core(2) by (simp add: ccid_inv_def)
  ultimately have "collected (a @ p) t" using s by (simp add: collected_def t_def)
  then show ?thesis using eq by (intro that [of t]) (simp_all add: t_def)
qed

lemma part_step:
  fixes q l :: u8
  assumes s: "ccid_inv s" "cc_sess s" "cc_abort s = None" and p: "p \<noteq> []"
    and a: "l = 1 \<and> a = [] \<or> l = 3 \<and> collected a s" and fits: "length a + length p \<le> 2050"
  shows "\<exists>s'. reader_ccid_handle_bulk svc (Some (xfr_frame q 0 l p)) (10 + length p) s = Some s' \<and>
    collected (a @ p) s' \<and> cc_sent s' = cc_sent s @ [ccid_header 0x80 0 0 q 0 0 0x10]"
proof -
  have pl: "length p \<le> 2050" and l: "l \<in> {1, 2, 3}" using fits a by auto
  note fp = xfr_frame_props [OF pl, of q 0 l]
  define u where "u = (s\<lparr>cc_rsp := replicate 520 0, cc_chain_active := False,
    cc_chain_len := if cc_chain_active s then 0 else cc_chain_len s,
    cc_chain_off := if cc_chain_active s then 0 else cc_chain_off s\<rparr>)"
  note d = part_dispatch(1) [OF s l pl, where svc = svc and q = q and b = 0, folded u_def]
    part_dispatch(2) [OF s l pl, folded u_def]
  have u: "cc_sess u" "cc_abort u = None" "cc_sent u = cc_sent s" "ccid_core u"
      "collected a s \<Longrightarrow> collected a u"
    using s d(2) by (simp_all add: u_def ccid_inv_def collected_def)
  have b: "(l = 1) \<and> a = [] \<or> \<not> (l = 1) \<and> collected a u" using a u(5) by auto
  obtain t where t: "chain_appended p (l = 1) u = (True, t)" "collected (a @ p) t" "cc_sent t = cc_sent u"
      "cc_card_present t = cc_card_present u"
    by (rule part_appended [OF d(2) u(1,2) p b fits])
  have lv: "reader_ccid_bulk_xfr_level_parameter (Some (xfr_frame q 0 l p)) (10 + length p) = Some (unat l)"
    using level_parameter_eq [of "10 + length p" "xfr_frame q 0 l p"] fp pl by simp
  have l1: "(unat l = 1) = (l = 1)" "unat l \<noteq> 0" "l = 1 \<or> unat l = 3" using a by auto
  have rd0: "rd (Some (xfr_frame q 0 l p)) 0 = Some 0x6F" using fp(1,3) by simp
  have pn: "u16n (length p) = length p" using pl by simp
  have app: "reader_ccid_append_xfr_command_chain (Some p) (length p) (l = 1) u = Some (True, t)"
    using append_command_chain_eq [OF u(4) pl, of "length p" p "l = 1"] t(1) by simp
  have eq: "reader_ccid_handle_bulk svc (Some (xfr_frame q 0 l p)) (10 + length p) s =
      reader_ccid_send_xfr_command_continue q t"
    unfolding d(1) bulk_xfr_def lv rd0 bind.bind_lunit pn l1(1) ptr_add_Some fp(7) app prod.case
    using u(1) l1(2,3) by simp
  have inv: "ccid_inv t" "length (cc_rsp t) = 520" using t(2) core_sizes(2) [of t] by (simp_all add: collected_def ccid_inv_def)
  define s' where "s' = reply (ccid_header 0x80 0 0 q 0 0 0x10) t"
  have "collected (a @ p) s'" using t(2) inv by (simp add: s'_def collected_def ccid_inv_def)
  then show ?thesis
    using eq send_continue_eq [OF inv(2), of q] t(3) u(3) by (simp add: s'_def)
qed

lemma parts_collected:
  assumes "collected a s" and "\<forall>(q, p) \<in> set ps. p \<noteq> []"
    and "length a + length (concat (map snd ps)) \<le> 2050"
  shows "\<exists>s'. parts_run svc 3 ps s = Some s' \<and> collected (a @ concat (map snd ps)) s' \<and>
    cc_sent s' = cc_sent s @ map (\<lambda>(q, _). ccid_header 0x80 0 0 q 0 0 0x10) ps"
  using assms
proof (induction ps arbitrary: a s)
  case Nil
  then show ?case by simp
next
  case (Cons qp ps)
  obtain q p where qp: "qp = (q, p)" by fastforce
  have s: "ccid_inv s" "cc_sess s" "cc_abort s = None" "p \<noteq> []" "length a + length p \<le> 2050"
    using Cons.prems by (simp_all add: collected_def qp)
  have c: "(3 :: u8) = 1 \<and> a = [] \<or> (3 :: u8) = 3 \<and> collected a s" using Cons.prems(1) by simp
  obtain t where t: "reader_ccid_handle_bulk svc (Some (xfr_frame q 0 3 p)) (10 + length p) s = Some t"
      "collected (a @ p) t" "cc_sent t = cc_sent s @ [ccid_header 0x80 0 0 q 0 0 0x10]"
    using part_step [OF s(1-4) c s(5), of svc q] by blast
  have "\<exists>s'. parts_run svc 3 ps t = Some s' \<and> collected ((a @ p) @ concat (map snd ps)) s' \<and>
    cc_sent s' = cc_sent t @ map (\<lambda>(q, _). ccid_header 0x80 0 0 q 0 0 0x10) ps"
    by (rule Cons.IH [OF t(2)]) (use Cons.prems in \<open>simp_all add: qp\<close>)
  then show ?case using t by (auto simp: qp)
qed

text \<open>
  C5: a long command reaches the card whole. A command sent as a begin block, any number of
  middle blocks and an end block, none empty, at most 2050 bytes together, is collected: each
  block before the last is answered with the request to go on, and the last one runs the
  card exchange on exactly the concatenation of the blocks.
\<close>

theorem command_chain_collects:
  assumes "ccid_inv s" and "cc_sess s" and "cc_abort s = None"
    and "parts \<noteq> []" and "\<forall>(q, p) \<in> set parts. p \<noteq> []" and "p \<noteq> []"
    and "apdu = concat (map snd parts) @ p" and "length apdu \<le> 2050"
  shows "\<exists>s1 s2. parts_run svc 1 parts s = Some s1 \<and>
    cc_sent s1 = cc_sent s @ map (\<lambda>(q, _). ccid_header 0x80 0 0 q 0 0 0x10) parts \<and>
    reader_ccid_handle_bulk svc (Some (xfr_frame q 0 2 p)) (10 + length p) s1 =
      bulk_xfr_exchange svc (Some (xfr_frame q 0 2 p)) q 2 (Some (cc_cmd_chain_buf s2)) (length apdu) s2 \<and>
    ccid_inv s2 \<and> cc_sess s2 \<and> take (length apdu) (cc_cmd_chain_buf s2) = apdu"
proof -
  obtain q0 p0 ps where parts: "parts = (q0, p0) # ps" using assms(4) by (cases parts) auto
  have p0: "p0 \<noteq> []" "length ([] :: bytes) + length p0 \<le> 2050" using assms(5,7,8) by (simp_all add: parts)
  have one: "(1 :: u8) = 1 \<and> [] = ([] :: bytes) \<or> (1 :: u8) = 3 \<and> collected [] s" by simp
  obtain t where t: "reader_ccid_handle_bulk svc (Some (xfr_frame q0 0 1 p0)) (10 + length p0) s = Some t"
      "collected p0 t" "cc_sent t = cc_sent s @ [ccid_header 0x80 0 0 q0 0 0 0x10]"
    using part_step [OF assms(1-3) p0(1) one p0(2), of svc q0] by auto
  define a where "a = concat (map snd parts)"
  have "\<exists>s'. parts_run svc 3 ps t = Some s' \<and> collected (p0 @ concat (map snd ps)) s' \<and>
      cc_sent s' = cc_sent t @ map (\<lambda>(q, _). ccid_header 0x80 0 0 q 0 0 0x10) ps"
    by (rule parts_collected [OF t(2)]) (use assms in \<open>simp_all add: parts\<close>)
  then obtain s1 where s1: "parts_run svc 1 parts s = Some s1" "collected a s1"
      "cc_sent s1 = cc_sent s @ map (\<lambda>(q, _). ccid_header 0x80 0 0 q 0 0 0x10) parts"
    using t(1,3) by (auto simp: parts a_def)
  have fits: "length a + length p \<le> 2050" "apdu = a @ p" using assms(7,8) by (simp_all add: a_def)
  have pl: "length p \<le> 2050" using fits by simp
  have two: "(2 :: u8) \<in> {1, 2, 3}" by simp
  have c1: "ccid_inv s1" "cc_sess s1" "cc_abort s1 = None" using s1(2) by (simp_all add: collected_def)
  note fp = xfr_frame_props [OF pl, of q 0 2]
  define u where "u = (s1\<lparr>cc_rsp := replicate 520 0, cc_chain_active := False,
    cc_chain_len := if cc_chain_active s1 then 0 else cc_chain_len s1,
    cc_chain_off := if cc_chain_active s1 then 0 else cc_chain_off s1\<rparr>)"
  note d = part_dispatch(1) [OF c1 two pl, where svc = svc and q = q and b = 0, folded u_def]
    part_dispatch(2) [OF c1 two pl, folded u_def]
  have u: "cc_sess u" "cc_abort u = None" "ccid_core u" "collected a u"
    using s1(2) d(2) by (simp_all add: u_def ccid_inv_def collected_def)
  obtain s2 where s2: "chain_appended p False u = (True, s2)" "collected (a @ p) s2"
    by (rule part_appended [OF d(2) u(1,2) assms(6), of False a]) (use u(4) fits in simp_all)
  have lv: "reader_ccid_bulk_xfr_level_parameter (Some (xfr_frame q 0 2 p)) (10 + length p) = Some 2"
    using level_parameter_eq [of "10 + length p" "xfr_frame q 0 2 p"] fp pl by simp
  have rd0: "rd (Some (xfr_frame q 0 2 p)) 0 = Some 0x6F" using fp(1,3) by simp
  have pn: "u16n (length p) = length p" "((2 :: nat) = 1) = False" using pl by simp_all
  have app: "reader_ccid_append_xfr_command_chain (Some p) (length p) False u = Some (True, s2)"
    using append_command_chain_eq [OF u(3) pl, of "length p" p False] s2(1) by simp
  have "reader_ccid_handle_bulk svc (Some (xfr_frame q 0 2 p)) (10 + length p) s1 =
      bulk_xfr_exchange svc (Some (xfr_frame q 0 2 p)) q 2 (Some (cc_cmd_chain_buf s2)) (cc_cmd_chain_len s2) s2"
    unfolding d(1) bulk_xfr_def lv rd0 bind.bind_lunit pn ptr_add_Some fp(7) app prod.case
    using u(1) by simp
  then show ?thesis using s1(1,3) s2(2) fits(2)
    by (intro exI [of _ s1] exI [of _ s2]) (simp add: collected_def)
qed

theorem command_chain_collects_witness:
  "\<exists>s1 s2. parts_run sample_services 1 [(1, [0x00, 0xA4])] active_state = Some s1 \<and>
    reader_ccid_handle_bulk sample_services (Some (xfr_frame 2 0 2 [0x04])) 11 s1 =
      bulk_xfr_exchange sample_services (Some (xfr_frame 2 0 2 [0x04])) 2 2 (Some (cc_cmd_chain_buf s2)) 3 s2 \<and>
    take 3 (cc_cmd_chain_buf s2) = [0x00, 0xA4, 0x04]"
  using command_chain_collects [OF active_state_fields(1,2,4), of "[(1, [0x00, 0xA4])]" "[0x04]" "[0x00, 0xA4, 0x04]"
      sample_services 2]
  by (simp add: numeral_3_eq_3) fastforce

end
