(* ===== verification/IsoDepTiming.thy ===== *)
theory IsoDepTiming
  imports MemUtil
begin

text \<open>
  ISO-DEP timing (\<^verbatim>\<open>nfc_iso_dep_timing.h\<close>) and the answer to select
  (\<^verbatim>\<open>reader_iso_dep_ats.h\<close>): the frame waiting time, the timeouts derived from it, the size
  of the APDU fragments, and the ATS parser. Times in microseconds and milliseconds are
  32-bit values in the code; the sums that can wrap are written with \<open>u32n\<close>.
\<close>

section \<open>Frame waiting time and timeouts\<close>

abbreviation (input) ISO_DEP_FWI_MAX :: nat where "ISO_DEP_FWI_MAX \<equiv> 14"
abbreviation (input) ISO_DEP_FWI_DEFAULT :: nat where "ISO_DEP_FWI_DEFAULT \<equiv> 4"
abbreviation (input) NFC_ISO14443_FSC_MAX :: nat where "NFC_ISO14443_FSC_MAX \<equiv> 256"

definition reader_iso_dep_fwt_us_from_fwi :: "nat \<Rightarrow> nat" where
  "reader_iso_dep_fwt_us_from_fwi fwi =
     (let fwi = (if fwi > ISO_DEP_FWI_MAX then ISO_DEP_FWI_DEFAULT else fwi)
      in u32n ((4096 * 2 ^ fwi * 1000000 + 13560000 - 1) div 13560000))"

definition reader_iso_dep_ms_to_seconds :: "nat \<Rightarrow> nat" where
  "reader_iso_dep_ms_to_seconds ms = ms div 1000"

definition reader_iso_dep_pre_first_iblock_delay_ms :: "nat \<Rightarrow> nat" where
  "reader_iso_dep_pre_first_iblock_delay_ms fwt_us =
     (let ms = u32n (fwt_us + 999) div 1000;
          ms = (if ms < 18 then 18 else ms);
          ms = (if ms > 200 then 200 else ms)
      in ms)"

definition reader_iso_dep_fwt_us_default :: nat where
  "reader_iso_dep_fwt_us_default = reader_iso_dep_fwt_us_from_fwi ISO_DEP_FWI_DEFAULT"

definition reader_iso_dep_pre_first_iblock_delay_default_ms :: nat where
  "reader_iso_dep_pre_first_iblock_delay_default_ms =
     reader_iso_dep_pre_first_iblock_delay_ms reader_iso_dep_fwt_us_default"

definition reader_iso_dep_fwi_default :: nat where
  "reader_iso_dep_fwi_default = ISO_DEP_FWI_DEFAULT"

definition reader_iso_dep_fwi_clamp :: "nat \<Rightarrow> nat" where
  "reader_iso_dep_fwi_clamp fwi = (if fwi > ISO_DEP_FWI_MAX then ISO_DEP_FWI_DEFAULT else fwi)"

definition reader_iso_dep_wtxm_valid :: "nat \<Rightarrow> bool" where
  "reader_iso_dep_wtxm_valid wtxm \<longleftrightarrow> wtxm \<ge> 1 \<and> wtxm \<le> 59"

definition reader_iso_dep_link_response_timeout_ms :: "nat \<Rightarrow> nat" where
  "reader_iso_dep_link_response_timeout_ms fwt_us =
     (let ms = u32n (fwt_us + 999) div 1000;
          ms = ms + 30;
          ms = (if ms < 80 then 80 else ms);
          ms = (if ms > 5000 then 5000 else ms)
      in ms)"

text \<open>The wait after S(WTX), from \<^verbatim>\<open>reader_iso_dep_frame.h\<close>; \<open>rlen\<close> is never negative here.\<close>

definition reader_iso_dep_wtx_response_timeout_ms :: "nat \<Rightarrow> cptr \<Rightarrow> nat \<Rightarrow> nat \<Rightarrow> nat option" where
  "reader_iso_dep_wtx_response_timeout_ms fwt_us rx rlen hdr_skip = do {
     let base_ms = u32n (fwt_us + 999) div 1000;
     wtxm \<leftarrow> (if rx \<noteq> None \<and> rlen > hdr_skip then do {
         b \<leftarrow> rd rx hdr_skip;
         let w = unat (b AND 0x3F);
         Some (if w < 1 \<or> w > 59 then 1 else w)
       } else Some 1);
     let wait_ms = base_ms * wtxm + 30;
     let wait_ms = (if wait_ms < 80 then 80 else wait_ms);
     Some (if wait_ms > 5000 then 5000 else wait_ms)
   }"

definition reader_iso_dep_apdu_chunk_budget :: "nat \<Rightarrow> nat \<Rightarrow> nat" where
  "reader_iso_dep_apdu_chunk_budget pic_frame_max tx_hdr_len =
     (let overhead = tx_hdr_len + 2 in
      if pic_frame_max \<le> overhead then 0
      else let cap = pic_frame_max - overhead in if cap > 48 then 48 else cap)"

text \<open>The waiting time the standard gives: 4096 times two to the FWI carrier periods, in microseconds.\<close>

lemma fwt_from_fwi:
  "reader_iso_dep_fwt_us_from_fwi fwi =
     (4096 * 2 ^ reader_iso_dep_fwi_clamp fwi * 1000000 + 13559999) div 13560000"
proof -
  define k where "k = reader_iso_dep_fwi_clamp fwi"
  have k: "k \<le> 14" by (simp add: k_def reader_iso_dep_fwi_clamp_def)
  then have "(2 :: nat) ^ k \<le> 2 ^ 14" by (intro power_increasing) simp_all
  then have "(4096 * 2 ^ k * 1000000 + 13559999 :: nat) \<le> 4096 * 16384 * 1000000 + 13559999" by simp
  then have "(4096 * 2 ^ k * 1000000 + 13559999 :: nat) div 13560000 \<le> (4096 * 16384 * 1000000 + 13559999) div 13560000"
    by (rule div_le_mono)
  then have "(4096 * 2 ^ k * 1000000 + 13559999 :: nat) div 13560000 < 4294967296" by simp
  then show ?thesis
    by (simp add: reader_iso_dep_fwt_us_from_fwi_def k_def reader_iso_dep_fwi_clamp_def)
qed

lemma fwt_bounds: "302 \<le> reader_iso_dep_fwt_us_from_fwi fwi" "reader_iso_dep_fwt_us_from_fwi fwi \<le> 4949060"
proof -
  define k where "k = reader_iso_dep_fwi_clamp fwi"
  have k: "k \<le> 14" by (simp add: k_def reader_iso_dep_fwi_clamp_def)
  have p: "(1 :: nat) \<le> 2 ^ k" "(2 :: nat) ^ k \<le> 2 ^ 14" using k by (simp, intro power_increasing) simp_all
  have "(4096 * 1 * 1000000 + 13559999 :: nat) div 13560000 \<le> (4096 * 2 ^ k * 1000000 + 13559999) div 13560000"
    by (rule div_le_mono) (use p in simp)
  moreover have "(4096 * 2 ^ k * 1000000 + 13559999 :: nat) div 13560000 \<le> (4096 * 2 ^ 14 * 1000000 + 13559999) div 13560000"
    by (rule div_le_mono) (use p in simp)
  ultimately show "302 \<le> reader_iso_dep_fwt_us_from_fwi fwi" "reader_iso_dep_fwt_us_from_fwi fwi \<le> 4949060"
    unfolding fwt_from_fwi k_def [symmetric] by simp_all
qed

section \<open>Answer to select\<close>

record ats_profile =
  ap_fsci :: nat
  ap_pic_frame_max :: nat
  ap_fwi :: nat
  ap_fwt_us :: nat
  ap_has_ta :: bool
  ap_ta :: u8
  ap_has_tb :: bool
  ap_tb :: u8
  ap_has_tc :: bool
  ap_tc :: u8
  ap_supports_cid :: bool
  ap_supports_nad :: bool
  ap_historical_offset :: nat
  ap_historical_len :: nat

definition reader_iso_dep_ats_profile_reset :: ats_profile where
  "reader_iso_dep_ats_profile_reset = \<lparr>
     ap_fsci = 0, ap_pic_frame_max = NFC_ISO14443_FSC_MAX, ap_fwi = ISO_DEP_FWI_DEFAULT,
     ap_fwt_us = reader_iso_dep_fwt_us_from_fwi ISO_DEP_FWI_DEFAULT, ap_has_ta = False, ap_ta = 0,
     ap_has_tb = False, ap_tb = 0, ap_has_tc = False, ap_tc = 0, ap_supports_cid = False,
     ap_supports_nad = False, ap_historical_offset = 0, ap_historical_len = 0\<rparr>"

definition reader_iso_dep_fsc_from_fsci :: "nat \<Rightarrow> nat" where
  "reader_iso_dep_fsc_from_fsci fsci =
     (if fsci < 9 then [16, 24, 32, 40, 48, 64, 96, 128, 256] ! fsci else NFC_ISO14443_FSC_MAX)"

definition reader_iso_dep_parse_ats_profile :: "cptr \<Rightarrow> nat \<Rightarrow> (bool \<times> ats_profile) option" where
  "reader_iso_dep_parse_ats_profile ats ats_len = do {
     let p = reader_iso_dep_ats_profile_reset;
     if ats = None \<or> ats_len < 2 then Some (False, p)
     else do {
       t0 \<leftarrow> nero_nfc_u8_at ats ats_len 1;
       let fsci = unat (t0 AND 0x0F);
       let p = p\<lparr>ap_fsci := fsci, ap_pic_frame_max := reader_iso_dep_fsc_from_fsci fsci\<rparr>;
       let pos = 2;
       (p, pos) \<leftarrow> (if t0 AND 0x10 \<noteq> 0 \<and> pos < ats_len then do {
           b \<leftarrow> rd ats pos;
           Some (p\<lparr>ap_has_ta := True, ap_ta := b\<rparr>, pos + 1)
         } else Some (p, pos));
       (p, pos) \<leftarrow> (if t0 AND 0x20 \<noteq> 0 \<and> pos < ats_len then do {
           b \<leftarrow> rd ats pos;
           Some (p\<lparr>ap_has_tb := True, ap_tb := b, ap_fwi := unat (drop_bit 4 b AND 0x0F)\<rparr>, pos + 1)
         } else Some (p, pos));
       if ap_has_tb p \<and> ap_fwi p > ISO_DEP_FWI_MAX then Some (False, reader_iso_dep_ats_profile_reset)
       else do {
         let p = (if ap_has_tb p then p\<lparr>ap_fwt_us := reader_iso_dep_fwt_us_from_fwi (ap_fwi p)\<rparr> else p);
         (p, pos) \<leftarrow> (if t0 AND 0x40 \<noteq> 0 \<and> pos < ats_len then do {
             b \<leftarrow> rd ats pos;
             Some (p\<lparr>ap_has_tc := True, ap_tc := b, ap_supports_cid := (b AND 0x02 \<noteq> 0),
                     ap_supports_nad := (b AND 0x01 \<noteq> 0)\<rparr>, pos + 1)
           } else Some (p, pos));
         Some (True, if pos < ats_len
           then p\<lparr>ap_historical_offset := pos, ap_historical_len := ats_len - pos\<rparr> else p)
       }
     }
   }"

section \<open>Theorems\<close>

lemma ceil_ms: "n \<le> 1000 * ((n + 999) div 1000)" for n :: nat
  by (simp add: mult.commute)

text \<open>
  the reader waits long enough, and never too long. For every FWI a card may announce the
  response timeout covers the frame waiting time and lies between 80 ms and 5 s; after a
  waiting-time extension by a factor of 1 to 59 the timeout covers the extended time up to
  the largest one the standard allows (the waiting time of FWI 14), within the same limits;
  a factor outside the range counts as 1.
\<close>

theorem timeouts_cover_waiting_time:
  fixes fwi :: nat and b :: u8
  defines "fwt \<equiv> reader_iso_dep_fwt_us_from_fwi fwi"
    and "wtxm \<equiv> (if reader_iso_dep_wtxm_valid (unat (b AND 0x3F)) then unat (b AND 0x3F) else 1)"
  shows "fwt \<le> 1000 * reader_iso_dep_link_response_timeout_ms fwt \<and>
    80 \<le> reader_iso_dep_link_response_timeout_ms fwt \<and> reader_iso_dep_link_response_timeout_ms fwt \<le> 5000 \<and>
    (\<exists>t. reader_iso_dep_wtx_response_timeout_ms fwt (Some (pre @ b # rest)) (length pre + 1 + length rest) (length pre) = Some t \<and>
      min (fwt * wtxm) (reader_iso_dep_fwt_us_from_fwi 14) \<le> 1000 * t \<and> 80 \<le> t \<and> t \<le> 5000)"
proof -
  have f: "fwt \<le> 4949060" unfolding fwt_def by (rule fwt_bounds)
  have mx: "reader_iso_dep_fwt_us_from_fwi 14 \<le> 4949060" by (rule fwt_bounds)
  have u: "u32n (fwt + 999) = fwt + 999" using f by simp
  define base where "base = (fwt + 999) div 1000"
  have c: "fwt \<le> 1000 * base" "base \<le> 4950" using ceil_ms [of fwt] f by (simp_all add: base_def)
  have link: "reader_iso_dep_link_response_timeout_ms fwt = (if base + 30 < 80 then 80 else if base + 30 > 5000 then 5000 else base + 30)"
    by (simp add: reader_iso_dep_link_response_timeout_ms_def u base_def Let_def)
  have w: "(if unat (b AND 0x3F) < 1 \<or> unat (b AND 0x3F) > 59 then 1 else unat (b AND 0x3F)) = wtxm"
    by (auto simp: wtxm_def reader_iso_dep_wtxm_valid_def)
  define t where "t = (if base * wtxm + 30 < 80 then 80 else if base * wtxm + 30 > 5000 then 5000 else base * wtxm + 30)"
  have rdb: "rd (Some (pre @ b # rest)) (length pre) = Some b" by simp
  have wt: "reader_iso_dep_wtx_response_timeout_ms fwt (Some (pre @ b # rest)) (length pre + 1 + length rest) (length pre) = Some t"
    unfolding reader_iso_dep_wtx_response_timeout_ms_def Let_def u base_def [symmetric] rdb bind.bind_lunit w
    by (simp add: t_def)
  have "fwt * wtxm \<le> 1000 * (base * wtxm)" using mult_le_mono1 [OF c(1), of wtxm] by (simp add: ac_simps)
  moreover have "min y z \<le> 1000 * (if x + 30 < 80 then 80 else if x + 30 > 5000 then 5000 else x + 30)"
    if "y \<le> 1000 * x" "z \<le> 4949060" for x y z :: nat
    using that by auto
  ultimately have "min (fwt * wtxm) (reader_iso_dep_fwt_us_from_fwi 14) \<le> 1000 * t" using mx unfolding t_def by blast
  then show ?thesis unfolding wt link using c by (auto simp: t_def)
qed

text \<open>
  fragments fit the card. With a prologue of \<open>hdr\<close> bytes, a fragment of the chosen size
  and the two check bytes fill at most the frame size the card announced; and for every
  frame size a card can announce and every prologue the reader uses (1 to 3 bytes) a fragment
  is not empty, so every APDU can be sent.
\<close>

theorem chunk_fits_frame:
  shows "(reader_iso_dep_apdu_chunk_budget fsc hdr = 0 \<or>
      hdr + reader_iso_dep_apdu_chunk_budget fsc hdr + 2 \<le> fsc) \<and>
    reader_iso_dep_apdu_chunk_budget fsc hdr \<le> 48 \<and>
    (hdr \<le> 3 \<longrightarrow> 11 \<le> reader_iso_dep_apdu_chunk_budget (reader_iso_dep_fsc_from_fsci fsci) hdr)"
proof -
  have "16 \<le> [16, 24, 32, 40, 48, 64, 96, 128, 256 :: nat] ! k" if "k < 9" for k
    using that by (simp add: less_Suc_eq numeral_eq_Suc) auto
  then have "16 \<le> reader_iso_dep_fsc_from_fsci fsci" by (simp add: reader_iso_dep_fsc_from_fsci_def)
  then show ?thesis by (auto simp: reader_iso_dep_apdu_chunk_budget_def Let_def)
qed

theorem chunk_fits_frame_witness:
  "reader_iso_dep_apdu_chunk_budget 16 1 = 13 \<and> 11 \<le> reader_iso_dep_apdu_chunk_budget (reader_iso_dep_fsc_from_fsci 0) 3"
  using chunk_fits_frame [of 16 1 0] chunk_fits_frame [of 16 3 0]
  by (simp add: reader_iso_dep_apdu_chunk_budget_def)

text \<open>The ATS a card sends: length, format byte, the interface bytes it announces, history.\<close>

definition ats_t0 :: "u8 \<Rightarrow> u8 option \<Rightarrow> u8 option \<Rightarrow> u8 option \<Rightarrow> u8" where
  "ats_t0 fsci ta tb tc = fsci OR (if ta = None then 0 else 0x10) OR (if tb = None then 0 else 0x20) OR
     (if tc = None then 0 else 0x40)"

definition ats_bytes :: "u8 \<Rightarrow> u8 \<Rightarrow> u8 option \<Rightarrow> u8 option \<Rightarrow> u8 option \<Rightarrow> bytes \<Rightarrow> bytes" where
  "ats_bytes len fsci ta tb tc hist =
     [len, ats_t0 fsci ta tb tc] @ case_option [] (\<lambda>b. [b]) ta @ case_option [] (\<lambda>b. [b]) tb @
     case_option [] (\<lambda>b. [b]) tc @ hist"

definition ats_fwi :: "u8 option \<Rightarrow> nat" where
  "ats_fwi tb = (case tb of None \<Rightarrow> 4 | Some b \<Rightarrow> unat (drop_bit 4 b))"

definition ats_profile_of :: "u8 \<Rightarrow> u8 option \<Rightarrow> u8 option \<Rightarrow> u8 option \<Rightarrow> bytes \<Rightarrow> ats_profile" where
  "ats_profile_of fsci ta tb tc hist = \<lparr>
     ap_fsci = unat fsci, ap_pic_frame_max = reader_iso_dep_fsc_from_fsci (unat fsci),
     ap_fwi = ats_fwi tb, ap_fwt_us = reader_iso_dep_fwt_us_from_fwi (ats_fwi tb),
     ap_has_ta = (ta \<noteq> None), ap_ta = (case ta of None \<Rightarrow> 0 | Some b \<Rightarrow> b),
     ap_has_tb = (tb \<noteq> None), ap_tb = (case tb of None \<Rightarrow> 0 | Some b \<Rightarrow> b),
     ap_has_tc = (tc \<noteq> None), ap_tc = (case tc of None \<Rightarrow> 0 | Some b \<Rightarrow> b),
     ap_supports_cid = (case tc of None \<Rightarrow> False | Some b \<Rightarrow> b AND 0x02 \<noteq> 0),
     ap_supports_nad = (case tc of None \<Rightarrow> False | Some b \<Rightarrow> b AND 0x01 \<noteq> 0),
     ap_historical_offset = (if hist = [] then 0
       else 2 + of_bool (ta \<noteq> None) + of_bool (tb \<noteq> None) + of_bool (tc \<noteq> None)),
     ap_historical_len = length hist\<rparr>"

lemma ats_t0_bits:
  assumes "fsci AND 0x0F = fsci"
  shows "ats_t0 fsci ta tb tc AND 0x0F = fsci" "(ats_t0 fsci ta tb tc AND 0x10 \<noteq> 0) = (ta \<noteq> None)"
    "(ats_t0 fsci ta tb tc AND 0x20 \<noteq> 0) = (tb \<noteq> None)" "(ats_t0 fsci ta tb tc AND 0x40 \<noteq> 0) = (tc \<noteq> None)"
proof -
  have z: "fsci AND 0x10 = 0" "fsci AND 0x20 = 0" "fsci AND 0x40 = 0"
    by (subst assms [symmetric], simp add: and.assoc)+
  show "ats_t0 fsci ta tb tc AND 0x0F = fsci" "(ats_t0 fsci ta tb tc AND 0x10 \<noteq> 0) = (ta \<noteq> None)"
    "(ats_t0 fsci ta tb tc AND 0x20 \<noteq> 0) = (tb \<noteq> None)" "(ats_t0 fsci ta tb tc AND 0x40 \<noteq> 0) = (tc \<noteq> None)"
    using z assms by (auto simp: ats_t0_def bit.conj_disj_distrib2)
qed

lemma drop_4_and_15: "drop_bit 4 (b :: u8) AND 0x0F = drop_bit 4 b"
proof (rule bit_word_eqI)
  fix n assume "n < LENGTH(8)"
  then show "bit (drop_bit 4 b AND 0x0F) n = bit (drop_bit 4 b) n"
    by (auto simp: bit_and_iff bit_drop_bit_eq less_Suc_eq numeral_eq_Suc dest: bit_imp_le_length)
qed

text \<open>
  the ATS parser recovers what a card announces: the frame size, the waiting time
  (default FWI 4 without TB(1)), the presence and values of the interface bytes, CID and NAD
  support, and the place of the historical bytes. It fails closed on the reserved FWI 15.
  No byte outside the ATS is read.
\<close>

theorem parse_ats_roundtrip:
  assumes "fsci AND 0x0F = fsci" and "length hist \<le> 250"
  shows "reader_iso_dep_parse_ats_profile (Some (ats_bytes len fsci ta tb tc hist @ rest))
      (length (ats_bytes len fsci ta tb tc hist)) =
    Some (if ats_fwi tb \<le> 14 then (True, ats_profile_of fsci ta tb tc hist)
          else (False, reader_iso_dep_ats_profile_reset))"
proof -
  note bits = ats_t0_bits [OF assms(1), of ta tb tc]
  have t0: "nero_nfc_u8_at (Some (ats_bytes len fsci ta tb tc hist @ rest)) (length (ats_bytes len fsci ta tb tc hist)) 1 =
      Some (ats_t0 fsci ta tb tc)"
    using assms(2) by (subst u8_at_in) (simp_all add: ats_bytes_def split: option.split)
  have two: "\<not> length (ats_bytes len fsci ta tb tc hist) < 2" by (simp add: ats_bytes_def)
  show ?thesis
    unfolding reader_iso_dep_parse_ats_profile_def Let_def t0 bits bind.bind_lunit
    using two assms(2)
    by (cases ta; cases tb; cases tc; cases "hist = []")
      (simp_all add: ats_bytes_def ats_profile_of_def ats_fwi_def reader_iso_dep_ats_profile_reset_def
        nth_append nth_Cons' drop_4_and_15)
qed

theorem parse_ats_roundtrip_witness:
  "reader_iso_dep_parse_ats_profile (Some (ats_bytes 5 8 None (Some 0x81) (Some 0x02) [])) 4 =
    Some (True, ats_profile_of 8 None (Some 0x81) (Some 0x02) [])"
proof -
  have f: "ats_fwi (Some 0x81) \<le> 14" by (simp add: ats_fwi_def)
  have l: "length (ats_bytes 5 8 None (Some 0x81) (Some 0x02) []) = 4" by (simp add: ats_bytes_def)
  have m: "(8 :: u8) AND 0x0F = 8" "length ([] :: bytes) \<le> 250" by simp_all
  show ?thesis
    using parse_ats_roundtrip [OF m, of 5 None "Some 0x81" "Some 0x02" "[]"] f unfolding l by simp
qed

end
