(* ===== verification/IsoDepFrame.thy ===== *)
theory IsoDepFrame
  imports IsoDepTiming
begin

text \<open>
  ISO-DEP frames: CRC_A, the recognisers of received blocks, and the encoders of sent ones
  (\<^verbatim>\<open>reader_iso_dep_frame.h\<close> and \<^verbatim>\<open>reader_iso_dep_apdu_relay.h\<close>). The lengths \<open>rlen\<close> of
  received frames are \<open>int\<close> in the code; they are never negative where these functions are
  called, so they are \<open>nat\<close> here.
\<close>

section \<open>CRC_A\<close>

definition crc_a_step :: "u8 \<Rightarrow> 16 word \<Rightarrow> 16 word" where
  "crc_a_step x crc =
     (let b = x XOR ucast (crc AND 0x00FF);
          b = b XOR push_bit 4 b
      in drop_bit 8 crc XOR push_bit 8 (ucast b) XOR push_bit 3 (ucast b) XOR drop_bit 4 (ucast b))"

fun crc_a_loop :: "cptr \<Rightarrow> nat \<Rightarrow> nat \<Rightarrow> 16 word \<Rightarrow> 16 word option" where
  "crc_a_loop buf i 0 crc = Some crc"
| "crc_a_loop buf i (Suc n) crc = do {
     x \<leftarrow> rd buf i;
     crc_a_loop buf (i + 1) n (crc_a_step x crc)
   }"

definition reader_iso_dep_crc_a :: "cptr \<Rightarrow> nat \<Rightarrow> 16 word option" where
  "reader_iso_dep_crc_a buf len = (if buf = None then Some 0x6363 else crc_a_loop buf 0 len 0x6363)"

definition reader_iso_dep_has_crc_a_suffix :: "cptr \<Rightarrow> nat \<Rightarrow> bool option" where
  "reader_iso_dep_has_crc_a_suffix frame len =
     (if frame = None \<or> len < 3 then Some False
      else do {
        crc \<leftarrow> reader_iso_dep_crc_a frame (len - 2);
        lo \<leftarrow> nero_nfc_u8_at frame len (len - 2);
        if lo \<noteq> ucast (crc AND 0x00FF) then Some False
        else do {
          hi \<leftarrow> nero_nfc_u8_at frame len (len - 1);
          Some (hi = ucast (drop_bit 8 crc))
        }
      })"

definition reader_iso_dep_chained_crc_tail_len :: "u8 \<Rightarrow> cptr \<Rightarrow> nat \<Rightarrow> nat option" where
  "reader_iso_dep_chained_crc_tail_len pcb frame len =
     (if frame = None then Some 0
      else if pcb AND 0x10 = 0 then Some 0
      else do {
        ok \<leftarrow> reader_iso_dep_has_crc_a_suffix frame len;
        Some (if \<not> ok then 0 else 2)
      })"

section \<open>Status words\<close>

definition reader_iso_dep_sw16_confidence :: "u8 \<Rightarrow> u8 \<Rightarrow> nat" where
  "reader_iso_dep_sw16_confidence s1 s2 =
     (if s1 = 0x61 then 4
      else if s1 = 0x90 \<and> s2 = 0x00 then 3
      else if s1 \<ge> 0x67 \<and> s1 \<le> 0x6F then 3
      else if s1 \<ge> 0x62 \<and> s1 \<le> 0x6F then 1
      else 0)"

definition reader_iso_dep_trim_crc_suffix :: "cptr \<Rightarrow> nat \<Rightarrow> nat option" where
  "reader_iso_dep_trim_crc_suffix buf len =
     (if buf = None \<or> len < 4 then Some len
      else do {
        t1 \<leftarrow> nero_nfc_u8_at buf len (len - 2);
        t2 \<leftarrow> nero_nfc_u8_at buf len (len - 1);
        let tail_confidence = reader_iso_dep_sw16_confidence t1 t2;
        b1 \<leftarrow> nero_nfc_u8_at buf len (len - 4);
        b2 \<leftarrow> nero_nfc_u8_at buf len (len - 3);
        let before_tail_confidence = reader_iso_dep_sw16_confidence b1 b2;
        if (b1 = 0x61 \<or> b1 = 0x90 \<and> b2 = 0x00) \<and> t1 \<noteq> 0x61 then Some (len - 2)
        else if before_tail_confidence \<noteq> 0 \<and>
            (tail_confidence = 0 \<or> before_tail_confidence > tail_confidence) then Some (len - 2)
        else Some len
      })"

definition reader_iso_dep_apdu_response_has_status_word :: "cptr \<Rightarrow> nat \<Rightarrow> bool option" where
  "reader_iso_dep_apdu_response_has_status_word rsp rsp_len =
     (if rsp = None \<or> rsp_len < 2 then Some False
      else do {
        s1 \<leftarrow> nero_nfc_u8_at rsp rsp_len (rsp_len - 2);
        s2 \<leftarrow> nero_nfc_u8_at rsp rsp_len (rsp_len - 1);
        Some (s1 = 0x90 \<or> s1 = 0x91 \<and> s2 = 0x00 \<or> s1 \<ge> 0x61 \<and> s1 \<le> 0x6F)
      })"

section \<open>Received blocks\<close>

definition reader_iso_dep_rx_hdr_skip :: "u8 \<Rightarrow> nat" where
  "reader_iso_dep_rx_hdr_skip pcb =
     (let n = 1;
          n = (if pcb AND 0x08 \<noteq> 0 then n + 1 else n);
          n = (if pcb AND 0x04 \<noteq> 0 then n + 1 else n)
      in n)"

definition reader_iso_dep_inf_first_plausible_select_resp :: "u8 \<Rightarrow> bool" where
  "reader_iso_dep_inf_first_plausible_select_resp b \<longleftrightarrow>
     b = 0x61 \<or> b = 0x62 \<or> b = 0x64 \<or> b = 0x67 \<or> b = 0x6F \<or> b = 0x53 \<or> b = 0x78 \<or> b = 0x90 \<or>
     b \<ge> 0x63 \<and> b \<le> 0x6E"

definition reader_iso_dep_pick_inf_offset ::
    "cptr \<Rightarrow> nat \<Rightarrow> bool \<Rightarrow> u8 \<Rightarrow> bool \<Rightarrow> u8 \<Rightarrow> nat option" where
  "reader_iso_dep_pick_inf_offset rx rlen pcb_has_cid cid have_tc tc_byte =
     (if rlen < 1 \<or> rx = None then Some 0
      else do {
        pcb \<leftarrow> rd rx 0;
        let nstd = reader_iso_dep_rx_hdr_skip pcb;
        if pcb AND 0xC0 \<noteq> 0x00 \<or> \<not> pcb_has_cid then Some nstd
        else do {
          b1 \<leftarrow> (if cid \<noteq> 0 \<and> rlen \<ge> 4 \<and> pcb AND 0x08 = 0 then nero_nfc_u8_at rx rlen 1 else Some 0);
          if cid \<noteq> 0 \<and> rlen \<ge> 4 \<and> pcb AND 0x08 = 0 \<and> b1 = cid then Some 2
          else if have_tc \<and> tc_byte AND 0x01 \<noteq> 0 \<and> pcb AND 0x08 \<noteq> 0 \<and> pcb AND 0x04 = 0 \<and>
              pcb AND 0x10 = 0 \<and> nstd \<ge> 2 \<and> rlen \<ge> nstd + 3 \<and> rlen \<le> 100
          then do {
            fa \<leftarrow> rd rx nstd;
            fb \<leftarrow> rd rx (nstd + 1);
            Some (if fa \<le> 0x07 \<and> reader_iso_dep_inf_first_plausible_select_resp fb then nstd + 1 else nstd)
          }
          else Some nstd
        }
      })"

definition reader_iso_dep_rx_nad_byte :: "cptr \<Rightarrow> nat \<Rightarrow> u8 \<Rightarrow> u8 \<Rightarrow> u8 option" where
  "reader_iso_dep_rx_nad_byte rx rlen pcb default_nad =
     (let nad_idx = (if pcb AND 0x08 \<noteq> 0 then 2 else 1) in
      if pcb AND 0x04 \<noteq> 0 \<and> rx \<noteq> None \<and> rlen > nad_idx then rd rx nad_idx else Some default_nad)"

definition reader_iso_dep_rx_i_block_number_matches :: "cptr \<Rightarrow> nat \<Rightarrow> u8 \<Rightarrow> bool option" where
  "reader_iso_dep_rx_i_block_number_matches rx rlen expected_block =
     (if rx = None \<or> rlen < 1 then Some False
      else do {
        pcb \<leftarrow> rd rx 0;
        if pcb AND 0xC0 \<noteq> 0x00 then Some False
        else if rlen < reader_iso_dep_rx_hdr_skip pcb then Some False
        else Some (pcb AND 0x01 = expected_block AND 0x01)
      })"

text \<open>The result is the number of INF bytes and of check bytes behind them.\<close>

definition reader_iso_dep_i_block_inf_len :: "cptr \<Rightarrow> nat \<Rightarrow> nat \<Rightarrow> u8 \<Rightarrow> (bool \<times> nat \<times> nat) option" where
  "reader_iso_dep_i_block_inf_len rx rlen inf_off pcb =
     (if rx = None then Some (False, 0, 0)
      else if rlen < inf_off + 2 then Some (False, 0, 0)
      else do {
        let frame_inf_len = u16n (u16n rlen - inf_off);
        crc_tail_len \<leftarrow> reader_iso_dep_chained_crc_tail_len pcb rx (u16n rlen);
        if frame_inf_len < crc_tail_len then Some (False, 0, 0)
        else Some (True, frame_inf_len - crc_tail_len, crc_tail_len)
      })"

definition reader_iso_dep_rx_rblock_block :: "cptr \<Rightarrow> nat \<Rightarrow> bool \<Rightarrow> bool \<Rightarrow> u8 \<Rightarrow> u8 option option" where
  "reader_iso_dep_rx_rblock_block rx rlen expect_nak pcb_has_cid cid =
     (if rx = None \<or> rlen < 1 then Some None
      else do {
        pcb \<leftarrow> rd rx 0;
        if rlen < reader_iso_dep_rx_hdr_skip pcb then Some None
        else if pcb AND 0xE6 \<noteq> 0xA2 then Some None
        else if (pcb AND 0x10 \<noteq> 0) \<noteq> expect_nak then Some None
        else if pcb_has_cid then
          (if pcb AND 0x08 = 0 then Some None
           else do {
             b \<leftarrow> rd rx 1;
             Some (if b \<noteq> cid then None else Some (pcb AND 0x01))
           })
        else Some (Some (pcb AND 0x01))
      })"

definition reader_iso_dep_rx_is_chain_ack_for_block ::
    "cptr \<Rightarrow> nat \<Rightarrow> u8 \<Rightarrow> bool \<Rightarrow> u8 \<Rightarrow> bool option" where
  "reader_iso_dep_rx_is_chain_ack_for_block rx rlen blk_sent pcb_has_cid cid = do {
     r \<leftarrow> reader_iso_dep_rx_rblock_block rx rlen False pcb_has_cid cid;
     Some (r = Some (blk_sent AND 0x01))
   }"

definition reader_iso_dep_rx_is_chain_nak_for_block ::
    "cptr \<Rightarrow> nat \<Rightarrow> u8 \<Rightarrow> bool \<Rightarrow> u8 \<Rightarrow> bool option" where
  "reader_iso_dep_rx_is_chain_nak_for_block rx rlen blk_sent pcb_has_cid cid = do {
     r \<leftarrow> reader_iso_dep_rx_rblock_block rx rlen True pcb_has_cid cid;
     Some (case r of None \<Rightarrow> False
       | Some block \<Rightarrow> block = blk_sent AND 0x01 \<or> block = (blk_sent XOR 0x01) AND 0x01)
   }"

section \<open>Sent blocks\<close>

text \<open>The result is the success flag, the length of the block and the buffer.\<close>

definition reader_iso_dep_build_chained_ack ::
    "cptr \<Rightarrow> nat \<Rightarrow> u8 \<Rightarrow> bool \<Rightarrow> u8 \<Rightarrow> (bool \<times> nat \<times> cptr) option" where
  "reader_iso_dep_build_chained_ack ack_out ack_cap block_num pcb_has_cid cid =
     (let ack_pcb = 0xA2 OR (block_num AND 0x01) in
      if ack_out = None \<or> ack_cap < 1 then Some (False, 0, ack_out)
      else let ack_pcb = (if pcb_has_cid then ack_pcb OR 0x08 else ack_pcb) in do {
        (ok, ack_out) \<leftarrow> nero_nfc_store_u8 ack_out ack_cap 0 ack_pcb;
        if \<not> ok then Some (False, 0, ack_out)
        else if pcb_has_cid then
          (if 1 \<ge> ack_cap then Some (False, 0, ack_out)
           else do {
             (ok, ack_out) \<leftarrow> nero_nfc_store_u8 ack_out ack_cap 1 cid;
             Some (if ok then (True, 2, ack_out) else (False, 0, ack_out))
           })
        else Some (True, 1, ack_out)
      })"

record i_block_tx =
  itx_pcb :: u8
  itx_hdr_len :: nat
  itx_frag_len :: nat
  itx_wire_len :: nat
  itx_chain_more :: bool

definition reader_iso_dep_i_block_tx_reset :: i_block_tx where
  "reader_iso_dep_i_block_tx_reset =
     \<lparr>itx_pcb = 0, itx_hdr_len = 0, itx_frag_len = 0, itx_wire_len = 0, itx_chain_more = False\<rparr>"

definition reader_iso_dep_i_block_tx_hdr_len :: "bool \<Rightarrow> bool \<Rightarrow> nat" where
  "reader_iso_dep_i_block_tx_hdr_len pcb_has_cid include_nad =
     (let hdr_len = 1;
          hdr_len = (if pcb_has_cid then hdr_len + 1 else hdr_len);
          hdr_len = (if include_nad then hdr_len + 1 else hdr_len)
      in hdr_len)"

definition reader_iso_dep_build_i_block_tx ::
    "cptr \<Rightarrow> nat \<Rightarrow> cptr \<Rightarrow> nat \<Rightarrow> nat \<Rightarrow> nat \<Rightarrow> bool \<Rightarrow> u8 \<Rightarrow> bool \<Rightarrow> u8 \<Rightarrow> u8 \<Rightarrow>
      (bool \<times> i_block_tx \<times> cptr) option" where
  "reader_iso_dep_build_i_block_tx tx tx_cap apdu apdu_len apdu_off frag_cap pcb_has_cid cid include_nad
       nad block_num =
     (let info = reader_iso_dep_i_block_tx_reset in
      if tx = None \<or> apdu_off \<ge> apdu_len \<or> (apdu = None \<and> apdu_len \<noteq> 0) \<or> frag_cap = 0
      then Some (False, info, tx)
      else let remain = apdu_len - apdu_off;
               frag_len = (if remain > frag_cap then frag_cap else remain);
               hdr_len = reader_iso_dep_i_block_tx_hdr_len pcb_has_cid include_nad
      in case nero_nfc_try_add_u16 frag_len hdr_len of
        None \<Rightarrow> Some (False, info, tx)
      | Some wire_len \<Rightarrow>
          if wire_len > tx_cap then Some (False, info, tx)
          else let pcb = 0x02 OR (block_num AND 0x01);
                   pcb = (if pcb_has_cid then pcb OR 0x08 else pcb);
                   pcb = (if include_nad then pcb OR 0x04 else pcb);
                   pcb = (if remain > frag_cap then pcb OR 0x10 else pcb)
          in do {
            (ok, tx) \<leftarrow> nero_nfc_store_u8 tx tx_cap 0 pcb;
            if \<not> ok then Some (False, info, tx)
            else do {
              let tx_pos = 1;
              (tx, tx_pos) \<leftarrow> (if pcb_has_cid then do { tx \<leftarrow> wr tx tx_pos cid; Some (tx, tx_pos + 1) }
                               else Some (tx, tx_pos));
              (tx, tx_pos) \<leftarrow> (if include_nad then do { tx \<leftarrow> wr tx tx_pos nad; Some (tx, tx_pos + 1) }
                               else Some (tx, tx_pos));
              if tx_pos \<noteq> hdr_len then Some (False, info, tx)
              else do {
                (ok, tx) \<leftarrow> nero_nfc_copy_from tx tx_cap hdr_len apdu apdu_len apdu_off frag_len;
                if \<not> ok then Some (False, info, tx)
                else Some (True, \<lparr>itx_pcb = pcb, itx_hdr_len = hdr_len, itx_frag_len = frag_len,
                       itx_wire_len = wire_len, itx_chain_more = (remain > frag_cap)\<rparr>, tx)
              }
            }
          })"

definition reader_iso_dep_build_wtx_echo ::
    "cptr \<Rightarrow> nat \<Rightarrow> cptr \<Rightarrow> nat \<Rightarrow> nat \<Rightarrow> (bool \<times> nat \<times> cptr) option" where
  "reader_iso_dep_build_wtx_echo wtx_out wtx_cap rx rlen hdr_skip =
     (if wtx_out = None \<or> rx = None \<or> hdr_skip = 255 then Some (False, 0, wtx_out)
      else let wtx_len = u8n (hdr_skip + 1) in
        if rlen < wtx_len \<or> wtx_len > wtx_cap then Some (False, 0, wtx_out)
        else do {
          (ok, wtx_out) \<leftarrow> nero_nfc_copy_bytes wtx_out wtx_cap 0 rx wtx_len;
          if \<not> ok then Some (False, 0, wtx_out)
          else do {
            b \<leftarrow> nero_nfc_u8_at rx rlen hdr_skip;
            let wtxm = b AND 0x3F;
            if wtxm < 1 \<or> wtxm > 59 then Some (False, 0, wtx_out)
            else do {
              (ok, wtx_out) \<leftarrow> nero_nfc_store_u8 wtx_out wtx_cap hdr_skip wtxm;
              Some (if ok then (True, wtx_len, wtx_out) else (False, 0, wtx_out))
            }
          }
        })"

text \<open>The result is the success flag, whether the bytes were appended, the new total and the buffer.\<close>

definition reader_iso_dep_append_inf ::
    "cptr \<Rightarrow> nat \<Rightarrow> nat \<Rightarrow> cptr \<Rightarrow> nat \<Rightarrow> (bool \<times> bool \<times> nat \<times> cptr) option" where
  "reader_iso_dep_append_inf resp resp_cap tot inf_data inf_len =
     (if resp = None \<or> (inf_data = None \<and> inf_len \<noteq> 0) then Some (False, False, tot, resp)
      else case nero_nfc_try_add_u16 tot inf_len of
        None \<Rightarrow> Some (True, False, tot, resp)
      | Some next_total \<Rightarrow>
          if next_total > resp_cap then Some (True, False, tot, resp)
          else do {
            (ok, resp) \<leftarrow> nero_nfc_copy_bytes resp resp_cap tot inf_data inf_len;
            Some (if \<not> ok then (False, False, tot, resp) else (True, True, next_total, resp))
          })"

section \<open>The check sum\<close>

text \<open>The reference: one bit at a time, generator 0x8408 (reflected CRC-16).\<close>

definition crc_bit :: "16 word \<Rightarrow> 16 word" where
  "crc_bit c = (if bit c 0 then drop_bit 1 c XOR 0x8408 else drop_bit 1 c)"

definition crc_byte :: "u8 \<Rightarrow> 16 word \<Rightarrow> 16 word" where
  "crc_byte x c = (crc_bit ^^ 8) (c XOR ucast x)"

definition crc_table :: "u8 \<Rightarrow> 16 word" where
  "crc_table t = (let b = t XOR push_bit 4 t in
     push_bit 8 (ucast b) XOR push_bit 3 (ucast b) XOR drop_bit 4 (ucast b))"

lemma crc_bit_xor: "crc_bit (a XOR b) = crc_bit a XOR crc_bit b"
  by (rule bit_word_eqI) (simp add: crc_bit_def bit_xor_iff bit_drop_bit_eq, blast)

lemma crc_bits_xor: "(crc_bit ^^ n) (a XOR b) = (crc_bit ^^ n) a XOR (crc_bit ^^ n) b"
  by (induction n) (simp_all add: crc_bit_xor)

lemma xor_zero_iff: "a XOR b = 0 \<longleftrightarrow> a = b" for a b :: "'a :: len word"
proof
  assume "a XOR b = 0"
  then have "(a XOR b) XOR b = b" by simp
  then show "a = b" by (simp add: xor.assoc)
qed simp

lemma ucast_xor_16: "ucast (a XOR b) = (ucast a XOR ucast b :: 16 word)" for a b :: u8
  by (rule bit_word_eqI) (auto simp: bit_xor_iff bit_ucast_iff)

lemma crc_table_xor: "crc_table (a XOR b) = crc_table a XOR crc_table b"
  by (simp add: crc_table_def push_bit_xor drop_bit_xor ucast_xor_16 ac_simps)

lemma take_bit_Suc_xor: "take_bit (Suc n) t = take_bit n t XOR (if bit t n then 2 ^ n else 0)" for t :: u8
  by (rule bit_word_eqI) (auto simp: bit_take_bit_iff bit_xor_iff bit_exp_iff less_Suc_eq possible_bit_def)

text \<open>Both sides are linear, so it is enough to compare them on the eight single bits.\<close>

lemma crc_table_bit:
  assumes "n < 8"
  shows "(crc_bit ^^ 8) (ucast ((2 :: u8) ^ n)) = crc_table (2 ^ n)"
proof -
  have e: "(f ^^ 8) x = f (f (f (f (f (f (f (f x)))))))" for f :: "16 word \<Rightarrow> 16 word" and x
    by (simp add: numeral_eq_Suc)
  have "n = 0 \<or> n = 1 \<or> n = 2 \<or> n = 3 \<or> n = 4 \<or> n = 5 \<or> n = 6 \<or> n = 7" using assms by arith
  then show ?thesis by (elim disjE) (simp_all add: crc_table_def e crc_bit_def bit_0)
qed

lemma crc_table_eq: "(crc_bit ^^ 8) (ucast t) = crc_table t"
proof -
  have z: "crc_bit 0 = 0" by (simp add: crc_bit_def)
  have z: "(crc_bit ^^ 8) 0 = 0" "crc_table 0 = 0" by (simp_all add: z crc_table_def numeral_eq_Suc)
  have "(crc_bit ^^ 8) (ucast (take_bit n t)) = crc_table (take_bit n t)" if "n \<le> 8" for n
    using that
  proof (induction n)
    case 0
    show ?case by (simp add: z)
  next
    case (Suc n)
    have b: "(crc_bit ^^ 8) (ucast ((2 :: u8) ^ n)) = crc_table (2 ^ n)" using Suc.prems by (intro crc_table_bit) simp
    have h: "(crc_bit ^^ 8) (ucast (take_bit n t)) = crc_table (take_bit n t)" using Suc by simp
    show ?case
      unfolding take_bit_Suc_xor ucast_xor_16 crc_bits_xor crc_table_xor h by (simp add: b z)
  qed
  moreover have "take_bit 8 t = t" by (rule bit_word_eqI) (auto simp: bit_take_bit_iff)
  ultimately show ?thesis by (metis order_refl)
qed

lemma crc_bits_high:
  assumes "\<forall>i<n. \<not> bit c i"
  shows "(crc_bit ^^ n) c = drop_bit n c"
  using assms
proof (induction n arbitrary: c)
  case (Suc n)
  have "crc_bit c = drop_bit 1 c" using Suc.prems by (simp add: crc_bit_def)
  moreover have "\<forall>i<n. \<not> bit (drop_bit 1 c) i" using Suc.prems by (auto simp: bit_drop_bit_eq)
  ultimately show ?case using Suc.IH [of "drop_bit 1 c"] by (simp add: funpow_swap1 drop_bit_drop_bit)
qed simp

lemma crc_a_step_table: "crc_a_step x crc = drop_bit 8 crc XOR crc_table (x XOR ucast crc)"
proof -
  have m: "(0x00FF :: 16 word) = mask 8" by (simp add: mask_eq_exp_minus_1)
  have "ucast (crc AND 0x00FF) = (ucast crc :: u8)"
    unfolding m by (rule bit_word_eqI) (auto simp: bit_and_iff bit_ucast_iff bit_mask_iff)
  then show ?thesis by (simp add: crc_a_step_def crc_table_def Let_def xor.assoc)
qed

lemma crc_a_step_eq: "crc_a_step x crc = crc_byte x crc"
proof -
  define h where "h = push_bit 8 (drop_bit 8 crc)"
  have c: "crc XOR ucast x = h XOR ucast (x XOR ucast crc)"
    by (rule bit_word_eqI) (auto simp: h_def bit_xor_iff bit_ucast_iff bit_push_bit_iff bit_drop_bit_eq)
  have "(crc_bit ^^ 8) h = drop_bit 8 h" by (rule crc_bits_high) (simp add: h_def bit_push_bit_iff)
  also have "\<dots> = drop_bit 8 crc"
    by (rule bit_word_eqI) (auto simp: h_def bit_push_bit_iff bit_drop_bit_eq dest: bit_imp_le_length)
  finally show ?thesis by (simp add: crc_byte_def c crc_bits_xor crc_table_eq crc_a_step_table)
qed

lemma crc_a_loop_fold:
  "crc_a_loop (Some (pre @ xs @ rest)) (length pre) (length xs) crc = Some (fold crc_byte xs crc)"
proof (induction xs arbitrary: pre crc)
  case (Cons x xs)
  show ?case using Cons.IH [of "pre @ [x]"] by (simp add: crc_a_step_eq)
qed simp

lemma crc_a_fold [simp]: "reader_iso_dep_crc_a (Some (xs @ rest)) (length xs) = Some (fold crc_byte xs 0x6363)"
  using crc_a_loop_fold [of "[]" xs rest] by (simp add: reader_iso_dep_crc_a_def)

text \<open>A table entry has an empty upper half only for the index 0.\<close>

lemma crc_table_high:
  assumes "drop_bit 8 (crc_table t) = 0"
  shows "t = 0"
proof -
  define b where "b = t XOR push_bit 4 t"
  have p1: "drop_bit 8 (push_bit 8 (ucast b :: 16 word)) = ucast b" for b :: u8
    by (rule bit_word_eqI) (auto simp: bit_drop_bit_eq bit_push_bit_iff bit_ucast_iff dest: bit_imp_le_length)
  have p2: "drop_bit 8 (push_bit 3 (ucast b :: 16 word)) = ucast (drop_bit 5 b)" for b :: u8
    by (rule bit_word_eqI) (auto simp: bit_drop_bit_eq bit_push_bit_iff bit_ucast_iff dest: bit_imp_le_length)
  have p3: "drop_bit 12 (ucast b :: 16 word) = 0" for b :: u8
    by (rule bit_word_eqI) (auto simp: bit_drop_bit_eq bit_ucast_iff dest: bit_imp_le_length)
  have "ucast (b XOR drop_bit 5 b) = (0 :: 16 word)"
    using assms by (simp add: crc_table_def b_def [symmetric] drop_bit_xor p1 p2 p3 ucast_xor_16)
  then have "bit (ucast (b XOR drop_bit 5 b) :: 16 word) n = False" for n by simp
  then have "bit b n = bit (drop_bit 5 b) n" if "n < 8" for n using that by (simp add: bit_ucast_iff bit_xor_iff)
  then have e: "b = drop_bit 5 b" by (intro bit_word_eqI) simp
  have "b = drop_bit 5 (drop_bit 5 b)" using arg_cong [OF e, of "drop_bit 5"] e by simp
  then have "b = drop_bit 10 b" by simp
  then have h: "bit b n = bit b (10 + n)" for n by (metis bit_drop_bit_eq comp_apply)
  have "\<not> bit b n" for n using h [of n] bit_imp_le_length [of b "10 + n"] by fastforce
  then have "b = 0" by (intro bit_word_eqI) simp
  then have e: "t = push_bit 4 t" by (simp add: b_def xor_zero_iff)
  have "t = push_bit 4 (push_bit 4 t)" using arg_cong [OF e, of "push_bit 4"] e by simp
  then have "t = push_bit 8 t" by simp
  then show "t = 0" by simp
qed

lemma u8_halves: "(c :: 16 word) = 0 \<longleftrightarrow> (ucast c :: u8) = 0 \<and> drop_bit 8 c = 0"
proof
  assume h: "(ucast c :: u8) = 0 \<and> drop_bit 8 c = 0"
  show "c = 0"
  proof (rule bit_word_eqI)
    fix n assume n: "n < LENGTH(16)"
    show "bit c n = bit 0 n"
    proof (cases "n < 8")
      case True
      have "bit (ucast c :: u8) n = False" using h by simp
      with True show ?thesis by (simp add: bit_ucast_iff)
    next
      case False
      have "bit (drop_bit 8 c) (n - 8) = False" using h by simp
      with False show ?thesis by (simp add: bit_drop_bit_eq)
    qed
  qed
qed simp

lemma crc_table_0 [simp]: "crc_table 0 = 0"
  by (simp add: crc_table_def)

text \<open>Two steps end in 0 only when the two bytes are the halves of the register.\<close>

lemma crc_two_zero:
  "crc_byte hi (crc_byte lo c) = 0 \<longleftrightarrow> lo = ucast c \<and> hi = ucast (drop_bit 8 c)"
proof -
  have d8: "drop_bit 8 (drop_bit 8 x) = 0" for x :: "16 word"
    by (rule bit_word_eqI) (auto simp: bit_drop_bit_eq dest: bit_imp_le_length)
  have step: "crc_byte x r = drop_bit 8 r XOR crc_table (x XOR ucast r)" for x r
    by (simp add: crc_a_step_table flip: crc_a_step_eq)
  show ?thesis
  proof
    assume z: "crc_byte hi (crc_byte lo c) = 0"
    define r where "r = crc_byte lo c"
    have "drop_bit 8 r XOR crc_table (hi XOR ucast r) = 0" using z unfolding r_def [symmetric] step [of hi] .
    then have e: "drop_bit 8 r = crc_table (hi XOR ucast r)" by (simp only: xor_zero_iff)
    have "drop_bit 8 (crc_table (hi XOR ucast r)) = 0" using arg_cong [OF e, of "drop_bit 8"] d8 by simp
    then have t: "hi XOR ucast r = 0" by (rule crc_table_high)
    then have hi: "hi = ucast r" by (simp add: xor_zero_iff)
    have "drop_bit 8 r = 0" using e t by simp
    then have "drop_bit 8 (crc_table (lo XOR ucast c)) = 0" by (simp add: r_def step drop_bit_xor d8 del: drop_bit_drop_bit)
    then have "lo XOR ucast c = 0" by (rule crc_table_high)
    then have lo: "lo = ucast c" by (simp add: xor_zero_iff)
    then have "r = drop_bit 8 c" by (simp add: r_def step)
    with hi lo show "lo = ucast c \<and> hi = ucast (drop_bit 8 c)" by simp
  next
    assume "lo = ucast c \<and> hi = ucast (drop_bit 8 c)"
    then show "crc_byte hi (crc_byte lo c) = 0" by (simp add: step d8 del: drop_bit_drop_bit)
  qed
qed

lemma crc_suffix_fold:
  assumes "length xs < 4294967296"
  shows "reader_iso_dep_has_crc_a_suffix (Some (xs @ rest)) (length xs) =
     Some (3 \<le> length xs \<and> fold crc_byte xs 0x6363 = 0)"
proof (cases "3 \<le> length xs")
  case False
  then show ?thesis by (simp add: reader_iso_dep_has_crc_a_suffix_def)
next
  case True
  obtain ys hi where x1: "xs = ys @ [hi]" using True by (cases xs rule: rev_cases) auto
  obtain zs lo where x2: "ys = zs @ [lo]" using True x1 by (cases ys rule: rev_cases) auto
  have x: "xs = zs @ [lo, hi]" by (simp add: x1 x2)
  define c where "c = fold crc_byte zs 0x6363"
  have low: "ucast (c AND 0x00FF) = (ucast c :: u8)"
  proof -
    have m: "(0x00FF :: 16 word) = mask 8" by (simp add: mask_eq_exp_minus_1)
    show ?thesis unfolding m by (rule bit_word_eqI) (auto simp: bit_and_iff bit_ucast_iff bit_mask_iff)
  qed
  have crc: "reader_iso_dep_crc_a (Some (xs @ rest)) (length xs - 2) = Some c"
    using crc_a_fold [of zs "[lo, hi] @ rest"] by (simp add: x c_def)
  have at: "nero_nfc_u8_at (Some (xs @ rest)) (length xs) (length xs - 2) = Some lo"
    "nero_nfc_u8_at (Some (xs @ rest)) (length xs) (length xs - 1) = Some hi"
    using assms by (subst u8_at_in; simp add: x nth_append)+
  have "reader_iso_dep_has_crc_a_suffix (Some (xs @ rest)) (length xs) = Some (lo = ucast c \<and> hi = ucast (drop_bit 8 c))"
    using True unfolding reader_iso_dep_has_crc_a_suffix_def crc at bind.bind_lunit low by simp
  also have "(lo = ucast c \<and> hi = ucast (drop_bit 8 c)) \<longleftrightarrow> fold crc_byte xs 0x6363 = 0"
    by (simp add: crc_two_zero [symmetric] x c_def)
  finally show ?thesis using True by simp
qed

text \<open>
  C12: the check of received frames is the CRC of the standard. The byte-wise CRC the code
  computes is the bit-serial CRC_A (preset 0x6363, generator 0x8408); and a frame of at least
  three bytes is taken to end in a CRC exactly when the CRC over the whole frame is 0.
\<close>

theorem crc_a_is_bit_serial:
  assumes "length xs < 4294967296"
  shows "reader_iso_dep_crc_a (Some (xs @ rest)) (length xs) = Some (fold crc_byte xs 0x6363) \<and>
   reader_iso_dep_has_crc_a_suffix (Some (xs @ rest)) (length xs) =
     Some (3 \<le> length xs \<and> fold crc_byte xs 0x6363 = 0)"
  using crc_suffix_fold [OF assms] by simp

theorem crc_a_is_bit_serial_witness:
  "reader_iso_dep_has_crc_a_suffix (Some [0x00, 0x00, 0xA0, 0x1E]) 4 = Some True"
proof -
  have e: "(f ^^ 8) x = f (f (f (f (f (f (f (f x)))))))" for f :: "16 word \<Rightarrow> 16 word" and x
    by (simp add: numeral_eq_Suc)
  have "fold crc_byte [0x00, 0x00, 0xA0, 0x1E] 0x6363 = 0" by (simp add: crc_byte_def e crc_bit_def bit_0)
  moreover have "length [0x00 :: u8, 0x00, 0xA0, 0x1E] = 4" by simp
  ultimately show ?thesis
    using crc_a_is_bit_serial [of "[0x00, 0x00, 0xA0, 0x1E]" "[]"] by (simp only: append_Nil2) simp
qed

section \<open>Response recognition\<close>

definition trims :: "u8 \<Rightarrow> u8 \<Rightarrow> u8 \<Rightarrow> u8 \<Rightarrow> bool" where
  "trims b1 b2 t1 t2 \<longleftrightarrow> (b1 = 0x61 \<or> b1 = 0x90 \<and> b2 = 0x00) \<and> t1 \<noteq> 0x61 \<or>
     reader_iso_dep_sw16_confidence b1 b2 \<noteq> 0 \<and> (reader_iso_dep_sw16_confidence t1 t2 = 0 \<or>
       reader_iso_dep_sw16_confidence b1 b2 > reader_iso_dep_sw16_confidence t1 t2)"

lemma trim_eq:
  assumes "n \<le> length r" and "n < 4294967296"
  shows "reader_iso_dep_trim_crc_suffix (Some r) n =
    Some (if 4 \<le> n \<and> trims (r ! (n - 4)) (r ! (n - 3)) (r ! (n - 2)) (r ! (n - 1)) then n - 2 else n)"
proof (cases "4 \<le> n")
  case True
  have at: "nero_nfc_u8_at (Some r) n (n - 2) = Some (r ! (n - 2))" "nero_nfc_u8_at (Some r) n (n - 1) = Some (r ! (n - 1))"
    "nero_nfc_u8_at (Some r) n (n - 4) = Some (r ! (n - 4))" "nero_nfc_u8_at (Some r) n (n - 3) = Some (r ! (n - 3))"
    using True assms by simp_all
  have join: "(if A then Some x else if B then Some x else Some y) = Some (if A \<or> B then x else y)" for A B and x y :: nat
    by simp
  have run: "\<not> (Some r = None \<or> n < 4)" using True by simp
  show ?thesis
    unfolding reader_iso_dep_trim_crc_suffix_def if_not_P [OF run] at Option.bind.bind_lunit Let_def join trims_def
    using True by (simp only: simp_thms)
qed (simp add: reader_iso_dep_trim_crc_suffix_def)

text \<open>
  The specification: what two bytes are as a status word, and a table of when the last two
  bytes of a response are given up for the two before them.
\<close>

datatype status_class = No_Status | Warning | Failure | Success | More_Data

definition status_class :: "u8 \<Rightarrow> u8 \<Rightarrow> status_class" where
  "status_class s1 s2 =
     (if s1 = 0x90 \<and> s2 = 0x00 then Success
      else if s1 = 0x61 then More_Data
      else if s1 \<in> set [0x62, 0x63, 0x64, 0x65, 0x66] then Warning
      else if s1 \<in> set [0x67, 0x68, 0x69, 0x6A, 0x6B, 0x6C, 0x6D, 0x6E, 0x6F] then Failure
      else No_Status)"

fun gives_up_tail :: "status_class \<Rightarrow> status_class \<Rightarrow> bool" where
  "gives_up_tail No_Status t = False"
| "gives_up_tail Warning t = (t = No_Status)"
| "gives_up_tail Failure t = (t = No_Status \<or> t = Warning)"
| "gives_up_tail Success t = (t \<noteq> More_Data)"
| "gives_up_tail More_Data t = (t \<noteq> More_Data)"

lemma status_range:
  fixes s1 :: u8
  shows "s1 \<in> set [0x62, 0x63, 0x64, 0x65, 0x66] \<longleftrightarrow> 0x62 \<le> s1 \<and> s1 \<le> 0x66"
    and "s1 \<in> set [0x67, 0x68, 0x69, 0x6A, 0x6B, 0x6C, 0x6D, 0x6E, 0x6F] \<longleftrightarrow> 0x67 \<le> s1 \<and> s1 \<le> 0x6F"
proof -
  have w: "s1 = n \<longleftrightarrow> unat s1 = unat n" for n by (rule word_unat_eq_iff)
  show "s1 \<in> set [0x62, 0x63, 0x64, 0x65, 0x66] \<longleftrightarrow> 0x62 \<le> s1 \<and> s1 \<le> 0x66"
    "s1 \<in> set [0x67, 0x68, 0x69, 0x6A, 0x6B, 0x6C, 0x6D, 0x6E, 0x6F] \<longleftrightarrow> 0x67 \<le> s1 \<and> s1 \<le> 0x6F"
    by (auto simp: w word_le_nat_alt)
qed

lemma confidence_class:
  "reader_iso_dep_sw16_confidence s1 s2 =
     (case status_class s1 s2 of No_Status \<Rightarrow> 0 | Warning \<Rightarrow> 1 | Failure \<Rightarrow> 3 | Success \<Rightarrow> 3 | More_Data \<Rightarrow> 4)"
  unfolding status_class_def status_range reader_iso_dep_sw16_confidence_def
  by (auto simp: word_le_nat_alt)

lemma trims_table: "trims b1 b2 t1 t2 = gives_up_tail (status_class b1 b2) (status_class t1 t2)"
proof -
  have t: "t1 \<noteq> 0x61 \<longleftrightarrow> status_class t1 t2 \<noteq> More_Data" by (auto simp: status_class_def)
  have b: "b1 = 0x61 \<or> b1 = 0x90 \<and> b2 = 0x00 \<longleftrightarrow> status_class b1 b2 = More_Data \<or> status_class b1 b2 = Success"
    by (auto simp: status_class_def)
  show ?thesis
    unfolding trims_def confidence_class t b
    by (cases "status_class b1 b2"; cases "status_class t1 t2") simp_all
qed

text \<open>
  C40: exactly when the check-sum heuristic cuts a response: never below four bytes; from four
  on by what the last two bytes and the two before them are as status words. Bytes that are no
  status word give way to any status word before them; a warning also to an error, and
  everything but 61 xx to 90 00 and 61 xx. So a response whose data end in 61 xx or 90 00
  (which any file may hold) loses its own status word 90 00, and its data pass for one, while
  a second 61 xx is kept.
\<close>

theorem trim_crc_suffix_exact:
  assumes "n \<le> length r" and "n < 65536"
  shows "reader_iso_dep_trim_crc_suffix (Some r) n =
      Some (if 4 \<le> n \<and> gives_up_tail (status_class (r ! (n - 4)) (r ! (n - 3))) (status_class (r ! (n - 2)) (r ! (n - 1)))
            then n - 2 else n) \<and>
    (r = d @ [0x61, x, 0x90, 0x00] \<or> r = d @ [0x90, 0x00, 0x90, 0x00] \<longrightarrow> n = length r \<longrightarrow>
      reader_iso_dep_trim_crc_suffix (Some r) n = Some (n - 2))"
proof -
  have eq: "reader_iso_dep_trim_crc_suffix (Some r) n =
      Some (if 4 \<le> n \<and> gives_up_tail (status_class (r ! (n - 4)) (r ! (n - 3))) (status_class (r ! (n - 2)) (r ! (n - 1)))
            then n - 2 else n)"
    using trim_eq [of n r] assms by (simp add: trims_table)
  then show ?thesis by (auto simp: nth_append status_class_def)
qed

theorem trim_crc_suffix_exact_witness:
  "reader_iso_dep_trim_crc_suffix (Some [0x68, 0x69, 0x61, 0x41, 0x90, 0x00]) 6 = Some 4 \<and>
   reader_iso_dep_trim_crc_suffix (Some [0x68, 0x69, 0x63, 0x41, 0x64, 0x00]) 6 = Some 6 \<and>
   reader_iso_dep_trim_crc_suffix (Some [0x90, 0x00]) 2 = Some 2"
proof -
  have l: "(6 :: nat) \<le> length [a, b, c, d, e, f]" "(2 :: nat) \<le> length [a, b]" "(6 :: nat) < 65536" "(2 :: nat) < 65536"
    for a b c d e f :: u8 by simp_all
  show ?thesis
    using trim_crc_suffix_exact [OF l(1) l(3), of "0x68" "0x69" "0x61" "0x41" "0x90" 0]
      trim_crc_suffix_exact [OF l(1) l(3), of "0x68" "0x69" "0x63" "0x41" "0x64" 0]
      trim_crc_suffix_exact [OF l(2) l(4), of "0x90" 0]
    by (simp add: status_class_def)
qed

text \<open>The prologue of a received I-block.\<close>

definition iblock_prologue :: "u8 \<Rightarrow> u8 \<Rightarrow> u8 \<Rightarrow> bytes" where
  "iblock_prologue pcb cid nad = [pcb] @ (if pcb AND 0x08 \<noteq> 0 then [cid] else []) @
     (if pcb AND 0x04 \<noteq> 0 then [nad] else [])"

lemma length_iblock_prologue [simp]: "length (iblock_prologue pcb cid nad) = reader_iso_dep_rx_hdr_skip pcb"
  by (simp add: iblock_prologue_def reader_iso_dep_rx_hdr_skip_def)

lemma iblock_prologue_0 [simp]: "(iblock_prologue pcb cid nad @ xs) ! 0 = pcb"
  by (simp add: iblock_prologue_def)

lemma hdr_skip_range: "1 \<le> reader_iso_dep_rx_hdr_skip pcb" "reader_iso_dep_rx_hdr_skip pcb \<le> 3"
  by (simp_all add: reader_iso_dep_rx_hdr_skip_def)

text \<open>
  where the reader finds the information field. On an I-block that carries the agreed CID
  it is directly behind the prologue, except that with a card that announces NAD support a
  final block of at most 100 bytes without NAD loses its first byte when that byte is at most
  7 and the next one is a usual first byte of a response: such a block is delivered without
  that byte (the length field 00 64 of an NDEF file is one).
\<close>

theorem inf_offset_of_i_block:
  assumes "pcb AND 0xC0 = 0" and "pcb AND 0x08 \<noteq> 0" and "length inf_data + 3 < 4294967296"
    and "rlen = length (iblock_prologue pcb cid nad @ inf_data)"
  shows "reader_iso_dep_pick_inf_offset (Some (iblock_prologue pcb cid nad @ inf_data @ rest)) rlen
      has_cid cid have_tc tc =
    Some (length (iblock_prologue pcb cid nad) +
      (if has_cid \<and> have_tc \<and> tc AND 0x01 \<noteq> 0 \<and> pcb AND 0x04 = 0 \<and> pcb AND 0x10 = 0 \<and>
          3 \<le> length inf_data \<and> rlen \<le> 100 \<and> inf_data ! 0 \<le> 7 \<and>
          reader_iso_dep_inf_first_plausible_select_resp (inf_data ! 1) then 1 else 0))"
proof -
  have r0: "rd (Some (iblock_prologue pcb cid nad @ inf_data @ rest)) 0 = Some pcb"
    by (subst rd_Some) (simp_all add: iblock_prologue_def)
  have rn: "rd (Some (iblock_prologue pcb cid nad @ inf_data @ rest)) (reader_iso_dep_rx_hdr_skip pcb + k) =
      Some (inf_data ! k)" if "k < length inf_data" for k
    using that by (subst rd_Some) (simp_all add: nth_append)
  have rlen: "rlen = reader_iso_dep_rx_hdr_skip pcb + length inf_data" using assms(4) by simp
  have two: "2 \<le> reader_iso_dep_rx_hdr_skip pcb" using assms(2) by (simp add: reader_iso_dep_rx_hdr_skip_def)
  have "\<not> rlen < 1" using rlen two by simp
  then show ?thesis
    unfolding reader_iso_dep_pick_inf_offset_def Let_def
    using assms(1,2) two rn [of 0] rn [of 1]
    by (auto simp: r0 rlen)
qed

theorem inf_offset_of_i_block_witness:
  "reader_iso_dep_pick_inf_offset (Some [0x0A, 0x00, 0x00, 0x64, 0x90, 0x00]) 6 True 0 True 0x03 = Some 3"
proof -
  have p: "iblock_prologue 0x0A 0x00 0x00 = [0x0A, 0x00]" by (simp add: iblock_prologue_def)
  have a: "(0x0A :: u8) AND 0xC0 = 0" "(0x0A :: u8) AND 0x08 \<noteq> 0" "length [0x00 :: u8, 0x64, 0x90, 0x00] + 3 < 4294967296"
    "6 = length (iblock_prologue 0x0A 0x00 0x00 @ [0x00, 0x64, 0x90, 0x00])"
    by (simp_all add: p)
  show ?thesis
    using inf_offset_of_i_block [OF a, where rest = "[]" and has_cid = True and have_tc = True and tc = "0x03"]
    by (simp add: p reader_iso_dep_inf_first_plausible_select_resp_def)
qed

section \<open>Blocks the reader sends\<close>

text \<open>An I-block as it goes on the air.\<close>

definition sent_pcb :: "u8 \<Rightarrow> bool \<Rightarrow> bool \<Rightarrow> bool \<Rightarrow> u8" where
  "sent_pcb block_num has_cid add_nad chained =
     0x02 OR (block_num AND 0x01) OR (if has_cid then 0x08 else 0) OR (if add_nad then 0x04 else 0) OR
     (if chained then 0x10 else 0)"

definition sent_i_block :: "u8 \<Rightarrow> bool \<Rightarrow> u8 \<Rightarrow> bool \<Rightarrow> u8 \<Rightarrow> bool \<Rightarrow> bytes \<Rightarrow> bytes" where
  "sent_i_block block_num has_cid cid add_nad nad chained frag =
     [sent_pcb block_num has_cid add_nad chained] @ (if has_cid then [cid] else []) @
     (if add_nad then [nad] else []) @ frag"

lemma length_sent_i_block:
  "length (sent_i_block block_num has_cid cid add_nad nad chained frag) =
    reader_iso_dep_i_block_tx_hdr_len has_cid add_nad + length frag"
  by (simp add: sent_i_block_def reader_iso_dep_i_block_tx_hdr_len_def)

lemma build_i_block_tx_ok:
  assumes "tx_cap \<le> length t" and "tx_cap \<le> 65535" and "apdu_off < apdu_len" and "apdu_len \<le> length a"
    and "apdu_len \<le> 65535" and "0 < frag_cap"
    and "reader_iso_dep_i_block_tx_hdr_len has_cid add_nad + min frag_cap (apdu_len - apdu_off) \<le> tx_cap"
  shows "reader_iso_dep_build_i_block_tx (Some t) tx_cap (Some a) apdu_len apdu_off frag_cap has_cid cid
      add_nad nad block_num =
    (let chained = frag_cap < apdu_len - apdu_off;
         frag = take (min frag_cap (apdu_len - apdu_off)) (drop apdu_off a);
         frame = sent_i_block block_num has_cid cid add_nad nad chained frag
     in Some (True, \<lparr>itx_pcb = sent_pcb block_num has_cid add_nad chained,
          itx_hdr_len = reader_iso_dep_i_block_tx_hdr_len has_cid add_nad,
          itx_frag_len = length frag, itx_wire_len = length frame, itx_chain_more = chained\<rparr>,
        Some (patch t 0 frame)))"
proof -
  define frag where "frag = take (min frag_cap (apdu_len - apdu_off)) (drop apdu_off a)"
  define hl where "hl = reader_iso_dep_i_block_tx_hdr_len has_cid add_nad"
  define chained where "chained = (frag_cap < apdu_len - apdu_off)"
  define n where "n = min frag_cap (apdu_len - apdu_off)"
  have fl: "length frag = n" using assms(3,4) by (simp add: frag_def n_def)
  have n: "(if apdu_len - apdu_off > frag_cap then frag_cap else apdu_len - apdu_off) = n" by (simp add: n_def)
  have add: "nero_nfc_try_add_u16 n hl = Some (n + hl)"
    using assms(2,7) by (simp add: try_add_u16_eq_Some_iff n_def hl_def)
  have n0: "0 < n" using assms(3,6) by (simp add: n_def)
  have hl1: "1 \<le> hl" by (simp add: hl_def reader_iso_dep_i_block_tx_hdr_len_def)
  have fits: "n + hl \<le> tx_cap" using assms(7) by (simp add: n_def hl_def add.commute)
  then have fits: "n + hl \<le> tx_cap" "hl < length t" "0 < tx_cap" using assms(1) n0 hl1 by linarith+
  define pc where "pc = sent_pcb block_num has_cid add_nad chained"
  define hdr where "hdr = [pc] @ (if has_cid then [cid] else []) @
     (if add_nad then [nad] else [])"
  have hdrl: "length hdr = hl" by (simp add: hdr_def hl_def reader_iso_dep_i_block_tx_hdr_len_def)
  have pcb: "(let pcb = 0x02 OR (block_num AND 0x01); pcb = (if has_cid then pcb OR 0x08 else pcb);
      pcb = (if add_nad then pcb OR 0x04 else pcb) in if apdu_len - apdu_off > frag_cap then pcb OR 0x10 else pcb) =
      pc"
    by (simp add: pc_def sent_pcb_def chained_def Let_def or.assoc)
  have copy: "nero_nfc_copy_from (Some (patch t 0 hdr)) tx_cap hl (Some a) apdu_len apdu_off n =
      Some (True, Some (patch (patch t 0 hdr) hl frag))"
  proof -
    have l: "tx_cap \<le> length (patch t 0 hdr)" using assms(1) fits hdrl by simp
    have "hl + n \<le> tx_cap" "apdu_off + n \<le> apdu_len" using fits assms(3) by (simp_all add: n_def)
    with l show ?thesis using assms by (simp add: frag_def n_def)
  qed
  have pp: "patch (patch t 0 hdr) hl frag = patch t 0 (sent_i_block block_num has_cid cid add_nad nad chained frag)"
    using fits fl hdrl assms(1) by (simp add: patch_patch sent_i_block_def hdr_def pc_def flip: hdrl)
  have st: "nero_nfc_store_u8 (Some t) tx_cap 0 v = Some (True, Some (patch t 0 [v]))" for v
    using fits assms(1,2) by (simp add: patch_single)
  define wr2 where "wr2 = (do {
      (tx, tx_pos) \<leftarrow> (if has_cid then do { tx \<leftarrow> wr (Some (patch t 0 [pc])) 1 cid; Some (tx, 1 + 1) }
                       else Some (Some (patch t 0 [pc]), 1));
      if add_nad then do { tx \<leftarrow> wr tx tx_pos nad; Some (tx, tx_pos + 1) } else Some (tx, tx_pos) })"
  have wr2: "wr2 = Some (Some (patch t 0 hdr), hl)"
    using fits unfolding wr2_def hdr_def hl_def reader_iso_dep_i_block_tx_hdr_len_def
    by (cases has_cid; cases add_nad) (simp_all add: patch_update)
  have g: "\<not> (Some t = None \<or> apdu_off \<ge> apdu_len \<or> (Some a = None \<and> apdu_len \<noteq> 0) \<or> frag_cap = 0)"
    using assms by simp
  have tail: "sent_i_block block_num has_cid cid add_nad nad chained frag = hdr @ frag"
    by (simp add: sent_i_block_def hdr_def pc_def)
  have "reader_iso_dep_build_i_block_tx (Some t) tx_cap (Some a) apdu_len apdu_off frag_cap has_cid cid
      add_nad nad block_num = do {
        (tx, tx_pos) \<leftarrow> wr2;
        if tx_pos \<noteq> hl then Some (False, reader_iso_dep_i_block_tx_reset, tx)
        else do {
          (ok, tx) \<leftarrow> nero_nfc_copy_from tx tx_cap hl (Some a) apdu_len apdu_off n;
          if \<not> ok then Some (False, reader_iso_dep_i_block_tx_reset, tx)
          else Some (True, \<lparr>itx_pcb = pc, itx_hdr_len = hl, itx_frag_len = n,
                 itx_wire_len = n + hl, itx_chain_more = chained\<rparr>, tx)
        }
      }"
    using g fits
    unfolding reader_iso_dep_build_i_block_tx_def n pcb [unfolded Let_def] Let_def hl_def [symmetric] add st wr2_def
    by (cases has_cid; cases add_nad) (simp_all add: chained_def cong: if_cong)
  then show ?thesis
    unfolding wr2 bind.bind_lunit prod.case copy frag_def [symmetric] chained_def [symmetric]
      hl_def [symmetric] pc_def [symmetric] Let_def length_sent_i_block fl pp
    by (simp add: add.commute)
qed

end
