(* ===== verification/IsoDepSession.thy ===== *)
theory IsoDepSession
  imports IsoDepFrame
begin

text \<open>
  The ISO-DEP session (\<^verbatim>\<open>reader_security_key_iso_dep_session.h\<close> and \<^verbatim>\<open>.c\<close>): its state, the
  radio it talks to, activation of the card, RATS and the CID reopen.

  \<^item> \<open>iso_dep\<close> is the part of the reader context the code uses here: \<open>reader_iso_dep_state_t\<close>,
    \<open>reader_iso_dep_session_runtime_t\<close> and the card's UID and SAK of \<open>reader_rf_state_t\<close>.
  \<^item> \<open>radio\<close> is what lies below: the front end's two transceive entry points, the wake-up
    command, the clock, delays, and the CCID side (time extension and pending abort). It has
    a state of its own, so a card may answer anything at any time.
  \<^item> A reply is the list of received bytes; the empty list stands for every result below 1
    (no answer). Only the received bytes of a receive buffer are accessible: a read behind
    them is a fault of the model, although the buffer in the code is larger.
  \<^item> The traced twins of the quiet functions only add log output.
\<close>

section \<open>State\<close>

record iso_dep =
  id_block_num :: u8
  id_rats_param :: u8
  id_cid :: u8
  id_pcb_has_cid :: bool
  id_have_tc :: bool
  id_tc_byte :: u8
  id_fwi :: nat
  id_fwt_us :: nat
  id_pic_frame_max :: nat
  id_raw_rx :: bytes
  id_raw_rx_len :: nat
  id_last_inf_off :: nat
  id_iblock_tx :: bytes
  id_ats_data :: bytes
  id_ats_len :: nat
  id_uid14 :: bytes
  id_uid14_len :: nat
  id_sak :: u8
  id_last_deselect_ms :: nat
  id_last_error :: u8
  id_extension_bound :: bool
  id_extension_last_ms :: nat

record 'c radio =
  rf_transceive :: "'c \<Rightarrow> bytes \<Rightarrow> nat \<Rightarrow> bool \<Rightarrow> nat \<Rightarrow> 'c \<times> bytes"
  rf_transceive14 :: "'c \<Rightarrow> bytes \<Rightarrow> nat \<Rightarrow> bool \<Rightarrow> nat \<Rightarrow> bool \<Rightarrow> bool \<Rightarrow> 'c \<times> bytes"
  rf_wupa :: "'c \<Rightarrow> 'c \<times> bool"
  rf_configure :: "'c \<Rightarrow> 'c"
  hal_millis :: "'c \<Rightarrow> 'c \<times> nat"
  hal_delay_ms :: "'c \<Rightarrow> nat \<Rightarrow> 'c"
  ccid_abort_pending :: "'c \<Rightarrow> 'c \<times> bool"
  ccid_time_extension :: "'c \<Rightarrow> 'c"

text \<open>\<open>uint32_t\<close> subtraction.\<close>

definition u32_diff :: "nat \<Rightarrow> nat \<Rightarrow> nat" where
  "u32_diff a b = u32n (u32n a + (4294967296 - u32n b))"

section \<open>Framing parameters\<close>

definition reader_security_key_iso_dep_set_last_error :: "u8 \<Rightarrow> iso_dep \<Rightarrow> iso_dep" where
  "reader_security_key_iso_dep_set_last_error code s = s\<lparr>id_last_error := code\<rparr>"

definition reader_security_key_iso_dep_reset_framing :: "iso_dep \<Rightarrow> iso_dep" where
  "reader_security_key_iso_dep_reset_framing s = s\<lparr>
     id_rats_param := 0x70, id_cid := 0, id_pcb_has_cid := False, id_last_inf_off := 0,
     id_fwi := ISO_DEP_FWI_DEFAULT, id_fwt_us := reader_iso_dep_fwt_us_from_fwi ISO_DEP_FWI_DEFAULT,
     id_pic_frame_max := NFC_ISO14443_FSC_MAX\<rparr>"

definition reader_security_key_iso_dep_probe_can_upgrade_cid :: "iso_dep \<Rightarrow> bool" where
  "reader_security_key_iso_dep_probe_can_upgrade_cid s \<longleftrightarrow>
     id_have_tc s \<and> id_tc_byte s AND 0x02 \<noteq> 0 \<and> \<not> id_pcb_has_cid s"

definition reader_security_key_iso_dep_tx_include_nad :: "iso_dep \<Rightarrow> bool" where
  "reader_security_key_iso_dep_tx_include_nad s \<longleftrightarrow> id_have_tc s \<and> id_tc_byte s AND 0x01 \<noteq> 0"

definition reader_security_key_iso_dep_tx_hdr_len :: "iso_dep \<Rightarrow> bool \<Rightarrow> nat" where
  "reader_security_key_iso_dep_tx_hdr_len s include_nad_byte =
     reader_iso_dep_i_block_tx_hdr_len (id_pcb_has_cid s)
       (include_nad_byte \<and> reader_security_key_iso_dep_tx_include_nad s)"

definition reader_security_key_iso_dep_apdu_chunk_budget :: "iso_dep \<Rightarrow> nat \<Rightarrow> nat" where
  "reader_security_key_iso_dep_apdu_chunk_budget s tx_hdr_len =
     reader_iso_dep_apdu_chunk_budget (id_pic_frame_max s) tx_hdr_len"

definition reader_security_key_iso_dep_link_response_timeout_ms :: "iso_dep \<Rightarrow> nat" where
  "reader_security_key_iso_dep_link_response_timeout_ms s =
     reader_iso_dep_link_response_timeout_ms (id_fwt_us s)"

definition reader_security_key_iso_dep_tx_add_nad :: "iso_dep \<Rightarrow> nat \<Rightarrow> cptr \<Rightarrow> bool option" where
  "reader_security_key_iso_dep_tx_add_nad s full_apdu_len apdu =
     (if \<not> reader_security_key_iso_dep_tx_include_nad s then Some False
      else if \<not> id_pcb_has_cid s then Some False
      else do {
        b \<leftarrow> (if apdu \<noteq> None \<and> full_apdu_len \<ge> 1 then nero_nfc_u8_at apdu full_apdu_len 0 else Some 0);
        if apdu \<noteq> None \<and> full_apdu_len \<ge> 1 \<and> b = 0x80 then Some False
        else let hw = reader_security_key_iso_dep_tx_hdr_len s True in
          Some (full_apdu_len \<le> reader_security_key_iso_dep_apdu_chunk_budget s hw)
      })"

definition reader_security_key_iso_dep_snap_raw_rx :: "cptr \<Rightarrow> nat \<Rightarrow> iso_dep \<Rightarrow> iso_dep option" where
  "reader_security_key_iso_dep_snap_raw_rx rx rlen s =
     (if rlen = 0 \<or> rx = None then Some (s\<lparr>id_raw_rx_len := 0\<rparr>)
      else let n = min rlen 24 in do {
        (_, raw) \<leftarrow> nero_nfc_copy_bytes (Some (id_raw_rx s)) 24 0 rx n;
        Some (s\<lparr>id_raw_rx_len := n, id_raw_rx := the raw\<rparr>)
      })"

definition reader_security_key_iso_dep_pick_inf_offset :: "iso_dep \<Rightarrow> cptr \<Rightarrow> nat \<Rightarrow> nat option" where
  "reader_security_key_iso_dep_pick_inf_offset s rx rlen =
     reader_iso_dep_pick_inf_offset rx rlen (id_pcb_has_cid s) (id_cid s) (id_have_tc s) (id_tc_byte s)"

definition reader_security_key_iso_dep_rx_nad_byte :: "cptr \<Rightarrow> nat \<Rightarrow> u8 \<Rightarrow> u8 option" where
  "reader_security_key_iso_dep_rx_nad_byte rx rlen pcb = reader_iso_dep_rx_nad_byte rx rlen pcb 0x01"

definition reader_security_key_iso_dep_wtx_response_timeout_ms ::
    "iso_dep \<Rightarrow> cptr \<Rightarrow> nat \<Rightarrow> nat \<Rightarrow> nat option" where
  "reader_security_key_iso_dep_wtx_response_timeout_ms s rx rlen hdr_skip =
     reader_iso_dep_wtx_response_timeout_ms (id_fwt_us s) rx rlen hdr_skip"

definition reader_security_key_iso_dep_rx_is_chain_ack_for_block ::
    "iso_dep \<Rightarrow> cptr \<Rightarrow> nat \<Rightarrow> u8 \<Rightarrow> bool option" where
  "reader_security_key_iso_dep_rx_is_chain_ack_for_block s rx rlen blk_sent =
     reader_iso_dep_rx_is_chain_ack_for_block rx rlen blk_sent (id_pcb_has_cid s) (id_cid s)"

definition reader_security_key_iso_dep_rx_is_chain_nak_for_block ::
    "iso_dep \<Rightarrow> cptr \<Rightarrow> nat \<Rightarrow> u8 \<Rightarrow> bool option" where
  "reader_security_key_iso_dep_rx_is_chain_nak_for_block s rx rlen blk_sent =
     reader_iso_dep_rx_is_chain_nak_for_block rx rlen blk_sent (id_pcb_has_cid s) (id_cid s)"

section \<open>Radio access\<close>

definition reader_security_key_iso_dep_ccid_heartbeat ::
    "'c radio \<Rightarrow> 'c \<times> iso_dep \<Rightarrow> 'c \<times> iso_dep" where
  "reader_security_key_iso_dep_ccid_heartbeat R = (\<lambda>(c, s).
     if id_extension_bound s then
       let (c, now_ms) = hal_millis R c in
       if id_extension_last_ms s = 0 \<or> u32_diff now_ms (id_extension_last_ms s) \<ge> 2000
       then (ccid_time_extension R c, s\<lparr>id_extension_last_ms := now_ms\<rparr>)
       else (c, s)
     else (c, s))"

text \<open>The bytes sent are the first \<open>tx_len\<close> of \<open>tx\<close>.\<close>

definition reader_security_key_iso_dep_transceive ::
    "'c radio \<Rightarrow> 'c \<times> iso_dep \<Rightarrow> cptr \<Rightarrow> nat \<Rightarrow> nat \<Rightarrow> bool \<Rightarrow> nat \<Rightarrow> (('c \<times> iso_dep) \<times> bytes) option" where
  "reader_security_key_iso_dep_transceive R w tx tx_len rx_max with_crc timeout_ms =
     (if tx = None \<and> tx_len \<noteq> 0 then Some (w, [])
      else if tx \<noteq> None \<and> length (the tx) < tx_len then None
      else let (c, s) = reader_security_key_iso_dep_ccid_heartbeat R w;
               (c, rx) = rf_transceive R c (take tx_len (case tx of None \<Rightarrow> [] | Some t \<Rightarrow> t)) rx_max with_crc timeout_ms
      in Some (reader_security_key_iso_dep_ccid_heartbeat R (c, s), rx))"

definition reader_security_key_iso_dep_bind_ccid_time_extension ::
    "'c radio \<Rightarrow> bool \<Rightarrow> 'c \<times> iso_dep \<Rightarrow> 'c \<times> iso_dep" where
  "reader_security_key_iso_dep_bind_ccid_time_extension R bound = (\<lambda>(c, s).
     if \<not> bound then (c, s\<lparr>id_extension_bound := False, id_extension_last_ms := 0\<rparr>)
     else let (c, now_ms) = hal_millis R c in
       (c, s\<lparr>id_extension_bound := True, id_extension_last_ms := now_ms\<rparr>))"

definition reader_security_key_iso_dep_protocol_settle :: "'c radio \<Rightarrow> 'c \<times> iso_dep \<Rightarrow> 'c \<times> iso_dep" where
  "reader_security_key_iso_dep_protocol_settle R = (\<lambda>(c, s). (hal_delay_ms R c 2, s))"

definition reader_security_key_iso_dep_pre_first_iblock_delay ::
    "'c radio \<Rightarrow> 'c \<times> iso_dep \<Rightarrow> 'c \<times> iso_dep" where
  "reader_security_key_iso_dep_pre_first_iblock_delay R = (\<lambda>(c, s).
     (hal_delay_ms R c (reader_iso_dep_pre_first_iblock_delay_ms (id_fwt_us s)), s))"

definition reader_security_key_iso_dep_post_recover_rf_settle ::
    "'c radio \<Rightarrow> 'c \<times> iso_dep \<Rightarrow> 'c \<times> iso_dep" where
  "reader_security_key_iso_dep_post_recover_rf_settle R w =
     (let (c, s) = reader_security_key_iso_dep_protocol_settle R w in (hal_delay_ms R c 72, s))"

definition reader_security_key_iso_dep_wait_post_deselect_gap ::
    "'c radio \<Rightarrow> 'c \<times> iso_dep \<Rightarrow> 'c \<times> iso_dep" where
  "reader_security_key_iso_dep_wait_post_deselect_gap R = (\<lambda>(c, s).
     if id_last_deselect_ms s = 0 then (c, s)
     else let (c, now) = hal_millis R c;
              elapsed = u32_diff now (id_last_deselect_ms s)
     in if elapsed \<ge> 235 then (c, s) else (hal_delay_ms R c (235 - elapsed), s))"

definition reader_security_key_iso_dep_clear_last_deselect_ms :: "iso_dep \<Rightarrow> iso_dep" where
  "reader_security_key_iso_dep_clear_last_deselect_ms s = s\<lparr>id_last_deselect_ms := 0\<rparr>"

section \<open>Activation\<close>

text \<open>The result is the UID part and the SAK.\<close>

definition iso_dep_select_uid_quiet ::
    "'c radio \<Rightarrow> 'c \<times> iso_dep \<Rightarrow> u8 \<Rightarrow> (('c \<times> iso_dep) \<times> (bytes \<times> u8) option) option" where
  "iso_dep_select_uid_quiet R = (\<lambda>(c, s) sel_cmd.
     let (c, rx) = rf_transceive14 R c [sel_cmd, 0x20] 8 False 20 True False in
     if length rx < 5 then Some ((c, s), None)
     else do {
       u0 \<leftarrow> rd (Some rx) 0;
       u1 \<leftarrow> rd (Some rx) 1;
       u2 \<leftarrow> rd (Some rx) 2;
       u3 \<leftarrow> rd (Some rx) 3;
       b \<leftarrow> rd (Some rx) 4;
       let bcc = u0 XOR u1 XOR u2 XOR u3;
       if bcc \<noteq> b then Some ((c, s), None)
       else do {
         (ok, uid_out) \<leftarrow> nero_nfc_copy_bytes (Some [0, 0, 0, 0]) 4 0 (Some rx) 4;
         if \<not> ok then Some ((c, s), None)
         else let (c, rx) = rf_transceive14 R c [sel_cmd, 0x70, u0, u1, u2, u3, b] 8 True 20 False False in
           if length rx < 1 then Some ((c, s), None)
           else do {
             sak \<leftarrow> rd (Some rx) 0;
             Some ((c, s), Some (the uid_out, sak))
           }
       }
     })"

definition iso_dep_activate_attempt ::
    "'c radio \<Rightarrow> bool \<Rightarrow> 'c \<times> iso_dep \<Rightarrow> (('c \<times> iso_dep) \<times> bool) option" where
  "iso_dep_activate_attempt R retry = (\<lambda>(c, s).
     let c = (if retry then hal_delay_ms R (rf_configure R c) 8 else c);
         (c, woken) = rf_wupa R c
     in if \<not> woken then Some ((c, s), False)
     else do {
       (w, r1) \<leftarrow> iso_dep_select_uid_quiet R (c, s) 0x93;
       case r1 of
         None \<Rightarrow> Some (w, False)
       | Some (cl1_uid, sak1) \<Rightarrow>
           if sak1 AND 0x04 \<noteq> 0 then do {
             ((c, s), r2) \<leftarrow> iso_dep_select_uid_quiet R w 0x95;
             case r2 of
               None \<Rightarrow> Some ((c, s), False)
             | Some (cl2_uid, sak2) \<Rightarrow> do {
                 a1 \<leftarrow> rd (Some cl1_uid) 1;
                 a2 \<leftarrow> rd (Some cl1_uid) 2;
                 a3 \<leftarrow> rd (Some cl1_uid) 3;
                 b0 \<leftarrow> rd (Some cl2_uid) 0;
                 b1 \<leftarrow> rd (Some cl2_uid) 1;
                 b2 \<leftarrow> rd (Some cl2_uid) 2;
                 b3 \<leftarrow> rd (Some cl2_uid) 3;
                 uid \<leftarrow> wr_list (Some (id_uid14 s)) 0 [a1, a2, a3, b0, b1, b2, b3];
                 Some ((c, s\<lparr>id_uid14 := the uid, id_uid14_len := 7, id_sak := sak2\<rparr>), True)
               }
           }
           else let (c, s) = w in do {
             (ok, uid) \<leftarrow> nero_nfc_copy_bytes (Some (id_uid14 s)) 10 0 (Some cl1_uid) 4;
             if \<not> ok then Some ((c, s), False)
             else Some ((c, s\<lparr>id_uid14 := the uid, id_uid14_len := 4, id_sak := sak1\<rparr>), True)
           }
     })"

fun iso_dep_activate_loop ::
    "'c radio \<Rightarrow> nat \<Rightarrow> bool \<Rightarrow> 'c \<times> iso_dep \<Rightarrow> (('c \<times> iso_dep) \<times> bool) option" where
  "iso_dep_activate_loop R 0 retry w = Some (w, False)"
| "iso_dep_activate_loop R (Suc n) retry w = do {
     (w, ok) \<leftarrow> iso_dep_activate_attempt R retry w;
     if ok then Some (w, True) else iso_dep_activate_loop R n True w
   }"

definition iso_dep_activate_after_hlta_quiet ::
    "'c radio \<Rightarrow> 'c \<times> iso_dep \<Rightarrow> (('c \<times> iso_dep) \<times> bool) option" where
  "iso_dep_activate_after_hlta_quiet R w = iso_dep_activate_loop R 3 False w"

section \<open>RATS and recovery\<close>

definition reader_security_key_iso_dep_commit_rats_rx ::
    "nat \<Rightarrow> cptr \<Rightarrow> u8 \<Rightarrow> iso_dep \<Rightarrow> (iso_dep \<times> bool) option" where
  "reader_security_key_iso_dep_commit_rats_rx rlen rx rats_param s =
     (if rlen < 2 \<or> rx = None then Some (s, False)
      else do {
        tlen \<leftarrow> nero_nfc_u8_at rx rlen 0;
        if unat tlen < 2 \<or> unat tlen > u16n rlen \<or> unat tlen > 64 then Some (s, False)
        else do {
          let s = s\<lparr>id_ats_len := unat tlen\<rparr>;
          (ok, ats) \<leftarrow> nero_nfc_copy_bytes (Some (id_ats_data s)) 64 0 rx (id_ats_len s);
          if \<not> ok then Some (s, False)
          else Some (s\<lparr>id_ats_data := the ats, id_rats_param := rats_param, id_block_num := 0\<rparr>, True)
        }
      })"

definition iso_dep_rats_quiet ::
    "'c radio \<Rightarrow> 'c \<times> iso_dep \<Rightarrow> nat \<Rightarrow> u8 \<Rightarrow> (('c \<times> iso_dep) \<times> bool) option" where
  "iso_dep_rats_quiet R w timeout_ms rats_param = do {
     ((c, s), rx) \<leftarrow> reader_security_key_iso_dep_transceive R w (Some [0xE0, rats_param]) 2 64 True timeout_ms;
     (s, ok) \<leftarrow> reader_security_key_iso_dep_commit_rats_rx (length rx) (Some rx) rats_param s;
     Some ((c, s), ok)
   }"

definition parse_ats_quiet :: "iso_dep \<Rightarrow> iso_dep option" where
  "parse_ats_quiet s = do {
     (ok, p) \<leftarrow> reader_iso_dep_parse_ats_profile (Some (id_ats_data s)) (id_ats_len s);
     if \<not> ok then Some (s\<lparr>id_have_tc := False, id_fwi := ISO_DEP_FWI_DEFAULT,
         id_fwt_us := reader_iso_dep_fwt_us_from_fwi ISO_DEP_FWI_DEFAULT\<rparr>)
     else let s = s\<lparr>id_have_tc := ap_has_tc p, id_fwi := ap_fwi p, id_fwt_us := ap_fwt_us p,
                    id_pic_frame_max := ap_pic_frame_max p\<rparr>
       in Some (if ap_has_tc p then s\<lparr>id_tc_byte := ap_tc p\<rparr> else s)
   }"

definition iso_dep_open_main_from_active_quiet ::
    "'c radio \<Rightarrow> 'c \<times> iso_dep \<Rightarrow> nat \<Rightarrow> (('c \<times> iso_dep) \<times> bool) option" where
  "iso_dep_open_main_from_active_quiet R w rats_timeout_ms = do {
     ((c, s), ok) \<leftarrow> iso_dep_rats_quiet R w rats_timeout_ms 0x70;
     if ok then do {
       s \<leftarrow> parse_ats_quiet s;
       Some ((c, s\<lparr>id_cid := 0, id_pcb_has_cid := True\<rparr>), True)
     } else do {
       ((c, s), ok) \<leftarrow> iso_dep_rats_quiet R (c, s) rats_timeout_ms 0x40;
       if ok then do {
         s \<leftarrow> parse_ats_quiet s;
         Some ((c, s\<lparr>id_cid := 0, id_pcb_has_cid := True\<rparr>), True)
       } else do {
         ((c, s), ok) \<leftarrow> iso_dep_rats_quiet R (c, s) rats_timeout_ms 0x41;
         if ok then do {
           s \<leftarrow> parse_ats_quiet s;
           Some ((c, s\<lparr>id_cid := 1, id_pcb_has_cid := True\<rparr>), True)
         } else Some ((c, s), False)
       }
     }
   }"

definition reader_security_key_iso_dep_send_deselect ::
    "'c radio \<Rightarrow> 'c \<times> iso_dep \<Rightarrow> ('c \<times> iso_dep) option" where
  "reader_security_key_iso_dep_send_deselect R = (\<lambda>(c, s). do {
     let tx = (if id_pcb_has_cid s then [0xC2 OR 0x08, id_cid s] else [0xC2]);
     ((c, s), _) \<leftarrow> reader_security_key_iso_dep_transceive R (c, s) (Some tx) (length tx) 8 True 50;
     let c = hal_delay_ms R c 52;
     let (c, now) = hal_millis R c;
     Some (c, s\<lparr>id_last_deselect_ms := now\<rparr>)
   })"

definition iso_dep_recover_session_quiet ::
    "'c radio \<Rightarrow> 'c \<times> iso_dep \<Rightarrow> (('c \<times> iso_dep) \<times> bool) option" where
  "iso_dep_recover_session_quiet R w = do {
     w \<leftarrow> reader_security_key_iso_dep_send_deselect R w;
     let w = reader_security_key_iso_dep_protocol_settle R w;
     (w, ok) \<leftarrow> iso_dep_activate_after_hlta_quiet R w;
     if \<not> ok then Some (w, False)
     else let w = reader_security_key_iso_dep_protocol_settle R w in
       iso_dep_open_main_from_active_quiet R w 400
   }"

definition reader_security_key_iso_dep_session_open_quiet ::
    "'c radio \<Rightarrow> 'c \<times> iso_dep \<Rightarrow> nat \<Rightarrow> (('c \<times> iso_dep) \<times> bool) option" where
  "reader_security_key_iso_dep_session_open_quiet R w rats_timeout_ms = do {
     let (c, s) = w;
     ((c, s), ok) \<leftarrow> iso_dep_rats_quiet R (c, reader_security_key_iso_dep_reset_framing s) rats_timeout_ms 0x70;
     if \<not> ok then Some ((c, s), False)
     else do {
       s \<leftarrow> parse_ats_quiet s;
       if reader_security_key_iso_dep_probe_can_upgrade_cid s then do {
         (w, ok) \<leftarrow> iso_dep_recover_session_quiet R (c, s);
         if \<not> ok then Some (w, False)
         else Some (reader_security_key_iso_dep_post_recover_rf_settle R w, True)
       } else Some ((c, s), True)
     }
   }"

section \<open>The session invariant\<close>

text \<open>What the radio promises: a reply is not longer than the buffer it goes to.\<close>

definition radio_ok :: "'c radio \<Rightarrow> bool" where
  "radio_ok R \<longleftrightarrow>
     (\<forall>c tx m crc t. length (snd (rf_transceive R c tx m crc t)) \<le> m) \<and>
     (\<forall>c tx m crc t a p. length (snd (rf_transceive14 R c tx m crc t a p)) \<le> m)"

definition iso_inv :: "iso_dep \<Rightarrow> bool" where
  "iso_inv s \<longleftrightarrow> length (id_raw_rx s) = 24 \<and> id_raw_rx_len s \<le> 24 \<and> length (id_iblock_tx s) = 832 \<and>
     length (id_ats_data s) = 64 \<and> id_ats_len s \<le> 64 \<and> length (id_uid14 s) = 10 \<and> id_uid14_len s \<le> 10 \<and>
     302 \<le> id_fwt_us s \<and> id_fwt_us s \<le> 4949060 \<and> 16 \<le> id_pic_frame_max s \<and> id_pic_frame_max s \<le> 256"

text \<open>A result of a session operation that is defined and keeps the invariant.\<close>

definition kept :: "(('c \<times> iso_dep) \<times> 'a) option \<Rightarrow> bool" where
  "kept r \<longleftrightarrow> (\<exists>c s x. r = Some ((c, s), x) \<and> iso_inv s)"

lemma kept_Some [simp]: "kept (Some (w, x)) \<longleftrightarrow> iso_inv (snd w)"
  by (cases w) (simp add: kept_def)

lemma kept_None [simp]: "\<not> kept None"
  by (simp add: kept_def)

lemma kept_bind:
  assumes "kept r" and "\<And>c s x. r = Some ((c, s), x) \<Longrightarrow> iso_inv s \<Longrightarrow> kept (f ((c, s), x))"
  shows "kept (r \<bind> f)"
  using assms by (auto simp: kept_def)

lemma keptE:
  assumes "kept r"
  obtains c s x where "r = Some ((c, s), x)" and "iso_inv s"
  using assms by (auto simp: kept_def)

lemma iso_inv_simps [simp]:
  "iso_inv (s\<lparr>id_block_num := b\<rparr>) = iso_inv s" "iso_inv (s\<lparr>id_rats_param := b\<rparr>) = iso_inv s"
  "iso_inv (s\<lparr>id_cid := b\<rparr>) = iso_inv s" "iso_inv (s\<lparr>id_pcb_has_cid := h\<rparr>) = iso_inv s"
  "iso_inv (s\<lparr>id_have_tc := h\<rparr>) = iso_inv s" "iso_inv (s\<lparr>id_tc_byte := b\<rparr>) = iso_inv s"
  "iso_inv (s\<lparr>id_fwi := n\<rparr>) = iso_inv s" "iso_inv (s\<lparr>id_last_inf_off := n\<rparr>) = iso_inv s"
  "iso_inv (s\<lparr>id_sak := b\<rparr>) = iso_inv s" "iso_inv (s\<lparr>id_last_deselect_ms := n\<rparr>) = iso_inv s"
  "iso_inv (s\<lparr>id_last_error := b\<rparr>) = iso_inv s" "iso_inv (s\<lparr>id_extension_bound := h\<rparr>) = iso_inv s"
  "iso_inv (s\<lparr>id_extension_last_ms := n\<rparr>) = iso_inv s"
  by (simp_all add: iso_inv_def)

lemma heartbeat_inv [simp]:
  "iso_inv (snd (reader_security_key_iso_dep_ccid_heartbeat R w)) = iso_inv (snd w)"
  by (cases w) (simp add: reader_security_key_iso_dep_ccid_heartbeat_def split: prod.split)

lemma heartbeat_keeps:
  "reader_security_key_iso_dep_ccid_heartbeat R (c, s) = (c', s') \<Longrightarrow> iso_inv s' = iso_inv s"
  using heartbeat_inv [of R "(c, s)"] by simp

lemma transceive_kept:
  assumes "iso_inv (snd w)" and "tx_len \<le> length t"
  shows "kept (reader_security_key_iso_dep_transceive R w (Some t) tx_len rx_max crc ms)"
  using assms by (cases w)
    (auto simp: reader_security_key_iso_dep_transceive_def heartbeat_keeps split: prod.split)

lemma radio_length:
  assumes "rf_transceive R c tx m crc ms = (c', rx)" and "radio_ok R"
  shows "length rx \<le> m"
  using assms unfolding radio_ok_def by (metis snd_conv)

lemma transceive_length:
  assumes "reader_security_key_iso_dep_transceive R w tx tx_len rx_max crc ms = Some (w', rx)" and "radio_ok R"
  shows "length rx \<le> rx_max"
  using assms
  by (auto simp: reader_security_key_iso_dep_transceive_def split: prod.splits if_splits dest: radio_length)

lemma transceive14_length:
  assumes "rf_transceive14 R c tx m crc ms a p = (c', rx)" and "radio_ok R"
  shows "length rx \<le> m"
  using assms unfolding radio_ok_def by (metis snd_conv)

lemma select_uid_kept:
  assumes "radio_ok R" and "iso_inv s"
  shows "\<exists>c' r. iso_dep_select_uid_quiet R (c, s) sel_cmd = Some ((c', s), r) \<and>
    (\<forall>uid sak. r = Some (uid, sak) \<longrightarrow> length uid = 4)"
proof -
  obtain c1 rx where 1: "rf_transceive14 R c [sel_cmd, 0x20] 8 False 20 True False = (c1, rx)" by force
  show ?thesis
  proof (cases "length rx < 5")
    case True
    then show ?thesis by (simp add: iso_dep_select_uid_quiet_def 1)
  next
    case False
    have r0: "rd (Some xs) 0 = Some (xs ! 0)" if "xs \<noteq> []" for xs using that by (cases xs) simp_all
    show ?thesis using False
      by (auto simp: iso_dep_select_uid_quiet_def 1 Let_def r0 split: prod.split)
  qed
qed

lemma activate_attempt_kept:
  assumes "radio_ok R" and "iso_inv (snd w)"
  shows "kept (iso_dep_activate_attempt R retry w)"
proof -
  obtain c s where w: "w = (c, s)" by force
  have inv: "iso_inv s" using assms w by simp
  define c0 where "c0 = (if retry then hal_delay_ms R (rf_configure R c) 8 else c)"
  obtain c1 woken where 1: "rf_wupa R c0 = (c1, woken)" by force
  obtain c2 r where 2: "iso_dep_select_uid_quiet R (c1, s) 0x93 = Some ((c2, s), r)"
    "\<forall>uid sak. r = Some (uid, sak) \<longrightarrow> length uid = 4" using select_uid_kept [OF assms(1) inv] by blast
  obtain c3 r' where 3: "iso_dep_select_uid_quiet R (c2, s) 0x95 = Some ((c3, s), r')"
    "\<forall>uid sak. r' = Some (uid, sak) \<longrightarrow> length uid = 4" using select_uid_kept [OF assms(1) inv] by blast
  have len: "length (id_uid14 s) = 10" using inv by (simp add: iso_inv_def)
  have upd: "iso_inv (s\<lparr>id_uid14 := u, id_uid14_len := n\<rparr>)" if "length u = 10" "n \<le> 10" for u n
    using inv that by (simp add: iso_inv_def)
  show ?thesis
    using 2(2) 3(2) inv len
    by (auto simp: iso_dep_activate_attempt_def w c0_def [symmetric] 1 2(1) 3(1) upd wr_list_Some
        split: option.split prod.split)
qed

lemma activate_loop_kept:
  "radio_ok R \<Longrightarrow> iso_inv (snd w) \<Longrightarrow> kept (iso_dep_activate_loop R n retry w)"
proof (induction n arbitrary: w retry)
  case (Suc n)
  show ?case
    unfolding iso_dep_activate_loop.simps
    by (rule kept_bind [OF activate_attempt_kept [OF Suc.prems]]) (simp add: Suc)
qed simp

lemma commit_rats_total:
  assumes "iso_inv s" and "length rx \<le> 64"
  shows "\<exists>s' ok. reader_security_key_iso_dep_commit_rats_rx (length rx) (Some rx) p s = Some (s', ok) \<and> iso_inv s' \<and>
    (ok \<longrightarrow> 2 \<le> id_ats_len s' \<and> id_ats_len s' \<le> length rx \<and> take (id_ats_len s') (id_ats_data s') = take (id_ats_len s') rx \<and>
      id_ats_len s' = unat (rx ! 0) \<and> id_rats_param s' = p \<and> id_block_num s' = 0)"
proof (cases "length rx < 2")
  case True
  then show ?thesis using assms
    by (intro exI [of _ s] exI [of _ False]) (simp add: reader_security_key_iso_dep_commit_rats_rx_def)
next
  case False
  have at: "nero_nfc_u8_at (Some rx) (length rx) 0 = Some (rx ! 0)" using False assms(2) by (subst u8_at_in) auto
  have len: "length (id_ats_data s) = 64" using assms by (simp add: iso_inv_def)
  show ?thesis
  proof (cases "unat (rx ! 0) < 2 \<or> unat (rx ! 0) > length rx")
    case True
    then show ?thesis using assms False
      by (intro exI [of _ s] exI [of _ False]) (auto simp: reader_security_key_iso_dep_commit_rats_rx_def at)
  next
    case F: False
    have lt: "length (take (unat (rx ! 0)) rx) = unat (rx ! 0)" using F by simp
    have tk: "take (unat (rx ! 0)) (patch (id_ats_data s) 0 (take (unat (rx ! 0)) rx)) = take (unat (rx ! 0)) rx"
      using F assms(2) len take_patch_front [of "take (unat (rx ! 0)) rx" "id_ats_data s", unfolded lt] by simp
    have inv: "iso_inv (s\<lparr>id_ats_len := unat (rx ! 0), id_ats_data := patch (id_ats_data s) 0 (take (unat (rx ! 0)) rx),
        id_rats_param := p, id_block_num := 0\<rparr>)"
      using F assms by (simp add: iso_inv_def min_def)
    show ?thesis
      using False F assms(2) len inv tk
      by (auto simp: reader_security_key_iso_dep_commit_rats_rx_def at)
  qed
qed

lemma parse_ats_total:
  assumes "n \<le> length d" and "length d \<le> 64"
  shows "\<exists>ok p. reader_iso_dep_parse_ats_profile (Some d) n = Some (ok, p) \<and>
    302 \<le> ap_fwt_us p \<and> ap_fwt_us p \<le> 4949060 \<and> 16 \<le> ap_pic_frame_max p \<and> ap_pic_frame_max p \<le> 256"
proof (cases "n < 2")
  case True
  then show ?thesis
    by (auto simp: reader_iso_dep_parse_ats_profile_def reader_iso_dep_ats_profile_reset_def fwt_bounds)
next
  case False
  have "16 \<le> [16, 24, 32, 40, 48, 64, 96, 128, 256 :: nat] ! k \<and> [16, 24, 32, 40, 48, 64, 96, 128, 256 :: nat] ! k \<le> 256"
    if "k < 9" for k
    using that by (simp add: less_Suc_eq numeral_eq_Suc) auto
  then have fsc: "16 \<le> reader_iso_dep_fsc_from_fsci k" "reader_iso_dep_fsc_from_fsci k \<le> 256" for k
    by (simp_all add: reader_iso_dep_fsc_from_fsci_def)
  have at: "nero_nfc_u8_at (Some d) n 1 = Some (d ! 1)" using False assms by (subst u8_at_in) auto
  have ex: "\<exists>b. b" "Ex Not" "\<exists>b. \<not> b" by auto
  show ?thesis
    using False assms
    by (simp add: reader_iso_dep_parse_ats_profile_def at Let_def reader_iso_dep_ats_profile_reset_def fsc fwt_bounds ex)
qed

text \<open>What a session knows after RATS: the parameters of the stored ATS.\<close>

definition ats_applied :: "iso_dep \<Rightarrow> bool" where
  "ats_applied s \<longleftrightarrow> (\<exists>ok p. reader_iso_dep_parse_ats_profile (Some (id_ats_data s)) (id_ats_len s) = Some (ok, p) \<and>
     (if ok then id_have_tc s = ap_has_tc p \<and> id_fwt_us s = ap_fwt_us p \<and> id_pic_frame_max s = ap_pic_frame_max p \<and>
        (ap_has_tc p \<longrightarrow> id_tc_byte s = ap_tc p)
      else \<not> id_have_tc s \<and> id_fwt_us s = reader_iso_dep_fwt_us_default))"

definition session_ready :: "iso_dep \<Rightarrow> bool" where
  "session_ready s \<longleftrightarrow> id_block_num s = 0 \<and> 2 \<le> id_ats_len s \<and> unat (id_ats_data s ! 0) = id_ats_len s \<and>
     ats_applied s \<and> (id_pcb_has_cid s \<longrightarrow> id_rats_param s AND 0x0F = id_cid s)"

lemma parse_ats_quiet_total:
  assumes "iso_inv s"
  shows "\<exists>s'. parse_ats_quiet s = Some s' \<and> iso_inv s' \<and> ats_applied s' \<and> id_block_num s' = id_block_num s \<and>
    id_ats_len s' = id_ats_len s \<and> id_ats_data s' = id_ats_data s \<and> id_rats_param s' = id_rats_param s \<and>
    id_cid s' = id_cid s \<and> id_pcb_has_cid s' = id_pcb_has_cid s"
proof -
  have "id_ats_len s \<le> length (id_ats_data s)" "length (id_ats_data s) \<le> 64" using assms by (simp_all add: iso_inv_def)
  from parse_ats_total [OF this] obtain ok p where
    p: "reader_iso_dep_parse_ats_profile (Some (id_ats_data s)) (id_ats_len s) = Some (ok, p)"
      "302 \<le> ap_fwt_us p" "ap_fwt_us p \<le> 4949060" "16 \<le> ap_pic_frame_max p" "ap_pic_frame_max p \<le> 256" by blast
  define s' where "s' = (if \<not> ok then s\<lparr>id_have_tc := False, id_fwi := ISO_DEP_FWI_DEFAULT,
      id_fwt_us := reader_iso_dep_fwt_us_default\<rparr>
    else (let s = s\<lparr>id_have_tc := ap_has_tc p, id_fwi := ap_fwi p, id_fwt_us := ap_fwt_us p,
                    id_pic_frame_max := ap_pic_frame_max p\<rparr>
       in if ap_has_tc p then s\<lparr>id_tc_byte := ap_tc p\<rparr> else s))"
  have r: "parse_ats_quiet s = Some s'"
    by (simp add: parse_ats_quiet_def p(1) s'_def reader_iso_dep_fwt_us_default_def Let_def)
  have keep: "id_block_num s' = id_block_num s" "id_ats_len s' = id_ats_len s" "id_ats_data s' = id_ats_data s"
    "id_rats_param s' = id_rats_param s" "id_cid s' = id_cid s" "id_pcb_has_cid s' = id_pcb_has_cid s"
    by (simp_all add: s'_def Let_def)
  have "ats_applied s'"
    unfolding ats_applied_def keep
    by (intro exI [of _ ok] exI [of _ p] conjI p(1)) (simp add: s'_def Let_def)
  moreover have "iso_inv s'"
    using assms p(2-) by (simp add: iso_inv_def s'_def Let_def reader_iso_dep_fwt_us_default_def fwt_bounds)
  ultimately show ?thesis using r keep by blast
qed

lemma rats_kept:
  assumes "radio_ok R" and "iso_inv s"
  shows "\<exists>c' s' ok. iso_dep_rats_quiet R (c, s) ms p = Some ((c', s'), ok) \<and> iso_inv s' \<and>
    (ok \<longrightarrow> 2 \<le> id_ats_len s' \<and> unat (id_ats_data s' ! 0) = id_ats_len s' \<and> id_rats_param s' = p \<and> id_block_num s' = 0)"
proof -
  have "kept (reader_security_key_iso_dep_transceive R (c, s) (Some [0xE0, p]) 2 64 True ms)"
    using assms by (intro transceive_kept) simp_all
  then obtain c1 s1 rx where
    1: "reader_security_key_iso_dep_transceive R (c, s) (Some [0xE0, p]) 2 64 True ms = Some ((c1, s1), rx)" "iso_inv s1"
    by (rule keptE)
  have "length rx \<le> 64" using transceive_length [OF 1(1) assms(1)] .
  from commit_rats_total [OF 1(2) this, of p] obtain s2 ok where
    2: "reader_security_key_iso_dep_commit_rats_rx (length rx) (Some rx) p s1 = Some (s2, ok)" "iso_inv s2"
      "ok \<longrightarrow> 2 \<le> id_ats_len s2 \<and> id_ats_len s2 \<le> length rx \<and> take (id_ats_len s2) (id_ats_data s2) = take (id_ats_len s2) rx \<and>
        id_ats_len s2 = unat (rx ! 0) \<and> id_rats_param s2 = p \<and> id_block_num s2 = 0" by blast
  have "unat (id_ats_data s2 ! 0) = id_ats_len s2" if ok
  proof -
    have e: "take (id_ats_len s2) (id_ats_data s2) = take (id_ats_len s2) rx" and n: "0 < id_ats_len s2"
      using 2(3) that by auto
    have "take (id_ats_len s2) (id_ats_data s2) ! 0 = take (id_ats_len s2) rx ! 0" by (simp only: e)
    then have "id_ats_data s2 ! 0 = rx ! 0" using n by simp
    then show ?thesis using 2(3) that by simp
  qed
  then show ?thesis using 2 by (auto simp: iso_dep_rats_quiet_def 1(1))
qed

text \<open>One RATS and, when it succeeds, the parser; then the CID it was sent for.\<close>

lemma rats_parse_ready:
  assumes "radio_ok R" and "iso_inv s"
  obtains c' s' where "iso_dep_rats_quiet R (c, s) ms p = Some ((c', s'), False)" "iso_inv s'"
    | c' s' s'' where "iso_dep_rats_quiet R (c, s) ms p = Some ((c', s'), True)" "parse_ats_quiet s' = Some s''"
      "iso_inv s''" "id_block_num s'' = 0" "2 \<le> id_ats_len s''" "unat (id_ats_data s'' ! 0) = id_ats_len s''"
      "ats_applied s''" "id_rats_param s'' = p" "id_pcb_has_cid s'' = id_pcb_has_cid s'"
proof -
  obtain c' s' ok where r: "iso_dep_rats_quiet R (c, s) ms p = Some ((c', s'), ok)" "iso_inv s'"
    "ok \<longrightarrow> 2 \<le> id_ats_len s' \<and> unat (id_ats_data s' ! 0) = id_ats_len s' \<and> id_rats_param s' = p \<and> id_block_num s' = 0"
    using rats_kept [OF assms] by blast
  show thesis
  proof (cases ok)
    case False
    then show ?thesis using that(1) r by simp
  next
    case True
    obtain s'' where "parse_ats_quiet s' = Some s''" "iso_inv s''" "ats_applied s''" "id_block_num s'' = id_block_num s'"
      "id_ats_len s'' = id_ats_len s'" "id_ats_data s'' = id_ats_data s'" "id_rats_param s'' = id_rats_param s'"
      "id_pcb_has_cid s'' = id_pcb_has_cid s'"
      using parse_ats_quiet_total [OF r(2)] by blast
    then show ?thesis using that(2) r True by simp
  qed
qed

lemma ats_applied_cid [simp]: "ats_applied (s\<lparr>id_cid := i, id_pcb_has_cid := b\<rparr>) = ats_applied s"
  by (simp add: ats_applied_def)

lemma session_readyI:
  assumes "id_block_num s = 0" "2 \<le> id_ats_len s" "unat (id_ats_data s ! 0) = id_ats_len s" "ats_applied s"
    "id_rats_param s AND 0x0F = i"
  shows "session_ready (s\<lparr>id_cid := i, id_pcb_has_cid := True\<rparr>)"
  using assms by (simp add: session_ready_def)

text \<open>A result that is defined, keeps the invariant, and leaves a ready session with CID on success.\<close>

definition opened :: "(('c \<times> iso_dep) \<times> bool) option \<Rightarrow> bool" where
  "opened r \<longleftrightarrow> (\<exists>c s ok. r = Some ((c, s), ok) \<and> iso_inv s \<and> (ok \<longrightarrow> session_ready s \<and> id_pcb_has_cid s))"

lemma openedI: "iso_inv s \<Longrightarrow> (ok \<Longrightarrow> session_ready s \<and> id_pcb_has_cid s) \<Longrightarrow> opened (Some ((c, s), ok))"
  by (simp add: opened_def)

lemma rats_step_opened:
  assumes R: "radio_ok R" and s: "iso_inv s" and p: "p AND 0x0F = i"
    and f: "\<And>c' s'. iso_inv s' \<Longrightarrow> opened (f c' s')"
  shows "opened (do {
     ((c, s), ok) \<leftarrow> iso_dep_rats_quiet R (c, s) ms p;
     if ok then do {
       s \<leftarrow> parse_ats_quiet s;
       Some ((c, s\<lparr>id_cid := i, id_pcb_has_cid := True\<rparr>), True)
     } else f c s })"
proof (rule rats_parse_ready [OF R s, of c ms p])
  fix c' s' assume "iso_dep_rats_quiet R (c, s) ms p = Some ((c', s'), False)" "iso_inv s'"
  then show ?thesis using f by simp
next
  fix c' s' s'' assume a: "iso_dep_rats_quiet R (c, s) ms p = Some ((c', s'), True)" "parse_ats_quiet s' = Some s''"
    "iso_inv s''" "id_block_num s'' = 0" "2 \<le> id_ats_len s''" "unat (id_ats_data s'' ! 0) = id_ats_len s''"
    "ats_applied s''" "id_rats_param s'' = p"
  then have "session_ready (s''\<lparr>id_cid := i, id_pcb_has_cid := True\<rparr>)" using p by (intro session_readyI) simp_all
  with a show ?thesis by (simp add: openedI)
qed

lemma open_main_opened:
  assumes R: "radio_ok R" and s: "iso_inv s"
  shows "opened (iso_dep_open_main_from_active_quiet R (c, s) ms)"
  unfolding iso_dep_open_main_from_active_quiet_def
  by (intro rats_step_opened R s) (auto intro: openedI)

lemma deselect_kept:
  assumes "iso_inv s"
  shows "\<exists>c' s'. reader_security_key_iso_dep_send_deselect R (c, s) = Some (c', s') \<and> iso_inv s'"
proof -
  define tx where "tx = (if id_pcb_has_cid s then [0xC2 OR 0x08, id_cid s] else [0xC2])"
  have "kept (reader_security_key_iso_dep_transceive R (c, s) (Some tx) (length tx) 8 True 50)"
    using assms by (intro transceive_kept) simp_all
  then obtain c1 s1 rx where
    "reader_security_key_iso_dep_transceive R (c, s) (Some tx) (length tx) 8 True 50 = Some ((c1, s1), rx)" "iso_inv s1"
    by (rule keptE)
  then show ?thesis
    by (simp add: reader_security_key_iso_dep_send_deselect_def tx_def [symmetric] split: prod.split)
qed

lemma settle_state: "reader_security_key_iso_dep_protocol_settle R (c, s) = (hal_delay_ms R c 2, s)"
  by (simp add: reader_security_key_iso_dep_protocol_settle_def)

lemma recover_opened:
  assumes R: "radio_ok R" and s: "iso_inv s"
  shows "opened (iso_dep_recover_session_quiet R (c, s))"
proof -
  obtain c1 s1 where 1: "reader_security_key_iso_dep_send_deselect R (c, s) = Some (c1, s1)" "iso_inv s1"
    using deselect_kept [OF s, of R c] by blast
  have "kept (iso_dep_activate_after_hlta_quiet R (hal_delay_ms R c1 2, s1))"
    unfolding iso_dep_activate_after_hlta_quiet_def using R 1 by (intro activate_loop_kept) simp_all
  then obtain c2 s2 ok where 2: "iso_dep_activate_after_hlta_quiet R (hal_delay_ms R c1 2, s1) = Some ((c2, s2), ok)" "iso_inv s2"
    by (rule keptE)
  show ?thesis
  proof (cases ok)
    case False
    then show ?thesis using 1 2 by (auto simp: iso_dep_recover_session_quiet_def settle_state intro: openedI)
  next
    case True
    then show ?thesis using 1 2 open_main_opened [OF R 2(2)]
      by (simp add: iso_dep_recover_session_quiet_def settle_state)
  qed
qed

lemma reset_framing_inv: "iso_inv s \<Longrightarrow> iso_inv (reader_security_key_iso_dep_reset_framing s)"
  by (simp add: iso_inv_def reader_security_key_iso_dep_reset_framing_def fwt_bounds)

lemma rats_has_cid:
  "iso_dep_rats_quiet R (c, s) ms p = Some ((c', s'), ok) \<Longrightarrow> id_pcb_has_cid s' = id_pcb_has_cid s"
proof -
  have h: "id_pcb_has_cid (snd (reader_security_key_iso_dep_ccid_heartbeat R w)) = id_pcb_has_cid (snd w)" for w
    by (cases w) (simp add: reader_security_key_iso_dep_ccid_heartbeat_def split: prod.split)
  have t: "id_pcb_has_cid s1 = id_pcb_has_cid s"
    if "reader_security_key_iso_dep_transceive R (c, s) tx tx_len rx_max crc ms = Some ((c1, s1), rx)" for c1 s1 tx tx_len rx_max crc rx
    using that h [of "(c, s)"] h
    by (auto simp: reader_security_key_iso_dep_transceive_def split: prod.splits if_splits) (metis snd_conv)+
  have k: "id_pcb_has_cid s2 = id_pcb_has_cid s1"
    if "reader_security_key_iso_dep_commit_rats_rx n rx p s1 = Some (s2, ok)" for n rx s1 s2 ok
    using that by (auto simp: reader_security_key_iso_dep_commit_rats_rx_def Let_def split: if_splits bind_splits prod.splits)
  assume "iso_dep_rats_quiet R (c, s) ms p = Some ((c', s'), ok)"
  then show ?thesis
    by (auto simp: iso_dep_rats_quiet_def split: bind_splits prod.splits dest!: t k)
qed

text \<open>
  C11: opening a session against any card. Whatever the radio answers, opening neither reads nor
  writes outside a buffer and keeps the state well formed. When it reports success the session
  is ready: the stored ATS has the length its first byte states, frame size, waiting time and
  CID/NAD support are the ones this ATS announces (or safe defaults), block numbering starts at
  0, and the CID in use is the one the last RATS assigned; blocks go out without CID only to a
  card that does not announce CID support.
\<close>

theorem session_open_ready:
  assumes R: "radio_ok R" and s: "iso_inv s"
  shows "\<exists>c' s' ok. reader_security_key_iso_dep_session_open_quiet R (c, s) ms = Some ((c', s'), ok) \<and> iso_inv s' \<and>
    (ok \<longrightarrow> session_ready s' \<and> (id_pcb_has_cid s' \<or> \<not> (id_have_tc s' \<and> id_tc_byte s' AND 0x02 \<noteq> 0)))"
proof -
  define s0 where "s0 = reader_security_key_iso_dep_reset_framing s"
  have s0: "iso_inv s0" "\<not> id_pcb_has_cid s0"
    using reset_framing_inv [OF s] by (simp_all add: s0_def reader_security_key_iso_dep_reset_framing_def)
  show ?thesis
  proof (rule rats_parse_ready [OF R s0(1), where c = c and ms = ms and p = "0x70"])
    fix c' s' assume "iso_dep_rats_quiet R (c, s0) ms 0x70 = Some ((c', s'), False)" "iso_inv s'"
    then show ?thesis by (auto simp: reader_security_key_iso_dep_session_open_quiet_def s0_def)
  next
    fix c' s' s'' assume a: "iso_dep_rats_quiet R (c, s0) ms 0x70 = Some ((c', s'), True)" "parse_ats_quiet s' = Some s''"
      "iso_inv s''" "id_block_num s'' = 0" "2 \<le> id_ats_len s''" "unat (id_ats_data s'' ! 0) = id_ats_len s''"
      "ats_applied s''" "id_rats_param s'' = 0x70" "id_pcb_has_cid s'' = id_pcb_has_cid s'"
    have nc: "\<not> id_pcb_has_cid s''" using rats_has_cid [OF a(1)] s0(2) a(9) by simp
    show ?thesis
    proof (cases "reader_security_key_iso_dep_probe_can_upgrade_cid s''")
      case False
      have "session_ready s''" using a nc by (simp add: session_ready_def)
      with False nc a(3) show ?thesis
        by (auto simp: reader_security_key_iso_dep_session_open_quiet_def s0_def [symmetric] a(1,2)
            reader_security_key_iso_dep_probe_can_upgrade_cid_def)
    next
      case True
      obtain c1 s1 ok where r: "iso_dep_recover_session_quiet R (c', s'') = Some ((c1, s1), ok)" "iso_inv s1"
        "ok \<longrightarrow> session_ready s1 \<and> id_pcb_has_cid s1" using recover_opened [OF R a(3), of c'] unfolding opened_def by blast
      have o: "reader_security_key_iso_dep_session_open_quiet R (c, s) ms =
          Some (if ok then (reader_security_key_iso_dep_post_recover_rf_settle R (c1, s1), True) else ((c1, s1), False))"
        by (simp add: reader_security_key_iso_dep_session_open_quiet_def s0_def [symmetric] a(1,2) True r(1))
      show ?thesis
      proof (cases ok)
        case True
        then show ?thesis
          using o r by (auto simp: reader_security_key_iso_dep_post_recover_rf_settle_def settle_state)
      next
        case False
        then show ?thesis using o r(2) by auto
      qed
    qed
  qed
qed

text \<open>A card that answers RATS with \<open>05 78 80 70 00\<close> and everything else with nothing.\<close>

definition one_ats_radio :: "unit radio" where
  "one_ats_radio = \<lparr>
     rf_transceive = (\<lambda>c tx m crc ms. (c, if tx = [0xE0, 0x70] then take m [0x05, 0x78, 0x80, 0x70, 0x00] else [])),
     rf_transceive14 = (\<lambda>c tx m crc ms a p. (c, [])), rf_wupa = (\<lambda>c. (c, False)), rf_configure = (\<lambda>c. c),
     hal_millis = (\<lambda>c. (c, 0)), hal_delay_ms = (\<lambda>c n. c), ccid_abort_pending = (\<lambda>c. (c, False)),
     ccid_time_extension = (\<lambda>c. c)\<rparr>"

definition fresh_iso_dep :: iso_dep where
  "fresh_iso_dep = \<lparr>
     id_block_num = 0, id_rats_param = 0, id_cid = 0, id_pcb_has_cid = False, id_have_tc = False, id_tc_byte = 0,
     id_fwi = 4, id_fwt_us = 4834, id_pic_frame_max = 256, id_raw_rx = replicate 24 0, id_raw_rx_len = 0,
     id_last_inf_off = 0, id_iblock_tx = replicate 832 0, id_ats_data = replicate 64 0, id_ats_len = 0,
     id_uid14 = replicate 10 0, id_uid14_len = 0, id_sak = 0, id_last_deselect_ms = 0, id_last_error = 0,
     id_extension_bound = False, id_extension_last_ms = 0\<rparr>"

lemma fresh_iso_dep_inv: "iso_inv fresh_iso_dep"
  by (simp add: iso_inv_def fresh_iso_dep_def)

theorem session_open_ready_witness:
  "\<exists>c' s' ok. reader_security_key_iso_dep_session_open_quiet one_ats_radio ((), fresh_iso_dep) 400 = Some ((c', s'), ok) \<and>
    iso_inv s' \<and> (ok \<longrightarrow> session_ready s' \<and> (id_pcb_has_cid s' \<or> \<not> (id_have_tc s' \<and> id_tc_byte s' AND 0x02 \<noteq> 0)))"
proof -
  have "radio_ok one_ats_radio" by (auto simp: radio_ok_def one_ats_radio_def)
  then show ?thesis using fresh_iso_dep_inv by (rule session_open_ready)
qed

end
