(* ===== verification/IsoDepExchange.thy ===== *)
theory IsoDepExchange
  imports IsoDepSession CtapCodec
begin

text \<open>
  The ISO-DEP exchange (\<^verbatim>\<open>reader_security_key_iso_dep_transceive.c\<close>): sending an APDU in chained
  I-blocks, waiting-time extensions, retransmissions, reassembling the response, and the
  GET RESPONSE chains above it.

  The loops of the code wait for what the card does and have no bound of their own. Each loop
  body is a step function, and \<open>run_steps\<close> iterates it with fuel: the outer \<open>None\<close> is a fault,
  \<open>Some None\<close> means that the fuel ran out, \<open>Some (Some r)\<close> is the result. The counter of
  waiting-time extensions only serves the log and is left out.
\<close>

section \<open>Loops\<close>

datatype ('s, 'r) step = Again 's | Stop 'r | Starved

fun run_steps :: "('s \<Rightarrow> ('s, 'r) step option) \<Rightarrow> nat \<Rightarrow> 's \<Rightarrow> 'r option option" where
  "run_steps f 0 s = Some None"
| "run_steps f (Suc n) s = do {
     x \<leftarrow> f s;
     case x of Again s' \<Rightarrow> run_steps f n s' | Stop r \<Rightarrow> Some (Some r) | Starved \<Rightarrow> Some None
   }"

section \<open>One I-block exchange\<close>

text \<open>The arguments of a call of \<^verbatim>\<open>reader_security_key_send_i_block\<close> and its constants.\<close>

record icall =
  ic_apdu :: cptr
  ic_apdu_len :: nat
  ic_resp :: cptr
  ic_resp_len :: nat
  ic_frame_timeout_ms :: nat
  ic_start_ms :: nat
  ic_add_nad :: bool
  ic_frag_cap :: nat
  ic_link_timeout_ms :: nat

text \<open>Where the call stands: before a fragment, waiting for its acknowledge, or receiving.\<close>

datatype 'w iphase =
  Frag 'w nat bytes
| Chain 'w nat i_block_tx u8 bytes nat
| Recv 'w cptr nat u8 bytes

definition iso_dep_note_wtx_wait :: "'c radio \<Rightarrow> 'c \<times> iso_dep \<Rightarrow> 'c \<times> iso_dep" where
  "iso_dep_note_wtx_wait R w = reader_security_key_iso_dep_ccid_heartbeat R w"

definition reader_security_key_resp_tail_cap :: "nat \<Rightarrow> nat \<Rightarrow> nat" where
  "reader_security_key_resp_tail_cap resp_buf_len used =
     (if used \<ge> resp_buf_len then 0 else resp_buf_len - used)"

text \<open>
  Answering S(WTX): the same code in both loops, with the error codes of the loop. The result
  is the new received frame, or \<open>None\<close> when the call returns -1.
\<close>

definition answer_wtx ::
    "'c radio \<Rightarrow> icall \<Rightarrow> u8 \<Rightarrow> u8 \<Rightarrow> u8 \<Rightarrow> u8 \<Rightarrow> u8 \<Rightarrow> bool \<Rightarrow> 'c \<times> iso_dep \<Rightarrow> bytes \<Rightarrow> nat \<Rightarrow>
      (('c \<times> iso_dep) \<times> bytes option) option" where
  "answer_wtx R k e_deadline e_abort e_short e_overflow e_echo snap_null = (\<lambda>(c, s) rx hdr_skip.
     let (c, now) = hal_millis R c in
     if u32_diff now (ic_start_ms k) > ic_frame_timeout_ms k
     then Some ((c, reader_security_key_iso_dep_set_last_error e_deadline s), None)
     else let (c, aborted) = ccid_abort_pending R c in
       if aborted then Some ((c, reader_security_key_iso_dep_set_last_error e_abort s), None)
       else do {
         (ok, wtx_len, wtx_tx) \<leftarrow> reader_iso_dep_build_wtx_echo (Some (replicate 8 0)) 8 (Some rx) (length rx) hdr_skip;
         if \<not> ok then Some ((c, reader_security_key_iso_dep_set_last_error
             (if length rx < hdr_skip + 1 then e_short else e_overflow) s), None)
         else do {
           ms \<leftarrow> reader_security_key_iso_dep_wtx_response_timeout_ms s (Some rx) (length rx) hdr_skip;
           (w, rx) \<leftarrow> reader_security_key_iso_dep_transceive R (c, s) wtx_tx wtx_len 512 True ms;
           let (c, s) = iso_dep_note_wtx_wait R w;
           if rx = [] then do {
             s \<leftarrow> (if snap_null then reader_security_key_iso_dep_snap_raw_rx None 0 s else Some s);
             Some ((c, reader_security_key_iso_dep_set_last_error e_echo s), None)
           } else do {
             s \<leftarrow> reader_security_key_iso_dep_snap_raw_rx (Some rx) (length rx) s;
             Some ((c, s), Some rx)
           }
         }
       })"

text \<open>Sending the fragment in the transmit buffer again.\<close>

definition resend_fragment ::
    "'c radio \<Rightarrow> icall \<Rightarrow> 'c \<times> iso_dep \<Rightarrow> i_block_tx \<Rightarrow> (('c \<times> iso_dep) \<times> bytes option) option" where
  "resend_fragment R k = (\<lambda>(c, s) tx_info. do {
     ((c, s), rx) \<leftarrow> reader_security_key_iso_dep_transceive R (c, s) (Some (id_iblock_tx s))
       (itx_wire_len tx_info) 512 True (ic_link_timeout_ms k);
     if rx = [] then do {
       s \<leftarrow> reader_security_key_iso_dep_snap_raw_rx None 0 s;
       Some ((c, reader_security_key_iso_dep_set_last_error 0x08 s), None)
     } else do {
       s \<leftarrow> reader_security_key_iso_dep_snap_raw_rx (Some rx) (length rx) s;
       Some ((c, s), Some rx)
     }
   })"

text \<open>The body of the loop over the fragments of the APDU.\<close>

definition frag_step ::
    "'c radio \<Rightarrow> icall \<Rightarrow> 'c \<times> iso_dep \<Rightarrow> nat \<Rightarrow> bytes \<Rightarrow>
      (('c \<times> iso_dep) iphase, ('c \<times> iso_dep) \<times> cptr \<times> nat option) step option" where
  "frag_step R k = (\<lambda>(c, s) apdu_off rx.
     if apdu_off < ic_apdu_len k then do {
       let blk_sent = id_block_num s AND 0x01;
       (ok, tx_info, tx) \<leftarrow> reader_iso_dep_build_i_block_tx (Some (id_iblock_tx s)) 832 (ic_apdu k)
         (ic_apdu_len k) apdu_off (ic_frag_cap k) (id_pcb_has_cid s) (id_cid s) (ic_add_nad k) 0x01 blk_sent;
       let s = s\<lparr>id_iblock_tx := the tx\<rparr>;
       if \<not> ok then Some (Stop ((c, s), ic_resp k, None))
       else do {
         ((c, s), rx) \<leftarrow> reader_security_key_iso_dep_transceive R (c, s) (Some (id_iblock_tx s))
           (itx_wire_len tx_info) 512 True (ic_link_timeout_ms k);
         if rx = [] then do {
           s \<leftarrow> reader_security_key_iso_dep_snap_raw_rx None 0 s;
           Some (Stop ((c, reader_security_key_iso_dep_set_last_error 0x01 s), ic_resp k, None))
         } else do {
           s \<leftarrow> reader_security_key_iso_dep_snap_raw_rx (Some rx) (length rx) s;
           Some (Again (if itx_chain_more tx_info then Chain (c, s) apdu_off tx_info blk_sent rx 0
                        else Recv (c, s) (ic_resp k) 0 (id_block_num s) rx))
         }
       }
     } else Some (Again (Recv (c, s) (ic_resp k) 0 (id_block_num s) rx)))"

text \<open>The body of the loop that waits for the acknowledge of a chained fragment.\<close>

definition chain_step ::
    "'c radio \<Rightarrow> icall \<Rightarrow> 'c \<times> iso_dep \<Rightarrow> nat \<Rightarrow> i_block_tx \<Rightarrow> u8 \<Rightarrow> bytes \<Rightarrow> nat \<Rightarrow>
      (('c \<times> iso_dep) iphase, ('c \<times> iso_dep) \<times> cptr \<times> nat option) step option" where
  "chain_step R k = (\<lambda>(c, s) apdu_off tx_info blk_sent rx rnak_retries. do {
     pcb \<leftarrow> rd (Some rx) 0;
     let hdr_skip = reader_iso_dep_rx_hdr_skip pcb;
     if pcb AND 0xF7 = 0xF2 then do {
       (w, r) \<leftarrow> answer_wtx R k 0x03 0x16 0x04 0x05 0x06 True (c, s) rx hdr_skip;
       Some (case r of None \<Rightarrow> Stop (w, ic_resp k, None)
             | Some rx \<Rightarrow> Again (Chain w apdu_off tx_info blk_sent rx rnak_retries))
     } else do {
       nak \<leftarrow> reader_security_key_iso_dep_rx_is_chain_nak_for_block s (Some rx) (length rx) blk_sent;
       if nak then
         (if rnak_retries \<ge> 2
          then Some (Stop ((c, reader_security_key_iso_dep_set_last_error 0x07 s), ic_resp k, None))
          else do {
            (w, r) \<leftarrow> resend_fragment R k (c, s) tx_info;
            Some (case r of None \<Rightarrow> Stop (w, ic_resp k, None)
                  | Some rx \<Rightarrow> Again (Chain w apdu_off tx_info blk_sent rx (rnak_retries + 1)))
          })
       else do {
         ack \<leftarrow> reader_security_key_iso_dep_rx_is_chain_ack_for_block s (Some rx) (length rx) blk_sent;
         if ack then Some (Again (Frag (c, s\<lparr>id_block_num := id_block_num s XOR 0x01\<rparr>)
             (u16n (apdu_off + itx_frag_len tx_info)) rx))
         else do {
           rblock \<leftarrow> reader_iso_dep_rx_rblock_block (Some rx) (length rx) False (id_pcb_has_cid s) (id_cid s);
           if rblock \<noteq> None then
             (if rnak_retries \<ge> 2
              then Some (Stop ((c, reader_security_key_iso_dep_set_last_error 0x09 s), ic_resp k, None))
              else do {
                (w, r) \<leftarrow> resend_fragment R k (c, s) tx_info;
                Some (case r of None \<Rightarrow> Stop (w, ic_resp k, None)
                      | Some rx \<Rightarrow> Again (Chain w apdu_off tx_info blk_sent rx (rnak_retries + 1)))
              })
           else Some (Stop ((c, reader_security_key_iso_dep_set_last_error 0x09 s), ic_resp k, None))
         }
       }
     }
   })"

text \<open>What the call returns after the receive loop.\<close>

definition recv_exit ::
    "'c \<times> iso_dep \<Rightarrow> cptr \<Rightarrow> nat \<Rightarrow> u8 \<Rightarrow> bool \<Rightarrow> ('c \<times> iso_dep) \<times> cptr \<times> nat option" where
  "recv_exit = (\<lambda>(c, s) resp tot expected_block completed.
     let s = (if completed then s\<lparr>id_block_num := expected_block\<rparr> else s) in
     if \<not> completed \<and> tot > 0 then ((c, reader_security_key_iso_dep_set_last_error 0x13 s), resp, None)
     else ((c, s), resp, Some tot))"

text \<open>The body of the receive loop.\<close>

definition recv_step ::
    "'c radio \<Rightarrow> icall \<Rightarrow> 'c \<times> iso_dep \<Rightarrow> cptr \<Rightarrow> nat \<Rightarrow> u8 \<Rightarrow> bytes \<Rightarrow>
      (('c \<times> iso_dep) iphase, ('c \<times> iso_dep) \<times> cptr \<times> nat option) step option" where
  "recv_step R k = (\<lambda>(c, s) resp tot expected_block rx.
     if rx = [] then Some (Stop (recv_exit (c, s) resp tot expected_block False))
     else do {
       pcb \<leftarrow> rd (Some rx) 0;
       let hdr_skip = reader_iso_dep_rx_hdr_skip pcb;
       let fail = (\<lambda>(c, s) resp e. Some (Stop ((c, reader_security_key_iso_dep_set_last_error e s), resp, None)));
       if pcb AND 0xF7 = 0xF2 then do {
         (w, r) \<leftarrow> answer_wtx R k 0x0A 0x17 0x0B 0x0C 0x0D False (c, s) rx hdr_skip;
         Some (case r of None \<Rightarrow> Stop (w, resp, None) | Some rx \<Rightarrow> Again (Recv w resp tot expected_block rx))
       } else if pcb AND 0xC0 = 0x00 then do {
         inf_off \<leftarrow> reader_security_key_iso_dep_pick_inf_offset s (Some rx) (length rx);
         matches \<leftarrow> reader_iso_dep_rx_i_block_number_matches (Some rx) (length rx) expected_block;
         if \<not> matches then fail (c, s) resp 0x11
         else do {
           let s = s\<lparr>id_last_inf_off := inf_off\<rparr>;
           (ok, inf_len, _) \<leftarrow> reader_iso_dep_i_block_inf_len (Some rx) (length rx) inf_off pcb;
           if \<not> ok then fail (c, s) resp 0x0E
           else do {
             (ok, appended_inf, tot, resp) \<leftarrow> reader_iso_dep_append_inf resp (ic_resp_len k) tot
               (ptr_add (Some rx) inf_off) inf_len;
             if \<not> ok then fail (c, s) resp 0x0F
             else if \<not> appended_inf \<and> inf_len > 0 then fail (c, s) resp 0x12
             else let expected_block = expected_block XOR 0x01 in
               if pcb AND 0x10 \<noteq> 0 then do {
                 (ok, ack_len, ack_tx) \<leftarrow> reader_iso_dep_build_chained_ack (Some (replicate 4 0)) 4 expected_block
                   (id_pcb_has_cid s) (id_cid s);
                 if \<not> ok then fail (c, s) resp 0x10
                 else do {
                   ((c, s), rx) \<leftarrow> reader_security_key_iso_dep_transceive R (c, s) ack_tx ack_len 512 True
                     (ic_link_timeout_ms k);
                   s \<leftarrow> reader_security_key_iso_dep_snap_raw_rx (Some rx) (length rx) s;
                   if rx = [] then fail (c, s) resp 0x10
                   else Some (Again (Recv (c, s) resp tot expected_block rx))
                 }
               } else Some (Stop (recv_exit (c, reader_security_key_iso_dep_set_last_error 0 s) resp tot
                   expected_block True))
           }
         }
       } else Some (Stop (recv_exit (c, s) resp tot expected_block False))
     })"

definition send_i_block_step ::
    "'c radio \<Rightarrow> icall \<Rightarrow> ('c \<times> iso_dep) iphase \<Rightarrow>
      (('c \<times> iso_dep) iphase, ('c \<times> iso_dep) \<times> cptr \<times> nat option) step option" where
  "send_i_block_step R k ph = (case ph of
     Frag w apdu_off rx \<Rightarrow> frag_step R k w apdu_off rx
   | Chain w apdu_off tx_info blk_sent rx rnak \<Rightarrow> chain_step R k w apdu_off tx_info blk_sent rx rnak
   | Recv w resp tot expected_block rx \<Rightarrow> recv_step R k w resp tot expected_block rx)"

text \<open>The result is the number of response bytes, or \<open>None\<close> for -1, and the response buffer.\<close>

definition reader_security_key_send_i_block ::
    "nat \<Rightarrow> 'c radio \<Rightarrow> 'c \<times> iso_dep \<Rightarrow> cptr \<Rightarrow> nat \<Rightarrow> cptr \<Rightarrow> nat \<Rightarrow> nat \<Rightarrow>
      (('c \<times> iso_dep) \<times> cptr \<times> nat option) option option" where
  "reader_security_key_send_i_block fuel R = (\<lambda>(c, s) apdu apdu_len resp resp_buf_len frame_timeout_ms.
     let (c, total_start_ms) = hal_millis R c in do {
       add_nad \<leftarrow> reader_security_key_iso_dep_tx_add_nad s apdu_len apdu;
       let tx_hdr_len = reader_security_key_iso_dep_tx_hdr_len s add_nad;
       let frag_cap = reader_security_key_iso_dep_apdu_chunk_budget s tx_hdr_len;
       let link_timeout_ms = reader_security_key_iso_dep_link_response_timeout_ms s;
       if apdu = None \<and> apdu_len \<noteq> 0 \<or> resp = None then Some (Some ((c, s), resp, None))
       else if frag_cap = 0 \<or> tx_hdr_len = 0 then Some (Some ((c, s), resp, None))
       else run_steps (send_i_block_step R
         \<lparr>ic_apdu = apdu, ic_apdu_len = apdu_len, ic_resp = resp, ic_resp_len = resp_buf_len,
          ic_frame_timeout_ms = frame_timeout_ms, ic_start_ms = total_start_ms, ic_add_nad = add_nad,
          ic_frag_cap = frag_cap, ic_link_timeout_ms = link_timeout_ms\<rparr>) fuel (Frag (c, s) 0 [])
     })"

section \<open>The APDU exchange\<close>

text \<open>
  One round of a GET RESPONSE chain: \<open>cmd\<close> fetches more, its answer overwrites the status word
  of what has been collected (\<open>tot\<close> bytes of \<open>resp\<close>).
\<close>

definition get_response_round ::
    "nat \<Rightarrow> 'c radio \<Rightarrow> nat \<Rightarrow> nat \<Rightarrow> bytes \<Rightarrow> ('c \<times> iso_dep) \<times> cptr \<times> nat \<Rightarrow>
      (('c \<times> iso_dep) \<times> cptr \<times> nat, ('c \<times> iso_dep) \<times> cptr \<times> nat) step option" where
  "get_response_round fuel R resp_buf_len frame_timeout_ms cmd = (\<lambda>(w, resp, tot).
     let tail_cap = reader_security_key_resp_tail_cap resp_buf_len (u16n tot) in
     if tail_cap < 2 then Some (Stop (w, resp, tot))
     else do {
       let tot = tot - 2;
       let base = the resp;
       r \<leftarrow> reader_security_key_send_i_block fuel R w (Some cmd) (length cmd) (Some (drop tot base)) tail_cap frame_timeout_ms;
       case r of
         None \<Rightarrow> Some Starved
       | Some (w, tail, got) \<Rightarrow>
           let resp = Some (take tot base @ the tail) in
           (case got of
              None \<Rightarrow> Some (Stop (w, resp, tot))
            | Some got \<Rightarrow>
                if got < 2 then Some (Stop (w, resp, tot))
                else do {
                  tot \<leftarrow> reader_iso_dep_trim_crc_suffix resp (u16n (tot + got));
                  Some (Again (w, resp, tot))
                })
     })"

definition get_response_step ::
    "nat \<Rightarrow> 'c radio \<Rightarrow> nat \<Rightarrow> nat \<Rightarrow> bool \<Rightarrow> ('c \<times> iso_dep) \<times> cptr \<times> nat \<Rightarrow>
      (('c \<times> iso_dep) \<times> cptr \<times> nat, ('c \<times> iso_dep) \<times> cptr \<times> nat) step option" where
  "get_response_step fuel R resp_buf_len frame_timeout_ms follow_get_response = (\<lambda>(w, resp, tot). if \<not> follow_get_response then Some (Stop (w, resp, tot)) else do {
     (more_data, remaining) \<leftarrow> nfc_iso7816_response_more_data resp (int tot);
     if \<not> more_data then Some (Stop (w, resp, tot))
     else get_response_round fuel R resp_buf_len frame_timeout_ms [0x00, 0xC0, 0x00, 0x00, remaining] (w, resp, tot)
   })"

definition ctap_get_response_step ::
    "nat \<Rightarrow> 'c radio \<Rightarrow> nat \<Rightarrow> nat \<Rightarrow> bool \<Rightarrow> ('c \<times> iso_dep) \<times> cptr \<times> nat \<Rightarrow>
      (('c \<times> iso_dep) \<times> cptr \<times> nat, ('c \<times> iso_dep) \<times> cptr \<times> nat) step option" where
  "ctap_get_response_step fuel R resp_buf_len frame_timeout_ms follow_get_response = (\<lambda>(w, resp, tot). if \<not> follow_get_response then Some (Stop (w, resp, tot)) else do {
     more_data \<leftarrow> nfc_ctap_response_more_data resp (int tot);
     if \<not> more_data then Some (Stop (w, resp, tot))
     else get_response_round fuel R resp_buf_len frame_timeout_ms [0x80, 0x11, 0x00, 0x00] (w, resp, tot)
   })"

definition reader_security_key_send_apdu_timeout_ex ::
    "nat \<Rightarrow> 'c radio \<Rightarrow> 'c \<times> iso_dep \<Rightarrow> cptr \<Rightarrow> nat \<Rightarrow> cptr \<Rightarrow> nat \<Rightarrow> nat \<Rightarrow> bool \<Rightarrow>
      (('c \<times> iso_dep) \<times> cptr \<times> nat option) option option" where
  "reader_security_key_send_apdu_timeout_ex fuel R w apdu apdu_len resp resp_buf_len frame_timeout_ms follow_get_response =
     (if apdu = None \<and> apdu_len \<noteq> 0 \<or> resp = None then Some (Some (w, resp, None))
      else do {
        r \<leftarrow> reader_security_key_send_i_block fuel R w apdu apdu_len resp resp_buf_len frame_timeout_ms;
        case r of
          None \<Rightarrow> Some None
        | Some (w, resp, None) \<Rightarrow> Some (Some (w, resp, None))
        | Some (w, resp, Some tot) \<Rightarrow>
            if tot < 2 then Some (Some (w, resp, Some tot))
            else do {
              tot \<leftarrow> reader_iso_dep_trim_crc_suffix resp (u16n tot);
              if tot < 2 then Some (Some (w, resp, Some tot))
              else do {
                r \<leftarrow> run_steps (get_response_step fuel R resp_buf_len frame_timeout_ms follow_get_response) fuel (w, resp, tot);
                case r of
                  None \<Rightarrow> Some None
                | Some (w, resp, tot) \<Rightarrow> do {
                    r \<leftarrow> run_steps (ctap_get_response_step fuel R resp_buf_len frame_timeout_ms follow_get_response) fuel
                      (w, resp, tot);
                    case r of
                      None \<Rightarrow> Some None
                    | Some (w, resp, tot) \<Rightarrow> do {
                        tot \<leftarrow> reader_iso_dep_trim_crc_suffix resp (u16n tot);
                        Some (Some (w, resp, Some tot))
                      }
                  }
              }
            }
      })"

definition reader_security_key_send_apdu_timeout ::
    "nat \<Rightarrow> 'c radio \<Rightarrow> 'c \<times> iso_dep \<Rightarrow> cptr \<Rightarrow> nat \<Rightarrow> cptr \<Rightarrow> nat \<Rightarrow> nat \<Rightarrow>
      (('c \<times> iso_dep) \<times> cptr \<times> nat option) option option" where
  "reader_security_key_send_apdu_timeout fuel R w apdu apdu_len resp resp_buf_len frame_timeout_ms =
     reader_security_key_send_apdu_timeout_ex fuel R w apdu apdu_len resp resp_buf_len frame_timeout_ms True"

definition reader_iso_dep_send_apdu ::
    "nat \<Rightarrow> 'c radio \<Rightarrow> 'c \<times> iso_dep \<Rightarrow> cptr \<Rightarrow> nat \<Rightarrow> cptr \<Rightarrow> nat \<Rightarrow>
      (('c \<times> iso_dep) \<times> cptr \<times> nat option) option option" where
  "reader_iso_dep_send_apdu fuel R w apdu apdu_len resp resp_buf_len =
     reader_security_key_send_apdu_timeout fuel R w apdu apdu_len resp resp_buf_len 1000"

section \<open>No card makes the exchange fault\<close>

text \<open>A computation that does not fault and whose result satisfies \<open>P\<close>.\<close>

definition yields :: "'a option \<Rightarrow> ('a \<Rightarrow> bool) \<Rightarrow> bool" where
  "yields r P \<longleftrightarrow> (\<exists>x. r = Some x \<and> P x)"

lemma yields_Some [simp]: "yields (Some x) P = P x"
  by (simp add: yields_def)

lemma yields_bind:
  assumes "yields r P" and "\<And>x. P x \<Longrightarrow> yields (f x) Q"
  shows "yields (r \<bind> f) Q"
  using assms by (auto simp: yields_def)

lemma yields_mono: "yields r P \<Longrightarrow> (\<And>x. P x \<Longrightarrow> Q x) \<Longrightarrow> yields r Q"
  by (auto simp: yields_def)

lemma yields_if: "(b \<Longrightarrow> yields x P) \<Longrightarrow> (\<not> b \<Longrightarrow> yields y P) \<Longrightarrow> yields (if b then x else y) P"
  by simp

lemma run_steps_yields:
  assumes "\<And>s. I s \<Longrightarrow> yields (f s) (\<lambda>x. case x of Again s' \<Rightarrow> I s' | Stop r \<Rightarrow> Q r | Starved \<Rightarrow> True)"
    and "I s"
  shows "yields (run_steps f n s) (\<lambda>r. \<forall>x. r = Some x \<longrightarrow> Q x)"
  using assms(2)
proof (induction n arbitrary: s)
  case (Suc n)
  show ?case
    unfolding run_steps.simps
    by (rule yields_bind [OF assms(1) [OF Suc.prems]]) (auto split: step.splits intro: Suc.IH)
qed simp

text \<open>The recognisers on an arbitrary received frame of at most 512 bytes.\<close>

lemma rd_0: "xs \<noteq> [] \<Longrightarrow> rd (Some xs) 0 = Some (xs ! 0)"
  by (cases xs) simp_all

lemma build_wtx_echo_yields:
  assumes "length b = 8" and "hdr_skip \<le> 3" and "length rx \<le> 512"
  shows "yields (reader_iso_dep_build_wtx_echo (Some b) 8 (Some rx) (length rx) hdr_skip)
    (\<lambda>(ok, wtx_len, wtx_tx). \<exists>t. wtx_tx = Some t \<and> length t = 8 \<and> wtx_len \<le> 8)"
  using assms by (auto simp: reader_iso_dep_build_wtx_echo_def Let_def)

lemma wtx_timeout_yields:
  "yields (reader_security_key_iso_dep_wtx_response_timeout_ms s (Some rx) (length rx) hdr_skip) (\<lambda>ms. ms \<le> 5000)"
  by (auto simp: reader_security_key_iso_dep_wtx_response_timeout_ms_def reader_iso_dep_wtx_response_timeout_ms_def Let_def)

lemma rblock_yields:
  assumes "rx \<noteq> []"
  shows "yields (reader_iso_dep_rx_rblock_block (Some rx) (length rx) nak has_cid cid) (\<lambda>_. True)"
  using assms by (auto simp: reader_iso_dep_rx_rblock_block_def rd_0 reader_iso_dep_rx_hdr_skip_def Let_def)

lemma chain_nak_yields:
  "rx \<noteq> [] \<Longrightarrow> yields (reader_security_key_iso_dep_rx_is_chain_nak_for_block s (Some rx) (length rx) blk) (\<lambda>_. True)"
  unfolding reader_security_key_iso_dep_rx_is_chain_nak_for_block_def reader_iso_dep_rx_is_chain_nak_for_block_def
  by (rule yields_bind [OF rblock_yields]) simp_all

lemma chain_ack_yields:
  "rx \<noteq> [] \<Longrightarrow> yields (reader_security_key_iso_dep_rx_is_chain_ack_for_block s (Some rx) (length rx) blk) (\<lambda>_. True)"
  unfolding reader_security_key_iso_dep_rx_is_chain_ack_for_block_def reader_iso_dep_rx_is_chain_ack_for_block_def
  by (rule yields_bind [OF rblock_yields]) simp_all

lemma pick_inf_offset_yields:
  assumes "rx \<noteq> []" and "length rx \<le> 512"
  shows "yields (reader_security_key_iso_dep_pick_inf_offset s (Some rx) (length rx)) (\<lambda>n. n \<le> 4)"
proof -
  have h: "reader_iso_dep_rx_hdr_skip p \<le> 3" for p by (rule hdr_skip_range)
  show ?thesis
    using assms h [of "rx ! 0"]
    by (auto simp: reader_security_key_iso_dep_pick_inf_offset_def reader_iso_dep_pick_inf_offset_def rd_0 Let_def)
qed

lemma matches_yields:
  "rx \<noteq> [] \<Longrightarrow> yields (reader_iso_dep_rx_i_block_number_matches (Some rx) (length rx) e) (\<lambda>_. True)"
  by (auto simp: reader_iso_dep_rx_i_block_number_matches_def rd_0)

lemma inf_len_yields:
  assumes "length rx \<le> 512"
  shows "yields (reader_iso_dep_i_block_inf_len (Some rx) (length rx) off pcb)
    (\<lambda>(ok, n, crc). ok \<longrightarrow> off + n + crc = length rx)"
proof -
  have c: "reader_iso_dep_has_crc_a_suffix (Some rx) (length rx) = Some (3 \<le> length rx \<and> fold crc_byte rx 0x6363 = 0)"
    using crc_suffix_fold [of rx "[]"] assms by simp
  show ?thesis
    using assms
    by (auto simp: reader_iso_dep_i_block_inf_len_def reader_iso_dep_chained_crc_tail_len_def c Let_def)
qed

lemma append_inf_yields:
  assumes "length r = m" "cap \<le> m" "cap \<le> 65535" "tot \<le> cap" "n \<le> length d"
  shows "yields (reader_iso_dep_append_inf (Some r) cap tot (Some d) n)
    (\<lambda>(ok, app, tot', resp). \<exists>r'. resp = Some r' \<and> length r' = m \<and> tot' \<le> cap \<and>
      (app \<longrightarrow> tot' = tot + n) \<and> (\<not> app \<longrightarrow> tot' = tot))"
  using assms
  by (auto simp: reader_iso_dep_append_inf_def nero_nfc_try_add_u16_def)

lemma build_ack_yields:
  "length b = 4 \<Longrightarrow> yields (reader_iso_dep_build_chained_ack (Some b) 4 blk has_cid cid)
    (\<lambda>(ok, n, out). ok \<and> n \<le> 4 \<and> (\<exists>t. out = Some t \<and> length t = 4))"
  by (auto simp: reader_iso_dep_build_chained_ack_def Let_def)

lemma snap_yields:
  assumes "iso_inv s"
  shows "yields (reader_security_key_iso_dep_snap_raw_rx (Some rx) (length rx) s)
    iso_inv"
    "yields (reader_security_key_iso_dep_snap_raw_rx None 0 s)
    iso_inv"
  using assms by (auto simp: reader_security_key_iso_dep_snap_raw_rx_def iso_inv_def Let_def)

lemma transceive_yields:
  assumes "radio_ok R" and "iso_inv s" and "n \<le> length t"
  shows "yields (reader_security_key_iso_dep_transceive R (c, s) (Some t) n m crc ms)
    (\<lambda>((c', s'), rx). iso_inv s' \<and> length rx \<le> m)"
proof -
  have "kept (reader_security_key_iso_dep_transceive R (c, s) (Some t) n m crc ms)"
    using assms by (intro transceive_kept) simp_all
  then obtain c' s' rx where r: "reader_security_key_iso_dep_transceive R (c, s) (Some t) n m crc ms = Some ((c', s'), rx)"
    "iso_inv s'" by (rule keptE)
  with transceive_length [OF r(1) assms(1)] show ?thesis by (simp add: yields_def)
qed

lemma heartbeat_case:
  "iso_inv (snd w) \<Longrightarrow> (\<And>c s. iso_inv s \<Longrightarrow> yields (f c s) P) \<Longrightarrow>
    yields (case iso_dep_note_wtx_wait R w of (c, s) \<Rightarrow> f c s) P"
  by (cases w) (auto simp: iso_dep_note_wtx_wait_def heartbeat_keeps split: prod.split)

text \<open>A new frame, or none.\<close>

abbreviation frame_result :: "(('c \<times> iso_dep) \<times> bytes option) option \<Rightarrow> bool" where
  "frame_result r \<equiv> yields r (\<lambda>((c, s), r). iso_inv s \<and> (\<forall>rx. r = Some rx \<longrightarrow> rx \<noteq> [] \<and> length rx \<le> 512))"

lemma last_error_inv [simp]: "iso_inv (reader_security_key_iso_dep_set_last_error e s) = iso_inv s"
  by (simp add: reader_security_key_iso_dep_set_last_error_def)

lemma received_yields:
  assumes "iso_inv s" and "length rx \<le> 512"
  shows "frame_result (if rx = [] then do {
      s \<leftarrow> (if b then reader_security_key_iso_dep_snap_raw_rx None 0 s else Some s);
      Some ((c, reader_security_key_iso_dep_set_last_error e s), None)
    } else do {
      s \<leftarrow> reader_security_key_iso_dep_snap_raw_rx (Some rx) (length rx) s;
      Some ((c, s), Some rx)
    })"
proof -
  have "yields (if b then reader_security_key_iso_dep_snap_raw_rx None 0 s else Some s) iso_inv"
    using snap_yields(2) [OF assms(1)] assms(1) by simp
  then have "frame_result (do {
      s \<leftarrow> (if b then reader_security_key_iso_dep_snap_raw_rx None 0 s else Some s);
      Some ((c, reader_security_key_iso_dep_set_last_error e s), None)})"
    by (rule yields_bind) simp
  moreover have "frame_result (do {
      s \<leftarrow> reader_security_key_iso_dep_snap_raw_rx (Some rx) (length rx) s;
      Some ((c, s), Some rx)})" if "rx \<noteq> []"
    using that assms(2) by (intro yields_bind [OF snap_yields(1) [OF assms(1)]]) simp
  ultimately show ?thesis by simp
qed

lemma answer_wtx_yields:
  assumes R: "radio_ok R" and s: "iso_inv s" and h: "hdr_skip \<le> 3" and rx: "length rx \<le> 512"
  shows "frame_result (answer_wtx R k e1 e2 e3 e4 e5 b (c, s) rx hdr_skip)"
proof -
  have b: "length (replicate 8 (0 :: u8)) = 8" by simp
  obtain c1 now where m: "hal_millis R c = (c1, now)" by force
  obtain c2 aborted where a: "ccid_abort_pending R c1 = (c2, aborted)" by force
  show ?thesis
    unfolding answer_wtx_def Let_def prod.case m a
    apply (intro yields_if)
      apply (simp_all add: s)[2]
    apply (rule yields_bind [OF build_wtx_echo_yields [OF b h rx]])
    apply (simp only: split_paired_all prod.case, elim exE conjE)
    apply (intro yields_if)
     apply (simp add: s)
    apply (rule yields_bind [OF wtx_timeout_yields])
    apply (simp only:)
    apply (rule yields_bind [OF transceive_yields [OF R s]])
     apply simp
    apply (simp only: split_paired_all prod.case, elim conjE)
    apply (rule heartbeat_case)
     apply simp
    apply (rule received_yields)
     apply assumption+
    done
qed

lemma resend_yields:
  assumes R: "radio_ok R" and s: "iso_inv s" and w: "itx_wire_len tx \<le> 832"
  shows "frame_result (resend_fragment R k (c, s) tx)"
proof -
  have l: "itx_wire_len tx \<le> length (id_iblock_tx s)" using s w by (simp add: iso_inv_def)
  have r: "frame_result (if rx = [] then do {
      s \<leftarrow> reader_security_key_iso_dep_snap_raw_rx None 0 s;
      Some ((c, reader_security_key_iso_dep_set_last_error e s), None)
    } else do {
      s \<leftarrow> reader_security_key_iso_dep_snap_raw_rx (Some rx) (length rx) s;
      Some ((c, s), Some rx)
    })" if "iso_inv s" "length rx \<le> 512" for s rx c e
    using received_yields [OF that, of True c e] by (simp only: if_True)
  show ?thesis
    unfolding resend_fragment_def prod.case
    apply (rule yields_bind [OF transceive_yields [OF R s l]])
    apply (simp only: split_paired_all prod.case, elim conjE)
    apply (rule r)
     apply assumption+
    done
qed

text \<open>The invariant of the call: what each phase keeps, and what the call returns.\<close>

definition icall_ok :: "nat \<Rightarrow> icall \<Rightarrow> bool" where
  "icall_ok m k \<longleftrightarrow> (ic_apdu k = None \<longrightarrow> ic_apdu_len k = 0) \<and>
     (\<forall>a. ic_apdu k = Some a \<longrightarrow> ic_apdu_len k \<le> length a) \<and> ic_apdu_len k \<le> 65535 \<and>
     0 < ic_frag_cap k \<and> ic_frag_cap k \<le> 48 \<and> (\<exists>r. ic_resp k = Some r \<and> length r = m) \<and>
     ic_resp_len k \<le> m \<and> ic_resp_len k \<le> 65535"

definition phase_inv :: "nat \<Rightarrow> icall \<Rightarrow> ('c \<times> iso_dep) iphase \<Rightarrow> bool" where
  "phase_inv m k ph \<longleftrightarrow> (case ph of
     Frag w off rx \<Rightarrow> iso_inv (snd w) \<and> length rx \<le> 512
   | Chain w off tx blk rx n \<Rightarrow> iso_inv (snd w) \<and> rx \<noteq> [] \<and> length rx \<le> 512 \<and> itx_wire_len tx \<le> 832
   | Recv w resp tot e rx \<Rightarrow> iso_inv (snd w) \<and> length rx \<le> 512 \<and> tot \<le> ic_resp_len k \<and>
       (\<exists>r. resp = Some r \<and> length r = m))"

definition call_result :: "nat \<Rightarrow> icall \<Rightarrow> ('c \<times> iso_dep) \<times> cptr \<times> nat option \<Rightarrow> bool" where
  "call_result m k = (\<lambda>(w, resp, r). iso_inv (snd w) \<and> (\<exists>b. resp = Some b \<and> length b = m) \<and>
     (\<forall>n. r = Some n \<longrightarrow> n \<le> ic_resp_len k))"

abbreviation step_ok ::
    "nat \<Rightarrow> icall \<Rightarrow> (('c \<times> iso_dep) iphase, ('c \<times> iso_dep) \<times> cptr \<times> nat option) step option \<Rightarrow> bool" where
  "step_ok m k r \<equiv> yields r (\<lambda>x. case x of Again ph \<Rightarrow> phase_inv m k ph | Stop r \<Rightarrow> call_result m k r | Starved \<Rightarrow> True)"

lemma phase_inv_simps [simp]:
  "phase_inv m k (Frag w off rx) \<longleftrightarrow> iso_inv (snd w) \<and> length rx \<le> 512"
  "phase_inv m k (Chain w off tx blk rx n) \<longleftrightarrow> iso_inv (snd w) \<and> rx \<noteq> [] \<and> length rx \<le> 512 \<and> itx_wire_len tx \<le> 832"
  "phase_inv m k (Recv w resp tot e rx) \<longleftrightarrow> iso_inv (snd w) \<and> length rx \<le> 512 \<and> tot \<le> ic_resp_len k \<and>
       (\<exists>r. resp = Some r \<and> length r = m)"
  by (simp_all add: phase_inv_def)

lemma call_result_simp [simp]:
  "call_result m k (w, resp, r) \<longleftrightarrow> iso_inv (snd w) \<and> (\<exists>b. resp = Some b \<and> length b = m) \<and>
     (\<forall>n. r = Some n \<longrightarrow> n \<le> ic_resp_len k)"
  by (simp add: call_result_def)

lemma icall_resp: "icall_ok m k \<Longrightarrow> \<exists>b. ic_resp k = Some b \<and> length b = m"
  by (simp add: icall_ok_def)

lemma build_yields:
  assumes "iso_inv s" and k: "icall_ok m k" and "off < ic_apdu_len k"
  shows "yields (reader_iso_dep_build_i_block_tx (Some (id_iblock_tx s)) 832 (ic_apdu k)
         (ic_apdu_len k) off (ic_frag_cap k) has_cid cid (ic_add_nad k) nad blk)
    (\<lambda>(ok, info, tx). ok \<and> itx_wire_len info \<le> 832 \<and> (\<exists>t. tx = Some t \<and> length t = 832))"
proof -
  obtain a where a: "ic_apdu k = Some a" "ic_apdu_len k \<le> length a" using k assms(3) by (auto simp: icall_ok_def)
  have l: "length (id_iblock_tx s) = 832" using assms(1) by (simp add: iso_inv_def)
  have c: "0 < ic_frag_cap k" "ic_frag_cap k \<le> 48" "ic_apdu_len k \<le> 65535" using k by (simp_all add: icall_ok_def)
  have h: "reader_iso_dep_i_block_tx_hdr_len has_cid (ic_add_nad k) \<le> 3"
    by (simp add: reader_iso_dep_i_block_tx_hdr_len_def)
  have f: "reader_iso_dep_i_block_tx_hdr_len has_cid (ic_add_nad k) + min (ic_frag_cap k) (ic_apdu_len k - off) \<le> 832"
    using h c(2) by linarith
  define frag where "frag = take (min (ic_frag_cap k) (ic_apdu_len k - off)) (drop off a)"
  have "length frag \<le> min (ic_frag_cap k) (ic_apdu_len k - off)"
    unfolding frag_def length_take by (rule min.cobounded2)
  then have hl: "length (sent_i_block blk has_cid cid (ic_add_nad k) nad more frag) \<le> 832" for more
    using f unfolding length_sent_i_block by linarith
  have le: "832 \<le> length (id_iblock_tx s)" "(832 :: nat) \<le> 65535" using l by simp_all
  show ?thesis
    unfolding a(1) build_i_block_tx_ok [OF le assms(3) a(2) c(3) c(1) f] Let_def frag_def [symmetric]
    using hl l by simp
qed

lemma frag_step_ok:
  assumes R: "radio_ok R" and k: "icall_ok m k" and s: "iso_inv s" and rx: "length rx \<le> 512"
  shows "step_ok m k (frag_step R k (c, s) off rx)"
proof (cases "off < ic_apdu_len k")
  case False
  then show ?thesis using icall_resp [OF k] s rx by (simp add: frag_step_def)
next
  case True
  obtain info t where b: "reader_iso_dep_build_i_block_tx (Some (id_iblock_tx s)) 832 (ic_apdu k) (ic_apdu_len k) off
      (ic_frag_cap k) (id_pcb_has_cid s) (id_cid s) (ic_add_nad k) 0x01 (id_block_num s AND 0x01) = Some (True, info, Some t)"
    "itx_wire_len info \<le> 832" "length t = 832"
    using build_yields [OF s k True] unfolding yields_def by fastforce
  have s1: "iso_inv (s\<lparr>id_iblock_tx := t\<rparr>)" using s b(3) by (simp add: iso_inv_def)
  have w: "itx_wire_len info \<le> length (id_iblock_tx (s\<lparr>id_iblock_tx := t\<rparr>))" using b by simp
  show ?thesis
    unfolding frag_step_def prod.case if_P [OF True] Let_def b(1) bind.bind_lunit option.sel simp_thms if_False
    apply (rule yields_bind [OF transceive_yields [OF R s1 w]])
    apply (simp only: split_paired_all prod.case, elim conjE, rule yields_if)
     apply (rule yields_bind [OF snap_yields(2)], assumption)
     apply (simp add: icall_resp [OF k])
    apply (rule yields_bind [OF snap_yields(1)], assumption)
    apply (simp add: icall_resp [OF k] b(2))
    done
qed

lemma chain_step_ok:
  assumes R: "radio_ok R" and k: "icall_ok m k" and s: "iso_inv s" and rx: "length rx \<le> 512" "rx \<noteq> []"
    and w: "itx_wire_len tx \<le> 832"
  shows "step_ok m k (chain_step R k (c, s) off tx blk rx n)"
proof -
  note r = icall_resp [OF k]
  have res: "step_ok m k (do { (w, r) \<leftarrow> f; Some (case r of None \<Rightarrow> Stop (w, ic_resp k, None)
      | Some rx \<Rightarrow> Again (Chain w off tx blk rx n')) })" if "frame_result f" for f n'
    using that by (rule yields_bind) (auto simp: r w split: option.split)
  show ?thesis
    unfolding chain_step_def prod.case rd_0 [OF rx(2)] bind.bind_lunit Let_def
    apply (intro yields_if)
     apply (rule res, rule answer_wtx_yields [OF R s hdr_skip_range(2) rx(1)])
    apply (rule yields_bind [OF chain_nak_yields [OF rx(2)]], intro yields_if)
      apply (simp add: r s)
     apply (rule res, rule resend_yields [OF R s w])
    apply (rule yields_bind [OF chain_ack_yields [OF rx(2)]], intro yields_if)
     apply (simp add: s rx)
    apply (rule yields_bind [OF rblock_yields [OF rx(2)]], intro yields_if)
      apply (simp add: r s)
     apply (rule res, rule resend_yields [OF R s w])
    apply (simp add: r s)
    done
qed

lemma recv_exit_ok:
  assumes "iso_inv s" "tot \<le> ic_resp_len k" "\<exists>r. resp = Some r \<and> length r = m"
  shows "call_result m k (recv_exit (c, s) resp tot e completed)"
  using assms by (simp add: recv_exit_def Let_def)

lemma recv_step_ok:
  assumes R: "radio_ok R" and k: "icall_ok m k" and s: "iso_inv s" and rx: "length rx \<le> 512"
    and tot: "tot \<le> ic_resp_len k" and resp: "resp = Some r" "length r = m"
  shows "step_ok m k (recv_step R k (c, s) resp tot e rx)"
proof (cases "rx = []")
  case True
  then show ?thesis using recv_exit_ok [OF s tot, of resp m c e False] resp by (simp add: recv_step_def)
next
  case False
  have cap: "ic_resp_len k \<le> m" "ic_resp_len k \<le> 65535" using k by (simp_all add: icall_ok_def)
  have res: "step_ok m k (do { (w, r) \<leftarrow> f; Some (case r of None \<Rightarrow> Stop (w, resp, None)
      | Some rx \<Rightarrow> Again (Recv w resp tot e rx)) })" if "frame_result f" for f
    using that by (rule yields_bind) (auto simp: resp tot split: option.split)
  show ?thesis
    unfolding recv_step_def prod.case if_not_P [OF False] rd_0 [OF False] bind.bind_lunit Let_def
    apply (intro yields_if)
      apply (rule res, rule answer_wtx_yields [OF R s hdr_skip_range(2) rx])
     apply (rule yields_bind [OF pick_inf_offset_yields [OF False rx]])
     apply (rule yields_bind [OF matches_yields [OF False]], intro yields_if)
      apply (simp add: s resp)
     apply (rule yields_bind [OF inf_len_yields [OF rx]])
     apply (simp only: split_paired_all prod.case, intro yields_if)
      apply (simp add: s resp)
    subgoal premises prems for off mt ok n crc
    proof -
      have n: "off + n + crc = length rx" using prems by blast
      have d: "n \<le> length (drop off rx)" using n by simp
      show ?thesis
        unfolding ptr_add_Some resp(1)
        apply (rule yields_bind [OF append_inf_yields [OF resp(2) cap tot d]])
        apply (simp only: split_paired_all prod.case, elim exE conjE, intro yields_if)
          apply (simp add: s)
         apply (simp add: s)
         apply (rule yields_bind [OF build_ack_yields], simp)
         apply (simp only: split_paired_all prod.case, elim exE conjE, intro yields_if)
          apply simp
         apply (simp only:)
         apply (rule yields_bind [OF transceive_yields [OF R]], simp add: s, simp)
         apply (simp only: split_paired_all prod.case, elim conjE)
         apply (rule yields_bind [OF snap_yields(1)], assumption)
         apply simp
        apply (simp add: recv_exit_ok s)
        done
    qed
    apply (simp add: recv_exit_ok s tot resp)
    done
qed

lemma send_i_block_step_ok:
  assumes R: "radio_ok R" and k: "icall_ok m k" and ph: "phase_inv m k ph"
  shows "step_ok m k (send_i_block_step R k ph)"
proof (cases ph)
  case (Frag w off rx)
  obtain c s where "w = (c, s)" by force
  with Frag ph show ?thesis by (simp add: send_i_block_step_def frag_step_ok [OF R k])
next
  case (Chain w off tx blk rx n)
  obtain c s where "w = (c, s)" by force
  with Chain ph show ?thesis by (simp add: send_i_block_step_def chain_step_ok [OF R k])
next
  case (Recv w resp tot e rx)
  obtain c s where w: "w = (c, s)" by force
  obtain r where r: "resp = Some r" "length r = m" using Recv ph by auto
  have "iso_inv s" "length rx \<le> 512" "tot \<le> ic_resp_len k" using Recv ph w by simp_all
  then show ?thesis
    unfolding Recv w send_i_block_step_def iphase.case by (rule recv_step_ok [OF R k _ _ _ r])
qed

text \<open>A finished call: state well formed, the response inside its buffer.\<close>

definition apdu_result :: "nat \<Rightarrow> nat \<Rightarrow> ('c \<times> iso_dep) \<times> cptr \<times> nat option \<Rightarrow> bool" where
  "apdu_result m cap = (\<lambda>(w, resp, r). iso_inv (snd w) \<and> (\<exists>b. resp = Some b \<and> length b = m) \<and>
     (\<forall>n. r = Some n \<longrightarrow> n \<le> cap))"

lemma tx_add_nad_yields:
  assumes "apdu = None \<or> n \<le> length (the apdu)" and "n \<le> 65535"
  shows "yields (reader_security_key_iso_dep_tx_add_nad s n apdu) (\<lambda>_. True)"
proof -
  have "yields (if apdu \<noteq> None \<and> n \<ge> 1 then nero_nfc_u8_at apdu n 0 else Some 0) (\<lambda>_. True)"
    using assms by (cases apdu) (auto simp: u8_at_in)
  then show ?thesis
    unfolding reader_security_key_iso_dep_tx_add_nad_def by (intro yields_if) (auto intro: yields_bind)
qed

lemma send_i_block_yields:
  assumes R: "radio_ok R" and s: "iso_inv s" and a: "apdu = None \<or> n \<le> length (the apdu)" "n \<le> 65535"
    and r: "resp = Some r" "length r = m" "cap \<le> m" "cap \<le> 65535"
  shows "yields (reader_security_key_send_i_block fuel R (c, s) apdu n resp cap ms)
    (\<lambda>x. \<forall>y. x = Some y \<longrightarrow> apdu_result m cap y)"
proof -
  obtain c1 start where m: "hal_millis R c = (c1, start)" by force
  show ?thesis
    unfolding reader_security_key_send_i_block_def prod.case m Let_def
    apply (rule yields_bind [OF tx_add_nad_yields [OF a]])
    apply (intro yields_if)
      apply (simp add: apdu_result_def s r)
     apply (simp add: apdu_result_def s r)
    subgoal for add_nad
    proof -
      let ?h = "reader_security_key_iso_dep_tx_hdr_len s add_nad"
      let ?cap = "reader_security_key_iso_dep_apdu_chunk_budget s ?h"
      define k where "k = \<lparr>ic_apdu = apdu, ic_apdu_len = n, ic_resp = resp, ic_resp_len = cap,
         ic_frame_timeout_ms = ms, ic_start_ms = start, ic_add_nad = add_nad, ic_frag_cap = ?cap,
         ic_link_timeout_ms = reader_security_key_iso_dep_link_response_timeout_ms s\<rparr>"
      assume g: "\<not> (apdu = None \<and> n \<noteq> 0 \<or> resp = None)" "\<not> (?cap = 0 \<or> ?h = 0)"
      have "?cap \<le> 48"
        unfolding reader_security_key_iso_dep_apdu_chunk_budget_def by (simp add: reader_iso_dep_apdu_chunk_budget_def Let_def)
      then have k: "icall_ok m k" using g a r by (auto simp: icall_ok_def k_def)
      have "yields (run_steps (send_i_block_step R k) fuel (Frag (c1, s) 0 [])) (\<lambda>x. \<forall>y. x = Some y \<longrightarrow> call_result m k y)"
        by (rule run_steps_yields [where I = "phase_inv m k"]) (simp_all add: send_i_block_step_ok [OF R k] s)
      then show ?thesis
        unfolding k_def [symmetric] by (rule yields_mono) (auto simp: apdu_result_def call_result_def k_def)
    qed
    done
qed

lemma trim_yields:
  assumes "n \<le> length r" and "n \<le> 65535"
  shows "yields (reader_iso_dep_trim_crc_suffix (Some r) n) (\<lambda>k. k \<le> n)"
  using assms by (auto simp: reader_iso_dep_trim_crc_suffix_def Let_def)

text \<open>The invariant of a GET RESPONSE chain.\<close>

definition chain_inv :: "nat \<Rightarrow> nat \<Rightarrow> ('c \<times> iso_dep) \<times> cptr \<times> nat \<Rightarrow> bool" where
  "chain_inv m cap = (\<lambda>(w, resp, tot). iso_inv (snd w) \<and> (\<exists>b. resp = Some b \<and> length b = m) \<and> tot \<le> cap)"

abbreviation round_ok ::
    "nat \<Rightarrow> nat \<Rightarrow> (('c \<times> iso_dep) \<times> cptr \<times> nat, ('c \<times> iso_dep) \<times> cptr \<times> nat) step option \<Rightarrow> bool" where
  "round_ok m cap r \<equiv> yields r (\<lambda>x. case x of Again s \<Rightarrow> chain_inv m cap s | Stop s \<Rightarrow> chain_inv m cap s | Starved \<Rightarrow> True)"

lemma get_response_round_ok:
  assumes R: "radio_ok R" and st: "chain_inv m cap (w, resp, tot)" and cap: "cap \<le> m" "cap \<le> 65535"
    and cmd: "length cmd \<le> 5"
  shows "round_ok m cap (get_response_round fuel R cap ms cmd (w, resp, tot))"
proof -
  obtain c s where w: "w = (c, s)" by force
  obtain b where b: "resp = Some b" "length b = m" using st by (auto simp: chain_inv_def)
  have s: "iso_inv s" and tot: "tot \<le> cap" using st w by (simp_all add: chain_inv_def)
  show ?thesis
  proof (cases "reader_security_key_resp_tail_cap cap (u16n tot) < 2")
    case True
    then show ?thesis using st by (simp add: get_response_round_def w)
  next
    case False
    have tc: "reader_security_key_resp_tail_cap cap (u16n tot) = cap - tot"
      using tot cap by (simp add: reader_security_key_resp_tail_cap_def)
    have two: "tot + 2 \<le> cap" using False tc by linarith
    have l: "length (drop (tot - 2) b) = m - (tot - 2)" using b by simp
    have c: "cap - tot \<le> m - (tot - 2)" "cap - tot \<le> 65535" using cap tot by linarith+
    have cl: "Some cmd = None \<or> length cmd \<le> length (the (Some cmd))" "length cmd \<le> 65535" using cmd by simp_all
    show ?thesis
      unfolding get_response_round_def prod.case Let_def w b(1) option.sel tc if_not_P [OF False [unfolded tc]]
      apply (rule yields_bind [OF send_i_block_yields [OF R s cl refl l c]])
      subgoal for x
        apply (cases x)
         apply simp
        subgoal for y
        proof -
          assume h: "\<forall>y. x = Some y \<longrightarrow> apdu_result (m - (tot - 2)) (cap - tot) y" "x = Some y"
          obtain c' s' tail got where y: "y = ((c', s'), tail, got)" by (metis prod.collapse)
          obtain t where t: "tail = Some t" "length t = m - (tot - 2)" "iso_inv s'" "\<And>n. got = Some n \<Longrightarrow> n \<le> cap - tot"
            using h y by (auto simp: apdu_result_def)
          have l': "length (take (tot - 2) b @ t) = m" using b(2) t(2) tot cap by simp
          show ?thesis
          proof (cases got)
            case None
            then show ?thesis using t l' two b(2) by (simp add: h(2) y chain_inv_def)
          next
            case (Some n)
            have n: "tot - 2 + n \<le> cap" using t(4) [OF Some] two by linarith
            have u: "u16n (tot - 2 + n) = tot - 2 + n" using n cap by simp
            have tr: "yields (reader_iso_dep_trim_crc_suffix (Some (take (tot - 2) b @ t)) (tot - 2 + n)) (\<lambda>k. k \<le> tot - 2 + n)"
              using n cap l' by (intro trim_yields) simp_all
            show ?thesis
            proof (cases "n < 2")
              case True
              then show ?thesis using t l' two b(2) Some by (simp add: h(2) y chain_inv_def)
            next
              case False
              show ?thesis
                unfolding h(2) y Some option.case prod.case if_not_P [OF False] t(1) option.sel u
                by (rule yields_bind [OF tr]) (use t(3) l' n b(2) in \<open>auto simp: chain_inv_def\<close>)
            qed
          qed
        qed
        done
      done
  qed
qed

lemma response_sw_yields:
  assumes "chain_inv m cap (w, resp, tot)" and "cap \<le> m" "cap \<le> 65535"
  shows "yields (nfc_iso7816_response_more_data resp (int tot)) (\<lambda>_. True)"
    "yields (nfc_ctap_response_more_data resp (int tot)) (\<lambda>_. True)"
  using assms
  by (auto simp: chain_inv_def nfc_iso7816_response_more_data_def nfc_ctap_response_more_data_def response_sw_eq)

lemma get_response_step_ok:
  assumes R: "radio_ok R" and st: "chain_inv m cap x" and cap: "cap \<le> m" "cap \<le> 65535"
  shows "round_ok m cap (get_response_step fuel R cap ms follow x)"
    "round_ok m cap (ctap_get_response_step fuel R cap ms follow x)"
proof -
  obtain w resp tot where x: "x = (w, resp, tot)" by (metis prod.collapse)
  note st' = st [unfolded x]
  show "round_ok m cap (get_response_step fuel R cap ms follow x)"
    unfolding x get_response_step_def prod.case
    apply (intro yields_if)
     apply (simp add: st')
    apply (rule yields_bind [OF response_sw_yields(1) [OF st' cap]])
    apply (simp only: split_paired_all prod.case, intro yields_if)
     apply (simp add: st')
    apply (rule get_response_round_ok [OF R st' cap])
    apply simp
    done
  show "round_ok m cap (ctap_get_response_step fuel R cap ms follow x)"
    unfolding x ctap_get_response_step_def prod.case
    apply (intro yields_if)
     apply (simp add: st')
    apply (rule yields_bind [OF response_sw_yields(2) [OF st' cap]])
    apply (intro yields_if)
     apply (simp add: st')
    apply (rule get_response_round_ok [OF R st' cap])
    apply simp
    done
qed

lemma send_apdu_total:
  fixes R :: "'c radio"
  assumes R: "radio_ok R" and s: "iso_inv s" and a: "apdu = None \<or> n \<le> length (the apdu)" "n \<le> 65535"
    and r: "length r = m" "cap \<le> m" "cap \<le> 65535"
  shows "\<exists>x. reader_security_key_send_apdu_timeout_ex fuel R (c, s) apdu n (Some r) cap ms follow = Some x \<and>
    (\<forall>y. x = Some y \<longrightarrow> apdu_result m cap y)"
proof -
  have run: "yields (run_steps f fuel x) (\<lambda>r. \<forall>y. r = Some y \<longrightarrow> chain_inv m cap y)"
    if "chain_inv m cap x" "\<And>x. chain_inv m cap x \<Longrightarrow> round_ok m cap (f x)"
    for f :: "('c \<times> iso_dep) \<times> cptr \<times> nat \<Rightarrow> (('c \<times> iso_dep) \<times> cptr \<times> nat, ('c \<times> iso_dep) \<times> cptr \<times> nat) step option" and x
    by (rule run_steps_yields [where I = "chain_inv m cap"]) (use that in auto)
  have trim: "yields (reader_iso_dep_trim_crc_suffix resp (u16n tot)) (\<lambda>k. k \<le> tot)"
    if h: "chain_inv m cap (w, resp, tot)" for w :: "'c \<times> iso_dep" and resp tot
  proof -
    obtain b where b: "resp = Some b" "length b = m" "tot \<le> cap" using h by (auto simp: chain_inv_def)
    then have "u16n tot = tot" using r by simp
    then show ?thesis using trim_yields [of tot b] b r by simp
  qed
  have le: "chain_inv m cap (w, resp, k)" if "chain_inv m cap (w, resp, tot)" "k \<le> tot" for w :: "'c \<times> iso_dep" and resp tot k
    using that by (simp add: chain_inv_def)
  let ?Q = "\<lambda>x. \<forall>y. x = Some y \<longrightarrow> apdu_result m cap y"
  have fin: "yields (case x of None \<Rightarrow> Some None | Some (w, resp, tot) \<Rightarrow> do {
      tot \<leftarrow> reader_iso_dep_trim_crc_suffix resp (u16n tot); Some (Some (w, resp, Some tot)) }) ?Q"
    if h: "\<forall>y. x = Some y \<longrightarrow> chain_inv m cap y" for x :: "(('c \<times> iso_dep) \<times> cptr \<times> nat) option"
  proof (cases x)
    case (Some y)
    obtain w resp tot where y: "y = (w, resp, tot)" by (metis prod.collapse)
    have ci: "chain_inv m cap (w, resp, tot)" using h Some y by simp
    show ?thesis
      unfolding Some y option.case prod.case
      by (rule yields_bind [OF trim [OF ci]]) (use ci in \<open>auto simp: chain_inv_def apdu_result_def\<close>)
  qed simp
  have second: "yields (case x of None \<Rightarrow> Some None | Some (w, resp, tot) \<Rightarrow> do {
      r \<leftarrow> run_steps (ctap_get_response_step fuel R cap ms follow) fuel (w, resp, tot);
      case r of None \<Rightarrow> Some None | Some (w, resp, tot) \<Rightarrow> do {
      tot \<leftarrow> reader_iso_dep_trim_crc_suffix resp (u16n tot); Some (Some (w, resp, Some tot)) } }) ?Q"
    if h: "\<forall>y. x = Some y \<longrightarrow> chain_inv m cap y" for x :: "(('c \<times> iso_dep) \<times> cptr \<times> nat) option"
  proof (cases x)
    case (Some y)
    obtain w resp tot where y: "y = (w, resp, tot)" by (metis prod.collapse)
    have ci: "chain_inv m cap (w, resp, tot)" using h Some y by simp
    show ?thesis
      unfolding Some y option.case prod.case
      by (rule yields_bind [OF run [OF ci get_response_step_ok(2) [OF R _ r(2,3)]]]) (assumption, rule fin)
  qed simp
  have "yields (reader_security_key_send_apdu_timeout_ex fuel R (c, s) apdu n (Some r) cap ms follow) ?Q"
    unfolding reader_security_key_send_apdu_timeout_ex_def
    apply (intro yields_if)
     apply (simp add: apdu_result_def s r)
    apply (rule yields_bind [OF send_i_block_yields [OF R s a refl r]])
    subgoal for x
    proof (cases x)
      case (Some y)
      assume h: "\<forall>y. x = Some y \<longrightarrow> apdu_result m cap y"
      obtain w resp got where y: "y = (w, resp, got)" by (metis prod.collapse)
      show ?thesis
      proof (cases got)
        case None
        then show ?thesis using h by (auto simp: Some y)
      next
        case (Some tot)
        have ci: "chain_inv m cap (w, resp, tot)" using h \<open>x = Some y\<close> y Some by (simp add: chain_inv_def apdu_result_def)
        have ar: "yields (Some (Some (w, resp, Some k))) ?Q" if "k \<le> tot" for k
          using ci that by (cases w) (auto simp: chain_inv_def apdu_result_def)
        show ?thesis
          unfolding \<open>x = Some y\<close> y Some option.case prod.case
          apply (intro yields_if)
           apply (rule ar, simp)
          apply (rule yields_bind [OF trim [OF ci]])
          apply (intro yields_if)
           apply (rule ar, simp)
          apply (rule yields_bind [OF run [OF le [OF ci] get_response_step_ok(1) [OF R _ r(2,3)]]])
            apply assumption+
          apply (rule second)
          apply assumption
          done
      qed
    qed simp
    done
  then show ?thesis by (simp add: yields_def)
qed

text \<open>
  C9: no card can make an APDU exchange fault. Whatever bytes, errors or delays the radio
  delivers (replies no longer than the receive buffer), sending an APDU with or without
  following GET RESPONSE chains reads and writes only inside the APDU, the frame buffers and
  the caller's response buffer, keeps the session state well formed, and reports a response
  length that fits the buffer. This holds for every number of loop rounds.
\<close>

theorem apdu_exchange_safe:
  fixes R :: "'c radio"
  assumes R: "radio_ok R" and s: "iso_inv s" and a: "apdu = None \<or> n \<le> length (the apdu)" "n \<le> 65535"
    and r: "length r = m" "cap \<le> m" "cap \<le> 65535"
  shows "\<exists>x. reader_security_key_send_apdu_timeout_ex fuel R (c, s) apdu n (Some r) cap ms follow = Some x \<and>
    (\<forall>y. x = Some y \<longrightarrow> apdu_result m cap y)"
  by (rule send_apdu_total [OF assms])

theorem apdu_exchange_safe_witness:
  "\<exists>x. reader_security_key_send_apdu_timeout_ex 9 one_ats_radio ((), fresh_iso_dep) (Some [0x00, 0xA4]) 2
      (Some (replicate 4 0)) 4 1000 True = Some x \<and> (\<forall>y. x = Some y \<longrightarrow> apdu_result 4 4 y)"
proof (rule apdu_exchange_safe [OF _ fresh_iso_dep_inv])
  show "radio_ok one_ats_radio" by (auto simp: radio_ok_def one_ats_radio_def)
qed simp_all

end
