(* ===== verification/IsoDepTransfer.thy ===== *)
theory IsoDepTransfer
  imports IsoDepExchange
begin

text \<open>
  What an ISO-DEP exchange achieves: against a card that follows the block protocol the APDU
  arrives complete and the response is returned complete. The card is the specification side:
  it collects chained fragments, acknowledges them, answers with the fragments of its
  response, toggles its block number as the standard's rules D and E ask, and ends every frame
  with its CRC_A (the front end is set to deliver the check bytes).
\<close>

section \<open>A card\<close>

record picc =
  pc_collected :: bytes
  pc_pending :: "bytes list"
  pc_block :: u8

definition with_crc :: "bytes \<Rightarrow> bytes" where
  "with_crc f = (let c = fold crc_byte f 0x6363 in f @ [ucast c, ucast (drop_bit 8 c)])"

definition picc_i_block :: "bool \<Rightarrow> u8 \<Rightarrow> u8 \<Rightarrow> bool \<Rightarrow> bytes \<Rightarrow> bytes" where
  "picc_i_block has_cid cid blk chained data =
     with_crc ([0x02 OR blk OR (if has_cid then 0x08 else 0) OR (if chained then 0x10 else 0)] @
       (if has_cid then [cid] else []) @ data)"

definition picc_r_ack :: "bool \<Rightarrow> u8 \<Rightarrow> u8 \<Rightarrow> bytes" where
  "picc_r_ack has_cid cid blk =
     with_crc ([0xA2 OR blk OR (if has_cid then 0x08 else 0)] @ (if has_cid then [cid] else []))"

text \<open>\<open>respond\<close> is the application: the fragments of the response to a complete APDU.\<close>

definition picc_step :: "(bytes \<Rightarrow> bytes list) \<Rightarrow> bool \<Rightarrow> u8 \<Rightarrow> picc \<Rightarrow> bytes \<Rightarrow> picc \<times> bytes" where
  "picc_step respond has_cid cid c tx =
     (let pcb = tx ! 0;
          data = drop (reader_iso_dep_rx_hdr_skip pcb) tx;
          blk = pc_block c XOR 1
      in if pcb AND 0xC0 = 0 then
           if pcb AND 0x10 \<noteq> 0
           then (c\<lparr>pc_collected := pc_collected c @ data, pc_block := blk\<rparr>, picc_r_ack has_cid cid blk)
           else let frags = respond (pc_collected c @ data) in
             (c\<lparr>pc_collected := [], pc_pending := tl frags, pc_block := blk\<rparr>,
              picc_i_block has_cid cid blk (1 < length frags) (hd frags))
         else if pcb AND 0xF6 = 0xA2 \<and> pcb AND 1 \<noteq> pc_block c
         then (c\<lparr>pc_pending := tl (pc_pending c), pc_block := blk\<rparr>,
               picc_i_block has_cid cid blk (1 < length (pc_pending c)) (hd (pc_pending c)))
         else (c, []))"

definition picc_radio :: "(bytes \<Rightarrow> bytes list) \<Rightarrow> bool \<Rightarrow> u8 \<Rightarrow> (picc \<Rightarrow> nat) \<Rightarrow> picc radio" where
  "picc_radio respond has_cid cid clock = \<lparr>
     rf_transceive = (\<lambda>c tx m crc ms. picc_step respond has_cid cid c tx),
     rf_transceive14 = (\<lambda>c tx m crc ms a p. (c, [])), rf_wupa = (\<lambda>c. (c, False)), rf_configure = (\<lambda>c. c),
     hal_millis = (\<lambda>c. (c, clock c)), hal_delay_ms = (\<lambda>c n. c), ccid_abort_pending = (\<lambda>c. (c, False)),
     ccid_time_extension = (\<lambda>c. c)\<rparr>"

section \<open>The session during an exchange\<close>

text \<open>The reader's side: CID use, block number, and a card that did not announce NAD support.\<close>

definition in_session :: "bool \<Rightarrow> u8 \<Rightarrow> u8 \<Rightarrow> iso_dep \<Rightarrow> bool" where
  "in_session has_cid cid b s \<longleftrightarrow> iso_inv s \<and> id_pcb_has_cid s = has_cid \<and> id_cid s = cid \<and> id_block_num s = b \<and>
     \<not> (id_have_tc s \<and> id_tc_byte s AND 0x01 \<noteq> 0)"

lemma in_session_inv: "in_session h i b s \<Longrightarrow> iso_inv s"
  by (simp add: in_session_def)

lemma in_session_updates [simp]:
  "in_session h i b (s\<lparr>id_last_inf_off := n\<rparr>) = in_session h i b s"
  "in_session h i b (s\<lparr>id_extension_last_ms := n\<rparr>) = in_session h i b s"
  "in_session h i b (reader_security_key_iso_dep_set_last_error e s) = in_session h i b s"
  by (simp_all add: in_session_def reader_security_key_iso_dep_set_last_error_def)

lemma in_session_block:
  "in_session h i b s \<Longrightarrow> in_session h i b' (s\<lparr>id_block_num := b'\<rparr>)"
  by (simp add: in_session_def)

lemma in_session_buffer:
  "in_session h i b s \<Longrightarrow> length t = 832 \<Longrightarrow> in_session h i b (s\<lparr>id_iblock_tx := t\<rparr>)"
  by (simp add: in_session_def iso_inv_def)

lemma snap_session:
  assumes "in_session h i b s"
  shows "\<exists>s'. reader_security_key_iso_dep_snap_raw_rx (Some rx) (length rx) s = Some s' \<and> in_session h i b s'"
  using assms by (auto simp: reader_security_key_iso_dep_snap_raw_rx_def in_session_def iso_inv_def Let_def)

lemma heartbeat_session:
  assumes "in_session h i b s"
  shows "\<exists>s'. reader_security_key_iso_dep_ccid_heartbeat (picc_radio rsp hc ci clock) (c, s) = (c, s') \<and> in_session h i b s'"
  using assms by (simp add: reader_security_key_iso_dep_ccid_heartbeat_def picc_radio_def)

lemma transceive_session:
  assumes "in_session h i b s" and "n \<le> length t" and "picc_step rsp hc ci c (take n t) = (c', rx)"
  shows "\<exists>s'. reader_security_key_iso_dep_transceive (picc_radio rsp hc ci clock) (c, s) (Some t) n m True ms =
    Some ((c', s'), rx) \<and> in_session h i b s'"
proof -
  obtain s1 where 1: "reader_security_key_iso_dep_ccid_heartbeat (picc_radio rsp hc ci clock) (c, s) = (c, s1)"
    "in_session h i b s1" using heartbeat_session [OF assms(1)] by blast
  obtain s2 where 2: "reader_security_key_iso_dep_ccid_heartbeat (picc_radio rsp hc ci clock) (c', s1) = (c', s2)"
    "in_session h i b s2" using heartbeat_session [OF 1(2)] by blast
  have t: "rf_transceive (picc_radio rsp hc ci clock) c tx m crc ms = picc_step rsp hc ci c tx" for tx crc
    by (simp add: picc_radio_def)
  show ?thesis
    using assms(2) 1 2 by (simp add: reader_security_key_iso_dep_transceive_def t assms(3))
qed

section \<open>Frames of the card at the reader\<close>

lemma with_crc_residue: "fold crc_byte (with_crc f) 0x6363 = 0"
  by (simp add: with_crc_def Let_def crc_two_zero)

lemma length_with_crc [simp]: "length (with_crc f) = length f + 2"
  by (simp add: with_crc_def Let_def)

lemma with_crc_nth_0: "f \<noteq> [] \<Longrightarrow> with_crc f ! 0 = f ! 0"
  by (cases f) (simp_all add: with_crc_def Let_def)

lemma drop_with_crc: "n \<le> length f \<Longrightarrow> take (length f - n) (drop n (with_crc f)) = drop n f"
  by (simp add: with_crc_def Let_def)

definition picc_pcb :: "bool \<Rightarrow> u8 \<Rightarrow> bool \<Rightarrow> u8" where
  "picc_pcb has_cid blk chained = 0x02 OR blk OR (if has_cid then 0x08 else 0) OR (if chained then 0x10 else 0)"

abbreviation block_number :: "u8 \<Rightarrow> bool" where
  "block_number b \<equiv> b = 0 \<or> b = 1"

lemma picc_pcb_bits:
  assumes "block_number b"
  shows "picc_pcb h b ch AND 0xC0 = 0" "picc_pcb h b ch AND 0xF7 \<noteq> 0xF2" "(picc_pcb h b ch AND 0x10 \<noteq> 0) = ch"
    "(picc_pcb h b ch AND 0x08 \<noteq> 0) = h" "picc_pcb h b ch AND 0x04 = 0" "picc_pcb h b ch AND 0x01 = b"
    "reader_iso_dep_rx_hdr_skip (picc_pcb h b ch) = (if h then 2 else 1)"
  using assms by (auto simp: picc_pcb_def reader_iso_dep_rx_hdr_skip_def)

lemma sent_pcb_bits:
  assumes "block_number b"
  shows "sent_pcb b h False ch AND 0xC0 = 0" "(sent_pcb b h False ch AND 0x10 \<noteq> 0) = ch"
    "reader_iso_dep_rx_hdr_skip (sent_pcb b h False ch) = (if h then 2 else 1)"
  using assms by (auto simp: sent_pcb_def reader_iso_dep_rx_hdr_skip_def)

text \<open>The acknowledge is recognised as one, and as nothing else.\<close>

definition ack_pcb :: "bool \<Rightarrow> u8 \<Rightarrow> u8" where
  "ack_pcb has_cid blk = 0xA2 OR blk OR (if has_cid then 0x08 else 0)"

lemma r_ack_form:
  obtains x y where "picc_r_ack h i b = ack_pcb h b # (if h then [i, x, y] else [x, y])"
  by (rule that [of "ucast (fold crc_byte (ack_pcb h b # (if h then [i] else [])) 0x6363)"
        "ucast (drop_bit 8 (fold crc_byte (ack_pcb h b # (if h then [i] else [])) 0x6363))"])
    (auto simp: picc_r_ack_def with_crc_def ack_pcb_def Let_def)

lemma r_ack_seen:
  assumes b: "block_number b"
  shows "picc_r_ack h i b \<noteq> []" "rd (Some (picc_r_ack h i b)) 0 = Some (ack_pcb h b)" "ack_pcb h b AND 0xF7 \<noteq> 0xF2"
    "length (picc_r_ack h i b) \<le> 512"
    "reader_iso_dep_rx_rblock_block (Some (picc_r_ack h i b)) (length (picc_r_ack h i b)) True h i = Some None"
    "reader_iso_dep_rx_rblock_block (Some (picc_r_ack h i b)) (length (picc_r_ack h i b)) False h i = Some (Some b)"
proof -
  obtain x y where f: "picc_r_ack h i b = ack_pcb h b # (if h then [i, x, y] else [x, y])" by (rule r_ack_form)
  show "picc_r_ack h i b \<noteq> []" "rd (Some (picc_r_ack h i b)) 0 = Some (ack_pcb h b)" "ack_pcb h b AND 0xF7 \<noteq> 0xF2"
    "length (picc_r_ack h i b) \<le> 512"
    "reader_iso_dep_rx_rblock_block (Some (picc_r_ack h i b)) (length (picc_r_ack h i b)) True h i = Some None"
    "reader_iso_dep_rx_rblock_block (Some (picc_r_ack h i b)) (length (picc_r_ack h i b)) False h i = Some (Some b)"
    using b
    by (auto simp: f ack_pcb_def reader_iso_dep_rx_rblock_block_def reader_iso_dep_rx_hdr_skip_def Let_def)
qed

lemma block_number_xor [simp]: "block_number b \<Longrightarrow> block_number (b XOR 1)" "((b :: u8) XOR 1) XOR 1 = b"
  by (auto simp: xor.assoc)

text \<open>Steps of the call.\<close>

definition reaches :: "('s \<Rightarrow> ('s, 'r) step option) \<Rightarrow> nat \<Rightarrow> 's \<Rightarrow> 's \<Rightarrow> bool" where
  "reaches f k s s' \<longleftrightarrow> (\<forall>n. run_steps f (k + n) s = run_steps f n s')"

lemma reaches_refl: "reaches f 0 s s"
  by (simp add: reaches_def)

lemma reaches_Again: "f s = Some (Again s') \<Longrightarrow> reaches f m s' s'' \<Longrightarrow> reaches f (Suc m) s s''"
  by (simp add: reaches_def)

lemma reaches_trans: "reaches f k s s' \<Longrightarrow> reaches f m s' s'' \<Longrightarrow> reaches f (k + m) s s''"
  by (simp add: reaches_def add.assoc)

lemma reaches_Stop: "reaches f k s s' \<Longrightarrow> f s' = Some (Stop r) \<Longrightarrow> k < n \<Longrightarrow> run_steps f n s = Some (Some r)"
proof -
  assume a: "reaches f k s s'" "f s' = Some (Stop r)" "k < n"
  obtain m where "n = k + Suc m" using a(3) by (metis add_Suc_right less_iff_Suc_add)
  then have "run_steps f n s = run_steps f (Suc m) s'" using a(1) unfolding reaches_def by blast
  with a(2) show ?thesis by simp
qed

section \<open>Sending\<close>

text \<open>One fragment, for any radio that answers it with \<open>r\<close> and leaves a world that satisfies \<open>P\<close>.\<close>

lemma frag_frame_answered:
  assumes s: "in_session h i b s" and b: "block_number b" and a: "ic_apdu k = Some a" "ic_apdu_len k = n" "n \<le> length a" "n \<le> 65535"
    and q: "ic_frag_cap k = q" "0 < q" "q \<le> 48" and nad: "\<not> ic_add_nad k" and off: "off < n"
    and ch: "ch = (q < n - off)" and frag: "frag = take (min q (n - off)) (drop off a)"
    and answered: "\<And>s0 t m. in_session h i b s0 \<Longrightarrow> m \<le> length t \<Longrightarrow> take m t = sent_i_block b h i False 1 ch frag \<Longrightarrow>
      \<exists>c' s'. reader_security_key_iso_dep_transceive R (c, s0) (Some t) m 512 True (ic_link_timeout_ms k) =
        Some ((c', s'), r) \<and> in_session h i b s' \<and> P c'" and r: "r \<noteq> []"
  shows "\<exists>c' s' info. P c' \<and> in_session h i b s' \<and> itx_frag_len info = length frag \<and>
    frag_step R k (c, s) off rx =
      Some (Again (if ch then Chain (c', s') off info b r 0 else Recv (c', s') (ic_resp k) 0 b r))"
proof -
  have st: "id_pcb_has_cid s = h" "id_cid s = i" "id_block_num s = b" "length (id_iblock_tx s) = 832"
    using s by (simp_all add: in_session_def iso_inv_def)
  define frame where "frame = sent_i_block b h i False 1 ch frag"
  have hl: "reader_iso_dep_i_block_tx_hdr_len h False \<le> 3" by (simp add: reader_iso_dep_i_block_tx_hdr_len_def)
  have f: "reader_iso_dep_i_block_tx_hdr_len h False + min q (n - off) \<le> 832" using hl q(3) by linarith
  have lf: "length frag = min q (n - off)" using a off by (simp add: frag)
  have fl: "length frame \<le> 832" using f lf by (simp add: frame_def length_sent_i_block)
  define info where "info = \<lparr>itx_pcb = sent_pcb b h False ch, itx_hdr_len = reader_iso_dep_i_block_tx_hdr_len h False,
    itx_frag_len = length frag, itx_wire_len = length frame, itx_chain_more = ch\<rparr>"
  define t where "t = patch (id_iblock_tx s) 0 frame"
  have le: "832 \<le> length (id_iblock_tx s)" "(832 :: nat) \<le> 65535" using st by simp_all
  have build: "reader_iso_dep_build_i_block_tx (Some (id_iblock_tx s)) 832 (Some a) n off q h i False 1 b = Some (True, info, Some t)"
    using build_i_block_tx_ok [OF le off a(3,4) q(2) f, of i 1 b]
    by (simp only: Let_def ch [symmetric] frag [symmetric] frame_def [symmetric] info_def t_def)
  have tl: "length t = 832" "take (length frame) t = frame"
    using fl st(4) take_patch_front [of frame "id_iblock_tx s"] by (simp_all add: t_def)
  have s1: "in_session h i b (s\<lparr>id_iblock_tx := t\<rparr>)" using s tl(1) by (rule in_session_buffer)
  have wl: "itx_wire_len info \<le> length t" "take (itx_wire_len info) t = sent_i_block b h i False 1 ch frag"
    using tl fl by (simp_all add: info_def frame_def)
  obtain c' s2 where 2: "reader_security_key_iso_dep_transceive R (c, s\<lparr>id_iblock_tx := t\<rparr>) (Some t)
      (itx_wire_len info) 512 True (ic_link_timeout_ms k) = Some ((c', s2), r)" "in_session h i b s2" "P c'"
    using answered [OF s1 wl] unfolding frame_def by blast
  obtain s3 where 3: "reader_security_key_iso_dep_snap_raw_rx (Some r) (length r) s2 = Some s3" "in_session h i b s3"
    using snap_session [OF 2(2)] by blast
  have b1: "b AND 1 = b" using b by auto
  have ii: "itx_chain_more info = ch" "itx_frag_len info = length frag" by (simp_all add: info_def)
  have bn: "id_block_num s3 = b" using 3(2) by (simp add: in_session_def)
  have "frag_step R k (c, s) off rx =
      Some (Again (if ch then Chain (c', s3) off info b r 0 else Recv (c', s3) (ic_resp k) 0 b r))"
    using off nad r by (simp add: frag_step_def Let_def st a(1,2) q(1) b1 build 2(1) 3(1) bn ii)
  then show ?thesis using 2(3) 3(2) by (intro exI [of _ c'] exI [of _ s3] exI [of _ info]) (simp add: ii)
qed

lemma frag_frame:
  assumes s: "in_session h i b s" and b: "block_number b" and a: "ic_apdu k = Some a" "ic_apdu_len k = n" "n \<le> length a" "n \<le> 65535"
    and q: "ic_frag_cap k = q" "0 < q" "q \<le> 48" and nad: "\<not> ic_add_nad k" and off: "off < n"
    and ch: "ch = (q < n - off)" and frag: "frag = take (min q (n - off)) (drop off a)"
    and card: "picc_step rsp h i c (sent_i_block b h i False 1 ch frag) = (c', r)" and r: "r \<noteq> []"
  shows "\<exists>s' info. in_session h i b s' \<and> itx_frag_len info = length frag \<and>
    frag_step (picc_radio rsp h i clock) k (c, s) off rx =
      Some (Again (if ch then Chain (c', s') off info b r 0 else Recv (c', s') (ic_resp k) 0 b r))"
proof -
  have answered: "\<exists>c'' s'. reader_security_key_iso_dep_transceive (picc_radio rsp h i clock) (c, s0) (Some t) m 512 True
      (ic_link_timeout_ms k) = Some ((c'', s'), r) \<and> in_session h i b s' \<and> c'' = c'"
    if "in_session h i b s0" "m \<le> length t" "take m t = sent_i_block b h i False 1 ch frag" for s0 t m
    using transceive_session [OF that(1,2)] card unfolding that(3) by blast
  from frag_frame_answered [OF s b a q nad off ch frag answered r] show ?thesis by blast
qed

lemma sent_frame_card:
  assumes b: "block_number b" and c: "pc_block c = b XOR 1"
  shows "picc_step rsp h i c (sent_i_block b h i False nad True frag) =
      (c\<lparr>pc_collected := pc_collected c @ frag, pc_block := b\<rparr>, picc_r_ack h i b)"
    "picc_step rsp h i c (sent_i_block b h i False nad False frag) =
      (let frags = rsp (pc_collected c @ frag) in
        (c\<lparr>pc_collected := [], pc_pending := tl frags, pc_block := b\<rparr>, picc_i_block h i b (1 < length frags) (hd frags)))"
proof -
  have n0: "sent_i_block b h i False nad ch frag ! 0 = sent_pcb b h False ch" for ch by (simp add: sent_i_block_def)
  have d: "drop (if h then 2 else 1) (sent_i_block b h i False nad ch frag) = frag" for ch
    by (simp add: sent_i_block_def numeral_2_eq_2)
  note bits = sent_pcb_bits [OF b, of h]
  show "picc_step rsp h i c (sent_i_block b h i False nad True frag) =
      (c\<lparr>pc_collected := pc_collected c @ frag, pc_block := b\<rparr>, picc_r_ack h i b)"
    "picc_step rsp h i c (sent_i_block b h i False nad False frag) =
      (let frags = rsp (pc_collected c @ frag) in
        (c\<lparr>pc_collected := [], pc_pending := tl frags, pc_block := b\<rparr>, picc_i_block h i b (1 < length frags) (hd frags)))"
    using bits(1,2) by (simp_all add: picc_step_def n0 bits d c Let_def)
qed

lemma chain_ack:
  assumes s: "in_session h i b s" and b: "block_number b" and len: "off + itx_frag_len info < 65536"
  shows "chain_step R k (c, s) off info b (picc_r_ack h i b) 0 =
    Some (Again (Frag (c, s\<lparr>id_block_num := b XOR 1\<rparr>) (off + itx_frag_len info) (picc_r_ack h i b)))"
proof -
  have st: "id_pcb_has_cid s = h" "id_cid s = i" "id_block_num s = b" using s by (simp_all add: in_session_def)
  have b1: "b AND 1 = b" using b by auto
  show ?thesis
    using r_ack_seen(3) [OF b, of h] len
    by (simp add: chain_step_def r_ack_seen [OF b] Let_def st b1
        reader_security_key_iso_dep_rx_is_chain_nak_for_block_def reader_iso_dep_rx_is_chain_nak_for_block_def
        reader_security_key_iso_dep_rx_is_chain_ack_for_block_def reader_iso_dep_rx_is_chain_ack_for_block_def)
qed

lemma i_block_not_empty: "picc_i_block h i b ch f \<noteq> []"
  by (simp add: picc_i_block_def with_crc_def Let_def)

text \<open>The whole APDU arrives, fragment by fragment.\<close>

lemma send_reaches:
  fixes a :: bytes and rsp h i clock k
  defines "R \<equiv> picc_radio rsp h i clock"
  assumes a: "ic_apdu k = Some a" "ic_apdu_len k = n" "n \<le> length a" "n \<le> 65535"
    and q: "0 < ic_frag_cap k" "ic_frag_cap k \<le> 48" and nad: "\<not> ic_add_nad k"
  shows "in_session h i b s \<Longrightarrow> block_number b \<Longrightarrow> pc_collected c = take off a \<Longrightarrow> pc_block c = b XOR 1 \<Longrightarrow> off < n \<Longrightarrow>
    \<exists>m s' b'. m \<le> 2 * (n - off) \<and> in_session h i b' s' \<and> block_number b' \<and>
      reaches (send_i_block_step R k) m (Frag (c, s) off rx)
        (Recv (c\<lparr>pc_collected := [], pc_pending := tl (rsp (take n a)), pc_block := b'\<rparr>, s') (ic_resp k) 0 b'
          (picc_i_block h i b' (1 < length (rsp (take n a))) (hd (rsp (take n a)))))"
proof (induction "n - off" arbitrary: off b s c rx rule: less_induct)
  case less
  define q where "q = ic_frag_cap k"
  define frag where "frag = take (min q (n - off)) (drop off a)"
  note sess = less.prems(1) and b = less.prems(2) and coll = less.prems(3) and blk = less.prems(4) and off = less.prems(5)
  have q': "ic_frag_cap k = q" "0 < q" "q \<le> 48" using q by (simp_all add: q_def)
  note card = sent_frame_card [OF b blk, where rsp = rsp and h = h and i = i and nad = 1 and frag = frag]
  show ?case
  proof (cases "q < n - off")
    case True
    have fr: "length frag = q" using True a(3) by (simp add: frag_def)
    have T: "True = (q < n - off)" using True by simp
    obtain s1 info where 1: "in_session h i b s1" "itx_frag_len info = length frag"
      "frag_step R k (c, s) off rx = Some (Again (Chain (c\<lparr>pc_collected := pc_collected c @ frag, pc_block := b\<rparr>, s1)
          off info b (picc_r_ack h i b) 0))"
      using frag_frame [OF sess b a q' nad off T frag_def card(1) r_ack_seen(1) [OF b]] unfolding R_def if_True by blast
    define c1 where "c1 = c\<lparr>pc_collected := pc_collected c @ frag, pc_block := b\<rparr>"
    define s2 where "s2 = s1\<lparr>id_block_num := b XOR 1\<rparr>"
    have len: "off + itx_frag_len info < 65536" using 1(2) fr True a(4) by simp
    have 2: "chain_step R k (c1, s1) off info b (picc_r_ack h i b) 0 = Some (Again (Frag (c1, s2) (off + q) (picc_r_ack h i b)))"
      using chain_ack [OF 1(1) b len] by (simp only: R_def s2_def 1(2) fr)
    have prem: "n - (off + q) < n - off" "in_session h i (b XOR 1) s2" "block_number (b XOR 1)"
      "pc_collected c1 = take (off + q) a" "pc_block c1 = (b XOR 1) XOR 1" "off + q < n"
      using True q'(2) in_session_block [OF 1(1)] b coll
      by (simp_all add: s2_def c1_def frag_def take_add min_def)
    obtain m s' b' where m: "m \<le> 2 * (n - (off + q))" "in_session h i b' s'" "block_number b'"
      "reaches (send_i_block_step R k) m (Frag (c1, s2) (off + q) (picc_r_ack h i b))
        (Recv (c1\<lparr>pc_collected := [], pc_pending := tl (rsp (take n a)), pc_block := b'\<rparr>, s') (ic_resp k) 0 b'
          (picc_i_block h i b' (1 < length (rsp (take n a))) (hd (rsp (take n a)))))"
      using less.hyps [OF prem] by blast
    have "reaches (send_i_block_step R k) (Suc (Suc m)) (Frag (c, s) off rx)
        (Recv (c1\<lparr>pc_collected := [], pc_pending := tl (rsp (take n a)), pc_block := b'\<rparr>, s') (ic_resp k) 0 b'
          (picc_i_block h i b' (1 < length (rsp (take n a))) (hd (rsp (take n a)))))"
      by (rule reaches_Again [where s' = "Chain (c1, s1) off info b (picc_r_ack h i b) 0"],
          simp add: send_i_block_step_def 1(3) c1_def,
          rule reaches_Again [where s' = "Frag (c1, s2) (off + q) (picc_r_ack h i b)"],
          simp add: send_i_block_step_def 2, rule m(4))
    moreover have "Suc (Suc m) \<le> 2 * (n - off)" using m(1) True q'(2) by linarith
    moreover have "c1\<lparr>pc_collected := [], pc_pending := p, pc_block := b'\<rparr> = c\<lparr>pc_collected := [], pc_pending := p, pc_block := b'\<rparr>" for p
      by (simp add: c1_def)
    ultimately show ?thesis using m(2,3) by metis
  next
    case False
    have fr: "frag = drop off (take n a)" using False off a(3) by (simp add: frag_def min_def drop_take)
    have F: "False = (q < n - off)" using False by simp
    have all: "pc_collected c @ frag = take n a"
      using coll off by (simp add: fr) (metis append_take_drop_id less_imp_le min.absorb1 take_take)
    obtain s1 info where 1: "in_session h i b s1"
      "frag_step R k (c, s) off rx = Some (Again (Recv (c\<lparr>pc_collected := [], pc_pending := tl (rsp (take n a)), pc_block := b\<rparr>, s1)
          (ic_resp k) 0 b (picc_i_block h i b (1 < length (rsp (take n a))) (hd (rsp (take n a))))))"
      using frag_frame [OF sess b a q' nad off F frag_def card(2) [unfolded all Let_def] i_block_not_empty] unfolding R_def if_False by blast
    have "reaches (send_i_block_step R k) (Suc 0) (Frag (c, s) off rx)
        (Recv (c\<lparr>pc_collected := [], pc_pending := tl (rsp (take n a)), pc_block := b\<rparr>, s1)
          (ic_resp k) 0 b (picc_i_block h i b (1 < length (rsp (take n a))) (hd (rsp (take n a)))))"
      by (rule reaches_Again [OF _ reaches_refl]) (simp add: send_i_block_step_def 1(2))
    moreover have "Suc 0 \<le> 2 * (n - off)" using off by linarith
    ultimately show ?thesis using 1(1) b by blast
  qed
qed

section \<open>Receiving\<close>

definition crc_tail :: "bytes \<Rightarrow> bytes" where
  "crc_tail f = drop (length f) (with_crc f)"

lemma with_crc_tail: "with_crc f = f @ crc_tail f" "length (crc_tail f) = 2"
  by (simp_all add: crc_tail_def with_crc_def Let_def)

definition picc_header :: "bool \<Rightarrow> u8 \<Rightarrow> u8 \<Rightarrow> bool \<Rightarrow> bytes" where
  "picc_header h i b ch = picc_pcb h b ch # (if h then [i] else [])"

lemma picc_header_length: "length (picc_header h i b ch) = (if h then 2 else 1)"
  by (simp add: picc_header_def)

definition picc_tail :: "bool \<Rightarrow> u8 \<Rightarrow> u8 \<Rightarrow> bool \<Rightarrow> bytes \<Rightarrow> bytes" where
  "picc_tail h i b ch f = crc_tail (picc_header h i b ch @ f)"

lemma i_block_form: "picc_i_block h i b ch f = picc_header h i b ch @ f @ picc_tail h i b ch f"
  using with_crc_tail(1) [of "picc_header h i b ch @ f"]
  by (simp add: picc_i_block_def picc_header_def picc_pcb_def picc_tail_def)

lemma i_block_length: "length (picc_i_block h i b ch f) = (if h then 2 else 1) + length f + 2"
  by (simp add: i_block_form picc_header_length picc_tail_def with_crc_tail(2))

lemma i_block_seen:
  assumes b: "block_number b" and f: "length f \<le> 508"
  shows "rd (Some (picc_i_block h i b ch f)) 0 = Some (picc_pcb h b ch)"
    "reader_iso_dep_rx_i_block_number_matches (Some (picc_i_block h i b ch f)) (length (picc_i_block h i b ch f)) b = Some True"
    "reader_iso_dep_i_block_inf_len (Some (picc_i_block h i b ch f)) (length (picc_i_block h i b ch f)) (if h then 2 else 1)
      (picc_pcb h b ch) = Some (if ch then (True, length f, 2) else (True, length f + 2, 0))"
    "drop (if h then 2 else 1) (picc_i_block h i b ch f) = f @ picc_tail h i b ch f"
proof -
  note bits = picc_pcb_bits [OF b, of h ch]
  have b1: "b AND 1 = b" using b by auto
  show r0: "rd (Some (picc_i_block h i b ch f)) 0 = Some (picc_pcb h b ch)"
    by (simp add: i_block_form picc_header_def)
  show "reader_iso_dep_rx_i_block_number_matches (Some (picc_i_block h i b ch f)) (length (picc_i_block h i b ch f)) b = Some True"
    using bits(1,6,7) b1 by (simp add: reader_iso_dep_rx_i_block_number_matches_def r0 i_block_length)
  show "drop (if h then 2 else 1) (picc_i_block h i b ch f) = f @ picc_tail h i b ch f"
    by (simp add: i_block_form picc_header_def numeral_2_eq_2)
  have res: "reader_iso_dep_has_crc_a_suffix (Some (picc_i_block h i b ch f)) (length (picc_i_block h i b ch f)) = Some True"
  proof -
    have "picc_i_block h i b ch f = with_crc (picc_header h i b ch @ f)"
      by (simp add: i_block_form with_crc_tail(1) picc_tail_def)
    then have "fold crc_byte (picc_i_block h i b ch f) 0x6363 = 0" by (simp only: with_crc_residue)
    then show ?thesis
      using crc_suffix_fold [of "picc_i_block h i b ch f" "[]"] f by (simp add: i_block_length)
  qed
  have l: "length (picc_i_block h i b ch f) = (if h then 2 else 1) + (length f + 2)" by (simp add: i_block_length)
  then have u: "u16n (length (picc_i_block h i b ch f)) = (if h then 2 else 1) + (length f + 2)" using f by (simp split: if_split)
  have "u16n (u16n (length (picc_i_block h i b ch f)) - (if h then 2 else 1)) = length f + 2" unfolding u using f by simp
  moreover have "reader_iso_dep_chained_crc_tail_len (picc_pcb h b ch) (Some (picc_i_block h i b ch f))
      (u16n (length (picc_i_block h i b ch f))) = Some (if ch then 2 else 0)"
    using bits(3) res f by (auto simp: reader_iso_dep_chained_crc_tail_len_def l)
  ultimately show "reader_iso_dep_i_block_inf_len (Some (picc_i_block h i b ch f)) (length (picc_i_block h i b ch f)) (if h then 2 else 1)
      (picc_pcb h b ch) = Some (if ch then (True, length f, 2) else (True, length f + 2, 0))"
    using l by (simp add: reader_iso_dep_i_block_inf_len_def Let_def)
qed

lemma i_block_pick:
  assumes s: "in_session h i b' s" and b: "block_number b" and f: "length f \<le> 508"
  shows "reader_security_key_iso_dep_pick_inf_offset s (Some (picc_i_block h i b ch f)) (length (picc_i_block h i b ch f)) =
    Some (if h then 2 else 1)"
proof -
  note bits = picc_pcb_bits [OF b, of h ch]
  have st: "id_pcb_has_cid s = h" "id_cid s = i" "\<not> (id_have_tc s \<and> id_tc_byte s AND 0x01 \<noteq> 0)"
    using s by (simp_all add: in_session_def)
  show ?thesis
    unfolding reader_security_key_iso_dep_pick_inf_offset_def reader_iso_dep_pick_inf_offset_def st(1,2)
    using bits st(3) by (auto simp: i_block_seen(1) [OF b f] i_block_length Let_def)
qed

lemma recv_chained:
  assumes s: "in_session h i b0 s" and b: "block_number b" and c: "pc_block c = b" and f: "length f \<le> 508"
    and r: "tot + length f \<le> ic_resp_len k" "ic_resp_len k \<le> length r" "ic_resp_len k \<le> 65535" and pend: "pc_pending c \<noteq> []"
  shows "\<exists>s' b'. b' = b XOR 1 \<and> in_session h i b0 s' \<and>
    recv_step (picc_radio rsp h i clock) k (c, s) (Some r) tot b (picc_i_block h i b True f) =
      Some (Again (Recv (c\<lparr>pc_pending := tl (pc_pending c), pc_block := b'\<rparr>, s') (Some (patch r tot f)) (tot + length f) b'
        (picc_i_block h i b' (1 < length (pc_pending c)) (hd (pc_pending c)))))"
proof -
  note bits = picc_pcb_bits [OF b, of h True]
  define s1 where "s1 = s\<lparr>id_last_inf_off := (if h then 2 else 1)\<rparr>"
  have s1: "in_session h i b0 s1" using s by (simp add: s1_def)
  have st: "id_pcb_has_cid s1 = h" "id_cid s1 = i" using s1 by (simp_all add: in_session_def)
  define b' where "b' = b XOR 1"
  have b': "block_number b'" "b' AND 1 = b'" "b' \<noteq> b" using b by (auto simp: b'_def)
  define nx where "nx = picc_i_block h i b' (1 < length (pc_pending c)) (hd (pc_pending c))"
  have nx: "nx \<noteq> []" unfolding nx_def by (rule i_block_not_empty)
  define ack where "ack = ack_pcb h b' # (if h then [i] else [])"
  have append: "reader_iso_dep_append_inf (Some r) (ic_resp_len k) tot
      (Some (f @ picc_tail h i b True f)) (length f) = Some (True, True, tot + length f, Some (patch r tot f))"
    using r by (simp add: reader_iso_dep_append_inf_def nero_nfc_try_add_u16_def)
  have four: "replicate 4 (0 :: u8) = [0, 0, 0, 0]" by (simp add: numeral_eq_Suc)
  have build: "\<exists>t. reader_iso_dep_build_chained_ack (Some (replicate 4 0)) 4 b' h i = Some (True, length ack, Some t) \<and>
      length ack \<le> length t \<and> take (length ack) t = ack"
    by (cases h) (simp_all add: four reader_iso_dep_build_chained_ack_def ack_def ack_pcb_def b'(2) Let_def or.assoc)
  then obtain t where t: "reader_iso_dep_build_chained_ack (Some (replicate 4 0)) 4 b' h i = Some (True, length ack, Some t)"
    "length ack \<le> length t" "take (length ack) t = ack" by blast
  have ab: "ack_pcb h b' AND 0xC0 \<noteq> 0" "ack_pcb h b' AND 0xF6 = 0xA2" "ack_pcb h b' AND 1 = b'"
    using b' by (auto simp: ack_pcb_def)
  have card: "picc_step rsp h i c (take (length ack) t) =
      (c\<lparr>pc_pending := tl (pc_pending c), pc_block := b'\<rparr>, nx)"
    unfolding t(3) using ab b'(3) by (simp add: picc_step_def ack_def c b'_def nx_def Let_def)
  obtain s2 where 2: "reader_security_key_iso_dep_transceive (picc_radio rsp h i clock) (c, s1) (Some t) (length ack) 512 True
      (ic_link_timeout_ms k) = Some ((c\<lparr>pc_pending := tl (pc_pending c), pc_block := b'\<rparr>, s2),
        nx)" "in_session h i b0 s2"
    using transceive_session [OF s1 t(2) card] by blast
  obtain s3 where 3: "reader_security_key_iso_dep_snap_raw_rx (Some (nx))
      (length (nx)) s2 = Some s3" "in_session h i b0 s3"
    using snap_session [OF 2(2)] by blast
  have "recv_step (picc_radio rsp h i clock) k (c, s) (Some r) tot b (picc_i_block h i b True f) =
      Some (Again (Recv (c\<lparr>pc_pending := tl (pc_pending c), pc_block := b'\<rparr>, s3) (Some (patch r tot f)) (tot + length f) b'
        (nx)))"
    unfolding recv_step_def prod.case if_not_P [OF i_block_not_empty] i_block_seen(1) [OF b f] bind.bind_lunit Let_def
      if_not_P [OF bits(2)] if_P [OF bits(1)] i_block_pick [OF s b f] i_block_seen(2,3) [OF b f] ptr_add_Some i_block_seen(4) [OF b f]
      if_P [OF refl] append
    using bits(3)
    by (simp add: s1_def [symmetric] st b'_def [symmetric] t(1) 2(1) 3(1) nx append del: append_assoc)
  then show ?thesis using 3(2) b'_def unfolding nx_def by blast
qed

lemma recv_final:
  assumes s: "in_session h i b0 s" and b: "block_number b" and f: "length f \<le> 508"
    and r: "tot + length f + 2 \<le> ic_resp_len k" "ic_resp_len k \<le> length r" "ic_resp_len k \<le> 65535"
  shows "\<exists>s'. in_session h i (b XOR 1) s' \<and>
    recv_step (picc_radio rsp h i clock) k (c, s) (Some r) tot b (picc_i_block h i b False f) =
      Some (Stop ((c, s'), Some (patch r tot (f @ picc_tail h i b False f)), Some (tot + length f + 2)))"
proof -
  note bits = picc_pcb_bits [OF b, of h False]
  have l: "length (picc_tail h i b False f) = 2" by (simp add: picc_tail_def with_crc_tail(2))
  have append: "reader_iso_dep_append_inf (Some r) (ic_resp_len k) tot
      (Some (f @ picc_tail h i b False f)) (length f + 2) =
      Some (True, True, tot + length f + 2, Some (patch r tot (f @ picc_tail h i b False f)))"
    using r l by (simp add: reader_iso_dep_append_inf_def nero_nfc_try_add_u16_def)
  define s1 where "s1 = (reader_security_key_iso_dep_set_last_error 0 (s\<lparr>id_last_inf_off := (if h then 2 else 1)\<rparr>))
      \<lparr>id_block_num := b XOR 1\<rparr>"
  have "in_session h i (b XOR 1) s1" unfolding s1_def by (rule in_session_block [of h i b0]) (simp add: s)
  moreover have "recv_step (picc_radio rsp h i clock) k (c, s) (Some r) tot b (picc_i_block h i b False f) =
      Some (Stop ((c, s1), Some (patch r tot (f @ picc_tail h i b False f)), Some (tot + length f + 2)))"
    unfolding recv_step_def prod.case if_not_P [OF i_block_not_empty] i_block_seen(1) [OF b f] bind.bind_lunit Let_def
      if_not_P [OF bits(2)] if_P [OF bits(1)] i_block_pick [OF s b f] i_block_seen(2,3) [OF b f] ptr_add_Some i_block_seen(4) [OF b f]
    using bits(3) by (simp add: append recv_exit_def Let_def s1_def del: append_assoc)
  ultimately show ?thesis by blast
qed

text \<open>The fragments of the response, in order, and the check bytes of the last block.\<close>

lemma recv_all:
  fixes rsp h i clock k
  defines "R \<equiv> picc_radio rsp h i clock"
  assumes cap: "ic_resp_len k \<le> 65535"
  shows "in_session h i b0 s \<Longrightarrow> block_number b \<Longrightarrow> pc_block c = b \<Longrightarrow> pc_pending c = fs \<Longrightarrow>
    \<forall>x \<in> set (f # fs). length x \<le> 508 \<Longrightarrow> tot + length (concat (f # fs)) + 2 \<le> ic_resp_len k \<Longrightarrow>
    ic_resp_len k \<le> length r \<Longrightarrow>
    \<exists>c' s' b' tail. length tail = 2 \<and> in_session h i b' s' \<and> block_number b' \<and>
      c' = c\<lparr>pc_pending := [], pc_block := b' XOR 1\<rparr> \<and>
      (\<forall>n. length fs < n \<longrightarrow> run_steps (send_i_block_step R k) n
          (Recv (c, s) (Some r) tot b (picc_i_block h i b (fs \<noteq> []) f)) =
        Some (Some ((c', s'), Some (patch r tot (concat (f # fs) @ tail)), Some (tot + length (concat (f # fs)) + 2))))"
proof (induction fs arbitrary: f b s c tot r)
  case Nil
  have f: "length f \<le> 508" using Nil.prems(5) by simp
  have t: "tot + length f + 2 \<le> ic_resp_len k" using Nil.prems(6) by simp
  obtain s' where s': "in_session h i (b XOR 1) s'"
    "recv_step R k (c, s) (Some r) tot b (picc_i_block h i b False f) =
      Some (Stop ((c, s'), Some (patch r tot (f @ picc_tail h i b False f)), Some (tot + length f + 2)))"
    using recv_final [OF Nil.prems(1,2) f t Nil.prems(7) cap] unfolding R_def by blast
  have run: "run_steps (send_i_block_step R k) n (Recv (c, s) (Some r) tot b (picc_i_block h i b False f)) =
      Some (Some ((c, s'), Some (patch r tot (f @ picc_tail h i b False f)), Some (tot + length f + 2)))" if "0 < n" for n
    by (rule reaches_Stop [OF reaches_refl _ that]) (simp add: send_i_block_step_def s'(2))
  have c: "c = c\<lparr>pc_pending := [], pc_block := (b XOR 1) XOR 1\<rparr>" using Nil.prems(3,4) by simp
  show ?case
    by (rule exI [of _ c], rule exI [of _ s'], rule exI [of _ "b XOR 1"], rule exI [of _ "picc_tail h i b False f"])
      (use run s'(1) c Nil.prems(2) in \<open>simp add: picc_tail_def with_crc_tail(2) del: append_assoc\<close>)
next
  case (Cons g fs)
  have f: "length f \<le> 508" using Cons.prems(5) by simp
  have t: "tot + length f \<le> ic_resp_len k" using Cons.prems(6) by simp
  have p: "pc_pending c \<noteq> []" using Cons.prems(4) by simp
  define c1 where "c1 = c\<lparr>pc_pending := fs, pc_block := b XOR 1\<rparr>"
  obtain s1 where 1: "in_session h i b0 s1"
    "recv_step R k (c, s) (Some r) tot b (picc_i_block h i b True f) =
      Some (Again (Recv (c1, s1) (Some (patch r tot f)) (tot + length f) (b XOR 1) (picc_i_block h i (b XOR 1) (fs \<noteq> []) g)))"
    using recv_chained [OF Cons.prems(1,2,3) f t Cons.prems(7) cap p, of rsp clock] Cons.prems(4)
    by (auto simp: R_def c1_def length_greater_0_conv)
  have prems: "block_number (b XOR 1)" "pc_block c1 = b XOR 1" "pc_pending c1 = fs" "\<forall>x \<in> set (g # fs). length x \<le> 508"
    "tot + length f + length (concat (g # fs)) + 2 \<le> ic_resp_len k" "ic_resp_len k \<le> length (patch r tot f)"
    using Cons.prems t by (auto simp: c1_def)
  obtain c' s' b' tail where 2: "length tail = 2" "in_session h i b' s'" "block_number b'"
    "c' = c1\<lparr>pc_pending := [], pc_block := b' XOR 1\<rparr>"
    "\<forall>n. length fs < n \<longrightarrow> run_steps (send_i_block_step R k) n
          (Recv (c1, s1) (Some (patch r tot f)) (tot + length f) (b XOR 1) (picc_i_block h i (b XOR 1) (fs \<noteq> []) g)) =
        Some (Some ((c', s'), Some (patch (patch r tot f) (tot + length f) (concat (g # fs) @ tail)),
          Some (tot + length f + length (concat (g # fs)) + 2)))"
    using Cons.IH [OF 1(1) prems] by blast
  have pp: "patch (patch r tot f) (tot + length f) (concat (g # fs) @ tail) = patch r tot (concat (f # g # fs) @ tail)"
    using Cons.prems(6,7) 2(1) by (subst patch_patch) simp_all
  have run: "run_steps (send_i_block_step R k) n (Recv (c, s) (Some r) tot b (picc_i_block h i b True f)) =
      Some (Some ((c', s'), Some (patch r tot (concat (f # g # fs) @ tail)), Some (tot + length (concat (f # g # fs)) + 2)))"
    if h: "Suc (length fs) < n" for n
  proof -
    obtain m where m: "n = Suc m" "length fs < m" using h by (cases n) simp_all
    show ?thesis
      using 2(5) [rule_format, OF m(2)] pp by (simp add: m(1) send_i_block_step_def 1(2) add.assoc)
  qed
  have c': "c' = c\<lparr>pc_pending := [], pc_block := b' XOR 1\<rparr>" by (simp add: 2(4) c1_def)
  have nn: "(g # fs \<noteq> []) = True" by simp
  show ?case
    unfolding nn
    by (rule exI [of _ c'], rule exI [of _ s'], rule exI [of _ b'], rule exI [of _ tail])
      (intro conjI 2 c' allI impI, rule run, simp)
qed

section \<open>The exchange\<close>

lemma send_i_block_transfer:
  fixes rsp h i clock
  defines "R \<equiv> picc_radio rsp h i clock"
  assumes s: "in_session h i b s" and b: "block_number b" and c: "pc_collected c = []" "pc_block c = b XOR 1"
    and a: "0 < n" "n \<le> length a" "n \<le> 65535"
    and frags: "rsp (take n a) = f # fs" "\<forall>x \<in> set (f # fs). length x \<le> 508"
    and r: "length (concat (f # fs)) + 2 \<le> cap" "cap \<le> length r" "cap \<le> 65535"
    and fuel: "2 * n + length (f # fs) \<le> fuel"
  shows "\<exists>c' s' b' tail. length tail = 2 \<and> in_session h i b' s' \<and> block_number b' \<and>
    pc_collected c' = [] \<and> pc_block c' = b' XOR 1 \<and>
    reader_security_key_send_i_block fuel R (c, s) (Some a) n (Some r) cap ms =
      Some (Some ((c', s'), Some (patch r 0 (concat (f # fs) @ tail)), Some (length (concat (f # fs)) + 2)))"
proof -
  have st: "id_pcb_has_cid s = h" "16 \<le> id_pic_frame_max s" "\<not> reader_security_key_iso_dep_tx_include_nad s"
    using s by (auto simp: in_session_def iso_inv_def reader_security_key_iso_dep_tx_include_nad_def)
  define hl where "hl = reader_security_key_iso_dep_tx_hdr_len s False"
  have hl: "1 \<le> hl" "hl \<le> 2"
    by (simp_all add: hl_def reader_security_key_iso_dep_tx_hdr_len_def reader_iso_dep_i_block_tx_hdr_len_def)
  define q where "q = reader_security_key_iso_dep_apdu_chunk_budget s hl"
  have q: "0 < q" "q \<le> 48" using st(2) hl
    by (simp_all add: q_def reader_security_key_iso_dep_apdu_chunk_budget_def reader_iso_dep_apdu_chunk_budget_def Let_def)
  define k where "k = \<lparr>ic_apdu = Some a, ic_apdu_len = n, ic_resp = Some r, ic_resp_len = cap,
     ic_frame_timeout_ms = ms, ic_start_ms = clock c, ic_add_nad = False, ic_frag_cap = q,
     ic_link_timeout_ms = reader_security_key_iso_dep_link_response_timeout_ms s\<rparr>"
  have call: "reader_security_key_send_i_block fuel R (c, s) (Some a) n (Some r) cap ms =
      run_steps (send_i_block_step R k) fuel (Frag (c, s) 0 [])"
    using q(1) hl(1) st(3)
    by (simp add: reader_security_key_send_i_block_def R_def picc_radio_def reader_security_key_iso_dep_tx_add_nad_def
        hl_def [symmetric] q_def [symmetric] k_def Let_def)
  have k: "ic_apdu k = Some a" "ic_apdu_len k = n" "0 < ic_frag_cap k" "ic_frag_cap k \<le> 48" "\<not> ic_add_nad k"
    "ic_resp k = Some r" "ic_resp_len k = cap" using q by (simp_all add: k_def)
  have c0: "pc_collected c = take 0 a" using c by simp
  define c1 where "c1 = (\<lambda>b'. c\<lparr>pc_collected := [], pc_pending := fs, pc_block := b'\<rparr>)"
  obtain m s1 b1 where 1: "m \<le> 2 * n" "in_session h i b1 s1" "block_number b1"
    "reaches (send_i_block_step R k) m (Frag (c, s) 0 []) (Recv (c1 b1, s1) (Some r) 0 b1 (picc_i_block h i b1 (fs \<noteq> []) f))"
    using send_reaches [OF k(1,2) a(2,3) k(3,4,5) s b c0 c(2) a(1), where rsp = rsp and clock = clock and rx = "[]"]
    unfolding frags(1) R_def [symmetric] k(6) c1_def by (auto simp: length_greater_0_conv)
  have cap: "ic_resp_len k \<le> 65535" using r k(7) by simp
  have pre: "pc_block (c1 b1) = b1" "pc_pending (c1 b1) = fs" "0 + length (concat (f # fs)) + 2 \<le> ic_resp_len k" "ic_resp_len k \<le> length r"
    using r by (simp_all add: c1_def k(7))
  obtain c' s' b' tail where 2: "length tail = 2" "in_session h i b' s'" "block_number b'"
    "c' = (c1 b1)\<lparr>pc_pending := [], pc_block := b' XOR 1\<rparr>"
    "\<forall>n. length fs < n \<longrightarrow> run_steps (send_i_block_step R k) n (Recv (c1 b1, s1) (Some r) 0 b1 (picc_i_block h i b1 (fs \<noteq> []) f)) =
        Some (Some ((c', s'), Some (patch r 0 (concat (f # fs) @ tail)), Some (0 + length (concat (f # fs)) + 2)))"
    using recv_all [OF cap 1(2,3) pre(1,2) frags(2) pre(3,4), where rsp = rsp and clock = clock] unfolding R_def by blast
  have "fuel = m + (fuel - m)" "length fs < fuel - m" using 1(1) fuel by auto
  then have "run_steps (send_i_block_step R k) fuel (Frag (c, s) 0 []) =
      Some (Some ((c', s'), Some (patch r 0 (concat (f # fs) @ tail)), Some (length (concat (f # fs)) + 2)))"
    using 1(4) 2(5) unfolding reaches_def by (metis add_0)
  moreover have "pc_collected c' = []" "pc_block c' = b' XOR 1" by (simp_all add: 2(4) c1_def)
  ultimately show ?thesis using 2 call by metis
qed

text \<open>Without GET RESPONSE chains the exchange is one I-block exchange and two trims.\<close>

lemma send_apdu_plain:
  assumes "reader_security_key_send_i_block fuel R w (Some a) n (Some r) cap ms = Some (Some (w', Some r', Some tot))"
    and "reader_iso_dep_trim_crc_suffix (Some r') tot = Some k1" and "reader_iso_dep_trim_crc_suffix (Some r') k1 = Some k2"
    and "2 \<le> tot" "2 \<le> k1" "tot \<le> 65535" "k1 \<le> 65535" "0 < fuel"
  shows "reader_security_key_send_apdu_timeout_ex fuel R w (Some a) n (Some r) cap ms False = Some (Some (w', Some r', Some k2))"
proof -
  obtain fuel' where "fuel = Suc fuel'" using assms(8) by (cases fuel) simp_all
  moreover have "u16n tot = tot" "u16n k1 = k1" using assms by simp_all
  ultimately show ?thesis
    using assms by (cases w') (simp add: reader_security_key_send_apdu_timeout_ex_def get_response_step_def ctap_get_response_step_def)
qed

definition status_like :: "bytes \<Rightarrow> nat \<Rightarrow> bool" where
  "status_like xs k \<longleftrightarrow> reader_iso_dep_sw16_confidence (xs ! k) (xs ! (k + 1)) \<noteq> 0"

lemma trim_at_least:
  "reader_iso_dep_trim_crc_suffix (Some r) n = Some k \<Longrightarrow> 2 \<le> n \<Longrightarrow> n \<le> length r \<Longrightarrow> n \<le> 65535 \<Longrightarrow> 2 \<le> k \<and> k \<le> n"
  by (auto simp: reader_iso_dep_trim_crc_suffix_def Let_def split: if_splits)

text \<open>
  C8: an APDU exchange with a card that follows the block protocol delivers exactly the APDU
  and exactly the response. For every APDU of 1 to 65535 bytes and every response the buffer
  holds (with two check bytes to spare), in any number of fragments, with or without CID and
  for every announced frame size, a number of loop rounds linear in the lengths is enough; the
  card's application is called on the complete APDU, the response buffer holds the complete
  response, and card and reader end in step, ready for the next APDU. The length reported is
  that of the response when its status word, and neither the two bytes before it nor the
  card's check bytes, look like a status word.
\<close>

theorem apdu_delivered:
  fixes rsp h i clock
  assumes s: "in_session h i b s" and b: "block_number b" and c: "pc_collected c = []" "pc_block c = b XOR 1"
    and a: "0 < n" "n \<le> length a" "n \<le> 65535"
    and frags: "rsp (take n a) = f # fs" "\<forall>x \<in> set (f # fs). length x \<le> 508" "concat (f # fs) = resp" "2 \<le> length resp"
    and r: "length resp + 2 \<le> cap" "cap \<le> length r" "cap \<le> 65535"
    and fuel: "2 * n + length (f # fs) \<le> fuel"
  shows "\<exists>c' s' b' tail got. reader_security_key_send_apdu_timeout_ex fuel (picc_radio rsp h i clock) (c, s) (Some a) n
      (Some r) cap ms False = Some (Some ((c', s'), Some (patch r 0 (resp @ tail)), Some got)) \<and> length tail = 2 \<and>
    in_session h i b' s' \<and> block_number b' \<and> pc_collected c' = [] \<and> pc_block c' = b' XOR 1 \<and>
    (status_like resp (length resp - 2) \<and> \<not> status_like tail 0 \<and> (4 \<le> length resp \<longrightarrow> \<not> status_like resp (length resp - 4)) \<longrightarrow>
      got = length resp)"
proof -
  have rc: "length (concat (f # fs)) + 2 \<le> cap" using r(1) frags(3) by simp
  obtain c' s' b' tail where 1: "length tail = 2" "in_session h i b' s'" "block_number b'"
    "pc_collected c' = []" "pc_block c' = b' XOR 1"
    "reader_security_key_send_i_block fuel (picc_radio rsp h i clock) (c, s) (Some a) n (Some r) cap ms =
      Some (Some ((c', s'), Some (patch r 0 (resp @ tail)), Some (length resp + 2)))"
    using send_i_block_transfer [where rsp = rsp and clock = clock and ms = ms, OF s b c a frags(1,2) rc r(2,3) fuel]
    unfolding frags(3) by blast
  define r' where "r' = patch r 0 (resp @ tail)"
  have pos: "0 < fuel" using a fuel by simp
  have lr: "length resp + 2 \<le> length r'" "length resp + 2 \<le> 65535" using r 1(1) by (simp_all add: r'_def)
  obtain k1 where k1: "reader_iso_dep_trim_crc_suffix (Some r') (length resp + 2) = Some k1"
    using trim_yields [OF lr] by (auto simp: yields_def)
  then have k1b: "2 \<le> k1" "k1 \<le> length resp + 2" using trim_at_least [OF k1 _ lr] by simp_all
  have lr1: "k1 \<le> length r'" "k1 \<le> 65535" using k1b lr by linarith+
  obtain k2 where k2: "reader_iso_dep_trim_crc_suffix (Some r') k1 = Some k2"
    using trim_yields [OF lr1] by (auto simp: yields_def)
  have res: "reader_security_key_send_apdu_timeout_ex fuel (picc_radio rsp h i clock) (c, s) (Some a) n
      (Some r) cap ms False = Some (Some ((c', s'), Some r', Some k2))"
    using send_apdu_plain [OF 1(6) [folded r'_def] k1 k2] k1b lr lr1 pos by simp
  obtain t1 t2 where tail: "tail = [t1, t2]" using 1(1) by (cases tail; cases "tl tail") auto
  have rr: "r' = resp @ [t1, t2] @ drop (length resp + 2) r" using r by (simp add: r'_def patch_def tail add_2_eq_Suc')
  have plain: "k2 = length resp"
    if p: "status_like resp (length resp - 2)" "\<not> status_like tail 0" "4 \<le> length resp \<longrightarrow> \<not> status_like resp (length resp - 4)"
  proof -
    define L where "L = length resp"
    have L: "2 \<le> L" using frags(4) by (simp add: L_def)
    have low: "r' ! j = resp ! j" if "j < L" for j using that by (simp add: rr L_def nth_append)
    have hi: "r' ! L = t1" "r' ! (L + 1) = t2" by (simp_all add: rr L_def nth_append)
    have i1: "L + 2 - 4 = L - 2" "L + 2 - 3 = L - 1" "L + 2 - 2 = L" "L + 2 - 1 = L + 1" "L - 2 + 1 = L - 1" using L by simp_all
    have t: "reader_iso_dep_sw16_confidence (resp ! (L - 2)) (resp ! (L - 1)) \<noteq> 0" "reader_iso_dep_sw16_confidence t1 t2 = 0"
      using p(1,2) i1(5) by (simp_all add: status_like_def tail L_def [symmetric])
    have "trims (r' ! (L + 2 - 4)) (r' ! (L + 2 - 3)) (r' ! (L + 2 - 2)) (r' ! (L + 2 - 1))"
      unfolding i1 hi using low [of "L - 2"] low [of "L - 1"] L t by (simp add: trims_def)
    then have "k1 = L" using k1 trim_eq [of "L + 2" r'] lr L by (simp add: L_def [symmetric])
    moreover have "\<not> trims (r' ! (L - 4)) (r' ! (L - 3)) t1' t2'" if "4 \<le> L" for t1' t2'
    proof -
      have "L - 4 + 1 = L - 3" using that by simp
      then have "reader_iso_dep_sw16_confidence (resp ! (L - 4)) (resp ! (L - 3)) = 0"
        using p(3) that by (simp add: status_like_def L_def [symmetric])
      then show ?thesis
        using low [of "L - 4"] low [of "L - 3"] that
        by (auto simp: trims_def reader_iso_dep_sw16_confidence_def split: if_splits)
    qed
    ultimately show ?thesis using k2 trim_eq [of L r'] lr by (auto simp: L_def [symmetric] split: if_splits)
  qed
  show ?thesis
    using res 1(1-5) plain unfolding r'_def by blast
qed

theorem apdu_delivered_witness:
  "\<exists>c' s' b' tail got. reader_security_key_send_apdu_timeout_ex 9
      (picc_radio (\<lambda>_. [[0x01], [0x90, 0x00]]) False 0 (\<lambda>c. 0)) (\<lparr>pc_collected = [], pc_pending = [], pc_block = 0 XOR 1\<rparr>, fresh_iso_dep)
      (Some [0x00, 0xB0]) 2 (Some [0, 0, 0, 0, 0]) 5 1000 False = Some (Some ((c', s'), Some (patch [0, 0, 0, 0, 0] 0 ([0x01, 0x90, 0x00] @ tail)), Some got)) \<and>
    length tail = 2 \<and> in_session False 0 b' s' \<and> block_number b' \<and> pc_collected c' = [] \<and> pc_block c' = b' XOR 1 \<and>
    (status_like [0x01, 0x90, 0x00] (length [0x01 :: u8, 0x90, 0x00] - 2) \<and> \<not> status_like tail 0 \<and>
      (4 \<le> length [0x01 :: u8, 0x90, 0x00] \<longrightarrow> \<not> status_like [0x01, 0x90, 0x00] (length [0x01 :: u8, 0x90, 0x00] - 4)) \<longrightarrow>
      got = length [0x01 :: u8, 0x90, 0x00])"
proof (rule apdu_delivered [where f = "[0x01]" and fs = "[[0x90, 0x00]]" and b = 0])
  show "in_session False 0 0 fresh_iso_dep"
    using fresh_iso_dep_inv by (simp add: in_session_def fresh_iso_dep_def)
qed simp_all

section \<open>A card that never ends\<close>

text \<open>
  It acknowledges the fragments of a command, and answers everything else with a chained
  I-block without data, its block number toggling as it should.
\<close>

definition endless_answer :: "bool \<Rightarrow> u8 \<Rightarrow> u8 \<Rightarrow> bytes \<Rightarrow> bytes" where
  "endless_answer has_cid cid blk tx =
     (if tx ! 0 AND 0xD0 = 0x10 then picc_r_ack has_cid cid blk else picc_i_block has_cid cid blk True [])"

text \<open>
  A radio with such a card in the field, whatever its clock says and the host asks for: \<open>blk\<close>
  reads the block number of the card's last answer off the state of the world.
\<close>

definition answers_endlessly :: "bool \<Rightarrow> u8 \<Rightarrow> 'c radio \<Rightarrow> ('c \<Rightarrow> u8) \<Rightarrow> bool" where
  "answers_endlessly has_cid cid R blk \<longleftrightarrow>
     (\<forall>c tx m crc ms. blk (fst (rf_transceive R c tx m crc ms)) = blk c XOR 1 \<and>
        snd (rf_transceive R c tx m crc ms) = endless_answer has_cid cid (blk c XOR 1) tx) \<and>
     (\<forall>c. blk (fst (hal_millis R c)) = blk c) \<and> (\<forall>c. blk (ccid_time_extension R c) = blk c)"

lemma heartbeat_endless:
  assumes "answers_endlessly h i R blk" and "in_session h i b s"
  shows "\<exists>c' s'. reader_security_key_iso_dep_ccid_heartbeat R (c, s) = (c', s') \<and> in_session h i b s' \<and> blk c' = blk c"
  using assms
  by (cases "hal_millis R c") (auto simp: reader_security_key_iso_dep_ccid_heartbeat_def answers_endlessly_def dest: spec [of _ c])

lemma transceive_endless:
  assumes R: "answers_endlessly h i R blk" and s: "in_session h i b s" and n: "n \<le> length t"
  shows "\<exists>c' s'. reader_security_key_iso_dep_transceive R (c, s) (Some t) n m True ms =
    Some ((c', s'), endless_answer h i (blk c XOR 1) (take n t)) \<and> in_session h i b s' \<and> blk c' = blk c XOR 1"
proof -
  obtain c1 s1 where 1: "reader_security_key_iso_dep_ccid_heartbeat R (c, s) = (c1, s1)" "in_session h i b s1" "blk c1 = blk c"
    using heartbeat_endless [OF R s] by blast
  obtain c2 where 2: "rf_transceive R c1 (take n t) m True ms = (c2, endless_answer h i (blk c XOR 1) (take n t))"
      "blk c2 = blk c XOR 1"
    using R 1(3) unfolding answers_endlessly_def by (metis prod.collapse)
  obtain c3 s3 where 3: "reader_security_key_iso_dep_ccid_heartbeat R (c2, s1) = (c3, s3)" "in_session h i b s3" "blk c3 = blk c2"
    using heartbeat_endless [OF R 1(2)] by blast
  show ?thesis using n 1 2 3 by (simp add: reader_security_key_iso_dep_transceive_def)
qed

text \<open>The command goes out in full, however many fragments it has.\<close>

lemma endless_send:
  assumes R: "answers_endlessly h i R blk" and a: "ic_apdu k = Some a" "ic_apdu_len k = n" "n \<le> length a" "n \<le> 65535"
    and q: "0 < ic_frag_cap k" "ic_frag_cap k \<le> 48" and nad: "\<not> ic_add_nad k"
  shows "in_session h i b s \<Longrightarrow> block_number b \<Longrightarrow> blk c = b XOR 1 \<Longrightarrow> off < n \<Longrightarrow>
    \<exists>m c' s' b'. in_session h i b' s' \<and> block_number b' \<and> blk c' = b' \<and>
      reaches (send_i_block_step R k) m (Frag (c, s) off rx) (Recv (c', s') (ic_resp k) 0 b' (picc_i_block h i b' True []))"
proof (induction "n - off" arbitrary: off b s c rx rule: less_induct)
  case less
  note sess = less.prems(1) and b = less.prems(2) and blk = less.prems(3) and off = less.prems(4)
  define q where "q = ic_frag_cap k"
  define frag where "frag = take (min q (n - off)) (drop off a)"
  define ch where "ch = (q < n - off)"
  define r where "r = (if ch then picc_r_ack h i b else picc_i_block h i b True [])"
  have q': "ic_frag_cap k = q" "0 < q" "q \<le> 48" using q by (simp_all add: q_def)
  have "sent_pcb b h False ch AND 0xD0 = 0x10 \<longleftrightarrow> ch" using b by (auto simp: sent_pcb_def)
  then have ans: "endless_answer h i b (sent_i_block b h i False 1 ch frag) = r"
    by (simp add: endless_answer_def sent_i_block_def r_def)
  have bb: "blk c XOR 1 = b" using blk b by auto
  have r: "r \<noteq> []" using r_ack_seen(1) [OF b] i_block_not_empty by (simp add: r_def)
  have answered: "\<exists>c' s'. reader_security_key_iso_dep_transceive R (c, s0) (Some t) m 512 True (ic_link_timeout_ms k) =
      Some ((c', s'), r) \<and> in_session h i b s' \<and> blk c' = b"
    if "in_session h i b s0" "m \<le> length t" "take m t = sent_i_block b h i False 1 ch frag" for s0 t m
    using transceive_endless [OF R that(1,2), where c = c and m = 512 and ms = "ic_link_timeout_ms k"]
    unfolding that(3) bb ans by blast
  obtain c1 s1 info where 1: "blk c1 = b" "in_session h i b s1" "itx_frag_len info = length frag"
      "frag_step R k (c, s) off rx =
        Some (Again (if ch then Chain (c1, s1) off info b r 0 else Recv (c1, s1) (ic_resp k) 0 b r))"
    using frag_frame_answered [OF sess b a q' nad off ch_def frag_def answered r] by blast
  show ?case
  proof (cases ch)
    case True
    then have lt: "q < n - off" by (simp add: ch_def)
    have fr: "length frag = q" using lt a(3) by (simp add: frag_def)
    have len: "off + itx_frag_len info < 65536" using 1(3) fr lt a(4) by simp
    define s2 where "s2 = s1\<lparr>id_block_num := b XOR 1\<rparr>"
    have 2: "chain_step R k (c1, s1) off info b r 0 = Some (Again (Frag (c1, s2) (off + q) r))"
      using chain_ack [OF 1(2) b len, of R k c1] True by (simp only: r_def if_True s2_def 1(3) fr)
    have prem: "n - (off + q) < n - off" "in_session h i (b XOR 1) s2" "block_number (b XOR 1)"
        "blk c1 = (b XOR 1) XOR 1" "off + q < n"
      using lt q'(2) in_session_block [OF 1(2)] b 1(1) by (simp_all add: s2_def)
    obtain m c' s' b' where m: "in_session h i b' s'" "block_number b'" "blk c' = b'"
        "reaches (send_i_block_step R k) m (Frag (c1, s2) (off + q) r)
          (Recv (c', s') (ic_resp k) 0 b' (picc_i_block h i b' True []))"
      using less.hyps [OF prem] by blast
    have "reaches (send_i_block_step R k) (Suc (Suc m)) (Frag (c, s) off rx)
        (Recv (c', s') (ic_resp k) 0 b' (picc_i_block h i b' True []))"
      by (rule reaches_Again [where s' = "Chain (c1, s1) off info b r 0"],
          simp add: send_i_block_step_def 1(4) True,
          rule reaches_Again [where s' = "Frag (c1, s2) (off + q) r"],
          simp add: send_i_block_step_def 2, rule m(4))
    with m(1-3) show ?thesis by blast
  next
    case False
    have "reaches (send_i_block_step R k) (Suc 0) (Frag (c, s) off rx)
        (Recv (c1, s1) (ic_resp k) 0 b (picc_i_block h i b True []))"
      by (rule reaches_Again [OF _ reaches_refl]) (use False in \<open>simp add: send_i_block_step_def 1(4) r_def\<close>)
    with 1(1,2) b show ?thesis by blast
  qed
qed

text \<open>The receive loop then goes round for ever.\<close>

lemma endless_recv:
  assumes R: "answers_endlessly h i R blk" and cap: "ic_resp_len k \<le> 65535" "ic_resp_len k \<le> length r"
  shows "in_session h i b0 s \<Longrightarrow> block_number b \<Longrightarrow> blk c = b \<Longrightarrow>
    run_steps (send_i_block_step R k) n (Recv (c, s) (Some r) 0 b (picc_i_block h i b True [])) = Some None"
proof (induction n arbitrary: c s b)
  case (Suc n)
  note b = Suc.prems(2)
  note bits = picc_pcb_bits [OF b, of h True]
  have f: "length ([] :: bytes) \<le> 508" by simp
  define s1 where "s1 = s\<lparr>id_last_inf_off := (if h then 2 else 1)\<rparr>"
  have s1: "in_session h i b0 s1" using Suc.prems(1) by (simp add: s1_def)
  have st: "id_pcb_has_cid s1 = h" "id_cid s1 = i" using s1 by (simp_all add: in_session_def)
  define b' where "b' = b XOR 1"
  have b': "block_number b'" "b' AND 1 = b'" "blk c XOR 1 = b'" using b Suc.prems(3) by (auto simp: b'_def)
  define ack where "ack = ack_pcb h b' # (if h then [i] else [])"
  have append: "reader_iso_dep_append_inf (Some r) (ic_resp_len k) 0 (Some (picc_tail h i b True [])) 0 = Some (True, True, 0, Some r)"
    using cap by (simp add: reader_iso_dep_append_inf_def nero_nfc_try_add_u16_def)
  have four: "replicate 4 (0 :: u8) = [0, 0, 0, 0]" by (simp add: numeral_eq_Suc)
  have "\<exists>t. reader_iso_dep_build_chained_ack (Some (replicate 4 0)) 4 b' h i = Some (True, length ack, Some t) \<and>
      length ack \<le> length t \<and> take (length ack) t = ack"
    by (cases h) (simp_all add: four reader_iso_dep_build_chained_ack_def ack_def ack_pcb_def b'(2) Let_def or.assoc)
  then obtain t where t: "reader_iso_dep_build_chained_ack (Some (replicate 4 0)) 4 b' h i = Some (True, length ack, Some t)"
    "length ack \<le> length t" "take (length ack) t = ack" by blast
  define nx where "nx = picc_i_block h i b' True []"
  have nx: "nx \<noteq> []" unfolding nx_def by (rule i_block_not_empty)
  have "ack_pcb h b' AND 0xD0 \<noteq> 0x10" using b'(1) by (auto simp: ack_pcb_def)
  then have ans: "endless_answer h i b' ack = nx" by (simp add: endless_answer_def ack_def nx_def)
  obtain c' s2 where 2: "reader_security_key_iso_dep_transceive R (c, s1) (Some t) (length ack) 512 True (ic_link_timeout_ms k) =
      Some ((c', s2), nx)" "in_session h i b0 s2" "blk c' = b'"
    using transceive_endless [OF R s1 t(2), where c = c and m = 512 and ms = "ic_link_timeout_ms k"]
    unfolding t(3) b'(3) ans by blast
  obtain s3 where 3: "reader_security_key_iso_dep_snap_raw_rx (Some nx) (length nx) s2 = Some s3" "in_session h i b0 s3"
    using snap_session [OF 2(2)] by blast
  note seen = i_block_seen [OF b f, where h = h and i = i and ch = True, unfolded if_True list.size append_Nil]
  note pick = i_block_pick [OF Suc.prems(1) b f, where ch = True]
  have step: "recv_step R k (c, s) (Some r) 0 b (picc_i_block h i b True []) =
      Some (Again (Recv (c', s3) (Some r) 0 b' nx))"
    unfolding recv_step_def prod.case if_not_P [OF i_block_not_empty] seen(1) bind.bind_lunit Let_def
      if_not_P [OF bits(2)] if_P [OF bits(1)] pick seen(2,3) ptr_add_Some seen(4) append
    using bits(3) by (simp add: s1_def [symmetric] st b'_def [symmetric] t(1) 2(1) 3(1) nx)
  show ?case
    using Suc.IH [OF 3(2) b'(1) 2(3)] by (simp add: send_i_block_step_def step nx_def)
qed simp

lemma run_steps_less:
  "run_steps f n s = Some None \<Longrightarrow> n' \<le> n \<Longrightarrow> run_steps f n' s = Some None"
proof (induction n arbitrary: n' s)
  case (Suc n)
  then show ?case by (cases n') (auto split: bind_splits step.splits)
qed simp

text \<open>
  C10: the receive loop has no bound of its own. Against a card that acknowledges the command
  and then keeps answering with well-formed chained I-blocks without data the call never
  returns: not after any number of rounds, for any command, whatever its time limit and
  whatever the clock says (so also long after the limit has passed), and also when the host
  has asked for an abort: limit and abort are only looked at in waiting-time extensions.
\<close>

theorem endless_chain_never_returns:
  assumes R: "answers_endlessly h i R blk"
    and s: "in_session h i b s" and b: "block_number b" and c: "blk c = b XOR 1"
    and a: "0 < n" "n \<le> length a" "n \<le> 65535" and r: "cap \<le> length r" "cap \<le> 65535"
  shows "\<forall>fuel. reader_security_key_send_i_block fuel R (c, s) (Some a) n (Some r) cap ms = Some None"
proof
  fix fuel
  have st: "id_pcb_has_cid s = h" "16 \<le> id_pic_frame_max s" "\<not> reader_security_key_iso_dep_tx_include_nad s"
    using s by (auto simp: in_session_def iso_inv_def reader_security_key_iso_dep_tx_include_nad_def)
  define hl where "hl = reader_security_key_iso_dep_tx_hdr_len s False"
  have hl: "1 \<le> hl" "hl \<le> 2"
    by (simp_all add: hl_def reader_security_key_iso_dep_tx_hdr_len_def reader_iso_dep_i_block_tx_hdr_len_def)
  define q where "q = reader_security_key_iso_dep_apdu_chunk_budget s hl"
  have q: "0 < q" "q \<le> 48" using st(2) hl
    by (simp_all add: q_def reader_security_key_iso_dep_apdu_chunk_budget_def reader_iso_dep_apdu_chunk_budget_def Let_def)
  obtain c0 now where c0: "hal_millis R c = (c0, now)" by fastforce
  then have blk0: "blk c0 = b XOR 1" using R c unfolding answers_endlessly_def by (metis fst_conv)
  define k where "k = \<lparr>ic_apdu = Some a, ic_apdu_len = n, ic_resp = Some r, ic_resp_len = cap,
     ic_frame_timeout_ms = ms, ic_start_ms = now, ic_add_nad = False, ic_frag_cap = q,
     ic_link_timeout_ms = reader_security_key_iso_dep_link_response_timeout_ms s\<rparr>"
  have call: "reader_security_key_send_i_block fuel R (c, s) (Some a) n (Some r) cap ms =
      run_steps (send_i_block_step R k) fuel (Frag (c0, s) 0 [])"
    using q(1) hl(1) st(3)
    by (simp add: reader_security_key_send_i_block_def c0 reader_security_key_iso_dep_tx_add_nad_def
        hl_def [symmetric] q_def [symmetric] k_def Let_def)
  have k: "ic_apdu k = Some a" "ic_apdu_len k = n" "0 < ic_frag_cap k" "ic_frag_cap k \<le> 48" "\<not> ic_add_nad k"
    "ic_resp k = Some r" "ic_resp_len k \<le> 65535" "ic_resp_len k \<le> length r" using q r by (simp_all add: k_def)
  obtain m c1 s1 b1 where 1: "in_session h i b1 s1" "block_number b1" "blk c1 = b1"
      "reaches (send_i_block_step R k) m (Frag (c0, s) 0 []) (Recv (c1, s1) (Some r) 0 b1 (picc_i_block h i b1 True []))"
    using endless_send [OF R k(1,2) a(2,3) k(3-5) s b blk0 a(1), of "[]"] unfolding k(6) by blast
  have "run_steps (send_i_block_step R k) (m + fuel) (Frag (c0, s) 0 []) = Some None"
    using 1(4) endless_recv [OF R k(7,8) 1(1-3), of fuel] unfolding reaches_def by simp
  then show "reader_security_key_send_i_block fuel R (c, s) (Some a) n (Some r) cap ms = Some None"
    unfolding call by (rule run_steps_less) simp
qed

text \<open>Such a radio, with a clock that advances by \<open>d\<close> milliseconds in every exchange.\<close>

definition endless_radio :: "nat \<Rightarrow> (u8 \<times> nat) radio" where
  "endless_radio d = \<lparr>
     rf_transceive = (\<lambda>(blk, now) tx m crc ms. ((blk XOR 1, now + d), endless_answer False 0 (blk XOR 1) tx)),
     rf_transceive14 = (\<lambda>c tx m crc ms a p. (c, [])), rf_wupa = (\<lambda>c. (c, False)), rf_configure = (\<lambda>c. c),
     hal_millis = (\<lambda>(blk, now). ((blk, now), now)), hal_delay_ms = (\<lambda>(blk, now) n. (blk, now + n)),
     ccid_abort_pending = (\<lambda>c. (c, True)), ccid_time_extension = (\<lambda>c. c)\<rparr>"

lemma endless_radio_answers: "answers_endlessly False 0 (endless_radio d) fst"
  by (simp add: answers_endlessly_def endless_radio_def split_beta)

text \<open>Its clock is past a limit of 1000 ms after the first exchange, and the call goes on.\<close>

theorem endless_chain_never_returns_witness:
  "snd (hal_millis (endless_radio 2000) (fst (rf_transceive (endless_radio 2000) (1, 0) [0x02, 0x00, 0xB0] 512 True 50))) = 2000 \<and>
   (\<forall>fuel. reader_security_key_send_i_block fuel (endless_radio 2000) ((1, 0), fresh_iso_dep) (Some [0x00, 0xB0]) 2
      (Some [0, 0, 0, 0]) 4 1000 = Some None)"
proof
  show "snd (hal_millis (endless_radio 2000) (fst (rf_transceive (endless_radio 2000) (1, 0) [0x02, 0x00, 0xB0] 512 True 50))) = 2000"
    by (simp add: endless_radio_def)
  show "\<forall>fuel. reader_security_key_send_i_block fuel (endless_radio 2000) ((1, 0), fresh_iso_dep) (Some [0x00, 0xB0]) 2
      (Some [0, 0, 0, 0]) 4 1000 = Some None"
  proof (rule endless_chain_never_returns [OF endless_radio_answers])
    show "in_session False 0 0 fresh_iso_dep"
      using fresh_iso_dep_inv by (simp add: in_session_def fresh_iso_dep_def)
  qed simp_all
qed

end
