(* ===== verification/NdefTlv.thy ===== *)
theory NdefTlv
  imports MemUtil
begin

text \<open>
  The NDEF TLV walker and builder of \<^verbatim>\<open>nfc_ndef_tlv.h\<close>: Type 2 and Type 5 tags store an
  NDEF message inside a type-length-value block whose length field has one or three bytes,
  among null and terminator blocks.
\<close>

datatype tlv_status = TLV_OK | TLV_NOT_FOUND | TLV_TRUNCATED | TLV_INVALID_ARG | TLV_TOO_LARGE

record tlv =
  tlv_type :: u8
  header_offset :: nat
  value_offset :: nat
  value_len :: nat

definition zero_tlv :: tlv where
  "zero_tlv = \<lparr>tlv_type = 0, header_offset = 0, value_offset = 0, value_len = 0\<rparr>"

definition nfc_ndef_tlv_envelope_len :: "nat \<Rightarrow> nat" where
  "nfc_ndef_tlv_envelope_len ndef_len = ndef_len + (if ndef_len < 255 then 3 else 5)"

definition nfc_ndef_tlv_max_payload_for_data_area :: "nat \<Rightarrow> nat" where
  "nfc_ndef_tlv_max_payload_for_data_area data_area_size =
     (if data_area_size \<le> 3 then 0
      else if data_area_size \<le> 254 then data_area_size - 3
      else data_area_size - 5)"

subsection \<open>Walking\<close>

text \<open>
  The tail of one iteration: the length is known, \<open>pos\<close> is the value's offset. The narrowing
  of \<open>value_end\<close> to \<open>uint16_t\<close> is the identity, since \<open>value_end \<le> data_len\<close>.
\<close>

definition tlv_emit :: "nat \<Rightarrow> u8 \<Rightarrow> nat \<Rightarrow> nat \<Rightarrow> nat \<Rightarrow> (tlv_status \<times> tlv \<times> nat) option" where
  "tlv_emit data_len ty tlv_start pos len =
     (case nero_nfc_try_add_size pos len of
        None \<Rightarrow> Some (TLV_TRUNCATED, zero_tlv, 0)
      | Some value_end \<Rightarrow>
          if value_end > data_len then Some (TLV_TRUNCATED, zero_tlv, 0)
          else Some (TLV_OK, \<lparr>tlv_type = ty, header_offset = tlv_start, value_offset = pos,
                       value_len = len\<rparr>, value_end))"

function tlv_next_loop :: "cptr \<Rightarrow> nat \<Rightarrow> nat \<Rightarrow> (tlv_status \<times> tlv \<times> nat) option" where
  "tlv_next_loop data data_len pos =
     (if pos < data_len then do {
        ty \<leftarrow> rd data pos;
        if ty = 0x00 then tlv_next_loop data data_len (pos + 1)
        else if ty = 0xFE then Some (TLV_NOT_FOUND, zero_tlv, pos + 1)
        else if pos + 1 \<ge> data_len then Some (TLV_TRUNCATED, zero_tlv, 0)
        else do {
          l \<leftarrow> rd data (pos + 1);
          if l = 0xFF then
            (if \<not> nero_nfc_span_ok (pos + 1) 3 data_len then Some (TLV_TRUNCATED, zero_tlv, 0)
             else do {
               msb \<leftarrow> rd data (pos + 1 + 1);
               lsb \<leftarrow> rd data (pos + 1 + 2);
               tlv_emit data_len ty pos (pos + 1 + 3) (be16 msb lsb)
             })
          else tlv_emit data_len ty pos (pos + 2) (unat l)
        }
      } else Some (TLV_NOT_FOUND, zero_tlv, pos))"
  by pat_completeness auto
termination
  by (relation "measure (\<lambda>(data, data_len, pos). data_len - pos)") auto

declare tlv_next_loop.simps [simp del]

definition nfc_ndef_tlv_next :: "cptr \<Rightarrow> nat \<Rightarrow> nat \<Rightarrow> (tlv_status \<times> tlv \<times> nat) option" where
  "nfc_ndef_tlv_next data data_len start_offset =
     (if data = None \<or> start_offset > data_len then Some (TLV_INVALID_ARG, zero_tlv, 0)
      else tlv_next_loop data data_len start_offset)"

text \<open>What a successful step promises: the block lies inside the data and is not empty.\<close>

definition tlv_within :: "nat \<Rightarrow> nat \<Rightarrow> tlv \<Rightarrow> nat \<Rightarrow> bool" where
  "tlv_within data_len pos t nxt \<longleftrightarrow>
     tlv_type t \<noteq> 0 \<and> tlv_type t \<noteq> 0xFE \<and>
     pos \<le> header_offset t \<and> header_offset t + 2 \<le> value_offset t \<and>
     value_offset t \<le> header_offset t + 4 \<and>
     value_offset t + value_len t = nxt \<and> nxt \<le> data_len \<and> value_len t < 65536"

lemma tlv_emit_cases:
  "\<exists>s t n. tlv_emit dl ty st pos len = Some (s, t, n) \<and>
     (s = TLV_OK \<and> pos + len \<le> dl \<and> n = pos + len \<and>
        t = \<lparr>tlv_type = ty, header_offset = st, value_offset = pos, value_len = len\<rparr> \<or>
      s = TLV_TRUNCATED \<and> t = zero_tlv \<and> n = 0)"
  by (auto simp: tlv_emit_def nero_nfc_try_add_size_def)

text \<open>One equation per way an iteration ends, the rules every proof about the walker uses.\<close>

lemma tlv_next_loop_end: "dl \<le> pos \<Longrightarrow> tlv_next_loop data dl pos = Some (TLV_NOT_FOUND, zero_tlv, pos)"
  by (subst tlv_next_loop.simps) simp

lemma tlv_next_loop_null:
  "pos < dl \<Longrightarrow> pos < length bs \<Longrightarrow> bs ! pos = 0 \<Longrightarrow>
    tlv_next_loop (Some bs) dl pos = tlv_next_loop (Some bs) dl (pos + 1)"
  by (subst tlv_next_loop.simps) simp

lemma tlv_next_loop_terminator:
  "pos < dl \<Longrightarrow> pos < length bs \<Longrightarrow> bs ! pos = 0xFE \<Longrightarrow>
    tlv_next_loop (Some bs) dl pos = Some (TLV_NOT_FOUND, zero_tlv, pos + 1)"
  by (subst tlv_next_loop.simps) simp

lemma tlv_next_loop_no_length:
  "pos < dl \<Longrightarrow> pos < length bs \<Longrightarrow> bs ! pos \<noteq> 0 \<Longrightarrow> bs ! pos \<noteq> 0xFE \<Longrightarrow> dl \<le> pos + 1 \<Longrightarrow>
    tlv_next_loop (Some bs) dl pos = Some (TLV_TRUNCATED, zero_tlv, 0)"
  by (subst tlv_next_loop.simps) simp

lemma tlv_next_loop_short:
  "pos + 1 < dl \<Longrightarrow> dl \<le> length bs \<Longrightarrow> bs ! pos \<noteq> 0 \<Longrightarrow> bs ! pos \<noteq> 0xFE \<Longrightarrow>
    bs ! (pos + 1) \<noteq> 0xFF \<Longrightarrow>
    tlv_next_loop (Some bs) dl pos =
      tlv_emit dl (bs ! pos) pos (pos + 2) (unat (bs ! (pos + 1)))"
  by (subst tlv_next_loop.simps) simp

lemma tlv_next_loop_extended:
  "pos + 1 < dl \<Longrightarrow> dl \<le> length bs \<Longrightarrow> dl \<le> UINT16_MAX \<Longrightarrow> bs ! pos \<noteq> 0 \<Longrightarrow> bs ! pos \<noteq> 0xFE \<Longrightarrow>
    bs ! (pos + 1) = 0xFF \<Longrightarrow>
    tlv_next_loop (Some bs) dl pos =
      (if dl < pos + 4 then Some (TLV_TRUNCATED, zero_tlv, 0)
       else tlv_emit dl (bs ! pos) pos (pos + 4) (be16 (bs ! (pos + 2)) (bs ! (pos + 3))))"
  by (subst tlv_next_loop.simps) (simp del: One_nat_def add: add.assoc)

lemmas tlv_next_loop_eqs =
  tlv_next_loop_end tlv_next_loop_null tlv_next_loop_terminator tlv_next_loop_no_length
  tlv_next_loop_short tlv_next_loop_extended

lemma tlv_emit_safe:
  assumes "ty \<noteq> 0" "ty \<noteq> 0xFE" "st + 2 \<le> vo" "vo \<le> st + 4" "len < 65536"
  shows "\<exists>s t n. tlv_emit dl ty st vo len = Some (s, t, n) \<and> n \<le> dl \<and>
    s \<in> {TLV_OK, TLV_NOT_FOUND, TLV_TRUNCATED} \<and>
    (s = TLV_OK \<longrightarrow> tlv_within dl st t n) \<and> (s \<noteq> TLV_OK \<longrightarrow> t = zero_tlv)"
  using tlv_emit_cases [of dl ty st vo len] assms by (auto simp: tlv_within_def)

lemma tlv_within_mono: "tlv_within dl pos t n \<Longrightarrow> p \<le> pos \<Longrightarrow> tlv_within dl p t n"
  by (auto simp: tlv_within_def)

lemma tlv_next_loop_safe:
  assumes "dl \<le> length bs" and "pos \<le> dl" and "dl \<le> UINT16_MAX"
  shows "\<exists>s t n. tlv_next_loop (Some bs) dl pos = Some (s, t, n) \<and> n \<le> dl \<and>
    s \<in> {TLV_OK, TLV_NOT_FOUND, TLV_TRUNCATED} \<and>
    (s = TLV_OK \<longrightarrow> tlv_within dl pos t n) \<and> (s \<noteq> TLV_OK \<longrightarrow> t = zero_tlv)"
  using assms
proof (induction "Some bs" dl pos rule: tlv_next_loop.induct)
  case (1 dl pos)
  consider (fin) "pos = dl" | (null) "pos < dl" "bs ! pos = 0"
    | (end_block) "pos < dl" "bs ! pos = 0xFE"
    | (nolen) "pos + 1 = dl" "bs ! pos \<noteq> 0" "bs ! pos \<noteq> 0xFE"
    | (block) "pos + 1 < dl" "bs ! pos \<noteq> 0" "bs ! pos \<noteq> 0xFE"
    using "1.prems"(2) by linarith
  then show ?case
  proof cases
    case null
    have "\<exists>s t n. tlv_next_loop (Some bs) dl (pos + 1) = Some (s, t, n) \<and> n \<le> dl \<and>
        s \<in> {TLV_OK, TLV_NOT_FOUND, TLV_TRUNCATED} \<and>
        (s = TLV_OK \<longrightarrow> tlv_within dl (pos + 1) t n) \<and> (s \<noteq> TLV_OK \<longrightarrow> t = zero_tlv)"
      using "1.hyps" [OF null(1) _ null(2)] null "1.prems" by simp
    then show ?thesis
      using null "1.prems" tlv_within_mono [of dl "pos + 1" _ _ pos]
      by (simp add: tlv_next_loop_null) blast
  next
    case block
    then show ?thesis
      using "1.prems" tlv_emit_safe [of "bs ! pos" pos "pos + 2" "unat (bs ! (pos + 1))" dl]
        tlv_emit_safe [of "bs ! pos" pos "pos + 4" "be16 (bs ! (pos + 2)) (bs ! (pos + 3))" dl]
      by (cases "bs ! (pos + 1) = 0xFF") (simp_all add: tlv_next_loop_short tlv_next_loop_extended)
  qed (use "1.prems" in \<open>simp_all add: tlv_next_loop_eqs\<close>)
qed

lemma tlv_next_safe:
  assumes "valid data dl" and "dl \<le> UINT16_MAX" and "pos \<le> dl"
  shows "\<exists>s t n. nfc_ndef_tlv_next data dl pos = Some (s, t, n) \<and> n \<le> dl \<and>
    s \<in> {TLV_OK, TLV_NOT_FOUND, TLV_TRUNCATED} \<and>
    (s = TLV_OK \<longrightarrow> tlv_within dl pos t n) \<and> (s \<noteq> TLV_OK \<longrightarrow> t = zero_tlv)"
proof -
  obtain bs where bs: "data = Some bs" "dl \<le> length bs" using assms(1) by (rule validE)
  show ?thesis
    using tlv_next_loop_safe [OF bs(2) assms(3,2)] assms(3)
    by (simp add: nfc_ndef_tlv_next_def bs(1))
qed

lemma tlv_next_loop_progress:
  "tlv_next_loop data dl pos = Some (TLV_OK, t, n) \<Longrightarrow> pos < n \<and> n \<le> dl"
proof (induction data dl pos rule: tlv_next_loop.induct)
  case (1 data dl pos)
  from "1.prems" show ?case
    by (subst (asm) tlv_next_loop.simps)
      (auto simp: rd_eq_Some_iff tlv_emit_def try_add_size_eq_Some_iff
        split: if_splits bind_splits option.splits dest: "1.IH")
qed

lemma tlv_next_progress: "nfc_ndef_tlv_next data dl pos = Some (TLV_OK, t, n) \<Longrightarrow> pos < n \<and> n \<le> dl"
  by (auto simp: nfc_ndef_tlv_next_def dest: tlv_next_loop_progress split: if_splits)

subsection \<open>Finding the message\<close>

text \<open>
  The argument \<open>tlv_out\<close> is the caller's structure: a walk that runs off the end leaves the
  last block it saw in it.
\<close>

function find_message_loop :: "cptr \<Rightarrow> nat \<Rightarrow> nat \<Rightarrow> tlv \<Rightarrow> (tlv_status \<times> tlv) option" where
  "find_message_loop data data_len pos tlv_out =
     (if pos < data_len then
        (case nfc_ndef_tlv_next data data_len pos of
           None \<Rightarrow> None
         | Some (status, tlv_out, nxt) \<Rightarrow>
             if status \<noteq> TLV_OK then Some (status, tlv_out)
             else if tlv_type tlv_out = 0x03 then Some (TLV_OK, tlv_out)
             else find_message_loop data data_len nxt tlv_out)
      else Some (TLV_NOT_FOUND, tlv_out))"
  by pat_completeness auto
termination
  by (relation "measure (\<lambda>(data, data_len, pos, t). data_len - pos)")
    (auto dest: tlv_next_progress)

declare find_message_loop.simps [simp del]

definition nfc_ndef_find_message_tlv :: "cptr \<Rightarrow> nat \<Rightarrow> nat \<Rightarrow> (tlv_status \<times> tlv) option" where
  "nfc_ndef_find_message_tlv data data_len start_offset =
     (if data = None \<or> start_offset > data_len then Some (TLV_INVALID_ARG, zero_tlv)
      else find_message_loop data data_len start_offset zero_tlv)"

lemma find_message_loop_safe:
  assumes "valid data dl" and "dl \<le> UINT16_MAX" and "pos \<le> dl"
  shows "\<exists>s u. find_message_loop data dl pos t = Some (s, u) \<and>
    (s = TLV_OK \<longrightarrow> tlv_type u = 3 \<and> (\<exists>n. tlv_within dl pos u n))"
  using assms
proof (induction data dl pos t rule: find_message_loop.induct)
  case (1 data dl pos t)
  obtain s u n where next_eq: "nfc_ndef_tlv_next data dl pos = Some (s, u, n)"
    and n: "n \<le> dl" and u: "s = TLV_OK \<longrightarrow> tlv_within dl pos u n"
    using tlv_next_safe [OF "1.prems"(1,2,3)] by blast
  show ?case
  proof (cases "pos < dl \<and> s = TLV_OK \<and> tlv_type u \<noteq> 3")
    case True
    then have "\<exists>s v. find_message_loop data dl n u = Some (s, v) \<and>
        (s = TLV_OK \<longrightarrow> tlv_type v = 3 \<and> (\<exists>m. tlv_within dl n v m))"
      using "1.IH" [OF _ next_eq] "1.prems" n by simp
    moreover have "pos \<le> n" using tlv_next_progress [of data dl pos u n] next_eq True by auto
    ultimately show ?thesis
      using True next_eq
      by (auto simp: find_message_loop.simps [of data dl pos t] intro: tlv_within_mono)
  next
    case False
    then show ?thesis using next_eq u
      by (auto simp: find_message_loop.simps [of data dl pos t])
  qed
qed

subsection \<open>Building\<close>

definition nfc_ndef_build_message_tlv ::
    "cptr \<Rightarrow> nat \<Rightarrow> cptr \<Rightarrow> nat \<Rightarrow> (bool \<times> cptr \<times> nat) option" where
  "nfc_ndef_build_message_tlv ndef ndef_len out out_cap =
     (let need = nfc_ndef_tlv_envelope_len ndef_len in
      if out = None \<or> (ndef_len \<noteq> 0 \<and> ndef = None) then Some (False, out, 0)
      else if need > out_cap then
        Some (False, out, if need > 0xFFFF then u16n 0xFFFF else u16n need)
      else do {
        out \<leftarrow> wr out 0 0x03;
        (out, pos) \<leftarrow>
          (if ndef_len < 255 then do {
             out \<leftarrow> wr out 1 (byte ndef_len);
             Some (out, 2)
           } else do {
             out \<leftarrow> wr out 1 0xFF;
             out \<leftarrow> wr out 2 (byte (drop_bit 8 ndef_len));
             out \<leftarrow> wr out 3 (byte (ndef_len AND 0xFF));
             Some (out, 4)
           });
        (ok, out) \<leftarrow>
          (if ndef_len \<noteq> 0 then nero_nfc_copy_bytes out out_cap pos ndef ndef_len
           else Some (True, out));
        if \<not> ok then Some (False, out, 0)
        else do {
          out \<leftarrow> wr out (u16n (pos + ndef_len)) 0xFE;
          Some (True, out, u16n (u16n (pos + ndef_len) + 1))
        }
      })"

text \<open>The abstract format: a block is its type, its length field and its value.\<close>

definition tlv_len_field :: "nat \<Rightarrow> bytes" where
  "tlv_len_field n = (if n < 255 then [byte n] else [0xFF, byte (n div 256), byte n])"

definition tlv_block :: "u8 \<Rightarrow> bytes \<Rightarrow> bytes" where
  "tlv_block ty v = ty # tlv_len_field (length v) @ v"

lemma length_tlv_block:
  "length (tlv_block ty v) = nfc_ndef_tlv_envelope_len (length v) - 1"
  by (simp add: tlv_block_def tlv_len_field_def nfc_ndef_tlv_envelope_len_def)

lemma build_message_small:
  assumes "n < 255" "n \<le> length nd" "n + 3 \<le> cap" "cap \<le> length out" "cap \<le> UINT16_MAX"
  shows "\<exists>out'. nfc_ndef_build_message_tlv (Some nd) n (Some out) cap =
      Some (True, Some out', n + 3) \<and> length out' = length out \<and>
      take (n + 3) out' = [3, byte n] @ take n nd @ [0xFE]"
proof -
  let ?h = "out[0 := 3, 1 := byte n]"
  let ?b = "if n = 0 then ?h else patch ?h 2 (take n nd)"
  have h: "take 2 ?h = [3, byte n]" by (rule take_update2) (use assms in simp)
  have "take (2 + n) (patch ?h 2 (take n nd)) = [3, byte n] @ take n nd"
    by (rule take_patch_at [OF h]) (use assms in simp_all)
  with h have b: "take (2 + n) ?b = [3, byte n] @ take n nd" "length ?b = length out"
    using assms by (cases "n = 0", simp_all)+
  have "take (n + 3) (?b[2 + n := 0xFE]) = ([3, byte n] @ take n nd) @ [0xFE]"
    by (rule take_update_at [OF b(1)]) (use b(2) assms in simp_all)
  moreover have "nfc_ndef_build_message_tlv (Some nd) n (Some out) cap =
      Some (True, Some (?b[2 + n := 0xFE]), n + 3)"
    using assms
    by (cases "n = 0") (simp_all add: nfc_ndef_build_message_tlv_def nfc_ndef_tlv_envelope_len_def)
  ultimately show ?thesis using b(2) by auto
qed

lemma build_message_large:
  assumes "255 \<le> n" "n \<le> length nd" "n + 5 \<le> cap" "cap \<le> length out" "cap \<le> UINT16_MAX"
  shows "\<exists>out'. nfc_ndef_build_message_tlv (Some nd) n (Some out) cap =
      Some (True, Some out', n + 5) \<and> length out' = length out \<and>
      take (n + 5) out' = [3, 0xFF, byte (n div 256), byte n] @ take n nd @ [0xFE]"
proof -
  let ?h = "out[0 := 3, 1 := 0xFF, 2 := byte (n div 256), 3 := byte n]"
  let ?b = "patch ?h 4 (take n nd)"
  have h: "take 4 ?h = [3, 0xFF, byte (n div 256), byte n]"
    by (rule take_update4) (use assms in simp)
  have b: "take (4 + n) ?b = [3, 0xFF, byte (n div 256), byte n] @ take n nd"
    by (rule take_patch_at [OF h]) (use assms in simp_all)
  have len: "length ?b = length out" using assms by simp
  have "take (n + 5) (?b[4 + n := 0xFE]) =
      ([3, 0xFF, byte (n div 256), byte n] @ take n nd) @ [0xFE]"
    by (rule take_update_at [OF b]) (use len assms in simp_all)
  moreover have "nfc_ndef_build_message_tlv (Some nd) n (Some out) cap =
      Some (True, Some (?b[4 + n := 0xFE]), n + 5)"
    using assms
    by (simp add: nfc_ndef_build_message_tlv_def nfc_ndef_tlv_envelope_len_def drop_bit_eq_div)
  ultimately show ?thesis using len by auto
qed

lemma build_message_spec:
  assumes "n \<le> length nd" and "nfc_ndef_tlv_envelope_len n \<le> cap"
    and "cap \<le> length out" and "cap \<le> UINT16_MAX"
  shows "\<exists>out'. nfc_ndef_build_message_tlv (Some nd) n (Some out) cap =
      Some (True, Some out', nfc_ndef_tlv_envelope_len n) \<and> length out' = length out \<and>
      take (nfc_ndef_tlv_envelope_len n) out' = tlv_block 3 (take n nd) @ [0xFE]"
  using build_message_small [of n nd cap out] build_message_large [of n nd cap out] assms
  by (cases "n < 255")
    (auto simp: nfc_ndef_tlv_envelope_len_def tlv_block_def tlv_len_field_def)

subsection \<open>The walker against the abstract format\<close>

text \<open>
  A stream is a sequence of blocks, each preceded by some null blocks. On a stream the walker
  takes exactly one block per step, and the search returns the first message block.
\<close>

type_synonym padded_block = "nat \<times> u8 \<times> bytes"

fun tlv_stream :: "padded_block list \<Rightarrow> bytes" where
  "tlv_stream [] = []"
| "tlv_stream ((k, ty, v) # bl) = replicate k 0 @ tlv_block ty v @ tlv_stream bl"

definition block_ok :: "padded_block \<Rightarrow> bool" where
  "block_ok b = (case b of (k, ty, v) \<Rightarrow> ty \<noteq> 0 \<and> ty \<noteq> 0xFE \<and> length v < 65536)"

definition block_tlv :: "nat \<Rightarrow> padded_block \<Rightarrow> tlv" where
  "block_tlv pos b = (case b of (k, ty, v) \<Rightarrow>
     \<lparr>tlv_type = ty, header_offset = pos + k,
      value_offset = pos + k + 1 + length (tlv_len_field (length v)), value_len = length v\<rparr>)"

lemma nth_at_drop: "drop q bs = c \<Longrightarrow> q \<le> length bs \<Longrightarrow> bs ! (q + i) = c ! i"
  by (metis nth_drop)

lemma tlv_next_loop_skip_nulls:
  "\<forall>i<k. bs ! (pos + i) = 0 \<Longrightarrow> pos + k \<le> dl \<Longrightarrow> dl \<le> length bs \<Longrightarrow>
    tlv_next_loop (Some bs) dl pos = tlv_next_loop (Some bs) dl (pos + k)"
proof (induction k arbitrary: pos)
  case 0
  then show ?case by simp
next
  case (Suc k)
  have "tlv_next_loop (Some bs) dl pos = tlv_next_loop (Some bs) dl (pos + 1)"
    by (rule tlv_next_loop_null) (use Suc.prems in \<open>auto dest: spec [of _ 0]\<close>)
  also have "\<dots> = tlv_next_loop (Some bs) dl (pos + 1 + k)"
    by (rule Suc.IH) (use Suc.prems in \<open>auto dest: spec [of _ "Suc _"]\<close>)
  finally show ?case by simp
qed

lemma tlv_next_loop_block:
  assumes d: "drop q bs = tlv_block ty v @ rest" and q: "q + length (tlv_block ty v) \<le> dl"
    and dl: "dl \<le> length bs" "dl \<le> UINT16_MAX" and ty: "ty \<noteq> 0" "ty \<noteq> 0xFE"
  shows "tlv_next_loop (Some bs) dl q =
    Some (TLV_OK, block_tlv q (0, ty, v), q + length (tlv_block ty v))"
proof -
  have n: "length v < 65536" using q dl by (simp add: tlv_block_def)
  have nth: "bs ! (q + i) = (tlv_block ty v @ rest) ! i" for i
    by (rule nth_at_drop [OF d]) (use q dl in simp)
  have b0: "bs ! q = ty" using nth [of 0] by (simp add: tlv_block_def)
  show ?thesis
  proof (cases "length v < 255")
    case True
    then have b1: "bs ! (q + 1) = byte (length v)"
      using nth [of 1] by (simp add: tlv_block_def tlv_len_field_def)
    have "byte (length v) \<noteq> 0xFF" using True by (simp add: byte_eq_numeral_iff)
    with b0 b1 True q dl ty show ?thesis
      by (subst tlv_next_loop_short)
        (simp_all add: tlv_block_def tlv_len_field_def tlv_emit_def block_tlv_def)
  next
    case False
    then have b: "bs ! (q + 1) = 0xFF" "bs ! (q + 2) = byte (length v div 256)"
      "bs ! (q + 3) = byte (length v)"
      using nth [of 1] nth [of 2] nth [of 3] by (simp_all add: tlv_block_def tlv_len_field_def)
    with b0 False q dl ty n show ?thesis
      by (subst tlv_next_loop_extended)
        (simp_all add: tlv_block_def tlv_len_field_def tlv_emit_def block_tlv_def be16_bytes)
  qed
qed

lemma tlv_next_stream:
  assumes d: "drop pos bs = tlv_stream [b] @ rest" and pos: "pos + length (tlv_stream [b]) \<le> dl"
    and dl: "dl \<le> length bs" "dl \<le> UINT16_MAX" and ok: "block_ok b"
  shows "nfc_ndef_tlv_next (Some bs) dl pos =
    Some (TLV_OK, block_tlv pos b, pos + length (tlv_stream [b]))"
proof -
  obtain k ty v where b: "b = (k, ty, v)" by (cases b)
  have nulls: "\<forall>i<k. bs ! (pos + i) = 0"
    using nth_at_drop [OF d] pos dl by (simp add: b nth_append)
  have "drop (pos + k) bs = tlv_block ty v @ rest"
    using arg_cong [OF d, of "drop k"] by (simp add: b add.commute)
  from tlv_next_loop_block [OF this _ dl] pos ok
  have "tlv_next_loop (Some bs) dl (pos + k) =
      Some (TLV_OK, block_tlv (pos + k) (0, ty, v), pos + k + length (tlv_block ty v))"
    by (simp add: b block_ok_def add.assoc)
  moreover have "tlv_next_loop (Some bs) dl pos = tlv_next_loop (Some bs) dl (pos + k)"
    by (rule tlv_next_loop_skip_nulls [OF nulls]) (use pos dl b in simp_all)
  ultimately show ?thesis using pos dl
    by (simp add: nfc_ndef_tlv_next_def b block_tlv_def)
qed

lemma find_message_stream:
  assumes "drop pos bs = tlv_stream bl @ tlv_stream [(k, 3, v)] @ rest"
    and "pos + length (tlv_stream bl) + length (tlv_stream [(k, 3, v)]) \<le> dl"
    and "dl \<le> length bs" "dl \<le> UINT16_MAX"
    and "\<forall>b \<in> set bl. block_ok b \<and> fst (snd b) \<noteq> 3"
  shows "find_message_loop (Some bs) dl pos t =
    Some (TLV_OK, block_tlv (pos + length (tlv_stream bl)) (k, 3, v))"
  using assms
proof (induction bl arbitrary: pos t)
  case Nil
  have "length v < 65536" using Nil.prems(2,4) by (simp add: tlv_block_def)
  then have "nfc_ndef_tlv_next (Some bs) dl pos =
      Some (TLV_OK, block_tlv pos (k, 3, v), pos + length (tlv_stream [(k, 3, v)]))"
    using Nil.prems by (intro tlv_next_stream [where rest = rest]) (simp_all add: block_ok_def)
  moreover have "pos < dl" using Nil.prems(2) by (simp add: tlv_block_def)
  ultimately show ?case by (subst find_message_loop.simps) (simp add: block_tlv_def)
next
  case (Cons b bl)
  have split: "tlv_stream (b # bl) = tlv_stream [b] @ tlv_stream bl" by (cases b) simp
  let ?n = "pos + length (tlv_stream [b])"
  have next_eq: "nfc_ndef_tlv_next (Some bs) dl pos = Some (TLV_OK, block_tlv pos b, ?n)"
    by (rule tlv_next_stream) (use Cons.prems in \<open>simp_all only: split append.assoc\<close>, simp_all)
  have "drop ?n bs = tlv_stream bl @ tlv_stream [(k, 3, v)] @ rest"
    using arg_cong [OF Cons.prems(1), of "drop (length (tlv_stream [b]))"]
    by (simp only: split drop_drop append.assoc add.commute) simp
  then have "find_message_loop (Some bs) dl ?n (block_tlv pos b) =
      Some (TLV_OK, block_tlv (?n + length (tlv_stream bl)) (k, 3, v))"
    using Cons.prems(2-5) by (intro Cons.IH) (simp_all only: split length_append, simp_all)
  moreover have "tlv_type (block_tlv pos b) \<noteq> 3" using Cons.prems(5)
    by (cases b) (auto simp: block_tlv_def)
  moreover have "pos < dl" using Cons.prems(2) by (simp add: tlv_block_def)
  ultimately show ?case using next_eq
    by (subst find_message_loop.simps) (simp add: split add.assoc del: tlv_stream.simps)
qed

lemma block_tlv_value:
  assumes "drop pos bs = tlv_stream [(k, ty, v)] @ rest"
  shows "take (length v) (drop (value_offset (block_tlv pos (k, ty, v))) bs) = v"
proof -
  have "drop (value_offset (block_tlv pos (k, ty, v))) bs =
      drop (k + 1 + length (tlv_len_field (length v))) (drop pos bs)"
    by (simp add: block_tlv_def ac_simps)
  also have "\<dots> = v @ rest" by (simp add: assms tlv_block_def)
  finally show ?thesis by simp
qed

section \<open>Properties\<close>

text \<open>
  on any buffer whose stated length exists, one step of the TLV walker returns without
  touching a byte outside the buffer, moves forward, and on success describes a block whose
  header and value lie inside the buffer, with a type that is neither null nor terminator.
\<close>

theorem tlv_next_sound:
  assumes "valid data data_len" and "data_len \<le> UINT16_MAX" and "pos \<le> data_len"
  shows "\<exists>s t n. nfc_ndef_tlv_next data data_len pos = Some (s, t, n) \<and>
    s \<in> {TLV_OK, TLV_NOT_FOUND, TLV_TRUNCATED} \<and> n \<le> data_len \<and>
    (s = TLV_OK \<longrightarrow> pos < n \<and> tlv_within data_len pos t n)"
  using tlv_next_safe [OF assms] tlv_next_progress [of data data_len pos] by fastforce

theorem tlv_next_sound_witness:
  "\<exists>s t n. nfc_ndef_tlv_next (Some [0, 3, 1, 0xAA, 0xFE]) 5 0 = Some (s, t, n) \<and>
    s \<in> {TLV_OK, TLV_NOT_FOUND, TLV_TRUNCATED} \<and> n \<le> 5 \<and>
    (s = TLV_OK \<longrightarrow> 0 < n \<and> tlv_within 5 0 t n)"
  by (rule tlv_next_sound) simp_all

text \<open>
  C37: on every well-formed sequence of blocks (each after any number of null blocks) whose
  first message block holds \<open>v\<close>, the search reports that block, and the bytes at the
  reported offset are \<open>v\<close>, whatever follows.
\<close>

theorem find_message_tlv_complete:
  assumes "bs = tlv_stream bl @ tlv_stream [(k, 3, v)] @ rest"
    and "length (tlv_stream bl) + length (tlv_stream [(k, 3, v)]) \<le> data_len"
    and "data_len \<le> length bs" and "data_len \<le> UINT16_MAX"
    and "\<forall>b \<in> set bl. block_ok b \<and> fst (snd b) \<noteq> 3"
  shows "\<exists>t. nfc_ndef_find_message_tlv (Some bs) data_len 0 = Some (TLV_OK, t) \<and>
    tlv_type t = 3 \<and> value_len t = length v \<and>
    take (value_len t) (drop (value_offset t) bs) = v"
proof -
  let ?p = "length (tlv_stream bl)"
  have "find_message_loop (Some bs) data_len 0 zero_tlv =
      Some (TLV_OK, block_tlv (0 + ?p) (k, 3, v))"
    by (rule find_message_stream [where rest = rest]) (use assms in \<open>simp_all del: tlv_stream.simps\<close>)
  moreover have "take (length v) (drop (value_offset (block_tlv ?p (k, 3, v))) bs) = v"
    by (rule block_tlv_value [where rest = rest]) (simp add: assms(1) del: tlv_stream.simps)
  ultimately show ?thesis
    by (simp add: nfc_ndef_find_message_tlv_def block_tlv_def)
qed

theorem find_message_tlv_complete_witness:
  "\<exists>t. nfc_ndef_find_message_tlv (Some [0, 1, 2, 7, 8, 0, 3, 1, 9, 0xFE]) 10 0 = Some (TLV_OK, t) \<and>
    tlv_type t = 3 \<and> value_len t = length [9 :: u8] \<and>
    take (value_len t) (drop (value_offset t) [0, 1, 2 :: u8, 7, 8, 0, 3, 1, 9, 0xFE]) = [9]"
  by (rule find_message_tlv_complete [of _ "[(1, 1, [7, 8])]" 1 "[9]" "[0xFE]"])
    (simp_all add: tlv_block_def tlv_len_field_def block_ok_def byte_def)

text \<open>
  C36: a message that fits the data area according to the capacity function is always built,
  and searching the built image gives back exactly the message.
\<close>

theorem build_find_roundtrip:
  assumes "n \<le> length msg" and "n \<le> nfc_ndef_tlv_max_payload_for_data_area area"
    and "3 \<le> area" and "area \<le> length out" and "area \<le> UINT16_MAX"
  shows "\<exists>out' len t. nfc_ndef_build_message_tlv (Some msg) n (Some out) area =
      Some (True, Some out', len) \<and> len \<le> area \<and>
      nfc_ndef_find_message_tlv (Some out') len 0 = Some (TLV_OK, t) \<and>
      value_len t = n \<and> take n (drop (value_offset t) out') = take n msg"
proof -
  let ?len = "nfc_ndef_tlv_envelope_len n"
  have fits: "?len \<le> area" using assms(2,3)
    by (auto simp: nfc_ndef_tlv_envelope_len_def nfc_ndef_tlv_max_payload_for_data_area_def
        split: if_splits)
  obtain out' where b: "nfc_ndef_build_message_tlv (Some msg) n (Some out) area =
      Some (True, Some out', ?len)" and len: "length out' = length out"
    and pre: "take ?len out' = tlv_block 3 (take n msg) @ [0xFE]"
    using build_message_spec [OF assms(1) fits assms(4,5)] by blast
  have stream: "out' = tlv_stream [] @ tlv_stream [(0, 3, take n msg)] @ [0xFE] @ drop ?len out'"
    using append_take_drop_id [of ?len out'] by (simp add: pre)
  have envelope: "length (tlv_stream [(0, 3, take n msg)]) \<le> ?len"
    using assms(1) by (simp add: length_tlv_block min_def)
  have find: "find_message_loop (Some out') ?len 0 zero_tlv =
      Some (TLV_OK, block_tlv (0 + length (tlv_stream [])) (0, 3, take n msg))"
    by (rule find_message_stream [where rest = "[0xFE] @ drop ?len out'"])
      (use stream envelope fits assms len in \<open>simp_all del: tlv_stream.simps(2)\<close>)
  moreover have "take n (drop (value_offset (block_tlv 0 (0, 3, take n msg))) out') = take n msg"
    using block_tlv_value [of 0 out' 0 3 "take n msg" "[0xFE] @ drop ?len out'"] stream assms(1)
    by (simp add: min.absorb2 del: tlv_stream.simps(2))
  ultimately show ?thesis using b fits assms(1)
    by (auto simp: nfc_ndef_find_message_tlv_def block_tlv_def min.absorb2)
qed

theorem build_find_roundtrip_witness:
  "\<exists>out' len t. nfc_ndef_build_message_tlv (Some [0xD1, 1, 0]) 3 (Some (replicate 10 0)) 10 =
      Some (True, Some out', len) \<and> len \<le> 10 \<and>
      nfc_ndef_find_message_tlv (Some out') len 0 = Some (TLV_OK, t) \<and>
      value_len t = 3 \<and> take 3 (drop (value_offset t) out') = take 3 [0xD1, 1, 0]"
  by (rule build_find_roundtrip) (simp_all add: nfc_ndef_tlv_max_payload_for_data_area_def)

text \<open>
  the capacity function never promises more than the data area holds, and a message one
  byte longer than it promises does not fit, except for areas of 255 to 258 bytes, where
  the function gives up to two bytes away.
\<close>

theorem max_payload_exact:
  assumes "3 \<le> area"
  shows "nfc_ndef_tlv_envelope_len (nfc_ndef_tlv_max_payload_for_data_area area) \<le> area \<and>
    (area \<notin> {255, 256, 257, 258} \<longrightarrow>
      area < nfc_ndef_tlv_envelope_len (nfc_ndef_tlv_max_payload_for_data_area area + 1))"
  using assms
  by (auto simp: nfc_ndef_tlv_envelope_len_def nfc_ndef_tlv_max_payload_for_data_area_def)

theorem max_payload_exact_witness:
  "nfc_ndef_tlv_envelope_len (nfc_ndef_tlv_max_payload_for_data_area 144) \<le> 144 \<and>
   144 < nfc_ndef_tlv_envelope_len (nfc_ndef_tlv_max_payload_for_data_area 144 + 1)"
  using max_payload_exact [of 144] by simp

end
