(* ===== verification/NdefRecord.thy ===== *)
theory NdefRecord
  imports MemUtil
begin

text \<open>
  The NDEF record walker and the URI and text payload decoders of
  \<^verbatim>\<open>protocol/nfc_ndef_record_decode.c\<close>, which the reader, the writer and the host tools share.
  \<open>record_image\<close> is the record format of the NDEF specification, \<open>uri_text\<close> the grammar of the
  characters a decoded URI may have; the decoders are shown to accept exactly these.
\<close>

section \<open>Characters\<close>

text \<open>The bytes of a C string literal, without the terminator.\<close>

definition ascii :: "string \<Rightarrow> bytes" where
  "ascii s = map of_char s"

lemma length_ascii [simp]: "length (ascii s) = length s"
  by (simp add: ascii_def)

lemma ascii_append: "ascii (s @ t) = ascii s @ ascii t"
  by (simp add: ascii_def)

definition crlf :: bytes where
  "crlf = [0x0D, 0x0A]"

definition nfc_ndef_is_hex_digit :: "u8 \<Rightarrow> bool" where
  "nfc_ndef_is_hex_digit ch \<longleftrightarrow>
     (ch \<ge> 0x30 \<and> ch \<le> 0x39) \<or> (ch \<ge> 0x61 \<and> ch \<le> 0x66) \<or> (ch \<ge> 0x41 \<and> ch \<le> 0x46)"

text \<open>
  \<open>-._~:/?#[]@!$&'()*+,;=%\<close>, as the codes of the characters. \<open>strchr\<close> also finds the
  terminator of the literal, so the zero byte passes; the decoder excludes it beforehand.
\<close>

definition url_punctuation :: bytes where
  "url_punctuation = [0x2D, 0x2E, 0x5F, 0x7E, 0x3A, 0x2F, 0x3F, 0x23, 0x5B, 0x5D, 0x40, 0x21,
     0x24, 0x26, 0x27, 0x28, 0x29, 0x2A, 0x2B, 0x2C, 0x3B, 0x3D, 0x25]"

definition nfc_ndef_url_safe_char :: "u8 \<Rightarrow> bool" where
  "nfc_ndef_url_safe_char ch \<longleftrightarrow>
     (if (ch \<ge> 0x61 \<and> ch \<le> 0x7A) \<or> (ch \<ge> 0x41 \<and> ch \<le> 0x5A) \<or> (ch \<ge> 0x30 \<and> ch \<le> 0x39) then True
      else ch \<in> set (url_punctuation @ [0]))"

text \<open>The abbreviation table of the URI record type, indexed by identifier code.\<close>

definition NFC_NDEF_URI_PREFIXES :: "bytes list" where
  "NFC_NDEF_URI_PREFIXES = map ascii
    [[],
     ''http://www.'',
     ''https://www.'',
     ''http://'',
     ''https://'',
     ''tel:'',
     ''mailto:'',
     ''ftp://anonymous:anonymous@'',
     ''ftp://ftp.'',
     ''ftps://'',
     ''sftp://'',
     ''smb://'',
     ''nfs://'',
     ''ftp://'',
     ''dav://'',
     ''news:'',
     ''telnet://'',
     ''imap:'',
     ''rtsp://'',
     ''urn:'',
     ''pop:'',
     ''sip:'',
     ''sips:'',
     ''tftp:'',
     ''btspp://'',
     ''btl2cap://'',
     ''btgoep://'',
     ''tcpobex://'',
     ''irdaobex://'',
     ''file://'',
     ''urn:epc:id:'',
     ''urn:epc:tag:'',
     ''urn:epc:pat:'',
     ''urn:epc:raw:'',
     ''urn:epc:'',
     ''urn:nfc:'']"

abbreviation (input) URI_PREFIX_CODE_COUNT :: nat where
  "URI_PREFIX_CODE_COUNT \<equiv> 36"

abbreviation (input) NDEF_DECODE_OUT_MAX :: nat where
  "NDEF_DECODE_OUT_MAX \<equiv> 256"

lemma length_uri_prefixes [simp]: "length NFC_NDEF_URI_PREFIXES = URI_PREFIX_CODE_COUNT"
  by (simp add: NFC_NDEF_URI_PREFIXES_def)

section \<open>The URI payload\<close>

text \<open>
  The loop of \<open>nfc_ndef_decode_uri_payload\<close>. \<open>pos\<close> stays below \<open>out_cap\<close>, so its increment
  does not wrap; the look-ahead indices are 32-bit sums.
\<close>

function uri_payload_loop ::
    "cptr \<Rightarrow> nat \<Rightarrow> nat \<Rightarrow> cptr \<Rightarrow> nat \<Rightarrow> nat \<Rightarrow> (bool \<times> cptr) option" where
  "uri_payload_loop payload len i out out_cap pos =
     (if i < len then do {
        c \<leftarrow> rd payload i;
        if c = 0 \<or> \<not> nfc_ndef_url_safe_char c \<or> pos + 1 \<ge> out_cap then do {
          out \<leftarrow> wr out 0 0;
          Some (False, out)
        } else do {
          triplet \<leftarrow>
            (if c = 0x25 then
               (if u32n (i + 2) \<ge> len then Some False
                else do {
                  hi \<leftarrow> rd payload (u32n (i + 1));
                  if \<not> nfc_ndef_is_hex_digit hi then Some False
                  else do {
                    lo \<leftarrow> rd payload (u32n (i + 2));
                    Some (nfc_ndef_is_hex_digit lo)
                  }
                })
             else Some True);
          if \<not> triplet then do {
            out \<leftarrow> wr out 0 0;
            Some (False, out)
          } else do {
            out \<leftarrow> wr out pos c;
            uri_payload_loop payload len (i + 1) out out_cap (pos + 1)
          }
        }
      } else do {
        out \<leftarrow> wr out pos 0;
        Some (pos \<noteq> 0, out)
      })"
  by pat_completeness auto
termination
  by (relation "measure (\<lambda>(payload, len, i, out, out_cap, pos). len - i)") auto

declare uri_payload_loop.simps [simp del]

definition nfc_ndef_decode_uri_payload ::
    "cptr \<Rightarrow> nat \<Rightarrow> cptr \<Rightarrow> nat \<Rightarrow> (bool \<times> cptr) option" where
  "nfc_ndef_decode_uri_payload payload len out out_cap =
     (if payload = None \<or> out = None \<or> out_cap < 2 \<or> len < 1 then Some (False, out)
      else do {
        out \<leftarrow> wr out 0 0;
        code \<leftarrow> rd payload 0;
        if unat code \<ge> URI_PREFIX_CODE_COUNT then Some (False, out)
        else do {
          let prefix = Some (NFC_NDEF_URI_PREFIXES ! unat code @ [0]);
          measured \<leftarrow> nero_nfc_bounded_strlen prefix NDEF_DECODE_OUT_MAX;
          case measured of
            None \<Rightarrow> Some (False, out)
          | Some prefix_len \<Rightarrow>
              if prefix_len \<ge> out_cap then Some (False, out)
              else do {
                (ok, out) \<leftarrow> nero_nfc_copy_bytes out out_cap 0 prefix (u16n prefix_len);
                if \<not> ok then Some (False, out)
                else uri_payload_loop payload len 1 out out_cap (u16n prefix_len)
              }
        }
      })"

section \<open>The text payload\<close>

function text_payload_loop ::
    "cptr \<Rightarrow> nat \<Rightarrow> nat \<Rightarrow> cptr \<Rightarrow> nat \<Rightarrow> nat \<Rightarrow> (bool \<times> cptr) option" where
  "text_payload_loop payload len i out out_cap pos =
     (if i < len then do {
        c \<leftarrow> rd payload i;
        if c = 0 \<or> pos + 1 \<ge> out_cap then do {
          out \<leftarrow> wr out 0 0;
          Some (False, out)
        } else do {
          out \<leftarrow> wr out pos c;
          text_payload_loop payload len (i + 1) out out_cap (pos + 1)
        }
      } else do {
        out \<leftarrow> wr out pos 0;
        Some (True, out)
      })"
  by pat_completeness auto
termination
  by (relation "measure (\<lambda>(payload, len, i, out, out_cap, pos). len - i)") auto

declare text_payload_loop.simps [simp del]

definition K_UTF16_TEXT_RECORD :: bytes where
  "K_UTF16_TEXT_RECORD = ascii ''UTF-16 text record'' @ [0]"

definition nfc_ndef_decode_text_payload ::
    "cptr \<Rightarrow> nat \<Rightarrow> cptr \<Rightarrow> nat \<Rightarrow> (bool \<times> cptr) option" where
  "nfc_ndef_decode_text_payload payload len out out_cap =
     (if payload = None \<or> out = None \<or> out_cap = 0 \<or> len < 1 then Some (False, out)
      else do {
        out \<leftarrow> wr out 0 0;
        status \<leftarrow> rd payload 0;
        if status AND 0x80 \<noteq> 0 then
          nero_nfc_copy_bytes out out_cap 0 (Some K_UTF16_TEXT_RECORD)
            (length K_UTF16_TEXT_RECORD)
        else
          (case nero_nfc_try_add_size 1 (unat (status AND 0x3F)) of
             None \<Rightarrow> Some (False, out)
           | Some text_start \<Rightarrow>
               if text_start > len then Some (False, out)
               else text_payload_loop payload len text_start out out_cap 0)
      })"

section \<open>The record walker\<close>

datatype ndef_record_status =
  NDEF_RECORD_OK | NDEF_RECORD_EMPTY | NDEF_RECORD_TRUNCATED | NDEF_RECORD_INVALID_ARG
| NDEF_RECORD_UNSUPPORTED

record ndef_record =
  rec_header :: u8
  rec_tnf :: u8
  rec_type_len :: nat
  rec_payload_len :: nat
  rec_type_offset :: nat
  rec_payload_offset :: nat
  rec_record_len :: nat
  rec_message_end :: bool

definition zero_ndef_record :: ndef_record where
  "zero_ndef_record = \<lparr>rec_header = 0, rec_tnf = 0, rec_type_len = 0, rec_payload_len = 0,
     rec_type_offset = 0, rec_payload_offset = 0, rec_record_len = 0, rec_message_end = False\<rparr>"

text \<open>The payload length and the offset of the type field, for a short or a long record.\<close>

definition record_lengths :: "cptr \<Rightarrow> nat \<Rightarrow> nat \<Rightarrow> u8 \<Rightarrow> (nat \<times> nat) option option" where
  "record_lengths msg msg_len pos hdr =
     (if hdr AND 0x10 \<noteq> 0 then do {
        l \<leftarrow> rd msg (pos + 2);
        Some (Some (unat l, if hdr AND 0x08 \<noteq> 0 then 4 else 3))
      }
      else if u16n (msg_len - pos) < 6 then Some None
      else if \<not> nero_nfc_span_ok (pos + 2) 4 msg_len then Some None
      else do {
        b3 \<leftarrow> rd msg (pos + 2);
        b2 \<leftarrow> rd msg (pos + 2 + 1);
        b1 \<leftarrow> rd msg (pos + 2 + 2);
        b0 \<leftarrow> rd msg (pos + 2 + 3);
        Some (Some (be32 b3 b2 b1 b0, if hdr AND 0x08 \<noteq> 0 then 7 else 6))
      })"

text \<open>The offset of the payload: behind the type and, where there is one, the identifier.\<close>

definition record_payload_offset ::
    "cptr \<Rightarrow> nat \<Rightarrow> nat \<Rightarrow> u8 \<Rightarrow> nat \<Rightarrow> nat \<Rightarrow> nat option option" where
  "record_payload_offset msg msg_len pos hdr type_offset type_len =
     (let off = u16n (type_offset + type_len) in
      if hdr AND 0x08 \<noteq> 0 then
        (case nero_nfc_try_add_size pos (type_offset - 1) of
           None \<Rightarrow> Some None
         | Some id_len_pos \<Rightarrow>
             if \<not> nero_nfc_span_ok id_len_pos 1 msg_len then Some None
             else do {
               id_len \<leftarrow> rd msg id_len_pos;
               case nero_nfc_try_add_size off (unat id_len) of
                 None \<Rightarrow> Some None
               | Some next_off \<Rightarrow>
                   if next_off > UINT16_MAX then Some None else Some (Some (u16n next_off))
             })
      else Some (Some off))"

definition nfc_ndef_record_next ::
    "cptr \<Rightarrow> nat \<Rightarrow> nat \<Rightarrow> (ndef_record_status \<times> ndef_record \<times> nat) option" where
  "nfc_ndef_record_next msg msg_len pos =
     (if msg = None \<or> pos > msg_len then Some (NDEF_RECORD_INVALID_ARG, zero_ndef_record, 0)
      else if pos \<ge> msg_len then Some (NDEF_RECORD_TRUNCATED, zero_ndef_record, 0)
      else do {
        hdr \<leftarrow> rd msg pos;
        if hdr = 0 then Some (NDEF_RECORD_EMPTY, zero_ndef_record, u16n (pos + 1))
        else if hdr AND 0x20 \<noteq> 0 then Some (NDEF_RECORD_UNSUPPORTED, zero_ndef_record, 0)
        else if u16n (msg_len - pos) < 3 then Some (NDEF_RECORD_TRUNCATED, zero_ndef_record, 0)
        else do {
          type_len \<leftarrow> rd msg (pos + 1);
          lengths \<leftarrow> record_lengths msg msg_len pos hdr;
          case lengths of
            None \<Rightarrow> Some (NDEF_RECORD_TRUNCATED, zero_ndef_record, 0)
          | Some (len, type_offset) \<Rightarrow> do {
              offset \<leftarrow> record_payload_offset msg msg_len pos hdr type_offset (unat type_len);
              case offset of
                None \<Rightarrow> Some (NDEF_RECORD_TRUNCATED, zero_ndef_record, 0)
              | Some off \<Rightarrow>
                  (case nero_nfc_try_add_size off len of
                     None \<Rightarrow> Some (NDEF_RECORD_TRUNCATED, zero_ndef_record, 0)
                   | Some rec_end \<Rightarrow>
                       if rec_end > msg_len - pos
                       then Some (NDEF_RECORD_TRUNCATED, zero_ndef_record, 0)
                       else Some (NDEF_RECORD_OK,
                         \<lparr>rec_header = hdr, rec_tnf = hdr AND 0x07, rec_type_len = unat type_len,
                          rec_payload_len = len, rec_type_offset = type_offset,
                          rec_payload_offset = off, rec_record_len = u16n rec_end,
                          rec_message_end = (hdr AND 0x40 \<noteq> 0)\<rparr>,
                         u16n (pos + rec_end)))
            }
        }
      })"


section \<open>What the decoders accept\<close>

text \<open>
  The characters of a decoded URI: every one is allowed, and a percent sign is followed by two
  hexadecimal digits.
\<close>

fun uri_text :: "bytes \<Rightarrow> bool" where
  "uri_text [] \<longleftrightarrow> True"
| "uri_text (c # cs) \<longleftrightarrow> c \<noteq> 0 \<and> nfc_ndef_url_safe_char c \<and>
     (c = 0x25 \<longrightarrow> (case cs of h # l # _ \<Rightarrow> nfc_ndef_is_hex_digit h \<and> nfc_ndef_is_hex_digit l
                          | _ \<Rightarrow> False)) \<and>
     uri_text cs"

text \<open>The buffer a decoder leaves: the text and its terminator, or an empty string.\<close>

definition decoded_at :: "bytes \<Rightarrow> nat \<Rightarrow> bytes \<Rightarrow> bool \<Rightarrow> bytes \<Rightarrow> bool" where
  "decoded_at old pos text ok new \<longleftrightarrow> length new = length old \<and>
     (if ok then new = patch old pos (text @ [0]) else new ! 0 = 0)"

lemma decoded_at_step:
  assumes "decoded_at (old[pos := c]) (pos + 1) text ok new" and "pos + 1 + length text < length old"
  shows "decoded_at old pos (c # text) ok new"
proof -
  have "patch (old[pos := c]) (pos + 1) (text @ [0]) = patch old pos (c # text @ [0])"
    using assms(2) by (simp add: patch_def take_Suc_update)
  with assms show ?thesis by (simp add: decoded_at_def)
qed

lemma decoded_at_fail:
  "decoded_at (old[pos := c]) (pos + 1) text False new \<Longrightarrow> decoded_at old pos t False new"
  by (simp add: decoded_at_def)

lemma drop_take_Cons:
  "i < len \<Longrightarrow> len \<le> length bs \<Longrightarrow> drop i (take len bs) = bs ! i # drop (i + 1) (take len bs)"
  using Cons_nth_drop_Suc [of i "take len bs"] by simp

lemma length_drop_take: "len \<le> length bs \<Longrightarrow> length (drop i (take len bs)) = len - i"
  by simp

lemma percent_ahead:
  assumes "i < len" "len \<le> length bs" "len < SIZE_MAX"
  shows "(case drop (i + 1) (take len bs) of h # l # _ \<Rightarrow> nfc_ndef_is_hex_digit h \<and> nfc_ndef_is_hex_digit l
            | _ \<Rightarrow> False) \<longleftrightarrow>
    i + 2 < len \<and> nfc_ndef_is_hex_digit (bs ! (i + 1)) \<and> nfc_ndef_is_hex_digit (bs ! (i + 2))"
proof (cases "i + 2 < len")
  case True
  then have "drop (i + 1) (take len bs) = bs ! (i + 1) # bs ! (i + 2) # drop (i + 3) (take len bs)"
    using assms drop_take_Cons [of "i + 1" len bs] drop_take_Cons [of "i + 2" len bs]
    by (simp add: add.assoc del: One_nat_def)
  with True show ?thesis by simp
next
  case False
  then have "length (drop (i + 1) (take len bs)) \<le> 1" using assms by simp
  then show ?thesis using False
    by (cases "drop (i + 1) (take len bs)" rule: list.exhaust;
        cases "tl (drop (i + 1) (take len bs))") auto
qed

lemma uri_payload_loop_eq:
  assumes "len \<le> length bs" "len < SIZE_MAX" "i \<le> len" "pos < cap" "cap \<le> length out"
  shows "\<exists>new. uri_payload_loop (Some bs) len i (Some out) cap pos =
      Some (uri_text (drop i (take len bs)) \<and> pos + (len - i) < cap \<and> pos + (len - i) \<noteq> 0, Some new) \<and>
    decoded_at out pos (drop i (take len bs))
      (uri_text (drop i (take len bs)) \<and> pos + (len - i) < cap) new"
  using assms(3-5)
proof (induction "len - i" arbitrary: i out pos)
  case 0
  then have i: "i = len" by simp
  show ?case
    by (subst uri_payload_loop.simps) (use 0 i in \<open>simp add: decoded_at_def patch_single\<close>)
next
  case (Suc k)
  then have i: "i < len" and il: "i < length bs" using assms(1) by linarith+
  let ?c = "bs ! i"
  note rest = drop_take_Cons [OF i assms(1)]
  let ?t = "?c = 0x25 \<longrightarrow> i + 2 < len \<and> nfc_ndef_is_hex_digit (bs ! (i + 1)) \<and>
    nfc_ndef_is_hex_digit (bs ! (i + 2))"
  have allowed: "uri_text (drop i (take len bs)) \<longleftrightarrow> ?c \<noteq> 0 \<and> nfc_ndef_url_safe_char ?c \<and> ?t \<and>
      uri_text (drop (i + 1) (take len bs))"
    unfolding rest uri_text.simps percent_ahead [OF i assms(1,2)] by simp
  have nar: "u32n (i + 1) = i + 1" "u32n (i + 2) = i + 2" using i assms(2) by simp_all
  have look: "(if ?c = 0x25 then
      (if len \<le> u32n (i + 2) then Some False
       else do { hi \<leftarrow> rd (Some bs) (u32n (i + 1));
         if \<not> nfc_ndef_is_hex_digit hi then Some False
         else do { lo \<leftarrow> rd (Some bs) (u32n (i + 2)); Some (nfc_ndef_is_hex_digit lo) } })
      else Some True) = Some ?t"
    unfolding nar using assms(1) by auto
  show ?case
  proof (cases "?c = 0 \<or> \<not> nfc_ndef_url_safe_char ?c \<or> cap \<le> pos + 1 \<or> \<not> ?t")
    case True
    have z: "out[0 := 0] ! 0 = 0" using Suc.prems by simp
    have "uri_payload_loop (Some bs) len i (Some out) cap pos = Some (False, Some (out[0 := 0]))"
      by (subst uri_payload_loop.simps)
        (use i il True Suc.prems look in \<open>auto simp del: One_nat_def\<close>)
    moreover have "\<not> (uri_text (drop i (take len bs)) \<and> pos + (len - i) < cap)"
      using True allowed i by auto
    ultimately show ?thesis using z by (auto simp: decoded_at_def)
  next
    case False
    then have f: "?c \<noteq> 0" "nfc_ndef_url_safe_char ?c" "pos + 1 < cap" ?t by auto
    let ?o = "out[pos := ?c]"
    have "uri_payload_loop (Some bs) len i (Some out) cap pos =
        uri_payload_loop (Some bs) len (i + 1) (Some ?o) cap (pos + 1)"
      by (subst uri_payload_loop.simps) (use i il f Suc.prems look in \<open>simp del: One_nat_def\<close>)
    moreover have k: "k = len - (i + 1)" and le: "i + 1 \<le> len" and cap: "cap \<le> length ?o"
      using Suc.hyps(2) Suc.prems i by simp_all
    moreover obtain new where
      "uri_payload_loop (Some bs) len (i + 1) (Some ?o) cap (pos + 1) =
        Some (uri_text (drop (i + 1) (take len bs)) \<and> pos + 1 + (len - (i + 1)) < cap \<and>
          pos + 1 + (len - (i + 1)) \<noteq> 0, Some new)"
      and new: "decoded_at ?o (pos + 1) (drop (i + 1) (take len bs))
        (uri_text (drop (i + 1) (take len bs)) \<and> pos + 1 + (len - (i + 1)) < cap) new"
      using Suc.hyps(1) [OF k le f(3) cap] by blast
    moreover have same: "pos + 1 + (len - (i + 1)) = pos + (len - i)" using i by simp
    moreover have "decoded_at out pos (drop i (take len bs))
        (uri_text (drop i (take len bs)) \<and> pos + (len - i) < cap) new"
    proof (cases "uri_text (drop (i + 1) (take len bs)) \<and> pos + (len - i) < cap")
      case True
      then have y: "uri_text (drop i (take len bs)) \<and> pos + (len - i) < cap" using f allowed by blast
      have d: "decoded_at ?o (pos + 1) (drop (i + 1) (take len bs)) True new"
        using new True unfolding same by simp
      have "pos + 1 + length (drop (i + 1) (take len bs)) < length out"
        using True i assms(1) Suc.prems by auto
      from decoded_at_step [OF d this] y show ?thesis unfolding rest by simp
    next
      case nf: False
      then have n1: "\<not> (uri_text (drop i (take len bs)) \<and> pos + (len - i) < cap)" using allowed by blast
      show ?thesis using new nf unfolding same if_not_P [OF n1]
        by (simp add: decoded_at_def n1)
    qed
    ultimately show ?thesis using f allowed by (simp add: same)
  qed
qed


lemma uri_prefix_props:
  "\<forall>p \<in> set NFC_NDEF_URI_PREFIXES. length p < 27 \<and> 0 \<notin> set p"
  by (simp add: NFC_NDEF_URI_PREFIXES_def ascii_def)

lemma uri_prefix_nth:
  "i < URI_PREFIX_CODE_COUNT \<Longrightarrow> length (NFC_NDEF_URI_PREFIXES ! i) < 27 \<and> 0 \<notin> set (NFC_NDEF_URI_PREFIXES ! i)"
  using uri_prefix_props nth_mem [of i NFC_NDEF_URI_PREFIXES] by auto

text \<open>The text a URI payload stands for: the abbreviated prefix and the bytes behind the code.\<close>

definition uri_of_payload :: "bytes \<Rightarrow> bytes" where
  "uri_of_payload p = NFC_NDEF_URI_PREFIXES ! unat (p ! 0) @ drop 1 p"

definition uri_payload_ok :: "bytes \<Rightarrow> nat \<Rightarrow> bool" where
  "uri_payload_ok p cap \<longleftrightarrow> unat (p ! 0) < URI_PREFIX_CODE_COUNT \<and> uri_text (drop 1 p) \<and>
     uri_of_payload p \<noteq> [] \<and> length (uri_of_payload p) < cap"

lemma copy_prefix:
  assumes "length pre < cap" "cap \<le> length out" "cap \<le> UINT16_MAX"
  shows "nero_nfc_copy_bytes (Some out) cap 0 (Some (pre @ [0])) (length pre) =
    Some (True, Some (patch out 0 pre))"
  using assms by (auto simp: nero_nfc_copy_bytes_def)

lemma decode_uri_eq:
  assumes "len \<le> length bs" "1 \<le> len" "len < SIZE_MAX" "2 \<le> cap" "cap \<le> length out"
    "cap \<le> UINT16_MAX"
  shows "\<exists>new. nfc_ndef_decode_uri_payload (Some bs) len (Some out) cap =
      Some (uri_payload_ok (take len bs) cap, Some new) \<and>
    decoded_at out 0 (uri_of_payload (take len bs)) (uri_payload_ok (take len bs) cap) new"
proof -
  let ?p = "take len bs" and ?o = "out[0 := 0]"
  have b0: "?p ! 0 = bs ! 0" and l0: "0 < length bs" using assms(1,2) by simp_all
  have o0: "?o ! 0 = 0" "0 < length out" using assms(4,5) by simp_all
  show ?thesis
  proof (cases "unat (bs ! 0) < URI_PREFIX_CODE_COUNT")
    case False
    then have "nfc_ndef_decode_uri_payload (Some bs) len (Some out) cap = Some (False, Some ?o)"
      using assms l0 o0 by (simp add: nfc_ndef_decode_uri_payload_def)
    moreover have "\<not> uri_payload_ok ?p cap" using False b0 by (simp add: uri_payload_ok_def)
    ultimately show ?thesis using o0 by (auto simp: decoded_at_def)
  next
    case True
    define pre where "pre = NFC_NDEF_URI_PREFIXES ! unat (bs ! 0)"
    have pl: "length pre < 27" and pz: "0 \<notin> set pre"
      using uri_prefix_nth [OF True] by (simp_all add: pre_def)
    have url: "uri_of_payload ?p = pre @ drop 1 ?p"
      by (simp add: uri_of_payload_def b0 pre_def)
    have ll: "length (drop 1 ?p) = len - 1" using assms(1) by simp
    have sl: "nero_nfc_bounded_strlen (Some (pre @ [0])) NDEF_DECODE_OUT_MAX = Some (Some (length pre))"
      using bounded_strlen_terminated [OF pz, of NDEF_DECODE_OUT_MAX "[]"] pl by simp
    show ?thesis
    proof (cases "length pre < cap")
      case long: False
      then have "nfc_ndef_decode_uri_payload (Some bs) len (Some out) cap = Some (False, Some ?o)"
        using assms l0 o0 True sl by (simp add: nfc_ndef_decode_uri_payload_def pre_def)
      moreover have "\<not> uri_payload_ok ?p cap" using long url by (simp add: uri_payload_ok_def)
      ultimately show ?thesis using o0 by (auto simp: decoded_at_def)
    next
      case fits: True
      let ?q = "patch ?o 0 pre"
      have run: "nfc_ndef_decode_uri_payload (Some bs) len (Some out) cap =
          uri_payload_loop (Some bs) len 1 (Some ?q) cap (length pre)"
        using assms l0 o0 True sl fits pl copy_prefix [of pre cap ?o]
        by (simp add: nfc_ndef_decode_uri_payload_def pre_def [symmetric])
      have qc: "cap \<le> length ?q" using fits assms(5) by simp
      obtain new where new: "uri_payload_loop (Some bs) len 1 (Some ?q) cap (length pre) =
          Some (uri_text (drop 1 ?p) \<and> length pre + (len - 1) < cap \<and> length pre + (len - 1) \<noteq> 0, Some new)"
        and dec: "decoded_at ?q (length pre) (drop 1 ?p)
          (uri_text (drop 1 ?p) \<and> length pre + (len - 1) < cap) new"
        using uri_payload_loop_eq [OF assms(1,3,2) fits qc] by blast
      have same: "uri_payload_ok ?p cap \<longleftrightarrow>
          uri_text (drop 1 ?p) \<and> length pre + (len - 1) < cap \<and> length pre + (len - 1) \<noteq> 0"
        using True b0 ll unfolding uri_payload_ok_def url by (auto simp flip: length_0_conv)
      have "decoded_at out 0 (uri_of_payload ?p) (uri_payload_ok ?p cap) new"
      proof (cases "uri_text (drop 1 ?p) \<and> length pre + (len - 1) < cap")
        case True
        have "patch ?q (length pre) (drop 1 ?p @ [0]) = patch ?o 0 (pre @ drop 1 ?p @ [0])"
          using patch_patch [of 0 pre "drop 1 ?p @ [0]" ?o "length pre"] True ll assms(5) by auto
        also have "\<dots> = patch out 0 (pre @ drop 1 ?p @ [0])"
          by (cases out) (simp_all add: patch_def)
        finally have n: "new = patch out 0 (pre @ drop 1 ?p @ [0])"
          using dec True by (simp add: decoded_at_def)
        have ln: "length new = length out" using dec fits assms(5) by (simp add: decoded_at_def)
        show ?thesis
        proof (cases "length pre + (len - 1) = 0")
          case True
          then have "new ! 0 = 0" using n ll o0 by (simp add: patch_def)
          then show ?thesis using True same ln by (simp add: decoded_at_def)
        next
          case False
          then show ?thesis using True same n ln url by (simp add: decoded_at_def)
        qed
      next
        case False
        then have "\<not> uri_payload_ok ?p cap" using same by blast
        then show ?thesis using dec False fits assms(5) by (auto simp: decoded_at_def)
      qed
      with run new same show ?thesis by simp
    qed
  qed
qed

text \<open>The same for text records: the status byte, the language code, the text.\<close>

lemma text_payload_loop_eq:
  assumes "len \<le> length bs" "i \<le> len" "pos < cap" "cap \<le> length out"
  shows "\<exists>new. text_payload_loop (Some bs) len i (Some out) cap pos =
      Some (0 \<notin> set (drop i (take len bs)) \<and> pos + (len - i) < cap, Some new) \<and>
    decoded_at out pos (drop i (take len bs))
      (0 \<notin> set (drop i (take len bs)) \<and> pos + (len - i) < cap) new"
  using assms(2-4)
proof (induction "len - i" arbitrary: i out pos)
  case 0
  then have i: "i = len" by simp
  show ?case
    by (subst text_payload_loop.simps) (use 0 i in \<open>simp add: decoded_at_def patch_single\<close>)
next
  case (Suc k)
  then have i: "i < len" and il: "i < length bs" using assms(1) by linarith+
  let ?c = "bs ! i"
  note rest = drop_take_Cons [OF i assms(1)]
  show ?case
  proof (cases "?c = 0 \<or> cap \<le> pos + 1")
    case True
    have "text_payload_loop (Some bs) len i (Some out) cap pos = Some (False, Some (out[0 := 0]))"
      by (subst text_payload_loop.simps) (use i il True Suc.prems in \<open>auto simp del: One_nat_def\<close>)
    moreover have "\<not> (0 \<notin> set (drop i (take len bs)) \<and> pos + (len - i) < cap)"
      using True i unfolding rest by auto
    moreover have "out[0 := 0] ! 0 = 0" using Suc.prems by simp
    ultimately show ?thesis by (auto simp: decoded_at_def)
  next
    case False
    then have f: "?c \<noteq> 0" "pos + 1 < cap" by auto
    let ?o = "out[pos := ?c]" and ?r = "drop (i + 1) (take len bs)"
    have k: "k = len - (i + 1)" and le: "i + 1 \<le> len" and cap: "cap \<le> length ?o"
      using Suc.hyps(2) Suc.prems i by simp_all
    obtain new where new: "text_payload_loop (Some bs) len (i + 1) (Some ?o) cap (pos + 1) =
        Some (0 \<notin> set ?r \<and> pos + 1 + (len - (i + 1)) < cap, Some new)"
      and dec: "decoded_at ?o (pos + 1) ?r (0 \<notin> set ?r \<and> pos + 1 + (len - (i + 1)) < cap) new"
      using Suc.hyps(1) [OF k le f(2) cap] by blast
    have run: "text_payload_loop (Some bs) len i (Some out) cap pos =
        text_payload_loop (Some bs) len (i + 1) (Some ?o) cap (pos + 1)"
      by (subst text_payload_loop.simps) (use i il f Suc.prems in \<open>simp del: One_nat_def\<close>)
    have same: "pos + 1 + (len - (i + 1)) = pos + (len - i)" using i by simp
    have zero: "0 \<notin> set (drop i (take len bs)) \<longleftrightarrow> 0 \<notin> set ?r" using f unfolding rest by simp
    have "decoded_at out pos (drop i (take len bs)) (0 \<notin> set ?r \<and> pos + (len - i) < cap) new"
    proof (cases "0 \<notin> set ?r \<and> pos + (len - i) < cap")
      case True
      have "pos + 1 + length ?r < length out" using True i assms(1) Suc.prems by auto
      moreover have "decoded_at ?o (pos + 1) ?r True new" using dec True unfolding same by simp
      ultimately show ?thesis using True decoded_at_step [of out pos ?c ?r True new]
        unfolding rest by simp
    next
      case False
      with dec show ?thesis unfolding same by (auto simp: decoded_at_def)
    qed
    with run new show ?thesis unfolding zero same by simp
  qed
qed


definition text_of_payload :: "bytes \<Rightarrow> bytes" where
  "text_of_payload p =
     (if p ! 0 AND 0x80 \<noteq> 0 then ascii ''UTF-16 text record''
      else drop (1 + unat (p ! 0 AND 0x3F)) p)"

definition text_payload_ok :: "bytes \<Rightarrow> nat \<Rightarrow> bool" where
  "text_payload_ok p cap \<longleftrightarrow> length (text_of_payload p) < cap \<and>
     (p ! 0 AND 0x80 = 0 \<longrightarrow> unat (p ! 0 AND 0x3F) < length p \<and> 0 \<notin> set (text_of_payload p))"

lemma decode_text_eq:
  assumes "len \<le> length bs" "1 \<le> len" "1 \<le> cap" "cap \<le> length out" "cap \<le> UINT16_MAX"
  shows "\<exists>new. nfc_ndef_decode_text_payload (Some bs) len (Some out) cap =
      Some (text_payload_ok (take len bs) cap, Some new) \<and>
    decoded_at out 0 (text_of_payload (take len bs)) (text_payload_ok (take len bs) cap) new"
proof -
  let ?p = "take len bs" and ?o = "out[0 := 0]"
  have b0: "?p ! 0 = bs ! 0" and l0: "0 < length bs" using assms(1,2) by simp_all
  have o0: "?o ! 0 = 0" "0 < length out" using assms(3,4) by simp_all
  have lp: "length ?p = len" using assms(1) by simp
  have po: "patch ?o 0 (c # cs) = patch out 0 (c # cs)" for c :: u8 and cs
    by (cases out) (simp_all add: patch_def)
  have po': "patch ?o 0 (cs @ [c]) = patch out 0 (cs @ [c])" for c :: u8 and cs
    by (cases cs) (simp_all add: po)
  show ?thesis
  proof (cases "bs ! 0 AND 0x80 = 0")
    case False
    have k: "length K_UTF16_TEXT_RECORD = 19" by (simp add: K_UTF16_TEXT_RECORD_def)
    have kp: "patch ?o 0 K_UTF16_TEXT_RECORD = patch out 0 (ascii ''UTF-16 text record'' @ [0])"
      unfolding K_UTF16_TEXT_RECORD_def by (rule po')
    have "nfc_ndef_decode_text_payload (Some bs) len (Some out) cap =
        nero_nfc_copy_bytes (Some ?o) cap 0 (Some K_UTF16_TEXT_RECORD) 19"
      using assms l0 o0 False by (simp add: nfc_ndef_decode_text_payload_def k)
    also have "\<dots> = Some (19 \<le> cap, Some (if 19 \<le> cap then patch ?o 0 K_UTF16_TEXT_RECORD else ?o))"
      using assms k by (auto simp: nero_nfc_copy_bytes_def)
    finally have run: "nfc_ndef_decode_text_payload (Some bs) len (Some out) cap =
        Some (19 \<le> cap, Some (if 19 \<le> cap then patch ?o 0 K_UTF16_TEXT_RECORD else ?o))" .
    have "length (patch out 0 (ascii ''UTF-16 text record'' @ [0])) = length out" if "19 \<le> cap"
      using that assms(4) by simp
    with run show ?thesis using False b0 o0 k kp
      by (auto simp: decoded_at_def text_payload_ok_def text_of_payload_def assms)
  next
    case True
    let ?s = "1 + unat (bs ! 0 AND 0x3F)"
    have add: "nero_nfc_try_add_size 1 (unat (bs ! 0 AND 0x3F)) = Some ?s"
      using unat_u8_bound [of "bs ! 0 AND 0x3F"] by (simp add: nero_nfc_try_add_size_def del: unat_u8_bound)
    have tp: "text_of_payload ?p = drop ?s ?p" using True b0 by (simp add: text_of_payload_def)
    show ?thesis
    proof (cases "?s \<le> len")
      case s: True
      have oc: "cap \<le> length ?o" and cp: "0 < cap" using assms(3,4) by simp_all
      obtain new where new: "text_payload_loop (Some bs) len ?s (Some ?o) cap 0 =
          Some (0 \<notin> set (drop ?s ?p) \<and> 0 + (len - ?s) < cap, Some new)"
        and dec: "decoded_at ?o 0 (drop ?s ?p) (0 \<notin> set (drop ?s ?p) \<and> 0 + (len - ?s) < cap) new"
        using text_payload_loop_eq [OF assms(1) s cp oc] by blast
      have run: "nfc_ndef_decode_text_payload (Some bs) len (Some out) cap =
          text_payload_loop (Some bs) len ?s (Some ?o) cap 0"
        using assms l0 o0 True add s by (simp add: nfc_ndef_decode_text_payload_def del: try_add_size_Some)
      have same: "text_payload_ok ?p cap \<longleftrightarrow> 0 \<notin> set (drop ?s ?p) \<and> 0 + (len - ?s) < cap"
        using True b0 s lp unfolding text_payload_ok_def tp by auto
      have "decoded_at out 0 (drop ?s ?p) (text_payload_ok ?p cap) new"
        using dec unfolding same [symmetric] by (simp add: decoded_at_def po')
      with run new same show ?thesis unfolding tp by simp
    next
      case s: False
      have "nfc_ndef_decode_text_payload (Some bs) len (Some out) cap = Some (False, Some ?o)"
        using assms l0 o0 True add s by (simp add: nfc_ndef_decode_text_payload_def del: try_add_size_Some)
      moreover have "\<not> text_payload_ok ?p cap" using s True b0 lp by (simp add: text_payload_ok_def)
      ultimately show ?thesis using o0 by (auto simp: decoded_at_def)
    qed
  qed
qed

section \<open>The record format\<close>

text \<open>
  A record of the NDEF specification: the header byte with its flags, the lengths, the type,
  the identifier (present with flag \<open>IL\<close>) and the payload.
\<close>

definition record_len_field :: "u8 \<Rightarrow> nat \<Rightarrow> bytes" where
  "record_len_field hdr n =
     (if hdr AND 0x10 \<noteq> 0 then [byte n]
      else [byte (n div 16777216), byte (n div 65536), byte (n div 256), byte n])"

definition record_image :: "u8 \<Rightarrow> bytes \<Rightarrow> bytes \<Rightarrow> bytes \<Rightarrow> bytes" where
  "record_image hdr ty ident payload =
     [hdr, byte (length ty)] @ record_len_field hdr (length payload) @
     (if hdr AND 0x08 \<noteq> 0 then [byte (length ident)] else []) @ ty @ ident @ payload"

definition record_ok :: "u8 \<Rightarrow> bytes \<Rightarrow> bytes \<Rightarrow> bytes \<Rightarrow> bool" where
  "record_ok hdr ty ident payload \<longleftrightarrow> hdr \<noteq> 0 \<and> hdr AND 0x20 = 0 \<and> length ty < 256 \<and>
     length ident < 256 \<and> (hdr AND 0x08 = 0 \<longrightarrow> ident = []) \<and>
     length payload < (if hdr AND 0x10 \<noteq> 0 then 256 else 4294967296)"

definition record_head_len :: "u8 \<Rightarrow> nat" where
  "record_head_len hdr = (if hdr AND 0x10 \<noteq> 0 then 3 else 6) + (if hdr AND 0x08 \<noteq> 0 then 1 else 0)"

definition record_of :: "u8 \<Rightarrow> bytes \<Rightarrow> bytes \<Rightarrow> bytes \<Rightarrow> ndef_record" where
  "record_of hdr ty ident payload =
     \<lparr>rec_header = hdr, rec_tnf = hdr AND 0x07, rec_type_len = length ty,
      rec_payload_len = length payload, rec_type_offset = record_head_len hdr,
      rec_payload_offset = record_head_len hdr + length ty + length ident,
      rec_record_len = record_head_len hdr + length ty + length ident + length payload,
      rec_message_end = (hdr AND 0x40 \<noteq> 0)\<rparr>"

lemma length_record_image:
  "record_ok hdr ty ident payload \<Longrightarrow> length (record_image hdr ty ident payload) =
     record_head_len hdr + length ty + length ident + length payload"
  by (simp add: record_image_def record_ok_def record_head_len_def record_len_field_def)

lemma be32_div:
  "byte (be32 b3 b2 b1 b0 div 16777216) = b3" "byte (be32 b3 b2 b1 b0 div 65536) = b2"
  "byte (be32 b3 b2 b1 b0 div 256) = b1" "byte (be32 b3 b2 b1 b0) = b0"
proof -
  note bounds = unat_u8_bound [of b0] unat_u8_bound [of b1] unat_u8_bound [of b2] unat_u8_bound [of b3]
  have w: "byte n = b \<longleftrightarrow> n mod 256 = unat b" for n b
    by (metis byte_unat unat_byte byte_mod_256)
  have q: "(a * m + r) div m = a" if "r < m" for a m r :: nat using that by simp
  have "unat b2 * 65536 + unat b1 * 256 + unat b0 < 16777216" using bounds by linarith
  then show "byte (be32 b3 b2 b1 b0 div 16777216) = b3"
    using q [of _ 16777216 "unat b3"] unfolding w be32_eq by (simp add: add.assoc)
  have "unat b1 * 256 + unat b0 < 65536" using bounds by linarith
  then show "byte (be32 b3 b2 b1 b0 div 65536) = b2"
    using q [of "unat b1 * 256 + unat b0" 65536 "unat b3 * 256 + unat b2"] unfolding w be32_eq
    by (simp add: algebra_simps)
  have r: "(a * m + r) mod m = r" if "r < m" for a m r :: nat using that by simp
  have "unat b3 * 65536 + unat b2 * 256 + unat b1 = (unat b3 * 256 + unat b2) * 256 + unat b1"
    by simp
  then have "(unat b3 * 65536 + unat b2 * 256 + unat b1) mod 256 = unat b1"
    by (simp only: r [OF unat_u8_bound])
  then show "byte (be32 b3 b2 b1 b0 div 256) = b1"
    using q [of "unat b0" 256 "unat b3 * 65536 + unat b2 * 256 + unat b1"] unfolding w be32_eq
    by (simp add: algebra_simps)
  have "unat b3 * 16777216 + unat b2 * 65536 + unat b1 * 256 + unat b0 =
      (unat b3 * 65536 + unat b2 * 256 + unat b1) * 256 + unat b0" by simp
  then show "byte (be32 b3 b2 b1 b0) = b0" unfolding w be32_eq by (simp only: r [OF unat_u8_bound])
qed

lemma be32_of_bytes:
  assumes "n < 4294967296"
  shows "be32 (byte (n div 16777216)) (byte (n div 65536)) (byte (n div 256)) (byte n) = n"
proof -
  have d: "n div 65536 = n div 256 div 256" "n div 16777216 = n div 256 div 256 div 256"
    by (simp_all flip: div_mult2_eq)
  have "n div 256 div 256 div 256 < 256" using assms by (simp add: div_less_iff_less_mult)
  then have "n div 256 div 256 div 256 mod 256 = n div 256 div 256 div 256" by simp
  then show ?thesis unfolding be32_eq unat_byte d
    using div_mod_decomp [of n 256] div_mod_decomp [of "n div 256" 256]
      div_mod_decomp [of "n div 256 div 256" 256] by linarith
qed


text \<open>One equation for the walker on each header, from which both directions follow.\<close>

lemma prefix_nth:
  assumes "take (length xs) (drop pos (take len bs)) = xs" "len \<le> length bs" "i < length xs"
  shows "bs ! (pos + i) = xs ! i" and "pos + i < len"
proof -
  have "length (take (length xs) (drop pos (take len bs))) = length xs" using assms(1) by simp
  then show l: "pos + i < len" using assms(2,3) by simp
  have "xs ! i = take (length xs) (drop pos (take len bs)) ! i" using assms(1) by simp
  then show "bs ! (pos + i) = xs ! i" using l assms(2,3) by simp
qed

lemma prefix_length:
  assumes "take (length xs) (drop pos (take len bs)) = xs" "len \<le> length bs" "xs \<noteq> []"
  shows "pos + length xs \<le> len"
proof -
  have "length (take (length xs) (drop pos (take len bs))) = length xs" using assms(1) by simp
  moreover have "0 < length xs" using assms(3) by (simp add: length_greater_0_conv)
  ultimately show ?thesis using assms(2) by simp
qed

lemma record_next_complete:
  assumes ok: "record_ok hdr ty ident payload" and len: "len \<le> length bs" "len \<le> UINT16_MAX"
    and image: "take (length (record_image hdr ty ident payload)) (drop pos (take len bs)) =
      record_image hdr ty ident payload"
  shows "nfc_ndef_record_next (Some bs) len pos = Some (NDEF_RECORD_OK, record_of hdr ty ident payload,
    pos + length (record_image hdr ty ident payload))"
proof -
  let ?im = "record_image hdr ty ident payload"
  have ne: "?im \<noteq> []" by (simp add: record_image_def)
  note nth = prefix_nth(1) [OF image len(1)]
  have fits: "pos + length ?im \<le> len" by (rule prefix_length [OF image len(1) ne])
  have lim: "length ?im = record_head_len hdr + length ty + length ident + length payload"
    by (rule length_record_image [OF ok])
  have h3: "3 \<le> record_head_len hdr" by (simp add: record_head_len_def)
  have b0: "bs ! pos = hdr" using nth [of 0] ne by (simp add: record_image_def)
  have b1: "bs ! (pos + 1) = byte (length ty)" using nth [of 1] lim h3 by (simp add: record_image_def)
  have tl: "unat (byte (length ty)) = length ty" using ok by (simp add: record_ok_def)
  have lens: "record_lengths (Some bs) len pos hdr = Some (Some (length payload, record_head_len hdr))"
  proof (cases "hdr AND 0x10 = 0")
    case False
    then have "bs ! (pos + 2) = byte (length payload)"
      using nth [of 2] lim h3 by (simp add: record_image_def record_len_field_def)
    with False show ?thesis using fits lim h3 len ok
      by (simp add: record_lengths_def record_head_len_def record_ok_def)
  next
    case True
    then have h6: "6 \<le> record_head_len hdr" by (simp add: record_head_len_def)
    define n where "n = length payload"
    have nb: "n < 4294967296" using ok True by (simp add: record_ok_def n_def)
    have idx: "pos + 2 + 1 = pos + 3" "pos + 2 + 2 = pos + 4" "pos + 2 + 3 = pos + 5" by simp_all
    have "bs ! (pos + 2) = byte (n div 16777216)" "bs ! (pos + 3) = byte (n div 65536)"
      "bs ! (pos + 4) = byte (n div 256)" "bs ! (pos + 5) = byte n"
      using nth [of 2] nth [of 3] nth [of 4] nth [of 5] lim h6 True
      by (simp_all add: record_image_def record_len_field_def n_def)
    moreover have "\<not> u16n (len - pos) < 6" "pos + 6 \<le> len" using len fits lim h6 by simp_all
    ultimately show ?thesis using len True be32_of_bytes [OF nb]
      unfolding record_lengths_def idx by (simp add: record_head_len_def n_def [symmetric])
  qed
  have offset: "record_payload_offset (Some bs) len pos hdr (record_head_len hdr) (length ty) =
      Some (Some (record_head_len hdr + length ty + length ident))"
  proof (cases "hdr AND 0x08 = 0")
    case True
    then have "ident = []" using ok by (simp add: record_ok_def)
    then show ?thesis using True ok by (simp add: record_payload_offset_def record_head_len_def record_ok_def)
  next
    case False
    have small: "record_head_len hdr + length ty < 65536" "record_head_len hdr + length ty + length ident \<le> 65535"
      using ok by (auto simp: record_ok_def record_head_len_def)
    have "bs ! (pos + (record_head_len hdr - 1)) = byte (length ident)"
      using nth [of "record_head_len hdr - 1"] lim h3 False
      by (cases "hdr AND 0x10 = 0") (simp_all add: record_image_def record_len_field_def record_head_len_def)
    moreover have "pos + (record_head_len hdr - 1) < len" using fits lim h3 by linarith
    moreover have "length ident < 256" using ok by (simp add: record_ok_def)
    ultimately show ?thesis using False len small
      by (simp add: record_payload_offset_def)
  qed
  have pos: "pos < len" using fits lim h3 by linarith
  have big: "3 \<le> u16n (len - pos)" using fits lim h3 len by simp
  have g: "hdr \<noteq> 0" "hdr AND 0x20 = 0" using ok by (simp_all add: record_ok_def)
  have add: "nero_nfc_try_add_size (record_head_len hdr + length ty + length ident) (length payload) =
      Some (length ?im)" using fits len lim by simp
  show ?thesis
    using pos big g b0 b1 tl lens offset add fits len
    by (simp add: nfc_ndef_record_next_def record_of_def lim del: try_add_size_Some)
qed


lemma take_drop_nths:
  "p + n \<le> length bs \<Longrightarrow> take n (drop p bs) = map (\<lambda>i. bs ! (p + i)) [0..<n]"
  by (rule nth_equalityI) simp_all

lemma record_lengths_cases:
  assumes "len \<le> length bs" "len \<le> UINT16_MAX" "pos + 3 \<le> len"
  shows "record_lengths (Some bs) len pos hdr = Some None \<or>
    (\<exists>n. record_lengths (Some bs) len pos hdr = Some (Some (n, record_head_len hdr)) \<and>
       n < (if hdr AND 0x10 \<noteq> 0 then 256 else 4294967296) \<and>
       pos + (if hdr AND 0x10 \<noteq> 0 then 3 else 6) \<le> len \<and>
       take (if hdr AND 0x10 \<noteq> 0 then 1 else 4) (drop (pos + 2) bs) = record_len_field hdr n)"
proof (cases "hdr AND 0x10 = 0")
  case False
  then show ?thesis using assms take_drop_nths [of "pos + 2" 1 bs]
    by (simp add: record_lengths_def record_head_len_def record_len_field_def)
next
  case True
  note tail = True
  have idx: "pos + 2 + 1 = pos + 3" "pos + 2 + 2 = pos + 4" "pos + 2 + 3 = pos + 5" by simp_all
  have nar: "u16n (len - pos) = len - pos" using assms by simp
  show ?thesis
  proof (cases "pos + 6 \<le> len")
    case False
    then show ?thesis using tail nar by (simp add: record_lengths_def)
  next
    case True
    have "take 4 (drop (pos + 2) bs) = [bs ! (pos + 2), bs ! (pos + 3), bs ! (pos + 4), bs ! (pos + 5)]"
      using take_drop_nths [of "pos + 2" 4 bs] True assms(1) by (simp add: upt_rec add.commute)
    then show ?thesis using tail nar True assms unfolding record_lengths_def idx
      by (simp add: record_head_len_def record_len_field_def be32_div)
  qed
qed

lemma record_payload_offset_cases:
  assumes "len \<le> length bs" "len \<le> UINT16_MAX" "tln < 256"
  shows "record_payload_offset (Some bs) len pos hdr (record_head_len hdr) tln = Some None \<or>
    (\<exists>il. record_payload_offset (Some bs) len pos hdr (record_head_len hdr) tln =
        Some (Some (record_head_len hdr + tln + il)) \<and> il < 256 \<and> (hdr AND 0x08 = 0 \<longrightarrow> il = 0) \<and>
       (hdr AND 0x08 \<noteq> 0 \<longrightarrow> pos + record_head_len hdr \<le> len \<and>
          il = unat (bs ! (pos + record_head_len hdr - 1))))"
proof (cases "hdr AND 0x08 = 0")
  case True
  then show ?thesis using assms(3) by (simp add: record_payload_offset_def record_head_len_def)
next
  case False
  define h where "h = record_head_len hdr"
  have h: "3 \<le> h" "h \<le> 7" by (simp_all add: h_def record_head_len_def)
  define il where "il = unat (bs ! (pos + h - 1))"
  have il: "il < 256" by (simp add: il_def)
  show ?thesis
  proof (cases "nero_nfc_try_add_size pos (h - 1)")
    case None
    then show ?thesis using False by (simp add: record_payload_offset_def h_def)
  next
    case (Some q)
    then have q: "q = pos + h - 1" using h by (auto simp: try_add_size_eq_Some_iff)
    have nar: "u16n (h + tln) = h + tln" "h + tln + il \<le> 65535" using h assms(3) il by simp_all
    then have add: "nero_nfc_try_add_size (h + tln) il = Some (h + tln + il)" by simp
    show ?thesis
    proof (cases "nero_nfc_span_ok q 1 len")
      case sp: True
      then have "q < len" using assms(2) by simp
      then have "rd (Some bs) q = Some (bs ! q)" "pos + h \<le> len" using assms(1) q h by simp_all
      then have "record_payload_offset (Some bs) len pos hdr h tln = Some (Some (h + tln + il))"
        using False Some sp nar add q by (simp add: record_payload_offset_def il_def)
      then show ?thesis using False il \<open>pos + h \<le> len\<close> unfolding h_def [symmetric] by (auto simp: il_def)
    next
      case False
      then show ?thesis using \<open>hdr AND 0x08 \<noteq> 0\<close> Some
        by (simp add: record_payload_offset_def h_def)
    qed
  qed
qed

lemma record_next_cases:
  assumes len: "len \<le> length bs" "len \<le> UINT16_MAX" and pos: "pos \<le> len"
  shows "\<exists>s n r. nfc_ndef_record_next (Some bs) len pos = Some (s, r, n) \<and> n \<le> len \<and>
    s \<noteq> NDEF_RECORD_INVALID_ARG \<and> (s = NDEF_RECORD_EMPTY \<longrightarrow> n = pos + 1) \<and>
    (s = NDEF_RECORD_OK \<longrightarrow> (\<exists>hdr ty ident payload. record_ok hdr ty ident payload \<and>
       take (length (record_image hdr ty ident payload)) (drop pos (take len bs)) =
         record_image hdr ty ident payload \<and>
       r = record_of hdr ty ident payload \<and> n = pos + length (record_image hdr ty ident payload)))"
proof -
  consider (fin) "pos = len" | (null) "pos < len" "bs ! pos = 0"
    | (chunk) "pos < len" "bs ! pos \<noteq> 0" "bs ! pos AND 0x20 \<noteq> 0"
    | (short) "pos < len" "bs ! pos \<noteq> 0" "bs ! pos AND 0x20 = 0" "len < pos + 3"
    | (rec) "bs ! pos \<noteq> 0" "bs ! pos AND 0x20 = 0" "pos + 3 \<le> len"
    using pos by linarith
  then show ?thesis
  proof cases
    case rec
    define hdr tln where "hdr = bs ! pos" and "tln = unat (bs ! (pos + 1))"
    have g: "hdr \<noteq> 0" "hdr AND 0x20 = 0" "rd (Some bs) pos = Some hdr" "rd (Some bs) (pos + 1) = Some (bs ! (pos + 1))"
      using rec len by (simp_all add: hdr_def)
    have b: "\<not> u16n (len - pos) < 3" "\<not> len < pos" "\<not> len \<le> pos" "unat (bs ! (pos + 1)) = tln"
      using rec len by (simp_all add: tln_def)
    have start: "nfc_ndef_record_next (Some bs) len pos = do {
        lengths \<leftarrow> record_lengths (Some bs) len pos hdr;
        case lengths of
          None \<Rightarrow> Some (NDEF_RECORD_TRUNCATED, zero_ndef_record, 0)
        | Some (n, type_offset) \<Rightarrow> do {
            offset \<leftarrow> record_payload_offset (Some bs) len pos hdr type_offset tln;
            case offset of
              None \<Rightarrow> Some (NDEF_RECORD_TRUNCATED, zero_ndef_record, 0)
            | Some off \<Rightarrow>
                (case nero_nfc_try_add_size off n of
                   None \<Rightarrow> Some (NDEF_RECORD_TRUNCATED, zero_ndef_record, 0)
                 | Some rec_end \<Rightarrow>
                     if rec_end > len - pos then Some (NDEF_RECORD_TRUNCATED, zero_ndef_record, 0)
                     else Some (NDEF_RECORD_OK,
                       \<lparr>rec_header = hdr, rec_tnf = hdr AND 0x07, rec_type_len = tln,
                        rec_payload_len = n, rec_type_offset = type_offset,
                        rec_payload_offset = off, rec_record_len = u16n rec_end,
                        rec_message_end = (hdr AND 0x40 \<noteq> 0)\<rparr>, u16n (pos + rec_end))) } }"
      by (simp only: nfc_ndef_record_next_def g b option.distinct simp_thms if_True if_False bind.bind_lunit)
    have tln: "tln < 256" by (simp add: tln_def)
    show ?thesis
    proof (cases "record_lengths (Some bs) len pos hdr = Some None")
      case True
      then show ?thesis unfolding start by simp
    next
      case False
      then obtain n where lens: "record_lengths (Some bs) len pos hdr = Some (Some (n, record_head_len hdr))"
        and n: "n < (if hdr AND 0x10 \<noteq> 0 then 256 else 4294967296)"
        and hl: "pos + (if hdr AND 0x10 \<noteq> 0 then 3 else 6) \<le> len"
        and field: "take (if hdr AND 0x10 \<noteq> 0 then 1 else 4) (drop (pos + 2) bs) = record_len_field hdr n"
        using record_lengths_cases [OF len rec(3), of hdr] by auto
      define h where "h = record_head_len hdr"
      show ?thesis
      proof (cases "record_payload_offset (Some bs) len pos hdr h tln = Some None")
        case True
        then show ?thesis unfolding start lens h_def by simp
      next
        case False
        then obtain il where off: "record_payload_offset (Some bs) len pos hdr h tln = Some (Some (h + tln + il))"
          and il: "il < 256" "hdr AND 0x08 = 0 \<Longrightarrow> il = 0"
            "hdr AND 0x08 \<noteq> 0 \<Longrightarrow> pos + h \<le> len \<and> il = unat (bs ! (pos + h - 1))"
          using record_payload_offset_cases [OF len tln, of pos hdr] unfolding h_def by auto
        show ?thesis
        proof (cases "h + tln + il + n \<le> len - pos")
          case False
          then show ?thesis unfolding start lens option.case prod.case
            using off by (auto simp: nero_nfc_try_add_size_def h_def)
        next
          case fits: True
          define rec_end where "rec_end = h + tln + il + n"
          have end_le: "pos + rec_end \<le> len" using fits pos by (simp add: rec_end_def)
          have add: "nero_nfc_try_add_size (h + tln + il) n = Some rec_end"
            unfolding rec_end_def using fits len by simp
          define ty ident payload where "ty = take tln (drop (pos + h) bs)"
            and "ident = take il (drop (pos + h + tln) bs)"
            and "payload = take n (drop (pos + h + tln + il) bs)"
          have lens3: "length ty = tln" "length ident = il" "length payload = n"
            using end_le len by (simp_all add: ty_def ident_def payload_def rec_end_def)
          have ok: "record_ok hdr ty ident payload"
            using g(1,2) tln il n lens3 by (auto simp: record_ok_def)
          have lim: "length (record_image hdr ty ident payload) = rec_end"
            unfolding length_record_image [OF ok] lens3 rec_end_def h_def by simp
          have head: "take h (drop pos bs) = [hdr, byte tln] @ record_len_field hdr n @
              (if hdr AND 0x08 \<noteq> 0 then [byte il] else [])"
          proof -
            define k where "k = (if hdr AND 0x10 \<noteq> 0 then 1 else 4 :: nat)"
            define j where "j = (if hdr AND 0x08 \<noteq> 0 then 1 else 0 :: nat)"
            have h: "h = 2 + (k + j)" by (simp add: h_def record_head_len_def k_def j_def)
            have "take h (drop pos bs) = take 2 (drop pos bs) @ take k (drop (pos + 2) bs) @
                take j (drop (pos + 2 + k) bs)"
              unfolding h take_add drop_drop by (simp add: add.commute add.left_commute)
            moreover have "take 2 (drop pos bs) = [hdr, byte tln]"
              using take_drop_nths [of pos 2 bs] rec len by (simp add: upt_rec hdr_def tln_def)
            moreover have "take j (drop (pos + 2 + k) bs) = (if hdr AND 0x08 \<noteq> 0 then [byte il] else [])"
            proof (cases "hdr AND 0x08 = 0")
              case True
              then show ?thesis by (simp add: j_def)
            next
              case False
              then have "pos + h - 1 = pos + 2 + k" by (simp add: h j_def)
              then show ?thesis using False il(3) [OF False] take_drop_nths [of "pos + 2 + k" 1 bs] h len
                by (simp add: j_def ac_simps)
            qed
            ultimately show ?thesis using field by (simp add: k_def)
          qed
          have "take rec_end (drop pos bs) = take h (drop pos bs) @ ty @ ident @ payload"
            unfolding rec_end_def take_add drop_drop ty_def ident_def payload_def
            by (simp add: ac_simps)
          then have "take rec_end (drop pos bs) = record_image hdr ty ident payload"
            unfolding head record_image_def lens3 by simp
          moreover have "take rec_end (drop pos (take len bs)) = take rec_end (drop pos bs)"
            using end_le by (simp add: drop_take min_def)
          ultimately have image: "take rec_end (drop pos (take len bs)) = record_image hdr ty ident payload"
            by simp
          have "nfc_ndef_record_next (Some bs) len pos =
              Some (NDEF_RECORD_OK, record_of hdr ty ident payload, pos + rec_end)"
            using record_next_complete [OF ok len] image unfolding lim by simp
          then show ?thesis using ok image lim end_le by auto
        qed
      qed
    qed
  qed (use len in \<open>auto simp: nfc_ndef_record_next_def\<close>)
qed


lemma record_next_sound:
  assumes "len \<le> length bs" "len \<le> UINT16_MAX"
    and "nfc_ndef_record_next (Some bs) len pos = Some (NDEF_RECORD_OK, r, n)"
  shows "\<exists>hdr ty ident payload. record_ok hdr ty ident payload \<and>
    take (length (record_image hdr ty ident payload)) (drop pos (take len bs)) =
      record_image hdr ty ident payload \<and>
    r = record_of hdr ty ident payload \<and> n = pos + length (record_image hdr ty ident payload)"
proof -
  have "pos \<le> len" using assms(3) by (auto simp: nfc_ndef_record_next_def split: if_splits)
  then show ?thesis using record_next_cases [OF assms(1,2), of pos] assms(3) by auto
qed

lemma record_next_progress:
  assumes "nfc_ndef_record_next data len pos = Some (s, r, n)"
    and "s = NDEF_RECORD_OK \<or> s = NDEF_RECORD_EMPTY" and "len \<le> UINT16_MAX"
  shows "pos < n \<and> n \<le> len"
proof -
  have tc: "3 \<le> t" if "record_lengths d len pos h = Some (Some (k, t))" for d h k t
    using that by (auto simp: record_lengths_def split: if_splits bind_splits)
  have po: "3 \<le> u" if "record_payload_offset d len pos h t k = Some (Some u)" "3 \<le> t" "t + k \<le> 65535"
    for d h t k u
    using that by (auto simp: record_payload_offset_def Let_def try_add_size_eq_Some_iff
        split: if_splits bind_splits option.splits)
  have tb: "t \<le> 7" if "record_lengths d len pos h = Some (Some (k, t))" for d h k t
    using that by (auto simp: record_lengths_def split: if_splits bind_splits)
  have le: "t + unat (b :: u8) \<le> 65535" if "t \<le> 7" for t b
    using that unat_u8_le [of b] by linarith
  have key: "0 < u" if "record_lengths d len pos h = Some (Some (k, t))"
    "record_payload_offset d len pos h t (unat b) = Some (Some u)" for d h k t u and b :: u8
    using po [OF that(2) tc [OF that(1)] le [OF tb [OF that(1)]]] by simp
  show ?thesis
    using assms by (auto simp: nfc_ndef_record_next_def try_add_size_eq_Some_iff
        split: if_splits bind_splits option.splits) (erule (1) key)
qed


section \<open>Properties\<close>

text \<open>
  C33: on any buffer whose stated length exists, a step of the record walker returns without a
  stray access, and it reports a record exactly where the bytes ahead are one: every reported
  record is the image of some type, identifier and payload under the header, with the offsets
  and lengths that locate them, and every well-formed record is reported.
\<close>

theorem record_next_exact:
  assumes "len \<le> length bs" and "len \<le> UINT16_MAX" and "pos \<le> len"
  shows "(\<exists>s r n. nfc_ndef_record_next (Some bs) len pos = Some (s, r, n) \<and> n \<le> len) \<and>
    (\<forall>r n. nfc_ndef_record_next (Some bs) len pos = Some (NDEF_RECORD_OK, r, n) \<longleftrightarrow>
      (\<exists>hdr ty ident payload. record_ok hdr ty ident payload \<and>
        take (length (record_image hdr ty ident payload)) (drop pos (take len bs)) =
          record_image hdr ty ident payload \<and>
        r = record_of hdr ty ident payload \<and>
        n = pos + length (record_image hdr ty ident payload)))"
proof (intro conjI allI iffI)
  show "\<exists>s r n. nfc_ndef_record_next (Some bs) len pos = Some (s, r, n) \<and> n \<le> len"
    using record_next_cases [OF assms] by auto
qed (erule record_next_sound [OF assms(1,2)],
  use record_next_complete [OF _ assms(1,2)] in \<open>elim exE conjE, simp\<close>)

theorem record_next_exact_witness:
  "(\<exists>s r n. nfc_ndef_record_next (Some [0xD1, 1, 1, 0x55, 4]) 5 0 = Some (s, r, n) \<and> n \<le> 5) \<and>
    (\<forall>r n. nfc_ndef_record_next (Some [0xD1, 1, 1, 0x55, 4]) 5 0 = Some (NDEF_RECORD_OK, r, n) \<longleftrightarrow>
      (\<exists>hdr ty ident payload. record_ok hdr ty ident payload \<and>
        take (length (record_image hdr ty ident payload)) (drop 0 (take 5 [0xD1, 1, 1, 0x55, 4])) =
          record_image hdr ty ident payload \<and>
        r = record_of hdr ty ident payload \<and>
        n = 0 + length (record_image hdr ty ident payload)))"
  by (rule record_next_exact) simp_all

text \<open>
  the URI decoder accepts exactly the payloads whose code is in the table, whose characters
  are allowed ones with every percent sign followed by two hexadecimal digits, and whose
  expansion fits the output buffer; it then leaves the expansion and its terminator there, and
  otherwise an empty string.
\<close>

theorem decode_uri_exact:
  assumes "len \<le> length bs" and "1 \<le> len" and "len < SIZE_MAX" and "2 \<le> cap"
    and "cap \<le> length out" and "cap \<le> UINT16_MAX"
  shows "\<exists>new. nfc_ndef_decode_uri_payload (Some bs) len (Some out) cap =
      Some (uri_payload_ok (take len bs) cap, Some new) \<and>
    (if uri_payload_ok (take len bs) cap
     then new = patch out 0 (uri_of_payload (take len bs) @ [0])
     else length new = length out \<and> new ! 0 = 0)"
proof -
  obtain new where "nfc_ndef_decode_uri_payload (Some bs) len (Some out) cap =
      Some (uri_payload_ok (take len bs) cap, Some new)"
    and "decoded_at out 0 (uri_of_payload (take len bs)) (uri_payload_ok (take len bs) cap) new"
    using decode_uri_eq [OF assms] by blast
  then show ?thesis by (intro exI [of _ new]) (simp add: decoded_at_def)
qed

theorem decode_uri_exact_witness:
  "\<exists>new. nfc_ndef_decode_uri_payload (Some (4 # ascii ''a.b/%2f'')) 8 (Some (replicate 20 7)) 20 =
      Some (uri_payload_ok (take 8 (4 # ascii ''a.b/%2f'')) 20, Some new) \<and>
    (if uri_payload_ok (take 8 (4 # ascii ''a.b/%2f'')) 20
     then new = patch (replicate 20 7) 0 (uri_of_payload (take 8 (4 # ascii ''a.b/%2f'')) @ [0])
     else length new = length (replicate 20 (7 :: u8)) \<and> new ! 0 = 0)"
  by (rule decode_uri_exact) simp_all

end
