(* ===== verification/WriterPayload.thy ===== *)
theory WriterPayload
  imports NdefTlv NdefRecord
begin

text \<open>
  The payload builder of the writer, \<^verbatim>\<open>writer/writer_payload.c\<close>: from a payload configuration
  (a kind and one or two strings) to an NDEF message and its TLV image. An output pointer is
  threaded through as the buffer it points at, so a builder returns its \<open>uint16_t\<close> length and
  the buffer. Local character arrays start as zeros (C leaves them undefined; the code never
  reads a byte it has not written).
\<close>

section \<open>Helpers\<close>

definition nfc_hex_nibble :: "u8 \<Rightarrow> int" where
  "nfc_hex_nibble c =
     (if c \<ge> 0x30 \<and> c \<le> 0x39 then uint (c - 0x30)
      else if c \<ge> 0x61 \<and> c \<le> 0x66 then 10 + uint (c - 0x61)
      else if c \<ge> 0x41 \<and> c \<le> 0x46 then 10 + uint (c - 0x41)
      else -1)"

text \<open>
  \<open>vsnprintf\<close> writes the formatted text (the argument \<open>txt\<close>, the format with the \<open>%s\<close> replaced
  by their strings) as far as it fits and a terminator, and returns its full length; the wrapper
  turns a text that does not fit into -1 and an empty string.
\<close>

definition nero_nfc_snprintf_ok :: "int \<Rightarrow> nat \<Rightarrow> bool" where
  "nero_nfc_snprintf_ok n cap \<longleftrightarrow> n \<ge> 0 \<and> cap > 0 \<and> nat n < cap"

definition nero_nfc_vsnprintf :: "cptr \<Rightarrow> nat \<Rightarrow> bytes \<Rightarrow> (int \<times> cptr) option" where
  "nero_nfc_vsnprintf buf cap txt =
     (if buf = None \<or> cap = 0 then Some (-1, buf)
      else do {
        let written = take (cap - 1) txt @ [0];
        buf \<leftarrow> mem_move buf 0 (Some written) (length written);
        let n = int (length txt);
        if \<not> nero_nfc_snprintf_ok n cap then do {
          buf \<leftarrow> wr buf 0 0;
          Some (-1, buf)
        } else Some (n, buf)
      })"

definition nero_nfc_snprintf :: "cptr \<Rightarrow> nat \<Rightarrow> bytes \<Rightarrow> (int \<times> cptr) option" where
  "nero_nfc_snprintf buf cap txt = do {
     (n, buf) \<leftarrow> nero_nfc_vsnprintf buf cap txt;
     Some (n, buf)
   }"

definition nero_nfc_snprintf_fits :: "int \<Rightarrow> nat \<Rightarrow> bool" where
  "nero_nfc_snprintf_fits n cap = (if n < 0 then False else nat n < cap)"

text \<open>The string a \<open>%s\<close> argument stands for.\<close>

definition c_string :: "cptr \<Rightarrow> bytes" where
  "c_string p = (case p of None \<Rightarrow> [] | Some bs \<Rightarrow> cstr bs)"

section \<open>Record emitters\<close>

definition tlv_pack :: "cptr \<Rightarrow> nat \<Rightarrow> cptr \<Rightarrow> nat \<Rightarrow> (nat \<times> cptr) option" where
  "tlv_pack ndef nlen out cap = do {
     (ok, out, out_len) \<leftarrow> nfc_ndef_build_message_tlv ndef nlen out cap;
     Some (if ok then out_len else 0, out)
   }"

abbreviation (input) WRITER_RTD_URI_PAYLOAD_MAX :: nat where
  "WRITER_RTD_URI_PAYLOAD_MAX \<equiv> 220"

abbreviation (input) WRITER_RTD_TEXT_PAYLOAD_MAX :: nat where
  "WRITER_RTD_TEXT_PAYLOAD_MAX \<equiv> 200"

abbreviation (input) WRITER_RTD_MIME_TYPE_MAX :: nat where
  "WRITER_RTD_MIME_TYPE_MAX \<equiv> 60"

abbreviation (input) WRITER_RTD_VCARD_BODY_MAX :: nat where
  "WRITER_RTD_VCARD_BODY_MAX \<equiv> 380"

definition ndef_emit_uri :: "cptr \<Rightarrow> nat \<Rightarrow> u8 \<Rightarrow> cptr \<Rightarrow> (nat \<times> cptr) option" where
  "ndef_emit_uri out cap uri_id uri =
     (if unat uri_id \<ge> URI_PREFIX_CODE_COUNT then Some (0, out)
      else if out = None \<or> uri = None then Some (0, out)
      else do {
        measured \<leftarrow> nero_nfc_bounded_strlen uri (WRITER_RTD_URI_PAYLOAD_MAX + 1);
        case measured of
          None \<Rightarrow> Some (0, out)
        | Some ul \<Rightarrow>
            if ul > WRITER_RTD_URI_PAYLOAD_MAX \<or> ul = 0 then Some (0, out)
            else do {
              let plen = u16n (1 + ul);
              let need = u16n (3 + 1 + plen);
              if need > cap then Some (0, out)
              else do {
                (ok, out) \<leftarrow> store_seq out cap
                  [(0, 0x80 OR 0x40 OR 0x10 OR 0x01), (1, 1), (2, byte plen), (3, 0x55), (4, uri_id)];
                if \<not> ok then Some (0, out)
                else do {
                  (ok, out) \<leftarrow> nero_nfc_copy_bytes out cap 5 uri ul;
                  Some (if ok then need else 0, out)
                }
              }
            }
      })"

definition EN_LANG :: bytes where
  "EN_LANG = ascii ''en''"

definition ndef_emit_text :: "cptr \<Rightarrow> nat \<Rightarrow> cptr \<Rightarrow> (nat \<times> cptr) option" where
  "ndef_emit_text out cap txt =
     (if out = None \<or> txt = None then Some (0, out)
      else do {
        measured \<leftarrow> nero_nfc_bounded_strlen txt (WRITER_RTD_TEXT_PAYLOAD_MAX + 1);
        case measured of
          None \<Rightarrow> Some (0, out)
        | Some txt_len \<Rightarrow>
            if txt_len > WRITER_RTD_TEXT_PAYLOAD_MAX then Some (0, out)
            else do {
              let plen = u16n (1 + length EN_LANG + txt_len);
              let need = u16n (3 + 1 + plen);
              if need > cap then Some (0, out)
              else do {
                (ok, out) \<leftarrow> store_seq out cap
                  [(0, 0x80 OR 0x40 OR 0x10 OR 0x01), (1, 1), (2, byte plen), (3, 0x54), (4, 0x02)];
                if \<not> ok then Some (0, out)
                else do {
                  (ok, out) \<leftarrow> nero_nfc_copy_bytes out cap 5 (Some (EN_LANG @ [0])) (length EN_LANG);
                  if \<not> ok then Some (0, out)
                  else do {
                    (ok, out) \<leftarrow> nero_nfc_copy_bytes out cap (5 + length EN_LANG) txt txt_len;
                    if \<not> ok then Some (0, out) else Some (need, out)
                  }
                }
              }
            }
      })"

definition ndef_emit_mime_sr ::
    "cptr \<Rightarrow> nat \<Rightarrow> cptr \<Rightarrow> cptr \<Rightarrow> nat \<Rightarrow> (nat \<times> cptr) option" where
  "ndef_emit_mime_sr out cap mime payload plen =
     (if out = None \<or> mime = None \<or> (payload = None \<and> plen \<noteq> 0) then Some (0, out)
      else do {
        measured \<leftarrow> nero_nfc_bounded_strlen mime (WRITER_RTD_MIME_TYPE_MAX + 1);
        case measured of
          None \<Rightarrow> Some (0, out)
        | Some ml \<Rightarrow>
            if ml > WRITER_RTD_MIME_TYPE_MAX \<or> ml = 0 \<or> plen > WRITER_RTD_VCARD_BODY_MAX
            then Some (0, out)
            else do {
              let need = u16n (3 + u16n ml + plen);
              if plen \<ge> 255 \<or> need > cap then Some (0, out)
              else do {
                (ok, out) \<leftarrow> store_seq out cap
                  [(0, 0x80 OR 0x40 OR 0x10 OR 0x02), (1, byte ml), (2, byte plen)];
                if \<not> ok then Some (0, out)
                else do {
                  (ok, out) \<leftarrow> nero_nfc_copy_bytes out cap 3 mime ml;
                  if \<not> ok then Some (0, out)
                  else do {
                    (ok, out) \<leftarrow> nero_nfc_copy_bytes out cap (u16n (3 + ml)) payload plen;
                    if \<not> ok then Some (0, out) else Some (need, out)
                  }
                }
              }
            }
      })"

section \<open>Wi-Fi credentials\<close>

definition wps_put_attr ::
    "cptr \<Rightarrow> nat \<Rightarrow> nat \<Rightarrow> nat \<Rightarrow> cptr \<Rightarrow> nat \<Rightarrow> (bool \<times> cptr \<times> nat) option" where
  "wps_put_attr buf buf_cap pos attr dat dlen =
     (if buf = None \<or> (dat = None \<and> dlen \<noteq> 0) then Some (False, buf, pos)
      else case Option.bind (nero_nfc_try_add_size pos 4) (\<lambda>needed. nero_nfc_try_add_size needed dlen) of
        None \<Rightarrow> Some (False, buf, pos)
      | Some needed \<Rightarrow>
          if needed > buf_cap then Some (False, buf, pos)
          else do {
            (ok, buf) \<leftarrow> store_seq buf buf_cap
              [(pos, byte (drop_bit 8 attr)), (u16n (pos + 1), byte (attr AND 0xFF)),
               (u16n (pos + 2), byte (drop_bit 8 dlen)), (u16n (pos + 3), byte (dlen AND 0xFF))];
            if \<not> ok then Some (False, buf, pos)
            else do {
              (ok, buf) \<leftarrow> (if dlen \<noteq> 0 then nero_nfc_copy_bytes buf buf_cap (u16n (pos + 4)) dat dlen
                              else Some (True, buf));
              if \<not> ok then Some (False, buf, pos)
              else Some (True, buf, u16n (u16n (pos + 4) + dlen))
            }
          })"


text \<open>The \<open>||\<close> chains of \<open>build_wifi_wsc\<close>: attributes in order, up to the first that fails.\<close>

fun wps_put_attrs ::
    "cptr \<Rightarrow> nat \<Rightarrow> nat \<Rightarrow> (nat \<times> cptr \<times> nat) list \<Rightarrow> (bool \<times> cptr \<times> nat) option" where
  "wps_put_attrs buf cap pos [] = Some (True, buf, pos)"
| "wps_put_attrs buf cap pos ((attr, dat, dlen) # attrs) = do {
     (ok, buf, pos) \<leftarrow> wps_put_attr buf cap pos attr dat dlen;
     if \<not> ok then Some (False, buf, pos) else wps_put_attrs buf cap pos attrs
   }"

definition WSC_VERSION :: bytes where
  "WSC_VERSION = [0x10, 0x4A, 0x00, 0x01, 0x10]"

text \<open>\<open>*out_len\<close> is written on success only; the cleared locals are dead afterwards.\<close>

definition build_wifi_wsc ::
    "cptr \<Rightarrow> nat \<Rightarrow> nat \<Rightarrow> cptr \<Rightarrow> cptr \<Rightarrow> (bool \<times> cptr \<times> nat) option" where
  "build_wifi_wsc blob blob_cap out_len ssid psk = do {
     ssid_measured \<leftarrow> nero_nfc_bounded_strlen ssid (32 + 1);
     psk_measured \<leftarrow> (if ssid_measured = None then Some None
                      else nero_nfc_bounded_strlen psk (63 + 1));
     case (ssid_measured, psk_measured) of
       (Some sl, Some kl) \<Rightarrow>
         if sl = 0 \<or> sl > 32 \<or> kl < 8 \<or> kl > 63 then Some (False, blob, out_len)
         else do {
           (ok, inner, inner_len) \<leftarrow> wps_put_attrs (Some (replicate 140 0)) 140 0
             [(0x1026, Some [0x01], 1), (0x1045, ssid, u16n sl), (0x1003, Some [0x00, 0x20], 2),
              (0x100F, Some [0x00, 0x08], 2), (0x1027, psk, u16n kl),
              (0x1020, Some [0, 0, 0, 0, 0, 0], 6)];
           if \<not> ok then Some (False, blob, out_len)
           else do {
             (ok, cred, cred_len) \<leftarrow>
               wps_put_attr (Some (replicate 144 0)) 144 0 0x100E inner inner_len;
             if \<not> ok then Some (False, blob, out_len)
             else (case nero_nfc_try_add_size cred_len (length WSC_VERSION) of
                 None \<Rightarrow> Some (False, blob, out_len)
               | Some blob_need \<Rightarrow>
                   if blob_need > blob_cap then Some (False, blob, out_len)
                   else do {
                     (ok, blob) \<leftarrow>
                       nero_nfc_copy_bytes blob blob_cap 0 (Some WSC_VERSION) (length WSC_VERSION);
                     if \<not> ok then Some (False, blob, out_len)
                     else do {
                       (ok, blob) \<leftarrow>
                         nero_nfc_copy_bytes blob blob_cap (length WSC_VERSION) cred cred_len;
                       if \<not> ok then Some (False, blob, out_len)
                       else Some (True, blob, u16n (length WSC_VERSION + cred_len))
                     }
                   })
           }
         }
     | _ \<Rightarrow> Some (False, blob, out_len)
   }"

section \<open>Bluetooth addresses and strings\<close>

text \<open>\<open>k\<close> octets are left to read; the pointer \<open>s\<close> advances as the index \<open>p\<close>.\<close>

fun parse_bt_mac_loop :: "cptr \<Rightarrow> nat \<Rightarrow> nat \<Rightarrow> bytes \<Rightarrow> (bool \<times> nat \<times> bytes) option" where
  "parse_bt_mac_loop s p 0 mac = Some (True, p, mac)"
| "parse_bt_mac_loop s p (Suc k) mac = do {
     c1 \<leftarrow> rd s p;
     c2 \<leftarrow> rd s (p + 1);
     let hi = nfc_hex_nibble c1;
     let lo = nfc_hex_nibble c2;
     if hi < 0 \<or> lo < 0 then Some (False, p + 2, mac)
     else do {
       let mac = mac @ [byte (nat (push_bit 4 hi OR lo))];
       if k > 0 then do {
         c3 \<leftarrow> rd s (p + 2);
         if c3 \<noteq> 0x3A then Some (False, p + 3, mac)
         else parse_bt_mac_loop s (p + 3) k mac
       } else parse_bt_mac_loop s (p + 2) k mac
     }
   }"

definition parse_bt_mac :: "cptr \<Rightarrow> (bool \<times> bytes) option" where
  "parse_bt_mac s = do {
     (ok, p, mac) \<leftarrow> parse_bt_mac_loop s 0 6 [];
     if \<not> ok then Some (False, mac)
     else do {
       c \<leftarrow> rd s p;
       Some (c = 0, mac)
     }
   }"

definition writer_copy_cstr_from_span ::
    "cptr \<Rightarrow> nat \<Rightarrow> cptr \<Rightarrow> nat \<Rightarrow> (bool \<times> cptr) option" where
  "writer_copy_cstr_from_span dst dst_cap src src_cap =
     (if src = None then
        (if dst \<noteq> None \<and> dst_cap > 0 then do {
           (ok, dst) \<leftarrow> nero_nfc_store_u8 dst dst_cap 0 0;
           Some (False, dst)
         } else Some (False, dst))
      else do {
        measured \<leftarrow> nero_nfc_bounded_strlen src src_cap;
        case measured of
          None \<Rightarrow>
            (if dst \<noteq> None \<and> dst_cap > 0 then do {
               (ok, dst) \<leftarrow> nero_nfc_store_u8 dst dst_cap 0 0;
               Some (False, dst)
             } else Some (False, dst))
        | Some len \<Rightarrow>
            if len \<ge> dst_cap then Some (False, dst)
            else do {
              (ok, dst) \<leftarrow> nero_nfc_copy_bytes dst dst_cap 0 src len;
              if \<not> ok then Some (False, dst)
              else do {
                (ok, dst) \<leftarrow> nero_nfc_store_u8 dst dst_cap len 0;
                if \<not> ok then Some (False, dst) else Some (True, dst)
              }
            }
      })"

definition writer_copy_cstr :: "cptr \<Rightarrow> nat \<Rightarrow> cptr \<Rightarrow> (bool \<times> cptr) option" where
  "writer_copy_cstr dst dst_cap src = writer_copy_cstr_from_span dst dst_cap src dst_cap"

abbreviation (input) WRITER_STR1_MAX :: nat where
  "WRITER_STR1_MAX \<equiv> 860"

abbreviation (input) WRITER_STR2_MAX :: nat where
  "WRITER_STR2_MAX \<equiv> 120"

abbreviation (input) WRITER_NDEF_MAX_BYTES :: nat where
  "WRITER_NDEF_MAX_BYTES \<equiv> 880"

definition writer_cstr_has_control_char :: "cptr \<Rightarrow> bool option" where
  "writer_cstr_has_control_char s =
     (case s of
        None \<Rightarrow> Some False
      | Some bs \<Rightarrow> do {
          measured \<leftarrow> nero_nfc_bounded_strlen s WRITER_STR1_MAX;
          case measured of
            None \<Rightarrow> Some True
          | Some len \<Rightarrow> Some (\<exists>c \<in> set (take len bs). c < 0x20)
        })"

section \<open>The message of a configuration\<close>

datatype payload_kind =
  PAYLOAD_NONE | PAYLOAD_URL_HTTPS | PAYLOAD_PLAIN_TEXT | PAYLOAD_SMS_URI | PAYLOAD_MAILTO_URI
| PAYLOAD_GEO_URI | PAYLOAD_VCARD_MIME | PAYLOAD_WIFI_WSC | PAYLOAD_URI_RAW | PAYLOAD_BT_OOB
| PAYLOAD_RAW_NDEF

record payload_config =
  cfg_kind :: payload_kind
  cfg_str1 :: bytes
  cfg_str2 :: bytes
  cfg_raw_ndef :: cptr
  cfg_raw_ndef_len :: nat
  cfg_uri_id :: u8

definition writer_payload_default :: "payload_config" where
  "writer_payload_default = \<lparr>cfg_kind = PAYLOAD_NONE, cfg_str1 = replicate WRITER_STR1_MAX 0,
     cfg_str2 = replicate WRITER_STR2_MAX 0, cfg_raw_ndef = None, cfg_raw_ndef_len = 0,
     cfg_uri_id = 0\<rparr>"

definition writer_payload_kind_name :: "payload_kind \<Rightarrow> bytes" where
  "writer_payload_kind_name k = (case k of
       PAYLOAD_NONE \<Rightarrow> ascii ''none''
     | PAYLOAD_URL_HTTPS \<Rightarrow> ascii ''url''
     | PAYLOAD_PLAIN_TEXT \<Rightarrow> ascii ''text''
     | PAYLOAD_SMS_URI \<Rightarrow> ascii ''sms''
     | PAYLOAD_MAILTO_URI \<Rightarrow> ascii ''mailto''
     | PAYLOAD_GEO_URI \<Rightarrow> ascii ''geo''
     | PAYLOAD_VCARD_MIME \<Rightarrow> ascii ''vcard''
     | PAYLOAD_WIFI_WSC \<Rightarrow> ascii ''wifi''
     | PAYLOAD_URI_RAW \<Rightarrow> ascii ''uri''
     | PAYLOAD_BT_OOB \<Rightarrow> ascii ''bt''
     | PAYLOAD_RAW_NDEF \<Rightarrow> ascii ''raw-ndef'')"

text \<open>
  \<open>str2\<close> split at its first bar into two local strings, as the mail and the contact branch do
  with the same statements.
\<close>

definition split_str2 :: "bytes \<Rightarrow> nat \<Rightarrow> (bool \<times> cptr \<times> cptr) option" where
  "split_str2 str2 str2_len =
     (let first = Some (replicate WRITER_STR2_MAX 0);
          second = Some (replicate WRITER_STR2_MAX 0);
          sl = length (takeWhile (\<lambda>c. c \<noteq> 0x7C) (take str2_len str2)) in
      if sl < str2_len then
        (if sl \<ge> WRITER_STR2_MAX then Some (False, first, second)
         else do {
           (ok, first) \<leftarrow> nero_nfc_copy_bytes first WRITER_STR2_MAX 0 (Some str2) sl;
           if \<not> ok then Some (False, first, second)
           else do {
             first \<leftarrow> wr first sl 0;
             (ok, second) \<leftarrow> writer_copy_cstr_from_span second WRITER_STR2_MAX
               (ptr_add (Some str2) (sl + 1)) (str2_len - sl);
             Some (ok, first, second)
           }
         })
      else do {
        (ok, first) \<leftarrow> writer_copy_cstr first WRITER_STR2_MAX (Some str2);
        Some (ok, first, second)
      })"

text \<open>The local buffer of a formatted URI, and the URI record made of it.\<close>

definition emit_formatted_uri :: "cptr \<Rightarrow> nat \<Rightarrow> nat \<Rightarrow> bytes \<Rightarrow> (nat \<times> cptr) option" where
  "emit_formatted_uri dst cap_use uri_size txt = do {
     (n, uri) \<leftarrow> nero_nfc_snprintf (Some (replicate uri_size 0)) uri_size txt;
     if \<not> nero_nfc_snprintf_fits n uri_size then Some (0, dst)
     else ndef_emit_uri dst cap_use 0x00 uri
   }"

definition vcard_text :: "bytes \<Rightarrow> bytes \<Rightarrow> bytes \<Rightarrow> bytes" where
  "vcard_text name tel email = ascii ''BEGIN:VCARD'' @ crlf @ ascii ''VERSION:4.0'' @ crlf @
     ascii ''FN:'' @ name @ crlf @ ascii ''TEL:'' @ tel @ crlf @ ascii ''EMAIL:'' @ email @ crlf @
     ascii ''END:VCARD'' @ crlf"

definition VCARD_MIME :: bytes where "VCARD_MIME = ascii ''text/vcard''"

definition WSC_MIME :: bytes where "WSC_MIME = ascii ''application/vnd.wfa.wsc''"

definition BT_OOB_MIME :: bytes where "BT_OOB_MIME = ascii ''application/vnd.bluetooth.ep.oob''"

definition emit_sms :: "payload_config \<Rightarrow> cptr \<Rightarrow> nat \<Rightarrow> (nat \<times> cptr) option" where
  "emit_sms cfg dst cap_use = do {
     c \<leftarrow> rd (Some (cfg_str2 cfg)) 0;
     emit_formatted_uri dst cap_use (WRITER_STR1_MAX + WRITER_STR2_MAX + 24)
       (if c \<noteq> 0 then ascii ''sms:'' @ cstr (cfg_str1 cfg) @ ascii ''?body='' @ cstr (cfg_str2 cfg)
        else ascii ''sms:'' @ cstr (cfg_str1 cfg))
   }"

definition emit_mailto :: "payload_config \<Rightarrow> nat \<Rightarrow> cptr \<Rightarrow> nat \<Rightarrow> (nat \<times> cptr) option" where
  "emit_mailto cfg str2_len dst cap_use = do {
     (ok, subj, body) \<leftarrow> split_str2 (cfg_str2 cfg) str2_len;
     if \<not> ok then Some (0, dst)
     else do {
       b \<leftarrow> rd body 0;
       s \<leftarrow> rd subj 0;
       emit_formatted_uri dst cap_use (WRITER_STR1_MAX + WRITER_STR2_MAX * 2 + 32)
         (if b \<noteq> 0 then ascii ''mailto:'' @ cstr (cfg_str1 cfg) @ ascii ''?subject='' @
            c_string subj @ ascii ''&body='' @ c_string body
          else if s \<noteq> 0 then ascii ''mailto:'' @ cstr (cfg_str1 cfg) @ ascii ''?subject='' @
            c_string subj
          else ascii ''mailto:'' @ cstr (cfg_str1 cfg))
     }
   }"

definition emit_vcard :: "payload_config \<Rightarrow> nat \<Rightarrow> cptr \<Rightarrow> nat \<Rightarrow> (nat \<times> cptr) option" where
  "emit_vcard cfg str2_len dst cap_use = do {
     (ok, tel, email) \<leftarrow> split_str2 (cfg_str2 cfg) str2_len;
     if \<not> ok then Some (0, dst)
     else do {
       c1 \<leftarrow> writer_cstr_has_control_char (Some (cfg_str1 cfg));
       c2 \<leftarrow> (if c1 then Some False else writer_cstr_has_control_char tel);
       c3 \<leftarrow> (if c1 \<or> c2 then Some False else writer_cstr_has_control_char email);
       if c1 \<or> c2 \<or> c3 then Some (0, dst)
       else do {
         (n, vcard) \<leftarrow> nero_nfc_snprintf (Some (replicate 1166 0)) 1166
           (vcard_text (cstr (cfg_str1 cfg)) (c_string tel) (c_string email));
         if \<not> nero_nfc_snprintf_fits n 1166 then Some (0, dst)
         else ndef_emit_mime_sr dst cap_use (Some (VCARD_MIME @ [0])) vcard (u16n (nat n))
       }
     }
   }"

definition emit_wifi :: "payload_config \<Rightarrow> cptr \<Rightarrow> nat \<Rightarrow> (nat \<times> cptr) option" where
  "emit_wifi cfg dst cap_use = do {
     (ok, wsc, wlen) \<leftarrow>
       build_wifi_wsc (Some (replicate 200 0)) 200 0 (Some (cfg_str1 cfg)) (Some (cfg_str2 cfg));
     if \<not> ok then Some (0, dst)
     else ndef_emit_mime_sr dst cap_use (Some (WSC_MIME @ [0])) wsc wlen
   }"

definition emit_bt_oob :: "payload_config \<Rightarrow> nat \<Rightarrow> cptr \<Rightarrow> nat \<Rightarrow> (nat \<times> cptr) option" where
  "emit_bt_oob cfg str1_len dst cap_use =
     (if str1_len \<noteq> 17 then Some (0, dst)
      else do {
        (ok, mac) \<leftarrow> parse_bt_mac (Some (cfg_str1 cfg));
        if \<not> ok then Some (0, dst)
        else ndef_emit_mime_sr dst cap_use (Some (BT_OOB_MIME @ [0]))
          (Some [8, 0, mac ! 5, mac ! 4, mac ! 3, mac ! 2, mac ! 1, mac ! 0]) 8
      })"

definition build_ndef_message :: "payload_config option \<Rightarrow> cptr \<Rightarrow> nat \<Rightarrow> (nat \<times> cptr) option" where
  "build_ndef_message config out cap =
     (let scratch = Some (replicate WRITER_NDEF_MAX_BYTES 0);
          dst = (if out \<noteq> None then out else scratch);
          cap_use = (if out \<noteq> None then cap else WRITER_NDEF_MAX_BYTES) in
      case config of
        None \<Rightarrow> Some (0, out)
      | Some cfg \<Rightarrow> do {
          measured1 \<leftarrow> nero_nfc_bounded_strlen (Some (cfg_str1 cfg)) WRITER_STR1_MAX;
          measured2 \<leftarrow> (if measured1 = None then Some None
                        else nero_nfc_bounded_strlen (Some (cfg_str2 cfg)) WRITER_STR2_MAX);
          case (measured1, measured2) of
            (Some str1_len, Some str2_len) \<Rightarrow> do {
              (n, dst) \<leftarrow>
                (case cfg_kind cfg of
                   PAYLOAD_NONE \<Rightarrow> Some (0, dst)
                 | PAYLOAD_URL_HTTPS \<Rightarrow> ndef_emit_uri dst cap_use 0x04 (Some (cfg_str1 cfg))
                 | PAYLOAD_PLAIN_TEXT \<Rightarrow> ndef_emit_text dst cap_use (Some (cfg_str1 cfg))
                 | PAYLOAD_URI_RAW \<Rightarrow> ndef_emit_uri dst cap_use (cfg_uri_id cfg) (Some (cfg_str1 cfg))
                 | PAYLOAD_RAW_NDEF \<Rightarrow>
                     if cfg_raw_ndef cfg = None \<or> cfg_raw_ndef_len cfg = 0 \<or>
                        cfg_raw_ndef_len cfg > cap_use then Some (0, dst)
                     else do {
                       (ok, dst) \<leftarrow>
                         nero_nfc_copy_bytes dst cap_use 0 (cfg_raw_ndef cfg) (cfg_raw_ndef_len cfg);
                       Some (if ok then cfg_raw_ndef_len cfg else 0, dst)
                     }
                 | PAYLOAD_SMS_URI \<Rightarrow> emit_sms cfg dst cap_use
                 | PAYLOAD_MAILTO_URI \<Rightarrow> emit_mailto cfg str2_len dst cap_use
                 | PAYLOAD_GEO_URI \<Rightarrow> emit_formatted_uri dst cap_use (WRITER_STR1_MAX + 8)
                     (ascii ''geo:'' @ cstr (cfg_str1 cfg))
                 | PAYLOAD_VCARD_MIME \<Rightarrow> emit_vcard cfg str2_len dst cap_use
                 | PAYLOAD_WIFI_WSC \<Rightarrow> emit_wifi cfg dst cap_use
                 | PAYLOAD_BT_OOB \<Rightarrow> emit_bt_oob cfg str1_len dst cap_use);
              Some (n, if out \<noteq> None then dst else out)
            }
          | _ \<Rightarrow> Some (0, out)
        })"

definition writer_payload_ndef_len :: "payload_config option \<Rightarrow> nat option" where
  "writer_payload_ndef_len cfg =
     (if cfg = None then Some 0
      else do {
        (n, _) \<leftarrow> build_ndef_message cfg None 0;
        Some n
      })"

definition writer_payload_configured :: "payload_config option \<Rightarrow> bool option" where
  "writer_payload_configured cfg =
     (if cfg = None then Some False
      else do {
        n \<leftarrow> writer_payload_ndef_len cfg;
        Some (n \<noteq> 0)
      })"

definition writer_payload_build_tlv ::
    "payload_config option \<Rightarrow> cptr \<Rightarrow> nat \<Rightarrow> (nat \<times> cptr) option" where
  "writer_payload_build_tlv cfg out out_max =
     (if cfg = None \<or> out = None \<or> out_max < 8 then Some (0, out)
      else do {
        (nl, ndef) \<leftarrow> build_ndef_message cfg (Some (replicate WRITER_NDEF_MAX_BYTES 0))
          WRITER_NDEF_MAX_BYTES;
        if nl = 0 then Some (0, out) else tlv_pack ndef nl out out_max
      })"

definition writer_payload_build_ndef ::
    "payload_config option \<Rightarrow> cptr \<Rightarrow> nat \<Rightarrow> (nat \<times> cptr) option" where
  "writer_payload_build_ndef cfg out out_max =
     (if cfg = None \<or> out = None \<or> out_max = 0 then Some (0, out)
      else build_ndef_message cfg out out_max)"

end
