(* ===== verification/NdefText.thy ===== *)
theory NdefText
  imports NdefTlv NdefRecord
begin

text \<open>
  What the reader prints of an NDEF message, \<^verbatim>\<open>reader/reader_tags_ndef_print.c\<close>: the decoders of
  contact, Wi-Fi and Bluetooth payloads, the list of detected URLs, the summary of a record and
  the walks over the records of a message and the blocks of a tag. The log is the sequence of
  bytes sent to the log sink. Payload lengths are at most \<open>UINT16_MAX\<close> (a record lies inside a
  message of a 16-bit length), so the 32-bit sums of the scanners are exact.
\<close>

section \<open>Detected URLs\<close>

record url_store =
  url_detected :: bool
  detected_url :: bytes
  detected_urls :: "bytes list"
  detected_url_count :: nat

abbreviation (input) READER_NDEF_URL_MAX :: nat where
  "READER_NDEF_URL_MAX \<equiv> 4"

abbreviation (input) READER_NDEF_URL_BYTES_MAX :: nat where
  "READER_NDEF_URL_BYTES_MAX \<equiv> NDEF_DECODE_OUT_MAX"

definition reader_tags_reset_detected_urls :: "url_store \<Rightarrow> url_store" where
  "reader_tags_reset_detected_urls st =
     st\<lparr>url_detected := False, detected_url := (detected_url st)[0 := 0], detected_url_count := 0\<rparr>"

definition remember_detected_url :: "url_store \<Rightarrow> cptr \<Rightarrow> url_store option" where
  "remember_detected_url st url =
     (if url = None then Some st
      else do {
        measured \<leftarrow> nero_nfc_bounded_strlen url READER_NDEF_URL_BYTES_MAX;
        case measured of
          None \<Rightarrow> Some st
        | Some len \<Rightarrow>
            (case nero_nfc_try_add_size len 1 of
               None \<Rightarrow> Some st
             | Some copy_len \<Rightarrow>
                 if len = 0 then Some st
                 else do {
                   (ok, last) \<leftarrow> nero_nfc_copy_bytes (Some (detected_url st))
                     (READER_NDEF_URL_BYTES_MAX + 1) 0 url copy_len;
                   let st = st\<lparr>detected_url := the last\<rparr>;
                   let st = (if ok then st\<lparr>url_detected := True\<rparr> else st);
                   if detected_url_count st < READER_NDEF_URL_MAX then do {
                     (ok, entry) \<leftarrow> nero_nfc_copy_bytes
                       (Some (detected_urls st ! detected_url_count st))
                       READER_NDEF_URL_BYTES_MAX 0 url copy_len;
                     let st = st\<lparr>detected_urls :=
                       (detected_urls st)[detected_url_count st := the entry]\<rparr>;
                     Some (if ok then st\<lparr>detected_url_count := detected_url_count st + 1\<rparr> else st)
                   } else Some st
                 })
      })"

section \<open>Building the decoded text\<close>

definition type_equals :: "cptr \<Rightarrow> nat \<Rightarrow> cptr \<Rightarrow> bool option" where
  "type_equals ty type_len expected =
     (if (ty = None \<and> type_len \<noteq> 0) \<or> expected = None then Some False
      else do {
        measured \<leftarrow> nero_nfc_bounded_strlen expected 255;
        case measured of
          None \<Rightarrow> Some False
        | Some expected_len \<Rightarrow>
            if expected_len = type_len then mem_eq ty expected type_len else Some False
      })"

function display_text_loop :: "cptr \<Rightarrow> nat \<Rightarrow> nat \<Rightarrow> bool option" where
  "display_text_loop payload len i =
     (if i < len then do {
        ch \<leftarrow> rd payload i;
        if ch \<noteq> 0x0D \<and> ch \<noteq> 0x0A \<and> ch \<noteq> 0x09 \<and> (ch < 0x20 \<or> ch > 0x7E) then Some False
        else display_text_loop payload len (i + 1)
      } else Some True)"
  by pat_completeness auto
termination
  by (relation "measure (\<lambda>(payload, len, i). len - i)") auto

declare display_text_loop.simps [simp del]

definition payload_is_display_text :: "cptr \<Rightarrow> nat \<Rightarrow> bool option" where
  "payload_is_display_text payload len =
     (if payload = None \<and> len \<noteq> 0 then Some False else display_text_loop payload len 0)"

text \<open>The appenders thread the buffer and \<open>*pos\<close>.\<close>

definition append_text :: "nat \<Rightarrow> cptr \<Rightarrow> cptr \<times> nat \<Rightarrow> (bool \<times> cptr \<times> nat) option" where
  "append_text out_cap txt st = (case st of (out, pos) \<Rightarrow>
     if out = None \<or> txt = None then Some (False, out, pos)
     else do {
       measured \<leftarrow> nero_nfc_bounded_strlen txt out_cap;
       case measured of
         None \<Rightarrow> Some (False, out, pos)
       | Some len \<Rightarrow>
           if \<not> nero_nfc_span_ok pos (len + 1) out_cap then Some (False, out, pos)
           else do {
             (ok, out) \<leftarrow> nero_nfc_copy_bytes out out_cap pos txt len;
             if \<not> ok then Some (False, out, pos)
             else do {
               (ok, out) \<leftarrow> nero_nfc_store_u8 out out_cap (pos + len) 0;
               Some (ok, out, pos + len)
             }
           }
     })"

definition append_span :: "nat \<Rightarrow> cptr \<Rightarrow> nat \<Rightarrow> cptr \<times> nat \<Rightarrow> (bool \<times> cptr \<times> nat) option" where
  "append_span out_cap src len st = (case st of (out, pos) \<Rightarrow>
     if out = None \<or> (src = None \<and> len \<noteq> 0) \<or> \<not> nero_nfc_span_ok pos (len + 1) out_cap
     then Some (False, out, pos)
     else do {
       (ok, out) \<leftarrow> nero_nfc_copy_bytes out out_cap pos src len;
       if \<not> ok then Some (False, out, pos)
       else do {
         (ok, out) \<leftarrow> nero_nfc_store_u8 out out_cap (pos + len) 0;
         Some (ok, out, pos + len)
       }
     })"

text \<open>\<open>a && b\<close> on calls that thread a state, and the string literals the decoders append.\<close>

definition and_then ::
    "('s \<Rightarrow> (bool \<times> 's) option) \<Rightarrow> ('s \<Rightarrow> (bool \<times> 's) option) \<Rightarrow> 's \<Rightarrow> (bool \<times> 's) option" where
  "and_then f g s = do {
     (ok, s) \<leftarrow> f s;
     if \<not> ok then Some (False, s) else g s
   }"

definition skip_if :: "bool \<Rightarrow> ('s \<Rightarrow> (bool \<times> 's) option) \<Rightarrow> 's \<Rightarrow> (bool \<times> 's) option" where
  "skip_if b f s = (if b then Some (True, s) else f s)"

definition literal :: "string \<Rightarrow> cptr" where
  "literal s = Some (ascii s @ [0])"

definition append_hex_u8 :: "nat \<Rightarrow> u8 \<Rightarrow> cptr \<times> nat \<Rightarrow> (bool \<times> cptr \<times> nat) option" where
  "append_hex_u8 out_cap value =
     (let hex = ascii ''0123456789ABCDEF'' in
      append_text out_cap
        (Some [hex ! unat (drop_bit 4 value), hex ! unat (value AND 0x0F), 0]))"

definition byte_at :: "cptr \<Rightarrow> nat \<Rightarrow> nat \<Rightarrow> (bool \<times> u8) option" where
  "byte_at payload len offset =
     (if payload = None \<or> \<not> nero_nfc_span_ok offset 1 len then Some (False, 0)
      else do {
        value \<leftarrow> rd payload offset;
        Some (True, value)
      })"

section \<open>Contacts\<close>

function vcard_line_end :: "cptr \<Rightarrow> nat \<Rightarrow> nat \<Rightarrow> nat option" where
  "vcard_line_end payload len line_end =
     (if line_end < len then do {
        c \<leftarrow> rd payload line_end;
        if c \<noteq> 0x0D \<and> c \<noteq> 0x0A then vcard_line_end payload len (line_end + 1) else Some line_end
      } else Some line_end)"
  by pat_completeness auto
termination
  by (relation "measure (\<lambda>(payload, len, e). len - e)") auto

declare vcard_line_end.simps [simp del]

lemma vcard_line_end_le: "vcard_line_end payload len i = Some e \<Longrightarrow> i \<le> e"
proof (induction payload len i rule: vcard_line_end.induct)
  case (1 payload len i)
  from "1.prems" show ?case
    by (subst (asm) vcard_line_end.simps) (fastforce split: if_splits bind_splits dest: "1.IH")
qed

function vcard_value_start :: "cptr \<Rightarrow> nat \<Rightarrow> nat \<Rightarrow> nat \<Rightarrow> nat option" where
  "vcard_value_start payload len line_end value_start =
     (if value_start < line_end then do {
        (ok, value_prev) \<leftarrow> byte_at payload len (value_start - 1);
        if ok \<and> value_prev \<noteq> 0x3A
        then vcard_value_start payload len line_end (value_start + 1)
        else Some value_start
      } else Some value_start)"
  by pat_completeness auto
termination
  by (relation "measure (\<lambda>(payload, len, line_end, v). line_end - v)") auto

declare vcard_value_start.simps [simp del]

text \<open>One line: does it hold the property, and where does the next line start.\<close>

definition vcard_line_hit :: "cptr \<Rightarrow> nat \<Rightarrow> cptr \<Rightarrow> nat \<Rightarrow> nat \<Rightarrow> nat \<Rightarrow> bool option" where
  "vcard_line_hit payload len name name_len line_start line_end =
     (if line_end > line_start \<and> line_end - line_start > name_len then do {
        (ok, name_suffix) \<leftarrow> byte_at payload len (line_start + name_len);
        if \<not> ok then Some False
        else do {
          same \<leftarrow> mem_eq (ptr_add payload line_start) name name_len;
          Some (same \<and> (name_suffix = 0x3A \<or> name_suffix = 0x3B))
        }
      } else Some False)"

definition vcard_next_line :: "cptr \<Rightarrow> nat \<Rightarrow> nat \<Rightarrow> nat option" where
  "vcard_next_line payload len line_end =
     (let line_start = line_end + 1 in
      if line_start < len then do {
        (ok1, line_end_ch) \<leftarrow> byte_at payload len line_end;
        (ok2, line_start_ch) \<leftarrow> byte_at payload len line_start;
        Some (if ok1 \<and> ok2 \<and> line_end_ch = 0x0D \<and> line_start_ch = 0x0A
              then line_start + 1 else line_start)
      } else Some line_start)"

lemma vcard_next_line_less: "vcard_next_line payload len e = Some n \<Longrightarrow> e < n"
  by (auto simp: vcard_next_line_def Let_def split: if_splits bind_splits)

function vcard_property_loop ::
    "cptr \<Rightarrow> nat \<Rightarrow> cptr \<Rightarrow> nat \<Rightarrow> nat \<Rightarrow> (bool \<times> cptr \<times> nat) option" where
  "vcard_property_loop payload len name name_len line_start =
     (if line_start < len then
        (case vcard_line_end payload len line_start of
           None \<Rightarrow> None
         | Some line_end \<Rightarrow>
             (case vcard_line_hit payload len name name_len line_start line_end of
                None \<Rightarrow> None
              | Some True \<Rightarrow> do {
                  value_start \<leftarrow> vcard_value_start payload len line_end (line_start + name_len + 1);
                  if value_start > line_end \<or> line_end - value_start > UINT16_MAX
                  then Some (False, None, 0)
                  else do {
                    let val_len = line_end - value_start;
                    if val_len \<noteq> 0 \<and> \<not> nero_nfc_span_ok value_start val_len len
                    then Some (False, None, val_len)
                    else Some (True, if val_len = 0 then None else ptr_add payload value_start,
                               val_len)
                  }
                }
              | Some False \<Rightarrow>
                  (case vcard_next_line payload len line_end of
                     None \<Rightarrow> None
                   | Some next_start \<Rightarrow>
                       vcard_property_loop payload len name name_len next_start)))
      else Some (False, None, 0))"
  by pat_completeness auto
termination
  by (relation "measure (\<lambda>(payload, len, name, name_len, s). len - s)")
    (auto dest!: vcard_line_end_le vcard_next_line_less)

declare vcard_property_loop.simps [simp del]

definition vcard_property :: "cptr \<Rightarrow> nat \<Rightarrow> cptr \<Rightarrow> (bool \<times> cptr \<times> nat) option" where
  "vcard_property payload len name =
     (if payload = None \<or> name = None then Some (False, None, 0)
      else do {
        measured \<leftarrow> nero_nfc_bounded_strlen name 255;
        case measured of
          None \<Rightarrow> Some (False, None, 0)
        | Some name_len \<Rightarrow> vcard_property_loop payload len name name_len 0
      })"

definition decode_vcard_payload :: "cptr \<Rightarrow> nat \<Rightarrow> cptr \<Rightarrow> nat \<Rightarrow> (bool \<times> cptr) option" where
  "decode_vcard_payload payload len out out_cap = do {
     printable \<leftarrow> payload_is_display_text payload len;
     (found, name, name_len) \<leftarrow>
       (if printable then vcard_property payload len (literal ''FN'') else Some (False, None, 0));
     if \<not> printable \<or> \<not> found then Some (False, out)
     else do {
       (_, tel, tel_len) \<leftarrow> vcard_property payload len (literal ''TEL'');
       (_, email, email_len) \<leftarrow> vcard_property payload len (literal ''EMAIL'');
       (ok, out, pos) \<leftarrow>
         and_then (append_text out_cap (literal ''Contact: name=''))
          (and_then (append_span out_cap name name_len)
            (and_then (skip_if (tel_len = 0)
                (and_then (append_text out_cap (literal '' tel='')) (append_span out_cap tel tel_len)))
              (skip_if (email_len = 0)
                (and_then (append_text out_cap (literal '' email=''))
                  (append_span out_cap email email_len))))) (out, 0);
       Some (ok, out)
     }
   }"

section \<open>Wi-Fi credentials\<close>

definition be16_at :: "cptr \<Rightarrow> nat \<Rightarrow> nat \<Rightarrow> (bool \<times> nat) option" where
  "be16_at payload len offset =
     (if payload = None \<or> \<not> nero_nfc_span_ok offset 2 len then Some (False, 0)
      else do {
        msb \<leftarrow> nero_nfc_u8_at payload len offset;
        lsb \<leftarrow> nero_nfc_u8_at payload len (offset + 1);
        Some (True, be16 msb lsb)
      })"

function wsc_attr_loop :: "cptr \<Rightarrow> nat \<Rightarrow> nat \<Rightarrow> nat \<Rightarrow> (bool \<times> cptr \<times> nat) option" where
  "wsc_attr_loop payload len attr_id pos =
     (if pos + 4 \<le> len then do {
        (ok, ident) \<leftarrow> be16_at payload len pos;
        if \<not> ok then Some (False, None, 0)
        else do {
          (ok, attr_len) \<leftarrow> be16_at payload len (pos + 2);
          if \<not> ok then Some (False, None, 0)
          else if pos + 4 + attr_len > len then Some (False, None, 0)
          else if ident = attr_id
          then Some (True, if attr_len = 0 then None else ptr_add payload (pos + 4), attr_len)
          else wsc_attr_loop payload len attr_id (pos + 4 + attr_len)
        }
      } else Some (False, None, 0))"
  by pat_completeness auto
termination
  by (relation "measure (\<lambda>(payload, len, attr_id, pos). len - pos)") auto

declare wsc_attr_loop.simps [simp del]

definition wsc_attr_payload :: "cptr \<Rightarrow> nat \<Rightarrow> nat \<Rightarrow> (bool \<times> cptr \<times> nat) option" where
  "wsc_attr_payload payload len attr_id =
     (if payload = None then Some (False, None, 0) else wsc_attr_loop payload len attr_id 0)"

definition wsc_u16_name :: "cptr \<Rightarrow> nat \<Rightarrow> u8 \<Rightarrow> cptr \<Rightarrow> cptr option" where
  "wsc_u16_name value val_len lsb known =
     (if value \<noteq> None \<and> val_len = 2 then do {
        b0 \<leftarrow> nero_nfc_u8_at value val_len 0;
        b1 \<leftarrow> nero_nfc_u8_at value val_len 1;
        Some (if b0 = 0x00 \<and> b1 = lsb then known else literal ''unknown'')
      } else Some (literal ''unknown''))"

definition decode_wifi_wsc_payload :: "cptr \<Rightarrow> nat \<Rightarrow> cptr \<Rightarrow> nat \<Rightarrow> (bool \<times> cptr) option" where
  "decode_wifi_wsc_payload payload len out out_cap = do {
     (ok, credential, credential_len) \<leftarrow> wsc_attr_payload payload len 0x100E;
     if \<not> ok then Some (False, out)
     else do {
       (ok, ssid, ssid_len) \<leftarrow> wsc_attr_payload credential credential_len 0x1045;
       if \<not> ok then Some (False, out)
       else do {
         printable \<leftarrow> payload_is_display_text ssid ssid_len;
         if \<not> printable then Some (False, out)
         else do {
           (_, key, key_len) \<leftarrow> wsc_attr_payload credential credential_len 0x1027;
           (_, auth, auth_len) \<leftarrow> wsc_attr_payload credential credential_len 0x1003;
           (_, encr, encr_len) \<leftarrow> wsc_attr_payload credential credential_len 0x100F;
           key_ok \<leftarrow> (if key_len \<noteq> 0 then payload_is_display_text key key_len else Some True);
           if \<not> key_ok then Some (False, out)
           else do {
             auth_name \<leftarrow> wsc_u16_name auth auth_len 0x20 (literal ''WPA2-Personal'');
             encr_name \<leftarrow> wsc_u16_name encr encr_len 0x08 (literal ''AES'');
             (ok, out, pos) \<leftarrow>
               and_then (append_text out_cap (literal ''Wi-Fi: ssid=''))
                (and_then (append_span out_cap ssid ssid_len)
                  (and_then (append_text out_cap (literal '' auth=''))
                    (and_then (append_text out_cap auth_name)
                      (and_then (append_text out_cap (literal '' encryption=''))
                        (and_then (append_text out_cap encr_name)
                          (skip_if (key_len = 0)
                            (and_then (append_text out_cap (literal '' key=''))
                              (append_span out_cap key key_len)))))))) (out, 0);
             Some (ok, out)
           }
         }
       }
     }
   }"

section \<open>Bluetooth addresses\<close>

fun bt_addr_loop :: "cptr \<Rightarrow> nat \<Rightarrow> nat \<Rightarrow> nat \<Rightarrow> nat \<Rightarrow> cptr \<times> nat \<Rightarrow> (bool \<times> cptr \<times> nat) option" where
  "bt_addr_loop payload len out_cap i 0 st = Some (True, st)"
| "bt_addr_loop payload len out_cap i (Suc k) st =
     (let payload_index = 2 + 6 - 1 - i in
      if \<not> nero_nfc_span_ok payload_index 1 len then Some (False, st)
      else do {
        (ok, st) \<leftarrow> (if i \<noteq> 0 then append_text out_cap (literal '':'') st else Some (True, st));
        if \<not> ok then Some (False, st)
        else do {
          b \<leftarrow> nero_nfc_u8_at payload len payload_index;
          (ok, st) \<leftarrow> append_hex_u8 out_cap b st;
          if \<not> ok then Some (False, st) else bt_addr_loop payload len out_cap (i + 1) k st
        }
      })"

definition decode_bluetooth_oob_payload :: "cptr \<Rightarrow> nat \<Rightarrow> cptr \<Rightarrow> nat \<Rightarrow> (bool \<times> cptr) option" where
  "decode_bluetooth_oob_payload payload len out out_cap =
     (if payload = None \<or> len < 8 then Some (False, out)
      else do {
        b0 \<leftarrow> nero_nfc_u8_at payload len 0;
        b1 \<leftarrow> nero_nfc_u8_at payload len 1;
        if b0 < 8 \<or> b1 \<noteq> 0 then Some (False, out)
        else do {
          (ok, out, pos) \<leftarrow> append_text out_cap (literal ''Bluetooth OOB: address='') (out, 0);
          if \<not> ok then Some (False, out)
          else do {
            (ok, out, pos) \<leftarrow> bt_addr_loop payload len out_cap 0 6 (out, pos);
            Some (ok, out)
          }
        }
      })"

definition decode_mime_payload :: "cptr \<Rightarrow> nat \<Rightarrow> cptr \<Rightarrow> nat \<Rightarrow> cptr \<Rightarrow> nat \<Rightarrow> (bool \<times> cptr) option" where
  "decode_mime_payload ty type_len payload len out out_cap = do {
     vcard \<leftarrow> type_equals ty type_len (literal ''text/vcard'');
     if vcard then decode_vcard_payload payload len out out_cap
     else do {
       wsc \<leftarrow> type_equals ty type_len (literal ''application/vnd.wfa.wsc'');
       if wsc then decode_wifi_wsc_payload payload len out out_cap
       else do {
         oob \<leftarrow> type_equals ty type_len (literal ''application/vnd.bluetooth.ep.oob'');
         if oob then decode_bluetooth_oob_payload payload len out out_cap
         else Some (False, out)
       }
     }
   }"


section \<open>The summary of a record\<close>

text \<open>\<open>%u\<close>: the decimal digits of a number.\<close>

fun dec_digits :: "nat \<Rightarrow> bytes" where
  "dec_digits n = (if n < 10 then [byte (0x30 + n)] else dec_digits (n div 10) @ [byte (0x30 + n mod 10)])"

declare dec_digits.simps [simp del]

definition log_line :: "bytes \<Rightarrow> bytes" where
  "log_line s = s @ crlf"

fun print_type_field_loop :: "cptr \<Rightarrow> nat \<Rightarrow> nat \<Rightarrow> bytes option" where
  "print_type_field_loop ty i 0 = Some []"
| "print_type_field_loop ty i (Suc k) = do {
     ch \<leftarrow> rd ty i;
     rest \<leftarrow> print_type_field_loop ty (i + 1) k;
     Some ((if ch \<ge> 0x20 \<and> ch \<le> 0x7E then ch else 0x2E) # rest)
   }"

definition print_type_field :: "cptr \<Rightarrow> nat \<Rightarrow> bytes option" where
  "print_type_field ty type_len =
     (if ty = None \<and> type_len \<noteq> 0 then Some [] else print_type_field_loop ty 0 type_len)"

definition decode_uri_payload ::
    "url_store \<Rightarrow> cptr \<Rightarrow> nat \<Rightarrow> cptr \<Rightarrow> nat \<Rightarrow> (bool \<times> cptr \<times> url_store) option" where
  "decode_uri_payload st payload len out out_cap = do {
     (ok, out) \<leftarrow> nfc_ndef_decode_uri_payload payload len out out_cap;
     if \<not> ok then Some (False, out, st)
     else do {
       st \<leftarrow> remember_detected_url st out;
       Some (True, out, st)
     }
   }"

text \<open>
  The condition of the summary: the record is a URI that decodes, or a text that decodes, or a
  media type that decodes. \<open>rec\<close> points at the record, \<open>decoded\<close> is the local buffer.
\<close>

definition decode_record ::
    "url_store \<Rightarrow> cptr \<Rightarrow> ndef_record \<Rightarrow> nat \<Rightarrow> cptr \<Rightarrow> (bool \<times> cptr \<times> url_store) option" where
  "decode_record st rec parsed len decoded = do {
     let payload = ptr_add rec (rec_payload_offset parsed);
     let cap = READER_NDEF_URL_BYTES_MAX;
     (hit, decoded, st) \<leftarrow>
       (if rec_tnf parsed = 0x01 \<and> rec_type_len parsed = 1 then do {
          ty \<leftarrow> rd rec (rec_type_offset parsed);
          if ty = 0x55 then decode_uri_payload st payload len decoded cap
          else Some (False, decoded, st)
        } else Some (False, decoded, st));
     if hit then Some (True, decoded, st)
     else do {
       (hit, decoded) \<leftarrow>
         (if rec_tnf parsed = 0x01 \<and> rec_type_len parsed = 1 then do {
            ty \<leftarrow> rd rec (rec_type_offset parsed);
            if ty = 0x54 then nfc_ndef_decode_text_payload payload len decoded cap
            else Some (False, decoded)
          } else Some (False, decoded));
       if hit then Some (True, decoded, st)
       else if rec_tnf parsed = 0x02 then do {
         (hit, decoded) \<leftarrow> decode_mime_payload (ptr_add rec (rec_type_offset parsed))
           (rec_type_len parsed) payload len decoded cap;
         Some (hit, decoded, st)
       } else Some (False, decoded, st)
     }
   }"

definition print_ndef_record_summary ::
    "url_store \<Rightarrow> cptr \<Rightarrow> ndef_record \<Rightarrow> nat \<Rightarrow> (bytes \<times> url_store) option" where
  "print_ndef_record_summary st rec parsed record_num =
     (if rec = None then Some ([], st)
      else if \<not> nero_nfc_span_ok (rec_type_offset parsed) (rec_type_len parsed) (rec_record_len parsed) \<or>
        rec_payload_offset parsed > rec_record_len parsed then Some ([], st)
      else do {
        let len =
          (if \<not> nero_nfc_span_ok (rec_payload_offset parsed) (rec_payload_len parsed)
             (rec_record_len parsed)
           then rec_record_len parsed - rec_payload_offset parsed else rec_payload_len parsed);
        ty \<leftarrow> print_type_field (ptr_add rec (rec_type_offset parsed)) (rec_type_len parsed);
        (hit, decoded, st) \<leftarrow> decode_record st rec parsed len
          (Some (replicate READER_NDEF_URL_BYTES_MAX 0));
        let shown = (if hit then ascii '' Decoded='' @ [0x22] @ cstr (the decoded) @ [0x22] else []);
        Some (ascii ''  Record #'' @ dec_digits record_num @ ascii '': TNF='' @
              dec_digits (unat (rec_tnf parsed)) @ ascii '' Type='' @ ty @ ascii '' Payload='' @
              dec_digits len @ ascii ''B'' @ shown @ crlf, st)
      })"

section \<open>Walking a message and a tag\<close>

text \<open>\<open>len\<close> is a \<open>uint16_t\<close>: the bound in the loop condition is its type.\<close>

function print_ndef_records_loop ::
    "cptr \<Rightarrow> nat \<Rightarrow> nat \<Rightarrow> nat \<Rightarrow> bytes \<Rightarrow> url_store \<Rightarrow> (bytes \<times> url_store) option" where
  "print_ndef_records_loop data len pos record_num log st =
     (if pos < len \<and> len \<le> UINT16_MAX then
        (case nfc_ndef_record_next data len pos of
           None \<Rightarrow> None
         | Some (status, rec, nxt) \<Rightarrow>
             if status = NDEF_RECORD_EMPTY
             then print_ndef_records_loop data len nxt record_num log st
             else if status = NDEF_RECORD_UNSUPPORTED
             then Some (log @ log_line (ascii ''  (chunked NDEF record '' @ [0xE2, 0x80, 0x94] @
                          ascii '' unsupported)''), st)
             else if status \<noteq> NDEF_RECORD_OK then Some (log, st)
             else
               (case print_ndef_record_summary st (ptr_add data pos) rec (u8n (record_num + 1)) of
                  None \<Rightarrow> None
                | Some (line, st) \<Rightarrow>
                    if rec_message_end rec then Some (log @ line, st)
                    else print_ndef_records_loop data len nxt (u8n (record_num + 1)) (log @ line) st))
      else Some (log, st))"
  by pat_completeness auto
termination
proof (relation "measure (\<lambda>(data, len, pos, n, log, st). len - pos)", goal_cases)
  case (2 data len pos record_num log st x2 status b rec nxt)
  then show ?case using record_next_progress [of data len pos status rec nxt] by auto
next
  case (3 data len pos record_num log st x2 status b rec nxt)
  then show ?case using record_next_progress [of data len pos status rec nxt] by auto
qed simp

declare print_ndef_records_loop.simps [simp del]

definition reader_tags_print_ndef_records ::
    "cptr \<Rightarrow> nat \<Rightarrow> url_store \<Rightarrow> (bytes \<times> url_store) option" where
  "reader_tags_print_ndef_records data len st =
     (if data = None then Some ([], st) else print_ndef_records_loop data len 0 0 [] st)"

function parse_tlv_area_loop ::
    "cptr \<Rightarrow> nat \<Rightarrow> nat \<Rightarrow> bool \<Rightarrow> bytes \<Rightarrow> url_store \<Rightarrow> (bytes \<times> url_store) option" where
  "parse_tlv_area_loop data len pos printed log st =
     (if pos < len then
        (case nfc_ndef_tlv_next data len pos of
           None \<Rightarrow> None
         | Some (status, tlv, nxt) \<Rightarrow>
             if status = TLV_TRUNCATED
             then Some (log @ log_line (ascii ''  NDEF TLV truncated''), st)
             else if status \<noteq> TLV_OK
             then Some (log @ (if printed then [] else log_line (ascii ''  NDEF message: 0 bytes'')), st)
             else if tlv_type tlv = 0x03 then
               (let log = log @ ascii ''  NDEF message: '' @ dec_digits (value_len tlv) @
                      log_line (ascii '' bytes'') in
                if \<not> nero_nfc_span_ok (value_offset tlv) (value_len tlv) len then Some (log, st)
                else
                  (case reader_tags_print_ndef_records (ptr_add data (value_offset tlv))
                          (value_len tlv) st of
                     None \<Rightarrow> None
                   | Some (shown, st) \<Rightarrow> parse_tlv_area_loop data len nxt True (log @ shown) st))
             else parse_tlv_area_loop data len nxt printed log st)
      else Some (log @ (if printed then [] else log_line (ascii ''  NDEF message: 0 bytes'')), st))"
  by pat_completeness auto
termination
  by (relation "measure (\<lambda>(data, len, pos, p, log, st). len - pos)")
    (auto dest!: tlv_next_progress)

declare parse_tlv_area_loop.simps [simp del]

definition reader_tags_parse_ndef_tlv_area ::
    "cptr \<Rightarrow> nat \<Rightarrow> nat \<Rightarrow> url_store \<Rightarrow> (bytes \<times> url_store) option" where
  "reader_tags_parse_ndef_tlv_area data len start_offset st =
     (if data = None \<or> start_offset > len then Some ([], st)
      else parse_tlv_area_loop data len start_offset False [] st)"

end
