(* ===== verification/NdefRoundtrip.thy ===== *)
theory NdefRoundtrip
  imports WriterPayload NdefText
begin

text \<open>
  What the writer writes, the reader shows: for each kind of content, the record the builder of
  \<^verbatim>\<open>writer_payload.c\<close> emits, and the text the decoders of \<^verbatim>\<open>reader_tags_ndef_print.c\<close> make of it.
\<close>

section \<open>The emitted records\<close>

text \<open>A string argument: its characters, the terminator, whatever follows.\<close>

lemma strlen_ok:
  "0 \<notin> set xs \<Longrightarrow> length xs < cap \<Longrightarrow>
    nero_nfc_bounded_strlen (Some (xs @ 0 # rest)) cap = Some (Some (length xs))"
  by (rule bounded_strlen_terminated)

lemma enumerate_few:
  "enumerate 0 [a, b, c] = [(0, a), (1, b), (2, c)]"
  "enumerate 0 [a, b, c, d, e] = [(0, a), (1, b), (2, c), (3, d), (4, e)]"
  "enumerate p [a, b, c, d] = [(p, a), (p + 1, b), (p + 2, c), (p + 3, d)]"
  by (simp_all add: eval_nat_numeral)

lemma emit_uri_eq:
  assumes "unat uid < URI_PREFIX_CODE_COUNT" "0 \<notin> set uri" "uri \<noteq> []" "length uri \<le> 220"
    "5 + length uri \<le> cap" "cap \<le> length out" "cap \<le> UINT16_MAX"
  shows "ndef_emit_uri (Some out) cap uid (Some (uri @ 0 # rest)) =
    Some (5 + length uri, Some (patch out 0 (record_image 0xD1 [0x55] [] (uid # uri))))"
proof -
  let ?head = "[0xD1, 1, byte (1 + length uri), 0x55, uid]"
  have im: "record_image 0xD1 [0x55] [] (uid # uri) = ?head @ uri"
    by (simp add: record_image_def record_len_field_def)
  have st: "store_seq (Some out) cap [(0, 0x80 OR 0x40 OR 0x10 OR 0x01), (1, 1),
      (2, byte (u16n (1 + length uri))), (3, 0x55), (4, uid)] = Some (True, Some (patch out 0 ?head))"
    by (rule store_seq_prefix) (use assms in \<open>simp_all add: enumerate_few del: enumerate_simps\<close>)
  have pl: "patch (patch out 0 ?head) 5 uri = patch out 0 (?head @ uri)"
    by (rule patch_patch) (use assms in simp_all)
  have "0 < length uri" using assms(3) by (simp add: length_greater_0_conv)
  then show ?thesis
    using assms st pl unfolding ndef_emit_uri_def im by (simp add: strlen_ok del: store_seq.simps)
qed


lemma emit_text_eq:
  assumes "0 \<notin> set txt" "length txt \<le> 200" "7 + length txt \<le> cap" "cap \<le> length out"
    "cap \<le> UINT16_MAX"
  shows "ndef_emit_text (Some out) cap (Some (txt @ 0 # rest)) =
    Some (7 + length txt, Some (patch out 0 (record_image 0xD1 [0x54] [] (0x02 # ascii ''en'' @ txt))))"
proof -
  let ?head = "[0xD1, 1, byte (3 + length txt), 0x54, 2]"
  have im: "record_image 0xD1 [0x54] [] (0x02 # ascii ''en'' @ txt) = ?head @ ascii ''en'' @ txt"
    by (simp add: record_image_def record_len_field_def numeral_3_eq_3)
  have en: "length EN_LANG = 2" by (simp add: EN_LANG_def)
  have st: "store_seq (Some out) cap [(0, 0x80 OR 0x40 OR 0x10 OR 0x01), (1, 1),
      (2, byte (u16n (1 + 2 + length txt))), (3, 0x54), (4, 2)] = Some (True, Some (patch out 0 ?head))"
    by (rule store_seq_prefix) (use assms in \<open>simp_all add: enumerate_few del: enumerate_simps\<close>)
  have p1: "patch (patch out 0 ?head) 5 EN_LANG = patch out 0 (?head @ EN_LANG)"
    by (rule patch_patch) (use assms en in simp_all)
  have p2: "patch (patch out 0 (?head @ EN_LANG)) 7 txt = patch out 0 ((?head @ EN_LANG) @ txt)"
    by (rule patch_patch) (use assms en in simp_all)
  show ?thesis
    using assms st p1 p2 en unfolding ndef_emit_text_def im
    by (simp add: strlen_ok EN_LANG_def [symmetric] del: store_seq.simps)
qed

lemma emit_mime_eq:
  assumes "0 \<notin> set mime" "mime \<noteq> []" "length mime \<le> 60" "length payload < 255"
    "3 + length mime + length payload \<le> cap" "cap \<le> length out" "cap \<le> UINT16_MAX"
  shows "ndef_emit_mime_sr (Some out) cap (Some (mime @ 0 # rest)) (Some (payload @ rest')) (length payload) =
    Some (3 + length mime + length payload, Some (patch out 0 (record_image 0xD2 mime [] payload)))"
proof -
  let ?head = "[0xD2, byte (length mime), byte (length payload)]"
  have im: "record_image 0xD2 mime [] payload = (?head @ mime) @ payload"
    by (simp add: record_image_def record_len_field_def)
  have st: "store_seq (Some out) cap [(0, 0x80 OR 0x40 OR 0x10 OR 0x02), (1, byte (length mime)),
      (2, byte (length payload))] = Some (True, Some (patch out 0 ?head))"
    by (rule store_seq_prefix) (use assms in \<open>simp_all add: enumerate_few del: enumerate_simps\<close>)
  have p1: "patch (patch out 0 ?head) 3 mime = patch out 0 (?head @ mime)"
    by (rule patch_patch) (use assms in simp_all)
  have p2: "patch (patch out 0 (?head @ mime)) (3 + length mime) payload =
      patch out 0 ((?head @ mime) @ payload)"
    by (rule patch_patch) (use assms in simp_all)
  have "0 < length mime" using assms(2) by (simp add: length_greater_0_conv)
  then show ?thesis
    using assms st p1 p2 unfolding ndef_emit_mime_sr_def im
    by (simp add: strlen_ok del: store_seq.simps)
qed

section \<open>Wi-Fi credentials\<close>

definition wsc_attr :: "nat \<Rightarrow> bytes \<Rightarrow> bytes" where
  "wsc_attr attr v = [byte (attr div 256), byte attr, byte (length v div 256), byte (length v)] @ v"

lemma length_wsc_attr [simp]: "length (wsc_attr attr v) = 4 + length v"
  by (simp add: wsc_attr_def)

lemma wps_put_attr_eq:
  assumes "pos + 4 + length v \<le> cap" "cap \<le> length buf" "cap \<le> UINT16_MAX" "attr < 65536"
    and buf: "buf = patch old 0 pre" "length pre = pos"
  shows "wps_put_attr (Some buf) cap pos attr (Some (v @ rest)) (length v) =
    Some (True, Some (patch old 0 (pre @ wsc_attr attr v)), pos + 4 + length v)"
proof -
  let ?h = "[byte (attr div 256), byte attr, byte (length v div 256), byte (length v)]"
  have lo: "length old = length buf \<or> True" by simp
  have len: "pos + 4 + length v \<le> length old"
  proof -
    have "length buf = length pre + (length old - length pre)" unfolding buf(1) by (simp add: patch_def)
    then show ?thesis using assms(1,2) buf(2) by linarith
  qed
  have st: "store_seq (Some buf) cap [(pos, byte (drop_bit 8 attr)), (u16n (pos + 1), byte (attr AND 0xFF)),
      (u16n (pos + 2), byte (drop_bit 8 (length v))), (u16n (pos + 3), byte (length v AND 0xFF))] =
      Some (True, Some (patch buf pos ?h))"
    by (rule store_seq_prefix)
      (use assms in \<open>simp_all add: enumerate_few drop_bit_eq_div del: enumerate_simps\<close>)
  have p1: "patch buf pos ?h = patch old 0 (pre @ ?h)"
    unfolding buf(1) by (rule patch_patch) (use len buf(2) in simp_all)
  have p2: "patch (patch old 0 (pre @ ?h)) (pos + 4) v = patch old 0 ((pre @ ?h) @ v)"
    by (rule patch_patch) (use len buf(2) in simp_all)
  have add: "Option.bind (nero_nfc_try_add_size pos 4) (\<lambda>needed. nero_nfc_try_add_size needed (length v)) =
      Some (pos + 4 + length v)" using assms(1,3) by simp
  have eq: "pre @ wsc_attr attr v = (pre @ ?h) @ v" by (simp add: wsc_attr_def)
  have "wps_put_attr (Some buf) cap pos attr (Some (v @ rest)) (length v) = do {
      (ok, b) \<leftarrow> (if length v \<noteq> 0 then
          nero_nfc_copy_bytes (Some (patch old 0 (pre @ ?h))) cap (u16n (pos + 4)) (Some (v @ rest)) (length v)
        else Some (True, Some (patch old 0 (pre @ ?h))));
      if \<not> ok then Some (False, b, pos) else Some (True, b, u16n (u16n (pos + 4) + length v)) }"
    using assms(1) unfolding wps_put_attr_def add option.case st p1 by simp
  also have "\<dots> = Some (True, Some (patch old 0 (pre @ wsc_attr attr v)), pos + 4 + length v)"
    using assms(1,2,3) len p2 buf unfolding eq by (cases "v = []") simp_all
  finally show ?thesis .
qed

definition wsc_inner :: "bytes \<Rightarrow> bytes \<Rightarrow> bytes" where
  "wsc_inner ssid psk = wsc_attr 0x1026 [1] @ wsc_attr 0x1045 ssid @ wsc_attr 0x1003 [0, 0x20] @
     wsc_attr 0x100F [0, 8] @ wsc_attr 0x1027 psk @ wsc_attr 0x1020 [0, 0, 0, 0, 0, 0]"

definition wsc_blob :: "bytes \<Rightarrow> bytes \<Rightarrow> bytes" where
  "wsc_blob ssid psk = WSC_VERSION @ wsc_attr 0x100E (wsc_inner ssid psk)"

lemma length_wsc_inner: "length (wsc_inner ssid psk) = 35 + length ssid + length psk"
  by (simp add: wsc_inner_def)

lemma length_wsc_version: "length WSC_VERSION = 5"
  by (simp add: WSC_VERSION_def)

lemma length_wsc_blob: "length (wsc_blob ssid psk) = 44 + length ssid + length psk"
  by (simp add: wsc_blob_def length_wsc_inner length_wsc_version)


lemma wps_put_attrs_eq:
  assumes "length pre + length (concat (map (\<lambda>(a, v, r). wsc_attr a v) items)) \<le> cap"
    and "cap \<le> length old" "cap \<le> UINT16_MAX" "\<forall>(a, v, r) \<in> set items. a < 65536"
  shows "wps_put_attrs (Some (patch old 0 pre)) cap (length pre)
      (map (\<lambda>(a, v, r). (a, Some (v @ r), length v)) items) =
    Some (True, Some (patch old 0 (pre @ concat (map (\<lambda>(a, v, r). wsc_attr a v) items))),
      length pre + length (concat (map (\<lambda>(a, v, r). wsc_attr a v) items)))"
  using assms(1,4)
proof (induction items arbitrary: pre)
  case Nil
  then show ?case by simp
next
  case (Cons item items)
  obtain a v r where item: "item = (a, v, r)" by (cases item)
  have "wps_put_attr (Some (patch old 0 pre)) cap (length pre) a (Some (v @ r)) (length v) =
      Some (True, Some (patch old 0 (pre @ wsc_attr a v)), length pre + 4 + length v)"
    by (rule wps_put_attr_eq) (use Cons.prems assms(2,3) item in simp_all)
  moreover have "length pre + 4 + length v = length (pre @ wsc_attr a v)" by simp
  moreover have "length (pre @ wsc_attr a v) +
      length (concat (map (\<lambda>(a, v, r). wsc_attr a v) items)) \<le> cap"
    using Cons.prems item by simp
  ultimately show ?case
    using Cons.IH [of "pre @ wsc_attr a v"] Cons.prems(2) item by (simp add: add.assoc)
qed

lemma build_wifi_eq:
  assumes "0 \<notin> set ssid" "ssid \<noteq> []" "length ssid \<le> 32" "0 \<notin> set psk" "8 \<le> length psk" "length psk \<le> 63"
  shows "\<exists>tail. build_wifi_wsc (Some (replicate 200 0)) 200 0 (Some (ssid @ 0 # r1)) (Some (psk @ 0 # r2)) =
    Some (True, Some (wsc_blob ssid psk @ tail), 44 + length ssid + length psk)"
proof -
  define sl kl where "sl = length ssid" and "kl = length psk"
  note b = assms(3,5,6) [folded sl_def kl_def]
  have sl0: "0 < sl" using assms(2) by (simp add: sl_def length_greater_0_conv)
  define old :: bytes where "old = replicate 140 0"
  have lo: "length old = 140" by (simp add: old_def)
  let ?items = "[(0x1026, [1], []), (0x1045, ssid, 0 # r1), (0x1003, [0, 0x20], []),
      (0x100F, [0, 8], []), (0x1027, psk, 0 # r2), (0x1020, [0, 0, 0, 0, 0, 0], [])] :: (nat \<times> bytes \<times> bytes) list"
  have six: "length [1 :: u8] = 1" "length [0, 0x20 :: u8] = 2" "length [0, 8 :: u8] = 2"
    "length [0, 0, 0, 0, 0, 0 :: u8] = 6" by simp_all
  have args: "map (\<lambda>(a, v, r). (a, Some (v @ r), length v)) ?items =
     [(0x1026, Some [0x01], 1), (0x1045, Some (ssid @ 0 # r1), sl), (0x1003, Some [0x00, 0x20], 2),
      (0x100F, Some [0x00, 0x08], 2), (0x1027, Some (psk @ 0 # r2), kl),
      (0x1020, Some [0, 0, 0, 0, 0, 0], 6)]"
    by (simp only: list.map prod.case append_Nil2 six sl_def kl_def)
  have cat: "concat (map (\<lambda>(a, v, r). wsc_attr a v) ?items) = wsc_inner ssid psk"
    by (simp add: wsc_inner_def)
  have inner: "wps_put_attrs (Some old) 140 0
     [(0x1026, Some [0x01], 1), (0x1045, Some (ssid @ 0 # r1), sl), (0x1003, Some [0x00, 0x20], 2),
      (0x100F, Some [0x00, 0x08], 2), (0x1027, Some (psk @ 0 # r2), kl),
      (0x1020, Some [0, 0, 0, 0, 0, 0], 6)] =
     Some (True, Some (patch old 0 (wsc_inner ssid psk)), 35 + sl + kl)"
    using wps_put_attrs_eq [of "[]" ?items 140 old] b lo unfolding args cat
    by (simp add: length_wsc_inner sl_def [symmetric] kl_def [symmetric] del: wps_put_attrs.simps)
  have ip: "patch old 0 (wsc_inner ssid psk) = wsc_inner ssid psk @ drop (35 + sl + kl) old"
    by (simp add: patch_def length_wsc_inner sl_def kl_def)
  define z :: bytes where "z = replicate 144 0"
  have lz: "length z = 144" by (simp add: z_def)
  have cred: "wps_put_attr (Some z) 144 0 0x100E (Some (patch old 0 (wsc_inner ssid psk))) (35 + sl + kl) =
      Some (True, Some (patch z 0 (wsc_attr 0x100E (wsc_inner ssid psk))), 39 + sl + kl)"
    using wps_put_attr_eq [of 0 "wsc_inner ssid psk" 144 z "0x100E" z "[]" "drop (35 + sl + kl) old"] b lz
    by (simp add: ip length_wsc_inner sl_def [symmetric] kl_def [symmetric])
  define c where "c = wsc_attr 0x100E (wsc_inner ssid psk)"
  have lc: "length c = 39 + sl + kl" by (simp add: c_def length_wsc_inner sl_def kl_def)
  define w :: bytes where "w = replicate 200 0"
  have lw: "length w = 200" by (simp add: w_def)
  have q1: "nero_nfc_copy_bytes (Some w) 200 0 (Some WSC_VERSION) 5 = Some (True, Some (patch w 0 WSC_VERSION))"
    using lw length_wsc_version by simp
  have tk: "take (39 + sl + kl) (patch z 0 c) = c"
    using take_patch_front [of c z] lc lz b by simp
  have q2: "nero_nfc_copy_bytes (Some (patch w 0 WSC_VERSION)) 200 5 (Some (patch z 0 c)) (39 + sl + kl) =
      Some (True, Some (patch (patch w 0 WSC_VERSION) 5 c))"
    using lw lz lc length_wsc_version b tk by simp
  have q3: "patch (patch w 0 WSC_VERSION) 5 c = patch w 0 (WSC_VERSION @ c)"
    by (rule patch_patch) (use lw lc length_wsc_version b in simp_all)
  have m: "nero_nfc_bounded_strlen (Some (ssid @ 0 # r1)) (32 + 1) = Some (Some sl)"
    "nero_nfc_bounded_strlen (Some (psk @ 0 # r2)) (63 + 1) = Some (Some kl)"
    unfolding sl_def kl_def using assms by (simp_all add: bounded_strlen_terminated)
  have "build_wifi_wsc (Some w) 200 0 (Some (ssid @ 0 # r1)) (Some (psk @ 0 # r2)) =
      Some (True, Some (patch w 0 (WSC_VERSION @ c)), 44 + sl + kl)"
    using inner cred q1 q2 b sl0 unfolding build_wifi_wsc_def m q3 old_def [symmetric] z_def [symmetric] c_def [symmetric]
    by (simp add: length_wsc_version del: wps_put_attrs.simps)
  moreover have "patch w 0 (WSC_VERSION @ c) = wsc_blob ssid psk @ drop (44 + sl + kl) w"
    by (simp add: patch_def wsc_blob_def c_def [symmetric] lc length_wsc_version add.assoc)
  ultimately show ?thesis unfolding w_def sl_def kl_def by auto
qed


section \<open>Bluetooth addresses\<close>

definition hex_digit :: "nat \<Rightarrow> u8" where
  "hex_digit n = byte (if n < 10 then 0x30 + n else 0x37 + n)"

definition hex_byte :: "u8 \<Rightarrow> bytes" where
  "hex_byte b = [hex_digit (unat b div 16), hex_digit (unat b mod 16)]"

definition upper :: "u8 \<Rightarrow> u8" where
  "upper c = (if c \<ge> 0x61 \<and> c \<le> 0x66 then c - 0x20 else c)"

fun bt_text :: "bytes \<Rightarrow> bytes" where
  "bt_text [] = []"
| "bt_text [m] = hex_byte m"
| "bt_text (m # n # ms) = hex_byte m @ [0x3A] @ bt_text (n # ms)"

lemma upper_eqD: "upper c = d \<Longrightarrow> c = d \<or> (c = d + 0x20 \<and> c \<ge> 0x61 \<and> c \<le> 0x66)"
  by (auto simp: upper_def split: if_splits)

lemma hex_nibble_digit:
  assumes "upper c = hex_digit n" "n < 16"
  shows "nfc_hex_nibble c = int n"
proof -
  have "n \<in> {0, 1, 2, 3, 4, 5, 6, 7, 8, 9, 10, 11, 12, 13, 14, 15}"
    using assms(2) unfolding insert_iff empty_iff by presburger
  with upper_eqD [OF assms(1)] show ?thesis
    by (elim insertE emptyE disjE conjE) (simp_all add: hex_digit_def nfc_hex_nibble_def)
qed

lemma upper_colon: "upper c = 0x3A \<Longrightarrow> c = 0x3A"
  using upper_eqD [of c "0x3A"] by auto

lemma nibbles_byte:
  "a < 16 \<Longrightarrow> b < 16 \<Longrightarrow> byte (nat (push_bit 4 (int a) OR int b)) = byte (16 * a + b)"
  using or_disjoint_nat [of b 4 a] by (simp add: push_bit_of_nat flip: of_nat_or_eq) (simp add: nat_add_distrib nat_mult_distrib mult.commute)

lemma bt_octet:
  assumes "upper c1 = hex_digit (unat m div 16)" "upper c2 = hex_digit (unat m mod 16)"
  shows "nfc_hex_nibble c1 \<ge> 0" "nfc_hex_nibble c2 \<ge> 0"
    "byte (nat (push_bit 4 (nfc_hex_nibble c1) OR nfc_hex_nibble c2)) = m"
proof -
  have d: "unat m div 16 < 16" using unat_u8_bound [of m] by (simp add: div_less_iff_less_mult del: unat_u8_bound)
  note n = hex_nibble_digit [OF assms(1) d] hex_nibble_digit [OF assms(2)]
  then show "nfc_hex_nibble c1 \<ge> 0" "nfc_hex_nibble c2 \<ge> 0" by simp_all
  show "byte (nat (push_bit 4 (nfc_hex_nibble c1) OR nfc_hex_nibble c2)) = m"
    using n nibbles_byte [OF d, of "unat m mod 16"] by simp
qed

lemma parse_bt_mac_loop_eq:
  assumes "drop p bs = xs @ rest" "map upper xs = bt_text ms" "length ms = k"
  shows "parse_bt_mac_loop (Some bs) p k acc = Some (True, p + length xs, acc @ ms)"
  using assms
proof (induction ms arbitrary: p xs k acc rule: bt_text.induct)
  case 1
  then show ?case by simp
next
  case (2 m)
  then obtain c1 c2 where xs: "xs = [c1, c2]" and u: "upper c1 = hex_digit (unat m div 16)"
    "upper c2 = hex_digit (unat m mod 16)" by (auto simp: hex_byte_def map_eq_Cons_conv)
  have len: "p + 1 < length bs" using arg_cong [OF "2.prems"(1), of length] xs by simp
  have n: "bs ! p = c1" "bs ! (p + 1) = c2"
    using "2.prems"(1) xs len hd_drop_conv_nth [of p bs] nth_drop [of p bs 1] by simp_all
  have k: "k = Suc 0" using "2.prems"(3) by simp
  show ?case unfolding k using len n bt_octet [OF u] xs by simp
next
  case (3 m n ms)
  then obtain c1 c2 c3 ys where xs: "xs = c1 # c2 # c3 # ys" and u: "upper c1 = hex_digit (unat m div 16)"
    "upper c2 = hex_digit (unat m mod 16)" and c: "upper c3 = 0x3A" and ys: "map upper ys = bt_text (n # ms)"
    by (auto simp: hex_byte_def map_eq_Cons_conv)
  have len: "p + 2 < length bs" using arg_cong [OF "3.prems"(1), of length] xs by simp
  have nth: "bs ! p = c1" "bs ! (p + 1) = c2" "bs ! (p + 2) = c3"
    using "3.prems"(1) xs len nth_drop [of p bs 0] nth_drop [of p bs 1] nth_drop [of p bs 2] by simp_all
  have "drop (p + 3) bs = drop 3 (drop p bs)" by (simp add: add.commute)
  then have d: "drop (p + 3) bs = ys @ rest" using "3.prems"(1) xs by simp
  obtain k' where k: "k = Suc k'" "length (n # ms) = k'" using "3.prems"(3) by simp
  then have k0: "0 < k'" by auto
  have "parse_bt_mac_loop (Some bs) p k acc = parse_bt_mac_loop (Some bs) (p + 3) k' (acc @ [m])"
    using len nth k k0 bt_octet [OF u] upper_colon [OF c] by simp
  with "3.IH" [OF d ys k(2)] xs show ?case by simp
qed

lemma length_bt_text: "ms \<noteq> [] \<Longrightarrow> length (bt_text ms) = 3 * length ms - 1"
  by (induction ms rule: bt_text.induct) (simp_all add: hex_byte_def)

lemma parse_bt_mac_eq:
  assumes "map upper xs = bt_text mac" "length mac = 6"
  shows "parse_bt_mac (Some (xs @ 0 # rest)) = Some (True, mac)" and "length xs = 17"
proof -
  show "length xs = 17"
    using arg_cong [OF assms(1), of length] length_bt_text [of mac] assms(2) by (cases mac) auto
  have "parse_bt_mac_loop (Some (xs @ 0 # rest)) 0 6 [] = Some (True, length xs, mac)"
    using parse_bt_mac_loop_eq [of 0 "xs @ 0 # rest" xs "0 # rest" mac 6 "[]"] assms by simp
  then show "parse_bt_mac (Some (xs @ 0 # rest)) = Some (True, mac)"
    by (simp add: parse_bt_mac_def)
qed


section \<open>Strings\<close>

lemma cstr_terminated [simp]: "0 \<notin> set xs \<Longrightarrow> cstr (xs @ 0 # r) = xs"
  by (induction xs) auto

lemma snprintf_eq:
  assumes "length txt < cap" "cap \<le> length buf"
  shows "nero_nfc_snprintf (Some buf) cap txt =
      Some (int (length txt), Some (txt @ 0 # drop (length txt + 1) buf))"
    and "nero_nfc_snprintf_fits (int (length txt)) cap"
proof -
  have "take (cap - 1) txt @ [0] = txt @ [0]" using assms(1) by simp
  then show "nero_nfc_snprintf (Some buf) cap txt =
      Some (int (length txt), Some (txt @ 0 # drop (length txt + 1) buf))"
    using assms by (auto simp: nero_nfc_snprintf_def nero_nfc_vsnprintf_def nero_nfc_snprintf_ok_def
        patch_def)
  show "nero_nfc_snprintf_fits (int (length txt)) cap"
    using assms(1) by (simp add: nero_nfc_snprintf_fits_def)
qed

lemma emit_formatted_uri_eq:
  assumes "0 \<notin> set uri" "uri \<noteq> []" "length uri \<le> 220" "220 < n"
    "5 + length uri \<le> cap" "cap \<le> length out" "cap \<le> UINT16_MAX"
  shows "emit_formatted_uri (Some out) cap n uri =
    Some (5 + length uri, Some (patch out 0 (record_image 0xD1 [0x55] [] (0 # uri))))"
  using assms snprintf_eq [of uri n "replicate n 0"] emit_uri_eq [of 0 uri cap out]
  by (simp add: emit_formatted_uri_def del: drop_replicate)

lemma copy_span_eq:
  assumes "0 \<notin> set xs" "length xs < cap" "length xs < n" "n \<le> length dst" "n \<le> UINT16_MAX"
  shows "writer_copy_cstr_from_span (Some dst) n (Some (xs @ 0 # r)) cap =
    Some (True, Some (xs @ 0 # drop (length xs + 1) dst))"
proof -
  have "(patch dst 0 xs)[length xs := 0] = patch dst 0 (xs @ [0])"
    by (rule patch_update) (use assms in simp_all)
  also have "\<dots> = xs @ 0 # drop (length xs + 1) dst" by (simp add: patch_def)
  finally show ?thesis using assms
    by (simp add: writer_copy_cstr_from_span_def bounded_strlen_terminated)
qed

definition before_bar :: "bytes \<Rightarrow> bytes" where
  "before_bar s = takeWhile (\<lambda>c. c \<noteq> 0x7C) s"

definition after_bar :: "bytes \<Rightarrow> bytes" where
  "after_bar s = drop (length (before_bar s) + 1) s"

lemma split_str2_eq:
  assumes "0 \<notin> set s" "length s < 120"
  shows "\<exists>r1 r2. split_str2 (s @ 0 # r) (length s) =
      Some (True, Some (before_bar s @ 0 # r1), Some (after_bar s @ 0 # r2)) \<and>
    length (before_bar s @ 0 # r1) = 120 \<and> length (after_bar s @ 0 # r2) = 120"
proof -
  let ?z = "replicate 120 0 :: bytes" and ?n = "length (before_bar s)"
  have n: "?n \<le> length s" by (simp add: before_bar_def length_takeWhile_le)
  have b0: "0 \<notin> set (before_bar s)" "0 \<notin> set (after_bar s)"
    using assms(1) by (auto simp: before_bar_def after_bar_def dest: set_takeWhileD in_set_dropD)
  have tk: "take (length s) (s @ 0 # r) = s" by simp
  show ?thesis
  proof (cases "?n < length s")
    case True
    have la: "length (after_bar s) = length s - ?n - 1" by (simp add: after_bar_def)
    have pre: "take ?n (s @ 0 # r) = before_bar s"
      using n by (simp add: before_bar_def takeWhile_eq_take [symmetric])
    have c1: "nero_nfc_copy_bytes (Some ?z) 120 0 (Some (s @ 0 # r)) ?n = Some (True, Some (patch ?z 0 (before_bar s)))"
      using copy_bytes_ok [of 0 ?n 120 ?z "s @ 0 # r"] assms(2) n pre by simp
    have w1: "wr (Some (patch ?z 0 (before_bar s))) ?n 0 =
        Some (Some (before_bar s @ 0 # drop (?n + 1) ?z))"
    proof -
      have "(patch ?z 0 (before_bar s))[?n := 0] = patch ?z 0 (before_bar s @ [0])"
        by (rule patch_update) (use assms(2) n in simp_all)
      then show ?thesis using assms(2) n by (simp add: patch_def)
    qed
    have "drop (?n + 1) (s @ 0 # r) = after_bar s @ 0 # r" using True by (simp add: after_bar_def)
    then have c2: "writer_copy_cstr_from_span (Some ?z) 120 (ptr_add (Some (s @ 0 # r)) (?n + 1))
        (length s - ?n) = Some (True, Some (after_bar s @ 0 # drop (length (after_bar s) + 1) ?z))"
      using copy_span_eq [OF b0(2), of "length s - ?n" 120 ?z r] la True assms(2)
      by (simp del: drop_replicate)
    show ?thesis
      using True assms(2) n c1 w1 c2 la unfolding split_str2_def tk before_bar_def [symmetric]
      by (simp add: Let_def del: drop_replicate)
  next
    case False
    then have all: "before_bar s = s" using n
      by (metis before_bar_def le_neq_implies_less take_all_iff takeWhile_eq_take nle_le)
    then have none: "after_bar s = []" by (simp add: after_bar_def)
    have "writer_copy_cstr (Some ?z) 120 (Some (s @ 0 # r)) =
        Some (True, Some (s @ 0 # drop (length s + 1) ?z))"
      using copy_span_eq [OF assms(1), of 120 120 ?z r] assms(2)
      by (simp add: writer_copy_cstr_def del: drop_replicate)
    moreover have "?z = 0 # replicate 119 0" by (simp add: numeral_eq_Suc)
    ultimately show ?thesis
      using False assms(2) n unfolding split_str2_def tk before_bar_def [symmetric] all none
      by (simp add: Let_def del: drop_replicate)
  qed
qed


section \<open>Contents\<close>

text \<open>
  What a message is about, independently of the code: the record it is stored as, the text a
  reader shows for it, and the limits within which the writer stores it.
\<close>

datatype ndef_content =
  Uri u8 bytes | Plain bytes | Contact bytes bytes bytes | Wifi bytes bytes | Bluetooth bytes

fun content_record :: "ndef_content \<Rightarrow> u8 \<times> bytes \<times> bytes" where
  "content_record (Uri code rest) = (0xD1, [0x55], code # rest)"
| "content_record (Plain txt) = (0xD1, [0x54], 0x02 # ascii ''en'' @ txt)"
| "content_record (Contact name tel email) = (0xD2, VCARD_MIME, vcard_text name tel email)"
| "content_record (Wifi ssid psk) = (0xD2, WSC_MIME, wsc_blob ssid psk)"
| "content_record (Bluetooth mac) = (0xD2, BT_OOB_MIME, 8 # 0 # rev mac)"

definition content_image :: "ndef_content \<Rightarrow> bytes" where
  "content_image c = (case content_record c of (hdr, ty, payload) \<Rightarrow> record_image hdr ty [] payload)"

fun content_text :: "ndef_content \<Rightarrow> bytes" where
  "content_text (Uri code rest) = NFC_NDEF_URI_PREFIXES ! unat code @ rest"
| "content_text (Plain txt) = txt"
| "content_text (Contact name tel email) = ascii ''Contact: name='' @ name @
     (if tel = [] then [] else ascii '' tel='' @ tel) @
     (if email = [] then [] else ascii '' email='' @ email)"
| "content_text (Wifi ssid psk) = ascii ''Wi-Fi: ssid='' @ ssid @ ascii '' auth='' @
     ascii ''WPA2-Personal'' @ ascii '' encryption='' @ ascii ''AES'' @ ascii '' key='' @ psk"
| "content_text (Bluetooth mac) = ascii ''Bluetooth OOB: address='' @ bt_text mac"

definition printable :: "bytes \<Rightarrow> bool" where
  "printable s \<longleftrightarrow> (\<forall>c \<in> set s. 0x20 \<le> c \<and> c \<le> 0x7E)"

definition displayable :: "bytes \<Rightarrow> bool" where
  "displayable s \<longleftrightarrow> (\<forall>c \<in> set s. c = 0x0D \<or> c = 0x0A \<or> c = 0x09 \<or> (0x20 \<le> c \<and> c \<le> 0x7E))"

definition no_control :: "bytes \<Rightarrow> bool" where
  "no_control s \<longleftrightarrow> (\<forall>c \<in> set s. 0x20 \<le> c)"

text \<open>
  What the writer accepts: its lengths, strings that end at their NUL, and no control character
  in a contact.
\<close>

fun storable :: "ndef_content \<Rightarrow> bool" where
  "storable (Uri code rest) \<longleftrightarrow> unat code < URI_PREFIX_CODE_COUNT \<and> rest \<noteq> [] \<and> length rest \<le> 220 \<and>
     0 \<notin> set rest"
| "storable (Plain txt) \<longleftrightarrow> 0 \<notin> set txt \<and> length txt \<le> 200"
| "storable (Contact name tel email) \<longleftrightarrow> no_control name \<and> no_control tel \<and> no_control email \<and>
     length name + length tel + length email \<le> 198"
| "storable (Wifi ssid psk) \<longleftrightarrow> 0 \<notin> set ssid \<and> ssid \<noteq> [] \<and> length ssid \<le> 32 \<and>
     0 \<notin> set psk \<and> 8 \<le> length psk \<and> length psk \<le> 63"
| "storable (Bluetooth mac) \<longleftrightarrow> length mac = 6"

text \<open>
  The reader decodes a URI only when its characters are allowed ones, and a contact or Wi-Fi
  credentials only when their strings are ASCII text; the writer checks neither.
\<close>

definition content_ok :: "ndef_content \<Rightarrow> bool" where
  "content_ok c \<longleftrightarrow> storable c \<and> (case c of Uri _ rest \<Rightarrow> uri_text rest
     | Contact name tel email \<Rightarrow> printable name \<and> printable tel \<and> printable email
     | Wifi ssid psk \<Rightarrow> displayable ssid \<and> displayable psk
     | _ \<Rightarrow> True)"

text \<open>Which content a payload kind with its two strings asks for.\<close>

fun describes :: "payload_kind \<Rightarrow> u8 \<Rightarrow> bytes \<Rightarrow> bytes \<Rightarrow> ndef_content \<Rightarrow> bool" where
  "describes PAYLOAD_URL_HTTPS uid s1 s2 c \<longleftrightarrow> c = Uri 4 s1"
| "describes PAYLOAD_URI_RAW uid s1 s2 c \<longleftrightarrow> c = Uri uid s1"
| "describes PAYLOAD_PLAIN_TEXT uid s1 s2 c \<longleftrightarrow> c = Plain s1"
| "describes PAYLOAD_SMS_URI uid s1 s2 c \<longleftrightarrow> c = Uri 0 (ascii ''sms:'' @ s1 @
     (if s2 = [] then [] else ascii ''?body='' @ s2))"
| "describes PAYLOAD_MAILTO_URI uid s1 s2 c \<longleftrightarrow> c = Uri 0 (ascii ''mailto:'' @ s1 @
     (if after_bar s2 \<noteq> [] then ascii ''?subject='' @ before_bar s2 @ ascii ''&body='' @ after_bar s2
      else if before_bar s2 \<noteq> [] then ascii ''?subject='' @ before_bar s2 else []))"
| "describes PAYLOAD_GEO_URI uid s1 s2 c \<longleftrightarrow> c = Uri 0 (ascii ''geo:'' @ s1)"
| "describes PAYLOAD_VCARD_MIME uid s1 s2 c \<longleftrightarrow> c = Contact s1 (before_bar s2) (after_bar s2)"
| "describes PAYLOAD_WIFI_WSC uid s1 s2 c \<longleftrightarrow> c = Wifi s1 s2"
| "describes PAYLOAD_BT_OOB uid s1 s2 c \<longleftrightarrow>
     (\<exists>mac. length mac = 6 \<and> map upper s1 = bt_text mac \<and> c = Bluetooth mac)"
| "describes PAYLOAD_NONE uid s1 s2 c \<longleftrightarrow> False"
| "describes PAYLOAD_RAW_NDEF uid s1 s2 c \<longleftrightarrow> False"

definition config_describes :: "payload_config \<Rightarrow> ndef_content \<Rightarrow> bool" where
  "config_describes cfg c \<longleftrightarrow> length (cfg_str1 cfg) = 860 \<and> length (cfg_str2 cfg) = 120 \<and>
     0 \<in> set (cfg_str1 cfg) \<and> 0 \<in> set (cfg_str2 cfg) \<and>
     describes (cfg_kind cfg) (cfg_uri_id cfg) (cstr (cfg_str1 cfg)) (cstr (cfg_str2 cfg)) c"

lemma terminated_split:
  assumes "0 \<in> set xs"
  obtains r where "xs = cstr xs @ 0 # r" and "0 \<notin> set (cstr xs)" and "length (cstr xs) < length xs"
proof -
  obtain ys zs where xs: "xs = ys @ 0 # zs" "0 \<notin> set ys" using split_list_first [OF assms] by auto
  then have "cstr xs = ys" by simp
  with xs that show ?thesis by simp
qed

lemma uri_text_no_zero: "uri_text s \<Longrightarrow> 0 \<notin> set s"
  by (induction s) auto

lemma content_image_simps:
  "content_image (Uri code rest) = record_image 0xD1 [0x55] [] (code # rest)"
  "content_image (Plain txt) = record_image 0xD1 [0x54] [] (0x02 # ascii ''en'' @ txt)"
  "content_image (Contact name tel email) = record_image 0xD2 VCARD_MIME [] (vcard_text name tel email)"
  "content_image (Wifi ssid psk) = record_image 0xD2 WSC_MIME [] (wsc_blob ssid psk)"
  "content_image (Bluetooth mac) = record_image 0xD2 BT_OOB_MIME [] (8 # 0 # rev mac)"
  by (simp_all add: content_image_def)

lemma length_mimes [simp]:
  "length VCARD_MIME = 10" "length WSC_MIME = 23" "length BT_OOB_MIME = 32"
  by (simp_all add: VCARD_MIME_def WSC_MIME_def BT_OOB_MIME_def)

lemma mimes_no_zero: "0 \<notin> set VCARD_MIME" "0 \<notin> set WSC_MIME" "0 \<notin> set BT_OOB_MIME"
  by (simp_all add: VCARD_MIME_def WSC_MIME_def BT_OOB_MIME_def ascii_def)

lemma length_vcard_text: "length (vcard_text n t e) = 56 + length n + length t + length e"
  by (simp add: vcard_text_def crlf_def)

lemma length_short_image:
  "hdr AND 0x10 \<noteq> 0 \<Longrightarrow> hdr AND 0x08 = 0 \<Longrightarrow>
    length (record_image hdr ty [] payload) = 3 + length ty + length payload"
  by (simp add: record_image_def record_len_field_def)

lemma length_content_image:
  "length (content_image (Uri code rest)) = 5 + length rest"
  "length (content_image (Plain txt)) = 7 + length txt"
  "length (content_image (Contact name tel email)) = 69 + length name + length tel + length email"
  "length (content_image (Wifi ssid psk)) = 70 + length ssid + length psk"
  "length (content_image (Bluetooth mac)) = 37 + length mac"
  by (simp_all add: content_image_simps length_short_image length_vcard_text length_wsc_blob)

lemma content_image_small: "storable c \<Longrightarrow> length (content_image c) \<le> 267"
  by (cases c) (simp_all add: length_content_image)

lemma content_image_pos: "0 < length (content_image c)"
  by (cases c) (simp_all add: length_content_image)


lemma nth_string: "(xs @ 0 # r) ! 0 = (0 :: u8) \<longleftrightarrow> xs = []" if "0 \<notin> set xs"
  using that by (cases xs) auto

lemma control_free:
  assumes "no_control s" "length s < 860"
  shows "writer_cstr_has_control_char (Some (s @ 0 # r)) = Some False"
proof -
  have "0 \<notin> set s" "\<not> (\<exists>c \<in> set s. c < 0x20)" using assms(1) by (auto simp: no_control_def not_less)
  then show ?thesis using assms(2)
    by (simp add: writer_cstr_has_control_char_def bounded_strlen_terminated)
qed

lemma build_message_eq:
  assumes desc: "config_describes cfg c" and ok: "storable c"
    and cap: "length (content_image c) \<le> cap" "cap \<le> length out" "cap \<le> UINT16_MAX"
  shows "build_ndef_message (Some cfg) (Some out) cap =
    Some (length (content_image c), Some (patch out 0 (content_image c)))"
proof -
  obtain r1 where a1: "cfg_str1 cfg = cstr (cfg_str1 cfg) @ 0 # r1"
    and z1: "0 \<notin> set (cstr (cfg_str1 cfg))" and l1: "length (cstr (cfg_str1 cfg)) < 860"
    using terminated_split [of "cfg_str1 cfg"] desc by (metis config_describes_def)
  obtain r2 where a2: "cfg_str2 cfg = cstr (cfg_str2 cfg) @ 0 # r2"
    and z2: "0 \<notin> set (cstr (cfg_str2 cfg))" and l2: "length (cstr (cfg_str2 cfg)) < 120"
    using terminated_split [of "cfg_str2 cfg"] desc by (metis config_describes_def)
  define s1 s2 where "s1 = cstr (cfg_str1 cfg)" and "s2 = cstr (cfg_str2 cfg)"
  note s1 = a1 [folded s1_def] z1 [folded s1_def] l1 [folded s1_def]
  note s2 = a2 [folded s2_def] z2 [folded s2_def] l2 [folded s2_def]
  have kind: "describes (cfg_kind cfg) (cfg_uri_id cfg) s1 s2 c"
    using desc by (simp add: config_describes_def s1_def s2_def)
  have m1: "nero_nfc_bounded_strlen (Some (s1 @ 0 # r1)) WRITER_STR1_MAX = Some (Some (length s1))"
    by (rule bounded_strlen_terminated) (use s1 in simp_all)
  have m2: "nero_nfc_bounded_strlen (Some (s2 @ 0 # r2)) WRITER_STR2_MAX = Some (Some (length s2))"
    by (rule bounded_strlen_terminated) (use s2 in simp_all)
  obtain f1 f2 where sp: "split_str2 (s2 @ 0 # r2) (length s2) =
      Some (True, Some (before_bar s2 @ 0 # f1), Some (after_bar s2 @ 0 # f2))"
    using split_str2_eq [OF s2(2,3)] by blast
  have bar0: "0 \<notin> set (before_bar s2)" "0 \<notin> set (after_bar s2)"
    using s2(2) by (auto simp: before_bar_def after_bar_def dest: set_takeWhileD in_set_dropD)
  let ?dst = "Some out"
  let ?go = "case cfg_kind cfg of
       PAYLOAD_NONE \<Rightarrow> Some (0, ?dst)
     | PAYLOAD_URL_HTTPS \<Rightarrow> ndef_emit_uri ?dst cap 0x04 (Some (cfg_str1 cfg))
     | PAYLOAD_PLAIN_TEXT \<Rightarrow> ndef_emit_text ?dst cap (Some (cfg_str1 cfg))
     | PAYLOAD_URI_RAW \<Rightarrow> ndef_emit_uri ?dst cap (cfg_uri_id cfg) (Some (cfg_str1 cfg))
     | PAYLOAD_RAW_NDEF \<Rightarrow>
         if cfg_raw_ndef cfg = None \<or> cfg_raw_ndef_len cfg = 0 \<or> cfg_raw_ndef_len cfg > cap
         then Some (0, ?dst)
         else do {
           (ok, dst) \<leftarrow> nero_nfc_copy_bytes ?dst cap 0 (cfg_raw_ndef cfg) (cfg_raw_ndef_len cfg);
           Some (if ok then cfg_raw_ndef_len cfg else 0, dst)
         }
     | PAYLOAD_SMS_URI \<Rightarrow> emit_sms cfg ?dst cap
     | PAYLOAD_MAILTO_URI \<Rightarrow> emit_mailto cfg (length s2) ?dst cap
     | PAYLOAD_GEO_URI \<Rightarrow> emit_formatted_uri ?dst cap (WRITER_STR1_MAX + 8)
         (ascii ''geo:'' @ cstr (cfg_str1 cfg))
     | PAYLOAD_VCARD_MIME \<Rightarrow> emit_vcard cfg (length s2) ?dst cap
     | PAYLOAD_WIFI_WSC \<Rightarrow> emit_wifi cfg ?dst cap
     | PAYLOAD_BT_OOB \<Rightarrow> emit_bt_oob cfg (length s1) ?dst cap"
  have run: "build_ndef_message (Some cfg) (Some out) cap = ?go"
    using m1 m2 unfolding build_ndef_message_def s1(1) [symmetric] s2(1) [symmetric]
    by (cases "?go") (simp_all add: Let_def split_beta)
  have emit_uri: "ndef_emit_uri (Some out) cap code (Some (s1 @ 0 # r1)) =
      Some (length (content_image c), Some (patch out 0 (content_image c)))" if "c = Uri code s1" for code
    using emit_uri_eq [of code s1 cap out r1] ok cap that s1(2)
    by (simp add: length_short_image content_image_simps)
  have emit_formatted: "emit_formatted_uri (Some out) cap n uri =
      Some (length (content_image c), Some (patch out 0 (content_image c)))"
    if "c = Uri 0 uri" "220 < n" for n uri
    using emit_formatted_uri_eq [of uri n cap out] ok cap that
    by (simp add: length_short_image content_image_simps)
  have emit_mime: "ndef_emit_mime_sr (Some out) cap (Some (mime @ [0])) (Some (payload @ rest)) (length payload) =
      Some (length (content_image c), Some (patch out 0 (content_image c)))"
    if "content_image c = record_image 0xD2 mime [] payload" "0 \<notin> set mime" "mime \<noteq> []" "length mime \<le> 60"
      "length payload < 255" for mime payload rest
    using emit_mime_eq [of mime payload cap out "[]" rest] that cap
    by (simp add: length_short_image)
  show ?thesis unfolding run
  proof (cases "cfg_kind cfg")
    case PAYLOAD_NONE
    then show "?go = Some (length (content_image c), Some (patch out 0 (content_image c)))"
      using kind by simp
  next
    case PAYLOAD_URL_HTTPS
    then show "?go = Some (length (content_image c), Some (patch out 0 (content_image c)))"
      using kind emit_uri s1(1) by simp
  next
    case PAYLOAD_PLAIN_TEXT
    then show "?go = Some (length (content_image c), Some (patch out 0 (content_image c)))"
      using kind emit_text_eq [of s1 cap out r1] s1 ok cap
      by (simp add: length_short_image content_image_simps)
  next
    case PAYLOAD_SMS_URI
    then show "?go = Some (length (content_image c), Some (patch out 0 (content_image c)))"
      using kind emit_formatted [of _ 1004] nth_string [OF s2(2), of r2] s2(2)
      by (cases "s2 = []") (simp_all add: emit_sms_def s1_def [symmetric] s2_def [symmetric] s2(1))
  next
    case PAYLOAD_MAILTO_URI
    then show "?go = Some (length (content_image c), Some (patch out 0 (content_image c)))"
      using kind emit_formatted [of _ 1132] nth_string [OF bar0(1), of f1] nth_string [OF bar0(2), of f2]
        sp bar0
      by (cases "after_bar s2 = []"; cases "before_bar s2 = []")
        (simp_all add: emit_mailto_def s1_def [symmetric] s2(1) c_string_def)
  next
    case PAYLOAD_GEO_URI
    then show "?go = Some (length (content_image c), Some (patch out 0 (content_image c)))"
      using kind emit_formatted [of _ 868] by (simp add: s1_def [symmetric])
  next
    case PAYLOAD_VCARD_MIME
    then have c: "c = Contact s1 (before_bar s2) (after_bar s2)" using kind by simp
    have pr: "no_control s1" "no_control (before_bar s2)" "no_control (after_bar s2)"
      and le: "length s1 + length (before_bar s2) + length (after_bar s2) \<le> 198" using ok c by simp_all
    let ?v = "vcard_text s1 (before_bar s2) (after_bar s2)"
    have lv: "length ?v < 255" using le by (simp add: length_vcard_text)
    have "emit_vcard cfg (length s2) ?dst cap =
        ndef_emit_mime_sr ?dst cap (Some (VCARD_MIME @ [0]))
          (Some (?v @ 0 # drop (length ?v + 1) (replicate 1166 0))) (length ?v)"
      using sp control_free [OF pr(1), of r1] control_free [OF pr(2), of f1] control_free [OF pr(3), of f2]
        le bar0 s1(2) snprintf_eq [of ?v 1166 "replicate 1166 0"] lv
      by (simp add: emit_vcard_def s1_def [symmetric] s1(1) s2(1) c_string_def del: drop_replicate)
    then show "?go = Some (length (content_image c), Some (patch out 0 (content_image c)))"
      using PAYLOAD_VCARD_MIME emit_mime [of VCARD_MIME ?v] lv mimes_no_zero c
      by (simp add: content_image_simps flip: length_0_conv del: drop_replicate)
  next
    case PAYLOAD_WIFI_WSC
    then have c: "c = Wifi s1 s2" using kind by simp
    then obtain rest where "build_wifi_wsc (Some (replicate 200 0)) 200 0 (Some (s1 @ 0 # r1)) (Some (s2 @ 0 # r2)) =
        Some (True, Some (wsc_blob s1 s2 @ rest), 44 + length s1 + length s2)"
      using build_wifi_eq [of s1 s2 r1 r2] ok s1(2) s2(2) by auto
    moreover have "length (wsc_blob s1 s2) < 255" using ok c by (simp add: length_wsc_blob)
    ultimately show "?go = Some (length (content_image c), Some (patch out 0 (content_image c)))"
      using PAYLOAD_WIFI_WSC emit_mime [of WSC_MIME "wsc_blob s1 s2" rest] mimes_no_zero c
      by (simp add: content_image_simps emit_wifi_def s1(1) s2(1) length_wsc_blob flip: length_0_conv)
  next
    case PAYLOAD_URI_RAW
    then show "?go = Some (length (content_image c), Some (patch out 0 (content_image c)))"
      using kind emit_uri s1(1) by simp
  next
    case PAYLOAD_BT_OOB
    then obtain mac where mac: "length mac = 6" "map upper s1 = bt_text mac" "c = Bluetooth mac"
      using kind by auto
    obtain m0 m1 m2 m3 m4 m5 where m: "mac = [m0, m1, m2, m3, m4, m5]"
      using mac(1) by (auto simp: numeral_eq_Suc length_Suc_conv)
    have l8: "length [8, 0, m5, m4, m3, m2, m1, m0] = 8" by simp
    show "?go = Some (length (content_image c), Some (patch out 0 (content_image c)))"
      using PAYLOAD_BT_OOB parse_bt_mac_eq(1) [OF mac(2,1), of r1] parse_bt_mac_eq(2) [OF mac(2,1)]
        emit_mime [of BT_OOB_MIME "[8, 0, m5, m4, m3, m2, m1, m0]" "[]", unfolded l8] mimes_no_zero mac(3) m
      by (simp add: emit_bt_oob_def s1(1) content_image_simps flip: length_0_conv)
  next
    case PAYLOAD_RAW_NDEF
    then show "?go = Some (length (content_image c), Some (patch out 0 (content_image c)))"
      using kind by simp
  qed
qed

end
