(* ===== verification/NdefReadback.thy ===== *)
theory NdefReadback
  imports NdefRoundtrip
begin

text \<open>
  The reading side: what the decoders append to the output buffer, the property and attribute
  scanners on the payloads the writer builds, and the text shown for each kind of content.
\<close>

section \<open>Appending\<close>

text \<open>The buffer holds \<open>pre\<close> in front and, once anything was appended, a terminator behind it.\<close>

definition text_in :: "nat \<Rightarrow> bytes \<Rightarrow> cptr \<times> nat \<Rightarrow> bool" where
  "text_in cap pre st \<longleftrightarrow> (\<exists>buf. fst st = Some buf \<and> length buf = cap \<and> snd st = length pre \<and>
     take (length pre) buf = pre \<and> length pre < cap \<and> (pre \<noteq> [] \<longrightarrow> buf ! length pre = 0))"

definition appends :: "nat \<Rightarrow> (cptr \<times> nat \<Rightarrow> (bool \<times> cptr \<times> nat) option) \<Rightarrow> bytes \<Rightarrow> bool" where
  "appends cap f t \<longleftrightarrow> (\<forall>pre st. text_in cap pre st \<longrightarrow> length pre + length t < cap \<longrightarrow>
     (\<exists>st'. f st = Some (True, st') \<and> text_in cap (pre @ t) st'))"

lemma appendsE:
  assumes "appends cap f t" "text_in cap pre st" "length pre + length t < cap"
  obtains out pos where "f st = Some (True, out, pos)" and "text_in cap (pre @ t) (out, pos)"
  using assms unfolding appends_def by (metis prod.collapse)

lemma appends_and_then:
  assumes f: "appends cap f t" and g: "appends cap g u"
  shows "appends cap (and_then f g) (t @ u)"
  unfolding appends_def
proof (intro allI impI)
  fix pre st assume st: "text_in cap pre st" and le: "length pre + length (t @ u) < cap"
  from le have "length pre + length t < cap" by simp
  then obtain st' where f': "f st = Some (True, st')" "text_in cap (pre @ t) st'"
    using f st unfolding appends_def by blast
  moreover have "length (pre @ t) + length u < cap" using le by simp
  ultimately obtain st'' where "g st' = Some (True, st'')" "text_in cap ((pre @ t) @ u) st''"
    using g unfolding appends_def by blast
  then show "\<exists>st'. and_then f g st = Some (True, st') \<and> text_in cap (pre @ t @ u) st'"
    using f'(1) by (simp add: and_then_def)
qed

lemma appends_skip: "(\<not> b \<Longrightarrow> appends cap f t) \<Longrightarrow> appends cap (skip_if b f) (if b then [] else t)"
  by (auto simp: appends_def skip_if_def)

lemma text_in_append:
  assumes "text_in cap pre (Some buf, length pre)" "length pre + length t < cap"
  shows "text_in cap (pre @ t)
    (Some ((patch buf (length pre) t)[length pre + length t := 0]), length pre + length t)"
proof -
  from assms(1) have buf: "length buf = cap" "take (length pre) buf = pre" by (auto simp: text_in_def)
  let ?p = "patch buf (length pre) t"
  have tk: "take (length pre + length t) ?p = pre @ t"
    using take_patch [of "length pre" t buf] assms(2) buf by simp
  have lp: "length ?p = cap" using assms(2) buf(1) by simp
  show ?thesis using assms(2) tk lp by (simp add: text_in_def)
qed

lemma append_span_appends:
  assumes "src = (if t = [] then p else Some (t @ r))" "cap \<le> UINT16_MAX"
  shows "appends cap (append_span cap src (length t)) t"
  unfolding appends_def
proof (intro allI impI)
  fix pre st assume st: "text_in cap pre st" and le: "length pre + length t < cap"
  then obtain buf where buf: "st = (Some buf, length pre)" "length buf = cap"
    by (cases st) (auto simp: text_in_def)
  have cp: "nero_nfc_copy_bytes (Some buf) cap (length pre) src (length t) =
      Some (True, Some (patch buf (length pre) t))"
  proof (cases "t = []")
    case True
    then show ?thesis using le buf(2) assms(2) by (simp add: nero_nfc_copy_bytes_def)
  next
    case False
    then show ?thesis using assms le buf(2) by simp
  qed
  have "src = None \<longrightarrow> length t = 0" using assms(1) by (cases "t = []") auto
  then have "append_span cap src (length t) st =
      Some (True, Some ((patch buf (length pre) t)[length pre + length t := 0]), length pre + length t)"
    using cp le assms(2) buf by (auto simp: append_span_def)
  then show "\<exists>st'. append_span cap src (length t) st = Some (True, st') \<and> text_in cap (pre @ t) st'"
    using text_in_append [OF st [unfolded buf(1)] le] by simp
qed

lemma append_text_appends:
  assumes "0 \<notin> set t" "cap \<le> UINT16_MAX"
  shows "appends cap (append_text cap (Some (t @ 0 # r))) t"
  unfolding appends_def
proof (intro allI impI)
  fix pre st assume st: "text_in cap pre st" and le: "length pre + length t < cap"
  then obtain buf where buf: "st = (Some buf, length pre)" "length buf = cap"
    by (cases st) (auto simp: text_in_def)
  have m: "nero_nfc_bounded_strlen (Some (t @ 0 # r)) cap = Some (Some (length t))"
    using bounded_strlen_terminated [OF assms(1)] le by simp
  have "append_text cap (Some (t @ 0 # r)) st =
      Some (True, Some ((patch buf (length pre) t)[length pre + length t := 0]), length pre + length t)"
    using m le assms(2) buf by (simp add: append_text_def)
  then show "\<exists>st'. append_text cap (Some (t @ 0 # r)) st = Some (True, st') \<and> text_in cap (pre @ t) st'"
    using text_in_append [OF st [unfolded buf(1)] le] by simp
qed

lemma append_literal:
  "0 \<notin> set (ascii s) \<Longrightarrow> cap \<le> UINT16_MAX \<Longrightarrow> appends cap (append_text cap (literal s)) (ascii s)"
  unfolding literal_def by (rule append_text_appends)

lemma hex_table: "n < 16 \<Longrightarrow> ascii ''0123456789ABCDEF'' ! n = hex_digit n \<and> hex_digit n \<noteq> 0"
proof -
  assume "n < 16"
  then have "n \<in> {0, 1, 2, 3, 4, 5, 6, 7, 8, 9, 10, 11, 12, 13, 14, 15}"
    unfolding insert_iff empty_iff by presburger
  then show ?thesis
    by (elim insertE emptyE) (simp_all add: ascii_def hex_digit_def)
qed

lemma append_hex: "cap \<le> UINT16_MAX \<Longrightarrow> appends cap (append_hex_u8 cap b) (hex_byte b)"
proof -
  assume cap: "cap \<le> UINT16_MAX"
  have d: "unat b div 16 < 16" using unat_u8_bound [of b] by (simp add: div_less_iff_less_mult del: unat_u8_bound)
  have "unat (drop_bit 4 b) = unat b div 16"
    by (subst unat_drop_bit_eq) (simp add: drop_bit_eq_div)
  moreover have "unat (b AND 0x0F) = unat b mod 16"
    using take_bit_eq_mask [of 4 "unat b"]
    by (simp add: unsigned_and_eq take_bit_eq_mod mask_eq_exp_minus_1)
  ultimately show ?thesis
    using append_text_appends [of "hex_byte b" cap "[]"] cap hex_table [OF d] hex_table [of "unat b mod 16"]
    by (simp add: append_hex_u8_def hex_byte_def Let_def)
qed


text \<open>A finished text: what the log shows of the buffer.\<close>

lemma text_in_cstr:
  assumes "text_in cap t (out, pos)" "t \<noteq> []" "0 \<notin> set t"
  shows "\<exists>buf. out = Some buf \<and> length buf = cap \<and> cstr buf = t"
proof -
  from assms(1,2) obtain buf where buf: "out = Some buf" "length buf = cap" "take (length t) buf = t"
    "length t < cap" "buf ! length t = 0" by (auto simp: text_in_def)
  then have "buf = t @ 0 # drop (Suc (length t)) buf"
    using id_take_nth_drop [of "length t" buf] by simp
  then have "cstr buf = t" using cstr_terminated [OF assms(3)] by metis
  with buf show ?thesis by simp
qed

lemma text_in_start: "length buf = cap \<Longrightarrow> 0 < cap \<Longrightarrow> text_in cap [] (Some buf, 0)"
  by (simp add: text_in_def)

section \<open>Bluetooth addresses\<close>

fun bt_tail :: "bytes \<Rightarrow> bytes" where
  "bt_tail [] = []"
| "bt_tail (m # ms) = [0x3A] @ hex_byte m @ bt_tail ms"

lemma bt_text_Cons: "bt_text (m # ms) = hex_byte m @ bt_tail ms"
  by (induction ms arbitrary: m) simp_all

lemma length_bt_tail: "length (bt_tail ms) = 3 * length ms"
  by (induction ms) (simp_all add: hex_byte_def)

lemma append_colon: "cap \<le> UINT16_MAX \<Longrightarrow> appends cap (append_text cap (literal '':'')) [0x3A]"
  using append_literal [of "'':''" cap] by (simp add: ascii_def)

lemma bt_addr_loop_appends:
  assumes "8 \<le> length payload" "cap \<le> UINT16_MAX" "length ms = k" "i + k = 6"
    "\<forall>j < k. payload ! (7 - (i + j)) = ms ! j"
  shows "appends cap (bt_addr_loop (Some payload) 8 cap i k)
    (if i = 0 then bt_text ms else bt_tail ms)"
  using assms(3-)
proof (induction ms arbitrary: i k)
  case Nil
  then show ?case by (auto simp: appends_def)
next
  case (Cons m ms)
  then obtain k' where k: "k = Suc k'" "length ms = k'" by auto
  have i: "i < 6" using Cons.prems(2) k by simp
  have m: "nero_nfc_u8_at (Some payload) 8 (7 - i) = Some m"
    using Cons.prems(3) k assms(1) i by (auto simp: u8_at_in)
  have ih: "appends cap (bt_addr_loop (Some payload) 8 cap (i + 1) k') (bt_tail ms)"
  proof -
    have "payload ! (7 - (i + 1 + j)) = ms ! j" if "j < k'" for j
      using Cons.prems(3) [rule_format, of "Suc j"] that k by simp
    then show ?thesis using Cons.IH [of k' "i + 1"] k(2) Cons.prems(2) k(1) by simp
  qed
  have rest: "appends cap (and_then (append_hex_u8 cap m) (bt_addr_loop (Some payload) 8 cap (i + 1) k'))
      (hex_byte m @ bt_tail ms)"
    by (rule appends_and_then [OF append_hex [OF assms(2)] ih])
  show ?case
  proof (cases "i = 0")
    case True
    then have "bt_addr_loop (Some payload) 8 cap i k =
        and_then (append_hex_u8 cap m) (bt_addr_loop (Some payload) 8 cap (i + 1) k')"
      using m k i assms(1) by (intro ext) (auto simp: and_then_def split_beta cong: if_cong)
    then show ?thesis using rest True by (simp add: bt_text_Cons)
  next
    case False
    then have "bt_addr_loop (Some payload) 8 cap i k =
        and_then (append_text cap (literal '':''))
          (and_then (append_hex_u8 cap m) (bt_addr_loop (Some payload) 8 cap (i + 1) k'))"
      using m k i assms(1) by (intro ext) (auto simp: and_then_def split_beta cong: if_cong)
    then show ?thesis using appends_and_then [OF append_colon [OF assms(2)] rest] False by simp
  qed
qed

lemma decode_bluetooth_eq:
  assumes "length mac = 6" "length out = 256"
  shows "\<exists>out' pos. decode_bluetooth_oob_payload (Some ((8 # 0 # rev mac) @ r)) 8 (Some out) 256 =
      Some (True, out') \<and> text_in 256 (content_text (Bluetooth mac)) (out', pos)"
proof -
  let ?p = "(8 # 0 # rev mac) @ r" and ?h = "ascii ''Bluetooth OOB: address=''"
  have nz: "0 \<notin> set ?h" by (simp add: ascii_def)
  have ev: "\<forall>j < 6. ?p ! (7 - (0 + j)) = mac ! j"
  proof (intro allI impI)
    fix j :: nat assume j: "j < 6"
    have "7 - j < length (8 # 0 # rev mac)" using assms(1) by simp
    then have "?p ! (7 - j) = (8 # 0 # rev mac) ! (7 - j)" by (simp only: nth_append if_True)
    also have "\<dots> = rev mac ! (5 - j)" using j by (simp add: nth_Cons' numeral_eq_Suc Suc_diff_le)
    finally have "?p ! (7 - j) = rev mac ! (5 - j)" .
    then show "?p ! (7 - (0 + j)) = mac ! j" using j assms(1) by (simp add: rev_nth)
  qed
  have loop: "appends 256 (bt_addr_loop (Some ?p) 8 256 0 6) (bt_text mac)"
    using bt_addr_loop_appends [of ?p 256 mac 6 0] assms(1) ev by simp
  have l: "length (bt_text mac) = 17" using length_bt_text [of mac] assms(1) by (cases mac) auto
  obtain o1 p1 where 1: "append_text 256 (literal ''Bluetooth OOB: address='') (Some out, 0) = Some (True, o1, p1)"
    "text_in 256 ([] @ ?h) (o1, p1)"
    by (rule appendsE [OF append_literal [OF nz] text_in_start [OF assms(2)]]) simp_all
  obtain o2 p2 where 2: "bt_addr_loop (Some ?p) 8 256 0 6 (o1, p1) = Some (True, o2, p2)"
    "text_in 256 (([] @ ?h) @ bt_text mac) (o2, p2)"
    by (rule appendsE [OF loop 1(2)]) (use l in simp_all)
  have b: "nero_nfc_u8_at (Some ?p) 8 0 = Some 8" "nero_nfc_u8_at (Some ?p) 8 1 = Some 0"
    using assms(1) by (simp_all add: u8_at_in)
  show ?thesis using 1 2 b unfolding decode_bluetooth_oob_payload_def
    by (auto simp del: bt_addr_loop.simps)
qed

section \<open>Wi-Fi credentials\<close>

lemma wsc_loop_step:
  assumes "drop pos bs = wsc_attr a v @ rest" "pos + 4 + length v \<le> len" "len \<le> length bs"
    "len \<le> UINT16_MAX" "a < 65536"
  shows "wsc_attr_loop (Some bs) len ident pos =
    (if a = ident then Some (True, if v = [] then None else Some (v @ rest), length v)
     else wsc_attr_loop (Some bs) len ident (pos + 4 + length v))"
proof -
  have lv: "length v < 65536" using assms(2,4) by simp
  have n: "bs ! pos = byte (a div 256)" "bs ! (pos + 1) = byte a" "bs ! (pos + 2) = byte (length v div 256)"
    "bs ! (pos + 3) = byte (length v)"
    using assms(1-3) nth_drop [of pos bs 0] nth_drop [of pos bs 1] nth_drop [of pos bs 2] nth_drop [of pos bs 3]
    by (simp_all add: wsc_attr_def)
  have d: "drop (pos + 4) bs = v @ rest"
  proof -
    have "drop (pos + 4) bs = drop 4 (drop pos bs)" by (simp add: add.commute)
    then show ?thesis unfolding assms(1) by (simp add: wsc_attr_def)
  qed
  have b: "be16_at (Some bs) len pos = Some (True, a)" "be16_at (Some bs) len (pos + 2) = Some (True, length v)"
    using assms(2-5) n be16_bytes [of a] be16_bytes [OF lv]
    by (simp_all add: be16_at_def u8_at_in add.commute)
  show ?thesis
    by (subst wsc_attr_loop.simps) (use assms(2) b d in \<open>simp add: add.assoc\<close>)
qed

lemma display_loop:
  assumes "i \<le> len" "len \<le> length bs"
  shows "display_text_loop (Some bs) len i = Some (displayable (drop i (take len bs)))"
  using assms(1)
proof (induction "len - i" arbitrary: i)
  case 0
  then show ?case using assms(2) by (subst display_text_loop.simps) (simp add: displayable_def)
next
  case (Suc k)
  then have i: "i < len" by simp
  have "k = len - (i + 1)" "i + 1 \<le> len" using Suc.hyps(2) i by simp_all
  then have "display_text_loop (Some bs) len (i + 1) = Some (displayable (drop (i + 1) (take len bs)))"
    using Suc.hyps(1) by blast
  then show ?case unfolding drop_take_Cons [OF i assms(2)]
    by (subst display_text_loop.simps) (use i assms(2) in \<open>auto simp: not_less not_le displayable_def\<close>)
qed

lemma display_payload_eq:
  "payload_is_display_text (if t = [] then None else Some (t @ r)) (length t) = Some (displayable t)"
  using display_loop [of 0 "length t" "t @ r"]
  by (auto simp: payload_is_display_text_def display_text_loop.simps [of None 0] displayable_def)

lemma display_payload:
  "displayable t \<Longrightarrow> payload_is_display_text (if t = [] then None else Some (t @ r)) (length t) = Some True"
  by (simp only: display_payload_eq)

lemma wsc_find:
  assumes "\<forall>(a, v) \<in> set before. a < 65536 \<and> a \<noteq> ident" "ident < 65536"
    and "drop pos bs = concat (map (\<lambda>(a, v). wsc_attr a v) before) @ wsc_attr ident w @ rest"
    and "pos + length (concat (map (\<lambda>(a, v). wsc_attr a v) before)) + 4 + length w \<le> len"
    and "len \<le> length bs" "len \<le> UINT16_MAX"
  shows "wsc_attr_loop (Some bs) len ident pos =
    Some (True, if w = [] then None else Some (w @ rest), length w)"
  using assms(1,3,4)
proof (induction before arbitrary: pos)
  case Nil
  then show ?case using wsc_loop_step [of pos bs ident w rest len ident] assms(2,5,6) by simp
next
  case (Cons x before)
  obtain a v where x: "x = (a, v)" by (cases x)
  let ?tail = "concat (map (\<lambda>(a, v). wsc_attr a v) before) @ wsc_attr ident w @ rest"
  have dr: "drop pos bs = wsc_attr a v @ ?tail" using Cons.prems(2) x by simp
  have a: "a < 65536" "a \<noteq> ident" using Cons.prems(1) x by auto
  have "wsc_attr_loop (Some bs) len ident pos = wsc_attr_loop (Some bs) len ident (pos + 4 + length v)"
    using wsc_loop_step [OF dr] Cons.prems(3) x assms(5,6) a by simp
  moreover have "drop (pos + 4 + length v) bs = ?tail"
  proof -
    have "drop (pos + 4 + length v) bs = drop (4 + length v) (drop pos bs)" by (simp add: ac_simps)
    then show ?thesis unfolding dr by simp
  qed
  ultimately show ?case using Cons.IH [of "pos + 4 + length v"] Cons.prems(1,3) x by simp
qed


lemma wsc_version_attr: "WSC_VERSION = wsc_attr 0x104A [0x10]"
  by (simp add: WSC_VERSION_def wsc_attr_def)

lemma wsc_credential:
  assumes "length ssid \<le> 32" "length psk \<le> 63"
  shows "wsc_attr_payload (Some (wsc_blob ssid psk @ r)) (length (wsc_blob ssid psk)) 0x100E =
    Some (True, Some (wsc_inner ssid psk @ r), 35 + length ssid + length psk)"
proof -
  have "wsc_inner ssid psk \<noteq> []" by (simp add: wsc_inner_def wsc_attr_def)
  then show ?thesis
    using wsc_find [of "[(0x104A, [0x10])]" "0x100E" 0 "wsc_blob ssid psk @ r" "wsc_inner ssid psk" r
        "length (wsc_blob ssid psk)"] assms
    by (simp add: wsc_attr_payload_def wsc_blob_def wsc_version_attr length_wsc_inner)
qed

lemma wsc_inner_find:
  assumes "length ssid \<le> 32" "length psk \<le> 63"
    and "wsc_inner ssid psk = concat (map (\<lambda>(a, v). wsc_attr a v) before) @ wsc_attr ident w @ after"
    and "\<forall>(a, v) \<in> set before. a < 65536 \<and> a \<noteq> ident" "ident < 65536"
  shows "\<exists>after'. wsc_attr_payload (Some (wsc_inner ssid psk @ r)) (35 + length ssid + length psk) ident =
    Some (True, if w = [] then None else Some (w @ after'), length w)"
proof -
  have le: "length (concat (map (\<lambda>(a, v). wsc_attr a v) before)) + 4 + length w \<le> 35 + length ssid + length psk"
    using arg_cong [OF assms(3), of length] by (simp add: length_wsc_inner)
  have "wsc_attr_loop (Some (wsc_inner ssid psk @ r)) (35 + length ssid + length psk) ident 0 =
      Some (True, if w = [] then None else Some (w @ after @ r), length w)"
  proof (rule wsc_find [OF assms(4,5)])
    show "drop 0 (wsc_inner ssid psk @ r) =
        concat (map (\<lambda>(a, v). wsc_attr a v) before) @ wsc_attr ident w @ after @ r"
      by (simp add: assms(3))
    show "0 + length (concat (map (\<lambda>(a, v). wsc_attr a v) before)) + 4 + length w \<le>
        35 + length ssid + length psk" using le by simp
    show "35 + length ssid + length psk \<le> length (wsc_inner ssid psk @ r)" by (simp add: length_wsc_inner)
    show "35 + length ssid + length psk \<le> UINT16_MAX" using assms(1,2) by simp
  qed
  then show ?thesis by (intro exI [of _ "after @ r"]) (simp add: wsc_attr_payload_def)
qed

lemma decode_wifi_eq:
  assumes ok: "content_ok (Wifi ssid psk)" and "length out = 256"
  shows "\<exists>out' pos. decode_wifi_wsc_payload (Some (wsc_blob ssid psk @ r)) (length (wsc_blob ssid psk))
      (Some out) 256 = Some (True, out') \<and> text_in 256 (content_text (Wifi ssid psk)) (out', pos)"
proof -
  from ok have b: "length ssid \<le> 32" "length psk \<le> 63" "ssid \<noteq> []" "8 \<le> length psk"
    "displayable ssid" "displayable psk" by (simp_all add: content_ok_def)
  then have pn: "psk \<noteq> []" by auto
  let ?cred = "Some (wsc_inner ssid psk @ r)" and ?n = "35 + length ssid + length psk"
  obtain t1 where ssid: "wsc_attr_payload ?cred ?n 0x1045 = Some (True, Some (ssid @ t1), length ssid)"
    using wsc_inner_find [OF b(1,2), of "[(0x1026, [1])]" "0x1045" ssid _ r] b(3)
    by (auto simp: wsc_inner_def)
  obtain t2 where auth: "wsc_attr_payload ?cred ?n 0x1003 = Some (True, Some ([0, 0x20] @ t2), 2)"
    using wsc_inner_find [OF b(1,2), of "[(0x1026, [1]), (0x1045, ssid)]" "0x1003" "[0, 0x20]" _ r]
    by (auto simp: wsc_inner_def)
  obtain t3 where encr: "wsc_attr_payload ?cred ?n 0x100F = Some (True, Some ([0, 8] @ t3), 2)"
    using wsc_inner_find [OF b(1,2), of "[(0x1026, [1]), (0x1045, ssid), (0x1003, [0, 0x20])]" "0x100F" "[0, 8]" _ r]
    by (auto simp: wsc_inner_def)
  obtain t4 where key: "wsc_attr_payload ?cred ?n 0x1027 = Some (True, Some (psk @ t4), length psk)"
    using wsc_inner_find [OF b(1,2),
        of "[(0x1026, [1]), (0x1045, ssid), (0x1003, [0, 0x20]), (0x100F, [0, 8])]" "0x1027" psk _ r] pn
    by (auto simp: wsc_inner_def)
  have disp: "payload_is_display_text (Some (ssid @ t1)) (length ssid) = Some True"
    "payload_is_display_text (Some (psk @ t4)) (length psk) = Some True"
    using display_payload [OF b(5), of t1] display_payload [OF b(6), of t4] b(3) pn by simp_all
  have names: "wsc_u16_name (Some ([0, 0x20] @ t2)) 2 0x20 (literal ''WPA2-Personal'') = Some (literal ''WPA2-Personal'')"
    "wsc_u16_name (Some ([0, 8] @ t3)) 2 0x08 (literal ''AES'') = Some (literal ''AES'')"
    by (simp_all add: wsc_u16_name_def u8_at_in)
  have lit: "0 \<notin> set (ascii ''Wi-Fi: ssid='')" "0 \<notin> set (ascii '' auth='')" "0 \<notin> set (ascii ''WPA2-Personal'')"
    "0 \<notin> set (ascii '' encryption='')" "0 \<notin> set (ascii ''AES'')" "0 \<notin> set (ascii '' key='')"
    by (simp_all add: ascii_def)
  note al = append_literal [where cap = 256]
  have tail: "appends 256 (skip_if (length psk = 0) (and_then (append_text 256 (literal '' key=''))
      (append_span 256 (Some (psk @ t4)) (length psk)))) (ascii '' key='' @ psk)"
    using appends_skip [of "length psk = 0" 256 _ "ascii '' key='' @ psk"]
      appends_and_then [OF al [OF lit(6)] append_span_appends [of "Some (psk @ t4)" psk None t4 256]] pn
    by simp
  have all: "appends 256 (and_then (append_text 256 (literal ''Wi-Fi: ssid=''))
     (and_then (append_span 256 (Some (ssid @ t1)) (length ssid))
       (and_then (append_text 256 (literal '' auth=''))
         (and_then (append_text 256 (literal ''WPA2-Personal''))
           (and_then (append_text 256 (literal '' encryption=''))
             (and_then (append_text 256 (literal ''AES''))
               (skip_if (length psk = 0)
                 (and_then (append_text 256 (literal '' key=''))
                   (append_span 256 (Some (psk @ t4)) (length psk)))))))))) (content_text (Wifi ssid psk))"
    unfolding content_text.simps
    by (intro appends_and_then al lit tail append_span_appends [of _ _ None t1]) (use b(3) in simp_all)
  have "length ([] @ content_text (Wifi ssid psk)) < 256" using b by simp
  then obtain o1 p1 where "and_then (append_text 256 (literal ''Wi-Fi: ssid=''))
     (and_then (append_span 256 (Some (ssid @ t1)) (length ssid))
       (and_then (append_text 256 (literal '' auth=''))
         (and_then (append_text 256 (literal ''WPA2-Personal''))
           (and_then (append_text 256 (literal '' encryption=''))
             (and_then (append_text 256 (literal ''AES''))
               (skip_if (length psk = 0)
                 (and_then (append_text 256 (literal '' key=''))
                   (append_span 256 (Some (psk @ t4)) (length psk))))))))) (Some out, 0) = Some (True, o1, p1)"
    and "text_in 256 ([] @ content_text (Wifi ssid psk)) (o1, p1)"
    using appendsE [OF all text_in_start [OF assms(2)]] by auto
  then show ?thesis
    using wsc_credential [OF b(1,2), of r] ssid auth encr key disp names pn
    unfolding decode_wifi_wsc_payload_def by (auto simp: split_beta)
qed

text \<open>Credentials with a byte that is not ASCII text are refused, and the buffer is left alone.\<close>

lemma decode_wifi_refused:
  assumes ok: "storable (Wifi ssid psk)" and no: "\<not> content_ok (Wifi ssid psk)"
  shows "decode_wifi_wsc_payload (Some (wsc_blob ssid psk @ r)) (length (wsc_blob ssid psk)) out 256 = Some (False, out)"
proof -
  from ok have b: "length ssid \<le> 32" "length psk \<le> 63" "ssid \<noteq> []" "8 \<le> length psk" by simp_all
  then have pn: "psk \<noteq> []" by auto
  have refused: "\<not> displayable ssid \<or> \<not> displayable psk" using ok no by (simp add: content_ok_def)
  let ?cred = "Some (wsc_inner ssid psk @ r)" and ?n = "35 + length ssid + length psk"
  obtain t1 where ssid: "wsc_attr_payload ?cred ?n 0x1045 = Some (True, Some (ssid @ t1), length ssid)"
    using wsc_inner_find [OF b(1,2), of "[(0x1026, [1])]" "0x1045" ssid _ r] b(3)
    by (auto simp: wsc_inner_def)
  obtain t2 where auth: "wsc_attr_payload ?cred ?n 0x1003 = Some (True, Some ([0, 0x20] @ t2), 2)"
    using wsc_inner_find [OF b(1,2), of "[(0x1026, [1]), (0x1045, ssid)]" "0x1003" "[0, 0x20]" _ r]
    by (auto simp: wsc_inner_def)
  obtain t3 where encr: "wsc_attr_payload ?cred ?n 0x100F = Some (True, Some ([0, 8] @ t3), 2)"
    using wsc_inner_find [OF b(1,2), of "[(0x1026, [1]), (0x1045, ssid), (0x1003, [0, 0x20])]" "0x100F" "[0, 8]" _ r]
    by (auto simp: wsc_inner_def)
  obtain t4 where key: "wsc_attr_payload ?cred ?n 0x1027 = Some (True, Some (psk @ t4), length psk)"
    using wsc_inner_find [OF b(1,2),
        of "[(0x1026, [1]), (0x1045, ssid), (0x1003, [0, 0x20]), (0x100F, [0, 8])]" "0x1027" psk _ r] pn
    by (auto simp: wsc_inner_def)
  have disp: "payload_is_display_text (Some (ssid @ t1)) (length ssid) = Some (displayable ssid)"
    "payload_is_display_text (Some (psk @ t4)) (length psk) = Some (displayable psk)"
    using display_payload_eq [of ssid t1] display_payload_eq [of psk t4] b(3) pn by simp_all
  show ?thesis
  proof (cases "displayable ssid")
    case True
    then have "\<not> displayable psk" using refused by simp
    then show ?thesis using wsc_credential [OF b(1,2), of r] ssid auth encr key disp True pn
      unfolding decode_wifi_wsc_payload_def by simp
  next
    case False
    then show ?thesis using wsc_credential [OF b(1,2), of r] ssid disp
      unfolding decode_wifi_wsc_payload_def by simp
  qed
qed

section \<open>Contacts\<close>

text \<open>Reading at a position of the payload, in terms of what is ahead.\<close>

lemma ahead_nth:
  assumes "drop i (take len bs) = xs @ ys" "len \<le> length bs" "j < length xs"
  shows "bs ! (i + j) = xs ! j" and "i + j < len"
proof -
  have "length (drop i (take len bs)) = length xs + length ys" using assms(1) by simp
  then show l: "i + j < len" using assms(2,3) by simp
  have "drop i (take len bs) ! j = xs ! j" using assms(1,3) by (simp add: nth_append)
  then show "bs ! (i + j) = xs ! j" using l assms(2) by simp
qed

definition line_chars :: "bytes \<Rightarrow> bool" where
  "line_chars line \<longleftrightarrow> 0x0D \<notin> set line \<and> 0x0A \<notin> set line"

lemma line_end_eq:
  assumes "drop i (take len bs) = line @ 0x0D # ys" "len \<le> length bs" "line_chars line"
  shows "vcard_line_end (Some bs) len i = Some (i + length line)"
  using assms(1,3)
proof (induction line arbitrary: i)
  case Nil
  then show ?case using ahead_nth [of i len bs "[0x0D]" ys 0] assms(2)
    by (subst vcard_line_end.simps) simp
next
  case (Cons c line)
  have n: "bs ! i = c" "i < len"
    using ahead_nth [of i len bs "[c]" "line @ 0x0D # ys" 0] Cons.prems(1) assms(2) by simp_all
  have "drop (i + 1) (take len bs) = drop 1 (drop i (take len bs))" by simp
  then have "drop (i + 1) (take len bs) = line @ 0x0D # ys" unfolding Cons.prems(1) by simp
  moreover have "line_chars line" using Cons.prems(2) by (simp add: line_chars_def)
  ultimately have "vcard_line_end (Some bs) len (i + 1) = Some (i + 1 + length line)"
    by (rule Cons.IH)
  then show ?case using n assms(2) Cons.prems(2)
    by (subst vcard_line_end.simps) (auto simp: line_chars_def)
qed

lemma next_line_eq:
  assumes "drop e (take len bs) = crlf @ ys" "len \<le> length bs" "len \<le> UINT16_MAX"
  shows "vcard_next_line (Some bs) len e = Some (e + 2)"
proof -
  have "bs ! e = 0x0D" "bs ! (e + 1) = 0x0A" "e + 1 < len"
    using ahead_nth [of e len bs crlf ys 0] ahead_nth [of e len bs crlf ys 1] assms(1,2)
    by (simp_all add: crlf_def)
  then show ?thesis using assms(2,3) by (simp add: vcard_next_line_def byte_at_def)
qed

lemma vcard_skip_line:
  assumes "drop s (take len bs) = line @ crlf @ ys" "len \<le> length bs" "len \<le> UINT16_MAX"
    and "line_chars line" "line \<noteq> []" "nm \<noteq> []" "hd line \<noteq> hd nm"
  shows "vcard_property_loop (Some bs) len (Some (nm @ [0])) (length nm) s =
    vcard_property_loop (Some bs) len (Some (nm @ [0])) (length nm) (s + length line + 2)"
proof -
  let ?e = "s + length line"
  have e: "vcard_line_end (Some bs) len s = Some ?e"
    by (rule line_end_eq [where ys = "0x0A # ys"]) (use assms in \<open>simp_all add: crlf_def\<close>)
  have s: "s < len" "bs ! s = hd line"
    using ahead_nth [OF assms(1,2), of 0] assms(5) by (simp_all add: hd_conv_nth length_greater_0_conv)
  have el: "?e < len"
    using ahead_nth(2) [of s len bs "line @ crlf" ys "length line"] assms(1,2) by (simp add: crlf_def)
  have hit: "vcard_line_hit (Some bs) len (Some (nm @ [0])) (length nm) s ?e = Some False"
  proof (cases "length line > length nm")
    case True
    then have fits: "s + length nm < len" "length nm \<le> length (drop s bs)" using el assms(2) by simp_all
    have "hd (take (length nm) (drop s bs)) = hd line"
      using s assms(2,6) by (simp add: hd_drop_conv_nth hd_take length_greater_0_conv)
    then have "take (length nm) (drop s bs) \<noteq> take (length nm) (nm @ [0])" using assms(7) by force
    then have "mem_eq (ptr_add (Some bs) s) (Some (nm @ [0])) (length nm) = Some False"
      using fits by simp
    then show ?thesis using True fits assms(2,3) by (simp add: vcard_line_hit_def byte_at_def)
  next
    case False
    then show ?thesis by (simp add: vcard_line_hit_def)
  qed
  have "drop ?e (take len bs) = drop (length line) (drop s (take len bs))" by (simp add: add.commute)
  then have "drop ?e (take len bs) = crlf @ ys" unfolding assms(1) by simp
  then have nx: "vcard_next_line (Some bs) len ?e = Some (?e + 2)"
    by (rule next_line_eq) (use assms in simp_all)
  show ?thesis
    by (subst vcard_property_loop.simps) (simp add: s(1) e hit nx)
qed

lemma vcard_hit_line:
  assumes "drop s (take len bs) = (nm @ 0x3A # v) @ crlf @ ys" "len \<le> length bs" "len \<le> UINT16_MAX"
    and "line_chars (nm @ 0x3A # v)"
  shows "\<exists>r. vcard_property_loop (Some bs) len (Some (nm @ [0])) (length nm) s =
    Some (True, if v = [] then None else Some (v @ r), length v)"
proof -
  let ?line = "nm @ 0x3A # v"
  let ?e = "s + length ?line"
  have e: "vcard_line_end (Some bs) len s = Some ?e"
    by (rule line_end_eq [where ys = "0x0A # ys"]) (use assms in \<open>simp_all add: crlf_def\<close>)
  have el: "?e < len"
    using ahead_nth(2) [of s len bs "?line @ crlf" ys "length ?line"] assms(1,2) by (simp add: crlf_def)
  have s: "s < len" using el by simp
  have c: "bs ! (s + length nm) = 0x3A" using ahead_nth [OF assms(1,2), of "length nm"] by simp
  have db: "drop s bs = ?line @ crlf @ ys @ drop len bs"
  proof -
    have "drop s bs = drop s (take len bs) @ drop len bs"
      using s assms(2) by (metis append_take_drop_id drop_append length_take min.absorb2
          diff_is_0_eq' drop0 less_imp_le)
    then show ?thesis unfolding assms(1) by simp
  qed
  have hit: "vcard_line_hit (Some bs) len (Some (nm @ [0])) (length nm) s ?e = Some True"
    using el assms(2,3) c db by (simp add: vcard_line_hit_def byte_at_def)
  have vs: "vcard_value_start (Some bs) len ?e (s + length nm + 1) = Some (s + length nm + 1)"
    by (subst vcard_value_start.simps) (use el assms(2,3) c in \<open>simp add: byte_at_def\<close>)
  have pv: "drop (s + length nm + 1) bs = v @ crlf @ ys @ drop len bs"
  proof -
    have "drop (s + length nm + 1) bs = drop (length nm + 1) (drop s bs)" by (simp add: ac_simps)
    then show ?thesis unfolding db by simp
  qed
  define q where "q = s + length nm + 1"
  have sp: "nero_nfc_span_ok q (length v) len" using el assms(3) by (simp add: q_def)
  have lv: "length v \<le> UINT16_MAX" using el assms(3) by simp
  have "vcard_property_loop (Some bs) len (Some (nm @ [0])) (length nm) s =
      Some (True, if v = [] then None else Some (v @ crlf @ ys @ drop len bs), length v)"
    by (subst vcard_property_loop.simps)
      (use s e hit vs sp pv lv in \<open>simp add: q_def Let_def flip: length_0_conv\<close>)
  then show ?thesis by blast
qed


lemma vcard_find_line:
  assumes "drop s (take len bs) = concat (map (\<lambda>l. l @ crlf) ls) @ (nm @ 0x3A # v) @ crlf @ ys"
    and "len \<le> length bs" "len \<le> UINT16_MAX" "nm \<noteq> []" "line_chars (nm @ 0x3A # v)"
    and "\<forall>l \<in> set ls. line_chars l \<and> l \<noteq> [] \<and> hd l \<noteq> hd nm"
  shows "\<exists>r. vcard_property_loop (Some bs) len (Some (nm @ [0])) (length nm) s =
    Some (True, if v = [] then None else Some (v @ r), length v)"
  using assms(1,6)
proof (induction ls arbitrary: s)
  case Nil
  then show ?case using vcard_hit_line [of s len bs nm v ys] assms(2-5) by simp
next
  case (Cons l ls)
  let ?tail = "concat (map (\<lambda>l. l @ crlf) ls) @ (nm @ 0x3A # v) @ crlf @ ys"
  have d: "drop s (take len bs) = l @ crlf @ ?tail" using Cons.prems(1) by simp
  have "drop (s + length l + 2) (take len bs) = drop (length l + 2) (drop s (take len bs))"
    by (simp add: ac_simps)
  then have "drop (s + length l + 2) (take len bs) = ?tail" unfolding d by (simp add: crlf_def)
  moreover have "vcard_property_loop (Some bs) len (Some (nm @ [0])) (length nm) s =
      vcard_property_loop (Some bs) len (Some (nm @ [0])) (length nm) (s + length l + 2)"
    using vcard_skip_line [OF d assms(2,3)] Cons.prems(2) assms(4) by simp
  ultimately show ?case using Cons.IH [of "s + length l + 2"] Cons.prems(2) by simp
qed

lemma vcard_find:
  assumes "t = concat (map (\<lambda>l. l @ crlf) ls) @ (ascii nm @ 0x3A # v) @ crlf @ ys"
    and "length t \<le> UINT16_MAX" "nm \<noteq> []" "length nm < 255" "0 \<notin> set (ascii nm)"
    and "line_chars (ascii nm @ 0x3A # v)"
    and "\<forall>l \<in> set ls. line_chars l \<and> l \<noteq> [] \<and> hd l \<noteq> hd (ascii nm)"
  shows "\<exists>r'. vcard_property (Some (t @ r)) (length t) (literal nm) =
    Some (True, if v = [] then None else Some (v @ r'), length v)"
proof -
  have "ascii nm \<noteq> []" using assms(3) by (simp add: ascii_def)
  then obtain r' where "vcard_property_loop (Some (t @ r)) (length t) (Some (ascii nm @ [0])) (length (ascii nm)) 0 =
      Some (True, if v = [] then None else Some (v @ r'), length v)"
    using vcard_find_line [of 0 "length t" "t @ r" ls "ascii nm" v ys] assms by auto
  moreover have "nero_nfc_bounded_strlen (literal nm) 255 = Some (Some (length (ascii nm)))"
    unfolding literal_def by (rule bounded_strlen_terminated) (use assms(4,5) in simp_all)
  ultimately show ?thesis by (auto simp: vcard_property_def literal_def)
qed

lemma printable_line: "printable s \<Longrightarrow> line_chars s"
  by (auto simp: printable_def line_chars_def)

lemma displayable_vcard:
  assumes "printable n" "printable t" "printable e"
  shows "displayable (vcard_text n t e)"
  using assms unfolding vcard_text_def displayable_def printable_def set_append ball_Un
  by (simp add: crlf_def ascii_def)

lemma decode_vcard_eq:
  assumes ok: "content_ok (Contact n t e)" and "length out = 256"
  shows "\<exists>out' pos. decode_vcard_payload (Some (vcard_text n t e @ r)) (length (vcard_text n t e))
      (Some out) 256 = Some (True, out') \<and> text_in 256 (content_text (Contact n t e)) (out', pos)"
proof -
  let ?v = "vcard_text n t e"
  from ok have pr: "printable n" "printable t" "printable e" and le: "length n + length t + length e \<le> 198"
    by (simp_all add: content_ok_def)
  note lines = printable_line [OF pr(1)] printable_line [OF pr(2)] printable_line [OF pr(3)]
  have small: "length ?v \<le> UINT16_MAX" using le by (simp add: length_vcard_text)
  have disp: "payload_is_display_text (Some (?v @ r)) (length ?v) = Some True"
    using display_payload [OF displayable_vcard [OF pr], of r] by (simp add: vcard_text_def ascii_def)
  obtain r1 where fn: "vcard_property (Some (?v @ r)) (length ?v) (literal ''FN'') =
      Some (True, if n = [] then None else Some (n @ r1), length n)"
    using vcard_find [of ?v "[ascii ''BEGIN:VCARD'', ascii ''VERSION:4.0'']" "''FN''" n _ r] small lines
    by (auto simp: vcard_text_def ascii_def line_chars_def)
  obtain r2 where tel: "vcard_property (Some (?v @ r)) (length ?v) (literal ''TEL'') =
      Some (True, if t = [] then None else Some (t @ r2), length t)"
    using vcard_find [of ?v "[ascii ''BEGIN:VCARD'', ascii ''VERSION:4.0'', ascii ''FN:'' @ n]" "''TEL''" t _ r] small lines
    by (auto simp: vcard_text_def ascii_def line_chars_def)
  obtain r3 where email: "vcard_property (Some (?v @ r)) (length ?v) (literal ''EMAIL'') =
      Some (True, if e = [] then None else Some (e @ r3), length e)"
    using vcard_find [of ?v "[ascii ''BEGIN:VCARD'', ascii ''VERSION:4.0'', ascii ''FN:'' @ n, ascii ''TEL:'' @ t]"
        "''EMAIL''" e _ r] small lines
    by (auto simp: vcard_text_def ascii_def line_chars_def)
  have lit: "0 \<notin> set (ascii ''Contact: name='')" "0 \<notin> set (ascii '' tel='')" "0 \<notin> set (ascii '' email='')"
    by (simp_all add: ascii_def)
  note al = append_literal [where cap = 256]
  have opt: "appends 256 (skip_if (length w = 0) (and_then (append_text 256 (literal l))
      (append_span 256 (if w = [] then None else Some (w @ q)) (length w)))) (if w = [] then [] else ascii l @ w)"
    if "0 \<notin> set (ascii l)" for l w q
  proof -
    have "appends 256 (and_then (append_text 256 (literal l))
        (append_span 256 (if w = [] then None else Some (w @ q)) (length w))) (ascii l @ w)"
      by (rule appends_and_then [OF al [OF that] append_span_appends [of _ w None q 256]]) simp_all
    from appends_skip [of "length w = 0", OF this] show ?thesis unfolding length_0_conv .
  qed
  let ?chain = "and_then (append_text 256 (literal ''Contact: name=''))
     (and_then (append_span 256 (if n = [] then None else Some (n @ r1)) (length n))
       (and_then (skip_if (length t = 0) (and_then (append_text 256 (literal '' tel=''))
            (append_span 256 (if t = [] then None else Some (t @ r2)) (length t))))
         (skip_if (length e = 0) (and_then (append_text 256 (literal '' email=''))
            (append_span 256 (if e = [] then None else Some (e @ r3)) (length e))))))"
  have all: "appends 256 ?chain (content_text (Contact n t e))"
    unfolding content_text.simps
    by (intro appends_and_then al lit opt append_span_appends [of _ _ None r1]) simp_all
  have "length ([] @ content_text (Contact n t e)) < 256" using le by simp
  then obtain o1 p1 where "?chain (Some out, 0) = Some (True, o1, p1)"
    and "text_in 256 ([] @ content_text (Contact n t e)) (o1, p1)"
    using appendsE [OF all text_in_start [OF assms(2)]] by auto
  then show ?thesis using disp fn tel email unfolding decode_vcard_payload_def
    by (auto simp: split_beta)
qed

lemma displayable_parts:
  assumes "displayable (vcard_text n t e)" and "no_control n" "no_control t" "no_control e"
  shows "printable n \<and> printable t \<and> printable e"
proof -
  have "printable s" if "set s \<subseteq> set (vcard_text n t e)" "no_control s" for s
    unfolding printable_def
  proof
    fix c assume c: "c \<in> set s"
    then have "0x20 \<le> c" using that(2) by (simp add: no_control_def)
    moreover have "c = 0x0D \<or> c = 0x0A \<or> c = 0x09 \<or> (0x20 \<le> c \<and> c \<le> 0x7E)"
      using assms(1) c that(1) by (auto simp: displayable_def)
    ultimately show "0x20 \<le> c \<and> c \<le> 0x7E" by auto
  qed
  moreover have "set n \<subseteq> set (vcard_text n t e)" "set t \<subseteq> set (vcard_text n t e)" "set e \<subseteq> set (vcard_text n t e)"
    by (auto simp: vcard_text_def)
  ultimately show ?thesis using assms(2-4) by blast
qed

text \<open>A contact with a byte above 7E is refused.\<close>

lemma decode_vcard_refused:
  assumes ok: "storable (Contact n t e)" and no: "\<not> content_ok (Contact n t e)"
  shows "decode_vcard_payload (Some (vcard_text n t e @ r)) (length (vcard_text n t e)) out 256 = Some (False, out)"
proof -
  have "\<not> displayable (vcard_text n t e)"
    using displayable_parts [of n t e] ok no by (auto simp: content_ok_def)
  then have "payload_is_display_text (Some (vcard_text n t e @ r)) (length (vcard_text n t e)) = Some False"
    using display_payload_eq [of "vcard_text n t e" r] by (simp add: vcard_text_def ascii_def)
  then show ?thesis by (simp add: decode_vcard_payload_def)
qed

end
