(* ===== verification/NdefShown.thy ===== *)
theory NdefShown
  imports NdefReadback
begin

text \<open>
  Writer and reader together: the tag image the writer builds for a configuration, and the log
  and the list of URLs the reader produces from that image. Also the contents that the writer
  stores and the reader then does not decode.
\<close>

section \<open>Remembering URLs\<close>

definition url_ok :: "url_store \<Rightarrow> bool" where
  "url_ok st \<longleftrightarrow> length (detected_url st) = 257 \<and> length (detected_urls st) = 4 \<and>
     (\<forall>u \<in> set (detected_urls st). length u = 256) \<and> detected_url_count st \<le> 4"

text \<open>The last URL seen and, while there is room, one more entry of the list.\<close>

definition url_remembered :: "url_store \<Rightarrow> bytes \<Rightarrow> url_store \<Rightarrow> bool" where
  "url_remembered st url st' \<longleftrightarrow> url_ok st' \<and> url_detected st' \<and> cstr (detected_url st') = url \<and>
     (if detected_url_count st < 4
      then detected_url_count st' = detected_url_count st + 1 \<and>
        cstr (detected_urls st' ! detected_url_count st) = url
      else detected_url_count st' = detected_url_count st)"

lemma remember_url:
  assumes "url_ok st" "0 \<notin> set url" "url \<noteq> []" "length url < 256"
  shows "\<exists>st'. remember_detected_url st (Some (url @ 0 # r)) = Some st' \<and> url_remembered st url st'"
proof -
  let ?u = "url @ [0]" and ?n = "detected_url_count st"
  have m: "nero_nfc_bounded_strlen (Some (url @ 0 # r)) 256 = Some (Some (length url))"
    by (rule bounded_strlen_terminated) (use assms in simp_all)
  have tk: "take (length url + 1) (url @ 0 # r) = ?u" by simp
  have lu: "length (detected_url st) = 257" "length (detected_urls st) = 4" "?n \<le> 4"
    using assms(1) by (simp_all add: url_ok_def)
  have c1: "nero_nfc_copy_bytes (Some (detected_url st)) 257 0 (Some (url @ 0 # r)) (length url + 1) =
      Some (True, Some (patch (detected_url st) 0 ?u))"
    using lu(1) assms(4) tk by simp
  have pc: "cstr (patch d 0 ?u) = url" for d :: bytes
  proof -
    have "patch d 0 ?u = url @ 0 # drop (length url + 1) d" by (simp add: patch_def)
    then show ?thesis using cstr_terminated [OF assms(2)] by simp
  qed
  let ?s1 = "st\<lparr>detected_url := patch (detected_url st) 0 ?u, url_detected := True\<rparr>"
  have l1: "length (patch (detected_url st) 0 ?u) = 257" using lu(1) assms(4) by simp
  show ?thesis
  proof (cases "?n < 4")
    case True
    let ?e = "detected_urls st ! ?n"
    have le: "length ?e = 256" using assms(1) True by (simp add: url_ok_def)
    have c2: "nero_nfc_copy_bytes (Some ?e) 256 0 (Some (url @ 0 # r)) (length url + 1) =
        Some (True, Some (patch ?e 0 ?u))"
      using le assms(4) tk by simp
    let ?s2 = "?s1\<lparr>detected_urls := (detected_urls st)[?n := patch ?e 0 ?u], detected_url_count := ?n + 1\<rparr>"
    have "remember_detected_url st (Some (url @ 0 # r)) = Some ?s2"
      using m c1 c2 True assms(3,4) by (simp add: remember_detected_url_def Let_def)
    moreover have "url_ok ?s2"
      using assms(1,4) l1 le True by (auto simp: url_ok_def dest: set_update_subset_insert [THEN subsetD])
    ultimately show ?thesis using pc True lu(2) by (simp add: url_remembered_def)
  next
    case False
    then have "remember_detected_url st (Some (url @ 0 # r)) = Some ?s1"
      using m c1 assms(3,4) by (simp add: remember_detected_url_def Let_def)
    moreover have "url_ok ?s1" using assms(1) l1 by (simp add: url_ok_def)
    ultimately show ?thesis using pc False by (simp add: url_remembered_def)
  qed
qed

section \<open>Decoding the record of a content\<close>

lemma decoded_text:
  assumes "0 \<notin> set txt" "length txt < 256"
  shows "\<exists>r. patch (replicate 256 0) 0 (txt @ [0]) = txt @ 0 # r \<and> length (txt @ 0 # r) = 256"
proof -
  have "patch (replicate 256 0) 0 (txt @ [0]) = txt @ 0 # drop (length txt + 1) (replicate 256 0)"
    by (simp add: patch_def del: drop_replicate)
  then show ?thesis using assms(2) by auto
qed

lemma uri_content:
  assumes "content_ok (Uri code uri)"
  shows "uri_payload_ok (code # uri) 256" and "uri_of_payload (code # uri) = content_text (Uri code uri)"
    and "0 \<notin> set (content_text (Uri code uri))" and "content_text (Uri code uri) \<noteq> []"
    and "length (content_text (Uri code uri)) < 256"
  using assms uri_prefix_nth [of "unat code"] uri_text_no_zero [of uri]
  by (auto simp: content_ok_def uri_payload_ok_def uri_of_payload_def)

lemma decode_uri_content:
  assumes "content_ok (Uri code uri)" "url_ok st"
  shows "\<exists>r st'. decode_uri_payload st (Some ((code # uri) @ rest)) (length (code # uri)) (Some (replicate 256 0)) 256 =
      Some (True, Some (content_text (Uri code uri) @ 0 # r), st') \<and>
    length (content_text (Uri code uri) @ 0 # r) = 256 \<and>
    url_remembered st (content_text (Uri code uri)) st'"
proof -
  let ?t = "content_text (Uri code uri)" and ?p = "code # uri"
  note u = uri_content [OF assms(1)]
  obtain r where r: "patch (replicate 256 0) 0 (?t @ [0]) = ?t @ 0 # r" "length (?t @ 0 # r) = 256"
    using decoded_text [OF u(3,5)] by blast
  have small: "length ?p < SIZE_MAX" using assms(1) by (simp add: content_ok_def)
  obtain new where "nfc_ndef_decode_uri_payload (Some (?p @ rest)) (length ?p) (Some (replicate 256 0)) 256 =
      Some (uri_payload_ok (take (length ?p) (?p @ rest)) 256, Some new)"
    and "decoded_at (replicate 256 0) 0 (uri_of_payload (take (length ?p) (?p @ rest)))
      (uri_payload_ok (take (length ?p) (?p @ rest)) 256) new"
    using decode_uri_eq [of "length ?p" "?p @ rest" 256 "replicate 256 0"] small by auto
  then have "nfc_ndef_decode_uri_payload (Some (?p @ rest)) (length ?p) (Some (replicate 256 0)) 256 =
      Some (True, Some (?t @ 0 # r))"
    using u r by (simp add: decoded_at_def)
  moreover obtain st' where "remember_detected_url st (Some (?t @ 0 # r)) = Some st'"
    "url_remembered st ?t st'" using remember_url [OF assms(2) u(3,4,5)] by blast
  ultimately show ?thesis using r(2) by (auto simp: decode_uri_payload_def)
qed

lemma decode_text_content:
  assumes "content_ok (Plain txt)"
  shows "\<exists>r. nfc_ndef_decode_text_payload (Some ((2 # ascii ''en'' @ txt) @ rest)) (3 + length txt)
      (Some (replicate 256 0)) 256 = Some (True, Some (txt @ 0 # r)) \<and> length (txt @ 0 # r) = 256"
proof -
  let ?p = "2 # ascii ''en'' @ txt"
  from assms have t: "0 \<notin> set txt" "length txt < 256" by (auto simp: content_ok_def)
  obtain r where r: "patch (replicate 256 0) 0 (txt @ [0]) = txt @ 0 # r" "length (txt @ 0 # r) = 256"
    using decoded_text [OF t] by blast
  have lp: "length ?p = 3 + length txt" by simp
  have dr: "drop 3 ?p = txt" by (simp add: ascii_def)
  have tk: "take (3 + length txt) (?p @ rest) = ?p" unfolding lp [symmetric] by simp
  have top: "text_of_payload ?p = txt" using dr by (simp add: text_of_payload_def)
  have ok: "text_payload_ok ?p 256" unfolding text_payload_ok_def top using t by simp
  obtain new where "nfc_ndef_decode_text_payload (Some (?p @ rest)) (3 + length txt) (Some (replicate 256 0)) 256 =
      Some (text_payload_ok (take (3 + length txt) (?p @ rest)) 256, Some new)"
    and "decoded_at (replicate 256 0) 0 (text_of_payload (take (3 + length txt) (?p @ rest)))
      (text_payload_ok (take (3 + length txt) (?p @ rest)) 256) new"
    using decode_text_eq [of "3 + length txt" "?p @ rest" 256 "replicate 256 0"] by auto
  then show ?thesis unfolding tk using ok top r by (auto simp: decoded_at_def)
qed

lemma type_equals_literal:
  assumes "0 \<notin> set (ascii s)" "length s < 255"
  shows "type_equals (Some (ty @ r)) (length ty) (literal s) = Some (ty = ascii s)"
  using assms bounded_strlen_terminated [OF assms(1), of 255 "[]"]
  by (auto simp: type_equals_def literal_def)

lemma mime_literals:
  "VCARD_MIME = ascii ''text/vcard''" "WSC_MIME = ascii ''application/vnd.wfa.wsc''"
  "BT_OOB_MIME = ascii ''application/vnd.bluetooth.ep.oob''"
  by (simp_all add: VCARD_MIME_def WSC_MIME_def BT_OOB_MIME_def)

lemma mimes_differ: "VCARD_MIME \<noteq> WSC_MIME" "VCARD_MIME \<noteq> BT_OOB_MIME" "WSC_MIME \<noteq> BT_OOB_MIME"
  by (simp_all add: VCARD_MIME_def WSC_MIME_def BT_OOB_MIME_def ascii_def)

lemma decode_mime_eq:
  "decode_mime_payload (Some (VCARD_MIME @ r)) 10 p n out cap = decode_vcard_payload p n out cap"
  "decode_mime_payload (Some (WSC_MIME @ r)) 23 p n out cap = decode_wifi_wsc_payload p n out cap"
  "decode_mime_payload (Some (BT_OOB_MIME @ r)) 32 p n out cap = decode_bluetooth_oob_payload p n out cap"
proof -
  have te: "type_equals (Some (ty @ r)) (length ty) (literal ''text/vcard'') = Some (ty = VCARD_MIME)"
    "type_equals (Some (ty @ r)) (length ty) (literal ''application/vnd.wfa.wsc'') = Some (ty = WSC_MIME)"
    "type_equals (Some (ty @ r)) (length ty) (literal ''application/vnd.bluetooth.ep.oob'') = Some (ty = BT_OOB_MIME)"
    for ty
    unfolding mime_literals by (rule type_equals_literal; simp add: ascii_def)+
  show "decode_mime_payload (Some (VCARD_MIME @ r)) 10 p n out cap = decode_vcard_payload p n out cap"
    "decode_mime_payload (Some (WSC_MIME @ r)) 23 p n out cap = decode_wifi_wsc_payload p n out cap"
    "decode_mime_payload (Some (BT_OOB_MIME @ r)) 32 p n out cap = decode_bluetooth_oob_payload p n out cap"
    using te [of VCARD_MIME] te [of WSC_MIME] te [of BT_OOB_MIME] mimes_differ
    unfolding decode_mime_payload_def length_mimes by simp_all
qed


lemma printable_no_zero: "printable s \<Longrightarrow> 0 \<notin> set s"
  by (auto simp: printable_def)

lemma displayable_no_zero: "displayable s \<Longrightarrow> 0 \<notin> set s"
  by (auto simp: displayable_def)

lemma hex_byte_no_zero: "0 \<notin> set (hex_byte b)"
proof -
  have "unat b div 16 < 16" using unat_u8_bound [of b] by (simp add: div_less_iff_less_mult del: unat_u8_bound)
  then show ?thesis using hex_table [of "unat b div 16"] hex_table [of "unat b mod 16"]
    by (simp add: hex_byte_def)
qed

lemma bt_text_no_zero: "0 \<notin> set (bt_text ms)"
  by (induction ms rule: bt_text.induct) (simp_all add: hex_byte_no_zero)

lemma no_control_no_zero: "no_control s \<Longrightarrow> 0 \<notin> set s"
  by (auto simp: no_control_def)

lemma content_text_no_zero: "storable c \<Longrightarrow> 0 \<notin> set (content_text c)"
proof (cases c)
  case (Uri code uri)
  then show "storable c \<Longrightarrow> ?thesis" using uri_prefix_nth [of "unat code"] by simp
next
  case (Contact n t e)
  then show "storable c \<Longrightarrow> ?thesis" by (simp add: no_control_no_zero ascii_def)
next
  case (Wifi s p)
  then show "storable c \<Longrightarrow> ?thesis" by (simp add: ascii_def)
next
  case (Bluetooth m)
  then show ?thesis by (simp add: bt_text_no_zero ascii_def)
qed simp

lemma content_cases:
  "content_record c = (h, ty, p) \<Longrightarrow>
    content_image c = record_image h ty [] p \<and> (h = 0xD1 \<and> length ty = 1 \<or> h = 0xD2)"
  by (cases c) (auto simp: content_image_def)

lemma image_parts:
  assumes "content_record c = (h, ty, p)"
  shows "drop 3 (content_image c @ rest) = ty @ p @ rest"
    and "drop (3 + length ty) (content_image c @ rest) = p @ rest"
    and "record_head_len h = 3"
proof -
  have h: "h AND 0x10 \<noteq> 0" "h AND 0x08 = 0" using content_cases [OF assms] by auto
  then have im: "content_image c = [h, byte (length ty), byte (length p)] @ ty @ p"
    using content_cases [OF assms] by (simp add: record_image_def record_len_field_def)
  show d3: "drop 3 (content_image c @ rest) = ty @ p @ rest" unfolding im by simp
  have "drop (3 + length ty) (content_image c @ rest) = drop (length ty) (drop 3 (content_image c @ rest))"
    by (simp only: drop_drop add.commute)
  then show "drop (3 + length ty) (content_image c @ rest) = p @ rest" unfolding d3 by simp
  show "record_head_len h = 3" using h by (simp add: record_head_len_def)
qed

lemma content_record_ok: "storable c \<Longrightarrow> content_record c = (h, ty, p) \<Longrightarrow> record_ok h ty [] p"
  by (cases c) (auto simp: record_ok_def length_vcard_text length_wsc_blob)

definition urls_after :: "ndef_content \<Rightarrow> url_store \<Rightarrow> url_store \<Rightarrow> bool" where
  "urls_after c st st' \<longleftrightarrow>
     (case c of Uri _ _ \<Rightarrow> url_remembered st (content_text c) st' | _ \<Rightarrow> st' = st)"

lemma decode_content:
  assumes ok: "content_ok c" and urls: "url_ok st" and rec: "content_record c = (h, ty, p)"
  shows "\<exists>d st'. decode_record st (Some (content_image c @ rest)) (record_of h ty [] p) (length p)
      (Some (replicate 256 0)) = Some (True, Some d, st') \<and> cstr d = content_text c \<and> urls_after c st st'"
proof -
  let ?m = "Some (content_image c @ rest)"
  note parts = image_parts(1,2) [OF rec, of rest] image_parts(3) [OF rec]
  have ptrs: "ptr_add ?m (rec_payload_offset (record_of h ty [] p)) = Some (p @ rest)"
    "ptr_add ?m (rec_type_offset (record_of h ty [] p)) = Some (ty @ p @ rest)"
    using parts by (simp_all add: record_of_def)
  have ty0: "rd ?m 3 = Some (hd ty)" if "ty \<noteq> []"
  proof -
    have "drop 3 (content_image c @ rest) \<noteq> []" using parts(1) that by simp
    then have "3 < length (content_image c @ rest)" by (simp only: drop_eq_Nil not_le)
    moreover have "(content_image c @ rest) ! 3 = hd (drop 3 (content_image c @ rest))"
      using calculation by (simp only: hd_drop_conv_nth)
    ultimately show ?thesis using parts(1) that by simp
  qed
  have st_ok: "storable c" using ok by (simp add: content_ok_def)
  have zero: "0 \<notin> set (content_text c)" by (rule content_text_no_zero [OF st_ok])
  have from_text: "\<exists>d. out' = Some d \<and> cstr d = content_text c"
    if "text_in 256 (content_text c) (out', pos)" "content_text c \<noteq> []" for out' pos
    using text_in_cstr [OF that(1,2) zero] by blast
  have mime: "decode_record st ?m (record_of h ty [] p) (length p) (Some (replicate 256 0)) =
      (do { (hit, decoded) \<leftarrow> decode_mime_payload (Some (ty @ p @ rest)) (length ty) (Some (p @ rest)) (length p)
              (Some (replicate 256 0)) 256;
            Some (hit, decoded, st) })" if "h = 0xD2"
    unfolding decode_record_def ptrs Let_def using that by (simp add: record_of_def)
  show ?thesis
  proof (cases c)
    case (Uri code uri)
    then have r: "h = 0xD1" "ty = [0x55]" "p = code # uri" using rec by auto
    obtain q st' where "decode_uri_payload st (Some (p @ rest)) (length p) (Some (replicate 256 0)) 256 =
        Some (True, Some (content_text c @ 0 # q), st')" "url_remembered st (content_text c) st'"
      using decode_uri_content [of code uri st rest] ok urls Uri r by auto
    then have "decode_record st ?m (record_of h ty [] p) (length p) (Some (replicate 256 0)) =
        Some (True, Some (content_text c @ 0 # q), st')"
      unfolding decode_record_def ptrs Let_def using r ty0 parts(3) by (simp add: record_of_def)
    then show ?thesis using cstr_terminated [OF zero, of q] \<open>url_remembered st (content_text c) st'\<close> Uri
      by (auto simp: urls_after_def simp del: content_text.simps)
  next
    case (Plain t)
    then have r: "h = 0xD1" "ty = [0x54]" "p = 2 # ascii ''en'' @ t" using rec by auto
    then have lp: "length p = 3 + length t" by simp
    have okt: "content_ok (Plain t)" using ok Plain by simp
    obtain q where "nfc_ndef_decode_text_payload (Some (p @ rest)) (length p) (Some (replicate 256 0)) 256 =
        Some (True, Some (t @ 0 # q))"
      using decode_text_content [OF okt, of rest, folded r(3), folded lp] by blast
    then have "decode_record st ?m (record_of h ty [] p) (length p) (Some (replicate 256 0)) =
        Some (True, Some (t @ 0 # q), st)"
      unfolding decode_record_def ptrs Let_def using r(1,2) ty0 parts(3) by (simp add: record_of_def)
    then show ?thesis using zero Plain by (auto simp: urls_after_def)
  next
    case (Contact n t e)
    then have r: "h = 0xD2" "ty = VCARD_MIME" "p = vcard_text n t e" using rec by auto
    obtain o1 pos where d: "decode_vcard_payload (Some (p @ rest)) (length p) (Some (replicate 256 0)) 256 =
        Some (True, o1)" "text_in 256 (content_text c) (o1, pos)"
      using decode_vcard_eq [of n t e "replicate 256 0" rest] ok Contact r by auto
    obtain b where "o1 = Some b" "cstr b = content_text c"
      using from_text [OF d(2)] Contact by (auto simp: ascii_def)
    then show ?thesis unfolding mime [OF r(1)] using d(1) r Contact decode_mime_eq(1) [of "p @ rest"]
      by (auto simp: urls_after_def)
  next
    case (Wifi sd k)
    then have r: "h = 0xD2" "ty = WSC_MIME" "p = wsc_blob sd k" using rec by auto
    obtain o1 pos where d: "decode_wifi_wsc_payload (Some (p @ rest)) (length p) (Some (replicate 256 0)) 256 =
        Some (True, o1)" "text_in 256 (content_text c) (o1, pos)"
      using decode_wifi_eq [of sd k "replicate 256 0" rest] ok Wifi r by auto
    obtain b where "o1 = Some b" "cstr b = content_text c"
      using from_text [OF d(2)] Wifi by (auto simp: ascii_def)
    then show ?thesis unfolding mime [OF r(1)] using d(1) r Wifi decode_mime_eq(2) [of "p @ rest"]
      by (auto simp: urls_after_def)
  next
    case (Bluetooth mac)
    then have r: "h = 0xD2" "ty = BT_OOB_MIME" "p = 8 # 0 # rev mac" and lm: "length mac = 6"
      using rec st_ok by auto
    have lp: "length p = 8" using r lm by simp
    have "\<exists>o1 pos. decode_bluetooth_oob_payload (Some (p @ rest)) 8 (Some (replicate 256 0)) 256 =
        Some (True, o1) \<and> text_in 256 (content_text c) (o1, pos)"
      using decode_bluetooth_eq [of mac "replicate 256 0" rest] lm Bluetooth r by auto
    then obtain o1 pos where d: "decode_bluetooth_oob_payload (Some (p @ rest)) 8 (Some (replicate 256 0)) 256 =
        Some (True, o1)" "text_in 256 (content_text c) (o1, pos)" by blast
    obtain b where "o1 = Some b" "cstr b = content_text c"
      using from_text [OF d(2)] Bluetooth by (auto simp: ascii_def)
    then show ?thesis unfolding mime [OF r(1)] using d(1) r Bluetooth lp decode_mime_eq(3) [of "p @ rest"]
      by (auto simp: urls_after_def)
  qed
qed

end
