(* ===== verification/NdefPrinted.thy ===== *)
theory NdefPrinted
  imports NdefShown
begin

text \<open>
  From a payload configuration to the line the reader logs: the tag-length-value area the writer
  builds (\<open>writer_payload_build_tlv\<close>), read by the reader's printer
  (\<open>reader_tags_parse_ndef_tlv_area\<close>), gives one record whose decoded text is the content that
  was configured. What the writer stores without checking and the reader's decoders refuse is
  listed without its text: a URI with a character they do not allow, and a contact or Wi-Fi
  credentials with bytes that are not ASCII text, such as UTF-8 names.
\<close>

section \<open>The summary line\<close>

lemma print_type_printable:
  "printable ty \<Longrightarrow> drop i xs = ty @ ys \<Longrightarrow> i \<le> length xs \<Longrightarrow>
    print_type_field_loop (Some xs) i (length ty) = Some ty"
proof (induction ty arbitrary: i)
  case (Cons c ty)
  have i: "i < length xs" "xs ! i = c"
    using Cons.prems(2,3) nth_at_drop [OF Cons.prems(2), of 0] drop_eq_Nil [of i xs]
    by (simp_all add: not_le [symmetric])
  have "drop (i + 1) xs = ty @ ys" using arg_cong [OF Cons.prems(2), of "drop 1"] by simp
  then have "print_type_field_loop (Some xs) (i + 1) (length ty) = Some ty"
    using Cons.prems(1) i by (intro Cons.IH) (auto simp: printable_def)
  then show ?case using i Cons.prems(1) by (simp add: printable_def)
qed simp

lemma content_type_printable: "content_record c = (h, ty, p) \<Longrightarrow> printable ty"
  by (cases c) (auto simp: printable_def VCARD_MIME_def WSC_MIME_def BT_OOB_MIME_def ascii_def)

lemma dec_digits_one: "dec_digits (Suc 0) = [0x31]"
  by (simp add: dec_digits.simps)

definition summary_line :: "ndef_content \<Rightarrow> bytes" where
  "summary_line c =
     (case content_record c of (h, ty, p) \<Rightarrow>
        ascii ''  Record #1: TNF='' @ dec_digits (unat (h AND 0x07)) @ ascii '' Type='' @ ty @
        ascii '' Payload='' @ dec_digits (length p) @ ascii ''B'' @
        (if content_ok c then ascii '' Decoded='' @ [0x22] @ content_text c @ [0x22] else []) @ crlf)"

definition urls_seen :: "ndef_content \<Rightarrow> url_store \<Rightarrow> url_store \<Rightarrow> bool" where
  "urls_seen c st st' \<longleftrightarrow> (if content_ok c then urls_after c st st' else st' = st)"

text \<open>The contents that are stored but not decoded.\<close>

lemma refused_content:
  assumes "storable c" and "\<not> content_ok c"
  obtains (uri) code uri where "c = Uri code uri" "\<not> uri_text uri"
    | (contact) n t e where "c = Contact n t e"
    | (wifi) ssid psk where "c = Wifi ssid psk"
  using assms by (cases c) (auto simp: content_ok_def)

lemma decode_refused:
  assumes ok: "storable c" "\<not> content_ok c" and rec: "content_record c = (h, ty, p)"
  shows "\<exists>d. decode_record st (Some (content_image c @ rest)) (record_of h ty [] p) (length p)
      (Some (replicate 256 0)) = Some (False, Some d, st)"
proof -
  let ?m = "Some (content_image c @ rest)"
  have ptrs: "ptr_add ?m (rec_payload_offset (record_of h ty [] p)) = Some (p @ rest)"
    "ptr_add ?m (rec_type_offset (record_of h ty [] p)) = Some (ty @ p @ rest)"
    using image_parts(1,2) [OF rec, of rest] image_parts(3) [OF rec] by (simp_all add: record_of_def)
  have mime: "decode_record st ?m (record_of h ty [] p) (length p) (Some (replicate 256 0)) =
      (do { (hit, decoded) \<leftarrow> decode_mime_payload (Some (ty @ p @ rest)) (length ty) (Some (p @ rest)) (length p)
              (Some (replicate 256 0)) 256;
            Some (hit, decoded, st) })" if "h = 0xD2"
    unfolding decode_record_def ptrs Let_def using that by (simp add: record_of_def)
  from ok show ?thesis
  proof (cases rule: refused_content)
    case (uri code uri)
    then have r: "h = 0xD1" "ty = [0x55]" "p = code # uri" using rec by auto
    have "drop 3 (content_image c @ rest) = 0x55 # p @ rest" using image_parts(1) [OF rec, of rest] r by simp
    then have "3 < length (content_image c @ rest)" "(content_image c @ rest) ! 3 = 0x55"
      using nth_at_drop [of 3 "content_image c @ rest" "0x55 # p @ rest" 0]
      by (simp_all add: uri length_content_image)
    then have ty0: "rd (Some (content_image c @ rest)) 3 = Some 0x55" by simp
    have small: "length p < SIZE_MAX" using ok(1) uri r by simp
    obtain new where "nfc_ndef_decode_uri_payload (Some (p @ rest)) (length p) (Some (replicate 256 0)) 256 =
        Some (False, Some new)"
      using decode_uri_eq [of "length p" "p @ rest" 256 "replicate 256 0"] small uri(2) r(3)
      by (auto simp: uri_payload_ok_def)
    then show ?thesis
      unfolding decode_record_def ptrs Let_def using r ty0 image_parts(3) [OF rec]
      by (simp add: record_of_def decode_uri_payload_def)
  next
    case (contact n t e)
    then have r: "h = 0xD2" "ty = VCARD_MIME" "p = vcard_text n t e" using rec by auto
    then show ?thesis
      unfolding mime [OF r(1)]
      using decode_vcard_refused [of n t e rest "Some (replicate 256 0)"] ok contact decode_mime_eq(1) [of "p @ rest"]
      by simp
  next
    case (wifi ssid psk)
    then have r: "h = 0xD2" "ty = WSC_MIME" "p = wsc_blob ssid psk" using rec by auto
    then show ?thesis
      unfolding mime [OF r(1)]
      using decode_wifi_refused [of ssid psk rest "Some (replicate 256 0)"] ok wifi decode_mime_eq(2) [of "p @ rest"]
      by simp
  qed
qed

lemma summary_content:
  assumes ok: "storable c" and urls: "url_ok st" and rec: "content_record c = (h, ty, p)"
  shows "\<exists>st'. print_ndef_record_summary st (Some (content_image c @ rest)) (record_of h ty [] p) 1 =
      Some (summary_line c, st') \<and> urls_seen c st st'"
proof -
  let ?m = "Some (content_image c @ rest)" and ?r = "record_of h ty [] p"
  note parts = image_parts [OF rec]
  have total: "rec_record_len ?r = length (content_image c)"
    using content_cases [OF rec] length_record_image [OF content_record_ok [OF ok rec]]
    by (simp add: record_of_def)
  have bound: "length (content_image c) \<le> SIZE_MAX" using content_image_small [OF ok] by simp
  have "rec_type_offset ?r + rec_type_len ?r \<le> rec_record_len ?r"
    "rec_payload_offset ?r + rec_payload_len ?r \<le> rec_record_len ?r"
    by (simp_all add: record_of_def)
  then have spans: "nero_nfc_span_ok (rec_type_offset ?r) (length ty) (rec_record_len ?r)"
    "nero_nfc_span_ok (rec_payload_offset ?r) (length p) (rec_record_len ?r)"
    "\<not> rec_record_len ?r < rec_payload_offset ?r" "rec_payload_len ?r = length p" "rec_type_len ?r = length ty"
    "rec_tnf ?r = h AND 0x07"
    unfolding total using span_ok_iff [OF bound] by (simp_all add: record_of_def)
  have "ptr_add ?m (rec_type_offset ?r) = Some (ty @ p @ rest)"
    using parts by (simp add: record_of_def)
  moreover have "print_type_field_loop (Some (ty @ p @ rest)) 0 (length ty) = Some ty"
    using print_type_printable [OF content_type_printable [OF rec], of 0 "ty @ p @ rest"] by simp
  ultimately have t: "print_type_field (ptr_add ?m (rec_type_offset ?r)) (length ty) = Some ty"
    by (simp add: print_type_field_def)
  show ?thesis
  proof (cases "content_ok c")
    case True
    obtain d st' where d: "decode_record st ?m ?r (length p) (Some (replicate 256 0)) = Some (True, Some d, st')"
      and cd: "cstr d = content_text c" and st': "urls_after c st st'"
      using decode_content [OF True urls rec] by blast
    show ?thesis using st' True cd
      by (intro exI [of _ st'])
        (simp add: print_ndef_record_summary_def spans t d urls_seen_def summary_line_def rec
          dec_digits_one ascii_def del: ptr_add_Some)
  next
    case False
    obtain d where d: "decode_record st ?m ?r (length p) (Some (replicate 256 0)) = Some (False, Some d, st)"
      using decode_refused [OF ok False rec] by blast
    show ?thesis using False
      by (intro exI [of _ st])
        (simp add: print_ndef_record_summary_def spans t d urls_seen_def summary_line_def rec
          dec_digits_one ascii_def del: ptr_add_Some)
  qed
qed

section \<open>The walks\<close>

lemma print_content_records:
  assumes ok: "storable c" and urls: "url_ok st"
  shows "\<exists>st'. reader_tags_print_ndef_records (Some (content_image c @ rest)) (length (content_image c)) st =
      Some (summary_line c, st') \<and> urls_seen c st st'"
proof -
  obtain h ty p where rec: "content_record c = (h, ty, p)" by (cases "content_record c") auto
  have im: "content_image c = record_image h ty [] p" and h: "h AND 0x40 \<noteq> 0"
    using content_cases [OF rec] by auto
  have small: "length (content_image c) \<le> 267" by (rule content_image_small [OF ok])
  have nx: "nfc_ndef_record_next (Some (content_image c @ rest)) (length (content_image c)) 0 =
      Some (NDEF_RECORD_OK, record_of h ty [] p, length (content_image c))"
    using record_next_complete [OF content_record_ok [OF ok rec], of "length (content_image c)"
        "content_image c @ rest" 0] small im by simp
  obtain st' where s: "print_ndef_record_summary st (Some (content_image c @ rest)) (record_of h ty [] p) 1 =
      Some (summary_line c, st')" and u: "urls_seen c st st'"
    using summary_content [OF ok urls rec] by blast
  note s = s [unfolded One_nat_def]
  have me: "rec_message_end (record_of h ty [] p)" using h by (simp add: record_of_def)
  have "print_ndef_records_loop (Some (content_image c @ rest)) (length (content_image c)) 0 0 [] st =
      Some (summary_line c, st')"
    using content_image_pos [of c] small by (subst print_ndef_records_loop.simps) (simp add: nx s me)
  then show ?thesis using u by (auto simp: reader_tags_print_ndef_records_def)
qed

definition message_log :: "ndef_content \<Rightarrow> bytes" where
  "message_log c = ascii ''  NDEF message: '' @ dec_digits (length (content_image c)) @
     ascii '' bytes'' @ crlf @ summary_line c"

lemma parse_written_area:
  assumes ok: "storable c" and urls: "url_ok st" and len: "len = nfc_ndef_tlv_envelope_len (length (content_image c))"
    and area: "take len bs = tlv_block 3 (content_image c) @ [0xFE]" and fits: "len \<le> length bs"
  shows "\<exists>st'. reader_tags_parse_ndef_tlv_area (Some bs) len 0 st = Some (message_log c, st') \<and>
    urls_seen c st st'"
proof -
  let ?im = "content_image c" and ?b = "(0, 3, content_image c) :: padded_block"
  let ?n = "length (tlv_stream [?b])"
  have small: "length ?im \<le> 267" by (rule content_image_small [OF ok])
  have n: "?n + 1 = len" using len by (simp add: length_tlv_block nfc_ndef_tlv_envelope_len_def)
  have bs: "bs = tlv_block 3 ?im @ [0xFE] @ drop len bs" using append_take_drop_id [of len bs] area by simp
  have small_len: "len \<le> UINT16_MAX" using small len by (simp add: nfc_ndef_tlv_envelope_len_def)
  have nx: "nfc_ndef_tlv_next (Some bs) len 0 = Some (TLV_OK, block_tlv 0 ?b, 0 + ?n)"
    by (rule tlv_next_stream [where rest = "[0xFE] @ drop len bs"])
      (use bs n small small_len fits in \<open>simp_all add: block_ok_def del: append_Cons\<close>)
  have fe: "bs ! ?n = 0xFE"
  proof -
    have "bs ! ?n = (tlv_block 3 ?im @ [0xFE] @ drop len bs) ! ?n" using bs by simp
    then show ?thesis by (simp add: nth_append)
  qed
  have nl: "?n < len" "?n < length bs" using n fits by simp_all
  have "tlv_next_loop (Some bs) len ?n = Some (TLV_NOT_FOUND, zero_tlv, ?n + 1)"
    by (rule tlv_next_loop_terminator) (use fe nl in simp_all)
  then have stop: "nfc_ndef_tlv_next (Some bs) len ?n = Some (TLV_NOT_FOUND, zero_tlv, ?n + 1)"
    using nl by (simp add: nfc_ndef_tlv_next_def del: tlv_stream.simps)
  have vo: "value_offset (block_tlv 0 ?b) = 1 + length (tlv_len_field (length ?im))"
    "value_len (block_tlv 0 ?b) = length ?im" "tlv_type (block_tlv 0 ?b) = 3"
    by (simp_all add: block_tlv_def)
  have nn: "?n = value_offset (block_tlv 0 ?b) + length ?im" by (simp add: vo tlv_block_def)
  have "drop (value_offset (block_tlv 0 ?b)) (tlv_block 3 ?im @ [0xFE] @ drop len bs) = ?im @ [0xFE] @ drop len bs"
    by (simp add: vo tlv_block_def)
  then have dr: "drop (value_offset (block_tlv 0 ?b)) bs = ?im @ [0xFE] @ drop len bs"
    unfolding bs [symmetric] .
  have span: "nero_nfc_span_ok (value_offset (block_tlv 0 ?b)) (length ?im) len"
    using nl nn span_ok_iff [of len] small_len by simp
  have po: "ptr_add (Some bs) (value_offset (block_tlv 0 ?b)) = Some (?im @ [0xFE] @ drop len bs)"
    using dr nl nn by simp
  obtain st' where p: "reader_tags_print_ndef_records (Some (?im @ [0xFE] @ drop len bs)) (length ?im) st =
      Some (summary_line c, st')" and u: "urls_seen c st st'"
    using print_content_records [OF ok urls] by blast
  have after: "parse_tlv_area_loop (Some bs) len ?n True log s = Some (log, s)" for log s
    by (subst parse_tlv_area_loop.simps) (simp only: nl(1) stop if_True option.case prod.case, simp)
  have "parse_tlv_area_loop (Some bs) len 0 False [] st = Some (message_log c, st')"
    using nl by (subst parse_tlv_area_loop.simps)
      (simp add: nx vo(2,3) span po p after message_log_def log_line_def Let_def
          del: tlv_stream.simps append_Cons ptr_add_Some)
  then show ?thesis using u by (auto simp: reader_tags_parse_ndef_tlv_area_def)
qed

section \<open>The property\<close>

text \<open>
  C15: what the writer stores is what the reader shows. For a configuration that describes a
  content the writer can hold, the area it builds within the capacity it was given (the exact
  length of the envelope, nothing written behind the buffer) is read by the printer as one message
  with one record: the log line gives its type, its payload length and, when the content is one
  the decoders accept (\<open>content_ok\<close>: an allowed URI, a contact or Wi-Fi credentials in ASCII, any
  plain text or Bluetooth address), the configured content as text. Any other content the writer
  stores is listed without its text. A decoded URI is remembered.
\<close>

theorem written_message_is_shown:
  assumes "config_describes cfg c" and "storable c"
    and "nfc_ndef_tlv_envelope_len (length (content_image c)) \<le> cap" and "cap \<le> length out"
    and "cap \<le> UINT16_MAX" and "url_ok st"
  shows "\<exists>len out' st'. writer_payload_build_tlv (Some cfg) (Some out) cap = Some (len, Some out') \<and>
    length out' = length out \<and> len = nfc_ndef_tlv_envelope_len (length (content_image c)) \<and>
    reader_tags_parse_ndef_tlv_area (Some out') len 0 st = Some (message_log c, st') \<and>
    urls_seen c st st'"
proof -
  let ?im = "content_image c" and ?buf = "replicate WRITER_NDEF_MAX_BYTES 0 :: bytes"
  have small: "length ?im \<le> 267" by (rule content_image_small [OF assms(2)])
  have five: "5 \<le> length ?im" by (cases c) (simp_all add: length_content_image)
  then have cap8: "\<not> cap < 8" using assms(3) by (simp add: nfc_ndef_tlv_envelope_len_def split: if_splits)
  define nd where "nd = patch ?buf 0 ?im"
  have build: "build_ndef_message (Some cfg) (Some ?buf) WRITER_NDEF_MAX_BYTES = Some (length ?im, Some nd)"
    unfolding nd_def by (rule build_message_eq [OF assms(1,2)]) (use small in simp_all)
  have nd: "length ?im \<le> length nd" "take (length ?im) nd = ?im"
    using small by (simp_all add: nd_def patch_def del: drop_replicate)
  obtain out' where b: "nfc_ndef_build_message_tlv (Some nd) (length ?im) (Some out) cap =
      Some (True, Some out', nfc_ndef_tlv_envelope_len (length ?im))" and l: "length out' = length out"
    and t: "take (nfc_ndef_tlv_envelope_len (length ?im)) out' = tlv_block 3 ?im @ [0xFE]"
    using build_message_spec [OF nd(1) assms(3,4,5)] unfolding nd(2) by blast
  have "writer_payload_build_tlv (Some cfg) (Some out) cap =
      Some (nfc_ndef_tlv_envelope_len (length ?im), Some out')"
    using content_image_pos [of c] by (auto simp: writer_payload_build_tlv_def cap8 build tlv_pack_def b)
  moreover obtain st' where "reader_tags_parse_ndef_tlv_area (Some out')
      (nfc_ndef_tlv_envelope_len (length ?im)) 0 st = Some (message_log c, st')" "urls_seen c st st'"
    using parse_written_area [OF assms(2,6) refl t] assms(3,4) l by auto
  ultimately show ?thesis using l by blast
qed

theorem written_message_is_shown_witness:
  "\<exists>len out' st'. writer_payload_build_tlv
      (Some (writer_payload_default\<lparr>cfg_kind := PAYLOAD_URL_HTTPS,
        cfg_str1 := ascii ''nero.it'' @ replicate 853 0\<rparr>)) (Some (replicate 32 0)) 32 = Some (len, Some out') \<and>
    length out' = length (replicate 32 (0 :: u8)) \<and>
    len = nfc_ndef_tlv_envelope_len (length (content_image (Uri 4 (ascii ''nero.it'')))) \<and>
    reader_tags_parse_ndef_tlv_area (Some out') len 0
      \<lparr>url_detected = False, detected_url = replicate 257 0, detected_urls = replicate 4 (replicate 256 0),
        detected_url_count = 0\<rparr> = Some (message_log (Uri 4 (ascii ''nero.it'')), st') \<and>
    urls_seen (Uri 4 (ascii ''nero.it''))
      \<lparr>url_detected = False, detected_url = replicate 257 0, detected_urls = replicate 4 (replicate 256 0),
        detected_url_count = 0\<rparr> st'"
proof (rule written_message_is_shown)
  have c1: "cstr (ascii ''nero.it'' @ replicate 853 0) = ascii ''nero.it''"
    using cstr_terminated [of "ascii ''nero.it''" "replicate 852 0"]
    by (simp add: replicate_append_same [symmetric] replicate_Suc [of 852, simplified, symmetric] ascii_def)
  show "config_describes (writer_payload_default\<lparr>cfg_kind := PAYLOAD_URL_HTTPS,
      cfg_str1 := ascii ''nero.it'' @ replicate 853 0\<rparr>) (Uri 4 (ascii ''nero.it''))"
    using c1 by (simp add: config_describes_def writer_payload_default_def)
  show "storable (Uri 4 (ascii ''nero.it''))" by (simp add: ascii_def)
  show "nfc_ndef_tlv_envelope_len (length (content_image (Uri 4 (ascii ''nero.it'')))) \<le> 32"
    by (simp add: length_content_image nfc_ndef_tlv_envelope_len_def)
qed (simp_all add: url_ok_def)

end
