(* ===== verification/NdefSafe.thy ===== *)
theory NdefSafe
  imports NdefShown
begin

text \<open>
  The printer on arbitrary tag contents: every decoder of \<open>reader_tags_ndef_print.c\<close> returns for
  every payload whose stated length exists, reading only inside it and writing only inside its
  256-byte text buffer, and so do the walks over records and blocks. \<open>text_safe\<close> is that promise
  for one append step, \<open>span_ok\<close> for a pointer and its length.
\<close>

section \<open>Append steps\<close>

definition text_safe :: "nat \<Rightarrow> (cptr \<times> nat \<Rightarrow> (bool \<times> cptr \<times> nat) option) \<Rightarrow> bool" where
  "text_safe cap f \<longleftrightarrow> (\<forall>b pos. length b = cap \<longrightarrow>
     (\<exists>ok b' pos'. f (Some b, pos) = Some (ok, Some b', pos') \<and> length b' = cap))"

definition span_ok :: "cptr \<Rightarrow> nat \<Rightarrow> bool" where
  "span_ok p n \<longleftrightarrow> (case p of None \<Rightarrow> True | Some bs \<Rightarrow> n \<le> length bs)"

lemma span_ok_simps [simp]: "span_ok None n" "span_ok (Some bs) n \<longleftrightarrow> n \<le> length bs"
  by (simp_all add: span_ok_def)

lemma text_safeE:
  assumes "text_safe cap f" "length b = cap"
  obtains ok b' pos' where "f (Some b, pos) = Some (ok, Some b', pos')" and "length b' = cap"
  using assms unfolding text_safe_def by blast

lemma text_safe_and_then: "text_safe cap f \<Longrightarrow> text_safe cap g \<Longrightarrow> text_safe cap (and_then f g)"
  unfolding text_safe_def
proof (intro allI impI)
  fix b :: bytes and pos
  assume f: "\<forall>b pos. length b = cap \<longrightarrow> (\<exists>ok b' pos'. f (Some b, pos) = Some (ok, Some b', pos') \<and> length b' = cap)"
    and g: "\<forall>b pos. length b = cap \<longrightarrow> (\<exists>ok b' pos'. g (Some b, pos) = Some (ok, Some b', pos') \<and> length b' = cap)"
    and b: "length b = cap"
  obtain ok b1 p1 where 1: "f (Some b, pos) = Some (ok, Some b1, p1)" "length b1 = cap" using f b by blast
  obtain ok2 b2 p2 where 2: "g (Some b1, p1) = Some (ok2, Some b2, p2)" "length b2 = cap" using g 1(2) by blast
  show "\<exists>ok b' pos'. and_then f g (Some b, pos) = Some (ok, Some b', pos') \<and> length b' = cap"
    using 1 2 by (cases ok) (simp_all add: and_then_def)
qed

lemma text_safe_skip_if: "(\<not> c \<Longrightarrow> text_safe cap f) \<Longrightarrow> text_safe cap (skip_if c f)"
  by (cases c) (auto simp: text_safe_def skip_if_def)

lemma text_safe_store:
  assumes "length b = cap"
  shows "\<exists>ok b'. nero_nfc_store_u8 (Some b) cap i v = Some (ok, Some b') \<and> length b' = cap"
  using copy_bytes_total [of cap b 1 "[v]" i] assms
  by (metis eq_imp_le length_Cons list.size(3) nero_nfc_store_u8_def One_nat_def)

lemma u8_at_total: "cap \<le> length bs \<Longrightarrow> \<exists>v. nero_nfc_u8_at (Some bs) cap off = Some v"
  by (auto simp: nero_nfc_u8_at_def nero_nfc_load_u8_def nero_nfc_copy_from_def dest!: span_ok_bound)

lemma text_safe_append_text:
  assumes "0 \<notin> set xs" "length xs < cap"
  shows "text_safe cap (append_text cap (Some (xs @ 0 # r)))"
  unfolding text_safe_def
proof (intro allI impI)
  fix b :: bytes and pos assume b: "length b = cap"
  note m = bounded_strlen_terminated [OF assms, of r]
  obtain ok d where c: "nero_nfc_copy_bytes (Some b) cap pos (Some (xs @ 0 # r)) (length xs) = Some (ok, Some d)"
    and d: "length d = length b" by (rule copy_bytes_total [of cap b "length xs" "xs @ 0 # r" pos]) (use b in simp_all)
  obtain ok2 b2 where s: "nero_nfc_store_u8 (Some d) cap (pos + length xs) 0 = Some (ok2, Some b2)" "length b2 = cap"
    using text_safe_store [of d cap "pos + length xs" 0] d b by metis
  show "\<exists>ok b' pos'. append_text cap (Some (xs @ 0 # r)) (Some b, pos) = Some (ok, Some b', pos') \<and> length b' = cap"
    using b d s by (simp add: append_text_def m c)
qed

lemma text_safe_append_span:
  assumes "span_ok src n"
  shows "text_safe cap (append_span cap src n)"
  unfolding text_safe_def
proof (intro allI impI)
  fix b :: bytes and pos assume b: "length b = cap"
  have "\<exists>ok d. nero_nfc_copy_bytes (Some b) cap pos src n = Some (ok, Some d) \<and> length d = cap"
  proof (cases src)
    case None
    then show ?thesis using b by (simp add: nero_nfc_copy_bytes_def)
  next
    case (Some s)
    then show ?thesis using copy_bytes_total [of cap b n s pos] assms b by (metis eq_imp_le span_ok_simps(2))
  qed
  then obtain ok d where c: "nero_nfc_copy_bytes (Some b) cap pos src n = Some (ok, Some d)" "length d = cap"
    by blast
  obtain ok2 b2 where s: "nero_nfc_store_u8 (Some d) cap (pos + n) 0 = Some (ok2, Some b2)" "length b2 = cap"
    using text_safe_store [OF c(2), of "pos + n" 0] by metis
  show "\<exists>ok b' pos'. append_span cap src n (Some b, pos) = Some (ok, Some b', pos') \<and> length b' = cap"
    using b c s by (simp add: append_span_def)
qed

lemma text_safe_literal: "0 \<notin> set (ascii s) \<Longrightarrow> length s < cap \<Longrightarrow> text_safe cap (append_text cap (literal s))"
  unfolding literal_def by (rule text_safe_append_text) simp_all

lemma text_safe_hex:
  assumes "2 < cap"
  shows "text_safe cap (append_hex_u8 cap v)"
proof -
  have "unat v div 16 < 16"
    using unat_u8_bound [of v] by (simp add: div_less_iff_less_mult del: unat_u8_bound)
  then have "unat (drop_bit 4 v) < 16" by (subst unat_drop_bit_eq) (simp add: drop_bit_eq_div)
  moreover have "unat (v AND 0x0F) < 16"
    using take_bit_eq_mask [of 4 "unat v"]
    by (simp add: unsigned_and_eq take_bit_eq_mod mask_eq_exp_minus_1)
  ultimately have "unat (drop_bit 4 v) < 16" "unat (v AND 0x0F) < 16" by simp_all
  then show ?thesis
    using text_safe_append_text [of "[ascii ''0123456789ABCDEF'' ! unat (drop_bit 4 v),
        ascii ''0123456789ABCDEF'' ! unat (v AND 0x0F)]" cap "[]"] hex_table assms
    by (simp add: append_hex_u8_def Let_def)
qed

lemmas text_safe_intros = text_safe_and_then text_safe_skip_if text_safe_literal text_safe_append_span

section \<open>Scanners\<close>

lemma display_text_total: "span_ok p len \<Longrightarrow> p \<noteq> None \<Longrightarrow> \<exists>b. display_text_loop p len i = Some b"
proof (induction p len i rule: display_text_loop.induct)
  case (1 p len i)
  then obtain bs where p: "p = Some bs" "len \<le> length bs" by auto
  show ?case
  proof (cases "i < len")
    case True
    then show ?thesis using p "1.IH" [OF True, of "bs ! i"]
      by (subst display_text_loop.simps) auto
  qed (simp add: display_text_loop.simps)
qed

lemma is_display_text_total: "span_ok p len \<Longrightarrow> \<exists>b. payload_is_display_text p len = Some b"
  using display_text_total [of p len 0]
  by (cases p) (auto simp: payload_is_display_text_def display_text_loop.simps [of None])

lemma byte_at_total: "n \<le> length bs \<Longrightarrow> \<exists>ok v. byte_at (Some bs) n i = Some (ok, v)"
  by (auto simp: byte_at_def dest!: span_ok_bound)

lemma line_end_total:
  "len \<le> length bs \<Longrightarrow> \<exists>e. vcard_line_end (Some bs) len i = Some e \<and> i \<le> e \<and> (i \<le> len \<longrightarrow> e \<le> len)"
proof (induction "Some bs" len i rule: vcard_line_end.induct)
  case (1 len i)
  show ?case
  proof (cases "i < len \<and> bs ! i \<noteq> 0x0D \<and> bs ! i \<noteq> 0x0A")
    case True
    then obtain e where "vcard_line_end (Some bs) len (i + 1) = Some e" "i + 1 \<le> e" "e \<le> len"
      using "1.hyps" [of "bs ! i"] "1.prems" by auto
    then show ?thesis using True "1.prems" by (subst vcard_line_end.simps) simp
  next
    case False
    then show ?thesis using "1.prems" by (subst vcard_line_end.simps) auto
  qed
qed

lemma value_start_total:
  "len \<le> length bs \<Longrightarrow> \<exists>v. vcard_value_start (Some bs) len e i = Some v"
proof (induction "Some bs" len e i rule: vcard_value_start.induct)
  case (1 len e i)
  obtain ok c where b: "byte_at (Some bs) len (i - 1) = Some (ok, c)" using byte_at_total [OF "1.prems"] by blast
  show ?case
  proof (cases "i < e \<and> ok \<and> c \<noteq> 0x3A")
    case True
    then show ?thesis using "1.hyps" [of "(ok, c)"] "1.prems" b by (subst vcard_value_start.simps) auto
  next
    case False
    then show ?thesis using b by (subst vcard_value_start.simps) auto
  qed
qed

lemma line_hit_total:
  assumes "len \<le> length bs" "k \<le> length name" "s \<le> e" "e \<le> len"
  shows "\<exists>h. vcard_line_hit (Some bs) len (Some name) k s e = Some h"
proof -
  obtain ok c where b: "byte_at (Some bs) len (s + k) = Some (ok, c)" using byte_at_total [OF assms(1)] by blast
  show ?thesis using assms by (auto simp: vcard_line_hit_def b)
qed

lemma next_line_total: "len \<le> length bs \<Longrightarrow> \<exists>n. vcard_next_line (Some bs) len e = Some n"
  using byte_at_total [of len bs e] byte_at_total [of len bs "e + 1"]
  by (auto simp: vcard_next_line_def Let_def)

lemma property_loop_total:
  "len \<le> length bs \<Longrightarrow> k \<le> length name \<Longrightarrow>
    \<exists>ok v n. vcard_property_loop (Some bs) len (Some name) k s = Some (ok, v, n) \<and> span_ok v n"
proof (induction "Some bs" len "Some name" k s rule: vcard_property_loop.induct)
  case (1 len k s)
  show ?case
  proof (cases "s < len")
    case True
    obtain e where e: "vcard_line_end (Some bs) len s = Some e" "s \<le> e" "e \<le> len"
      using line_end_total [OF "1.prems"(1), of s] True by auto
    obtain h where h: "vcard_line_hit (Some bs) len (Some name) k s e = Some h"
      using line_hit_total [OF "1.prems" e(2,3)] by blast
    show ?thesis
    proof (cases h)
      case hit: True
      obtain v where v: "vcard_value_start (Some bs) len e (s + k + 1) = Some v"
        using value_start_total [OF "1.prems"(1)] by blast
      show ?thesis using True e h hit v "1.prems"
        by (subst vcard_property_loop.simps) (auto simp: Let_def)
    next
      case False
      obtain n where n: "vcard_next_line (Some bs) len e = Some n"
        using next_line_total [OF "1.prems"(1)] by blast
      show ?thesis using "1.hyps" [OF True e(1) h _ n] False True e(1) h n "1.prems"
        by (subst vcard_property_loop.simps) simp
    qed
  qed (simp add: vcard_property_loop.simps)
qed

lemma vcard_property_total:
  assumes "span_ok p len" "0 \<notin> set (ascii s)" "length s < 255"
  shows "\<exists>ok v n. vcard_property p len (literal s) = Some (ok, v, n) \<and> span_ok v n"
proof (cases p)
  case (Some bs)
  have m: "nero_nfc_bounded_strlen (literal s) 255 = Some (Some (length s))"
    using bounded_strlen_terminated [of "ascii s" 255 "[]"] assms(2,3) by (simp add: literal_def)
  show ?thesis using property_loop_total [of len bs "length s" "ascii s @ [0]" 0] assms(1) Some m
    by (simp add: vcard_property_def literal_def)
qed (simp add: vcard_property_def)

lemma wsc_loop_total:
  "len \<le> length bs \<Longrightarrow> \<exists>ok v n. wsc_attr_loop (Some bs) len ident pos = Some (ok, v, n) \<and> span_ok v n"
proof (induction "Some bs" len ident pos rule: wsc_attr_loop.induct)
  case (1 len ident pos)
  show ?case
  proof (cases "pos + 4 \<le> len")
    case True
    have b: "\<exists>ok v. be16_at (Some bs) len q = Some (ok, v)" for q
      using "1.prems" u8_at_total [of len bs q] u8_at_total [of len bs "q + 1"]
      by (auto simp: be16_at_def dest!: span_ok_bound)
    obtain o1 i o2 k where r: "be16_at (Some bs) len pos = Some (o1, i)" "be16_at (Some bs) len (pos + 2) = Some (o2, k)"
      using b [of pos] b [of "pos + 2"] by auto
    show ?thesis
    proof (cases "o1 \<and> o2 \<and> pos + 4 + k \<le> len \<and> i \<noteq> ident")
      case go: True
      then show ?thesis using "1.hyps" [OF True r(1) refl _ r(2) refl] True r "1.prems"
        by (subst wsc_attr_loop.simps) simp
    next
      case False
      then show ?thesis using True r "1.prems" by (subst wsc_attr_loop.simps) auto
    qed
  qed (simp add: wsc_attr_loop.simps)
qed

lemma wsc_attr_total: "span_ok p len \<Longrightarrow> \<exists>ok v n. wsc_attr_payload p len ident = Some (ok, v, n) \<and> span_ok v n"
  using wsc_loop_total [of len] by (cases p) (auto simp: wsc_attr_payload_def)

lemma u16_name_total:
  assumes "span_ok v n" "0 \<notin> set (ascii s)" "length s < cap" "8 \<le> cap"
  shows "\<exists>nm. wsc_u16_name v n lsb (literal s) = Some nm \<and> text_safe cap (append_text cap nm)"
proof -
  have "text_safe cap (append_text cap (literal s))" "text_safe cap (append_text cap (literal ''unknown''))"
    using assms by (auto intro!: text_safe_literal simp: ascii_def)
  then show ?thesis using assms(1) by (cases v) (auto simp: wsc_u16_name_def)
qed

section \<open>Decoders\<close>

text \<open>What every decoder promises: it returns and leaves the buffer at its length.\<close>

definition decodes :: "(bool \<times> cptr) option \<Rightarrow> bool" where
  "decodes r \<longleftrightarrow> (\<exists>ok b. r = Some (ok, Some b) \<and> length b = 256)"

lemma decodesI: "length b = 256 \<Longrightarrow> decodes (Some (ok, Some b))"
  by (simp add: decodes_def)

lemma decodes_steps:
  assumes "text_safe 256 f" "length b = 256"
  shows "decodes (do { (ok, out, pos) \<leftarrow> f (Some b, 0); Some (ok, out) })"
  using text_safeE [OF assms, of 0] by (metis (no_types, lifting) bind.bind_lunit case_prod_conv decodesI)

lemma vcard_decodes:
  assumes p: "len \<le> length bs" and b: "length b = 256"
  shows "decodes (decode_vcard_payload (Some bs) len (Some b) 256)"
proof -
  have s: "span_ok (Some bs) len" using p by simp
  obtain pr where pr: "payload_is_display_text (Some bs) len = Some pr" using is_display_text_total [OF s] by blast
  obtain f v n where n: "vcard_property (Some bs) len (literal ''FN'') = Some (f, v, n)" "span_ok v n"
    using vcard_property_total [OF s, of "''FN''"] by (auto simp: ascii_def)
  obtain f2 v2 n2 where t: "vcard_property (Some bs) len (literal ''TEL'') = Some (f2, v2, n2)" "span_ok v2 n2"
    using vcard_property_total [OF s, of "''TEL''"] by (auto simp: ascii_def)
  obtain f3 v3 n3 where e: "vcard_property (Some bs) len (literal ''EMAIL'') = Some (f3, v3, n3)" "span_ok v3 n3"
    using vcard_property_total [OF s, of "''EMAIL''"] by (auto simp: ascii_def)
  let ?steps = "and_then (append_text 256 (literal ''Contact: name=''))
          (and_then (append_span 256 v n)
            (and_then (skip_if (n2 = 0)
                (and_then (append_text 256 (literal '' tel='')) (append_span 256 v2 n2)))
              (skip_if (n3 = 0)
                (and_then (append_text 256 (literal '' email='')) (append_span 256 v3 n3)))))"
  have "text_safe 256 ?steps"
    by (intro text_safe_intros n(2) t(2) e(2)) (simp_all add: ascii_def)
  from decodes_steps [OF this b] show ?thesis
    using decodesI [OF b] by (cases pr; cases f) (simp_all add: decode_vcard_payload_def pr n t e)
qed

lemma wifi_decodes:
  assumes p: "len \<le> length bs" and b: "length b = 256"
  shows "decodes (decode_wifi_wsc_payload (Some bs) len (Some b) 256)"
proof -
  have s: "span_ok (Some bs) len" using p by simp
  obtain ok c n where c: "wsc_attr_payload (Some bs) len 0x100E = Some (ok, c, n)" "span_ok c n"
    using wsc_attr_total [OF s] by blast
  obtain o1 v1 n1 where v1: "wsc_attr_payload c n 0x1045 = Some (o1, v1, n1)" "span_ok v1 n1"
    using wsc_attr_total [OF c(2)] by blast
  obtain o2 v2 n2 where v2: "wsc_attr_payload c n 0x1027 = Some (o2, v2, n2)" "span_ok v2 n2"
    using wsc_attr_total [OF c(2)] by blast
  obtain o3 v3 n3 where v3: "wsc_attr_payload c n 0x1003 = Some (o3, v3, n3)" "span_ok v3 n3"
    using wsc_attr_total [OF c(2)] by blast
  obtain o4 v4 n4 where v4: "wsc_attr_payload c n 0x100F = Some (o4, v4, n4)" "span_ok v4 n4"
    using wsc_attr_total [OF c(2)] by blast
  obtain d1 where d1: "payload_is_display_text v1 n1 = Some d1" using is_display_text_total [OF v1(2)] by blast
  obtain d2 where d2: "payload_is_display_text v2 n2 = Some d2" using is_display_text_total [OF v2(2)] by blast
  obtain a where a: "wsc_u16_name v3 n3 0x20 (literal ''WPA2-Personal'') = Some a" "text_safe 256 (append_text 256 a)"
    using u16_name_total [OF v3(2), of "''WPA2-Personal''" 256 "0x20"] by (auto simp: ascii_def)
  obtain e where e: "wsc_u16_name v4 n4 0x08 (literal ''AES'') = Some e" "text_safe 256 (append_text 256 e)"
    using u16_name_total [OF v4(2), of "''AES''" 256 "0x08"] by (auto simp: ascii_def)
  let ?steps = "and_then (append_text 256 (literal ''Wi-Fi: ssid=''))
                (and_then (append_span 256 v1 n1)
                  (and_then (append_text 256 (literal '' auth=''))
                    (and_then (append_text 256 a)
                      (and_then (append_text 256 (literal '' encryption=''))
                        (and_then (append_text 256 e)
                          (skip_if (n2 = 0)
                            (and_then (append_text 256 (literal '' key=''))
                              (append_span 256 v2 n2))))))))"
  have "text_safe 256 ?steps"
    by (intro text_safe_intros v1(2) v2(2) a(2) e(2)) (simp_all add: ascii_def)
  note steps = decodes_steps [OF this b]
  define key where "key = (if n2 \<noteq> 0 then payload_is_display_text v2 n2 else Some True)"
  obtain k where k: "key = Some k" using d2 by (cases "n2 = 0") (auto simp: key_def)
  have "decode_wifi_wsc_payload (Some bs) len (Some b) 256 =
      (if \<not> ok \<or> \<not> o1 \<or> \<not> d1 \<or> \<not> k then Some (False, Some b)
       else do { (ok, out, pos) \<leftarrow> ?steps (Some b, 0); Some (ok, out) })"
    unfolding decode_wifi_wsc_payload_def c(1) bind.bind_lunit prod.case v1(1) d1 v2(1) v3(1) v4(1)
      key_def [symmetric] k a(1) e(1)
    by (cases ok; cases o1; cases d1; cases k) simp_all
  then show ?thesis using steps decodesI [OF b] by (simp split del: if_split split: if_splits)
qed

lemma bt_loop_total:
  "len \<le> length bs \<Longrightarrow> length b = 256 \<Longrightarrow>
    \<exists>ok b' pos'. bt_addr_loop (Some bs) len 256 i k (Some b, pos) = Some (ok, Some b', pos') \<and> length b' = 256"
proof (induction k arbitrary: i b pos)
  case (Suc k)
  have colon: "text_safe 256 (append_text 256 (literal '':''))" by (rule text_safe_literal) (simp_all add: ascii_def)
  obtain o1 b1 p1 where 1: "(if i \<noteq> 0 then append_text 256 (literal '':'') (Some b, pos) else Some (True, Some b, pos)) =
      Some (o1, Some b1, p1)" "length b1 = 256"
  proof (cases "i = 0")
    case False
    then show ?thesis using text_safeE [OF colon Suc.prems(2), of pos] that by (metis (full_types))
  qed (use Suc.prems(2) that in simp)
  obtain v where v: "nero_nfc_u8_at (Some bs) len (2 + 6 - 1 - i) = Some v"
    using u8_at_total [OF Suc.prems(1)] by blast
  have hex: "text_safe 256 (append_hex_u8 256 v)" by (rule text_safe_hex) simp
  obtain o2 b2 p2 where 2: "append_hex_u8 256 v (Some b1, p1) = Some (o2, Some b2, p2)" "length b2 = 256"
    using text_safeE [OF hex 1(2), of p1] by blast
  note ih = Suc.IH [OF Suc.prems(1) 2(2), of "i + 1" p2]
  show ?case unfolding bt_addr_loop.simps Let_def 1(1) v bind.bind_lunit prod.case 2(1)
    using ih 1(2) 2(2) Suc.prems(2) by (cases o1; cases o2) auto
qed simp

lemma bt_decodes:
  assumes p: "len \<le> length bs" and b: "length b = 256"
  shows "decodes (decode_bluetooth_oob_payload (Some bs) len (Some b) 256)"
proof -
  obtain v0 v1 where v: "nero_nfc_u8_at (Some bs) len 0 = Some v0" "nero_nfc_u8_at (Some bs) len 1 = Some v1"
    using u8_at_total [OF p] by blast
  have lit: "text_safe 256 (append_text 256 (literal ''Bluetooth OOB: address=''))"
    by (rule text_safe_literal) (simp_all add: ascii_def)
  obtain o1 b1 p1 where 1: "append_text 256 (literal ''Bluetooth OOB: address='') (Some b, 0) = Some (o1, Some b1, p1)"
    "length b1 = 256" using text_safeE [OF lit b, of 0] by blast
  obtain o2 b2 p2 where 2: "bt_addr_loop (Some bs) len 256 0 6 (Some b1, p1) = Some (o2, Some b2, p2)"
    "length b2 = 256" using bt_loop_total [OF p 1(2)] by blast
  show ?thesis unfolding decode_bluetooth_oob_payload_def v bind.bind_lunit 1(1) prod.case 2(1)
    using b 1(2) 2(2) by (auto simp: decodes_def)
qed

lemma type_equals_total:
  assumes "n \<le> length t" "0 \<notin> set (ascii s)" "length s < 255"
  shows "\<exists>r. type_equals (Some t) n (literal s) = Some r"
  using bounded_strlen_terminated [of "ascii s" 255 "[]"] assms
  by (simp add: type_equals_def literal_def)

lemma mime_decodes:
  assumes t: "tn \<le> length t" and p: "len \<le> length bs" and b: "length b = 256"
  shows "decodes (decode_mime_payload (Some t) tn (Some bs) len (Some b) 256)"
proof -
  obtain r1 r2 r3 where r: "type_equals (Some t) tn (literal ''text/vcard'') = Some r1"
    "type_equals (Some t) tn (literal ''application/vnd.wfa.wsc'') = Some r2"
    "type_equals (Some t) tn (literal ''application/vnd.bluetooth.ep.oob'') = Some r3"
    using type_equals_total [OF t, of "''text/vcard''"] type_equals_total [OF t, of "''application/vnd.wfa.wsc''"]
      type_equals_total [OF t, of "''application/vnd.bluetooth.ep.oob''"] by (auto simp: ascii_def)
  show ?thesis unfolding decode_mime_payload_def r bind.bind_lunit
    using vcard_decodes [OF p b] wifi_decodes [OF p b] bt_decodes [OF p b] decodesI [OF b]
    by (cases r1; cases r2; cases r3) simp_all
qed

lemma uri_decodes:
  assumes p: "len \<le> length bs" "len < SIZE_MAX" and b: "length b = 256"
  shows "decodes (nfc_ndef_decode_uri_payload (Some bs) len (Some b) 256)"
proof (cases "len = 0")
  case True
  then show ?thesis using b by (simp add: nfc_ndef_decode_uri_payload_def decodes_def)
next
  case False
  then show ?thesis using decode_uri_eq [of len bs 256 b] p b by (auto simp: decodes_def decoded_at_def)
qed

lemma text_decodes:
  assumes p: "len \<le> length bs" and b: "length b = 256"
  shows "decodes (nfc_ndef_decode_text_payload (Some bs) len (Some b) 256)"
proof (cases "len = 0")
  case True
  then show ?thesis using b by (simp add: nfc_ndef_decode_text_payload_def decodes_def)
next
  case False
  then show ?thesis using decode_text_eq [of len bs 256 b] p b by (auto simp: decodes_def decoded_at_def)
qed

section \<open>The walks\<close>

lemma remember_total:
  assumes st: "url_ok st" and b: "length b = 256"
  shows "\<exists>st'. remember_detected_url st (Some b) = Some st' \<and> url_ok st'"
proof -
  have m: "nero_nfc_bounded_strlen (Some b) 256 = Some (if length (cstr b) < 256 then Some (length (cstr b)) else None)"
    using bounded_strlen_eq [of 256 b] b by simp
  show ?thesis
  proof (cases "length (cstr b) < 256 \<and> cstr b \<noteq> []")
    case False
    then show ?thesis using m st by (auto simp: remember_detected_url_def)
  next
    case True
    then have n: "length (cstr b) + 1 \<le> length b" using b by simp
    let ?k = "length (cstr b) + 1" and ?c = "detected_url_count st"
    have lens: "length (detected_url st) = 257" "length (detected_urls st) = 4"
      using st by (simp_all add: url_ok_def)
    obtain o1 d1 where 1: "nero_nfc_copy_bytes (Some (detected_url st)) 257 0 (Some b) ?k = Some (o1, Some d1)"
      "length d1 = 257" using copy_bytes_total [of 257 "detected_url st" ?k b 0] n lens(1) by (metis order_refl)
    show ?thesis
    proof (cases "?c < 4")
      case False
      then show ?thesis using True m st 1 by (auto simp: remember_detected_url_def url_ok_def Let_def)
    next
      case less: True
      then have "length (detected_urls st ! ?c) = 256" using st by (simp add: url_ok_def)
      then obtain o2 d2 where 2: "nero_nfc_copy_bytes (Some (detected_urls st ! ?c)) 256 0 (Some b) ?k = Some (o2, Some d2)"
        "length d2 = 256" using copy_bytes_total [of 256 "detected_urls st ! ?c" ?k b 0] n by (metis order_refl)
      show ?thesis using True less m st 1 2
        by (auto simp: remember_detected_url_def url_ok_def Let_def dest: set_update_subset_insert [THEN subsetD])
    qed
  qed
qed

lemma decode_record_total:
  assumes r: "rec_type_offset r + rec_type_len r \<le> length m" "rec_payload_offset r + len \<le> length m"
    and len: "len < SIZE_MAX" and st: "url_ok st" and b: "length b = 256"
  shows "\<exists>hit d st'. decode_record st (Some m) r len (Some b) = Some (hit, Some d, st') \<and> url_ok st'"
proof -
  let ?p = "drop (rec_payload_offset r) m"
  have p: "len \<le> length ?p" and tn: "rec_type_len r \<le> length (drop (rec_type_offset r) m)"
    using r by simp_all
  obtain o1 d1 where u: "nfc_ndef_decode_uri_payload (Some ?p) len (Some b) 256 = Some (o1, Some d1)" "length d1 = 256"
    using uri_decodes [OF p len b] by (auto simp: decodes_def)
  obtain st1 where st1: "remember_detected_url st (Some d1) = Some st1" "url_ok st1"
    using remember_total [OF st u(2)] by blast
  obtain o2 d2 where t: "nfc_ndef_decode_text_payload (Some ?p) len (Some b) 256 = Some (o2, Some d2)"
    using text_decodes [OF p b] by (auto simp: decodes_def)
  obtain o3 d3 where v: "decode_mime_payload (Some (drop (rec_type_offset r) m)) (rec_type_len r) (Some ?p) len (Some b) 256 =
      Some (o3, Some d3)"
    using mime_decodes [OF tn p b] unfolding decodes_def by blast
  have ty: "rd (Some m) (rec_type_offset r) = Some (m ! rec_type_offset r)" if "rec_type_len r = 1"
    using r(1) that by simp
  consider (uri) "rec_tnf r = 1" "rec_type_len r = 1" "m ! rec_type_offset r = 0x55"
    | (plain) "rec_tnf r = 1" "rec_type_len r = 1" "m ! rec_type_offset r = 0x54"
    | (other) "rec_tnf r = 1" "rec_type_len r = 1" "m ! rec_type_offset r \<noteq> 0x55" "m ! rec_type_offset r \<noteq> 0x54"
    | (mime) "rec_tnf r = 2" | (none) "rec_tnf r \<noteq> 2" "rec_tnf r \<noteq> 1 \<or> rec_type_len r \<noteq> 1"
    by blast
  then show ?thesis
  proof cases
    case uri
    then show ?thesis using u st1 st ty
      by (cases o1) (simp_all add: decode_record_def decode_uri_payload_def Let_def del: rd_Some)
  next
    case plain
    then show ?thesis using t st ty by (cases o2) (simp_all add: decode_record_def Let_def del: rd_Some)
  next
    case mime
    then show ?thesis using v st by (simp add: decode_record_def Let_def)
  next
    case none
    then show ?thesis using st by (auto simp: decode_record_def Let_def)
  qed (use st ty in \<open>simp add: decode_record_def Let_def del: rd_Some\<close>)
qed

lemma print_type_total: "i + n \<le> length t \<Longrightarrow> \<exists>s. print_type_field_loop (Some t) i n = Some s"
proof (induction n arbitrary: i)
  case (Suc n)
  then obtain s where "print_type_field_loop (Some t) (i + 1) n = Some s" by fastforce
  then show ?case using Suc.prems by simp
qed simp

lemma summary_total:
  assumes r: "rec_record_len r \<le> length m" "rec_record_len r < SIZE_MAX" and st: "url_ok st"
  shows "\<exists>line st'. print_ndef_record_summary st (Some m) r k = Some (line, st') \<and> url_ok st'"
proof (cases "nero_nfc_span_ok (rec_type_offset r) (rec_type_len r) (rec_record_len r) \<and>
    rec_payload_offset r \<le> rec_record_len r")
  case False
  then show ?thesis using st by (auto simp: print_ndef_record_summary_def)
next
  case True
  define len where "len = (if \<not> nero_nfc_span_ok (rec_payload_offset r) (rec_payload_len r) (rec_record_len r)
    then rec_record_len r - rec_payload_offset r else rec_payload_len r)"
  have to: "rec_type_offset r + rec_type_len r \<le> length m" using True r(1) by (auto dest: span_ok_bound)
  then have tl: "0 + rec_type_len r \<le> length (drop (rec_type_offset r) m)" by simp
  have po: "rec_payload_offset r + len \<le> rec_record_len r" using True by (auto simp: len_def dest: span_ok_bound)
  obtain s where s: "print_type_field_loop (Some (drop (rec_type_offset r) m)) 0 (rec_type_len r) = Some s"
    using print_type_total [OF tl] by blast
  obtain hit d st' where d: "decode_record st (Some m) r len (Some (replicate 256 0)) = Some (hit, Some d, st')"
    and st': "url_ok st'"
    using decode_record_total [OF to _ _ st, of len "replicate 256 0"] po r by auto
  show ?thesis using True st'
    by (simp add: print_ndef_record_summary_def len_def [symmetric] Let_def print_type_field_def s d)
qed

lemma print_records_total:
  "len \<le> length bs \<Longrightarrow> len \<le> UINT16_MAX \<Longrightarrow> url_ok st \<Longrightarrow>
    \<exists>out st'. print_ndef_records_loop (Some bs) len pos k log st = Some (out, st') \<and> url_ok st'"
proof (induction "Some bs" len pos k log st rule: print_ndef_records_loop.induct)
  case (1 len pos k log st)
  show ?case
  proof (cases "pos < len")
    case True
    then have cond: "pos < len \<and> len \<le> UINT16_MAX" and pos: "pos \<le> len" using "1.prems" by simp_all
    obtain s r n where nx: "nfc_ndef_record_next (Some bs) len pos = Some (s, r, n)" and n: "n \<le> len"
      and rec: "s = NDEF_RECORD_OK \<Longrightarrow> \<exists>hdr ty ident payload. record_ok hdr ty ident payload \<and>
        r = record_of hdr ty ident payload \<and> n = pos + length (record_image hdr ty ident payload)"
      using record_next_cases [OF "1.prems"(1,2) pos] by blast
    consider (empty) "s = NDEF_RECORD_EMPTY" | (chunk) "s = NDEF_RECORD_UNSUPPORTED"
      | (bad) "s \<noteq> NDEF_RECORD_OK" "s \<noteq> NDEF_RECORD_EMPTY" "s \<noteq> NDEF_RECORD_UNSUPPORTED" | (rec) "s = NDEF_RECORD_OK"
      by blast
    then show ?thesis
    proof cases
      case empty
      then show ?thesis using "1.hyps"(1) [OF cond nx refl refl empty "1.prems"] nx cond
        by (subst print_ndef_records_loop.simps) simp
    next
      case rec
      have rl: "pos + rec_record_len r \<le> len" using \<open>s = NDEF_RECORD_OK \<Longrightarrow> _\<close> [OF rec] n
        by (auto simp: record_of_def length_record_image)
      have rm: "rec_record_len r \<le> length (drop pos bs)" using rl "1.prems"(1) by simp
      obtain line st' where sm: "print_ndef_record_summary st (ptr_add (Some bs) pos) r (u8n (k + 1)) = Some (line, st')"
        and st': "url_ok st'"
        using summary_total [OF rm _ "1.prems"(3), of "u8n (k + 1)"] rl "1.prems"(2) by auto
      show ?thesis
      proof (cases "rec_message_end r")
        case True
        then show ?thesis using nx rec cond sm st' by (subst print_ndef_records_loop.simps) simp
      next
        case False
        then show ?thesis using "1.hyps"(2) [OF cond nx refl refl _ _ _ sm refl False "1.prems"(1,2) st'] nx rec cond sm
          by (subst print_ndef_records_loop.simps) simp
      qed
    qed (use nx cond "1.prems" in \<open>subst print_ndef_records_loop.simps, simp\<close>)+
  qed (use "1.prems" in \<open>simp add: print_ndef_records_loop.simps\<close>)
qed

lemma parse_area_total:
  "len \<le> length bs \<Longrightarrow> len \<le> UINT16_MAX \<Longrightarrow> url_ok st \<Longrightarrow>
    \<exists>out st'. parse_tlv_area_loop (Some bs) len pos printed log st = Some (out, st') \<and> url_ok st'"
proof (induction "Some bs" len pos printed log st rule: parse_tlv_area_loop.induct)
  case (1 len pos printed log st)
  show ?case
  proof (cases "pos < len")
    case True
    then obtain s t n where nx: "nfc_ndef_tlv_next (Some bs) len pos = Some (s, t, n)"
      and ok: "s = TLV_OK \<longrightarrow> tlv_within len pos t n"
      using tlv_next_safe [of "Some bs" len pos] "1.prems" by auto
    consider (cut) "s = TLV_TRUNCATED" | (stop) "s \<noteq> TLV_TRUNCATED" "s \<noteq> TLV_OK"
      | (message) "s = TLV_OK" "tlv_type t = 3" | (other) "s = TLV_OK" "tlv_type t \<noteq> 3"
      by blast
    then show ?thesis
    proof cases
      case message
      let ?log = "log @ ascii ''  NDEF message: '' @ dec_digits (value_len t) @ log_line (ascii '' bytes'')"
      have fits: "value_offset t + value_len t \<le> len" using ok message by (auto simp: tlv_within_def)
      then have sp: "nero_nfc_span_ok (value_offset t) (value_len t) len" using "1.prems"(2) by simp
      have vm: "value_len t \<le> length (drop (value_offset t) bs)" using fits "1.prems"(1) by simp
      obtain shown st' where p: "reader_tags_print_ndef_records (ptr_add (Some bs) (value_offset t)) (value_len t) st =
          Some (shown, st')" and st': "url_ok st'"
        using print_records_total [OF vm _ "1.prems"(3), of 0 0 "[]"] fits "1.prems"(2)
        by (auto simp: reader_tags_print_ndef_records_def)
      have "\<exists>out st''. parse_tlv_area_loop (Some bs) len n True (?log @ shown) st' = Some (out, st'') \<and> url_ok st''"
        using "1.hyps"(1) [OF True nx refl refl _ _ message(2) refl _ p refl "1.prems"(1,2) st'] message(1) sp by simp
      then show ?thesis using True nx message sp p
        by (subst parse_tlv_area_loop.simps) (simp add: Let_def del: ptr_add_Some span_ok_iff)
    next
      case other
      then show ?thesis using "1.hyps"(2) [OF True nx refl refl _ _ other(2) "1.prems"] True nx
        by (subst parse_tlv_area_loop.simps) simp
    qed (use True nx "1.prems" in \<open>subst parse_tlv_area_loop.simps, simp\<close>)+
  qed (use "1.prems" in \<open>simp add: parse_tlv_area_loop.simps\<close>)
qed

section \<open>The property\<close>

text \<open>
  C32: the printer ends on whatever a tag holds. For any bytes, any stated length that the buffer
  has and any start offset, walking the area, its messages and their records and decoding every
  record (URI, text, contact, Wi-Fi credential, Bluetooth address) returns, never reads outside
  the area or writes outside the text buffer and the URL store, and keeps the URL store well formed.
\<close>

theorem printer_returns:
  assumes "len \<le> length bs" and "len \<le> UINT16_MAX" and "url_ok st"
  shows "\<exists>log st'. reader_tags_parse_ndef_tlv_area (Some bs) len start st = Some (log, st') \<and> url_ok st'"
  using parse_area_total [OF assms, of start False "[]"] assms(3)
  by (auto simp: reader_tags_parse_ndef_tlv_area_def)

theorem printer_returns_witness:
  "\<exists>log st'. reader_tags_parse_ndef_tlv_area (Some [3, 9, 0xD2, 1, 200, 0x55, 0xFF, 0, 3, 3, 0xD1, 1]) 12 0
     \<lparr>url_detected = False, detected_url = replicate 257 0, detected_urls = replicate 4 (replicate 256 0),
       detected_url_count = 0\<rparr> = Some (log, st') \<and> url_ok st'"
  by (rule printer_returns) (simp_all add: url_ok_def)

end
