(* ===== verification/Iso14443a.thy ===== *)
theory Iso14443a
  imports MemUtil
begin

text \<open>
  Activation of an ISO 14443-3 Type A card (\<open>st25r3916_iso14443a.c\<close> and
  \<open>st25r3916_iso14443a_uid.c\<close>): one anticollision and select step, the cascade over up to three
  levels, and the UID put together from the levels.

  The code gets the radio as callbacks with a context. A wake-up is a change of the context that
  says whether a card answered (the two ATQA bytes are scratch here), a transceive takes the bytes
  to send, the receive capacity, the CRC flag, the time limit and the anticollision and parity
  flags, and gives the bytes received, none for every result below 1. The length and SAK outputs,
  which all callers pass, are results. A select step gives the SAK, or \<open>-1\<close>.
\<close>

type_synonym 'c a_transceive = "'c \<Rightarrow> bytes \<Rightarrow> nat \<Rightarrow> bool \<Rightarrow> nat \<Rightarrow> bool \<Rightarrow> bool \<Rightarrow> 'c \<times> bytes"
type_synonym 'c a_select = "'c \<Rightarrow> u8 \<Rightarrow> cptr \<Rightarrow> ('c \<times> int \<times> cptr) option"

section \<open>One cascade level\<close>

definition st25_iso14443a_anticollision_select :: "u8 \<Rightarrow> cptr \<Rightarrow> 'c a_transceive \<Rightarrow> 'c \<Rightarrow> ('c \<times> int \<times> cptr) option" where
  "st25_iso14443a_anticollision_select sel_cmd uid_out xcv c =
     (if uid_out = None then Some (c, -1, None)
      else do {
        (ok, uid_out) \<leftarrow> store_seq uid_out 4 [(0, 0), (1, 0), (2, 0), (3, 0)];
        if \<not> ok then Some (c, -1, uid_out)
        else let (c, rx) = xcv c [sel_cmd, 0x20] 8 False 20 True False in
          if length rx < 5 then Some (c, -1, uid_out)
          else do {
            u0 \<leftarrow> rd (Some rx) 0;
            u1 \<leftarrow> rd (Some rx) 1;
            u2 \<leftarrow> rd (Some rx) 2;
            u3 \<leftarrow> rd (Some rx) 3;
            b \<leftarrow> rd (Some rx) 4;
            if u0 XOR u1 XOR u2 XOR u3 \<noteq> b then Some (c, -1, uid_out)
            else do {
              (ok, uid_out) \<leftarrow> store_seq uid_out 4 [(0, u0), (1, u1), (2, u2), (3, u3)];
              if \<not> ok then Some (c, -1, uid_out)
              else let (c, rx) = xcv c [sel_cmd, 0x70, u0, u1, u2, u3, b] 8 True 20 False False in
                if length rx < 1 then Some (c, -1, uid_out)
                else do {
                  sak \<leftarrow> rd (Some rx) 0;
                  Some (c, int (unat sak), uid_out)
                }
            }
          }
      })"

section \<open>The UID\<close>

abbreviation (input) CASCADE_TAG :: u8 where "CASCADE_TAG \<equiv> 0x88"

definition cascade_bit :: "int \<Rightarrow> bool" where
  "cascade_bit sak \<longleftrightarrow> sak AND 0x04 \<noteq> 0"

text \<open>The result is the UID length, \<open>0\<close> for a failure, with the buffer and the SAK.\<close>

definition st25_iso14443a_assemble_cascaded_uid ::
    "nat \<Rightarrow> cptr \<Rightarrow> int \<Rightarrow> cptr \<Rightarrow> int \<Rightarrow> cptr \<Rightarrow> int \<Rightarrow> cptr \<Rightarrow> nat \<Rightarrow> u8 \<Rightarrow> (nat \<times> cptr \<times> u8) option" where
  "st25_iso14443a_assemble_cascaded_uid levels cl1_uid sak1 cl2_uid sak2 cl3_uid sak3 uid_out cap sak =
     (if uid_out = None \<or> cl1_uid = None then Some (0, uid_out, sak)
      else if levels = 1 then
        if sak1 < 0 \<or> cascade_bit sak1 \<or> cap < 4 then Some (0, uid_out, sak)
        else do {
          (ok, uid_out) \<leftarrow> nero_nfc_copy_from uid_out cap 0 cl1_uid 4 0 4;
          Some (if \<not> ok then (0, uid_out, sak) else (4, uid_out, word_of_int sak1))
        }
      else do {
        t1 \<leftarrow> nero_nfc_u8_at cl1_uid 4 0;
        if sak1 < 0 \<or> \<not> cascade_bit sak1 \<or> t1 \<noteq> CASCADE_TAG \<or> cl2_uid = None then Some (0, uid_out, sak)
        else if levels = 2 then
          if sak2 < 0 \<or> cascade_bit sak2 \<or> cap < 7 then Some (0, uid_out, sak)
          else do {
            (ok, uid_out) \<leftarrow> nero_nfc_copy_from uid_out cap 0 cl1_uid 4 1 3;
            if \<not> ok then Some (0, uid_out, sak)
            else do {
              (ok, uid_out) \<leftarrow> nero_nfc_copy_from uid_out cap 3 cl2_uid 4 0 4;
              Some (if \<not> ok then (0, uid_out, sak) else (7, uid_out, word_of_int sak2))
            }
          }
        else if levels = 3 then do {
          t2 \<leftarrow> nero_nfc_u8_at cl2_uid 4 0;
          if sak2 < 0 \<or> \<not> cascade_bit sak2 \<or> t2 \<noteq> CASCADE_TAG \<or> cl3_uid = None \<or> sak3 < 0 \<or> cascade_bit sak3 \<or>
             cap < 10
          then Some (0, uid_out, sak)
          else do {
            (ok, uid_out) \<leftarrow> nero_nfc_copy_from uid_out cap 0 cl1_uid 4 1 3;
            if \<not> ok then Some (0, uid_out, sak)
            else do {
              (ok, uid_out) \<leftarrow> nero_nfc_copy_from uid_out cap 3 cl2_uid 4 1 3;
              if \<not> ok then Some (0, uid_out, sak)
              else do {
                (ok, uid_out) \<leftarrow> nero_nfc_copy_from uid_out cap 6 cl3_uid 4 0 4;
                Some (if \<not> ok then (0, uid_out, sak) else (10, uid_out, word_of_int sak3))
              }
            }
          }
        }
        else Some (0, uid_out, sak)
      })"

section \<open>Activation\<close>

definition wake_card :: "('c \<Rightarrow> 'c \<times> bool) \<Rightarrow> ('c \<Rightarrow> 'c \<times> bool) option \<Rightarrow> ('c \<Rightarrow> nat \<Rightarrow> 'c) \<Rightarrow> bool \<Rightarrow> 'c \<Rightarrow> 'c \<times> bool" where
  "wake_card send_wupa send_reqa delay_ms retry_with_reqa c =
     (let (c, woken) = send_wupa c in
      if woken then (c, True)
      else let c = delay_ms c 5 in
        if retry_with_reqa then (case send_reqa of None \<Rightarrow> (c, False) | Some reqa \<Rightarrow> reqa c)
        else send_wupa c)"

definition cascade_levels ::
    "'c a_select \<Rightarrow> 'c \<Rightarrow> int \<Rightarrow> ('c \<times> (nat \<times> cptr \<times> int \<times> cptr \<times> int) option) option" where
  "cascade_levels select_uid c sak1 =
     (let scratch = Some [0, 0, 0, 0] in
      if \<not> cascade_bit sak1 then Some (c, Some (1, scratch, -1, scratch, -1))
      else do {
        (c, sak2, cl2_uid) \<leftarrow> select_uid c 0x95 scratch;
        if sak2 < 0 then Some (c, None)
        else if \<not> cascade_bit sak2 then Some (c, Some (2, cl2_uid, sak2, scratch, -1))
        else do {
          (c, sak3, cl3_uid) \<leftarrow> select_uid c 0x97 scratch;
          Some (c, if sak3 < 0 then None else Some (3, cl2_uid, sak2, cl3_uid, sak3))
        }
      })"

definition st25_iso14443a_activate_tag ::
    "('c \<Rightarrow> 'c \<times> bool) \<Rightarrow> ('c \<Rightarrow> 'c \<times> bool) option \<Rightarrow> ('c \<Rightarrow> nat \<Rightarrow> 'c) \<Rightarrow> bool \<Rightarrow> 'c a_select \<Rightarrow>
     'c \<Rightarrow> cptr \<Rightarrow> nat \<Rightarrow> ('c \<times> bool \<times> cptr \<times> nat \<times> u8) option" where
  "st25_iso14443a_activate_tag send_wupa send_reqa delay_ms retry_with_reqa select_uid c uid_out cap =
     (if uid_out = None \<or> cap < 7 then Some (c, False, uid_out, 0, 0)
      else do {
        (ok, uid_out) \<leftarrow> store_seq uid_out cap [(0, 0), (1, 0), (2, 0), (3, 0), (4, 0), (5, 0), (6, 0)];
        if \<not> ok then Some (c, False, uid_out, 0, 0)
        else let (c, woken) = wake_card send_wupa send_reqa delay_ms retry_with_reqa c in
          if \<not> woken then Some (c, False, uid_out, 0, 0)
          else do {
            (c, sak1, cl1_uid) \<leftarrow> select_uid c 0x93 (Some [0, 0, 0, 0]);
            if sak1 < 0 then Some (c, False, uid_out, 0, 0)
            else do {
              (c, r) \<leftarrow> cascade_levels select_uid c sak1;
              case r of
                None \<Rightarrow> Some (c, False, uid_out, 0, 0)
              | Some (levels, cl2_uid, sak2, cl3_uid, sak3) \<Rightarrow> do {
                  (uid_len, uid_out, sak) \<leftarrow> st25_iso14443a_assemble_cascaded_uid levels cl1_uid sak1 cl2_uid sak2
                    cl3_uid sak3 uid_out cap 0;
                  Some (c, uid_len \<noteq> 0, uid_out, uid_len, sak)
                }
            }
          }
      })"

text \<open>The early resets of the length and the SAK are the zeros of the results above.\<close>

section \<open>Safety for any radio\<close>

text \<open>What a select step promises: a four-byte UID part behind every answer, and an invariant kept.\<close>

locale select_step =
  fixes select_uid :: "'c a_select" and inv :: "'c \<Rightarrow> bool"
  assumes select_ok: "inv c \<Longrightarrow> \<exists>c' sak part. select_uid c cmd (Some [0, 0, 0, 0]) = Some (c', sak, Some part) \<and>
    length part = 4 \<and> -1 \<le> sak \<and> sak < 256 \<and> inv c'"

lemma store4: "store_seq (Some [a, b, c, d]) 4 [(0, w), (1, x), (2, y), (3, z)] = Some (True, Some [w, x, y, z])"
  by (simp add: store_seq_updates)

lemmas store4_simps = store4 store4 [unfolded One_nat_def]

definition bcc_ok :: "bytes \<Rightarrow> bool" where
  "bcc_ok rx \<longleftrightarrow> 5 \<le> length rx \<and> rx ! 0 XOR rx ! 1 XOR rx ! 2 XOR rx ! 3 = rx ! 4"

lemma anticollision_select_eq:
  "st25_iso14443a_anticollision_select cmd (Some [0, 0, 0, 0]) xcv c =
    (let (c1, rx) = xcv c [cmd, 0x20] 8 False 20 True False in
     if \<not> bcc_ok rx then Some (c1, -1, Some [0, 0, 0, 0])
     else let (c2, rx2) = xcv c1 ([cmd, 0x70] @ take 5 rx) 8 True 20 False False in
       Some (c2, if rx2 = [] then -1 else int (unat (hd rx2)), Some (take 4 rx)))"
proof -
  obtain c1 rx where 1: "xcv c [cmd, 0x20] 8 False 20 True False = (c1, rx)" by fastforce
  show ?thesis
  proof (cases "bcc_ok rx")
    case False
    then show ?thesis using 1
      by (auto simp: st25_iso14443a_anticollision_select_def bcc_ok_def store4_simps simp del: store_seq.simps)
  next
    case True
    then obtain a b d e g rest where rx: "rx = a # b # d # e # g # rest"
      by (auto simp: bcc_ok_def numeral_eq_Suc Suc_le_length_iff)
    obtain c2 rx2 where 2: "xcv c1 [cmd, 0x70, a, b, d, e, g] 8 True 20 False False = (c2, rx2)" by fastforce
    show ?thesis using True 1 2 unfolding rx bcc_ok_def
      by (cases rx2) (simp_all add: st25_iso14443a_anticollision_select_def store4_simps bcc_ok_def del: store_seq.simps)
  qed
qed

lemma uint_lt_256: "uint (b :: u8) < 256"
  using uint_lt2p [of b] by simp

lemma uint_u8_range [simp]: "-1 \<le> uint (b :: u8)" "uint (b :: u8) < 256"
  using uint_ge_0 [of b] uint_lt_256 [of b] by linarith+

interpretation select_front: select_step "\<lambda>c cmd out. st25_iso14443a_anticollision_select cmd out xcv c" "\<lambda>_. True" for xcv
proof
  fix c :: 'a and cmd :: u8
  show "\<exists>c' sak part. st25_iso14443a_anticollision_select cmd (Some [0, 0, 0, 0]) xcv c = Some (c', sak, Some part) \<and>
     length part = 4 \<and> -1 \<le> sak \<and> sak < 256 \<and> True"
    unfolding anticollision_select_eq
    by (auto simp: Let_def bcc_ok_def split: prod.splits if_splits)
qed

text \<open>The SAK a level ends with has no cascade bit.\<close>

lemma copy_part [simp]:
  "off + n \<le> length out \<Longrightarrow> length out \<le> SIZE_MAX \<Longrightarrow> i + n \<le> length part \<Longrightarrow> 0 < n \<Longrightarrow> length part \<le> SIZE_MAX \<Longrightarrow>
    nero_nfc_copy_from (Some out) (length out) off (Some part) (length part) i n =
      Some (True, Some (patch out off (take n (drop i part))))"
  by simp

definition part4 :: "cptr \<Rightarrow> bool" where
  "part4 p \<longleftrightarrow> (\<exists>a b c d. p = Some [a, b, c, d])"

lemma part4I: "length xs = 4 \<Longrightarrow> part4 (Some xs)"
  by (auto simp: part4_def numeral_eq_Suc length_Suc_conv)

lemma assemble_safe:
  assumes "part4 p1" "part4 p2" "part4 p3" "length out = 10"
  shows "\<exists>n new sak. st25_iso14443a_assemble_cascaded_uid levels p1 s1 p2 s2 p3 s3 (Some out) 10 0 = Some (n, Some new, sak) \<and>
    length new = 10 \<and> (n = 0 \<or> n = 4 \<or> n = 7 \<or> n = 10) \<and>
    (n \<noteq> 0 \<longrightarrow> (\<exists>s\<in>{s1, s2, s3}. sak = word_of_int s \<and> 0 \<le> s \<and> \<not> cascade_bit s))"
  using assms unfolding part4_def
  by (auto simp: st25_iso14443a_assemble_cascaded_uid_def length_patch)

context select_step
begin

lemma select_part:
  "inv c \<Longrightarrow> \<exists>c' sak part. select_uid c cmd (Some [0, 0, 0, 0]) = Some (c', sak, part) \<and> part4 part \<and> -1 \<le> sak \<and>
    sak < 256 \<and> inv c'"
  using select_ok [of c cmd] part4I by blast

lemma cascade_levels_safe:
  assumes "inv c"
  shows "\<exists>c' r. cascade_levels select_uid c sak1 = Some (c', r) \<and> inv c' \<and>
    (\<forall>l p2 s2 p3 s3. r = Some (l, p2, s2, p3, s3) \<longrightarrow> part4 p2 \<and> part4 p3 \<and> s2 < 256 \<and> s3 < 256)"
proof -
  have z: "part4 (Some [0, 0, 0, 0])" by (simp add: part4_def)
  obtain c2 s2 p2 where 2: "select_uid c 0x95 (Some [0, 0, 0, 0]) = Some (c2, s2, p2)" "part4 p2" "-1 \<le> s2" "s2 < 256" "inv c2"
    using select_part [OF assms] by blast
  obtain c3 s3 p3 where 3: "select_uid c2 0x97 (Some [0, 0, 0, 0]) = Some (c3, s3, p3)" "part4 p3" "-1 \<le> s3" "s3 < 256" "inv c3"
    using select_part [OF 2(5)] by blast
  show ?thesis
    by (cases "cascade_bit sak1"; cases "s2 < 0"; cases "cascade_bit s2"; cases "s3 < 0")
      (use assms z 2 3 in \<open>simp_all add: cascade_levels_def Let_def\<close>)
qed

lemma activate_safe:
  assumes "length out = 10" and inv: "inv (fst (wake_card wupa reqa delay retry c))"
  shows "\<exists>c' ok new n sak. st25_iso14443a_activate_tag wupa reqa delay retry select_uid c (Some out) 10 =
      Some (c', ok, Some new, n, sak) \<and> length new = 10 \<and> inv c' \<and> (ok \<longleftrightarrow> n \<noteq> 0) \<and> n \<in> {0, 4, 7, 10} \<and>
    (ok \<longrightarrow> (\<exists>s. sak = word_of_int s \<and> 0 \<le> s \<and> s < 256 \<and> \<not> cascade_bit s))"
proof -
  let ?idx = "[(0, 0), (1, 0), (2, 0), (3, 0), (4, 0), (5, 0), (6, 0)] :: (nat \<times> u8) list"
  let ?z = "patch out 0 (replicate 7 0)"
  have "?idx = enumerate 0 (replicate 7 0)" by (simp add: eval_nat_numeral)
  then have s0: "store_seq (Some out) 10 ?idx = Some (True, Some ?z)"
    using store_seq_prefix [of 0 "replicate 7 0" 10 out ?idx] assms by simp
  have lz: "length ?z = 10" using assms by simp
  obtain c1 woken where w: "wake_card wupa reqa delay retry c = (c1, woken)" by fastforce
  then have i1: "inv c1" using inv by simp
  obtain c2 s1 p1 where 1: "select_uid c1 0x93 (Some [0, 0, 0, 0]) = Some (c2, s1, p1)" "part4 p1" "-1 \<le> s1" "s1 < 256"
    and i2: "inv c2"
    using select_part [OF i1] by blast
  obtain c3 r where 2: "cascade_levels select_uid c2 s1 = Some (c3, r)"
    "\<And>l p2 s2 p3 s3. r = Some (l, p2, s2, p3, s3) \<Longrightarrow> part4 p2 \<and> part4 p3 \<and> s2 < 256 \<and> s3 < 256"
    and i3: "inv c3"
    using cascade_levels_safe [OF i2, of s1] by blast
  have def1: "st25_iso14443a_activate_tag wupa reqa delay retry select_uid c (Some out) 10 =
    (if \<not> woken then Some (c1, False, Some ?z, 0, 0)
     else if s1 < 0 then Some (c2, False, Some ?z, 0, 0)
     else case r of None \<Rightarrow> Some (c3, False, Some ?z, 0, 0)
       | Some (levels, p2, s2, p3, s3) \<Rightarrow> do {
           (n, new, sak) \<leftarrow> st25_iso14443a_assemble_cascaded_uid levels p1 s1 p2 s2 p3 s3 (Some ?z) 10 0;
           Some (c3, n \<noteq> 0, new, n, sak)
         })"
    unfolding st25_iso14443a_activate_tag_def s0 using w 1(1) 2(1)
    by (cases r) (simp_all del: store_seq.simps split: prod.split)
  show ?thesis
  proof (cases "woken \<and> 0 \<le> s1 \<and> r \<noteq> None")
    case False
    then show ?thesis unfolding def1 using lz i1 i2 i3 by (cases r) auto
  next
    case True
    then obtain l p2 s2 p3 s3 where r: "r = Some (l, p2, s2, p3, s3)" by auto
    obtain n new sak where a: "st25_iso14443a_assemble_cascaded_uid l p1 s1 p2 s2 p3 s3 (Some ?z) 10 0 = Some (n, Some new, sak)"
      "length new = 10" "n = 0 \<or> n = 4 \<or> n = 7 \<or> n = 10"
      "n \<noteq> 0 \<longrightarrow> (\<exists>s\<in>{s1, s2, s3}. sak = word_of_int s \<and> 0 \<le> s \<and> \<not> cascade_bit s)"
      using assemble_safe [OF 1(2) _ _ lz] 2(2) [OF r] by blast
    have "\<exists>s. sak = word_of_int s \<and> 0 \<le> s \<and> s < 256 \<and> \<not> cascade_bit s" if "n \<noteq> 0"
      using a(4) that 1(4) 2(2) [OF r] by blast
    then show ?thesis unfolding def1 r using True a i3 by auto
  qed
qed

end

section \<open>A card is read with its UID\<close>

text \<open>
  The parts of a UID by cascade level, and a card with that UID on the radio \<open>xcv\<close>, in any state
  of the field: it answers anticollision of a level with its part and the check byte, and the
  selection of that part with a SAK that announces whether another level follows (and the check
  bytes, which the front end hands on).
\<close>

definition uid_parts :: "bytes \<Rightarrow> bytes list" where
  "uid_parts uid =
     (if length uid = 4 then [uid]
      else if length uid = 7 then [CASCADE_TAG # take 3 uid, drop 3 uid]
      else [CASCADE_TAG # take 3 uid, CASCADE_TAG # take 3 (drop 3 uid), drop 6 uid])"

definition bcc :: "bytes \<Rightarrow> u8" where
  "bcc part = part ! 0 XOR part ! 1 XOR part ! 2 XOR part ! 3"

definition type_a_card :: "'c a_transceive \<Rightarrow> bytes \<Rightarrow> u8 \<Rightarrow> bool" where
  "type_a_card xcv uid sak \<longleftrightarrow> length uid \<in> {4, 7, 10} \<and> sak AND 0x04 = 0 \<and>
     (\<forall>i<length (uid_parts uid). \<forall>c.
        let cmd = 0x93 + 2 * of_nat i; part = uid_parts uid ! i in
        (\<exists>c'. xcv c [cmd, 0x20] 8 False 20 True False = (c', part @ [bcc part])) \<and>
        (\<exists>c' s crc. xcv c ([cmd, 0x70] @ part @ [bcc part]) 8 True 20 False False = (c', s # crc) \<and>
          (if i + 1 = length (uid_parts uid) then s = sak else s AND 0x04 \<noteq> 0)))"

lemma part_length: "length uid \<in> {4, 7, 10} \<Longrightarrow> i < length (uid_parts uid) \<Longrightarrow> length (uid_parts uid ! i) = 4"
  by (auto simp: uid_parts_def numeral_eq_Suc less_Suc_eq)

lemma length_uid_parts [simp]:
  "length uid = 4 \<Longrightarrow> length (uid_parts uid) = 1"
  "length uid = 7 \<Longrightarrow> length (uid_parts uid) = 2"
  "length uid = 10 \<Longrightarrow> length (uid_parts uid) = 3"
  by (simp_all add: uid_parts_def)

lemma cascade_bit_uint: "cascade_bit (uint (s :: u8)) \<longleftrightarrow> s AND 0x04 \<noteq> 0"
proof -
  have "uint (s AND 4) = uint s AND 4" by (simp add: uint_and)
  then show ?thesis unfolding cascade_bit_def by (metis uint_0_iff)
qed

lemma select_card:
  assumes card: "type_a_card xcv uid sak" and i: "i < length (uid_parts uid)" and cmd: "cmd = 0x93 + 2 * of_nat i"
  shows "\<exists>c' s. st25_iso14443a_anticollision_select cmd (Some [0, 0, 0, 0]) xcv c =
      Some (c', uint s, Some (uid_parts uid ! i)) \<and>
    (if i + 1 = length (uid_parts uid) then s = sak else s AND 0x04 \<noteq> 0)"
proof -
  let ?p = "uid_parts uid ! i"
  have l: "length ?p = 4" using part_length [OF _ i] card by (simp add: type_a_card_def)
  obtain c1 where 1: "xcv c [cmd, 0x20] 8 False 20 True False = (c1, ?p @ [bcc ?p])"
    using card i unfolding type_a_card_def cmd Let_def by blast
  obtain c2 s crc where 2: "xcv c1 ([cmd, 0x70] @ ?p @ [bcc ?p]) 8 True 20 False False = (c2, s # crc)"
    "if i + 1 = length (uid_parts uid) then s = sak else s AND 0x04 \<noteq> 0"
    using card i unfolding type_a_card_def cmd Let_def by blast
  have b: "bcc_ok (?p @ [bcc ?p])" using l by (simp add: bcc_ok_def bcc_def nth_append)
  have t: "take 5 (?p @ [bcc ?p]) = ?p @ [bcc ?p]" "take 4 (?p @ [bcc ?p]) = ?p" using l by simp_all
  have "st25_iso14443a_anticollision_select cmd (Some [0, 0, 0, 0]) xcv c = Some (c2, uint s, Some ?p)"
    using b 1 2(1) t by (simp add: anticollision_select_eq del: take_append)
  then show ?thesis using 2(2) by blast
qed

text \<open>
  C31: in front of a Type A card with a UID of four, seven or ten bytes, however it got there,
  activation through the front end's own anticollision succeeds as soon as the wake-up does: the
  UID buffer starts with exactly the card's UID, and its length and the SAK of its last level are
  reported.
\<close>

theorem activation_reads_card:
  assumes card: "type_a_card xcv uid sak" and out: "length out = 10"
    and woken: "wake_card wupa reqa delay retry c = (c1, True)"
  shows "\<exists>c'. st25_iso14443a_activate_tag wupa reqa delay retry
      (\<lambda>c cmd out. st25_iso14443a_anticollision_select cmd out xcv c) c (Some out) 10 =
    Some (c', True, Some (uid @ drop (length uid) (patch out 0 (replicate 7 0))), length uid, sak)"
proof -
  let ?sel = "\<lambda>c cmd out. st25_iso14443a_anticollision_select cmd out xcv c"
  let ?idx = "[(0, 0), (1, 0), (2, 0), (3, 0), (4, 0), (5, 0), (6, 0)] :: (nat \<times> u8) list"
  let ?z = "patch out 0 (replicate 7 0)"
  have "?idx = enumerate 0 (replicate 7 0)" by (simp add: eval_nat_numeral)
  then have s0: "store_seq (Some out) 10 ?idx = Some (True, Some ?z)"
    using store_seq_prefix [of 0 "replicate 7 0" 10 out ?idx] out by simp
  have lz: "length ?z = 10" using out by simp
  have start: "st25_iso14443a_activate_tag wupa reqa delay retry ?sel c (Some out) 10 = do {
      (c, sak1, cl1_uid) \<leftarrow> ?sel c1 0x93 (Some [0, 0, 0, 0]);
      if sak1 < 0 then Some (c, False, Some ?z, 0, 0)
      else do {
        (c, r) \<leftarrow> cascade_levels ?sel c sak1;
        case r of
          None \<Rightarrow> Some (c, False, Some ?z, 0, 0)
        | Some (levels, cl2_uid, sak2, cl3_uid, sak3) \<Rightarrow> do {
            (uid_len, uid_out, sak) \<leftarrow> st25_iso14443a_assemble_cascaded_uid levels cl1_uid sak1 cl2_uid sak2
              cl3_uid sak3 (Some ?z) 10 0;
            Some (c, uid_len \<noteq> 0, uid_out, uid_len, sak)
          }
      }
    }"
    unfolding st25_iso14443a_activate_tag_def s0 using woken by (simp del: store_seq.simps)
  have sak: "sak AND 0x04 = 0" using card by (simp add: type_a_card_def)
  consider "length uid = 4" | "length uid = 7" | "length uid = 10"
    using card by (auto simp: type_a_card_def)
  then show ?thesis
  proof cases
    case 1
    obtain c2 where 2: "?sel c1 0x93 (Some [0, 0, 0, 0]) = Some (c2, uint sak, Some uid)"
      using select_card [OF card, of 0 "0x93" c1] 1 by (auto simp: uid_parts_def)
    have "patch ?z 0 uid = uid @ drop 4 ?z" using 1 by (simp add: patch_def)
    moreover have "part4 (Some uid)" using 1 by (rule part4I)
    ultimately show ?thesis using 1 2 sak lz unfolding start
      by (simp add: cascade_levels_def cascade_bit_uint st25_iso14443a_assemble_cascaded_uid_def Let_def)
  next
    case 2
    note l = 2
    let ?p1 = "CASCADE_TAG # take 3 uid" and ?p2 = "drop 3 uid"
    have "\<exists>c' (s :: u8). ?sel c1 0x93 (Some [0, 0, 0, 0]) = Some (c', uint s, Some ?p1) \<and> s AND 4 \<noteq> 0"
      using select_card [OF card, of 0 "0x93" c1] l by (simp add: uid_parts_def)
    then obtain c2 and s1 :: u8 where 1: "?sel c1 0x93 (Some [0, 0, 0, 0]) = Some (c2, uint s1, Some ?p1)" "s1 AND 4 \<noteq> 0"
      by blast
    obtain c3 where 2: "?sel c2 0x95 (Some [0, 0, 0, 0]) = Some (c3, uint sak, Some ?p2)"
      using select_card [OF card, of 1 "0x95" c2] l by (auto simp: uid_parts_def)
    have p: "patch (patch ?z 0 (take 3 uid)) 3 ?p2 = uid @ drop 7 ?z"
      using patch_patch [of 0 "take 3 uid" ?p2 ?z 3] l lz by (simp add: patch_def)
    have p2: "length (patch ?z 0 (take 3 uid)) = 10" using lz l by simp
    show ?thesis using 1 2 sak l lz p p2 unfolding start
      by (simp add: cascade_levels_def cascade_bit_uint st25_iso14443a_assemble_cascaded_uid_def Let_def)
  next
    case 3
    note l = 3
    let ?p1 = "CASCADE_TAG # take 3 uid" and ?p2 = "CASCADE_TAG # take 3 (drop 3 uid)" and ?p3 = "drop 6 uid"
    have "\<exists>c' (s :: u8). ?sel c1 0x93 (Some [0, 0, 0, 0]) = Some (c', uint s, Some ?p1) \<and> s AND 4 \<noteq> 0"
      using select_card [OF card, of 0 "0x93" c1] l by (simp add: uid_parts_def)
    then obtain c2 and s1 :: u8 where 1: "?sel c1 0x93 (Some [0, 0, 0, 0]) = Some (c2, uint s1, Some ?p1)" "s1 AND 4 \<noteq> 0"
      by blast
    have "\<exists>c' (s :: u8). ?sel c2 0x95 (Some [0, 0, 0, 0]) = Some (c', uint s, Some ?p2) \<and> s AND 4 \<noteq> 0"
      using select_card [OF card, of 1 "0x95" c2] l by (simp add: uid_parts_def)
    then obtain c3 and s2 :: u8 where 2: "?sel c2 0x95 (Some [0, 0, 0, 0]) = Some (c3, uint s2, Some ?p2)" "s2 AND 4 \<noteq> 0"
      by blast
    obtain c4 where 3: "?sel c3 0x97 (Some [0, 0, 0, 0]) = Some (c4, uint sak, Some ?p3)"
      using select_card [OF card, of 2 "0x97" c3] l by (auto simp: uid_parts_def)
    have u: "take 3 uid @ take 3 (drop 3 uid) @ drop 6 uid = uid"
      using append_take_drop_id [of 3 uid] append_take_drop_id [of 3 "drop 3 uid"] by simp
    let ?z2 = "patch (patch ?z 0 (take 3 uid)) 3 (take 3 (drop 3 uid))"
    have q: "?z2 = patch ?z 0 (take 3 uid @ take 3 (drop 3 uid))"
      by (rule patch_patch) (use l lz in simp_all)
    have "patch (patch ?z 0 (take 3 uid @ take 3 (drop 3 uid))) 6 ?p3 =
        patch ?z 0 ((take 3 uid @ take 3 (drop 3 uid)) @ ?p3)"
      by (rule patch_patch) (use l lz in simp_all)
    then have p: "patch ?z2 6 ?p3 = uid @ drop 10 ?z"
      unfolding q append.assoc u using l by (simp only: patch_def) simp
    have p2: "length (patch ?z 0 (take 3 uid)) = 10" "length ?z2 = 10" using lz l by simp_all
    have cl: "cascade_levels ?sel c2 (uint s1) = Some (c4, Some (3, Some ?p2, uint s2, Some ?p3, uint sak))"
      using 1(2) 2 3 by (simp add: cascade_levels_def cascade_bit_uint)
    have c1: "nero_nfc_copy_from (Some ?z) 10 0 (Some ?p1) 4 1 3 = Some (True, Some (patch ?z 0 (take 3 uid)))"
      by (subst copy_from_ok) (use l lz in simp_all)
    have c2: "nero_nfc_copy_from (Some (patch ?z 0 (take 3 uid))) 10 3 (Some ?p2) 4 1 3 = Some (True, Some ?z2)"
      by (subst copy_from_ok) (use l p2 in simp_all)
    have c3: "nero_nfc_copy_from (Some ?z2) 10 6 (Some ?p3) 4 0 4 = Some (True, Some (patch ?z2 6 ?p3))"
      by (subst copy_from_ok) (use l p2 in simp_all)
    have t: "nero_nfc_u8_at (Some ?p1) 4 0 = Some CASCADE_TAG" "nero_nfc_u8_at (Some ?p2) 4 0 = Some CASCADE_TAG"
      using l by simp_all
    have "st25_iso14443a_assemble_cascaded_uid 3 (Some ?p1) (uint s1) (Some ?p2) (uint s2) (Some ?p3) (uint sak)
        (Some ?z) 10 0 = Some (10, Some (uid @ drop 10 ?z), sak)"
      unfolding st25_iso14443a_assemble_cascaded_uid_def c1 t using c2 c3 1(2) 2(2) sak p
      by (simp add: cascade_bit_uint del: copy_from_ok copy_part u8_at_in)
    then show ?thesis using 1(1) cl l unfolding start by simp
  qed
qed

definition sample_card :: "unit a_transceive" where
  "sample_card c tx rx_max crc t anticol no_par = ((),
     if tx ! 1 = 0x20
     then (if tx ! 0 = 0x93 then [0x88, 0x04, 0x01, 0x02, 0x8F] else [0x03, 0x05, 0x06, 0x07, 0x07])
     else if tx ! 0 = 0x93 then [0x04, 0xDA, 0x17] else [0x00, 0xFE, 0x51])"

lemma sample_card_ok: "type_a_card sample_card [0x04, 0x01, 0x02, 0x03, 0x05, 0x06, 0x07] 0"
proof -
  have p: "uid_parts [0x04, 0x01, 0x02, 0x03, 0x05, 0x06, 0x07] = [[0x88, 0x04, 0x01, 0x02], [0x03, 0x05, 0x06, 0x07]]"
    by (simp add: uid_parts_def)
  have "(\<forall>i<length [[0x88, 0x04, 0x01, 0x02], [0x03, 0x05, 0x06, 0x07 :: u8]]. P i) \<longleftrightarrow> P 0 \<and> P 1" for P
    by (auto simp: less_Suc_eq)
  then show ?thesis unfolding type_a_card_def p by (simp add: sample_card_def bcc_def)
qed

theorem activation_reads_card_witness:
  "\<exists>c'. st25_iso14443a_activate_tag (\<lambda>c. (c, True)) None (\<lambda>c n. c) False
      (\<lambda>c cmd out. st25_iso14443a_anticollision_select cmd out sample_card c) () (Some (replicate 10 0)) 10 =
    Some (c', True, Some ([0x04, 0x01, 0x02, 0x03, 0x05, 0x06, 0x07] @
      drop (length [0x04, 0x01, 0x02, 0x03, 0x05, 0x06, 0x07 :: u8]) (patch (replicate 10 0) 0 (replicate 7 0))),
      length [0x04, 0x01, 0x02, 0x03, 0x05, 0x06, 0x07 :: u8], 0)"
  by (rule activation_reads_card [OF sample_card_ok, where ?c1.0 = "()"]) (simp_all add: wake_card_def)

text \<open>
  whatever the radio receives, activation through the front end returns without leaving the
  UID buffer and reports success exactly with a UID length of four, seven or ten bytes and a SAK
  without the cascade bit.
\<close>

theorem activation_safe:
  assumes "length out = 10"
  shows "\<exists>c' ok new n sak. st25_iso14443a_activate_tag wupa reqa delay retry
      (\<lambda>c cmd out. st25_iso14443a_anticollision_select cmd out xcv c) c (Some out) 10 =
      Some (c', ok, Some new, n, sak) \<and> length new = 10 \<and> (ok \<longleftrightarrow> n \<noteq> 0) \<and> n \<in> {0, 4, 7, 10} \<and>
    (ok \<longrightarrow> (\<exists>s. sak = word_of_int s \<and> 0 \<le> s \<and> s < 256 \<and> \<not> cascade_bit s))"
  using select_front.activate_safe [where xcv = xcv and wupa = wupa and reqa = reqa and delay = delay and
    retry = retry and c = c, OF assms TrueI] by simp

theorem activation_safe_witness:
  "\<exists>c' ok new n sak. st25_iso14443a_activate_tag (\<lambda>c. (c, True)) None (\<lambda>c n. c) False
      (\<lambda>c cmd out. st25_iso14443a_anticollision_select cmd out sample_card c) () (Some (replicate 10 0)) 10 =
      Some (c', ok, Some new, n, sak) \<and> length new = 10 \<and> (ok \<longleftrightarrow> n \<noteq> 0) \<and> n \<in> {0, 4, 7, 10} \<and>
    (ok \<longrightarrow> (\<exists>s. sak = word_of_int s \<and> 0 \<le> s \<and> s < 256 \<and> \<not> cascade_bit s))"
  by (rule activation_safe) simp

end
