(* ===== verification/Iso15693.thy ===== *)
theory Iso15693
  imports IsoDepFrame
begin

text \<open>
  The ISO 15693 codec of the ST25R3916 front end (\<open>st25r3916_iso15693.c\<close>): the front end only
  shifts stream symbols, so the firmware itself adds the start symbol, the one-out-of-four coding,
  the CRC and the end symbol of a request, and recovers a response from its Manchester stream.
  The encoder is shown to put out exactly the stream of the format and the decoder to accept
  exactly the streams of the format, for arbitrary received bytes.
\<close>

section \<open>CRC\<close>

definition v_crc_bit_step :: "16 word \<Rightarrow> 16 word" where
  "v_crc_bit_step crc =
     (if crc AND 0x0001 \<noteq> 0 then drop_bit 1 crc XOR 0x8408 else drop_bit 1 crc)"

fun v_crc_bits :: "nat \<Rightarrow> 16 word \<Rightarrow> 16 word" where
  "v_crc_bits 0 crc = crc"
| "v_crc_bits (Suc n) crc = v_crc_bits n (v_crc_bit_step crc)"

fun v_crc_loop :: "cptr \<Rightarrow> nat \<Rightarrow> nat \<Rightarrow> 16 word \<Rightarrow> 16 word option" where
  "v_crc_loop data i 0 crc = Some crc"
| "v_crc_loop data i (Suc n) crc = do {
     b \<leftarrow> rd data i;
     v_crc_loop data (i + 1) n (v_crc_bits 8 (crc XOR ucast b))
   }"

definition st25_iso15693_crc16 :: "cptr \<Rightarrow> nat \<Rightarrow> 16 word option" where
  "st25_iso15693_crc16 data len =
     (if data = None then Some 0
      else do {
        crc \<leftarrow> v_crc_loop data 0 len 0xFFFF;
        Some (NOT crc)
      })"

section \<open>The request stream\<close>

abbreviation (input) STREAM_SOF_1OF4 :: u8 where "STREAM_SOF_1OF4 \<equiv> 0x21"
abbreviation (input) STREAM_EOF_1OF4 :: u8 where "STREAM_EOF_1OF4 \<equiv> 0x04"
abbreviation (input) MAX_STREAM_FRAME :: nat where "MAX_STREAM_FRAME \<equiv> 128"

definition dibit_symbol :: "u8 \<Rightarrow> u8" where
  "dibit_symbol d = (if d = 0 then 0x02 else if d = 1 then 0x08 else if d = 2 then 0x20 else 0x80)"

fun put1of4_loop :: "nat \<Rightarrow> u8 \<Rightarrow> cptr \<Rightarrow> nat \<Rightarrow> nat \<Rightarrow> (bool \<times> cptr \<times> nat) option" where
  "put1of4_loop 0 data out out_max pos = Some (True, out, pos)"
| "put1of4_loop (Suc k) data out out_max pos = do {
     (ok, out) \<leftarrow> nero_nfc_store_u8 out out_max pos (dibit_symbol (data AND 0x03));
     if \<not> ok then Some (False, out, u16n (pos + 1))
     else put1of4_loop k (drop_bit 2 data) out out_max (u16n (pos + 1))
   }"

definition st25_iso15693_stream_put1of4 :: "u8 \<Rightarrow> cptr \<Rightarrow> nat \<Rightarrow> nat \<Rightarrow> (bool \<times> cptr \<times> nat) option" where
  "st25_iso15693_stream_put1of4 data out out_max pos =
     (if out = None \<or> u16n (pos + 4) > out_max then Some (False, out, pos)
      else put1of4_loop 4 data out out_max pos)"

fun encode_loop :: "cptr \<Rightarrow> nat \<Rightarrow> nat \<Rightarrow> cptr \<Rightarrow> nat \<Rightarrow> nat \<Rightarrow> (bool \<times> cptr \<times> nat) option" where
  "encode_loop tx i 0 out out_max pos = Some (True, out, pos)"
| "encode_loop tx i (Suc k) out out_max pos = do {
     b \<leftarrow> rd tx i;
     (ok, out, pos) \<leftarrow> st25_iso15693_stream_put1of4 b out out_max pos;
     if \<not> ok then Some (False, out, pos) else encode_loop tx (i + 1) k out out_max pos
   }"

definition st25_iso15693_stream_encode ::
    "cptr \<Rightarrow> nat \<Rightarrow> cptr \<Rightarrow> nat \<Rightarrow> (bool \<times> cptr \<times> nat) option" where
  "st25_iso15693_stream_encode tx tx_len out out_max =
     (if tx = None \<or> out = None \<or> tx_len = 0 \<or> out_max < 2 then Some (False, out, 0)
      else do {
        (ok, out) \<leftarrow> nero_nfc_store_u8 out out_max 0 STREAM_SOF_1OF4;
        if \<not> ok then Some (False, out, 0)
        else do {
          (ok, out, pos) \<leftarrow> encode_loop tx 0 tx_len out out_max 1;
          if \<not> ok then Some (False, out, 0)
          else do {
            crc \<leftarrow> st25_iso15693_crc16 tx tx_len;
            (ok, out, pos) \<leftarrow> st25_iso15693_stream_put1of4 (ucast (crc AND 0x00FF)) out out_max pos;
            if \<not> ok then Some (False, out, 0)
            else do {
              (ok, out, pos) \<leftarrow> st25_iso15693_stream_put1of4 (ucast (drop_bit 8 crc)) out out_max pos;
              if \<not> ok then Some (False, out, 0)
              else do {
                (ok, out) \<leftarrow> nero_nfc_store_u8 out out_max pos STREAM_EOF_1OF4;
                if \<not> ok then Some (False, out, 0) else Some (True, out, u16n (pos + 1))
              }
            }
          }
        }
      })"

section \<open>The response stream\<close>

definition st25_iso15693_stream_bit :: "cptr \<Rightarrow> nat \<Rightarrow> nat \<Rightarrow> u8 option" where
  "st25_iso15693_stream_bit buf buf_len bit_pos =
     (if buf_len \<le> bit_pos div 8 then Some 0
      else do {
        b \<leftarrow> nero_nfc_u8_at buf buf_len (bit_pos div 8);
        Some (drop_bit (bit_pos mod 8) b AND 0x01)
      })"

text \<open>The end of the response: bits 5 to 7 of one byte and the whole next byte.\<close>

definition at_stream_eof :: "cptr \<Rightarrow> nat \<Rightarrow> nat \<Rightarrow> nat \<Rightarrow> bool option" where
  "at_stream_eof inp in_len manchester_pos bit_pos =
     (if bit_pos mod 8 = 0 \<and> manchester_pos div 8 + 1 < in_len then do {
        b \<leftarrow> rd inp (manchester_pos div 8);
        if b AND 0xE0 = 0xA0 then do {
          c \<leftarrow> nero_nfc_u8_at inp in_len (manchester_pos div 8 + 1);
          Some (c = 0x03)
        } else Some False
      } else Some False)"

text \<open>
  The positions are \<open>uint16_t\<close>: with at most 128 input bytes they stay below 1100, so the
  increments do not wrap. The local \<open>tmp\<close> is the third argument.
\<close>

function decode_loop :: "cptr \<Rightarrow> nat \<Rightarrow> bytes \<Rightarrow> nat \<Rightarrow> nat \<Rightarrow> (bool \<times> bytes \<times> nat) option" where
  "decode_loop inp in_len tmp manchester_pos bit_pos =
     (if manchester_pos + 1 < in_len * 8 then
        (case at_stream_eof inp in_len manchester_pos bit_pos of
           None \<Rightarrow> None
         | Some True \<Rightarrow> Some (True, tmp, bit_pos)
         | Some False \<Rightarrow>
             if bit_pos \<ge> MAX_STREAM_FRAME * 8 then Some (False, tmp, bit_pos)
             else
               (case (st25_iso15693_stream_bit inp in_len manchester_pos,
                      st25_iso15693_stream_bit inp in_len (manchester_pos + 1)) of
                  (Some b0, Some b1) \<Rightarrow>
                    (let man = b0 OR push_bit 1 b1 in
                     if man = 0x02
                     then decode_loop inp in_len
                       (tmp[bit_pos div 8 := tmp ! (bit_pos div 8) OR push_bit (bit_pos mod 8) 1])
                       (manchester_pos + 2) (bit_pos + 1)
                     else if man \<noteq> 0x01 then Some (False, tmp, bit_pos)
                     else decode_loop inp in_len tmp (manchester_pos + 2) (bit_pos + 1))
                | _ \<Rightarrow> None))
      else Some (True, tmp, bit_pos))"
  by pat_completeness auto
termination
  by (relation "measure (\<lambda>(inp, in_len, tmp, m, b). in_len * 8 - m)") auto

declare decode_loop.simps [simp del]

definition st25_iso15693_stream_decode :: "cptr \<Rightarrow> nat \<Rightarrow> cptr \<Rightarrow> nat \<Rightarrow> (int \<times> cptr) option" where
  "st25_iso15693_stream_decode inp in_len out out_max =
     (if inp = None \<or> out = None \<or> in_len < 3 \<or> in_len > MAX_STREAM_FRAME then Some (-1, out)
      else do {
        sof \<leftarrow> nero_nfc_u8_at inp in_len 0;
        if sof AND 0x1F \<noteq> 0x17 then Some (-1, out)
        else do {
          (ok, tmp, bit_pos) \<leftarrow> decode_loop inp in_len (replicate MAX_STREAM_FRAME 0) 5 0;
          if \<not> ok \<or> bit_pos = 0 \<or> bit_pos mod 8 \<noteq> 0 then Some (-1, out)
          else do {
            let byte_len = bit_pos div 8;
            if byte_len \<le> 2 \<or> byte_len - 2 > out_max then Some (-1, out)
            else do {
              crc \<leftarrow> st25_iso15693_crc16 (Some tmp) (byte_len - 2);
              if tmp ! (byte_len - 2) \<noteq> ucast (crc AND 0x00FF) \<or>
                 tmp ! (byte_len - 1) \<noteq> ucast (drop_bit 8 crc) then Some (-1, out)
              else do {
                out \<leftarrow> mem_move out 0 (Some tmp) (byte_len - 2);
                Some (int (byte_len - 2), out)
              }
            }
          }
        }
      })"

text \<open>The copying loop at the end is written as one move; \<open>tmp ! (byte_len - 1)\<close> is inside \<open>tmp\<close>.\<close>

section \<open>The format\<close>

text \<open>
  The check bytes of ISO 15693 over \<open>xs\<close>, the symbols of a request, and the bits of a response:
  a start of five bits, two half bits per bit with the lower bit first, and the end.
\<close>

definition v_crc :: "bytes \<Rightarrow> 16 word" where
  "v_crc xs = NOT (fold crc_byte xs 0xFFFF)"

definition v_crc_bytes :: "bytes \<Rightarrow> bytes" where
  "v_crc_bytes xs = [ucast (v_crc xs AND 0x00FF), ucast (drop_bit 8 (v_crc xs))]"

definition vcd_byte :: "u8 \<Rightarrow> bytes" where
  "vcd_byte b = map (\<lambda>k. dibit_symbol (drop_bit (2 * k) b AND 0x03)) [0, 1, 2, 3]"

definition vcd_stream :: "bytes \<Rightarrow> bytes" where
  "vcd_stream xs = STREAM_SOF_1OF4 # concat (map vcd_byte (xs @ v_crc_bytes xs)) @ [STREAM_EOF_1OF4]"

definition bits_of :: "bytes \<Rightarrow> bool list" where
  "bits_of bs = concat (map (\<lambda>b. map (bit b) [0..<8]) bs)"

definition manchester :: "bool list \<Rightarrow> bool list" where
  "manchester vs = concat (map (\<lambda>v. [\<not> v, v]) vs)"

definition vicc_bits :: "bytes \<Rightarrow> bool list" where
  "vicc_bits xs = [True, True, True, False, True] @ manchester (bits_of (xs @ v_crc_bytes xs)) @
     [True, False, True] @ [True, True, False, False, False, False, False, False]"

lemma length_v_crc_bytes [simp]: "length (v_crc_bytes xs) = 2"
  by (simp add: v_crc_bytes_def)

lemma length_vcd_byte [simp]: "length (vcd_byte b) = 4"
  by (simp add: vcd_byte_def)

lemma length_concat_vcd [simp]: "length (concat (map vcd_byte xs)) = 4 * length xs"
  by (induction xs) simp_all

lemma length_vcd_stream: "length (vcd_stream xs) = 4 * length xs + 10"
  by (simp add: vcd_stream_def)

subsection \<open>The CRC is the bit-serial one\<close>

lemma v_crc_bit_step_eq: "v_crc_bit_step c = crc_bit c"
proof -
  have "c AND 1 \<noteq> 0 \<longleftrightarrow> bit c 0"
    by (simp add: and_one_eq bit_0 odd_iff_mod_2_eq_one even_iff_mod_2_eq_zero)
  then show ?thesis by (simp add: v_crc_bit_step_def crc_bit_def)
qed

lemma v_crc_bits_eq: "v_crc_bits n c = (crc_bit ^^ n) c"
  by (induction n arbitrary: c) (simp_all add: v_crc_bit_step_eq funpow_swap1)

lemma v_crc_loop_fold:
  "v_crc_loop (Some (pre @ xs @ rest)) (length pre) (length xs) c = Some (fold crc_byte xs c)"
proof (induction xs arbitrary: pre c)
  case (Cons x xs)
  show ?case using Cons.IH [of "pre @ [x]"] by (simp add: crc_byte_def v_crc_bits_eq del: v_crc_bits.simps)
qed simp

lemma crc16_eq: "n \<le> length bs \<Longrightarrow> st25_iso15693_crc16 (Some bs) n = Some (v_crc (take n bs))"
  using v_crc_loop_fold [of "[]" "take n bs" "drop n bs"] by (simp add: st25_iso15693_crc16_def v_crc_def)

subsection \<open>Requests\<close>

lemma put1of4_loop_ok:
  "pos + k \<le> out_max \<Longrightarrow> out_max \<le> length out \<Longrightarrow> out_max \<le> UINT16_MAX \<Longrightarrow>
    put1of4_loop k d (Some out) out_max pos =
      Some (True, Some (patch out pos (map (\<lambda>i. dibit_symbol (drop_bit (2 * i) d AND 0x03)) [0..<k])), pos + k)"
proof (induction k arbitrary: d out pos)
  case (Suc k)
  let ?sym = "\<lambda>e i. dibit_symbol (drop_bit (2 * i) e AND 0x03)"
  have ms: "map (?sym d) [0..<Suc k] = ?sym d 0 # map (?sym (drop_bit 2 d)) [0..<k]"
    unfolding upt_conv_Cons [OF zero_less_Suc] map_Suc_upt [symmetric]
    by (simp add: drop_bit_drop_bit comp_def add.commute)
  have "patch (out[pos := ?sym d 0]) (pos + 1) (map (?sym (drop_bit 2 d)) [0..<k]) =
      patch out pos (map (?sym d) [0..<Suc k])"
    unfolding ms using Suc.prems by (simp add: patch_def take_Suc_update)
  then show ?case using Suc.IH [of "pos + 1" "out[pos := ?sym d 0]" "drop_bit 2 d"] Suc.prems
    by (simp del: upt_Suc)
qed simp

lemma upto_4: "[0..<4] = [0, 1, 2, 3 :: nat]"
  by (simp add: upt_rec)

lemma put1of4_ok:
  "pos + 4 \<le> out_max \<Longrightarrow> out_max \<le> length out \<Longrightarrow> out_max \<le> UINT16_MAX \<Longrightarrow>
    st25_iso15693_stream_put1of4 d (Some out) out_max pos = Some (True, Some (patch out pos (vcd_byte d)), pos + 4)"
  using put1of4_loop_ok [of pos 4 out_max out d] upto_4
  by (simp add: st25_iso15693_stream_put1of4_def vcd_byte_def)

lemma put1of4_loop_full:
  "out_max < pos + k \<Longrightarrow> pos \<le> out_max \<Longrightarrow> out_max \<le> length out \<Longrightarrow> out_max \<le> UINT16_MAX \<Longrightarrow>
    \<exists>new p. put1of4_loop k d (Some out) out_max pos = Some (False, Some new, p) \<and> length new = length out"
proof (induction k arbitrary: d out pos)
  case (Suc k)
  show ?case
  proof (cases "pos < out_max")
    case True
    then show ?thesis using Suc.IH [of "pos + 1" "out[pos := dibit_symbol (d AND 3)]" "drop_bit 2 d"] Suc.prems
      by simp
  next
    case False
    then show ?thesis using Suc.prems by simp
  qed
qed simp

lemma put1of4_full:
  assumes "out_max < pos + 4" "pos \<le> out_max" "out_max \<le> length out" "out_max \<le> UINT16_MAX"
  shows "\<exists>new p. st25_iso15693_stream_put1of4 d (Some out) out_max pos = Some (False, Some new, p) \<and>
    length new = length out"
  using put1of4_loop_full [OF assms, of d] by (simp add: st25_iso15693_stream_put1of4_def)

lemma encode_loop_eq:
  assumes lims: "out_max \<le> UINT16_MAX"
  shows "out_max \<le> length out \<Longrightarrow> pos \<le> out_max \<Longrightarrow>
    \<exists>new p. encode_loop (Some (pre @ xs @ rest)) (length pre) (length xs) (Some out) out_max pos =
        Some (pos + 4 * length xs \<le> out_max, Some new, p) \<and> length new = length out \<and>
      (pos + 4 * length xs \<le> out_max \<longrightarrow>
        p = pos + 4 * length xs \<and> new = patch out pos (concat (map vcd_byte xs)))"
proof (induction xs arbitrary: pre out pos)
  case (Cons x xs)
  show ?case
  proof (cases "pos + 4 \<le> out_max")
    case True
    let ?o = "patch out pos (vcd_byte x)"
    have l: "length ?o = length out" using True Cons.prems by simp
    obtain new p where n: "encode_loop (Some ((pre @ [x]) @ xs @ rest)) (length (pre @ [x])) (length xs) (Some ?o)
        out_max (pos + 4) = Some (pos + 4 + 4 * length xs \<le> out_max, Some new, p)" "length new = length ?o"
      "pos + 4 + 4 * length xs \<le> out_max \<Longrightarrow>
        p = pos + 4 + 4 * length xs \<and> new = patch ?o (pos + 4) (concat (map vcd_byte xs))"
      using Cons.IH [of ?o "pos + 4" "pre @ [x]"] True l Cons.prems by auto
    have pp: "patch ?o (pos + 4) (concat (map vcd_byte xs)) = patch out pos (concat (map vcd_byte (x # xs)))"
      if "pos + 4 + 4 * length xs \<le> out_max"
      unfolding list.map concat.simps by (rule patch_patch) (use that Cons.prems(1) in simp_all)
    show ?thesis
    proof (intro exI conjI)
      have "pre @ (x # xs) @ rest = (pre @ [x]) @ xs @ rest" by simp
      then show "encode_loop (Some (pre @ (x # xs) @ rest)) (length pre) (length (x # xs)) (Some out) out_max pos =
          Some (pos + 4 * length (x # xs) \<le> out_max, Some new, p)"
        using n(1) put1of4_ok [OF True Cons.prems(1) lims, of x] by (simp add: add.assoc)
      show "length new = length out" using n(2) l by simp
      show "pos + 4 * length (x # xs) \<le> out_max \<longrightarrow> p = pos + 4 * length (x # xs) \<and>
          new = patch out pos (concat (map vcd_byte (x # xs)))" using n(3) pp by simp
    qed
  next
    case False
    then obtain new p where "st25_iso15693_stream_put1of4 x (Some out) out_max pos = Some (False, Some new, p)"
      "length new = length out" using put1of4_full [of out_max pos out x] Cons.prems lims by auto
    then show ?thesis using False by simp
  qed
qed simp

lemma encode_fits:
  assumes "length (vcd_stream xs) \<le> out_max" "out_max \<le> length out" "out_max \<le> UINT16_MAX" "xs \<noteq> []"
  shows "\<exists>new. st25_iso15693_stream_encode (Some (xs @ rest)) (length xs) (Some out) out_max =
      Some (True, Some new, length (vcd_stream xs)) \<and> length new = length out \<and>
    take (length (vcd_stream xs)) new = vcd_stream xs"
proof -
  let ?n = "length xs" and ?c = "v_crc xs"
  let ?d = "concat (map vcd_byte xs)"
  let ?c1 = "ucast (?c AND 0x00FF) :: u8" and ?c2 = "ucast (drop_bit 8 ?c) :: u8"
  note len = length_vcd_stream [of xs]
  let ?o0 = "out[0 := 0x21]"
  obtain o1 where 1: "encode_loop (Some (xs @ rest)) 0 ?n (Some ?o0) out_max 1 = Some (True, Some o1, 1 + 4 * ?n)"
    "o1 = patch ?o0 1 ?d"
    using encode_loop_eq [OF assms(3), of ?o0 1 "[]" xs rest] assms(1,2) len by auto
  have l1: "length o1 = length out" using 1(2) assms(1,2) len by simp
  have 2: "st25_iso15693_stream_put1of4 ?c1 (Some o1) out_max (1 + 4 * ?n) =
      Some (True, Some (patch o1 (1 + 4 * ?n) (vcd_byte ?c1)), 5 + 4 * ?n)"
    using put1of4_ok [of "1 + 4 * ?n" out_max o1 ?c1] assms(1-3) len l1 by (simp add: add.commute)
  let ?o2 = "patch o1 (1 + 4 * ?n) (vcd_byte ?c1)"
  have l2: "length ?o2 = length out" using l1 assms(1,2) len by simp
  have 3: "st25_iso15693_stream_put1of4 ?c2 (Some ?o2) out_max (5 + 4 * ?n) =
      Some (True, Some (patch ?o2 (5 + 4 * ?n) (vcd_byte ?c2)), 9 + 4 * ?n)"
    using put1of4_ok [of "5 + 4 * ?n" out_max ?o2 ?c2] assms(1-3) len l2 by (simp add: add.commute)
  let ?o3 = "patch ?o2 (5 + 4 * ?n) (vcd_byte ?c2)"
  have l3: "length ?o3 = length out" using l2 assms(1,2) len by simp
  have t0: "take 1 ?o0 = [0x21]" using assms(1,2) len by (cases out) simp_all
  have t1: "take (1 + 4 * ?n) o1 = 0x21 # ?d"
    unfolding 1(2) by (rule trans [OF take_patch_at [OF t0]]) (use assms(1,2) len in simp_all)
  have t2: "take (5 + 4 * ?n) ?o2 = 0x21 # ?d @ vcd_byte ?c1"
    by (rule trans [OF take_patch_at [OF t1]]) (use assms(1,2) len l1 in simp_all)
  have t3: "take (9 + 4 * ?n) ?o3 = 0x21 # ?d @ vcd_byte ?c1 @ vcd_byte ?c2"
    by (rule trans [OF take_patch_at [OF t2]]) (use assms(1,2) len l2 in simp_all)
  have "take (4 * ?n + 10) (?o3[9 + 4 * ?n := 0x04]) = (0x21 # ?d @ vcd_byte ?c1 @ vcd_byte ?c2) @ [0x04]"
    by (rule trans [OF take_update_at [OF t3]]) (use assms(1,2) len l3 in simp_all)
  also have "\<dots> = vcd_stream xs" by (simp add: vcd_stream_def v_crc_bytes_def)
  finally have t: "take (4 * ?n + 10) (?o3[9 + 4 * ?n := 0x04]) = vcd_stream xs" .
  have crc: "st25_iso15693_crc16 (Some (xs @ rest)) ?n = Some ?c" by (simp add: crc16_eq)
  have "st25_iso15693_stream_encode (Some (xs @ rest)) ?n (Some out) out_max =
      Some (True, Some (?o3[9 + 4 * ?n := 0x04]), 4 * ?n + 10)"
    using assms len l3 1(1) 2 3 crc
    by (simp add: st25_iso15693_stream_encode_def)
  then show ?thesis using t l3 len by simp
qed

lemma put1of4_cases:
  assumes "pos \<le> out_max" "out_max \<le> length out" "out_max \<le> UINT16_MAX"
  shows "\<exists>new p. st25_iso15693_stream_put1of4 d (Some out) out_max pos = Some (pos + 4 \<le> out_max, Some new, p) \<and>
    length new = length out \<and> (pos + 4 \<le> out_max \<longrightarrow> p = pos + 4)"
proof (cases "pos + 4 \<le> out_max")
  case True
  then show ?thesis using put1of4_ok [OF True assms(2,3), of d] assms by simp
next
  case False
  then show ?thesis using put1of4_full [of out_max pos out d] assms by auto
qed

lemma encode_full:
  assumes "out_max < length (vcd_stream xs)" "out_max \<le> length out" "out_max \<le> UINT16_MAX"
  shows "\<exists>new. st25_iso15693_stream_encode (Some (xs @ rest)) (length xs) (Some out) out_max =
      Some (False, Some new, 0) \<and> length new = length out"
proof (cases "xs = [] \<or> out_max < 2")
  case True
  then show ?thesis by (auto simp: st25_iso15693_stream_encode_def)
next
  case False
  let ?n = "length xs" and ?c = "v_crc xs"
  let ?c1 = "ucast (?c AND 0x00FF) :: u8" and ?c2 = "ucast (drop_bit 8 ?c) :: u8"
  obtain o1 p1 where 1: "encode_loop (Some (xs @ rest)) 0 ?n (Some (out[0 := 0x21])) out_max 1 =
      Some (1 + 4 * ?n \<le> out_max, Some o1, p1)" "length o1 = length out"
    "1 + 4 * ?n \<le> out_max \<longrightarrow> p1 = 1 + 4 * ?n"
    using encode_loop_eq [OF assms(3), of "out[0 := 0x21]" 1 "[]" xs rest] assms(2) False by auto
  have crc: "st25_iso15693_crc16 (Some (xs @ rest)) ?n = Some ?c" by (simp add: crc16_eq)
  have start: "st25_iso15693_stream_encode (Some (xs @ rest)) ?n (Some out) out_max =
    (if \<not> 1 + 4 * ?n \<le> out_max then Some (False, Some o1, 0)
     else do {
       (ok, out, pos) \<leftarrow> st25_iso15693_stream_put1of4 ?c1 (Some o1) out_max p1;
       if \<not> ok then Some (False, out, 0)
       else do {
         (ok, out, pos) \<leftarrow> st25_iso15693_stream_put1of4 ?c2 out out_max pos;
         if \<not> ok then Some (False, out, 0)
         else do {
           (ok, out) \<leftarrow> nero_nfc_store_u8 out out_max pos STREAM_EOF_1OF4;
           if \<not> ok then Some (False, out, 0) else Some (True, out, u16n (pos + 1))
         }
       }
     })"
    using False assms(2,3) 1(1) crc by (simp add: st25_iso15693_stream_encode_def)
  show ?thesis
  proof (cases "1 + 4 * ?n \<le> out_max")
    case one: True
    obtain o2 p2 where 2: "st25_iso15693_stream_put1of4 ?c1 (Some o1) out_max p1 =
        Some (5 + 4 * ?n \<le> out_max, Some o2, p2)" "length o2 = length out" "5 + 4 * ?n \<le> out_max \<longrightarrow> p2 = 5 + 4 * ?n"
      using put1of4_cases [of p1 out_max o1 ?c1] 1 one assms by auto
    show ?thesis
    proof (cases "5 + 4 * ?n \<le> out_max")
      case True
      obtain o3 p3 where 3: "st25_iso15693_stream_put1of4 ?c2 (Some o2) out_max p2 =
          Some (9 + 4 * ?n \<le> out_max, Some o3, p3)" "length o3 = length out" "9 + 4 * ?n \<le> out_max \<longrightarrow> p3 = 9 + 4 * ?n"
        using put1of4_cases [of p2 out_max o2 ?c2] 2 True assms by auto
      show ?thesis unfolding start using assms(1) 1(2) 2(2) 3 one True
        by (simp add: 2(1) length_vcd_stream)
    qed (use 2 one in \<open>simp add: start\<close>)
  qed (use 1(2) in \<open>simp add: start\<close>)
qed

section \<open>Responses\<close>

lemma length_concat_map_const: "(\<And>x. length (f x) = k) \<Longrightarrow> length (concat (map f xs)) = k * length xs"
  by (induction xs) simp_all

lemma nth_concat_map_const:
  assumes "\<And>x. length (f x) = k" "i < k * length xs" "0 < k"
  shows "concat (map f xs) ! i = f (xs ! (i div k)) ! (i mod k)"
  using assms(2)
proof (induction xs arbitrary: i)
  case (Cons x xs)
  show ?case
  proof (cases "i < k")
    case False
    then have "(i - k) div k = i div k - 1" "(i - k) mod k = i mod k" "0 < i div k"
      using assms(3) by (simp_all add: le_div_geq le_mod_geq div_greater_zero_iff)
    then show ?thesis using Cons.IH [of "i - k"] Cons.prems False assms(1)
      by (simp add: nth_append nth_Cons')
  qed (use assms(1) in \<open>simp add: nth_append\<close>)
qed simp

lemma length_bits_of [simp]: "length (bits_of bs) = 8 * length bs"
  unfolding bits_of_def by (rule length_concat_map_const) simp

lemma nth_bits_of: "i < 8 * length bs \<Longrightarrow> bits_of bs ! i = bit (bs ! (i div 8)) (i mod 8)"
  unfolding bits_of_def by (subst nth_concat_map_const [where k = 8]) simp_all

lemma length_manchester [simp]: "length (manchester vs) = 2 * length vs"
  unfolding manchester_def by (rule length_concat_map_const) simp

lemma nth_manchester:
  assumes "i < length vs"
  shows "manchester vs ! (2 * i) = (\<not> vs ! i)" "manchester vs ! (2 * i + 1) = vs ! i"
proof -
  have d: "(2 * i + 1) div 2 = i" by simp
  show "manchester vs ! (2 * i) = (\<not> vs ! i)" "manchester vs ! (2 * i + 1) = vs ! i"
    unfolding manchester_def using assms d
    by (subst nth_concat_map_const [where k = 2]; simp)+
qed

lemma bits_of_append: "bits_of (xs @ ys) = bits_of xs @ bits_of ys"
  by (simp add: bits_of_def)

lemma bits_of_inj: "bits_of xs = bits_of ys \<Longrightarrow> xs = ys"
proof (rule nth_equalityI)
  assume eq: "bits_of xs = bits_of ys"
  then show len: "length xs = length ys" by (metis length_bits_of mult_cancel1 zero_neq_numeral)
  fix i assume i: "i < length xs"
  show "xs ! i = ys ! i"
  proof (rule bit_word_eqI)
    fix j assume "j < LENGTH(8)"
    then have "8 * i + j < 8 * length xs" "(8 * i + j) div 8 = i" "(8 * i + j) mod 8 = j" using i by auto
    then show "bit (xs ! i) j = bit (ys ! i) j"
      using nth_bits_of [of "8 * i + j" xs] nth_bits_of [of "8 * i + j" ys] eq len by simp
  qed
qed

text \<open>Half bits of the input, and what the decoder makes of the \<open>i\<close>-th pair.\<close>

definition half :: "bytes \<Rightarrow> nat \<Rightarrow> bool" where
  "half inp p = bit (inp ! (p div 8)) (p mod 8)"

definition pair_ok :: "bytes \<Rightarrow> nat \<Rightarrow> bool" where
  "pair_ok inp i \<longleftrightarrow> half inp (5 + 2 * i) \<noteq> half inp (6 + 2 * i)"

definition pair_bit :: "bytes \<Rightarrow> nat \<Rightarrow> bool" where
  "pair_bit inp i = half inp (6 + 2 * i)"

definition eof_at :: "bytes \<Rightarrow> nat \<Rightarrow> nat \<Rightarrow> bool" where
  "eof_at inp L i \<longleftrightarrow> i mod 8 = 0 \<and> (5 + 2 * i) div 8 + 1 < L \<and>
     half inp (5 + 2 * i) \<and> \<not> half inp (6 + 2 * i) \<and> half inp (7 + 2 * i) \<and>
     inp ! ((5 + 2 * i) div 8 + 1) = 0x03"

definition tmp_ok :: "bytes \<Rightarrow> nat \<Rightarrow> bytes \<Rightarrow> bool" where
  "tmp_ok inp i tmp \<longleftrightarrow> length tmp = 128 \<and>
     (\<forall>k<128. \<forall>j<8. bit (tmp ! k) j \<longleftrightarrow> 8 * k + j < i \<and> pair_bit inp (8 * k + j))"

lemma stream_bit_eq:
  assumes "p < 8 * L" "L \<le> length inp" "L \<le> SIZE_MAX"
  shows "st25_iso15693_stream_bit (Some inp) L p = Some (of_bool (half inp p))"
proof -
  have "drop_bit n b AND 1 = of_bool (bit b n)" for b :: u8 and n
    by (simp add: and_one_eq bit_iff_odd_drop_bit mod_2_eq_odd)
  moreover have "p div 8 < L" using assms(1) by (simp add: div_less_iff_less_mult mult.commute)
  ultimately show ?thesis using assms by (simp add: st25_iso15693_stream_bit_def half_def)
qed

lemma all_bits: "(\<forall>n<8. P n) \<longleftrightarrow> P 0 \<and> P 1 \<and> P 2 \<and> P 3 \<and> P 4 \<and> P 5 \<and> P 6 \<and> P (7 :: nat)"
  by (auto simp: numeral_eq_Suc All_less_Suc)

lemma high_bits_iff: "b AND 0xE0 = 0xA0 \<longleftrightarrow> bit b 5 \<and> \<not> bit b 6 \<and> bit b 7" for b :: u8
proof -
  have e: "(0xE0 :: u8) = 2 ^ 5 OR 2 ^ 6 OR 2 ^ 7" "(0xA0 :: u8) = 2 ^ 5 OR 2 ^ 7" by simp_all
  show ?thesis unfolding e bit_eq_iff bit_and_iff bit_or_iff
    by (simp add: all_bits bit_exp_iff possible_bit_def)
qed

lemma at_eof_eq:
  assumes "L \<le> length inp" "L \<le> SIZE_MAX"
  shows "at_stream_eof (Some inp) L (5 + 2 * i) i = Some (eof_at inp L i)"
proof (cases "i mod 8 = 0 \<and> (5 + 2 * i) div 8 + 1 < L")
  case True
  then obtain k where k: "i = 8 * k" by auto
  then have d: "(5 + 2 * i) div 8 = 2 * k" "(5 + 2 * i) mod 8 = 5" "(6 + 2 * i) div 8 = 2 * k" "(6 + 2 * i) mod 8 = 6"
    "(7 + 2 * i) div 8 = 2 * k" "(7 + 2 * i) mod 8 = 7" by presburger+
  show ?thesis using True assms
    by (auto simp: at_stream_eof_def eof_at_def half_def d high_bits_iff)
qed (auto simp: at_stream_eof_def eof_at_def)

lemma tmp_set_bit:
  assumes t: "tmp_ok inp i tmp" and v: "pair_bit inp i" and i: "i < 1024"
  shows "tmp_ok inp (i + 1) (tmp[i div 8 := tmp ! (i div 8) OR push_bit (i mod 8) 1])"
proof -
  have len: "length tmp = 128" and b: "\<And>k j. k < 128 \<Longrightarrow> j < 8 \<Longrightarrow> bit (tmp ! k) j \<longleftrightarrow> 8 * k + j < i \<and> pair_bit inp (8 * k + j)"
    using t by (auto simp: tmp_ok_def)
  have "bit (tmp[i div 8 := tmp ! (i div 8) OR push_bit (i mod 8) 1] ! k) j \<longleftrightarrow>
      8 * k + j < i + 1 \<and> pair_bit inp (8 * k + j)" if kj: "k < 128" "j < 8" for k j
  proof (cases "k = i div 8")
    case True
    have q: "8 * (i div 8) + i mod 8 = i" by simp
    have one: "bit (push_bit (i mod 8) (1 :: u8)) j \<longleftrightarrow> j = i mod 8"
      using kj by (auto simp: push_bit_eq_mult bit_exp_iff possible_bit_def)
    have "8 * k + j < i + 1 \<longleftrightarrow> 8 * k + j < i \<or> j = i mod 8" unfolding True using q by linarith
    then show ?thesis using True kj i b [OF kj] one v q len
      by (cases "j = i mod 8") (auto simp: bit_or_iff)
  next
    case False
    have "8 * k + j \<noteq> i" using False kj(2) by auto
    then show ?thesis using False b [OF kj] by auto
  qed
  then show ?thesis using len by (simp add: tmp_ok_def)
qed

lemma tmp_clear_bit:
  assumes t: "tmp_ok inp i tmp" and v: "\<not> pair_bit inp i"
  shows "tmp_ok inp (i + 1) tmp"
  using assms unfolding tmp_ok_def by (metis less_Suc_eq Suc_eq_plus1)

lemma decode_loop_steps:
  assumes L: "L \<le> length inp" "L \<le> 128" and t: "tmp_ok inp i tmp"
  shows "8 * L \<le> 6 + 2 * i \<Longrightarrow> decode_loop (Some inp) L tmp (5 + 2 * i) i = Some (True, tmp, i)"
    and "6 + 2 * i < 8 * L \<Longrightarrow> eof_at inp L i \<Longrightarrow> decode_loop (Some inp) L tmp (5 + 2 * i) i = Some (True, tmp, i)"
    and "6 + 2 * i < 8 * L \<Longrightarrow> \<not> eof_at inp L i \<Longrightarrow> \<not> pair_ok inp i \<Longrightarrow>
      decode_loop (Some inp) L tmp (5 + 2 * i) i = Some (False, tmp, i)"
    and "6 + 2 * i < 8 * L \<Longrightarrow> \<not> eof_at inp L i \<Longrightarrow> pair_ok inp i \<Longrightarrow>
      \<exists>tmp'. decode_loop (Some inp) L tmp (5 + 2 * i) i = decode_loop (Some inp) L tmp' (5 + 2 * (i + 1)) (i + 1) \<and>
        tmp_ok inp (i + 1) tmp'"
proof -
  have sm: "L \<le> SIZE_MAX" using L(2) by simp
  note eof = at_eof_eq [OF L(1) sm, of i]
  show "8 * L \<le> 6 + 2 * i \<Longrightarrow> decode_loop (Some inp) L tmp (5 + 2 * i) i = Some (True, tmp, i)"
    by (subst decode_loop.simps) simp
  show "6 + 2 * i < 8 * L \<Longrightarrow> eof_at inp L i \<Longrightarrow> decode_loop (Some inp) L tmp (5 + 2 * i) i = Some (True, tmp, i)"
    using eof by (subst decode_loop.simps) simp
  assume pos: "6 + 2 * i < 8 * L" and ne: "\<not> eof_at inp L i"
  have i: "i < 1024" and p: "5 + 2 * i < 8 * L" using pos L(2) by auto
  have b0: "st25_iso15693_stream_bit (Some inp) L (5 + 2 * i) = Some (of_bool (half inp (5 + 2 * i)))"
    by (rule stream_bit_eq [OF p L(1) sm])
  have b1: "st25_iso15693_stream_bit (Some inp) L (5 + 2 * i + 1) = Some (of_bool (half inp (6 + 2 * i)))"
    using stream_bit_eq [OF pos L(1) sm] by (simp add: add.commute add.left_commute)
  have step: "decode_loop (Some inp) L tmp (5 + 2 * i) i =
      (if half inp (6 + 2 * i) \<and> \<not> half inp (5 + 2 * i)
       then decode_loop (Some inp) L (tmp[i div 8 := tmp ! (i div 8) OR push_bit (i mod 8) 1]) (5 + 2 * i + 2) (i + 1)
       else if half inp (5 + 2 * i) = half inp (6 + 2 * i) then Some (False, tmp, i)
       else decode_loop (Some inp) L tmp (5 + 2 * i + 2) (i + 1))"
    by (subst decode_loop.simps, subst eof, subst b0, subst b1)
      (use pos ne i in \<open>auto simp: Let_def add.commute\<close>)
  show "\<not> pair_ok inp i \<Longrightarrow> decode_loop (Some inp) L tmp (5 + 2 * i) i = Some (False, tmp, i)"
    unfolding step by (simp add: pair_ok_def)
  assume ok: "pair_ok inp i"
  have two: "5 + 2 * i + 2 = 5 + 2 * (i + 1)" by simp
  show "\<exists>tmp'. decode_loop (Some inp) L tmp (5 + 2 * i) i = decode_loop (Some inp) L tmp' (5 + 2 * (i + 1)) (i + 1) \<and>
      tmp_ok inp (i + 1) tmp'"
  proof (cases "half inp (6 + 2 * i)")
    case True
    then show ?thesis using ok tmp_set_bit [OF t _ i] unfolding step two by (auto simp: pair_ok_def pair_bit_def)
  next
    case False
    then show ?thesis using ok tmp_clear_bit [OF t] unfolding step two by (auto simp: pair_ok_def pair_bit_def)
  qed
qed

lemma decode_loop_run:
  assumes L: "L \<le> length inp" "L \<le> 128"
  shows "tmp_ok inp i tmp \<Longrightarrow> \<exists>ok tmp' n. decode_loop (Some inp) L tmp (5 + 2 * i) i = Some (ok, tmp', n) \<and>
    i \<le> n \<and> tmp_ok inp n tmp' \<and> (\<forall>j. i \<le> j \<and> j < n \<longrightarrow> pair_ok inp j \<and> \<not> eof_at inp L j \<and> 6 + 2 * j < 8 * L) \<and>
    (if ok then 8 * L \<le> 6 + 2 * n \<or> eof_at inp L n
     else 6 + 2 * n < 8 * L \<and> \<not> eof_at inp L n \<and> \<not> pair_ok inp n)"
proof (induction "4 * L - i" arbitrary: i tmp rule: less_induct)
  case less
  note steps = decode_loop_steps [OF L less.prems]
  consider (stop) "8 * L \<le> 6 + 2 * i" | (eof) "6 + 2 * i < 8 * L" "eof_at inp L i"
    | (bad) "6 + 2 * i < 8 * L" "\<not> eof_at inp L i" "\<not> pair_ok inp i"
    | (go) "6 + 2 * i < 8 * L" "\<not> eof_at inp L i" "pair_ok inp i" by linarith
  then show ?case
  proof cases
    case go
    obtain tmp1 where 1: "decode_loop (Some inp) L tmp (5 + 2 * i) i =
        decode_loop (Some inp) L tmp1 (5 + 2 * (i + 1)) (i + 1)" "tmp_ok inp (i + 1) tmp1"
      using steps(4) [OF go] by blast
    have "4 * L - (i + 1) < 4 * L - i" using go(1) by simp
    from less.hyps [OF this 1(2)] obtain ok tmp' n where
      r: "decode_loop (Some inp) L tmp1 (5 + 2 * (i + 1)) (i + 1) = Some (ok, tmp', n)" "i + 1 \<le> n" "tmp_ok inp n tmp'"
        "\<forall>j. i + 1 \<le> j \<and> j < n \<longrightarrow> pair_ok inp j \<and> \<not> eof_at inp L j \<and> 6 + 2 * j < 8 * L"
        "if ok then 8 * L \<le> 6 + 2 * n \<or> eof_at inp L n else 6 + 2 * n < 8 * L \<and> \<not> eof_at inp L n \<and> \<not> pair_ok inp n"
      by blast
    have "\<forall>j. i \<le> j \<and> j < n \<longrightarrow> pair_ok inp j \<and> \<not> eof_at inp L j \<and> 6 + 2 * j < 8 * L"
      using r(4) go by (metis Suc_eq_plus1 Suc_leI le_neq_implies_less)
    then show ?thesis using 1(1) r by (intro exI [of _ ok] exI [of _ tmp'] exI [of _ n]) simp
  next
    case stop
    then show ?thesis using steps(1) less.prems by (intro exI [of _ True] exI [of _ tmp] exI [of _ i]) auto
  next
    case eof
    then show ?thesis using steps(2) less.prems by (intro exI [of _ True] exI [of _ tmp] exI [of _ i]) auto
  next
    case bad
    then show ?thesis using steps(3) less.prems by (intro exI [of _ False] exI [of _ tmp] exI [of _ i]) auto
  qed
qed

lemma sof_bits_iff: "b AND 0x1F = 0x17 \<longleftrightarrow> bit b 0 \<and> bit b 1 \<and> bit b 2 \<and> \<not> bit b 3 \<and> bit b 4" for b :: u8
proof -
  have e: "(0x1F :: u8) = 2 ^ 0 OR 2 ^ 1 OR 2 ^ 2 OR 2 ^ 3 OR 2 ^ 4" "(0x17 :: u8) = 2 ^ 0 OR 2 ^ 1 OR 2 ^ 2 OR 2 ^ 4"
    by simp_all
  show ?thesis unfolding e bit_eq_iff bit_and_iff bit_or_iff
    by (simp add: all_bits bit_exp_iff possible_bit_def)
qed

lemma eof_byte_iff:
  "b = 0x03 \<longleftrightarrow> bit b 0 \<and> bit b 1 \<and> \<not> bit b 2 \<and> \<not> bit b 3 \<and> \<not> bit b 4 \<and> \<not> bit b 5 \<and> \<not> bit b 6 \<and> \<not> bit b 7"
  for b :: u8
proof -
  have e: "(0x03 :: u8) = 2 ^ 0 OR 2 ^ 1" by simp
  show ?thesis unfolding e bit_eq_iff bit_or_iff
    by (simp add: all_bits bit_exp_iff possible_bit_def)
qed

lemma prefix_iff: "(\<exists>rest. B = V @ rest) \<longleftrightarrow> length V \<le> length B \<and> (\<forall>p<length V. B ! p = V ! p)"
proof
  assume r: "length V \<le> length B \<and> (\<forall>p<length V. B ! p = V ! p)"
  then have "take (length V) B = V" by (intro nth_equalityI) simp_all
  then show "\<exists>rest. B = V @ rest" by (metis append_take_drop_id)
qed (auto simp: nth_append)

text \<open>The bits of a response, by position.\<close>

lemma length_vicc_bits: "length (vicc_bits xs) = 16 * length xs + 48"
  by (simp add: vicc_bits_def)

lemma vicc_nth:
  fixes xs :: bytes
  defines "f \<equiv> bits_of (xs @ v_crc_bytes xs)"
  shows "p < 5 \<Longrightarrow> vicc_bits xs ! p = [True, True, True, False, True] ! p"
    and "i < 8 * length xs + 16 \<Longrightarrow> vicc_bits xs ! (5 + 2 * i) = (\<not> f ! i)"
    and "i < 8 * length xs + 16 \<Longrightarrow> vicc_bits xs ! (6 + 2 * i) = f ! i"
    and "k < 11 \<Longrightarrow> vicc_bits xs ! (16 * length xs + 37 + k) =
      [True, False, True, True, True, False, False, False, False, False, False] ! k"
proof -
  have lf: "length f = 8 * length xs + 16" by (simp add: f_def)
  have split: "vicc_bits xs = [True, True, True, False, True] @ manchester f @
      [True, False, True, True, True, False, False, False, False, False, False]"
    by (simp add: vicc_bits_def f_def)
  show "p < 5 \<Longrightarrow> vicc_bits xs ! p = [True, True, True, False, True] ! p" unfolding split by (subst nth_append) simp
  have mid: "vicc_bits xs ! (5 + q) = manchester f ! q" if "q < 2 * length f" for q
    using that by (simp add: split nth_append)
  show "vicc_bits xs ! (5 + 2 * i) = (\<not> f ! i)" if "i < 8 * length xs + 16"
    using mid [of "2 * i"] nth_manchester(1) [of i f] that by (simp add: lf)
  show "vicc_bits xs ! (6 + 2 * i) = f ! i" if "i < 8 * length xs + 16"
    using mid [of "2 * i + 1"] nth_manchester(2) [of i f] that by (simp add: lf add.commute)
  have "(V @ M @ E) ! (length V + length M + k) = E ! k" for V M E :: "bool list" and k
    by (simp add: nth_append)
  from this [of "[True, True, True, False, True]" "manchester f"]
  show "k < 11 \<Longrightarrow> vicc_bits xs ! (16 * length xs + 37 + k) =
      [True, False, True, True, True, False, False, False, False, False, False] ! k"
    by (simp add: split lf)
qed

lemma half_bits: "p < 8 * L \<Longrightarrow> L \<le> length inp \<Longrightarrow> bits_of (take L inp) ! p = half inp p"
  by (subst nth_bits_of) (simp_all add: half_def div_less_iff_less_mult mult.commute)

text \<open>The end symbol behind \<open>n\<close> frame bytes, as eleven half bits.\<close>

lemma eof_at_iff:
  "eof_at inp L (8 * n) \<longleftrightarrow> 2 * n + 1 < L \<and> (\<forall>k<11. half inp (16 * n + 5 + k) =
     [True, False, True, True, True, False, False, False, False, False, False] ! k)"
proof -
  define b c where "b = 16 * n + 5" and "c = 2 * n"
  have all11: "(\<forall>k<11. P k) \<longleftrightarrow> P 0 \<and> P 1 \<and> P 2 \<and> P 3 \<and> P 4 \<and> P 5 \<and> P 6 \<and> P 7 \<and> P 8 \<and> P 9 \<and> P (10 :: nat)" for P
    by (auto simp: numeral_eq_Suc All_less_Suc)
  have tail: "half inp (b + k) = (if k < 3 then bit (inp ! c) (5 + k) else bit (inp ! (c + 1)) (k - 3))"
    if "k < 11" for k
  proof (cases "k < 3")
    case True
    then have "b + k = 8 * c + (5 + k)" "5 + k < 8" by (simp_all add: b_def c_def)
    then have "(b + k) div 8 = c" "(b + k) mod 8 = 5 + k" by (simp_all only: div_mult_self4 mod_mult_self4) simp_all
    then show ?thesis using True by (simp add: half_def)
  next
    case False
    with that have "b + k = 8 * (c + 1) + (k - 3)" "k - 3 < 8" by (simp_all add: b_def c_def)
    then have "(b + k) div 8 = c + 1" "(b + k) mod 8 = k - 3"
      by (simp_all only: div_mult_self4 mod_mult_self4) simp_all
    then show ?thesis using False by (simp add: half_def)
  qed
  have d: "5 + 2 * (8 * n) = b" "6 + 2 * (8 * n) = b + 1" "7 + 2 * (8 * n) = b + 2" "(5 + 2 * (8 * n)) div 8 = c"
    unfolding b_def c_def by presburger+
  have e: "eof_at inp L (8 * n) \<longleftrightarrow> c + 1 < L \<and> half inp (b + 0) \<and> \<not> half inp (b + 1) \<and> half inp (b + 2) \<and>
      inp ! (c + 1) = 0x03"
    unfolding eof_at_def d(4) unfolding d(1-3) by simp
  show ?thesis
    unfolding b_def [symmetric] c_def [symmetric] e all11 eof_byte_iff
    by (simp add: tail add.commute del: One_nat_def) (simp add: One_nat_def)
qed

lemma stream_iff:
  assumes L: "L \<le> length inp"
  shows "(\<exists>rest. bits_of (take L inp) = vicc_bits xs @ rest) \<longleftrightarrow>
    0 < L \<and> inp ! 0 AND 0x1F = 0x17 \<and>
    (\<forall>i < 8 * length xs + 16. pair_ok inp i \<and> pair_bit inp i = bits_of (xs @ v_crc_bytes xs) ! i) \<and>
    eof_at inp L (8 * length xs + 16)"
    (is "?lhs \<longleftrightarrow> ?rhs")
proof -
  let ?N = "length xs" and ?f = "bits_of (xs @ v_crc_bytes xs)"
  have tl: "8 * ?N + 16 = 8 * (?N + 2)" "16 * (?N + 2) + 5 = 16 * ?N + 37" by simp_all
  have all5: "(\<forall>k<5. P k) \<longleftrightarrow> P 0 \<and> P 1 \<and> P 2 \<and> P 3 \<and> P (4 :: nat)" for P
    by (auto simp: numeral_eq_Suc All_less_Suc)
  have start: "(\<forall>p<5. half inp p = vicc_bits xs ! p) \<longleftrightarrow> inp ! 0 AND 0x1F = 0x17"
    unfolding all5 sof_bits_iff by (simp add: half_def vicc_nth(1))
  have mid: "half inp (5 + 2 * i) = vicc_bits xs ! (5 + 2 * i) \<and> half inp (6 + 2 * i) = vicc_bits xs ! (6 + 2 * i) \<longleftrightarrow>
      pair_ok inp i \<and> pair_bit inp i = ?f ! i" if "i < 8 * ?N + 16" for i
    using vicc_nth(2,3) [OF that] by (auto simp: pair_ok_def pair_bit_def)
  have fin: "(\<forall>k<11. half inp (16 * ?N + 37 + k) = vicc_bits xs ! (16 * ?N + 37 + k)) \<and> 2 * ?N + 5 < L \<longleftrightarrow>
      eof_at inp L (8 * ?N + 16)"
    unfolding tl(1) eof_at_iff tl(2) using vicc_nth(4) [of _ xs] by (auto simp: add.commute)
  have pos: "(\<forall>p < 16 * ?N + 48. Q p) \<longleftrightarrow> (\<forall>p<5. Q p) \<and> (\<forall>i < 8 * ?N + 16. Q (5 + 2 * i) \<and> Q (6 + 2 * i)) \<and>
      (\<forall>k<11. Q (16 * ?N + 37 + k))" for Q
  proof (intro iffI allI impI)
    fix p assume r: "(\<forall>p<5. Q p) \<and> (\<forall>i < 8 * ?N + 16. Q (5 + 2 * i) \<and> Q (6 + 2 * i)) \<and> (\<forall>k<11. Q (16 * ?N + 37 + k))"
      and p: "p < 16 * ?N + 48"
    consider "p < 5" | i where "p = 5 + 2 * i" "i < 8 * ?N + 16" | i where "p = 6 + 2 * i" "i < 8 * ?N + 16"
      | k where "p = 16 * ?N + 37 + k" "k < 11"
    proof -
      assume c: "p < 5 \<Longrightarrow> thesis" "\<And>i. p = 5 + 2 * i \<Longrightarrow> i < 8 * ?N + 16 \<Longrightarrow> thesis"
        "\<And>i. p = 6 + 2 * i \<Longrightarrow> i < 8 * ?N + 16 \<Longrightarrow> thesis" "\<And>k. p = 16 * ?N + 37 + k \<Longrightarrow> k < 11 \<Longrightarrow> thesis"
      show thesis
      proof (cases "p < 5 \<or> 16 * ?N + 37 \<le> p")
        case True
        then show ?thesis using c(1) c(4) [of "p - (16 * ?N + 37)"] p by auto
      next
        case False
        then show ?thesis using c(2) [of "(p - 5) div 2"] c(3) [of "(p - 6) div 2"]
          by (cases "even p") (auto elim!: evenE oddE)
      qed
    qed
    then show "Q p" using r by cases auto
  qed auto
  have len: "2 * ?N + 5 < L \<longleftrightarrow> length (vicc_bits xs) \<le> length (bits_of (take L inp))"
    using L by (auto simp: length_vicc_bits)
  have "?lhs \<longleftrightarrow> 2 * ?N + 5 < L \<and> (\<forall>p < 16 * ?N + 48. bits_of (take L inp) ! p = vicc_bits xs ! p)"
    unfolding prefix_iff len [symmetric] by (simp add: length_vicc_bits)
  also have "\<dots> \<longleftrightarrow> 2 * ?N + 5 < L \<and> (\<forall>p < 16 * ?N + 48. half inp p = vicc_bits xs ! p)"
    using half_bits [OF _ L] by (intro conj_cong refl all_cong) auto
  also have "\<dots> \<longleftrightarrow> ?rhs" unfolding pos start fin [symmetric] using mid by auto
  finally show ?thesis .
qed

section \<open>Properties\<close>

text \<open>
  C30: the request encoder puts out exactly the stream of the format (start symbol, each byte and
  the two CRC bytes as four symbols with the low pair first, end symbol) when it fits the output
  buffer; otherwise it fails. It never writes behind the buffer.
\<close>

theorem encode_exact:
  assumes "out_max \<le> length out" and "out_max \<le> UINT16_MAX"
  shows "\<exists>new. st25_iso15693_stream_encode (Some (xs @ rest)) (length xs) (Some out) out_max =
      Some (xs \<noteq> [] \<and> length (vcd_stream xs) \<le> out_max, Some new,
        if xs \<noteq> [] \<and> length (vcd_stream xs) \<le> out_max then length (vcd_stream xs) else 0) \<and>
    length new = length out \<and>
    (xs \<noteq> [] \<and> length (vcd_stream xs) \<le> out_max \<longrightarrow>
      take (length (vcd_stream xs)) new = vcd_stream xs)"
proof (cases "xs = []")
  case True
  then show ?thesis by (simp add: st25_iso15693_stream_encode_def)
next
  case False
  then show ?thesis
    using encode_fits [OF _ assms False, of rest] encode_full [OF _ assms, of xs rest]
    by (cases "length (vcd_stream xs) \<le> out_max") auto
qed

theorem encode_exact_witness:
  "\<exists>new. st25_iso15693_stream_encode (Some ([0x26, 1, 0] @ [])) (length [0x26, 1, 0 :: u8]) (Some (replicate 40 0)) 40 =
      Some ([0x26, 1, 0 :: u8] \<noteq> [] \<and> length (vcd_stream [0x26, 1, 0]) \<le> 40, Some new,
        if [0x26, 1, 0 :: u8] \<noteq> [] \<and> length (vcd_stream [0x26, 1, 0]) \<le> 40
        then length (vcd_stream [0x26, 1, 0]) else 0) \<and>
    length new = length (replicate 40 (0 :: u8)) \<and>
    ([0x26, 1, 0 :: u8] \<noteq> [] \<and> length (vcd_stream [0x26, 1, 0]) \<le> 40 \<longrightarrow>
      take (length (vcd_stream [0x26, 1, 0])) new = vcd_stream [0x26, 1, 0])"
  by (rule encode_exact) simp_all

lemma tmp_bytes:
  assumes t: "tmp_ok inp n tmp" and n: "n = 8 * m" "m \<le> 128"
  shows "bits_of (take m tmp) = map (pair_bit inp) [0..<n]"
proof (rule nth_equalityI)
  show "length (bits_of (take m tmp)) = length (map (pair_bit inp) [0..<n])"
    using t n by (simp add: tmp_ok_def min_def)
  fix i assume "i < length (bits_of (take m tmp))"
  then have i: "i < 8 * m" using t n by (simp add: tmp_ok_def)
  then have d: "i div 8 < m" "i mod 8 < 8" by (simp_all add: div_less_iff_less_mult mult.commute)
  have "bit (tmp ! (i div 8)) (i mod 8) \<longleftrightarrow> 8 * (i div 8) + i mod 8 < n \<and> pair_bit inp (8 * (i div 8) + i mod 8)"
    using t d n(2) unfolding tmp_ok_def by auto
  then show "bits_of (take m tmp) ! i = map (pair_bit inp) [0..<n] ! i"
    using i d n t by (simp add: nth_bits_of tmp_ok_def)
qed

definition vicc_stream :: "bytes \<Rightarrow> nat \<Rightarrow> bytes \<Rightarrow> bool" where
  "vicc_stream inp L xs \<longleftrightarrow> (\<exists>rest. bits_of (take L inp) = vicc_bits xs @ rest)"

lemma eof_not_ok: "eof_at inp L i \<Longrightarrow> \<not> pair_ok inp (i + 1)"
proof -
  assume e: "eof_at inp L i"
  then obtain k where k: "i = 8 * k" by (auto simp: eof_at_def)
  then have "(5 + 2 * i) div 8 = 2 * k" by simp
  then have b: "inp ! (2 * k + 1) = 3" "half inp (7 + 2 * i)" using e by (auto simp: eof_at_def)
  have "8 + 2 * i = 8 * (2 * k + 1)" by (simp add: k)
  then have "half inp (8 + 2 * i)" unfolding half_def using b(1) by (simp add: bit_0)
  then show ?thesis using b(2) by (simp add: pair_ok_def add.commute)
qed

lemma vicc_stream_run:
  assumes L: "L \<le> length inp" "L \<le> 128" and v: "vicc_stream inp L xs"
  shows "\<exists>tmp. decode_loop (Some inp) L (replicate 128 0) 5 0 = Some (True, tmp, 8 * length xs + 16) \<and>
    length tmp = 128 \<and> take (length xs + 2) tmp = xs @ v_crc_bytes xs \<and> length xs + 2 \<le> 128"
proof -
  let ?M = "8 * length xs + 16"
  have s: "\<And>i. i < ?M \<Longrightarrow> pair_ok inp i \<and> pair_bit inp i = bits_of (xs @ v_crc_bytes xs) ! i" "eof_at inp L ?M"
    using v stream_iff [OF L(1), of xs] by (auto simp: vicc_stream_def)
  have fits: "(5 + 2 * ?M) div 8 + 1 < L" using s(2) by (simp add: eof_at_def)
  have t0: "tmp_ok inp 0 (replicate 128 0)" by (simp add: tmp_ok_def)
  obtain ok tmp n where r: "decode_loop (Some inp) L (replicate 128 0) 5 0 = Some (ok, tmp, n)" "tmp_ok inp n tmp"
    "\<forall>j<n. pair_ok inp j \<and> \<not> eof_at inp L j \<and> 6 + 2 * j < 8 * L"
    "if ok then 8 * L \<le> 6 + 2 * n \<or> eof_at inp L n else 6 + 2 * n < 8 * L \<and> \<not> eof_at inp L n \<and> \<not> pair_ok inp n"
    using decode_loop_run [OF L t0] by auto
  have "n = ?M"
  proof (rule ccontr)
    assume "n \<noteq> ?M"
    then consider "n < ?M" | "?M < n" by linarith
    then show False
    proof cases
      case 1
      then have "ok" "eof_at inp L n" using r(4) s(1) fits by (auto split: if_splits)
      then have "n mod 8 = 0" "\<not> pair_ok inp (n + 1)" using eof_not_ok by (auto simp: eof_at_def)
      moreover from this 1 have "n + 1 < ?M" by presburger
      ultimately show False using s(1) by blast
    next
      case 2
      then show False using r(3) s(2) by blast
    qed
  qed
  then have ok: ok and n: "n = 8 * (length xs + 2)" using r(4) s(2) by (auto split: if_splits)
  have m: "length xs + 2 \<le> 128" using fits L(2) by simp
  have "bits_of (take (length xs + 2) tmp) = bits_of (xs @ v_crc_bytes xs)"
    unfolding tmp_bytes [OF r(2) n m]
    by (rule nth_equalityI) (use s(1) n in \<open>simp_all add: \<open>n = ?M\<close>\<close>)
  then have "take (length xs + 2) tmp = xs @ v_crc_bytes xs" by (rule bits_of_inj)
  then show ?thesis using r(1,2) ok m \<open>n = ?M\<close> by (simp add: tmp_ok_def)
qed

lemma decode_of_stream:
  assumes L: "L \<le> length inp" "L \<le> 128" and v: "vicc_stream inp L xs" and xs: "xs \<noteq> []"
    and out: "out_max \<le> length out"
  shows "st25_iso15693_stream_decode (Some inp) L (Some out) out_max =
    (if length xs \<le> out_max then Some (int (length xs), Some (patch out 0 xs)) else Some (-1, Some out))"
proof -
  obtain tmp where t: "decode_loop (Some inp) L (replicate 128 0) 5 0 = Some (True, tmp, 8 * length xs + 16)"
    "length tmp = 128" "take (length xs + 2) tmp = xs @ v_crc_bytes xs" "length xs + 2 \<le> 128"
    using vicc_stream_run [OF L v] by blast
  have sof: "0 < L" "inp ! 0 AND 0x1F = 0x17" and eof: "eof_at inp L (8 * length xs + 16)"
    using v stream_iff [OF L(1), of xs] by (auto simp: vicc_stream_def)
  have L3: "\<not> L < 3" using eof eof_at_iff [of inp L "length xs + 2"] by simp
  have tx: "take (length xs) tmp = xs"
    using arg_cong [OF t(3), of "take (length xs)"] by simp
  have nths: "tmp ! length xs = ucast (v_crc xs AND 0x00FF)" "tmp ! (length xs + 1) = ucast (drop_bit 8 (v_crc xs))"
    using arg_cong [OF t(3), of "\<lambda>l. l ! length xs"] arg_cong [OF t(3), of "\<lambda>l. l ! (length xs + 1)"]
    by (simp_all add: v_crc_bytes_def nth_append)
  have crc: "st25_iso15693_crc16 (Some tmp) (length xs) = Some (v_crc xs)"
    using crc16_eq [of "length xs" tmp] t(2,4) tx by simp
  have d: "(8 * length xs + 16) div 8 = length xs + 2" "(8 * length xs + 16) mod 8 = 0" by presburger+
  have "length xs \<noteq> 0" using xs by simp
  then show ?thesis using sof L L3 t(1,2,4) crc nths tx out
    by (simp add: st25_iso15693_stream_decode_def d)
qed

lemma stream_of_decode:
  assumes L: "L \<le> length inp" and out: "out_max \<le> length out"
  shows "\<exists>r new. st25_iso15693_stream_decode (Some inp) L (Some out) out_max = Some (r, Some new) \<and>
    (r = -1 \<and> new = out \<or>
     (\<exists>xs. r = int (length xs) \<and> new = patch out 0 xs \<and> xs \<noteq> [] \<and> length xs \<le> out_max \<and> L \<le> 128 \<and>
       vicc_stream inp L xs))"
proof (cases "3 \<le> L \<and> L \<le> 128 \<and> inp ! 0 AND 0x1F = 0x17")
  case False
  then show ?thesis using L by (auto simp: st25_iso15693_stream_decode_def)
next
  case pre: True
  have t0: "tmp_ok inp 0 (replicate 128 0)" by (simp add: tmp_ok_def)
  obtain ok tmp n where r: "decode_loop (Some inp) L (replicate 128 0) 5 0 = Some (ok, tmp, n)" "tmp_ok inp n tmp"
    "\<forall>j<n. pair_ok inp j \<and> \<not> eof_at inp L j \<and> 6 + 2 * j < 8 * L"
    "if ok then 8 * L \<le> 6 + 2 * n \<or> eof_at inp L n else 6 + 2 * n < 8 * L \<and> \<not> eof_at inp L n \<and> \<not> pair_ok inp n"
    using decode_loop_run [OF L _ t0] pre by auto
  define m where "m = n div 8"
  have lt: "length tmp = 128" using r(2) by (simp add: tmp_ok_def)
  show ?thesis
  proof (cases "ok \<and> n mod 8 = 0 \<and> 2 < m \<and> m - 2 \<le> out_max")
    case False
    then show ?thesis using pre L r(1)
      by (auto simp: st25_iso15693_stream_decode_def m_def [symmetric])
  next
    case go: True
    then have n: "n = 8 * m" by (auto simp: m_def)
    have "6 + 2 * (n - 1) < 8 * L" using r(3) go n by auto
    then have "\<not> 8 * L \<le> 6 + 2 * n" using n go by presburger
    then have "eof_at inp L n" using r(4) go by simp
    then have m: "2 * m + 1 < L" and eof: "eof_at inp L (8 * m)" using n eof_at_iff by auto
    then have m128: "m \<le> 128" using pre by simp
    define xs where "xs = take (m - 2) tmp"
    have lx: "length xs = m - 2" using lt m128 by (simp add: xs_def)
    have crc: "st25_iso15693_crc16 (Some tmp) (m - 2) = Some (v_crc xs)"
      using crc16_eq [of "m - 2" tmp] lt m128 by (simp add: xs_def)
    have dec: "st25_iso15693_stream_decode (Some inp) L (Some out) out_max =
        (if tmp ! (m - 2) \<noteq> ucast (v_crc xs AND 0x00FF) \<or> tmp ! (m - 1) \<noteq> ucast (drop_bit 8 (v_crc xs))
         then Some (-1, Some out) else Some (int (m - 2), Some (patch out 0 xs)))"
      using pre L r(1) go n out lt m128 crc
      by (auto simp: st25_iso15693_stream_decode_def m_def [symmetric] xs_def)
    show ?thesis
    proof (cases "tmp ! (m - 2) = ucast (v_crc xs AND 0x00FF) \<and> tmp ! (m - 1) = ucast (drop_bit 8 (v_crc xs))")
      case False
      then show ?thesis using dec by auto
    next
      case True
      obtain q where q: "m = Suc (Suc q)" using go by (metis Suc_diff_Suc Suc_lessD less_imp_Suc_add add_2_eq_Suc)
      have "take m tmp = xs @ v_crc_bytes xs"
        using True lt m128 unfolding xs_def v_crc_bytes_def q by (simp add: take_Suc_conv_app_nth)
      then have f: "bits_of (xs @ v_crc_bytes xs) = map (pair_bit inp) [0..<n]"
        using tmp_bytes [OF r(2) n m128] by simp
      have mm: "8 * length xs + 16 = n" "8 * m = n" using go lx n q by simp_all
      have "vicc_stream inp L xs"
        unfolding vicc_stream_def stream_iff [OF L] f mm using pre r(3) eof [unfolded mm] by auto
      moreover have "xs \<noteq> []" "length xs \<le> out_max" "int (m - 2) = int (length xs)" using go lx by auto
      moreover have "st25_iso15693_stream_decode (Some inp) L (Some out) out_max =
          Some (int (m - 2), Some (patch out 0 xs))" using dec True by simp
      ultimately show ?thesis using pre by blast
    qed
  qed
qed

text \<open>
  C29: the response decoder is exact on arbitrary received bytes: it returns the bytes \<open>xs\<close> exactly
  when the stream begins with the start symbol, the Manchester code of \<open>xs\<close> and its two CRC bytes,
  and the end symbol, and \<open>xs\<close> is not empty and fits the caller's buffer; it then leaves \<open>xs\<close> at
  the front of the buffer, and in every other case it leaves the buffer alone. No input makes it
  read or write outside its buffers or run for ever.
\<close>

theorem decode_exact:
  assumes "L \<le> length inp" and "out_max \<le> length out"
  shows "\<exists>r new. st25_iso15693_stream_decode (Some inp) L (Some out) out_max = Some (r, Some new) \<and>
    length new = length out \<and> (r = -1 \<longrightarrow> new = out) \<and>
    (\<forall>xs. r = int (length xs) \<and> new = patch out 0 xs \<and> xs = take (length xs) new \<longleftrightarrow>
      L \<le> 128 \<and> xs \<noteq> [] \<and> length xs \<le> out_max \<and> vicc_stream inp L xs)"
proof -
  obtain r new where d: "st25_iso15693_stream_decode (Some inp) L (Some out) out_max = Some (r, Some new)"
    and c: "r = -1 \<and> new = out \<or>
      (\<exists>xs. r = int (length xs) \<and> new = patch out 0 xs \<and> xs \<noteq> [] \<and> length xs \<le> out_max \<and> L \<le> 128 \<and>
        vicc_stream inp L xs)"
    using stream_of_decode [OF assms] by blast
  have "length new = length out" using c assms(2) by auto
  moreover have "r = int (length xs) \<and> new = patch out 0 xs \<and> xs = take (length xs) new \<longleftrightarrow>
      L \<le> 128 \<and> xs \<noteq> [] \<and> length xs \<le> out_max \<and> vicc_stream inp L xs" for xs
  proof
    assume x: "r = int (length xs) \<and> new = patch out 0 xs \<and> xs = take (length xs) new"
    then obtain ys where y: "length xs = length ys" "new = patch out 0 ys" "ys \<noteq> []" "length ys \<le> out_max" "L \<le> 128"
      "vicc_stream inp L ys" using c by auto
    have "xs = ys" using x y(1,2,4) assms(2) by (metis dual_order.trans take_patch_front)
    then show "L \<le> 128 \<and> xs \<noteq> [] \<and> length xs \<le> out_max \<and> vicc_stream inp L xs" using y by simp
  next
    assume x: "L \<le> 128 \<and> xs \<noteq> [] \<and> length xs \<le> out_max \<and> vicc_stream inp L xs"
    then have "r = int (length xs)" "new = patch out 0 xs"
      using decode_of_stream [OF assms(1), of xs out_max out] assms(2) d by simp_all
    then show "r = int (length xs) \<and> new = patch out 0 xs \<and> xs = take (length xs) new"
      using x assms(2) take_patch_front [of xs out] by simp
  qed
  moreover have "r = -1 \<longrightarrow> new = out" using c by auto
  ultimately show ?thesis using d by blast
qed

theorem decode_exact_witness:
  "\<exists>r new. st25_iso15693_stream_decode (Some [0x17, 0x95, 0xAA, 0xA0, 0x03]) 5 (Some [0, 0, 0, 0]) 4 = Some (r, Some new) \<and>
    length new = length [0, 0, 0, 0 :: u8] \<and> (r = -1 \<longrightarrow> new = [0, 0, 0, 0]) \<and>
    (\<forall>xs. r = int (length xs) \<and> new = patch [0, 0, 0, 0] 0 xs \<and> xs = take (length xs) new \<longleftrightarrow>
      (5 :: nat) \<le> 128 \<and> xs \<noteq> [] \<and> length xs \<le> 4 \<and> vicc_stream [0x17, 0x95, 0xAA, 0xA0, 0x03] 5 xs)"
  by (rule decode_exact) simp_all

end
