(* ===== verification/Iso15693Cmd.thy ===== *)
theory Iso15693Cmd
  imports Iso15693
begin

text \<open>
  The ISO 15693 block commands of the front end (\<open>st25r3916_iso15693.c\<close>) over a transceive
  function they are given, and the one the reader and the writer give them
  (\<open>nfc_frontend_iso15693_transceive\<close>: encode the request, exchange the stream, decode the answer).

  \<^item> \<open>'c v_transceive\<close> is the callback type: the context, the request bytes and their length, the
    receive buffer and its capacity, and the time limit. The result is a length, \<open>0\<close> or below for
    no answer. Its contract is the locale \<open>vicinity_transport\<close>; the callback is never the null
    pointer, so that check is left out.
  \<^item> The stream exchange below (\<open>nfc_frontend_transceive\<close>) is a parameter \<open>rf\<close>: a front-end state,
    the symbols sent and the time limit give a new state and the symbols received, none for every
    result below 1.
\<close>

type_synonym 'c v_transceive = "'c \<Rightarrow> cptr \<Rightarrow> nat \<Rightarrow> cptr \<Rightarrow> nat \<Rightarrow> nat \<Rightarrow> ('c \<times> int \<times> cptr) option"
type_synonym 'c stream_link = "'c \<Rightarrow> bytes \<Rightarrow> nat \<Rightarrow> 'c \<times> bytes"

section \<open>Building a command\<close>

text \<open>\<open>cmd[n++] = ...\<close> for given bytes, and for bytes of \<open>src\<close> at the indices \<open>js\<close>.\<close>

fun put_bytes :: "cptr \<Rightarrow> nat \<Rightarrow> bytes \<Rightarrow> (cptr \<times> nat) option" where
  "put_bytes cmd n [] = Some (cmd, n)"
| "put_bytes cmd n (b # bs) = do {
     cmd \<leftarrow> wr cmd n b;
     put_bytes cmd (n + 1) bs
   }"

fun put_from :: "cptr \<Rightarrow> nat \<Rightarrow> cptr \<Rightarrow> nat list \<Rightarrow> (cptr \<times> nat) option" where
  "put_from cmd n src [] = Some (cmd, n)"
| "put_from cmd n src (j # js) = do {
     b \<leftarrow> rd src j;
     cmd \<leftarrow> wr cmd n b;
     put_from cmd (n + 1) src js
   }"

abbreviation (input) REVERSED_UID :: "nat list" where
  "REVERSED_UID \<equiv> [7, 6, 5, 4, 3, 2, 1, 0]"

definition addressed_header :: "nat \<Rightarrow> u8 \<Rightarrow> u8 \<Rightarrow> cptr \<Rightarrow> bytes \<Rightarrow> (cptr \<times> nat) option" where
  "addressed_header cap flags op uid addr = do {
     (cmd, n) \<leftarrow> put_bytes (Some (replicate cap 0)) 0 [flags, op];
     (cmd, n) \<leftarrow> put_from cmd n uid REVERSED_UID;
     put_bytes cmd n addr
   }"

section \<open>Commands\<close>

abbreviation (input) FLAGS_ADDRESSED :: u8 where "FLAGS_ADDRESSED \<equiv> 0x22"
abbreviation (input) FLAG_PROTOCOL_EXTENSION :: u8 where "FLAG_PROTOCOL_EXTENSION \<equiv> 0x08"

definition st25_iso15693_inventory :: "'c v_transceive \<Rightarrow> 'c \<Rightarrow> cptr \<Rightarrow> ('c \<times> bool \<times> cptr) option" where
  "st25_iso15693_inventory xcv c uid_out =
     (if uid_out = None then Some (c, False, None)
      else do {
        uid_out \<leftarrow> mem_fill uid_out 8;
        (cmd, n) \<leftarrow> put_bytes (Some (replicate 3 0)) 0 [0x26, 0x01, 0x00];
        (c, rlen, rx) \<leftarrow> xcv c cmd 3 (Some (replicate 12 0)) 12 30;
        if rlen < 10 then Some (c, False, uid_out)
        else do {
          flags \<leftarrow> rd rx 0;
          if flags AND 0x01 \<noteq> 0 then Some (c, False, uid_out)
          else do {
            (uid_out, _) \<leftarrow> put_from uid_out 0 rx [9, 8, 7, 6, 5, 4, 3, 2];
            Some (c, True, uid_out)
          }
        }
      })"

text \<open>The part both read commands share behind the exchange.\<close>

definition read_reply :: "'c \<Rightarrow> int \<Rightarrow> cptr \<Rightarrow> cptr \<Rightarrow> nat \<Rightarrow> ('c \<times> int \<times> cptr) option" where
  "read_reply c rlen rx buf buf_len =
     (if rlen < 2 then Some (c, -1, buf)
      else do {
        flags \<leftarrow> rd rx 0;
        if flags AND 0x01 \<noteq> 0 then Some (c, -1, buf)
        else do {
          let copy_len = min (u8n (nat (rlen - 1))) buf_len;
          (ok, buf) \<leftarrow> nero_nfc_copy_bytes buf buf_len 0 (ptr_add rx 1) copy_len;
          if \<not> ok then Some (c, -1, buf) else Some (c, int copy_len, buf)
        }
      })"

definition st25_iso15693_read_block ::
    "'c v_transceive \<Rightarrow> 'c \<Rightarrow> cptr \<Rightarrow> u8 \<Rightarrow> cptr \<Rightarrow> nat \<Rightarrow> ('c \<times> int \<times> cptr) option" where
  "st25_iso15693_read_block xcv c uid block_addr buf buf_len =
     (if uid = None \<or> buf = None then Some (c, -1, buf)
      else do {
        (cmd, n) \<leftarrow> addressed_header 12 FLAGS_ADDRESSED 0x20 uid [block_addr];
        (c, rlen, rx) \<leftarrow> xcv c cmd n (Some (replicate 36 0)) 36 30;
        read_reply c rlen rx buf buf_len
      })"

definition st25_iso15693_ext_read_block ::
    "'c v_transceive \<Rightarrow> 'c \<Rightarrow> cptr \<Rightarrow> nat \<Rightarrow> cptr \<Rightarrow> nat \<Rightarrow> ('c \<times> int \<times> cptr) option" where
  "st25_iso15693_ext_read_block xcv c uid block_addr buf buf_len =
     (if uid = None \<or> buf = None then Some (c, -1, buf)
      else do {
        (cmd, n) \<leftarrow> addressed_header 12 (FLAGS_ADDRESSED OR FLAG_PROTOCOL_EXTENSION) 0x30 uid
          [byte block_addr, byte (block_addr div 256)];
        (c, rlen, rx) \<leftarrow> xcv c cmd n (Some (replicate 36 0)) 36 30;
        read_reply c rlen rx buf buf_len
      })"

definition write_reply :: "'c \<Rightarrow> int \<Rightarrow> cptr \<Rightarrow> ('c \<times> bool) option" where
  "write_reply c rlen rx =
     (if rlen < 1 then Some (c, False)
      else do {
        flags \<leftarrow> rd rx 0;
        Some (c, flags AND 0x01 = 0)
      })"

definition st25_iso15693_write_block ::
    "'c v_transceive \<Rightarrow> 'c \<Rightarrow> cptr \<Rightarrow> u8 \<Rightarrow> cptr \<Rightarrow> nat \<Rightarrow> ('c \<times> bool) option" where
  "st25_iso15693_write_block xcv c uid block_addr data data_len =
     (if uid = None \<or> data = None \<or> data_len = 0 \<or> data_len > 8 then Some (c, False)
      else do {
        (cmd, n) \<leftarrow> addressed_header 16 FLAGS_ADDRESSED 0x21 uid [block_addr];
        (cmd, n) \<leftarrow> put_from cmd n data [0..<data_len];
        (c, rlen, rx) \<leftarrow> xcv c cmd n (Some (replicate 4 0)) 4 60;
        write_reply c rlen rx
      })"

definition st25_iso15693_ext_write_block ::
    "'c v_transceive \<Rightarrow> 'c \<Rightarrow> cptr \<Rightarrow> nat \<Rightarrow> cptr \<Rightarrow> nat \<Rightarrow> ('c \<times> bool) option" where
  "st25_iso15693_ext_write_block xcv c uid block_addr data data_len =
     (if uid = None \<or> data = None \<or> data_len = 0 \<or> data_len > 8 then Some (c, False)
      else do {
        (cmd, n) \<leftarrow> addressed_header 16 (FLAGS_ADDRESSED OR FLAG_PROTOCOL_EXTENSION) 0x31 uid
          [byte block_addr, byte (block_addr div 256)];
        (cmd, n) \<leftarrow> put_from cmd n data [0..<data_len];
        (c, rlen, rx) \<leftarrow> xcv c cmd n (Some (replicate 4 0)) 4 60;
        write_reply c rlen rx
      })"

text \<open>Results: whether it succeeded, the number of blocks and the block size.\<close>

definition st25_iso15693_get_system_info ::
    "'c v_transceive \<Rightarrow> 'c \<Rightarrow> cptr \<Rightarrow> ('c \<times> bool \<times> nat \<times> nat) option" where
  "st25_iso15693_get_system_info xcv c uid = do {
     (cmd, n) \<leftarrow> put_bytes (Some (replicate 12 0)) 0 [FLAGS_ADDRESSED, 0x2B];
     (cmd, n) \<leftarrow> (if uid \<noteq> None then put_from cmd n uid REVERSED_UID
                 else do { cmd \<leftarrow> wr cmd 0 0x02; Some (cmd, n) });
     (c, rlen, rx) \<leftarrow> xcv c cmd n (Some (replicate 16 0)) 16 30;
     if rlen < 11 then Some (c, False, 0, 0)
     else do {
       flags \<leftarrow> rd rx 0;
       if flags AND 0x01 \<noteq> 0 then Some (c, False, 0, 0)
       else do {
         info_flags \<leftarrow> rd rx 1;
         let pos = 2 + 8;
         let pos = (if info_flags AND 0x01 \<noteq> 0 then pos + 1 else pos);
         let pos = (if info_flags AND 0x02 \<noteq> 0 then pos + 1 else pos);
         if info_flags AND 0x04 = 0 then Some (c, False, 0, 0)
         else if pos + 2 > u16n (nat rlen) then Some (c, False, 0, 0)
         else do {
           blocks \<leftarrow> rd rx pos;
           size \<leftarrow> rd rx (pos + 1);
           Some (c, True, unat blocks + 1, unat (size AND 0x1F) + 1)
         }
       }
     }
   }"

section \<open>The exchange\<close>

definition nfc_frontend_iso15693_transceive :: "'c stream_link \<Rightarrow> 'c v_transceive" where
  "nfc_frontend_iso15693_transceive rf c tx tx_len rx rx_max timeout_ms =
     (if tx = None \<or> rx = None \<or> tx_len = 0 \<or> rx_max = 0 then Some (c, 0, rx)
      else do {
        (ok, encoded, encoded_len) \<leftarrow> st25_iso15693_stream_encode tx tx_len (Some (replicate MAX_STREAM_FRAME 0))
          MAX_STREAM_FRAME;
        if \<not> ok then Some (c, 0, rx)
        else do {
          let (c, raw) = rf c (take encoded_len (the encoded)) timeout_ms;
          if raw = [] then Some (c, 0, rx)
          else do {
            (r, rx) \<leftarrow> st25_iso15693_stream_decode (Some raw) (u16n (length raw)) rx rx_max;
            Some (c, r, rx)
          }
        }
      })"

section \<open>What a transceive function promises\<close>

locale vicinity_transport =
  fixes xcv :: "'c v_transceive"
  assumes xcv_safe: "\<lbrakk>0 < tx_len; tx_len \<le> length tx; rx_max \<le> length rx; 0 < rx_max; rx_max < 256\<rbrakk> \<Longrightarrow>
    \<exists>c' r new. xcv c (Some tx) tx_len (Some rx) rx_max t = Some (c', r, Some new) \<and>
      length new = length rx \<and> r \<le> int rx_max"

lemma put_bytes_ok:
  "n + length bs \<le> length cmd \<Longrightarrow> put_bytes (Some cmd) n bs = Some (Some (patch cmd n bs), n + length bs)"
proof (induction bs arbitrary: cmd n)
  case (Cons b bs)
  have "patch (cmd[n := b]) (Suc n) bs = patch cmd n (b # bs)"
    using Cons.prems by (simp add: patch_def take_Suc_update)
  then show ?case using Cons by simp
qed simp

lemma put_from_ok:
  "n + length js \<le> length cmd \<Longrightarrow> \<forall>j\<in>set js. j < length src \<Longrightarrow>
    put_from (Some cmd) n (Some src) js = Some (Some (patch cmd n (map ((!) src) js)), n + length js)"
proof (induction js arbitrary: cmd n)
  case (Cons j js)
  have "patch (cmd[n := src ! j]) (Suc n) (map ((!) src) js) = patch cmd n (map ((!) src) (j # js))"
    using Cons.prems by (simp add: patch_def take_Suc_update)
  then show ?case using Cons by simp
qed simp

declare put_bytes.simps [simp del] put_from.simps [simp del]

lemma put_from_fault:
  "length cmd < n + length js \<Longrightarrow> n \<le> length cmd \<Longrightarrow> put_from (Some cmd) n (Some src) js = None"
proof (induction js arbitrary: cmd n)
  case (Cons j js)
  then show ?case by (cases "j < length src"; cases "n < length cmd") (auto simp: wr_def put_from.simps)
qed (simp add: put_from.simps)

lemma rev8: "length uid = 8 \<Longrightarrow> map ((!) uid) REVERSED_UID = rev uid"
  by (rule nth_equalityI) (auto simp: rev_nth less_Suc_eq numeral_eq_Suc)

lemma map_nth_upt: "n \<le> length xs \<Longrightarrow> map ((!) xs) [0..<n] = take n xs"
  by (rule nth_equalityI) auto

definition addressed :: "u8 \<Rightarrow> u8 \<Rightarrow> bytes \<Rightarrow> bytes \<Rightarrow> bytes" where
  "addressed flags op uid addr = [flags, op] @ rev uid @ addr"

lemma length_addressed [simp]: "length (addressed f op uid a) = 2 + length uid + length a"
  by (simp add: addressed_def)

lemma addressed_header_ok:
  assumes "length uid = 8" "10 + length addr \<le> cap"
  shows "addressed_header cap flags op (Some uid) addr =
    Some (Some (patch (replicate cap 0) 0 (addressed flags op uid addr)), 10 + length addr)"
proof -
  let ?z = "replicate cap (0 :: u8)"
  have 1: "put_bytes (Some ?z) 0 [flags, op] = Some (Some (patch ?z 0 [flags, op]), 2)"
    using put_bytes_ok [of 0 "[flags, op]" ?z] assms(2) by simp
  have 2: "put_from (Some (patch ?z 0 [flags, op])) 2 (Some uid) REVERSED_UID =
      Some (Some (patch (patch ?z 0 [flags, op]) 2 (rev uid)), 10)"
    using put_from_ok [of 2 REVERSED_UID "patch ?z 0 [flags, op]" uid] rev8 [OF assms(1)] assms by simp
  have p2: "patch (patch ?z 0 [flags, op]) 2 (rev uid) = patch ?z 0 ([flags, op] @ rev uid)"
    by (rule patch_patch) (use assms in simp_all)
  have 3: "put_bytes (Some (patch ?z 0 ([flags, op] @ rev uid))) 10 addr =
      Some (Some (patch (patch ?z 0 ([flags, op] @ rev uid)) 10 addr), 10 + length addr)"
    by (rule put_bytes_ok) (use assms in simp)
  have p3: "patch (patch ?z 0 ([flags, op] @ rev uid)) 10 addr = patch ?z 0 (([flags, op] @ rev uid) @ addr)"
    by (rule patch_patch) (use assms in simp_all)
  show ?thesis unfolding addressed_header_def 1 using 2 3 p2 p3 by (simp add: addressed_def)
qed

text \<open>The command buffer of a write, filled as far as the data fit.\<close>

lemma write_command_ok:
  assumes "length uid = 8" "10 + length addr + n \<le> cap" "n \<le> length data"
  shows "(addressed_header cap flags op (Some uid) addr \<bind>
      (\<lambda>(cmd, k). put_from cmd k (Some data) [0..<n])) =
    Some (Some (patch (replicate cap 0) 0 (addressed flags op uid (addr @ take n data))), 10 + length addr + n)"
proof -
  let ?z = "replicate cap (0 :: u8)"
  have h: "addressed_header cap flags op (Some uid) addr =
      Some (Some (patch ?z 0 (addressed flags op uid addr)), 10 + length addr)"
    by (rule addressed_header_ok) (use assms in simp_all)
  have p: "put_from (Some (patch ?z 0 (addressed flags op uid addr))) (10 + length addr) (Some data) [0..<n] =
      Some (Some (patch (patch ?z 0 (addressed flags op uid addr)) (10 + length addr) (map ((!) data) [0..<n])),
        10 + length addr + length [0..<n])"
    by (rule put_from_ok) (use assms in simp_all)
  have q: "patch (patch ?z 0 (addressed flags op uid addr)) (10 + length addr) (take n data) =
      patch ?z 0 (addressed flags op uid addr @ take n data)"
    by (rule patch_patch) (use assms in simp_all)
  show ?thesis using h p q assms(3) by (simp add: map_nth_upt addressed_def)
qed

context vicinity_transport
begin

lemma read_reply_safe:
  assumes "rlen \<le> int (length rx)" "length rx \<le> 256" "buf_len \<le> length buf" "buf_len < 256"
  shows "\<exists>r new. read_reply c rlen (Some rx) (Some buf) buf_len = Some (c, r, Some new) \<and>
    length new = length buf \<and> -1 \<le> r \<and> r \<le> int buf_len"
proof (cases "rlen < 2 \<or> rx ! 0 AND 1 \<noteq> 0")
  case True
  then show ?thesis using assms(1) by (cases "rlen < 2") (auto simp: read_reply_def)
next
  case False
  let ?n = "min (nat (rlen - 1)) buf_len"
  have u: "u8n (nat (rlen - 1)) = nat (rlen - 1)" using assms False by simp
  have "nero_nfc_copy_bytes (Some buf) buf_len 0 (Some (drop 1 rx)) ?n =
      Some (True, Some (patch buf 0 (take ?n (drop 1 rx))))"
    using assms False by simp
  then show ?thesis using False assms u by (simp add: read_reply_def Let_def)
qed

lemma read_block_safe:
  assumes "length uid = 8" "buf_len \<le> length buf" "buf_len < 256"
  shows "\<exists>c' r new. st25_iso15693_read_block xcv c (Some uid) b (Some buf) buf_len = Some (c', r, Some new) \<and>
    length new = length buf \<and> -1 \<le> r \<and> r \<le> int buf_len"
proof -
  let ?cmd = "patch (replicate 12 0) 0 (addressed FLAGS_ADDRESSED 0x20 uid [b])"
  obtain c1 r1 rx where x: "xcv c (Some ?cmd) 11 (Some (replicate 36 0)) 36 30 = Some (c1, r1, Some rx)"
    "length rx = 36" "r1 \<le> 36"
    using xcv_safe [of 11 ?cmd 36 "replicate 36 0" c 30] assms(1) by auto
  obtain r new where "read_reply c1 r1 (Some rx) (Some buf) buf_len = Some (c1, r, Some new)"
    "length new = length buf" "-1 \<le> r" "r \<le> int buf_len"
    using read_reply_safe [of r1 rx buf_len buf c1] x assms by auto
  then show ?thesis
    using x addressed_header_ok [of uid "[b]" 12] assms(1) by (simp add: st25_iso15693_read_block_def)
qed

lemma ext_read_block_safe:
  assumes "length uid = 8" "buf_len \<le> length buf" "buf_len < 256"
  shows "\<exists>c' r new. st25_iso15693_ext_read_block xcv c (Some uid) b (Some buf) buf_len = Some (c', r, Some new) \<and>
    length new = length buf \<and> -1 \<le> r \<and> r \<le> int buf_len"
proof -
  let ?cmd = "patch (replicate 12 0) 0 (addressed 0x2A 0x30 uid [byte b, byte (b div 256)])"
  obtain c1 r1 rx where x: "xcv c (Some ?cmd) 12 (Some (replicate 36 0)) 36 30 = Some (c1, r1, Some rx)"
    "length rx = 36" "r1 \<le> 36"
    using xcv_safe [of 12 ?cmd 36 "replicate 36 0" c 30] assms(1) by auto
  obtain r new where "read_reply c1 r1 (Some rx) (Some buf) buf_len = Some (c1, r, Some new)"
    "length new = length buf" "-1 \<le> r" "r \<le> int buf_len"
    using read_reply_safe [of r1 rx buf_len buf c1] x assms by auto
  then show ?thesis
    using x addressed_header_ok [of uid "[byte b, byte (b div 256)]" 12] assms(1)
    by (simp add: st25_iso15693_ext_read_block_def)
qed

lemma write_reply_safe:
  assumes "rlen \<le> int (length rx)"
  shows "\<exists>ok. write_reply c rlen (Some rx) = Some (c, ok)"
  using assms by (auto simp: write_reply_def)

lemma write_block_safe:
  assumes "length uid = 8" "n \<le> length data" "n \<le> 5"
  shows "\<exists>c' ok. st25_iso15693_write_block xcv c (Some uid) b (Some data) n = Some (c', ok)"
proof (cases "n = 0")
  case False
  let ?cmd = "patch (replicate 16 0) 0 (addressed FLAGS_ADDRESSED 0x21 uid ([b] @ take n data))"
  obtain c1 r1 rx where x: "xcv c (Some ?cmd) (11 + n) (Some (replicate 4 0)) 4 60 = Some (c1, r1, Some rx)"
    "length rx = 4" "r1 \<le> 4"
    using xcv_safe [of "11 + n" ?cmd 4 "replicate 4 0" c 60] assms by auto
  obtain ok where "write_reply c1 r1 (Some rx) = Some (c1, ok)" using write_reply_safe [of r1 rx c1] x by auto
  moreover obtain cmd k where h: "addressed_header 16 FLAGS_ADDRESSED 0x21 (Some uid) [b] = Some (cmd, k)"
    "put_from cmd k (Some data) [0..<n] = Some (Some ?cmd, 11 + n)"
    using write_command_ok [of uid "[b]" n 16 data FLAGS_ADDRESSED "0x21"] addressed_header_ok [of uid "[b]" 16] assms
    by auto
  ultimately show ?thesis using x False assms by (simp add: st25_iso15693_write_block_def)
qed (simp add: st25_iso15693_write_block_def)

lemma ext_write_block_safe:
  assumes "length uid = 8" "n \<le> length data" "n \<le> 4"
  shows "\<exists>c' ok. st25_iso15693_ext_write_block xcv c (Some uid) b (Some data) n = Some (c', ok)"
proof (cases "n = 0")
  case False
  let ?a = "[byte b, byte (b div 256)]"
  let ?cmd = "patch (replicate 16 0) 0 (addressed 0x2A 0x31 uid (?a @ take n data))"
  obtain c1 r1 rx where x: "xcv c (Some ?cmd) (12 + n) (Some (replicate 4 0)) 4 60 = Some (c1, r1, Some rx)"
    "length rx = 4" "r1 \<le> 4"
    using xcv_safe [of "12 + n" ?cmd 4 "replicate 4 0" c 60] assms by auto
  obtain ok where "write_reply c1 r1 (Some rx) = Some (c1, ok)" using write_reply_safe [of r1 rx c1] x by auto
  moreover obtain cmd k where h: "addressed_header 16 0x2A 0x31 (Some uid) ?a = Some (cmd, k)"
    "put_from cmd k (Some data) [0..<n] = Some (Some ?cmd, 12 + n)"
    using write_command_ok [of uid ?a n 16 data "0x2A" "0x31"] addressed_header_ok [of uid ?a 16] assms
    by auto
  ultimately show ?thesis using x False assms by (simp add: st25_iso15693_ext_write_block_def)
qed (simp add: st25_iso15693_ext_write_block_def)

lemma system_info_safe:
  assumes "length uid = 8"
  shows "\<exists>c' ok nb bs. st25_iso15693_get_system_info xcv c (Some uid) = Some (c', ok, nb, bs) \<and>
    nb \<le> 256 \<and> bs \<le> 32"
proof -
  let ?z = "replicate 12 0 :: bytes"
  let ?cmd = "patch ?z 0 (addressed FLAGS_ADDRESSED 0x2B uid [])"
  obtain c1 r1 rx where x: "xcv c (Some ?cmd) 10 (Some (replicate 16 0)) 16 30 = Some (c1, r1, Some rx)"
    "length rx = 16" "r1 \<le> 16"
    using xcv_safe [of 10 ?cmd 16 "replicate 16 0" c 30] assms by auto
  have h: "addressed_header 12 FLAGS_ADDRESSED 0x2B (Some uid) [] = Some (Some ?cmd, 10)"
    using addressed_header_ok [of uid "[]" 12] assms by simp
  obtain cmd n where p: "put_bytes (Some ?z) 0 [FLAGS_ADDRESSED, 0x2B] = Some (cmd, n)"
    "put_from cmd n (Some uid) REVERSED_UID = Some (Some ?cmd, 10)"
    using h by (auto simp: addressed_header_def put_bytes.simps bind_eq_Some_conv)
  have "unat (w AND 0x1F :: u8) + 1 \<le> 32" for w :: u8
    using word_and_le1 [of w "0x1F"] by (simp add: word_le_nat_alt)
  moreover have "unat (w :: u8) + 1 \<le> 256" for w using unat_u8_bound [of w] by linarith
  ultimately show ?thesis using x p by (auto simp: st25_iso15693_get_system_info_def Let_def)
qed

lemma inventory_safe:
  assumes "length out = 8"
  shows "\<exists>c' ok new. st25_iso15693_inventory xcv c (Some out) = Some (c', ok, Some new) \<and> length new = 8"
proof -
  let ?z = "replicate 8 0 :: bytes"
  obtain c1 r1 rx where x: "xcv c (Some [0x26, 1, 0]) 3 (Some (replicate 12 0)) 12 30 = Some (c1, r1, Some rx)"
    "length rx = 12" "r1 \<le> 12"
    using xcv_safe [of 3 "[0x26, 1, 0]" 12 "replicate 12 0" c 30] by auto
  have p: "put_bytes (Some (replicate 3 0)) 0 [0x26, 0x01, 0x00] = Some (Some [0x26, 1, 0], 3)"
    by (simp add: numeral_eq_Suc put_bytes.simps)
  have q: "put_from (Some ?z) 0 (Some rx) [9, 8, 7, 6, 5, 4, 3, 2] =
      Some (Some (patch ?z 0 (map ((!) rx) [9, 8, 7, 6, 5, 4, 3, 2])), 8)"
    using put_from_ok [of 0 "[9, 8, 7, 6, 5, 4, 3, 2]" ?z rx] x(2) by simp
  have f: "mem_fill (Some out) 8 = Some (Some ?z)" using assms by simp
  show ?thesis unfolding st25_iso15693_inventory_def f option.distinct simp_thms if_False
    using x p q by auto
qed

end

section \<open>The exchange keeps the promise\<close>

lemma vicc_stream_bound:
  assumes "vicc_stream inp L xs" "L \<le> length inp"
  shows "2 * length xs + 6 \<le> L"
proof -
  obtain rest where "bits_of (take L inp) = vicc_bits xs @ rest" using assms(1) by (auto simp: vicc_stream_def)
  then have "8 * L = 16 * length xs + 48 + length rest"
    using arg_cong [of _ _ length] assms(2) length_bits_of [of "take L inp"] by (simp add: length_vicc_bits)
  then show ?thesis by simp
qed

lemma transceive_fits:
  assumes "xs \<noteq> []" "4 * length xs + 10 \<le> 128" "0 < rx_max"
  shows "nfc_frontend_iso15693_transceive rf c (Some (xs @ rest)) (length xs) (Some rx) rx_max t =
    (let (c', raw) = rf c (vcd_stream xs) t in
     if raw = [] then Some (c', 0, Some rx)
     else do {
       (r, rx') \<leftarrow> st25_iso15693_stream_decode (Some raw) (u16n (length raw)) (Some rx) rx_max;
       Some (c', r, rx')
     })"
proof -
  obtain new where "st25_iso15693_stream_encode (Some (xs @ rest)) (length xs) (Some (replicate 128 0)) 128 =
      Some (True, Some new, length (vcd_stream xs))" "take (length (vcd_stream xs)) new = vcd_stream xs"
    using encode_fits [of xs 128 "replicate 128 0" rest] assms by (auto simp: length_vcd_stream)
  then show ?thesis using assms by (simp add: nfc_frontend_iso15693_transceive_def)
qed

lemma transceive_too_long:
  assumes "128 < 4 * length xs + 10"
  shows "nfc_frontend_iso15693_transceive rf c (Some (xs @ rest)) (length xs) (Some rx) rx_max t = Some (c, 0, Some rx)"
  using encode_full [of 128 xs "replicate 128 0" rest] assms
  by (auto simp: nfc_frontend_iso15693_transceive_def length_vcd_stream)

lemma transceive_safe:
  assumes "0 < n" "n \<le> length tx" "rx_max \<le> length rx" "0 < rx_max"
  shows "\<exists>c' r new. nfc_frontend_iso15693_transceive rf c (Some tx) n (Some rx) rx_max t = Some (c', r, Some new) \<and>
    length new = length rx \<and> r \<le> int rx_max \<and> r \<le> 61"
proof (cases "4 * n + 10 \<le> 128")
  case False
  then show ?thesis using transceive_too_long [of "take n tx" rf c "drop n tx" rx rx_max t] assms by simp
next
  case True
  obtain c' raw where rf: "rf c (vcd_stream (take n tx)) t = (c', raw)" by fastforce
  have le: "u16n (length raw) \<le> length raw" by (rule u16n_le)
  obtain r new where d: "st25_iso15693_stream_decode (Some raw) (u16n (length raw)) (Some rx) rx_max = Some (r, Some new)"
    and o: "r = -1 \<and> new = rx \<or> (\<exists>xs. r = int (length xs) \<and> new = patch rx 0 xs \<and> xs \<noteq> [] \<and> length xs \<le> rx_max \<and>
      u16n (length raw) \<le> 128 \<and> vicc_stream raw (u16n (length raw)) xs)"
    using stream_of_decode [OF le assms(3)] by blast
  have "length new = length rx \<and> r \<le> int rx_max \<and> r \<le> 61"
    using o vicc_stream_bound [OF _ le] assms(3) by fastforce
  moreover have "take n tx \<noteq> []" "length (take n tx) = n" using assms by auto
  then have "nfc_frontend_iso15693_transceive rf c (Some tx) n (Some rx) rx_max t =
      Some (if raw = [] then (c', 0, Some rx) else (c', r, Some new))"
    using transceive_fits [of "take n tx" rx_max rf c "drop n tx" rx t] assms True rf d by simp
  ultimately show ?thesis by (cases "raw = []") simp_all
qed

interpretation front_v: vicinity_transport "nfc_frontend_iso15693_transceive rf" for rf
proof
  fix n rx_max t :: nat and tx rx :: bytes and c :: 'a
  assume a: "0 < n" "n \<le> length tx" "rx_max \<le> length rx" "0 < rx_max"
  show "\<exists>c' r new. nfc_frontend_iso15693_transceive rf c (Some tx) n (Some rx) rx_max t = Some (c', r, Some new) \<and>
      length new = length rx \<and> r \<le> int rx_max"
    using transceive_safe [OF a, of rf c t] by blast
qed

text \<open>Writing more than the command buffer takes is a fault.\<close>

lemma write_block_overrun:
  assumes "length uid = 8" "5 < n" "n \<le> 8"
  shows "st25_iso15693_write_block xcv c (Some uid) b (Some data) n = None"
  using addressed_header_ok [of uid "[b]" 16] put_from_fault [of _ 11 "[0..<n]" data] assms
  by (simp add: st25_iso15693_write_block_def)

lemma ext_write_block_overrun:
  assumes "length uid = 8" "4 < n" "n \<le> 8"
  shows "st25_iso15693_ext_write_block xcv c (Some uid) b (Some data) n = None"
  using addressed_header_ok [of uid "[byte b, byte (b div 256)]" 16] put_from_fault [of _ 12 "[0..<n]" data] assms
  by (simp add: st25_iso15693_ext_write_block_def)

end
