(* ===== verification/ReaderProtocol.thy ===== *)
theory ReaderProtocol
  imports Iso14443a Iso15693Cmd
begin

text \<open>
  The reader's protocol layer (\<open>reader_protocol.c\<close>): what the tag paths know of the card in the
  field and of its capabilities, and the radio below them.

  \<^item> \<open>tag_state\<close> is the part of the reader context the tag paths use: the UID, SAK and ATQA of a
    Type A card, its ATS, the UID of a vicinity card, and the capability cache.
  \<^item> \<open>tag_radio\<close> is the front end: the two ways \<open>nfc_frontend_transceive\<close> is called (frames of a
    Type A card and symbol streams of a vicinity card), the two wake-up commands and the delay. It
    has a state of its own, so a card may answer anything at any time. A reply is the list of the
    bytes received, empty for every result below 1.
  \<^item> The locale \<open>bounded_radio\<close> is what the tag paths rely on: a reply is never longer than the
    receive buffer, and ATQA has two bytes.
\<close>

section \<open>State\<close>

record tag_state =
  ts_uid14 :: bytes
  ts_uid14_len :: nat
  ts_atqa :: bytes
  ts_atqa_valid :: bool
  ts_sak :: u8
  ts_uid15 :: bytes
  ts_ats_data :: bytes
  ts_ats_len :: nat
  ts_fast_uid :: bytes
  ts_fast_uid_len :: nat
  ts_fast_disabled :: bool
  ts_multi_uid :: bytes
  ts_multi_disabled :: bool

record 'c tag_radio =
  tr_transceive :: "'c a_transceive"
  tr_wupa :: "'c \<Rightarrow> 'c \<times> bytes option"
  tr_reqa :: "'c \<Rightarrow> 'c \<times> bool"
  tr_delay_ms :: "'c \<Rightarrow> nat \<Rightarrow> 'c"
  tr_stream :: "'c stream_link"

text \<open>The arrays of the context have their declared sizes.\<close>

definition tag_state_ok :: "tag_state \<Rightarrow> bool" where
  "tag_state_ok s \<longleftrightarrow> length (ts_uid14 s) = 10 \<and> ts_uid14_len s \<le> 10 \<and> length (ts_atqa s) = 2 \<and>
     length (ts_uid15 s) = 8 \<and> length (ts_ats_data s) = 64 \<and> ts_ats_len s \<le> 64 \<and> length (ts_fast_uid s) = 10 \<and>
     length (ts_multi_uid s) = 8"

text \<open>A state with a seven-byte UID and everything else zero.\<close>

definition fresh_tag_state :: tag_state where
  "fresh_tag_state = \<lparr>ts_uid14 = [4, 1, 2, 3, 4, 5, 6, 0, 0, 0], ts_uid14_len = 7, ts_atqa = [0, 0], ts_atqa_valid = False,
     ts_sak = 0, ts_uid15 = replicate 8 0, ts_ats_data = replicate 64 0, ts_ats_len = 0, ts_fast_uid = replicate 10 0,
     ts_fast_uid_len = 0, ts_fast_disabled = False, ts_multi_uid = replicate 8 0, ts_multi_disabled = False\<rparr>"

lemma fresh_tag_state_ok: "tag_state_ok fresh_tag_state"
  by (simp add: fresh_tag_state_def tag_state_ok_def)

text \<open>What a call returns with any card: it does return, and the arrays of the state have their sizes.\<close>

definition returns :: "(('c \<times> tag_state) \<times> 'a) option \<Rightarrow> ('a \<Rightarrow> bool) \<Rightarrow> bool" where
  "returns m P \<longleftrightarrow> (\<exists>w a. m = Some (w, a) \<and> tag_state_ok (snd w) \<and> P a)"

lemma returns_Some [simp]: "returns (Some (w, a)) P \<longleftrightarrow> tag_state_ok (snd w) \<and> P a"
  by (simp add: returns_def)

lemma returns_bind:
  assumes "returns m P" "\<And>w a. tag_state_ok (snd w) \<Longrightarrow> P a \<Longrightarrow> returns (f (w, a)) Q"
  shows "returns (m \<bind> f) Q"
  using assms unfolding returns_def by fastforce

lemma returns_mono: "returns m P \<Longrightarrow> (\<And>a. P a \<Longrightarrow> Q a) \<Longrightarrow> returns m Q"
  unfolding returns_def by blast

text \<open>What a read leaves: the buffer in its size and a result of at most the capacity.\<close>

definition buffer_of :: "nat \<Rightarrow> nat \<Rightarrow> int \<times> cptr \<Rightarrow> bool" where
  "buffer_of n cap = (\<lambda>(r, p). (\<exists>b. p = Some b \<and> length b = n) \<and> (r = -1 \<or> 0 \<le> r \<and> r \<le> int cap))"

section \<open>Operations\<close>

definition reader_protocol_transceive14 ::
    "'c tag_radio \<Rightarrow> 'c \<times> tag_state \<Rightarrow> bytes \<Rightarrow> nat \<Rightarrow> bool \<Rightarrow> nat \<Rightarrow> bool \<Rightarrow> bool \<Rightarrow> ('c \<times> tag_state) \<times> bytes" where
  "reader_protocol_transceive14 R = (\<lambda>(c, s) tx rx_max with_crc timeout_ms anticol no_rx_par.
     let (c, rx) = tr_transceive R c tx rx_max with_crc timeout_ms anticol no_rx_par in ((c, s), rx))"

definition reader_protocol_send_wupa :: "'c tag_radio \<Rightarrow> 'c \<times> tag_state \<Rightarrow> ('c \<times> tag_state) \<times> bool" where
  "reader_protocol_send_wupa R = (\<lambda>(c, s).
     let (c, r) = tr_wupa R c in
     case r of
       None \<Rightarrow> ((c, s\<lparr>ts_atqa_valid := False\<rparr>), False)
     | Some atqa \<Rightarrow> ((c, s\<lparr>ts_atqa := [atqa ! 0, atqa ! 1], ts_atqa_valid := True\<rparr>), True))"

definition anticollision_select :: "'c tag_radio \<Rightarrow> ('c \<times> tag_state) a_select" where
  "anticollision_select R w sel_cmd uid_out = do {
     (w, sak_result, uid_tmp) \<leftarrow> st25_iso14443a_anticollision_select sel_cmd (Some [0, 0, 0, 0])
       (reader_protocol_transceive14 R) w;
     if sak_result < 0 then Some (w, -1, uid_out)
     else do {
       (ok, uid_out) \<leftarrow> nero_nfc_copy_bytes uid_out 4 0 uid_tmp 4;
       Some (w, if \<not> ok then -1 else sak_result, uid_out)
     }
   }"

definition reader_protocol_activate_iso14443a :: "'c tag_radio \<Rightarrow> 'c \<times> tag_state \<Rightarrow> (('c \<times> tag_state) \<times> bool) option" where
  "reader_protocol_activate_iso14443a R w = do {
     ((c, s), ok, uid, uid_len, sak) \<leftarrow> st25_iso14443a_activate_tag (reader_protocol_send_wupa R)
       (Some (\<lambda>(c, s). let (c, ok) = tr_reqa R c in ((c, s), ok)))
       (\<lambda>(c, s) ms. (tr_delay_ms R c ms, s)) True (anticollision_select R) w (Some (ts_uid14 (snd w))) 10;
     Some ((c, s\<lparr>ts_uid14 := the uid, ts_uid14_len := uid_len, ts_sak := sak\<rparr>), ok)
   }"

text \<open>
  The callbacks change only the ATQA of the state, so the UID buffer of the start is the one the
  activation fills.
\<close>

definition reader_protocol_iso15693_transceive :: "'c tag_radio \<Rightarrow> ('c \<times> tag_state) v_transceive" where
  "reader_protocol_iso15693_transceive R = (\<lambda>(c, s) tx tx_len rx rx_max timeout_ms.
     if tx = None \<and> tx_len \<noteq> 0 \<or> rx = None then Some ((c, s), -1, rx)
     else do {
       (c, r, rx) \<leftarrow> nfc_frontend_iso15693_transceive (tr_stream R) c tx tx_len rx rx_max timeout_ms;
       Some ((c, s), r, rx)
     })"

section \<open>What the tag paths rely on\<close>

locale bounded_radio =
  fixes R :: "'c tag_radio"
  assumes transceive_bound: "length (snd (tr_transceive R c tx rx_max crc t anticol no_par)) \<le> rx_max"
    and wupa_atqa: "snd (tr_wupa R c) = Some atqa \<Longrightarrow> length atqa = 2"

lemma transceive14_state [simp]:
  "snd (fst (reader_protocol_transceive14 R w tx m crc t a p)) = snd w"
  by (simp add: reader_protocol_transceive14_def split: prod.splits)

lemma transceive14_front:
  "fst (fst (reader_protocol_transceive14 R w tx m crc t a p)) = fst (tr_transceive R (fst w) tx m crc t a p)"
  "snd (reader_protocol_transceive14 R w tx m crc t a p) = snd (tr_transceive R (fst w) tx m crc t a p)"
  by (simp_all add: reader_protocol_transceive14_def split: prod.splits)

lemma select_state:
  assumes "st25_iso14443a_anticollision_select cmd (Some [0, 0, 0, 0]) (reader_protocol_transceive14 R) w = Some (w', sak, p)"
  shows "snd w' = snd w"
  using assms transceive14_state
  by (auto simp: anticollision_select_eq Let_def split: prod.splits if_splits) (metis fst_conv snd_conv transceive14_state)+

text \<open>Selection and wake-up change nothing of the state but the ATQA.\<close>

definition same_card :: "tag_state \<Rightarrow> tag_state \<Rightarrow> bool" where
  "same_card s s' \<longleftrightarrow> length (ts_atqa s') = 2 \<and> s'\<lparr>ts_atqa := ts_atqa s, ts_atqa_valid := ts_atqa_valid s\<rparr> = s"

text \<open>
  A condition on the front end that the activation keeps: the frames of the activation have two or
  seven bytes.
\<close>

definition quiet_radio :: "'c tag_radio \<Rightarrow> ('c \<Rightarrow> bool) \<Rightarrow> bool" where
  "quiet_radio R Q \<longleftrightarrow> (\<forall>c. Q c \<longrightarrow>
     (\<forall>tx m crc t a p. length tx = 2 \<or> length tx = 7 \<longrightarrow> Q (fst (tr_transceive R c tx m crc t a p))) \<and>
     Q (fst (tr_wupa R c)) \<and> Q (fst (tr_reqa R c)) \<and> (\<forall>t. Q (tr_delay_ms R c t)))"

lemma quiet_transceive14:
  "quiet_radio R Q \<Longrightarrow> Q (fst w) \<Longrightarrow> length tx = 2 \<or> length tx = 7 \<Longrightarrow>
    Q (fst (fst (reader_protocol_transceive14 R w tx m crc t a p)))"
  unfolding quiet_radio_def transceive14_front by blast

lemma select_quiet_state:
  assumes "st25_iso14443a_anticollision_select cmd (Some [0, 0, 0, 0]) (reader_protocol_transceive14 R) w = Some (w', sak, p)"
    and q: "quiet_radio R Q" "Q (fst w)"
  shows "Q (fst w')"
proof -
  obtain w1 rx where 1: "reader_protocol_transceive14 R w [cmd, 0x20] 8 False 20 True False = (w1, rx)" by fastforce
  have q1: "Q (fst w1)" using quiet_transceive14 [OF q, of "[cmd, 0x20]" 8 False 20 True False] 1 by simp
  obtain w2 rx2 where 2: "reader_protocol_transceive14 R w1 ([cmd, 0x70] @ take 5 rx) 8 True 20 False False = (w2, rx2)"
    by fastforce
  show ?thesis
  proof (cases "bcc_ok rx")
    case True
    then have "Q (fst w2)"
      using quiet_transceive14 [OF q(1) q1, of "[cmd, 0x70] @ take 5 rx" 8 True 20 False False] 2 by (simp add: bcc_ok_def)
    then show ?thesis using assms(1) 1 2 True by (simp add: anticollision_select_eq)
  qed (use assms(1) 1 q1 in \<open>simp add: anticollision_select_eq\<close>)
qed

interpretation select_reader: select_step "anticollision_select R" "\<lambda>w. same_card s0 (snd w) \<and> quiet_radio R Q \<and> Q (fst w)"
  for R :: "'c tag_radio" and s0 Q
proof
  fix w :: "'c \<times> tag_state" and cmd :: u8
  assume i: "same_card s0 (snd w) \<and> quiet_radio R Q \<and> Q (fst w)"
  obtain w' sak part where s: "st25_iso14443a_anticollision_select cmd (Some [0, 0, 0, 0])
      (reader_protocol_transceive14 R) w = Some (w', sak, Some part)" "length part = 4" "-1 \<le> sak" "sak < 256"
    using select_front.select_ok [where cmd = cmd and c = w and xcv = "reader_protocol_transceive14 R"] by auto
  have "snd w' = snd w" "Q (fst w')" using select_state [OF s(1)] select_quiet_state [OF s(1)] i by blast+
  then show "\<exists>c' sak part. anticollision_select R w cmd (Some [0, 0, 0, 0]) = Some (c', sak, Some part) \<and>
      length part = 4 \<and> -1 \<le> sak \<and> sak < 256 \<and> same_card s0 (snd c') \<and> quiet_radio R Q \<and> Q (fst c')"
    using s i by (cases "sak < 0") (auto simp: anticollision_select_def)
qed

interpretation v_reader: vicinity_transport "reader_protocol_iso15693_transceive R" for R :: "'c tag_radio"
proof
  fix n rx_max t :: nat and tx rx :: bytes and w :: "'c \<times> tag_state"
  assume a: "0 < n" "n \<le> length tx" "rx_max \<le> length rx" "0 < rx_max"
  obtain c s where w: "w = (c, s)" by fastforce
  obtain c' r new where "nfc_frontend_iso15693_transceive (tr_stream R) c (Some tx) n (Some rx) rx_max t =
      Some (c', r, Some new)" "length new = length rx" "r \<le> int rx_max"
    using transceive_safe [OF a, of "tr_stream R" c t] by blast
  then show "\<exists>c' r new. reader_protocol_iso15693_transceive R w (Some tx) n (Some rx) rx_max t = Some (c', r, Some new) \<and>
      length new = length rx \<and> r \<le> int rx_max"
    by (simp add: reader_protocol_iso15693_transceive_def w)
qed

context bounded_radio
begin

lemma wake_same_card:
  assumes "length (ts_atqa s) = 2"
  shows "same_card s (snd (fst (wake_card (reader_protocol_send_wupa R)
    (Some (\<lambda>(c, s). let (c, ok) = tr_reqa R c in ((c, s), ok))) (\<lambda>(c, s) ms. (tr_delay_ms R c ms, s)) True (c, s))))"
proof -
  show ?thesis using assms
    by (auto simp: wake_card_def reader_protocol_send_wupa_def same_card_def split: prod.splits option.splits)
qed

lemma wake_quiet:
  assumes "quiet_radio R Q" "Q c"
  shows "Q (fst (fst (wake_card (reader_protocol_send_wupa R)
    (Some (\<lambda>(c, s). let (c, ok) = tr_reqa R c in ((c, s), ok))) (\<lambda>(c, s) ms. (tr_delay_ms R c ms, s)) True (c, s))))"
proof -
  have q: "Q (fst (tr_wupa R c))" "Q (fst (tr_reqa R c))" "Q (tr_delay_ms R c t)" if "Q c" for c t
    using assms(1) that unfolding quiet_radio_def by blast+
  obtain c1 r where 1: "tr_wupa R c = (c1, r)" by fastforce
  obtain c2 ok where 2: "tr_reqa R (tr_delay_ms R c1 5) = (c2, ok)" by fastforce
  have "Q c1" using q(1) [OF assms(2)] 1 by simp
  moreover from this have "Q c2" using q(2) [OF q(3), of c1 5] 2 by simp
  ultimately show ?thesis using 1 2
    by (cases r) (simp_all add: wake_card_def reader_protocol_send_wupa_def)
qed

text \<open>Activation returns, with the arrays of the state in their sizes and what the radio keeps kept.\<close>

lemma activate_quiet:
  assumes "tag_state_ok (snd w)" "quiet_radio R Q" "Q (fst w)"
  shows "\<exists>w' ok. reader_protocol_activate_iso14443a R w = Some (w', ok) \<and> tag_state_ok (snd w') \<and> Q (fst w')"
proof -
  obtain c s where w: "w = (c, s)" by fastforce
  have l: "length (ts_uid14 s) = 10" "length (ts_atqa s) = 2" using assms w by (simp_all add: tag_state_ok_def)
  have q: "quiet_radio R Q" "Q c" using assms w by simp_all
  let ?wake = "wake_card (reader_protocol_send_wupa R) (Some (\<lambda>(c, s). let (c, ok) = tr_reqa R c in ((c, s), ok)))
    (\<lambda>(c, s) ms. (tr_delay_ms R c ms, s)) True (c, s)"
  have i: "same_card s (snd (fst ?wake)) \<and> quiet_radio R Q \<and> Q (fst (fst ?wake))"
    using wake_same_card [OF l(2), of c] wake_quiet [OF q, of s] q by blast
  obtain w' ok new n sak where a: "st25_iso14443a_activate_tag (reader_protocol_send_wupa R)
       (Some (\<lambda>(c, s). let (c, ok) = tr_reqa R c in ((c, s), ok)))
       (\<lambda>(c, s) ms. (tr_delay_ms R c ms, s)) True (anticollision_select R) w (Some (ts_uid14 s)) 10 =
       Some (w', ok, Some new, n, sak)" "length new = 10" "same_card s (snd w') \<and> quiet_radio R Q \<and> Q (fst w')" "n \<in> {0, 4, 7, 10}"
    using select_reader.activate_safe [OF l(1) i] unfolding w [symmetric] by blast
  obtain c' s' where w': "w' = (c', s')" by fastforce
  have "tag_state_ok (s'\<lparr>ts_uid14 := new, ts_uid14_len := n, ts_sak := sak\<rparr>)"
    using a(2-4) assms w w' by (cases s, cases s') (auto simp: same_card_def tag_state_ok_def)
  then show ?thesis using a(1,3) w w' by (simp add: reader_protocol_activate_iso14443a_def)
qed

lemma activate_total:
  assumes "tag_state_ok (snd w)"
  shows "\<exists>w' ok. reader_protocol_activate_iso14443a R w = Some (w', ok) \<and> tag_state_ok (snd w')"
  using activate_quiet [of w "\<lambda>_. True", OF assms] by (auto simp: quiet_radio_def)

end

section \<open>A radio that answers everything\<close>

definition noisy_radio :: "unit tag_radio" where
  "noisy_radio = \<lparr>tr_transceive = \<lambda>c tx m crc t a p. (c, replicate m 0xE1), tr_wupa = \<lambda>c. (c, None),
     tr_reqa = \<lambda>c. (c, True), tr_delay_ms = \<lambda>c t. c, tr_stream = \<lambda>c tx t. (c, replicate t 0xE1)\<rparr>"

lemma noisy_bounded: "bounded_radio noisy_radio"
  by unfold_locales (simp_all add: noisy_radio_def)

end
