(* ===== verification/TagInfo.thy ===== *)
theory TagInfo
  imports Iso7816
begin

text \<open>
  What the firmware knows of a tag (\<open>nfc_tag_info.h\<close>): the records, and the functions that fill
  them from the capability container, the version, the signature, the configuration page and the
  system information of the tag. The record pointers of the code are never null in its callers;
  a record is passed by value and returned. A name is \<open>None\<close> for the null pointer.
\<close>

section \<open>Records\<close>


datatype type2_family = FAMILY_UNKNOWN | FAMILY_NTAG21X | FAMILY_ST25TN

record typea_info =
  ta_uid :: bytes
  ta_uid_len :: nat
  ta_atqa :: bytes
  ta_atqa_valid :: bool
  ta_sak :: u8
  ta_ats :: bytes
  ta_ats_len :: nat

record type2_info =
  t2_version :: bytes
  t2_version_len :: nat
  t2_version_valid :: bool
  t2_vendor_id :: u8
  t2_product_id :: u8
  t2_subtype_id :: u8
  t2_size_id :: u8
  t2_vendor_name :: "string option"
  t2_product_name :: "string option"
  t2_family :: type2_family
  t2_cc :: bytes
  t2_cc_valid :: bool
  t2_mapping_major :: u8
  t2_mapping_minor :: u8
  t2_data_area_size :: nat
  t2_access :: u8
  t2_read_open :: bool
  t2_write_open :: bool
  t2_max_user_page :: nat
  t2_signature :: bytes
  t2_signature_valid :: bool
  t2_auth0_page :: nat
  t2_auth0_valid :: bool
  t2_password_protected :: bool

record type4_info =
  t4_cc :: bytes
  t4_cc_len :: nat
  t4_cc_valid :: bool
  t4_mapping_major :: u8
  t4_mapping_minor :: u8
  t4_mle :: nat
  t4_mlc :: nat
  t4_tlv_type :: u8
  t4_tlv_length :: u8
  t4_ndef_file_id :: bytes
  t4_max_ndef_size :: nat
  t4_read_access :: u8
  t4_write_access :: u8
  t4_read_open :: bool
  t4_write_open :: bool

record type5_info =
  t5_dsfid :: u8
  t5_dsfid_valid :: bool
  t5_afi :: u8
  t5_afi_valid :: bool
  t5_block_count :: nat
  t5_block_size :: nat
  t5_ic_ref :: u8
  t5_ic_ref_valid :: bool
  t5_raw :: bytes
  t5_raw_len :: nat
  t5_info_flags :: u8
  t5_cc :: bytes
  t5_cc_len :: nat
  t5_cc_valid :: bool
  t5_mapping_major :: u8
  t5_mapping_minor :: u8
  t5_data_area_size :: nat
  t5_access :: u8
  t5_read_open :: bool
  t5_write_open :: bool

text \<open>\<open>nfc_tag_info_t\<close>: the kind selects the members of the two unions.\<close>

datatype tag_info =
    TagNone
  | TagType2 typea_info type2_info
  | TagType4 typea_info type4_info
  | TagType5 bytes type5_info

text \<open>Zero-initialised records.\<close>

definition type2_zero :: type2_info where
  "type2_zero = \<lparr>t2_version = replicate 8 0, t2_version_len = 0, t2_version_valid = False, t2_vendor_id = 0,
     t2_product_id = 0, t2_subtype_id = 0, t2_size_id = 0, t2_vendor_name = None, t2_product_name = None,
     t2_family = FAMILY_UNKNOWN, t2_cc = replicate 4 0, t2_cc_valid = False, t2_mapping_major = 0,
     t2_mapping_minor = 0, t2_data_area_size = 0, t2_access = 0, t2_read_open = False, t2_write_open = False,
     t2_max_user_page = 0, t2_signature = replicate 32 0, t2_signature_valid = False, t2_auth0_page = 0,
     t2_auth0_valid = False, t2_password_protected = False\<rparr>"

definition type4_zero :: type4_info where
  "type4_zero = \<lparr>t4_cc = replicate 15 0, t4_cc_len = 0, t4_cc_valid = False, t4_mapping_major = 0,
     t4_mapping_minor = 0, t4_mle = 0, t4_mlc = 0, t4_tlv_type = 0, t4_tlv_length = 0, t4_ndef_file_id = [0, 0],
     t4_max_ndef_size = 0, t4_read_access = 0, t4_write_access = 0, t4_read_open = False, t4_write_open = False\<rparr>"

definition type5_zero :: type5_info where
  "type5_zero = \<lparr>t5_dsfid = 0, t5_dsfid_valid = False, t5_afi = 0, t5_afi_valid = False, t5_block_count = 0,
     t5_block_size = 0, t5_ic_ref = 0, t5_ic_ref_valid = False, t5_raw = replicate 16 0, t5_raw_len = 0,
     t5_info_flags = 0, t5_cc = replicate 8 0, t5_cc_len = 0, t5_cc_valid = False, t5_mapping_major = 0,
     t5_mapping_minor = 0, t5_data_area_size = 0, t5_access = 0, t5_read_open = False, t5_write_open = False\<rparr>"

section \<open>Names\<close>

definition nfc_tag_type2_max_user_page_from_size_id :: "u8 \<Rightarrow> nat" where
  "nfc_tag_type2_max_user_page_from_size_id size_id =
     (if size_id = 0x0F then 39 else if size_id = 0x11 then 129 else if size_id = 0x13 then 225 else 0)"

definition nfc_tag_type2_family_name :: "type2_family \<Rightarrow> string option" where
  "nfc_tag_type2_family_name family = (case family of
       FAMILY_UNKNOWN \<Rightarrow> None
     | FAMILY_NTAG21X \<Rightarrow> Some ''NTAG21x''
     | FAMILY_ST25TN \<Rightarrow> Some ''ST25TN-class'')"

definition nfc_tag_iso14443a_manufacturer_name :: "cptr \<Rightarrow> nat \<Rightarrow> string option option" where
  "nfc_tag_iso14443a_manufacturer_name uid uid_len =
     (if uid = None \<or> uid_len = 0 then Some None
      else do {
        m \<leftarrow> nero_nfc_u8_at uid uid_len 0;
        Some (if m = 0x02 then Some ''STMicroelectronics'' else if m = 0x04 then Some ''NXP'' else None)
      })"

definition nfc_tag_iso15693_manufacturer_name :: "cptr \<Rightarrow> nat \<Rightarrow> string option option" where
  "nfc_tag_iso15693_manufacturer_name uid uid_len =
     (if uid = None \<or> uid_len < 2 then Some None
      else do {
        m \<leftarrow> nero_nfc_u8_at uid uid_len 1;
        Some (if m = 0x02 then Some ''STMicroelectronics'' else if m = 0x04 then Some ''NXP'' else None)
      })"

definition nfc_tag_type5_family_name :: "cptr \<Rightarrow> nat \<Rightarrow> type5_info \<Rightarrow> string option option" where
  "nfc_tag_type5_family_name uid uid_len info = do {
     vendor \<leftarrow> nfc_tag_iso15693_manufacturer_name uid uid_len;
     Some (if vendor \<noteq> Some ''STMicroelectronics'' then None
       else if t5_ic_ref_valid info \<and> (t5_ic_ref info = 0x51 \<or> t5_ic_ref info = 0x50) then Some ''ST25DV-class''
       else if t5_block_count info \<noteq> 0 \<and> t5_block_count info \<le> 256 then Some ''ST25TV-class''
       else if t5_block_count info > 256 then Some ''ST25DV-class''
       else Some ''ST25 Type 5-class'')
   }"

section \<open>Type 2\<close>

definition nfc_tag_type2_last_page_from_data_area :: "nat \<Rightarrow> nat" where
  "nfc_tag_type2_last_page_from_data_area data_area_size_bytes =
     (if data_area_size_bytes = 0 then 0
      else u16n (3 + u16n ((data_area_size_bytes + 4 - 1) div 4)))"

definition nfc_tag_type2_clear_cc_info :: "type2_info \<Rightarrow> type2_info" where
  "nfc_tag_type2_clear_cc_info info = info\<lparr>t2_cc := replicate 4 0, t2_cc_valid := False, t2_mapping_major := 0,
     t2_mapping_minor := 0, t2_data_area_size := 0, t2_access := 0, t2_read_open := False, t2_write_open := False\<rparr>"

definition nfc_tag_type2_apply_family_hint :: "type2_info \<Rightarrow> type2_family \<Rightarrow> type2_info" where
  "nfc_tag_type2_apply_family_hint info family =
     (let info = info\<lparr>t2_family := family\<rparr> in
      if family = FAMILY_ST25TN then
        let cc_last_page = nfc_tag_type2_last_page_from_data_area (t2_data_area_size info);
            info = info\<lparr>t2_vendor_name := Some ''STMicroelectronics'', t2_product_name :=
              Some (if t2_data_area_size info = 64 then ''ST25TN512''
                    else if t2_data_area_size info = 160 then ''ST25TN01K'' else ''ST25TN-class'')\<rparr>
        in if cc_last_page \<noteq> 0 then info\<lparr>t2_max_user_page := (if cc_last_page > 43 then 43 else cc_last_page)\<rparr>
           else if t2_max_user_page info = 0 then info\<lparr>t2_max_user_page := 19\<rparr>
           else info
      else info)"

definition nfc_tag_type2_apply_version :: "type2_info \<Rightarrow> cptr \<Rightarrow> nat \<Rightarrow> type2_info option" where
  "nfc_tag_type2_apply_version info version version_len =
     (if version = None \<or> version_len = 0 then Some info
      else do {
        let n = (if version_len > 8 then 8 else version_len);
        (ok, v) \<leftarrow> nero_nfc_copy_bytes (Some (t2_version info)) 8 0 version n;
        let info = info\<lparr>t2_version := the v, t2_version_valid := ok, t2_version_len := n\<rparr>;
        if n < 8 then Some info
        else do {
          b0 \<leftarrow> nero_nfc_u8_at v 8 0;
          vendor \<leftarrow> nero_nfc_u8_at v 8 1;
          product \<leftarrow> nero_nfc_u8_at v 8 2;
          subtype \<leftarrow> nero_nfc_u8_at v 8 3;
          sz \<leftarrow> nero_nfc_u8_at v 8 6;
          proto \<leftarrow> nero_nfc_u8_at v 8 7;
          let info = info\<lparr>t2_vendor_id := vendor, t2_product_id := product, t2_subtype_id := subtype, t2_size_id := sz\<rparr>;
          let info = (if vendor = 0x04 then info\<lparr>t2_vendor_name := Some ''NXP''\<rparr> else info);
          Some (if b0 = 0x00 \<and> product = 0x04 \<and> subtype = 0x02 \<and> proto = 0x03
            then info\<lparr>t2_family := FAMILY_NTAG21X,
              t2_product_name := Some (if sz = 0x13 then ''NTAG216'' else if sz = 0x11 then ''NTAG215''
                else if sz = 0x0F then ''NTAG213'' else ''NTAG21x''),
              t2_max_user_page := nfc_tag_type2_max_user_page_from_size_id sz\<rparr>
            else info)
        }
      })"

definition nfc_tag_type2_apply_cc :: "type2_info \<Rightarrow> cptr \<Rightarrow> nat \<Rightarrow> type2_info option" where
  "nfc_tag_type2_apply_cc info cc cc_len =
     (let info = nfc_tag_type2_clear_cc_info info in
      if cc = None \<or> cc_len < 4 then Some info
      else do {
        magic \<leftarrow> nero_nfc_u8_at cc cc_len 0;
        if magic \<noteq> 0xE1 then Some info
        else do {
          (ok, new_cc) \<leftarrow> nero_nfc_copy_bytes (Some (t2_cc info)) 4 0 cc 4;
          if \<not> ok then Some info
          else do {
            ver \<leftarrow> nero_nfc_u8_at cc cc_len 1;
            mlen \<leftarrow> nero_nfc_u8_at cc cc_len 2;
            acc \<leftarrow> nero_nfc_u8_at cc cc_len 3;
            Some (info\<lparr>t2_cc := the new_cc, t2_cc_valid := True, t2_mapping_major := drop_bit 4 ver,
              t2_mapping_minor := ver AND 0x0F, t2_data_area_size := u16n (unat mlen * 8), t2_access := acc,
              t2_read_open := (acc AND 0xF0 = 0), t2_write_open := (acc AND 0x0F = 0)\<rparr>)
          }
        }
      })"

definition nfc_tag_type2_apply_signature :: "type2_info \<Rightarrow> cptr \<Rightarrow> nat \<Rightarrow> type2_info option" where
  "nfc_tag_type2_apply_signature info sig sig_len =
     (if sig = None \<or> sig_len < 32 then Some info
      else do {
        (ok, s) \<leftarrow> nero_nfc_copy_bytes (Some (t2_signature info)) 32 0 sig 32;
        Some (if \<not> ok then info else info\<lparr>t2_signature := the s, t2_signature_valid := True\<rparr>)
      })"

definition nfc_tag_type2_apply_auth0 :: "type2_info \<Rightarrow> u8 \<Rightarrow> type2_info" where
  "nfc_tag_type2_apply_auth0 info auth0_page = info\<lparr>t2_auth0_page := unat auth0_page, t2_auth0_valid := True,
     t2_password_protected := (auth0_page \<noteq> 0xFF \<and>
       (t2_max_user_page info = 0 \<or> unat auth0_page \<le> t2_max_user_page info))\<rparr>"

section \<open>Type 4\<close>

definition nfc_tag_type4_apply_cc :: "cptr \<Rightarrow> nat \<Rightarrow> (bool \<times> type4_info) option" where
  "nfc_tag_type4_apply_cc cc cc_len =
     (if cc = None \<or> cc_len < 15 then Some (False, type4_zero)
      else do {
        l1 \<leftarrow> nero_nfc_u8_at cc cc_len 0;
        l0 \<leftarrow> nero_nfc_u8_at cc cc_len 1;
        e1 \<leftarrow> nero_nfc_u8_at cc cc_len 3;
        e0 \<leftarrow> nero_nfc_u8_at cc cc_len 4;
        c1 \<leftarrow> nero_nfc_u8_at cc cc_len 5;
        c0 \<leftarrow> nero_nfc_u8_at cc cc_len 6;
        tag \<leftarrow> nero_nfc_u8_at cc cc_len 7;
        tlen \<leftarrow> nero_nfc_u8_at cc cc_len 8;
        let declared_len = be16 l1 l0;
        let mle = be16 e1 e0;
        let mlc = be16 c1 c0;
        if declared_len < 15 \<or> declared_len > cc_len \<or> tag \<noteq> 0x04 \<or> tlen \<noteq> 0x06 \<or> mle < 0x000F \<or> mlc < 0x0001
        then Some (False, type4_zero)
        else do {
          (ok, new_cc) \<leftarrow> nero_nfc_copy_bytes (Some (t4_cc type4_zero)) 15 0 cc 15;
          if \<not> ok then Some (False, type4_zero)
          else do {
            ver \<leftarrow> nero_nfc_u8_at cc cc_len 2;
            f1 \<leftarrow> nero_nfc_u8_at cc cc_len 9;
            f0 \<leftarrow> nero_nfc_u8_at cc cc_len 10;
            s1 \<leftarrow> nero_nfc_u8_at cc cc_len 11;
            s0 \<leftarrow> nero_nfc_u8_at cc cc_len 12;
            ra \<leftarrow> nero_nfc_u8_at cc cc_len 13;
            wa \<leftarrow> nero_nfc_u8_at cc cc_len 14;
            Some (True, type4_zero\<lparr>t4_cc := the new_cc, t4_cc_len := 15, t4_cc_valid := True,
              t4_mapping_major := drop_bit 4 ver, t4_mapping_minor := ver AND 0x0F, t4_mle := mle, t4_mlc := mlc,
              t4_tlv_type := tag, t4_tlv_length := tlen, t4_ndef_file_id := [f1, f0], t4_max_ndef_size := be16 s1 s0,
              t4_read_access := ra, t4_write_access := wa, t4_read_open := (ra = 0), t4_write_open := (wa = 0)\<rparr>)
          }
        }
      })"

section \<open>Type 5\<close>

definition nfc_tag_type5_clear_cc_info :: "type5_info \<Rightarrow> type5_info" where
  "nfc_tag_type5_clear_cc_info info = info\<lparr>t5_cc := replicate 8 0, t5_cc_len := 0, t5_cc_valid := False,
     t5_mapping_major := 0, t5_mapping_minor := 0, t5_data_area_size := 0, t5_access := 0,
     t5_read_open := False, t5_write_open := False\<rparr>"

definition nfc_tag_type5_clear_system_info :: "type5_info \<Rightarrow> type5_info" where
  "nfc_tag_type5_clear_system_info info = info\<lparr>t5_dsfid := 0, t5_dsfid_valid := False, t5_afi := 0,
     t5_afi_valid := False, t5_block_count := 0, t5_block_size := 0, t5_ic_ref := 0, t5_ic_ref_valid := False,
     t5_raw := replicate 16 0, t5_raw_len := 0, t5_info_flags := 0\<rparr>"

definition nfc_tag_type5_apply_cc :: "type5_info \<Rightarrow> cptr \<Rightarrow> nat \<Rightarrow> type5_info option" where
  "nfc_tag_type5_apply_cc info cc cc_len =
     (let info = nfc_tag_type5_clear_cc_info info in
      if cc = None \<or> cc_len < 4 then Some info
      else do {
        magic \<leftarrow> nero_nfc_u8_at cc cc_len 0;
        if magic \<noteq> 0xE1 \<and> magic \<noteq> 0xE2 then Some info
        else do {
          mlen \<leftarrow> nero_nfc_u8_at cc cc_len 2;
          if mlen = 0 \<and> cc_len < 8 then Some info
          else do {
            (cc_bytes, size_units) \<leftarrow> (if mlen \<noteq> 0 then Some (4, unat mlen)
              else do {
                hi \<leftarrow> nero_nfc_u8_at cc cc_len 6;
                lo \<leftarrow> nero_nfc_u8_at cc cc_len 7;
                Some (8, be16 hi lo)
              });
            if size_units = 0 \<or> size_units > 65535 div 8 then Some info
            else do {
              (ok, new_cc) \<leftarrow> nero_nfc_copy_bytes (Some (t5_cc info)) 8 0 cc cc_bytes;
              if \<not> ok then Some info
              else do {
                ver \<leftarrow> nero_nfc_u8_at cc cc_len 1;
                Some (info\<lparr>t5_cc := the new_cc, t5_cc_len := cc_bytes, t5_mapping_major := drop_bit 6 ver,
                  t5_mapping_minor := drop_bit 4 ver AND 0x03, t5_access := ver AND 0x0F,
                  t5_read_open := (ver AND 0x0C = 0), t5_write_open := (ver AND 0x03 = 0),
                  t5_cc_valid := True, t5_data_area_size := u16n (size_units * 8)\<rparr>)
              }
            }
          }
        }
      })"

text \<open>The raw reply kept in the record, and the optional fields behind the UID.\<close>

definition system_info_raw :: "type5_info \<Rightarrow> cptr \<Rightarrow> nat \<Rightarrow> (bool \<times> type5_info) option" where
  "system_info_raw info raw raw_len = do {
     let n = (if raw_len > 16 then 16 else raw_len);
     (ok, new) \<leftarrow> nero_nfc_copy_bytes (Some (t5_raw info)) 16 0 raw n;
     if \<not> ok then Some (False, info)
     else do {
       flags \<leftarrow> nero_nfc_u8_at raw raw_len 1;
       Some (True, info\<lparr>t5_raw := the new, t5_raw_len := n, t5_info_flags := flags\<rparr>)
     }
   }"

definition system_info_ids :: "type5_info \<Rightarrow> cptr \<Rightarrow> nat \<Rightarrow> u8 \<Rightarrow> nat \<Rightarrow> (type5_info \<times> nat) option" where
  "system_info_ids info raw raw_len flags pos = do {
     (info, pos) \<leftarrow> (if flags AND 0x01 \<noteq> 0 \<and> pos < raw_len then do {
         b \<leftarrow> nero_nfc_u8_at raw raw_len pos;
         Some (info\<lparr>t5_dsfid := b, t5_dsfid_valid := True\<rparr>, u8n (pos + 1))
       } else Some (info, pos));
     (if flags AND 0x02 \<noteq> 0 \<and> pos < raw_len then do {
         b \<leftarrow> nero_nfc_u8_at raw raw_len pos;
         Some (info\<lparr>t5_afi := b, t5_afi_valid := True\<rparr>, u8n (pos + 1))
       } else Some (info, pos))
   }"

definition system_info_ic :: "type5_info \<Rightarrow> cptr \<Rightarrow> nat \<Rightarrow> u8 \<Rightarrow> nat \<Rightarrow> type5_info option" where
  "system_info_ic info raw raw_len flags pos =
     (if flags AND 0x08 \<noteq> 0 \<and> pos < raw_len then do {
        b \<leftarrow> nero_nfc_u8_at raw raw_len pos;
        Some (info\<lparr>t5_ic_ref := b, t5_ic_ref_valid := True\<rparr>)
      } else Some info)"

definition nfc_tag_type5_apply_system_info :: "type5_info \<Rightarrow> cptr \<Rightarrow> nat \<Rightarrow> type5_info option" where
  "nfc_tag_type5_apply_system_info info raw raw_len =
     (let info = nfc_tag_type5_clear_system_info info in
      if raw = None \<or> raw_len < 2 then Some info
      else do {
        (ok, info) \<leftarrow> system_info_raw info raw raw_len;
        if \<not> ok then Some info
        else do {
          let flags = t5_info_flags info;
          (info, pos) \<leftarrow> system_info_ids info raw raw_len flags (2 + 8);
          (info, pos) \<leftarrow> (if flags AND 0x04 \<noteq> 0 \<and> u16n (pos + 2) \<le> raw_len then do {
              nb \<leftarrow> nero_nfc_u8_at raw raw_len pos;
              bs \<leftarrow> nero_nfc_u8_at raw raw_len (pos + 1);
              Some (info\<lparr>t5_block_count := unat nb + 1, t5_block_size := unat (bs AND 0x1F) + 1\<rparr>, u8n (pos + 2))
            } else Some (info, pos));
          system_info_ic info raw raw_len flags pos
        }
      })"

definition nfc_tag_type5_apply_system_info_ext :: "type5_info \<Rightarrow> cptr \<Rightarrow> nat \<Rightarrow> type5_info option" where
  "nfc_tag_type5_apply_system_info_ext info raw raw_len =
     (let info = nfc_tag_type5_clear_system_info info in
      if raw = None \<or> raw_len < 10 then Some info
      else do {
        (ok, info) \<leftarrow> system_info_raw info raw raw_len;
        if \<not> ok then Some info
        else do {
          let flags = t5_info_flags info;
          (info, pos) \<leftarrow> system_info_ids info raw raw_len flags (2 + 8);
          (info, pos) \<leftarrow> (if flags AND 0x04 \<noteq> 0 \<and> u16n (pos + 3) \<le> raw_len then do {
              lo \<leftarrow> nero_nfc_u8_at raw raw_len pos;
              hi \<leftarrow> nero_nfc_u8_at raw raw_len (pos + 1);
              bs \<leftarrow> nero_nfc_u8_at raw raw_len (pos + 2);
              let nb = be16 hi lo + 1;
              Some (info\<lparr>t5_block_count := (if nb > UINT16_MAX then UINT16_MAX else nb),
                t5_block_size := unat (bs AND 0x1F) + 1\<rparr>, u8n (pos + 3))
            } else Some (info, pos));
          system_info_ic info raw raw_len flags pos
        }
      })"

definition nfc_tag_type5_cc_signals_mlen_overflow :: "type5_info \<Rightarrow> bool" where
  "nfc_tag_type5_cc_signals_mlen_overflow info \<longleftrightarrow> t5_cc_valid info \<and> t5_cc_len info = 4 \<and>
     t5_cc info ! 2 = 0xFF \<and> t5_cc info ! 3 AND 0x04 \<noteq> 0"

definition nfc_tag_type5_resolve_mlen_overflow :: "type5_info \<Rightarrow> type5_info" where
  "nfc_tag_type5_resolve_mlen_overflow info =
     (if \<not> t5_cc_valid info then info
      else if \<not> nfc_tag_type5_cc_signals_mlen_overflow info then info
      else if t5_block_count info = 0 \<or> t5_block_size info = 0 then info
      else
        let total_bytes = t5_block_count info * t5_block_size info in
        if total_bytes \<le> t5_cc_len info then info
        else info\<lparr>t5_data_area_size :=
          (if total_bytes - t5_cc_len info > UINT16_MAX then UINT16_MAX else total_bytes - t5_cc_len info)\<rparr>)"

text \<open>The arrays of the records keep their sizes; the code reads \<open>cc[2]\<close> and \<open>cc[3]\<close> inside them.\<close>

end
