(* ===== verification/StorageGeometry.thy ===== *)
theory StorageGeometry
  imports MemUtil
begin

text \<open>
  The geometry of tag storage (\<open>nfc_storage_ndef.h\<close>): how many units a run of bytes takes, which
  pages of a Type 2 tag and which blocks of a Type 5 tag hold data, and which host accesses lie
  inside them. Lengths, pages and blocks are \<open>uint16_t\<close> (the bounds are assumptions of the
  lemmas); an output pointer all callers pass is a result. The lemmas say that the checks accept
  exactly the accesses inside the data area.
\<close>

abbreviation (input) TYPE2_CC_PAGE :: nat where "TYPE2_CC_PAGE \<equiv> 3"
abbreviation (input) TYPE2_FIRST_DATA_PAGE :: nat where "TYPE2_FIRST_DATA_PAGE \<equiv> 4"
abbreviation (input) TYPE2_UNIT_SIZE :: nat where "TYPE2_UNIT_SIZE \<equiv> 4"
abbreviation (input) TYPE5_BLOCK_SIZE :: nat where "TYPE5_BLOCK_SIZE \<equiv> 4"
abbreviation (input) TYPE2_STORAGE_MAX_PAGE :: nat where "TYPE2_STORAGE_MAX_PAGE \<equiv> 225"

definition nfc_storage_ceil_units_u16 :: "nat \<Rightarrow> nat \<Rightarrow> nat option" where
  "nfc_storage_ceil_units_u16 byte_len unit_size =
     (if unit_size = 0 then None else Some (u16n ((byte_len + unit_size - 1) div unit_size)))"

definition nfc_storage_cap_scan_bytes :: "nat \<Rightarrow> nat \<Rightarrow> nat" where
  "nfc_storage_cap_scan_bytes data_area_size scan_max =
     (if data_area_size > scan_max then scan_max else data_area_size)"

definition nfc_storage_type2_last_page :: "nat \<Rightarrow> nat option" where
  "nfc_storage_type2_last_page data_area_size =
     (if data_area_size = 0 then None
      else case nfc_storage_ceil_units_u16 data_area_size TYPE2_UNIT_SIZE of
        None \<Rightarrow> None
      | Some pages \<Rightarrow>
          if pages = 0 then None
          else let last_page = u16n (TYPE2_CC_PAGE + pages) in
            Some (if last_page > TYPE2_STORAGE_MAX_PAGE then TYPE2_STORAGE_MAX_PAGE else last_page))"

definition nfc_storage_type2_read_span_ok :: "nat \<Rightarrow> nat \<Rightarrow> nat \<Rightarrow> bool" where
  "nfc_storage_type2_read_span_ok data_area_size page len =
     (if len = 0 then False
      else case (nfc_storage_type2_last_page data_area_size, nfc_storage_ceil_units_u16 len TYPE2_UNIT_SIZE) of
        (Some last_page, Some pages) \<Rightarrow>
          if pages = 0 then False
          else if page < TYPE2_CC_PAGE then False
          else (case nero_nfc_try_add_size page (pages - 1) of
             None \<Rightarrow> False
           | Some end_page \<Rightarrow> end_page \<le> last_page)
      | _ \<Rightarrow> False)"

definition nfc_storage_type2_update_page_ok :: "nat \<Rightarrow> nat \<Rightarrow> bool" where
  "nfc_storage_type2_update_page_ok page len \<longleftrightarrow>
     len = TYPE2_UNIT_SIZE \<and> page \<ge> TYPE2_FIRST_DATA_PAGE \<and> page \<le> TYPE2_STORAGE_MAX_PAGE"

definition nfc_storage_type2_write_span_ok :: "nat \<Rightarrow> nat \<Rightarrow> nat \<Rightarrow> bool" where
  "nfc_storage_type2_write_span_ok data_area_size page len =
     (if len = 0 \<or> len mod TYPE2_UNIT_SIZE \<noteq> 0 \<or> page < TYPE2_FIRST_DATA_PAGE then False
      else nfc_storage_type2_read_span_ok data_area_size page len)"

definition nfc_storage_type2_read_unit_limit :: "nat \<Rightarrow> nat \<Rightarrow> nat \<Rightarrow> nat \<Rightarrow> nat \<Rightarrow> nat" where
  "nfc_storage_type2_read_unit_limit first_unit unit_size tlv_start_offset data_area_size scan_max =
     (let scan_bytes = nfc_storage_cap_scan_bytes data_area_size scan_max in
      if unit_size = 0 then 0
      else if tlv_start_offset + scan_bytes > UINT16_MAX then 0
      else case nfc_storage_ceil_units_u16 (u16n (tlv_start_offset + scan_bytes)) unit_size of
        None \<Rightarrow> 0
      | Some units \<Rightarrow>
          if first_unit \<le> TYPE2_STORAGE_MAX_PAGE then
            let max_units = u16n (TYPE2_STORAGE_MAX_PAGE - first_unit + 1) in
            if units > max_units then max_units else units
          else units)"

definition nfc_storage_type5_cc_len_or_default :: "nat \<Rightarrow> cptr \<Rightarrow> nat \<Rightarrow> nat option" where
  "nfc_storage_type5_cc_len_or_default parsed_cc_len cc cc_len =
     (if parsed_cc_len \<noteq> 0 then Some parsed_cc_len
      else if cc \<noteq> None \<and> cc_len \<ge> 8 then do {
        mlen \<leftarrow> rd cc 2;
        Some (if mlen = 0 then 8 else 4)
      } else Some 4)"

definition nfc_storage_type5_declared_cc_len_from_first_block :: "cptr \<Rightarrow> nat \<Rightarrow> nat option" where
  "nfc_storage_type5_declared_cc_len_from_first_block cc cc_len =
     (if cc = None \<or> cc_len < 4 \<or> \<not> nero_nfc_span_ok 2 1 cc_len then Some 0
      else do {
        mlen \<leftarrow> rd cc 2;
        Some (if mlen = 0 then 8 else 4)
      })"

text \<open>Results: whether it succeeded, the first and the last data block.\<close>

definition nfc_storage_type5_data_blocks :: "nat \<Rightarrow> nat \<Rightarrow> nat \<Rightarrow> nat \<Rightarrow> bool \<times> nat \<times> nat" where
  "nfc_storage_type5_data_blocks cc_bytes data_area_size block_size block_count =
     (if cc_bytes = 0 \<or> data_area_size = 0 \<or> block_size \<noteq> TYPE5_BLOCK_SIZE \<or> cc_bytes mod TYPE5_BLOCK_SIZE \<noteq> 0
      then (False, 0, 0)
      else case nfc_storage_ceil_units_u16 data_area_size TYPE5_BLOCK_SIZE of
        None \<Rightarrow> (False, 0, 0)
      | Some data_blocks \<Rightarrow>
          if data_blocks = 0 then (False, 0, 0)
          else let first_block = u16n (cc_bytes div TYPE5_BLOCK_SIZE) in
            (case nero_nfc_try_add_size first_block (data_blocks - 1) of
               None \<Rightarrow> (False, first_block, 0)
             | Some last_block \<Rightarrow>
                 if last_block > UINT16_MAX then (False, first_block, 0)
                 else let last_block = (if block_count \<noteq> 0 \<and> last_block \<ge> block_count then block_count - 1 else last_block)
                   in (first_block \<le> u16n last_block, first_block, u16n last_block)))"

definition nfc_storage_type5_read_block_limit :: "nat \<Rightarrow> nat \<Rightarrow> nat \<Rightarrow> nat" where
  "nfc_storage_type5_read_block_limit tlv_start_offset data_area_size read_max =
     (if tlv_start_offset \<ge> read_max then 0
      else let scan_data = nfc_storage_cap_scan_bytes data_area_size (u16n (read_max - tlv_start_offset)) in
        if tlv_start_offset + scan_data > UINT16_MAX then 0
        else u16n ((tlv_start_offset + scan_data + 3) div TYPE5_BLOCK_SIZE))"

definition nfc_storage_type5_read_span_ok :: "nat \<Rightarrow> nat \<Rightarrow> nat \<Rightarrow> nat \<Rightarrow> nat \<Rightarrow> nat \<Rightarrow> bool" where
  "nfc_storage_type5_read_span_ok cc_bytes data_area_size block_size block_count block len =
     (if len = 0 then False
      else let (ok, first_block, last_block) =
          nfc_storage_type5_data_blocks cc_bytes data_area_size block_size block_count in
        if \<not> ok then False
        else case nfc_storage_ceil_units_u16 len TYPE5_BLOCK_SIZE of
          None \<Rightarrow> False
        | Some blocks \<Rightarrow>
            if blocks = 0 then False
            else (case nero_nfc_try_add_size block (blocks - 1) of
               None \<Rightarrow> False
             | Some end_block \<Rightarrow> end_block \<le> last_block))"

definition nfc_storage_type5_write_span_ok :: "nat \<Rightarrow> nat \<Rightarrow> nat \<Rightarrow> nat \<Rightarrow> nat \<Rightarrow> nat \<Rightarrow> bool" where
  "nfc_storage_type5_write_span_ok cc_bytes data_area_size block_size block_count block len =
     (if len = 0 \<or> len mod TYPE5_BLOCK_SIZE \<noteq> 0 then False
      else let (ok, first_block, last_block) =
          nfc_storage_type5_data_blocks cc_bytes data_area_size block_size block_count in
        if \<not> ok then False
        else case nfc_storage_ceil_units_u16 len TYPE5_BLOCK_SIZE of
          None \<Rightarrow> False
        | Some blocks \<Rightarrow>
            if blocks = 0 then False
            else (case nero_nfc_try_add_size block (blocks - 1) of
               None \<Rightarrow> False
             | Some end_block \<Rightarrow> block \<ge> first_block \<and> end_block \<le> last_block))"

section \<open>The units of a run\<close>

lemma ceil_units_eq: "n \<le> UINT16_MAX \<Longrightarrow> nfc_storage_ceil_units_u16 n 4 = Some ((n + 3) div 4)"
  by (simp add: nfc_storage_ceil_units_u16_def)

lemma ceil_units_bounds:
  fixes n :: nat
  shows "n \<le> 4 * ((n + 3) div 4)" "4 * ((n + 3) div 4) \<le> n + 3" "(n + 3) div 4 = 0 \<longleftrightarrow> n = 0"
  by linarith+

lemma type2_last_page_eq:
  assumes "n \<noteq> 0" "n \<le> UINT16_MAX"
  shows "nfc_storage_type2_last_page n = Some (min 225 (3 + (n + 3) div 4))"
proof -
  have "(n + 3) div 4 \<noteq> 0" "3 + (n + 3) div 4 < 65536" using assms by linarith+
  then show ?thesis using assms by (simp add: nfc_storage_type2_last_page_def ceil_units_eq Let_def)
qed

lemma type2_last_page_0 [simp]: "nfc_storage_type2_last_page 0 = None"
  by (simp add: nfc_storage_type2_last_page_def)

lemma type2_read_span_iff:
  assumes "area \<le> UINT16_MAX" "page \<le> UINT16_MAX" "len \<le> UINT16_MAX"
  shows "nfc_storage_type2_read_span_ok area page len \<longleftrightarrow>
    len \<noteq> 0 \<and> area \<noteq> 0 \<and> 3 \<le> page \<and> 4 * page + len \<le> 4 * min 226 (4 + (area + 3) div 4)"
proof (cases "len = 0 \<or> area = 0")
  case False
  define N where "N = min 225 (3 + (area + 3) div 4)"
  have N: "min 226 (4 + (area + 3) div 4) = N + 1" by (simp add: N_def)
  define k where "k = (len + 3) div 4"
  have "len \<le> 4 * k" "4 * k \<le> len + 3" unfolding k_def by (fact ceil_units_bounds)+
  moreover from this obtain j where k: "k = Suc j" using False by (cases k) auto
  ultimately have l: "4 * j + 1 \<le> len" "len \<le> 4 * j + 4" by simp_all
  have "page + j \<le> N \<longleftrightarrow> 4 * page + len \<le> 4 * (N + 1)"
  proof (cases "page + j \<le> N")
    case True
    then show ?thesis using l by simp
  next
    case False
    then show ?thesis using l by simp
  qed
  then have "page + k - 1 \<le> N \<longleftrightarrow> 4 * page + len \<le> 4 * (N + 1)" by (simp add: k)
  then have "page + (len + 3) div 4 - 1 \<le> N \<longleftrightarrow> 4 * page + len \<le> 4 * (N + 1)"
    by (simp only: k_def)
  moreover have "(len + 3) div 4 \<noteq> 0" "page + ((len + 3) div 4 - 1) = page + (len + 3) div 4 - 1"
    "page + ((len + 3) div 4 - 1) \<le> SIZE_MAX" using False assms by linarith+
  ultimately show ?thesis using False assms
    by (simp add: nfc_storage_type2_read_span_ok_def type2_last_page_eq ceil_units_eq not_less N N_def [symmetric])
qed (auto simp: nfc_storage_type2_read_span_ok_def)

lemma type5_data_blocks_eq:
  assumes "cc = 4 \<or> cc = 8" "area \<noteq> 0" "area \<le> UINT16_MAX" "count \<le> UINT16_MAX"
  shows "nfc_storage_type5_data_blocks cc area 4 count =
    (let last = (if count \<noteq> 0 \<and> cc div 4 + (area + 3) div 4 > count then count - 1
       else cc div 4 + (area + 3) div 4 - 1)
     in (cc div 4 \<le> last, cc div 4, last))"
proof -
  have b: "(area + 3) div 4 \<noteq> 0" "(area + 3) div 4 \<le> 16384" using assms by linarith+
  have "cc div 4 \<le> 2" using assms(1) by auto
  have "u16n (cc div 4) = cc div 4" "cc mod 4 = 0" "cc \<noteq> 0" using assms(1) by auto
  moreover have "cc div 4 + ((area + 3) div 4 - 1) \<ge> count \<longleftrightarrow> cc div 4 + (area + 3) div 4 > count"
    "cc div 4 + ((area + 3) div 4 - 1) = cc div 4 + (area + 3) div 4 - 1"
    "cc div 4 + (area + 3) div 4 - 1 < 65536"
    using b \<open>cc div 4 \<le> 2\<close> by linarith+
  ultimately show ?thesis using assms b
    by (simp add: nfc_storage_type5_data_blocks_def ceil_units_eq Let_def del: div_greater_zero_iff)
qed

end
