(* ===== verification/TagStorage.thy ===== *)
theory TagStorage
  imports StorageGeometry NdefTlv
begin

text \<open>
  Writing a message block to a tag unit by unit (\<open>reader_tags_write_storage_tlv_units\<close> in
  \<open>reader_tags.c\<close>), with the unit writer as an argument, and the interface between this client
  and the tag types: \<open>unit_writer\<close> says that a unit writer returns, \<open>unit_memory\<close> that it stores
  the unit, \<open>unit_storage\<close> that a run of units can be read back.
\<close>

section \<open>The writer\<close>

type_synonym 'w write_unit = "'w \<Rightarrow> nat \<Rightarrow> cptr \<Rightarrow> nat \<Rightarrow> ('w \<times> bool) option"

fun write_units_loop :: "'w write_unit \<Rightarrow> cptr \<Rightarrow> nat \<Rightarrow> nat \<Rightarrow> nat \<Rightarrow> nat \<Rightarrow> nat \<Rightarrow> 'w \<Rightarrow> ('w \<times> bool) option" where
  "write_units_loop write_unit tlv tlv_len first_unit unit_size unit_index 0 w = Some (w, True)"
| "write_units_loop write_unit tlv tlv_len first_unit unit_size unit_index (Suc n) w = do {
     let off = u16n (unit_index * unit_size);
     let left = u16n (tlv_len - off);
     let chunk = (if left > unit_size then unit_size else left);
     let unit_no = u16n (first_unit + unit_index);
     (ok, unit_data) \<leftarrow> (if chunk \<noteq> 0 then nero_nfc_copy_bytes (Some [0, 0, 0, 0]) 4 0 (ptr_add tlv off) chunk
       else Some (True, Some [0, 0, 0, 0]));
     if \<not> ok then Some (w, False)
     else do {
       (w, ok) \<leftarrow> write_unit w unit_no unit_data unit_size;
       if \<not> ok then Some (w, False)
       else write_units_loop write_unit tlv tlv_len first_unit unit_size (unit_index + 1) n w
     }
   }"

definition reader_tags_write_storage_tlv_units ::
    "cptr \<Rightarrow> nat \<Rightarrow> nat \<Rightarrow> nat \<Rightarrow> 'w write_unit \<Rightarrow> 'w \<Rightarrow> ('w \<times> bool) option" where
  "reader_tags_write_storage_tlv_units tlv tlv_len first_unit unit_size write_unit w =
     (if tlv = None \<or> unit_size = 0 \<or> unit_size > 4 then Some (w, False)
      else case nfc_storage_ceil_units_u16 tlv_len unit_size of
        None \<Rightarrow> Some (w, False)
      | Some units_needed \<Rightarrow>
          if units_needed = 0 then Some (w, False)
          else write_units_loop write_unit tlv tlv_len first_unit unit_size 0 units_needed w)"

text \<open>
  The end of both load functions: the message of the bytes read is copied to the caller.
\<close>

definition deliver_message :: "'w \<Rightarrow> cptr \<Rightarrow> nat \<Rightarrow> nat \<Rightarrow> cptr \<Rightarrow> nat \<Rightarrow> ('w \<times> int \<times> cptr) option" where
  "deliver_message w raw got start dst dst_cap = do {
     (status, tlv) \<leftarrow> nfc_ndef_find_message_tlv raw got start;
     if status \<noteq> TLV_OK then Some (w, -1, dst)
     else if value_len tlv > dst_cap then Some (w, -1, dst)
     else if value_len tlv = 0 then Some (w, 0, dst)
     else do {
       (ok, dst) \<leftarrow> nero_nfc_copy_bytes dst dst_cap 0 (ptr_add raw (value_offset tlv)) (value_len tlv);
       Some (w, if \<not> ok then -1 else int (value_len tlv), dst)
     }
   }"

section \<open>The interface\<close>

locale unit_writer =
  fixes write_unit :: "'w write_unit" and inv :: "'w \<Rightarrow> bool"
  assumes write_returns: "inv w \<Longrightarrow> length d = 4 \<Longrightarrow> \<exists>w' ok. write_unit w u (Some d) 4 = Some (w', ok) \<and> inv w'"

locale unit_memory =
  fixes write_unit :: "'w write_unit" and inv :: "'w \<Rightarrow> bool" and mem :: "'w \<Rightarrow> bytes list" and lo hi :: nat
  assumes write_stores: "inv w \<Longrightarrow> length d = 4 \<Longrightarrow> lo \<le> u \<Longrightarrow> u < hi \<Longrightarrow>
      \<exists>w'. write_unit w u (Some d) 4 = Some (w', True) \<and> inv w' \<and> mem w' = (mem w)[u := d]"
    and mem_units: "inv w \<Longrightarrow> length (mem w) = hi \<and> (\<forall>d\<in>set (mem w). length d = 4)"

locale unit_storage = unit_memory +
  fixes read_run :: "'w \<Rightarrow> nat \<Rightarrow> cptr \<Rightarrow> nat \<Rightarrow> ('w \<times> int \<times> cptr) option"
  assumes read_loads: "inv w \<Longrightarrow> 0 < n \<Longrightarrow> n \<le> length buf \<Longrightarrow> length buf < 65536 \<Longrightarrow> 4 * first + n \<le> 4 * hi \<Longrightarrow>
      \<exists>w'. read_run w first (Some buf) n =
        Some (w', int n, Some (patch buf 0 (take n (concat (drop first (mem w)))))) \<and> mem w' = mem w"

text \<open>Unit \<open>j\<close> of a run of \<open>L\<close> bytes, padded with zeros.\<close>

definition unit_of :: "bytes \<Rightarrow> nat \<Rightarrow> nat \<Rightarrow> bytes" where
  "unit_of tlv L j = take 4 (take (L - 4 * j) (drop (4 * j) tlv) @ replicate 4 0)"

lemma length_unit_of [simp]: "length (unit_of tlv L j) = 4"
  by (simp add: unit_of_def)

lemma unit_data_eq:
  assumes "L \<le> length tlv" "length tlv < 65536" "4 * i < L"
  shows "nero_nfc_copy_bytes (Some [0, 0, 0, 0]) 4 0 (ptr_add (Some tlv) (u16n (i * 4))) (min 4 (u16n (L - u16n (i * 4)))) =
    Some (True, Some (unit_of tlv L i))"
proof -
  have u: "u16n (i * 4) = 4 * i" "u16n (L - 4 * i) = L - 4 * i" using assms by simp_all
  let ?k = "min 4 (L - 4 * i)"
  have "patch [0, 0, 0, 0] 0 (take ?k (drop (4 * i) tlv)) = unit_of tlv L i"
  proof (cases "4 \<le> L - 4 * i")
    case True
    have l: "4 \<le> length tlv - 4 * i" using True assms by linarith
    have k: "min 4 (L - 4 * i) = 4" using True by simp
    show ?thesis unfolding k unit_of_def using True l by (simp add: min.absorb1 patch_def)
  next
    case False
    define m where "m = L - 4 * i"
    have m: "m = 1 \<or> m = 2 \<or> m = 3" using False assms(3) unfolding m_def by linarith
    have l: "length (take m (drop (4 * i) tlv)) = m" using assms unfolding m_def by simp
    show ?thesis using m l unfolding unit_of_def m_def [symmetric]
      by (auto simp: patch_def numeral_eq_Suc)
  qed
  then show ?thesis unfolding u using assms by simp
qed

lemma write_units_step:
  assumes "L \<le> length tlv" "length tlv < 65536" "4 * i < L" "first + i < 65536"
  shows "write_units_loop write_unit (Some tlv) L first 4 i (Suc k) w = do {
      (w, ok) \<leftarrow> write_unit w (first + i) (Some (unit_of tlv L i)) 4;
      if \<not> ok then Some (w, False) else write_units_loop write_unit (Some tlv) L first 4 (i + 1) k w
    }"
proof -
  have u: "u16n (i * 4) = 4 * i" "u16n (L - 4 * i) = L - 4 * i" using assms by simp_all
  have c: "(if u16n (L - u16n (i * 4)) > 4 then 4 else u16n (L - u16n (i * 4))) = min 4 (u16n (L - u16n (i * 4)))"
    by simp
  have nz: "min 4 (u16n (L - u16n (i * 4))) \<noteq> 0" using assms u by simp
  show ?thesis unfolding write_units_loop.simps Let_def c using nz unit_data_eq [OF assms(1-3)] assms(4)
    by simp
qed

lemma round_units:
  fixes L k :: nat
  assumes "4 * k \<le> L + 3" "4 * a + L \<le> 4 * b"
  shows "a + k \<le> b"
proof (rule ccontr)
  assume "\<not> a + k \<le> b"
  then have "4 * b + 4 \<le> 4 * a + 4 * k" by simp
  then show False using assms by linarith
qed

lemma concat_units:
  assumes "L \<le> length tlv" "4 * k \<le> L + 3" "L \<le> 4 * k"
  shows "concat (map (unit_of tlv L) [0..<k]) = take L tlv @ replicate (4 * k - L) 0"
proof -
  have "concat (map (unit_of tlv L) [0..<j]) = take (4 * j) (take L tlv @ replicate (4 * k - L) 0)" if "j \<le> k" for j
    using that
  proof (induction j)
    case (Suc j)
    let ?x = "take L tlv @ replicate (4 * k - L) 0"
    have lx: "length ?x = 4 * k" using assms by simp
    have "take 4 (drop (4 * j) ?x) = unit_of tlv L j"
    proof (cases "4 * j + 4 \<le> L")
      case True
      then show ?thesis using assms(1) by (simp add: unit_of_def min_def drop_take)
    next
      case False
      have "k \<le> j + 1" by (rule ccontr) (use False assms(2) in linarith)
      then have kj: "k = j + 1" using Suc.prems by simp
      define m where "m = L - 4 * j"
      have m: "m \<le> 4" "L = 4 * j + m" "4 * k - L = 4 - m" using False kj assms unfolding m_def by linarith+
      have "take 4 (drop (4 * j) ?x) = take m (drop (4 * j) tlv) @ replicate (4 - m) 0"
        using assms(1) m by (simp add: drop_take)
      moreover have "unit_of tlv L j = take m (drop (4 * j) tlv) @ replicate (4 - m) 0"
        using assms(1) m by (simp add: unit_of_def)
      ultimately show ?thesis by simp
    qed
    moreover have "take (4 * Suc j) ?x = take (4 * j) ?x @ take 4 (drop (4 * j) ?x)"
      unfolding mult_Suc_right add.commute [of 4] by (rule take_add)
    ultimately show ?case using Suc by simp
  qed simp
  from this [of k] show ?thesis using assms by simp
qed

context unit_writer
begin

lemma write_units_return:
  assumes "L \<le> length tlv" "length tlv < 65536" "first + i + k \<le> 65536" "4 * (i + k) \<le> L + 3"
  shows "inv w \<Longrightarrow> \<exists>w' ok. write_units_loop write_unit (Some tlv) L first 4 i k w = Some (w', ok) \<and> inv w'"
  using assms(3,4)
proof (induction k arbitrary: i w)
  case (Suc k)
  have i: "4 * i < L" "first + i < 65536" using Suc.prems by simp_all
  obtain w1 ok where 1: "write_unit w (first + i) (Some (unit_of tlv L i)) 4 = Some (w1, ok)" "inv w1"
    using write_returns [OF Suc.prems(1), of "unit_of tlv L i" "first + i"] by auto
  show ?case unfolding write_units_step [OF assms(1,2) i] 1(1)
    using Suc.IH [OF 1(2), of "i + 1"] Suc.prems 1(2) by simp
qed simp

lemma write_storage_returns:
  assumes "inv w" "L \<le> length tlv" "length tlv < 65536" "first + L \<le> 65536"
  shows "\<exists>w' ok. reader_tags_write_storage_tlv_units (Some tlv) L first 4 write_unit w = Some (w', ok) \<and> inv w'"
proof -
  define k where "k = (L + 3) div 4"
  have k: "L \<le> 4 * k" "4 * k \<le> L + 3" "k \<le> L" unfolding k_def by linarith+
  have "\<exists>w' ok. write_units_loop write_unit (Some tlv) L first 4 0 k w = Some (w', ok) \<and> inv w'"
    by (rule write_units_return) (use assms k in simp_all)
  then show ?thesis using assms ceil_units_eq [of L]
    by (cases "k = 0") (simp_all add: reader_tags_write_storage_tlv_units_def k_def [symmetric])
qed

end

context unit_memory
begin

lemma write_units_store:
  assumes "L \<le> length tlv" "length tlv < 65536" "first + i + k \<le> hi" "hi \<le> 65536" "lo \<le> first + i" "4 * (i + k) \<le> L + 3"
  shows "inv w \<Longrightarrow> \<exists>w'. write_units_loop write_unit (Some tlv) L first 4 i k w = Some (w', True) \<and> inv w' \<and>
    mem w' = patch (mem w) (first + i) (map (unit_of tlv L) [i..<i + k])"
  using assms(3,5,6)
proof (induction k arbitrary: i w)
  case 0
  then show ?case using mem_units [OF 0(1)] by simp
next
  case (Suc k)
  have i: "4 * i < L" "first + i < 65536" using Suc.prems assms(4) by simp_all
  obtain w1 where 1: "write_unit w (first + i) (Some (unit_of tlv L i)) 4 = Some (w1, True)" "inv w1"
    "mem w1 = (mem w)[first + i := unit_of tlv L i]"
    using write_stores [OF Suc.prems(1), of "unit_of tlv L i" "first + i"] Suc.prems by auto
  obtain w2 where 2: "write_units_loop write_unit (Some tlv) L first 4 (i + 1) k w1 = Some (w2, True)" "inv w2"
    "mem w2 = patch (mem w1) (first + (i + 1)) (map (unit_of tlv L) [i + 1..<i + 1 + k])"
    using Suc.IH [OF 1(2), of "i + 1"] Suc.prems by auto
  have len: "first + i + Suc k \<le> length (mem w)" using Suc.prems mem_units [OF Suc.prems(1)] by simp
  have "mem w2 = patch (patch (mem w) (first + i) [unit_of tlv L i]) (first + (i + 1)) (map (unit_of tlv L) [i + 1..<i + 1 + k])"
    using 1(3) 2(3) len by (simp add: patch_single)
  also have "\<dots> = patch (mem w) (first + i) ([unit_of tlv L i] @ map (unit_of tlv L) [i + 1..<i + 1 + k])"
    by (rule patch_patch) (use len in simp_all)
  also have "[unit_of tlv L i] @ map (unit_of tlv L) [i + 1..<i + 1 + k] = map (unit_of tlv L) [i..<i + Suc k]"
    by (simp add: upt_conv_Cons del: upt_Suc)
  finally show ?case unfolding write_units_step [OF assms(1,2) i] 1(1) using 2(1,2) by simp
qed

lemma write_storage_stores:
  assumes w: "inv w" and L: "0 < L" "L \<le> length tlv" "length tlv < 65536" "lo \<le> first" "hi \<le> 65536"
    "4 * first + L \<le> 4 * hi"
  shows "\<exists>w'. reader_tags_write_storage_tlv_units (Some tlv) L first 4 write_unit w = Some (w', True) \<and> inv w' \<and>
    mem w' = patch (mem w) first (map (unit_of tlv L) [0..<(L + 3) div 4])"
proof -
  define k where "k = (L + 3) div 4"
  have k: "L \<le> 4 * k" "4 * k \<le> L + 3" unfolding k_def by linarith+
  have fk: "first + k \<le> hi" by (rule round_units [OF k(2) L(6)])
  have "\<exists>w'. write_units_loop write_unit (Some tlv) L first 4 0 k w = Some (w', True) \<and> inv w' \<and>
      mem w' = patch (mem w) (first + 0) (map (unit_of tlv L) [0..<0 + k])"
    by (rule write_units_store) (use assms fk k in simp_all)
  then show ?thesis using k L(1-3) ceil_units_eq [of L]
    by (simp add: reader_tags_write_storage_tlv_units_def k_def [symmetric])
qed

end

lemma length_concat_units: "\<forall>d\<in>set ds. length d = 4 \<Longrightarrow> length (concat ds) = 4 * length ds"
  by (induction ds) simp_all

context unit_storage
begin

text \<open>What was written is read back, between the units in front of it and behind it.\<close>

lemma stored_is_read:
  assumes w: "inv w" "mem w = patch m first (map (unit_of tlv L) [0..<(L + 3) div 4])"
      and m: "length m = hi" "\<forall>d\<in>set m. length d = 4"
      and L: "0 < L" "L \<le> length tlv" "length tlv < 65536" "4 * first + L \<le> 4 * hi"
      and n: "pre \<le> first" "4 * (first - pre) + L \<le> n" "n \<le> length buf" "length buf < 65536" "4 * pre + n \<le> 4 * hi"
  shows "\<exists>w' rest. read_run w pre (Some buf) n = Some (w', int n,
      Some (patch buf 0 (take n (concat (take (first - pre) (drop pre m)) @ take L tlv @ rest)))) \<and>
    n \<le> 4 * (first - pre) + L + length rest \<and> mem w' = mem w"
proof -
  define k where "k = (L + 3) div 4"
  have k: "L \<le> 4 * k" "4 * k \<le> L + 3" unfolding k_def by linarith+
  have fk: "first + k \<le> hi" by (rule round_units [OF k(2) L(4)])
  obtain w' where 2: "read_run w pre (Some buf) n = Some (w', int n, Some (patch buf 0 (take n (concat (drop pre (mem w))))))"
    "mem w' = mem w"
    using read_loads [OF w(1) _ n(3,4,5)] L(1) n(2) by auto
  define us where "us = map (unit_of tlv L) [0..<k]"
  have us: "concat us = take L tlv @ replicate (4 * k - L) 0" unfolding us_def by (rule concat_units) (use L k in simp_all)
  have d: "drop pre (mem w) = take (first - pre) (drop pre m) @ us @ drop (first + k) m"
    unfolding w(2) k_def [symmetric] us_def [symmetric] using m fk n(1)
    by (simp add: patch_def us_def take_drop)
  define rest where "rest = replicate (4 * k - L) 0 @ concat (drop (first + k) m)"
  have c: "concat (drop pre (mem w)) = concat (take (first - pre) (drop pre m)) @ take L tlv @ rest"
    unfolding d by (simp add: us rest_def)
  have "length (concat (drop pre (mem w))) = 4 * (hi - pre)"
    using length_concat_units [of "drop pre (mem w)"] mem_units [OF w(1)] by (auto dest: in_set_dropD)
  moreover have "length (concat (take (first - pre) (drop pre m))) = 4 * (first - pre)"
    using length_concat_units [of "take (first - pre) (drop pre m)"] m fk n(1) by (auto dest: in_set_dropD in_set_takeD)
  ultimately have "4 * (hi - pre) = 4 * (first - pre) + L + length rest" unfolding c using L(2) by simp
  then have "n \<le> 4 * (first - pre) + L + length rest" using n(5) by simp
  then show ?thesis using 2 c by auto
qed

end

section \<open>A stored message is found\<close>

lemma message_found:
  assumes d: "drop pos raw = tlv_block 3 msg @ rest" and len: "pos + length (tlv_block 3 msg) \<le> dl" "dl \<le> length raw" "dl \<le> UINT16_MAX"
    and msg: "length msg < 65536"
  shows "\<exists>t. nfc_ndef_find_message_tlv (Some raw) dl pos = Some (TLV_OK, t) \<and> value_len t = length msg \<and>
    take (length msg) (drop (value_offset t) raw) = msg \<and> value_offset t + length msg \<le> length raw"
proof -
  let ?t = "block_tlv pos (0, 3, msg)"
  have "find_message_loop (Some raw) dl pos t = Some (TLV_OK, ?t)" for t
    using find_message_stream [of pos raw "[]" 0 msg rest dl t] d len by simp
  then have f: "nfc_ndef_find_message_tlv (Some raw) dl pos = Some (TLV_OK, ?t)"
    using len(1) by (simp add: nfc_ndef_find_message_tlv_def not_less)
  have v: "value_offset ?t + length msg = pos + length (tlv_block 3 msg)"
    by (simp add: block_tlv_def length_tlv_block tlv_block_def)
  have "take (length msg) (drop (value_offset ?t) raw) = msg"
    using block_tlv_value [of pos raw 0 3 msg rest] d by simp
  then show ?thesis using f v len by (auto simp: block_tlv_def)
qed

lemma deliver_total:
  assumes raw: "got \<le> length raw" "got \<le> UINT16_MAX" and d: "cap \<le> length dst" "length dst < 65536"
  shows "\<exists>r b. deliver_message w (Some raw) got start (Some dst) cap = Some (w, r, Some b) \<and> length b = length dst \<and>
    (r = -1 \<or> 0 \<le> r \<and> r \<le> int cap)"
proof (cases "start \<le> got")
  case True
  obtain status tlv where f: "nfc_ndef_find_message_tlv (Some raw) got start = Some (status, tlv)"
    "status = TLV_OK \<longrightarrow> (\<exists>n. tlv_within got start tlv n)"
    using find_message_loop_safe [of "Some raw" got start zero_tlv] raw True
    by (auto simp: nfc_ndef_find_message_tlv_def)
  show ?thesis
  proof (cases "status = TLV_OK \<and> value_len tlv \<le> cap \<and> value_len tlv \<noteq> 0")
    case True
    then have "value_offset tlv + value_len tlv \<le> length raw" using f(2) raw(1) by (auto simp: tlv_within_def)
    then show ?thesis using f(1) True d by (simp add: deliver_message_def)
  qed (use f(1) in \<open>auto simp: deliver_message_def\<close>)
next
  case False
  then show ?thesis by (simp add: deliver_message_def nfc_ndef_find_message_tlv_def)
qed

lemma deliver_found:
  assumes d: "drop pos raw = tlv_block 3 msg @ rest" and len: "pos + length (tlv_block 3 msg) \<le> got" "got \<le> length raw" "got \<le> UINT16_MAX"
    and msg: "msg \<noteq> []" "length msg \<le> cap" "cap \<le> length dst" "length dst < 65536"
  shows "deliver_message w (Some raw) got pos (Some dst) cap = Some (w, int (length msg), Some (patch dst 0 msg))"
proof -
  have "length msg < 65536" using msg by linarith
  then obtain t where t: "nfc_ndef_find_message_tlv (Some raw) got pos = Some (TLV_OK, t)" "value_len t = length msg"
    "take (length msg) (drop (value_offset t) raw) = msg" "value_offset t + length msg \<le> length raw"
    using message_found [OF d len] by blast
  then show ?thesis using msg by (simp add: deliver_message_def)
qed

end
