(* ===== verification/TagType2.thy ===== *)
theory TagType2
  imports ReaderProtocol TagInfo TagStorage
begin

text \<open>
  The Type 2 tag path of the reader (\<open>reader_tags_type2.c\<close>, \<open>reader_tags_type2_geometry.c\<close> and
  the Type 2 part of \<open>reader_tags.c\<close>): page commands, the capability cache, what is read of the tag
  and its NDEF message, and writing one.

  A function gets the radio \<open>R\<close> and the world (front-end state and \<open>tag_state\<close>) and returns the
  world. A receive buffer is the list of bytes received: a read behind them is a fault of the
  model, although the buffer in the code is larger. A buffer of the caller is a \<open>cptr\<close> that is
  returned.
\<close>

section \<open>Commands\<close>

definition reader_tags_ntag_read_page :: "'c tag_radio \<Rightarrow> 'c \<times> tag_state \<Rightarrow> nat \<Rightarrow> ('c \<times> tag_state) \<times> bytes" where
  "reader_tags_ntag_read_page R w page = reader_protocol_transceive14 R w [0x30, byte page] 16 True 20 False False"

text \<open>The front end stores what it receives into the caller's buffer, also when it is too short.\<close>

function fast_read_loop ::
    "'c tag_radio \<Rightarrow> 'c \<times> tag_state \<Rightarrow> nat \<Rightarrow> nat \<Rightarrow> nat \<Rightarrow> cptr \<Rightarrow> (('c \<times> tag_state) \<times> int \<times> cptr) option" where
  "fast_read_loop R w page last_page copied buffer =
     (if page \<le> last_page then
        let remaining_pages = last_page - page + 1;
            chunk_pages = (if remaining_pages > 48 then 48 else remaining_pages);
            chunk_last = page + chunk_pages - 1;
            chunk_len = chunk_pages * 4;
            (w, rx) = reader_protocol_transceive14 R w [0x3A, byte page, byte chunk_last] chunk_len True 20 False False
        in (case mem_move buffer copied (Some rx) (length rx) of
              None \<Rightarrow> None
            | Some buffer \<Rightarrow>
                if length rx < chunk_len then do {
                  (w, _) \<leftarrow> reader_protocol_activate_iso14443a R w;
                  Some (w, -1, buffer)
                } else fast_read_loop R w (page + chunk_pages) last_page (copied + chunk_len) buffer)
      else Some (w, int copied, buffer))"
  by pat_completeness auto
termination
  by (relation "measure (\<lambda>(R, w, page, last_page, copied, buffer). last_page + 1 - page)") auto

declare fast_read_loop.simps [simp del]

text \<open>First and last page are \<open>uint8_t\<close>, so the page count and the lengths stay in 16 bits.\<close>

definition reader_tags_ntag_fast_read ::
    "'c tag_radio \<Rightarrow> 'c \<times> tag_state \<Rightarrow> nat \<Rightarrow> nat \<Rightarrow> cptr \<Rightarrow> nat \<Rightarrow> (('c \<times> tag_state) \<times> int \<times> cptr) option" where
  "reader_tags_ntag_fast_read R w first_page last_page buffer buffer_len =
     (if buffer = None \<or> last_page < first_page then Some (w, -1, buffer)
      else if (last_page - first_page + 1) * 4 > buffer_len then Some (w, -1, buffer)
      else fast_read_loop R w first_page last_page 0 buffer)"

definition reader_tags_ntag_write_page ::
    "'c tag_radio \<Rightarrow> 'c \<times> tag_state \<Rightarrow> nat \<Rightarrow> cptr \<Rightarrow> (('c \<times> tag_state) \<times> bool) option" where
  "reader_tags_ntag_write_page R w page data =
     (if data = None then Some (w, False)
      else do {
        (ok, cmd) \<leftarrow> nero_nfc_copy_bytes (Some [0xA2, byte page, 0, 0, 0, 0]) 6 2 data 4;
        if \<not> ok then Some (w, False)
        else let (w, rx) = reader_protocol_transceive14 R w (the cmd) 4 True 10 False True in
          if length rx < 1 then Some (w, False)
          else do {
            b \<leftarrow> rd (Some rx) 0;
            Some (w, b AND 0x0F = 0x0A)
          }
      })"

definition reader_tags_type2_get_version ::
    "'c tag_radio \<Rightarrow> 'c \<times> tag_state \<Rightarrow> nat \<Rightarrow> (('c \<times> tag_state) \<times> bytes) option" where
  "reader_tags_type2_get_version R w cap =
     (let (w, rx) = reader_protocol_transceive14 R w [0x60] cap True 20 False False in
      if length rx < 8 then do {
        (w, _) \<leftarrow> reader_protocol_activate_iso14443a R w;
        Some (w, rx)
      } else Some (w, rx))"

definition reader_tags_type2_read_signature ::
    "'c tag_radio \<Rightarrow> 'c \<times> tag_state \<Rightarrow> nat \<Rightarrow> (('c \<times> tag_state) \<times> bytes) option" where
  "reader_tags_type2_read_signature R w cap =
     (let (w, rx) = reader_protocol_transceive14 R w [0x3C, 0x00] cap True 30 False False in
      if length rx < 32 then do {
        (w, _) \<leftarrow> reader_protocol_activate_iso14443a R w;
        Some (w, rx)
      } else Some (w, rx))"

definition reader_tags_type2_transceive ::
    "'c tag_radio \<Rightarrow> 'c \<times> tag_state \<Rightarrow> cptr \<Rightarrow> nat \<Rightarrow> nat \<Rightarrow> (('c \<times> tag_state) \<times> bytes) option" where
  "reader_tags_type2_transceive R w tx tx_len rx_max =
     (if tx = None \<or> tx_len = 0 \<or> rx_max = 0 then Some (w, [])
      else if length (the tx) < tx_len then None
      else let (w, rx) = reader_protocol_transceive14 R w (take tx_len (the tx)) rx_max True 20 False False in do {
        op \<leftarrow> nero_nfc_u8_at tx tx_len 0;
        if op = 0x60 \<and> length rx < 8 then do {
          (w, _) \<leftarrow> reader_protocol_activate_iso14443a R w;
          Some (w, rx)
        } else Some (w, rx)
      })"

section \<open>Capability cache\<close>

definition reader_tags_type2_refresh_fast_read_cache :: "tag_state \<Rightarrow> tag_state option" where
  "reader_tags_type2_refresh_fast_read_cache s = do {
     same \<leftarrow> (if ts_fast_uid_len s = ts_uid14_len s
       then (if ts_uid14_len s = 0 then Some True else mem_eq (Some (ts_fast_uid s)) (Some (ts_uid14 s)) (ts_uid14_len s))
       else Some False);
     if same then Some s
     else if ts_uid14_len s = 0 then Some (s\<lparr>ts_fast_uid_len := 0, ts_fast_disabled := False\<rparr>)
     else do {
       (_, uid) \<leftarrow> nero_nfc_copy_bytes (Some (ts_fast_uid s)) 10 0 (Some (ts_uid14 s)) (ts_uid14_len s);
       Some (s\<lparr>ts_fast_uid_len := ts_uid14_len s, ts_fast_disabled := False, ts_fast_uid := the uid\<rparr>)
     }
   }"

definition reader_tags_type2_fast_read_allowed :: "tag_state \<Rightarrow> (tag_state \<times> bool) option" where
  "reader_tags_type2_fast_read_allowed s = do {
     s \<leftarrow> reader_tags_type2_refresh_fast_read_cache s;
     if ts_fast_disabled s \<or> ts_uid14_len s = 0 then Some (s, False)
     else do {
       m \<leftarrow> rd (Some (ts_uid14 s)) 0;
       Some (s, m = 0x04)
     }
   }"

section \<open>Geometry\<close>

definition type2_max_read_page :: "type2_info \<Rightarrow> nat" where
  "type2_max_read_page info =
     (if t2_cc_valid info \<and> t2_data_area_size info \<noteq> 0 then
        let pages_from_cc = u16n (3 + (t2_data_area_size info + 4 - 1) div 4) in
        if pages_from_cc > 225 then 225 else pages_from_cc
      else if t2_max_user_page info \<noteq> 0 then t2_max_user_page info
      else 44)"

fun terminator_loop :: "cptr \<Rightarrow> nat \<Rightarrow> nat \<Rightarrow> bool option" where
  "terminator_loop data i 0 = Some False"
| "terminator_loop data i (Suc n) = do {
     b \<leftarrow> rd data i;
     if b = 0xFE then Some True else terminator_loop data (i + 1) n
   }"

definition reader_tags_type2_tlv_complete :: "cptr \<Rightarrow> nat \<Rightarrow> bool option" where
  "reader_tags_type2_tlv_complete data len =
     (if data = None \<or> \<not> nero_nfc_span_ok 0 1 len \<or> len \<le> 4 then Some False
      else do {
        magic \<leftarrow> nero_nfc_u8_at data len 0;
        if magic \<noteq> 0xE1 then Some False
        else do {
          (status, _) \<leftarrow> nfc_ndef_find_message_tlv data len 4;
          if status = TLV_OK then Some True
          else terminator_loop data 4 (len - 4)
        }
      })"

text \<open>
  The loop has fuel: \<open>Some None\<close> is a loop still running. \<open>pos\<close> is a \<open>uint16_t\<close>, and the sum behind
  a block that is not the message wraps.
\<close>

fun needed_pages_loop :: "nat \<Rightarrow> cptr \<Rightarrow> nat \<Rightarrow> nat \<Rightarrow> nat \<Rightarrow> nat option option" where
  "needed_pages_loop 0 data len max_page pos = Some None"
| "needed_pages_loop (Suc fuel) data len max_page pos =
     (if pos < len then do {
        ty \<leftarrow> rd data pos;
        if ty = 0x00 then needed_pages_loop fuel data len max_page (pos + 1)
        else if ty = 0xFE then Some (Some (u16n ((pos + 4) div 4)))
        else if pos + 1 \<ge> len then Some (Some 0)
        else do {
          l \<leftarrow> rd data (pos + 1);
          if l = 0xFF \<and> \<not> nero_nfc_span_ok (pos + 1) 3 len then Some (Some 0)
          else do {
            (value_len, pos) \<leftarrow> (if l = 0xFF then do {
                msb \<leftarrow> rd data (pos + 1 + 1);
                lsb \<leftarrow> rd data (pos + 1 + 2);
                Some (be16 msb lsb, u16n (pos + 1 + 3))
              } else Some (unat l, pos + 2));
            if ty \<noteq> 0x03 then needed_pages_loop fuel data len max_page (u16n (pos + value_len))
            else
              let need_bytes = min (pos + value_len) 912;
                  pages = (need_bytes + 4 - 1) div 4;
                  max_pages = u16n (max_page - 3 + 1)
              in Some (Some (if pages > max_pages then max_pages else pages))
          }
        }
      } else Some (Some 0))"

definition reader_tags_type2_needed_pages :: "nat \<Rightarrow> cptr \<Rightarrow> nat \<Rightarrow> nat \<Rightarrow> nat option option" where
  "reader_tags_type2_needed_pages fuel data len max_page =
     (if data = None \<or> len \<le> 4 then Some (Some 0)
      else do {
        magic \<leftarrow> nero_nfc_u8_at data len 0;
        if magic \<noteq> 0xE1 then Some (Some 0) else needed_pages_loop fuel data len max_page 4
      })"

definition reader_tags_type2_last_page :: "type2_info \<Rightarrow> nat option" where
  "reader_tags_type2_last_page type2 =
     (if \<not> t2_cc_valid type2 \<or> t2_data_area_size type2 = 0 then None
      else nfc_storage_type2_last_page (t2_data_area_size type2))"

definition reader_tags_type2_read_cap :: "type2_info \<Rightarrow> nat option" where
  "reader_tags_type2_read_cap type2 =
     (case reader_tags_type2_last_page type2 of
        None \<Rightarrow> None
      | Some last_page \<Rightarrow> if last_page < 3 then None else Some (u16n (u16n (last_page - 3 + 1) * 4)))"

section \<open>Tag information\<close>

definition reader_tags_get_typea_info :: "tag_state \<Rightarrow> (bool \<times> typea_info) option" where
  "reader_tags_get_typea_info s = (let zero = \<lparr>ta_uid = replicate 10 0, ta_uid_len = 0, ta_atqa = [0, 0],
       ta_atqa_valid = False, ta_sak = 0, ta_ats = replicate 64 0, ta_ats_len = 0\<rparr> in
     if ts_uid14_len s = 0 then Some (False, zero)
     else do {
       (ok, uid) \<leftarrow> nero_nfc_copy_bytes (Some (ta_uid zero)) 10 0 (Some (ts_uid14 s)) (ts_uid14_len s);
       if \<not> ok then Some (False, zero)
       else do {
         let info = zero\<lparr>ta_uid := the uid, ta_uid_len := ts_uid14_len s, ta_sak := ts_sak s,
           ta_atqa_valid := ts_atqa_valid s\<rparr>;
         a0 \<leftarrow> rd (Some (ts_atqa s)) 0;
         a1 \<leftarrow> rd (Some (ts_atqa s)) 1;
         let info = (if ts_atqa_valid s then info\<lparr>ta_atqa := [a0, a1]\<rparr> else info);
         if ts_ats_len s = 0 then Some (True, info)
         else do {
           (ok, ats) \<leftarrow> nero_nfc_copy_bytes (Some (ta_ats info)) 64 0 (Some (ts_ats_data s)) (ts_ats_len s);
           Some (if \<not> ok then (False, info) else (True, info\<lparr>ta_ats := the ats, ta_ats_len := ts_ats_len s\<rparr>))
         }
       }
     })"

definition st25tn_hint :: "tag_state \<Rightarrow> type2_info \<Rightarrow> type2_info option" where
  "st25tn_hint s info =
     (if t2_family info = FAMILY_UNKNOWN \<and> ts_uid14_len s \<noteq> 0 then do {
        m \<leftarrow> rd (Some (ts_uid14 s)) 0;
        Some (if m = 0x02 \<and> t2_cc_valid info \<and> t2_cc info ! 0 = 0xE1
          then nfc_tag_type2_apply_family_hint info FAMILY_ST25TN else info)
      } else Some info)"

definition reader_tags_get_type2_info ::
    "'c tag_radio \<Rightarrow> 'c \<times> tag_state \<Rightarrow> (('c \<times> tag_state) \<times> bool \<times> type2_info) option" where
  "reader_tags_get_type2_info R w =
     (if ts_uid14_len (snd w) = 0 \<or> ts_sak (snd w) AND 0x20 \<noteq> 0 then Some (w, False, type2_zero)
      else do {
        (w, version) \<leftarrow> reader_tags_type2_get_version R w 8;
        info \<leftarrow> (if length version > 0
          then nfc_tag_type2_apply_version type2_zero (Some version) (if length version > 8 then 8 else length version)
          else Some type2_zero);
        let (w, page3) = reader_tags_ntag_read_page R w 3;
        info \<leftarrow> (if length page3 \<ge> 4 then nfc_tag_type2_apply_cc info (Some page3) 4 else Some info);
        info \<leftarrow> st25tn_hint (snd w) info;
        if t2_family info \<noteq> FAMILY_NTAG21X then Some (w, True, info)
        else do {
          (w, sig) \<leftarrow> reader_tags_type2_read_signature R w 32;
          info \<leftarrow> (if length sig \<ge> 32 then nfc_tag_type2_apply_signature info (Some sig) 32 else Some info);
          if t2_max_user_page info = 0 then Some (w, True, info)
          else do {
            let (w, cfg) = reader_tags_ntag_read_page R w (u8n (t2_max_user_page info + 2));
            if length cfg \<ge> 4 then do {
              a \<leftarrow> rd (Some cfg) 3;
              Some (w, True, nfc_tag_type2_apply_auth0 info a)
            } else Some (w, True, info)
          }
        }
      })"

definition reader_tags_get_type2_storage_info ::
    "'c tag_radio \<Rightarrow> 'c \<times> tag_state \<Rightarrow> (('c \<times> tag_state) \<times> bool \<times> type2_info) option" where
  "reader_tags_get_type2_storage_info R w =
     (if ts_uid14_len (snd w) = 0 \<or> ts_sak (snd w) AND 0x20 \<noteq> 0 then Some (w, False, type2_zero)
      else let (w, page3) = reader_tags_ntag_read_page R w 3 in
        if length page3 < 4 then Some (w, False, type2_zero)
        else do {
          info \<leftarrow> nfc_tag_type2_apply_cc type2_zero (Some page3) 4;
          info \<leftarrow> st25tn_hint (snd w) info;
          Some (w, t2_cc_valid info, info)
        })"

section \<open>Reading\<close>

function read_binary_loop ::
    "'c tag_radio \<Rightarrow> 'c \<times> tag_state \<Rightarrow> nat \<Rightarrow> nat \<Rightarrow> cptr \<Rightarrow> nat \<Rightarrow> (('c \<times> tag_state) \<times> int \<times> cptr) option" where
  "read_binary_loop R w page copied buf buf_cap =
     (if copied < buf_cap then
        let chunk = (if buf_cap - copied > 16 then 16 else buf_cap - copied);
            partial = (if copied = 0 then -1 else int copied)
        in if page > 255 then Some (w, partial, buf)
        else let (w, page_buf) = reader_tags_ntag_read_page R w page in
          if length page_buf < chunk then Some (w, partial, buf)
          else (case nero_nfc_copy_bytes buf buf_cap copied (Some page_buf) chunk of
                  None \<Rightarrow> None
                | Some (ok, buf) \<Rightarrow>
                    if \<not> ok then Some (w, partial, buf)
                    else read_binary_loop R w (page + 4) (copied + chunk) buf buf_cap)
      else Some (w, int copied, buf))"
  by pat_completeness auto
termination
  by (relation "measure (\<lambda>(R, w, page, copied, buf, buf_cap). buf_cap - copied)") auto

declare read_binary_loop.simps [simp del]

text \<open>The capacity is a \<open>uint16_t\<close>, so the sums stay in range.\<close>

definition reader_tags_type2_read_binary ::
    "'c tag_radio \<Rightarrow> 'c \<times> tag_state \<Rightarrow> nat \<Rightarrow> cptr \<Rightarrow> nat \<Rightarrow> (('c \<times> tag_state) \<times> int \<times> cptr) option" where
  "reader_tags_type2_read_binary R w page buf buf_cap =
     (if buf = None \<or> buf_cap = 0 then Some (w, -1, buf)
      else do {
        (w, allowed) \<leftarrow> (if buf_cap \<ge> 16 \<and> page \<le> 255 then do {
            (s, ok) \<leftarrow> reader_tags_type2_fast_read_allowed (snd w);
            Some ((fst w, s), ok)
          } else Some (w, False));
        let pages = buf_cap div 4;
        let last_page = u16n (page + pages - 1);
        if allowed \<and> pages \<noteq> 0 \<and> last_page \<le> 255 then do {
          (w, r, buf) \<leftarrow> reader_tags_ntag_fast_read R w page last_page buf (pages * 4);
          if r \<ge> int (pages * 4) then read_binary_loop R w (page + pages) (pages * 4) buf buf_cap
          else read_binary_loop R (fst w, (snd w)\<lparr>ts_fast_disabled := True\<rparr>) page 0 buf buf_cap
        } else read_binary_loop R w page 0 buf buf_cap
      })"

definition reader_tags_load_type2_ndef_message ::
    "'c tag_radio \<Rightarrow> 'c \<times> tag_state \<Rightarrow> cptr \<Rightarrow> nat \<Rightarrow> (('c \<times> tag_state) \<times> int \<times> cptr) option" where
  "reader_tags_load_type2_ndef_message R w dst dst_cap =
     (if dst = None \<or> dst_cap = 0 then Some (w, -1, dst)
      else do {
        (w, ok, type2) \<leftarrow> reader_tags_get_type2_storage_info R w;
        if \<not> ok \<or> \<not> t2_cc_valid type2 \<or> \<not> t2_read_open type2 \<or> t2_data_area_size type2 = 0 then Some (w, -1, dst)
        else (case (reader_tags_type2_read_cap type2, nero_nfc_try_add_u16 4 (t2_data_area_size type2)) of
          (Some raw_cap, Some raw_len) \<Rightarrow> do {
            let raw_len = min (if raw_len > 916 then 916 else raw_len) raw_cap;
            (w, got, raw) \<leftarrow> reader_tags_type2_read_binary R w 3 (Some (replicate 916 0)) raw_len;
            if got < 4 then Some (w, -1, dst) else deliver_message w raw (u16n (nat got)) 4 dst dst_cap
          }
        | _ \<Rightarrow> Some (w, -1, dst))
      })"

section \<open>Writing\<close>

fun write_page_attempts ::
    "'c tag_radio \<Rightarrow> nat \<Rightarrow> nat \<Rightarrow> 'c \<times> tag_state \<Rightarrow> nat \<Rightarrow> cptr \<Rightarrow> (('c \<times> tag_state) \<times> bool) option" where
  "write_page_attempts R attempt 0 w page data = Some (w, False)"
| "write_page_attempts R attempt (Suc n) w page data = do {
     (w, active) \<leftarrow> (if attempt \<noteq> 0 then reader_protocol_activate_iso14443a R w else Some (w, True));
     if \<not> active then write_page_attempts R (attempt + 1) n w page data
     else do {
       (w, write_ack) \<leftarrow> reader_tags_ntag_write_page R w page data;
       let w = (tr_delay_ms R (fst w) (if write_ack then 5 else 8), snd w);
       let (w, verify) = reader_tags_ntag_read_page R w page;
       ok \<leftarrow> (if length verify \<ge> 4 then mem_eq (Some verify) data 4 else Some False);
       if ok then Some (w, True) else write_page_attempts R (attempt + 1) n w page data
     }
   }"

definition reader_tags_type2_write_page ::
    "'c tag_radio \<Rightarrow> 'c \<times> tag_state \<Rightarrow> nat \<Rightarrow> cptr \<Rightarrow> (('c \<times> tag_state) \<times> bool) option" where
  "reader_tags_type2_write_page R w page data =
     (if data = None then Some (w, False) else write_page_attempts R 0 3 w page data)"

definition reader_tags_type2_write_unit :: "'c tag_radio \<Rightarrow> ('c \<times> tag_state) write_unit" where
  "reader_tags_type2_write_unit R w unit_no data data_len =
     (if data = None \<or> data_len \<noteq> TYPE2_UNIT_SIZE \<or> unit_no > 255 then Some (w, False)
      else reader_tags_type2_write_page R w unit_no data)"

definition reader_tags_write_type2_ndef_message ::
    "'c tag_radio \<Rightarrow> 'c \<times> tag_state \<Rightarrow> cptr \<Rightarrow> nat \<Rightarrow> (('c \<times> tag_state) \<times> bool) option" where
  "reader_tags_write_type2_ndef_message R w ndef ndef_len =
     (if ndef_len \<noteq> 0 \<and> ndef = None then Some (w, False)
      else do {
        (w, ok, type2) \<leftarrow> reader_tags_get_type2_storage_info R w;
        if \<not> ok \<or> \<not> t2_cc_valid type2 \<or> \<not> t2_write_open type2 \<or> t2_data_area_size type2 = 0 then Some (w, False)
        else do {
          (ok, tlv, tlv_len) \<leftarrow> nfc_ndef_build_message_tlv ndef ndef_len (Some (replicate 916 0))
            (if t2_data_area_size type2 > 916 then 916 else t2_data_area_size type2);
          if \<not> ok then Some (w, False)
          else (case (nfc_storage_ceil_units_u16 tlv_len TYPE2_UNIT_SIZE, reader_tags_type2_last_page type2) of
            (Some pages_needed, Some last_page) \<Rightarrow>
              if pages_needed = 0 then Some (w, False)
              else (case nero_nfc_try_add_size 4 (pages_needed - 1) of
                None \<Rightarrow> Some (w, False)
              | Some last_page_needed \<Rightarrow>
                  if last_page_needed > last_page then Some (w, False)
                  else reader_tags_write_storage_tlv_units tlv tlv_len TYPE2_FIRST_DATA_PAGE TYPE2_UNIT_SIZE
                    (reader_tags_type2_write_unit R) w)
          | _ \<Rightarrow> Some (w, False))
        }
      })"

section \<open>The dump of a tag\<close>

text \<open>
  What \<open>reader_tags_read_ntag_tag\<close> collects before it prints: for an NTAG21x tag the pages the
  first 16 bytes ask for, otherwise page after page until a message is complete. The buffer is not
  initialised in the code; it starts with zeros here. \<open>max_page\<close> is at most 255, so the page
  number does not wrap. Log output is left out.
\<close>

definition READER_TYPE2_TAG_DUMP_MAX :: nat where "READER_TYPE2_TAG_DUMP_MAX = 912"

fun copy_pages_loop :: "bytes \<Rightarrow> nat \<Rightarrow> nat \<Rightarrow> cptr \<Rightarrow> nat \<Rightarrow> (cptr \<times> nat) option" where
  "copy_pages_loop buffer p 0 tag_data dumped = Some (tag_data, dumped)"
| "copy_pages_loop buffer p (Suc n) tag_data dumped =
     (if dumped + 4 \<le> READER_TYPE2_TAG_DUMP_MAX then do {
        (ok, tag_data) \<leftarrow> nero_nfc_copy_bytes tag_data READER_TYPE2_TAG_DUMP_MAX dumped (ptr_add (Some buffer) (p * 4)) 4;
        if \<not> ok then Some (tag_data, dumped) else copy_pages_loop buffer (p + 1) n tag_data (dumped + 4)
      } else copy_pages_loop buffer (p + 1) n tag_data dumped)"

function dump_pages_loop ::
    "'c tag_radio \<Rightarrow> 'c \<times> tag_state \<Rightarrow> nat \<Rightarrow> nat \<Rightarrow> cptr \<Rightarrow> nat \<Rightarrow> (('c \<times> tag_state) \<times> cptr \<times> nat) option" where
  "dump_pages_loop R w page max_page tag_data dumped =
     (if page \<le> max_page then
        let (w, buffer) = reader_tags_ntag_read_page R w page;
            pages_to_copy = (if page + 4 - 1 > max_page then max_page - page + 1 else 4)
        in if length buffer < 4 then Some (w, tag_data, dumped)
           else (case copy_pages_loop buffer 0 pages_to_copy tag_data dumped of
                   None \<Rightarrow> None
                 | Some (tag_data, dumped) \<Rightarrow>
                     (case reader_tags_type2_tlv_complete tag_data dumped of
                        None \<Rightarrow> None
                      | Some complete \<Rightarrow>
                          if complete then Some (w, tag_data, dumped)
                          else dump_pages_loop R w (page + 4) max_page tag_data dumped))
      else Some (w, tag_data, dumped))"
  by pat_completeness auto
termination
  by (relation "measure (\<lambda>(R, w, page, max_page, d, t). max_page + 1 - page)") auto

declare dump_pages_loop.simps [simp del]

definition ntag_fast_dump ::
    "nat \<Rightarrow> 'c tag_radio \<Rightarrow> 'c \<times> tag_state \<Rightarrow> nat \<Rightarrow> cptr \<Rightarrow> (('c \<times> tag_state) \<times> cptr \<times> nat) option option" where
  "ntag_fast_dump fuel R w max_page tag_data =
     (let (w, first_read) = reader_tags_ntag_read_page R w 3 in
      if length first_read < 16 then Some (Some (w, tag_data, 0))
      else do {
        (ok, tag_data) \<leftarrow> nero_nfc_copy_bytes tag_data READER_TYPE2_TAG_DUMP_MAX 0 (Some first_read) 16;
        let dumped = (if ok then 16 else 0);
        needed \<leftarrow> reader_tags_type2_needed_pages fuel tag_data dumped max_page;
        case needed of
          None \<Rightarrow> Some None
        | Some needed_pages \<Rightarrow>
            let fast_len = u16n (needed_pages * 4) in
            if needed_pages > 4 \<and> fast_len \<le> READER_TYPE2_TAG_DUMP_MAX then do {
              (w, r, tag_data) \<leftarrow> reader_tags_ntag_fast_read R w 3 (u8n (3 + needed_pages - 1)) tag_data fast_len;
              Some (Some (w, tag_data, if r \<ge> int fast_len then fast_len else dumped))
            } else Some (Some (w, tag_data, dumped))
      })"

definition ntag_dump ::
    "nat \<Rightarrow> 'c tag_radio \<Rightarrow> 'c \<times> tag_state \<Rightarrow> type2_info \<Rightarrow> (('c \<times> tag_state) \<times> cptr \<times> nat) option option" where
  "ntag_dump fuel R w type2 =
     (let max_page = type2_max_read_page type2; tag_data = Some (replicate READER_TYPE2_TAG_DUMP_MAX 0) in do {
        r \<leftarrow> (if t2_family type2 = FAMILY_NTAG21X \<and> max_page \<le> 255
          then ntag_fast_dump fuel R w max_page tag_data else Some (Some (w, tag_data, 0)));
        case r of
          None \<Rightarrow> Some None
        | Some (w, tag_data, dumped) \<Rightarrow>
            if dumped = 0 then do {
              d \<leftarrow> dump_pages_loop R w 3 max_page tag_data 0;
              Some (Some d)
            } else Some (Some (w, tag_data, dumped))
      })"

end
