(* ===== verification/TagType2Safe.thy ===== *)
theory TagType2Safe
  imports TagType2
begin

text \<open>
  The Type 2 paths with any card in the field: reading and writing a message return and stay inside
  their buffers. The exception is the dump of an NTAG21x tag: the loop that measures the message
  never ends for some contents of the first data page.
\<close>

section \<open>The length that leads back\<close>

text \<open>
  A block of \<open>0xFFFC\<close> bytes in the first data page: its end wraps to the offset it starts at.
\<close>

definition wrapping_block :: "bytes \<Rightarrow> bool" where
  "wrapping_block data \<longleftrightarrow> data ! 0 = 0xE1 \<and> data ! 4 \<notin> {0x00, 0x03, 0xFE} \<and>
     data ! 5 = 0xFF \<and> data ! 6 = 0xFF \<and> data ! 7 = 0xFC"

lemma needed_pages_back:
  assumes "wrapping_block data" "8 \<le> len" "len \<le> length data" "len < 65536"
  shows "needed_pages_loop fuel (Some data) len max_page 4 = Some None"
proof (induction fuel)
  case (Suc fuel)
  have w: "be16 0xFF 0xFC = 65532" by (simp add: be16_eq)
  have s: "nero_nfc_span_ok 5 3 len" using assms by (simp add: span_ok_iff)
  have "u16n 65540 = 4" by (simp add: u16n_def)
  then show ?case using assms Suc s w by (simp add: wrapping_block_def)
qed simp

lemma needed_pages_endless:
  assumes "wrapping_block data" "8 \<le> len" "len \<le> length data" "len < 65536"
  shows "reader_tags_type2_needed_pages fuel (Some data) len max_page = Some None"
  using assms needed_pages_back [OF assms, of fuel max_page]
  by (simp add: reader_tags_type2_needed_pages_def wrapping_block_def)

text \<open>
  C28: when a tag that presents itself as an NTAG21x has a block of \<open>0xFFFC\<close> bytes, other than a
  message, at the start of its data area, the dump of \<open>reader_tags_read_ntag_tag\<close> does not return:
  after any number of rounds the loop that counts the pages of the message is still running.
\<close>

theorem ntag_dump_never_returns:
  assumes r: "reader_tags_ntag_read_page R w 3 = (w', first_read)" "length first_read = 16" "wrapping_block first_read"
    and i: "t2_family type2 = FAMILY_NTAG21X" "type2_max_read_page type2 \<le> 255"
  shows "ntag_dump fuel R w type2 = Some None"
proof -
  let ?d = "patch (replicate READER_TYPE2_TAG_DUMP_MAX 0) 0 first_read"
  have d: "length ?d = 912" using r(2) by (simp add: READER_TYPE2_TAG_DUMP_MAX_def)
  have n: "?d ! i = first_read ! i" if "i < 16" for i using that r(2) by (simp add: patch_def nth_append)
  have "wrapping_block ?d" using r(3) n by (simp add: wrapping_block_def)
  then have "reader_tags_type2_needed_pages fuel (Some ?d) 16 m = Some None" for m
    using needed_pages_endless d by simp
  then show ?thesis using r i
    by (simp add: ntag_dump_def ntag_fast_dump_def READER_TYPE2_TAG_DUMP_MAX_def)
qed

definition crafted_ntag :: "unit tag_radio" where
  "crafted_ntag = \<lparr>tr_transceive = \<lambda>c tx m crc t a p. (c, [0xE1, 0x10, 0x6D, 0x00, 0x01, 0xFF, 0xFF, 0xFC] @ replicate 8 0),
     tr_wupa = \<lambda>c. (c, None), tr_reqa = \<lambda>c. (c, False), tr_delay_ms = \<lambda>c t. c, tr_stream = \<lambda>c tx t. (c, [])\<rparr>"

theorem ntag_dump_never_returns_witness:
  "ntag_dump 1000000 crafted_ntag ((), fresh_tag_state) (type2_zero\<lparr>t2_family := FAMILY_NTAG21X, t2_max_user_page := 129\<rparr>) = Some None"
  by (rule ntag_dump_never_returns [of _ _ "((), fresh_tag_state)"
        "[0xE1, 0x10, 0x6D, 0x00, 0x01, 0xFF, 0xFF, 0xFC] @ replicate 8 0"])
    (simp_all add: crafted_ntag_def reader_tags_ntag_read_page_def reader_protocol_transceive14_def wrapping_block_def
      type2_max_read_page_def type2_zero_def)

section \<open>Reading and writing with any card\<close>

lemma read_page_state [simp]: "snd (fst (reader_tags_ntag_read_page R w p)) = snd w"
  by (simp add: reader_tags_ntag_read_page_def)

lemma read_page_same: "reader_tags_ntag_read_page R w p = (w', rx) \<Longrightarrow> snd w' = snd w"
  by (metis fst_conv read_page_state)

lemma transceive14_same: "reader_protocol_transceive14 R w tx m crc t a n = (w', rx) \<Longrightarrow> snd w' = snd w"
  by (metis fst_conv transceive14_state)

lemma copy4_returns:
  assumes "length d = 4"
  shows "nero_nfc_copy_bytes (Some [a, b, 0, 0, 0, 0]) 6 2 (Some d) 4 = Some (True, Some ([a, b] @ d))"
  using assms by (simp add: patch_def)

lemma ntag_write_page_eq:
  assumes "length d = 4"
  shows "reader_tags_ntag_write_page R w page (Some d) =
    (let (w', rx) = reader_protocol_transceive14 R w ([0xA2, byte page] @ d) 4 True 10 False True in
     Some (w', rx \<noteq> [] \<and> hd rx AND 0x0F = 0x0A))"
  using assms copy4_returns [OF assms, of "0xA2" "byte page"]
  by (auto simp: reader_tags_ntag_write_page_def neq_Nil_conv split: prod.split)

context bounded_radio
begin

lemma activate_returns: "tag_state_ok (snd w) \<Longrightarrow> returns (reader_protocol_activate_iso14443a R w) (\<lambda>_. True)"
  using activate_total [of w] unfolding returns_def by blast

lemma transceive14_bound: "length (snd (reader_protocol_transceive14 R w tx m crc t a p)) \<le> m"
  using transceive_bound by (simp add: transceive14_front)

lemma read_page_bound: "length (snd (reader_tags_ntag_read_page R w p)) \<le> 16"
  unfolding reader_tags_ntag_read_page_def by (rule transceive14_bound)

lemma write_attempts_return:
  assumes "length d = 4"
  shows "tag_state_ok (snd w) \<Longrightarrow> returns (write_page_attempts R attempt n w page (Some d)) (\<lambda>_. True)"
proof (induction n arbitrary: attempt w)
  case (Suc n)
  have act: "returns (if attempt \<noteq> 0 then reader_protocol_activate_iso14443a R w else Some (w, True)) (\<lambda>_. True)"
    using Suc.prems activate_returns by simp
  show ?case unfolding write_page_attempts.simps
  proof (rule returns_bind [OF act], goal_cases)
    case (1 w1 active)
    obtain w2 rx where 2: "reader_protocol_transceive14 R w1 (0xA2 # byte page # d) 4 True 10 False True = (w2, rx)" by fastforce
    have s2: "snd w2 = snd w1" by (rule transceive14_same [OF 2])
    define w3 where "w3 = (tr_delay_ms R (fst w2) (if rx \<noteq> [] \<and> hd rx AND 0x0F = 0x0A then 5 else 8), snd w2)"
    obtain w4 verify where 4: "reader_tags_ntag_read_page R w3 page = (w4, verify)" by fastforce
    have s4: "snd w4 = snd w1" using read_page_same [OF 4] s2 by (simp add: w3_def)
    have m: "mem_eq (Some verify) (Some d) 4 = Some (take 4 verify = take 4 d)" if "4 \<le> length verify"
      using that assms by simp
    show ?case using 1 Suc.IH s4 m
      by (auto simp: ntag_write_page_eq [OF assms] 2 w3_def [symmetric] 4)
  qed
qed simp

lemma write_unit_returns:
  assumes "tag_state_ok (snd w)" "length d = 4"
  shows "returns (reader_tags_type2_write_unit R w u (Some d) 4) (\<lambda>_. True)"
  using assms write_attempts_return [OF assms(2,1)]
  by (simp add: reader_tags_type2_write_unit_def reader_tags_type2_write_page_def)

end

interpretation type2_writer: unit_writer "reader_tags_type2_write_unit R" "\<lambda>w. bounded_radio R \<and> tag_state_ok (snd w)"
  for R :: "'c tag_radio"
  by unfold_locales (use bounded_radio.write_unit_returns in \<open>fastforce simp: returns_def\<close>)

section \<open>The capability container\<close>

text \<open>What the reader takes from a readable capability container.\<close>

definition cc_read :: "bytes \<Rightarrow> type2_info \<Rightarrow> bool" where
  "cc_read page3 info \<longleftrightarrow> t2_cc_valid info = (page3 ! 0 = 0xE1) \<and>
     (t2_cc_valid info \<longrightarrow> t2_data_area_size info = 8 * unat (page3 ! 2) \<and>
       t2_read_open info = (page3 ! 3 AND 0xF0 = 0) \<and> t2_write_open info = (page3 ! 3 AND 0x0F = 0))"

lemma apply_cc_read:
  assumes "4 \<le> length page3"
  shows "\<exists>info. nfc_tag_type2_apply_cc type2_zero (Some page3) 4 = Some info \<and> cc_read page3 info"
proof -
  have "unat (page3 ! 2) < 8192" using unat_u8_bound [of "page3 ! 2"] by linarith
  then show ?thesis using assms
    by (auto simp: nfc_tag_type2_apply_cc_def nfc_tag_type2_clear_cc_info_def type2_zero_def cc_read_def Let_def)
qed

lemma hint_keeps:
  assumes "tag_state_ok s" "cc_read page3 info"
  shows "\<exists>info'. st25tn_hint s info = Some info' \<and> cc_read page3 info'"
  using assms
  by (auto simp: st25tn_hint_def tag_state_ok_def nfc_tag_type2_apply_family_hint_def cc_read_def Let_def)

lemma storage_info_read:
  assumes "tag_state_ok (snd w)" "ts_uid14_len (snd w) \<noteq> 0" "ts_sak (snd w) AND 0x20 = 0"
    and "reader_tags_ntag_read_page R w 3 = (w', page3)" "4 \<le> length page3"
  shows "\<exists>info. reader_tags_get_type2_storage_info R w = Some (w', t2_cc_valid info, info) \<and> cc_read page3 info"
proof -
  have "snd w' = snd w" by (rule read_page_same [OF assms(4)])
  then obtain info info' where "nfc_tag_type2_apply_cc type2_zero (Some page3) 4 = Some info"
    "st25tn_hint (snd w') info = Some info'" "cc_read page3 info'"
    using apply_cc_read [OF assms(5)] hint_keeps [of "snd w'" page3] assms(1) by metis
  then show ?thesis using assms by (auto simp: reader_tags_get_type2_storage_info_def)
qed

lemma storage_info_returns:
  assumes "tag_state_ok (snd w)"
  shows "returns (reader_tags_get_type2_storage_info R w) (\<lambda>(ok, info). t2_data_area_size info \<le> 2040 \<or> \<not> t2_cc_valid info)"
proof (cases "ts_uid14_len (snd w) = 0 \<or> ts_sak (snd w) AND 0x20 \<noteq> 0")
  case True
  then show ?thesis using assms by (simp add: reader_tags_get_type2_storage_info_def type2_zero_def)
next
  case False
  obtain w' page3 where r: "reader_tags_ntag_read_page R w 3 = (w', page3)" by fastforce
  then have s: "snd w' = snd w" by (rule read_page_same)
  show ?thesis
  proof (cases "4 \<le> length page3")
    case True
    obtain info where i: "reader_tags_get_type2_storage_info R w = Some (w', t2_cc_valid info, info)" "cc_read page3 info"
      using storage_info_read [OF assms _ _ r True] False by fast
    have "t2_data_area_size info \<le> 2040 \<or> \<not> t2_cc_valid info"
      using i(2) unat_u8_le [of "page3 ! 2"] by (auto simp: cc_read_def)
    then show ?thesis using i(1) s assms by simp
  next
    assume "\<not> 4 \<le> length page3"
    then show ?thesis using False r s assms by (simp add: reader_tags_get_type2_storage_info_def type2_zero_def)
  qed
qed

section \<open>Reading a run of pages\<close>

lemma read_binary_eq:
  assumes "0 < cap" "reader_tags_type2_fast_read_allowed (snd w) = Some (s, ok)"
    and w1: "w1 = (if cap \<ge> 16 \<and> page \<le> 255 then (fst w, s) else w)"
    and pages: "pages = cap div 4" and last_page: "last_page = u16n (page + pages - 1)"
  shows "reader_tags_type2_read_binary R w page (Some buf) cap =
    (if (16 \<le> cap \<and> page \<le> 255 \<and> ok) \<and> pages \<noteq> 0 \<and> last_page \<le> 255 then do {
       (w, r, buf) \<leftarrow> reader_tags_ntag_fast_read R w1 page last_page (Some buf) (pages * 4);
       if r \<ge> int (pages * 4) then read_binary_loop R w (page + pages) (pages * 4) buf cap
       else read_binary_loop R (fst w, snd w\<lparr>ts_fast_disabled := True\<rparr>) page 0 buf cap }
     else read_binary_loop R w1 page 0 (Some buf) cap)"
  using assms(1) unfolding reader_tags_type2_read_binary_def Let_def pages [symmetric] last_page [symmetric]
  by (cases "16 \<le> cap \<and> page \<le> 255") (use assms(2) in \<open>auto simp: w1\<close>)

lemma fast_allowed_total:
  assumes "tag_state_ok s"
  shows "\<exists>s' ok. reader_tags_type2_fast_read_allowed s = Some (s', ok) \<and> tag_state_ok s'"
proof -
  have "\<exists>s'. reader_tags_type2_refresh_fast_read_cache s = Some s' \<and> tag_state_ok s'"
    using assms by (auto simp: reader_tags_type2_refresh_fast_read_cache_def tag_state_ok_def)
  then show ?thesis by (auto simp: reader_tags_type2_fast_read_allowed_def tag_state_ok_def)
qed

lemma read_loop_returns:
  assumes "cap \<le> length buf" "length buf < 65536"
  shows "tag_state_ok (snd w) \<Longrightarrow> copied \<le> cap \<Longrightarrow>
    returns (read_binary_loop R w page copied (Some buf) cap) (buffer_of (length buf) cap)"
  using assms
proof (induction "cap - copied" arbitrary: w page copied buf rule: less_induct)
  case less
  define chunk where "chunk = (if 16 < cap - copied then 16 else cap - copied)"
  obtain w1 page_buf where 1: "reader_tags_ntag_read_page R w page = (w1, page_buf)" by fastforce
  have s1: "snd w1 = snd w" by (rule read_page_same [OF 1])
  show ?case
  proof (cases "copied < cap \<and> page \<le> 255 \<and> chunk \<le> length page_buf")
    case True
    have c: "0 < chunk" "copied + chunk \<le> cap" using True unfolding chunk_def by auto
    define b where "b = patch buf copied (take chunk page_buf)"
    have b: "length b = length buf" using c less.prems unfolding b_def by simp
    have "returns (read_binary_loop R w1 (page + 4) (copied + chunk) (Some b) cap) (buffer_of (length b) cap)"
      by (rule less.hyps) (use less.prems c s1 b in simp_all)
    moreover have "nero_nfc_copy_bytes (Some buf) cap copied (Some page_buf) chunk = Some (True, Some b)"
      using c less.prems True unfolding b_def by simp
    ultimately show ?thesis using True b
      unfolding read_binary_loop.simps [of R w page] Let_def chunk_def [symmetric] 1 by simp
  next
    case False
    then show ?thesis using s1 less.prems
      unfolding read_binary_loop.simps [of R w page] Let_def chunk_def [symmetric] 1 by (auto simp: buffer_of_def)
  qed
qed

context bounded_radio
begin

lemma fast_loop_returns:
  assumes "4 * (last_page + 1 - page) + copied \<le> length buf" "page \<le> last_page + 1" "tag_state_ok (snd w)"
    "copied + 4 * (last_page + 1 - page) \<le> cap"
  shows "returns (fast_read_loop R w page last_page copied (Some buf)) (buffer_of (length buf) cap)"
  using assms
proof (induction "last_page + 1 - page" arbitrary: w page copied buf rule: less_induct)
  case less
  define k where "k = (if 48 < last_page - page + 1 then 48 else last_page - page + 1)"
  obtain w1 rx where 1: "reader_protocol_transceive14 R w [0x3A, byte page, byte (page + k - 1)] (k * 4) True 20 False False = (w1, rx)"
    by fastforce
  have s1: "snd w1 = snd w" "length rx \<le> k * 4"
    using transceive14_same [OF 1]
      transceive14_bound [of w "[0x3A, byte page, byte (page + k - 1)]" "k * 4" True 20 False False] unfolding 1 by simp_all
  show ?case
  proof (cases "page \<le> last_page")
    case True
    have k: "0 < k" "k \<le> last_page + 1 - page" using True unfolding k_def by auto
    have fit: "copied + k * 4 \<le> length buf" using less.prems(1) k by linarith
    have act: "returns (do { (w, _) \<leftarrow> reader_protocol_activate_iso14443a R w1;
          Some (w, -1 :: int, Some (patch buf copied rx)) }) (buffer_of (length buf) cap)"
      by (rule returns_bind [OF activate_returns]) (use s1 less.prems fit in \<open>auto simp: buffer_of_def\<close>)
    define b where "b = patch buf copied rx"
    have b: "length b = length buf" using fit s1(2) unfolding b_def by simp
    have "returns (fast_read_loop R w1 (page + k) last_page (copied + k * 4) (Some b)) (buffer_of (length b) cap)"
      by (rule less.hyps) (use less.prems k s1 b True in simp_all)
    moreover have "mem_move (Some buf) copied (Some rx) (length rx) = Some (Some b)"
      using fit s1(2) unfolding b_def by simp
    ultimately show ?thesis using True b act
      unfolding fast_read_loop.simps [of R w page] Let_def k_def [symmetric] 1 b_def [symmetric] by simp
  next
    case False
    then show ?thesis using less.prems
      by (subst fast_read_loop.simps) (simp add: buffer_of_def)
  qed
qed


lemma fast_read_returns:
  assumes "tag_state_ok (snd w)" "cap \<le> length buf"
  shows "returns (reader_tags_ntag_fast_read R w first_page last_page (Some buf) cap) (buffer_of (length buf) cap)"
  using assms fast_loop_returns [of last_page first_page 0 buf w cap]
  by (auto simp: reader_tags_ntag_fast_read_def buffer_of_def Suc_diff_le)

lemma read_binary_returns:
  assumes "tag_state_ok (snd w)" "cap \<le> length buf" "length buf < 65536"
  shows "returns (reader_tags_type2_read_binary R w page (Some buf) cap) (buffer_of (length buf) cap)"
proof (cases "cap = 0")
  case False
  obtain s ok where a: "reader_tags_type2_fast_read_allowed (snd w) = Some (s, ok)" "tag_state_ok s"
    using fast_allowed_total [OF assms(1)] by blast
  define w1 where "w1 = (if cap \<ge> 16 \<and> page \<le> 255 then (fst w, s) else w)"
  have w1: "tag_state_ok (snd w1)" using a(2) assms(1) by (simp add: w1_def)
  define pages where "pages = cap div 4"
  have p: "pages * 4 \<le> cap" unfolding pages_def by simp
  define last_page where "last_page = u16n (page + pages - 1)"
  have plain: "returns (read_binary_loop R (fst w, snd w\<lparr>ts_fast_disabled := True\<rparr>) page 0 (Some b) cap) (buffer_of (length buf) cap)"
    if "length b = length buf" "tag_state_ok (snd w)" for b and w :: "'c \<times> tag_state"
    using read_loop_returns [of cap b "(fst w, snd w\<lparr>ts_fast_disabled := True\<rparr>)" 0 R page] that assms by (simp add: tag_state_ok_def)
  have fast: "returns (do {
       (w, r, buf) \<leftarrow> reader_tags_ntag_fast_read R w1 page last_page (Some buf) (pages * 4);
       if r \<ge> int (pages * 4) then read_binary_loop R w (page + pages) (pages * 4) buf cap
       else read_binary_loop R (fst w, snd w\<lparr>ts_fast_disabled := True\<rparr>) page 0 buf cap }) (buffer_of (length buf) cap)"
  proof (rule returns_bind [OF fast_read_returns [OF w1]], use p assms in simp, goal_cases)
    case (1 w2 a)
    then obtain r b where ra: "a = (r, Some b)" "length b = length buf" by (auto simp: buffer_of_def)
    show ?case using ra plain [OF ra(2) 1(1)] read_loop_returns [of cap b w2 "pages * 4" R "page + pages"] 1(1) p assms
      by simp
  qed
  have slow: "returns (read_binary_loop R w1 page 0 (Some buf) cap) (buffer_of (length buf) cap)"
    using read_loop_returns [of cap buf w1 0 R page] w1 assms by simp
  show ?thesis using read_binary_eq [OF _ a(1) w1_def pages_def last_page_def, of R buf] False fast slow by simp
qed (use assms in \<open>simp add: reader_tags_type2_read_binary_def buffer_of_def\<close>)

lemma load_returns:
  assumes w: "tag_state_ok (snd w)" and d: "cap \<le> length dst" "length dst < 65536"
  shows "returns (reader_tags_load_type2_ndef_message R w (Some dst) cap) (buffer_of (length dst) cap)"
proof -
  have fail: "buffer_of (length dst) cap (-1, Some dst)" by (simp add: buffer_of_def)
  show ?thesis
  proof (cases "cap = 0")
    case False
    then have ok: "\<not> (Some dst = None \<or> cap = 0)" by simp
    show ?thesis unfolding reader_tags_load_type2_ndef_message_def if_not_P [OF ok]
    proof (rule returns_bind [OF storage_info_returns [OF w]], goal_cases)
      case (1 w1 a)
      obtain c s ok info where wa: "w1 = (c, s)" "a = (ok, info)" by (metis surj_pair)
      note 1 = 1 [unfolded wa, simplified]
      define m where "m = min (if t2_data_area_size info + 4 > 916 then 916 else t2_data_area_size info + 4)"
      show ?case
      proof (cases "ok \<and> t2_cc_valid info \<and> t2_read_open info \<and> t2_data_area_size info \<noteq> 0")
        case True
        then have size: "t2_data_area_size info \<le> 2040" using 1 by simp
        show ?thesis
        proof (cases "reader_tags_type2_read_cap info")
          case (Some raw_cap)
          define n where "n = min (if 4 + t2_data_area_size info > 916 then 916 else 4 + t2_data_area_size info) raw_cap"
          have n: "n \<le> 916" unfolding n_def by (simp add: min_def)
          have add: "nero_nfc_try_add_u16 4 (t2_data_area_size info) = Some (4 + t2_data_area_size info)"
            using size by (simp add: try_add_u16_eq_Some_iff)
          have "returns (do {
              (w, got, raw) \<leftarrow> reader_tags_type2_read_binary R (c, s) 3 (Some (replicate 916 0)) n;
              if got < 4 then Some (w, -1, Some dst) else deliver_message w raw (u16n (nat got)) 4 (Some dst) cap })
            (buffer_of (length dst) cap)"
          proof (rule returns_bind [OF read_binary_returns], goal_cases)
            case (4 w2 a)
            then obtain got b where b: "a = (got, Some b)" "length b = 916" "got \<le> int n" by (auto simp: buffer_of_def)
            have "nat got \<le> 916" using b(3) n by simp
            then obtain r new where "deliver_message w2 (Some b) (u16n (nat got)) 4 (Some dst) cap = Some (w2, r, Some new)"
              "length new = length dst" "r = -1 \<or> 0 \<le> r \<and> r \<le> int cap"
              using deliver_total [of "u16n (nat got)" b cap dst w2 4] b d by auto
            then show ?case using 4 b(1) fail by (auto simp: buffer_of_def)
          qed (use 1 n in simp_all)
          then show ?thesis using True Some add wa by (simp add: n_def)
        qed (use True 1 fail wa in simp)
      qed (use 1 fail wa in auto)
    qed
  qed (use w fail in \<open>simp add: reader_tags_load_type2_ndef_message_def\<close>)
qed

lemma write_returns_any:
  assumes w: "tag_state_ok (snd w)" and n: "n \<le> length ndef" "length ndef < 65536"
  shows "returns (reader_tags_write_type2_ndef_message R w (Some ndef) n) (\<lambda>_. True)"
proof -
  have ok: "\<not> (n \<noteq> 0 \<and> Some ndef = None)" by simp
  show ?thesis unfolding reader_tags_write_type2_ndef_message_def if_not_P [OF ok]
  proof (rule returns_bind [OF storage_info_returns [OF w]], goal_cases)
    case (1 w1 a)
    obtain ok info where a: "a = (ok, info)" by fastforce
    note 1 = 1 [unfolded a, simplified]
    define cap where "cap = (if t2_data_area_size info > 916 then 916 else t2_data_area_size info)"
    have cap: "cap \<le> 916" unfolding cap_def by simp
    let ?L = "nfc_ndef_tlv_envelope_len n"
    show ?case
    proof (cases "ok \<and> t2_cc_valid info \<and> t2_write_open info \<and> t2_data_area_size info \<noteq> 0 \<and> ?L \<le> cap")
      case True
      obtain tlv where t: "nfc_ndef_build_message_tlv (Some ndef) n (Some (replicate 916 0)) cap = Some (True, Some tlv, ?L)"
        "length tlv = 916"
        using build_message_spec [of n ndef cap "replicate 916 0"] n(1) cap True by auto
      obtain w2 res where 2: "reader_tags_write_storage_tlv_units (Some tlv) ?L 4 4 (reader_tags_type2_write_unit R) w1 = Some (w2, res)"
        "tag_state_ok (snd w2)"
        using type2_writer.write_storage_returns [of R w1 ?L tlv 4] 1(1) bounded_radio_axioms t(2) cap True by auto
      have "nfc_storage_ceil_units_u16 ?L 4 = Some ((?L + 3) div 4)" using cap True by (simp add: ceil_units_eq)
      then show ?thesis using True a t(1) 1(1) 2
        by (auto simp: cap_def [symmetric] split: option.split)
    next
      case False
      have "nfc_ndef_build_message_tlv (Some ndef) n (Some (replicate 916 0)) cap =
          Some (False, Some (replicate 916 0), if ?L > 0xFFFF then u16n 0xFFFF else u16n ?L)" if "cap < ?L"
        using that by (simp add: nfc_ndef_build_message_tlv_def)
      then show ?thesis using False a 1(1) by (auto simp: cap_def [symmetric] not_le)
    qed
  qed
qed

end

text \<open>
  C27: whatever is in the field, reading and writing the message of a Type 2 tag returns, keeps the
  arrays of the reader's state in their sizes, and the message read fits the caller's buffer.
\<close>

theorem type2_messages_safe:
  assumes "bounded_radio R" "tag_state_ok (snd w)" "cap \<le> length dst" "length dst < 65536"
    "n \<le> length ndef" "length ndef < 65536"
  shows "returns (reader_tags_load_type2_ndef_message R w (Some dst) cap) (buffer_of (length dst) cap) \<and>
    returns (reader_tags_write_type2_ndef_message R w (Some ndef) n) (\<lambda>_. True)"
  using bounded_radio.load_returns [OF assms(1-4)] bounded_radio.write_returns_any [OF assms(1,2,5,6)] by simp

theorem type2_messages_safe_witness:
  "returns (reader_tags_load_type2_ndef_message noisy_radio
      ((), fresh_tag_state) (Some (replicate 100 0)) 100) (buffer_of (length (replicate 100 (0 :: u8))) 100) \<and>
    returns (reader_tags_write_type2_ndef_message noisy_radio
      ((), fresh_tag_state) (Some [0xD0, 0, 0]) 3) (\<lambda>_. True)"
  by (rule type2_messages_safe) (simp_all add: noisy_bounded fresh_tag_state_ok)

end
