(* ===== verification/TagType2Store.thy ===== *)
theory TagType2Store
  imports TagType2Safe
begin

text \<open>
  A message written to a Type 2 tag is read back. The tag is a predicate on the radio: \<open>pages\<close> is
  its memory in a state of the radio, READ answers four pages and wraps at the end, FAST_READ
  answers the pages or too little (a tag without it), WRITE is acknowledged and stores a page, and
  nothing else changes the memory.
\<close>

section \<open>The tag\<close>

definition type2_tag :: "'c tag_radio \<Rightarrow> ('c \<Rightarrow> bytes list) \<Rightarrow> nat \<Rightarrow> bool" where
  "type2_tag R pages n \<longleftrightarrow> 4 < n \<and> n \<le> 256 \<and>
     (\<forall>c. length (pages c) = n \<and> (\<forall>d\<in>set (pages c). length d = 4)) \<and>
     (\<forall>c p. p < n \<longrightarrow>
        snd (tr_transceive R c [0x30, byte p] 16 True 20 False False) = concat (take 4 (drop p (pages c @ pages c)))) \<and>
     (\<forall>c a b. a \<le> b \<and> b < n \<longrightarrow>
        (let rx = snd (tr_transceive R c [0x3A, byte a, byte b] ((b + 1 - a) * 4) True 20 False False) in
         rx = concat (take (b + 1 - a) (drop a (pages c))) \<or> length rx < (b + 1 - a) * 4)) \<and>
     (\<forall>c p d. 4 \<le> p \<and> p < n \<and> length d = 4 \<longrightarrow>
        (\<exists>c'. tr_transceive R c (0xA2 # byte p # d) 4 True 10 False True = (c', [0x0A]) \<and> pages c' = (pages c)[p := d])) \<and>
     (\<forall>c tx m crc t a p. length tx \<noteq> 6 \<longrightarrow> pages (fst (tr_transceive R c tx m crc t a p)) = pages c) \<and>
     (\<forall>c. pages (fst (tr_wupa R c)) = pages c \<and> pages (fst (tr_reqa R c)) = pages c \<and>
        (\<forall>t. pages (tr_delay_ms R c t) = pages c))"

lemma type2_tagD:
  assumes "type2_tag R pages n"
  shows "4 < n" "n \<le> 256" "length (pages c) = n" "d \<in> set (pages c) \<Longrightarrow> length d = 4"
    and "p < n \<Longrightarrow> snd (tr_transceive R c [0x30, byte p] 16 True 20 False False) = concat (take 4 (drop p (pages c @ pages c)))"
    and "length tx \<noteq> 6 \<Longrightarrow> pages (fst (tr_transceive R c tx m crc t a np)) = pages c"
    and "pages (tr_delay_ms R c t) = pages c" "pages (fst (tr_wupa R c)) = pages c" "pages (fst (tr_reqa R c)) = pages c"
  using assms unfolding type2_tag_def by blast+

lemma type2_tag_write:
  assumes "type2_tag R pages n" "4 \<le> p" "p < n" "length d = 4"
  obtains c' where "tr_transceive R c (0xA2 # byte p # d) 4 True 10 False True = (c', [0x0A])" "pages c' = (pages c)[p := d]"
  using assms unfolding type2_tag_def by blast

lemma type2_tag_fast:
  assumes "type2_tag R pages n" "a \<le> b" "b < n"
    "tr_transceive R c [0x3A, byte a, byte b] ((b + 1 - a) * 4) True 20 False False = (c', rx)"
  shows "rx = concat (take (b + 1 - a) (drop a (pages c))) \<or> length rx < (b + 1 - a) * 4" "pages c' = pages c"
proof -
  have fast: "snd (tr_transceive R c [0x3A, byte a, byte b] ((b + 1 - a) * 4) True 20 False False) = concat (take (b + 1 - a) (drop a (pages c))) \<or>
      length (snd (tr_transceive R c [0x3A, byte a, byte b] ((b + 1 - a) * 4) True 20 False False)) < (b + 1 - a) * 4"
    if "a \<le> b" "b < n" for a b c
    using assms(1) that unfolding type2_tag_def Let_def by blast
  have "snd (tr_transceive R c [0x3A, byte a, byte b] ((b + 1 - a) * 4) True 20 False False) = rx"
    "fst (tr_transceive R c [0x3A, byte a, byte b] ((b + 1 - a) * 4) True 20 False False) = c'" using assms(4) by simp_all
  then show "rx = concat (take (b + 1 - a) (drop a (pages c))) \<or> length rx < (b + 1 - a) * 4" "pages c' = pages c"
    using fast [OF assms(2,3), of c] type2_tagD(6) [OF assms(1), of "[0x3A, byte a, byte b]" c "(b + 1 - a) * 4" True 20 False False]
    by simp_all
qed

lemma type2_tag_quiet: "type2_tag R pages n \<Longrightarrow> quiet_radio R (\<lambda>c. pages c = m)"
  using type2_tagD(6,7,8,9) [of R pages n] by (auto simp: quiet_radio_def)

section \<open>Memory as bytes\<close>

lemma concat_take4: "\<forall>d\<in>set ds. length d = 4 \<Longrightarrow> concat (take k ds) = take (4 * k) (concat ds)"
proof (induction ds arbitrary: k)
  case (Cons d ds)
  then show ?case by (cases k) simp_all
qed simp

lemma concat_drop4: "\<forall>d\<in>set ds. length d = 4 \<Longrightarrow> concat (drop k ds) = drop (4 * k) (concat ds)"
proof (induction ds arbitrary: k)
  case (Cons d ds)
  then show ?case by (cases k) simp_all
qed simp

lemma tag_read:
  assumes t: "type2_tag R pages n" "p < n"
  shows "\<exists>c' rx. reader_tags_ntag_read_page R (c, s) p = ((c', s), rx) \<and> pages c' = pages c \<and> length rx = 16 \<and>
    (\<forall>m \<le> 16. m \<le> 4 * (n - p) \<longrightarrow> take m rx = take m (concat (drop p (pages c))))"
proof -
  let ?M = "concat (pages c)"
  have l: "length (pages c) = n" "\<forall>d\<in>set (pages c @ pages c). length d = 4" "4 < n"
    using type2_tagD(1) [OF t(1)] type2_tagD(3) [OF t(1), of c] type2_tagD(4) [OF t(1), of _ c] by auto
  have lm: "length ?M = 4 * n" using length_concat_units [of "pages c"] l by simp
  obtain c' rx where r: "tr_transceive R c [0x30, byte p] 16 True 20 False False = (c', rx)" by fastforce
  have "rx = concat (take 4 (drop p (pages c @ pages c)))" using type2_tagD(5) [OF t, of c] r by simp
  moreover define PP where "PP = pages c @ pages c"
  have "\<forall>d\<in>set (drop p PP). length d = 4" "\<forall>d\<in>set PP. length d = 4"
    using l(2) unfolding PP_def by (auto dest: in_set_dropD)
  then have "concat (take 4 (drop p PP)) = take 16 (drop (4 * p) (concat PP))" by (simp add: concat_take4 concat_drop4)
  ultimately have rx: "rx = take 16 (drop (4 * p) (?M @ ?M))" by (simp add: PP_def)
  have "length rx = 16" unfolding rx using lm l t(2) by simp
  moreover have "take m rx = take m (concat (drop p (pages c)))" if "m \<le> 16" "m \<le> 4 * (n - p)" for m
    using that lm l t(2) unfolding rx by (simp add: concat_drop4)
  moreover have "pages c' = pages c" using type2_tagD(6) [OF t(1), of "[0x30, byte p]" c 16 True 20 False False] r by simp
  ultimately show ?thesis using r by (simp add: reader_tags_ntag_read_page_def reader_protocol_transceive14_def)
qed

section \<open>Reading\<close>

lemma read_loop_tag:
  assumes t: "type2_tag R pages n" and cap: "4 * first + cap \<le> 4 * n" "cap \<le> length buf" "length buf < 65536"
  shows "4 * page = 4 * first + copied \<Longrightarrow> copied \<le> cap \<Longrightarrow> pages c = P \<Longrightarrow>
    \<exists>c'. read_binary_loop R (c, s) page copied (Some (patch buf 0 (take copied (concat (drop first P))))) cap =
      Some ((c', s), int cap, Some (patch buf 0 (take cap (concat (drop first P))))) \<and> pages c' = P"
proof (induction "cap - copied" arbitrary: page copied c rule: less_induct)
  case less
  let ?X = "concat (drop first P)"
  let ?b = "patch buf 0 (take copied ?X)"
  define chunk where "chunk = (if 16 < cap - copied then 16 else cap - copied)"
  show ?case
  proof (cases "copied < cap")
    case True
    have p: "page < n" "page \<le> 255" using less.prems(1) True cap type2_tagD(2) [OF t] by linarith+
    obtain c1 rx where 1: "reader_tags_ntag_read_page R (c, s) page = ((c1, s), rx)" "pages c1 = P" "length rx = 16"
      "\<And>m. m \<le> 16 \<Longrightarrow> m \<le> 4 * (n - page) \<Longrightarrow> take m rx = take m (concat (drop page P))"
      using tag_read [OF t p(1), of c s] less.prems(3) by auto
    have P4: "\<forall>d\<in>set P. length d = 4" "length P = n" using type2_tagD(3) [OF t, of c] type2_tagD(4) [OF t, of _ c] less.prems(3) by auto
    have lX: "length ?X = 4 * n - 4 * first"
      using length_concat_units [of P] P4 by (simp add: concat_drop4)
    have c: "0 < chunk" "copied + chunk \<le> cap" "chunk \<le> 16" "chunk \<le> 4 * (n - page)"
      using True less.prems(1) cap unfolding chunk_def by auto
    have "take chunk rx = take chunk (drop copied ?X)"
      using 1(4) [OF c(3,4)] less.prems(1) P4 by (simp add: concat_drop4 add.commute)
    then have "patch ?b copied (take chunk rx) = patch buf 0 (take copied ?X @ take chunk (drop copied ?X))"
      using patch_patch [of 0 "take copied ?X" "take chunk rx" buf copied] c cap lX by simp
    also have "take copied ?X @ take chunk (drop copied ?X) = take (copied + chunk) ?X" by (simp add: take_add)
    finally have b: "patch ?b copied (take chunk rx) = patch buf 0 (take (copied + chunk) ?X)" .
    have "nero_nfc_copy_bytes (Some ?b) cap copied (Some rx) chunk = Some (True, Some (patch buf 0 (take (copied + chunk) ?X)))"
      using c cap 1(3) lX b by simp
    moreover have "\<exists>c'. read_binary_loop R (c1, s) (page + 4) (copied + chunk) (Some (patch buf 0 (take (copied + chunk) ?X))) cap =
      Some ((c', s), int cap, Some (patch buf 0 (take cap ?X))) \<and> pages c' = P"
    proof (cases "chunk = 16")
      case True
      then show ?thesis by (intro less.hyps) (use c less.prems 1(2) in simp_all)
    next
      case False
      then have "copied + chunk = cap" using c unfolding chunk_def by (auto split: if_splits)
      then show ?thesis using 1(2) by (subst read_binary_loop.simps) simp
    qed
    ultimately show ?thesis using True p c 1(3)
      unfolding read_binary_loop.simps [of R "(c, s)" page] Let_def chunk_def [symmetric] 1(1) by simp
  next
    case False
    then show ?thesis using less.prems by (subst read_binary_loop.simps) simp
  qed
qed

lemma fast_loop_tag:
  assumes t: "type2_tag R pages n" and r: "bounded_radio R" and s: "tag_state_ok s"
    and cap: "4 * (last_page + 1 - first) \<le> cap" "cap \<le> length buf" "last_page < n"
  shows "4 * page = 4 * first + copied \<Longrightarrow> page \<le> last_page + 1 \<Longrightarrow> pages c = P \<Longrightarrow>
    \<exists>c' s' r buf'. fast_read_loop R (c, s) page last_page copied (Some (patch buf 0 (take copied (concat (drop first P))))) =
      Some ((c', s'), r, Some buf') \<and> pages c' = P \<and> tag_state_ok s' \<and> length buf' = length buf \<and> drop cap buf' = drop cap buf \<and>
      (r = -1 \<or> r = int (4 * (last_page + 1 - first)) \<and> s' = s \<and>
        buf' = patch buf 0 (take (4 * (last_page + 1 - first)) (concat (drop first P))))"
proof (induction "last_page + 1 - page" arbitrary: page copied c rule: less_induct)
  case less
  let ?X = "concat (drop first P)"
  let ?b = "patch buf 0 (take copied ?X)"
  define k where "k = (if 48 < last_page - page + 1 then 48 else last_page - page + 1)"
  have P4: "\<forall>d\<in>set P. length d = 4" "length P = n"
    using type2_tagD(3) [OF t, of c] type2_tagD(4) [OF t, of _ c] less.prems(3) by auto
  have lX: "length ?X = 4 * n - 4 * first" using length_concat_units [of P] P4 by (simp add: concat_drop4)
  show ?case
  proof (cases "page \<le> last_page")
    case True
    have k: "0 < k" "page + k \<le> last_page + 1" "page + k - 1 < n" "page \<le> page + k - 1" "page + k - 1 + 1 - page = k"
      using True cap(3) unfolding k_def by auto
    obtain c1 rx where 1: "tr_transceive R c [0x3A, byte page, byte (page + k - 1)] (k * 4) True 20 False False = (c1, rx)" by fastforce
    have rx: "rx = concat (take k (drop page P)) \<or> length rx < k * 4" "pages c1 = P"
      using type2_tag_fast [OF t k(4,3), unfolded k(5), OF 1] less.prems(3) by simp_all
    have bound: "length rx \<le> k * 4"
      using bounded_radio.transceive_bound [OF r, of c "[0x3A, byte page, byte (page + k - 1)]" "k * 4" True 20 False False] 1 by simp
    have fit: "copied + k * 4 \<le> 4 * (last_page + 1 - first)" "first \<le> page" using less.prems(1,2) k by linarith+
    define b where "b = patch ?b copied rx"
    have lb: "length b = length buf" "drop cap b = drop cap buf"
      using fit bound cap lX unfolding b_def by (simp_all add: patch_def)
    have mv: "mem_move (Some ?b) copied (Some rx) (length rx) = Some (Some b)"
      using fit bound cap lX unfolding b_def by simp
    have x: "reader_protocol_transceive14 R (c, s) [0x3A, byte page, byte (page + k - 1)] (k * 4) True 20 False False = ((c1, s), rx)"
      using 1 by (simp add: reader_protocol_transceive14_def)
    note step = fast_read_loop.simps [of R "(c, s)" page last_page, unfolded Let_def, folded k_def, unfolded x prod.case]
    show ?thesis
    proof (cases "length rx < k * 4")
      case short: True
      obtain w' ok where "reader_protocol_activate_iso14443a R (c1, s) = Some (w', ok)" "tag_state_ok (snd w')" "pages (fst w') = P"
        using bounded_radio.activate_quiet [OF r, of "(c1, s)" "\<lambda>c. pages c = P"] s type2_tag_quiet [OF t] rx(2) by auto
      then show ?thesis using True short lb mv x unfolding step by (cases w') simp
    next
      case False
      have "take copied ?X @ rx = take (copied + k * 4) ?X"
      proof -
        have "rx = take (k * 4) (drop copied ?X)"
          using rx(1) False less.prems(1) P4 concat_take4 [of "drop page P" k]
          by (auto simp: concat_drop4 add.commute mult.commute dest: in_set_dropD)
        then show ?thesis by (simp add: take_add)
      qed
      then have b: "b = patch buf 0 (take (copied + k * 4) ?X)"
        using patch_patch [of 0 "take copied ?X" rx buf copied] bound fit cap lX unfolding b_def by simp
      have "\<exists>c' s' r buf'. fast_read_loop R (c1, s) (page + k) last_page (copied + k * 4) (Some b) =
        Some ((c', s'), r, Some buf') \<and> pages c' = P \<and> tag_state_ok s' \<and> length buf' = length buf \<and> drop cap buf' = drop cap buf \<and>
        (r = -1 \<or> r = int (4 * (last_page + 1 - first)) \<and> s' = s \<and> buf' = patch buf 0 (take (4 * (last_page + 1 - first)) ?X))"
        unfolding b by (intro less.hyps) (use k less.prems rx(2) True in simp_all)
      then show ?thesis using True False mv x unfolding step by simp
    qed
  next
    case False
    then have "copied = 4 * (last_page + 1 - first)" "page = last_page + 1" using less.prems by linarith+
    then show ?thesis using False less.prems s lX cap
      by (subst fast_read_loop.simps) (simp add: patch_def)
  qed
qed

lemma read_binary_tag:
  assumes t: "type2_tag R pages n" and r: "bounded_radio R" and s: "tag_state_ok s"
    and cap: "0 < cap" "cap \<le> length buf" "length buf < 65536" "4 * first + cap \<le> 4 * n" and P: "pages c = P"
  shows "\<exists>w'. reader_tags_type2_read_binary R (c, s) first (Some buf) cap =
    Some (w', int cap, Some (patch buf 0 (take cap (concat (drop first P))))) \<and> pages (fst w') = P"
proof -
  let ?X = "concat (drop first P)"
  obtain s1 ok where a: "reader_tags_type2_fast_read_allowed (snd (c, s)) = Some (s1, ok)" "tag_state_ok s1"
    using fast_allowed_total [OF s] by auto
  have f: "first < n" "first \<le> 255" using cap(1,4) type2_tagD(2) [OF t] by linarith+
  define s2 where "s2 = (if 16 \<le> cap then s1 else s)"
  have s2: "tag_state_ok s2" using a s by (simp add: s2_def)
  have w1: "(c, s2) = (if cap \<ge> 16 \<and> first \<le> 255 then (fst (c, s), s1) else (c, s))" using f by (simp add: s2_def)
  define k where "k = cap div 4"
  have k: "4 * k \<le> cap" unfolding k_def by simp
  define l where "l = u16n (first + k - 1)"
  have l: "l = first + k - 1" using k cap(2,3) f unfolding l_def by simp
  have P4: "\<forall>d\<in>set P. length d = 4" "length P = n"
    using type2_tagD(3) [OF t, of c] type2_tagD(4) [OF t, of _ c] P by auto
  have lX: "cap \<le> length ?X" using length_concat_units [of P] P4 cap(4) by (simp add: concat_drop4)
  note eq = read_binary_eq [OF cap(1) a(1) w1 k_def l_def, of R buf]
  have plain: "\<exists>c'. read_binary_loop R (c1, s3) first 0 (Some b) cap =
      Some ((c', s3), int cap, Some (patch buf 0 (take cap ?X))) \<and> pages c' = P"
    if "length b = length buf" "drop cap b = drop cap buf" "pages c1 = P" for b c1 s3
    using read_loop_tag [OF t cap(4), of b first 0 c1 P s3] that cap lX by (simp add: patch_def)
  show ?thesis
  proof (cases "(16 \<le> cap \<and> first \<le> 255 \<and> ok) \<and> k \<noteq> 0 \<and> l \<le> 255")
    case True
    have ln: "l < n" "first \<le> l" "l + 1 - first = k" using True l k cap(4) by linarith+
    then have size: "4 * (l + 1 - first) \<le> cap" using k by simp
    obtain c' s' res buf' where 1: "fast_read_loop R (c, s2) first l 0 (Some buf) = Some ((c', s'), res, Some buf')"
      "pages c' = P" "length buf' = length buf" "drop cap buf' = drop cap buf"
      "res = -1 \<or> res = int (4 * k) \<and> buf' = patch buf 0 (take (4 * k) ?X)"
      using fast_loop_tag [OF t r s2 size cap(2) ln(1), of first 0 c P] ln P by auto
    have fr: "reader_tags_ntag_fast_read R (c, s2) first l (Some buf) (k * 4) = Some ((c', s'), res, Some buf')"
    proof -
      have "l - first + 1 = k" using ln by simp
      then show ?thesis using 1(1) ln unfolding reader_tags_ntag_fast_read_def by (simp del: One_nat_def add_Suc_right Nat.add_0_right)
    qed
    show ?thesis
    proof (cases "res = -1")
      case res: True
      then show ?thesis using plain [OF 1(3,4,2), of "s'\<lparr>ts_fast_disabled := True\<rparr>"] True fr unfolding eq by auto
    next
      case False
      then have res: "res = int (4 * k)" "buf' = patch buf 0 (take (4 * k) ?X)" using 1(5) by simp_all
      have "\<exists>c''. read_binary_loop R (c', s') (first + k) (4 * k) (Some buf') cap =
          Some ((c'', s'), int cap, Some (patch buf 0 (take cap ?X))) \<and> pages c'' = P"
        unfolding res(2) by (rule read_loop_tag [OF t cap(4,2,3)]) (use k 1(2) in simp_all)
      then show ?thesis using True fr res(1) unfolding eq by (auto simp: mult.commute)
    qed
  next
    case False
    then show ?thesis using plain [OF refl refl P, of s2] unfolding eq by auto
  qed
qed

section \<open>Writing\<close>

lemma write_unit_tag:
  assumes t: "type2_tag R pages n" and u: "4 \<le> u" "u < n" "length d = 4"
  shows "\<exists>c'. reader_tags_type2_write_unit R (c, s) u (Some d) 4 = Some ((c', s), True) \<and> pages c' = (pages c)[u := d]"
proof -
  obtain c1 where 1: "tr_transceive R c (0xA2 # byte u # d) 4 True 10 False True = (c1, [0x0A])" "pages c1 = (pages c)[u := d]"
    using type2_tag_write [OF t u] by blast
  obtain c2 rx where 2: "reader_tags_ntag_read_page R (tr_delay_ms R c1 5, s) u = ((c2, s), rx)"
    "pages c2 = pages (tr_delay_ms R c1 5)" "length rx = 16"
    "\<And>m. m \<le> 16 \<Longrightarrow> m \<le> 4 * (n - u) \<Longrightarrow> take m rx = take m (concat (drop u (pages (tr_delay_ms R c1 5))))"
    using tag_read [OF t u(2)] by metis
  have p: "pages (tr_delay_ms R c1 5) = (pages c)[u := d]" using 1(2) type2_tagD(7) [OF t] by simp
  have lp: "length (pages c) = n" using type2_tagD(3) [OF t] .
  have "drop u ((pages c)[u := d]) = d # drop (Suc u) (pages c)" using u(2) lp by (simp add: drop_update_swap Cons_nth_drop_Suc [symmetric])
  then have "take 4 rx = d" using 2(4) [of 4] u p by simp
  then have v: "mem_eq (Some rx) (Some d) 4 = Some True" using 2(3) u(3) by simp
  have w: "reader_tags_ntag_write_page R (c, s) u (Some d) = Some ((c1, s), True)"
    using 1(1) by (simp add: ntag_write_page_eq [OF u(3)] reader_protocol_transceive14_def)
  show ?thesis using w v 2(1,2,3) p u type2_tagD(2) [OF t]
    by (simp add: reader_tags_type2_write_unit_def reader_tags_type2_write_page_def numeral_3_eq_3)
qed

interpretation type2_storage: unit_storage "reader_tags_type2_write_unit R"
    "\<lambda>w. type2_tag R pages n \<and> bounded_radio R \<and> tag_state_ok (snd w) \<and> snd w = s0"
    "\<lambda>w. pages (fst w)" 4 n "reader_tags_type2_read_binary R"
  for R :: "'c tag_radio" and pages n s0
proof
  fix w :: "'c \<times> tag_state" and d :: bytes and u :: nat
  assume i: "type2_tag R pages n \<and> bounded_radio R \<and> tag_state_ok (snd w) \<and> snd w = s0"
  assume "length d = 4" "4 \<le> u" "u < n"
  then show "\<exists>w'. reader_tags_type2_write_unit R w u (Some d) 4 = Some (w', True) \<and>
      (type2_tag R pages n \<and> bounded_radio R \<and> tag_state_ok (snd w') \<and> snd w' = s0) \<and>
      pages (fst w') = (pages (fst w))[u := d]"
    using write_unit_tag [of R pages n u d "fst w" s0] i by fastforce
next
  fix w :: "'c \<times> tag_state"
  assume "type2_tag R pages n \<and> bounded_radio R \<and> tag_state_ok (snd w) \<and> snd w = s0"
  then show "length (pages (fst w)) = n \<and> (\<forall>d\<in>set (pages (fst w)). length d = 4)"
    using type2_tagD(3,4) [of R pages n] by blast
next
  fix w :: "'c \<times> tag_state" and m :: nat and buf :: bytes and first :: nat
  assume i: "type2_tag R pages n \<and> bounded_radio R \<and> tag_state_ok (snd w) \<and> snd w = s0"
  assume "0 < m" "m \<le> length buf" "length buf < 65536" "4 * first + m \<le> 4 * n"
  then show "\<exists>w'. reader_tags_type2_read_binary R w first (Some buf) m =
      Some (w', int m, Some (patch buf 0 (take m (concat (drop first (pages (fst w))))))) \<and> pages (fst w') = pages (fst w)"
    using read_binary_tag [of R pages n "snd w" m buf first "fst w" "pages (fst w)"] i unfolding prod.collapse by blast
qed

section \<open>A message written is read back\<close>

text \<open>A tag with an open capability container: \<open>mlen\<close> units of eight bytes, inside the memory.\<close>

definition open_cc :: "bytes list \<Rightarrow> u8 \<Rightarrow> bool" where
  "open_cc P mlen \<longleftrightarrow> (\<exists>ver. P ! 3 = [0xE1, ver, mlen, 0x00]) \<and> 4 + 2 * unat mlen \<le> length P"

lemma tag_storage_info:
  assumes t: "type2_tag R pages n" and s: "tag_state_ok s" "ts_uid14_len s \<noteq> 0" "ts_sak s AND 0x20 = 0"
    and cc: "open_cc (pages c) mlen"
  shows "\<exists>c' info. reader_tags_get_type2_storage_info R (c, s) = Some ((c', s), True, info) \<and> pages c' = pages c \<and>
    t2_cc_valid info \<and> t2_data_area_size info = 8 * unat mlen \<and> t2_read_open info \<and> t2_write_open info"
proof -
  have n: "3 < n" using type2_tagD(1) [OF t] by simp
  obtain c1 rx where 1: "reader_tags_ntag_read_page R (c, s) 3 = ((c1, s), rx)" "pages c1 = pages c" "length rx = 16"
    "\<And>m. m \<le> 16 \<Longrightarrow> m \<le> 4 * (n - 3) \<Longrightarrow> take m rx = take m (concat (drop 3 (pages c)))"
    using tag_read [OF t n, of c s] by auto
  obtain ver where v: "pages c ! 3 = [0xE1, ver, mlen, 0x00]" using cc by (auto simp: open_cc_def)
  have "drop 3 (pages c) = pages c ! 3 # drop 4 (pages c)"
    using n type2_tagD(3) [OF t, of c] Cons_nth_drop_Suc [of 3 "pages c"] by simp
  then have t4: "take 4 rx = [0xE1, ver, mlen, 0x00]" using 1(4) [of 4] n v by simp
  then have "rx ! 0 = 0xE1" "rx ! 2 = mlen" "rx ! 3 = 0x00"
    using nth_take [of 0 4 rx] nth_take [of 2 4 rx] nth_take [of 3 4 rx] by simp_all
  moreover obtain info where "reader_tags_get_type2_storage_info R (c, s) = Some ((c1, s), t2_cc_valid info, info)" "cc_read rx info"
    using storage_info_read [of "(c, s)" R "(c1, s)" rx] s 1(1,3) by auto
  ultimately show ?thesis using 1(2) by (auto simp: cc_read_def)
qed

lemma tag_last_page:
  fixes mlen :: u8
  assumes "t2_cc_valid info" "t2_data_area_size info = 8 * unat mlen" "mlen \<noteq> 0"
  shows "reader_tags_type2_last_page info = Some (min 225 (3 + 2 * unat mlen))"
    and "reader_tags_type2_read_cap info = Some (min 892 (4 + 8 * unat mlen))"
proof -
  have b: "8 * unat mlen \<le> 2040" using unat_u8_le [of mlen] by linarith
  have m: "8 * unat mlen \<noteq> 0" using assms(3) by (simp add: unat_eq_0)
  have "nfc_storage_type2_last_page (8 * unat mlen) = Some (min 225 (3 + (8 * unat mlen + 3) div 4))"
  proof (rule type2_last_page_eq [OF m])
    show "8 * unat mlen \<le> UINT16_MAX" using b by linarith
  qed
  moreover have "(8 * unat mlen + 3) div 4 = 2 * unat mlen" by presburger
  ultimately show l: "reader_tags_type2_last_page info = Some (min 225 (3 + 2 * unat mlen))"
    using assms m by (simp add: reader_tags_type2_last_page_def)
  have "min 225 (3 + 2 * unat mlen) < 65536" by simp
  then show "reader_tags_type2_read_cap info = Some (min 892 (4 + 8 * unat mlen))"
    unfolding reader_tags_type2_read_cap_def l using b by (simp add: min_def)
qed

text \<open>What the write does: the pages of the message change, the rest of the memory does not.\<close>

lemma write_stores_message:
  assumes tag: "type2_tag R pages n" "bounded_radio R"
    and s: "tag_state_ok s" "ts_uid14_len s \<noteq> 0" "ts_sak s AND 0x20 = 0"
    and cc: "open_cc (pages c) mlen"
    and L: "L = nfc_ndef_tlv_envelope_len (length msg)" "L \<le> 8 * unat mlen" "L \<le> 888"
  shows "\<exists>c1 tlv. reader_tags_write_type2_ndef_message R (c, s) (Some msg) (length msg) = Some ((c1, s), True) \<and>
    pages c1 = patch (pages c) 4 (map (unit_of tlv L) [0..<(L + 3) div 4]) \<and> length tlv = 916 \<and>
    take L tlv = tlv_block 3 msg @ [0xFE]"
proof -
  obtain c0 info where i: "reader_tags_get_type2_storage_info R (c, s) = Some ((c0, s), True, info)" "pages c0 = pages c"
    "t2_cc_valid info" "t2_data_area_size info = 8 * unat mlen" "t2_write_open info"
    using tag_storage_info [OF tag(1) s cc] by blast
  have L0: "0 < L" "3 \<le> L" unfolding L(1) by (simp_all add: nfc_ndef_tlv_envelope_len_def)
  then have m: "mlen \<noteq> 0" using L(2) by auto
  define cap where "cap = (if 8 * unat mlen > 916 then 916 else 8 * unat mlen)"
  have cap: "L \<le> cap" "cap \<le> 916" using L unfolding cap_def by auto
  obtain tlv where t: "nfc_ndef_build_message_tlv (Some msg) (length msg) (Some (replicate 916 0)) cap = Some (True, Some tlv, L)"
    "length tlv = 916" "take L tlv = tlv_block 3 msg @ [0xFE]"
    using build_message_spec [of "length msg" msg cap "replicate 916 0"] cap unfolding L(1) by auto
  have area: "t2_data_area_size info \<noteq> 0" "(if t2_data_area_size info > 916 then 916 else t2_data_area_size info) = cap"
    using m by (simp_all add: i(4) cap_def unat_eq_0)
  have units: "nfc_storage_ceil_units_u16 L 4 = Some ((L + 3) div 4)" "(L + 3) div 4 \<noteq> 0"
    using L(3) L0 by (simp_all add: ceil_units_eq)
  have n: "4 * 4 + L \<le> 4 * n" using cc L(2) type2_tagD(3) [OF tag(1), of c] unfolding open_cc_def by linarith
  have "\<exists>w'. reader_tags_write_storage_tlv_units (Some tlv) L 4 4 (reader_tags_type2_write_unit R) (c0, s) = Some (w', True) \<and>
      (type2_tag R pages n \<and> bounded_radio R \<and> tag_state_ok (snd w') \<and> snd w' = s) \<and>
      pages (fst w') = patch (pages (fst (c0, s))) 4 (map (unit_of tlv L) [0..<(L + 3) div 4])"
    by (rule type2_storage.write_storage_stores) (use tag s L0 t(2) L(3) n type2_tagD(2) [OF tag(1)] in simp_all)
  then obtain c1 where w: "reader_tags_write_storage_tlv_units (Some tlv) L 4 4 (reader_tags_type2_write_unit R) (c0, s) = Some ((c1, s), True)"
    "pages c1 = patch (pages c) 4 (map (unit_of tlv L) [0..<(L + 3) div 4])"
    using i(2) by auto
  have pages: "(L + 3) div 4 \<le> 222" "(L + 3) div 4 \<le> 2 * unat mlen" using L(2,3) by linarith+
  then have fits: "\<not> 4 + ((L + 3) div 4 - 1) > min 225 (3 + 2 * unat mlen)" "4 + ((L + 3) div 4 - 1) \<le> 225" using units(2) by linarith+
  then have add: "nero_nfc_try_add_size 4 ((L + 3) div 4 - 1) = Some (4 + ((L + 3) div 4 - 1))"
    by (simp add: try_add_size_eq_Some_iff)
  have "reader_tags_write_type2_ndef_message R (c, s) (Some msg) (length msg) =
      reader_tags_write_storage_tlv_units (Some tlv) L 4 4 (reader_tags_type2_write_unit R) (c0, s)"
    unfolding reader_tags_write_type2_ndef_message_def i(1)
    using i(3,5) area units tag_last_page(1) [OF i(3,4) m] add fits(1) t(1) by simp
  then show ?thesis using w t by auto
qed

text \<open>What the load returns when the pages of a message are in the memory.\<close>

lemma load_finds_message:
  assumes tag: "type2_tag R pages n" "bounded_radio R"
    and s: "tag_state_ok s" "ts_uid14_len s \<noteq> 0" "ts_sak s AND 0x20 = 0"
    and cc: "open_cc P mlen" "length P = n" "\<forall>d\<in>set P. length d = 4"
    and L: "L = nfc_ndef_tlv_envelope_len (length msg)" "L \<le> 8 * unat mlen" "L \<le> 888"
    and mem: "pages c = patch P 4 (map (unit_of tlv L) [0..<(L + 3) div 4])" "length tlv = 916"
      "take L tlv = tlv_block 3 msg @ [0xFE]"
    and dst: "msg \<noteq> []" "length msg \<le> cap" "cap \<le> length dst" "length dst < 65536"
  shows "\<exists>w'. reader_tags_load_type2_ndef_message R (c, s) (Some dst) cap =
    Some (w', int (length msg), Some (patch dst 0 msg)) \<and> pages (fst w') = pages c"
proof -
  have k: "(L + 3) div 4 \<le> 2 * unat mlen" using L(2) by linarith
  have p3: "pages c ! 3 = P ! 3" using cc(1,2) k unfolding mem(1) open_cc_def by (simp add: patch_def nth_append)
  have "open_cc (pages c) mlen" using cc p3 type2_tagD(3) [OF tag(1), of c] by (simp add: open_cc_def)
  then obtain c0 info where i: "reader_tags_get_type2_storage_info R (c, s) = Some ((c0, s), True, info)" "pages c0 = pages c"
    "t2_cc_valid info" "t2_data_area_size info = 8 * unat mlen" "t2_read_open info"
    using tag_storage_info [OF tag(1) s] by blast
  have L0: "0 < L" "3 \<le> L" unfolding L(1) by (simp_all add: nfc_ndef_tlv_envelope_len_def)
  then have m: "mlen \<noteq> 0" using L(2) by auto
  define N where "N = min 892 (4 + 8 * unat mlen)"
  have N: "4 + L \<le> N" "N \<le> 892" "N \<le> 4 + 8 * unat mlen" using L(2,3) unfolding N_def by auto
  have n: "4 * 4 + 8 * unat mlen \<le> 4 * n" using cc unfolding open_cc_def by linarith
  have n1: "4 * 4 + L \<le> 4 * n" "4 * 3 + N \<le> 4 * n" using n N by linarith+
  define cc3 where "cc3 = concat (take (4 - 3) (drop 3 P))"
  have "drop 3 P = P ! 3 # drop 4 P"
    using cc(2) n Cons_nth_drop_Suc [of 3 P] by simp
  then have cc3: "length cc3 = 4" using cc(1) by (auto simp: cc3_def open_cc_def)
  have "\<exists>w' rest. reader_tags_type2_read_binary R (c0, s) 3 (Some (replicate 916 0)) N = Some (w', int N,
      Some (patch (replicate 916 0) 0 (take N (concat (take (4 - 3) (drop 3 P)) @ take L tlv @ rest)))) \<and>
    N \<le> 4 * (4 - 3) + L + length rest \<and> pages (fst w') = pages (fst (c0, s))"
    by (rule type2_storage.stored_is_read) (use tag s cc mem i(2) L0 L(3) N n1 in simp_all)
  then obtain w' rest where r: "reader_tags_type2_read_binary R (c0, s) 3 (Some (replicate 916 0)) N = Some (w', int N,
      Some (patch (replicate 916 0) 0 (take N (cc3 @ take L tlv @ rest))))" "N \<le> 4 + L + length rest" "pages (fst w') = pages c"
    using i(2) unfolding cc3_def by auto
  let ?rest = "take (N - (4 + L)) rest @ drop N (replicate 916 0)"
  have lt: "length (take L tlv) = L" using mem(2) L(3) by simp
  have raw: "patch (replicate 916 0) 0 (take N (cc3 @ take L tlv @ rest)) = cc3 @ take L tlv @ ?rest"
    using N(1) cc3 lt r(2) by (simp add: patch_def)
  have d: "deliver_message w' (Some (cc3 @ take L tlv @ ?rest)) N 4 (Some dst) cap = Some (w', int (length msg), Some (patch dst 0 msg))"
  proof (rule deliver_found)
    show "drop 4 (cc3 @ take L tlv @ ?rest) = tlv_block 3 msg @ [0xFE] @ ?rest" using cc3 mem(3) by simp
    have "length (tlv_block 3 msg) + 1 = L" using lt mem(3) by (metis length_append_singleton Suc_eq_plus1)
    then show "4 + length (tlv_block 3 msg) \<le> N" using N(1) by simp
    show "N \<le> length (cc3 @ take L tlv @ ?rest)" using N cc3 lt r(2) by simp
  qed (use N dst in simp_all)
  have cap0: "0 < cap" using dst by (cases msg) simp_all
  have area_bound: "8 * unat mlen \<le> 2040" using unat_u8_le [of mlen] by linarith
  have area: "t2_data_area_size info \<noteq> 0" "nero_nfc_try_add_u16 4 (t2_data_area_size info) = Some (4 + 8 * unat mlen)"
  proof -
    show "t2_data_area_size info \<noteq> 0" using m by (simp add: i(4) unat_eq_0)
    have "4 + 8 * unat mlen \<le> UINT16_MAX" using area_bound by linarith
    then show "nero_nfc_try_add_u16 4 (t2_data_area_size info) = Some (4 + 8 * unat mlen)"
      unfolding i(4) try_add_u16_eq_Some_iff by blast
  qed
  have "reader_tags_load_type2_ndef_message R (c, s) (Some dst) cap = Some (w', int (length msg), Some (patch dst 0 msg))"
    unfolding reader_tags_load_type2_ndef_message_def i(1)
    using i(3,5) area tag_last_page(2) [OF i(3,4) m] r(1) [unfolded raw] d cap0 N by (simp add: N_def [symmetric])
  then show ?thesis using r(3) by simp
qed

text \<open>
  C26: on a Type 2 tag with an open capability container a message whose block fits the data area
  (and the 888 bytes the reader handles) is written, and the next load returns it. The write leaves
  every page alone but the message's own, and the load leaves the memory alone.
\<close>

theorem type2_write_then_load:
  assumes "type2_tag R pages n" "bounded_radio R"
    and "tag_state_ok s" "ts_uid14_len s \<noteq> 0" "ts_sak s AND 0x20 = 0" "open_cc (pages c) mlen"
    and "nfc_ndef_tlv_envelope_len (length msg) \<le> 8 * unat mlen" "nfc_ndef_tlv_envelope_len (length msg) \<le> 888"
    and "msg \<noteq> []" "length msg \<le> cap" "cap \<le> length dst" "length dst < 65536"
  shows "\<exists>c1 w2. reader_tags_write_type2_ndef_message R (c, s) (Some msg) (length msg) = Some ((c1, s), True) \<and>
    (\<forall>p<n. p < 4 \<or> 4 + (nfc_ndef_tlv_envelope_len (length msg) + 3) div 4 \<le> p \<longrightarrow> pages c1 ! p = pages c ! p) \<and>
    reader_tags_load_type2_ndef_message R (c1, s) (Some dst) cap = Some (w2, int (length msg), Some (patch dst 0 msg)) \<and>
    pages (fst w2) = pages c1"
proof -
  define L where "L = nfc_ndef_tlv_envelope_len (length msg)"
  obtain c1 tlv where 1: "reader_tags_write_type2_ndef_message R (c, s) (Some msg) (length msg) = Some ((c1, s), True)"
    "pages c1 = patch (pages c) 4 (map (unit_of tlv L) [0..<(L + 3) div 4])" "length tlv = 916" "take L tlv = tlv_block 3 msg @ [0xFE]"
    using write_stores_message [OF assms(1-6) L_def] assms(7,8) unfolding L_def by blast
  have P: "length (pages c) = n" "\<forall>d\<in>set (pages c). length d = 4" using type2_tagD(3,4) [OF assms(1)] by blast+
  obtain w2 where 2: "reader_tags_load_type2_ndef_message R (c1, s) (Some dst) cap = Some (w2, int (length msg), Some (patch dst 0 msg))"
    "pages (fst w2) = pages c1"
    using load_finds_message [OF assms(1-6) P L_def _ _ 1(2-4) assms(9-12)] assms(7,8) unfolding L_def by blast
  have k: "(L + 3) div 4 \<le> 2 * unat mlen" using assms(7) unfolding L_def by linarith
  have "pages c1 ! p = pages c ! p" if "p < n" "p < 4 \<or> 4 + (L + 3) div 4 \<le> p" for p
    using that P k assms(6) unfolding 1(2) open_cc_def by (auto simp: nth_patch)
  then show ?thesis using 1(1) 2 unfolding L_def by blast
qed

text \<open>A tag of 16 pages without FAST_READ.\<close>

definition sample_pages :: "(nat \<Rightarrow> bytes) \<Rightarrow> bytes list" where
  "sample_pages c = map (\<lambda>p. take 4 (c p @ [0, 0, 0, 0])) [0..<16]"

definition sample_tag :: "(nat \<Rightarrow> bytes) tag_radio" where
  "sample_tag = \<lparr>tr_transceive = \<lambda>c tx m crc t a p.
       if length tx = 6 then (c(unat (tx ! 1) := drop 2 tx), take m [0x0A])
       else if length tx = 2 \<and> hd tx = 0x30
         then (c, take m (concat (take 4 (drop (unat (tx ! 1)) (sample_pages c @ sample_pages c)))))
       else (c, []),
     tr_wupa = \<lambda>c. (c, None), tr_reqa = \<lambda>c. (c, False), tr_delay_ms = \<lambda>c t. c, tr_stream = \<lambda>c tx t. (c, [])\<rparr>"

lemma sample_tag_bounded: "bounded_radio sample_tag"
  by unfold_locales (simp_all add: sample_tag_def del: take_append drop_append concat_append)

lemma sample_tag_type2: "type2_tag sample_tag sample_pages 16"
proof -
  have l: "length (sample_pages c) = 16" "\<forall>d\<in>set (sample_pages c). length d = 4" for c
    by (auto simp: sample_pages_def)
  have read: "length (concat (take 4 (drop p (sample_pages c @ sample_pages c)))) = 16" if "p < 16" for p c
  proof -
    have "\<forall>d\<in>set (take 4 (drop p (sample_pages c @ sample_pages c))). length d = 4"
      using l(2) [of c] by (auto dest!: in_set_takeD in_set_dropD simp del: drop_append take_append)
    from length_concat_units [OF this] show ?thesis using l(1) [of c] that by (simp del: drop_append take_append concat_append)
  qed
  have upd: "sample_pages (c(p := d)) = (sample_pages c)[p := d]" if "p < 16" "length d = 4" for c p d
    using that by (intro nth_equalityI) (auto simp: sample_pages_def nth_list_update)
  show ?thesis unfolding type2_tag_def
    using l read upd by (auto simp: sample_tag_def Let_def simp del: drop_append take_append concat_append)
qed

theorem type2_write_then_load_witness:
  "\<exists>c1 w2. reader_tags_write_type2_ndef_message sample_tag ((\<lambda>p. [])(3 := [0xE1, 0x10, 6, 0]), fresh_tag_state)
      (Some [0xD0, 0, 0]) (length [0xD0, 0, 0 :: u8]) = Some ((c1, fresh_tag_state), True) \<and>
    (\<forall>p<16. p < 4 \<or> 4 + (nfc_ndef_tlv_envelope_len (length [0xD0, 0, 0 :: u8]) + 3) div 4 \<le> p \<longrightarrow>
      sample_pages c1 ! p = sample_pages ((\<lambda>p. [])(3 := [0xE1, 0x10, 6, 0])) ! p) \<and>
    reader_tags_load_type2_ndef_message sample_tag (c1, fresh_tag_state) (Some (replicate 8 0)) 8 =
      Some (w2, int (length [0xD0, 0, 0 :: u8]), Some (patch (replicate 8 0) 0 [0xD0, 0, 0])) \<and>
    sample_pages (fst w2) = sample_pages c1"
  by (rule type2_write_then_load [OF sample_tag_type2 sample_tag_bounded, where mlen = 6])
    (simp_all add: fresh_tag_state_ok open_cc_def sample_pages_def nfc_ndef_tlv_envelope_len_def, simp_all add: fresh_tag_state_def)

end
