(* ===== verification/TagType5.thy ===== *)
theory TagType5
  imports TagStorage ReaderProtocol TagInfo
begin

text \<open>
  Type 5 tags (ISO 15693): \<open>reader_tags_type5.c\<close> and the Type 5 part of \<open>reader_tags.c\<close>. Reading and
  writing blocks, the READ MULTIPLE command and its capability cache, the tag information, and the
  message of a tag.

  The commands of the front end run over \<open>reader_protocol_iso15693_transceive\<close>, which is the callback
  \<open>reader_type5_transceive\<close> of the code. Local buffers start with zeros.
\<close>

section \<open>Pointers into a buffer\<close>

text \<open>The object \<open>buf\<close> after a call that wrote \<open>part\<close> through the pointer \<open>buf + off\<close>.\<close>

definition write_back :: "cptr \<Rightarrow> nat \<Rightarrow> cptr \<Rightarrow> cptr" where
  "write_back buf off part = (case (buf, part) of (Some b, Some p) \<Rightarrow> Some (take off b @ p) | _ \<Rightarrow> buf)"

section \<open>Block commands\<close>

definition reader_tags_type5_cmd_append :: "cptr \<Rightarrow> nat \<Rightarrow> nat \<Rightarrow> cptr \<Rightarrow> nat \<Rightarrow> (bool \<times> cptr \<times> nat) option" where
  "reader_tags_type5_cmd_append cmd cmd_cap pos src len =
     (if cmd = None \<or> src = None then Some (False, cmd, pos)
      else do {
        (ok, cmd) \<leftarrow> nero_nfc_copy_bytes cmd cmd_cap pos src len;
        Some (if \<not> ok then (False, cmd, pos) else (True, cmd, u16n (pos + len)))
      })"

definition reader_tags_iso15693_inventory_step_impl ::
    "'c tag_radio \<Rightarrow> 'c \<times> tag_state \<Rightarrow> (('c \<times> tag_state) \<times> bool) option" where
  "reader_tags_iso15693_inventory_step_impl R w = do {
     (w, ok, uid) \<leftarrow> st25_iso15693_inventory (reader_protocol_iso15693_transceive R) w (Some (ts_uid15 (snd w)));
     Some ((fst w, (snd w)\<lparr>ts_uid15 := the uid\<rparr>), ok)
   }"

definition reader_tags_iso15693_user_read ::
    "'c tag_radio \<Rightarrow> 'c \<times> tag_state \<Rightarrow> nat \<Rightarrow> cptr \<Rightarrow> nat \<Rightarrow> (('c \<times> tag_state) \<times> int \<times> cptr) option" where
  "reader_tags_iso15693_user_read R w block buf buf_len = do {
     (w, r, buf) \<leftarrow> (if block \<le> 255
       then st25_iso15693_read_block (reader_protocol_iso15693_transceive R) w (Some (ts_uid15 (snd w))) (byte block) buf buf_len
       else Some (w, -1, buf));
     if r \<ge> 0 then Some (w, r, buf)
     else st25_iso15693_ext_read_block (reader_protocol_iso15693_transceive R) w (Some (ts_uid15 (snd w))) block buf buf_len
   }"

text \<open>The request of READ MULTIPLE: flags, opcode, UID and block fields, appended one after the other.\<close>

definition read_multiple_request :: "bytes \<Rightarrow> nat \<Rightarrow> nat \<Rightarrow> (bool \<times> cptr \<times> nat) option" where
  "read_multiple_request uid first_block count_field = do {
     let extended = (first_block > 255 \<or> count_field > 255);
     (ok, cmd, n) \<leftarrow> reader_tags_type5_cmd_append (Some (replicate 14 0)) 14 0
       (Some [if extended then FLAGS_ADDRESSED OR FLAG_PROTOCOL_EXTENSION else FLAGS_ADDRESSED]) 1;
     (ok, cmd, n) \<leftarrow> (if ok then reader_tags_type5_cmd_append cmd 14 n (Some [if extended then 0x33 else 0x23]) 1
       else Some (ok, cmd, n));
     (ok, cmd, n) \<leftarrow> (if ok then reader_tags_type5_cmd_append cmd 14 n (Some (rev uid)) 8 else Some (ok, cmd, n));
     if \<not> ok then Some (False, cmd, n)
     else if extended then reader_tags_type5_cmd_append cmd 14 n
       (Some [byte first_block, byte (first_block div 256), byte count_field, byte (count_field div 256)]) 4
     else reader_tags_type5_cmd_append cmd 14 n (Some [byte first_block, byte count_field, 0, 0]) 2
   }"

definition reader_tags_iso15693_user_read_multiple ::
    "'c tag_radio \<Rightarrow> 'c \<times> tag_state \<Rightarrow> nat \<Rightarrow> nat \<Rightarrow> cptr \<Rightarrow> nat \<Rightarrow> (('c \<times> tag_state) \<times> int \<times> cptr) option" where
  "reader_tags_iso15693_user_read_multiple R w first_block block_count buf buf_cap =
     (if buf = None \<or> block_count = 0 \<or> block_count > 31 then Some (w, -1, buf)
      else let want = block_count * 4 in
        if buf_cap < want then Some (w, -1, buf)
        else do {
          (ok, cmd, n) \<leftarrow> read_multiple_request (ts_uid15 (snd w)) first_block (block_count - 1);
          if \<not> ok then Some (w, -1, buf)
          else do {
            (w, rlen, rx) \<leftarrow> reader_protocol_iso15693_transceive R w cmd n (Some (replicate 125 0)) 125 30;
            if rlen < int (1 + want) then Some (w, -1, buf)
            else do {
              flags \<leftarrow> rd rx 0;
              if flags AND 0x01 \<noteq> 0 then Some (w, -1, buf)
              else do {
                (ok, buf) \<leftarrow> nero_nfc_copy_bytes buf buf_cap 0 (ptr_add rx 1) want;
                Some (w, if \<not> ok then -1 else int want, buf)
              }
            }
          }
        })"

definition reader_tags_iso15693_user_write ::
    "'c tag_radio \<Rightarrow> 'c \<times> tag_state \<Rightarrow> nat \<Rightarrow> cptr \<Rightarrow> nat \<Rightarrow> (('c \<times> tag_state) \<times> bool) option" where
  "reader_tags_iso15693_user_write R w block data data_len = do {
     (w, ok) \<leftarrow> (if block \<le> 255
       then st25_iso15693_write_block (reader_protocol_iso15693_transceive R) w (Some (ts_uid15 (snd w))) (byte block) data data_len
       else Some (w, False));
     if ok then Some (w, True)
     else st25_iso15693_ext_write_block (reader_protocol_iso15693_transceive R) w (Some (ts_uid15 (snd w))) block data data_len
   }"

definition reader_tags_type5_transceive ::
    "'c tag_radio \<Rightarrow> 'c \<times> tag_state \<Rightarrow> cptr \<Rightarrow> nat \<Rightarrow> cptr \<Rightarrow> nat \<Rightarrow> (('c \<times> tag_state) \<times> int \<times> cptr) option" where
  "reader_tags_type5_transceive R w tx tx_len rx rx_max =
     (if tx = None \<or> tx_len = 0 \<or> rx = None \<or> rx_max = 0 then Some (w, -1, rx)
      else reader_protocol_iso15693_transceive R w tx tx_len rx rx_max 30)"

definition reader_tags_type5_write_block ::
    "'c tag_radio \<Rightarrow> 'c \<times> tag_state \<Rightarrow> nat \<Rightarrow> cptr \<Rightarrow> nat \<Rightarrow> (('c \<times> tag_state) \<times> bool) option" where
  "reader_tags_type5_write_block R w block data data_len =
     (if data = None \<or> data_len = 0 \<or> data_len > 8 then Some (w, False)
      else do {
        (w, ok) \<leftarrow> reader_tags_iso15693_user_write R w block data data_len;
        if \<not> ok then Some (w, False)
        else do {
          let w = (tr_delay_ms R (fst w) 8, snd w);
          (w, r, verify) \<leftarrow> reader_tags_iso15693_user_read R w block (Some (replicate 8 0)) data_len;
          if r < int data_len then Some (w, False)
          else do {
            same \<leftarrow> mem_eq verify data data_len;
            Some (w, same)
          }
        }
      })"

definition reader_tags_type5_write_unit :: "'c tag_radio \<Rightarrow> ('c \<times> tag_state) write_unit" where
  "reader_tags_type5_write_unit R w unit_no data data_len = reader_tags_type5_write_block R w unit_no data data_len"

section \<open>Capability cache\<close>

definition reader_tags_type5_refresh_read_multiple_cache :: "tag_state \<Rightarrow> tag_state option" where
  "reader_tags_type5_refresh_read_multiple_cache s = do {
     same \<leftarrow> mem_eq (Some (ts_multi_uid s)) (Some (ts_uid15 s)) 8;
     if same then Some s
     else do {
       (_, uid) \<leftarrow> nero_nfc_copy_bytes (Some (ts_multi_uid s)) 8 0 (Some (ts_uid15 s)) 8;
       Some (s\<lparr>ts_multi_disabled := False, ts_multi_uid := the uid\<rparr>)
     }
   }"

definition reader_tags_type5_read_multiple_allowed :: "tag_state \<Rightarrow> (tag_state \<times> bool) option" where
  "reader_tags_type5_read_multiple_allowed s = do {
     s \<leftarrow> reader_tags_type5_refresh_read_multiple_cache s;
     Some (s, \<not> ts_multi_disabled s)
   }"

section \<open>Reading a run of blocks\<close>

text \<open>
  One attempt to read several blocks at once. Result: how many were read, 0 when the block at hand
  has to be read alone.
\<close>

definition read_several ::
    "'c tag_radio \<Rightarrow> 'c \<times> tag_state \<Rightarrow> nat \<Rightarrow> nat \<Rightarrow> cptr \<Rightarrow> nat \<Rightarrow> (('c \<times> tag_state) \<times> nat \<times> cptr) option" where
  "read_several R w block copied buf buf_cap =
     (let full_blocks = (buf_cap - copied) div 4 in
      if full_blocks \<le> 1 then Some (w, 0, buf)
      else do {
        (s, allowed) \<leftarrow> reader_tags_type5_read_multiple_allowed (snd w);
        let w = (fst w, s);
        if \<not> allowed then Some (w, 0, buf)
        else do {
          let block_count = (if full_blocks > 31 then 31 else full_blocks);
          let chunk_len = block_count * 4;
          if \<not> nero_nfc_span_ok copied chunk_len buf_cap then Some ((fst w, s\<lparr>ts_multi_disabled := True\<rparr>), 0, buf)
          else do {
            (w, r, part) \<leftarrow> reader_tags_iso15693_user_read_multiple R w block block_count (ptr_add buf copied) chunk_len;
            let buf = write_back buf copied part;
            if r \<ge> int chunk_len then Some (w, block_count, buf)
            else Some ((fst w, (snd w)\<lparr>ts_multi_disabled := True\<rparr>), 0, buf)
          }
        }
      })"

function read_blocks_loop ::
    "'c tag_radio \<Rightarrow> 'c \<times> tag_state \<Rightarrow> nat \<Rightarrow> nat \<Rightarrow> cptr \<Rightarrow> nat \<Rightarrow> (('c \<times> tag_state) \<times> int \<times> cptr) option" where
  "read_blocks_loop R w block copied buf buf_cap =
     (if copied < buf_cap then
        (case read_several R w block copied buf buf_cap of
           None \<Rightarrow> None
         | Some (w, blocks, buf) \<Rightarrow>
             if 0 < blocks then read_blocks_loop R w (u16n (block + blocks)) (copied + blocks * 4) buf buf_cap
             else
               let chunk = (if buf_cap - copied > 4 then 4 else buf_cap - copied);
                   partial = (if copied = 0 then -1 else int copied)
               in (case reader_tags_iso15693_user_read R w block (Some [0, 0, 0, 0]) 4 of
                     None \<Rightarrow> None
                   | Some (w, rlen, block_buf) \<Rightarrow>
                       if rlen < int chunk then Some (w, partial, buf)
                       else (case nero_nfc_copy_bytes buf buf_cap copied block_buf chunk of
                               None \<Rightarrow> None
                             | Some (ok, buf) \<Rightarrow>
                                 if \<not> ok then Some (w, partial, buf)
                                 else read_blocks_loop R w (u16n (block + 1)) (copied + chunk) buf buf_cap)))
      else Some (w, int copied, buf))"
  by pat_completeness auto
termination
  by (relation "measure (\<lambda>(R, w, block, copied, buf, buf_cap). buf_cap - copied)") auto

declare read_blocks_loop.simps [simp del]

text \<open>The capacity is a \<open>uint16_t\<close>, so the sums stay in range.\<close>

definition reader_tags_type5_read_binary ::
    "'c tag_radio \<Rightarrow> 'c \<times> tag_state \<Rightarrow> nat \<Rightarrow> cptr \<Rightarrow> nat \<Rightarrow> (('c \<times> tag_state) \<times> int \<times> cptr) option" where
  "reader_tags_type5_read_binary R w block buf buf_cap =
     (if buf = None \<or> buf_cap = 0 then Some (w, -1, buf) else read_blocks_loop R w block 0 buf buf_cap)"

section \<open>Tag information\<close>

definition reader_tags_iso15693_get_system_info_raw ::
    "'c tag_radio \<Rightarrow> 'c \<times> tag_state \<Rightarrow> cptr \<Rightarrow> nat \<Rightarrow> (('c \<times> tag_state) \<times> int \<times> cptr) option" where
  "reader_tags_iso15693_get_system_info_raw R w buf buf_cap =
     (if buf = None \<or> buf_cap = 0 \<or> \<not> nero_nfc_span_ok 0 (2 + 8) 12 then Some (w, -1, buf)
      else do {
        (cmd, n) \<leftarrow> put_bytes (Some (replicate 12 0)) 0 [FLAGS_ADDRESSED, 0x2B];
        (cmd, n) \<leftarrow> put_from cmd n (Some (ts_uid15 (snd w))) REVERSED_UID;
        reader_protocol_iso15693_transceive R w cmd n buf buf_cap 30
      })"

definition reader_tags_iso15693_get_system_info_ext_raw ::
    "'c tag_radio \<Rightarrow> 'c \<times> tag_state \<Rightarrow> cptr \<Rightarrow> nat \<Rightarrow> (('c \<times> tag_state) \<times> int \<times> cptr) option" where
  "reader_tags_iso15693_get_system_info_ext_raw R w buf buf_cap =
     (if buf = None \<or> buf_cap = 0 \<or> \<not> nero_nfc_span_ok 0 (3 + 8) 12 then Some (w, -1, buf)
      else do {
        (cmd, n) \<leftarrow> put_bytes (Some (replicate 12 0)) 0 [FLAGS_ADDRESSED OR FLAG_PROTOCOL_EXTENSION, 0x3B, 0x0F];
        (cmd, n) \<leftarrow> put_from cmd n (Some (ts_uid15 (snd w))) REVERSED_UID;
        reader_protocol_iso15693_transceive R w cmd n buf buf_cap 30
      })"

text \<open>The capability container: the first block and, when its MLEN is 0, the second.\<close>

definition type5_read_cc ::
    "'c tag_radio \<Rightarrow> 'c \<times> tag_state \<Rightarrow> type5_info \<Rightarrow> (('c \<times> tag_state) \<times> bool \<times> type5_info) option" where
  "type5_read_cc R w info = do {
     (w, page_len, page0) \<leftarrow> reader_tags_iso15693_user_read R w 0 (Some [0, 0, 0, 0]) 4;
     if page_len < 4 then Some (w, True, info)
     else do {
       magic \<leftarrow> rd page0 0;
       declared_cc_len \<leftarrow> nfc_storage_type5_declared_cc_len_from_first_block page0 4;
       (ok, cc) \<leftarrow> nero_nfc_copy_bytes (Some (replicate 8 0)) 8 0 page0 4;
       if \<not> ok then Some (w, False, info)
       else if (magic = 0xE1 \<or> magic = 0xE2) \<and> declared_cc_len = 8 then do {
         (w, page1_len, page1) \<leftarrow> reader_tags_iso15693_user_read R w 1 (Some [0, 0, 0, 0]) 4;
         (ok, cc) \<leftarrow> (if page1_len \<ge> 4 then nero_nfc_copy_bytes cc 8 4 page1 4 else Some (False, cc));
         info \<leftarrow> nfc_tag_type5_apply_cc info cc (if ok then 8 else 4);
         Some (w, True, info)
       } else do {
         info \<leftarrow> nfc_tag_type5_apply_cc info cc 4;
         Some (w, True, info)
       }
     }
   }"

text \<open>The extended system information, asked for when the container signals that MLEN overflows.\<close>

definition type5_ext_info :: "'c tag_radio \<Rightarrow> 'c \<times> tag_state \<Rightarrow> type5_info \<Rightarrow> (('c \<times> tag_state) \<times> type5_info) option" where
  "type5_ext_info R w info =
     (if nfc_tag_type5_cc_signals_mlen_overflow info then do {
        (w, ext_len, ext) \<leftarrow> reader_tags_iso15693_get_system_info_ext_raw R w (Some (replicate 20 0)) 20;
        if ext_len < 12 then Some (w, info)
        else do {
          flags \<leftarrow> rd ext 0;
          if flags AND 0x01 \<noteq> 0 then Some (w, info)
          else do {
            info \<leftarrow> nfc_tag_type5_apply_system_info_ext info ext (if ext_len > 16 then 16 else nat ext_len);
            Some (w, info)
          }
        }
      } else Some (w, info))"

definition reader_tags_get_type5_info ::
    "'c tag_radio \<Rightarrow> 'c \<times> tag_state \<Rightarrow> (('c \<times> tag_state) \<times> bool \<times> type5_info) option" where
  "reader_tags_get_type5_info R w = do {
     (w, ok, info) \<leftarrow> type5_read_cc R w type5_zero;
     if \<not> ok then Some (w, False, info)
     else do {
       (w, sys_len, sys_info) \<leftarrow> reader_tags_iso15693_get_system_info_raw R w (Some (replicate 16 0)) 16;
       if sys_len < 10 then Some (w, True, info)
       else do {
         flags \<leftarrow> rd sys_info 0;
         if flags AND 0x01 \<noteq> 0 then Some (w, True, info)
         else do {
           info \<leftarrow> nfc_tag_type5_apply_system_info info sys_info (if sys_len > 16 then 16 else nat sys_len);
           (w, info) \<leftarrow> type5_ext_info R w info;
           Some (w, True, nfc_tag_type5_resolve_mlen_overflow info)
         }
       }
     }
   }"

definition reader_tags_type5_cc_byte_len :: "type5_info \<Rightarrow> nat" where
  "reader_tags_type5_cc_byte_len type5 =
     (if \<not> t5_cc_valid type5 then 0
      else if t5_cc_len type5 \<noteq> 0 then t5_cc_len type5
      else if t5_cc type5 ! 2 = 0 then 8 else 4)"

definition reader_tags_type5_tlv_start_block :: "type5_info \<Rightarrow> nat" where
  "reader_tags_type5_tlv_start_block type5 = reader_tags_type5_cc_byte_len type5 div 4"

section \<open>Messages\<close>

definition READER_NDEF_BUF_MAX :: nat where "READER_NDEF_BUF_MAX = 1024"

definition reader_tags_load_type5_ndef_message ::
    "'c tag_radio \<Rightarrow> 'c \<times> tag_state \<Rightarrow> cptr \<Rightarrow> nat \<Rightarrow> (('c \<times> tag_state) \<times> int \<times> cptr) option" where
  "reader_tags_load_type5_ndef_message R w dst dst_cap =
     (if dst = None \<or> dst_cap = 0 then Some (w, -1, dst)
      else do {
        (w, ok, type5) \<leftarrow> reader_tags_get_type5_info R w;
        if \<not> ok \<or> \<not> t5_cc_valid type5 \<or> \<not> t5_read_open type5 \<or> t5_data_area_size type5 = 0 then Some (w, -1, dst)
        else let cc_len = reader_tags_type5_cc_byte_len type5 in
          if cc_len = 0 then Some (w, -1, dst)
          else (case nero_nfc_try_add_u16 cc_len (t5_data_area_size type5) of
            None \<Rightarrow> Some (w, -1, dst)
          | Some raw_len \<Rightarrow> do {
              let raw_len = (if raw_len > READER_NDEF_BUF_MAX then READER_NDEF_BUF_MAX else raw_len);
              (w, got, raw) \<leftarrow> reader_tags_type5_read_binary R w 0 (Some (replicate READER_NDEF_BUF_MAX 0)) raw_len;
              if got < int cc_len then Some (w, -1, dst) else deliver_message w raw (u16n (nat got)) cc_len dst dst_cap
            })
      })"

definition reader_tags_write_type5_ndef_message ::
    "'c tag_radio \<Rightarrow> 'c \<times> tag_state \<Rightarrow> cptr \<Rightarrow> nat \<Rightarrow> (('c \<times> tag_state) \<times> bool) option" where
  "reader_tags_write_type5_ndef_message R w ndef ndef_len =
     (if ndef_len \<noteq> 0 \<and> ndef = None then Some (w, False)
      else do {
        (w, ok, type5) \<leftarrow> reader_tags_get_type5_info R w;
        if \<not> ok \<or> \<not> t5_cc_valid type5 \<or> \<not> t5_write_open type5 \<or> t5_data_area_size type5 = 0 then Some (w, False)
        else let block_size = (if t5_block_size type5 = 0 then 4 else t5_block_size type5) in
          if block_size \<noteq> 4 then Some (w, False)
          else do {
            (ok, tlv, tlv_len) \<leftarrow> nfc_ndef_build_message_tlv ndef ndef_len (Some (replicate READER_NDEF_BUF_MAX 0))
              (if t5_data_area_size type5 > READER_NDEF_BUF_MAX then READER_NDEF_BUF_MAX else t5_data_area_size type5);
            if \<not> ok then Some (w, False)
            else let (ok, first_data_block, last_data_block) =
                nfc_storage_type5_data_blocks (reader_tags_type5_cc_byte_len type5) (t5_data_area_size type5) block_size
                  (t5_block_count type5) in
              if \<not> ok then Some (w, False)
              else (case nfc_storage_ceil_units_u16 tlv_len TYPE5_BLOCK_SIZE of
                None \<Rightarrow> Some (w, False)
              | Some blocks_needed \<Rightarrow>
                  if blocks_needed = 0 then Some (w, False)
                  else if first_data_block + blocks_needed - 1 > last_data_block then Some (w, False)
                  else reader_tags_write_storage_tlv_units tlv tlv_len first_data_block TYPE5_BLOCK_SIZE
                    (reader_tags_type5_write_unit R) w)
          }
      })"

section \<open>The dump of a tag\<close>

text \<open>
  Whether a terminator byte lies between the container and the end of what was read.
\<close>

fun terminator_between :: "cptr \<Rightarrow> nat \<Rightarrow> nat \<Rightarrow> bool option" where
  "terminator_between buf i 0 = Some False"
| "terminator_between buf i (Suc n) = do {
     b \<leftarrow> rd buf i;
     if b = 0xFE then Some True else terminator_between buf (i + 1) n
   }"

function tlv_area_loop ::
    "'c tag_radio \<Rightarrow> 'c \<times> tag_state \<Rightarrow> nat \<Rightarrow> nat \<Rightarrow> cptr \<Rightarrow> nat \<Rightarrow> nat \<Rightarrow> (('c \<times> tag_state) \<times> bool \<times> cptr \<times> nat) option" where
  "tlv_area_loop R w block blocks_needed buf got_len start_offset =
     (if block < blocks_needed then
        let blocks = (if blocks_needed - block > 31 then 31 else blocks_needed - block); chunk_len = blocks * 4
        in (case reader_tags_type5_read_binary R w block (Some (replicate 124 0)) chunk_len of
              None \<Rightarrow> None
            | Some (w, r, tmp) \<Rightarrow>
                if r < int chunk_len then Some (w, False, buf, got_len)
                else (case nero_nfc_copy_bytes buf READER_NDEF_BUF_MAX got_len tmp chunk_len of
                  None \<Rightarrow> None
                | Some (ok, buf) \<Rightarrow>
                    if \<not> ok then Some (w, False, buf, got_len)
                    else (case nero_nfc_try_add_u16 got_len chunk_len of
                      None \<Rightarrow> Some (w, False, buf, got_len)
                    | Some got_len \<Rightarrow>
                        if got_len > start_offset then
                          (case nfc_ndef_find_message_tlv buf got_len start_offset of
                             None \<Rightarrow> None
                           | Some (status, tlv) \<Rightarrow>
                               if status = TLV_OK then Some (w, True, buf, got_len)
                               else (case terminator_between buf start_offset (got_len - start_offset) of
                                 None \<Rightarrow> None
                               | Some ended \<Rightarrow>
                                   if ended then Some (w, True, buf, got_len)
                                   else tlv_area_loop R w (block + blocks) blocks_needed buf got_len start_offset))
                        else tlv_area_loop R w (block + blocks) blocks_needed buf got_len start_offset)))
      else Some (w, True, buf, got_len))"
  by pat_completeness auto
termination
  by (relation "measure (\<lambda>(R, w, block, blocks_needed, buf, got_len, start). blocks_needed - block)") auto

declare tlv_area_loop.simps [simp del]

text \<open>
  Results: whether it succeeded, the NDEF buffer of the reader, how much was read and where the
  blocks of the data area start. The list of detected URLs, which the function also empties, is part
  of the printer's state.
\<close>

definition read_type5_tlv_area ::
    "'c tag_radio \<Rightarrow> 'c \<times> tag_state \<Rightarrow> type5_info \<Rightarrow> cptr \<Rightarrow> (('c \<times> tag_state) \<times> bool \<times> cptr \<times> nat \<times> nat) option" where
  "read_type5_tlv_area R w type5 buf =
     (if \<not> t5_cc_valid type5 \<or> \<not> t5_read_open type5 \<or> t5_data_area_size type5 = 0 then Some (w, False, buf, 0, 0)
      else let start_offset = reader_tags_type5_cc_byte_len type5 in
        (case nero_nfc_try_add_u16 start_offset (t5_data_area_size type5) of
          None \<Rightarrow> Some (w, False, buf, 0, 0)
        | Some bytes_to_read \<Rightarrow> do {
            let bytes_to_read = (if bytes_to_read < READER_NDEF_BUF_MAX then bytes_to_read else READER_NDEF_BUF_MAX);
            (w, ok, buf, got_len) \<leftarrow> tlv_area_loop R w 0 (u16n ((bytes_to_read + 3) div 4)) buf 0 start_offset;
            Some (if \<not> ok then (w, False, buf, 0, 0) else (w, True, buf, got_len, start_offset))
          }))"

end
