(* ===== verification/TagType5Safe.thy ===== *)
theory TagType5Safe
  imports TagType5
begin

text \<open>
  The Type 5 paths with any card in the field. The transceive function of the reader keeps the
  promise of \<open>vicinity_transport\<close>, whatever symbols come back, so reading and writing a message
  return, stay inside their buffers and keep the arrays of the state in their sizes. READ MULTIPLE
  for sixteen blocks or more is refused by the reader's own symbol decoder.
\<close>

section \<open>The commands and the state\<close>

lemma v_transceive_state:
  "reader_protocol_iso15693_transceive R w tx n rx m t = Some (w', r, rx') \<Longrightarrow> snd w' = snd w"
  by (auto simp: reader_protocol_iso15693_transceive_def bind_eq_Some_conv split: prod.splits if_splits)

lemma commands_keep:
  fixes f :: "'c \<Rightarrow> 'd"
  assumes k: "\<And>c tx n rx m t c' r rx'. xcv c tx n rx m t = Some (c', r, rx') \<Longrightarrow> f c' = f c"
  shows "st25_iso15693_read_block xcv c uid b buf len = Some (c', r, buf') \<Longrightarrow> f c' = f c"
    and "st25_iso15693_ext_read_block xcv c uid e buf len = Some (c', r, buf') \<Longrightarrow> f c' = f c"
    and "st25_iso15693_write_block xcv c uid b data len = Some (c', ok) \<Longrightarrow> f c' = f c"
    and "st25_iso15693_ext_write_block xcv c uid e data len = Some (c', ok) \<Longrightarrow> f c' = f c"
    and "st25_iso15693_inventory xcv c out = Some (c', ok, out') \<Longrightarrow> f c' = f c"
proof -
  have reply: "read_reply c rlen rx buf len = Some (c', r, buf') \<Longrightarrow> c' = c"
    "write_reply c rlen rx = Some (c', ok) \<Longrightarrow> c' = c" for c :: 'c and rlen rx buf len c' r buf' ok
    by (auto simp: read_reply_def write_reply_def bind_eq_Some_conv Let_def split: prod.splits if_splits)
  show "st25_iso15693_read_block xcv c uid b buf len = Some (c', r, buf') \<Longrightarrow> f c' = f c"
    "st25_iso15693_ext_read_block xcv c uid e buf len = Some (c', r, buf') \<Longrightarrow> f c' = f c"
    "st25_iso15693_write_block xcv c uid b data len = Some (c', ok) \<Longrightarrow> f c' = f c"
    "st25_iso15693_ext_write_block xcv c uid e data len = Some (c', ok) \<Longrightarrow> f c' = f c"
    "st25_iso15693_inventory xcv c out = Some (c', ok, out') \<Longrightarrow> f c' = f c"
    by (auto simp: st25_iso15693_read_block_def st25_iso15693_ext_read_block_def st25_iso15693_write_block_def
        st25_iso15693_ext_write_block_def st25_iso15693_inventory_def bind_eq_Some_conv split: prod.splits if_splits
        dest!: reply k)
qed

lemma v_transceive_safe:
  assumes "0 < n" "n \<le> length tx" "rx_max \<le> length rx" "0 < rx_max"
  shows "\<exists>w' r new. reader_protocol_iso15693_transceive R w (Some tx) n (Some rx) rx_max t = Some (w', r, Some new) \<and>
    length new = length rx \<and> r \<le> int rx_max \<and> r \<le> 61 \<and> snd w' = snd w"
proof -
  obtain c s where w: "w = (c, s)" by fastforce
  obtain c' r new where "nfc_frontend_iso15693_transceive (tr_stream R) c (Some tx) n (Some rx) rx_max t = Some (c', r, Some new)"
    "length new = length rx" "r \<le> int rx_max" "r \<le> 61"
    using transceive_safe [OF assms, of "tr_stream R" c t] by auto
  then show ?thesis using w by (simp add: reader_protocol_iso15693_transceive_def)
qed

lemma reader_commands_keep:
  fixes R :: "'c tag_radio"
  defines "xcv \<equiv> reader_protocol_iso15693_transceive R"
  shows "st25_iso15693_read_block xcv w uid b buf len = Some (w', r, buf') \<Longrightarrow> snd w' = snd w"
    and "st25_iso15693_ext_read_block xcv w uid e buf len = Some (w', r, buf') \<Longrightarrow> snd w' = snd w"
    and "st25_iso15693_write_block xcv w uid b data len = Some (w', ok) \<Longrightarrow> snd w' = snd w"
    and "st25_iso15693_ext_write_block xcv w uid e data len = Some (w', ok) \<Longrightarrow> snd w' = snd w"
    and "st25_iso15693_inventory xcv w out = Some (w', ok, out') \<Longrightarrow> snd w' = snd w"
proof -
  have k: "xcv w tx n rx m t = Some (w', r, rx') \<Longrightarrow> snd w' = snd w" for w tx n rx m t w' r rx'
    unfolding xcv_def by (rule v_transceive_state)
  show "st25_iso15693_read_block xcv w uid b buf len = Some (w', r, buf') \<Longrightarrow> snd w' = snd w"
    "st25_iso15693_ext_read_block xcv w uid e buf len = Some (w', r, buf') \<Longrightarrow> snd w' = snd w"
    "st25_iso15693_write_block xcv w uid b data len = Some (w', ok) \<Longrightarrow> snd w' = snd w"
    "st25_iso15693_ext_write_block xcv w uid e data len = Some (w', ok) \<Longrightarrow> snd w' = snd w"
    "st25_iso15693_inventory xcv w out = Some (w', ok, out') \<Longrightarrow> snd w' = snd w"
    by (rule commands_keep [where f = snd and xcv = xcv, OF k]; assumption)+
qed

section \<open>Blocks\<close>

lemma user_read_returns:
  assumes "tag_state_ok (snd w)" "n \<le> length buf" "n < 256"
  shows "\<exists>w' r new. reader_tags_iso15693_user_read R w block (Some buf) n = Some (w', r, Some new) \<and> snd w' = snd w \<and>
    length new = length buf \<and> -1 \<le> r \<and> r \<le> int n"
proof -
  note keep = reader_commands_keep [where R = R]
  have ext: "\<exists>w' r new. st25_iso15693_ext_read_block (reader_protocol_iso15693_transceive R) v (Some (ts_uid15 (snd v))) block (Some b) n =
      Some (w', r, Some new) \<and> snd w' = snd w \<and> length new = length buf \<and> -1 \<le> r \<and> r \<le> int n"
    if "snd v = snd w" "length b = length buf" for v b
    using v_reader.ext_read_block_safe [of "ts_uid15 (snd v)" n b R v block] keep(2) [of v _ block "Some b" n] assms that
    by (metis tag_state_ok_def)
  show ?thesis
  proof (cases "block \<le> 255")
    case True
    obtain w1 r b where 1: "st25_iso15693_read_block (reader_protocol_iso15693_transceive R) w (Some (ts_uid15 (snd w))) (byte block) (Some buf) n =
        Some (w1, r, Some b)" "length b = length buf" "-1 \<le> r" "r \<le> int n"
      using v_reader.read_block_safe [of "ts_uid15 (snd w)" n buf R w "byte block"] assms by (auto simp: tag_state_ok_def)
    have "snd w1 = snd w" by (rule keep(1) [OF 1(1)])
    then show ?thesis using True 1 ext [of w1 b] by (cases "0 \<le> r") (auto simp: reader_tags_iso15693_user_read_def)
  qed (use ext [of w buf] in \<open>simp add: reader_tags_iso15693_user_read_def\<close>)
qed

lemma user_write_returns:
  assumes "tag_state_ok (snd w)" "n \<le> length data" "n \<le> 4"
  shows "\<exists>w' ok. reader_tags_iso15693_user_write R w block (Some data) n = Some (w', ok) \<and> snd w' = snd w"
proof -
  note keep = reader_commands_keep [where R = R]
  have ext: "\<exists>w' ok. st25_iso15693_ext_write_block (reader_protocol_iso15693_transceive R) v (Some (ts_uid15 (snd v))) block (Some data) n =
      Some (w', ok) \<and> snd w' = snd w" if "snd v = snd w" for v
    using v_reader.ext_write_block_safe [of "ts_uid15 (snd v)" n data R v block] keep(4) [of v _ block "Some data" n] assms that
    by (metis tag_state_ok_def)
  show ?thesis
  proof (cases "block \<le> 255")
    case True
    obtain w1 ok where 1: "st25_iso15693_write_block (reader_protocol_iso15693_transceive R) w (Some (ts_uid15 (snd w))) (byte block) (Some data) n =
        Some (w1, ok)"
      using v_reader.write_block_safe [of "ts_uid15 (snd w)" n data R w "byte block"] assms by (auto simp: tag_state_ok_def)
    have "snd w1 = snd w" by (rule keep(3) [OF 1])
    then show ?thesis using True 1 ext [of w1] by (cases ok) (auto simp: reader_tags_iso15693_user_write_def)
  qed (use ext [of w] in \<open>simp add: reader_tags_iso15693_user_write_def\<close>)
qed

lemma type5_write_unit_returns:
  assumes "tag_state_ok (snd w)" "length d = 4"
  shows "\<exists>w' ok. reader_tags_type5_write_unit R w u (Some d) 4 = Some (w', ok) \<and> tag_state_ok (snd w')"
proof -
  obtain w1 ok where 1: "reader_tags_iso15693_user_write R w u (Some d) 4 = Some (w1, ok)" "snd w1 = snd w"
    using user_write_returns [OF assms(1), of 4 d R u] assms(2) by auto
  obtain w2 r v where "reader_tags_iso15693_user_read R (tr_delay_ms R (fst w1) 8, snd w1) u (Some (replicate 8 0)) 4 = Some (w2, r, Some v)"
    "snd w2 = snd w1" "length v = 8"
    using user_read_returns [of "(tr_delay_ms R (fst w1) 8, snd w1)" 4 "replicate 8 0" R u] 1(2) assms(1) by auto
  then show ?thesis using 1 assms
    by (cases w1; cases w2) (auto simp: reader_tags_type5_write_unit_def reader_tags_type5_write_block_def)
qed

interpretation type5_writer: unit_writer "reader_tags_type5_write_unit R" "\<lambda>w. tag_state_ok (snd w)" for R :: "'c tag_radio"
  by unfold_locales (rule type5_write_unit_returns)

section \<open>Several blocks\<close>

lemma append_ok:
  assumes "pos + n \<le> cap" "cap = length cmd" "n \<le> length src" "cap < 65536"
  shows "reader_tags_type5_cmd_append (Some cmd) cap pos (Some src) n = Some (True, Some (patch cmd pos (take n src)), pos + n)"
  using assms by (simp add: reader_tags_type5_cmd_append_def)

lemma read_multiple_request_ok:
  assumes "length uid = 8"
  shows "\<exists>cmd n. read_multiple_request uid first_block count = Some (True, Some cmd, n) \<and> 0 < n \<and> n \<le> length cmd"
  using assms by (auto simp: read_multiple_request_def append_ok Let_def)

lemma read_multiple_returns:
  assumes s: "tag_state_ok (snd w)" and b: "length buf < 65536" "cap \<le> length buf"
  shows "\<exists>w' r new. reader_tags_iso15693_user_read_multiple R w first_block count (Some buf) cap = Some (w', r, Some new) \<and>
    snd w' = snd w \<and> length new = length buf \<and> (r = -1 \<or> r = int (4 * count) \<and> count < 16)"
proof (cases "count = 0 \<or> count > 31 \<or> cap < count * 4")
  case False
  obtain cmd n where q: "read_multiple_request (ts_uid15 (snd w)) first_block (count - 1) = Some (True, Some cmd, n)"
    "0 < n" "n \<le> length cmd"
    using read_multiple_request_ok s unfolding tag_state_ok_def by blast
  obtain w1 r rx where x: "reader_protocol_iso15693_transceive R w (Some cmd) n (Some (replicate 125 0)) 125 30 = Some (w1, r, Some rx)"
    "length rx = 125" "r \<le> 61" "snd w1 = snd w"
    using v_transceive_safe [OF q(2,3), of 125 "replicate 125 0" R w 30] by auto
  obtain c1 where w1: "w1 = (c1, snd w)" using x(4) by (cases w1) auto
  show ?thesis
  proof (cases "r < int (1 + count * 4) \<or> rx ! 0 AND 1 \<noteq> 0")
    case True
    then show ?thesis using False q x w1 by (auto simp: reader_tags_iso15693_user_read_multiple_def Let_def)
  next
    case ok: False
    then have c: "count < 16" using x(3) by linarith
    have m: "nero_nfc_copy_bytes (Some buf) cap 0 (Some (drop 1 rx)) (count * 4) =
        Some (True, Some (patch buf 0 (take (count * 4) (drop 1 rx))))"
      using False b x(2) by simp
    show ?thesis using False ok q x m b c by (simp add: reader_tags_iso15693_user_read_multiple_def Let_def)
  qed
qed (cases w, auto simp: reader_tags_iso15693_user_read_multiple_def)

text \<open>
  C25: a READ MULTIPLE of sixteen or more blocks never succeeds, whatever the tag answers: the symbol
  stream of its reply is longer than the decoder takes.
\<close>

theorem read_multiple_sixteen_fails:
  assumes "tag_state_ok (snd w)" "length buf < 65536" "cap \<le> length buf" "16 \<le> count"
  shows "\<exists>w' new. reader_tags_iso15693_user_read_multiple R w first_block count (Some buf) cap = Some (w', -1, Some new)"
  using read_multiple_returns [OF assms(1-3), of R first_block count] assms(4) by auto

theorem read_multiple_sixteen_fails_witness:
  "\<exists>w' new. reader_tags_iso15693_user_read_multiple noisy_radio ((), fresh_tag_state) 0 31 (Some (replicate 124 0)) 124 =
    Some (w', -1, Some new)"
  by (rule read_multiple_sixteen_fails) (simp_all add: fresh_tag_state_ok)

section \<open>A run of blocks\<close>

lemma multiple_allowed_total:
  assumes "tag_state_ok s"
  shows "\<exists>s' ok. reader_tags_type5_read_multiple_allowed s = Some (s', ok) \<and> tag_state_ok s'"
proof -
  have "\<exists>s'. reader_tags_type5_refresh_read_multiple_cache s = Some s' \<and> tag_state_ok s'"
    using assms by (auto simp: reader_tags_type5_refresh_read_multiple_cache_def tag_state_ok_def)
  then show ?thesis by (auto simp: reader_tags_type5_read_multiple_allowed_def)
qed

lemma read_several_returns:
  assumes s: "tag_state_ok (snd w)" and b: "copied \<le> cap" "cap \<le> length buf" "length buf < 65536"
  shows "returns (read_several R w block copied (Some buf) cap)
    (\<lambda>(k, p). \<exists>new. p = Some new \<and> length new = length buf \<and> copied + 4 * k \<le> cap)"
proof -
  define full where "full = (cap - copied) div 4"
  define k where "k = (if full > 31 then 31 else full)"
  have k: "copied + 4 * k \<le> cap" using b unfolding k_def full_def by auto
  obtain c s0 where w: "w = (c, s0)" by fastforce
  obtain s1 ok where a: "reader_tags_type5_read_multiple_allowed s0 = Some (s1, ok)" "tag_state_ok s1"
    using multiple_allowed_total s w by fastforce
  have lt: "length (drop copied buf) < 65536" "k * 4 \<le> length (drop copied buf)" using k b by simp_all
  obtain w2 r part where 2: "reader_tags_iso15693_user_read_multiple R (c, s1) block k (Some (drop copied buf)) (k * 4) =
      Some (w2, r, Some part)" "snd w2 = s1" "length part = length (drop copied buf)"
    using read_multiple_returns [of "(c, s1)" "drop copied buf" "k * 4" R block k, OF _ lt] a(2) by auto
  have l: "length (take copied buf @ part) = length buf" using 2(3) b by simp
  have u: "tag_state_ok (s1\<lparr>ts_multi_disabled := True\<rparr>)" using a(2) by (simp add: tag_state_ok_def)
  obtain c2 where w2: "w2 = (c2, s1)" using 2(2) by (cases w2) auto
  have sp: "nero_nfc_span_ok copied (k * 4) cap" using k b by simp
  show ?thesis
    unfolding read_several_def Let_def full_def [symmetric] k_def [symmetric] w snd_conv a(1)
    using 2 a(2) u w2 l k s w sp b(1,2)
    by (auto simp: write_back_def k_def [symmetric])
qed

lemma read_blocks_return:
  assumes "cap \<le> length buf" "length buf < 65536"
  shows "tag_state_ok (snd w) \<Longrightarrow> copied \<le> cap \<Longrightarrow>
    returns (read_blocks_loop R w block copied (Some buf) cap) (buffer_of (length buf) cap)"
  using assms
proof (induction "cap - copied" arbitrary: w block copied buf rule: less_induct)
  case less
  show ?case
  proof (cases "copied < cap")
    case True
    obtain w1 k b where 1: "read_several R w block copied (Some buf) cap = Some (w1, k, Some b)" "tag_state_ok (snd w1)"
      "length b = length buf" "copied + 4 * k \<le> cap"
      using read_several_returns [OF less.prems(1) less.prems(2,3,4), of R block] by (auto simp: returns_def)
    show ?thesis
    proof (cases "0 < k")
      case True
      have "returns (read_blocks_loop R w1 (u16n (block + k)) (copied + k * 4) (Some b) cap) (buffer_of (length b) cap)"
        by (rule less.hyps) (use True 1 less.prems \<open>copied < cap\<close> in simp_all)
      then show ?thesis using True \<open>copied < cap\<close> 1 by (subst read_blocks_loop.simps) simp
    next
      case False
      define chunk where "chunk = (if cap - copied > 4 then 4 else cap - copied)"
      have c: "0 < chunk" "chunk \<le> 4" "copied + chunk \<le> cap" using True unfolding chunk_def by auto
      obtain w2 r bb where 2: "reader_tags_iso15693_user_read R w1 block (Some [0, 0, 0, 0]) 4 = Some (w2, r, Some bb)"
        "snd w2 = snd w1" "length bb = 4"
        using user_read_returns [OF 1(2), of 4 "[0, 0, 0, 0]" R block] by auto
      have m: "nero_nfc_copy_bytes (Some b) cap copied (Some bb) chunk = Some (True, Some (patch b copied (take chunk bb)))"
        using c 1(3) 2(3) less.prems by simp
      have "returns (read_blocks_loop R w2 (u16n (block + 1)) (copied + chunk) (Some (patch b copied (take chunk bb))) cap)
          (buffer_of (length (patch b copied (take chunk bb))) cap)"
        by (rule less.hyps) (use c True 1 2 less.prems in simp_all)
      moreover have "length (patch b copied (take chunk bb)) = length buf" using c 1(3) 2(3) less.prems by simp
      ultimately show ?thesis using False True 1 2 m less.prems
        unfolding read_blocks_loop.simps [of R w block] Let_def chunk_def [symmetric]
        by (auto simp: buffer_of_def)
    qed
  qed (use less.prems in \<open>subst read_blocks_loop.simps, simp add: buffer_of_def\<close>)
qed

lemma type5_read_returns:
  assumes "tag_state_ok (snd w)" "cap \<le> length buf" "length buf < 65536"
  shows "returns (reader_tags_type5_read_binary R w block (Some buf) cap) (buffer_of (length buf) cap)"
  using assms read_blocks_return [OF assms(2,3,1), of 0 R block]
  by (auto simp: reader_tags_type5_read_binary_def buffer_of_def)

section \<open>Tag information\<close>

text \<open>The sizes and ranges of the information record.\<close>

definition type5_info_ok :: "type5_info \<Rightarrow> bool" where
  "type5_info_ok info \<longleftrightarrow> length (t5_cc info) = 8 \<and> length (t5_raw info) = 16 \<and> t5_raw_len info \<le> 16 \<and>
     (t5_cc_valid info \<longrightarrow> t5_cc_len info = 4 \<or> t5_cc_len info = 8) \<and>
     t5_data_area_size info \<le> UINT16_MAX \<and> t5_block_count info \<le> UINT16_MAX \<and> t5_block_size info \<le> 32"

lemma type5_zero_ok [simp]: "type5_info_ok type5_zero"
  by (simp add: type5_info_ok_def type5_zero_def)

lemma apply_cc_ok:
  assumes "type5_info_ok info" "n = 4 \<or> n = 8" "length cc = 8"
  shows "\<exists>info'. nfc_tag_type5_apply_cc info (Some cc) n = Some info' \<and> type5_info_ok info'"
proof -
  have u: "u16n k \<le> UINT16_MAX" for k by (simp add: u16n_def less_Suc_eq_le [symmetric])
  show ?thesis using assms u
    by (auto simp: nfc_tag_type5_apply_cc_def nfc_tag_type5_clear_cc_info_def type5_info_ok_def Let_def)
qed

lemma system_info_ids_ok:
  assumes "type5_info_ok info" "n \<le> length raw" "n \<le> 16" "pos \<le> 10"
  shows "\<exists>info' pos'. system_info_ids info (Some raw) n flags pos = Some (info', pos') \<and> type5_info_ok info' \<and>
    pos' \<le> pos + 2"
  using assms by (auto simp: system_info_ids_def type5_info_ok_def u8n_def)

lemma system_info_raw_ok:
  assumes "type5_info_ok info" "2 \<le> n" "n \<le> 16" "n \<le> length raw"
  shows "\<exists>info'. system_info_raw info (Some raw) n = Some (True, info') \<and> type5_info_ok info'"
  using assms by (auto simp: system_info_raw_def type5_info_ok_def)

lemma system_info_ic_ok:
  assumes "type5_info_ok info" "n \<le> length raw" "n \<le> 16"
  shows "\<exists>info'. system_info_ic info (Some raw) n flags pos = Some info' \<and> type5_info_ok info'"
  using assms by (auto simp: system_info_ic_def type5_info_ok_def)

lemma apply_system_info_ok:
  assumes i: "type5_info_ok info" "n \<le> length raw" "n \<le> 16"
  shows "\<exists>info'. nfc_tag_type5_apply_system_info info (Some raw) n = Some info' \<and> type5_info_ok info'"
    and "\<exists>info'. nfc_tag_type5_apply_system_info_ext info (Some raw) n = Some info' \<and> type5_info_ok info'"
proof -
  let ?i = "nfc_tag_type5_clear_system_info info"
  have c: "type5_info_ok ?i" using i by (simp add: type5_info_ok_def nfc_tag_type5_clear_system_info_def)
  have size: "unat (w AND 0x1F :: u8) + 1 \<le> 32" "unat (w :: u8) + 1 \<le> UINT16_MAX" for w
    using word_and_le1 [of w "0x1F"] unat_u8_bound [of w] by (simp add: word_le_nat_alt, linarith)
  have raw: "\<exists>i1. system_info_raw ?i (Some raw) n = Some (True, i1) \<and> type5_info_ok i1" if "2 \<le> n"
    using system_info_raw_ok [OF c that i(3,2)] .
  have blocks: "type5_info_ok (i2\<lparr>t5_block_count := k, t5_block_size := m\<rparr>)"
    if "type5_info_ok i2" "k \<le> UINT16_MAX" "m \<le> 32" for i2 k m
    using that by (simp add: type5_info_ok_def)
  show "\<exists>info'. nfc_tag_type5_apply_system_info info (Some raw) n = Some info' \<and> type5_info_ok info'"
  proof (cases "n < 2")
    case False
    then obtain i1 where 1: "system_info_raw ?i (Some raw) n = Some (True, i1)" "type5_info_ok i1" using raw by auto
    obtain i2 pos where 2: "system_info_ids i1 (Some raw) n (t5_info_flags i1) 10 = Some (i2, pos)" "type5_info_ok i2" "pos \<le> 12"
      using system_info_ids_ok [OF 1(2) i(2,3), where pos = 10 and flags = "t5_info_flags i1"] by auto
    show ?thesis using False 1(1) 2 i blocks [OF 2(2) size(2,1)] system_info_ic_ok [OF _ i(2,3)]
      by (auto simp: nfc_tag_type5_apply_system_info_def Let_def)
  qed (use c in \<open>simp add: nfc_tag_type5_apply_system_info_def\<close>)
  show "\<exists>info'. nfc_tag_type5_apply_system_info_ext info (Some raw) n = Some info' \<and> type5_info_ok info'"
  proof (cases "n < 10")
    case False
    then obtain i1 where 1: "system_info_raw ?i (Some raw) n = Some (True, i1)" "type5_info_ok i1" using raw by auto
    obtain i2 pos where 2: "system_info_ids i1 (Some raw) n (t5_info_flags i1) 10 = Some (i2, pos)" "type5_info_ok i2" "pos \<le> 12"
      using system_info_ids_ok [OF 1(2) i(2,3), where pos = 10 and flags = "t5_info_flags i1"] by auto
    have b: "k \<le> UINT16_MAX \<Longrightarrow> type5_info_ok (i2\<lparr>t5_block_count := k, t5_block_size := Suc (unat (x AND 0x1F))\<rparr>)"
      for k :: nat and x :: u8
      using blocks [OF 2(2) _ size(1)] by simp
    show ?thesis using False 1(1) 2 i b system_info_ic_ok [OF _ i(2,3)]
      by (auto simp: nfc_tag_type5_apply_system_info_ext_def Let_def)
  qed (use c in \<open>simp add: nfc_tag_type5_apply_system_info_ext_def\<close>)
qed

lemma resolve_ok: "type5_info_ok info \<Longrightarrow> type5_info_ok (nfc_tag_type5_resolve_mlen_overflow info)"
  by (auto simp: nfc_tag_type5_resolve_mlen_overflow_def type5_info_ok_def Let_def)

lemma raw_info_returns:
  assumes "tag_state_ok (snd w)" "0 < cap" "cap \<le> length buf"
  shows "\<exists>w' r new. reader_tags_iso15693_get_system_info_raw R w (Some buf) cap = Some (w', r, Some new) \<and> snd w' = snd w \<and>
      length new = length buf \<and> r \<le> int cap"
    and "\<exists>w' r new. reader_tags_iso15693_get_system_info_ext_raw R w (Some buf) cap = Some (w', r, Some new) \<and> snd w' = snd w \<and>
      length new = length buf \<and> r \<le> int cap"
proof -
  have l: "length (ts_uid15 (snd w)) = 8" using assms(1) by (simp add: tag_state_ok_def)
  have cmd: "\<exists>w' r new. do {
      (cmd, n) \<leftarrow> put_bytes (Some (replicate 12 0)) 0 hdr;
      (cmd, n) \<leftarrow> put_from cmd n (Some (ts_uid15 (snd w))) REVERSED_UID;
      reader_protocol_iso15693_transceive R w cmd n (Some buf) cap 30
    } = Some (w', r, Some new) \<and> snd w' = snd w \<and> length new = length buf \<and> r \<le> int cap"
    if "length hdr \<le> 3" for hdr :: bytes
  proof -
    let ?c = "patch (patch (replicate 12 0) 0 hdr) (length hdr) (map ((!) (ts_uid15 (snd w))) REVERSED_UID)"
    have p: "put_bytes (Some (replicate 12 0)) 0 hdr = Some (Some (patch (replicate 12 0) 0 hdr), length hdr)"
      using put_bytes_ok [of 0 hdr "replicate 12 0"] that by simp
    have q: "put_from (Some (patch (replicate 12 0) 0 hdr)) (length hdr) (Some (ts_uid15 (snd w))) REVERSED_UID =
        Some (Some ?c, length hdr + length REVERSED_UID)"
      by (rule put_from_ok) (use l that in simp_all)
    have n: "0 < length hdr + length REVERSED_UID" "length hdr + length REVERSED_UID \<le> length ?c" using that by simp_all
    show ?thesis unfolding p q Option.bind.bind_lunit prod.case using v_transceive_safe [OF n assms(3,2), of R w 30] by blast
  qed
  show "\<exists>w' r new. reader_tags_iso15693_get_system_info_raw R w (Some buf) cap = Some (w', r, Some new) \<and> snd w' = snd w \<and>
      length new = length buf \<and> r \<le> int cap"
    using cmd [of "[FLAGS_ADDRESSED, 0x2B]"] assms(2) unfolding reader_tags_iso15693_get_system_info_raw_def by simp
  show "\<exists>w' r new. reader_tags_iso15693_get_system_info_ext_raw R w (Some buf) cap = Some (w', r, Some new) \<and> snd w' = snd w \<and>
      length new = length buf \<and> r \<le> int cap"
    using cmd [of "[FLAGS_ADDRESSED OR FLAG_PROTOCOL_EXTENSION, 0x3B, 0x0F]"] assms(2)
    unfolding reader_tags_iso15693_get_system_info_ext_raw_def by simp
qed

lemma read_cc_returns:
  assumes "tag_state_ok (snd w)" "type5_info_ok info"
  shows "\<exists>w' info'. type5_read_cc R w info = Some (w', True, info') \<and> snd w' = snd w \<and> type5_info_ok info'"
proof -
  obtain w1 n page0 where 1: "reader_tags_iso15693_user_read R w 0 (Some [0, 0, 0, 0]) 4 = Some (w1, n, Some page0)" "snd w1 = snd w"
    "length page0 = 4"
    using user_read_returns [OF assms(1), of 4 "[0, 0, 0, 0]" R 0] by auto
  obtain w2 m page1 where 2: "reader_tags_iso15693_user_read R w1 1 (Some [0, 0, 0, 0]) 4 = Some (w2, m, Some page1)" "snd w2 = snd w1"
    "length page1 = 4"
    using user_read_returns [of w1 4 "[0, 0, 0, 0]" R 1] assms(1) 1(2) by auto
  have d: "\<exists>k. nfc_storage_type5_declared_cc_len_from_first_block (Some page0) 4 = Some k"
    using 1(3) by (simp add: nfc_storage_type5_declared_cc_len_from_first_block_def)
  have cc: "\<exists>info'. nfc_tag_type5_apply_cc info (Some c) k = Some info' \<and> type5_info_ok info'"
    if "k = 4 \<or> k = 8" "length c = 8" for c k
    using apply_cc_ok [OF assms(2) that] .
  obtain c1 c2 where w: "w1 = (c1, snd w)" "w2 = (c2, snd w)" using 1(2) 2(2) by (cases w1; cases w2) auto
  show ?thesis
  proof (cases "n < 4")
    case False
    obtain k where k: "nfc_storage_type5_declared_cc_len_from_first_block (Some page0) 4 = Some k" using d by blast
    let ?c0 = "patch (replicate 8 0) 0 page0"
    obtain i0 where i0: "nfc_tag_type5_apply_cc info (Some ?c0) 4 = Some i0" "type5_info_ok i0" using cc [of 4 ?c0] 1(3) by auto
    obtain i1 where i1: "nfc_tag_type5_apply_cc info (Some (patch ?c0 4 page1)) 8 = Some i1" "type5_info_ok i1"
      using cc [of 8 "patch ?c0 4 page1"] 1(3) 2(3) by auto
    show ?thesis
    proof (cases "m \<ge> 4")
      case True
      then show ?thesis using False 1 2 k i0 i1 w by (simp add: type5_read_cc_def)
    next
      case m: False
      then show ?thesis using False 1 2 k i0 w by (simp add: type5_read_cc_def)
    qed
  qed (use 1 w assms(2) in \<open>simp add: type5_read_cc_def\<close>)
qed

lemma ext_info_returns:
  assumes "tag_state_ok (snd w)" "type5_info_ok info"
  shows "\<exists>w' info'. type5_ext_info R w info = Some (w', info') \<and> snd w' = snd w \<and> type5_info_ok info'"
proof -
  obtain w1 r rx where 1: "reader_tags_iso15693_get_system_info_ext_raw R w (Some (replicate 20 0)) 20 = Some (w1, r, Some rx)"
    "snd w1 = snd w" "length rx = 20" "r \<le> 20"
    using raw_info_returns(2) [OF assms(1), of 20 "replicate 20 0" R] by auto
  obtain info' where i: "nfc_tag_type5_apply_system_info_ext info (Some rx) (if r > 16 then 16 else nat r) = Some info'" "type5_info_ok info'"
    using apply_system_info_ok(2) [OF assms(2), of "if r > 16 then 16 else nat r" rx] 1(3) by (cases "r > 16") (auto simp: nat_le_iff)
  obtain c1 where w: "w1 = (c1, snd w)" using 1(2) by (cases w1) auto
  obtain c where "w = (c, snd w)" by (cases w) auto
  then show ?thesis using 1 i w assms(2) by (auto simp: type5_ext_info_def)
qed

lemma type5_info_returns:
  assumes s: "tag_state_ok (snd w)"
  shows "\<exists>w' info. reader_tags_get_type5_info R w = Some (w', True, info) \<and> snd w' = snd w \<and> type5_info_ok info"
proof -
  obtain w1 i1 where 1: "type5_read_cc R w type5_zero = Some (w1, True, i1)" "snd w1 = snd w" "type5_info_ok i1"
    using read_cc_returns [OF s type5_zero_ok] by blast
  obtain w2 r rx where 2: "reader_tags_iso15693_get_system_info_raw R w1 (Some (replicate 16 0)) 16 = Some (w2, r, Some rx)"
    "snd w2 = snd w" "length rx = 16" "r \<le> 16"
    using raw_info_returns(1) [of w1 16 "replicate 16 0" R] 1(2) s by auto
  obtain i2 where i2: "nfc_tag_type5_apply_system_info i1 (Some rx) (if r > 16 then 16 else nat r) = Some i2" "type5_info_ok i2"
    using apply_system_info_ok(1) [OF 1(3), of "if r > 16 then 16 else nat r" rx] 2(3) by (cases "r > 16") (auto simp: nat_le_iff)
  obtain w3 i3 where 3: "type5_ext_info R w2 i2 = Some (w3, i3)" "snd w3 = snd w" "type5_info_ok i3"
    using ext_info_returns [OF _ i2(2), of w2 R] 2(2) s by auto
  obtain c2 c3 where w: "w2 = (c2, snd w)" "w3 = (c3, snd w)" using 2(2) 3(2) by (cases w2; cases w3) auto
  show ?thesis using 1 2 i2 3 w resolve_ok by (auto simp: reader_tags_get_type5_info_def)
qed

lemma cc_byte_len_ok: "type5_info_ok info \<Longrightarrow> t5_cc_valid info \<Longrightarrow>
    reader_tags_type5_cc_byte_len info = 4 \<or> reader_tags_type5_cc_byte_len info = 8"
  by (auto simp: type5_info_ok_def reader_tags_type5_cc_byte_len_def)

section \<open>Messages\<close>

lemma type5_load_returns:
  assumes w: "tag_state_ok (snd w)" and d: "cap \<le> length dst" "length dst < 65536"
  shows "returns (reader_tags_load_type5_ndef_message R w (Some dst) cap) (buffer_of (length dst) cap)"
proof -
  have fail: "buffer_of (length dst) cap (-1, Some dst)" by (simp add: buffer_of_def)
  obtain w1 info where 1: "reader_tags_get_type5_info R w = Some (w1, True, info)" "snd w1 = snd w" "type5_info_ok info"
    using type5_info_returns [OF w] by blast
  define cc where "cc = reader_tags_type5_cc_byte_len info"
  define n where "n = (if cc + t5_data_area_size info > 1024 then 1024 else cc + t5_data_area_size info)"
  have n: "n \<le> 1024" unfolding n_def by simp
  obtain w2 got raw where 2: "reader_tags_type5_read_binary R w1 0 (Some (replicate 1024 0)) n = Some (w2, got, Some raw)"
    "tag_state_ok (snd w2)" "length raw = 1024" "got \<le> int n"
    using type5_read_returns [of w1 n "replicate 1024 0" R 0] 1(2) w n by (auto simp: returns_def buffer_of_def)
  have g: "u16n (nat got) \<le> length raw" using 2(3,4) n by simp
  obtain r new where del: "deliver_message w2 (Some raw) (u16n (nat got)) cc (Some dst) cap = Some (w2, r, Some new)"
    "length new = length dst" "r = -1 \<or> 0 \<le> r \<and> r \<le> int cap"
    using deliver_total [of "u16n (nat got)" raw cap dst w2 cc] g 2(3) d by auto
  have b: "buffer_of (length dst) cap (r, Some new)" using del by (simp add: buffer_of_def)
  have w1: "tag_state_ok (snd w1)" using 1(2) w by simp
  show ?thesis using 1(1) 2(1) [unfolded n_def] 2(2) del(1) b fail w w1
    by (auto simp: reader_tags_load_type5_ndef_message_def READER_NDEF_BUF_MAX_def cc_def [symmetric]
        Let_def nero_nfc_try_add_u16_def)
qed

lemma data_blocks_bound:
  "nfc_storage_type5_data_blocks cc area 4 count = (True, first, hi) \<Longrightarrow> first \<le> hi \<and> hi \<le> UINT16_MAX"
  by (auto simp: nfc_storage_type5_data_blocks_def Let_def split: if_splits option.splits)

lemma type5_write_returns:
  assumes w: "tag_state_ok (snd w)" and n: "n \<le> length ndef" "length ndef < 65536"
  shows "returns (reader_tags_write_type5_ndef_message R w (Some ndef) n) (\<lambda>_. True)"
proof -
  obtain w1 info where 1: "reader_tags_get_type5_info R w = Some (w1, True, info)" "snd w1 = snd w" "type5_info_ok info"
    using type5_info_returns [OF w] by blast
  have w1: "tag_state_ok (snd w1)" using 1(2) w by simp
  define cap where "cap = (if t5_data_area_size info > 1024 then 1024 else t5_data_area_size info)"
  have cap: "cap \<le> 1024" unfolding cap_def by simp
  let ?L = "nfc_ndef_tlv_envelope_len n"
  show ?thesis
  proof (cases "t5_cc_valid info \<and> t5_write_open info \<and> t5_data_area_size info \<noteq> 0 \<and>
      (if t5_block_size info = 0 then 4 else t5_block_size info) = 4")
    case True
    show ?thesis
    proof (cases "?L \<le> cap")
      case fits: True
      obtain tlv where t: "nfc_ndef_build_message_tlv (Some ndef) n (Some (replicate 1024 0)) cap = Some (True, Some tlv, ?L)"
        "length tlv = 1024"
        using build_message_spec [of n ndef cap "replicate 1024 0"] n(1) cap fits by auto
      obtain ok first hi where b: "nfc_storage_type5_data_blocks (reader_tags_type5_cc_byte_len info) (t5_data_area_size info) 4
          (t5_block_count info) = (ok, first, hi)" by (cases rule: prod_cases3)
      have f: "first \<le> hi" if ok using data_blocks_bound b that by simp
      have cc: "reader_tags_type5_cc_byte_len info = 4 \<or> reader_tags_type5_cc_byte_len info = 8"
        using cc_byte_len_ok [OF 1(3)] True by blast
      have small: "first \<le> 2" if ok
        using cc b that by (auto simp: nfc_storage_type5_data_blocks_def Let_def split: if_splits option.splits)
      have wr: "returns (reader_tags_write_storage_tlv_units (Some tlv) ?L first 4 (reader_tags_type5_write_unit R) w1) (\<lambda>_. True)" if ok
        using type5_writer.write_storage_returns [of w1 ?L tlv first R] w1 t(2) cap fits small [OF that]
        by (auto simp: returns_def)
      have "nfc_storage_ceil_units_u16 ?L 4 = Some ((?L + 3) div 4)" using cap fits by (simp add: ceil_units_eq)
      then show ?thesis using True 1(1) t(1) [unfolded cap_def] b w1 wr
        by (auto simp: reader_tags_write_type5_ndef_message_def READER_NDEF_BUF_MAX_def Let_def)
    next
      case False
      have "nfc_ndef_build_message_tlv (Some ndef) n (Some (replicate 1024 0)) cap =
          Some (False, Some (replicate 1024 0), if ?L > 0xFFFF then u16n 0xFFFF else u16n ?L)"
        using False by (simp add: nfc_ndef_build_message_tlv_def)
      from this [unfolded cap_def] show ?thesis using True 1(1) w1
        by (auto simp: reader_tags_write_type5_ndef_message_def READER_NDEF_BUF_MAX_def Let_def)
    qed
  qed (use 1(1) w1 in \<open>auto simp: reader_tags_write_type5_ndef_message_def Let_def\<close>)
qed

text \<open>
  C24: whatever is in the field, reading and writing the message of a Type 5 tag returns, keeps the
  arrays of the reader's state in their sizes, and the message read fits the caller's buffer.
\<close>

theorem type5_messages_safe:
  assumes "tag_state_ok (snd w)" "cap \<le> length dst" "length dst < 65536" "n \<le> length ndef" "length ndef < 65536"
  shows "returns (reader_tags_load_type5_ndef_message R w (Some dst) cap) (buffer_of (length dst) cap) \<and>
    returns (reader_tags_write_type5_ndef_message R w (Some ndef) n) (\<lambda>_. True)"
  using type5_load_returns [OF assms(1-3)] type5_write_returns [OF assms(1,4,5)] by simp

theorem type5_messages_safe_witness:
  "returns (reader_tags_load_type5_ndef_message noisy_radio ((), fresh_tag_state) (Some (replicate 100 0)) 100)
      (buffer_of (length (replicate 100 (0 :: u8))) 100) \<and>
    returns (reader_tags_write_type5_ndef_message noisy_radio ((), fresh_tag_state) (Some [0xD0, 0, 0]) 3) (\<lambda>_. True)"
  by (rule type5_messages_safe) (simp_all add: fresh_tag_state_ok)

end
