(* ===== verification/SecurityKeyRelay.thy ===== *)
theory SecurityKeyRelay
  imports IsoDepExchange CtapCodec ReaderProtocol
begin

text \<open>
  Selecting an application and relaying the APDUs of the host to a security key:
  \<open>reader_security_key.c\<close>, \<open>reader_security_key_webauthn_select.c\<close>,
  \<open>reader_security_key_ccid_codec.h\<close> and \<open>reader_security_key_ccid_relay.c\<close>.

  The operations run on the session of \<open>IsoDepSession\<close>. An exchange may wait for the card without
  end, so results have the form of \<open>IsoDepExchange\<close>: \<open>None\<close> is a fault, \<open>Some None\<close> stands for an
  exchange that is still running when the fuel is used up. The traced twins of the session functions
  only add log output, as do \<open>name\<close> and \<open>verbose\<close> here. Callers pass both the response buffer and
  the pointer to its length or neither.
\<close>

section \<open>Sequences of exchanges\<close>

definition after :: "'a option option \<Rightarrow> ('a \<Rightarrow> 'b option option) \<Rightarrow> 'b option option" where
  "after m f = do {
     r \<leftarrow> m;
     case r of None \<Rightarrow> Some None | Some x \<Rightarrow> f x
   }"

text \<open>The C result of an exchange: a length, or -1.\<close>

definition rlen_int :: "nat option \<Rightarrow> int" where
  "rlen_int r = (case r of None \<Rightarrow> -1 | Some n \<Rightarrow> int n)"

type_synonym 'c session = "'c \<times> iso_dep"

section \<open>Selecting an application\<close>

text \<open>
  One round of the loop in \<open>reader_security_key_select_app_ex\<close>. The outcome is \<open>None\<close> for a pending
  abort and the length and success of the SELECT otherwise.
\<close>

definition select_round ::
    "nat \<Rightarrow> 'c radio \<Rightarrow> cptr \<Rightarrow> nat \<Rightarrow> bool \<Rightarrow> 'c session \<times> cptr \<times> bool \<Rightarrow>
      ('c session \<times> cptr \<times> bool, 'c session \<times> cptr \<times> (int \<times> bool) option) step option" where
  "select_round fuel R apdu apdu_len follow_get_response = (\<lambda>(w, resp, tried_cid_reopen).
     let (c, s) = reader_security_key_iso_dep_ccid_heartbeat R w;
         (c, aborted) = ccid_abort_pending R c
     in if aborted then Some (Stop ((c, s), resp, None))
        else do {
          r \<leftarrow> reader_security_key_send_apdu_timeout_ex fuel R (c, s) apdu apdu_len resp 64 1000 follow_get_response;
          case r of
            None \<Rightarrow> Some Starved
          | Some (w, resp, n) \<Rightarrow> do {
              let rlen = rlen_int n;
              ok \<leftarrow> nfc_iso7816_response_sw_ok resp rlen;
              if ok \<or> tried_cid_reopen \<or> \<not> reader_security_key_iso_dep_probe_can_upgrade_cid (snd w) \<or> rlen \<ge> 2
              then Some (Stop (w, resp, Some (rlen, ok)))
              else do {
                (w, again) \<leftarrow> iso_dep_recover_session_quiet R w;
                if \<not> again then Some (Stop (w, resp, Some (rlen, ok)))
                else Some (Again (reader_security_key_iso_dep_protocol_settle R
                  (reader_security_key_iso_dep_ccid_heartbeat R w), resp, True))
              }
            }
        })"

text \<open>Results: success, the response buffer and the length, when one is stored.\<close>

definition reader_security_key_select_app_ex ::
    "nat \<Rightarrow> 'c radio \<Rightarrow> 'c session \<Rightarrow> cptr \<Rightarrow> nat \<Rightarrow> u8 \<Rightarrow> bool \<Rightarrow> bool \<Rightarrow> cptr \<Rightarrow> nat \<Rightarrow>
      ('c session \<times> bool \<times> cptr \<times> nat option) option option" where
  "reader_security_key_select_app_ex fuel R w aid aid_len p2 add_le_00 follow_get_response rsp_out rsp_cap = do {
     (built, apdu, apdu_len) \<leftarrow> nfc_pcsc_build_select_aid_apdu aid aid_len p2 add_le_00 (Some (replicate 24 0)) 24;
     if \<not> built then Some (Some (w, False, rsp_out, None))
     else after (run_steps (select_round fuel R apdu apdu_len follow_get_response) fuel (w, Some (replicate 64 0), False))
       (\<lambda>(w, resp, outcome). case outcome of
          None \<Rightarrow>
            if rsp_out \<noteq> None \<and> rsp_cap \<ge> 2 then do {
              rsp_out \<leftarrow> wr rsp_out 0 0x69;
              rsp_out \<leftarrow> wr rsp_out 1 0x17;
              Some (Some (w, False, rsp_out, Some 2))
            } else Some (Some (w, False, rsp_out, None))
        | Some (rlen, ok) \<Rightarrow>
            if rlen \<ge> 2 \<and> rsp_out \<noteq> None \<and> u16n (nat rlen) \<le> rsp_cap then do {
              (_, rsp_out) \<leftarrow> nero_nfc_copy_bytes rsp_out rsp_cap 0 resp (u16n (nat rlen));
              Some (Some (w, ok, rsp_out, Some (u16n (nat rlen))))
            } else Some (Some (w, ok, rsp_out, None)))
   }"

definition reader_iso_dep_select_app ::
    "nat \<Rightarrow> 'c radio \<Rightarrow> 'c session \<Rightarrow> cptr \<Rightarrow> nat \<Rightarrow> ('c session \<times> bool) option option" where
  "reader_iso_dep_select_app fuel R w aid aid_len =
     after (reader_security_key_select_app_ex fuel R w aid aid_len 0x00 True True None 0)
       (\<lambda>(w, ok, _, _). Some (Some (w, ok)))"

text \<open>
  The loop the three callers share: the variants in order, until one is selected. A length that is
  stored replaces the one before.
\<close>

fun select_variants ::
    "nat \<Rightarrow> 'c radio \<Rightarrow> (nat \<Rightarrow> bool \<times> select_variant) \<Rightarrow> bool \<Rightarrow> nat \<Rightarrow> nat list \<Rightarrow> 'c session \<times> cptr \<times> nat \<Rightarrow>
      ('c session \<times> bool \<times> cptr \<times> nat) option option" where
  "select_variants fuel R variants follow rsp_cap [] (w, rsp, len) = Some (Some (w, False, rsp, len))"
| "select_variants fuel R variants follow rsp_cap (i # is) (w, rsp, len) =
     (case variants i of (known, v) \<Rightarrow>
        if \<not> known then Some (Some (w, False, rsp, len))
        else after (reader_security_key_select_app_ex fuel R w (sv_aid v) (sv_aid_len v) (sv_p2 v) (sv_add_le_00 v)
               follow rsp rsp_cap)
          (\<lambda>(w, ok, rsp, n).
             let len = (case n of None \<Rightarrow> len | Some k \<Rightarrow> k) in
             if ok then Some (Some (w, True, rsp, len))
             else select_variants fuel R variants follow rsp_cap is (w, rsp, len)))"

definition reader_iso_dep_select_ndef_app ::
    "nat \<Rightarrow> 'c radio \<Rightarrow> 'c session \<Rightarrow> ('c session \<times> bool) option option" where
  "reader_iso_dep_select_ndef_app fuel R w =
     after (select_variants fuel R nfc_pcsc_ndef_app_select_variant True 0 [0..<8] (w, None, 0))
       (\<lambda>(w, ok, _, _). Some (Some (w, ok)))"

definition reader_security_key_select_fido_probe ::
    "nat \<Rightarrow> 'c radio \<Rightarrow> 'c session \<Rightarrow> bool \<Rightarrow> cptr \<Rightarrow> nat \<Rightarrow> nat \<Rightarrow> ('c session \<times> bool \<times> cptr \<times> nat) option option" where
  "reader_security_key_select_fido_probe fuel R w follow rsp_out rsp_cap rsp_len =
     select_variants fuel R nfc_ctap_fido_app_select_variant follow rsp_cap [0..<4] (w, rsp_out, rsp_len)"

section \<open>Selecting FIDO for a host\<close>

text \<open>The recovery in front of a step; \<open>False\<close> when the session cannot be reopened.\<close>

definition webauthn_prepare :: "'c radio \<Rightarrow> nat \<Rightarrow> select_prep \<Rightarrow> 'c session \<Rightarrow> ('c session \<times> bool) option" where
  "webauthn_prepare R step prep w =
     (if step = 0 then Some (w, True)
      else case prep of
        PREP_RECOVER \<Rightarrow> do {
          (w, ok) \<leftarrow> iso_dep_recover_session_quiet R w;
          Some (if \<not> ok then (w, False)
            else (reader_security_key_iso_dep_pre_first_iblock_delay R
                   (reader_security_key_iso_dep_post_recover_rf_settle R w), True))
        }
      | PREP_SETTLE \<Rightarrow> Some (reader_security_key_iso_dep_pre_first_iblock_delay R
          (reader_security_key_iso_dep_protocol_settle R w), True)
      | PREP_NONE \<Rightarrow> Some (w, True))"

fun webauthn_steps ::
    "nat \<Rightarrow> 'c radio \<Rightarrow> bool \<Rightarrow> nat \<Rightarrow> nat list \<Rightarrow> 'c session \<times> cptr \<times> nat \<Rightarrow>
      ('c session \<times> bool \<times> cptr \<times> nat) option option" where
  "webauthn_steps fuel R follow rsp_cap [] (w, rsp, len) = Some (Some (w, False, rsp, len))"
| "webauthn_steps fuel R follow rsp_cap (step # steps) (w, rsp, len) =
     (case nfc_ctap_fido_webauthn_select_step step of (known, info) \<Rightarrow>
      case nfc_ctap_fido_app_select_variant (ws_variant_index info) of (known_variant, v) \<Rightarrow>
        if \<not> known \<or> \<not> known_variant then Some (Some (w, False, rsp, len))
        else do {
          (w, ready) \<leftarrow> webauthn_prepare R step (ws_prep info) w;
          if \<not> ready then Some (Some (w, False, rsp, len))
          else after (reader_security_key_select_app_ex fuel R w (sv_aid v) (sv_aid_len v) (sv_p2 v) (sv_add_le_00 v)
                 follow rsp rsp_cap)
            (\<lambda>(w, ok, rsp, n).
               let len = (case n of None \<Rightarrow> len | Some k \<Rightarrow> k) in
               if ok then Some (Some (w, True, rsp, len))
               else webauthn_steps fuel R follow rsp_cap steps (w, rsp, len))
        })"

definition reader_security_key_select_fido_for_host_webauthn ::
    "nat \<Rightarrow> 'c radio \<Rightarrow> 'c session \<Rightarrow> cptr \<Rightarrow> nat \<Rightarrow> bool \<Rightarrow> ('c session \<times> bool \<times> cptr \<times> nat) option option" where
  "reader_security_key_select_fido_for_host_webauthn fuel R w rsp_out rsp_cap follow_get_response =
     webauthn_steps fuel R follow_get_response rsp_cap [0..<4]
       (reader_security_key_iso_dep_pre_first_iblock_delay R w, rsp_out, 0)"

section \<open>Codec\<close>

definition reader_security_key_ctap_timeout_for_command :: "u8 \<Rightarrow> nat \<Rightarrow> nat \<Rightarrow> nat" where
  "reader_security_key_ctap_timeout_for_command ctap_cmd long_frame_ms short_frame_ms =
     (if ctap_cmd = 0x01 \<or> ctap_cmd = 0x02 \<or> ctap_cmd = 0x06 then long_frame_ms else short_frame_ms)"

fun atr_tck_loop :: "cptr \<Rightarrow> nat \<Rightarrow> nat \<Rightarrow> nat \<Rightarrow> u8 \<Rightarrow> (bool \<times> u8) option" where
  "atr_tck_loop dst cap i 0 tck = Some (True, tck)"
| "atr_tck_loop dst cap i (Suc n) tck = do {
     (ok, b) \<leftarrow> nero_nfc_load_u8 dst cap i;
     if \<not> ok then Some (False, tck) else atr_tck_loop dst cap (i + 1) n (tck XOR b)
   }"

text \<open>The length is an input of the code as well; it keeps its value on failure.\<close>

definition reader_security_key_copy_ats_as_pcsc_atr ::
    "cptr \<Rightarrow> nat \<Rightarrow> cptr \<Rightarrow> nat \<Rightarrow> nat \<Rightarrow> (bool \<times> cptr \<times> nat) option" where
  "reader_security_key_copy_ats_as_pcsc_atr ats ats_len dst dst_cap alen =
     (if ats = None \<or> dst = None \<or> ats_len = 0 then Some (False, dst, alen)
      else let hist_len = (if ats_len > 15 then 15 else ats_len) in
        if dst_cap < hist_len + 4 then Some (False, dst, alen)
        else do {
          (ok, dst) \<leftarrow> store_seq dst dst_cap [(0, 0x3B), (1, 0x80 OR byte hist_len), (2, 0x01)];
          (ok, dst) \<leftarrow> (if ok then nero_nfc_copy_bytes dst dst_cap 3 ats hist_len else Some (False, dst));
          if \<not> ok then Some (False, dst, alen)
          else do {
            (ok, tck) \<leftarrow> atr_tck_loop dst dst_cap 1 (2 + hist_len) 0;
            if \<not> ok then Some (False, dst, alen)
            else do {
              (ok, dst) \<leftarrow> nero_nfc_store_u8 dst dst_cap (3 + hist_len) tck;
              Some (if \<not> ok then (False, dst, alen) else (True, dst, hist_len + 4))
            }
          }
        })"

definition reader_security_key_pcsc_contactless_copy_atr :: "'c session \<Rightarrow> cptr \<Rightarrow> nat \<Rightarrow> nat \<Rightarrow> (bool \<times> cptr \<times> nat) option" where
  "reader_security_key_pcsc_contactless_copy_atr = (\<lambda>(c, s) dst dst_cap alen.
     reader_security_key_copy_ats_as_pcsc_atr (Some (id_ats_data s)) (id_ats_len s) dst dst_cap alen)"

definition reader_security_key_relay_failure_response :: "cptr \<Rightarrow> nat \<Rightarrow> (nat \<times> cptr) option" where
  "reader_security_key_relay_failure_response rsp rsp_cap =
     (if rsp = None \<or> rsp_cap < 2 then Some (0, rsp)
      else do {
        (ok, rsp) \<leftarrow> store_seq rsp rsp_cap [(0, 0x6F), (1, 0x00)];
        Some (if \<not> ok then 0 else 2, rsp)
      })"

section \<open>Opening the session of a host\<close>

definition reader_security_key_ccid_release_iso_session :: "'c radio \<Rightarrow> 'c session \<Rightarrow> 'c session option" where
  "reader_security_key_ccid_release_iso_session R w = reader_security_key_iso_dep_send_deselect R w"

text \<open>
  \<open>reader_protocol_activate_iso14443a\<close> on this state: it uses the UID buffer and stores the UID, its
  length and the SAK; what else it keeps (the ATQA) is not part of the session.
\<close>

definition session_activate :: "'c tag_radio \<Rightarrow> 'c session \<Rightarrow> ('c session \<times> bool) option" where
  "session_activate T = (\<lambda>(c, s). do {
     ((c, t), ok) \<leftarrow> reader_protocol_activate_iso14443a T (c, fresh_tag_state\<lparr>ts_uid14 := id_uid14 s,
       ts_uid14_len := id_uid14_len s, ts_sak := id_sak s\<rparr>);
     Some ((c, s\<lparr>id_uid14 := ts_uid14 t, id_uid14_len := ts_uid14_len t, id_sak := ts_sak t\<rparr>), ok)
   })"

text \<open>\<open>configure\<close> and \<open>ensure_tx_rx\<close> of the front end act on its state only: \<open>rf_configure\<close>.\<close>

definition reader_security_key_ccid_open_iso_session ::
    "'c radio \<Rightarrow> 'c tag_radio \<Rightarrow> 'c session \<Rightarrow> ('c session \<times> bool) option" where
  "reader_security_key_ccid_open_iso_session R T w = do {
     let reopen_after_deselect = (id_last_deselect_ms (snd w) \<noteq> 0);
     let active_type4_selection = (id_uid14_len (snd w) \<noteq> 0 \<and> id_sak (snd w) AND 0x20 \<noteq> 0);
     let w = reader_security_key_iso_dep_wait_post_deselect_gap R w;
     let w = (rf_configure R (fst w), snd w);
     (w, ok) \<leftarrow> (if reopen_after_deselect then iso_dep_activate_after_hlta_quiet R w
       else if \<not> active_type4_selection then session_activate T w else Some (w, True));
     if \<not> ok then Some (w, False)
     else if id_sak (snd w) AND 0x20 = 0 then Some (w, False)
     else do {
       (w, ok) \<leftarrow> (if reopen_after_deselect
         then iso_dep_open_main_from_active_quiet R (reader_security_key_iso_dep_protocol_settle R w) 400
         else do {
           (w, ok) \<leftarrow> reader_security_key_iso_dep_session_open_quiet R w 400;
           (w, ok) \<leftarrow> (if ok then Some (w, True)
             else do {
               (w, ok) \<leftarrow> session_activate T (rf_configure R (fst w), snd w);
               if \<not> ok then Some (w, False) else reader_security_key_iso_dep_session_open_quiet R w 400
             });
           if \<not> ok then Some (w, False) else iso_dep_recover_session_quiet R w
         });
       if \<not> ok then Some (w, False)
       else do {
         let (c, s) = reader_security_key_iso_dep_post_recover_rf_settle R w;
         Some (reader_security_key_iso_dep_pre_first_iblock_delay R
           (c, reader_security_key_iso_dep_clear_last_deselect_ms s), True)
       }
     }
   }"

section \<open>Relaying\<close>

text \<open>Results of both: whether there is a response, the response buffer and its length.\<close>

definition relay_select_with_recovery ::
    "nat \<Rightarrow> 'c radio \<Rightarrow> 'c session \<Rightarrow> cptr \<Rightarrow> nat \<Rightarrow> cptr \<Rightarrow> nat \<Rightarrow> ('c session \<times> bool \<times> cptr \<times> nat) option option" where
  "relay_select_with_recovery fuel R w apdu apdu_len rsp rsp_cap =
     (if rsp = None then Some (Some (w, False, rsp, 0))
      else after (reader_security_key_send_apdu_timeout_ex fuel R (reader_security_key_iso_dep_pre_first_iblock_delay R w)
             apdu apdu_len rsp rsp_cap 1000 False)
        (\<lambda>(w, rsp, n). do {
           has_sw \<leftarrow> reader_iso_dep_apdu_response_has_status_word rsp (u16n (case n of None \<Rightarrow> 0 | Some k \<Rightarrow> k));
           if has_sw then Some (Some (w, True, rsp, u16n (the n)))
           else do {
             (w, reopened) \<leftarrow> iso_dep_recover_session_quiet R w;
             after (if reopened then reader_security_key_send_apdu_timeout_ex fuel R
                      (reader_security_key_iso_dep_pre_first_iblock_delay R
                        (reader_security_key_iso_dep_post_recover_rf_settle R w)) apdu apdu_len rsp rsp_cap 1000 False
                    else Some (Some (w, rsp, None)))
               (\<lambda>(w, rsp, n). do {
                  has_sw \<leftarrow> reader_iso_dep_apdu_response_has_status_word rsp (u16n (case n of None \<Rightarrow> 0 | Some k \<Rightarrow> k));
                  if has_sw then Some (Some (w, True, rsp, u16n (the n)))
                  else after (select_variants fuel R nfc_ctap_fido_app_select_variant False rsp_cap [0..<4]
                         (reader_security_key_iso_dep_pre_first_iblock_delay R
                           (reader_security_key_iso_dep_protocol_settle R w), rsp, 0))
                    (\<lambda>(w, ok, rsp, len). Some (Some (w, ok \<or> len \<ge> 2, rsp, len)))
                })
           }
         }))"

text \<open>A token response that is forwarded, or the answer 6F 00.\<close>

definition relay_or_fail :: "'c session \<Rightarrow> bool \<Rightarrow> cptr \<Rightarrow> nat \<Rightarrow> nat option \<Rightarrow> ('c session \<times> cptr \<times> nat) option option" where
  "relay_or_fail w is_ctap rsp rsp_cap n = do {
     good \<leftarrow> (if is_ctap then do {
         d \<leftarrow> nfc_ctap_relay_response_disposition rsp (u16n (case n of None \<Rightarrow> 0 | Some k \<Rightarrow> k));
         Some (d \<noteq> RELAY_FAIL_CLOSED)
       } else Some (rlen_int n \<ge> 2));
     if good then Some (Some (w, rsp, u16n (the n)))
     else do {
       (len, rsp) \<leftarrow> reader_security_key_relay_failure_response rsp rsp_cap;
       Some (Some (w, rsp, len))
     }
   }"

text \<open>
  The second attempt at an NFCCTAP command whose first exchange gave no status word: reopen, select
  FIDO, send again.
\<close>

definition relay_retry ::
    "nat \<Rightarrow> 'c radio \<Rightarrow> 'c session \<Rightarrow> cptr \<Rightarrow> nat \<Rightarrow> cptr \<Rightarrow> nat \<Rightarrow> nat \<Rightarrow> nat option \<Rightarrow>
      ('c session \<times> cptr \<times> nat option) option option" where
  "relay_retry fuel R w apdu apdu_len rsp rsp_cap timeout_ms n = do {
     (w, reopened) \<leftarrow> iso_dep_recover_session_quiet R w;
     if \<not> reopened then Some (Some (w, rsp, n))
     else after (reader_security_key_select_fido_for_host_webauthn fuel R
            (reader_security_key_iso_dep_post_recover_rf_settle R w) rsp rsp_cap False)
       (\<lambda>(w, ok, rsp, _).
          if \<not> ok then Some (Some (w, rsp, n))
          else reader_security_key_send_apdu_timeout_ex fuel R (hal_delay_ms R (fst w) 12, snd w) apdu apdu_len rsp rsp_cap
            timeout_ms False)
   }"

definition reader_security_key_apdu_exchange ::
    "nat \<Rightarrow> 'c radio \<Rightarrow> 'c session \<Rightarrow> cptr \<Rightarrow> nat \<Rightarrow> cptr \<Rightarrow> nat \<Rightarrow> ('c session \<times> cptr \<times> nat) option option" where
  "reader_security_key_apdu_exchange fuel R w apdu apdu_len rsp rsp_cap =
     (if apdu = None \<or> rsp = None \<or> rsp_cap < 2 then do {
        (len, rsp) \<leftarrow> reader_security_key_relay_failure_response rsp rsp_cap;
        Some (Some (w, rsp, len))
      }
      else do {
        (selects_fido, _) \<leftarrow> nfc_ctap_apdu_is_select_fido_aid apdu apdu_len;
        if selects_fido then after (relay_select_with_recovery fuel R w apdu apdu_len rsp rsp_cap)
          (\<lambda>(w, ok, rsp, len).
             if ok then Some (Some (w, rsp, len))
             else do {
               (len, rsp) \<leftarrow> reader_security_key_relay_failure_response rsp rsp_cap;
               Some (Some (w, rsp, len))
             })
        else do {
          (is_ctap, ctap_cmd) \<leftarrow> nfc_ctap_apdu_command apdu apdu_len;
          let timeout_ms = (if is_ctap then reader_security_key_ctap_timeout_for_command ctap_cmd 45000 1000 else 45000);
          let w = (fst w, reader_security_key_iso_dep_set_last_error 0 (snd w));
          after (reader_security_key_send_apdu_timeout_ex fuel R w apdu apdu_len rsp rsp_cap timeout_ms False)
            (\<lambda>(w, rsp, n).
               after (if rlen_int n < 2 \<and> is_ctap then relay_retry fuel R w apdu apdu_len rsp rsp_cap timeout_ms n
                      else Some (Some (w, rsp, n)))
                 (\<lambda>(w, rsp, n). relay_or_fail w is_ctap rsp rsp_cap n))
        }
      })"

end
