(* ===== verification/SecurityKeySafe.thy ===== *)
theory SecurityKeySafe
  imports SecurityKeyRelay
begin

text \<open>
  The relay against any card: no APDU of the host and no answer of the card makes it fault, the
  session stays well formed, and a response fits the buffer of the host. For an NFCCTAP command the
  response is either one the codec lets pass or the answer 6F 00.
\<close>

section \<open>Rules for sequences of exchanges\<close>

definition settles :: "'a option option \<Rightarrow> ('a \<Rightarrow> bool) \<Rightarrow> bool" where
  "settles m P \<longleftrightarrow> yields m (\<lambda>r. \<forall>x. r = Some x \<longrightarrow> P x)"

lemma settles_Some [simp]: "settles (Some (Some x)) P \<longleftrightarrow> P x"
  by (simp add: settles_def)

lemma settles_mono: "settles m P \<Longrightarrow> (\<And>x. P x \<Longrightarrow> Q x) \<Longrightarrow> settles m Q"
  unfolding settles_def yields_def by blast

lemma settles_after:
  assumes "settles m P" "\<And>x. P x \<Longrightarrow> settles (f x) Q"
  shows "settles (after m f) Q"
  using assms unfolding settles_def after_def
  by (intro yields_bind [OF assms(1) [unfolded settles_def]]) (auto split: option.split)

lemma settles_bind:
  assumes "yields m P" "\<And>x. P x \<Longrightarrow> settles (f x) Q"
  shows "settles (m \<bind> f) Q"
  using assms unfolding settles_def by (rule yields_bind)

lemma settles_if: "(b \<Longrightarrow> settles x P) \<Longrightarrow> (\<not> b \<Longrightarrow> settles y P) \<Longrightarrow> settles (if b then x else y) P"
  by simp

section \<open>Session operations\<close>

lemma recover_yields:
  assumes "radio_ok R" "iso_inv (snd w)"
  shows "yields (iso_dep_recover_session_quiet R w) (\<lambda>(w', ok). iso_inv (snd w'))"
  using recover_opened [OF assms(1), of "snd w" "fst w"] assms(2) by (auto simp: opened_def yields_def)

lemma settle_inv [simp]: "iso_inv (snd (reader_security_key_iso_dep_protocol_settle R w)) = iso_inv (snd w)"
  by (cases w) (simp add: reader_security_key_iso_dep_protocol_settle_def)

lemma pre_first_inv [simp]: "iso_inv (snd (reader_security_key_iso_dep_pre_first_iblock_delay R w)) = iso_inv (snd w)"
  by (cases w) (simp add: reader_security_key_iso_dep_pre_first_iblock_delay_def)

lemma post_recover_inv [simp]: "iso_inv (snd (reader_security_key_iso_dep_post_recover_rf_settle R w)) = iso_inv (snd w)"
  by (cases w) (simp add: reader_security_key_iso_dep_post_recover_rf_settle_def reader_security_key_iso_dep_protocol_settle_def)

text \<open>A buffer of the size \<open>m\<close>, or none.\<close>

definition sized :: "nat option \<Rightarrow> cptr \<Rightarrow> bool" where
  "sized m p \<longleftrightarrow> map_option length p = m"

lemma sized_simps [simp]: "sized None p \<longleftrightarrow> p = None" "sized (Some n) p \<longleftrightarrow> (\<exists>b. p = Some b \<and> length b = n)"
  by (auto simp: sized_def)

lemma send_apdu_settles:
  assumes "radio_ok R" "iso_inv (snd w)" "length a \<ge> n" "n \<le> 65535" "length r = m" "cap \<le> m" "cap \<le> 65535"
  shows "settles (reader_security_key_send_apdu_timeout_ex fuel R w (Some a) n (Some r) cap ms follow) (apdu_result m cap)"
  using send_apdu_total [OF assms(1,2), of "Some a" n r m cap fuel "fst w" ms follow] assms
  by (auto simp: settles_def yields_def)

section \<open>Selection\<close>

lemma select_round_yields:
  assumes R: "radio_ok R" and a: "n \<le> length a" "n \<le> 65535" and w: "iso_inv (snd w)" and r: "length r = 64"
  shows "yields (select_round fuel R (Some a) n follow (w, Some r, tried))
    (\<lambda>x. case x of
       Again (w', p, t) \<Rightarrow> iso_inv (snd w') \<and> sized (Some 64) p
     | Stop (w', p, out) \<Rightarrow> iso_inv (snd w') \<and> sized (Some 64) p \<and> (\<forall>k ok. out = Some (k, ok) \<longrightarrow> k \<le> 64)
     | Starved \<Rightarrow> True)"
proof -
  obtain c s where 1: "reader_security_key_iso_dep_ccid_heartbeat R w = (c, s)" by fastforce
  have s: "iso_inv s" using heartbeat_inv [of R w] 1 w by simp
  obtain c2 aborted where 2: "ccid_abort_pending R c = (c2, aborted)" by fastforce
  have send: "yields (reader_security_key_send_apdu_timeout_ex fuel R (c2, s) (Some a) n (Some r) 64 1000 follow)
      (\<lambda>x. \<forall>y. x = Some y \<longrightarrow> apdu_result 64 64 y)"
    using send_apdu_settles [OF R, of "(c2, s)" n a r 64 64] s a r by (simp add: settles_def)
  show ?thesis
  proof (cases aborted)
    case False
    show ?thesis unfolding select_round_def prod.case 1 2 Let_def if_not_P [OF False]
    proof (rule yields_bind [OF send], goal_cases)
      case (1 x)
      show ?case
      proof (cases x)
        case (Some y)
        then obtain w' p rn where y: "y = (w', Some p, rn)" "iso_inv (snd w')" "length p = 64" "\<forall>k. rn = Some k \<longrightarrow> k \<le> 64"
          using 1 by (auto simp: apdu_result_def)
        have k: "rlen_int rn \<le> 64" using y(4) by (auto simp: rlen_int_def split: option.split)
        have "nat (rlen_int rn) \<le> length p" using k y(3) by simp
        then have sw: "yields (nfc_iso7816_response_sw_ok (Some p) (rlen_int rn)) (\<lambda>_. True)"
          using response_sw_eq [of "nat (rlen_int rn)" p] y(3)
          by (cases "rlen_int rn < 2") (auto simp: nfc_iso7816_response_sw_ok_def nfc_iso7816_response_sw_def)
        show ?thesis unfolding Some y(1) option.case prod.case Let_def
        proof (rule yields_bind [OF sw], rule yields_if, use y k in simp, goal_cases)
          case (1 ok)
          show ?case by (rule yields_bind [OF recover_yields [OF R y(2)]]) (use y k in \<open>auto split: prod.split\<close>)
        qed
      qed simp
    qed
  qed (use 1 2 s r in \<open>simp add: select_round_def\<close>)
qed

definition select_result :: "nat option \<Rightarrow> nat \<Rightarrow> 'c session \<times> bool \<times> cptr \<times> nat option \<Rightarrow> bool" where
  "select_result m cap = (\<lambda>(w, ok, rsp, n). iso_inv (snd w) \<and> sized m rsp \<and> (\<forall>k. n = Some k \<longrightarrow> m \<noteq> None \<and> k \<le> cap))"

lemma select_app_settles:
  fixes R :: "'c radio" and w :: "'c session"
  assumes R: "radio_ok R" and w: "iso_inv (snd w)" and aid: "aid_len \<le> length aid" "0 < aid_len" "aid_len \<le> 16"
    and rsp: "sized m rsp" "\<And>k. m = Some k \<Longrightarrow> cap \<le> k"  "cap \<le> 65535"
  shows "settles (reader_security_key_select_app_ex fuel R w (Some aid) aid_len p2 le follow rsp cap) (select_result m cap)"
proof -
  obtain apdu n where b: "nfc_pcsc_build_select_aid_apdu (Some aid) aid_len p2 le (Some (replicate 24 0)) 24 = Some (True, Some apdu, n)"
    "n \<le> length apdu" "n \<le> 65535"
    using select_aid_apdu_eq [of 24 "replicate 24 0" aid_len aid p2 le] aid by (cases le) auto
  let ?I = "\<lambda>(w' :: 'c session, p :: cptr, t :: bool). iso_inv (snd w') \<and> sized (Some 64) p"
  let ?Q = "\<lambda>(w' :: 'c session, p :: cptr, out :: (int \<times> bool) option). iso_inv (snd w') \<and> sized (Some 64) p \<and> (\<forall>k ok. out = Some (k, ok) \<longrightarrow> k \<le> (64 :: int))"
  have run: "settles (run_steps (select_round fuel R (Some apdu) n follow) fuel (w, Some (replicate 64 0), False)) ?Q"
    unfolding settles_def
  proof (rule run_steps_yields [where I = ?I])
    fix st assume "?I st"
    then obtain w' p t where "st = (w', Some p, t)" "iso_inv (snd w')" "length p = 64" by auto
    then show "yields (select_round fuel R (Some apdu) n follow st)
        (\<lambda>x. case x of Again s \<Rightarrow> ?I s | Stop r \<Rightarrow> ?Q r | Starved \<Rightarrow> True)"
      using select_round_yields [OF R b(2,3)] by (fastforce elim!: yields_mono split: step.split)
  qed (use w in simp)
  show ?thesis unfolding reader_security_key_select_app_ex_def b(1) Option.bind.bind_lunit prod.case not_True_eq_False if_False
  proof (rule settles_after [OF run], goal_cases)
    case (1 x)
    then obtain w' p out where x: "x = (w', Some p, out)" "iso_inv (snd w')" "length p = 64" "\<forall>k ok. out = Some (k, ok) \<longrightarrow> k \<le> 64"
      by auto
    show ?case
    proof (cases rsp)
      case None
      then show ?thesis using x rsp(1) by (auto simp: select_result_def split: option.split)
    next
      case (Some r)
      then have r: "m = Some (length r)" "cap \<le> length r" using rsp by (auto simp: sized_def)
      show ?thesis
      proof (cases out)
        case None
        then show ?thesis using x Some r by (auto simp: select_result_def)
      next
        case (Some o')
        obtain k ok where o': "o' = (k, ok)" by fastforce
        have "u16n (nat k) \<le> 64" using x(4) Some o' by simp
        then show ?thesis using x Some o' \<open>rsp = Some r\<close> r rsp(3) by (auto simp: select_result_def)
      qed
    qed
  qed
qed

definition chosen :: "nat option \<Rightarrow> nat \<Rightarrow> 'c session \<times> bool \<times> cptr \<times> nat \<Rightarrow> bool" where
  "chosen m cap = (\<lambda>(w, ok, rsp, len). iso_inv (snd w) \<and> sized m rsp \<and> (m \<noteq> None \<longrightarrow> len \<le> cap))"

lemma chosen_iff [simp]:
  "chosen m cap (w, ok, rsp, len) \<longleftrightarrow> iso_inv (snd w) \<and> sized m rsp \<and> (m \<noteq> None \<longrightarrow> len \<le> cap)"
  by (simp add: chosen_def)

lemma fido_variant:
  assumes "nfc_ctap_fido_app_select_variant i = (True, v)"
  shows "sv_aid v = Some NFC_CTAP_FIDO_AID \<and> sv_aid_len v = 8"
  using assms by (auto simp: nfc_ctap_fido_app_select_variant_def Let_def split: if_splits prod.splits)

lemma ndef_variant:
  assumes "nfc_pcsc_ndef_app_select_variant i = (True, v)"
  shows "\<exists>a. sv_aid v = Some a \<and> length a = 7 \<and> sv_aid_len v = 7"
proof -
  have "i < 8" using assms by (auto simp: nfc_pcsc_ndef_app_select_variant_def Let_def split: if_splits)
  then have "i \<in> {0, 1, 2, 3, 4, 5, 6, 7}" by auto
  then show ?thesis using assms
    by (auto simp: nfc_pcsc_ndef_app_select_variant_def NFC_PCSC_NDEF_APP_AID_def NFC_PCSC_NDEF_APP_AID_V0_def)
qed

lemma select_variants_settle:
  assumes R: "radio_ok R" and m: "\<And>k. m = Some k \<Longrightarrow> cap \<le> k" "cap \<le> 65535"
    and v: "\<And>i v. variants i = (True, v) \<Longrightarrow> \<exists>a. sv_aid v = Some a \<and> sv_aid_len v \<le> length a \<and> 0 < sv_aid_len v \<and> sv_aid_len v \<le> 16"
  shows "iso_inv (snd w) \<Longrightarrow> sized m rsp \<Longrightarrow> (m \<noteq> None \<longrightarrow> len \<le> cap) \<Longrightarrow>
    settles (select_variants fuel R variants follow cap is (w, rsp, len)) (chosen m cap)"
proof (induction "is" arbitrary: w rsp len)
  case Nil
  then show ?case by simp
next
  case (Cons i "is")
  obtain known v where k: "variants i = (known, v)" by fastforce
  show ?case
  proof (cases known)
    case True
    then obtain a where a: "sv_aid v = Some a" "sv_aid_len v \<le> length a" "0 < sv_aid_len v" "sv_aid_len v \<le> 16"
      using v [of i v] k True by auto
    have sel: "settles (reader_security_key_select_app_ex fuel R w (sv_aid v) (sv_aid_len v) (sv_p2 v) (sv_add_le_00 v) follow rsp cap)
        (select_result m cap)"
      unfolding a(1) by (rule select_app_settles [OF R Cons.prems(1) a(2-4) Cons.prems(2) m])
    show ?thesis unfolding select_variants.simps k prod.case using True
      by (auto intro!: settles_after [OF sel] Cons.IH simp: select_result_def Cons.prems split: option.split)
  qed (use k Cons.prems in simp)
qed

lemma webauthn_settle:
  assumes R: "radio_ok R" and m: "cap \<le> n" "cap \<le> 65535"
  shows "iso_inv (snd w) \<Longrightarrow> sized (Some n) rsp \<Longrightarrow> len \<le> cap \<Longrightarrow>
    settles (webauthn_steps fuel R follow cap steps (w, rsp, len)) (chosen (Some n) cap)"
proof (induction steps arbitrary: w rsp len)
  case Nil
  then show ?case by simp
next
  case (Cons step steps)
  obtain known info where k: "nfc_ctap_fido_webauthn_select_step step = (known, info)" by fastforce
  obtain known2 v where k2: "nfc_ctap_fido_app_select_variant (ws_variant_index info) = (known2, v)" by fastforce
  have prep: "yields (webauthn_prepare R step (ws_prep info) w) (\<lambda>(w', ok). iso_inv (snd w'))"
    using Cons.prems(1) unfolding webauthn_prepare_def
    by (auto intro!: yields_bind [OF recover_yields [OF R Cons.prems(1)]] split: select_prep.split)
  show ?case
  proof (cases "known \<and> known2")
    case True
    then have a: "sv_aid v = Some NFC_CTAP_FIDO_AID" "sv_aid_len v = 8" using fido_variant [of "ws_variant_index info" v] k2 True by simp_all
    have sel: "settles (reader_security_key_select_app_ex fuel R w' (sv_aid v) (sv_aid_len v) (sv_p2 v) (sv_add_le_00 v) follow rsp cap)
        (select_result (Some n) cap)" if "iso_inv (snd w')" for w'
      unfolding a by (rule select_app_settles [OF R that _ _ _ Cons.prems(2)]) (use m in \<open>simp_all add: NFC_CTAP_FIDO_AID_def\<close>)
    have cont: "settles (after (reader_security_key_select_app_ex fuel R w' (sv_aid v) (sv_aid_len v) (sv_p2 v) (sv_add_le_00 v) follow rsp cap)
            (\<lambda>(w, ok, rsp, n).
               let len = (case n of None \<Rightarrow> len | Some k \<Rightarrow> k) in
               if ok then Some (Some (w, True, rsp, len))
               else webauthn_steps fuel R follow cap steps (w, rsp, len))) (chosen (Some n) cap)" if "iso_inv (snd w')" for w'
      by (auto intro!: settles_after [OF sel [OF that]] Cons.IH simp: select_result_def Cons.prems simp del: sized_simps split: option.split)
    show ?thesis unfolding webauthn_steps.simps k k2 prod.case
      using True by (auto intro!: settles_bind [OF prep] cont simp: Cons.prems simp del: sized_simps)
  qed (use k k2 Cons.prems in auto)
qed

section \<open>The relay\<close>

lemma failure_response_eq:
  assumes "2 \<le> cap" "cap \<le> length r" "cap \<le> 65535"
  shows "reader_security_key_relay_failure_response (Some r) cap = Some (2, Some (patch r 0 [0x6F, 0x00]))"
  using store_seq_prefix [of 0 "[0x6F, 0x00]" cap r] assms
  by (simp add: reader_security_key_relay_failure_response_def del: store_seq.simps)

lemma has_sw_yields:
  assumes "n \<le> length r" "n \<le> 65535"
  shows "yields (reader_iso_dep_apdu_response_has_status_word (Some r) n) (\<lambda>b. b \<longrightarrow> 2 \<le> n)"
  using assms by (auto simp: reader_iso_dep_apdu_response_has_status_word_def)

text \<open>What the host is given: the state well formed, the buffer in its size, a length that fits.\<close>

definition relayed :: "nat \<Rightarrow> nat \<Rightarrow> 'c session \<times> cptr \<times> nat \<Rightarrow> bool" where
  "relayed m cap = (\<lambda>(w, rsp, n). iso_inv (snd w) \<and> sized (Some m) rsp \<and> n \<le> cap)"

lemma relayed_iff [simp]: "relayed m cap (w, rsp, n) \<longleftrightarrow> iso_inv (snd w) \<and> sized (Some m) rsp \<and> n \<le> cap"
  by (simp add: relayed_def)

lemma apdu_result_iff [simp]:
  "apdu_result m cap (w, rsp, r) \<longleftrightarrow> iso_inv (snd w) \<and> sized (Some m) rsp \<and> (\<forall>n. r = Some n \<longrightarrow> n \<le> cap)"
  by (auto simp: apdu_result_def)

definition passes :: "cptr \<Rightarrow> nat \<Rightarrow> bool" where
  "passes rsp n \<longleftrightarrow> nfc_ctap_relay_response_disposition rsp n = Some RELAY_PASSTHROUGH"

lemma relay_or_fail_settles:
  assumes w: "iso_inv (snd w)" and r: "length r = m" "cap \<le> m" "cap \<le> 65535" "2 \<le> cap" and n: "\<forall>k. n = Some k \<longrightarrow> k \<le> cap"
  shows "settles (relay_or_fail w is_ctap (Some r) cap n) (\<lambda>x. relayed m cap x \<and>
    (case x of (w, rsp, k) \<Rightarrow> take k (the rsp) = [0x6F, 0x00] \<or> 2 \<le> k \<and> (is_ctap \<longrightarrow> passes rsp k)))"
proof -
  define k where "k = (case n of None \<Rightarrow> 0 | Some k \<Rightarrow> k)"
  have k: "k \<le> cap" "u16n k = k" using n r by (auto simp: k_def split: option.split)
  have kb: "k \<le> length r" using k r by simp
  obtain d where d: "nfc_ctap_relay_response_disposition (Some r) k = Some d" "d = RELAY_PASSTHROUGH \<longrightarrow> 2 \<le> k"
  proof (cases "k < 2")
    case True
    then show thesis by (intro that [of RELAY_FAIL_CLOSED]) (simp_all add: nfc_ctap_relay_response_disposition_def)
  next
    case False
    then have "rd (Some r) (k - 2) = Some (r ! (k - 2))" "rd (Some r) (k - 1) = Some (r ! (k - 1))"
      "rd (Some r) 0 = Some (r ! 0)" using kb by (simp_all add: rd_def)
    then have "\<exists>d. nfc_ctap_relay_response_disposition (Some r) k = Some d"
      using False by (simp add: nfc_ctap_relay_response_disposition_def Let_def)
    then show thesis using that False by auto
  qed
  have f: "reader_security_key_relay_failure_response (Some r) cap = Some (2, Some (patch r 0 [0x6F, 0x00]))"
    using failure_response_eq r by simp
  have t: "take 2 (patch r 0 [0x6F, 0x00]) = [0x6F, 0x00]" "length (patch r 0 [0x6F, 0x00 :: u8]) = m"
    using r by (auto simp: patch_def)
  have d': "d = RELAY_PASSTHROUGH \<or> d = RELAY_FAIL_CLOSED" by (cases d) simp_all
  show ?thesis
  proof (cases is_ctap)
    case True
    then show ?thesis using d d' f t w r k
      by (cases n) (auto simp: relay_or_fail_def passes_def k_def)
  next
    case False
    then show ?thesis using f t w r k by (cases n) (auto simp: relay_or_fail_def rlen_int_def k_def)
  qed
qed

lemma relay_select_settles:
  assumes R: "radio_ok R" and w: "iso_inv (snd w)" and a: "n \<le> length a" "n \<le> 65535"
    and r: "length r = m" "cap \<le> m" "cap \<le> 65535"
  shows "settles (relay_select_with_recovery fuel R w (Some a) n (Some r) cap) (chosen (Some m) cap)"
proof -
  have send: "settles (reader_security_key_send_apdu_timeout_ex fuel R w' (Some a) n (Some r') cap 1000 False) (apdu_result m cap)"
    if "iso_inv (snd w')" "length r' = m" for w' r'
    by (rule send_apdu_settles [OF R that(1) a that(2) r(2,3)])
  have sw: "yields (reader_iso_dep_apdu_response_has_status_word (Some r') (u16n (case k of None \<Rightarrow> 0 | Some j \<Rightarrow> j)))
      (\<lambda>b. b \<longrightarrow> (\<exists>j. k = Some j \<and> u16n j = j))" if "length r' = m" "\<forall>j. k = Some j \<longrightarrow> j \<le> cap" for r' k
  proof (cases k)
    case None
    then show ?thesis by (simp add: reader_iso_dep_apdu_response_has_status_word_def)
  next
    case (Some j)
    then have "j \<le> length r'" "j \<le> 65535" using that r by auto
    then show ?thesis using Some has_sw_yields [of j r'] by (auto simp: yields_def)
  qed
  have last_try: "settles (after (select_variants fuel R nfc_ctap_fido_app_select_variant False cap [0..<4] (w', rsp, 0))
      (\<lambda>(w, ok, rsp, len). Some (Some (w, ok \<or> len \<ge> 2, rsp, len)))) (chosen (Some m) cap)"
    if "iso_inv (snd w')" "sized (Some m) rsp" for w' rsp
    by (rule settles_after [OF select_variants_settle [OF R _ r(3) _ that]])
      (use r in \<open>auto simp: NFC_CTAP_FIDO_AID_def dest: fido_variant\<close>)
  have second: "settles (after x (\<lambda>(w, rsp, n). do {
        has_sw \<leftarrow> reader_iso_dep_apdu_response_has_status_word rsp (u16n (case n of None \<Rightarrow> 0 | Some k \<Rightarrow> k));
        if has_sw then Some (Some (w, True, rsp, u16n (the n)))
        else after (select_variants fuel R nfc_ctap_fido_app_select_variant False cap [0..<4]
               (reader_security_key_iso_dep_pre_first_iblock_delay R
                 (reader_security_key_iso_dep_protocol_settle R w), rsp, 0))
          (\<lambda>(w, ok, rsp, len). Some (Some (w, ok \<or> len \<ge> 2, rsp, len)))
      })) (chosen (Some m) cap)" if "settles x (apdu_result m cap)" for x
  proof (rule settles_after [OF that], goal_cases)
    case (1 x)
    then obtain w' r' k where x: "x = (w', Some r', k)" "iso_inv (snd w')" "length r' = m" "\<forall>j. k = Some j \<longrightarrow> j \<le> cap"
      by (cases x) auto
    show ?case unfolding x(1) prod.case
      by (rule settles_bind [OF sw [OF x(3,4)]], rule settles_if) (use x last_try in auto)
  qed
  have some: "\<not> (Some r = None)" by simp
  show ?thesis unfolding relay_select_with_recovery_def if_not_P [OF some]
  proof (rule settles_after [OF send], use w r in simp, use r in simp, goal_cases)
    case (1 x)
    then obtain w' r' k where x: "x = (w', Some r', k)" "iso_inv (snd w')" "length r' = m" "\<forall>j. k = Some j \<longrightarrow> j \<le> cap"
      by (cases x) auto
    show ?case unfolding x(1) prod.case
    proof (rule settles_bind [OF sw [OF x(3,4)]], rule settles_if, use x in force)
      show "settles (iso_dep_recover_session_quiet R w' \<bind> (\<lambda>(w, reopened). after (if reopened then
             reader_security_key_send_apdu_timeout_ex fuel R
                      (reader_security_key_iso_dep_pre_first_iblock_delay R
                        (reader_security_key_iso_dep_post_recover_rf_settle R w)) (Some a) n (Some r') cap 1000 False
                    else Some (Some (w, Some r', None)))
               (\<lambda>(w, rsp, n). do {
                  has_sw \<leftarrow> reader_iso_dep_apdu_response_has_status_word rsp (u16n (case n of None \<Rightarrow> 0 | Some k \<Rightarrow> k));
                  if has_sw then Some (Some (w, True, rsp, u16n (the n)))
                  else after (select_variants fuel R nfc_ctap_fido_app_select_variant False cap [0..<4]
                         (reader_security_key_iso_dep_pre_first_iblock_delay R
                           (reader_security_key_iso_dep_protocol_settle R w), rsp, 0))
                    (\<lambda>(w, ok, rsp, len). Some (Some (w, ok \<or> len \<ge> 2, rsp, len)))
                }))) (chosen (Some m) cap)"
      proof (rule settles_bind [OF recover_yields [OF R x(2)]])
        fix y :: "'a session \<times> bool"
        assume "case y of (w', ok) \<Rightarrow> iso_inv (snd w')"
        then obtain w2 again where y: "y = (w2, again)" "iso_inv (snd w2)" by (cases y) auto
        show "settles (case y of (w, reopened) \<Rightarrow> after (if reopened then
             reader_security_key_send_apdu_timeout_ex fuel R
                      (reader_security_key_iso_dep_pre_first_iblock_delay R
                        (reader_security_key_iso_dep_post_recover_rf_settle R w)) (Some a) n (Some r') cap 1000 False
                    else Some (Some (w, Some r', None)))
               (\<lambda>(w, rsp, n). do {
                  has_sw \<leftarrow> reader_iso_dep_apdu_response_has_status_word rsp (u16n (case n of None \<Rightarrow> 0 | Some k \<Rightarrow> k));
                  if has_sw then Some (Some (w, True, rsp, u16n (the n)))
                  else after (select_variants fuel R nfc_ctap_fido_app_select_variant False cap [0..<4]
                         (reader_security_key_iso_dep_pre_first_iblock_delay R
                           (reader_security_key_iso_dep_protocol_settle R w), rsp, 0))
                    (\<lambda>(w, ok, rsp, len). Some (Some (w, ok \<or> len \<ge> 2, rsp, len)))
                })) (chosen (Some m) cap)"
          unfolding y(1) prod.case
        proof (rule second, rule settles_if)
          show "settles (reader_security_key_send_apdu_timeout_ex fuel R
                      (reader_security_key_iso_dep_pre_first_iblock_delay R
                        (reader_security_key_iso_dep_post_recover_rf_settle R w2)) (Some a) n (Some r') cap 1000 False)
              (apdu_result m cap)"
            by (rule send) (use y x in simp_all)
        qed (use y x in simp)
      qed
    qed
  qed
qed

lemma relay_retry_settles:
  assumes R: "radio_ok R" and w: "iso_inv (snd w)" and a: "n \<le> length a" "n \<le> 65535"
    and r: "length r = m" "cap \<le> m" "cap \<le> 65535" and k: "\<forall>j. k = Some j \<longrightarrow> j \<le> cap"
  shows "settles (relay_retry fuel R w (Some a) n (Some r) cap ms k) (apdu_result m cap)"
  unfolding relay_retry_def
proof (rule settles_bind [OF recover_yields [OF R w]], goal_cases)
  case (1 x)
  obtain w' ok where x: "x = (w', ok)" "iso_inv (snd w')" using 1 by (cases x) auto
  show ?case unfolding x(1) prod.case reader_security_key_select_fido_for_host_webauthn_def
  proof (rule settles_if, use x w r k in simp,
      rule settles_after [OF webauthn_settle [OF R r(2,3)]], use x r in simp, use r in simp, simp, goal_cases)
    case (1 y)
    then obtain w'' ok' r' len where y: "y = (w'', ok', Some r', len)" "iso_inv (snd w'')" "length r' = m" by (cases y) auto
    show ?case unfolding y(1) prod.case
    proof (rule settles_if, use y k in simp, goal_cases)
      case 1
      show ?case by (rule send_apdu_settles [OF R _ a y(3) r(2,3)]) (use y in simp)
    qed
  qed
qed

text \<open>The relay as a whole.\<close>

lemma relay_settles:
  fixes R :: "'c radio"
  assumes R: "radio_ok R" and w: "iso_inv (snd w)" and a: "n \<le> length a" "n \<le> 65535"
    and r: "cap \<le> length r" "cap \<le> 65535" "2 \<le> cap"
    and kind: "nfc_ctap_apdu_is_select_fido_aid (Some a) n = Some (selects_fido, le)"
      "nfc_ctap_apdu_command (Some a) n = Some (is_ctap, cmd)"
  shows "settles (reader_security_key_apdu_exchange fuel R w (Some a) n (Some r) cap) (\<lambda>(w', rsp, k).
    relayed (length r) cap (w', rsp, k) \<and>
    (\<not> selects_fido \<longrightarrow> take k (the rsp) = [0x6F, 0x00] \<or> 2 \<le> k \<and> (is_ctap \<longrightarrow> passes rsp k)))"
proof -
  let ?m = "length r"
  let ?P = "\<lambda>(w' :: 'c session, rsp, k). relayed ?m cap (w', rsp, k) \<and>
    (\<not> selects_fido \<longrightarrow> take k (the rsp) = [0x6F, 0x00] \<or> 2 \<le> k \<and> (is_ctap \<longrightarrow> passes rsp k))"
  have ok: "\<not> (Some a = None \<or> Some r = None \<or> cap < 2)" using r by simp
  show ?thesis
  proof (cases selects_fido)
    case True
    have f: "reader_security_key_relay_failure_response (Some b) cap = Some (2, Some (patch b 0 [0x6F, 0x00]))"
      "length (patch b 0 [0x6F, 0x00]) = ?m"
      if "length b = ?m" for b using failure_response_eq [of cap b] that r by simp_all
    show ?thesis
      unfolding reader_security_key_apdu_exchange_def if_not_P [OF ok] kind Option.bind.bind_lunit prod.case using True
      by (auto intro!: settles_after [OF relay_select_settles [OF R w a refl r(1,2)]] simp: f r)
  next
    case False
    define ms where "ms = (if is_ctap then reader_security_key_ctap_timeout_for_command cmd 45000 1000 else 45000)"
    define w0 where "w0 = (fst w, reader_security_key_iso_dep_set_last_error 0 (snd w))"
    have w0: "iso_inv (snd w0)" using w by (simp add: w0_def)
    have "settles (after (reader_security_key_send_apdu_timeout_ex fuel R w0 (Some a) n (Some r) cap ms False)
      (\<lambda>(w, rsp, k). after (if rlen_int k < 2 \<and> is_ctap then relay_retry fuel R w (Some a) n rsp cap ms k else Some (Some (w, rsp, k)))
         (\<lambda>(w, rsp, k). relay_or_fail w is_ctap rsp cap k))) ?P"
    proof (rule settles_after [OF send_apdu_settles [OF R w0 a refl r(1,2)]], goal_cases)
      case (1 x)
      then obtain w1 r1 k where x: "x = (w1, Some r1, k)" "iso_inv (snd w1)" "length r1 = ?m" "\<forall>j. k = Some j \<longrightarrow> j \<le> cap"
        by (cases x) auto
      have retry: "settles (if rlen_int k < 2 \<and> is_ctap then relay_retry fuel R w1 (Some a) n (Some r1) cap ms k
          else Some (Some (w1, Some r1, k))) (apdu_result ?m cap)"
        using relay_retry_settles [OF R x(2) a x(3) r(1,2) x(4)] x by simp
      show ?case unfolding x(1) prod.case
      proof (rule settles_after [OF retry], goal_cases)
        case (1 y)
        then obtain w2 r2 j where y: "y = (w2, Some r2, j)" "iso_inv (snd w2)" "length r2 = ?m" "\<forall>i. j = Some i \<longrightarrow> i \<le> cap"
          by (cases y) auto
        show ?case unfolding y(1) prod.case
          by (rule settles_mono [OF relay_or_fail_settles [OF y(2,3) r(1,2,3) y(4)]]) auto
      qed
    qed
    then show ?thesis
      unfolding reader_security_key_apdu_exchange_def if_not_P [OF ok] kind Option.bind.bind_lunit prod.case
        if_not_P [OF False] Let_def ms_def w0_def .
  qed
qed

text \<open>
  C21: relaying an APDU of the host to any card never faults; the session stays well formed and the
  response fits the buffer. A response to anything but a FIDO SELECT has at least the two bytes of a
  status word, and a response to an NFCCTAP command is the answer 6F 00 or one the codec lets pass:
  contradictory and malformed answers of a token are never forwarded.
\<close>

theorem relay_safe:
  fixes R :: "'c radio"
  assumes R: "radio_ok R" and w: "iso_inv (snd w)" and a: "n \<le> length a" "n \<le> 65535"
    and r: "cap \<le> length r" "cap \<le> 65535" "2 \<le> cap"
    and kind: "nfc_ctap_apdu_is_select_fido_aid (Some a) n = Some (selects_fido, le)"
      "nfc_ctap_apdu_command (Some a) n = Some (is_ctap, cmd)"
  shows "settles (reader_security_key_apdu_exchange fuel R w (Some a) n (Some r) cap) (\<lambda>(w', rsp, k).
    relayed (length r) cap (w', rsp, k) \<and>
    (\<not> selects_fido \<longrightarrow> take k (the rsp) = [0x6F, 0x00] \<or> 2 \<le> k \<and> (is_ctap \<longrightarrow> passes rsp k)))"
  by (rule relay_settles [OF assms])

theorem relay_safe_witness:
  "settles (reader_security_key_apdu_exchange 9 one_ats_radio ((), fresh_iso_dep)
      (Some [0x80, 0x10, 0x00, 0x00, 0x01, 0x04, 0x00]) 7 (Some (replicate 20 0)) 20) (\<lambda>(w', rsp, k).
    relayed (length (replicate 20 (0 :: u8))) 20 (w', rsp, k) \<and>
    (\<not> False \<longrightarrow> take k (the rsp) = [0x6F, 0x00] \<or> 2 \<le> k \<and> (True \<longrightarrow> passes rsp k)))"
proof (rule relay_safe)
  show "radio_ok one_ats_radio" by (auto simp: radio_ok_def one_ats_radio_def)
  show "iso_inv (snd ((), fresh_iso_dep))" using fresh_iso_dep_inv by simp
  show "nfc_ctap_apdu_is_select_fido_aid (Some [0x80, 0x10, 0x00, 0x00, 0x01, 0x04, 0x00]) 7 = Some (False, False)"
    by (simp add: nfc_ctap_apdu_is_select_fido_aid_def)
  show "nfc_ctap_apdu_command (Some [0x80, 0x10, 0x00, 0x00, 0x01, 0x04, 0x00]) 7 = Some (True, 0x04)"
    by (simp add: nfc_ctap_apdu_command_def)
qed simp_all

end
