(* ===== verification/TagType4.thy ===== *)
theory TagType4
  imports SecurityKeyRelay TagType5 TagType2
begin

text \<open>
  Type 4 tags (\<open>reader_tags_type4.c\<close> and the Type 4 part of \<open>reader_tags.c\<close>): the capability
  container, the file it names and the message in that file.

  The functions take the exchange of an APDU and the selection of the NDEF application as arguments
  and are used with \<open>reader_iso_dep_send_apdu\<close> and \<open>reader_iso_dep_select_ndef_app\<close>. Results have the
  form of these: \<open>None\<close> is a fault, \<open>Some None\<close> an exchange that still runs. The log output is left
  out; what the reader prints of a message is \<open>reader_tags_print_ndef_records\<close>.
\<close>

type_synonym 'w apdu_exchange = "'w \<Rightarrow> cptr \<Rightarrow> nat \<Rightarrow> cptr \<Rightarrow> nat \<Rightarrow> ('w \<times> cptr \<times> nat option) option option"

section \<open>Exchanges\<close>

text \<open>
  \<open>nfc_iso7816_response_sw_ok\<close> on a response of at least \<open>need\<close> bytes.
\<close>

definition answered_ok :: "cptr \<Rightarrow> nat option \<Rightarrow> nat \<Rightarrow> bool option" where
  "answered_ok resp n need =
     (if rlen_int n < int need then Some False else nfc_iso7816_response_sw_ok resp (rlen_int n))"

definition reader_tags_type4_iso_read_binary :: "'w apdu_exchange \<Rightarrow> 'w apdu_exchange" where
  "reader_tags_type4_iso_read_binary send w cmd cmd_len resp resp_cap =
     (if cmd = None \<or> cmd_len < 5 \<or> resp = None \<or> resp_cap < 2 then Some (Some (w, resp, None))
      else after (send w cmd cmd_len resp resp_cap)
        (\<lambda>(w, resp, n). do {
           (wrong, correct_le) \<leftarrow> nfc_iso7816_response_wrong_length resp (rlen_int n);
           if \<not> wrong then Some (Some (w, resp, n))
           else do {
             p1 \<leftarrow> rd cmd 2;
             p2 \<leftarrow> rd cmd 3;
             (ok, retry, retry_len) \<leftarrow> nfc_pcsc_build_t4_read_binary_apdu (be16 p1 p2) correct_le (Some (replicate 5 0)) 5;
             if ok then send w retry retry_len resp resp_cap else Some (Some (w, resp, n))
           }
         }))"

section \<open>The capability container\<close>

text \<open>Reads a container that is longer than the 15 bytes at hand again, in full.\<close>

definition type4_full_cc ::
    "'w apdu_exchange \<Rightarrow> 'w \<Rightarrow> nat \<Rightarrow> cptr \<Rightarrow> ('w \<times> bool \<times> cptr) option option" where
  "type4_full_cc send w cc_len resp =
     (if cc_len \<le> 15 then Some (Some (w, True, resp))
      else do {
        (ok, read_cc, read_cc_len) \<leftarrow> nfc_pcsc_build_t4_read_binary_apdu 0 (byte cc_len) (Some (replicate 5 0)) 5;
        if \<not> ok then Some (Some (w, False, resp))
        else after (reader_tags_type4_iso_read_binary send w read_cc read_cc_len resp 256)
          (\<lambda>(w, resp, n). do {
             ok \<leftarrow> answered_ok resp n (cc_len + 2);
             Some (Some (w, ok, resp))
           })
      })"

text \<open>The information is \<open>None\<close> for the result \<open>false\<close>. The file id is part of it.\<close>

definition reader_tags_type4_load_info ::
    "'w apdu_exchange \<Rightarrow> ('w \<Rightarrow> ('w \<times> bool) option option) \<Rightarrow> 'w \<Rightarrow> ('w \<times> type4_info option) option option" where
  "reader_tags_type4_load_info send select w = do {
     (ok, sel_cc, sel_cc_len) \<leftarrow> nfc_pcsc_build_t4_select_file_apdu 0xE103 (Some (replicate 7 0)) 7;
     (ok, read_cc, read_cc_len) \<leftarrow> (if ok then nfc_pcsc_build_t4_read_binary_apdu 0 15 (Some (replicate 5 0)) 5
       else Some (False, None, 0));
     if \<not> ok then Some (Some (w, None))
     else after (select w) (\<lambda>(w, ok).
       if \<not> ok then Some (Some (w, None))
       else after (send w sel_cc sel_cc_len (Some (replicate 256 0)) 256) (\<lambda>(w, resp, n). do {
         ok \<leftarrow> answered_ok resp n 2;
         if \<not> ok then Some (Some (w, None))
         else after (reader_tags_type4_iso_read_binary send w read_cc read_cc_len resp 256) (\<lambda>(w, resp, n). do {
           ok \<leftarrow> answered_ok resp n 17;
           if \<not> ok then Some (Some (w, None))
           else do {
             l1 \<leftarrow> rd resp 0;
             l0 \<leftarrow> rd resp 1;
             let cc_len = be16 l1 l0;
             if cc_len < 15 \<or> cc_len > 254 then Some (Some (w, None))
             else after (type4_full_cc send w cc_len resp) (\<lambda>(w, ok, resp).
               if \<not> ok then Some (Some (w, None))
               else do {
                 (ok, info) \<leftarrow> nfc_tag_type4_apply_cc resp (u8n cc_len);
                 Some (Some (w, if ok then Some info else None))
               })
           }
         })
       }))
   }"

section \<open>The message\<close>

text \<open>
  The loop that reads the message in pieces; the first argument bounds the number of its rounds.
\<close>

fun type4_chunks ::
    "nat \<Rightarrow> 'w apdu_exchange \<Rightarrow> nat \<Rightarrow> nat \<Rightarrow> 'w \<times> cptr \<times> cptr \<times> nat \<Rightarrow> ('w \<times> bool \<times> cptr) option option" where
  "type4_chunks 0 send chunk_max to_read (w, resp, buf, assembled) =
     (if assembled < to_read then Some None else Some (Some (w, assembled = to_read, buf)))"
| "type4_chunks (Suc rounds) send chunk_max to_read (w, resp, buf, assembled) =
     (if assembled < to_read then do {
        let remaining = to_read - assembled;
        let chunk = (if remaining > chunk_max then u8n chunk_max else u8n remaining);
        (ok, cmd, cmd_len) \<leftarrow> nfc_pcsc_build_t4_read_binary_apdu (u16n (2 + assembled)) (byte chunk) (Some (replicate 5 0)) 5;
        if \<not> ok then Some (Some (w, False, buf))
        else after (reader_tags_type4_iso_read_binary send w cmd cmd_len resp 256) (\<lambda>(w, resp, n). do {
          ok \<leftarrow> answered_ok resp n (chunk + 2);
          if \<not> ok then Some (Some (w, False, buf))
          else do {
            (ok, buf) \<leftarrow> nero_nfc_copy_bytes buf READER_NDEF_BUF_MAX assembled resp chunk;
            if \<not> ok then Some (Some (w, False, buf))
            else type4_chunks rounds send chunk_max to_read (w, resp, buf, u16n (assembled + chunk))
          }
        })
      } else Some (Some (w, assembled = to_read, buf)))"

text \<open>
  The NDEF file behind a container: selects it, reads the length of the message and the message into
  the buffer of the reader. Result: success, the buffer and the length.
\<close>

definition type4_read_message ::
    "'w apdu_exchange \<Rightarrow> 'w \<Rightarrow> type4_info \<Rightarrow> cptr \<Rightarrow> ('w \<times> bool \<times> cptr \<times> nat) option option" where
  "type4_read_message send w type4 buf = do {
     f1 \<leftarrow> rd (Some (t4_ndef_file_id type4)) 0;
     f0 \<leftarrow> rd (Some (t4_ndef_file_id type4)) 1;
     let (fits, max_message) = nfc_pcsc_type4_max_message_size (t4_max_ndef_size type4);
     if \<not> fits \<or> \<not> t4_read_open type4 \<or> t4_mle type4 < 2 then Some (Some (w, False, buf, 0))
     else do {
       (ok, sel_ndef, sel_ndef_len) \<leftarrow> nfc_pcsc_build_t4_select_file_apdu (be16 f1 f0) (Some (replicate 7 0)) 7;
       (ok, read_len, read_len_len) \<leftarrow> (if ok then nfc_pcsc_build_t4_read_binary_apdu 0 2 (Some (replicate 5 0)) 5
         else Some (False, None, 0));
       if \<not> ok then Some (Some (w, False, buf, 0))
       else after (send w sel_ndef sel_ndef_len (Some (replicate 256 0)) 256) (\<lambda>(w, resp, n). do {
         ok \<leftarrow> answered_ok resp n 2;
         if \<not> ok then Some (Some (w, False, buf, 0))
         else after (reader_tags_type4_iso_read_binary send w read_len read_len_len resp 256) (\<lambda>(w, resp, n). do {
           ok \<leftarrow> answered_ok resp n 4;
           if \<not> ok then Some (Some (w, False, buf, 0))
           else do {
             l1 \<leftarrow> rd resp 0;
             l0 \<leftarrow> rd resp 1;
             let ndef_msg_len = be16 l1 l0;
             if ndef_msg_len = 0 then Some (Some (w, True, buf, 0))
             else if ndef_msg_len > max_message \<or> ndef_msg_len > READER_NDEF_BUF_MAX then Some (Some (w, False, buf, 0))
             else
               let mle_cap = (if t4_mle type4 \<noteq> 0 then t4_mle type4 else 0x3B);
                   chunk_max = (if mle_cap < 254 then mle_cap else 254)
               in after (type4_chunks ndef_msg_len send chunk_max ndef_msg_len (w, resp, buf, 0))
                    (\<lambda>(w, ok, buf). Some (Some (w, ok, buf, if ok then ndef_msg_len else 0)))
           }
         })
       })
     }
   }"

text \<open>The container and the message of its file: the steps of \<open>reader_tags_read_type4_ndef\<close>.\<close>

definition type4_read ::
    "'w apdu_exchange \<Rightarrow> ('w \<Rightarrow> ('w \<times> bool) option option) \<Rightarrow> 'w \<Rightarrow> cptr \<Rightarrow> ('w \<times> bool \<times> cptr \<times> nat) option option" where
  "type4_read send select w buf =
     after (reader_tags_type4_load_info send select w) (\<lambda>(w, info). case info of
        None \<Rightarrow> Some (Some (w, False, buf, 0))
      | Some type4 \<Rightarrow> type4_read_message send w type4 buf)"

section \<open>The operations on a session\<close>

text \<open>The fields of the reader context that the session and the tag paths share.\<close>

definition tag_view :: "iso_dep \<Rightarrow> tag_state \<Rightarrow> tag_state" where
  "tag_view s t = t\<lparr>ts_uid14 := id_uid14 s, ts_uid14_len := id_uid14_len s, ts_sak := id_sak s,
     ts_ats_data := id_ats_data s, ts_ats_len := id_ats_len s\<rparr>"

definition session_view :: "tag_state \<Rightarrow> iso_dep \<Rightarrow> iso_dep" where
  "session_view t s = s\<lparr>id_uid14 := ts_uid14 t, id_uid14_len := ts_uid14_len t, id_sak := ts_sak t,
     id_ats_data := ts_ats_data t, id_ats_len := ts_ats_len t\<rparr>"

definition reader_tags_get_type4_info ::
    "nat \<Rightarrow> 'c radio \<Rightarrow> 'c session \<Rightarrow> ('c session \<times> type4_info option) option option" where
  "reader_tags_get_type4_info fuel R w =
     (if id_uid14_len (snd w) = 0 \<or> id_sak (snd w) AND 0x20 = 0 then Some (Some (w, None))
      else reader_tags_type4_load_info (reader_iso_dep_send_apdu fuel R) (reader_iso_dep_select_ndef_app fuel R) w)"

definition reader_tags_read_type4_ndef ::
    "nat \<Rightarrow> 'c radio \<Rightarrow> 'c session \<Rightarrow> cptr \<Rightarrow> ('c session \<times> bool \<times> cptr \<times> nat) option option" where
  "reader_tags_read_type4_ndef fuel R w buf = do {
     (ok, typea) \<leftarrow> reader_tags_get_typea_info (tag_view (snd w) fresh_tag_state);
     if \<not> ok then Some (Some (w, False, buf, 0))
     else type4_read (reader_iso_dep_send_apdu fuel R) (reader_iso_dep_select_ndef_app fuel R) w buf
   }"

text \<open>
  The state of the whole reader is the front end, the tag state and the session; an operation on the
  session sees the shared fields of the tag state and leaves them there.
\<close>

definition in_session ::
    "('c session \<Rightarrow> ('c session \<times> 'a) option option) \<Rightarrow> ('c \<times> iso_dep) \<times> tag_state \<Rightarrow>
      ((('c \<times> iso_dep) \<times> tag_state) \<times> 'a) option option" where
  "in_session f = (\<lambda>((c, s), t). after (f (c, session_view t s))
     (\<lambda>((c, s), a). Some (Some (((c, s), tag_view s t), a))))"

definition reader_tags_get_tag_info ::
    "nat \<Rightarrow> 'c radio \<Rightarrow> ('c \<times> iso_dep) tag_radio \<Rightarrow> ('c \<times> iso_dep) \<times> tag_state \<Rightarrow>
      ((('c \<times> iso_dep) \<times> tag_state) \<times> tag_info option) option option" where
  "reader_tags_get_tag_info fuel R T w =
     (if ts_uid14_len (snd w) \<noteq> 0 \<and> ts_sak (snd w) AND 0x20 = 0 then do {
        (ok, typea) \<leftarrow> reader_tags_get_typea_info (snd w);
        if \<not> ok then Some (Some (w, None))
        else do {
          (w, ok, type2) \<leftarrow> reader_tags_get_type2_info T w;
          Some (Some (w, if ok then Some (TagType2 typea type2) else None))
        }
      }
      else if ts_uid14_len (snd w) \<noteq> 0 then do {
        (ok, typea) \<leftarrow> reader_tags_get_typea_info (snd w);
        if \<not> ok then Some (Some (w, None))
        else after (in_session (reader_tags_get_type4_info fuel R) w)
          (\<lambda>(w, info). Some (Some (w, map_option (TagType4 typea) info)))
      }
      else do {
        first \<leftarrow> rd (Some (ts_uid15 (snd w))) 0;
        if first = 0 then Some (Some (w, None))
        else do {
          let uid = ts_uid15 (snd w);
          (w, ok, type5) \<leftarrow> reader_tags_get_type5_info T w;
          Some (Some (w, if ok then Some (TagType5 uid type5) else None))
        }
      })"

end
