(* ===== verification/TagType4Safe.thy ===== *)
theory TagType4Safe
  imports TagType4 SecurityKeySafe
begin

text \<open>
  Reading a Type 4 tag: with any card it does not fault and stays inside its buffers. The interface to the card is the
  locale \<open>apdu_channel\<close>, which the exchange of the session layer implements.
\<close>

section \<open>The interface\<close>

text \<open>What an exchange leaves: the invariant, and a response inside its buffer of 256 bytes.\<close>

definition replied :: "('w \<Rightarrow> bool) \<Rightarrow> 'w \<times> cptr \<times> nat option \<Rightarrow> bool" where
  "replied good = (\<lambda>(w, p, k). good w \<and> (\<exists>b. p = Some b \<and> length b = 256) \<and> (\<forall>j. k = Some j \<longrightarrow> j \<le> 256))"

lemma replied_iff [simp]:
  "replied good (w, p, k) \<longleftrightarrow> good w \<and> (\<exists>b. p = Some b \<and> length b = 256) \<and> (\<forall>j. k = Some j \<longrightarrow> j \<le> 256)"
  by (simp add: replied_def)

locale apdu_channel =
  fixes send :: "'w apdu_exchange" and good :: "'w \<Rightarrow> bool"
  assumes exchange: "good w \<Longrightarrow> n \<le> length cmd \<Longrightarrow> n \<le> 65535 \<Longrightarrow> length resp = 256 \<Longrightarrow>
    settles (send w (Some cmd) n (Some resp) 256) (replied good)"

lemma rlen_of_response:
  assumes "length b = 256" "\<forall>j. k = Some j \<longrightarrow> j \<le> (256 :: nat)"
  shows "yields (nfc_iso7816_response_sw_ok (Some b) (rlen_int k)) (\<lambda>ok. ok \<longrightarrow> (\<exists>j. k = Some j \<and> 2 \<le> j))"
    "yields (nfc_iso7816_response_wrong_length (Some b) (rlen_int k)) (\<lambda>_. True)"
proof -
  have "nfc_iso7816_response_sw (Some b) (rlen_int k) =
      Some (case k of None \<Rightarrow> (False, 0, 0) | Some j \<Rightarrow> if 2 \<le> j then (True, b ! (j - 2), b ! (j - 1)) else (False, 0, 0))"
  proof (cases k)
    case None
    then show ?thesis by (simp add: rlen_int_def nfc_iso7816_response_sw_def)
  next
    case (Some j)
    then show ?thesis using response_sw_eq [of j b] assms by (simp add: rlen_int_def)
  qed
  then show "yields (nfc_iso7816_response_sw_ok (Some b) (rlen_int k)) (\<lambda>ok. ok \<longrightarrow> (\<exists>j. k = Some j \<and> 2 \<le> j))"
    "yields (nfc_iso7816_response_wrong_length (Some b) (rlen_int k)) (\<lambda>_. True)"
    by (auto simp: nfc_iso7816_response_sw_ok_def nfc_iso7816_response_wrong_length_def split: option.split)
qed

lemma answered_yields:
  assumes "length b = 256" "\<forall>j. k = Some j \<longrightarrow> j \<le> (256 :: nat)"
  shows "yields (answered_ok (Some b) k need) (\<lambda>ok. ok \<longrightarrow> (\<exists>j. k = Some j \<and> need \<le> j \<and> j \<le> 256))"
  unfolding answered_ok_def
proof (rule yields_if)
  assume "\<not> rlen_int k < int need"
  then have "\<exists>j. k = Some j \<and> need \<le> j" by (cases k) (auto simp: rlen_int_def)
  then show "yields (nfc_iso7816_response_sw_ok (Some b) (rlen_int k)) (\<lambda>ok. ok \<longrightarrow> (\<exists>j. k = Some j \<and> need \<le> j \<and> j \<le> 256))"
    using yields_mono [OF rlen_of_response(1) [OF assms]] assms(2) by (metis (mono_tags, lifting))
qed simp

text \<open>The commands of the reader, built in a fresh buffer.\<close>

lemma read_command [simp]:
  "nfc_pcsc_build_t4_read_binary_apdu off le (Some (replicate 5 0)) 5 =
    Some (True, Some [0x00, 0xB0, byte (off div 256), byte off, le], 5)"
  using read_binary_apdu_eq [of 5 "replicate 5 0" off le] by (simp add: patch_def)

lemma select_command [simp]:
  "nfc_pcsc_build_t4_select_file_apdu fid (Some (replicate 7 0)) 7 =
    Some (True, Some [0x00, 0xA4, 0x00, 0x0C, 2, byte (fid div 256), byte fid], 7)"
  using select_file_apdu_eq [of 7 "replicate 7 0" fid] by (simp add: patch_def)

text \<open>What a step of reading leaves: the invariant and buffers of their sizes.\<close>

definition read_result :: "('w \<Rightarrow> bool) \<Rightarrow> 'w \<times> bool \<times> cptr \<times> nat \<Rightarrow> bool" where
  "read_result good = (\<lambda>(w, ok, p, n). good w \<and> (\<exists>b. p = Some b \<and> length b = 1024) \<and> n \<le> 1024)"

definition type4_info_ok :: "type4_info \<Rightarrow> bool" where
  "type4_info_ok info \<longleftrightarrow> length (t4_cc info) = 15 \<and> t4_cc_len info = 15 \<and> length (t4_ndef_file_id info) = 2 \<and>
     t4_cc_valid info \<and> 15 \<le> t4_mle info \<and> t4_mle info \<le> 65535 \<and> t4_max_ndef_size info \<le> 65535"

lemma type4_apply_cc_ok:
  assumes "n \<le> length b" "n \<le> 255"
  shows "yields (nfc_tag_type4_apply_cc (Some b) n) (\<lambda>(ok, info). ok \<longrightarrow> type4_info_ok info)"
proof (cases "n < 15")
  case False
  have w: "be16 x y \<le> UINT16_MAX" for x y :: u8 using be16_bound [of x y] by (simp add: less_Suc_eq_le [symmetric] del: be16_bound)
  have "nero_nfc_copy_bytes (Some (t4_cc type4_zero)) 15 0 (Some b) 15 = Some (True, Some (take 15 b))"
    using False assms by (simp add: type4_zero_def patch_def)
  then show ?thesis using False assms w
    by (auto simp: nfc_tag_type4_apply_cc_def Let_def type4_info_ok_def yields_def)
qed (simp add: nfc_tag_type4_apply_cc_def)

context apdu_channel
begin

lemma read_settles:
  assumes "good w" "5 \<le> n" "n \<le> length cmd" "n \<le> 65535" "length resp = 256"
  shows "settles (reader_tags_type4_iso_read_binary send w (Some cmd) n (Some resp) 256) (replied good)"
proof -
  have no: "\<not> (Some cmd = None \<or> n < 5 \<or> Some resp = None \<or> (256 :: nat) < 2)" using assms by simp
  show ?thesis unfolding reader_tags_type4_iso_read_binary_def if_not_P [OF no]
  proof (rule settles_after [OF exchange [OF assms(1,3,4,5)]], goal_cases)
    case (1 x)
    then obtain w' b k where x: "x = (w', Some b, k)" "good w'" "length b = 256" "\<forall>j. k = Some j \<longrightarrow> j \<le> 256"
      by (cases x) auto
    have rds: "rd (Some cmd) 2 = Some (cmd ! 2)" "rd (Some cmd) 3 = Some (cmd ! 3)" using assms by simp_all
    show ?case unfolding x(1) prod.case
    proof (rule settles_bind [OF rlen_of_response(2) [OF x(3,4)]], goal_cases)
      case (1 y)
      obtain wrong le where y: "y = (wrong, le)" by fastforce
      show ?case unfolding y prod.case
      proof (rule settles_if)
        show "settles (do { p1 \<leftarrow> rd (Some cmd) 2; p2 \<leftarrow> rd (Some cmd) 3;
            (ok, retry, retry_len) \<leftarrow> nfc_pcsc_build_t4_read_binary_apdu (be16 p1 p2) le (Some (replicate 5 0)) 5;
            if ok then send w' retry retry_len (Some b) 256 else Some (Some (w', Some b, k)) }) (replied good)"
          unfolding rds Option.bind.bind_lunit read_command prod.case if_True by (rule exchange) (use x in simp_all)
      qed (use x in simp)
    qed
  qed
qed

lemma full_cc_settles:
  assumes "good w" "length resp = 256"
  shows "settles (type4_full_cc send w cc_len (Some resp))
    (\<lambda>(w', ok, p). good w' \<and> (\<exists>b. p = Some b \<and> length b = 256))"
  unfolding type4_full_cc_def read_command Option.bind.bind_lunit prod.case not_True_eq_False if_False
proof (rule settles_if, use assms in simp, rule settles_after [OF read_settles], goal_cases)
  case (6 x)
  then obtain w' b k where x: "x = (w', Some b, k)" "good w'" "length b = 256" "\<forall>j. k = Some j \<longrightarrow> j \<le> 256"
    by (cases x) auto
  show ?case unfolding x(1) prod.case by (rule settles_bind [OF answered_yields [OF x(3,4)]]) (use x in simp)
qed (use assms in simp_all)

lemma load_info_settles:
  assumes "good w" and sel: "\<And>w. good w \<Longrightarrow> settles (select w) (\<lambda>(w', ok). good w')"
  shows "settles (reader_tags_type4_load_info send select w)
    (\<lambda>(w', info). good w' \<and> (\<forall>i. info = Some i \<longrightarrow> type4_info_ok i))" (is "settles _ ?Q")
  unfolding reader_tags_type4_load_info_def select_command read_command Option.bind.bind_lunit prod.case if_True not_True_eq_False if_False
proof (rule settles_after [OF sel [OF assms(1)]], goal_cases)
  case (1 x)
  obtain w1 ok where x: "x = (w1, ok)" "good w1" using 1 by (cases x) auto
  show ?case unfolding x(1) prod.case
  proof (rule settles_if, use x in simp, rule settles_after [OF exchange [OF x(2)]], simp, simp, simp, goal_cases)
    case (1 y)
    then obtain w2 b k where y: "y = (w2, Some b, k)" "good w2" "length b = 256" "\<forall>j. k = Some j \<longrightarrow> j \<le> 256" by (cases y) auto
    show ?case unfolding y(1) prod.case
    proof (rule settles_bind [OF answered_yields [OF y(3,4)]], rule settles_if, use y in simp,
        rule settles_after [OF read_settles [OF y(2) _ _ _ y(3)]], simp, simp, simp, goal_cases)
      case (1 ok z)
      then obtain w3 b3 k3 where z: "z = (w3, Some b3, k3)" "good w3" "length b3 = 256" "\<forall>j. k3 = Some j \<longrightarrow> j \<le> 256"
        by (cases z) auto
      have rds: "rd (Some b3) 0 = Some (b3 ! 0)" "rd (Some b3) 1 = Some (b3 ! 1)" using z by simp_all
      show ?case unfolding z(1) prod.case
      proof (rule settles_bind [OF answered_yields [OF z(3,4)]], rule settles_if, use z in simp,
          unfold rds Option.bind.bind_lunit Let_def, rule settles_if, use z in simp,
          rule settles_after [OF full_cc_settles [OF z(2,3)]], goal_cases)
        case (1 ok v)
        then obtain w4 ok4 b4 where v: "v = (w4, ok4, Some b4)" "good w4" "length b4 = 256" by (cases v) auto
        show ?case unfolding v(1) prod.case
        proof (rule settles_if, use v in simp, rule settles_bind [OF type4_apply_cc_ok], goal_cases)
          case (3 r)
          then show ?case using v by (cases r) auto
        qed (use 1 v in \<open>simp_all add: u8n_def\<close>)
      qed
    qed
  qed
qed

lemma chunks_settle:
  assumes "chunk_max \<le> 254" "to_read \<le> 1024"
  shows "good w \<Longrightarrow> length resp = 256 \<Longrightarrow> length buf = 1024 \<Longrightarrow> assembled \<le> to_read \<Longrightarrow>
    settles (type4_chunks rounds send chunk_max to_read (w, Some resp, Some buf, assembled))
      (\<lambda>(w', ok, p). good w' \<and> (\<exists>b. p = Some b \<and> length b = 1024))"
proof (induction rounds arbitrary: w resp buf assembled)
  case 0
  then show ?case by (auto simp: settles_def)
next
  case (Suc rounds)
  define chunk where "chunk = (if to_read - assembled > chunk_max then u8n chunk_max else u8n (to_read - assembled))"
  have chunk: "chunk \<le> 254" "assembled + chunk \<le> to_read" "chunk \<le> to_read - assembled"
    using assms Suc.prems(4) by (auto simp: chunk_def u8n_def)
  show ?case
  proof (cases "assembled < to_read")
    case True
    show ?thesis
      unfolding type4_chunks.simps if_P [OF True] Let_def chunk_def [symmetric] read_command Option.bind.bind_lunit prod.case
        not_True_eq_False if_False
    proof (rule settles_after [OF read_settles [OF Suc.prems(1) _ _ _ Suc.prems(2)]], simp, simp, simp, goal_cases)
      case (1 x)
      then obtain w1 b k where x: "x = (w1, Some b, k)" "good w1" "length b = 256" "\<forall>j. k = Some j \<longrightarrow> j \<le> 256" by (cases x) auto
      have cp: "nero_nfc_copy_bytes (Some buf) READER_NDEF_BUF_MAX assembled (Some b) chunk =
          Some (True, Some (patch buf assembled (take chunk b)))"
        using chunk assms(2) Suc.prems x by (simp add: READER_NDEF_BUF_MAX_def)
      have n: "u16n (assembled + chunk) = assembled + chunk" using chunk assms(2) by simp
      show ?case unfolding x(1) prod.case
      proof (rule settles_bind [OF answered_yields [OF x(3,4)]], rule settles_if, use x Suc.prems in simp,
          unfold cp Option.bind.bind_lunit prod.case not_True_eq_False if_False n)
        show "settles (type4_chunks rounds send chunk_max to_read
            (w1, Some b, Some (patch buf assembled (take chunk b)), assembled + chunk))
            (\<lambda>(w', ok, p). good w' \<and> (\<exists>b. p = Some b \<and> length b = 1024))"
          by (rule Suc.IH) (use x chunk assms(2) Suc.prems in simp_all)
      qed
    qed
  qed (use Suc.prems in simp)
qed

lemma message_settles:
  assumes w: "good w" and i: "type4_info_ok info" and buf: "length buf = 1024"
  shows "settles (type4_read_message send w info (Some buf)) (read_result good)"
proof -
  have rds: "rd (Some (t4_ndef_file_id info)) 0 = Some (t4_ndef_file_id info ! 0)"
    "rd (Some (t4_ndef_file_id info)) 1 = Some (t4_ndef_file_id info ! 1)" using i by (simp_all add: type4_info_ok_def)
  obtain fits m where m: "nfc_pcsc_type4_max_message_size (t4_max_ndef_size info) = (fits, m)" by fastforce
  show ?thesis
    unfolding type4_read_message_def rds Option.bind.bind_lunit m Let_def prod.case select_command read_command
      if_True not_True_eq_False if_False
  proof (rule settles_if, use w buf in \<open>simp add: read_result_def\<close>,
      rule settles_after [OF exchange [OF w]], simp, simp, simp, goal_cases)
    case (1 y)
    then obtain w2 b k where y: "y = (w2, Some b, k)" "good w2" "length b = 256" "\<forall>j. k = Some j \<longrightarrow> j \<le> 256" by (cases y) auto
    show ?case unfolding y(1) prod.case
    proof (rule settles_bind [OF answered_yields [OF y(3,4)]], rule settles_if, use y buf in \<open>simp add: read_result_def\<close>,
        rule settles_after [OF read_settles [OF y(2) _ _ _ y(3)]], simp, simp, simp, goal_cases)
      case (1 ok z)
      then obtain w3 b3 k3 where z: "z = (w3, Some b3, k3)" "good w3" "length b3 = 256" "\<forall>j. k3 = Some j \<longrightarrow> j \<le> 256"
        by (cases z) auto
      have rds: "rd (Some b3) 0 = Some (b3 ! 0)" "rd (Some b3) 1 = Some (b3 ! 1)" using z by simp_all
      show ?case unfolding z(1) prod.case
      proof (rule settles_bind [OF answered_yields [OF z(3,4)]], rule settles_if, use z buf in \<open>simp add: read_result_def\<close>,
          unfold rds Option.bind.bind_lunit, rule settles_if, use z buf in \<open>simp add: read_result_def\<close>,
          rule settles_if, use z buf in \<open>simp add: read_result_def\<close>,
          rule settles_after [OF chunks_settle], goal_cases)
        case (7 ok v)
        then show ?case by (cases v) (auto simp: read_result_def READER_NDEF_BUF_MAX_def)
      qed (use z buf in \<open>auto simp: READER_NDEF_BUF_MAX_def\<close>)
    qed
  qed
qed

end

section \<open>The session as a channel\<close>

interpretation session_channel: apdu_channel "reader_iso_dep_send_apdu fuel R" "\<lambda>w. radio_ok R \<and> iso_inv (snd w)"
  for fuel :: nat and R :: "'c radio"
proof
  fix w :: "'c session" and n :: nat and cmd resp :: bytes
  assume a: "radio_ok R \<and> iso_inv (snd w)" "n \<le> length cmd" "n \<le> 65535" "length resp = 256"
  show "settles (reader_iso_dep_send_apdu fuel R w (Some cmd) n (Some resp) 256) (replied (\<lambda>w. radio_ok R \<and> iso_inv (snd w)))"
    unfolding reader_iso_dep_send_apdu_def reader_security_key_send_apdu_timeout_def
    by (rule settles_mono [OF send_apdu_settles [OF _ _ a(2,3,4)]]) (use a in \<open>auto simp: apdu_result_def\<close>)
qed

lemma select_ndef_settles:
  assumes "radio_ok R" "iso_inv (snd w)"
  shows "settles (reader_iso_dep_select_ndef_app fuel R w) (\<lambda>(w', ok). iso_inv (snd w'))"
  unfolding reader_iso_dep_select_ndef_app_def
  by (rule settles_after [OF select_variants_settle [OF assms(1) _ _ _ assms(2), where m = None]])
    (auto dest!: ndef_variant simp: sized_def)

lemma typea_info_yields:
  assumes "iso_inv s"
  shows "yields (reader_tags_get_typea_info (tag_view s fresh_tag_state)) (\<lambda>_. True)"
  using assms by (auto simp: reader_tags_get_typea_info_def tag_view_def fresh_tag_state_def iso_inv_def Let_def)

text \<open>
  C23: reading the message of a Type 4 tag never faults, whatever the card answers and whatever sizes
  its container and its length field announce; the session stays well formed and the message is
  inside the buffer of 1024 bytes.
\<close>

theorem type4_read_safe:
  fixes R :: "'c radio"
  assumes "radio_ok R" "iso_inv (snd w)" "length buf = 1024"
  shows "settles (reader_tags_read_type4_ndef fuel R w (Some buf)) (read_result (\<lambda>w. radio_ok R \<and> iso_inv (snd w)))"
  unfolding reader_tags_read_type4_ndef_def
proof (rule settles_bind [OF typea_info_yields [OF assms(2)]], goal_cases)
  case (1 x)
  obtain ok typea where x: "x = (ok, typea)" by fastforce
  show ?case unfolding x prod.case type4_read_def
  proof (rule settles_if, use assms in \<open>simp add: read_result_def\<close>, rule settles_after [OF session_channel.load_info_settles], goal_cases)
    case (2 w)
    then show ?case by (auto intro!: settles_mono [OF select_ndef_settles])
  next
    case (3 y)
    obtain w' info where y: "y = (w', info)" by fastforce
    show ?case using 3 assms(3) session_channel.message_settles [of R w' _ buf fuel]
      by (cases info) (auto simp: y read_result_def)
  qed (use assms in simp)
qed

theorem type4_read_safe_witness:
  "settles (reader_tags_read_type4_ndef 9 one_ats_radio ((), fresh_iso_dep\<lparr>id_uid14_len := 7, id_sak := 0x20\<rparr>)
      (Some (replicate 1024 0)))
    (read_result (\<lambda>w. radio_ok one_ats_radio \<and> iso_inv (snd w)))"
proof (rule type4_read_safe)
  show "iso_inv (snd ((), fresh_iso_dep\<lparr>id_uid14_len := 7, id_sak := 0x20\<rparr>))"
    using fresh_iso_dep_inv by (simp add: iso_inv_def)
qed (auto simp: radio_ok_def one_ats_radio_def)

end
