(* ===== verification/TagType4File.thy ===== *)
theory TagType4File
  imports TagType4Safe
begin

text \<open>
  What the reader gets from a Type 4 tag that serves its files: the message, however long the pieces
  are in which the card lets it be read.
\<close>

section \<open>A card that serves a file\<close>

definition read_apdu :: "nat \<Rightarrow> nat \<Rightarrow> bytes" where
  "read_apdu off le = [0x00, 0xB0, byte (off div 256), byte off, byte le]"

definition select_apdu :: "bytes \<Rightarrow> bytes" where
  "select_apdu fid = [0x00, 0xA4, 0x00, 0x0C, 2] @ fid"

text \<open>An answer with the given data and the status word 90 00.\<close>

definition delivers :: "('w \<Rightarrow> bool) \<Rightarrow> bytes \<Rightarrow> ('w \<times> cptr \<times> nat option) option option \<Rightarrow> bool" where
  "delivers P data r \<longleftrightarrow> (\<exists>w b. r = Some (Some (w, Some b, Some (length data + 2))) \<and> P w \<and> length b = 256 \<and>
     take (length data + 2) b = data @ [0x90, 0x00])"

text \<open>
  The card serves the file \<open>f\<close> under the id \<open>fid\<close>: from a state in \<open>P\<close> selecting it succeeds, and
  from then on READ BINARY inside the file delivers its bytes.
\<close>

definition serves_file :: "'w apdu_exchange \<Rightarrow> ('w \<Rightarrow> bool) \<Rightarrow> ('w \<Rightarrow> bool) \<Rightarrow> bytes \<Rightarrow> bytes \<Rightarrow> bool" where
  "serves_file send P selected fid f \<longleftrightarrow>
     (\<forall>w r. P w \<and> length r = 256 \<longrightarrow> delivers selected [] (send w (Some (select_apdu fid)) 7 (Some r) 256)) \<and>
     (\<forall>w r off le. selected w \<and> length r = 256 \<and> le \<le> 254 \<and> off + le \<le> length f \<longrightarrow>
        delivers selected (take le (drop off f)) (send w (Some (read_apdu off le)) 5 (Some r) 256))"

lemma delivered_ok:
  assumes "length b = 256" "take (length data + 2) b = data @ [0x90, 0x00]" "length data \<le> 254"
  shows "nfc_iso7816_response_sw_ok (Some b) (rlen_int (Some (length data + 2))) = Some True"
    "nfc_iso7816_response_wrong_length (Some b) (rlen_int (Some (length data + 2))) = Some (False, 0)"
    "answered_ok (Some b) (Some (length data + 2)) (length data + 2) = Some True"
    "take (length data) b = data"
proof -
  have "b ! length data = (data @ [0x90, 0x00]) ! length data" "b ! (length data + 1) = (data @ [0x90, 0x00]) ! (length data + 1)"
    unfolding assms(2) [symmetric] by (simp_all del: append.simps)
  then have b: "b ! length data = 0x90" "b ! Suc (length data) = 0x00" by (simp_all add: nth_append)
  have "nfc_iso7816_response_sw (Some b) (rlen_int (Some (length data + 2))) = Some (True, 0x90, 0x00)"
    unfolding rlen_int_def option.case using response_sw_eq [of "length data + 2" b] assms b by simp
  then show "nfc_iso7816_response_sw_ok (Some b) (rlen_int (Some (length data + 2))) = Some True"
    "nfc_iso7816_response_wrong_length (Some b) (rlen_int (Some (length data + 2))) = Some (False, 0)"
    "answered_ok (Some b) (Some (length data + 2)) (length data + 2) = Some True"
    by (simp_all add: nfc_iso7816_response_sw_ok_def nfc_iso7816_response_wrong_length_def answered_ok_def,
        simp add: rlen_int_def)
  have "take (length data) b = take (length data) (take (length data + 2) b)" by simp
  then show "take (length data) b = data" unfolding assms(2) by simp
qed

lemma read_delivers:
  assumes s: "serves_file send P selected fid f" and w: "selected w" "length r = 256" "le \<le> 254" "off + le \<le> length f"
  shows "\<exists>w' b. reader_tags_type4_iso_read_binary send w (Some (read_apdu off le)) 5 (Some r) 256 =
      Some (Some (w', Some b, Some (le + 2))) \<and> selected w' \<and> length b = 256 \<and>
      answered_ok (Some b) (Some (le + 2)) (le + 2) = Some True \<and> take le b = take le (drop off f)"
proof -
  define data where "data = take le (drop off f)"
  have l: "length data = le" using w by (simp add: data_def)
  obtain w' b where b: "send w (Some (read_apdu off le)) 5 (Some r) 256 = Some (Some (w', Some b, Some (le + 2)))"
    "selected w'" "length b = 256" "take (le + 2) b = data @ [0x90, 0x00]"
    using s w unfolding serves_file_def delivers_def data_def [symmetric] l by (metis l data_def)
  note d = delivered_ok [of b data, unfolded l, OF b(3,4) w(3)]
  have "\<not> (Some (read_apdu off le) = None \<or> (5 :: nat) < 5 \<or> Some r = None \<or> (256 :: nat) < 2)" by simp
  then have "reader_tags_type4_iso_read_binary send w (Some (read_apdu off le)) 5 (Some r) 256 =
      Some (Some (w', Some b, Some (le + 2)))"
    unfolding reader_tags_type4_iso_read_binary_def b(1) after_def
    by (simp only: if_False Option.bind.bind_lunit option.case prod.case d(2) not_False_eq_True if_True)
  then show ?thesis using b d by (simp add: data_def)
qed

lemma select_delivers:
  assumes s: "serves_file send P selected fid f" and w: "P w" "length r = 256"
  shows "\<exists>w' b. send w (Some (select_apdu fid)) 7 (Some r) 256 = Some (Some (w', Some b, Some 2)) \<and> selected w' \<and>
    length b = 256 \<and> answered_ok (Some b) (Some 2) 2 = Some True"
proof -
  have "delivers selected [] (send w (Some (select_apdu fid)) 7 (Some r) 256)"
    using s w unfolding serves_file_def by blast
  then obtain w' b where b: "send w (Some (select_apdu fid)) 7 (Some r) 256 = Some (Some (w', Some b, Some 2))"
    "selected w'" "length b = 256" "take 2 b = [0x90, 0x00]"
    unfolding delivers_def list.size(3) append_Nil add_0 by blast
  have "answered_ok (Some b) (Some 2) 2 = Some True"
    by (rule delivered_ok(3) [of b "[]", unfolded list.size(3) append_Nil add_0, OF b(3,4) le0])
  then show ?thesis using b by blast
qed

section \<open>The message\<close>

lemma chunks_deliver:
  assumes s: "serves_file send P selected fid f" and c: "0 < chunk_max" "chunk_max \<le> 254"
    and f: "2 + n \<le> length f" "n \<le> 1024"
  shows "selected w \<Longrightarrow> length r = 256 \<Longrightarrow> length buf = 1024 \<Longrightarrow> k \<le> n \<Longrightarrow> n \<le> k + rounds \<Longrightarrow>
    take k buf = take k (drop 2 f) \<Longrightarrow>
    \<exists>w' buf'. type4_chunks rounds send chunk_max n (w, Some r, Some buf, k) = Some (Some (w', True, Some buf')) \<and>
      selected w' \<and> take n buf' = take n (drop 2 f)"
proof (induction rounds arbitrary: w r buf k)
  case 0
  then show ?case by simp
next
  case (Suc rounds)
  define m where "m = (if n - k > chunk_max then u8n chunk_max else u8n (n - k))"
  show ?case
  proof (cases "k < n")
    case True
    then have m: "0 < m" "m \<le> 254" "k + m \<le> n" using c by (auto simp: m_def u8n_def)
    have off: "u16n (2 + k) = 2 + k" using True f by simp
    obtain w1 b where b: "reader_tags_type4_iso_read_binary send w (Some (read_apdu (2 + k) m)) 5 (Some r) 256 =
        Some (Some (w1, Some b, Some (m + 2)))" "selected w1" "length b = 256"
        "answered_ok (Some b) (Some (m + 2)) (m + 2) = Some True" "take m b = take m (drop (2 + k) f)"
      using read_delivers [OF s Suc.prems(1,2) m(2), of "2 + k"] m f by auto
    have cp: "nero_nfc_copy_bytes (Some buf) READER_NDEF_BUF_MAX k (Some b) m = Some (True, Some (patch buf k (take m b)))"
      using m f Suc.prems b(3) by (simp add: READER_NDEF_BUF_MAX_def)
    have n: "u16n (k + m) = k + m" using m f by simp
    have "type4_chunks (Suc rounds) send chunk_max n (w, Some r, Some buf, k) =
        type4_chunks rounds send chunk_max n (w1, Some b, Some (patch buf k (take m b)), k + m)"
      unfolding type4_chunks.simps if_P [OF True] Let_def m_def [symmetric] read_command Option.bind.bind_lunit prod.case
        not_True_eq_False if_False off read_apdu_def [symmetric] b(1) after_def option.case b(4) cp n ..
    moreover have "take (k + m) (patch buf k (take m b)) = take (k + m) (drop 2 f)"
    proof -
      have "take (k + m) (patch buf k (take m b)) = take k buf @ take m b"
        using Suc.prems(3) m f b(3) by (simp add: patch_def)
      also have "\<dots> = take k (drop 2 f) @ take m (drop k (drop 2 f))" using Suc.prems(6) b(5) by (simp add: add.commute)
      finally show ?thesis by (simp add: take_add)
    qed
    ultimately show ?thesis
      using Suc.IH [of w1 b "patch buf k (take m b)" "k + m"] b Suc.prems m f by simp
  qed (use Suc.prems in simp)
qed

lemma message_delivered:
  assumes s: "serves_file send P selected (t4_ndef_file_id info) f" and w: "P w"
    and i: "type4_info_ok info" "t4_read_open info" "n + 2 \<le> t4_max_ndef_size info"
    and f: "f = [byte (n div 256), byte n] @ msg @ rest" "length msg = n" "n \<le> 1024" and buf: "length buf = 1024"
  shows "\<exists>w' buf'. type4_read_message send w info (Some buf) = Some (Some (w', True, Some buf', n)) \<and>
    take n buf' = msg \<and> (n = 0 \<longrightarrow> buf' = buf)"
proof -
  obtain f1 f0 where fid: "t4_ndef_file_id info = [f1, f0]"
  proof -
    have "length (t4_ndef_file_id info) = 2" using i(1) by (simp add: type4_info_ok_def)
    then show ?thesis by (auto simp: numeral_2_eq_2 length_Suc_conv intro: that)
  qed
  have rds: "rd (Some (t4_ndef_file_id info)) 0 = Some f1" "rd (Some (t4_ndef_file_id info)) 1 = Some f0"
    by (simp_all add: fid)
  have m: "nfc_pcsc_type4_max_message_size (t4_max_ndef_size info) = (True, t4_max_ndef_size info - 2)"
    using i(3) by (simp add: nfc_pcsc_type4_max_message_size_def)
  have ok: "\<not> (False \<or> \<not> t4_read_open info \<or> t4_mle info < 2)" using i by (simp add: type4_info_ok_def)
  have sel: "[0x00, 0xA4, 0x00, 0x0C, 2, byte (be16 f1 f0 div 256), byte (be16 f1 f0)] = select_apdu (t4_ndef_file_id info)"
  proof -
    have "(unat f1 * 256 + unat f0) div 256 = unat f1" "unat f0 < 256" using unat_u8_bound [of f0] by linarith+
    moreover have "byte (unat f1 * 256 + unat f0) = byte (unat f0)" unfolding byte_eq_iff by simp
    ultimately show ?thesis by (simp add: fid select_apdu_def be16_eq)
  qed
  obtain w1 b1 where 1: "send w (Some (select_apdu (t4_ndef_file_id info))) 7 (Some (replicate 256 0)) 256 =
      Some (Some (w1, Some b1, Some 2))" "selected w1" "length b1 = 256" "answered_ok (Some b1) (Some 2) 2 = Some True"
    using select_delivers [OF s w, of "replicate 256 0"] by auto
  have rl: "[0x00, 0xB0, byte (0 div 256), byte 0, 2] = read_apdu 0 2" by (simp add: read_apdu_def)
  obtain w2 b2 where 2: "reader_tags_type4_iso_read_binary send w1 (Some (read_apdu 0 2)) 5 (Some b1) 256 =
      Some (Some (w2, Some b2, Some (2 + 2)))" "selected w2" "length b2 = 256"
      "answered_ok (Some b2) (Some (2 + 2)) (2 + 2) = Some True" "take 2 b2 = take 2 (drop 0 f)"
    using read_delivers [OF s 1(2,3), of 2 0] f by auto
  have four: "(2 + 2 :: nat) = 4" by simp
  have len: "rd (Some b2) 0 = Some (byte (n div 256))" "rd (Some b2) 1 = Some (byte n)"
  proof -
    have "take 2 b2 = [byte (n div 256), byte n]" using 2(5) f by (simp add: numeral_2_eq_2)
    then have "b2 ! 0 = byte (n div 256)" "b2 ! 1 = byte n"
      using nth_take [of 0 2 b2] nth_take [of 1 2 b2] by simp_all
    then show "rd (Some b2) 0 = Some (byte (n div 256))" "rd (Some b2) 1 = Some (byte n)" using 2(3) by simp_all
  qed
  have n: "be16 (byte (n div 256)) (byte n) = n" using f(3) by (intro be16_bytes) simp
  let ?mle = "if t4_mle info \<noteq> 0 then t4_mle info else 0x3B"
  let ?max = "if ?mle < 254 then ?mle else 254"
  have head: "type4_read_message send w info (Some buf) =
      (if n = 0 then Some (Some (w2, True, Some buf, 0))
       else if n > t4_max_ndef_size info - 2 \<or> n > READER_NDEF_BUF_MAX then Some (Some (w2, False, Some buf, 0))
       else after (type4_chunks n send ?max n (w2, Some b2, Some buf, 0)) (\<lambda>(w, ok, buf). Some (Some (w, ok, buf, if ok then n else 0))))"
    unfolding type4_read_message_def rds Option.bind.bind_lunit m Let_def prod.case not_True_eq_False if_not_P [OF ok] select_command
      read_command if_True if_False sel after_def [of "Some (Some _)"] 1(1) option.case 1(4)
      rl 2(1) 2(4) [unfolded four] four len n ..
  show ?thesis
  proof (cases "n = 0")
    case False
    have no: "\<not> (n > t4_max_ndef_size info - 2 \<or> n > READER_NDEF_BUF_MAX)" using i f by (auto simp: READER_NDEF_BUF_MAX_def)
    have mx: "0 < ?max" "?max \<le> 254" using i(1) by (auto simp: type4_info_ok_def)
    obtain w' buf' where "type4_chunks n send ?max n (w2, Some b2, Some buf, 0) = Some (Some (w', True, Some buf'))"
        "take n buf' = take n (drop 2 f)"
      using chunks_deliver [OF s mx, of n w2 b2 buf 0 n] f 2 buf by auto
    then show ?thesis unfolding head if_not_P [OF False] if_not_P [OF no] using False f by (simp add: after_def)
  qed (use head f in simp)
qed

section \<open>The whole tag\<close>

text \<open>
  A capability container of 15 bytes for one NDEF file: the file id, the size of the file, the
  longest response and the write access. It opens the file for reading.
\<close>

definition cc_file :: "u8 \<Rightarrow> nat \<Rightarrow> nat \<Rightarrow> bytes \<Rightarrow> nat \<Rightarrow> u8 \<Rightarrow> bytes" where
  "cc_file version mle mlc fid fsize write_access =
     [0x00, 0x0F, version, byte (mle div 256), byte mle, byte (mlc div 256), byte mlc, 0x04, 0x06] @ fid @
     [byte (fsize div 256), byte fsize, 0x00, write_access]"

lemma cc_file_parsed:
  assumes "length fid = 2" "15 \<le> mle" "mle < 65536" "1 \<le> mlc" "mlc < 65536" "fsize < 65536"
    and b: "length b = 256" "take 15 b = cc_file version mle mlc fid fsize wa"
  shows "\<exists>info. nfc_tag_type4_apply_cc (Some b) 15 = Some (True, info) \<and> type4_info_ok info \<and> t4_read_open info \<and>
    t4_ndef_file_id info = fid \<and> t4_max_ndef_size info = fsize"
proof -
  obtain f1 f0 where fid: "fid = [f1, f0]" using assms(1) by (auto simp: numeral_2_eq_2 length_Suc_conv)
  define cc where "cc = cc_file version mle mlc fid fsize wa"
  have u: "nero_nfc_u8_at (Some b) 15 i = Some (cc ! i)" if "i < 15" for i
    using that b nth_take [of i 15 b] unfolding cc_def by simp
  have cp: "nero_nfc_copy_bytes (Some (t4_cc type4_zero)) 15 0 (Some b) 15 = Some (True, Some cc)"
  proof -
    have "nero_nfc_copy_bytes (Some (t4_cc type4_zero)) 15 0 (Some b) 15 = Some (True, Some (take 15 b))"
      using b(1) by (simp add: type4_zero_def patch_def)
    then show ?thesis unfolding b(2) cc_def .
  qed
  have e: "cc ! 0 = 0" "cc ! 1 = 0x0F" "cc ! 3 = byte (mle div 256)" "cc ! 4 = byte mle" "cc ! 5 = byte (mlc div 256)"
    "cc ! 6 = byte mlc" "cc ! 7 = 0x04" "cc ! 8 = 0x06" "cc ! 9 = f1" "cc ! 10 = f0" "cc ! 11 = byte (fsize div 256)"
    "cc ! 12 = byte fsize" "cc ! 13 = 0" "cc ! 14 = wa" "length cc = 15"
    by (simp_all add: cc_def cc_file_def fid)
  have w: "be16 (byte (mle div 256)) (byte mle) = mle" "be16 (byte (mlc div 256)) (byte mlc) = mlc"
    "be16 (byte (fsize div 256)) (byte fsize) = fsize" using assms by (auto intro!: be16_bytes)
  have d: "be16 0 0x0F = 15" by (simp add: be16_eq)
  have no: "\<not> (Some b = None \<or> (15 :: nat) < 15)" by simp
  have "\<exists>info. nfc_tag_type4_apply_cc (Some b) 15 = Some (True, info) \<and> t4_cc info = cc \<and> t4_cc_len info = 15 \<and>
      t4_cc_valid info \<and> t4_ndef_file_id info = [f1, f0] \<and> t4_max_ndef_size info = fsize \<and> t4_mle info = mle \<and> t4_read_open info"
    unfolding nfc_tag_type4_apply_cc_def if_not_P [OF no] Let_def
    using assms(2,4) by (simp add: u e e(2) [unfolded One_nat_def] w d cp)
  then show ?thesis using e(15) assms unfolding type4_info_ok_def fid by auto
qed

text \<open>
  C22: from a Type 4 tag that selects the NDEF application and serves a capability container and the
  NDEF file it names, the reader gets exactly the message of the file, for every length up to the
  size of its buffer and every response length of the card.
\<close>

theorem type4_message_read:
  assumes app: "select w = Some (Some (w1, True))" "P w1"
    and cc: "serves_file send P Q [0xE1, 0x03] (cc_file version mle mlc fid fsize wa)"
    and nf: "serves_file send Q S fid ([byte (n div 256), byte n] @ msg @ rest)"
    and sizes: "length fid = 2" "15 \<le> mle" "mle < 65536" "1 \<le> mlc" "mlc < 65536" "fsize < 65536"
    and n: "length msg = n" "n + 2 \<le> fsize" "n \<le> 1024" and buf: "length buf = 1024"
  shows "\<exists>w' buf'. type4_read send select w (Some buf) = Some (Some (w', True, Some buf', n)) \<and> take n buf' = msg"
proof -
  let ?cc = "cc_file version mle mlc fid fsize wa"
  have l: "length ?cc = 15" using sizes(1) by (simp add: cc_file_def)
  have sel: "[0x00, 0xA4, 0x00, 0x0C, 2, byte (0xE103 div 256), byte 0xE103] = select_apdu [0xE1, 0x03]"
    by (simp add: select_apdu_def byte_def)
  obtain w2 b2 where 2: "send w1 (Some (select_apdu [0xE1, 0x03])) 7 (Some (replicate 256 0)) 256 =
      Some (Some (w2, Some b2, Some 2))" "Q w2" "length b2 = 256" "answered_ok (Some b2) (Some 2) 2 = Some True"
    using select_delivers [OF cc app(2), of "replicate 256 0"] by auto
  have rl: "[0x00, 0xB0, byte (0 div 256), byte 0, 15] = read_apdu 0 15" by (simp add: read_apdu_def)
  obtain w3 b3 where 3: "reader_tags_type4_iso_read_binary send w2 (Some (read_apdu 0 15)) 5 (Some b2) 256 =
      Some (Some (w3, Some b3, Some (15 + 2)))" "Q w3" "length b3 = 256"
      "answered_ok (Some b3) (Some (15 + 2)) (15 + 2) = Some True" "take 15 b3 = take 15 (drop 0 ?cc)"
    using read_delivers [OF cc 2(2,3), of 15 0] l by auto
  have b3: "take 15 b3 = ?cc" using 3(5) l by simp
  have sum: "(15 + 2 :: nat) = 17" by simp
  have "b3 ! 0 = ?cc ! 0" "b3 ! 1 = ?cc ! 1" using nth_take [of 0 15 b3] nth_take [of 1 15 b3] b3 by simp_all
  then have rds: "rd (Some b3) 0 = Some 0" "rd (Some b3) 1 = Some 0x0F" using 3(3) by (simp_all add: cc_file_def)
  have d: "be16 0 0x0F = 15" by (simp add: be16_eq)
  obtain info where i: "nfc_tag_type4_apply_cc (Some b3) 15 = Some (True, info)" "type4_info_ok info" "t4_read_open info"
      "t4_ndef_file_id info = fid" "t4_max_ndef_size info = fsize"
    using cc_file_parsed [OF sizes 3(3) b3] by auto
  have u: "u8n 15 = 15" by (simp add: u8n_def)
  have range: "\<not> ((15 :: nat) < 15 \<or> (15 :: nat) > 254)" "(15 :: nat) \<le> 15" by simp_all
  have "reader_tags_type4_load_info send select w = Some (Some (w3, Some info))"
    unfolding reader_tags_type4_load_info_def select_command read_command Option.bind.bind_lunit prod.case if_True
      not_True_eq_False if_False app after_def [of "Some (Some _)"] option.case sel 2(1) 2(4) rl 3(1) 3(4) [unfolded sum] sum
      rds Let_def d if_not_P [OF range(1)] type4_full_cc_def if_P [OF range(2)] u i(1) ..
  moreover obtain w' buf' where "type4_read_message send w3 info (Some buf) = Some (Some (w', True, Some buf', n))" "take n buf' = msg"
    using message_delivered [OF nf [folded i(4)] 3(2) i(2,3) _ refl n(1,3) buf] n(2) i(5) by auto
  ultimately show ?thesis by (simp add: type4_read_def after_def)
qed

text \<open>A card with the two files; its state is the id of the selected one.\<close>

definition file_card :: "(bytes \<Rightarrow> bytes) \<Rightarrow> bytes apdu_exchange" where
  "file_card files w cmd n resp cap =
     (let c = the cmd; b = the resp;
          chosen = (c ! 1 = 0xA4); w' = (if chosen then drop 5 c else w);
          data = (if chosen then [] else take (unat (c ! 4)) (drop (be16 (c ! 2) (c ! 3)) (files w)))
      in Some (Some (w', Some (data @ [0x90, 0x00] @ drop (length data + 2) b), Some (length data + 2))))"

lemma file_card_serves:
  assumes "files fid = f" "length f < 65536"
  shows "serves_file (file_card files) P (\<lambda>w. w = fid) fid f"
proof -
  have "unat (byte le) = le" if "le \<le> 254" for le using that by simp
  moreover have "be16 (byte (off div 256)) (byte off) = off" if "off + le \<le> length f" for off le
    using that assms by (intro be16_bytes) simp
  ultimately show ?thesis using assms
    by (auto simp: serves_file_def delivers_def file_card_def select_apdu_def read_apdu_def Let_def)
qed

theorem type4_message_read_witness:
  "\<exists>w' buf'. type4_read (file_card (\<lambda>w. if w = [0xE1, 0x03] then cc_file 0x20 59 52 [0xE1, 0x04] 1024 0
        else [0x00, 0x03, 0xD0, 0x00, 0x00])) (\<lambda>w. Some (Some (w, True))) [] (Some (replicate 1024 0)) =
      Some (Some (w', True, Some buf', 3)) \<and> take 3 buf' = [0xD0, 0x00, 0x00]"
proof (rule type4_message_read [where P = "\<lambda>_. True" and Q = "\<lambda>w. w = [0xE1, 0x03]" and S = "\<lambda>w. w = [0xE1, 0x04]" and
      version = "0x20" and mle = 59 and mlc = 52 and fid = "[0xE1, 0x04]" and fsize = 1024 and wa = 0 and rest = "[]"])
  let ?files = "\<lambda>w. if w = [0xE1, 0x03] then cc_file 0x20 59 52 [0xE1, 0x04] 1024 0 else [0x00, 0x03, 0xD0, 0x00, 0x00]"
  show "serves_file (file_card ?files) (\<lambda>_. True) (\<lambda>w. w = [0xE1, 0x03]) [0xE1, 0x03] (cc_file 0x20 59 52 [0xE1, 0x04] 1024 0)"
    by (rule file_card_serves) (simp_all add: cc_file_def)
  show "serves_file (file_card ?files) (\<lambda>w. w = [0xE1, 0x03]) (\<lambda>w. w = [0xE1, 0x04]) [0xE1, 0x04]
      ([byte (3 div 256), byte 3] @ [0xD0, 0x00, 0x00] @ [])"
    by (rule file_card_serves) simp_all
qed simp_all

end
