(* ===== verification/CcidStorage.thy ===== *)
theory CcidStorage
  imports TagType4
begin

text \<open>
  The storage-card commands of the CCID reader (\<open>reader_ccid_storage.c\<close>): GET DATA, READ BINARY,
  UPDATE BINARY, the transparent Type 5 command and the checks on raw commands.

  The state is that of the tag paths. The kind of the tag (\<open>G_TAG_KIND\<close>) is an argument, as are
  \<open>reader_tags_get_type4_info\<close>, which runs on the session of the card, and
  \<open>reader_ccid_abort_requested\<close>, which looks at the USB endpoint. Results are the new state, the
  length of the response and the response buffer. Local arrays start with zeros.
\<close>

section \<open>Responses\<close>

definition reader_ccid_append_status :: "cptr \<Rightarrow> nat \<Rightarrow> nat \<Rightarrow> u8 \<Rightarrow> u8 \<Rightarrow> (nat \<times> cptr) option" where
  "reader_ccid_append_status dst data_len dst_cap sw1 sw2 = do {
     (ok, dst, out_len) \<leftarrow> nfc_iso7816_append_sw dst dst_cap data_len sw1 sw2;
     Some (if \<not> ok then 0 else out_len, dst)
   }"

definition reader_ccid_append_success_status :: "cptr \<Rightarrow> nat \<Rightarrow> nat \<Rightarrow> (nat \<times> cptr) option" where
  "reader_ccid_append_success_status dst data_len dst_cap = reader_ccid_append_status dst data_len dst_cap 0x90 0x00"

definition reader_ccid_apdu_failure_response :: "cptr \<Rightarrow> nat \<Rightarrow> (nat \<times> cptr) option" where
  "reader_ccid_apdu_failure_response rsp rsp_cap = reader_ccid_append_status rsp 0 rsp_cap 0x6F 0x00"

text \<open>The answer 6A 81, function not supported.\<close>

definition not_supported :: "cptr \<Rightarrow> nat \<Rightarrow> (nat \<times> cptr) option" where
  "not_supported rsp rsp_cap = reader_ccid_append_status rsp 0 rsp_cap 0x6A 0x81"

text \<open>Copies the data into the response and appends 90 00; 6F 00 if they do not fit.\<close>

definition reply_data :: "cptr \<Rightarrow> nat \<Rightarrow> bytes \<Rightarrow> nat \<Rightarrow> (nat \<times> cptr) option" where
  "reply_data rsp rsp_cap src n = do {
     (ok, rsp) \<leftarrow> nero_nfc_copy_bytes rsp rsp_cap 0 (Some src) n;
     if \<not> ok then reader_ccid_apdu_failure_response rsp rsp_cap
     else reader_ccid_append_success_status rsp n rsp_cap
   }"

definition at_state :: "'w \<Rightarrow> (nat \<times> cptr) option \<Rightarrow> ('w \<times> nat \<times> cptr) option" where
  "at_state w m = map_option (\<lambda>r. (w, r)) m"

section \<open>GET DATA\<close>

text \<open>UID, ATS, SAK and ATQA. The length 0 stands for a parameter of another group.\<close>

definition reader_ccid_get_data_contactless :: "tag_kind \<Rightarrow> tag_state \<Rightarrow> u8 \<Rightarrow> cptr \<Rightarrow> nat \<Rightarrow> (nat \<times> cptr) option" where
  "reader_ccid_get_data_contactless kind s p1 rsp rsp_cap =
     (if p1 = 0x00 then
        if kind = TAG_KIND_TYPE5 then reply_data rsp rsp_cap (ts_uid15 s) 8
        else do {
          (known, typea) \<leftarrow> reader_tags_get_typea_info s;
          (ok, rsp) \<leftarrow> (if known then nero_nfc_copy_bytes rsp rsp_cap 0 (Some (ta_uid typea)) (ta_uid_len typea)
            else Some (False, rsp));
          if \<not> ok then not_supported rsp rsp_cap
          else reader_ccid_append_success_status rsp (ta_uid_len typea) rsp_cap
        }
      else if p1 = 0x01 then do {
        (known, typea) \<leftarrow> reader_tags_get_typea_info s;
        if \<not> known \<or> ta_ats_len typea = 0 then not_supported rsp rsp_cap
        else reply_data rsp rsp_cap (ta_ats typea) (ta_ats_len typea)
      }
      else if p1 = 0x02 then do {
        (known, typea) \<leftarrow> reader_tags_get_typea_info s;
        if \<not> known \<or> rsp_cap < 3 then not_supported rsp rsp_cap
        else do {
          rsp \<leftarrow> wr rsp 0 (ta_sak typea);
          reader_ccid_append_success_status rsp 1 rsp_cap
        }
      }
      else if p1 = 0x03 then do {
        (known, typea) \<leftarrow> reader_tags_get_typea_info s;
        if \<not> known \<or> \<not> ta_atqa_valid typea \<or> rsp_cap < 4 then not_supported rsp rsp_cap
        else do {
          rsp \<leftarrow> wr rsp 0 (ta_atqa typea ! 0);
          rsp \<leftarrow> wr rsp 1 (ta_atqa typea ! 1);
          reader_ccid_append_success_status rsp 2 rsp_cap
        }
      }
      else Some (0, rsp))"

text \<open>Version, signature, capability container and AUTH0 of a Type 2 tag.\<close>

definition get_data_version ::
    "tag_kind \<Rightarrow> 'c tag_radio \<Rightarrow> 'c \<times> tag_state \<Rightarrow> cptr \<Rightarrow> nat \<Rightarrow> (('c \<times> tag_state) \<times> nat \<times> cptr) option" where
  "get_data_version kind R w rsp rsp_cap =
     (if kind \<noteq> TAG_KIND_TYPE2 then at_state w (not_supported rsp rsp_cap)
      else do {
        (w, ok, type2) \<leftarrow> reader_tags_get_type2_storage_info R w;
        if \<not> ok \<or> \<not> t2_cc_valid type2 then at_state w (not_supported rsp rsp_cap)
        else do {
          (w, version) \<leftarrow> reader_tags_type2_transceive R w (Some [0x60]) 1 8;
          if length version < 8 then at_state w (not_supported rsp rsp_cap)
          else do {
            type2 \<leftarrow> nfc_tag_type2_apply_version type2 (Some version) 8;
            if t2_family type2 \<noteq> FAMILY_NTAG21X then at_state w (not_supported rsp rsp_cap)
            else at_state w (reply_data rsp rsp_cap version 8)
          }
        }
      })"

definition get_data_signature ::
    "'c tag_radio \<Rightarrow> 'c \<times> tag_state \<Rightarrow> cptr \<Rightarrow> nat \<Rightarrow> (('c \<times> tag_state) \<times> nat \<times> cptr) option" where
  "get_data_signature R w rsp rsp_cap =
     (if ts_uid14_len (snd w) = 0 then at_state w (not_supported rsp rsp_cap)
      else do {
        maker \<leftarrow> rd (Some (ts_uid14 (snd w))) 0;
        if maker \<noteq> 0x04 then at_state w (not_supported rsp rsp_cap)
        else do {
          (w, signature) \<leftarrow> reader_tags_type2_transceive R w (Some [0x3C, 0x00]) 2 32;
          if length signature < 32 then at_state w (not_supported rsp rsp_cap)
          else at_state w (reply_data rsp rsp_cap signature 32)
        }
      })"

definition get_data_auth0 ::
    "'c tag_radio \<Rightarrow> 'c \<times> tag_state \<Rightarrow> cptr \<Rightarrow> nat \<Rightarrow> (('c \<times> tag_state) \<times> nat \<times> cptr) option" where
  "get_data_auth0 R w rsp rsp_cap =
     (if ts_uid14_len (snd w) = 0 then at_state w (not_supported rsp rsp_cap)
      else do {
        maker \<leftarrow> rd (Some (ts_uid14 (snd w))) 0;
        if maker \<noteq> 0x04 \<or> rsp_cap < 3 then at_state w (not_supported rsp rsp_cap)
        else do {
          (w, version) \<leftarrow> reader_tags_type2_transceive R w (Some [0x60]) 1 8;
          if length version < 8 then at_state w (not_supported rsp rsp_cap)
          else do {
            type2 \<leftarrow> nfc_tag_type2_apply_version type2_zero (Some version) 8;
            if t2_max_user_page type2 = 0 then at_state w (not_supported rsp rsp_cap)
            else let (w, cfg) = reader_tags_ntag_read_page R w (u8n (t2_max_user_page type2 + 2)) in
              if length cfg < 4 then at_state w (not_supported rsp rsp_cap)
              else do {
                rsp \<leftarrow> wr rsp 0 (cfg ! 3);
                at_state w (reader_ccid_append_success_status rsp 1 rsp_cap)
              }
          }
        }
      })"

definition reader_ccid_get_data_type2 ::
    "tag_kind \<Rightarrow> 'c tag_radio \<Rightarrow> 'c \<times> tag_state \<Rightarrow> u8 \<Rightarrow> cptr \<Rightarrow> nat \<Rightarrow> (('c \<times> tag_state) \<times> nat \<times> cptr) option" where
  "reader_ccid_get_data_type2 kind R w p1 rsp rsp_cap =
     (if p1 = 0x04 then get_data_version kind R w rsp rsp_cap
      else if p1 = 0x05 then get_data_signature R w rsp rsp_cap
      else if p1 = 0x07 then do {
        (w, ok, type2) \<leftarrow> reader_tags_get_type2_storage_info R w;
        if \<not> ok \<or> \<not> t2_cc_valid type2 then at_state w (not_supported rsp rsp_cap)
        else at_state w (reply_data rsp rsp_cap (t2_cc type2) 4)
      }
      else if p1 = 0x08 then get_data_auth0 R w rsp rsp_cap
      else Some (w, 0, rsp))"

text \<open>System information and container of a Type 5 tag, container of a Type 4 tag.\<close>

type_synonym 'w type4_source = "'w \<Rightarrow> ('w \<times> type4_info option) option option"

definition reader_ccid_get_data_type45 ::
    "('c \<times> tag_state) type4_source \<Rightarrow> 'c tag_radio \<Rightarrow> 'c \<times> tag_state \<Rightarrow> u8 \<Rightarrow> cptr \<Rightarrow> nat \<Rightarrow>
      (('c \<times> tag_state) \<times> nat \<times> cptr) option option" where
  "reader_ccid_get_data_type45 get_type4 R w p1 rsp rsp_cap =
     (if p1 = 0x06 then do {
        (w, ok, type5) \<leftarrow> reader_tags_get_type5_info R w;
        r \<leftarrow> at_state w (if \<not> ok \<or> t5_raw_len type5 = 0 then not_supported rsp rsp_cap
          else reply_data rsp rsp_cap (t5_raw type5) (t5_raw_len type5));
        Some (Some r)
      }
      else if p1 = 0x09 then after (get_type4 w) (\<lambda>(w, info). do {
        r \<leftarrow> at_state w (case info of
            None \<Rightarrow> not_supported rsp rsp_cap
          | Some type4 \<Rightarrow> if \<not> t4_cc_valid type4 \<or> t4_cc_len type4 = 0 then not_supported rsp rsp_cap
              else reply_data rsp rsp_cap (t4_cc type4) (t4_cc_len type4));
        Some (Some r)
      })
      else if p1 = 0x0A then do {
        (w, ok, type5) \<leftarrow> reader_tags_get_type5_info R w;
        r \<leftarrow> at_state w (if \<not> ok \<or> \<not> t5_cc_valid type5 \<or> t5_cc_len type5 = 0 then not_supported rsp rsp_cap
          else reply_data rsp rsp_cap (t5_cc type5) (t5_cc_len type5));
        Some (Some r)
      }
      else Some (Some (w, 0, rsp)))"

definition reader_ccid_handle_get_data_apdu ::
    "tag_kind \<Rightarrow> ('c \<times> tag_state) type4_source \<Rightarrow> 'c tag_radio \<Rightarrow> 'c \<times> tag_state \<Rightarrow> cptr \<Rightarrow> nat \<Rightarrow> cptr \<Rightarrow> nat \<Rightarrow>
      (('c \<times> tag_state) \<times> nat \<times> cptr) option option" where
  "reader_ccid_handle_get_data_apdu kind get_type4 R w apdu apdu_len rsp rsp_cap =
     (if apdu = None \<or> rsp = None \<or> \<not> nfc_iso7816_apdu_min_len apdu_len 5 \<or> rsp_cap < 2 then Some (Some (w, 0, rsp))
      else if apdu_len \<noteq> 5 then map_option Some (at_state w (reader_ccid_append_status rsp 0 rsp_cap 0x67 0x00))
      else do {
        p2 \<leftarrow> nero_nfc_u8_at apdu apdu_len 3;
        if p2 \<noteq> 0 then map_option Some (at_state w (not_supported rsp rsp_cap))
        else do {
          p1 \<leftarrow> nero_nfc_u8_at apdu apdu_len 2;
          (response, rsp) \<leftarrow> reader_ccid_get_data_contactless kind (snd w) p1 rsp rsp_cap;
          if response \<noteq> 0 then Some (Some (w, response, rsp))
          else do {
            (w, response, rsp) \<leftarrow> reader_ccid_get_data_type2 kind R w p1 rsp rsp_cap;
            if response \<noteq> 0 then Some (Some (w, response, rsp))
            else after (reader_ccid_get_data_type45 get_type4 R w p1 rsp rsp_cap) (\<lambda>(w, response, rsp).
              if response \<noteq> 0 then Some (Some (w, response, rsp))
              else map_option Some (at_state w (not_supported rsp rsp_cap)))
          }
        }
      })"

section \<open>Spans\<close>

definition storage_type2_read_span_ok :: "type2_info \<Rightarrow> nat \<Rightarrow> nat \<Rightarrow> bool" where
  "storage_type2_read_span_ok type2 page len =
     (t2_cc_valid type2 \<and> nfc_storage_type2_read_span_ok (t2_data_area_size type2) page len)"

definition storage_type2_update_span_ok :: "type2_info \<Rightarrow> nat \<Rightarrow> nat \<Rightarrow> bool" where
  "storage_type2_update_span_ok type2 page len =
     (t2_cc_valid type2 \<and> t2_write_open type2 \<and> nfc_storage_type2_write_span_ok (t2_data_area_size type2) page len)"

definition storage_type5_read_span_ok :: "type5_info \<Rightarrow> nat \<Rightarrow> nat \<Rightarrow> bool" where
  "storage_type5_read_span_ok type5 block len =
     (t5_cc_valid type5 \<and>
      nfc_storage_type5_read_span_ok (reader_tags_type5_cc_byte_len type5) (t5_data_area_size type5)
        (if t5_block_size type5 = 0 then 4 else t5_block_size type5) (t5_block_count type5) block len)"

definition storage_type5_update_span_ok :: "type5_info \<Rightarrow> nat \<Rightarrow> nat \<Rightarrow> bool" where
  "storage_type5_update_span_ok type5 block len =
     (t5_cc_valid type5 \<and> t5_write_open type5 \<and>
      nfc_storage_type5_write_span_ok (reader_tags_type5_cc_byte_len type5) (t5_data_area_size type5)
        (if t5_block_size type5 = 0 then 4 else t5_block_size type5) (t5_block_count type5) block len)"

section \<open>Raw commands\<close>

fun uid_lsb_loop :: "cptr \<Rightarrow> bytes \<Rightarrow> nat \<Rightarrow> nat \<Rightarrow> bool option" where
  "uid_lsb_loop uid_lsb uid i 0 = Some True"
| "uid_lsb_loop uid_lsb uid i (Suc n) = do {
     a \<leftarrow> rd uid_lsb i;
     b \<leftarrow> rd (Some uid) (8 - 1 - i);
     if a \<noteq> b then Some False else uid_lsb_loop uid_lsb uid (i + 1) n
   }"

definition raw_type5_uid_lsb_matches_active :: "tag_state \<Rightarrow> cptr \<Rightarrow> bool option" where
  "raw_type5_uid_lsb_matches_active s uid_lsb =
     (if uid_lsb = None then Some False else uid_lsb_loop uid_lsb (ts_uid15 s) 0 8)"

definition raw_type5_addressed_uid_allowed :: "tag_state \<Rightarrow> cptr \<Rightarrow> nat \<Rightarrow> nat \<Rightarrow> bool option" where
  "raw_type5_addressed_uid_allowed s tx tx_len uid_offset =
     (if tx = None \<or> \<not> nero_nfc_span_ok uid_offset 8 tx_len then Some False
      else raw_type5_uid_lsb_matches_active s (ptr_add tx uid_offset))"

definition raw_type5_fixed_command_allowed :: "tag_state \<Rightarrow> cptr \<Rightarrow> nat \<Rightarrow> nat \<Rightarrow> bool option" where
  "raw_type5_fixed_command_allowed s tx tx_len base_len =
     (if tx = None \<or> tx_len < base_len then Some False
      else do {
        flags \<leftarrow> nero_nfc_u8_at tx tx_len 0;
        if flags AND 0x20 \<noteq> 0 then
          if tx_len \<noteq> base_len + 8 then Some False else raw_type5_addressed_uid_allowed s tx tx_len base_len
        else Some (tx_len = base_len)
      })"

definition raw_type5_block_payload_offset :: "tag_state \<Rightarrow> cptr \<Rightarrow> nat \<Rightarrow> nat option option" where
  "raw_type5_block_payload_offset s tx tx_len =
     (if tx = None \<or> tx_len < 2 then Some None
      else do {
        flags \<leftarrow> nero_nfc_u8_at tx tx_len 0;
        if flags AND 0x20 = 0 then Some (Some 2)
        else do {
          ok \<leftarrow> raw_type5_addressed_uid_allowed s tx tx_len 2;
          Some (if ok then Some 10 else None)
        }
      })"

definition raw_type5_read_span_allowed ::
    "'c tag_radio \<Rightarrow> 'c \<times> tag_state \<Rightarrow> nat \<Rightarrow> nat \<Rightarrow> (('c \<times> tag_state) \<times> bool) option" where
  "raw_type5_read_span_allowed R w block byte_len =
     (if byte_len = 0 then Some (w, False)
      else do {
        (w, ok, type5) \<leftarrow> reader_tags_get_type5_info R w;
        Some (w, ok \<and> t5_cc_valid type5 \<and> t5_read_open type5 \<and> storage_type5_read_span_ok type5 block byte_len)
      })"

text \<open>
  The block fields of a read command: the first block and the number of blocks, unless the command has
  another length or the count overflows.
\<close>

definition raw_type5_fields :: "cptr \<Rightarrow> nat \<Rightarrow> nat \<Rightarrow> bool \<Rightarrow> bool \<Rightarrow> (nat \<times> nat) option option" where
  "raw_type5_fields tx tx_len offset extended multiple =
     (let field_len = (if extended then (if multiple then 4 else 2) else (if multiple then 2 else 1)) in
      if \<not> nero_nfc_span_ok offset field_len tx_len \<or> tx_len \<noteq> offset + field_len then Some None
      else do {
        (ok, field) \<leftarrow> nero_nfc_copy_bytes (Some (replicate (if extended then 4 else 2) 0)) (if extended then 4 else 2) 0
          (ptr_add tx offset) field_len;
        if \<not> ok then Some None
        else if extended then do {
          b0 \<leftarrow> rd field 0;
          b1 \<leftarrow> rd field 1;
          c0 \<leftarrow> rd field 2;
          c1 \<leftarrow> rd field 3;
          Some (if \<not> multiple then Some (be16 b1 b0, 1)
            else if be16 c1 c0 = UINT16_MAX then None
            else Some (be16 b1 b0, be16 c1 c0 + 1))
        } else do {
          b0 \<leftarrow> rd field 0;
          c0 \<leftarrow> rd field 1;
          Some (Some (unat b0, if multiple then unat c0 + 1 else 1))
        }
      })"

definition raw_type5_read_command_allowed ::
    "'c tag_radio \<Rightarrow> 'c \<times> tag_state \<Rightarrow> cptr \<Rightarrow> nat \<Rightarrow> bool \<Rightarrow> bool \<Rightarrow> (('c \<times> tag_state) \<times> bool) option" where
  "raw_type5_read_command_allowed R w tx tx_len extended multiple = do {
     offset \<leftarrow> raw_type5_block_payload_offset (snd w) tx tx_len;
     case offset of
       None \<Rightarrow> Some (w, False)
     | Some off \<Rightarrow> do {
         fields \<leftarrow> raw_type5_fields tx tx_len off extended multiple;
         case fields of
           None \<Rightarrow> Some (w, False)
         | Some (block, count) \<Rightarrow>
             if multiple \<and> count > 31 then Some (w, False)
             else if count > UINT16_MAX div TYPE5_BLOCK_SIZE then Some (w, False)
             else raw_type5_read_span_allowed R w block (count * TYPE5_BLOCK_SIZE)
       }
   }"

definition reader_ccid_type2_raw_transceive_allowed ::
    "tag_kind \<Rightarrow> 'c tag_radio \<Rightarrow> 'c \<times> tag_state \<Rightarrow> cptr \<Rightarrow> nat \<Rightarrow> (('c \<times> tag_state) \<times> bool) option" where
  "reader_ccid_type2_raw_transceive_allowed kind R w tx tx_len =
     (if tx = None \<or> tx_len = 0 \<or> kind \<noteq> TAG_KIND_TYPE2 then Some (w, False)
      else do {
        cmd \<leftarrow> nero_nfc_u8_at tx tx_len 0;
        if cmd = 0x30 then
          if tx_len \<noteq> 2 then Some (w, False)
          else do {
            (w, ok, type2) \<leftarrow> reader_tags_get_type2_storage_info R w;
            if \<not> ok \<or> \<not> t2_cc_valid type2 \<or> \<not> t2_read_open type2 then Some (w, False)
            else do {
              page \<leftarrow> rd tx 1;
              Some (w, storage_type2_read_span_ok type2 (unat page) 16)
            }
          }
        else if cmd = 0x3A then do {
          first_page \<leftarrow> rd tx 1;
          last_page \<leftarrow> rd tx 2;
          if tx_len \<noteq> 3 \<or> last_page < first_page then Some (w, False)
          else do {
            (w, ok, type2) \<leftarrow> reader_tags_get_type2_storage_info R w;
            Some (w, ok \<and> t2_cc_valid type2 \<and> t2_read_open type2 \<and>
              storage_type2_read_span_ok type2 (unat first_page) ((unat last_page - unat first_page + 1) * 4))
          }
        }
        else Some (w, cmd = 0x60 \<and> tx_len = 1 \<or> cmd = 0x3C \<and> tx_len = 2)
      })"

definition reader_ccid_type5_raw_transceive_allowed ::
    "tag_kind \<Rightarrow> 'c tag_radio \<Rightarrow> 'c \<times> tag_state \<Rightarrow> cptr \<Rightarrow> nat \<Rightarrow> (('c \<times> tag_state) \<times> bool) option" where
  "reader_ccid_type5_raw_transceive_allowed kind R w tx tx_len =
     (if tx = None \<or> tx_len < 2 \<or> kind \<noteq> TAG_KIND_TYPE5 then Some (w, False)
      else do {
        cmd \<leftarrow> nero_nfc_u8_at tx tx_len 1;
        if cmd = 0x01 then Some (w, tx_len \<ge> 2)
        else if cmd = 0x20 then raw_type5_read_command_allowed R w tx tx_len False False
        else if cmd = 0x23 \<or> cmd = 0x2C then raw_type5_read_command_allowed R w tx tx_len False True
        else if cmd = 0x30 then raw_type5_read_command_allowed R w tx tx_len True False
        else if cmd = 0x33 \<or> cmd = 0x3C then raw_type5_read_command_allowed R w tx tx_len True True
        else if cmd = 0x2B then map_option (Pair w) (raw_type5_fixed_command_allowed (snd w) tx tx_len 2)
        else if cmd = 0x3B then map_option (Pair w) (raw_type5_fixed_command_allowed (snd w) tx tx_len 3)
        else Some (w, False)
      })"

definition reader_ccid_handle_escape_transparent_apdu ::
    "tag_kind \<Rightarrow> 'c tag_radio \<Rightarrow> 'c \<times> tag_state \<Rightarrow> cptr \<Rightarrow> nat \<Rightarrow> cptr \<Rightarrow> nat \<Rightarrow> (('c \<times> tag_state) \<times> nat \<times> cptr) option" where
  "reader_ccid_handle_escape_transparent_apdu kind R w apdu apdu_len rsp rsp_cap =
     (if apdu = None \<or> rsp = None \<or> \<not> nfc_iso7816_apdu_min_len apdu_len 5 \<or> rsp_cap < 2 then Some (w, 0, rsp)
      else do {
        cla \<leftarrow> nero_nfc_u8_at apdu apdu_len 0;
        ins \<leftarrow> nero_nfc_u8_at apdu apdu_len 1;
        if cla \<noteq> 0xFF \<or> ins \<noteq> 0xC2 \<or> kind \<noteq> TAG_KIND_TYPE5 then at_state w (reader_ccid_append_status rsp 0 rsp_cap 0x6D 0x00)
        else do {
          (ok, lc) \<leftarrow> nfc_iso7816_apdu_lc apdu apdu_len;
          if \<not> ok \<or> lc = 0 \<or> \<not> nfc_iso7816_apdu_lc_body_ok apdu_len lc then
            at_state w (reader_ccid_append_status rsp 0 rsp_cap 0x67 0x00)
          else let body = nfc_iso7816_apdu_data_ptr apdu apdu_len lc in
            if body = None then at_state w (reader_ccid_append_status rsp 0 rsp_cap 0x67 0x00)
            else do {
              (w, allowed) \<leftarrow> reader_ccid_type5_raw_transceive_allowed kind R w body (unat lc);
              if \<not> allowed then at_state w (reader_ccid_append_status rsp 0 rsp_cap 0x6D 0x00)
              else do {
                (w, rlen, rsp) \<leftarrow> reader_tags_type5_transceive R w body (unat lc) rsp (rsp_cap - 2);
                if rlen < 0 then at_state w (reader_ccid_append_status rsp 0 rsp_cap 0x63 0x00)
                else at_state w (reader_ccid_append_success_status rsp (u16n (nat rlen)) rsp_cap)
              }
            }
        }
      })"

section \<open>READ BINARY\<close>

text \<open>Results: whether the command is well formed, the unit or offset it names and the length field.\<close>

definition storage_read_binary_fields :: "tag_kind \<Rightarrow> cptr \<Rightarrow> nat \<Rightarrow> (bool \<times> nat \<times> u8) option" where
  "storage_read_binary_fields kind apdu apdu_len = do {
     (ok, offset, le) \<leftarrow> nfc_iso7816_apdu_read_binary apdu apdu_len;
     if \<not> ok then Some (False, offset, le)
     else if kind \<noteq> TAG_KIND_TYPE5 then Some (True, offset, le)
     else do {
       p1 \<leftarrow> nero_nfc_u8_at apdu apdu_len 2;
       p2 \<leftarrow> nero_nfc_u8_at apdu apdu_len 3;
       Some (if p1 = 0xFF then (True, unat p2, le)
         else if offset mod TYPE5_BLOCK_SIZE \<noteq> 0 then (False, offset, le)
         else (True, offset div TYPE5_BLOCK_SIZE, le))
     }
   }"

text \<open>How many bytes the tag has from the unit on.\<close>

definition storage_read_binary_remaining_bytes ::
    "tag_kind \<Rightarrow> 'c tag_radio \<Rightarrow> 'c \<times> tag_state \<Rightarrow> nat \<Rightarrow> (('c \<times> tag_state) \<times> nat) option" where
  "storage_read_binary_remaining_bytes kind R w offset =
     (if kind = TAG_KIND_TYPE2 then do {
        (w, ok, type2) \<leftarrow> reader_tags_get_type2_storage_info R w;
        Some (w, if \<not> ok \<or> \<not> t2_cc_valid type2 \<or> \<not> t2_read_open type2 then 0
          else if offset < 3 then 0
          else case nero_nfc_try_add_u16 4 (t2_data_area_size type2) of
            None \<Rightarrow> 0
          | Some size_all \<Rightarrow>
              if offset - 3 > UINT16_MAX div 4 then 0
              else if (offset - 3) * 4 \<ge> size_all then 0 else size_all - (offset - 3) * 4)
      }
      else if kind = TAG_KIND_TYPE5 then do {
        (w, ok, type5) \<leftarrow> reader_tags_get_type5_info R w;
        Some (w, if \<not> ok \<or> \<not> t5_cc_valid type5 \<or> \<not> t5_read_open type5 then 0
          else let cc_bytes = reader_tags_type5_cc_byte_len type5 in
            if cc_bytes = 0 then 0
            else case nero_nfc_try_add_u16 cc_bytes (t5_data_area_size type5) of
              None \<Rightarrow> 0
            | Some size_all \<Rightarrow>
                if offset > UINT16_MAX div 4 then 0
                else if offset * 4 \<ge> size_all then 0 else size_all - offset * 4)
      }
      else Some (w, 0))"

text \<open>
  The part of the handler for a kind of tag: the checks against its information and the read. The
  read leaves a negative length when the tag does not answer.
\<close>

definition read_binary_answer ::
    "'c \<times> tag_state \<Rightarrow> int \<Rightarrow> cptr \<Rightarrow> nat \<Rightarrow> (('c \<times> tag_state) \<times> nat \<times> cptr) option" where
  "read_binary_answer w rlen rsp rsp_cap =
     (if rlen < 0 then at_state w (reader_ccid_append_status rsp 0 rsp_cap 0x63 0x00)
      else at_state w (reader_ccid_append_success_status rsp (u16n (nat rlen)) rsp_cap))"

definition read_binary_type2 ::
    "'c tag_radio \<Rightarrow> 'c \<times> tag_state \<Rightarrow> nat \<Rightarrow> nat \<Rightarrow> cptr \<Rightarrow> nat \<Rightarrow> (('c \<times> tag_state) \<times> nat \<times> cptr) option" where
  "read_binary_type2 R w offset req_len rsp rsp_cap = do {
     (w, ok, type2) \<leftarrow> reader_tags_get_type2_storage_info R w;
     if \<not> ok \<or> \<not> t2_cc_valid type2 then at_state w (not_supported rsp rsp_cap)
     else if \<not> t2_read_open type2 then at_state w (reader_ccid_append_status rsp 0 rsp_cap 0x69 0x85)
     else if \<not> storage_type2_read_span_ok type2 offset req_len then
       at_state w (reader_ccid_append_status rsp 0 rsp_cap 0x6B 0x00)
     else do {
       (w, rlen, rsp) \<leftarrow> reader_tags_type2_read_binary R w offset rsp req_len;
       read_binary_answer w rlen rsp rsp_cap
     }
   }"

definition read_binary_type5 ::
    "'c tag_radio \<Rightarrow> 'c \<times> tag_state \<Rightarrow> nat \<Rightarrow> nat \<Rightarrow> cptr \<Rightarrow> nat \<Rightarrow> (('c \<times> tag_state) \<times> nat \<times> cptr) option" where
  "read_binary_type5 R w offset req_len rsp rsp_cap = do {
     (w, ok, type5) \<leftarrow> reader_tags_get_type5_info R w;
     if \<not> ok \<or> \<not> t5_cc_valid type5 then at_state w (not_supported rsp rsp_cap)
     else if \<not> t5_read_open type5 then at_state w (reader_ccid_append_status rsp 0 rsp_cap 0x69 0x85)
     else if \<not> storage_type5_read_span_ok type5 offset req_len then
       at_state w (reader_ccid_append_status rsp 0 rsp_cap 0x6B 0x00)
     else do {
       (w, rlen, rsp) \<leftarrow> reader_tags_type5_read_binary R w offset rsp req_len;
       read_binary_answer w rlen rsp rsp_cap
     }
   }"

definition reader_ccid_handle_read_binary_apdu ::
    "tag_kind \<Rightarrow> 'c tag_radio \<Rightarrow> 'c \<times> tag_state \<Rightarrow> cptr \<Rightarrow> nat \<Rightarrow> cptr \<Rightarrow> nat \<Rightarrow> (('c \<times> tag_state) \<times> nat \<times> cptr) option" where
  "reader_ccid_handle_read_binary_apdu kind R w apdu apdu_len rsp rsp_cap =
     (if apdu = None \<or> rsp = None \<or> rsp_cap < 2 then Some (w, 0, rsp)
      else do {
        (ok, offset, le) \<leftarrow> storage_read_binary_fields kind apdu apdu_len;
        if \<not> ok then at_state w (reader_ccid_append_status rsp 0 rsp_cap 0x67 0x00)
        else do {
          (w, req_len) \<leftarrow> (if le = 0 then do {
              (w, remaining) \<leftarrow> storage_read_binary_remaining_bytes kind R w offset;
              Some (w, min (if remaining \<noteq> 0 then remaining else 256) 256)
            } else Some (w, unat le));
          let req_len = (case nero_nfc_try_add_size req_len 2 of
              None \<Rightarrow> rsp_cap - 2
            | Some rsp_need \<Rightarrow> if rsp_need > rsp_cap then rsp_cap - 2 else req_len);
          case kind of
            TAG_KIND_TYPE2 \<Rightarrow> read_binary_type2 R w offset req_len rsp rsp_cap
          | TAG_KIND_TYPE5 \<Rightarrow> read_binary_type5 R w offset req_len rsp rsp_cap
          | _ \<Rightarrow> at_state w (not_supported rsp rsp_cap)
        }
      })"

section \<open>UPDATE BINARY\<close>

definition storage_update_binary_offset :: "tag_kind \<Rightarrow> cptr \<Rightarrow> nat \<Rightarrow> nat \<Rightarrow> (bool \<times> nat) option" where
  "storage_update_binary_offset kind apdu apdu_len parsed_offset =
     (if apdu = None \<or> kind \<noteq> TAG_KIND_TYPE5 \<or> apdu_len \<le> 3 then Some (True, parsed_offset)
      else do {
        p1 \<leftarrow> nero_nfc_u8_at apdu apdu_len 2;
        p2 \<leftarrow> nero_nfc_u8_at apdu apdu_len 3;
        Some (if p1 = 0xFF \<and> nfc_iso7816_apdu_min_len apdu_len 4 then (True, unat p2)
          else if parsed_offset mod TYPE5_BLOCK_SIZE \<noteq> 0 then (False, parsed_offset)
          else (True, parsed_offset div TYPE5_BLOCK_SIZE))
      })"

text \<open>
  The loop over the units of the data. Its counter is a \<open>uint8_t\<close>: where it wraps around, for lengths
  over 252, the loop would start again; this is \<open>None\<close>.
\<close>

function update_units ::
    "('c \<Rightarrow> 'c \<times> bool) \<Rightarrow> ('c \<times> tag_state \<Rightarrow> nat \<Rightarrow> cptr \<Rightarrow> (('c \<times> tag_state) \<times> bool) option) \<Rightarrow>
      'c \<times> tag_state \<Rightarrow> nat \<Rightarrow> nat \<Rightarrow> cptr \<Rightarrow> nat \<Rightarrow> (('c \<times> tag_state) \<times> bool) option" where
  "update_units aborted put w offset lc data off =
     (if off < lc then
        (case aborted (fst w) of (c, stop) \<Rightarrow>
           if stop then Some ((c, snd w), False)
           else (case put (c, snd w) (u16n (offset + off div 4)) (ptr_add data off) of
                   None \<Rightarrow> None
                 | Some (w, ok) \<Rightarrow>
                     if \<not> ok then Some (w, False)
                     else if off + 4 > 255 then None
                     else update_units aborted put w offset lc data (off + 4)))
      else Some (w, True))"
  by pat_completeness auto
termination
  by (relation "measure (\<lambda>(aborted, put, w, offset, lc, data, off). lc - off)") auto

declare update_units.simps [simp del]

text \<open>One unit of each loop.\<close>

definition put_page :: "'c tag_radio \<Rightarrow> 'c \<times> tag_state \<Rightarrow> nat \<Rightarrow> cptr \<Rightarrow> (('c \<times> tag_state) \<times> bool) option" where
  "put_page R w page data = (if page > 255 then Some (w, False) else reader_tags_type2_write_page R w page data)"

definition put_block :: "'c tag_radio \<Rightarrow> 'c \<times> tag_state \<Rightarrow> nat \<Rightarrow> cptr \<Rightarrow> (('c \<times> tag_state) \<times> bool) option" where
  "put_block R w block data = reader_tags_type5_write_block R w block data 4"

definition update_answer :: "'c \<times> tag_state \<Rightarrow> bool \<Rightarrow> cptr \<Rightarrow> nat \<Rightarrow> (('c \<times> tag_state) \<times> nat \<times> cptr) option" where
  "update_answer w ok rsp rsp_cap = at_state w (reader_ccid_append_status rsp 0 rsp_cap (if ok then 0x90 else 0x63) 0x00)"

definition update_binary_type2 ::
    "('c \<Rightarrow> 'c \<times> bool) \<Rightarrow> 'c tag_radio \<Rightarrow> 'c \<times> tag_state \<Rightarrow> nat \<Rightarrow> nat \<Rightarrow> cptr \<Rightarrow> cptr \<Rightarrow> nat \<Rightarrow>
      (('c \<times> tag_state) \<times> nat \<times> cptr) option" where
  "update_binary_type2 aborted R w offset lc data rsp rsp_cap = do {
     (w, ok, type2) \<leftarrow> reader_tags_get_type2_storage_info R w;
     if \<not> ok \<or> \<not> t2_cc_valid type2 then at_state w (not_supported rsp rsp_cap)
     else if \<not> t2_write_open type2 then at_state w (reader_ccid_append_status rsp 0 rsp_cap 0x69 0x85)
     else if \<not> storage_type2_update_span_ok type2 offset lc then
       at_state w (reader_ccid_append_status rsp 0 rsp_cap 0x6B 0x00)
     else do {
       (w, ok) \<leftarrow> update_units aborted (put_page R) w offset lc data 0;
       update_answer w ok rsp rsp_cap
     }
   }"

text \<open>A new capability container is checked before it is written.\<close>

definition update_cc ::
    "('c \<Rightarrow> 'c \<times> bool) \<Rightarrow> 'c tag_radio \<Rightarrow> 'c \<times> tag_state \<Rightarrow> nat \<Rightarrow> cptr \<Rightarrow> cptr \<Rightarrow> nat \<Rightarrow>
      (('c \<times> tag_state) \<times> nat \<times> cptr) option" where
  "update_cc aborted R w lc data rsp rsp_cap = do {
     new_cc \<leftarrow> nfc_tag_type5_apply_cc type5_zero data lc;
     if \<not> t5_cc_valid new_cc then at_state w (reader_ccid_append_status rsp 0 rsp_cap 0x6A 0x00)
     else let (c, stop) = aborted (fst w); w = (c, snd w) in
       if stop then update_answer w False rsp rsp_cap
       else do {
         (w, ok) \<leftarrow> reader_tags_type5_write_block R w 0 data lc;
         update_answer w ok rsp rsp_cap
       }
   }"

definition update_binary_type5 ::
    "('c \<Rightarrow> 'c \<times> bool) \<Rightarrow> 'c tag_radio \<Rightarrow> 'c \<times> tag_state \<Rightarrow> nat \<Rightarrow> nat \<Rightarrow> cptr \<Rightarrow> cptr \<Rightarrow> nat \<Rightarrow>
      (('c \<times> tag_state) \<times> nat \<times> cptr) option" where
  "update_binary_type5 aborted R w offset lc data rsp rsp_cap = do {
     (w, ok, type5) \<leftarrow> reader_tags_get_type5_info R w;
     if \<not> ok \<or> \<not> t5_cc_valid type5 then at_state w (not_supported rsp rsp_cap)
     else if \<not> t5_write_open type5 then at_state w (reader_ccid_append_status rsp 0 rsp_cap 0x69 0x85)
     else if offset = 0 \<and> lc = 4 then update_cc aborted R w lc data rsp rsp_cap
     else if \<not> storage_type5_update_span_ok type5 offset lc then
       at_state w (reader_ccid_append_status rsp 0 rsp_cap 0x6B 0x00)
     else do {
       (w, ok) \<leftarrow> update_units aborted (put_block R) w offset lc data 0;
       update_answer w ok rsp rsp_cap
     }
   }"

definition reader_ccid_handle_update_binary_apdu ::
    "tag_kind \<Rightarrow> ('c \<Rightarrow> 'c \<times> bool) \<Rightarrow> 'c tag_radio \<Rightarrow> 'c \<times> tag_state \<Rightarrow> cptr \<Rightarrow> nat \<Rightarrow> cptr \<Rightarrow> nat \<Rightarrow>
      (('c \<times> tag_state) \<times> nat \<times> cptr) option" where
  "reader_ccid_handle_update_binary_apdu kind aborted R w apdu apdu_len rsp rsp_cap =
     (if apdu = None \<or> rsp = None \<or> rsp_cap < 2 then Some (w, 0, rsp)
      else do {
        (ok, offset, lc, data) \<leftarrow> nfc_iso7816_apdu_update_binary apdu apdu_len;
        if \<not> ok then at_state w (reader_ccid_append_status rsp 0 rsp_cap 0x67 0x00)
        else do {
          (ok, offset) \<leftarrow> storage_update_binary_offset kind apdu apdu_len offset;
          if \<not> ok then at_state w (reader_ccid_append_status rsp 0 rsp_cap 0x6B 0x00)
          else if kind = TAG_KIND_TYPE2 \<and> offset > 255 then at_state w (reader_ccid_append_status rsp 0 rsp_cap 0x6B 0x00)
          else (case kind of
            TAG_KIND_TYPE2 \<Rightarrow> update_binary_type2 aborted R w offset (unat lc) data rsp rsp_cap
          | TAG_KIND_TYPE5 \<Rightarrow> update_binary_type5 aborted R w offset (unat lc) data rsp rsp_cap
          | _ \<Rightarrow> at_state w (not_supported rsp rsp_cap))
        }
      })"

end
