(* ===== verification/CcidStorageSafe.thy ===== *)
theory CcidStorageSafe
  imports CcidStorage TagType2Safe TagType5Safe TagType4Safe
begin

text \<open>
  The storage-card commands of the CCID reader with any card: commands are answered inside the
  response buffer with a status word, data come with 90 00 only, and nothing faults. Which commands
  get no answer, and the one that need not come back, is part of the property at the end.
\<close>

section \<open>Responses\<close>

definition reply_ok :: "nat \<Rightarrow> nat \<Rightarrow> nat \<times> cptr \<Rightarrow> bool" where
  "reply_ok m cap = (\<lambda>(k, p). \<exists>b. p = Some b \<and> length b = m \<and>
     (k = 0 \<or> 2 \<le> k \<and> k \<le> cap \<and> (k = 2 \<or> b ! (k - 2) = 0x90 \<and> b ! (k - 1) = 0x00)))"

text \<open>An answer that is never empty.\<close>

definition sw_answer :: "nat \<Rightarrow> nat \<Rightarrow> nat \<times> cptr \<Rightarrow> bool" where
  "sw_answer m cap r \<longleftrightarrow> reply_ok m cap r \<and> fst r \<noteq> 0"

lemma sw_answer_reply [simp]: "sw_answer m cap r \<Longrightarrow> reply_ok m cap r"
  by (simp add: sw_answer_def)

text \<open>A capacity for which a status word fits the buffer.\<close>

definition fits :: "nat \<Rightarrow> nat \<Rightarrow> bool" where
  "fits m cap \<longleftrightarrow> 2 \<le> cap \<and> cap \<le> m \<and> m < 65536"

lemma status_answers:
  assumes cap: "fits m cap" and "length b = m"
  shows "yields (reader_ccid_append_status (Some b) 0 cap s1 s2) (sw_answer m cap)"
  using append_sw_eq [of cap b 0 s1 s2] assms
  by (auto simp: fits_def reader_ccid_append_status_def sw_answer_def reply_ok_def)

lemma success_replies:
  assumes cap: "fits m cap" and b: "length b = m"
  shows "yields (reader_ccid_append_success_status (Some b) n cap) (\<lambda>r. reply_ok m cap r \<and> (n + 2 \<le> cap \<longrightarrow> fst r \<noteq> 0))"
proof -
  have "b' ! n = 0x90 \<and> b' ! Suc n = 0x00" if "b' = patch b n [0x90, 0x00]" "n + 2 \<le> m" for b'
    using that b by (simp add: nth_patch)
  then show ?thesis using append_sw_eq [of cap b n "0x90" 0] assms
    by (auto simp: fits_def reader_ccid_append_success_status_def reader_ccid_append_status_def reply_ok_def)
qed

lemma unsupported_answers: "fits m cap \<Longrightarrow> length b = m \<Longrightarrow> yields (not_supported (Some b) cap) (sw_answer m cap)"
  unfolding not_supported_def by (rule status_answers)

lemma data_replies:
  assumes cap: "fits m cap" and b: "length b = m" "n \<le> length src"
  shows "yields (reply_data (Some b) cap src n) (reply_ok m cap)"
proof (cases "n \<le> cap")
  case True
  have "length (patch b 0 (take n src)) = m" using assms True by (simp add: fits_def)
  then show ?thesis using True assms yields_mono [OF success_replies [OF cap, of "patch b 0 (take n src)" n]]
    by (simp add: reply_data_def fits_def)
next
  case False
  have "yields (reader_ccid_apdu_failure_response (Some b) cap) (reply_ok m cap)"
    unfolding reader_ccid_apdu_failure_response_def by (rule yields_mono [OF status_answers [OF cap b(1)]]) simp
  then show ?thesis using False by (simp add: reply_data_def)
qed

lemma at_state_returns: "tag_state_ok (snd w) \<Longrightarrow> yields r P \<Longrightarrow> returns (at_state w r) P"
  by (cases w) (auto simp: at_state_def returns_def yields_def)

text \<open>The rules for results with a state and an answer.\<close>

lemma status_returns:
  assumes "tag_state_ok (snd w)" "fits m cap" "length b = m"
  shows "returns (at_state w (reader_ccid_append_status (Some b) 0 cap s1 s2)) (sw_answer m cap)"
    "returns (at_state w (not_supported (Some b) cap)) (sw_answer m cap)"
  using at_state_returns [OF assms(1)] status_answers [OF assms(2,3)] unsupported_answers [OF assms(2,3)] by blast+

lemma returns_if: "(b \<Longrightarrow> returns x P) \<Longrightarrow> (\<not> b \<Longrightarrow> returns y P) \<Longrightarrow> returns (if b then x else y) P"
  by simp

lemma returns_yields: "yields m P \<Longrightarrow> (\<And>x. P x \<Longrightarrow> returns (f x) Q) \<Longrightarrow> returns (m \<bind> f) Q"
  by (auto simp: yields_def)

lemma returns_answered: "returns m (sw_answer n cap) \<Longrightarrow> returns m (reply_ok n cap)"
  by (erule returns_mono) simp

section \<open>GET DATA\<close>

lemma typea_yields:
  assumes "tag_state_ok s"
  shows "yields (reader_tags_get_typea_info s) (\<lambda>(known, info). known \<longrightarrow> length (ta_uid info) = 10 \<and> ta_uid_len info \<le> 10 \<and>
    length (ta_ats info) = 64 \<and> ta_ats_len info \<le> 64)"
  using assms by (auto simp: reader_tags_get_typea_info_def tag_state_ok_def Let_def)

lemma contactless_yields:
  assumes s: "tag_state_ok s" and cap: "fits m cap" and b: "length b = m"
  shows "yields (reader_ccid_get_data_contactless kind s p1 (Some b) cap) (reply_ok m cap)"
proof -
  have m: "0 < m" "1 < m" "cap \<le> m" "2 \<le> cap" "cap < 65536" using cap by (simp_all add: fits_def)
  have no: "yields (not_supported (Some b) cap) (reply_ok m cap)"
    by (rule yields_mono [OF unsupported_answers [OF cap b]]) simp
  have ok: "yields (reader_ccid_append_success_status (Some b') n cap) (reply_ok m cap)" if "length b' = m" for b' n
    using yields_mono [OF success_replies [OF cap that]] by blast
  have uid: "length (ts_uid15 s) = 8" using s by (simp add: tag_state_ok_def)
  obtain known info where t: "reader_tags_get_typea_info s = Some (known, info)"
    "known \<longrightarrow> length (ta_uid info) = 10 \<and> ta_uid_len info \<le> 10 \<and> length (ta_ats info) = 64 \<and> ta_ats_len info \<le> 64"
    using typea_yields [OF s] by (auto simp: yields_def)
  have copy: "yields ((if known then nero_nfc_copy_bytes (Some b) cap 0 (Some (ta_uid info)) (ta_uid_len info) else Some (False, Some b))
      \<bind> (\<lambda>(ok, rsp). if \<not> ok then not_supported rsp cap else reader_ccid_append_success_status rsp (ta_uid_len info) cap)) (reply_ok m cap)"
  proof (cases "known \<and> ta_uid_len info \<le> cap")
    case True
    then show ?thesis using t ok [of "patch b 0 (take (ta_uid_len info) (ta_uid info))"] b m by simp
  next
    case False
    then show ?thesis using no by (cases known) auto
  qed
  show ?thesis
    unfolding reader_ccid_get_data_contactless_def t(1) Option.bind.bind_lunit prod.case
    using no ok copy data_replies [OF cap b, of 8 "ts_uid15 s"] data_replies [OF cap b, of "ta_ats_len info" "ta_ats info"] uid t(2) b m
    by (auto simp: reply_ok_def)
qed

lemma storage_info_sizes:
  assumes "reader_tags_get_type2_storage_info R w = Some (w', ok, info)"
  shows "length (t2_cc info) = 4 \<and> length (t2_version info) = 8"
proof -
  have z: "length (t2_cc type2_zero) = 4" "length (t2_version type2_zero) = 8" by (simp_all add: type2_zero_def)
  have cc: "length (t2_cc i) = 4 \<and> length (t2_version i) = 8"
    if "nfc_tag_type2_apply_cc type2_zero (Some p) 4 = Some i" "4 \<le> length p" for i p
    using that by (auto simp: nfc_tag_type2_apply_cc_def nfc_tag_type2_clear_cc_info_def type2_zero_def Let_def split: if_splits)
  have hint: "length (t2_cc i') = length (t2_cc i) \<and> length (t2_version i') = length (t2_version i)"
    if "st25tn_hint t i = Some i'" for t i i'
    using that by (auto simp: st25tn_hint_def nfc_tag_type2_apply_family_hint_def Let_def bind_eq_Some_conv split: if_splits)
  show ?thesis using assms z cc hint
    by (fastforce simp: reader_tags_get_type2_storage_info_def bind_eq_Some_conv split: if_splits prod.splits)
qed

lemma apply_version_total:
  assumes "length (t2_version info) = 8" "8 \<le> length v"
  shows "yields (nfc_tag_type2_apply_version info (Some v) 8) (\<lambda>_. True)"
  using assms by (auto simp: nfc_tag_type2_apply_version_def yields_def Let_def)

context bounded_radio
begin

lemma type2_transceive_returns:
  assumes "tag_state_ok (snd w)" "n \<le> length tx" "n < 65536"
  shows "returns (reader_tags_type2_transceive R w (Some tx) n k) (\<lambda>rx. length rx \<le> k)"
proof -
  obtain w' rx where x: "reader_protocol_transceive14 R w (take n tx) k True 20 False False = (w', rx)" by fastforce
  then have "snd w' = snd w" "length rx \<le> k"
    using transceive14_same [of R w "take n tx" k] transceive14_bound [of w "take n tx" k True 20 False False] by auto
  moreover obtain op where "nero_nfc_u8_at (Some tx) n 0 = Some op"
    using assms by (cases "n = 0") auto
  moreover obtain w2 ok where "reader_protocol_activate_iso14443a R w' = Some (w2, ok)" "tag_state_ok (snd w2)"
    using activate_returns [of w'] assms(1) \<open>snd w' = snd w\<close> by (auto simp: returns_def)
  ultimately show ?thesis using assms x by (cases "n = 0 \<or> k = 0") (auto simp: reader_tags_type2_transceive_def)
qed

lemma storage_info_answers:
  assumes "tag_state_ok (snd w)"
    and "\<And>w' ok info. tag_state_ok (snd w') \<Longrightarrow> length (t2_cc info) = 4 \<Longrightarrow> length (t2_version info) = 8 \<Longrightarrow>
      t2_data_area_size info \<le> 2040 \<or> \<not> t2_cc_valid info \<Longrightarrow> returns (f (w', ok, info)) Q"
  shows "returns (reader_tags_get_type2_storage_info R w \<bind> f) Q"
proof -
  obtain w' ok info where i: "reader_tags_get_type2_storage_info R w = Some (w', ok, info)" "tag_state_ok (snd w')"
    "t2_data_area_size info \<le> 2040 \<or> \<not> t2_cc_valid info"
    using storage_info_returns [OF assms(1), of R] by (auto simp: returns_def)
  show ?thesis using assms(2) [OF i(2) _ _ i(3)] storage_info_sizes [OF i(1)] i(1) by simp
qed

lemma version_returns:
  assumes w: "tag_state_ok (snd w)" and cap: "fits m cap" and b: "length b = m"
  shows "returns (get_data_version kind R w (Some b) cap) (reply_ok m cap)"
proof -
  note no = returns_answered [OF status_returns(2) [OF _ cap b]]
  show ?thesis unfolding get_data_version_def
  proof (rule returns_if, rule no [OF w], rule storage_info_answers [OF w], unfold prod.case, rule returns_if, erule no, goal_cases)
    case (1 w1 ok info)
    show ?case
    proof (rule returns_bind [OF type2_transceive_returns [of w1 1 "[0x60]" 8]], use 1 in simp, simp, simp, unfold prod.case,
        rule returns_if, erule no, goal_cases)
      case (1 w2 v)
      have v: "8 \<le> length v" using 1 by simp
      show ?case
        by (rule returns_yields [OF apply_version_total [OF _ v]], fact, rule returns_if, rule no [OF 1(1)])
          (use 1 v in \<open>intro at_state_returns data_replies [OF cap b], simp_all\<close>)
    qed
  qed
qed

lemma signature_returns:
  assumes w: "tag_state_ok (snd w)" and cap: "fits m cap" and b: "length b = m"
  shows "returns (get_data_signature R w (Some b) cap) (reply_ok m cap)"
proof -
  note no = returns_answered [OF status_returns(2) [OF _ cap b]]
  have u: "yields (rd (Some (ts_uid14 (snd w))) 0) (\<lambda>_. True)" using w by (simp add: tag_state_ok_def)
  show ?thesis unfolding get_data_signature_def
  proof (rule returns_if, rule no [OF w], rule returns_yields [OF u], rule returns_if, rule no [OF w],
      rule returns_bind [OF type2_transceive_returns [OF w]], simp, simp, unfold prod.case, rule returns_if, erule no, goal_cases)
    case (1 maker w2 v)
    then show ?case by (intro at_state_returns data_replies [OF cap b]) simp_all
  qed
qed

lemma auth0_returns:
  assumes w: "tag_state_ok (snd w)" and cap: "fits m cap" and b: "length b = m"
  shows "returns (get_data_auth0 R w (Some b) cap) (reply_ok m cap)"
proof -
  note no = returns_answered [OF status_returns(2) [OF _ cap b]]
  have u: "yields (rd (Some (ts_uid14 (snd w))) 0) (\<lambda>_. True)" using w by (simp add: tag_state_ok_def)
  have z: "length (t2_version type2_zero) = 8" by (simp add: type2_zero_def)
  show ?thesis unfolding get_data_auth0_def
  proof (rule returns_if, rule no [OF w], rule returns_yields [OF u], rule returns_if, rule no [OF w],
      rule returns_bind [OF type2_transceive_returns [OF w]], simp, simp, unfold prod.case, rule returns_if, erule no, goal_cases)
    case (1 maker w2 v)
    have v: "8 \<le> length v" using 1 by simp
    show ?case
    proof (rule returns_yields [OF apply_version_total [OF z v]], rule returns_if,
        rule no [OF \<open>tag_state_ok (snd w2)\<close>], goal_cases)
      case (1 type2)
      obtain w3 cfg where c: "reader_tags_ntag_read_page R w2 (u8n (t2_max_user_page type2 + 2)) = (w3, cfg)" by fastforce
      have w3: "tag_state_ok (snd w3)" using read_page_same [OF c] \<open>tag_state_ok (snd w2)\<close> by simp
      have wr: "wr (Some b) 0 x = Some (Some (b[0 := x]))" for x using cap b by (auto simp: fits_def wr_def)
      show ?case unfolding c Let_def prod.case wr Option.bind.bind_lunit
        by (rule returns_if, rule no [OF w3], rule at_state_returns [OF w3])
          (use yields_mono [OF success_replies [OF cap]] b in simp)
    qed
  qed
qed

lemma get_data_type2_returns:
  assumes w: "tag_state_ok (snd w)" and cap: "fits m cap" and b: "length b = m"
  shows "returns (reader_ccid_get_data_type2 kind R w p1 (Some b) cap) (reply_ok m cap)"
proof -
  note no = returns_answered [OF status_returns(2) [OF _ cap b]]
  show ?thesis unfolding reader_ccid_get_data_type2_def
  proof (intro returns_if)
    show "returns (do {
        (w, ok, type2) \<leftarrow> reader_tags_get_type2_storage_info R w;
        if \<not> ok \<or> \<not> t2_cc_valid type2 then at_state w (not_supported (Some b) cap)
        else at_state w (reply_data (Some b) cap (t2_cc type2) 4) }) (reply_ok m cap)"
      by (rule storage_info_answers [OF w], unfold prod.case, rule returns_if, erule no)
        (intro at_state_returns data_replies [OF cap b], simp_all)
  qed (use assms version_returns signature_returns auth0_returns in \<open>simp_all add: reply_ok_def\<close>)
qed

text \<open>The answer to a read of at most \<open>cap - 2\<close> bytes.\<close>

lemma read_answer_returns:
  assumes "tag_state_ok (snd w)" "fits m cap" "buffer_of m (cap - 2) (r, p)"
  shows "returns (read_binary_answer w r p cap) (sw_answer m cap)"
proof -
  obtain b where b: "p = Some b" "length b = m" "r = -1 \<or> 0 \<le> r \<and> r \<le> int (cap - 2)" using assms(3) by (auto simp: buffer_of_def)
  have n: "u16n (nat r) = nat r" "nat r + 2 \<le> cap" if "0 \<le> r" using that b(3) assms(2) by (auto simp: fits_def)
  show ?thesis unfolding read_binary_answer_def b(1)
  proof (rule returns_if, rule status_returns(1) [OF assms(1,2) b(2)], rule at_state_returns [OF assms(1)])
    assume "\<not> r < 0"
    then show "yields (reader_ccid_append_success_status (Some b) (u16n (nat r)) cap) (sw_answer m cap)"
      using n by (auto simp: sw_answer_def intro!: yields_mono [OF success_replies [OF assms(2) b(2)]])
  qed
qed

lemma read_type2_returns:
  assumes w: "tag_state_ok (snd w)" and cap: "fits m cap" and b: "length b = m" and n: "n \<le> cap - 2"
  shows "returns (read_binary_type2 R w offset n (Some b) cap) (sw_answer m cap)"
  unfolding read_binary_type2_def
proof (rule storage_info_answers [OF w], unfold prod.case, intro returns_if, goal_cases)
  case (4 w' ok info)
  have "n \<le> length b" "length b < 65536" using n cap b unfolding fits_def by linarith+
  then show ?case
  proof (rule returns_bind [OF read_binary_returns [OF 4(1)]], goal_cases)
    case (1 w2 a)
    obtain r p where a: "a = (r, p)" by fastforce
    have "buffer_of m (cap - 2) (r, p)" using 1 n b by (auto simp: a buffer_of_def)
    then show ?case unfolding a prod.case by (rule read_answer_returns [OF 1(1) cap])
  qed
qed (use cap b in \<open>auto intro: status_returns\<close>)

end

lemma type5_info_answers:
  assumes "tag_state_ok (snd w)"
    and "\<And>w' info. tag_state_ok (snd w') \<Longrightarrow> type5_info_ok info \<Longrightarrow> returns (f (w', True, info)) Q"
  shows "returns (reader_tags_get_type5_info R w \<bind> f) Q"
proof -
  obtain w' info where i: "reader_tags_get_type5_info R w = Some (w', True, info)" "snd w' = snd w" "type5_info_ok info"
    using type5_info_returns [OF assms(1), of R] by blast
  then show ?thesis using assms(2) [of w' info] assms(1) by simp
qed

lemma type5_read_binary_returns:
  fixes R :: "'c tag_radio"
  assumes R: "bounded_radio R" and w: "tag_state_ok (snd w)" and cap: "fits m cap" and b: "length b = m" and n: "n \<le> cap - 2"
  shows "returns (read_binary_type5 R w offset n (Some b) cap) (sw_answer m cap)"
  unfolding read_binary_type5_def
proof (rule type5_info_answers [OF w], unfold prod.case, intro returns_if, goal_cases)
  case (4 w' info)
  have "n \<le> length b" "length b < 65536" using n cap b unfolding fits_def by linarith+
  then show ?case
  proof (rule returns_bind [OF type5_read_returns [OF 4(1)]], goal_cases)
    case (1 w2 a)
    obtain r p where a: "a = (r, p)" by fastforce
    have "buffer_of m (cap - 2) (r, p)" using 1 n b by (auto simp: a buffer_of_def)
    then show ?case unfolding a prod.case by (rule bounded_radio.read_answer_returns [OF R 1(1) cap])
  qed
qed (use cap b in \<open>auto intro: status_returns\<close>)

section \<open>READ BINARY\<close>

lemma read_fields_yield:
  assumes "n \<le> length a" "n < 65536"
  shows "yields (storage_read_binary_fields kind (Some a) n) (\<lambda>_. True)"
  using assms by (auto simp: storage_read_binary_fields_def nfc_iso7816_apdu_read_binary_def)

lemma remaining_returns:
  fixes R :: "'c tag_radio"
  assumes "bounded_radio R" "tag_state_ok (snd w)"
  shows "returns (storage_read_binary_remaining_bytes kind R w offset) (\<lambda>_. True)"
  unfolding storage_read_binary_remaining_bytes_def
proof (rule returns_if)
  show "returns (do {
        (w, ok, type2) \<leftarrow> reader_tags_get_type2_storage_info R w;
        Some (w, if \<not> ok \<or> \<not> t2_cc_valid type2 \<or> \<not> t2_read_open type2 then 0
          else if offset < 3 then 0
          else case nero_nfc_try_add_u16 4 (t2_data_area_size type2) of
            None \<Rightarrow> 0
          | Some size_all \<Rightarrow>
              if offset - 3 > UINT16_MAX div 4 then 0
              else if (offset - 3) * 4 \<ge> size_all then 0 else size_all - (offset - 3) * 4)
      }) (\<lambda>_. True)"
    by (rule bounded_radio.storage_info_answers [OF assms]) simp
qed (rule returns_if, rule type5_info_answers [OF assms(2)], use assms in \<open>simp_all add: Let_def\<close>)

lemma read_binary_returns_any:
  fixes R :: "'c tag_radio"
  assumes R: "bounded_radio R" and w: "tag_state_ok (snd w)" and cap: "fits m cap" and b: "length b = m"
    and a: "n \<le> length a" "n < 65536"
  shows "returns (reader_ccid_handle_read_binary_apdu kind R w (Some a) n (Some b) cap) (sw_answer m cap)"
proof -
  have no: "\<not> (Some a = None \<or> Some b = None \<or> cap < 2)" using cap by (simp add: fits_def)
  show ?thesis unfolding reader_ccid_handle_read_binary_apdu_def if_not_P [OF no]
  proof (rule returns_yields [OF read_fields_yield [OF a]], goal_cases)
    case (1 x)
    obtain ok offset le where x: "x = (ok, offset, le)" by (cases x)
    have len: "returns (if le = 0 then do {
        (w, remaining) \<leftarrow> storage_read_binary_remaining_bytes kind R w offset;
        Some (w, min (if remaining \<noteq> 0 then remaining else 256) 256)
      } else Some (w, unat le)) (\<lambda>_. True)"
      using w by (intro returns_if returns_bind [OF remaining_returns [OF R w]]) simp_all
    show ?case unfolding x prod.case
    proof (rule returns_if, rule status_returns(1) [OF w cap b], rule returns_bind [OF len], unfold prod.case Let_def, goal_cases)
      case (1 w1 req_len)
      define n where "n = (case nero_nfc_try_add_size req_len 2 of None \<Rightarrow> cap - 2
        | Some need \<Rightarrow> if need > cap then cap - 2 else req_len)"
      have n: "n \<le> cap - 2" by (auto simp: n_def nero_nfc_try_add_size_def split: option.split)
      show ?case unfolding n_def [symmetric]
        using bounded_radio.read_type2_returns [OF R 1(2) cap b n, of offset]
          type5_read_binary_returns [OF R 1(2) cap b n, of offset] status_returns(2) [OF 1(2) cap b]
        by (cases kind) simp_all
    qed
  qed
qed

section \<open>UPDATE BINARY\<close>

text \<open>Only the first four bytes behind the pointer are written.\<close>

lemma write_page_prefix:
  assumes "4 \<le> length d"
  shows "write_page_attempts R attempt n w page (Some d) = write_page_attempts R attempt n w page (Some (take 4 d))"
proof (induction n arbitrary: attempt w)
  case (Suc n)
  have "reader_tags_ntag_write_page R v page (Some d) = reader_tags_ntag_write_page R v page (Some (take 4 d))" for v
    using assms by (simp add: reader_tags_ntag_write_page_def)
  moreover have "mem_eq (Some v) (Some d) 4 = mem_eq (Some v) (Some (take 4 d)) 4" if "4 \<le> length v" for v
    using assms that by simp
  ultimately show ?case using Suc.IH by (simp cong: if_cong)
qed simp

lemma put_page_returns:
  fixes R :: "'c tag_radio"
  assumes R: "bounded_radio R" and w: "tag_state_ok (snd w)" and d: "4 \<le> length d"
  shows "returns (put_page R w page (Some d)) (\<lambda>_. True)"
  using bounded_radio.write_attempts_return [OF R, of "take 4 d" w 0 3 page] w d
  by (simp add: put_page_def reader_tags_type2_write_page_def write_page_prefix [OF d])

lemma write_block_returns:
  assumes "tag_state_ok (snd w)" "4 \<le> length d"
  shows "returns (reader_tags_type5_write_block R w block (Some d) 4) (\<lambda>_. True)"
proof -
  obtain w1 ok where 1: "reader_tags_iso15693_user_write R w block (Some d) 4 = Some (w1, ok)" "snd w1 = snd w"
    using user_write_returns [OF assms(1,2), of R block] by auto
  obtain w2 r v where 2: "reader_tags_iso15693_user_read R (tr_delay_ms R (fst w1) 8, snd w1) block (Some (replicate 8 0)) 4 = Some (w2, r, Some v)"
    "snd w2 = snd w1" "length v = 8"
    using user_read_returns [of "(tr_delay_ms R (fst w1) 8, snd w1)" 4 "replicate 8 0" R block] 1(2) assms(1) by auto
  then show ?thesis using 1 2 assms by (simp add: reader_tags_type5_write_block_def)
qed

lemma update_units_return:
  fixes put :: "'c \<times> tag_state \<Rightarrow> nat \<Rightarrow> cptr \<Rightarrow> (('c \<times> tag_state) \<times> bool) option"
  assumes put: "\<And>w u d. tag_state_ok (snd w) \<Longrightarrow> 4 \<le> length d \<Longrightarrow> returns (put w u (Some d)) (\<lambda>_. True)"
    and lc: "lc mod 4 = 0" "lc \<le> 255" "lc \<le> length data"
  shows "tag_state_ok (snd w) \<Longrightarrow> off mod 4 = 0 \<Longrightarrow>
    returns (update_units aborted put w offset lc (Some data) off) (\<lambda>_. True)"
proof (induction "lc - off" arbitrary: w off rule: less_induct)
  case less
  show ?case
  proof (cases "off < lc")
    case True
    have off: "off + 4 \<le> lc" using True lc(1) less.prems(2) by presburger
    have wrap: "\<not> off + 4 > 255" using off lc by presburger
    obtain c stop where a: "aborted (fst w) = (c, stop)" by fastforce
    obtain w' ok where p: "put (c, snd w) (u16n (offset + off div 4)) (Some (drop off data)) = Some (w', ok)" "tag_state_ok (snd w')"
    proof -
      have d: "4 \<le> length (drop off data)" using off lc(3) by simp
      have "returns (put (c, snd w) (u16n (offset + off div 4)) (Some (drop off data))) (\<lambda>_. True)"
        by (rule put [OF _ d]) (use less.prems in simp)
      then show ?thesis using that by (auto simp: returns_def)
    qed
    have "returns (update_units aborted put w' offset lc (Some data) (off + 4)) (\<lambda>_. True)"
      by (rule less.hyps) (use True less.prems p in simp_all)
    then show ?thesis using True a p less.prems wrap by (simp add: update_units.simps [of aborted put w] ptr_add_def)
  qed (use less.prems in \<open>simp add: update_units.simps [of aborted put w]\<close>)
qed

lemma span_unit:
  assumes "storage_type2_update_span_ok type2 page len \<or> storage_type5_update_span_ok type5 page len"
  shows "len mod 4 = 0"
  using assms
  by (auto simp: storage_type2_update_span_ok_def storage_type5_update_span_ok_def nfc_storage_type2_write_span_ok_def
      nfc_storage_type5_write_span_ok_def split: if_splits option.splits)

lemma update_answer_returns:
  "tag_state_ok (snd w) \<Longrightarrow> fits m cap \<Longrightarrow> length b = m \<Longrightarrow> returns (update_answer w ok (Some b) cap) (sw_answer m cap)"
  unfolding update_answer_def by (rule status_returns(1))

lemma update_type2_returns:
  fixes R :: "'c tag_radio"
  assumes R: "bounded_radio R" and w: "tag_state_ok (snd w)" and cap: "fits m cap" and b: "length b = m"
    and lc: "lc \<le> 255" "lc \<le> length data"
  shows "returns (update_binary_type2 aborted R w offset lc (Some data) (Some b) cap) (sw_answer m cap)"
  unfolding update_binary_type2_def
proof (rule bounded_radio.storage_info_answers [OF R w], unfold prod.case, intro returns_if, goal_cases)
  case (4 w' ok info)
  have "returns (update_units aborted (put_page R) w' offset lc (Some data) 0) (\<lambda>_. True)"
  proof (rule update_units_return [where put = "put_page R"])
    show "lc mod 4 = 0" by (rule span_unit) (use 4 in auto)
  qed (use 4 lc in \<open>simp_all add: put_page_returns [OF R]\<close>)
  then show ?case
  proof (rule returns_bind, goal_cases)
    case (1 x)
    then show ?case by (cases x) (simp add: update_answer_returns cap b)
  qed
qed (use cap b in \<open>auto intro: status_returns\<close>)

lemma update_cc_returns:
  assumes w: "tag_state_ok (snd w)" and cap: "fits m cap" and b: "length b = m" and d: "4 \<le> length data"
  shows "returns (update_cc aborted R w 4 (Some data) (Some b) cap) (sw_answer m cap)"
proof -
  have cc: "yields (nfc_tag_type5_apply_cc type5_zero (Some data) 4) (\<lambda>_. True)"
    using d by (auto simp: nfc_tag_type5_apply_cc_def nfc_tag_type5_clear_cc_info_def type5_zero_def Let_def yields_def)
  obtain c stop where a: "aborted (fst w) = (c, stop)" by fastforce
  have w': "tag_state_ok (snd (c, snd w))" using w by simp
  show ?thesis unfolding update_cc_def a Let_def prod.case
    by (rule returns_yields [OF cc], rule returns_if, rule status_returns(1) [OF w cap b], rule returns_if,
        rule update_answer_returns [OF w' cap b], rule returns_bind [OF write_block_returns [OF w' d]],
        unfold prod.case, rule update_answer_returns [OF _ cap b]) simp_all
qed

lemma update_type5_returns:
  fixes R :: "'c tag_radio"
  assumes w: "tag_state_ok (snd w)" and cap: "fits m cap" and b: "length b = m" and lc: "lc \<le> 255" "lc \<le> length data"
  shows "returns (update_binary_type5 aborted R w offset lc (Some data) (Some b) cap) (sw_answer m cap)"
  unfolding update_binary_type5_def
proof (rule type5_info_answers [OF w], unfold prod.case, intro returns_if, goal_cases)
  case (3 w' info)
  then show ?case using update_cc_returns [of w' m cap b data aborted R] cap b lc by auto
next
  case (5 w' info)
  have "returns (update_units aborted (put_block R) w' offset lc (Some data) 0) (\<lambda>_. True)"
  proof (rule update_units_return [where put = "put_block R"])
    show "lc mod 4 = 0" by (rule span_unit) (use 5 in auto)
  qed (use 5 lc in \<open>simp_all add: put_block_def write_block_returns\<close>)
  then show ?case
  proof (rule returns_bind, goal_cases)
    case (1 x)
    then show ?case by (cases x) (simp add: update_answer_returns cap b)
  qed
qed (use cap b in \<open>auto intro: status_returns\<close>)

lemma update_fields_eq:
  assumes n: "n = 5 + unat (a ! 4)" "n \<le> length a" "a ! 4 \<noteq> 0"
  shows "nfc_iso7816_apdu_update_binary (Some a) n = Some (True, be16 (a ! 2) (a ! 3), a ! 4, Some (drop 5 a))"
proof -
  have n': "5 \<le> n" "n < 65536" using unat_u8_le [of "a ! 4"] n by linarith+
  have lc: "nfc_iso7816_apdu_lc (Some a) n = Some (True, a ! 4)" using n n' by simp
  have add: "nero_nfc_try_add_u16 5 (unat (a ! 4)) = Some (5 + unat (a ! 4))" by simp
  have at: "nero_nfc_u8_at (Some a) n 2 = Some (a ! 2)" "nero_nfc_u8_at (Some a) n 3 = Some (a ! 3)" using n n' by auto
  have ptr: "ptr_add (Some a) 5 = Some (drop 5 a)" by (simp add: ptr_add_def)
  show ?thesis
    unfolding nfc_iso7816_apdu_update_binary_def lc Option.bind.bind_lunit prod.case add option.case at ptr using n by simp
qed

lemma update_fields_yield:
  assumes "n \<le> length a" "n < 65536"
  shows "yields (nfc_iso7816_apdu_update_binary (Some a) n)
    (\<lambda>(ok, offset, lc, data). ok \<longrightarrow> data = Some (drop 5 a) \<and> unat lc + 5 = n)"
proof (cases "n = 5 + unat (a ! 4) \<and> a ! 4 \<noteq> 0")
  case True
  then show ?thesis using update_fields_eq [of n a] assms by simp
next
  case False
  have add: "nero_nfc_try_add_u16 5 (unat (a ! 4)) = Some (5 + unat (a ! 4))" by simp
  have "nfc_iso7816_apdu_update_binary (Some a) n = Some (False, 0, 0, None)"
  proof (cases "5 \<le> n")
    case True
    have lc: "nfc_iso7816_apdu_lc (Some a) n = Some (True, a ! 4)" using True assms by simp
    show ?thesis unfolding nfc_iso7816_apdu_update_binary_def lc Option.bind.bind_lunit prod.case add option.case
      using True False by simp
  qed (use assms in \<open>simp add: nfc_iso7816_apdu_update_binary_def\<close>)
  then show ?thesis by simp
qed

lemma update_binary_returns_any:
  fixes R :: "'c tag_radio"
  assumes R: "bounded_radio R" and w: "tag_state_ok (snd w)" and cap: "fits m cap" and b: "length b = m"
    and a: "n \<le> length a" "n < 65536"
  shows "returns (reader_ccid_handle_update_binary_apdu kind aborted R w (Some a) n (Some b) cap) (sw_answer m cap)"
proof -
  have no: "\<not> (Some a = None \<or> Some b = None \<or> cap < 2)" using cap by (simp add: fits_def)
  have p: "yields (nfc_iso7816_apdu_update_binary (Some a) n)
      (\<lambda>(ok, offset, lc, data). ok \<longrightarrow> (\<exists>d. data = Some d \<and> unat lc \<le> length d))"
    using a by (intro yields_mono [OF update_fields_yield]) auto
  have o': "yields (storage_update_binary_offset kind (Some a) n offset) (\<lambda>_. True)" for offset
    using a by (auto simp: storage_update_binary_offset_def)
  note no_sw = status_returns [OF w cap b]
  show ?thesis unfolding reader_ccid_handle_update_binary_apdu_def if_not_P [OF no]
  proof (rule returns_yields [OF p], goal_cases)
    case (1 x)
    obtain ok offset lc data where x: "x = (ok, offset, lc, data)" by (cases x)
    note x_ok = 1
    show ?case unfolding x prod.case
    proof (rule returns_if, rule no_sw, rule returns_yields [OF o'], goal_cases)
      case (1 y)
      have okx: ok using 1 by simp
      obtain ok' off where y: "y = (ok', off)" by fastforce
      obtain d where d: "data = Some d" "unat lc \<le> length d" using x_ok okx by (auto simp: x)
      have lc: "unat lc \<le> 255" by (rule unat_u8_le)
      show ?case unfolding y prod.case d(1)
        by (rule returns_if, rule no_sw, rule returns_if, rule no_sw, cases kind)
          (simp_all only: tag_kind.case no_sw update_type2_returns [OF R w cap b lc d(2)] update_type5_returns [OF w cap b lc d(2)])
    qed
  qed
qed


section \<open>GET DATA, all groups\<close>

lemma in_session_type4:
  assumes Q: "radio_ok Q" and s: "iso_inv s" and t: "tag_state_ok t"
  shows "settles (in_session (reader_tags_get_type4_info fuel Q) ((c, s), t))
    (\<lambda>(w, info). tag_state_ok (snd w) \<and> (\<forall>i. info = Some i \<longrightarrow> type4_info_ok i))"
proof -
  have v: "iso_inv (session_view t s)" using s t by (simp add: iso_inv_def session_view_def tag_state_ok_def)
  have bk: "tag_state_ok (tag_view s' t)" if "iso_inv s'" for s'
    using that t by (simp add: tag_view_def iso_inv_def tag_state_ok_def)
  have "settles (reader_tags_get_type4_info fuel Q (c, session_view t s))
    (\<lambda>(w, info). (radio_ok Q \<and> iso_inv (snd w)) \<and> (\<forall>i. info = Some i \<longrightarrow> type4_info_ok i))"
    unfolding reader_tags_get_type4_info_def
  proof (rule settles_if, use Q v in simp, rule session_channel.load_info_settles, use Q v in simp, goal_cases)
    case (1 w)
    then show ?case by (auto intro!: settles_mono [OF select_ndef_settles])
  qed
  then show ?thesis unfolding in_session_def prod.case
    by (rule settles_after) (auto simp: bk)
qed

lemma settles_return:
  "returns m P \<Longrightarrow> settles (map_option Some m) (\<lambda>(w, a). tag_state_ok (snd w) \<and> P a)"
  by (auto simp: returns_def settles_def yields_def)

lemma settles_at:
  assumes "tag_state_ok (snd w)" "yields m P"
  shows "settles (m \<bind> (\<lambda>r. Some (Some (w, r)))) (\<lambda>(w, a). tag_state_ok (snd w) \<and> P a)"
  using assms by (auto simp: settles_def yields_def)

lemma get_data_type45_settles:
  assumes R: "bounded_radio R" and Q: "radio_ok Q" and s: "iso_inv s" and t: "tag_state_ok t"
    and cap: "fits m cap" and b: "length b = m"
  shows "settles (reader_ccid_get_data_type45 (in_session (reader_tags_get_type4_info fuel Q)) R ((c, s), t) p1 (Some b) cap)
    (\<lambda>(w, r). tag_state_ok (snd w) \<and> reply_ok m cap r)"
proof -
  have no: "yields (not_supported (Some b) cap) (reply_ok m cap)"
    by (rule yields_mono [OF unsupported_answers [OF cap b]]) simp
  have ret: "settles (at_state w x \<bind> (\<lambda>r. Some (Some r))) (\<lambda>(w, r). tag_state_ok (snd w) \<and> reply_ok m cap r)"
    if "tag_state_ok (snd w)" "yields x (reply_ok m cap)" for w :: "('a \<times> iso_dep) \<times> tag_state" and x
    using that by (auto simp: at_state_def settles_def yields_def)
  have five: "settles (reader_tags_get_type5_info R ((c, s), t) \<bind> f) (\<lambda>(w, r). tag_state_ok (snd w) \<and> reply_ok m cap r)"
    if f: "\<And>w' info. tag_state_ok (snd w') \<Longrightarrow> type5_info_ok info \<Longrightarrow>
      settles (f (w', True, info)) (\<lambda>(w, r). tag_state_ok (snd w) \<and> reply_ok m cap r)" for f
  proof -
    obtain w' info where i: "reader_tags_get_type5_info R ((c, s), t) = Some (w', True, info)" "snd w' = t" "type5_info_ok info"
      using type5_info_returns [of "((c, s), t)" R] t by auto
    then show ?thesis using f [of w' info] t by simp
  qed
  show ?thesis unfolding reader_ccid_get_data_type45_def
  proof (intro settles_if)
    show "settles (do {
        (w, ok, type5) \<leftarrow> reader_tags_get_type5_info R ((c, s), t);
        r \<leftarrow> at_state w (if \<not> ok \<or> t5_raw_len type5 = 0 then not_supported (Some b) cap
          else reply_data (Some b) cap (t5_raw type5) (t5_raw_len type5));
        Some (Some r) }) (\<lambda>(w, r). tag_state_ok (snd w) \<and> reply_ok m cap r)"
      by (rule five, unfold prod.case, rule ret, assumption)
        (use no data_replies [OF cap b] in \<open>auto simp: type5_info_ok_def\<close>)
  next
    show "settles (do {
        (w, ok, type5) \<leftarrow> reader_tags_get_type5_info R ((c, s), t);
        r \<leftarrow> at_state w (if \<not> ok \<or> \<not> t5_cc_valid type5 \<or> t5_cc_len type5 = 0 then not_supported (Some b) cap
          else reply_data (Some b) cap (t5_cc type5) (t5_cc_len type5));
        Some (Some r) }) (\<lambda>(w, r). tag_state_ok (snd w) \<and> reply_ok m cap r)"
      by (rule five, unfold prod.case, rule ret, assumption)
        (use no data_replies [OF cap b] in \<open>auto simp: type5_info_ok_def\<close>)
  next
    show "settles (after (in_session (reader_tags_get_type4_info fuel Q) ((c, s), t)) (\<lambda>(w, info). do {
        r \<leftarrow> at_state w (case info of
            None \<Rightarrow> not_supported (Some b) cap
          | Some type4 \<Rightarrow> if \<not> t4_cc_valid type4 \<or> t4_cc_len type4 = 0 then not_supported (Some b) cap
              else reply_data (Some b) cap (t4_cc type4) (t4_cc_len type4));
        Some (Some r) })) (\<lambda>(w, r). tag_state_ok (snd w) \<and> reply_ok m cap r)"
    proof (rule settles_after [OF in_session_type4 [OF Q s t]], goal_cases)
      case (1 x)
      obtain w' info where x: "x = (w', info)" by fastforce
      show ?case unfolding x prod.case
        by (rule ret) (use 1 x no data_replies [OF cap b] in \<open>auto simp: type4_info_ok_def split: option.split\<close>)
    qed
  qed (use t b in \<open>simp_all add: reply_ok_def\<close>)
qed

lemma type2_group:
  "p1 = 0x06 \<or> p1 = 0x09 \<or> p1 = 0x0A \<Longrightarrow> reader_ccid_get_data_type2 kind R w p1 rsp cap = Some (w, 0, rsp)"
  by (auto simp: reader_ccid_get_data_type2_def)

lemma contactless_group:
  assumes "tag_state_ok s" "p1 = 0x06 \<or> p1 = 0x09 \<or> p1 = 0x0A"
  shows "reader_ccid_get_data_contactless kind s p1 rsp cap = Some (0, rsp)"
  using typea_yields [OF assms(1)] assms(2) by (auto simp: reader_ccid_get_data_contactless_def yields_def)

text \<open>The handler: an answer is never empty once the command has five bytes.\<close>

lemma get_data_settles:
  assumes R: "bounded_radio R" and Q: "radio_ok Q" and s: "iso_inv s" and t: "tag_state_ok t"
    and cap: "fits m cap" and b: "length b = m" and a: "n \<le> length a" "5 \<le> n" "n < 65536"
  shows "settles (reader_ccid_handle_get_data_apdu kind (in_session (reader_tags_get_type4_info fuel Q)) R ((c, s), t)
      (Some a) n (Some b) cap) (\<lambda>(w, r). tag_state_ok (snd w) \<and> sw_answer m cap r)"
proof -
  let ?G = "in_session (reader_tags_get_type4_info fuel Q)"
  let ?P = "\<lambda>(w :: ('a \<times> iso_dep) \<times> tag_state, r). tag_state_ok (snd w) \<and> sw_answer m cap r"
  have no: "\<not> (Some a = None \<or> Some b = None \<or> \<not> nfc_iso7816_apdu_min_len n 5 \<or> cap < 2)" using cap a by (simp add: fits_def)
  have at: "nero_nfc_u8_at (Some a) n 3 = Some (a ! 3)" "nero_nfc_u8_at (Some a) n 2 = Some (a ! 2)" using a by auto
  note st = settles_return [OF status_returns(1)]
  note un = settles_return [OF status_returns(2) [OF _ cap]]
  have reply: "sw_answer m cap (k, p)" if "reply_ok m cap (k, p)" "k \<noteq> 0" for k p using that by (simp add: sw_answer_def)
  have buf: "\<exists>b'. p = Some b' \<and> length b' = m" if "reply_ok m cap (k, p)" for k p using that by (auto simp: reply_ok_def)
  have tail: "settles (if k \<noteq> 0 then Some (Some (w, k, p)) else map_option Some (at_state w (not_supported p cap))) ?P"
    if "tag_state_ok (snd w)" "reply_ok m cap (k, p)" for w :: "('a \<times> iso_dep) \<times> tag_state" and k p
    using buf [OF that(2)] un [OF that(1)] reply [OF that(2)] that(1) by (cases "k = 0") auto
  have last: "settles (after (reader_ccid_get_data_type45 ?G R ((c, s), t) (a ! 2) (Some b) cap) (\<lambda>(w, response, rsp).
      if response \<noteq> 0 then Some (Some (w, response, rsp)) else map_option Some (at_state w (not_supported rsp cap)))) ?P"
  proof (rule settles_after [OF get_data_type45_settles [OF R Q s t cap b]], goal_cases)
    case (1 x)
    obtain w k p where x: "x = (w, k, p)" by (cases x)
    show ?case unfolding x prod.case by (rule tail) (use 1 x in auto)
  qed
  show ?thesis
  proof (cases "n = 5 \<and> a ! 3 = 0")
    case False
    then show ?thesis using st [of "((c, s), t)" m cap b] un [of "((c, s), t)" b] t cap b a
      unfolding reader_ccid_handle_get_data_apdu_def if_not_P [OF no] at Option.bind.bind_lunit by auto
  next
    case True
    then have n5: "\<not> n \<noteq> 5" "\<not> a ! 3 \<noteq> 0" by simp_all
    show ?thesis
      unfolding reader_ccid_handle_get_data_apdu_def if_not_P [OF no] if_not_P [OF n5(1)] at Option.bind.bind_lunit if_not_P [OF n5(2)] snd_conv
    proof (cases "a ! 2 = 0x06 \<or> a ! 2 = 0x09 \<or> a ! 2 = 0x0A")
      case True
      show "settles (do {
          (response, rsp) \<leftarrow> reader_ccid_get_data_contactless kind t (a ! 2) (Some b) cap;
          if response \<noteq> 0 then Some (Some (((c, s), t), response, rsp))
          else do {
            (w, response, rsp) \<leftarrow> reader_ccid_get_data_type2 kind R ((c, s), t) (a ! 2) rsp cap;
            if response \<noteq> 0 then Some (Some (w, response, rsp))
            else after (reader_ccid_get_data_type45 ?G R w (a ! 2) rsp cap) (\<lambda>(w, response, rsp).
              if response \<noteq> 0 then Some (Some (w, response, rsp)) else map_option Some (at_state w (not_supported rsp cap)))
          } }) ?P"
        unfolding contactless_group [OF t True] type2_group [OF True] Option.bind.bind_lunit prod.case
        using last by simp
    next
      case False
      have none: "reader_ccid_get_data_type45 ?G R w (a ! 2) p cap = Some (Some (w, 0, p))" for w p
        using False by (simp add: reader_ccid_get_data_type45_def)
      show "settles (do {
          (response, rsp) \<leftarrow> reader_ccid_get_data_contactless kind t (a ! 2) (Some b) cap;
          if response \<noteq> 0 then Some (Some (((c, s), t), response, rsp))
          else do {
            (w, response, rsp) \<leftarrow> reader_ccid_get_data_type2 kind R ((c, s), t) (a ! 2) rsp cap;
            if response \<noteq> 0 then Some (Some (w, response, rsp))
            else after (reader_ccid_get_data_type45 ?G R w (a ! 2) rsp cap) (\<lambda>(w, response, rsp).
              if response \<noteq> 0 then Some (Some (w, response, rsp)) else map_option Some (at_state w (not_supported rsp cap)))
          } }) ?P"
      proof (rule settles_bind [OF contactless_yields [OF t cap b]], goal_cases)
        case (1 x)
        obtain k p where x: "x = (k, p)" by fastforce
        obtain b' where p: "p = Some b'" "length b' = m" using buf 1 x by blast
        show ?case unfolding x prod.case
        proof (rule settles_if, use 1 x t reply in simp)
          have two: "returns (reader_ccid_get_data_type2 kind R ((c, s), t) (a ! 2) (Some b') cap) (reply_ok m cap)"
            using bounded_radio.get_data_type2_returns [OF R _ cap p(2)] t by simp
          then obtain w' k' p' where 2: "reader_ccid_get_data_type2 kind R ((c, s), t) (a ! 2) (Some b') cap = Some (w', k', p')"
            "tag_state_ok (snd w')" "reply_ok m cap (k', p')" by (auto simp: returns_def)
          show "settles (do {
            (w, response, rsp) \<leftarrow> reader_ccid_get_data_type2 kind R ((c, s), t) (a ! 2) p cap;
            if response \<noteq> 0 then Some (Some (w, response, rsp))
            else after (reader_ccid_get_data_type45 ?G R w (a ! 2) rsp cap) (\<lambda>(w, response, rsp).
              if response \<noteq> 0 then Some (Some (w, response, rsp)) else map_option Some (at_state w (not_supported rsp cap)))
            }) ?P"
            using tail [OF 2(2,3)] reply [OF 2(3)] 2(2) unfolding p(1) 2(1) Option.bind.bind_lunit prod.case none after_def
            by (cases "k' = 0") simp_all
        qed
      qed
    qed
  qed
qed

section \<open>The transparent command\<close>

lemma addressed_yields:
  assumes "tag_state_ok s" "n \<le> length tx" "n < 65536"
  shows "yields (raw_type5_addressed_uid_allowed s (Some tx) n off) (\<lambda>_. True)"
proof -
  have loop: "yields (uid_lsb_loop (Some q) uid i k) (\<lambda>_. True)" if "i + k \<le> 8" "8 \<le> length q" "length uid = 8" for q uid i k
    using that by (induction k arbitrary: i) (auto simp: yields_def)
  have span: "off + 8 \<le> n" if "nero_nfc_span_ok off 8 n" by (rule span_ok_bound [OF that])
  show ?thesis using assms span loop [of 0 8 "drop off tx" "ts_uid15 s"]
    by (auto simp: raw_type5_addressed_uid_allowed_def raw_type5_uid_lsb_matches_active_def ptr_add_def tag_state_ok_def)
qed

lemma fields_yield:
  assumes "n \<le> length tx" "n < 65536"
  shows "yields (raw_type5_fields (Some tx) n off extended multiple) (\<lambda>_. True)"
  using assms by (cases extended; cases multiple) (auto simp: raw_type5_fields_def ptr_add_def Let_def)

lemma read_command_returns:
  fixes R :: "'c tag_radio"
  assumes "tag_state_ok (snd w)" "2 \<le> n" "n \<le> length tx" "n < 65536"
  shows "returns (raw_type5_read_command_allowed R w (Some tx) n extended multiple) (\<lambda>_. True)"
proof -
  have off: "yields (raw_type5_block_payload_offset (snd w) (Some tx) n) (\<lambda>_. True)"
  proof -
    obtain ok where "raw_type5_addressed_uid_allowed (snd w) (Some tx) n 2 = Some ok"
      using addressed_yields [OF assms(1,3,4), of 2] by (auto simp: yields_def)
    then show ?thesis using assms by (simp add: raw_type5_block_payload_offset_def)
  qed
  have span: "returns (raw_type5_read_span_allowed R w block k) (\<lambda>_. True)" for block k
    unfolding raw_type5_read_span_allowed_def
    by (rule returns_if, use assms in simp, rule type5_info_answers [OF assms(1)]) simp
  show ?thesis unfolding raw_type5_read_command_allowed_def
  proof (rule returns_yields [OF off], goal_cases)
    case (1 x)
    show ?case
    proof (cases x)
      case (Some o')
      show ?thesis unfolding Some option.case
      proof (rule returns_yields [OF fields_yield [OF assms(3,4)]], goal_cases)
        case (1 y)
        then show ?case using span assms(1) by (cases y) (auto split: prod.split)
      qed
    qed (use assms in simp)
  qed
qed

lemma raw_type5_returns:
  fixes R :: "'c tag_radio"
  assumes "tag_state_ok (snd w)" "n \<le> length tx" "n < 65536"
  shows "returns (reader_ccid_type5_raw_transceive_allowed kind R w (Some tx) n) (\<lambda>_. True)"
proof -
  have fixed: "returns (map_option (Pair w) (raw_type5_fixed_command_allowed (snd w) (Some tx) n k)) (\<lambda>_. True)" for k
  proof -
    obtain ok where "raw_type5_addressed_uid_allowed (snd w) (Some tx) n k = Some ok"
      using addressed_yields [OF assms, of k] by (auto simp: yields_def)
    then show ?thesis using assms by (cases "n = 0") (auto simp: raw_type5_fixed_command_allowed_def)
  qed
  show ?thesis
  proof (cases "n < 2 \<or> kind \<noteq> TAG_KIND_TYPE5")
    case True
    then show ?thesis using assms by (auto simp: reader_ccid_type5_raw_transceive_allowed_def)
  next
    case False
    then have at: "nero_nfc_u8_at (Some tx) n 1 = Some (tx ! 1)" and no: "\<not> (Some tx = None \<or> n < 2 \<or> kind \<noteq> TAG_KIND_TYPE5)"
      using assms by auto
    show ?thesis
      unfolding reader_ccid_type5_raw_transceive_allowed_def if_not_P [OF no] at Option.bind.bind_lunit
      by (intro returns_if read_command_returns fixed assms) (use False assms in simp_all)
  qed
qed

lemma transparent_returns:
  fixes R :: "'c tag_radio"
  assumes w: "tag_state_ok (snd w)" and cap: "fits m cap" and b: "length b = m"
    and a: "n \<le> length a" "5 \<le> n" "n < 65536"
  shows "returns (reader_ccid_handle_escape_transparent_apdu kind R w (Some a) n (Some b) cap) (sw_answer m cap)"
proof -
  have no: "\<not> (Some a = None \<or> Some b = None \<or> \<not> nfc_iso7816_apdu_min_len n 5 \<or> cap < 2)" using cap a by (simp add: fits_def)
  have at: "nero_nfc_u8_at (Some a) n 0 = Some (a ! 0)" "nero_nfc_u8_at (Some a) n 1 = Some (a ! 1)" using a by auto
  have lc: "nfc_iso7816_apdu_lc (Some a) n = Some (True, a ! 4)" using a by simp
  note st = status_returns(1) [OF _ cap b]
  show ?thesis
    unfolding reader_ccid_handle_escape_transparent_apdu_def if_not_P [OF no] at lc Option.bind.bind_lunit prod.case Let_def
  proof (intro returns_if st [OF w], goal_cases)
    case 1
    then have n: "n = 5 + unat (a ! 4)" by simp
    have data: "nfc_iso7816_apdu_data_ptr (Some a) n (a ! 4) = Some (drop 5 a)" using n a by simp
    have l: "0 < unat (a ! 4)" using 1 by (simp add: unat_gt_0)
    have body: "unat (a ! 4) \<le> length (drop 5 a)" "unat (a ! 4) < 65536" using n a by simp_all
    show ?case unfolding data
    proof (rule returns_bind [OF raw_type5_returns [OF w body]], unfold prod.case, rule returns_if, erule st, goal_cases)
      case (1 w1 allowed)
      obtain c s where w1: "w1 = (c, s)" by fastforce
      have m: "cap - 2 \<le> length b" "cap \<le> m" "m < 65536" "2 \<le> cap" using cap b unfolding fits_def by linarith+
      have "\<exists>w2 r b'. reader_tags_type5_transceive R w1 (Some (drop 5 a)) (unat (a ! 4)) (Some b) (cap - 2) = Some (w2, r, Some b') \<and>
        tag_state_ok (snd w2) \<and> length b' = m \<and> r \<le> int (cap - 2)"
      proof (cases "cap - 2 = 0")
        case False
        obtain c' r new where "nfc_frontend_iso15693_transceive (tr_stream R) c (Some (drop 5 a)) (unat (a ! 4)) (Some b) (cap - 2) 30 =
            Some (c', r, Some new)" "length new = length b" "r \<le> int (cap - 2)"
          using transceive_safe [OF l body(1) m(1), of "tr_stream R" c 30] False by auto
        then show ?thesis using 1 l b False w1
          by (simp add: reader_tags_type5_transceive_def reader_protocol_iso15693_transceive_def)
      qed (use 1 b in \<open>simp add: reader_tags_type5_transceive_def\<close>)
      then obtain w2 r b' where 2: "reader_tags_type5_transceive R w1 (Some (drop 5 a)) (unat (a ! 4)) (Some b) (cap - 2) = Some (w2, r, Some b')"
        "tag_state_ok (snd w2)" "length b' = m" "r \<le> int (cap - 2)" by blast
      show ?case unfolding 2(1) Option.bind.bind_lunit prod.case
      proof (rule returns_if, rule status_returns(1) [OF 2(2) cap 2(3)], rule at_state_returns [OF 2(2)])
        assume "\<not> r < 0"
        then have "u16n (nat r) = nat r" "nat r + 2 \<le> cap" using 2(4) m by auto
        then show "yields (reader_ccid_append_success_status (Some b') (u16n (nat r)) cap) (sw_answer m cap)"
          by (auto simp: sw_answer_def intro!: yields_mono [OF success_replies [OF cap 2(3)]])
      qed
    qed
  qed
qed

text \<open>The one way for GET DATA to be still running: the capability container of a Type 4 tag.\<close>

lemma after_running:
  "after m f = Some None \<longleftrightarrow> m = Some None \<or> (\<exists>x. m = Some (Some x) \<and> f x = Some None)"
proof (cases m)
  case (Some y)
  then show ?thesis by (cases y) (simp_all add: after_def)
qed (simp add: after_def)

lemma type45_running:
  assumes "reader_ccid_get_data_type45 G R w p1 rsp cap = Some None"
  shows "p1 = 0x09 \<and> G w = Some None"
proof -
  have no: "m \<bind> (\<lambda>r. Some (Some (f r))) \<noteq> Some None" for m :: "'x option" and f :: "'x \<Rightarrow> 'y"
    by (cases m) simp_all
  show ?thesis
    using assms no
    by (auto simp: reader_ccid_get_data_type45_def after_running bind_eq_Some_conv split: if_splits)
qed

lemma get_data_running:
  assumes run: "reader_ccid_handle_get_data_apdu kind G R (v, t) (Some a) n (Some b) cap = Some None"
    and t: "tag_state_ok t" and n: "n \<le> length a"
  shows "n = 5 \<and> a ! 3 = 0 \<and> a ! 2 = 0x09 \<and> G (v, t) = Some None"
proof -
  have five: "n = 5" "nero_nfc_u8_at (Some a) n 3 = Some (a ! 3)" "nero_nfc_u8_at (Some a) n 2 = Some (a ! 2)"
    using run n by (auto simp: reader_ccid_handle_get_data_apdu_def split: if_splits)
  then have p2: "a ! 3 = 0"
    using run by (auto simp: reader_ccid_handle_get_data_apdu_def split: if_splits)
  obtain k p w k' p' where steps:
      "reader_ccid_get_data_contactless kind t (a ! 2) (Some b) cap = Some (k, p)"
      "reader_ccid_get_data_type2 kind R (v, t) (a ! 2) p cap = Some (w, k', p')"
      "after (reader_ccid_get_data_type45 G R w (a ! 2) p' cap) (\<lambda>(w, response, rsp).
        if response \<noteq> 0 then Some (Some (w, response, rsp)) else map_option Some (at_state w (not_supported rsp cap))) = Some None"
    using run five p2
    by (auto simp: reader_ccid_handle_get_data_apdu_def bind_eq_Some_conv split: if_splits)
  have "reader_ccid_get_data_type45 G R w (a ! 2) p' cap = Some None"
    using steps(3) by (auto simp: after_running split: if_splits)
  then have p1: "a ! 2 = 0x09" and g: "G w = Some None" using type45_running by blast+
  have "w = (v, t)" using steps(2) type2_group [of "a ! 2" kind R "(v, t)" p cap] p1 by simp
  with g five(1) p2 p1 show ?thesis by simp
qed

lemma in_session_running: "in_session f ((c, s), t) = Some None \<Longrightarrow> f (c, session_view t s) = Some None"
  by (auto simp: in_session_def after_running)

text \<open>
  C17: the storage commands of the reader (GET DATA, READ BINARY, UPDATE BINARY and the transparent
  command) on any command, any kind of tag and any answers of the card: no handler faults and the
  states keep their form. READ BINARY and UPDATE BINARY answer every command, GET DATA and the
  transparent command every one of at least five bytes, with a status word inside the response
  buffer, or data followed by 90 00; shorter ones they leave to the caller, without an answer and
  with the buffer as it was. One command need not come back: GET DATA with P1 = 09, which asks a
  Type 4 tag for its capability container; it is still running only where that exchange with the
  card is.
\<close>

theorem storage_commands_answer:
  fixes R :: "('c \<times> iso_dep) tag_radio" and Q :: "'c radio"
  assumes "bounded_radio R" "radio_ok Q" "iso_inv s" "tag_state_ok t"
    and "2 \<le> cap" "cap \<le> length b" "length b < 65536" "n \<le> length a" "n < 65536"
  shows "((\<exists>w r. reader_ccid_handle_get_data_apdu kind (in_session (reader_tags_get_type4_info fuel Q)) R ((c, s), t)
        (Some a) n (Some b) cap = Some (Some (w, r)) \<and> tag_state_ok (snd w) \<and>
        (if n < 5 then r = (0, Some b) else sw_answer (length b) cap r)) \<or>
      reader_ccid_handle_get_data_apdu kind (in_session (reader_tags_get_type4_info fuel Q)) R ((c, s), t)
        (Some a) n (Some b) cap = Some None \<and> n = 5 \<and> a ! 2 = 0x09 \<and> a ! 3 = 0 \<and>
        reader_tags_get_type4_info fuel Q (c, session_view t s) = Some None) \<and>
    returns (reader_ccid_handle_read_binary_apdu kind R ((c, s), t) (Some a) n (Some b) cap) (sw_answer (length b) cap) \<and>
    returns (reader_ccid_handle_update_binary_apdu kind aborted R ((c, s), t) (Some a) n (Some b) cap) (sw_answer (length b) cap) \<and>
    returns (reader_ccid_handle_escape_transparent_apdu kind R ((c, s), t) (Some a) n (Some b) cap)
      (\<lambda>r. if n < 5 then r = (0, Some b) else sw_answer (length b) cap r)"
proof (intro conjI)
  let ?g = "reader_ccid_handle_get_data_apdu kind (in_session (reader_tags_get_type4_info fuel Q)) R ((c, s), t)
      (Some a) n (Some b) cap"
  have w: "tag_state_ok (snd ((c, s), t))" using assms(4) by simp
  have cap: "fits (length b) cap" using assms by (simp add: fits_def)
  show "(\<exists>w r. ?g = Some (Some (w, r)) \<and> tag_state_ok (snd w) \<and>
        (if n < 5 then r = (0, Some b) else sw_answer (length b) cap r)) \<or>
      ?g = Some None \<and> n = 5 \<and> a ! 2 = 0x09 \<and> a ! 3 = 0 \<and> reader_tags_get_type4_info fuel Q (c, session_view t s) = Some None"
  proof (cases "n < 5")
    case True
    then show ?thesis using assms(4) by (simp add: reader_ccid_handle_get_data_apdu_def)
  next
    case False
    then have five: "5 \<le> n" by simp
    obtain r where r: "?g = Some r" "\<forall>x. r = Some x \<longrightarrow> (\<lambda>(w, r). tag_state_ok (snd w) \<and> sw_answer (length b) cap r) x"
      using get_data_settles [OF assms(1-4) cap refl assms(8) five assms(9), of kind fuel c]
      unfolding settles_def yields_def by blast
    show ?thesis
    proof (cases r)
      case None
      then have run: "?g = Some None" using r(1) by simp
      note five = get_data_running [OF run assms(4,8)]
      have "reader_tags_get_type4_info fuel Q (c, session_view t s) = Some None"
        by (rule in_session_running) (rule five [THEN conjunct2, THEN conjunct2, THEN conjunct2])
      then show ?thesis using five by (intro disjI2 conjI run) simp_all
    next
      case (Some x)
      obtain w k where x: "x = (w, k)" by (cases x)
      have run: "?g = Some (Some (w, k))" using r(1) Some x by simp
      have ok: "tag_state_ok (snd w)" "if n < 5 then k = (0, Some b) else sw_answer (length b) cap k"
        using r(2) Some x False by simp_all
      show ?thesis by (intro disjI1 exI conjI) (rule run ok)+
    qed
  qed
  show "returns (reader_ccid_handle_read_binary_apdu kind R ((c, s), t) (Some a) n (Some b) cap) (sw_answer (length b) cap)"
    by (rule read_binary_returns_any [OF assms(1) w cap refl assms(8,9)])
  show "returns (reader_ccid_handle_update_binary_apdu kind aborted R ((c, s), t) (Some a) n (Some b) cap) (sw_answer (length b) cap)"
    by (rule update_binary_returns_any [OF assms(1) w cap refl assms(8,9)])
  show "returns (reader_ccid_handle_escape_transparent_apdu kind R ((c, s), t) (Some a) n (Some b) cap)
      (\<lambda>r. if n < 5 then r = (0, Some b) else sw_answer (length b) cap r)"
  proof (cases "n < 5")
    case True
    then show ?thesis using w by (simp add: reader_ccid_handle_escape_transparent_apdu_def)
  next
    case False
    then have five: "5 \<le> n" by simp
    show ?thesis unfolding if_not_P [OF False] by (rule transparent_returns [OF w cap refl assms(8) five assms(9)])
  qed
qed

text \<open>A silent session and a radio that answers everything with E1, on a Type 5 tag.\<close>

definition noise :: "(unit \<times> iso_dep) tag_radio" where
  "noise = \<lparr>tr_transceive = \<lambda>c tx m crc t a p. (c, replicate m 0xE1), tr_wupa = \<lambda>c. (c, None), tr_reqa = \<lambda>c. (c, False),
     tr_delay_ms = \<lambda>c t. c, tr_stream = \<lambda>c tx t. (c, replicate 128 0xE1)\<rparr>"

theorem storage_commands_answer_witness:
  "(\<exists>w r. reader_ccid_handle_get_data_apdu TAG_KIND_TYPE5 (in_session (reader_tags_get_type4_info 9 one_ats_radio)) noise
      (((), fresh_iso_dep), fresh_tag_state) (Some [0xFF, 0xCA, 0, 0, 0]) 5 (Some (replicate 261 0)) 258 = Some (Some (w, r)) \<and>
      tag_state_ok (snd w) \<and> sw_answer 261 258 r) \<and>
   returns (reader_ccid_handle_escape_transparent_apdu TAG_KIND_TYPE5 noise
      (((), fresh_iso_dep), fresh_tag_state) (Some [0xFF, 0xCA, 0, 0, 0]) 5 (Some (replicate 261 0)) 258) (sw_answer 261 258)"
proof -
  have r: "bounded_radio noise" "radio_ok one_ats_radio"
    by (unfold_locales; simp add: noise_def) (simp add: radio_ok_def one_ats_radio_def)
  have l: "258 \<le> length (replicate 261 (0 :: u8))" "length (replicate 261 (0 :: u8)) < 65536"
    "5 \<le> length [0xFF :: u8, 0xCA, 0, 0, 0]" "(2 :: nat) \<le> 258" "(5 :: nat) < 65536" "length (replicate 261 (0 :: u8)) = 261"
    by simp_all
  show ?thesis
    using storage_commands_answer [OF r fresh_iso_dep_inv fresh_tag_state_ok l(4,1,2,3,5), of TAG_KIND_TYPE5 9 "()" "\<lambda>c. (c, False)"]
    unfolding l(6) by simp
qed

end
