(* ===== verification/CcidStorageStore.thy ===== *)
theory CcidStorageStore
  imports CcidStorageSafe TagType2Store
begin

text \<open>
  What a host writes to a Type 2 tag with UPDATE BINARY is in the memory of the tag, at the page the
  command names and nowhere else, and READ BINARY answers it. The tag is the one of TagType2Store;
  its memory is seen as bytes.
\<close>

section \<open>Pages as bytes\<close>

lemma concat_update4:
  "\<forall>x\<in>set P. length x = 4 \<Longrightarrow> u < length P \<Longrightarrow> length d = 4 \<Longrightarrow> concat (P[u := d]) = patch (concat P) (4 * u) d"
proof (induction P arbitrary: u)
  case (Cons x P)
  show ?case
  proof (cases u)
    case (Suc v)
    then have "concat (P[v := d]) = patch (concat P) (4 * v) d" using Cons by simp
    then show ?thesis using Suc Cons.prems by (simp add: patch_def add.commute)
  qed (use Cons.prems in \<open>simp add: patch_def\<close>)
qed simp

text \<open>An abort that is never asked for and leaves the tag alone.\<close>

definition no_abort :: "('c \<Rightarrow> 'c \<times> bool) \<Rightarrow> ('c \<Rightarrow> bytes list) \<Rightarrow> bool" where
  "no_abort aborted pages \<longleftrightarrow> (\<forall>c. \<not> snd (aborted c) \<and> pages (fst (aborted c)) = pages c)"

lemma put_page_tag:
  assumes t: "type2_tag R pages n" and u: "4 \<le> u" "u < n" "4 \<le> length d"
  shows "\<exists>c'. put_page R (c, s) u (Some d) = Some ((c', s), True) \<and> concat (pages c') = patch (concat (pages c)) (4 * u) (take 4 d)"
proof -
  have d: "length (take 4 d) = 4" using u by simp
  have n: "u \<le> 255" using u type2_tagD(2) [OF t] by linarith
  obtain c' where "reader_tags_type2_write_unit R (c, s) u (Some (take 4 d)) 4 = Some ((c', s), True)" "pages c' = (pages c)[u := take 4 d]"
    using write_unit_tag [OF t u(1,2) d] by blast
  moreover have "concat ((pages c)[u := take 4 d]) = patch (concat (pages c)) (4 * u) (take 4 d)"
    by (rule concat_update4) (use type2_tagD(3,4) [OF t] u d in auto)
  ultimately show ?thesis using n
    by (simp add: put_page_def reader_tags_type2_write_unit_def reader_tags_type2_write_page_def write_page_prefix [OF u(3)])
qed

lemma units_on_tag:
  assumes t: "type2_tag R pages n" and ab: "no_abort aborted pages"
    and lc: "lc mod 4 = 0" "lc \<le> 252" "lc \<le> length data" and p: "4 \<le> p" "4 * p + lc \<le> 4 * n"
  shows "off mod 4 = 0 \<Longrightarrow> off \<le> lc \<Longrightarrow> concat (pages c) = patch M (4 * p) (take off data) \<Longrightarrow> length M = 4 * n \<Longrightarrow>
    \<exists>c'. update_units aborted (put_page R) (c, s) p lc (Some data) off = Some ((c', s), True) \<and>
      concat (pages c') = patch M (4 * p) (take lc data)"
proof (induction "lc - off" arbitrary: c off rule: less_induct)
  case less
  show ?case
  proof (cases "off < lc")
    case True
    have off: "off + 4 \<le> lc" using True lc(1) less.prems(1) by presburger
    obtain c1 stop where ac: "aborted c = (c1, stop)" by fastforce
    then have a: "aborted c = (c1, False)" "pages c1 = pages c"
      using ab [unfolded no_abort_def, rule_format, of c] by simp_all
    have un: "p + off div 4 < n" using off p(2) by linarith
    then have u: "u16n (p + off div 4) = p + off div 4" "4 * (p + off div 4) = 4 * p + off"
    proof -
      show "4 * (p + off div 4) = 4 * p + off" using less.prems(1) by presburger
      show "u16n (p + off div 4) = p + off div 4"
        by (rule u16n_id) (use un type2_tagD(2) [OF t] in linarith)
    qed
    have d4: "4 \<le> length (drop off data)" using off lc(3) by simp
    obtain c2 where 2: "put_page R (c1, s) (p + off div 4) (Some (drop off data)) = Some ((c2, s), True)"
      "concat (pages c2) = patch (concat (pages c1)) (4 * p + off) (take 4 (drop off data))"
      using put_page_tag [OF t _ un d4, of c1 s] p(1) u(2) by auto
    have "patch (patch M (4 * p) (take off data)) (4 * p + off) (take 4 (drop off data)) = patch M (4 * p) (take off data @ take 4 (drop off data))"
      by (rule patch_patch) (use off lc(3) p(2) less.prems(4) in simp_all)
    then have m: "concat (pages c2) = patch M (4 * p) (take (off + 4) data)"
      using 2(2) a(2) less.prems(3) by (simp add: take_add)
    have dec: "lc - (off + 4) < lc - off" using True by linarith
    obtain c' where "update_units aborted (put_page R) (c2, s) p lc (Some data) (off + 4) = Some ((c', s), True)"
      "concat (pages c') = patch M (4 * p) (take lc data)"
      using less.hyps [OF dec, of c2] off less.prems m by auto
    moreover have "ptr_add (Some data) off = Some (drop off data)" using off lc(3) by (simp add: ptr_add_def)
    moreover have "\<not> off + 4 > 255" using off lc(2) by simp
    ultimately show ?thesis using True a(1) 2(1) u(1)
      by (subst update_units.simps) simp
  next
    case False
    then have "off = lc" using less.prems(2) by simp
    then show ?thesis using less.prems(3) by (subst update_units.simps) auto
  qed
qed

lemma nth_page:
  assumes "\<forall>x\<in>set P. length x = 4" "u < length P"
  shows "P ! u = take 4 (drop (4 * u) (concat P))"
proof -
  have "concat (drop u P) = P ! u @ concat (drop (Suc u) P)" using assms(2) by (simp add: Cons_nth_drop_Suc [symmetric])
  then show ?thesis using assms concat_drop4 [OF assms(1), of u] by (metis append_eq_conv_conj nth_mem)
qed

section \<open>The commands\<close>

lemma byte_length: "0 < l \<Longrightarrow> l < 256 \<Longrightarrow> unat (byte l) = l \<and> byte l \<noteq> 0"
  by (auto dest: arg_cong [where f = unat])

lemma span_on_tag:
  fixes mlen :: u8
  assumes "lc \<noteq> 0" "lc \<le> 252" "4 \<le> p" "4 * p + lc \<le> 16 + 8 * unat mlen" "4 * p + lc \<le> 904"
  shows "nfc_storage_type2_read_span_ok (8 * unat mlen) p lc"
proof -
  have m: "8 * unat mlen \<le> 2040" using unat_u8_le [of mlen] by linarith
  have "4 * p + lc \<le> 4 * min 226 (4 + (8 * unat mlen + 3) div 4)"
  proof -
    have "(8 * unat mlen + 3) div 4 = 2 * unat mlen" by presburger
    then show ?thesis using assms(4,5) by (simp add: min_def)
  qed
  moreover have "8 * unat mlen \<le> UINT16_MAX" "p \<le> UINT16_MAX" "lc \<le> UINT16_MAX" using m assms by linarith+
  moreover have "8 * unat mlen \<noteq> 0" using assms(1,3,4) by linarith
  ultimately show ?thesis using assms(1,3) by (simp add: type2_read_span_iff)
qed

lemma update_on_tag:
  assumes t: "type2_tag R pages n" and s: "tag_state_ok s" "ts_uid14_len s \<noteq> 0" "ts_sak s AND 0x20 = 0"
    and cc: "open_cc (pages c) mlen" and ab: "no_abort aborted pages"
    and d: "length data mod 4 = 0" "data \<noteq> []" "length data \<le> 252"
    and p: "4 \<le> p" "4 * p + length data \<le> 16 + 8 * unat mlen" "4 * p + length data \<le> 904"
    and b: "2 \<le> cap" "cap \<le> length b" "length b < 65536"
  shows "\<exists>c1. reader_ccid_handle_update_binary_apdu TAG_KIND_TYPE2 aborted R (c, s)
      (Some ([cla, 0xD6, 0, byte p, byte (length data)] @ data)) (5 + length data) (Some b) cap =
        Some ((c1, s), 2, Some (patch b 0 [0x90, 0x00])) \<and>
      concat (pages c1) = patch (concat (pages c)) (4 * p) data"
proof -
  let ?a = "[cla, 0xD6, 0, byte p, byte (length data)] @ data"
  have lc: "unat (byte (length data)) = length data" "byte (length data) \<noteq> 0"
    using byte_length [of "length data"] d by auto
  have p255: "p \<le> 255" using p(1,3) d(2) by (cases data) auto
  have off: "be16 0 (byte p) = p" using be16_bytes [of p] p255 by simp
  have no: "\<not> (Some ?a = None \<or> Some b = None \<or> cap < 2)" using b by simp
  have f: "nfc_iso7816_apdu_update_binary (Some ?a) (5 + length data) = Some (True, p, byte (length data), Some data)"
    using update_fields_eq [of "5 + length data" ?a] lc off by simp
  obtain c0 info where i: "reader_tags_get_type2_storage_info R (c, s) = Some ((c0, s), True, info)" "pages c0 = pages c"
    "t2_cc_valid info" "t2_data_area_size info = 8 * unat mlen" "t2_write_open info"
    using tag_storage_info [OF t s cc] by blast
  have span: "storage_type2_update_span_ok info p (length data)"
    using span_on_tag [of "length data" p mlen] d p i
    by (simp add: storage_type2_update_span_ok_def nfc_storage_type2_write_span_ok_def)
  have n: "4 * p + length data \<le> 4 * n" using cc p(2) type2_tagD(3) [OF t, of c] by (auto simp: open_cc_def)
  have lM: "length (concat (pages c)) = 4 * n"
    using length_concat_units [of "pages c"] type2_tagD(3,4) [OF t] by simp
  obtain c1 where 1: "update_units aborted (put_page R) (c0, s) p (length data) (Some data) 0 = Some ((c1, s), True)"
    "concat (pages c1) = patch (concat (pages c)) (4 * p) data"
    using units_on_tag [OF t ab d(1,3) order_refl p(1) n, of 0 c0 "concat (pages c)" s] i(2) lM n by auto
  have "reader_ccid_append_status (Some b) 0 cap 0x90 0x00 = Some (2, Some (patch b 0 [0x90, 0x00]))"
    using append_sw_eq [of cap b 0 "0x90" "0x00"] b by (simp add: reader_ccid_append_status_def)
  then have "update_binary_type2 aborted R (c, s) p (length data) (Some data) (Some b) cap =
      Some ((c1, s), 2, Some (patch b 0 [0x90, 0x00]))"
    using i(3,5) span 1(1) unfolding update_binary_type2_def i(1) by (simp add: update_answer_def at_state_def)
  then show ?thesis using 1(2) p255 lc(1)
    unfolding reader_ccid_handle_update_binary_apdu_def if_not_P [OF no] f Option.bind.bind_lunit prod.case
    by (simp add: storage_update_binary_offset_def)
qed

lemma read_on_tag:
  assumes t: "type2_tag R pages n" "bounded_radio R" and s: "tag_state_ok s" "ts_uid14_len s \<noteq> 0" "ts_sak s AND 0x20 = 0"
    and cc: "open_cc (pages c) mlen"
    and l: "l \<noteq> 0" "l \<le> 252" "4 \<le> p" "4 * p + l \<le> 16 + 8 * unat mlen" "4 * p + l \<le> 904"
    and b: "l + 2 \<le> cap" "cap \<le> length b" "length b < 65536"
  shows "\<exists>w2. reader_ccid_handle_read_binary_apdu TAG_KIND_TYPE2 R (c, s) (Some [cla, 0xB0, 0, byte p, byte l]) 5 (Some b) cap =
      Some (w2, l + 2, Some (patch b 0 (take l (drop (4 * p) (concat (pages c))) @ [0x90, 0x00]))) \<and>
    pages (fst w2) = pages c"
proof -
  have lc: "unat (byte l) = l" "byte l \<noteq> 0" using byte_length [of l] l by auto
  have p255: "p \<le> 255" using l by auto
  have off: "be16 0 (byte p) = p" using be16_bytes [of p] p255 by simp
  have no: "\<not> (Some [cla, 0xB0, 0, byte p, byte l] = None \<or> Some b = None \<or> cap < 2)" using b by simp
  have f: "storage_read_binary_fields TAG_KIND_TYPE2 (Some [cla, 0xB0, 0, byte p, byte l]) 5 = Some (True, p, byte l)"
    using off by (simp add: storage_read_binary_fields_def nfc_iso7816_apdu_read_binary_def)
  obtain c0 info where i: "reader_tags_get_type2_storage_info R (c, s) = Some ((c0, s), True, info)" "pages c0 = pages c"
    "t2_cc_valid info" "t2_data_area_size info = 8 * unat mlen" "t2_read_open info"
    using tag_storage_info [OF t(1) s cc] by blast
  have span: "storage_type2_read_span_ok info p l"
    using span_on_tag [of l p mlen] l i by (simp add: storage_type2_read_span_ok_def)
  have n: "4 * p + l \<le> 4 * n" using cc l(4) type2_tagD(3) [OF t(1), of c] by (auto simp: open_cc_def)
  have P4: "\<forall>d\<in>set (pages c). length d = 4" "length (pages c) = n" using type2_tagD(3,4) [OF t(1)] by blast+
  have lb: "l \<le> length b" using b by simp
  obtain w2 where r: "reader_tags_type2_read_binary R (c0, s) p (Some b) l =
      Some (w2, int l, Some (patch b 0 (take l (drop (4 * p) (concat (pages c))))))" "pages (fst w2) = pages c"
    using read_binary_tag [OF t s(1) _ lb b(3) n i(2)] l(1) concat_drop4 [OF P4(1), of p] by auto
  let ?X = "take l (drop (4 * p) (concat (pages c)))"
  have lX: "length ?X = l" using length_concat_units [of "pages c"] P4 n by simp
  have pp: "patch (patch b 0 ?X) l [0x90, 0x00] = patch b 0 (?X @ [0x90, 0x00])"
    by (rule patch_patch) (use lX b in simp_all)
  have lp: "length (patch b 0 ?X) = length b" using lX lb by simp
  have "reader_ccid_append_success_status (Some (patch b 0 ?X)) l cap = Some (l + 2, Some (patch b 0 (?X @ [0x90, 0x00])))"
    using append_sw_eq [of cap "patch b 0 ?X" l "0x90" "0x00"] b lp pp
    by (simp add: reader_ccid_append_success_status_def reader_ccid_append_status_def)
  then have "read_binary_type2 R (c, s) p l (Some b) cap = Some (w2, l + 2, Some (patch b 0 (?X @ [0x90, 0x00])))"
    using i(3,5) span r(1) b l unfolding read_binary_type2_def i(1) by (simp add: read_binary_answer_def at_state_def)
  moreover have "nero_nfc_try_add_size l 2 = Some (l + 2)" using l(2) by simp
  ultimately show ?thesis using r(2) b lc
    unfolding reader_ccid_handle_read_binary_apdu_def if_not_P [OF no] f Option.bind.bind_lunit prod.case Let_def
    by simp
qed

text \<open>
  C16: on a Type 2 tag with an open container UPDATE BINARY of whole pages inside the data area and
  below byte 904 (the last page the reader writes is 225) is answered with 90 00; exactly these
  bytes of the memory have changed, and READ BINARY of the same span answers them, followed by
  90 00.
\<close>

theorem update_then_read:
  assumes "type2_tag R pages n" "bounded_radio R"
    and "tag_state_ok s" "ts_uid14_len s \<noteq> 0" "ts_sak s AND 0x20 = 0" "open_cc (pages c) mlen" "no_abort aborted pages"
    and "length data mod 4 = 0" "data \<noteq> []" "length data \<le> 252"
    and "4 \<le> p" "4 * p + length data \<le> 16 + 8 * unat mlen" "4 * p + length data \<le> 904"
    and "length data + 2 \<le> cap" "cap \<le> length b" "length b < 65536"
  shows "\<exists>c1 w2. reader_ccid_handle_update_binary_apdu TAG_KIND_TYPE2 aborted R (c, s)
      (Some ([cla, 0xD6, 0, byte p, byte (length data)] @ data)) (5 + length data) (Some b) cap =
        Some ((c1, s), 2, Some (patch b 0 [0x90, 0x00])) \<and>
    concat (pages c1) = patch (concat (pages c)) (4 * p) data \<and>
    reader_ccid_handle_read_binary_apdu TAG_KIND_TYPE2 R (c1, s)
      (Some [cla, 0xB0, 0, byte p, byte (length data)]) 5 (Some b) cap =
        Some (w2, length data + 2, Some (patch b 0 (data @ [0x90, 0x00]))) \<and>
    pages (fst w2) = pages c1"
proof -
  obtain c1 where u: "reader_ccid_handle_update_binary_apdu TAG_KIND_TYPE2 aborted R (c, s)
      (Some ([cla, 0xD6, 0, byte p, byte (length data)] @ data)) (5 + length data) (Some b) cap =
        Some ((c1, s), 2, Some (patch b 0 [0x90, 0x00]))"
    "concat (pages c1) = patch (concat (pages c)) (4 * p) data"
    using update_on_tag [OF assms(1,3-13), of cap b cla] assms(14-16) by auto
  have P: "\<forall>d\<in>set (pages x). length d = 4" "length (pages x) = n" for x using type2_tagD(3,4) [OF assms(1)] by blast+
  have n: "4 * p + length data \<le> length (concat (pages c))" "3 < n"
    using assms(6,12) length_concat_units [of "pages c"] P [of c] type2_tagD(1) [OF assms(1)] by (auto simp: open_cc_def)
  have k: "take 4 (drop 12 (take (4 * p) X)) = take 4 (drop 12 X)" for X :: bytes
    using assms(11) by (simp add: drop_take)
  have "pages c1 ! 3 = pages c ! 3"
    using nth_page [OF P(1), of 3 c1] nth_page [OF P(1), of 3 c] P(2) n assms(11) by (simp add: u(2) patch_def k)
  then have cc: "open_cc (pages c1) mlen" using assms(6) P(2) by (simp add: open_cc_def)
  have bk: "take (length data) (drop (4 * p) (concat (pages c1))) = data" using n by (simp add: u(2) patch_def)
  obtain w2 where "reader_ccid_handle_read_binary_apdu TAG_KIND_TYPE2 R (c1, s)
      (Some [cla, 0xB0, 0, byte p, byte (length data)]) 5 (Some b) cap =
        Some (w2, length data + 2, Some (patch b 0 (data @ [0x90, 0x00])))" "pages (fst w2) = pages c1"
    using read_on_tag [OF assms(1-5) cc _ assms(10-16), of cla] assms(9) bk by auto
  then show ?thesis using u by blast
qed

theorem update_then_read_witness:
  "\<exists>c1 w2. reader_ccid_handle_update_binary_apdu TAG_KIND_TYPE2 (\<lambda>c. (c, False)) sample_tag
      ((\<lambda>p. [])(3 := [0xE1, 0x10, 6, 0]), fresh_tag_state)
      (Some ([0xFF, 0xD6, 0, byte 8, byte (length [1, 2, 3, 4 :: u8])] @ [1, 2, 3, 4])) (5 + length [1, 2, 3, 4 :: u8])
      (Some (replicate 64 0)) 64 = Some ((c1, fresh_tag_state), 2, Some (patch (replicate 64 0) 0 [0x90, 0x00])) \<and>
    concat (sample_pages c1) = patch (concat (sample_pages ((\<lambda>p. [])(3 := [0xE1, 0x10, 6, 0])))) (4 * 8) [1, 2, 3, 4] \<and>
    reader_ccid_handle_read_binary_apdu TAG_KIND_TYPE2 sample_tag (c1, fresh_tag_state)
      (Some [0xFF, 0xB0, 0, byte 8, byte (length [1, 2, 3, 4 :: u8])]) 5 (Some (replicate 64 0)) 64 =
      Some (w2, length [1, 2, 3, 4 :: u8] + 2, Some (patch (replicate 64 0) 0 ([1, 2, 3, 4] @ [0x90, 0x00]))) \<and>
    sample_pages (fst w2) = sample_pages c1"
  by (rule update_then_read [OF sample_tag_type2 sample_tag_bounded, where mlen = 6])
    (simp_all add: fresh_tag_state_ok open_cc_def sample_pages_def no_abort_def, simp_all add: fresh_tag_state_def)

end
