(* ===== verification/CcidHost.thy ===== *)
theory CcidHost
  imports CcidReader CcidStorageSafe
begin

text \<open>
  Where the commands of the host go: \<open>reader_ccid_dispatch_host_payload\<close> of
  \<open>reader_ccid_pn53x.c\<close>, which hands the payload of an XfrBlock command to the storage commands, to
  the relay of the security keys or to the PN53x emulation, by its class byte and the kind of the
  tag. The CCID service takes this function as a part of its \<open>card_services\<close>; the last section shows
  that the code keeps the contract \<open>services_ok\<close> states for it.

  The state is the context of the CCID service, whose card side is the front end, the session and
  the tag state. The PN53x emulation is an argument.
\<close>

section \<open>The dispatcher\<close>

type_synonym 'c card_side = "('c \<times> iso_dep) \<times> tag_state"

type_synonym 'c host_answer = "(nat \<times> cptr \<times> 'c card_side ccid) option option"

definition apdu_selects_ndef_app :: "cptr \<Rightarrow> nat \<Rightarrow> bool option" where
  "apdu_selects_ndef_app apdu apdu_len =
     (if apdu = None \<or> apdu_len < 5 then Some False
      else do {
        cla \<leftarrow> nero_nfc_u8_at apdu apdu_len 0;
        ins \<leftarrow> nero_nfc_u8_at apdu apdu_len 1;
        p1 \<leftarrow> nero_nfc_u8_at apdu apdu_len 2;
        if cla \<noteq> 0x00 \<or> ins \<noteq> 0xA4 \<or> p1 \<noteq> 0x04 then Some False
        else do {
          (ok, lc) \<leftarrow> nfc_iso7816_apdu_lc apdu apdu_len;
          if \<not> ok \<or> lc = 0 \<or> \<not> nfc_iso7816_apdu_lc_body_ok apdu_len lc \<and> \<not> nfc_iso7816_apdu_lc_body_with_le_ok apdu_len lc
          then Some False
          else nfc_pcsc_is_ndef_aid (nfc_iso7816_apdu_data_ptr apdu apdu_len lc) (unat lc)
        }
      })"

text \<open>An answer the reader makes itself, and one of a handler that works on the card.\<close>

definition own_answer :: "'c card_side ccid \<Rightarrow> (nat \<times> cptr) option \<Rightarrow> 'c host_answer" where
  "own_answer s r = map_option (\<lambda>(rlen, rsp). Some (rlen, rsp, s)) r"

definition card_answer :: "'c card_side ccid \<Rightarrow> ('c card_side \<times> nat \<times> cptr) option option \<Rightarrow> 'c host_answer" where
  "card_answer s r = after r (\<lambda>(w, rlen, rsp). Some (Some (rlen, rsp, s\<lparr>cc_card := w\<rparr>)))"

text \<open>The end of the function: any answer is an activity of the host.\<close>

definition noting_activity :: "'c host_answer \<Rightarrow> 'c host_answer" where
  "noting_activity r = after r (\<lambda>(rlen, rsp, s).
     Some (Some (rlen, rsp, if rlen \<noteq> 0 then reader_ccid_note_host_session_activity s else s)))"

text \<open>An APDU for a Type 4 tag: a token in use refuses the NDEF application, everything else is relayed.\<close>

definition dispatch_type4 ::
    "nat \<Rightarrow> 'c radio \<Rightarrow> cptr \<Rightarrow> nat \<Rightarrow> cptr \<Rightarrow> nat \<Rightarrow> 'c card_side ccid \<Rightarrow> 'c host_answer" where
  "dispatch_type4 fuel Q payload payload_len rsp rsp_cap s = do {
     ndef \<leftarrow> (if cc_type4_security_key_app s then apdu_selects_ndef_app payload payload_len else Some False);
     if ndef then own_answer s (reader_ccid_append_status rsp 0 rsp_cap 0x69 0xFF)
     else do {
       (selects_fido, _) \<leftarrow> nfc_ctap_apdu_is_select_fido_aid payload payload_len;
       after (in_session (\<lambda>w. reader_security_key_apdu_exchange fuel Q w payload payload_len rsp rsp_cap) (cc_card s))
         (\<lambda>(w, rsp, iso_len). do {
            sw_ok \<leftarrow> (if selects_fido then nfc_iso7816_response_sw_ok rsp (int iso_len) else Some False);
            let s = s\<lparr>cc_card := w\<rparr>;
            let s = (if sw_ok then s\<lparr>cc_type4_security_key_app := True\<rparr> else s);
            if iso_len \<ge> 2 then Some (Some (iso_len, rsp, s))
            else own_answer s (reader_ccid_append_status rsp 0 rsp_cap 0x69 0xFF)
          })
     }
   }"

text \<open>A command of the reader's own class FF.\<close>

definition dispatch_reader_command ::
    "(cptr \<Rightarrow> nat \<Rightarrow> cptr \<Rightarrow> nat \<Rightarrow> 'c card_side ccid \<Rightarrow> 'c host_answer) \<Rightarrow> nat \<Rightarrow> 'c radio \<Rightarrow> ('c \<times> iso_dep) tag_radio \<Rightarrow>
      ('c \<times> iso_dep \<Rightarrow> ('c \<times> iso_dep) \<times> bool) \<Rightarrow> cptr \<Rightarrow> nat \<Rightarrow> cptr \<Rightarrow> nat \<Rightarrow> 'c card_side ccid \<Rightarrow> 'c host_answer" where
  "dispatch_reader_command acr122 fuel Q R aborted payload payload_len rsp rsp_cap s = do {
     ins \<leftarrow> nero_nfc_u8_at payload payload_len 1;
     if ins = 0x00 then acr122 payload payload_len rsp rsp_cap s
     else if ins = 0xCA then card_answer s (reader_ccid_handle_get_data_apdu (cc_tag_kind s)
       (in_session (reader_tags_get_type4_info fuel Q)) R (cc_card s) payload payload_len rsp rsp_cap)
     else if ins = 0xB0 then card_answer s (map_option Some
       (reader_ccid_handle_read_binary_apdu (cc_tag_kind s) R (cc_card s) payload payload_len rsp rsp_cap))
     else if ins = 0xD6 then card_answer s (map_option Some
       (reader_ccid_handle_update_binary_apdu (cc_tag_kind s) aborted R (cc_card s) payload payload_len rsp rsp_cap))
     else if ins = 0xC2 then card_answer s (map_option Some
       (reader_ccid_handle_escape_transparent_apdu (cc_tag_kind s) R (cc_card s) payload payload_len rsp rsp_cap))
     else own_answer s (reader_ccid_append_status rsp 0 rsp_cap 0x6D 0x00)
   }"

definition reader_ccid_dispatch_host_payload ::
    "(cptr \<Rightarrow> nat \<Rightarrow> cptr \<Rightarrow> nat \<Rightarrow> 'c card_side ccid \<Rightarrow> 'c host_answer) \<Rightarrow> nat \<Rightarrow> 'c radio \<Rightarrow> ('c \<times> iso_dep) tag_radio \<Rightarrow>
      ('c \<times> iso_dep \<Rightarrow> ('c \<times> iso_dep) \<times> bool) \<Rightarrow> cptr \<Rightarrow> nat \<Rightarrow> cptr \<Rightarrow> nat \<Rightarrow> 'c card_side ccid \<Rightarrow> 'c host_answer" where
  "reader_ccid_dispatch_host_payload acr122 fuel Q R aborted payload payload_len rsp rsp_cap s =
     (if payload = None \<or> payload_len < 2 \<or> rsp = None \<or> rsp_cap < 2 then
        (if rsp \<noteq> None \<and> rsp_cap \<ge> 2 then own_answer s (reader_ccid_apdu_failure_response rsp rsp_cap)
         else Some (Some (0, rsp, s)))
      else do {
        cla \<leftarrow> nero_nfc_u8_at payload payload_len 0;
        if cla = 0xFF then
          noting_activity (dispatch_reader_command acr122 fuel Q R aborted payload payload_len rsp rsp_cap s)
        else if cc_tag_kind s = TAG_KIND_TYPE2 \<or> cc_tag_kind s = TAG_KIND_TYPE5 then
          (if cla \<noteq> 0x00 then own_answer s (reader_ccid_append_status rsp 0 rsp_cap 0x6E 0x00)
           else noting_activity (own_answer s (reader_ccid_append_status rsp 0 rsp_cap 0x6D 0x00)))
        else if cc_tag_kind s = TAG_KIND_TYPE4 then
          noting_activity (dispatch_type4 fuel Q payload payload_len rsp rsp_cap s)
        else noting_activity (own_answer s (reader_ccid_append_status rsp 0 rsp_cap 0x6D 0x00))
      })"

section \<open>The contract of the service\<close>

text \<open>What \<open>services_ok\<close> asks of one exchange: the buffer in its size, a length that fits, and no other
  effect on the context.\<close>

definition host_answered :: "nat \<Rightarrow> nat \<Rightarrow> 'c card_side ccid \<Rightarrow> nat \<times> cptr \<times> 'c card_side ccid \<Rightarrow> bool" where
  "host_answered m cap s = (\<lambda>(rlen, rsp, s'). (\<exists>b. rsp = Some b \<and> length b = m) \<and> rlen \<le> cap \<and> exchange_effect s s')"

lemma host_answered_iff [simp]:
  "host_answered m cap s (rlen, rsp, s') \<longleftrightarrow> (\<exists>b. rsp = Some b \<and> length b = m) \<and> rlen \<le> cap \<and> exchange_effect s s'"
  by (simp add: host_answered_def)

lemma effect_card:
  "cc_sess s \<Longrightarrow> exchange_effect s (s\<lparr>cc_card := w\<rparr>)"
  "cc_sess s \<Longrightarrow> exchange_effect s (s\<lparr>cc_card := w, cc_type4_security_key_app := app\<rparr>)"
  "exchange_effect s s"
proof -
  have e: "exchange_effect s (s\<lparr>cc_card := w, cc_type4_security_key_app := app\<rparr>)"
    if "cc_sess s \<or> app = cc_type4_security_key_app s" for app w
    unfolding exchange_effect_def
    by (rule exI [of _ app], rule exI [of _ "cc_remove_deferred s"], rule exI [of _ "cc_remove_defer_until_ms s"],
        rule exI [of _ 0], rule exI [of _ "cc_inbox s"], rule exI [of _ "cc_abort s"], rule exI [of _ "cc_now s"],
        rule exI [of _ w]) (use that in simp)
  show "cc_sess s \<Longrightarrow> exchange_effect s (s\<lparr>cc_card := w, cc_type4_security_key_app := app\<rparr>)" by (rule e) simp
  show "exchange_effect s (s\<lparr>cc_card := w\<rparr>)" "exchange_effect s s"
    using e [of "cc_type4_security_key_app s" w] e [of "cc_type4_security_key_app s" "cc_card s"] by simp_all
qed

lemma effect_noted:
  "exchange_effect s t \<Longrightarrow> exchange_effect s (reader_ccid_note_host_session_activity t)"
  unfolding exchange_effect_def reader_ccid_note_host_session_activity_def
proof (elim exE conjE, goal_cases)
  case (1 app deferred until n inbox abort now card)
  then show ?case
    by (cases "cc_sess s")
       (rule exI [of _ app], rule exI [of _ "if cc_sess s then False else deferred"],
        rule exI [of _ "if cc_sess s then now + 250 else until"],
        rule exI [of _ n], rule exI [of _ inbox], rule exI [of _ abort], rule exI [of _ now], rule exI [of _ card], simp)+
qed


lemma own_settles:
  assumes "fits m cap" "length b = m" "exchange_effect s t"
  shows "settles (own_answer t (reader_ccid_append_status (Some b) 0 cap s1 s2)) (host_answered m cap s)"
  using status_answers [OF assms(1,2), of s1 s2] assms
  by (auto simp: own_answer_def settles_def yields_def sw_answer_def reply_ok_def fits_def)

lemma card_settles:
  assumes "cc_sess s" "fits m cap" "settles r (\<lambda>(w, x). reply_ok m cap x)"
  shows "settles (card_answer s r) (host_answered m cap s)"
  unfolding card_answer_def
  by (rule settles_after [OF assms(3)]) (use assms(1,2) in \<open>auto simp: reply_ok_def effect_card\<close>)

lemma noting_settles:
  "settles r (host_answered m cap s) \<Longrightarrow> settles (noting_activity r) (host_answered m cap s)"
  unfolding noting_activity_def by (erule settles_after) (auto simp: effect_noted)

lemma handler_settles:
  assumes "cc_sess s" "fits m cap" "returns r (reply_ok m cap)"
  shows "settles (card_answer s (map_option Some r)) (host_answered m cap s)"
  by (rule card_settles [OF assms(1,2) settles_mono [OF settles_return [OF assms(3)]]]) auto

lemma ndef_app_total:
  assumes "n \<le> length a" "n < 65536"
  shows "\<exists>x. apdu_selects_ndef_app (Some a) n = Some x"
  using assms
  by (auto simp: apdu_selects_ndef_app_def nfc_pcsc_is_ndef_aid_def nfc_pcsc_aid_matches_def NFC_PCSC_NDEF_APP_AID_def
      NFC_PCSC_NDEF_APP_AID_V0_def)

lemma relay_answers:
  assumes Q: "radio_ok Q" and w: "iso_inv d" "tag_state_ok t"
    and a: "n \<le> length a" "n < 65536" and cap: "fits m cap" and b: "length b = m"
  shows "settles (in_session (\<lambda>w. reader_security_key_apdu_exchange fuel Q w (Some a) n (Some b) cap) ((c, d), t))
    (\<lambda>(w, rsp, k). (\<exists>b'. rsp = Some b' \<and> length b' = m) \<and> k \<le> cap)"
proof -
  obtain fido le where fido: "nfc_ctap_apdu_is_select_fido_aid (Some a) n = Some (fido, le)"
    using is_select_fido_iff [of n a] a by fastforce
  obtain is_ctap cmd where ctap: "nfc_ctap_apdu_command (Some a) n = Some (is_ctap, cmd)"
    using apdu_command_total [of n a] a by fastforce
  have v: "iso_inv (snd (c, session_view t d))" using w by (simp add: iso_inv_def session_view_def tag_state_ok_def)
  have n: "n \<le> 65535" and r: "cap \<le> length b" "cap \<le> 65535" "2 \<le> cap" using a b cap by (auto simp: fits_def)
  show ?thesis unfolding in_session_def prod.case
    by (rule settles_after [OF relay_settles [OF Q v a(1) n r fido ctap]]) (use b in auto)
qed

lemma type4_settles:
  fixes s :: "'c card_side ccid"
  assumes Q: "radio_ok Q" and w: "cc_card s = ((c, d), t)" "iso_inv d" "tag_state_ok t" and sess: "cc_sess s"
    and a: "n \<le> length a" "n < 65536" and cap: "fits m cap" and b: "length b = m"
  shows "settles (dispatch_type4 fuel Q (Some a) n (Some b) cap s) (host_answered m cap s)"
proof -
  obtain ndef where ndef: "(if cc_type4_security_key_app s then apdu_selects_ndef_app (Some a) n else Some False) = Some ndef"
    using ndef_app_total [OF a] by (cases "cc_type4_security_key_app s") auto
  obtain fido le where fido: "nfc_ctap_apdu_is_select_fido_aid (Some a) n = Some (fido, le)"
    using is_select_fido_iff [of n a] a by fastforce
  show ?thesis
    unfolding dispatch_type4_def ndef fido Option.bind.bind_lunit prod.case w(1)
  proof (rule settles_if, rule own_settles [OF cap b effect_card(3)],
      rule settles_after [OF relay_answers [OF Q w(2,3) a cap b]], goal_cases)
    case (1 x)
    then obtain w' b' k where x: "x = (w', Some b', k)" "length b' = m" "k \<le> cap" by auto
    have k: "k \<le> length b'" "k \<le> UINT16_MAX" using x cap by (auto simp: fits_def)
    obtain sw where sw: "(if fido then nfc_iso7816_response_sw_ok (Some b') (int k) else Some False) = Some sw"
      using response_sw_eq [OF k] by (cases fido; cases "2 \<le> k") (auto simp: nfc_iso7816_response_sw_ok_def)
    have e: "exchange_effect s (if sw then s\<lparr>cc_card := w', cc_type4_security_key_app := True\<rparr> else s\<lparr>cc_card := w'\<rparr>)"
      using effect_card(1,2) [OF sess] by simp
    show ?case
      unfolding x(1) prod.case sw Option.bind.bind_lunit Let_def
      by (rule settles_if) (use e x own_settles [OF cap x(2) e] in \<open>auto split: if_splits\<close>)
  qed
qed

text \<open>
  The dispatcher keeps the contract of the service on every payload, kind of tag and card: when the
  exchange comes back, the response is inside its buffer and the context changed as \<open>services_ok\<close>
  allows. The session and the tag state are well formed, as every operation on them leaves them.
\<close>

lemma dispatch_answers:
  fixes s :: "'c card_side ccid"
  assumes R: "bounded_radio R" and Q: "radio_ok Q" and w: "cc_card s = ((c, d), t)" "iso_inv d" "tag_state_ok t"
    and sess: "cc_sess s" and a: "n \<le> length a" "n < 65536" and b: "cap \<le> length b" "length b < 65536"
    and acr122: "settles (acr122 (Some a) n (Some b) cap s) (host_answered (length b) cap s)"
  shows "settles (reader_ccid_dispatch_host_payload acr122 fuel Q R aborted (Some a) n (Some b) cap s)
    (host_answered (length b) cap s)"
proof (cases "n < 2 \<or> cap < 2")
  case True
  then show ?thesis
    using own_settles [of "length b" cap b s s "0x6F" 0] b effect_card(3)
    by (auto simp: reader_ccid_dispatch_host_payload_def reader_ccid_apdu_failure_response_def fits_def)
next
  case False
  then have cap: "fits (length b) cap" and n: "2 \<le> n" using b by (auto simp: fits_def)
  have no: "\<not> (Some a = None \<or> n < 2 \<or> Some b = None \<or> cap < 2)" using False by simp
  have at: "nero_nfc_u8_at (Some a) n 0 = Some (a ! 0)" "nero_nfc_u8_at (Some a) n 1 = Some (a ! 1)" using a n by auto
  have ts: "tag_state_ok (snd (cc_card s))" using w by simp
  note own = own_settles [OF cap refl effect_card(3)]
  have get: "settles (card_answer s (reader_ccid_handle_get_data_apdu (cc_tag_kind s)
      (in_session (reader_tags_get_type4_info fuel Q)) R (cc_card s) (Some a) n (Some b) cap)) (host_answered (length b) cap s)"
  proof (rule card_settles [OF sess cap], cases "n < 5")
    case True
    then show "settles (reader_ccid_handle_get_data_apdu (cc_tag_kind s) (in_session (reader_tags_get_type4_info fuel Q)) R
        (cc_card s) (Some a) n (Some b) cap) (\<lambda>(w, x). reply_ok (length b) cap x)"
      by (simp add: reader_ccid_handle_get_data_apdu_def reply_ok_def)
  next
    case five: False
    show "settles (reader_ccid_handle_get_data_apdu (cc_tag_kind s) (in_session (reader_tags_get_type4_info fuel Q)) R
        (cc_card s) (Some a) n (Some b) cap) (\<lambda>(w, x). reply_ok (length b) cap x)"
      unfolding w(1)
      by (rule settles_mono [OF get_data_settles [OF R Q w(2,3) cap refl a(1) _ a(2)]]) (use five in auto)
  qed
  have raw: "settles (card_answer s (map_option Some (reader_ccid_handle_escape_transparent_apdu (cc_tag_kind s) R
      (cc_card s) (Some a) n (Some b) cap))) (host_answered (length b) cap s)"
  proof (rule handler_settles [OF sess cap], cases "n < 5")
    case True
    then show "returns (reader_ccid_handle_escape_transparent_apdu (cc_tag_kind s) R (cc_card s) (Some a) n (Some b) cap)
        (reply_ok (length b) cap)"
      using w by (simp add: reader_ccid_handle_escape_transparent_apdu_def reply_ok_def)
  next
    case five: False
    show "returns (reader_ccid_handle_escape_transparent_apdu (cc_tag_kind s) R (cc_card s) (Some a) n (Some b) cap)
        (reply_ok (length b) cap)"
      by (rule returns_answered [OF transparent_returns [OF ts cap refl a(1) _ a(2)]]) (use five in simp)
  qed
  have cmd: "settles (dispatch_reader_command acr122 fuel Q R aborted (Some a) n (Some b) cap s) (host_answered (length b) cap s)"
    unfolding dispatch_reader_command_def at Option.bind.bind_lunit
    by (intro settles_if acr122 get raw own handler_settles [OF sess cap]
        returns_answered [OF read_binary_returns_any [OF R ts cap refl a]]
        returns_answered [OF update_binary_returns_any [OF R ts cap refl a]])
  show ?thesis
    unfolding reader_ccid_dispatch_host_payload_def if_not_P [OF no] at Option.bind.bind_lunit
    by (intro settles_if noting_settles cmd own type4_settles [OF Q w sess a cap refl])
qed

text \<open>The same for the ATR of a session, which the service copies into its response.\<close>

lemma atr_tck_total:
  "i + n \<le> cap \<Longrightarrow> cap \<le> length d \<Longrightarrow> cap < 65536 \<Longrightarrow> \<exists>tck'. atr_tck_loop (Some d) cap i n tck = Some (True, tck')"
  by (induction n arbitrary: i tck) simp_all

lemma copy_atr_answers:
  assumes "iso_inv s" and "cap \<le> length d" and "cap < 65536"
  shows "\<exists>ok d' n. reader_security_key_pcsc_contactless_copy_atr (c, s) (Some d) cap 0 = Some (ok, Some d', n) \<and>
    length d' = length d \<and> n \<le> cap"
proof -
  define h where "h = (if 15 < id_ats_len s then 15 else id_ats_len s)"
  have h: "h \<le> length (id_ats_data s)" using assms(1) by (simp add: h_def iso_inv_def)
  show ?thesis
  proof (cases "id_ats_len s = 0 \<or> cap < h + 4")
    case True
    then show ?thesis
      by (auto simp: reader_security_key_pcsc_contactless_copy_atr_def reader_security_key_copy_ats_as_pcsc_atr_def
          h_def [symmetric] Let_def)
  next
    case False
    then have fit: "h + 4 \<le> cap" "cap \<le> SIZE_MAX" using assms(3) by simp_all
    define d1 where "d1 = patch (d[0 := 0x3B, 1 := 0x80 OR byte h, 2 := 0x01]) 3 (take h (id_ats_data s))"
    have d1: "length d1 = length d" using fit h assms(2) by (simp add: d1_def)
    obtain tck where "atr_tck_loop (Some d1) cap 1 (2 + h) 0 = Some (True, tck)"
      using atr_tck_total [of 1 "2 + h" cap d1 0] fit d1 assms by auto
    then show ?thesis
      using False fit d1 h assms(2)
      by (simp add: reader_security_key_pcsc_contactless_copy_atr_def reader_security_key_copy_ats_as_pcsc_atr_def
          h_def [symmetric] Let_def d1_def)
  qed
qed

end
