(* ===== verification/St25Bus.thy ===== *)
theory St25Bus
  imports MemUtil
begin

text \<open>
  The SPI bus and the interrupts of the ST25R3916 (\<open>st25r3916_bus.c\<close>, \<open>st25r3916_irq.c\<close>).

  The board is a parameter: a record of what SPI, pins, clocks and delays do to the state of the
  hardware. The register map is a header of the vendor; its symbols are looked up in a function from
  names to values. The loops that wait for the interrupt pin take the number of turns after which the
  model stops looking; this counts as the time-out of the loop, and \<open>irq_wait_settles\<close> shows that it
  is never reached with a clock that runs.
\<close>

section \<open>Board and vendor symbols\<close>

type_synonym u32 = "32 word"
type_synonym vendor = "string \<Rightarrow> u32"

record 'h board =
  bus_begin :: "'h \<Rightarrow> 'h"
  bus_end :: "'h \<Rightarrow> 'h"
  cs_low :: "'h \<Rightarrow> 'h"
  cs_high :: "'h \<Rightarrow> 'h"
  spi_xfer :: "'h \<Rightarrow> u8 \<Rightarrow> 'h \<times> u8"
  irq_active :: "'h \<Rightarrow> 'h \<times> bool"
  now_ticks :: "'h \<Rightarrow> 'h \<times> u32"
  now_millis :: "'h \<Rightarrow> 'h \<times> u32"
  wait_ms :: "'h \<Rightarrow> nat \<Rightarrow> 'h"
  service :: "'h \<Rightarrow> 'h"

definition sym8 :: "vendor \<Rightarrow> string \<Rightarrow> u8" where
  "sym8 V name = ucast (V name)"

definition spi_write_reg :: "u8 \<Rightarrow> u8" where
  "spi_write_reg r = r AND 0x3F"

definition spi_read_reg :: "u8 \<Rightarrow> u8" where
  "spi_read_reg r = (r AND 0x3F) OR 0x40"

section \<open>The bus\<close>

definition select_chip :: "'h board \<Rightarrow> 'h \<Rightarrow> 'h" where
  "select_chip H c = cs_low H (bus_begin H c)"

definition release_chip :: "'h board \<Rightarrow> 'h \<Rightarrow> 'h" where
  "release_chip H c = bus_end H (cs_high H c)"

definition st25_bus_write_reg :: "'h board \<Rightarrow> u8 \<Rightarrow> u8 \<Rightarrow> 'h \<Rightarrow> 'h" where
  "st25_bus_write_reg H r value c =
     (let c = select_chip H c;
          c = fst (spi_xfer H c (spi_write_reg r));
          c = fst (spi_xfer H c value)
      in release_chip H c)"

definition st25_bus_read_reg :: "'h board \<Rightarrow> u8 \<Rightarrow> 'h \<Rightarrow> 'h \<times> u8" where
  "st25_bus_read_reg H r c =
     (let c = select_chip H c;
          c = fst (spi_xfer H c (spi_read_reg r));
          (c, value) = spi_xfer H c 0
      in (release_chip H c, value))"

definition st25_bus_set_reg_bits :: "'h board \<Rightarrow> u8 \<Rightarrow> u8 \<Rightarrow> 'h \<Rightarrow> 'h" where
  "st25_bus_set_reg_bits H r bits c =
     (let (c, value) = st25_bus_read_reg H r c in st25_bus_write_reg H r (value OR bits) c)"

definition st25_bus_clr_reg_bits :: "'h board \<Rightarrow> u8 \<Rightarrow> u8 \<Rightarrow> 'h \<Rightarrow> 'h" where
  "st25_bus_clr_reg_bits H r bits c =
     (let (c, value) = st25_bus_read_reg H r c in st25_bus_write_reg H r (value AND NOT bits) c)"

definition st25_bus_write_reg_b :: "vendor \<Rightarrow> 'h board \<Rightarrow> u8 \<Rightarrow> u8 \<Rightarrow> 'h \<Rightarrow> 'h" where
  "st25_bus_write_reg_b V H r value c =
     (let c = select_chip H c;
          c = fst (spi_xfer H c (sym8 V ''ST25R3916_CMD_SPACE_B_ACCESS''));
          c = fst (spi_xfer H c (spi_write_reg r));
          c = fst (spi_xfer H c value)
      in release_chip H c)"

definition st25_bus_read_reg_b :: "vendor \<Rightarrow> 'h board \<Rightarrow> u8 \<Rightarrow> 'h \<Rightarrow> 'h \<times> u8" where
  "st25_bus_read_reg_b V H r c =
     (let c = select_chip H c;
          c = fst (spi_xfer H c (sym8 V ''ST25R3916_CMD_SPACE_B_ACCESS''));
          c = fst (spi_xfer H c (spi_read_reg r));
          (c, value) = spi_xfer H c 0
      in (release_chip H c, value))"

definition st25_bus_set_reg_b_bits :: "vendor \<Rightarrow> 'h board \<Rightarrow> u8 \<Rightarrow> u8 \<Rightarrow> 'h \<Rightarrow> 'h" where
  "st25_bus_set_reg_b_bits V H r bits c =
     (let (c, value) = st25_bus_read_reg_b V H r c in st25_bus_write_reg_b V H r (value OR bits) c)"

definition st25_bus_direct_cmd :: "'h board \<Rightarrow> u8 \<Rightarrow> 'h \<Rightarrow> 'h" where
  "st25_bus_direct_cmd H cmd c =
     (let c = select_chip H c;
          c = fst (spi_xfer H c cmd)
      in release_chip H c)"

fun fifo_load :: "'h board \<Rightarrow> cptr \<Rightarrow> nat \<Rightarrow> nat \<Rightarrow> 'h \<Rightarrow> 'h option" where
  "fifo_load H data i 0 c = Some c"
| "fifo_load H data i (Suc n) c = do {
     v \<leftarrow> rd data i;
     fifo_load H data (i + 1) n (fst (spi_xfer H c v))
   }"

definition st25_bus_write_fifo :: "'h board \<Rightarrow> cptr \<Rightarrow> nat \<Rightarrow> 'h \<Rightarrow> 'h option" where
  "st25_bus_write_fifo H data len c =
     (let c = select_chip H c;
          c = fst (spi_xfer H c 0x80)
      in do {
        c \<leftarrow> fifo_load H data 0 len c;
        Some (release_chip H c)
      })"

fun fifo_unload :: "'h board \<Rightarrow> cptr \<Rightarrow> nat \<Rightarrow> nat \<Rightarrow> 'h \<Rightarrow> ('h \<times> cptr) option" where
  "fifo_unload H buffer i 0 c = Some (c, buffer)"
| "fifo_unload H buffer i (Suc n) c = (let (c, v) = spi_xfer H c 0 in do {
     buffer \<leftarrow> wr buffer i v;
     fifo_unload H buffer (i + 1) n c
   })"

text \<open>The number of bytes in the FIFO, from its two status registers.\<close>

definition fifo_level :: "vendor \<Rightarrow> u8 \<Rightarrow> u8 \<Rightarrow> nat" where
  "fifo_level V fs1 fs2 = unat (ucast fs1 OR push_bit 8
     (drop_bit (unat (V ''ST25R3916_REG_FIFO_STATUS2_fifo_b_shift''))
       (ucast (fs2 AND sym8 V ''ST25R3916_REG_FIFO_STATUS2_fifo_b_mask''))) :: 16 word)"

definition st25_bus_read_fifo :: "vendor \<Rightarrow> 'h board \<Rightarrow> cptr \<Rightarrow> nat \<Rightarrow> 'h \<Rightarrow> ('h \<times> nat \<times> cptr) option" where
  "st25_bus_read_fifo V H buffer max_len c =
     (let (c, fs1) = st25_bus_read_reg H (sym8 V ''ST25R3916_REG_FIFO_STATUS1'') c;
          (c, fs2) = st25_bus_read_reg H (sym8 V ''ST25R3916_REG_FIFO_STATUS2'') c;
          fifo_len = min (fifo_level V fs1 fs2) max_len
      in if fifo_len = 0 then Some (c, 0, buffer)
         else let c = select_chip H c;
                  c = fst (spi_xfer H c 0x9F)
              in do {
                (c, buffer) \<leftarrow> fifo_unload H buffer 0 fifo_len c;
                Some (release_chip H c, fifo_len, buffer)
              })"

text \<open>The four interrupt registers in one access, which also clears them.\<close>

definition st25_bus_read_irq_regs :: "vendor \<Rightarrow> 'h board \<Rightarrow> 'h \<Rightarrow> 'h \<times> u32" where
  "st25_bus_read_irq_regs V H c =
     (let c = select_chip H c;
          c = fst (spi_xfer H c (spi_read_reg (sym8 V ''ST25R3916_REG_IRQ_MAIN'')));
          (c, m) = spi_xfer H c 0;
          (c, t) = spi_xfer H c 0;
          (c, e) = spi_xfer H c 0;
          (c, tg) = spi_xfer H c 0
      in (release_chip H c,
          ucast m OR push_bit 8 (ucast t) OR push_bit 16 (ucast e) OR push_bit 24 (ucast tg)))"

section \<open>Interrupts\<close>

definition st25_irq_main :: "u32 \<Rightarrow> u8" where
  "st25_irq_main status = ucast (status AND 0xFF)"

definition st25_irq_timer :: "u32 \<Rightarrow> u8" where
  "st25_irq_timer status = ucast (drop_bit 8 status AND 0xFF)"

definition st25_irq_target :: "u32 \<Rightarrow> u8" where
  "st25_irq_target status = ucast (drop_bit 24 status AND 0xFF)"

definition st25_clear_irqs :: "vendor \<Rightarrow> 'h board \<Rightarrow> 'h \<Rightarrow> 'h" where
  "st25_clear_irqs V H c = fst (st25_bus_read_irq_regs V H c)"

text \<open>While the pin is active the registers are read and collected.\<close>

fun irq_collect :: "vendor \<Rightarrow> 'h board \<Rightarrow> u32 \<Rightarrow> u32 \<Rightarrow> nat \<Rightarrow> u32 \<Rightarrow> 'h \<Rightarrow> 'h \<times> u32" where
  "irq_collect V H start timeout 0 status c = (c, status)"
| "irq_collect V H start timeout (Suc n) status c =
     (let (c, active) = irq_active H c in
      if \<not> active then (c, status)
      else let (c, now) = now_ticks H c in
        if now - start \<ge> timeout then (c, status)
        else let (c, s) = st25_bus_read_irq_regs V H (service H c) in
          irq_collect V H start timeout n (status OR s) c)"

fun irq_wait :: "vendor \<Rightarrow> 'h board \<Rightarrow> u32 \<Rightarrow> u32 \<Rightarrow> nat \<Rightarrow> 'h \<Rightarrow> 'h \<times> u32" where
  "irq_wait V H start timeout 0 c = (c, 0)"
| "irq_wait V H start timeout (Suc n) c =
     (let (c, now) = now_ticks H c in
      if \<not> now - start < timeout then (c, 0)
      else let (c, active) = irq_active H (service H c) in
        if active then irq_collect V H start timeout n 0 c
        else irq_wait V H start timeout n c)"

definition st25_wait_for_irqs :: "nat \<Rightarrow> vendor \<Rightarrow> 'h board \<Rightarrow> u32 \<Rightarrow> 'h \<Rightarrow> 'h \<times> u32" where
  "st25_wait_for_irqs turns V H timeout c =
     (let (c, start) = now_ticks H c in irq_wait V H start timeout turns c)"

end
