(* ===== verification/St25Runtime.thy ===== *)
theory St25Runtime
  imports St25Bus
begin

text \<open>
  The ST25R3916 driver above the bus: start-up, switching on the field, one exchange with a card
  (\<open>st25r3916_runtime.c\<close>, \<open>st25r3916_runtime_timing.c\<close>).

  The table of operations the C code passes around has one value in the firmware, the bus functions
  of \<open>nero_nfc_st25_frontend.c\<close>; they are called directly. \<open>turns\<close> bounds the waiting loops as in
  St25Bus.
\<close>

section \<open>Registers by name\<close>

definition reg_write :: "vendor \<Rightarrow> 'h board \<Rightarrow> string \<Rightarrow> u8 \<Rightarrow> 'h \<Rightarrow> 'h" where
  "reg_write V H name value = st25_bus_write_reg H (sym8 V name) value"

definition reg_read :: "vendor \<Rightarrow> 'h board \<Rightarrow> string \<Rightarrow> 'h \<Rightarrow> 'h \<times> u8" where
  "reg_read V H name = st25_bus_read_reg H (sym8 V name)"

definition reg_set :: "vendor \<Rightarrow> 'h board \<Rightarrow> string \<Rightarrow> u8 \<Rightarrow> 'h \<Rightarrow> 'h" where
  "reg_set V H name bits = st25_bus_set_reg_bits H (sym8 V name) bits"

definition reg_clr :: "vendor \<Rightarrow> 'h board \<Rightarrow> string \<Rightarrow> u8 \<Rightarrow> 'h \<Rightarrow> 'h" where
  "reg_clr V H name bits = st25_bus_clr_reg_bits H (sym8 V name) bits"

definition reg_write_b :: "vendor \<Rightarrow> 'h board \<Rightarrow> string \<Rightarrow> u8 \<Rightarrow> 'h \<Rightarrow> 'h" where
  "reg_write_b V H name value = st25_bus_write_reg_b V H (sym8 V name AND 0x3F) value"

definition direct_cmd :: "vendor \<Rightarrow> 'h board \<Rightarrow> string \<Rightarrow> 'h \<Rightarrow> 'h" where
  "direct_cmd V H name = st25_bus_direct_cmd H (sym8 V name)"

definition irq_main_bit :: "vendor \<Rightarrow> string \<Rightarrow> u8" where
  "irq_main_bit V name = ucast (V name AND 0xFF)"

definition irq_timer_bit :: "vendor \<Rightarrow> string \<Rightarrow> u8" where
  "irq_timer_bit V name = ucast (drop_bit 8 (V name) AND 0xFF)"

definition irq_error_bit :: "vendor \<Rightarrow> string \<Rightarrow> u8" where
  "irq_error_bit V name = ucast (drop_bit 16 (V name) AND 0xFF)"

definition irq_target_bit :: "vendor \<Rightarrow> string \<Rightarrow> u8" where
  "irq_target_bit V name = ucast (drop_bit 24 (V name) AND 0xFF)"

definition tx_rx_bits :: "vendor \<Rightarrow> u8" where
  "tx_rx_bits V = sym8 V ''ST25R3916_REG_OP_CONTROL_tx_en'' OR sym8 V ''ST25R3916_REG_OP_CONTROL_rx_en''"

definition timer_emv :: "vendor \<Rightarrow> u8" where
  "timer_emv V = sym8 V ''ST25R3916_REG_TIMER_EMV_CONTROL_nrt_step_4096_fc'' OR
     sym8 V ''ST25R3916_REG_TIMER_EMV_CONTROL_nrt_nfc_on''"

section \<open>Timing\<close>

text \<open>\<open>uint32_t\<close> arithmetic throughout.\<close>

definition st25_runtime_tx_wait_budget_us :: "nat \<Rightarrow> nat" where
  "st25_runtime_tx_wait_budget_us tx_len =
     (let tx_bits = u32n (tx_len * 10 + 64);
          tx_us = u32n (u32n (tx_bits * 1000000) + 105999) div 106000;
          budget = u32n (tx_us + 4000)
      in if budget < 5000 then 5000 else budget)"

text \<open>The steps of the no-response timer: the value, and whether it was cut off.\<close>

definition nrt_extended :: "nat \<Rightarrow> nat \<times> bool" where
  "nrt_extended timeout_ms =
     (let steps = u32n (u32n (timeout_ms * 33) div 10 + 5) in (min steps 65535, steps > 65535))"

definition nrt_short :: "nat \<Rightarrow> nat \<times> bool" where
  "nrt_short timeout_ms =
     (let steps = u16n (u32n (timeout_ms * 3 + 5)) in (min steps 255, steps > 255))"

section \<open>Start-up\<close>

datatype init_status = INIT_OK | INIT_CHIP_ID_FAIL | INIT_OSC_FAIL

fun osc_poll :: "vendor \<Rightarrow> 'h board \<Rightarrow> nat \<Rightarrow> 'h \<Rightarrow> 'h \<times> bool" where
  "osc_poll V H 0 c = (c, False)"
| "osc_poll V H (Suc n) c =
     (let c = wait_ms H c 10; (c, aux) = reg_read V H ''ST25R3916_REG_AUX_DISPLAY'' c in
      if aux AND sym8 V ''ST25R3916_REG_AUX_DISPLAY_osc_ok'' \<noteq> 0 then (c, True) else osc_poll V H n c)"

definition init_identify :: "vendor \<Rightarrow> 'h board \<Rightarrow> 'h \<Rightarrow> 'h \<times> u8" where
  "init_identify V H c =
     (let c = direct_cmd V H ''ST25R3916_CMD_SET_DEFAULT'' c;
          c = wait_ms H c 5;
          c = reg_write V H ''ST25R3916_REG_IO_CONF2'' (sym8 V ''ST25R3916_REG_IO_CONF2_io_drv_lvl'') c
      in reg_read V H ''ST25R3916_REG_IC_IDENTITY'' c)"

definition chip_known :: "vendor \<Rightarrow> u8 \<Rightarrow> bool" where
  "chip_known V chip_id =
     (let ic_type = chip_id AND sym8 V ''ST25R3916_REG_IC_IDENTITY_ic_type_mask'' in
      ic_type = sym8 V ''ST25R3916_REG_IC_IDENTITY_ic_type_st25r3916'' \<or>
      ic_type = sym8 V ''ST25R3916_REG_IC_IDENTITY_ic_type_st25r3916B'')"

definition init_oscillator :: "vendor \<Rightarrow> 'h board \<Rightarrow> 'h \<Rightarrow> 'h \<times> bool" where
  "init_oscillator V H c =
     (let c = reg_write V H ''ST25R3916_REG_IO_CONF1'' 0x07 c;
          c = reg_set V H ''ST25R3916_REG_IO_CONF2'' (sym8 V ''ST25R3916_REG_IO_CONF2_miso_pd1'' OR
            sym8 V ''ST25R3916_REG_IO_CONF2_miso_pd2'' OR sym8 V ''ST25R3916_REG_IO_CONF2_aat_en'') c;
          c = st25_clear_irqs V H c;
          c = reg_write V H ''ST25R3916_REG_IRQ_MASK_MAIN'' (NOT (irq_main_bit V ''ST25R3916_IRQ_MASK_OSC'')) c;
          c = reg_set V H ''ST25R3916_REG_OP_CONTROL'' (sym8 V ''ST25R3916_REG_OP_CONTROL_en'') c
      in osc_poll V H 50 c)"

definition mask_all_irqs :: "vendor \<Rightarrow> 'h board \<Rightarrow> 'h \<Rightarrow> 'h" where
  "mask_all_irqs V H c =
     (let c = reg_write V H ''ST25R3916_REG_IRQ_MASK_MAIN'' 0xFF c;
          c = reg_write V H ''ST25R3916_REG_IRQ_MASK_TIMER_NFC'' 0xFF c;
          c = reg_write V H ''ST25R3916_REG_IRQ_MASK_ERROR_WUP'' 0xFF c;
          c = reg_write V H ''ST25R3916_REG_IRQ_MASK_TARGET'' 0xFF c
      in st25_clear_irqs V H c)"

text \<open>The supply voltage in millivolts, 23.4 per step of the converter.\<close>

definition vdd_of :: "u8 \<Rightarrow> nat" where
  "vdd_of ad = u16n (unat ad * 23 + (unat ad * 4 + 5) div 10)"

definition init_supply :: "vendor \<Rightarrow> 'h board \<Rightarrow> 'h \<Rightarrow> 'h \<times> nat" where
  "init_supply V H c =
     (let c = direct_cmd V H ''ST25R3916_CMD_RC_CAL'' c;
          c = wait_ms H c 5;
          (c, ctl) = reg_read V H ''ST25R3916_REG_REGULATOR_CONTROL'' c;
          c = reg_write V H ''ST25R3916_REG_REGULATOR_CONTROL'' ((ctl AND 0xF0) OR 0x01) c;
          c = direct_cmd V H ''ST25R3916_CMD_MEASURE_VDD'' c;
          c = wait_ms H c 5;
          (c, ad) = reg_read V H ''ST25R3916_REG_AD_RESULT'' c;
          vdd = vdd_of ad;
          c = (if vdd < 3600 then reg_set V H ''ST25R3916_REG_IO_CONF2'' (sym8 V ''ST25R3916_REG_IO_CONF2_sup3V'') c
               else reg_clr V H ''ST25R3916_REG_IO_CONF2'' (sym8 V ''ST25R3916_REG_IO_CONF2_sup3V'') c);
          c = reg_set V H ''ST25R3916_REG_REGULATOR_CONTROL'' 0x80 c;
          c = reg_clr V H ''ST25R3916_REG_REGULATOR_CONTROL'' 0x80 c;
          c = direct_cmd V H ''ST25R3916_CMD_ADJUST_REGULATORS'' c
      in (wait_ms H c 10, vdd))"

definition init_analog :: "vendor \<Rightarrow> 'h board \<Rightarrow> 'h \<Rightarrow> 'h" where
  "init_analog V H c =
     (let c = reg_write V H ''ST25R3916_REG_TX_DRIVER'' 0xF0 c;
          c = reg_write_b V H ''ST25R3916_REG_RES_AM_MOD'' 0x80 c;
          c = reg_write V H ''ST25R3916_REG_FIELD_THRESHOLD_ACTV'' 0x13 c;
          c = reg_write V H ''ST25R3916_REG_FIELD_THRESHOLD_DEACTV'' 0x02 c;
          c = reg_write_b V H ''ST25R3916_REG_AUX_MOD'' 0x94 c;
          c = reg_write V H ''ST25R3916_REG_PASSIVE_TARGET'' 0x50 c;
          c = reg_write V H ''ST25R3916_REG_PT_MOD'' 0x2E c;
          c = st25_bus_set_reg_b_bits V H (sym8 V ''ST25R3916_REG_EMD_SUP_CONF'' AND 0x3F) 0x40 c;
          c = reg_write V H ''ST25R3916_REG_ANT_TUNE_A'' 0xC5 c;
          c = reg_write V H ''ST25R3916_REG_ANT_TUNE_B'' 0xE3 c;
          c = reg_write_b V H ''ST25R3916_REG_AWS_CONF1'' 0x09 c;
          c = reg_write_b V H ''ST25R3916_REG_AWS_CONF2'' 0x18 c;
          c = reg_write_b V H ''ST25R3916_REG_AWS_TIME1'' 0x01 c;
          c = reg_write_b V H ''ST25R3916_REG_AWS_TIME3'' 0x79 c;
          c = reg_write_b V H ''ST25R3916_REG_AWS_TIME4'' 0x07 c
      in reg_clr V H ''ST25R3916_REG_OP_CONTROL'' (tx_rx_bits V) c)"

text \<open>The status, the identity read and the voltage measured; 0 where it was not reached.\<close>

definition st25_runtime_init_common :: "vendor \<Rightarrow> 'h board \<Rightarrow> 'h \<Rightarrow> 'h \<times> init_status \<times> u8 \<times> nat" where
  "st25_runtime_init_common V H c =
     (let (c, chip_id) = init_identify V H c in
      if \<not> chip_known V chip_id then (c, INIT_CHIP_ID_FAIL, chip_id, 0)
      else let (c, osc_ok) = init_oscillator V H c in
        if \<not> osc_ok then (c, INIT_OSC_FAIL, chip_id, 0)
        else let (c, vdd) = init_supply V H (mask_all_irqs V H c) in
          (init_analog V H c, INIT_OK, chip_id, vdd))"

section \<open>The field\<close>

datatype field_on_status = FIELD_ON_OK | FIELD_ON_COLLISION | FIELD_ON_TXRX_VERIFY_FAIL

definition field_probe :: "nat \<Rightarrow> vendor \<Rightarrow> 'h board \<Rightarrow> 'h \<Rightarrow> 'h \<times> u32 \<times> bool" where
  "field_probe turns V H c =
     (let c = reg_write V H ''ST25R3916_REG_FIELD_THRESHOLD_ACTV'' 0x13 c;
          c = reg_write V H ''ST25R3916_REG_FIELD_THRESHOLD_DEACTV'' 0x02 c;
          c = st25_clear_irqs V H c;
          c = reg_write V H ''ST25R3916_REG_IRQ_MASK_TARGET'' (NOT (irq_target_bit V ''ST25R3916_IRQ_MASK_APON'')) c;
          c = reg_write V H ''ST25R3916_REG_IRQ_MASK_TIMER_NFC''
            (NOT (irq_timer_bit V ''ST25R3916_IRQ_MASK_CAT'' OR irq_timer_bit V ''ST25R3916_IRQ_MASK_CAC'')) c;
          c = direct_cmd V H ''ST25R3916_CMD_INITIAL_RF_COLLISION'' c;
          (c, irqs) = st25_wait_for_irqs turns V H 200000 c
      in if st25_irq_target irqs AND irq_target_bit V ''ST25R3916_IRQ_MASK_APON'' \<noteq> 0 then
           (case st25_wait_for_irqs turns V H 200000 c of (c, irqs2) \<Rightarrow>
              (c, irqs, st25_irq_timer irqs2 AND irq_timer_bit V ''ST25R3916_IRQ_MASK_CAT'' \<noteq> 0))
         else (c, irqs, False))"

text \<open>Result: the status and whether the field was switched on without the collision check.\<close>

definition st25_runtime_field_on_common ::
    "nat \<Rightarrow> vendor \<Rightarrow> 'h board \<Rightarrow> bool \<Rightarrow> bool \<Rightarrow> 'h \<Rightarrow> 'h \<times> field_on_status \<times> bool" where
  "st25_runtime_field_on_common turns V H fail_on_collision verify_txrx c =
     (let (c, irqs, field_ok) = field_probe turns V H c in
      if st25_irq_timer irqs AND irq_timer_bit V ''ST25R3916_IRQ_MASK_CAC'' \<noteq> 0 \<and> fail_on_collision then
        (c, FIELD_ON_COLLISION, False)
      else
        let c = (if field_ok then c
              else wait_ms H (reg_set V H ''ST25R3916_REG_OP_CONTROL'' (sym8 V ''ST25R3916_REG_OP_CONTROL_tx_en'') c) 10);
            c = reg_set V H ''ST25R3916_REG_OP_CONTROL'' (tx_rx_bits V) c;
            c = wait_ms H c 5
        in if verify_txrx then
             (case reg_read V H ''ST25R3916_REG_OP_CONTROL'' c of (c, op_ctl) \<Rightarrow>
                (c, if op_ctl AND tx_rx_bits V \<noteq> tx_rx_bits V then FIELD_ON_TXRX_VERIFY_FAIL else FIELD_ON_OK, \<not> field_ok))
           else (c, FIELD_ON_OK, \<not> field_ok))"

section \<open>One exchange\<close>

record xcv_diag =
  requested_timeout_ms :: nat
  nrt_steps_programmed :: nat
  tx_wait_us :: nat
  tx_irq_status :: u32
  final_irq_status :: u32
  extended_nrt_16bit :: bool
  nrt_clamped :: bool
  got_txe :: bool
  got_rxe :: bool
  got_nre :: bool

text \<open>Stop, empty the FIFO, switch the receiver on and set the protocol register.\<close>

definition xcv_prepare :: "vendor \<Rightarrow> 'h board \<Rightarrow> bool \<Rightarrow> bool \<Rightarrow> 'h \<Rightarrow> 'h" where
  "xcv_prepare V H anticol no_rx_par c =
     (let c = direct_cmd V H ''ST25R3916_CMD_STOP'' c;
          c = direct_cmd V H ''ST25R3916_CMD_CLEAR_FIFO'' c;
          c = direct_cmd V H ''ST25R3916_CMD_RESET_RXGAIN'' c;
          c = reg_set V H ''ST25R3916_REG_OP_CONTROL'' (sym8 V ''ST25R3916_REG_OP_CONTROL_rx_en'') c;
          c = st25_clear_irqs V H c
      in reg_write V H ''ST25R3916_REG_ISO14443A_NFC''
        ((if anticol then sym8 V ''ST25R3916_REG_ISO14443A_NFC_antcl'' else 0) OR
         (if no_rx_par then sym8 V ''ST25R3916_REG_ISO14443A_NFC_no_rx_par'' else 0)) c)"

text \<open>The length in bits, the no-response timer and the transmit command.\<close>

definition xcv_start :: "vendor \<Rightarrow> 'h board \<Rightarrow> nat \<Rightarrow> bool \<Rightarrow> nat \<Rightarrow> 'h \<Rightarrow> 'h" where
  "xcv_start V H tx_len with_crc steps c =
     (let tx_bits = u16n (tx_len * 8);
          c = reg_write V H ''ST25R3916_REG_NUM_TX_BYTES2'' (byte tx_bits) c;
          c = reg_write V H ''ST25R3916_REG_NUM_TX_BYTES1'' (byte (tx_bits div 256) AND 0x1F) c;
          c = reg_write V H ''ST25R3916_REG_TIMER_EMV_CONTROL'' (timer_emv V) c;
          c = reg_write V H ''ST25R3916_REG_NO_RESPONSE_TIMER1'' (byte (steps div 256)) c;
          c = reg_write V H ''ST25R3916_REG_NO_RESPONSE_TIMER2'' (byte steps) c;
          c = st25_clear_irqs V H c
      in direct_cmd V H (if with_crc then ''ST25R3916_CMD_TRANSMIT_WITH_CRC'' else ''ST25R3916_CMD_TRANSMIT_WITHOUT_CRC'') c)"

definition has_rxe :: "vendor \<Rightarrow> u32 \<Rightarrow> bool" where
  "has_rxe V irqs \<longleftrightarrow> st25_irq_main irqs AND irq_main_bit V ''ST25R3916_IRQ_MASK_RXE'' \<noteq> 0"

definition has_txe :: "vendor \<Rightarrow> u32 \<Rightarrow> bool" where
  "has_txe V irqs \<longleftrightarrow> st25_irq_main irqs AND irq_main_bit V ''ST25R3916_IRQ_MASK_TXE'' \<noteq> 0"

definition has_nre :: "vendor \<Rightarrow> u32 \<Rightarrow> bool" where
  "has_nre V irqs \<longleftrightarrow> st25_irq_timer irqs AND irq_timer_bit V ''ST25R3916_IRQ_MASK_NRE'' \<noteq> 0"

text \<open>The end of the transmission: the pin, and the registers themselves if the pin did not show it.\<close>

definition xcv_sent :: "nat \<Rightarrow> vendor \<Rightarrow> 'h board \<Rightarrow> nat \<Rightarrow> 'h \<Rightarrow> 'h \<times> u32" where
  "xcv_sent turns V H wait_us c =
     (let (c, irqs) = st25_wait_for_irqs turns V H (of_nat wait_us) c in
      if has_txe V irqs then (c, irqs)
      else let (c, late) = st25_bus_read_irq_regs V H c in (c, irqs OR late))"

fun rx_poll :: "vendor \<Rightarrow> 'h board \<Rightarrow> u32 \<Rightarrow> u32 \<Rightarrow> nat \<Rightarrow> u32 \<Rightarrow> 'h \<Rightarrow> 'h \<times> u32" where
  "rx_poll V H start limit 0 irqs c = (c, irqs)"
| "rx_poll V H start limit (Suc n) irqs c =
     (let (c, now) = now_millis H c in
      if \<not> now - start < limit then (c, irqs)
      else let (c, late) = st25_bus_read_irq_regs V H c; irqs = irqs OR late in
        if has_rxe V irqs then (c, irqs)
        else if has_nre V irqs then (c, irqs)
        else rx_poll V H start limit n irqs (wait_ms H c 1))"

definition xcv_received :: "nat \<Rightarrow> vendor \<Rightarrow> 'h board \<Rightarrow> bool \<Rightarrow> nat \<Rightarrow> u32 \<Rightarrow> 'h \<Rightarrow> 'h \<times> u32" where
  "xcv_received turns V H poll timeout_ms irqs c =
     (if poll then
        (case now_millis H c of (c, start) \<Rightarrow> rx_poll V H start (of_nat (timeout_ms + 10)) turns irqs c)
      else (case st25_bus_read_irq_regs V H (wait_ms H c (timeout_ms + 2)) of (c, late) \<Rightarrow> (c, irqs OR late)))"

text \<open>The received bytes; the protocol register is cleared before or after.\<close>

definition xcv_fetch :: "vendor \<Rightarrow> 'h board \<Rightarrow> bool \<Rightarrow> cptr \<Rightarrow> nat \<Rightarrow> 'h \<Rightarrow> ('h \<times> nat \<times> cptr) option" where
  "xcv_fetch V H clear_first rx rx_len c =
     (let c = (if clear_first then reg_write V H ''ST25R3916_REG_ISO14443A_NFC'' 0 c else c) in do {
        (c, n, rx) \<leftarrow> st25_bus_read_fifo V H rx rx_len c;
        Some (if clear_first then c else reg_write V H ''ST25R3916_REG_ISO14443A_NFC'' 0 c, n, rx)
      })"

definition st25_runtime_transceive_common_diag ::
    "nat \<Rightarrow> vendor \<Rightarrow> 'h board \<Rightarrow> cptr \<Rightarrow> nat \<Rightarrow> cptr \<Rightarrow> nat \<Rightarrow> bool \<Rightarrow> nat \<Rightarrow> bool \<Rightarrow> bool \<Rightarrow> bool \<Rightarrow> bool \<Rightarrow> bool \<Rightarrow>
      'h \<Rightarrow> ('h \<times> nat \<times> cptr \<times> xcv_diag) option" where
  "st25_runtime_transceive_common_diag turns V H tx tx_len rx rx_len with_crc timeout_ms anticol no_rx_par
     extended poll clear_first c =
     (let d = \<lparr>requested_timeout_ms = timeout_ms, nrt_steps_programmed = 0, tx_wait_us = 0, tx_irq_status = 0,
            final_irq_status = 0, extended_nrt_16bit = extended, nrt_clamped = False, got_txe = False,
            got_rxe = False, got_nre = False\<rparr>
      in
      if tx_len > 0 \<and> tx = None \<or> rx_len > 0 \<and> rx = None then Some (c, 0, rx, d)
      else do {
        let c = xcv_prepare V H anticol no_rx_par c;
        c \<leftarrow> (if tx_len > 0 \<and> tx \<noteq> None then st25_bus_write_fifo H tx tx_len c else Some c);
        let (steps, clamped) = (if extended then nrt_extended timeout_ms else nrt_short timeout_ms);
        let d = d\<lparr>nrt_steps_programmed := steps, nrt_clamped := clamped\<rparr>;
        let c = xcv_start V H tx_len with_crc steps c;
        let wait_us = st25_runtime_tx_wait_budget_us tx_len;
        let (c, irqs) = xcv_sent turns V H wait_us c;
        let d = d\<lparr>tx_wait_us := wait_us, tx_irq_status := irqs, got_txe := has_txe V irqs\<rparr>;
        if \<not> has_txe V irqs then Some (c, 0, rx, d)
        else do {
          let (c, irqs) = xcv_received turns V H poll timeout_ms irqs c;
          let d = d\<lparr>final_irq_status := irqs, got_rxe := has_rxe V irqs, got_nre := has_nre V irqs\<rparr>;
          if \<not> has_rxe V irqs then Some (c, 0, rx, d)
          else do {
            (c, n, rx) \<leftarrow> xcv_fetch V H clear_first rx rx_len c;
            Some (c, n, rx, d)
          }
        }
      })"

definition st25_runtime_transceive_common ::
    "nat \<Rightarrow> vendor \<Rightarrow> 'h board \<Rightarrow> cptr \<Rightarrow> nat \<Rightarrow> cptr \<Rightarrow> nat \<Rightarrow> bool \<Rightarrow> nat \<Rightarrow> bool \<Rightarrow> bool \<Rightarrow> bool \<Rightarrow> bool \<Rightarrow> bool \<Rightarrow>
      'h \<Rightarrow> ('h \<times> nat \<times> cptr) option" where
  "st25_runtime_transceive_common turns V H tx tx_len rx rx_len with_crc timeout_ms anticol no_rx_par
     extended poll clear_first c = do {
     (c, n, rx, d) \<leftarrow> st25_runtime_transceive_common_diag turns V H tx tx_len rx rx_len with_crc timeout_ms
        anticol no_rx_par extended poll clear_first c;
     Some (c, n, rx)
   }"

end
