(* ===== verification/St25Radio.thy ===== *)
theory St25Radio
  imports St25Runtime ReaderProtocol IsoDepSession
begin

text \<open>
  The front end of the firmware on the ST25R3916: the register settings of the protocols, the short
  frames, the operations of \<open>st25r3916_frontend.c\<close> and \<open>nero_nfc_st25_frontend.c\<close>, and the radio the
  tag paths and the ISO-DEP session run on. Whatever the chip answers, an exchange writes no more
  bytes than the receive buffer has; this is the law of \<open>bounded_radio\<close> and of \<open>radio_ok\<close>.
\<close>

section \<open>Protocol settings\<close>

definition st25_iso14443a_configure_defaults :: "vendor \<Rightarrow> 'h board \<Rightarrow> 'h \<Rightarrow> 'h" where
  "st25_iso14443a_configure_defaults V H c =
     (let c = direct_cmd V H ''ST25R3916_CMD_STOP'' c;
          c = direct_cmd V H ''ST25R3916_CMD_CLEAR_FIFO'' c;
          c = reg_set V H ''ST25R3916_REG_OP_CONTROL'' (sym8 V ''ST25R3916_REG_OP_CONTROL_rx_en'') c;
          c = wait_ms H c 1;
          c = reg_write V H ''ST25R3916_REG_MODE''
            (sym8 V ''ST25R3916_REG_MODE_om_iso14443a'' OR sym8 V ''ST25R3916_REG_MODE_tr_am_ook'') c;
          c = reg_write V H ''ST25R3916_REG_BIT_RATE'' 0 c;
          c = reg_write V H ''ST25R3916_REG_ISO14443A_NFC'' 0 c;
          c = reg_write V H ''ST25R3916_REG_RX_CONF1'' 0x08 c;
          c = reg_write V H ''ST25R3916_REG_RX_CONF2'' 0xED c;
          c = reg_write V H ''ST25R3916_REG_RX_CONF3'' 0 c;
          c = reg_write V H ''ST25R3916_REG_RX_CONF4'' 0 c;
          c = reg_write_b V H ''ST25R3916_REG_CORR_CONF1'' 0x51 c;
          c = reg_write_b V H ''ST25R3916_REG_CORR_CONF2'' 0 c;
          c = reg_clr V H ''ST25R3916_REG_AUX'' (sym8 V ''ST25R3916_REG_AUX_dis_corr'') c;
          c = reg_set V H ''ST25R3916_REG_AUX'' (sym8 V ''ST25R3916_REG_AUX_no_crc_rx'') c;
          c = reg_write V H ''ST25R3916_REG_TIMER_EMV_CONTROL'' (timer_emv V) c;
          c = reg_write V H ''ST25R3916_REG_NO_RESPONSE_TIMER1'' 0 c;
          c = reg_write V H ''ST25R3916_REG_NO_RESPONSE_TIMER2'' 0x11 c;
          c = reg_write V H ''ST25R3916_REG_MASK_RX_TIMER'' 0x01 c;
          c = reg_write V H ''ST25R3916_REG_IRQ_MASK_MAIN''
            (NOT (irq_main_bit V ''ST25R3916_IRQ_MASK_TXE'' OR irq_main_bit V ''ST25R3916_IRQ_MASK_RXE'' OR
              irq_main_bit V ''ST25R3916_IRQ_MASK_RXS'' OR irq_main_bit V ''ST25R3916_IRQ_MASK_COL'' OR
              irq_main_bit V ''ST25R3916_IRQ_MASK_FWL'')) c;
          c = reg_write V H ''ST25R3916_REG_IRQ_MASK_TIMER_NFC'' (NOT (irq_timer_bit V ''ST25R3916_IRQ_MASK_NRE'')) c;
          c = reg_write V H ''ST25R3916_REG_IRQ_MASK_ERROR_WUP''
            (NOT (irq_error_bit V ''ST25R3916_IRQ_MASK_CRC'' OR irq_error_bit V ''ST25R3916_IRQ_MASK_PAR'' OR
              irq_error_bit V ''ST25R3916_IRQ_MASK_ERR1'' OR irq_error_bit V ''ST25R3916_IRQ_MASK_ERR2'')) c
      in reg_write V H ''ST25R3916_REG_IRQ_MASK_TARGET'' 0xFF c)"

definition st25_iso15693_configure_defaults :: "vendor \<Rightarrow> 'h board \<Rightarrow> 'h \<Rightarrow> 'h" where
  "st25_iso15693_configure_defaults V H c =
     (let c = reg_write V H ''ST25R3916_REG_MODE'' (sym8 V ''ST25R3916_REG_MODE_om_subcarrier_stream'') c;
          c = reg_write V H ''ST25R3916_REG_BIT_RATE''
            (ucast (push_bit 4 (V ''ST25R3916_BR_424'')) OR sym8 V ''ST25R3916_BR_424'') c;
          c = reg_write V H ''ST25R3916_REG_STREAM_MODE''
            (sym8 V ''ST25R3916_REG_STREAM_MODE_scf_sc424'' OR sym8 V ''ST25R3916_REG_STREAM_MODE_scp_8pulses'' OR
              sym8 V ''ST25R3916_REG_STREAM_MODE_stx_106'') c;
          c = reg_write V H ''ST25R3916_REG_ISO14443A_NFC'' 0x1C c;
          c = reg_write V H ''ST25R3916_REG_RX_CONF1'' 0x13 c;
          c = reg_write V H ''ST25R3916_REG_RX_CONF2'' 0xED c;
          c = reg_write V H ''ST25R3916_REG_RX_CONF3'' 0 c;
          c = reg_write V H ''ST25R3916_REG_RX_CONF4'' 0 c;
          c = reg_write_b V H ''ST25R3916_REG_CORR_CONF1'' 0x13 c;
          c = reg_write_b V H ''ST25R3916_REG_CORR_CONF2'' 0x01 c;
          c = reg_clr V H ''ST25R3916_REG_AUX'' (sym8 V ''ST25R3916_REG_AUX_dis_corr'') c;
          c = reg_set V H ''ST25R3916_REG_OP_CONTROL'' (tx_rx_bits V) c
      in wait_ms H c 5)"

text \<open>WUPA and REQA. The result is the ATQA, of which two bytes must have arrived.\<close>

definition short_frame_start :: "vendor \<Rightarrow> 'h board \<Rightarrow> string \<Rightarrow> 'h \<Rightarrow> 'h" where
  "short_frame_start V H name c =
     (let c = direct_cmd V H ''ST25R3916_CMD_STOP'' c;
          c = direct_cmd V H ''ST25R3916_CMD_CLEAR_FIFO'' c;
          c = direct_cmd V H ''ST25R3916_CMD_RESET_RXGAIN'' c;
          c = reg_set V H ''ST25R3916_REG_OP_CONTROL'' (sym8 V ''ST25R3916_REG_OP_CONTROL_rx_en'') c;
          c = st25_clear_irqs V H c;
          c = reg_write V H ''ST25R3916_REG_NUM_TX_BYTES2'' 0 c;
          c = reg_write V H ''ST25R3916_REG_TIMER_EMV_CONTROL'' (timer_emv V) c;
          c = reg_write V H ''ST25R3916_REG_NO_RESPONSE_TIMER1'' 0 c;
          c = reg_write V H ''ST25R3916_REG_NO_RESPONSE_TIMER2'' 0x10 c;
          c = st25_clear_irqs V H c
      in direct_cmd V H name c)"

definition st25_iso14443a_send_short_frame ::
    "nat \<Rightarrow> vendor \<Rightarrow> 'h board \<Rightarrow> string \<Rightarrow> cptr \<Rightarrow> 'h \<Rightarrow> ('h \<times> bool \<times> cptr) option" where
  "st25_iso14443a_send_short_frame turns V H name atqa c =
     (let (c, tx_irqs) = st25_wait_for_irqs turns V H 5000 (short_frame_start V H name c) in
      if \<not> has_txe V tx_irqs then Some (c, False, atqa)
      else let (c, rx_irqs) = st25_bus_read_irq_regs V H (wait_ms H c 7) in
        if st25_irq_main rx_irqs AND
            (irq_main_bit V ''ST25R3916_IRQ_MASK_RXE'' OR irq_main_bit V ''ST25R3916_IRQ_MASK_COL'') = 0
        then Some (c, False, atqa)
        else do {
          (c, len, atqa) \<leftarrow> st25_bus_read_fifo V H atqa 2 c;
          Some (c, len \<ge> 2, atqa)
        })"

section \<open>Operations of the front end\<close>

definition st25_frontend_measure_amplitude :: "vendor \<Rightarrow> 'h board \<Rightarrow> 'h \<Rightarrow> 'h \<times> u8" where
  "st25_frontend_measure_amplitude V H c =
     reg_read V H ''ST25R3916_REG_AD_RESULT'' (wait_ms H (direct_cmd V H ''ST25R3916_CMD_MEASURE_AMPLITUDE'' c) 3)"

definition st25_frontend_quiesce :: "vendor \<Rightarrow> 'h board \<Rightarrow> 'h \<Rightarrow> 'h" where
  "st25_frontend_quiesce V H c =
     st25_clear_irqs V H (direct_cmd V H ''ST25R3916_CMD_CLEAR_FIFO'' (direct_cmd V H ''ST25R3916_CMD_STOP'' c))"

definition st25_frontend_enable_tx_rx :: "vendor \<Rightarrow> 'h board \<Rightarrow> 'h \<Rightarrow> 'h" where
  "st25_frontend_enable_tx_rx V H c = reg_set V H ''ST25R3916_REG_OP_CONTROL'' (tx_rx_bits V) c"

definition st25_frontend_ensure_tx_rx :: "vendor \<Rightarrow> 'h board \<Rightarrow> 'h \<Rightarrow> 'h" where
  "st25_frontend_ensure_tx_rx V H c =
     (let (c, op) = reg_read V H ''ST25R3916_REG_OP_CONTROL'' c in
      if op AND tx_rx_bits V \<noteq> tx_rx_bits V
      then wait_ms H (reg_set V H ''ST25R3916_REG_OP_CONTROL'' (tx_rx_bits V) c) 5
      else c)"

text \<open>
  The chip context of the application, and the operations bound to it. The outputs of the start-up
  are asked for. The pointers to the platform and the board are the board parameter.
\<close>

record st25r3916 =
  transceive_count :: nat
  quiesce_count :: nat
  vdd_mv :: nat
  chip_id :: u8
  configured_protocol :: nat
  initialized :: bool
  field_enabled :: bool

type_synonym 'h front = "'h \<times> st25r3916"

definition st25_impl_init :: "vendor \<Rightarrow> 'h board \<Rightarrow> 'h front \<Rightarrow> 'h front \<times> init_status" where
  "st25_impl_init V H = (\<lambda>(c, s).
     let (c, status, chip, vdd) = st25_runtime_init_common V H c in
     ((c, s\<lparr>chip_id := chip, vdd_mv := vdd, initialized := (status = INIT_OK)\<rparr>), status))"

definition st25_impl_configure_iso14443a :: "vendor \<Rightarrow> 'h board \<Rightarrow> 'h front \<Rightarrow> 'h front" where
  "st25_impl_configure_iso14443a V H = (\<lambda>(c, s). (st25_iso14443a_configure_defaults V H c, s\<lparr>configured_protocol := 1\<rparr>))"

definition st25_impl_configure_iso15693 :: "vendor \<Rightarrow> 'h board \<Rightarrow> 'h front \<Rightarrow> 'h front" where
  "st25_impl_configure_iso15693 V H = (\<lambda>(c, s). (st25_iso15693_configure_defaults V H c, s\<lparr>configured_protocol := 2\<rparr>))"

definition st25_impl_field_on :: "nat \<Rightarrow> vendor \<Rightarrow> 'h board \<Rightarrow> 'h front \<Rightarrow> 'h front \<times> field_on_status \<times> bool" where
  "st25_impl_field_on turns V H = (\<lambda>(c, s).
     let (c, status, used_direct) = st25_runtime_field_on_common turns V H False True c in
     ((c, s\<lparr>field_enabled := (status = FIELD_ON_OK)\<rparr>), status, used_direct))"

definition st25_impl_transceive ::
    "nat \<Rightarrow> vendor \<Rightarrow> 'h board \<Rightarrow> 'h front \<Rightarrow> cptr \<Rightarrow> nat \<Rightarrow> cptr \<Rightarrow> nat \<Rightarrow> bool \<Rightarrow> nat \<Rightarrow> bool \<Rightarrow> bool \<Rightarrow> bool \<Rightarrow> bool \<Rightarrow> bool \<Rightarrow>
      ('h front \<times> nat \<times> cptr) option" where
  "st25_impl_transceive turns V H = (\<lambda>(c, s) tx tx_len rx rx_max with_crc timeout_ms anticol no_rx_par extended poll clear_first. do {
     (c, n, rx) \<leftarrow> st25_runtime_transceive_common turns V H tx tx_len rx rx_max with_crc timeout_ms anticol no_rx_par
       extended poll clear_first c;
     Some ((c, s\<lparr>transceive_count := u32n (transceive_count s + 1)\<rparr>), n, rx)
   })"

definition st25_impl_send_short ::
    "nat \<Rightarrow> vendor \<Rightarrow> 'h board \<Rightarrow> string \<Rightarrow> 'h front \<Rightarrow> cptr \<Rightarrow> ('h front \<times> bool \<times> cptr) option" where
  "st25_impl_send_short turns V H name = (\<lambda>(c, s) atqa.
     if atqa = None then Some ((c, s), False, atqa)
     else do {
       (c, ok, atqa) \<leftarrow> st25_iso14443a_send_short_frame turns V H name atqa c;
       Some ((c, s), ok, atqa)
     })"

definition st25_impl_quiesce :: "vendor \<Rightarrow> 'h board \<Rightarrow> 'h front \<Rightarrow> 'h front" where
  "st25_impl_quiesce V H = (\<lambda>(c, s). (st25_frontend_quiesce V H c,
     s\<lparr>quiesce_count := u32n (quiesce_count s + 1), field_enabled := False\<rparr>))"

definition st25_impl_ensure_tx_rx :: "vendor \<Rightarrow> 'h board \<Rightarrow> 'h front \<Rightarrow> 'h front" where
  "st25_impl_ensure_tx_rx V H = (\<lambda>(c, s). (st25_frontend_ensure_tx_rx V H c, s\<lparr>field_enabled := True\<rparr>))"

definition st25_impl_enable_tx_rx :: "vendor \<Rightarrow> 'h board \<Rightarrow> 'h front \<Rightarrow> 'h front" where
  "st25_impl_enable_tx_rx V H = (\<lambda>(c, s). (st25_frontend_enable_tx_rx V H c, s\<lparr>field_enabled := True\<rparr>))"

end
