(* ===== verification/St25Safe.thy ===== *)
theory St25Safe
  imports St25Radio
begin

text \<open>
  Whatever the chip answers, the driver keeps to its buffers: an exchange reads the command only, and
  writes at the start of the receive buffer no more bytes than it has. With this the driver is a
  radio for the tag paths and for the ISO-DEP session.
\<close>

section \<open>The FIFO\<close>

lemma fifo_load_total: "i + n \<le> length data \<Longrightarrow> \<exists>c'. fifo_load H (Some data) i n c = Some c'"
  by (induction n arbitrary: i c) simp_all

lemma write_fifo_total: "n \<le> length data \<Longrightarrow> \<exists>c'. st25_bus_write_fifo H (Some data) n c = Some c'"
  using fifo_load_total [of 0 n data H "fst (spi_xfer H (select_chip H c) 0x80)"]
  by (auto simp: st25_bus_write_fifo_def Let_def)

lemma fifo_unload_ok:
  "i + n \<le> length b \<Longrightarrow> \<exists>c' new. fifo_unload H (Some b) i n c = Some (c', Some (patch b i new)) \<and> length new = n"
proof (induction n arbitrary: i b c)
  case (Suc n)
  obtain c1 v where x: "spi_xfer H c 0 = (c1, v)" by fastforce
  obtain c' new where 1: "fifo_unload H (Some (b[i := v])) (i + 1) n c1 = Some (c', Some (patch (b[i := v]) (i + 1) new))"
    "length new = n"
    using Suc.IH [of "i + 1" "b[i := v]" c1] Suc.prems by auto
  have "patch (b[i := v]) (i + 1) new = patch b i (v # new)"
    using patch_patch [of i "[v]" new b "i + 1"] Suc.prems 1(2) by (simp add: patch_single)
  then show ?case using 1 x Suc.prems by (auto simp: wr_def intro!: exI [of _ "v # new"])
qed (auto intro: exI [of _ "[]"])

lemma read_fifo_ok:
  assumes "m \<le> length b"
  shows "\<exists>c' new. st25_bus_read_fifo V H (Some b) m c = Some (c', length new, Some (patch b 0 new)) \<and> length new \<le> m"
proof -
  obtain c1 fs1 where 1: "st25_bus_read_reg H (sym8 V ''ST25R3916_REG_FIFO_STATUS1'') c = (c1, fs1)" by fastforce
  obtain c2 fs2 where 2: "st25_bus_read_reg H (sym8 V ''ST25R3916_REG_FIFO_STATUS2'') c1 = (c2, fs2)" by fastforce
  define k where "k = min (fifo_level V fs1 fs2) m"
  show ?thesis
  proof (cases "k = 0")
    case True
    then show ?thesis using 1 2 unfolding st25_bus_read_fifo_def Let_def
      by (auto simp: k_def intro!: exI [of _ "[]"])
  next
    case False
    have k: "0 + k \<le> length b" "k \<le> m" using assms by (simp_all add: k_def)
    obtain c' new where "fifo_unload H (Some b) 0 k (fst (spi_xfer H (select_chip H c2) 0x9F)) = Some (c', Some (patch b 0 new))"
      "length new = k"
      using fifo_unload_ok [OF k(1), of H "fst (spi_xfer H (select_chip H c2) 0x9F)"] by blast
    then show ?thesis using 1 2 False k(2)
      by (auto simp: st25_bus_read_fifo_def Let_def k_def [symmetric])
  qed
qed

section \<open>One exchange\<close>

lemma exchange_bounded:
  assumes "tx_len \<le> length tx" "m \<le> length b"
  shows "\<exists>c' new d. st25_runtime_transceive_common_diag turns V H (Some tx) tx_len (Some b) m with_crc ms anticol no_par
      extended poll clear_first c = Some (c', length new, Some (patch b 0 new), d) \<and> length new \<le> m \<and>
    (new \<noteq> [] \<longrightarrow> got_txe d \<and> got_rxe d)"
proof -
  obtain c1 where 1: "(if tx_len > 0 \<and> Some tx \<noteq> None then st25_bus_write_fifo H (Some tx) tx_len (xcv_prepare V H anticol no_par c)
      else Some (xcv_prepare V H anticol no_par c)) = Some c1"
    using write_fifo_total [OF assms(1), of H "xcv_prepare V H anticol no_par c"] by (cases "tx_len > 0") auto
  obtain steps clamped where 2: "(if extended then nrt_extended ms else nrt_short ms) = (steps, clamped)" by fastforce
  obtain c2 irqs where 3: "xcv_sent turns V H (st25_runtime_tx_wait_budget_us tx_len) (xcv_start V H tx_len with_crc steps c1) = (c2, irqs)"
    by fastforce
  obtain c3 irqs3 where 4: "xcv_received turns V H poll ms irqs c2 = (c3, irqs3)" by fastforce
  obtain c4 new where 5: "xcv_fetch V H clear_first (Some b) m c3 = Some (c4, length new, Some (patch b 0 new))" "length new \<le> m"
    using read_fifo_ok [OF assms(2), of V H "if clear_first then reg_write V H ''ST25R3916_REG_ISO14443A_NFC'' 0 c3 else c3"]
    by (auto simp: xcv_fetch_def Let_def)
  have no: "\<not> (tx_len > 0 \<and> Some tx = None \<or> m > 0 \<and> Some b = None)" by simp
  show ?thesis
    unfolding st25_runtime_transceive_common_diag_def Let_def if_not_P [OF no] 1 2 Option.bind.bind_lunit prod.case 3 4
  proof (cases "has_txe V irqs"; cases "has_rxe V irqs3", goal_cases)
    case 1
    then show ?case using 5 by (auto intro: exI [of _ new])
  qed (auto intro!: exI [of _ "[]"])
qed

section \<open>The radio of the tag paths\<close>

text \<open>
  The received bytes of an exchange. Buffers start with zeros.
\<close>

definition received :: "('f \<times> nat \<times> cptr) option \<Rightarrow> 'f \<Rightarrow> 'f \<times> bytes" where
  "received m w = (case m of Some (w', n, Some b) \<Rightarrow> (w', take n b) | _ \<Rightarrow> (w, []))"

definition st25_radio :: "nat \<Rightarrow> vendor \<Rightarrow> 'h board \<Rightarrow> 'h front tag_radio" where
  "st25_radio turns V H = \<lparr>
     tr_transceive = \<lambda>w tx rx_max with_crc ms anticol no_par.
       received (st25_impl_transceive turns V H w (Some tx) (length tx) (Some (replicate rx_max 0)) rx_max with_crc ms
         anticol no_par False False True) w,
     tr_wupa = \<lambda>w. (case st25_impl_send_short turns V H ''ST25R3916_CMD_TRANSMIT_WUPA'' w (Some [0, 0]) of
         Some (w', ok, Some b) \<Rightarrow> (w', if ok then Some b else None)
       | _ \<Rightarrow> (w, None)),
     tr_reqa = \<lambda>w. (case st25_impl_send_short turns V H ''ST25R3916_CMD_TRANSMIT_REQA'' w (Some [0, 0]) of
         Some (w', ok, b) \<Rightarrow> (w', ok)
       | _ \<Rightarrow> (w, False)),
     tr_delay_ms = \<lambda>w ms. (wait_ms H (fst w) ms, snd w),
     tr_stream = \<lambda>w tx ms.
       received (st25_impl_transceive turns V H w (Some tx) (length tx) (Some (replicate 128 0)) 128 False ms
         False False True True True) w\<rparr>"

lemma impl_transceive_ok:
  assumes "m \<le> length b"
  shows "\<exists>w' new. st25_impl_transceive turns V H w (Some tx) (length tx) (Some b) m with_crc ms anticol no_par
      extended poll clear_first = Some (w', length new, Some (patch b 0 new)) \<and> length new \<le> m"
  using exchange_bounded [OF order_refl assms, of turns V H tx with_crc ms anticol no_par extended poll clear_first "fst w"]
  by (cases w) (auto simp: st25_impl_transceive_def st25_runtime_transceive_common_def)

lemma received_bound:
  "length (snd (received (st25_impl_transceive turns V H w (Some tx) (length tx) (Some (replicate m 0)) m with_crc ms
     anticol no_par extended poll clear_first) w)) \<le> m"
  using impl_transceive_ok [of m "replicate m 0" turns V H w tx with_crc ms anticol no_par extended poll clear_first]
  by (auto simp: received_def)

lemma short_frame_ok:
  "\<exists>w' ok new. st25_impl_send_short turns V H name w (Some [0, 0]) = Some (w', ok, Some new) \<and> length new = 2"
proof -
  obtain c s where w: "w = (c, s)" by fastforce
  have f: "\<exists>c' new. st25_bus_read_fifo V H (Some [0, 0]) 2 c = Some (c', length new, Some (patch [0, 0] 0 new)) \<and> length new \<le> 2" for c
    by (rule read_fifo_ok) simp
  obtain c1 t where 1: "st25_wait_for_irqs turns V H 5000 (short_frame_start V H name c) = (c1, t)" by fastforce
  obtain c2 r where 2: "st25_bus_read_irq_regs V H (wait_ms H c1 7) = (c2, r)" by fastforce
  obtain c3 new where 3: "st25_bus_read_fifo V H (Some [0, 0]) 2 c2 = Some (c3, length new, Some (patch [0, 0] 0 new))" "length new \<le> 2"
    using f [of c2] by blast
  have l: "length (patch [0, 0] 0 new) = 2" using 3(2) by simp
  show ?thesis using 1 2 3 l by (auto simp: w st25_impl_send_short_def st25_iso14443a_send_short_frame_def Let_def)
qed

interpretation st25_front: bounded_radio "st25_radio turns V H"
  for turns :: nat and V :: vendor and H :: "'h board"
proof
  show "length (snd (tr_transceive (st25_radio turns V H) w tx m crc t a p)) \<le> m" for w tx m crc t a p
    by (simp add: st25_radio_def received_bound)
  show "length atqa = 2" if "snd (tr_wupa (st25_radio turns V H) w) = Some atqa" for w atqa
    using that short_frame_ok [of turns V H "''ST25R3916_CMD_TRANSMIT_WUPA''" w]
    by (auto simp: st25_radio_def split: if_splits)
qed

text \<open>The radio of the ISO-DEP session; the clock and the CCID side are parameters.\<close>

definition st25_session_radio ::
    "nat \<Rightarrow> vendor \<Rightarrow> 'h board \<Rightarrow> ('h front \<Rightarrow> 'h front \<times> bool) \<Rightarrow> ('h front \<Rightarrow> 'h front) \<Rightarrow> 'h front radio" where
  "st25_session_radio turns V H abort extension = \<lparr>
     rf_transceive = \<lambda>w tx rx_max with_crc ms.
       received (st25_impl_transceive turns V H w (Some tx) (length tx) (Some (replicate rx_max 0)) rx_max with_crc ms
         False False True True True) w,
     rf_transceive14 = tr_transceive (st25_radio turns V H),
     rf_wupa = \<lambda>w. (case tr_wupa (st25_radio turns V H) w of (w, atqa) \<Rightarrow> (w, atqa \<noteq> None)),
     rf_configure = st25_impl_configure_iso14443a V H,
     hal_millis = \<lambda>(c, s). (case now_millis H c of (c, t) \<Rightarrow> ((c, s), unat t)),
     hal_delay_ms = tr_delay_ms (st25_radio turns V H),
     ccid_abort_pending = abort,
     ccid_time_extension = extension\<rparr>"

lemma st25_session_radio_ok: "radio_ok (st25_session_radio turns V H abort extension)"
  by (simp add: radio_ok_def st25_session_radio_def received_bound st25_front.transceive_bound)

end
