(* ===== verification/St25Timing.thy ===== *)
theory St25Timing
  imports St25Safe
begin

text \<open>
  Time in the driver. With a clock that runs, the waiting loops end before the number of turns the
  model gives them, so that the results do not depend on it; the time allowed for a transmission and
  the steps of the no-response timer are right as long as the 32-bit and 16-bit products fit.
\<close>

section \<open>A clock that runs\<close>

text \<open>
  \<open>us\<close> is the time in microseconds: reading the clock takes some of it, no operation takes more
  than a second besides the waiting it is asked for, and both clocks are cut to 32 bits.
\<close>

definition clock_runs :: "'h board \<Rightarrow> ('h \<Rightarrow> nat) \<Rightarrow> bool" where
  "clock_runs H us \<longleftrightarrow> (\<forall>c.
     snd (now_ticks H c) = of_nat (us (fst (now_ticks H c))) \<and> us c < us (fst (now_ticks H c)) \<and>
     us (fst (now_ticks H c)) \<le> us c + 1000000 \<and>
     snd (now_millis H c) = of_nat (us (fst (now_millis H c)) div 1000) \<and> us c \<le> us (fst (now_millis H c)) \<and>
     us (fst (now_millis H c)) \<le> us c + 1000000 \<and>
     us c \<le> us (bus_begin H c) \<and> us (bus_begin H c) \<le> us c + 1000000 \<and>
     us c \<le> us (bus_end H c) \<and> us (bus_end H c) \<le> us c + 1000000 \<and>
     us c \<le> us (cs_low H c) \<and> us (cs_low H c) \<le> us c + 1000000 \<and>
     us c \<le> us (cs_high H c) \<and> us (cs_high H c) \<le> us c + 1000000 \<and>
     us c \<le> us (service H c) \<and> us (service H c) \<le> us c + 1000000 \<and>
     us c \<le> us (fst (irq_active H c)) \<and> us (fst (irq_active H c)) \<le> us c + 1000000 \<and>
     (\<forall>v. us c \<le> us (fst (spi_xfer H c v)) \<and> us (fst (spi_xfer H c v)) \<le> us c + 1000000) \<and>
     (\<forall>ms. us c + 1000 * ms \<le> us (wait_ms H c ms) \<and> us (wait_ms H c ms) \<le> us c + 1000 * ms + 1000000))"

text \<open>Some time after a state, at most \<open>k\<close> microseconds.\<close>

definition late :: "('h \<Rightarrow> nat) \<Rightarrow> 'h \<Rightarrow> nat \<Rightarrow> 'h \<Rightarrow> bool" where
  "late us c k x \<longleftrightarrow> us c \<le> us x \<and> us x \<le> us c + k"

lemma late_refl: "late us c 0 c"
  by (simp add: late_def)

lemma late_step:
  assumes "late us c k x" "us x \<le> us y \<and> us y \<le> us x + 1000000"
  shows "late us c (k + 1000000) y"
  using assms by (auto simp: late_def)

lemma clock_step:
  assumes "clock_runs H us"
  shows "us x \<le> us (bus_begin H x) \<and> us (bus_begin H x) \<le> us x + 1000000"
    "us x \<le> us (bus_end H x) \<and> us (bus_end H x) \<le> us x + 1000000"
    "us x \<le> us (cs_low H x) \<and> us (cs_low H x) \<le> us x + 1000000"
    "us x \<le> us (cs_high H x) \<and> us (cs_high H x) \<le> us x + 1000000"
    "us x \<le> us (fst (spi_xfer H x v)) \<and> us (fst (spi_xfer H x v)) \<le> us x + 1000000"
    "us x \<le> us (service H x) \<and> us (service H x) \<le> us x + 1000000"
    "us x \<le> us (fst (irq_active H x)) \<and> us (fst (irq_active H x)) \<le> us x + 1000000"
    "us x \<le> us (fst (now_millis H x)) \<and> us (fst (now_millis H x)) \<le> us x + 1000000"
  using assms unfolding clock_runs_def by blast+

lemma late_ops:
  assumes "clock_runs H us" "late us c k x"
  shows "late us c (k + 1000000) (bus_begin H x)" "late us c (k + 1000000) (bus_end H x)"
    "late us c (k + 1000000) (cs_low H x)" "late us c (k + 1000000) (cs_high H x)"
    "late us c (k + 1000000) (fst (spi_xfer H x v))"
  using late_step [OF assms(2)] clock_step [OF assms(1)] by blast+

lemma clock_ticks:
  assumes "clock_runs H us" "now_ticks H c = (c', t)"
  shows "t = of_nat (us c')" "us c < us c'" "us c' \<le> us c + 1000000"
  using assms unfolding clock_runs_def by (metis fst_conv snd_conv)+

lemma clock_millis:
  assumes "clock_runs H us" "now_millis H c = (c', t)"
  shows "t = of_nat (us c' div 1000)" "us c \<le> us c'" "us c' \<le> us c + 1000000"
  using assms unfolding clock_runs_def by (metis fst_conv snd_conv)+

lemma clock_wait:
  assumes "clock_runs H us"
  shows "us c + 1000 * ms \<le> us (wait_ms H c ms)" "us (wait_ms H c ms) \<le> us c + 1000 * ms + 1000000"
  using assms unfolding clock_runs_def by blast+

lemma read_irqs_late:
  assumes "clock_runs H us" "st25_bus_read_irq_regs V H c = (c', s)"
  shows "us c \<le> us c'" "us c' \<le> us c + 9000000"
proof -
  let ?X = "\<lambda>c v. fst (spi_xfer H c v)"
  have e: "c' = bus_end H (cs_high H (?X (?X (?X (?X (?X (cs_low H (bus_begin H c))
      (spi_read_reg (sym8 V ''ST25R3916_REG_IRQ_MAIN''))) 0) 0) 0) 0))"
    using assms(2) by (auto simp: st25_bus_read_irq_regs_def select_chip_def release_chip_def Let_def split_def)
  have "late us c (0 + 1000000 + 1000000 + 1000000 + 1000000 + 1000000 + 1000000 + 1000000 + 1000000 + 1000000) c'"
    unfolding e by (intro late_ops [OF assms(1)] late_refl)
  then show "us c \<le> us c'" "us c' \<le> us c + 9000000" by (simp_all add: late_def)
qed

section \<open>The loops end\<close>

lemma elapsed:
  assumes "s \<le> t" "t < s + 4294967296"
  shows "unat ((of_nat t :: u32) - of_nat s) = t - s"
proof -
  have e: "(of_nat t :: u32) - of_nat s = of_nat (t - s)" using of_nat_diff [OF assms(1), where 'a = u32] by simp
  have "t - s < 2 ^ 32" using assms by simp
  then show ?thesis unfolding e unat_of_nat by (simp add: take_bit_nat_eq_self)
qed

lemma collect_settles:
  assumes clk: "clock_runs H us" and T: "unat timeout \<le> 2147483648"
  shows "s0 \<le> us c \<Longrightarrow> us c \<le> s0 + unat timeout + 20000000 \<Longrightarrow> unat timeout - (us c - s0) < n \<Longrightarrow>
    irq_collect V H (of_nat s0) timeout (n + k) status c = irq_collect V H (of_nat s0) timeout n status c"
proof (induction n arbitrary: c status)
  case (Suc n)
  obtain c1 active where 1: "irq_active H c = (c1, active)" by fastforce
  obtain c2 now where 2: "now_ticks H c1 = (c2, now)" by fastforce
  obtain c3 s where 3: "st25_bus_read_irq_regs V H (service H c2) = (c3, s)" by fastforce
  have t1: "us c \<le> us c1" "us c1 \<le> us c + 1000000" using clock_step(7) [OF clk, of c] 1 by simp_all
  note t2 = clock_ticks [OF clk 2]
  have t3: "us c2 \<le> us c3" "us c3 \<le> us c2 + 10000000"
    using read_irqs_late [OF clk 3] clock_step(6) [OF clk, of c2] by linarith+
  have now: "unat (now - of_nat s0) = us c2 - s0"
    unfolding t2(1) by (rule elapsed) (use t1 t2 Suc.prems T in linarith)+
  have rest: "irq_collect V H (of_nat s0) timeout (n + k) (status OR s) c3 = irq_collect V H (of_nat s0) timeout n (status OR s) c3"
    if "us c2 - s0 < unat timeout"
    by (rule Suc.IH) (use that t1 t2 t3 Suc.prems in linarith)+
  have le: "(timeout \<le> now - of_nat s0) = (unat timeout \<le> us c2 - s0)" by (simp add: word_le_nat_alt now)
  show ?case using 1 2 3 rest le by (simp add: Let_def)
qed simp

lemma wait_settles:
  assumes clk: "clock_runs H us" and T: "unat timeout \<le> 2147483648"
  shows "s0 \<le> us c \<Longrightarrow> us c \<le> s0 + unat timeout + 20000000 \<Longrightarrow> unat timeout - (us c - s0) < n \<Longrightarrow>
    irq_wait V H (of_nat s0) timeout (n + k) c = irq_wait V H (of_nat s0) timeout n c"
proof (induction n arbitrary: c)
  case (Suc n)
  obtain c1 now where 1: "now_ticks H c = (c1, now)" by fastforce
  obtain c2 active where 2: "irq_active H (service H c1) = (c2, active)" by fastforce
  note t1 = clock_ticks [OF clk 1]
  have t2: "us c1 \<le> us c2" "us c2 \<le> us c1 + 2000000"
    using clock_step(6) [OF clk, of c1] clock_step(7) [OF clk, of "service H c1"] 2 by simp_all
  have now: "unat (now - of_nat s0) = us c1 - s0"
    unfolding t1(1) by (rule elapsed) (use t1 Suc.prems T in linarith)+
  have less: "(now - of_nat s0 < timeout) = (us c1 - s0 < unat timeout)" by (simp add: word_less_nat_alt now)
  show ?case
  proof (cases "us c1 - s0 < unat timeout")
    case True
    have "irq_collect V H (of_nat s0) timeout (n + k) 0 c2 = irq_collect V H (of_nat s0) timeout n 0 c2"
      by (rule collect_settles [OF clk T]) (use True t1 t2 Suc.prems in linarith)+
    moreover have "irq_wait V H (of_nat s0) timeout (n + k) c2 = irq_wait V H (of_nat s0) timeout n c2"
      by (rule Suc.IH) (use True t1 t2 Suc.prems in linarith)+
    ultimately show ?thesis using 1 2 True less by (simp add: Let_def)
  qed (use 1 less in \<open>simp add: Let_def\<close>)
qed simp

lemma irq_wait_settles:
  assumes "clock_runs H us" "unat timeout \<le> 2147483648" "unat timeout < n"
  shows "st25_wait_for_irqs (n + k) V H timeout c = st25_wait_for_irqs n V H timeout c"
proof -
  obtain c1 start where 1: "now_ticks H c = (c1, start)" by fastforce
  have "irq_wait V H (of_nat (us c1)) timeout (n + k) c1 = irq_wait V H (of_nat (us c1)) timeout n c1"
    by (rule wait_settles [OF assms(1,2)]) (use assms(3) in simp_all)
  then show ?thesis using 1 clock_ticks(1) [OF assms(1) 1] by (simp add: st25_wait_for_irqs_def)
qed

lemma poll_settles:
  assumes clk: "clock_runs H us" and L: "unat limit \<le> 2147483648"
  shows "m0 \<le> us c div 1000 \<Longrightarrow> us c div 1000 \<le> m0 + unat limit + 20000 \<Longrightarrow> unat limit - (us c div 1000 - m0) < n \<Longrightarrow>
    rx_poll V H (of_nat m0) limit (n + k) irqs c = rx_poll V H (of_nat m0) limit n irqs c"
proof (induction n arbitrary: c irqs)
  case (Suc n)
  obtain c1 now where 1: "now_millis H c = (c1, now)" by fastforce
  obtain c2 s where 2: "st25_bus_read_irq_regs V H c1 = (c2, s)" by fastforce
  note t1 = clock_millis [OF clk 1]
  note t2 = read_irqs_late [OF clk 2]
  let ?c3 = "wait_ms H c2 1"
  have t3: "us c2 + 1000 \<le> us ?c3" "us ?c3 \<le> us c2 + 1001000" using clock_wait [OF clk, of c2 1] by simp_all
  have d1: "us c div 1000 \<le> us c1 div 1000" "us c1 div 1000 \<le> us c div 1000 + 1000" using t1(2,3) by linarith+
  have d3: "us c1 div 1000 + 1 \<le> us ?c3 div 1000" "us ?c3 div 1000 \<le> us c1 div 1000 + 11000" using t2 t3 by linarith+
  have now: "unat (now - of_nat m0) = us c1 div 1000 - m0"
    unfolding t1(1) by (rule elapsed) (use d1 Suc.prems L in linarith)+
  have less: "(now - of_nat m0 < limit) = (us c1 div 1000 - m0 < unat limit)" by (simp add: word_less_nat_alt now)
  have "rx_poll V H (of_nat m0) limit (n + k) (irqs OR s) ?c3 = rx_poll V H (of_nat m0) limit n (irqs OR s) ?c3"
    if "us c1 div 1000 - m0 < unat limit"
    by (rule Suc.IH) (use that d1 d3 Suc.prems in linarith)+
  then show ?case using 1 2 less by (simp add: Let_def)
qed simp

section \<open>An exchange returns\<close>

lemma budget_small: "st25_runtime_tx_wait_budget_us n \<le> 45000"
proof -
  have "u32n (u32n x div 106000 + 4000) \<le> 45000" for x
  proof -
    have a: "u32n x div 106000 \<le> 40518" using u32n_bound [of x] by linarith
    then have "u32n (u32n x div 106000 + 4000) = u32n x div 106000 + 4000" by (intro u32n_id) linarith
    then show ?thesis using a by linarith
  qed
  then show ?thesis by (simp add: st25_runtime_tx_wait_budget_us_def Let_def)
qed

lemma unat_of_nat_u32: "n < 4294967296 \<Longrightarrow> unat (of_nat n :: u32) = n"
  by (simp add: unat_of_nat take_bit_nat_eq_self)

lemma sent_settles:
  assumes "clock_runs H us" "w \<le> 45000" "45000 < n"
  shows "xcv_sent (n + k) V H w c = xcv_sent n V H w c"
proof -
  have "unat (of_nat w :: u32) = w" using assms(2) by (intro unat_of_nat_u32) simp
  then show ?thesis using irq_wait_settles [OF assms(1), of "of_nat w" n k V c] assms(2,3) by (simp add: xcv_sent_def)
qed

lemma received_settles:
  assumes "clock_runs H us" "ms \<le> 65535" "65545 < n"
  shows "xcv_received (n + k) V H poll ms irqs c = xcv_received n V H poll ms irqs c"
proof (cases poll)
  case True
  obtain c1 start where 1: "now_millis H c = (c1, start)" by fastforce
  have L: "unat (of_nat (ms + 10) :: u32) = ms + 10" by (rule unat_of_nat_u32) (use assms(2) in simp)
  have "rx_poll V H (of_nat (us c1 div 1000)) (of_nat (ms + 10)) (n + k) irqs c1 =
      rx_poll V H (of_nat (us c1 div 1000)) (of_nat (ms + 10)) n irqs c1"
    by (rule poll_settles [OF assms(1)]) (use assms(2,3) L in simp_all)
  then show ?thesis using True 1 clock_millis(1) [OF assms(1) 1] by (simp add: xcv_received_def)
qed (simp add: xcv_received_def)

lemma exchange_settles:
  assumes "clock_runs H us" "ms \<le> 65535" "70000 \<le> n"
  shows "st25_runtime_transceive_common_diag (n + k) V H tx tx_len rx m with_crc ms anticol no_par extended poll clear_first c =
    st25_runtime_transceive_common_diag n V H tx tx_len rx m with_crc ms anticol no_par extended poll clear_first c"
proof -
  have n: "45000 < n" "65545 < n" using assms(3) by simp_all
  show ?thesis
    unfolding st25_runtime_transceive_common_diag_def Let_def sent_settles [OF assms(1) budget_small n(1)]
      received_settles [OF assms(1,2) n(2)] ..
qed

text \<open>
  C18: an exchange with the chip returns and keeps to its buffers, whatever the chip answers. With a
  clock that runs the result is the same for every number of turns from 70000 on, so the waiting loops
  end by themselves; the answer is the start of the receive buffer, at most as many bytes as it has,
  the rest of the buffer is untouched, and there are bytes only after the chip signalled the end of
  transmission and of reception.
\<close>

theorem driver_exchange_returns:
  assumes "clock_runs H us" "tx_len \<le> length tx" "m \<le> length b" "ms \<le> 65535" "70000 \<le> turns"
  shows "\<exists>c' new d. (\<forall>k. st25_runtime_transceive_common_diag (turns + k) V H (Some tx) tx_len (Some b) m with_crc ms
      anticol no_par extended poll clear_first c = Some (c', length new, Some (patch b 0 new), d)) \<and>
    length new \<le> m \<and> (new \<noteq> [] \<longrightarrow> got_txe d \<and> got_rxe d)"
  unfolding exchange_settles [OF assms(1,4,5)] simp_thms
  by (rule exchange_bounded [OF assms(2,3)])

text \<open>A board with a clock of one microsecond per reading, and no chip on it.\<close>

definition idle_board :: "nat board" where
  "idle_board = \<lparr>bus_begin = \<lambda>c. c, bus_end = \<lambda>c. c, cs_low = \<lambda>c. c, cs_high = \<lambda>c. c, spi_xfer = \<lambda>c v. (c, 0),
     irq_active = \<lambda>c. (c, False), now_ticks = \<lambda>c. (c + 1, of_nat (c + 1)), now_millis = \<lambda>c. (c, of_nat (c div 1000)),
     wait_ms = \<lambda>c ms. c + 1000 * ms, service = \<lambda>c. c\<rparr>"

lemma idle_clock: "clock_runs idle_board (\<lambda>c. c)"
  unfolding clock_runs_def by (intro allI) (simp add: idle_board_def)

theorem driver_exchange_returns_witness:
  "\<exists>c' new d. (\<forall>k. st25_runtime_transceive_common_diag (70000 + k) (\<lambda>_. 1) idle_board (Some [0x30, 0x04]) 2
      (Some (replicate 18 0)) 18 True 20 False False False False True 0 =
        Some (c', length new, Some (patch (replicate 18 0) 0 new), d)) \<and>
    length new \<le> 18 \<and> (new \<noteq> [] \<longrightarrow> got_txe d \<and> got_rxe d)"
proof (rule driver_exchange_returns [OF idle_clock])
  show "2 \<le> length [0x30 :: u8, 0x04]" by simp
  show "18 \<le> length (replicate 18 (0 :: u8))" by (simp only: length_replicate order_refl)
  show "20 \<le> (65535 :: nat)" by simp
  show "(70000 :: nat) \<le> 70000" by (rule order_refl)
qed

section \<open>Products that fit\<close>

text \<open>
  C20: the time allowed for a transmission covers the frame for up to 423 bytes, and the no-response
  timer is the asked time or its largest value for up to 21843 ms. One byte or one millisecond
  more and the products wrap around: 424 bytes get the 5 ms of an empty frame, 21844 ms one step.
\<close>

theorem timing_products:
  "(\<forall>n\<le>423. (n * 10 + 64) * 1000000 \<le> 106000 * st25_runtime_tx_wait_budget_us n) \<and>
   (\<forall>t\<le>21843. nrt_short t = (min (3 * t + 5) 255, 3 * t + 5 > 255)) \<and>
   st25_runtime_tx_wait_budget_us 424 = 5000 \<and> nrt_short 21844 = (1, False)"
proof -
  have "(n * 10 + 64) * 1000000 \<le> 106000 * st25_runtime_tx_wait_budget_us n" if "n \<le> 423" for n
  proof -
    have b: "n * 10 + 64 \<le> 4294" using that by simp
    define x where "x = (n * 10 + 64) * 1000000 + 105999"
    have x: "x < 4294967296" using mult_le_mono1 [OF b, of 1000000] unfolding x_def by simp
    have e: "u32n (n * 10 + 64) = n * 10 + 64" "u32n ((n * 10 + 64) * 1000000) = (n * 10 + 64) * 1000000" "u32n x = x"
      using b x unfolding x_def by (simp_all add: u32n_def)
    have "x div 106000 + 4000 < 4294967296" using x by linarith
    then have f: "u32n (x div 106000 + 4000) = x div 106000 + 4000" by (rule u32n_id)
    have "(n * 10 + 64) * 1000000 \<le> 106000 * (x div 106000)" unfolding x_def by linarith
    also have "106000 * (x div 106000) \<le> 106000 * (x div 106000 + 4000)" by (rule mult_le_mono2) simp
    finally have "(n * 10 + 64) * 1000000 \<le> 106000 * (x div 106000 + 4000)" .
    then show ?thesis unfolding st25_runtime_tx_wait_budget_us_def e(1) Let_def e(2) x_def [symmetric] e(3) f
      by (auto split: if_splits)
  qed
  moreover have "nrt_short t = (min (3 * t + 5) 255, 3 * t + 5 > 255)" if "t \<le> 21843" for t
    using that by (simp add: nrt_short_def u16n_def u32n_def Let_def mult.commute)
  moreover have "st25_runtime_tx_wait_budget_us 424 = 5000" "nrt_short 21844 = (1, False)"
    by (simp_all add: st25_runtime_tx_wait_budget_us_def nrt_short_def u16n_def u32n_def Let_def)
  ultimately show ?thesis by blast
qed

theorem timing_products_witness:
  "(256 * 10 + 64) * 1000000 \<le> 106000 * st25_runtime_tx_wait_budget_us 256 \<and> nrt_short 20 = (65, False)"
proof -
  have "(256 * 10 + 64) * 1000000 \<le> 106000 * st25_runtime_tx_wait_budget_us 256"
    using conjunct1 [OF timing_products, rule_format, of 256] by simp
  moreover have "nrt_short 20 = (65, False)"
    using conjunct1 [OF conjunct2 [OF timing_products], rule_format, of 20] by simp
  ultimately show ?thesis by blast
qed

end
