(* ===== verification/St25Frame.thy ===== *)
theory St25Frame
  imports St25Safe
begin

text \<open>
  What the driver sends on the SPI bus for an exchange. The board keeps a log of the chip select and
  of the bytes sent; the specification is the list of transactions the data sheet asks for: stop and
  empty the FIFO, load the frame, set its length and the timer, transmit.
\<close>

section \<open>The log of the bus\<close>

datatype bus_event = Chosen | Sent u8 | Released

definition spi_log :: "'h board \<Rightarrow> ('h \<Rightarrow> bus_event list) \<Rightarrow> bool" where
  "spi_log H log \<longleftrightarrow> (\<forall>c.
     log (cs_low H c) = log c @ [Chosen] \<and> log (cs_high H c) = log c @ [Released] \<and>
     (\<forall>v. log (fst (spi_xfer H c v)) = log c @ [Sent v]) \<and>
     log (bus_begin H c) = log c \<and> log (bus_end H c) = log c \<and> log (service H c) = log c \<and>
     log (fst (irq_active H c)) = log c \<and> log (fst (now_ticks H c)) = log c \<and>
     log (fst (now_millis H c)) = log c \<and> (\<forall>ms. log (wait_ms H c ms) = log c))"

lemma spi_logD:
  assumes "spi_log H log"
  shows "log (cs_low H c) = log c @ [Chosen]" "log (cs_high H c) = log c @ [Released]"
    "log (fst (spi_xfer H c v)) = log c @ [Sent v]" "log (bus_begin H c) = log c" "log (bus_end H c) = log c"
    "log (service H c) = log c" "log (fst (irq_active H c)) = log c" "log (fst (now_ticks H c)) = log c"
    "log (fst (now_millis H c)) = log c" "log (wait_ms H c ms) = log c"
  using assms unfolding spi_log_def by blast+

definition transaction :: "bytes \<Rightarrow> bus_event list" where
  "transaction bs = Chosen # map Sent bs @ [Released]"

definition transactions :: "bytes list \<Rightarrow> bus_event list" where
  "transactions bss = concat (map transaction bss)"

definition irq_access :: "vendor \<Rightarrow> bytes" where
  "irq_access V = [spi_read_reg (sym8 V ''ST25R3916_REG_IRQ_MAIN''), 0, 0, 0, 0]"

lemma log_ops:
  assumes l: "spi_log H log"
  shows "log (st25_bus_write_reg H r v c) = log c @ transaction [spi_write_reg r, v]"
    "log (fst (st25_bus_read_reg H r c)) = log c @ transaction [spi_read_reg r, 0]"
    "log (st25_bus_direct_cmd H x c) = log c @ transaction [x]"
    "log (fst (st25_bus_read_irq_regs V H c)) = log c @ transaction (irq_access V)"
  using spi_logD [OF l]
  by (simp_all add: st25_bus_write_reg_def st25_bus_read_reg_def st25_bus_direct_cmd_def st25_bus_read_irq_regs_def
      select_chip_def release_chip_def transaction_def irq_access_def Let_def split_def)

lemma log_set_bits:
  assumes l: "spi_log H log"
  shows "log (st25_bus_set_reg_bits H r bits c) = log c @
    transactions [[spi_read_reg r, 0], [spi_write_reg r, snd (st25_bus_read_reg H r c) OR bits]]"
  by (simp add: st25_bus_set_reg_bits_def split_def Let_def log_ops [OF l] transactions_def)

lemma log_load:
  "spi_log H log \<Longrightarrow> i + n \<le> length data \<Longrightarrow> fifo_load H (Some data) i n c = Some c' \<Longrightarrow>
    log c' = log c @ map Sent (take n (drop i data))"
proof (induction n arbitrary: i c)
  case (Suc n)
  have "drop i data = data ! i # drop (Suc i) data" using Suc.prems(2) by (simp add: Cons_nth_drop_Suc)
  then show ?case using Suc.IH [of "i + 1" "fst (spi_xfer H c (data ! i))"] Suc.prems spi_logD(3) [OF Suc.prems(1)] by simp
qed simp

lemma log_write_fifo:
  assumes l: "spi_log H log" and n: "n \<le> length data" and f: "st25_bus_write_fifo H (Some data) n c = Some c'"
  shows "log c' = log c @ transaction (0x80 # take n data)"
proof -
  obtain c1 where "fifo_load H (Some data) 0 n (fst (spi_xfer H (select_chip H c) 0x80)) = Some c1" "c' = release_chip H c1"
    using f by (auto simp: st25_bus_write_fifo_def Let_def bind_eq_Some_conv)
  then show ?thesis using log_load [OF l, of 0 n data] n spi_logD [OF l]
    by (simp add: release_chip_def select_chip_def transaction_def)
qed

section \<open>An exchange on the bus\<close>

definition prepare_transactions :: "vendor \<Rightarrow> bool \<Rightarrow> bool \<Rightarrow> u8 \<Rightarrow> bytes list" where
  "prepare_transactions V anticol no_rx_par op =
     [[sym8 V ''ST25R3916_CMD_STOP''], [sym8 V ''ST25R3916_CMD_CLEAR_FIFO''], [sym8 V ''ST25R3916_CMD_RESET_RXGAIN''],
      [spi_read_reg (sym8 V ''ST25R3916_REG_OP_CONTROL''), 0],
      [spi_write_reg (sym8 V ''ST25R3916_REG_OP_CONTROL''), op OR sym8 V ''ST25R3916_REG_OP_CONTROL_rx_en''],
      irq_access V,
      [spi_write_reg (sym8 V ''ST25R3916_REG_ISO14443A_NFC''),
       (if anticol then sym8 V ''ST25R3916_REG_ISO14443A_NFC_antcl'' else 0) OR
       (if no_rx_par then sym8 V ''ST25R3916_REG_ISO14443A_NFC_no_rx_par'' else 0)]]"

definition transmit_transactions :: "vendor \<Rightarrow> nat \<Rightarrow> bool \<Rightarrow> nat \<Rightarrow> bytes list" where
  "transmit_transactions V bits with_crc steps =
     [[spi_write_reg (sym8 V ''ST25R3916_REG_NUM_TX_BYTES2''), byte bits],
      [spi_write_reg (sym8 V ''ST25R3916_REG_NUM_TX_BYTES1''), byte (bits div 256)],
      [spi_write_reg (sym8 V ''ST25R3916_REG_TIMER_EMV_CONTROL''), timer_emv V],
      [spi_write_reg (sym8 V ''ST25R3916_REG_NO_RESPONSE_TIMER1''), byte (steps div 256)],
      [spi_write_reg (sym8 V ''ST25R3916_REG_NO_RESPONSE_TIMER2''), byte steps],
      irq_access V,
      [sym8 V (if with_crc then ''ST25R3916_CMD_TRANSMIT_WITH_CRC'' else ''ST25R3916_CMD_TRANSMIT_WITHOUT_CRC'')]]"

lemma log_prepare:
  assumes l: "spi_log H log"
  shows "\<exists>op. log (xcv_prepare V H anticol no_par c) = log c @ transactions (prepare_transactions V anticol no_par op)"
  unfolding xcv_prepare_def prepare_transactions_def Let_def direct_cmd_def reg_set_def reg_write_def st25_clear_irqs_def
    log_ops [OF l] log_set_bits [OF l]
  by (rule exI) (simp add: transactions_def)

lemma high_bits:
  assumes "n < 1024"
  shows "byte (8 * n div 256) AND 0x1F = byte (8 * n div 256)"
proof -
  have k: "8 * n div 256 < 32" using assms by linarith
  have m: "(0x1F :: u8) = mask 5" by (simp add: mask_eq_exp_minus_1)
  have "unat (take_bit 5 (byte (8 * n div 256))) = unat (byte (8 * n div 256))"
    unfolding unsigned_take_bit_eq unat_byte using k by (simp add: take_bit_nat_eq_self)
  then show ?thesis unfolding m take_bit_eq_mask [symmetric] by (simp add: word_unat_eq_iff)
qed

lemma log_start:
  assumes l: "spi_log H log" and n: "n < 1024"
  shows "log (xcv_start V H n with_crc steps c) = log c @ transactions (transmit_transactions V (8 * n) with_crc steps)"
proof -
  have u: "u16n (n * 8) = 8 * n" using n by simp
  show ?thesis
    unfolding xcv_start_def transmit_transactions_def Let_def u high_bits [OF n] direct_cmd_def reg_write_def
      st25_clear_irqs_def log_ops [OF l]
    by (simp add: transactions_def)
qed

lemma log_wait:
  assumes l: "spi_log H log"
  shows "\<exists>post. log (fst (irq_collect V H start timeout n status c)) = log c @ post"
    and "\<exists>post. log (fst (irq_wait V H start timeout n c)) = log c @ post"
proof -
  show a: "\<exists>post. log (fst (irq_collect V H start timeout n status c)) = log c @ post" for n status c
  proof (induction n arbitrary: status c)
    case (Suc n)
    obtain c1 active where 1: "irq_active H c = (c1, active)" by fastforce
    obtain c2 now where 2: "now_ticks H c1 = (c2, now)" by fastforce
    obtain c3 s where 3: "st25_bus_read_irq_regs V H (service H c2) = (c3, s)" by fastforce
    have e: "log c1 = log c" "log c2 = log c" "log c3 = log c @ transaction (irq_access V)"
      using spi_logD(7) [OF l, of c] spi_logD(8) [OF l, of c1] spi_logD(6) [OF l, of c2] log_ops(4) [OF l, of V "service H c2"] 1 2 3
      by simp_all
    obtain post where "log (fst (irq_collect V H start timeout n (status OR s) c3)) = log c3 @ post" using Suc.IH by blast
    then show ?case using 1 2 3 e by (simp add: Let_def)
  qed simp
  show "\<exists>post. log (fst (irq_wait V H start timeout n c)) = log c @ post"
  proof (induction n arbitrary: c)
    case (Suc n)
    obtain c1 now where 1: "now_ticks H c = (c1, now)" by fastforce
    obtain c2 active where 2: "irq_active H (service H c1) = (c2, active)" by fastforce
    have e: "log c1 = log c" "log c2 = log c"
      using spi_logD(8) [OF l, of c] spi_logD(6) [OF l, of c1] spi_logD(7) [OF l, of "service H c1"] 1 2 by simp_all
    obtain post post' where "log (fst (irq_wait V H start timeout n c2)) = log c2 @ post"
      "log (fst (irq_collect V H start timeout n 0 c2)) = log c2 @ post'" using Suc.IH a by blast
    then show ?case using 1 2 e by (simp add: Let_def)
  qed simp
qed

lemma log_poll:
  assumes l: "spi_log H log"
  shows "\<exists>post. log (fst (rx_poll V H start limit n irqs c)) = log c @ post"
proof (induction n arbitrary: irqs c)
  case (Suc n)
  obtain c1 now where 1: "now_millis H c = (c1, now)" by fastforce
  obtain c2 s where 2: "st25_bus_read_irq_regs V H c1 = (c2, s)" by fastforce
  have e: "log c1 = log c" "log c2 = log c @ transaction (irq_access V)" "log (wait_ms H c2 1) = log c2"
    using spi_logD(9) [OF l, of c] log_ops(4) [OF l, of V c1] spi_logD(10) [OF l] 1 2 by simp_all
  obtain post where "log (fst (rx_poll V H start limit n (irqs OR s) (wait_ms H c2 1))) = log (wait_ms H c2 1) @ post"
    using Suc.IH by blast
  then show ?case using 1 2 e by (simp add: Let_def)
qed simp

lemma log_sent:
  assumes l: "spi_log H log"
  shows "\<exists>post. log (fst (xcv_sent turns V H w c)) = log c @ post"
proof -
  obtain c1 start where 1: "now_ticks H c = (c1, start)" by fastforce
  obtain c2 irqs where 2: "irq_wait V H start (of_nat w) turns c1 = (c2, irqs)" by fastforce
  obtain post where "log c2 = log c1 @ post" using log_wait(2) [OF l, of V start "of_nat w" turns c1] 2 by auto
  then have e: "log c2 = log c @ post" using spi_logD(8) [OF l, of c] 1 by simp
  obtain c3 s where 3: "st25_bus_read_irq_regs V H c2 = (c3, s)" by fastforce
  then have "log c3 = log c @ post @ transaction (irq_access V)" using log_ops(4) [OF l, of V c2] e by simp
  then show ?thesis using 1 2 3 e by (simp add: xcv_sent_def st25_wait_for_irqs_def)
qed

lemma log_received:
  assumes l: "spi_log H log"
  shows "\<exists>post. log (fst (xcv_received turns V H poll ms irqs c)) = log c @ post"
proof (cases poll)
  case True
  obtain c1 start where 1: "now_millis H c = (c1, start)" by fastforce
  then show ?thesis using True log_poll [OF l, of V start "of_nat (ms + 10)" turns irqs c1] spi_logD(9) [OF l, of c]
    by (simp add: xcv_received_def)
next
  case False
  obtain c1 s where 1: "st25_bus_read_irq_regs V H (wait_ms H c (ms + 2)) = (c1, s)" by fastforce
  then show ?thesis using False log_ops(4) [OF l, of V "wait_ms H c (ms + 2)"] spi_logD(10) [OF l]
    by (simp add: xcv_received_def)
qed

lemma log_unload:
  assumes l: "spi_log H log"
  shows "fifo_unload H p i n c = Some (c', p') \<Longrightarrow> \<exists>post. log c' = log c @ post"
proof (induction n arbitrary: p i c)
  case (Suc n)
  obtain c1 v where 1: "spi_xfer H c 0 = (c1, v)" by fastforce
  obtain q where "fifo_unload H q (i + 1) n c1 = Some (c', p')" using Suc.prems 1 by (auto simp: bind_eq_Some_conv)
  then obtain post where "log c' = log c1 @ post" using Suc.IH by blast
  then show ?case using spi_logD(3) [OF l, of c 0] 1 by simp
qed simp

lemma log_fetch:
  assumes l: "spi_log H log" and f: "xcv_fetch V H clear_first p m c = Some (c', n, p')"
  shows "\<exists>post. log c' = log c @ post"
proof -
  let ?c0 = "if clear_first then reg_write V H ''ST25R3916_REG_ISO14443A_NFC'' 0 c else c"
  obtain c3 where 3: "st25_bus_read_fifo V H p m ?c0 = Some (c3, n, p')"
    "c' = (if clear_first then c3 else reg_write V H ''ST25R3916_REG_ISO14443A_NFC'' 0 c3)"
    using f by (auto simp: xcv_fetch_def Let_def bind_eq_Some_conv split: if_splits)
  have w: "\<exists>post. log (reg_write V H name v c) = log c @ post" for name v c
    by (simp add: reg_write_def log_ops [OF l])
  obtain c1 fs1 where 1: "st25_bus_read_reg H (sym8 V ''ST25R3916_REG_FIFO_STATUS1'') ?c0 = (c1, fs1)" by fastforce
  obtain c2 fs2 where 2: "st25_bus_read_reg H (sym8 V ''ST25R3916_REG_FIFO_STATUS2'') c1 = (c2, fs2)" by fastforce
  have e: "\<exists>post. log c2 = log ?c0 @ post"
    using log_ops(2) [OF l, of _ ?c0] log_ops(2) [OF l, of _ c1] 1 2 by (metis append_assoc fst_conv)
  have g: "\<exists>post. log c3 = log c2 @ post"
  proof (cases "min (fifo_level V fs1 fs2) m = 0")
    case True
    then show ?thesis using 3(1) 1 2 by (simp add: st25_bus_read_fifo_def)
  next
    case False
    then obtain c4 where 4: "fifo_unload H p 0 (min (fifo_level V fs1 fs2) m) (fst (spi_xfer H (select_chip H c2) 0x9F)) = Some (c4, p')"
      "c3 = release_chip H c4"
      using 3(1) unfolding st25_bus_read_fifo_def Let_def 1 2 prod.case if_not_P [OF False]
      by (auto simp: bind_eq_Some_conv)
    then show ?thesis using log_unload [OF l 4(1)] spi_logD [OF l] by (auto simp: release_chip_def select_chip_def)
  qed
  have c0: "\<exists>post. log ?c0 = log c @ post" using w by simp
  have c': "\<exists>post. log c' = log c3 @ post" using w 3(2) by simp
  obtain p1 p2 p3 p4 where "log ?c0 = log c @ p1" "log c2 = log ?c0 @ p2" "log c3 = log c2 @ p3" "log c' = log c3 @ p4"
    using c0 e g c' by (elim exE) rule
  then show ?thesis by simp
qed

lemma exchange_log:
  assumes l: "spi_log H log" and n: "0 < tx_len" "tx_len \<le> length tx" "tx_len < 1024" and b: "0 < m \<longrightarrow> rx \<noteq> None"
    and x: "st25_runtime_transceive_common_diag turns V H (Some tx) tx_len rx m with_crc ms anticol no_par
      extended poll clear_first c = Some (c', k, rx', d)"
  shows "\<exists>op post. log c' = log c @ transactions (prepare_transactions V anticol no_par op @ [0x80 # take tx_len tx] @
    transmit_transactions V (8 * tx_len) with_crc (nrt_steps_programmed d)) @ post"
proof -
  obtain op where 1: "log (xcv_prepare V H anticol no_par c) = log c @ transactions (prepare_transactions V anticol no_par op)"
    using log_prepare [OF l] by blast
  obtain c1 where 2: "st25_bus_write_fifo H (Some tx) tx_len (xcv_prepare V H anticol no_par c) = Some c1"
    using write_fifo_total [OF n(2), of H "xcv_prepare V H anticol no_par c"] by blast
  obtain steps clamped where 3: "(if extended then nrt_extended ms else nrt_short ms) = (steps, clamped)" by fastforce
  have start: "log (xcv_start V H tx_len with_crc steps c1) = log c @ transactions (prepare_transactions V anticol no_par op @
      [0x80 # take tx_len tx] @ transmit_transactions V (8 * tx_len) with_crc steps)"
    by (simp add: log_start [OF l n(3)] log_write_fifo [OF l n(2) 2] 1 transactions_def)
  obtain c2 irqs where 4: "xcv_sent turns V H (st25_runtime_tx_wait_budget_us tx_len) (xcv_start V H tx_len with_crc steps c1) = (c2, irqs)"
    by fastforce
  obtain c3 irqs3 where 5: "xcv_received turns V H poll ms irqs c2 = (c3, irqs3)" by fastforce
  obtain p2 p3 where 6: "log c2 = log (xcv_start V H tx_len with_crc steps c1) @ p2" "log c3 = log c2 @ p3"
    using log_sent [OF l] log_received [OF l] 4 5 by (metis fst_conv)
  have no: "\<not> (tx_len > 0 \<and> Some tx = None \<or> m > 0 \<and> rx = None)" using b by auto
  have yes: "tx_len > 0 \<and> Some tx \<noteq> None" using n(1) by simp
  have d: "nrt_steps_programmed d = steps" and c': "\<exists>post. log c' = log (xcv_start V H tx_len with_crc steps c1) @ post"
    using x log_fetch [OF l, of V clear_first rx m c3] 6
    unfolding st25_runtime_transceive_common_diag_def Let_def if_not_P [OF no] if_P [OF yes] 2 3 Option.bind.bind_lunit prod.case 4 5
    by (auto simp: bind_eq_Some_conv split: if_splits)
  then show ?thesis unfolding d using start by auto
qed

text \<open>
  C19: whatever the chip answers, an exchange starts with exactly these transactions on the bus: stop,
  empty the FIFO, switch on the receiver and set the protocol register; the frame into the FIFO as
  one transaction, byte for byte; its length in bits and the steps of the timer; and the command that
  transmits it.
\<close>

theorem frame_on_the_bus:
  assumes "spi_log H log" "0 < tx_len" "tx_len \<le> length tx" "tx_len < 1024" "m \<le> length b"
  shows "\<exists>c' k rx' d op post. st25_runtime_transceive_common_diag turns V H (Some tx) tx_len (Some b) m with_crc ms anticol no_par
      extended poll clear_first c = Some (c', k, rx', d) \<and>
    log c' = log c @ transactions (prepare_transactions V anticol no_par op @ [0x80 # take tx_len tx] @
      transmit_transactions V (8 * tx_len) with_crc (nrt_steps_programmed d)) @ post"
proof -
  obtain c' new d where x: "st25_runtime_transceive_common_diag turns V H (Some tx) tx_len (Some b) m with_crc ms anticol no_par
      extended poll clear_first c = Some (c', length new, Some (patch b 0 new), d)"
    using exchange_bounded [OF assms(3,5), of turns V H with_crc ms anticol no_par extended poll clear_first c] by blast
  show ?thesis using exchange_log [OF assms(1-4) _ x] x by auto
qed

text \<open>A board that keeps the log and has no chip.\<close>

definition log_board :: "bus_event list board" where
  "log_board = \<lparr>bus_begin = \<lambda>c. c, bus_end = \<lambda>c. c, cs_low = \<lambda>c. c @ [Chosen], cs_high = \<lambda>c. c @ [Released],
     spi_xfer = \<lambda>c v. (c @ [Sent v], 0), irq_active = \<lambda>c. (c, False), now_ticks = \<lambda>c. (c, 0), now_millis = \<lambda>c. (c, 0),
     wait_ms = \<lambda>c ms. c, service = \<lambda>c. c\<rparr>"

theorem frame_on_the_bus_witness:
  "\<exists>c' k rx' d op post. st25_runtime_transceive_common_diag 3 (\<lambda>_. 1) log_board (Some [0x30, 0x04]) 2 (Some (replicate 18 0)) 18
      True 20 False False False False True [] = Some (c', k, rx', d) \<and>
    c' = [] @ transactions (prepare_transactions (\<lambda>_. 1) False False op @ [0x80 # take 2 [0x30, 0x04]] @
      transmit_transactions (\<lambda>_. 1) (8 * 2) True (nrt_steps_programmed d)) @ post"
proof (rule frame_on_the_bus [where log = "\<lambda>c. c"])
  show "spi_log log_board (\<lambda>c. c)" unfolding spi_log_def by (intro allI) (simp add: log_board_def)
qed (simp_all only: length_replicate order_refl, simp_all)

end
