(* ===== verification/Spec2Isabelle.thy ===== *)
theory Spec2Isabelle
  imports UsbPort CborItems CcidChains IsoDepTransfer NdefPrinted NdefSafe TagType2Safe TagType2Store TagType5Safe SecurityKeySafe TagType4File CcidStorageStore CcidHost St25Timing St25Frame
begin

text \<open>
  Verification of the NFC reader firmware in \<^verbatim>\<open>src/firmware/libraries/NeroNfc/src\<close>: an NFC
  reader on the ST25R3916 that shows up at the host as a USB smart card reader (CCID), relays APDUs to
  security keys, serves storage tags by PC/SC commands, and a writer that builds NDEF messages.

  \<^bold>\<open>The parts, from the host to the chip.\<close>

  \<^item> USB: \<open>UsbPort\<close> is the class driver \<^verbatim>\<open>usb/ccid_usb_tinyusb.c\<close> (a record \<open>usb_port\<close> of its static
    state, one definition per callback), which collects packets into frames by \<open>RxAssembly\<close>
    (\<^verbatim>\<open>usb/ccid_usb_rx_assembly.c\<close>). While it sends it services the USB stack, and the stack calls it
    back: the model runs any callbacks the stack may make at each such wait (\<open>bus_task\<close>); the frame header is \<open>CcidFrame\<close> (\<^verbatim>\<open>protocol/nfc_ccid_frame.c\<close>).
  \<^item> The CCID service: \<open>CcidProtocol\<close> (message codec), \<open>CcidXfr\<close> (context, replies, chains), \<open>CcidBulk\<close>
    (the dispatcher of \<^verbatim>\<open>reader/reader_ccid_bulk.c\<close>, card events and the poll of \<^verbatim>\<open>reader/reader_ccid.c\<close>).
    The state is the record \<open>ccid\<close>; the card side is the record \<open>card_services\<close> of functions, of which
    the theorems on the service assume \<open>services_ok\<close>: the dispatch of a command and the copy of the ATR
    stay inside their buffers and change the context as they may. \<open>CcidHost\<close> is the dispatcher itself
    (\<^verbatim>\<open>reader/reader_ccid_pn53x.c\<close>), on the models of the storage commands and of the relay below.
  \<^item> Storage tags behind the service: \<open>CcidStorage\<close> is \<^verbatim>\<open>reader/reader_ccid_storage.c\<close>. It uses the tag
    paths \<open>TagType2\<close>, \<open>TagType5\<close> and \<open>TagType4\<close> (\<^verbatim>\<open>reader/reader_tags*.c\<close>), with the tag information of
    \<open>TagInfo\<close>, the memory geometry of \<open>StorageGeometry\<close> and the unit-wise writes of \<open>TagStorage\<close>.
  \<^item> Security keys: \<open>SecurityKeyRelay\<close> selects applications and relays APDUs
    (\<^verbatim>\<open>reader/reader_security_key*.c\<close>) over the ISO-DEP layer: \<open>IsoDepTiming\<close>, \<open>IsoDepFrame\<close>,
    \<open>IsoDepSession\<close> (activation, RATS, reopening) and \<open>IsoDepExchange\<close> (block chaining, waiting time
    extensions, retries). The commands are built and read by \<open>CtapCodec\<close>, \<open>Cbor\<close> and \<open>Iso7816\<close>.
  \<^item> NDEF: \<open>NdefTlv\<close> and \<open>NdefRecord\<close> (shared walkers), \<open>WriterPayload\<close> (\<^verbatim>\<open>writer/writer_payload.c\<close>) and
    \<open>NdefText\<close> (\<^verbatim>\<open>reader/reader_tags_ndef_print.c\<close>).
  \<^item> The front end: \<open>Iso14443a\<close> (anticollision and activation), \<open>Iso15693\<close> and \<open>Iso15693Cmd\<close> (symbol
    streams and block commands), \<open>ReaderProtocol\<close> (\<^verbatim>\<open>reader/reader_protocol.c\<close>), and the driver of the
    chip: \<open>St25Bus\<close> (SPI and interrupts), \<open>St25Runtime\<close> (start-up, field, one exchange) and \<open>St25Radio\<close>
    (short frames, settings, the bound operations).
  \<^item> \<open>Prelude\<close> and \<open>MemUtil\<close> (\<^verbatim>\<open>nero_nfc_mem_util.h\<close>) are under all of them.

  \<^bold>\<open>How the code is modelled.\<close> A pointer to bytes is a \<open>cptr\<close>, an optional list whose length is the
  object it points into; an access behind the object is a fault, the outer \<open>None\<close> of every result. A
  byte is an 8-bit word; lengths are naturals with the casts and wrap-around of the source written
  out (\<open>u8n\<close>, \<open>u16n\<close>, \<open>u32n\<close>). Out-parameters are results. State is passed explicitly; the state of the
  hardware, the card or the host is the state \<open>'c\<close> of a record of functions (\<open>board\<close>, \<open>tag_radio\<close>,
  \<open>radio\<close>, \<open>card_services\<close>), so that it may do anything at any time. Log output is left out except in
  the NDEF printer, whose lines are the point.

  \<^bold>\<open>Interfaces.\<close> The locales state what one layer asks of the next, and each is interpreted on the
  code's own definitions: \<open>length_field\<close> and \<open>cell_memory\<close> for loads and stores, \<open>select_step\<close> for a
  cascade level, \<open>vicinity_transport\<close> for ISO 15693 commands, \<open>unit_writer\<close>, \<open>unit_memory\<close> and
  \<open>unit_storage\<close> for tag memories, \<open>apdu_channel\<close> for the exchange of APDUs, and \<open>bounded_radio\<close> for
  the front end, which the chip driver implements (\<open>St25Safe.st25_front\<close>).

  \<^bold>\<open>What the theories show.\<close>

  \<^item> \<open>UsbPort\<close>, \<open>RxAssembly\<close>: the driver keeps its invariant under any USB events, frames are
    reassembled from any split into packets, and what is delivered is what was sent. A response goes
    out as its packets whatever the stack calls back while the driver waits, but not always to one
    endpoint: a bus reset in the middle sends the rest to address 0 (\<open>reset_mid_send\<close>).
  \<^item> \<open>CcidReader\<close>, \<open>CcidDispatch\<close>, \<open>CcidService\<close>, \<open>CcidChains\<close>: every message is answered once and with the
    right slot and sequence number; the invariant holds under any sequence of events; the slot status refines
    a three-state machine; chains in both directions deliver the bytes; while an abort is announced no
    message reaches the card, and the matching command ends it. \<open>CcidHost\<close>: the modelled dispatcher and ATR
    keep the contract \<open>services_ok\<close>, call by call (\<open>dispatch_answers\<close>, \<open>copy_atr_answers\<close>), on
    well-formed card states and as long as the exchange with the card comes back. They are not plugged into
    the record: the theorems on the service stay theorems about any card side with the contract, and their
    witnesses use a small one.
  \<^item> \<open>IsoDepTransfer\<close>: against a card that follows the block protocol an APDU arrives complete and so
    does its response; \<open>IsoDepExchange\<close> and \<open>SecurityKeySafe\<close>: against any card nothing faults. A card
    that chains for ever is never left, whatever the command, the clock and the abort request
    (\<open>endless_chain_never_returns\<close>). \<open>IsoDepFrame\<close> gives the exact table of the check-sum heuristic.
  \<^item> \<open>TagType2Safe\<close>, \<open>TagType5Safe\<close>, \<open>TagType4Safe\<close>, \<open>CcidStorageSafe\<close>: the tag paths and the storage
    commands stay inside their buffers for any card and return, but for GET DATA with P1 = 09 on a Type 4
    tag, which runs as long as the exchange with it; \<open>TagType2Store\<close>, \<open>CcidStorageStore\<close> and
    \<open>TagType4File\<close>: on tags with a memory, what is written is read back and what is stored is read.
  \<^item> \<open>NdefRoundtrip\<close>, \<open>NdefReadback\<close>, \<open>NdefShown\<close>, \<open>NdefPrinted\<close>: what the writer builds, the reader shows.
    The writer stores more (\<open>storable\<close>) than the decoders accept (\<open>content_ok\<close>); the rest is listed without text.
    \<open>NdefSafe\<close>: the printer returns for any tag contents. \<open>CborItems\<close>: the CBOR skipper accepts exactly the items of
    its grammar.
  \<^item> \<open>St25Safe\<close>, \<open>St25Frame\<close>, \<open>St25Timing\<close>: the driver stays inside its buffers, puts the frame on the
    bus as the chip expects it, and its waiting loops end.

  \<^bold>\<open>Bounds.\<close> Loops with a decreasing bound are structural or have a measure. The exchange with a card may
  run for ever, so it takes fuel, and \<open>Some None\<close> is the value of an exchange that still runs; the
  theorems on transfers give the fuel that is enough, and those on safety hold for every fuel. The chip driver
  takes the number of turns of its waiting loops; \<open>St25Timing\<close> shows that with a running clock the
  result is the same for every number from 70000 on, the largest wait being 65545 ms. The recursion of
  the CBOR skipper is bounded by its depth of 33 as in the code.

  \<^bold>\<open>Not modelled.\<close> The vendor's register map (a parameter from symbol names to values), SPI, pins, clocks and
  the USB stack (parameters); the PN53x emulation of \<^verbatim>\<open>reader_ccid_pn53x.c\<close> (a parameter of
  its dispatcher); time extensions while a session is being opened; the delay of the USB wait; the writer application with its own copies of the tag protocols, the serial command
  line, the tutorial output and the applications' polling loops (mostly printing); the mode line
  scanner and the constant USB descriptors; board support and logging; the user-space programs in C++,
  the tests and the build files.
\<close>

end
